(* ===== verification/Prelude.thy ===== *)
theory Prelude
  imports Main "HOL-Library.AList" "HOL-Library.Multiset"
begin

text \<open>
  Shared by every theory of the development: Go maps as association lists, signed
  64-bit counters as integers with their range written out, and the generic lemmas on
  lists that the component proofs use.

  A Go map is a list of key/value pairs with distinct keys.  The order of the list stands
  for the iteration order, which Go leaves unspecified: a theorem that holds for every such
  list holds for every order in which a \<open>range\<close> loop may visit the map.
\<close>

named_theorems gomap_simps \<open>lookups after map operations\<close>
named_theorems range_intros \<open>results that stay in the range of an int64\<close>

section \<open>Go maps\<close>

type_synonym ('k, 'v) gomap = "('k \<times> 'v) list"

abbreviation go_get :: "('k, 'v) gomap \<Rightarrow> 'k \<Rightarrow> 'v option" where
  "go_get m k \<equiv> map_of m k"

text \<open>Indexing a Go map with a missing key yields the zero value of the element type.\<close>

definition go_getd :: "'v \<Rightarrow> ('k, 'v) gomap \<Rightarrow> 'k \<Rightarrow> 'v" where
  "go_getd z m k = (case map_of m k of None \<Rightarrow> z | Some v \<Rightarrow> v)"

abbreviation go_put :: "'k \<Rightarrow> 'v \<Rightarrow> ('k, 'v) gomap \<Rightarrow> ('k, 'v) gomap" where
  "go_put k v m \<equiv> AList.update k v m"

abbreviation go_del :: "'k \<Rightarrow> ('k, 'v) gomap \<Rightarrow> ('k, 'v) gomap" where
  "go_del k m \<equiv> AList.delete k m"

abbreviation go_keys :: "('k, 'v) gomap \<Rightarrow> 'k list" where
  "go_keys m \<equiv> map fst m"

abbreviation go_wf :: "('k, 'v) gomap \<Rightarrow> bool" where
  "go_wf m \<equiv> distinct (map fst m)"

lemma go_get_put [simp, gomap_simps]:
  "go_get (go_put k v m) k' = (if k' = k then Some v else go_get m k')"
  by (simp add: update_conv')

lemma go_get_del [simp, gomap_simps]:
  "go_get (go_del k m) k' = (if k' = k then None else go_get m k')"
  by (simp add: delete_conv')

lemma go_getd_put [simp, gomap_simps]:
  "go_getd z (go_put k v m) k' = (if k' = k then v else go_getd z m k')"
  by (simp add: go_getd_def)

lemma go_getd_del [simp, gomap_simps]:
  "go_getd z (go_del k m) k' = (if k' = k then z else go_getd z m k')"
  by (simp add: go_getd_def)

lemma go_getd_Nil [simp]: "go_getd z [] k = z"
  by (simp add: go_getd_def)

lemma go_wf_put [simp, intro]: "go_wf m \<Longrightarrow> go_wf (go_put k v m)"
  by (rule distinct_update)

lemma go_wf_del [simp, intro]: "go_wf m \<Longrightarrow> go_wf (go_del k m)"
  by (rule distinct_delete)

section \<open>Signed 64-bit counters\<close>

text \<open>
  A Go \<open>int64\<close> is an integer; the operations below are written so that they never leave
  the range, which \<open>range_intros\<close> collects.
\<close>

definition MaxInt64 :: int where
  "MaxInt64 = 9223372036854775807"

definition MinInt64 :: int where
  "MinInt64 = - 9223372036854775808"

definition in_int64 :: "int \<Rightarrow> bool" where
  "in_int64 x \<longleftrightarrow> MinInt64 \<le> x \<and> x \<le> MaxInt64"

text \<open>The counters' domain: non-negative values of an \<open>int64\<close>.\<close>

definition counter_ok :: "int \<Rightarrow> bool" where
  "counter_ok x \<longleftrightarrow> 0 \<le> x \<and> x \<le> MaxInt64"

lemma MaxInt64_pos [simp]: "0 < MaxInt64" "0 \<le> MaxInt64" "1 \<le> MaxInt64" "\<not> MaxInt64 \<le> 0" "\<not> MaxInt64 < 0"
  by (simp_all add: MaxInt64_def)

lemma counter_ok_in_int64: "counter_ok x \<Longrightarrow> in_int64 x"
  by (simp add: counter_ok_def in_int64_def MinInt64_def)

lemma counter_ok_0 [simp, range_intros]: "counter_ok 0"
  by (simp add: counter_ok_def)

lemma counter_ok_1 [simp, range_intros]: "counter_ok 1"
  by (simp add: counter_ok_def)

lemma counter_okD: "counter_ok x \<Longrightarrow> 0 \<le> x" "counter_ok x \<Longrightarrow> x \<le> MaxInt64"
  by (simp_all add: counter_ok_def)

section \<open>Lists and multisets\<close>

lemma sum_mset_nonneg_sub:
  fixes w :: "'a \<Rightarrow> int"
  assumes "A \<subseteq># B" and "\<And>x. x \<in># B \<Longrightarrow> 0 \<le> w x"
  shows "(\<Sum>x\<in>#A. w x) \<le> (\<Sum>x\<in>#B. w x)"
proof -
  obtain C where B: "B = A + C"
    using assms(1) by (auto simp: mset_subset_eq_exists_conv)
  have "0 \<le> (\<Sum>x\<in>#C. w x)"
    using assms(2) unfolding B by (induction C) auto
  then show ?thesis unfolding B by simp
qed

lemma sum_mset_nonneg_int:
  fixes w :: "'a \<Rightarrow> int"
  assumes "\<And>x. x \<in># A \<Longrightarrow> 0 \<le> w x"
  shows "0 \<le> (\<Sum>x\<in>#A. w x)"
  using assms by (induction A) auto

end
