(* ===== verification/GoTime.thy ===== *)
theory GoTime
  imports Prelude
begin

text \<open>
  The part of Go's package \<open>time\<close> that the program uses.  A \<open>time.Time\<close> is its
  instant, in nanoseconds since the Unix epoch, and the offset of its location from UTC in
  seconds at that instant; comparisons look at the instant only.  A \<open>time.Duration\<close> is a
  number of nanoseconds.  Monotonic clock readings are not modelled, so \<open>Round(0)\<close> is
  the identity.  A \<open>*time.Location\<close> is the function from an instant (Unix seconds) to
  the offset in force there: the time-zone data base is a parameter of the model.
\<close>

record gotime =
  t_ns :: int
  t_off :: int

type_synonym duration = int
type_synonym location = "int \<Rightarrow> int"

definition time_Nanosecond :: duration where "time_Nanosecond = 1"
definition time_Millisecond :: duration where "time_Millisecond = 1000000"
definition time_Second :: duration where "time_Second = 1000000000"
definition time_Minute :: duration where "time_Minute = 60 * 1000000000"
definition time_Hour :: duration where "time_Hour = 3600 * 1000000000"

lemmas time_units = time_Nanosecond_def time_Millisecond_def time_Second_def time_Minute_def
  time_Hour_def

text \<open>The zero \<open>time.Time\<close>: 1 January of year 1, 00:00:00 UTC.\<close>

definition zero_instant :: int where
  "zero_instant = - 62135596800000000000"

definition zero_time :: gotime where
  "zero_time = \<lparr>t_ns = zero_instant, t_off = 0\<rparr>"

definition time_IsZero :: "gotime \<Rightarrow> bool" where
  "time_IsZero t \<longleftrightarrow> t_ns t = zero_instant"

definition time_Before :: "gotime \<Rightarrow> gotime \<Rightarrow> bool" where
  "time_Before t u \<longleftrightarrow> t_ns t < t_ns u"

definition time_After :: "gotime \<Rightarrow> gotime \<Rightarrow> bool" where
  "time_After t u \<longleftrightarrow> t_ns t > t_ns u"

definition time_Equal :: "gotime \<Rightarrow> gotime \<Rightarrow> bool" where
  "time_Equal t u \<longleftrightarrow> t_ns t = t_ns u"

definition time_Add :: "gotime \<Rightarrow> duration \<Rightarrow> gotime" where
  "time_Add t d = t\<lparr>t_ns := t_ns t + d\<rparr>"

text \<open>\<open>Sub\<close> saturates at the bounds of a \<open>Duration\<close>.\<close>

definition time_Sub :: "gotime \<Rightarrow> gotime \<Rightarrow> duration" where
  "time_Sub t u = max MinInt64 (min MaxInt64 (t_ns t - t_ns u))"

definition time_UTC :: "gotime \<Rightarrow> gotime" where
  "time_UTC t = t\<lparr>t_off := 0\<rparr>"

definition time_In :: "location \<Rightarrow> gotime \<Rightarrow> gotime" where
  "time_In loc t = t\<lparr>t_off := loc (t_ns t div 1000000000)\<rparr>"

lemmas time_defs = time_IsZero_def time_Before_def time_After_def time_Equal_def
  time_Add_def time_UTC_def

lemma zero_time_IsZero [simp]: "time_IsZero zero_time"
  by (simp add: time_IsZero_def zero_time_def)

section \<open>Calendar fields\<close>

definition local_seconds :: "gotime \<Rightarrow> int" where
  "local_seconds t = t_ns t div 1000000000 + t_off t"

definition local_day :: "gotime \<Rightarrow> int" where
  "local_day t = local_seconds t div 86400"

definition time_Hour_of :: "gotime \<Rightarrow> int" where
  "time_Hour_of t = local_seconds t mod 86400 div 3600"

definition time_Minute_of :: "gotime \<Rightarrow> int" where
  "time_Minute_of t = local_seconds t mod 3600 div 60"

text \<open>0 is Sunday; day 0 of the Unix epoch was a Thursday.\<close>

definition time_Weekday :: "gotime \<Rightarrow> int" where
  "time_Weekday t = (local_day t + 4) mod 7"

lemma time_Hour_of_range: "0 \<le> time_Hour_of t \<and> time_Hour_of t < 24"
  unfolding time_Hour_of_def using pos_mod_bound [of 86400 "local_seconds t"] pos_mod_sign [of 86400 "local_seconds t"] by linarith

lemma time_Minute_of_range: "0 \<le> time_Minute_of t \<and> time_Minute_of t < 60"
  unfolding time_Minute_of_def using pos_mod_bound [of 3600 "local_seconds t"] pos_mod_sign [of 3600 "local_seconds t"] by linarith

lemma time_Weekday_range: "0 \<le> time_Weekday t \<and> time_Weekday t < 7"
  unfolding time_Weekday_def by simp

text \<open>The proleptic Gregorian date of a day number (days since 1 January 1970).\<close>

definition civil_of_day :: "int \<Rightarrow> int \<times> int \<times> int" where
  "civil_of_day n =
    (let z = n + 719468;
         era = z div 146097;
         doe = z - era * 146097;
         yoe = (doe - doe div 1460 + doe div 36524 - doe div 146096) div 365;
         doy = doe - (365 * yoe + yoe div 4 - yoe div 100);
         mp = (5 * doy + 2) div 153;
         d = doy - (153 * mp + 2) div 5 + 1;
         m = (if mp < 10 then mp + 3 else mp - 9);
         y = yoe + era * 400 + (if m \<le> 2 then 1 else 0)
     in (y, m, d))"

text \<open>
  \<open>Format("2006-01-02")\<close> renders the date in the time's own location; the model keys the
  per-day series with the date itself.
\<close>

definition time_Date :: "gotime \<Rightarrow> int \<times> int \<times> int" where
  "time_Date t = civil_of_day (local_day t)"

text \<open>\<open>Truncate\<close> rounds down to a multiple of the step since the zero time.\<close>

definition time_Truncate :: "gotime \<Rightarrow> duration \<Rightarrow> gotime" where
  "time_Truncate t d =
    (if d \<le> 0 then t else t\<lparr>t_ns := t_ns t - (t_ns t - zero_instant) mod d\<rparr>)"

definition time_Unix :: "gotime \<Rightarrow> int" where
  "time_Unix t = t_ns t div 1000000000"

end
