(* ===== verification/GoStrings.thy ===== *)
theory GoStrings
  imports Prelude "HOL-Library.Sublist" "HOL-Library.List_Lexorder" "HOL-Library.Char_ord"
begin

text \<open>
  The part of Go's package \<open>strings\<close> that the program uses.  A Go string is its list of
  bytes (\<open>char\<close> has exactly the 256 byte values), so \<open>length\<close> is \<open>len\<close> and indices are
  byte indices.  \<open>TrimSpace\<close> removes the UTF-8 encodings of all Unicode white space.
  \<open>ToLower\<close> maps the ASCII letters only; the bytes of other runes are kept, which differs from
  Go on upper-case letters outside ASCII.  \<open>EqualFold\<close> is another relation, see there.
\<close>

section \<open>White space\<close>

text \<open>The number of bytes of the white-space rune a string starts with, 0 for none.\<close>

definition byte_of :: "char \<Rightarrow> nat" where
  "byte_of c = of_char c"

definition ascii_space :: "char \<Rightarrow> bool" where
  "ascii_space c \<longleftrightarrow> byte_of c \<in> {9, 10, 11, 12, 13, 32}"

definition space2 :: "char \<Rightarrow> char \<Rightarrow> bool" where
  \<comment> \<open>U+0085, U+00A0\<close>
  "space2 a b \<longleftrightarrow> byte_of a = 0xC2 \<and> byte_of b \<in> {0x85, 0xA0}"

definition space3 :: "char \<Rightarrow> char \<Rightarrow> char \<Rightarrow> bool" where
  \<comment> \<open>U+1680, U+2000 to U+200A, U+2028, U+2029, U+202F, U+205F, U+3000\<close>
  "space3 a b c \<longleftrightarrow>
     byte_of a = 0xE1 \<and> byte_of b = 0x9A \<and> byte_of c = 0x80 \<or>
     byte_of a = 0xE2 \<and> byte_of b = 0x80 \<and>
       (0x80 \<le> byte_of c \<and> byte_of c \<le> 0x8A \<or> byte_of c \<in> {0xA8, 0xA9, 0xAF}) \<or>
     byte_of a = 0xE2 \<and> byte_of b = 0x81 \<and> byte_of c = 0x9F \<or>
     byte_of a = 0xE3 \<and> byte_of b = 0x80 \<and> byte_of c = 0x80"

fun space_len :: "string \<Rightarrow> nat" where
  "space_len (a # b # c # s) =
     (if ascii_space a then 1 else if space2 a b then 2 else if space3 a b c then 3 else 0)"
| "space_len [a, b] = (if ascii_space a then 1 else if space2 a b then 2 else 0)"
| "space_len [a] = (if ascii_space a then 1 else 0)"
| "space_len [] = 0"

text \<open>The same for the last rune, on the reversed string.\<close>

fun space_len_rev :: "string \<Rightarrow> nat" where
  "space_len_rev (c # b # a # s) =
     (if ascii_space c then 1 else if space2 b c then 2 else if space3 a b c then 3 else 0)"
| "space_len_rev [b, a] = (if ascii_space b then 1 else if space2 a b then 2 else 0)"
| "space_len_rev [a] = (if ascii_space a then 1 else 0)"
| "space_len_rev [] = 0"

lemma space_len_le: "space_len s \<le> length s"
  by (induction s rule: space_len.induct) auto

lemma space_len_rev_le: "space_len_rev s \<le> length s"
  by (induction s rule: space_len_rev.induct) auto

lemma space_len_pos_less: "0 < space_len s \<Longrightarrow> length s - space_len s < length s"
  by (rule diff_less) (use space_len_le [of s] in auto)

lemma space_len_rev_pos_less: "0 < space_len_rev s \<Longrightarrow> length s - space_len_rev s < length s"
  by (rule diff_less) (use space_len_rev_le [of s] in auto)

function trim_left :: "string \<Rightarrow> string" where
  "trim_left s = (if space_len s = 0 then s else trim_left (drop (space_len s) s))"
  by pat_completeness auto
termination
  by (relation "measure length") (auto simp: space_len_pos_less)

function trim_rev :: "string \<Rightarrow> string" where
  "trim_rev s = (if space_len_rev s = 0 then s else trim_rev (drop (space_len_rev s) s))"
  by pat_completeness auto
termination
  by (relation "measure length") (auto simp: space_len_rev_pos_less)

declare trim_left.simps [simp del] trim_rev.simps [simp del]

definition go_TrimSpace :: "string \<Rightarrow> string" where
  "go_TrimSpace s = rev (trim_rev (rev (trim_left s)))"

lemma trim_left_fixed: "space_len (trim_left s) = 0"
proof (induction s rule: trim_left.induct)
  case (1 s)
  then show ?case by (cases "space_len s = 0") (simp_all add: trim_left.simps [of s])
qed

lemma trim_left_id: "space_len s = 0 \<Longrightarrow> trim_left s = s"
  by (simp add: trim_left.simps [of s])

lemma trim_rev_fixed: "space_len_rev (trim_rev s) = 0"
proof (induction s rule: trim_rev.induct)
  case (1 s)
  then show ?case by (cases "space_len_rev s = 0") (simp_all add: trim_rev.simps [of s])
qed

lemma trim_rev_id: "space_len_rev s = 0 \<Longrightarrow> trim_rev s = s"
  by (simp add: trim_rev.simps [of s])

lemma trim_rev_suffix: "\<exists>p. s = p @ trim_rev s"
proof (induction s rule: trim_rev.induct)
  case (1 s)
  show ?case
  proof (cases "space_len_rev s = 0")
    case True
    then show ?thesis by (simp add: trim_rev_id)
  next
    case False
    with "1.IH" obtain p where "drop (space_len_rev s) s = p @ trim_rev s"
      by (auto simp: trim_rev.simps [of s])
    then have "s = (take (space_len_rev s) s @ p) @ trim_rev s"
      by (metis append.assoc append_take_drop_id)
    then show ?thesis by blast
  qed
qed

text \<open>A string without leading white space keeps that property when it loses its end.\<close>

lemma space_len_prefix: "space_len (p @ q) = 0 \<Longrightarrow> space_len p = 0"
  by (cases p rule: space_len.cases; cases q rule: space_len.cases) (auto split: if_splits)

lemma go_TrimSpace_idem [simp]: "go_TrimSpace (go_TrimSpace s) = go_TrimSpace s"
proof -
  define u where "u = trim_left s"
  obtain p where p: "rev u = p @ trim_rev (rev u)"
    using trim_rev_suffix by blast
  then have "u = rev (trim_rev (rev u)) @ rev p"
    by (metis rev_append rev_rev_ident)
  moreover have "space_len u = 0"
    by (simp add: u_def trim_left_fixed)
  ultimately have "space_len (rev (trim_rev (rev u))) = 0"
    by (metis space_len_prefix)
  then show ?thesis
    by (simp add: go_TrimSpace_def trim_left_id trim_rev_id trim_rev_fixed flip: u_def)
qed

lemma go_TrimSpace_Nil [simp]: "go_TrimSpace [] = []"
  by (simp add: go_TrimSpace_def trim_left_id trim_rev_id)

section \<open>Case\<close>

definition lower_char :: "char \<Rightarrow> char" where
  "lower_char c = (if 65 \<le> byte_of c \<and> byte_of c \<le> 90 then char_of (byte_of c + 32) else c)"

definition go_ToLower :: "string \<Rightarrow> string" where
  "go_ToLower s = map lower_char s"

text \<open>
  \<open>strings.EqualFold\<close> compares runes up to Unicode's simple folding, which is not the equality of
  the lower-case texts: U+017F (long s) folds with \<open>s\<close> and U+212A (the Kelvin sign) with \<open>k\<close>, and
  \<open>ToLower\<close> does not send the long s to \<open>s\<close>.  \<open>fold_text\<close> picks one rune of every class that has an
  ASCII letter.  The classes without an ASCII letter are not modelled: such a rune equals only
  itself here.  So the definition is exact when one of the texts is in ASCII.
\<close>

fun fold_text :: "string \<Rightarrow> string" where
  "fold_text [] = []"
| "fold_text [a] = [lower_char a]"
| "fold_text [a, b] = (if a = CHR 0xC5 \<and> b = CHR 0xBF then ''s'' else [lower_char a, lower_char b])"
| "fold_text (a # b # c # s) =
     (if a = CHR 0xC5 \<and> b = CHR 0xBF then CHR ''s'' # fold_text (c # s)
      else if a = CHR 0xE2 \<and> b = CHR 0x84 \<and> c = CHR 0xAA then CHR ''k'' # fold_text s
      else lower_char a # fold_text (b # c # s))"

definition go_EqualFold :: "string \<Rightarrow> string \<Rightarrow> bool" where
  "go_EqualFold s t \<longleftrightarrow> fold_text s = fold_text t"

definition ascii :: "string \<Rightarrow> bool" where
  "ascii s \<longleftrightarrow> list_all (\<lambda>c. byte_of c < 128) s"

lemma fold_text_ascii: "ascii s \<Longrightarrow> fold_text s = go_ToLower s"
  by (induction s rule: fold_text.induct) (auto simp: ascii_def go_ToLower_def byte_of_def)

lemma fold_text_eq_Nil [simp]: "fold_text s = [] \<longleftrightarrow> s = []"
  by (cases s rule: fold_text.cases) auto

lemma EqualFold_ascii: "ascii s \<Longrightarrow> ascii t \<Longrightarrow> go_EqualFold s t \<longleftrightarrow> go_ToLower s = go_ToLower t"
  by (simp add: go_EqualFold_def fold_text_ascii)

lemma byte_of_lower: "byte_of (lower_char c) =
    (if 65 \<le> byte_of c \<and> byte_of c \<le> 90 then byte_of c + 32 else byte_of c)"
  by (simp add: lower_char_def byte_of_def of_char_of)

lemma lower_char_idem [simp]: "lower_char (lower_char c) = lower_char c"
proof -
  have "\<not> (65 \<le> byte_of (lower_char c) \<and> byte_of (lower_char c) \<le> 90)"
    by (auto simp: byte_of_lower)
  then show ?thesis by (subst lower_char_def) auto
qed

lemma go_ToLower_idem [simp]: "go_ToLower (go_ToLower s) = go_ToLower s"
  by (simp add: go_ToLower_def)

lemma go_ToLower_Nil [simp]: "go_ToLower [] = []"
  by (simp add: go_ToLower_def)

lemma go_ToLower_eq_Nil [simp]: "go_ToLower s = [] \<longleftrightarrow> s = []"
  by (simp add: go_ToLower_def)

text \<open>Lowering does not create or remove white space, so it commutes with trimming.\<close>

lemma ascii_space_lower [simp]: "ascii_space (lower_char c) = ascii_space c"
  by (auto simp: ascii_space_def byte_of_lower split: if_splits)

lemma space2_lower [simp]: "space2 (lower_char a) (lower_char b) = space2 a b"
  by (auto simp: space2_def byte_of_lower split: if_splits)

lemma space3_lower [simp]:
  "space3 (lower_char a) (lower_char b) (lower_char c) = space3 a b c"
  by (auto simp: space3_def byte_of_lower split: if_splits)

lemma space_len_lower [simp]: "space_len (map lower_char s) = space_len s"
  by (cases s rule: space_len.cases) auto

lemma space_len_rev_lower [simp]: "space_len_rev (map lower_char s) = space_len_rev s"
  by (cases s rule: space_len_rev.cases) auto

lemma trim_left_lower: "trim_left (map lower_char s) = map lower_char (trim_left s)"
proof (induction s rule: trim_left.induct)
  case (1 s)
  then show ?case
    by (simp add: trim_left.simps [of s] trim_left.simps [of "map lower_char s"] drop_map)
qed

lemma trim_rev_lower: "trim_rev (map lower_char s) = map lower_char (trim_rev s)"
proof (induction s rule: trim_rev.induct)
  case (1 s)
  then show ?case
    by (simp add: trim_rev.simps [of s] trim_rev.simps [of "map lower_char s"] drop_map)
qed

lemma go_TrimSpace_ToLower: "go_TrimSpace (go_ToLower s) = go_ToLower (go_TrimSpace s)"
  by (simp add: go_TrimSpace_def go_ToLower_def trim_left_lower rev_map trim_rev_lower)

section \<open>Searching and splitting\<close>

definition go_HasPrefix :: "string \<Rightarrow> string \<Rightarrow> bool" where
  "go_HasPrefix s p \<longleftrightarrow> prefix p s"

definition go_HasSuffix :: "string \<Rightarrow> string \<Rightarrow> bool" where
  "go_HasSuffix s p \<longleftrightarrow> suffix p s"

definition go_TrimPrefix :: "string \<Rightarrow> string \<Rightarrow> string" where
  "go_TrimPrefix s p = (if prefix p s then drop (length p) s else s)"

definition go_TrimSuffix :: "string \<Rightarrow> string \<Rightarrow> string" where
  "go_TrimSuffix s p = (if suffix p s then take (length s - length p) s else s)"

text \<open>\<open>Index\<close>: the byte index of the first occurrence, \<open>None\<close> for -1.\<close>

fun go_Index :: "string \<Rightarrow> string \<Rightarrow> nat option" where
  "go_Index [] sub = (if sub = [] then Some 0 else None)"
| "go_Index (c # s) sub =
     (if prefix sub (c # s) then Some 0 else map_option Suc (go_Index s sub))"

definition go_Contains :: "string \<Rightarrow> string \<Rightarrow> bool" where
  "go_Contains s sub \<longleftrightarrow> go_Index s sub \<noteq> None"

text \<open>\<open>ContainsAny\<close> with a set of ASCII characters.\<close>

definition go_ContainsAny :: "string \<Rightarrow> string \<Rightarrow> bool" where
  "go_ContainsAny s chars \<longleftrightarrow> list_ex (\<lambda>c. c \<in> set chars) s"

fun go_IndexByte :: "string \<Rightarrow> char \<Rightarrow> nat option" where
  "go_IndexByte [] b = None"
| "go_IndexByte (c # s) b = (if c = b then Some 0 else map_option Suc (go_IndexByte s b))"

text \<open>The index of the last occurrence of a byte.\<close>

definition go_LastIndexByte :: "string \<Rightarrow> char \<Rightarrow> nat option" where
  "go_LastIndexByte s b =
     (case go_IndexByte (rev s) b of None \<Rightarrow> None | Some i \<Rightarrow> Some (length s - 1 - i))"

text \<open>\<open>Split\<close> with a non-empty separator.\<close>

function go_Split :: "string \<Rightarrow> string \<Rightarrow> string list" where
  "go_Split s sep =
     (if sep = [] then map (\<lambda>c. [c]) s
      else case go_Index s sep of None \<Rightarrow> [s]
        | Some i \<Rightarrow> take i s # go_Split (drop (i + length sep) s) sep)"
  by pat_completeness auto

lemma go_Index_bound: "go_Index s sub = Some i \<Longrightarrow> i + length sub \<le> length s"
proof (induction s arbitrary: i)
  case Nil
  then show ?case by (auto split: if_splits)
next
  case (Cons c s)
  then show ?case
    by (auto split: if_splits dest!: prefix_length_le)
qed

termination go_Split
  by (relation "measure (\<lambda>(s, sep). length s)") (auto dest!: go_Index_bound intro!: diff_less)

declare go_Split.simps [simp del]

fun go_Join :: "string list \<Rightarrow> string \<Rightarrow> string" where
  "go_Join [] sep = []"
| "go_Join [s] sep = s"
| "go_Join (s # t # ss) sep = s @ sep @ go_Join (t # ss) sep"

text \<open>\<open>ReplaceAll\<close> of one byte by nothing.\<close>

definition go_RemoveByte :: "string \<Rightarrow> char \<Rightarrow> string" where
  "go_RemoveByte s b = filter (\<lambda>c. c \<noteq> b) s"

lemma go_Index_take_drop:
  "go_Index s sub = Some i \<Longrightarrow> take (length sub) (drop i s) = sub"
  by (induction s arbitrary: i) (auto split: if_splits simp: prefix_def)

text \<open>Joining the parts of a split with its separator gives the string back.\<close>

lemma go_Split_nonempty: "sep \<noteq> [] \<Longrightarrow> go_Split s sep \<noteq> []"
  by (subst go_Split.simps) (simp split: option.split)

lemma go_Join_Split: "sep \<noteq> [] \<Longrightarrow> go_Join (go_Split s sep) sep = s"
proof (induction s sep rule: go_Split.induct)
  case (1 s sep)
  show ?case
  proof (cases "go_Index s sep")
    case None
    with "1.prems" show ?thesis by (subst go_Split.simps) simp
  next
    case (Some i)
    let ?r = "go_Split (drop (i + length sep) s) sep"
    obtain t ts where r: "?r = t # ts"
      using go_Split_nonempty [OF "1.prems"] by (cases ?r) auto
    have "go_Join (go_Split s sep) sep = take i s @ sep @ go_Join ?r sep"
      using "1.prems" Some r by (subst go_Split.simps) simp
    also have "go_Join ?r sep = drop (i + length sep) s"
      using "1.IH" "1.prems" Some by simp
    also have "take i s @ sep @ drop (i + length sep) s = s"
      using go_Index_take_drop [OF Some]
      by (metis append_take_drop_id drop_drop add.commute)
    finally show ?thesis .
  qed
qed

section \<open>Occurrences\<close>

definition occurs_at :: "string \<Rightarrow> string \<Rightarrow> nat \<Rightarrow> bool" where
  "occurs_at s sub i \<longleftrightarrow> i + length sub \<le> length s \<and> (\<forall>k < length sub. s ! (i + k) = sub ! k)"

lemma occurs_at_0: "occurs_at s sub 0 \<longleftrightarrow> prefix sub s"
  by (auto simp: occurs_at_def prefix_def list_eq_iff_nth_eq nth_append intro: exI [of _ "drop (length sub) s"])

lemma occurs_at_Suc: "occurs_at (c # s) sub (Suc i) \<longleftrightarrow> occurs_at s sub i"
  by (simp add: occurs_at_def)

lemma go_Index_SomeD:
  "go_Index s sub = Some i \<Longrightarrow> occurs_at s sub i \<and> (\<forall>j < i. \<not> occurs_at s sub j)"
proof (induction s arbitrary: i)
  case Nil
  then show ?case by (auto simp: occurs_at_def split: if_splits)
next
  case (Cons c s)
  show ?case
  proof (cases "prefix sub (c # s)")
    case True
    then show ?thesis using Cons.prems by (simp add: occurs_at_0)
  next
    case False
    then obtain i' where "i = Suc i'" "go_Index s sub = Some i'" using Cons.prems by auto
    then show ?thesis
      using Cons.IH False
      by (auto simp: occurs_at_Suc occurs_at_0 less_Suc_eq_0_disj)
  qed
qed

lemma go_Index_NoneD: "go_Index s sub = None \<Longrightarrow> \<not> occurs_at s sub i"
proof (induction s arbitrary: i)
  case Nil
  then show ?case by (auto simp: occurs_at_def split: if_splits)
next
  case (Cons c s)
  then show ?case by (cases i) (auto simp: occurs_at_Suc occurs_at_0 split: if_splits)
qed

lemma go_Index_eqI:
  assumes "occurs_at s sub i" "\<And>j. j < i \<Longrightarrow> \<not> occurs_at s sub j"
  shows "go_Index s sub = Some i"
proof (cases "go_Index s sub")
  case None
  then show ?thesis using go_Index_NoneD assms(1) by blast
next
  case (Some i')
  then show ?thesis
    using go_Index_SomeD [OF Some] assms by (metis linorder_neqE_nat)
qed

lemma go_Contains_iff: "go_Contains s sub \<longleftrightarrow> (\<exists>i. occurs_at s sub i)"
  unfolding go_Contains_def using go_Index_NoneD go_Index_SomeD by blast

text \<open>\<open>Replace\<close> with a count of 1.\<close>

definition go_ReplaceFirst :: "string \<Rightarrow> string \<Rightarrow> string \<Rightarrow> string" where
  "go_ReplaceFirst s old new =
     (case go_Index s old of None \<Rightarrow> s | Some i \<Rightarrow> take i s @ new @ drop (i + length old) s)"

end
