(* ===== verification/GoFloat.thy ===== *)
theory GoFloat
  imports Prelude Complex_Main "HOL-Library.Log_Nat"
begin

text \<open>
  Go's \<open>float64\<close> for the cost arithmetic of the program: the finite values are rationals, the
  results of the operations are rounded to binary64 with ties to even, and the three values
  outside the finite range are constructors.  The two zeros are one value, which no
  operation of the program tells apart.
\<close>

datatype float64 = NaN | PInf | NInf | Fin rat

section \<open>Rounding\<close>

text \<open>\<open>ilog2 r\<close> is the exponent of the largest power of two that is at most \<open>r\<close>, for \<open>r > 0\<close>.\<close>

definition ilog2 :: "rat \<Rightarrow> int" where
  "ilog2 r =
     (let (n, d) = quotient_of r;
          k = int (floorlog 2 (nat n)) - int (floorlog 2 (nat d))
      in if 2 powi k \<le> r then k else k - 1)"

text \<open>The exponent of the unit in the last place: 53 bits, subnormals below \<open>2 ^ -1022\<close>.\<close>

definition ulp_exp :: "rat \<Rightarrow> int" where
  "ulp_exp r = max (ilog2 r - 52) (- 1074)"

definition round_even :: "rat \<Rightarrow> int" where
  "round_even x =
     (let f = \<lfloor>x\<rfloor>; d = x - of_int f
      in if d < 1 / 2 then f else if 1 / 2 < d then f + 1 else if even f then f else f + 1)"

definition round_pos :: "rat \<Rightarrow> float64" where
  "round_pos r =
     (let u = 2 powi ulp_exp r; v = of_int (round_even (r / u)) * u
      in if 2 ^ 1024 \<le> v then PInf else Fin v)"

definition f_neg :: "float64 \<Rightarrow> float64" where
  "f_neg x = (case x of NaN \<Rightarrow> NaN | PInf \<Rightarrow> NInf | NInf \<Rightarrow> PInf | Fin r \<Rightarrow> Fin (- r))"

definition roundf :: "rat \<Rightarrow> float64" where
  "roundf r = (if r = 0 then Fin 0 else if 0 < r then round_pos r else f_neg (round_pos (- r)))"

definition MaxFloat64 :: float64 where
  "MaxFloat64 = Fin ((2 ^ 53 - 1) * 2 ^ 971)"

section \<open>Operations and comparisons\<close>

definition f_add :: "float64 \<Rightarrow> float64 \<Rightarrow> float64" where
  "f_add x y =
     (case (x, y) of
        (Fin a, Fin b) \<Rightarrow> roundf (a + b)
      | (NaN, _) \<Rightarrow> NaN | (_, NaN) \<Rightarrow> NaN
      | (PInf, NInf) \<Rightarrow> NaN | (NInf, PInf) \<Rightarrow> NaN
      | (PInf, _) \<Rightarrow> PInf | (_, PInf) \<Rightarrow> PInf
      | (NInf, _) \<Rightarrow> NInf | (_, NInf) \<Rightarrow> NInf)"

definition f_sub :: "float64 \<Rightarrow> float64 \<Rightarrow> float64" where
  "f_sub x y = f_add x (f_neg y)"

definition f_inf_of_sign :: "rat \<Rightarrow> float64" where
  "f_inf_of_sign r = (if 0 < r then PInf else if r < 0 then NInf else NaN)"

definition f_mul :: "float64 \<Rightarrow> float64 \<Rightarrow> float64" where
  "f_mul x y =
     (case (x, y) of
        (Fin a, Fin b) \<Rightarrow> roundf (a * b)
      | (NaN, _) \<Rightarrow> NaN | (_, NaN) \<Rightarrow> NaN
      | (Fin a, PInf) \<Rightarrow> f_inf_of_sign a | (PInf, Fin a) \<Rightarrow> f_inf_of_sign a
      | (Fin a, NInf) \<Rightarrow> f_inf_of_sign (- a) | (NInf, Fin a) \<Rightarrow> f_inf_of_sign (- a)
      | (PInf, PInf) \<Rightarrow> PInf | (NInf, NInf) \<Rightarrow> PInf
      | (PInf, NInf) \<Rightarrow> NInf | (NInf, PInf) \<Rightarrow> NInf)"

text \<open>Division by a non-zero constant, the only division of the program's costs.\<close>

definition f_div_const :: "float64 \<Rightarrow> rat \<Rightarrow> float64" where
  "f_div_const x c =
     (case x of Fin a \<Rightarrow> roundf (a / c) | NaN \<Rightarrow> NaN
      | PInf \<Rightarrow> f_inf_of_sign c | NInf \<Rightarrow> f_inf_of_sign (- c))"

text \<open>The conversion \<open>float64(n)\<close> of an integer.\<close>

definition f_of_int :: "int \<Rightarrow> float64" where
  "f_of_int n = roundf (of_int n)"

definition f_lt :: "float64 \<Rightarrow> float64 \<Rightarrow> bool" where
  "f_lt x y =
     (case (x, y) of
        (NaN, _) \<Rightarrow> False | (_, NaN) \<Rightarrow> False
      | (Fin a, Fin b) \<Rightarrow> a < b
      | (NInf, NInf) \<Rightarrow> False | (NInf, _) \<Rightarrow> True | (_, NInf) \<Rightarrow> False
      | (PInf, _) \<Rightarrow> False | (_, PInf) \<Rightarrow> True)"

definition f_le :: "float64 \<Rightarrow> float64 \<Rightarrow> bool" where
  "f_le x y \<longleftrightarrow> x \<noteq> NaN \<and> y \<noteq> NaN \<and> \<not> f_lt y x"

definition f_eq :: "float64 \<Rightarrow> float64 \<Rightarrow> bool" where
  "f_eq x y \<longleftrightarrow> x \<noteq> NaN \<and> y \<noteq> NaN \<and> x = y"

section \<open>Non-negative finite results\<close>

definition fin_nonneg :: "float64 \<Rightarrow> bool" where
  "fin_nonneg x \<longleftrightarrow> (case x of Fin r \<Rightarrow> 0 \<le> r | _ \<Rightarrow> False)"

lemma fin_nonnegE:
  assumes "fin_nonneg x"
  obtains r where "x = Fin r" "0 \<le> r"
  using assms by (cases x) (auto simp: fin_nonneg_def)

lemma fin_nonneg_Fin [simp]: "fin_nonneg (Fin r) \<longleftrightarrow> 0 \<le> r"
  by (simp add: fin_nonneg_def)

lemma fin_nonneg_special [simp]: "\<not> fin_nonneg NaN" "\<not> fin_nonneg PInf" "\<not> fin_nonneg NInf"
  by (simp_all add: fin_nonneg_def)

lemma fin_nonneg_Max [simp]: "fin_nonneg MaxFloat64"
  by (simp add: MaxFloat64_def)

lemma round_even_mono: "x \<le> y \<Longrightarrow> round_even x \<le> round_even y"
proof -
  assume xy: "x \<le> y"
  then have f: "\<lfloor>x\<rfloor> \<le> \<lfloor>y\<rfloor>" by (rule floor_mono)
  show ?thesis
  proof (cases "\<lfloor>x\<rfloor> = \<lfloor>y\<rfloor>")
    case True
    then show ?thesis using xy by (auto simp: round_even_def Let_def)
  next
    case False
    with f have "\<lfloor>x\<rfloor> + 1 \<le> \<lfloor>y\<rfloor>" by simp
    then show ?thesis by (auto simp: round_even_def Let_def)
  qed
qed

lemma round_even_of_int [simp]: "round_even (of_int n) = n"
  by (simp add: round_even_def)

lemma round_even_ge: "of_int n \<le> x \<Longrightarrow> n \<le> round_even x"
  using round_even_mono [of "of_int n" x] by simp

lemma round_even_le: "x \<le> of_int n \<Longrightarrow> round_even x \<le> n"
  using round_even_mono [of x "of_int n"] by simp

lemma round_pos_cases:
  assumes "0 < r"
  obtains "round_pos r = PInf"
  | v where "round_pos r = Fin v" "0 \<le> v" "v < 2 ^ 1024"
proof -
  have "0 \<le> round_even (r / 2 powi ulp_exp r)"
    using assms by (intro round_even_ge) simp
  then show ?thesis
    using that by (cases "round_pos r = PInf")
      (auto simp: round_pos_def Let_def not_le split: if_splits)
qed

lemma roundf_nonneg_cases:
  assumes "0 \<le> r"
  obtains "roundf r = PInf" | v where "roundf r = Fin v" "0 \<le> v" "v < 2 ^ 1024"
proof (cases "r = 0")
  case True
  then show ?thesis using that(2) [of 0] by (simp add: roundf_def)
next
  case False
  then have "0 < r" using assms by simp
  then show ?thesis by (rule round_pos_cases) (use that \<open>0 < r\<close> in \<open>auto simp: roundf_def\<close>)
qed

section \<open>Rounding a sum never falls below its operands\<close>

text \<open>\<open>representable\<close>: the value is a multiple of its own unit in the last place.\<close>

definition representable :: "rat \<Rightarrow> bool" where
  "representable r \<longleftrightarrow> r = 0 \<or> of_int (round_even (r / 2 powi ulp_exp r)) = r / 2 powi ulp_exp r"

lemma pow_le_nat: "2 ^ k \<le> nat n \<Longrightarrow> 0 < n \<Longrightarrow> (2::rat) ^ k \<le> of_int n"
proof -
  assume "2 ^ k \<le> nat n" "0 < n"
  then have "(2::int) ^ k \<le> n" by (simp add: le_nat_iff)
  then have "(of_int (2 ^ k) :: rat) \<le> of_int n" by (simp only: of_int_le_iff)
  then show ?thesis by simp
qed

lemma pow_gt_nat: "nat n < 2 ^ k \<Longrightarrow> of_int n < (2::rat) ^ k"
proof -
  assume "nat n < 2 ^ k"
  then have "n < (2::int) ^ k" by (simp add: nat_less_iff)
  then have "(of_int n :: rat) < of_int (2 ^ k)" by (simp only: of_int_less_iff)
  then show ?thesis by simp
qed

lemma powi_div: "(2::rat) powi m / 2 powi n = 2 powi (m - n)"
  by (simp add: power_int_diff)

lemma ilog2_bounds:
  assumes "0 < r"
  shows "2 powi ilog2 r \<le> r" "r < 2 powi (ilog2 r + 1)"
proof -
  obtain n d where q: "quotient_of r = (n, d)" by (cases "quotient_of r")
  have d: "0 < d" using quotient_of_denom_pos [OF q] .
  have r: "r = of_int n / of_int d" using quotient_of_div [OF q] .
  then have n: "0 < n" using assms d by (simp add: zero_less_divide_iff)
  define a b where "a = floorlog 2 (nat n)" and "b = floorlog 2 (nat d)"
  have a1: "0 < a" and b1: "0 < b"
    using n d by (simp_all add: a_def b_def floorlog_def)
  have a: "2 ^ (a - 1) \<le> nat n" "nat n < 2 ^ a"
    using floorlog_bounds [of "nat n" 2] n by (auto simp: a_def)
  have b: "2 ^ (b - 1) \<le> nat d" "nat d < 2 ^ b"
    using floorlog_bounds [of "nat d" 2] d by (auto simp: b_def)
  have e: "int a - 1 = int (a - 1)" "int b - 1 = int (b - 1)" using a1 b1 by simp_all
  have an: "(2::rat) powi (int a - 1) \<le> of_int n" "(of_int n :: rat) < 2 powi int a"
    unfolding e(1) power_int_of_nat by (rule pow_le_nat [OF a(1) n], rule pow_gt_nat [OF a(2)])
  have bd: "(2::rat) powi (int b - 1) \<le> of_int d" "(of_int d :: rat) < 2 powi int b"
    unfolding e(2) power_int_of_nat by (rule pow_le_nat [OF b(1) d], rule pow_gt_nat [OF b(2)])
  have up: "r < 2 powi (int a - int b + 1)"
  proof -
    have "r < 2 powi int a / of_int d"
      unfolding r using an(2) d by (simp add: divide_strict_right_mono)
    also have "\<dots> \<le> 2 powi int a / 2 powi (int b - 1)"
      using bd(1) d by (intro divide_left_mono) simp_all
    also have "\<dots> = 2 powi (int a - int b + 1)"
      unfolding powi_div by (rule arg_cong [where f = "power_int 2"]) simp
    finally show ?thesis .
  qed
  have low: "2 powi (int a - int b - 1) \<le> r"
  proof -
    have "2 powi (int a - int b - 1) = 2 powi (int a - 1) / (2::rat) powi int b"
      unfolding powi_div by (rule arg_cong [where f = "power_int 2"]) simp
    also have "\<dots> \<le> 2 powi (int a - 1) / of_int d"
      using bd(2) d by (intro divide_left_mono) simp_all
    also have "\<dots> \<le> r"
      unfolding r using an(1) d by (simp add: divide_right_mono)
    finally show ?thesis .
  qed
  have l: "ilog2 r = (if 2 powi (int a - int b) \<le> r then int a - int b else int a - int b - 1)"
    by (simp add: ilog2_def q Let_def a_def b_def)
  show "2 powi ilog2 r \<le> r" "r < 2 powi (ilog2 r + 1)"
    using up low by (simp_all add: l)
qed

lemma powi_mult_of_int: "l \<le> k \<Longrightarrow> (2::rat) powi k = of_int (2 ^ nat (k - l)) * 2 powi l"
proof -
  assume "l \<le> k"
  then have "(2::rat) powi k = 2 powi (k - l) * 2 powi l"
    by (simp flip: power_int_add)
  also have "(2::rat) powi (k - l) = of_int (2 ^ nat (k - l))"
    using \<open>l \<le> k\<close> by (simp add: power_int_def)
  finally show ?thesis .
qed

lemma ilog2_mono: "0 < x \<Longrightarrow> x \<le> y \<Longrightarrow> ilog2 x \<le> ilog2 y"
proof (rule ccontr)
  assume x: "0 < x" "x \<le> y" and n: "\<not> ilog2 x \<le> ilog2 y"
  have "y < 2 powi (ilog2 y + 1)" using ilog2_bounds(2) [of y] x by simp
  also have "\<dots> \<le> 2 powi ilog2 x" using n by (intro power_int_increasing) simp_all
  also have "\<dots> \<le> x" using ilog2_bounds(1) x by simp
  finally show False using x by simp
qed

lemma round_pos_ge:
  assumes rep: "representable x" and x: "0 \<le> x" and xz: "x \<le> z" and z: "0 < z"
  shows "x \<le> of_int (round_even (z / 2 powi ulp_exp z)) * 2 powi ulp_exp z"
proof -
  let ?u = "(2::rat) powi ulp_exp z"
  have ok: "of_int m * ?u \<le> of_int (round_even (z / ?u)) * ?u" if "of_int m * ?u \<le> z" for m
  proof -
    have "of_int m \<le> z / ?u" using that by (simp add: pos_le_divide_eq)
    then have "m \<le> round_even (z / ?u)" by (rule round_even_ge)
    then show ?thesis by (simp add: mult_right_mono)
  qed
  show ?thesis
  proof (cases "x = 0")
    case True
    then show ?thesis using ok [of 0] z by simp
  next
    case False
    with x have x0: "0 < x" by simp
    have m: "x = of_int (round_even (x / 2 powi ulp_exp x)) * 2 powi ulp_exp x"
      (is "_ = of_int ?m * _")
      using rep False by (simp add: representable_def)
    show ?thesis
    proof (cases "ulp_exp x = ulp_exp z")
      case True
      then show ?thesis using ok [of ?m] m xz by (metis (no_types, lifting))
    next
      case False
      then have "ilog2 x \<noteq> ilog2 z" by (auto simp: ulp_exp_def)
      moreover have le: "ilog2 x \<le> ilog2 z" using ilog2_mono [OF x0 xz] .
      ultimately have less: "ilog2 x + 1 \<le> ilog2 z" by simp
      have ue: "ulp_exp z \<le> ilog2 z"
        using False le by (auto simp: ulp_exp_def max_def split: if_splits)
      have "x \<le> 2 powi (ilog2 x + 1)" using ilog2_bounds(2) [OF x0] by simp
      also have "\<dots> \<le> 2 powi ilog2 z" using less by (intro power_int_increasing) simp_all
      also have "\<dots> = of_int (2 ^ nat (ilog2 z - ulp_exp z)) * ?u"
        using ue by (rule powi_mult_of_int)
      also have "\<dots> \<le> of_int (round_even (z / ?u)) * ?u"
        using ok [of "2 ^ nat (ilog2 z - ulp_exp z)"] ilog2_bounds(1) [OF z]
          powi_mult_of_int [OF ue] by simp
      finally show ?thesis .
    qed
  qed
qed

section \<open>Rounded values are representable\<close>

lemma ilog2_eqI:
  assumes "2 powi j \<le> r" "r < 2 powi (j + 1)"
  shows "ilog2 r = j"
proof -
  have r: "0 < r" using assms(1) by (rule less_le_trans [rotated]) simp
  note b = ilog2_bounds [OF r]
  have "j < ilog2 r + 1"
  proof (rule ccontr)
    assume "\<not> j < ilog2 r + 1"
    then have "(2::rat) powi (ilog2 r + 1) \<le> 2 powi j" by (intro power_int_increasing) simp_all
    then show False using assms(1) b(2) by simp
  qed
  moreover have "ilog2 r < j + 1"
  proof (rule ccontr)
    assume "\<not> ilog2 r < j + 1"
    then have "(2::rat) powi (j + 1) \<le> 2 powi ilog2 r" by (intro power_int_increasing) simp_all
    then show False using assms(2) b(1) by simp
  qed
  ultimately show ?thesis by simp
qed

lemma representableI: "r = of_int m * 2 powi ulp_exp r \<Longrightarrow> representable r"
proof -
  assume r: "r = of_int m * 2 powi ulp_exp r"
  then have "r / 2 powi ulp_exp r = of_int m" by (simp add: field_simps)
  then show ?thesis by (simp add: representable_def)
qed

lemma representable_power:
  assumes "- 1074 \<le> j"
  shows "representable (2 powi j)"
proof -
  have "ilog2 (2 powi j) = j" by (rule ilog2_eqI) (simp_all add: power_int_add)
  then have "ulp_exp (2 powi j) \<le> j" using assms by (simp add: ulp_exp_def)
  then show ?thesis by (rule representableI [OF powi_mult_of_int])
qed

lemma round_even_small: "x < 1 / 2 \<Longrightarrow> 0 \<le> x \<Longrightarrow> round_even x = 0"
proof -
  assume x: "x < 1 / 2" "0 \<le> x"
  then have "\<lfloor>x\<rfloor> = 0" by (simp add: floor_eq_iff)
  then show ?thesis using x by (simp add: round_even_def Let_def)
qed

lemma round_pos_representable:
  assumes z: "0 < z" and v: "v = of_int (round_even (z / 2 powi ulp_exp z)) * 2 powi ulp_exp z"
  shows "representable v"
proof (cases "v = 0")
  case True
  then show ?thesis by (simp add: representable_def)
next
  case False
  define e k where "e = ilog2 z" and "k = ulp_exp z"
  let ?u = "(2::rat) powi k"
  define m where "m = round_even (z / ?u)"
  have vm: "v = of_int m * ?u" using v by (simp add: m_def k_def)
  have m0: "0 \<le> m" unfolding m_def using z by (intro round_even_ge) simp
  with False vm have mp: "0 < m" by (cases "m = 0") auto
  then have vp: "0 < v" using vm by simp
  note b = ilog2_bounds [OF z, folded e_def]
  have k: "k = max (e - 52) (- 1074)" by (simp add: k_def ulp_exp_def e_def)
  have ke: "k \<le> e + 1"
  proof (rule ccontr)
    assume "\<not> k \<le> e + 1"
    then have "z < 2 powi (k - 1)"
      using b(2) power_int_increasing [of "e + 1" "k - 1" "2::rat"] by simp
    also have "(2::rat) powi (k - 1) = ?u * (1 / 2)" by (simp add: power_int_diff)
    finally have "z / ?u < 1 / 2" by (simp add: field_simps)
    then have "m = 0" unfolding m_def using z by (intro round_even_small) simp_all
    then show False using mp by simp
  qed
  have top: "v \<le> 2 powi (e + 1)"
  proof -
    have "z / ?u \<le> of_int (2 ^ nat (e + 1 - k))"
      using b(2) powi_mult_of_int [OF ke] by (simp add: pos_divide_le_eq less_imp_le)
    then have "m \<le> 2 ^ nat (e + 1 - k)" unfolding m_def by (rule round_even_le)
    then have "(of_int m :: rat) \<le> of_int (2 ^ nat (e + 1 - k))" by (simp only: of_int_le_iff)
    then show ?thesis unfolding vm powi_mult_of_int [OF ke] by (intro mult_right_mono) simp_all
  qed
  show ?thesis
  proof (cases "v = 2 powi (e + 1)")
    case True
    then show ?thesis using ke k by (auto intro!: representable_power)
  next
    case False
    with top have vt: "v < 2 powi (e + 1)" by simp
    have "ulp_exp v = k"
    proof (cases "e - 52 \<le> - 1074")
      case True
      have "ilog2 v \<le> e"
      proof (rule ccontr)
        assume "\<not> ilog2 v \<le> e"
        then have "(2::rat) powi (e + 1) \<le> 2 powi ilog2 v" by (intro power_int_increasing) simp_all
        then show False using ilog2_bounds(1) [OF vp] vt by simp
      qed
      then show ?thesis using True k by (simp add: ulp_exp_def)
    next
      case n: False
      have "2 powi e \<le> v"
      proof -
        have kk: "k \<le> e" using n k by simp
        have "of_int (2 ^ nat (e - k)) \<le> z / ?u"
          using b(1) powi_mult_of_int [OF kk] by (simp add: pos_le_divide_eq)
        then have "2 ^ nat (e - k) \<le> m" unfolding m_def by (rule round_even_ge)
        then have "(of_int (2 ^ nat (e - k)) :: rat) \<le> of_int m" by (simp only: of_int_le_iff)
        then show ?thesis unfolding vm powi_mult_of_int [OF kk] by (intro mult_right_mono) simp_all
      qed
      then have "ilog2 v = e" using vt by (rule ilog2_eqI)
      then show ?thesis using k by (simp add: ulp_exp_def)
    qed
    then show ?thesis using vm by (intro representableI [of _ m]) simp
  qed
qed

text \<open>The finite non-negative values of a \<open>float64\<close>: rationals that binary64 can represent.\<close>

definition valid_cost :: "float64 \<Rightarrow> bool" where
  "valid_cost x \<longleftrightarrow> (case x of Fin r \<Rightarrow> 0 \<le> r \<and> representable r \<and> r < 2 ^ 1024 | _ \<Rightarrow> False)"

lemma valid_cost_fin: "valid_cost x \<Longrightarrow> fin_nonneg x"
  by (cases x) (auto simp: valid_cost_def)

lemma valid_cost_0 [simp]: "valid_cost (Fin 0)"
  by (simp add: valid_cost_def representable_def)

lemma valid_cost_roundf:
  assumes "0 \<le> r" "roundf r = Fin v"
  shows "valid_cost (Fin v)"
proof (cases "r = 0")
  case True
  then show ?thesis using assms by (simp add: roundf_def)
next
  case False
  then have r: "0 < r" using assms(1) by simp
  then have rp: "round_pos r = Fin v" using assms(2) by (simp add: roundf_def)
  then have v: "v = of_int (round_even (r / 2 powi ulp_exp r)) * 2 powi ulp_exp r" "v < 2 ^ 1024"
    unfolding round_pos_def Let_def by (auto simp del: power_numeral split: if_splits)
  have "0 \<le> v" by (rule round_pos_cases [OF r]) (use rp in \<open>simp_all del: power_numeral\<close>)
  then show ?thesis using round_pos_representable [OF r v(1)] v(2) by (simp add: valid_cost_def del: power_numeral)
qed

definition max_rat :: rat where
  "max_rat = (2 ^ 53 - 1) * 2 ^ 971"

lemma MaxFloat64_eq: "MaxFloat64 = Fin max_rat"
  by (simp only: MaxFloat64_def max_rat_def)

lemma max_rat_eq: "max_rat = 2 ^ 1024 - 2 ^ 971"
  unfolding max_rat_def by simp

lemma ilog2_max_rat: "ilog2 max_rat = 1023"
proof (rule ilog2_eqI)
  have "(2::rat) powi 1023 = 2 ^ 1023" "(2::rat) powi (1023 + 1) = 2 ^ 1024"
    by (simp_all add: power_int_def)
  then show "2 powi 1023 \<le> max_rat" "max_rat < 2 powi (1023 + 1)"
    by (simp_all add: max_rat_def)
qed

lemma valid_cost_Max [simp]: "valid_cost MaxFloat64"
proof -
  have e: "ulp_exp max_rat = 971" by (simp add: ulp_exp_def ilog2_max_rat)
  have "max_rat = of_int (2 ^ 53 - 1) * 2 powi ulp_exp max_rat"
    unfolding e by (simp add: max_rat_def power_int_def)
  then have "representable max_rat" by (rule representableI)
  moreover have "0 \<le> max_rat" "max_rat < 2 ^ 1024" by (simp_all add: max_rat_def)
  ultimately show ?thesis by (simp add: MaxFloat64_eq valid_cost_def del: power_numeral)
qed

lemma valid_cost_le_Max:
  assumes "valid_cost (Fin r)"
  shows "r \<le> max_rat"
proof (cases "r < 2 powi 1023")
  case True
  have "(2::rat) powi 1023 \<le> max_rat" using ilog2_bounds(1) [of max_rat] ilog2_max_rat
    by (simp add: max_rat_def)
  with True show ?thesis by simp
next
  case False
  have r: "representable r" "r < 2 powi (1023 + 1)" "r \<noteq> 0"
    using assms False by (auto simp: valid_cost_def power_int_def simp del: power_numeral)
  have "ilog2 r = 1023" using False r(2) by (intro ilog2_eqI) simp_all
  then have u: "ulp_exp r = 971" by (simp add: ulp_exp_def)
  define m where "m = round_even (r / 2 powi 971)"
  have rm: "r = of_int m * 2 ^ 971"
    using r(1,3) unfolding representable_def u m_def [symmetric] by (simp add: power_int_def field_simps)
  have "of_int m * 2 ^ 971 < (2 ^ 53 :: rat) * 2 ^ 971"
    using r(2) unfolding rm by (simp add: power_int_def)
  then have "of_int m < (of_int (2 ^ 53) :: rat)" by simp
  then have "m \<le> 2 ^ 53 - 1" by (simp only: of_int_less_iff)
  then have "(of_int m :: rat) \<le> of_int (2 ^ 53 - 1)" by (simp only: of_int_le_iff)
  then show ?thesis unfolding rm max_rat_def by simp
qed

end
