(* ===== verification/Types.thy ===== *)
theory Types
  imports GoTime GoStrings GoFloat "HOL-Library.Word"
begin

text \<open>
  The data of the program (\<open>go/types.go\<close> and the struct declarations of \<open>go/stats.go\<close>),
  one record per struct with the source's field names behind a short prefix.  A pointer field
  that is only tested for nil is an \<open>option\<close>.  JSON tags are left out.  The nine token and
  request counters that seven structs of the source repeat are one record, \<open>tally\<close>, which
  these structs embed.
\<close>

section \<open>Usage records, as the host reports them\<close>

record UsageDetail =
  ud_InputTokens :: int
  ud_OutputTokens :: int
  ud_ReasoningTokens :: int
  ud_CachedTokens :: int
  ud_CacheReadTokens :: int
  ud_CacheCreationTokens :: int
  ud_TotalTokens :: int

record UsageFailure =
  uf_StatusCode :: int
  uf_Body :: string

record ProtocolCorrelationMeta =
  pc_SchemaVersion :: int
  pc_KnownFields :: "16 word"
  pc_InputMode :: string
  pc_OutputMode :: string
  pc_CacheMode :: string

type_synonym headers = "(string, string list) gomap"

record UsageRecord =
  ur_RequestID :: string
  ur_streamPresent :: bool
  ur_Provider :: string
  ur_ExecutorType :: string
  ur_Model :: string
  ur_Alias :: string
  ur_APIKey :: string
  ur_AuthID :: string
  ur_AuthIndex :: string
  ur_AuthType :: string
  ur_Endpoint :: string
  ur_BaseURL :: string
  ur_Source :: string
  ur_ReasoningEffort :: string
  ur_ServiceTier :: string
  ur_Stream :: bool
  ur_RequestedAt :: gotime
  ur_Latency :: duration
  ur_TTFT :: duration
  ur_Failed :: bool
  ur_Failure :: UsageFailure
  ur_Detail :: UsageDetail
  ur_ResponseHeaders :: headers
  ur_protocolCorrelation :: "ProtocolCorrelationMeta option"

section \<open>Stored details\<close>

record TokenStats =
  tk_InputTokens :: int
  tk_OutputTokens :: int
  tk_ReasoningTokens :: int
  tk_CachedTokens :: int
  tk_CacheReadTokens :: int
  tk_CacheTokens :: int
  tk_CacheWriteTokens :: int
  tk_TotalTokens :: int

record UsageThinking =
  th_Intensity :: string
  th_Mode :: string
  th_Level :: string
  th_Budget :: int

text \<open>\<open>rd_eventSequence\<close> is the internal index position; the pointer beside it is not modelled.\<close>

record RequestDetail =
  rd_RecordID :: string
  rd_eventSequence :: int
  rd_UpstreamAPI :: string
  rd_Model :: string
  rd_RequestedModel :: string
  rd_Timestamp :: gotime
  rd_LatencyMs :: int
  rd_TTFTMs :: int
  rd_APIKey :: string
  rd_APIKeyHash :: string
  rd_Source :: string
  rd_Provider :: string
  rd_ExecutorType :: string
  rd_Correlation :: "ProtocolCorrelationMeta option"
  rd_AuthID :: string
  rd_AuthIndex :: string
  rd_AuthType :: string
  rd_Endpoint :: string
  rd_BaseURL :: string
  rd_Stream :: bool
  rd_Thinking :: UsageThinking
  rd_ServiceTier :: string
  rd_Tokens :: TokenStats
  rd_Failed :: bool
  rd_StatusCode :: int
  rd_Failure :: string
  rd_Headers :: headers
  rd_TimestampSynthetic :: bool
  rd_CostUSD :: "float64 option"

section \<open>Prices\<close>

record ModelPriceRule =
  mr_ID :: string
  mr_Name :: string
  mr_Days :: "int list"
  mr_Start :: string
  mr_End :: string
  mr_Prompt :: "float64 option"
  mr_Completion :: "float64 option"
  mr_Cache :: "float64 option"
  mr_CacheWrite :: "float64 option"

record ModelPrice =
  mp_Prompt :: float64
  mp_Completion :: float64
  mp_Cache :: float64
  mp_CacheWrite :: float64
  mp_TimeRules :: "ModelPriceRule list"

section \<open>Counters\<close>

record tally =
  ta_TotalRequests :: int
  ta_SuccessCount :: int
  ta_FailureCount :: int
  ta_TotalTokens :: int
  ta_InputTokens :: int
  ta_OutputTokens :: int
  ta_CachedTokens :: int
  ta_CacheWriteTokens :: int
  ta_ReasoningTokens :: int

text \<open>What one request contributes (\<open>detailTotals\<close> of \<open>stats.go\<close>).\<close>

record detailTotals =
  dt_totalTokens :: int
  dt_inputTokens :: int
  dt_outputTokens :: int
  dt_cachedTokens :: int
  dt_cacheWriteTokens :: int
  dt_reasoningTokens :: int
  dt_latencySum :: int
  dt_latencyN :: int

record TimeSeriesTokenStat =
  ts_Model :: string
  ts_Provider :: string
  ts_TotalTokens :: int
  ts_InputTokens :: int
  ts_OutputTokens :: int
  ts_CachedTokens :: int
  ts_CacheWriteTokens :: int
  ts_ReasoningTokens :: int

record ModelProviderStat =
  ps_Provider :: string
  ps_tally :: tally

record SourceStat =
  ss_Source :: string
  ss_Provider :: string
  ss_TotalRequests :: int
  ss_SuccessCount :: int
  ss_FailureCount :: int
  ss_TotalTokens :: int

record CredentialStat =
  cs_AuthIndex :: string
  cs_TotalRequests :: int
  cs_SuccessCount :: int
  cs_FailureCount :: int
  cs_TotalTokens :: int

record ClientAPIModelStat =
  cm_Model :: string
  cm_tally :: tally
  cm_EstimatedCost :: float64
  cm_Providers :: "ModelProviderStat list"
  cm_providerStats :: "(string, ModelProviderStat) gomap"

record ClientAPIStat =
  ca_APIKey :: string
  ca_APIKeyHash :: string
  ca_Selector :: string
  ca_tally :: tally
  ca_EstimatedCost :: float64
  ca_Models :: "ClientAPIModelStat list"

record ModelStat =
  ms_Model :: string
  ms_tally :: tally
  ms_AvgLatencyMs :: float64
  ms_EstimatedCost :: float64
  ms_Providers :: "ModelProviderStat list"
  ms_latencySum :: int
  ms_latencyN :: int
  ms_providerStats :: "(string, ModelProviderStat) gomap"

record healthBucket =
  hb_success :: int
  hb_failure :: int

record sourceStatAccumulator =
  sa_stat :: SourceStat
  sa_providers :: "(string, int) gomap"

record clientAPIStatAccumulator =
  cc_stat :: ClientAPIStat
  cc_models :: "(string, ClientAPIModelStat) gomap"

end
