(* ===== verification/Tokens.thy ===== *)
theory Tokens
  imports Types
begin

text \<open>
  Token accounting (\<open>go/stats.go\<close>, \<open>go/protocol_fallback.go\<close>, \<open>go/response_intercept.go\<close>):
  the saturating arithmetic of the counters, what counts as cache read and cache write, and the
  total that one request contributes.  An \<open>int64\<close> is an integer; the operations keep it in range,
  and the sums are compared with the 64-bit machine addition at the end.
\<close>

section \<open>Saturating arithmetic\<close>

definition checkedProtocolAdd :: "int \<Rightarrow> int \<Rightarrow> int \<times> bool" where
  "checkedProtocolAdd left right =
     (if left < 0 \<or> right < 0 \<or> left > MaxInt64 - right then (0, False) else (left + right, True))"

definition saturatingProtocolAdd :: "int \<Rightarrow> int \<Rightarrow> int" where
  "saturatingProtocolAdd left right =
     (let l = (if left < 0 then 0 else left);
          r = (if right < 0 then 0 else right)
      in case checkedProtocolAdd l r of (value, ok) \<Rightarrow> if ok then value else MaxInt64)"

definition nonNegativeInt64 :: "int \<Rightarrow> int" where
  "nonNegativeInt64 value = (if value < 0 then 0 else value)"

definition maxInt64 :: "int \<Rightarrow> int \<Rightarrow> int" where
  "maxInt64 a b = (if a > b then a else b)"

definition addNonNegativeInt64 :: "int \<Rightarrow> int \<Rightarrow> int" where
  "addNonNegativeInt64 left right = saturatingProtocolAdd left right"

definition subtractNonNegativeInt64 :: "int \<Rightarrow> int \<Rightarrow> int" where
  "subtractNonNegativeInt64 left right =
     (let l = nonNegativeInt64 left; r = nonNegativeInt64 right
      in if l \<le> r then 0 else l - r)"

lemma saturatingProtocolAdd_eq:
  "saturatingProtocolAdd l r = min MaxInt64 (max 0 l + max 0 r)"
  using MaxInt64_pos by (auto simp: saturatingProtocolAdd_def checkedProtocolAdd_def Let_def)

lemma addNonNegativeInt64_eq: "addNonNegativeInt64 l r = min MaxInt64 (max 0 l + max 0 r)"
  by (simp add: addNonNegativeInt64_def saturatingProtocolAdd_eq)

lemma subtractNonNegativeInt64_eq: "subtractNonNegativeInt64 l r = max 0 (max 0 l - max 0 r)"
  by (auto simp: subtractNonNegativeInt64_def nonNegativeInt64_def Let_def)

lemma nonNegativeInt64_eq: "nonNegativeInt64 x = max 0 x"
  by (auto simp: nonNegativeInt64_def)

lemma maxInt64_eq: "maxInt64 a b = max a b"
  by (auto simp: maxInt64_def)

text \<open>The closed forms of the arithmetic, for the component proofs.\<close>

lemmas int64_ops = saturatingProtocolAdd_eq addNonNegativeInt64_eq subtractNonNegativeInt64_eq
  nonNegativeInt64_eq maxInt64_eq

lemma nonNegativeInt64_idem [simp]:
  "nonNegativeInt64 (nonNegativeInt64 x) = nonNegativeInt64 x"
  by (simp add: nonNegativeInt64_eq)

lemma counter_ok_add [simp, range_intros]: "counter_ok (addNonNegativeInt64 l r)"
  by (auto simp: int64_ops counter_ok_def min_def)

lemma counter_ok_sat [simp, range_intros]: "counter_ok (saturatingProtocolAdd l r)"
  by (auto simp: int64_ops counter_ok_def min_def)

lemma counter_ok_sub [range_intros]:
  "counter_ok l \<Longrightarrow> counter_ok (subtractNonNegativeInt64 l r)"
  by (auto simp: int64_ops counter_ok_def)

lemma counter_ok_nonneg [range_intros]: "in_int64 x \<Longrightarrow> counter_ok (nonNegativeInt64 x)"
  by (auto simp: int64_ops counter_ok_def in_int64_def)

lemma counter_ok_max [range_intros]:
  "counter_ok a \<Longrightarrow> counter_ok b \<Longrightarrow> counter_ok (maxInt64 a b)"
  by (auto simp: int64_ops counter_ok_def)

lemma add_0_right [simp]: "counter_ok l \<Longrightarrow> addNonNegativeInt64 l 0 = l"
  by (auto simp: int64_ops counter_ok_def)

lemma sub_0_left [simp]: "subtractNonNegativeInt64 0 r = 0"
  by (auto simp: int64_ops)

lemma add_exact:
  "0 \<le> l \<Longrightarrow> 0 \<le> r \<Longrightarrow> l + r \<le> MaxInt64 \<Longrightarrow> addNonNegativeInt64 l r = l + r"
  by (auto simp: int64_ops)

lemma sub_exact: "0 \<le> r \<Longrightarrow> r \<le> l \<Longrightarrow> subtractNonNegativeInt64 l r = l - r"
  by (auto simp: int64_ops)

lemma add_commute: "addNonNegativeInt64 l r = addNonNegativeInt64 r l"
  by (auto simp: int64_ops)

lemma add_assoc:
  "addNonNegativeInt64 (addNonNegativeInt64 a b) c = addNonNegativeInt64 a (addNonNegativeInt64 b c)"
  by (auto simp: int64_ops min_def max_def)

text \<open>Adding up a list in any order gives the sum, capped at the largest counter.\<close>

lemma fold_add_eq:
  assumes "0 \<le> a" "a \<le> MaxInt64" "\<And>x. x \<in> set xs \<Longrightarrow> 0 \<le> x"
  shows "fold (\<lambda>x acc. addNonNegativeInt64 acc x) xs a = min MaxInt64 (a + sum_list xs)"
  using assms
proof (induction xs arbitrary: a)
  case Nil
  then show ?case by simp
next
  case (Cons x xs)
  have nn: "0 \<le> sum_list xs" using Cons.prems(3) by (intro sum_list_nonneg) auto
  have "fold (\<lambda>x acc. addNonNegativeInt64 acc x) (x # xs) a =
      min MaxInt64 (min MaxInt64 (a + x) + sum_list xs)"
    using Cons.prems Cons.IH [of "addNonNegativeInt64 a x"] by (simp add: int64_ops)
  also have "\<dots> = min MaxInt64 (a + sum_list (x # xs))"
    using nn by (auto simp: min_def)
  finally show ?case .
qed

section \<open>Provider families\<close>

definition usageProviderFamily :: "string \<Rightarrow> string" where
  "usageProviderFamily provider =
     (let value = go_ToLower (go_TrimSpace provider)
      in if value = [] then []
         else if go_HasPrefix value ''openai-compatible'' \<or> go_HasPrefix value ''openai-compatibility''
         then ''openai-compatible''
         else if value = ''anthropic'' \<or> go_HasPrefix value ''anthropic-'' then ''claude''
         else if value = ''claude'' \<or> go_HasPrefix value ''claude-'' then ''claude''
         else value)"

definition providerUsesExclusiveCacheInput :: "string \<Rightarrow> bool" where
  "providerUsesExclusiveCacheInput provider \<longleftrightarrow> usageProviderFamily provider = ''claude''"

definition usesExclusiveCacheInput :: "string \<Rightarrow> int \<Rightarrow> int \<Rightarrow> int \<Rightarrow> int \<Rightarrow> bool" where
  "usesExclusiveCacheInput provider inputTokens outputTokens cacheTokens totalTokens =
     (if providerUsesExclusiveCacheInput provider then True
      else let computed = saturatingProtocolAdd (saturatingProtocolAdd inputTokens outputTokens) cacheTokens
           in go_TrimSpace provider = [] \<and> totalTokens > 0 \<and> totalTokens \<ge> computed)"

definition cachedTokensAreCacheCreationFallback :: "string \<Rightarrow> int \<Rightarrow> int \<Rightarrow> int \<Rightarrow> bool" where
  "cachedTokensAreCacheCreationFallback provider cacheRead cached cacheWrite \<longleftrightarrow>
     providerUsesExclusiveCacheInput provider \<and> cacheRead = 0 \<and> cacheWrite > 0 \<and> cached = cacheWrite"

definition protocolCorrelationCacheRead :: "string \<Rightarrow> int \<Rightarrow> int \<Rightarrow> int \<Rightarrow> int" where
  "protocolCorrelationCacheRead provider cacheRead cached cacheWrite =
     (if cacheRead = 0 \<and> cached > 0 \<and>
         \<not> cachedTokensAreCacheCreationFallback provider cacheRead cached cacheWrite
      then cached else cacheRead)"

lemma usageProviderFamily_trim [simp]:
  "usageProviderFamily (go_TrimSpace p) = usageProviderFamily p"
  by (simp add: usageProviderFamily_def)

lemma providerUsesExclusive_trim [simp]:
  "providerUsesExclusiveCacheInput (go_TrimSpace p) = providerUsesExclusiveCacheInput p"
  by (simp add: providerUsesExclusiveCacheInput_def)

lemma usesExclusive_trim [simp]:
  "usesExclusiveCacheInput (go_TrimSpace p) = usesExclusiveCacheInput p"
  by (simp add: usesExclusiveCacheInput_def fun_eq_iff)

section \<open>Totals of an incoming usage record\<close>

definition usageDetailCacheTokenParts :: "UsageDetail \<Rightarrow> string \<Rightarrow> int \<times> int \<times> int" where
  "usageDetailCacheTokenParts detail provider =
     (let cacheReadTokens = maxInt64 (nonNegativeInt64 (ud_CachedTokens detail))
                                     (nonNegativeInt64 (ud_CacheReadTokens detail));
          cacheWriteTokens = nonNegativeInt64 (ud_CacheCreationTokens detail);
          cacheReadTokens =
            (if cachedTokensAreCacheCreationFallback provider
                  (nonNegativeInt64 (ud_CacheReadTokens detail))
                  (nonNegativeInt64 (ud_CachedTokens detail)) cacheWriteTokens
             then 0 else cacheReadTokens)
      in (cacheReadTokens, cacheWriteTokens, saturatingProtocolAdd cacheReadTokens cacheWriteTokens))"

definition usageDetailTotalTokens :: "UsageDetail \<Rightarrow> string \<Rightarrow> int" where
  "usageDetailTotalTokens detail provider =
     (case usageDetailCacheTokenParts detail provider of (_, _, cacheTokens) \<Rightarrow>
        let inputTokens = nonNegativeInt64 (ud_InputTokens detail);
            outputTokens = nonNegativeInt64 (ud_OutputTokens detail);
            computedTokens = saturatingProtocolAdd inputTokens outputTokens;
            computedTokens =
              (if usesExclusiveCacheInput provider inputTokens outputTokens cacheTokens
                    (ud_TotalTokens detail)
               then saturatingProtocolAdd computedTokens cacheTokens else computedTokens)
        in maxInt64 (nonNegativeInt64 (ud_TotalTokens detail)) computedTokens)"

text \<open>
  The token fields that \<open>requestDetailFromUsageRecord\<close> stores, and nothing else of it.
\<close>

definition tokenStatsFromUsage :: "UsageDetail \<Rightarrow> string \<Rightarrow> TokenStats" where
  "tokenStatsFromUsage detail provider =
     (case usageDetailCacheTokenParts detail provider of
        (cacheReadTokens, cacheWriteTokens, cacheTokens) \<Rightarrow>
        \<lparr> tk_InputTokens = nonNegativeInt64 (ud_InputTokens detail),
          tk_OutputTokens = nonNegativeInt64 (ud_OutputTokens detail),
          tk_ReasoningTokens = nonNegativeInt64 (ud_ReasoningTokens detail),
          tk_CachedTokens = cacheReadTokens,
          tk_CacheReadTokens = cacheReadTokens,
          tk_CacheTokens = cacheTokens,
          tk_CacheWriteTokens = cacheWriteTokens,
          tk_TotalTokens = usageDetailTotalTokens detail provider \<rparr>)"

section \<open>Totals of a stored detail\<close>

definition normalizedCacheTokens :: "TokenStats \<Rightarrow> int" where
  "normalizedCacheTokens tokens =
     (let cachedTokens = nonNegativeInt64 (tk_CachedTokens tokens);
          cacheWriteTokens = nonNegativeInt64 (tk_CacheWriteTokens tokens);
          cacheTokens = nonNegativeInt64 (tk_CacheTokens tokens)
      in if cacheTokens > 0 then maxInt64 cacheTokens (maxInt64 cachedTokens cacheWriteTokens)
         else saturatingProtocolAdd cachedTokens cacheWriteTokens)"

definition normalizedCacheReadTokens :: "TokenStats \<Rightarrow> int" where
  "normalizedCacheReadTokens tokens =
     (let cachedTokens = nonNegativeInt64 (tk_CachedTokens tokens)
      in if cachedTokens > 0 then cachedTokens
         else maxInt64 (nonNegativeInt64 (tk_CacheTokens tokens) -
                        nonNegativeInt64 (tk_CacheWriteTokens tokens)) 0)"

definition detailTotalTokens :: "TokenStats \<Rightarrow> int" where
  "detailTotalTokens tokens =
     (let computedTokens = saturatingProtocolAdd (nonNegativeInt64 (tk_InputTokens tokens))
                                                 (nonNegativeInt64 (tk_OutputTokens tokens))
      in maxInt64 (nonNegativeInt64 (tk_TotalTokens tokens)) computedTokens)"

definition detailTotalTokensForRequest :: "RequestDetail \<Rightarrow> int" where
  "detailTotalTokensForRequest detail =
     (let totalTokens = detailTotalTokens (rd_Tokens detail);
          inputTokens = nonNegativeInt64 (tk_InputTokens (rd_Tokens detail));
          outputTokens = nonNegativeInt64 (tk_OutputTokens (rd_Tokens detail));
          cacheTokens = normalizedCacheTokens (rd_Tokens detail)
      in if usesExclusiveCacheInput (rd_Provider detail) inputTokens outputTokens cacheTokens
              (tk_TotalTokens (rd_Tokens detail))
         then let expandedTokens = saturatingProtocolAdd
                    (saturatingProtocolAdd inputTokens outputTokens) cacheTokens
              in maxInt64 totalTokens expandedTokens
         else totalTokens)"

definition detailUncachedInputTokensForRequest :: "RequestDetail \<Rightarrow> int" where
  "detailUncachedInputTokensForRequest detail =
     (let inputTokens = nonNegativeInt64 (tk_InputTokens (rd_Tokens detail))
      in if providerUsesExclusiveCacheInput (rd_Provider detail) then inputTokens
         else let cacheTokens = normalizedCacheTokens (rd_Tokens detail)
              in if usesExclusiveCacheInput (rd_Provider detail) inputTokens
                      (nonNegativeInt64 (tk_OutputTokens (rd_Tokens detail))) cacheTokens
                      (tk_TotalTokens (rd_Tokens detail))
                 then inputTokens else maxInt64 (inputTokens - cacheTokens) 0)"

definition detailTotalsFromRequest :: "RequestDetail \<Rightarrow> detailTotals" where
  "detailTotalsFromRequest detail =
     (let positive = rd_LatencyMs detail > 0
      in \<lparr> dt_totalTokens = detailTotalTokensForRequest detail,
           dt_inputTokens = nonNegativeInt64 (tk_InputTokens (rd_Tokens detail)),
           dt_outputTokens = nonNegativeInt64 (tk_OutputTokens (rd_Tokens detail)),
           dt_cachedTokens = normalizedCacheReadTokens (rd_Tokens detail),
           dt_cacheWriteTokens = nonNegativeInt64 (tk_CacheWriteTokens (rd_Tokens detail)),
           dt_reasoningTokens = nonNegativeInt64 (tk_ReasoningTokens (rd_Tokens detail)),
           dt_latencySum = (if positive then rd_LatencyMs detail else 0),
           dt_latencyN = (if positive then 1 else 0) \<rparr>)"

section \<open>What the totals satisfy\<close>

text \<open>The fields of an incoming usage record are values of an \<open>int64\<close>.\<close>

definition usage_in_range :: "UsageDetail \<Rightarrow> bool" where
  "usage_in_range u \<longleftrightarrow>
     in_int64 (ud_InputTokens u) \<and> in_int64 (ud_OutputTokens u) \<and>
     in_int64 (ud_ReasoningTokens u) \<and> in_int64 (ud_CachedTokens u) \<and>
     in_int64 (ud_CacheReadTokens u) \<and> in_int64 (ud_CacheCreationTokens u) \<and>
     in_int64 (ud_TotalTokens u)"

definition tokens_in_range :: "TokenStats \<Rightarrow> bool" where
  "tokens_in_range t \<longleftrightarrow>
     in_int64 (tk_InputTokens t) \<and> in_int64 (tk_OutputTokens t) \<and>
     in_int64 (tk_ReasoningTokens t) \<and> in_int64 (tk_CachedTokens t) \<and>
     in_int64 (tk_CacheReadTokens t) \<and> in_int64 (tk_CacheTokens t) \<and>
     in_int64 (tk_CacheWriteTokens t) \<and> in_int64 (tk_TotalTokens t)"

lemma in_int64_bounds: "in_int64 x \<Longrightarrow> x \<le> MaxInt64"
  by (simp add: in_int64_def)

lemma usageDetailCacheTokenParts_range:
  assumes "usage_in_range u" "usageDetailCacheTokenParts u p = (r, w, c)"
  shows "counter_ok r" "counter_ok w" "c = saturatingProtocolAdd r w"
  using assms
  by (auto simp: usageDetailCacheTokenParts_def usage_in_range_def Let_def
      intro!: counter_ok_max counter_ok_nonneg split: if_splits)

lemma normalizedCacheTokens_range:
  "tokens_in_range t \<Longrightarrow> counter_ok (normalizedCacheTokens t)"
  by (auto simp: normalizedCacheTokens_def tokens_in_range_def Let_def
      intro!: counter_ok_max counter_ok_nonneg)

lemma detailTotalTokens_range:
  "tokens_in_range t \<Longrightarrow> counter_ok (detailTotalTokens t)"
  by (auto simp: detailTotalTokens_def tokens_in_range_def Let_def
      intro!: counter_ok_max counter_ok_nonneg)

lemma detailTotalTokensForRequest_range:
  "tokens_in_range (rd_Tokens d) \<Longrightarrow> counter_ok (detailTotalTokensForRequest d)"
  by (auto simp: detailTotalTokensForRequest_def Let_def
      intro!: counter_ok_max detailTotalTokens_range)

lemma normalizedCacheReadTokens_range:
  "tokens_in_range t \<Longrightarrow> counter_ok (normalizedCacheReadTokens t)"
  by (auto simp: normalizedCacheReadTokens_def tokens_in_range_def Let_def int64_ops
      counter_ok_def in_int64_def max_def)

text \<open>What a request may contribute: every total is a counter value.\<close>

definition totals_ok :: "detailTotals \<Rightarrow> bool" where
  "totals_ok t \<longleftrightarrow>
     counter_ok (dt_totalTokens t) \<and> counter_ok (dt_inputTokens t) \<and>
     counter_ok (dt_outputTokens t) \<and> counter_ok (dt_cachedTokens t) \<and>
     counter_ok (dt_cacheWriteTokens t) \<and> counter_ok (dt_reasoningTokens t) \<and>
     counter_ok (dt_latencySum t) \<and> counter_ok (dt_latencyN t)"

lemma detailTotalsFromRequest_ok:
  assumes "tokens_in_range (rd_Tokens d)" "in_int64 (rd_LatencyMs d)"
  shows "totals_ok (detailTotalsFromRequest d)"
  using assms detailTotalTokensForRequest_range [of d] normalizedCacheReadTokens_range [of "rd_Tokens d"]
  by (auto simp: totals_ok_def detailTotalsFromRequest_def Let_def tokens_in_range_def
      in_int64_def counter_ok_def nonNegativeInt64_def)

lemma normalizedCacheTokens_stored:
  assumes "usage_in_range u" "usageDetailCacheTokenParts u p = (r, w, c)"
  shows "normalizedCacheTokens (tokenStatsFromUsage u p) = c"
    and "normalizedCacheReadTokens (tokenStatsFromUsage u p) = r"
  using usageDetailCacheTokenParts_range [OF assms] assms(2)
  by (auto simp: normalizedCacheTokens_def normalizedCacheReadTokens_def tokenStatsFromUsage_def
      Let_def int64_ops counter_ok_def min_def max_def split: if_splits)

lemma total_core:
  fixes comp full total :: int
  assumes "0 \<le> comp" "comp \<le> full"
  defines "t1 \<equiv> maxInt64 (nonNegativeInt64 total) (if total > 0 \<and> total \<ge> full then full else comp)"
  shows "(if t1 > 0 \<and> t1 \<ge> full then maxInt64 (maxInt64 (nonNegativeInt64 t1) comp) full
          else maxInt64 (nonNegativeInt64 t1) comp) = t1"
  using assms by (auto simp: maxInt64_def nonNegativeInt64_def)

lemma stored_total_eq:
  assumes "usage_in_range u"
    and "rd_Tokens d = tokenStatsFromUsage u p" and "rd_Provider d = go_TrimSpace p"
  shows "detailTotalTokensForRequest d = usageDetailTotalTokens u p"
proof -
  obtain r w c where parts: "usageDetailCacheTokenParts u p = (r, w, c)"
    by (cases "usageDetailCacheTokenParts u p")
  note stored = normalizedCacheTokens_stored [OF assms(1) parts]
  note range = usageDetailCacheTokenParts_range [OF assms(1) parts]
  let ?i = "nonNegativeInt64 (ud_InputTokens u)" and ?o = "nonNegativeInt64 (ud_OutputTokens u)"
  let ?comp = "saturatingProtocolAdd ?i ?o"
  have le: "0 \<le> ?comp" "?comp \<le> saturatingProtocolAdd ?comp c"
    using range by (auto simp: int64_ops counter_ok_def)
  let ?full = "saturatingProtocolAdd ?comp c" and ?t1 = "usageDetailTotalTokens u p"
  have U: "?t1 = maxInt64 (nonNegativeInt64 (ud_TotalTokens u))
      (if usesExclusiveCacheInput p ?i ?o c (ud_TotalTokens u) then ?full else ?comp)"
    by (simp add: usageDetailTotalTokens_def parts Let_def)
  have S: "detailTotalTokensForRequest d =
      (if usesExclusiveCacheInput p ?i ?o c ?t1
       then maxInt64 (maxInt64 (nonNegativeInt64 ?t1) ?comp) ?full
       else maxInt64 (nonNegativeInt64 ?t1) ?comp)"
    using stored(1)
    by (simp add: detailTotalTokensForRequest_def detailTotalTokens_def assms(2,3) Let_def
        tokenStatsFromUsage_def parts)
  consider "providerUsesExclusiveCacheInput p" | "\<not> providerUsesExclusiveCacheInput p" "go_TrimSpace p \<noteq> []"
    | "\<not> providerUsesExclusiveCacheInput p" "go_TrimSpace p = []" by blast
  then show ?thesis
  proof cases
    case 1
    then show ?thesis using le U S
      by (simp add: usesExclusiveCacheInput_def maxInt64_def nonNegativeInt64_def)
  next
    case 2
    then show ?thesis using le U S
      by (simp add: usesExclusiveCacheInput_def maxInt64_def nonNegativeInt64_def)
  next
    case 3
    then have E: "usesExclusiveCacheInput p ?i ?o c x \<longleftrightarrow> x > 0 \<and> x \<ge> ?full" for x
      by (simp add: usesExclusiveCacheInput_def Let_def)
    show ?thesis
      using total_core [OF le, of "ud_TotalTokens u"]
      unfolding S E U [unfolded E, symmetric] .
  qed
qed

definition sample_usage :: UsageDetail where
  "sample_usage = \<lparr> ud_InputTokens = 100, ud_OutputTokens = 40, ud_ReasoningTokens = 5,
     ud_CachedTokens = 30, ud_CacheReadTokens = 0, ud_CacheCreationTokens = 30,
     ud_TotalTokens = 140 \<rparr>"

definition sample_thinking :: UsageThinking where
  "sample_thinking = \<lparr> th_Intensity = [], th_Mode = [], th_Level = [], th_Budget = 0 \<rparr>"

text \<open>A detail of one minute past the epoch, with the tokens of \<open>sample_usage\<close>.\<close>

definition sample_detail :: RequestDetail where
  "sample_detail = \<lparr> rd_RecordID = [], rd_eventSequence = 0, rd_UpstreamAPI = [],
     rd_Model = ''m'', rd_RequestedModel = [],
     rd_Timestamp = \<lparr> t_ns = 60000000000, t_off = 0 \<rparr>, rd_LatencyMs = 12, rd_TTFTMs = 3,
     rd_APIKey = [], rd_APIKeyHash = [], rd_Source = [], rd_Provider = ''claude'',
     rd_ExecutorType = [], rd_Correlation = None, rd_AuthID = [], rd_AuthIndex = [],
     rd_AuthType = [], rd_Endpoint = [], rd_BaseURL = [], rd_Stream = False,
     rd_Thinking = sample_thinking, rd_ServiceTier = [],
     rd_Tokens = tokenStatsFromUsage sample_usage '' claude '', rd_Failed = False,
     rd_StatusCode = 200, rd_Failure = [], rd_Headers = [], rd_TimestampSynthetic = False,
     rd_CostUSD = None \<rparr>"

lemma sample_usage_in_range: "usage_in_range sample_usage"
  by (simp add: usage_in_range_def sample_usage_def in_int64_def MinInt64_def MaxInt64_def)

lemma trim_claude: "go_TrimSpace '' claude '' = ''claude''"
  by code_simp

text \<open>
  C19: What the counters add up for a stored detail is what was computed when the usage record
  came in: the total, the cache hits and the cache writes.  Re-reading a detail (after a
  restart, in a rebuild, on removal) gives the same contribution, whatever the provider's
  convention for cached input.
\<close>
theorem ingested_totals_are_recomputed:
  assumes "usage_in_range u"
    and "rd_Tokens d = tokenStatsFromUsage u p" and "rd_Provider d = go_TrimSpace p"
  shows "dt_totalTokens (detailTotalsFromRequest d) = usageDetailTotalTokens u p \<and>
    dt_cachedTokens (detailTotalsFromRequest d) = fst (usageDetailCacheTokenParts u p) \<and>
    dt_cacheWriteTokens (detailTotalsFromRequest d) = fst (snd (usageDetailCacheTokenParts u p))"
proof -
  obtain r w c where parts: "usageDetailCacheTokenParts u p = (r, w, c)"
    by (cases "usageDetailCacheTokenParts u p")
  have w: "nonNegativeInt64 w = w"
    using usageDetailCacheTokenParts_range(2) [OF assms(1) parts]
    by (simp add: counter_ok_def nonNegativeInt64_def)
  show ?thesis
    using stored_total_eq [OF assms] normalizedCacheTokens_stored(2) [OF assms(1) parts] w
    by (simp add: detailTotalsFromRequest_def Let_def assms(2) parts)
      (simp add: tokenStatsFromUsage_def parts)
qed

lemma ingested_totals_are_recomputed_witness:
  "dt_totalTokens (detailTotalsFromRequest sample_detail) = usageDetailTotalTokens sample_usage '' claude ''"
  using ingested_totals_are_recomputed [OF sample_usage_in_range, of sample_detail "'' claude ''"]
  by (simp add: sample_detail_def trim_claude)

text \<open>
  C20: When CPA repeats the cache creation of a Claude request in \<open>CachedTokens\<close> because there was
  no cache read, the stored detail has no cache hit, the creation is counted once, and the
  total adds it once to input and output.
\<close>
theorem claude_creation_counted_once:
  assumes "usage_in_range u" "providerUsesExclusiveCacheInput p"
    and "ud_CacheReadTokens u \<le> 0"
    and "ud_CachedTokens u = ud_CacheCreationTokens u" "0 < ud_CacheCreationTokens u"
    and "rd_Tokens d = tokenStatsFromUsage u p" "rd_Provider d = go_TrimSpace p"
  shows "dt_cachedTokens (detailTotalsFromRequest d) = 0 \<and>
    dt_cacheWriteTokens (detailTotalsFromRequest d) = ud_CacheCreationTokens u \<and>
    dt_totalTokens (detailTotalsFromRequest d) =
      maxInt64 (nonNegativeInt64 (ud_TotalTokens u))
        (saturatingProtocolAdd
          (saturatingProtocolAdd (nonNegativeInt64 (ud_InputTokens u)) (nonNegativeInt64 (ud_OutputTokens u)))
          (ud_CacheCreationTokens u))"
proof -
  have parts: "usageDetailCacheTokenParts u p = (0, ud_CacheCreationTokens u, ud_CacheCreationTokens u)"
    using assms(1-5)
    by (auto simp: usageDetailCacheTokenParts_def cachedTokensAreCacheCreationFallback_def Let_def
        int64_ops usage_in_range_def in_int64_def)
  have cached: "normalizedCacheReadTokens (rd_Tokens d) = 0"
    using normalizedCacheTokens_stored(2) [OF assms(1) parts] by (simp add: assms(6))
  have "usageDetailTotalTokens u p = maxInt64 (nonNegativeInt64 (ud_TotalTokens u))
      (saturatingProtocolAdd
        (saturatingProtocolAdd (nonNegativeInt64 (ud_InputTokens u)) (nonNegativeInt64 (ud_OutputTokens u)))
        (ud_CacheCreationTokens u))"
    using assms(2) by (simp add: usageDetailTotalTokens_def parts usesExclusiveCacheInput_def Let_def)
  moreover have "detailTotalTokensForRequest d = usageDetailTotalTokens u p"
    by (rule stored_total_eq [OF assms(1,6,7)])
  ultimately show ?thesis
    using assms(5) cached
    by (simp add: detailTotalsFromRequest_def Let_def assms(6) tokenStatsFromUsage_def parts
        nonNegativeInt64_def)
qed

lemma claude_creation_counted_once_witness:
  "dt_cachedTokens (detailTotalsFromRequest sample_detail) = 0 \<and>
   dt_cacheWriteTokens (detailTotalsFromRequest sample_detail) = 30 \<and>
   dt_totalTokens (detailTotalsFromRequest sample_detail) = 170"
proof -
  have p: "providerUsesExclusiveCacheInput '' claude ''" by code_simp
  have u: "ud_CacheReadTokens sample_usage \<le> 0"
    "ud_CachedTokens sample_usage = ud_CacheCreationTokens sample_usage"
    "0 < ud_CacheCreationTokens sample_usage" by (simp_all add: sample_usage_def)
  have d: "rd_Tokens sample_detail = tokenStatsFromUsage sample_usage '' claude ''"
    "rd_Provider sample_detail = go_TrimSpace '' claude ''" by (simp_all add: sample_detail_def trim_claude)
  show ?thesis
    using claude_creation_counted_once [OF sample_usage_in_range p u d]
    by (simp add: sample_usage_def int64_ops MaxInt64_def)
qed

end
