(* ===== verification/ModelAlias.thy ===== *)
theory ModelAlias
  imports Types
begin

text \<open>
  Model names (\<open>go/model_alias.go\<close>, \<open>detailModel\<close> and \<open>normalizeModelName\<close> of \<open>go/stats.go\<close>).
  CPA cloaks a model name as a fixed prefix and the reversed name; the decoder undoes it.  Go
  reverses runes, so the UTF-8 segmentation of a byte string is modelled, with the replacement
  of invalid bytes.
\<close>

section \<open>UTF-8 segmentation\<close>

definition cont :: "char \<Rightarrow> bool" where
  "cont c \<longleftrightarrow> 0x80 \<le> byte_of c \<and> byte_of c \<le> 0xBF"

definition ok2 :: "char \<Rightarrow> char \<Rightarrow> bool" where
  "ok2 a b \<longleftrightarrow> 0xC2 \<le> byte_of a \<and> byte_of a \<le> 0xDF \<and> cont b"

definition ok3 :: "char \<Rightarrow> char \<Rightarrow> char \<Rightarrow> bool" where
  "ok3 a b c \<longleftrightarrow> 0xE0 \<le> byte_of a \<and> byte_of a \<le> 0xEF \<and> cont b \<and> cont c \<and>
     (byte_of a = 0xE0 \<longrightarrow> 0xA0 \<le> byte_of b) \<and> (byte_of a = 0xED \<longrightarrow> byte_of b \<le> 0x9F)"

definition ok4 :: "char \<Rightarrow> char \<Rightarrow> char \<Rightarrow> char \<Rightarrow> bool" where
  "ok4 a b c d \<longleftrightarrow> 0xF0 \<le> byte_of a \<and> byte_of a \<le> 0xF4 \<and> cont b \<and> cont c \<and> cont d \<and>
     (byte_of a = 0xF0 \<longrightarrow> 0x90 \<le> byte_of b) \<and> (byte_of a = 0xF4 \<longrightarrow> byte_of b \<le> 0x8F)"

text \<open>The length of the valid encoding a string starts with, 0 for an invalid byte.\<close>

fun rune_len :: "string \<Rightarrow> nat" where
  "rune_len [] = 0"
| "rune_len [a] = (if byte_of a < 0x80 then 1 else 0)"
| "rune_len [a, b] = (if byte_of a < 0x80 then 1 else if ok2 a b then 2 else 0)"
| "rune_len [a, b, c] =
     (if byte_of a < 0x80 then 1 else if ok2 a b then 2 else if ok3 a b c then 3 else 0)"
| "rune_len (a # b # c # d # s) =
     (if byte_of a < 0x80 then 1 else if ok2 a b then 2 else if ok3 a b c then 3
      else if ok4 a b c d then 4 else 0)"

lemma rune_len_le: "rune_len s \<le> length s"
  by (cases s rule: rune_len.cases) auto

text \<open>The encoding of U+FFFD, which \<open>string([]rune(s))\<close> puts for each invalid byte.\<close>

definition replacement :: string where
  "replacement = [CHR 0xEF, CHR 0xBF, CHR 0xBD]"

function runes_of :: "string \<Rightarrow> string list" where
  "runes_of s =
     (if s = [] then []
      else if rune_len s = 0 then replacement # runes_of (drop 1 s)
      else take (rune_len s) s # runes_of (drop (rune_len s) s))"
  by pat_completeness auto
termination
  by (relation "measure length") (auto intro!: diff_less)

declare runes_of.simps [simp del]

lemma runes_of_Nil [simp]: "runes_of [] = []"
  by (simp add: runes_of.simps)

definition is_rune :: "string \<Rightarrow> bool" where
  "is_rune r \<longleftrightarrow> r \<noteq> [] \<and> rune_len r = length r"

definition utf8_valid :: "string \<Rightarrow> bool" where
  "utf8_valid s \<longleftrightarrow> concat (runes_of s) = s \<and> list_all is_rune (runes_of s)"

lemma rune_len_append: "rune_len r = length r \<Longrightarrow> r \<noteq> [] \<Longrightarrow> rune_len (r @ s) = length r"
  by (cases r rule: rune_len.cases; cases s rule: rune_len.cases)
    (auto split: if_splits simp: ok2_def ok3_def ok4_def)

lemma runes_of_rune: "is_rune r \<Longrightarrow> runes_of (r @ s) = r # runes_of s"
  by (subst runes_of.simps) (auto simp: is_rune_def rune_len_append)

lemma runes_of_concat: "list_all is_rune rs \<Longrightarrow> runes_of (concat rs) = rs"
  by (induction rs) (simp_all add: runes_of_rune)

section \<open>Cloaked names\<close>

definition reverseModelName :: "string \<Rightarrow> string" where
  "reverseModelName s = concat (rev (runes_of s))"

definition claudeCloakedModelPrefix :: string where
  "claudeCloakedModelPrefix = ''claude-fable-5-dd-''"

definition splitCloakedModelSuffix :: "string \<Rightarrow> string \<times> string \<times> bool" where
  "splitCloakedModelSuffix model =
     (case go_LastIndexByte model CHR ''('' of
        None \<Rightarrow> (model, [], False)
      | Some lastOpen \<Rightarrow>
          if \<not> go_HasSuffix model '')'' then (model, [], False)
          else (take lastOpen model,
                take (length model - 1 - (lastOpen + 1)) (drop (lastOpen + 1) model), True))"

definition decodeClaudeCloakedModel :: "string \<Rightarrow> string" where
  "decodeClaudeCloakedModel model =
     (let name = go_TrimSpace model
      in if \<not> go_HasPrefix name claudeCloakedModelPrefix then model
         else case splitCloakedModelSuffix name of (base, sfx, hasSuffix) \<Rightarrow>
           if \<not> go_HasPrefix base claudeCloakedModelPrefix then model
           else let encoded = drop (length claudeCloakedModelPrefix) base
                in if encoded = [] then model
                   else let reversed = reverseModelName encoded
                        in if hasSuffix then reversed @ ''('' @ sfx @ '')'' else reversed)"

definition normalizeModelName :: "string \<Rightarrow> string" where
  "normalizeModelName model =
     (let model = go_TrimSpace model
      in if model = [] then ''unknown'' else decodeClaudeCloakedModel model)"

definition detailModel :: "string \<Rightarrow> RequestDetail \<Rightarrow> string" where
  "detailModel modelName detail = (if rd_Model detail \<noteq> [] then rd_Model detail else modelName)"

fun firstNonEmpty :: "string list \<Rightarrow> string" where
  "firstNonEmpty [] = []"
| "firstNonEmpty (value # values) =
     (if go_TrimSpace value \<noteq> [] then value else firstNonEmpty values)"

lemma go_IndexByte_None: "b \<notin> set s \<Longrightarrow> go_IndexByte s b = None"
  by (induction s) auto

lemma go_IndexByte_append: "b \<notin> set s \<Longrightarrow> go_IndexByte (s @ b # t) b = Some (length s)"
  by (induction s) auto

lemma go_LastIndexByte_append:
  "b \<notin> set t \<Longrightarrow> go_LastIndexByte (s @ b # t) b = Some (length s)"
  by (simp add: go_LastIndexByte_def go_IndexByte_append)

lemma go_LastIndexByte_None: "b \<notin> set s \<Longrightarrow> go_LastIndexByte s b = None"
  by (simp add: go_LastIndexByte_def go_IndexByte_None)

text \<open>
  C21: The decoder gives the upstream name back: of a cloaked name, which is the prefix, the runes of
  the upstream name from the last to the first, and a thinking suffix in parentheses if there is
  one, it returns the runes in their order, each with its bytes kept together, and the suffix where
  it was.  A name without the prefix is returned as it is.  (The upstream name is not empty and has no
  opening parenthesis, and the cloaked name has no white space at its ends.)
\<close>
theorem decode_restores_runes:
  fixes runes :: "string list" and thinking :: bool
  assumes m: "list_all is_rune runes" "runes \<noteq> []" "CHR ''('' \<notin> set (concat runes)"
    and v: "CHR ''('' \<notin> set v"
  defines "sfx \<equiv> if thinking then ''('' @ v @ '')'' else []"
  defines "cloaked \<equiv> ''claude-fable-5-dd-'' @ concat (rev runes) @ sfx"
  assumes trim: "go_TrimSpace cloaked = cloaked"
    and plain: "\<not> go_HasPrefix (go_TrimSpace other) ''claude-fable-5-dd-''"
  shows "decodeClaudeCloakedModel cloaked = concat runes @ sfx \<and> decodeClaudeCloakedModel other = other"
proof
  let ?base = "claudeCloakedModelPrefix @ concat (rev runes)"
  have c: "cloaked = ?base @ sfx" by (simp add: cloaked_def claudeCloakedModelPrefix_def)
  have r: "concat (rev runes) \<noteq> []" using m(1,2) by (auto simp: is_rune_def list_all_iff neq_Nil_conv)
  have p: "CHR ''('' \<notin> set ?base" using m(3) by (simp add: claudeCloakedModelPrefix_def)
  have split: "splitCloakedModelSuffix cloaked = (?base, if thinking then v else [], thinking)"
  proof (cases thinking)
    case False
    then show ?thesis using p by (simp add: splitCloakedModelSuffix_def c sfx_def go_LastIndexByte_None)
  next
    case True
    have "cloaked = ?base @ CHR ''('' # (v @ '')'')" using True by (simp add: c sfx_def)
    moreover have "CHR ''('' \<notin> set (v @ '')'')" using v by simp
    ultimately have "go_LastIndexByte cloaked CHR ''('' = Some (length ?base)"
      using go_LastIndexByte_append by metis
    then show ?thesis
      using True by (simp add: splitCloakedModelSuffix_def c sfx_def go_HasSuffix_def suffix_def)
  qed
  have rev: "reverseModelName (concat (rev runes)) = concat runes"
    using m(1) by (simp add: reverseModelName_def runes_of_concat)
  have pre: "go_HasPrefix cloaked claudeCloakedModelPrefix" "go_HasPrefix ?base claudeCloakedModelPrefix"
    by (simp_all add: c go_HasPrefix_def)
  have d: "drop (length claudeCloakedModelPrefix) ?base = concat (rev runes)" by simp
  show "decodeClaudeCloakedModel cloaked = concat runes @ sfx"
    unfolding decodeClaudeCloakedModel_def trim Let_def split prod.case d rev using pre r by (auto simp: sfx_def)
  show "decodeClaudeCloakedModel other = other"
    using plain by (simp add: decodeClaudeCloakedModel_def Let_def claudeCloakedModelPrefix_def)
qed

text \<open>A name with an e-acute, two bytes in UTF-8.\<close>

definition accented_runes :: "string list" where
  "accented_runes = [''g'', [CHR 0xC3, CHR 0xA9], ''5'']"

lemma decode_restores_runes_witness:
  "decodeClaudeCloakedModel (''claude-fable-5-dd-5'' @ [CHR 0xC3, CHR 0xA9] @ ''g(high)'') =
     ''g'' @ [CHR 0xC3, CHR 0xA9] @ ''5(high)'' \<and> decodeClaudeCloakedModel ''gpt-5'' = ''gpt-5''"
proof -
  have a: "list_all is_rune accented_runes" "accented_runes \<noteq> []" "CHR ''('' \<notin> set (concat accented_runes)" "CHR ''('' \<notin> set ''high''"
    by code_simp+
  have t: "go_TrimSpace (''claude-fable-5-dd-'' @ concat (rev accented_runes) @ (if True then ''('' @ ''high'' @ '')'' else [])) =
      ''claude-fable-5-dd-'' @ concat (rev accented_runes) @ (if True then ''('' @ ''high'' @ '')'' else [])"
    "\<not> go_HasPrefix (go_TrimSpace ''gpt-5'') ''claude-fable-5-dd-''" by code_simp+
  show ?thesis using decode_restores_runes [OF a t] by (simp add: accented_runes_def)
qed

end
