(* ===== verification/SourceKeys.thy ===== *)
theory SourceKeys
  imports ModelAlias
begin

text \<open>
  Names, keys and secrets (\<open>go/source.go\<close>): what looks like a secret or a credential ID, the
  masks put in their place, the group key and the source label of a usage record, the filter of
  response headers, and the redaction of keys in failure texts.
\<close>

section \<open>Secrets and credential IDs\<close>

definition is_hex :: "char \<Rightarrow> bool" where
  "is_hex c \<longleftrightarrow> 48 \<le> byte_of c \<and> byte_of c \<le> 57 \<or> 97 \<le> byte_of c \<and> byte_of c \<le> 102 \<or>
     65 \<le> byte_of c \<and> byte_of c \<le> 70"

definition looksLikeSecretKey :: "string \<Rightarrow> bool" where
  "looksLikeSecretKey raw =
     (let s = go_TrimSpace raw
      in if s = [] then False
         else if go_HasPrefix s ''sk-'' \<or> go_HasPrefix s ''AIza'' \<or> go_HasPrefix s ''hf_'' \<or>
                 go_HasPrefix s ''pk_'' \<or> go_HasPrefix s ''rk_'' then True
         else if length s \<ge> 40 \<and> \<not> go_ContainsAny s '' /.-_'' then True
         else if length s \<ge> 80 \<and> \<not> go_Contains s '' '' then True
         else False)"

definition redactedMarker :: string where
  "redactedMarker = ''******''"

definition maskAPIKey :: "string \<Rightarrow> string" where
  "maskAPIKey raw =
     (let s = go_TrimSpace raw
      in if s = [] then []
         else if length s \<le> 4 then take 1 s @ ''******''
         else if length s < 2 + 2 then take 1 s @ ''******'' @ drop (length s - 1) s
         else take 2 s @ ''******'' @ drop (length s - 2) s)"

definition maskToken :: "string \<Rightarrow> string" where
  "maskToken token =
     (if length token \<le> 4 then redactedMarker
      else take 2 token @ redactedMarker @ drop (length token - 2) token)"

text \<open>The separators, the first of them a middle dot between two spaces.\<close>

definition dot_sep :: string where
  "dot_sep = [CHR '' '', CHR 0xC2, CHR 0xB7, CHR '' '']"

definition splitBySeparators :: "string \<Rightarrow> string list" where
  "splitBySeparators s =
     (if go_Contains s dot_sep then go_Split s dot_sep
      else if go_Contains s '' - '' then go_Split s '' - ''
      else if go_Contains s '' | '' then go_Split s '' | ''
      else if go_Contains s ''/'' then go_Split s ''/''
      else [s])"

definition looksLikeCredentialID :: "string \<Rightarrow> bool" where
  "looksLikeCredentialID raw =
     (let s = go_TrimSpace raw;
          hyphenless = go_RemoveByte s CHR ''-'';
          hexCount = length (filter is_hex hyphenless)
      in if length s \<ge> 8 \<and> list_all is_hex s then True
         else if go_Contains s ''-'' \<and> length s \<ge> 30 \<and> length hyphenless \<ge> 30 \<and>
                 (hexCount \<ge> 30 \<or> hexCount * 5 \<ge> length hyphenless * 4) then True
         else length s \<ge> 32 \<and> \<not> go_ContainsAny s '' /.-_'')"

text \<open>The marker test that \<open>stripCredentialSuffix\<close> and \<open>credentialIdentity\<close> share.\<close>

definition isCredentialMarker :: "string \<Rightarrow> bool" where
  "isCredentialMarker raw =
     (let normalized = go_ToLower (go_TrimSpace
            (go_RemoveByte (go_RemoveByte raw CHR ''-'') CHR ''_''))
      in normalized = ''apikey'' \<or> normalized = ''key'' \<or> normalized = ''credential'' \<or>
         normalized = ''auth'')"

text \<open>The index of the first marker the loop of \<open>stripCredentialSuffix\<close> stops at: not the first part.\<close>

fun marker_cut :: "nat \<Rightarrow> string list \<Rightarrow> nat option" where
  "marker_cut i [] = None"
| "marker_cut i (part # parts) =
     (if isCredentialMarker part \<and> i > 0 then Some i else marker_cut (Suc i) parts)"

definition stripCredentialSuffix :: "string \<Rightarrow> string" where
  "stripCredentialSuffix raw =
     (let value = go_TrimSpace raw
      in if value = [] then []
         else let parts = splitBySeparators value
              in case marker_cut 0 parts of
                   Some i \<Rightarrow> go_Join (take i parts) dot_sep
                 | None \<Rightarrow>
                     if length parts > 1 \<and> looksLikeCredentialID (last parts)
                     then go_Join (butlast parts) dot_sep
                     else if length parts > 1 \<and> looksLikeSecretKey (last parts)
                     then go_Join (butlast parts) dot_sep
                     else let colonParts = go_Split value '':''
                          in if length colonParts \<ge> 3 \<and> looksLikeCredentialID (last colonParts)
                             then go_Join (butlast colonParts) '':''
                             else value)"

definition stripAPIKeySuffix :: "string \<Rightarrow> string \<Rightarrow> string \<Rightarrow> string \<Rightarrow> string" where
  "stripAPIKeySuffix raw rawAPIKey rawAuthIndex rawAuthID =
     (let value = stripCredentialSuffix raw; apiKey = go_TrimSpace rawAPIKey
      in if value = [] \<or> apiKey = [] then value
         else let authIndex = go_TrimSpace rawAuthIndex; authID = go_TrimSpace rawAuthID
              in if value = apiKey \<and> value \<noteq> authIndex \<and> value \<noteq> authID then []
                 else let parts = splitBySeparators value; lst = go_TrimSpace (last parts)
                      in if length parts > 1 \<and> lst = apiKey \<and> lst \<noteq> authIndex \<and> lst \<noteq> authID
                         then go_Join (butlast parts) dot_sep else value)"

definition stripRecordCredentialSuffix :: "string \<Rightarrow> UsageRecord \<Rightarrow> string" where
  "stripRecordCredentialSuffix raw record =
     stripAPIKeySuffix raw (ur_APIKey record) (ur_AuthIndex record) (ur_AuthID record)"

definition stripDetailCredentialSuffix :: "string \<Rightarrow> RequestDetail \<Rightarrow> string" where
  "stripDetailCredentialSuffix raw detail =
     stripAPIKeySuffix raw (rd_APIKey detail) (rd_AuthIndex detail) (rd_AuthID detail)"

section \<open>Codex accounts\<close>

definition isHexString :: "string \<Rightarrow> bool" where
  "isHexString value \<longleftrightarrow> value \<noteq> [] \<and> list_all is_hex value"

definition looksLikeEmailSource :: "string \<Rightarrow> bool" where
  "looksLikeEmailSource value =
     (let value = go_TrimSpace value
      in if value = [] \<or> list_ex (\<lambda>c. c \<in> {CHR '' '', CHR 9, CHR 13, CHR 10, CHR ''/'', CHR 92}) value \<or>
            length (filter (\<lambda>c. c = CHR ''@'') value) \<noteq> 1 then False
         else case go_IndexByte value CHR ''@'' of
                None \<Rightarrow> False
              | Some pos \<Rightarrow>
                  if pos = 0 \<or> pos = length value - 1 then False
                  else let domain = drop (pos + 1) value
                       in go_Contains domain ''.'' \<and> \<not> go_HasPrefix domain ''.'' \<and>
                          \<not> go_HasSuffix domain ''.'' \<and> \<not> go_Contains domain ''..'')"

text \<open>What follows the last slash or backslash.\<close>

definition baseName :: "string \<Rightarrow> string" where
  "baseName name = rev (takeWhile (\<lambda>c. c \<noteq> CHR ''/'' \<and> c \<noteq> CHR 92) (rev name))"

definition codexPlans :: "string list" where
  "codexPlans = [''team-plan'', ''enterprise'', ''education'', ''business'',
     ''plus'', ''team'', ''free'', ''pro'', ''edu'', ''k12'']"

fun codexStripPlan :: "string \<Rightarrow> string list \<Rightarrow> string option" where
  "codexStripPlan identity [] = None"
| "codexStripPlan identity (plan # plans) =
     (let sfx = ''-'' @ plan
      in if length identity > length sfx \<and>
            go_EqualFold (drop (length identity - length sfx) identity) sfx
         then let email = go_TrimSpace (take (length identity - length sfx) identity)
              in if looksLikeEmailSource email then Some email else codexStripPlan identity plans
         else codexStripPlan identity plans)"

definition codexOAuthEmailFromAuthID :: "string \<Rightarrow> string" where
  "codexOAuthEmailFromAuthID authID =
     (let name = baseName (go_TrimSpace authID)
      in if length name \<le> length ''codex-.json'' \<or> \<not> go_EqualFold (take 6 name) ''codex-'' \<or>
            \<not> go_EqualFold (drop (length name - 5) name) ''.json'' then []
         else let identity = take (length name - 5 - 6) (drop 6 name);
                  identity =
                    (if go_IndexByte identity CHR ''-'' = Some 8 \<and> isHexString (take 8 identity) \<and>
                        go_Contains (drop 9 identity) ''@''
                     then drop 9 identity else identity)
              in case codexStripPlan identity codexPlans of
                   Some email \<Rightarrow> email
                 | None \<Rightarrow> if looksLikeEmailSource identity then identity else [])"

definition recoverCodexOAuthSource :: "string \<Rightarrow> string \<Rightarrow> string \<Rightarrow> string \<Rightarrow> string \<Rightarrow> string" where
  "recoverCodexOAuthSource provider executor source authID authType =
     (let primary = go_TrimSpace provider;
          primary = (if primary = [] then go_TrimSpace executor else primary);
          authType = go_TrimSpace authType
      in if \<not> go_EqualFold primary ''codex'' then source
         else if authType \<noteq> [] \<and> \<not> go_EqualFold authType ''oauth'' then source
         else if source \<noteq> [] \<and> \<not> go_EqualFold source primary \<and>
                 \<not> go_EqualFold source (go_TrimSpace executor) then source
         else let email = codexOAuthEmailFromAuthID authID
              in if email \<noteq> [] then email else source)"

section \<open>Source labels and group keys\<close>

definition isOpenAICompatibleProvider :: "string \<Rightarrow> bool" where
  "isOpenAICompatibleProvider provider =
     (let provider = go_ToLower (go_TrimSpace provider)
      in go_HasPrefix provider ''openai-compatible'' \<or> go_HasPrefix provider ''openai-compatibility'')"

definition isGenericOpenAICompatibleProvider :: "string \<Rightarrow> bool" where
  "isGenericOpenAICompatibleProvider provider =
     (let provider = go_ToLower (go_TrimSpace provider)
      in provider = ''openai-compatible'' \<or> provider = ''openai-compatibility'')"

definition isProviderSpecificOpenAICompatible :: "string \<Rightarrow> bool" where
  "isProviderSpecificOpenAICompatible provider \<longleftrightarrow>
     isOpenAICompatibleProvider provider \<and> \<not> isGenericOpenAICompatibleProvider provider"

definition friendlySourceName :: "UsageRecord \<Rightarrow> string" where
  "friendlySourceName record =
     (let provider = go_TrimSpace (ur_Provider record);
          executor = go_TrimSpace (ur_ExecutorType record);
          source = stripRecordCredentialSuffix (ur_Source record) record;
          source = recoverCodexOAuthSource provider executor source (ur_AuthID record) (ur_AuthType record)
      in if isProviderSpecificOpenAICompatible provider then provider
         else if source \<noteq> [] \<and> \<not> looksLikeSecretKey source \<and> \<not> looksLikeCredentialID source
         then source
         else let name = provider;
                  name = (if name = [] then executor else name);
                  name = (if name = [] then ''unknown'' else name)
              in stripCredentialSuffix name)"

definition usageSource :: "UsageRecord \<Rightarrow> string" where
  "usageSource record = friendlySourceName record"

definition trimLeadingNamePart :: "string \<Rightarrow> string \<Rightarrow> string" where
  "trimLeadingNamePart value leading =
     (let leading = go_TrimSpace leading
      in if leading = [] then value
         else let parts = splitBySeparators value
              in if length parts > 1 \<and> go_TrimSpace (hd parts) = leading
                 then go_Join (tl parts) dot_sep else value)"

text \<open>The loop of \<open>joinNameParts\<close>: trimmed, non-empty, first occurrences, in order.\<close>

fun nameParts :: "string list \<Rightarrow> string list \<Rightarrow> string list" where
  "nameParts out [] = out"
| "nameParts out (part # parts) =
     (let part = go_TrimSpace part
      in if part \<noteq> [] \<and> part \<notin> set out then nameParts (out @ [part]) parts
         else nameParts out parts)"

definition joinNameParts :: "string list \<Rightarrow> string" where
  "joinNameParts parts = go_Join (nameParts [] parts) dot_sep"

text \<open>The part list of the first marker that has a successor.\<close>

fun after_marker :: "string list \<Rightarrow> string list option" where
  "after_marker [] = None"
| "after_marker (part # parts) =
     (if isCredentialMarker part \<and> parts \<noteq> [] then Some parts else after_marker parts)"

definition credentialIdentity :: "string \<Rightarrow> string" where
  "credentialIdentity raw =
     (let value = go_TrimSpace raw
      in if value = [] then []
         else let parts = splitBySeparators value
              in case after_marker parts of
                   Some rest \<Rightarrow> go_Join rest dot_sep
                 | None \<Rightarrow>
                     if length parts > 1 \<and>
                        (looksLikeCredentialID (last parts) \<or> looksLikeSecretKey (last parts))
                     then last parts
                     else let colonParts = go_Split value '':''
                          in case after_marker colonParts of
                               Some rest \<Rightarrow> go_Join rest '':''
                             | None \<Rightarrow>
                                 if length colonParts \<ge> 3 \<and> looksLikeCredentialID (last colonParts)
                                 then last colonParts else [])"

definition safeCredentialIdentity :: "string \<Rightarrow> string" where
  "safeCredentialIdentity raw =
     (let value = go_TrimSpace raw
      in if value = [] then []
         else let nested = credentialIdentity value;
                  value = (if nested \<noteq> [] \<and> nested \<noteq> value then nested else value);
                  value = go_TrimSpace value
              in if value = [] then []
                 else if looksLikeSecretKey value then maskToken value else value)"

text \<open>The label's prefix, two Chinese characters and a space in UTF-8.\<close>

definition upstreamPrefix :: string where
  "upstreamPrefix = [CHR 0xE4, CHR 0xB8, CHR 0x8A, CHR 0xE6, CHR 0xB8, CHR 0xB8, CHR '' '']"

fun firstSafeIdentity :: "string list \<Rightarrow> string" where
  "firstSafeIdentity [] = []"
| "firstSafeIdentity (raw # raws) =
     (let i = safeCredentialIdentity raw
      in if i \<noteq> [] then upstreamPrefix @ i else firstSafeIdentity raws)"

definition usageChannelLabel :: "UsageRecord \<Rightarrow> string" where
  "usageChannelLabel record =
     firstSafeIdentity [ur_AuthIndex record, credentialIdentity (ur_Source record),
       credentialIdentity (ur_AuthID record), ur_AuthID record]"

definition shouldAppendChannel :: "string \<Rightarrow> bool \<Rightarrow> bool" where
  "shouldAppendChannel primary sourceAdded =
     (if isOpenAICompatibleProvider primary then False else \<not> sourceAdded)"

text \<open>The placeholder for an unknown interface, four Chinese characters in UTF-8.\<close>

definition unknownInterface :: string where
  "unknownInterface = [CHR 0xE6, CHR 0x9C, CHR 0xAA, CHR 0xE7, CHR 0x9F, CHR 0xA5,
     CHR 0xE6, CHR 0x8E, CHR 0xA5, CHR 0xE5, CHR 0x8F, CHR 0xA3]"

definition usageGroupKey :: "UsageRecord \<Rightarrow> string" where
  "usageGroupKey record =
     (let provider = go_TrimSpace (ur_Provider record);
          executor = go_TrimSpace (ur_ExecutorType record);
          source = stripRecordCredentialSuffix (ur_Source record) record;
          source = recoverCodexOAuthSource provider executor source (ur_AuthID record) (ur_AuthType record);
          baseURL = go_TrimSpace (ur_BaseURL record);
          primary = (if provider = [] then executor else provider);
          parts = (if primary \<noteq> [] then [primary] else []);
          plain = (\<not> isOpenAICompatibleProvider primary \<or> isGenericOpenAICompatibleProvider primary)
      in if baseURL \<noteq> [] \<and> plain then joinNameParts [primary, baseURL]
         else let source = (if looksLikeCredentialID source then [] else source);
                  source = trimLeadingNamePart source primary;
                  sourceAdded = (source \<noteq> [] \<and> \<not> looksLikeSecretKey source \<and> plain \<and> source \<notin> set parts);
                  parts = (if sourceAdded then parts @ [source] else parts);
                  channel = usageChannelLabel record;
                  parts = (if shouldAppendChannel primary sourceAdded \<and> channel \<noteq> [] \<and> channel \<notin> set parts
                           then parts @ [channel] else parts)
              in if parts = [] then unknownInterface else joinNameParts parts)"

definition cleanImportedDetailSource :: "RequestDetail \<Rightarrow> string" where
  "cleanImportedDetailSource detail =
     (let source = stripDetailCredentialSuffix (rd_Source detail) detail;
          provider = go_TrimSpace (rd_Provider detail);
          source = recoverCodexOAuthSource provider [] source (rd_AuthID detail) (rd_AuthType detail)
      in if isProviderSpecificOpenAICompatible provider then provider
         else if source \<noteq> [] \<and> \<not> looksLikeSecretKey source \<and> \<not> looksLikeCredentialID source then source
         else if provider \<noteq> [] \<and> \<not> looksLikeSecretKey provider \<and> \<not> looksLikeCredentialID provider
         then provider else [])"

definition usageThinking :: "UsageRecord \<Rightarrow> UsageThinking" where
  "usageThinking record =
     (let effort = go_TrimSpace (ur_ReasoningEffort record)
      in if effort = [] then \<lparr> th_Intensity = [], th_Mode = [], th_Level = [], th_Budget = 0 \<rparr>
         else \<lparr> th_Intensity = effort, th_Mode = [], th_Level = effort, th_Budget = 0 \<rparr>)"

definition trimLong :: "string \<Rightarrow> nat \<Rightarrow> string" where
  "trimLong value limit =
     (let value = go_TrimSpace value
      in if limit = 0 \<or> length value \<le> limit then value else take limit value @ ''...'')"

text \<open>
  A usage record with only the fields that \<open>usageGroupKeyFromDetail\<close> sets; the others have the
  zero value of their type.
\<close>

definition zeroUsageRecord :: UsageRecord where
  "zeroUsageRecord = \<lparr> ur_RequestID = [], ur_streamPresent = False, ur_Provider = [],
     ur_ExecutorType = [], ur_Model = [], ur_Alias = [], ur_APIKey = [], ur_AuthID = [],
     ur_AuthIndex = [], ur_AuthType = [], ur_Endpoint = [], ur_BaseURL = [], ur_Source = [],
     ur_ReasoningEffort = [], ur_ServiceTier = [], ur_Stream = False,
     ur_RequestedAt = zero_time, ur_Latency = 0, ur_TTFT = 0, ur_Failed = False,
     ur_Failure = \<lparr> uf_StatusCode = 0, uf_Body = [] \<rparr>,
     ur_Detail = \<lparr> ud_InputTokens = 0, ud_OutputTokens = 0, ud_ReasoningTokens = 0,
       ud_CachedTokens = 0, ud_CacheReadTokens = 0, ud_CacheCreationTokens = 0, ud_TotalTokens = 0 \<rparr>,
     ur_ResponseHeaders = [], ur_protocolCorrelation = None \<rparr>"

definition usageGroupKeyFromDetail :: "string \<Rightarrow> RequestDetail \<Rightarrow> string" where
  "usageGroupKeyFromDetail fallback detail =
     (let cleanFallback = stripAPIKeySuffix fallback (rd_APIKey detail) (rd_AuthIndex detail) (rd_AuthID detail);
          key = usageGroupKey (zeroUsageRecord\<lparr> ur_Provider := rd_Provider detail,
                  ur_Source := rd_Source detail, ur_APIKey := rd_APIKey detail,
                  ur_AuthID := rd_AuthID detail, ur_AuthIndex := rd_AuthIndex detail,
                  ur_AuthType := rd_AuthType detail, ur_BaseURL := rd_BaseURL detail,
                  ur_ExecutorType := go_TrimSpace cleanFallback \<rparr>)
      in if go_TrimSpace key \<noteq> [] \<and> key \<noteq> unknownInterface then key
         else let cleanFallback = go_TrimSpace cleanFallback
              in if cleanFallback \<noteq> [] then cleanFallback else key)"

section \<open>Response headers\<close>

record headerWhitelist =
  hw_all :: bool
  hw_exact :: "string list"
  hw_prefixes :: "string list"

text \<open>One round of the loop of \<open>parseHeaderWhitelist\<close>; \<open>hw_exact\<close> is the key list of the source's set.\<close>

definition addHeaderName :: "string \<Rightarrow> headerWhitelist \<Rightarrow> headerWhitelist" where
  "addHeaderName name w =
     (let name = go_TrimSpace name
      in if name = [] then w
         else let name = go_ToLower name
              in if name = ''*'' then w\<lparr> hw_all := True \<rparr>
                 else if go_HasSuffix name ''*''
                 then let p = go_TrimSpace (go_TrimSuffix name ''*'')
                      in if p \<noteq> [] then w\<lparr> hw_prefixes := hw_prefixes w @ [p] \<rparr> else w
                 else w\<lparr> hw_exact := List.insert name (hw_exact w) \<rparr>)"

definition parseHeaderWhitelist :: "string \<Rightarrow> headerWhitelist" where
  "parseHeaderWhitelist raw =
     fold addHeaderName (go_Split raw '','')
       \<lparr> hw_all = False, hw_exact = [], hw_prefixes = [] \<rparr>"

definition sensitiveHeaders :: "string list" where
  "sensitiveHeaders = [''authorization'', ''proxy-authorization'', ''cookie'', ''set-cookie'',
     ''x-api-key'', ''x-auth-token'', ''x-access-token'', ''api-key'']"

definition isSensitiveHeader :: "string \<Rightarrow> bool" where
  "isSensitiveHeader name \<longleftrightarrow> go_ToLower (go_TrimSpace name) \<in> set sensitiveHeaders"

definition headerMatches :: "headerWhitelist \<Rightarrow> string \<Rightarrow> bool" where
  "headerMatches w name =
     (let normalized = go_ToLower (go_TrimSpace name)
      in if normalized = [] \<or> isSensitiveHeader normalized then False
         else if hw_all w \<or> normalized \<in> set (hw_exact w) then True
         else list_ex (\<lambda>p. go_HasPrefix normalized p) (hw_prefixes w))"

text \<open>\<open>None\<close> is the nil map.\<close>

definition filterHeaders :: "headers \<Rightarrow> headerWhitelist \<Rightarrow> headers option" where
  "filterHeaders hs whitelist =
     (if hs = [] then None
      else if \<not> hw_all whitelist \<and> hw_exact whitelist = [] \<and> hw_prefixes whitelist = [] then None
      else let out = filter (\<lambda>(k, v). headerMatches whitelist k) hs
           in if out = [] then None else Some out)"

section \<open>Redaction of keys with a known prefix\<close>

definition token_char :: "char \<Rightarrow> bool" where
  "token_char c \<longleftrightarrow> 97 \<le> byte_of c \<and> byte_of c \<le> 122 \<or> 65 \<le> byte_of c \<and> byte_of c \<le> 90 \<or>
     48 \<le> byte_of c \<and> byte_of c \<le> 57 \<or> c = CHR ''-'' \<or> c = CHR ''_''"

text \<open>One round of the loop, \<open>None\<close> when the prefix does not occur any more.\<close>

definition redactStep :: "string \<Rightarrow> string \<Rightarrow> string option" where
  "redactStep s p =
     (case go_Index s p of
        None \<Rightarrow> None
      | Some idx \<Rightarrow>
          let token = p @ takeWhile token_char (drop (idx + length p) s)
          in Some (go_ReplaceFirst s token (maskToken token)))"

partial_function (option) redactKeyPrefix :: "string \<Rightarrow> string \<Rightarrow> string option" where
  "redactKeyPrefix s p = (case redactStep s p of None \<Rightarrow> Some s | Some s' \<Rightarrow> redactKeyPrefix s' p)"

definition keyPrefixes :: "string list" where
  "keyPrefixes = [''sk-'', ''AIza'', ''hf_'', ''pk_'', ''rk_'']"

text \<open>What the proofs use of the key prefixes.\<close>

definition key_prefix :: "string \<Rightarrow> bool" where
  "key_prefix p \<longleftrightarrow> 3 \<le> length p \<and> list_all token_char p"

lemma keyPrefixes_ok: "p \<in> set keyPrefixes \<Longrightarrow> key_prefix p"
  by (auto simp: keyPrefixes_def key_prefix_def token_char_def byte_of_def)

lemma star_no_token: "\<not> token_char CHR ''*''"
  by (simp add: token_char_def byte_of_def)

lemma redactStep_split:
  assumes "go_Index s p = Some idx"
  defines "t \<equiv> takeWhile token_char (drop (idx + length p) s)"
  shows "redactStep s p =
    Some (take idx s @ maskToken (p @ t) @ dropWhile token_char (drop (idx + length p) s))"
proof -
  let ?rest = "drop (idx + length p) s"
  have bound: "idx + length p \<le> length s" using go_Index_bound [OF assms(1)] .
  have s: "s = take idx s @ (p @ t) @ dropWhile token_char ?rest"
    using go_Index_take_drop [OF assms(1)] unfolding t_def
    by (metis append_assoc append_take_drop_id drop_drop add.commute takeWhile_dropWhile_id)
  have "occurs_at s (p @ t) idx"
    unfolding occurs_at_def by (subst (1 2) s) (use bound in \<open>auto simp: nth_append\<close>)
  moreover have "\<not> occurs_at s (p @ t) j" if "j < idx" for j
    using go_Index_SomeD [OF assms(1)] that by (auto simp: occurs_at_def nth_append)
  ultimately have i: "go_Index s (p @ t) = Some idx" by (rule go_Index_eqI)
  have "drop (idx + length (p @ t)) s = dropWhile token_char ?rest"
    by (subst s) (use bound in simp)
  then show ?thesis
    using assms(1) i by (simp add: redactStep_def go_ReplaceFirst_def Let_def t_def)
qed

lemma no_occurrence_over:
  assumes "occurs_at s p j" "j \<le> m" "m < j + length p" "m < length s \<Longrightarrow> \<not> token_char (s ! m)"
    and "list_all token_char p"
  shows False
proof -
  have "m - j < length p" using assms(2,3) by simp
  then have "s ! (j + (m - j)) = p ! (m - j)" "m < length s"
    using assms(1-3) unfolding occurs_at_def by (blast, linarith)
  then have "s ! m = p ! (m - j)" "m < length s" using assms(2) by simp_all
  moreover have "token_char (p ! (m - j))" using assms(2,3,5) by (simp add: list_all_length)
  ultimately show False using assms(4) by simp
qed

lemma occurs_at_append_right:
  assumes "occurs_at (a @ b) q j" "length a \<le> j"
  shows "occurs_at b q (j - length a)"
proof -
  have "b ! (j - length a + k) = q ! k" if "k < length q" for k
  proof -
    have "(a @ b) ! (j + k) = q ! k" using assms(1) that by (simp add: occurs_at_def)
    moreover have "(a @ b) ! (j + k) = b ! (j + k - length a)"
      using assms(2) by (simp add: nth_append)
    ultimately show ?thesis using assms(2) by simp
  qed
  then show ?thesis using assms by (auto simp: occurs_at_def)
qed

lemma occurs_at_append: "occurs_at b q i \<Longrightarrow> occurs_at (a @ b) q (length a + i)"
  by (auto simp: occurs_at_def nth_append)

lemma nth_middle_part:
  "length a = n \<Longrightarrow> n \<le> m \<Longrightarrow> m < n + length b \<Longrightarrow> (a @ b @ c) ! m = b ! (m - n)"
  by (auto simp: nth_append)

lemma occurs_at_prefix_part:
  assumes "occurs_at (a @ b) p j" "j + length p \<le> length a"
  shows "occurs_at (a @ c) p j"
  using assms by (auto simp: occurs_at_def nth_append)

text \<open>
  No occurrence of a key prefix \<open>q\<close> touches the text before the mask or the mask itself, when
  there was none before the masked token.
\<close>

lemma redacted_part_clean:
  assumes p: "key_prefix q" and first: "\<And>k. k < idx \<Longrightarrow> \<not> occurs_at s q k"
    and post: "post = [] \<or> \<not> token_char (hd post)" and idx: "idx \<le> length s"
    and s: "s = take idx s @ (p @ t) @ post"
  defines "s' \<equiv> take idx s @ maskToken (p @ t) @ post"
  assumes j: "j < idx + length (maskToken (p @ t))"
  shows "\<not> occurs_at s' q j"
proof
  assume occ: "occurs_at s' q j"
  have tok: "list_all token_char q" and len: "3 \<le> length q" using p by (auto simp: key_prefix_def)
  show False
  proof (cases "length (p @ t) \<le> 4")
    case True
    then have s': "s' = take idx s @ redactedMarker @ post" and jj: "j < idx + 6"
      using j by (simp_all add: s'_def maskToken_def redactedMarker_def)
    show False
    proof (cases "j + length q \<le> idx")
      case True
      then have "occurs_at s q j"
        using occ occurs_at_prefix_part [of "take idx s" _ q j] s s' idx by (metis length_take min.absorb2)
      then show False using first True len by simp
    next
      case False
      define m where "m = max j idx"
      have star: "s' ! m = CHR ''*''"
        using jj idx unfolding s' m_def redactedMarker_def
        by (auto simp: nth_append nth_Cons split: nat.split)
      have "j \<le> m" "m < j + length q" using False len by (auto simp: m_def max_def)
      then show False
        by (rule no_occurrence_over [OF occ _ _ _ tok]) (simp add: star star_no_token)
    qed
  next
    case False
    let ?tok = "p @ t"
    let ?a = "take idx s @ take 2 ?tok" and ?e = "drop (length ?tok - 2) ?tok"
    have s': "s' = ?a @ redactedMarker @ ?e @ post" and jj: "j < idx + 10"
      using j False by (simp_all add: s'_def maskToken_def redactedMarker_def)
    have la: "length ?a = idx + 2" "length ?e = 2" using idx False by simp_all
    have sa: "s = ?a @ drop 2 ?tok @ post"
      using s by (metis append_assoc append_take_drop_id)
    show False
    proof (cases "j + length q \<le> idx + 2")
      case True
      then have "occurs_at s q j"
        using occ occurs_at_prefix_part [of ?a _ q j] sa s' la(1) by metis
      then show False using first True len by simp
    next
      case over: False
      define m where "m = (if j < idx + 8 then max j (idx + 2) else idx + 10)"
      have m: "j \<le> m" "m < j + length q" using over len jj by (auto simp: m_def)
      have "\<not> token_char (s' ! m)" if "m < length s'"
      proof (cases "j < idx + 8")
        case True
        then have "idx + 2 \<le> m" "m < idx + 8" by (auto simp: m_def)
        then have "s' ! m = redactedMarker ! (m - (idx + 2))"
          unfolding s' by (intro nth_middle_part [OF la(1)]) (simp_all add: redactedMarker_def)
        moreover have "m - (idx + 2) < 6" using \<open>m < idx + 8\<close> \<open>idx + 2 \<le> m\<close> by arith
        ultimately have "s' ! m = CHR ''*''"
          by (auto simp: redactedMarker_def less_Suc_eq numeral_eq_Suc)
        then show ?thesis using star_no_token by simp
      next
        case False
        then have m: "m = idx + 10" by (simp add: m_def)
        have la10: "length (?a @ redactedMarker @ ?e) = idx + 10"
          using la by (simp add: redactedMarker_def)
        have e: "s' = (?a @ redactedMarker @ ?e) @ post @ []"
          unfolding s' by (simp only: append_assoc append_Nil2)
        have "length s' = idx + 10 + length post"
          unfolding e length_append [of _ "post @ []"] la10 by simp
        then have ne: "post \<noteq> []" using that m by auto
        have "s' ! m = post ! (m - (idx + 10))"
          unfolding e by (rule nth_middle_part [OF la10]) (use ne m in simp_all)
        then have "s' ! m = post ! 0" using m by simp
        then show ?thesis using post ne by (simp add: hd_conv_nth)
      qed
      then show False using no_occurrence_over [OF occ m _ tok] by blast
    qed
  qed
qed

lemma redactStep_decreases:
  assumes p: "key_prefix p" and i: "go_Index s p = Some idx"
  obtains s' where "redactStep s p = Some s'"
    "go_Index s' p = None \<or> (\<exists>i'. go_Index s' p = Some i' \<and> length s' - i' < length s - idx)"
proof -
  define t where "t = takeWhile token_char (drop (idx + length p) s)"
  define post where "post = dropWhile token_char (drop (idx + length p) s)"
  have bound: "idx + length p \<le> length s" using go_Index_bound [OF i] .
  have s: "s = take idx s @ (p @ t) @ post"
    using go_Index_take_drop [OF i] unfolding t_def post_def
    by (metis append_assoc append_take_drop_id drop_drop add.commute takeWhile_dropWhile_id)
  have hd: "post = [] \<or> \<not> token_char (hd post)"
    unfolding post_def using hd_dropWhile by blast
  let ?s' = "take idx s @ maskToken (p @ t) @ post"
  have step: "redactStep s p = Some ?s'"
    using redactStep_split [OF i] by (simp add: t_def post_def)
  have "length s = length (take idx s @ (p @ t) @ post)" using s by (rule arg_cong)
  also have "\<dots> = idx + length (p @ t) + length post" using bound by simp
  finally have len: "length s = idx + length (p @ t) + length post" .
  have pos: "0 < length p" using p by (auto simp: key_prefix_def)
  have "length ?s' - i' < length s - idx" if i': "go_Index ?s' p = Some i'" for i'
  proof -
    have "idx \<le> length s" using bound by simp
    then have "\<not> i' < idx + length (maskToken (p @ t))"
      using redacted_part_clean [OF p _ hd _ s, of i'] go_Index_SomeD [OF i] go_Index_SomeD [OF i']
      by blast
    moreover have "length ?s' = idx + length (maskToken (p @ t)) + length post"
      using bound by simp
    ultimately have "length ?s' - i' \<le> length post" by arith
    also have "length post < length s - idx" unfolding len length_append using pos by arith
    finally show ?thesis .
  qed
  then show thesis using that step by (cases "go_Index ?s' p") auto
qed

text \<open>A round never brings in a key prefix that was not there.\<close>

lemma redactStep_keeps_absent:
  assumes q: "key_prefix q" "\<not> go_Contains s q" and step: "redactStep s p = Some s'"
  shows "\<not> go_Contains s' q"
proof -
  obtain idx where i: "go_Index s p = Some idx"
    using step by (auto simp: redactStep_def split: option.splits)
  define t where "t = takeWhile token_char (drop (idx + length p) s)"
  define post where "post = dropWhile token_char (drop (idx + length p) s)"
  have bound: "idx + length p \<le> length s" using go_Index_bound [OF i] .
  have s: "s = take idx s @ (p @ t) @ post"
    using go_Index_take_drop [OF i] unfolding t_def post_def
    by (metis append_assoc append_take_drop_id drop_drop add.commute takeWhile_dropWhile_id)
  have hd: "post = [] \<or> \<not> token_char (hd post)"
    unfolding post_def using hd_dropWhile by blast
  let ?m = "maskToken (p @ t)"
  have s': "s' = take idx s @ ?m @ post"
    using redactStep_split [OF i] step by (simp add: t_def post_def)
  have none: "\<not> occurs_at s q k" for k using q(2) by (auto simp: go_Contains_iff)
  have "\<not> occurs_at s' q j" for j
  proof (cases "j < idx + length ?m")
    case True
    show ?thesis unfolding s'
      by (rule redacted_part_clean [OF q(1) none hd _ s True]) (use bound in simp)
  next
    case False
    show ?thesis
    proof
      assume "occurs_at s' q j"
      then have "occurs_at post q (j - (idx + length ?m))"
        using occurs_at_append_right [of "take idx s @ ?m" post q j] False bound
        unfolding s' by simp
      then have "occurs_at ((take idx s @ (p @ t)) @ post) q (length (take idx s @ (p @ t)) + (j - (idx + length ?m)))"
        by (rule occurs_at_append)
      then show False using none s by (metis append_assoc)
    qed
  qed
  then show ?thesis by (simp add: go_Contains_iff)
qed

lemma redactKeyPrefix_total:
  assumes "key_prefix p"
  shows "\<exists>r. redactKeyPrefix s p = Some r \<and> \<not> go_Contains r p \<and>
    (\<forall>q. key_prefix q \<longrightarrow> \<not> go_Contains s q \<longrightarrow> \<not> go_Contains r q)"
proof -
  define m where "m = (\<lambda>s. case go_Index s p of None \<Rightarrow> 0 | Some i \<Rightarrow> Suc (length s - i))"
  show ?thesis
  proof (induction "m s" arbitrary: s rule: less_induct)
    case less
    show ?case
    proof (cases "go_Index s p")
      case None
      then have "redactKeyPrefix s p = Some s"
        by (subst redactKeyPrefix.simps) (simp add: redactStep_def)
      then show ?thesis using None by (simp add: go_Contains_def)
    next
      case (Some idx)
      obtain s' where s': "redactStep s p = Some s'"
        "go_Index s' p = None \<or> (\<exists>i'. go_Index s' p = Some i' \<and> length s' - i' < length s - idx)"
        using redactStep_decreases [OF assms Some] by blast
      then have "m s' < m s" using Some by (auto simp: m_def)
      from less [OF this] obtain r where r: "redactKeyPrefix s' p = Some r" "\<not> go_Contains r p"
        "\<forall>q. key_prefix q \<longrightarrow> \<not> go_Contains s' q \<longrightarrow> \<not> go_Contains r q" by blast
      have "redactKeyPrefix s p = Some r"
        using s'(1) r(1) by (subst redactKeyPrefix.simps) simp
      moreover have "\<not> go_Contains s' q" if "key_prefix q" "\<not> go_Contains s q" for q
        using redactStep_keeps_absent [OF that s'(1)] .
      ultimately show ?thesis using r by blast
    qed
  qed
qed

text \<open>The five key prefixes, in the order \<open>redactSensitiveText\<close> handles them.\<close>

fun redactPrefixes :: "string list \<Rightarrow> string \<Rightarrow> string option" where
  "redactPrefixes [] value = Some value"
| "redactPrefixes (p # ps) value = Option.bind (redactKeyPrefix value p) (redactPrefixes ps)"

definition redactKeys :: "string \<Rightarrow> string option" where
  "redactKeys value = redactPrefixes keyPrefixes value"

lemma redactPrefixes_clean:
  assumes "list_all key_prefix ps" "list_all key_prefix qs" "\<And>q. q \<in> set qs \<Longrightarrow> \<not> go_Contains s q"
  shows "\<exists>r. redactPrefixes ps s = Some r \<and> (\<forall>q \<in> set (ps @ qs). \<not> go_Contains r q)"
  using assms
proof (induction ps arbitrary: s qs)
  case Nil
  then show ?case by simp
next
  case (Cons p ps)
  obtain s' where s': "redactKeyPrefix s p = Some s'" "\<not> go_Contains s' p"
    "\<forall>q. key_prefix q \<longrightarrow> \<not> go_Contains s q \<longrightarrow> \<not> go_Contains s' q"
    using redactKeyPrefix_total [of p s] Cons.prems(1) by auto
  have "\<not> go_Contains s' q" if "q \<in> set (p # qs)" for q
    using that s' Cons.prems by (auto simp: list_all_iff)
  then obtain r where "redactPrefixes ps s' = Some r" "\<forall>q \<in> set (ps @ p # qs). \<not> go_Contains r q"
    using Cons.IH [of "p # qs" s'] Cons.prems by auto
  then show ?case using s'(1) by auto
qed

text \<open>
  C22: Redaction of keys ends on every failure text, and in the result none of the five key
  prefixes is left anywhere: what one prefix's masking leaves never brings another one back.
\<close>
theorem redactKeys_total_clean:
  "\<exists>r. redactKeys s = Some r \<and> list_all (\<lambda>p. \<not> go_Contains r p) keyPrefixes"
proof -
  have "list_all key_prefix keyPrefixes" using keyPrefixes_ok by (simp add: list_all_iff)
  then show ?thesis
    using redactPrefixes_clean [of keyPrefixes "[]" s] by (auto simp: redactKeys_def list_all_iff)
qed

text \<open>The whitelist that a configuration text is parsed into.\<close>

lemma fold_addHeaderName:
  fixes parts :: "string list"
  defines "n \<equiv> \<lambda>part. go_ToLower (go_TrimSpace part)"
  shows "hw_all (fold addHeaderName parts w) \<longleftrightarrow> hw_all w \<or> (\<exists>part\<in>set parts. n part = ''*'')"
    "set (hw_exact (fold addHeaderName parts w)) =
      set (hw_exact w) \<union> {n part | part. part \<in> set parts \<and> n part \<noteq> [] \<and> \<not> go_HasSuffix (n part) ''*''}"
    "set (hw_prefixes (fold addHeaderName parts w)) = set (hw_prefixes w) \<union>
      {go_TrimSpace (go_TrimSuffix (n part) ''*'') | part. part \<in> set parts \<and> n part \<noteq> ''*'' \<and>
        go_HasSuffix (n part) ''*'' \<and> go_TrimSpace (go_TrimSuffix (n part) ''*'') \<noteq> []}"
proof (induction parts arbitrary: w)
  case (Cons part parts)
  have star: "go_HasSuffix ''*'' ''*''" by (simp add: go_HasSuffix_def)
  have step: "hw_all (addHeaderName part w) \<longleftrightarrow> hw_all w \<or> n part = ''*''"
    "set (hw_exact (addHeaderName part w)) = set (hw_exact w) \<union>
       (if n part \<noteq> [] \<and> \<not> go_HasSuffix (n part) ''*'' then {n part} else {})"
    "set (hw_prefixes (addHeaderName part w)) = set (hw_prefixes w) \<union>
       (if n part \<noteq> ''*'' \<and> go_HasSuffix (n part) ''*'' \<and> go_TrimSpace (go_TrimSuffix (n part) ''*'') \<noteq> []
        then {go_TrimSpace (go_TrimSuffix (n part) ''*'')} else {})" for w
    using star by (auto simp: addHeaderName_def n_def Let_def go_HasSuffix_def)
  case (1 w)
  show ?case using Cons.IH(1) [of "addHeaderName part w"] step(1) [of w] by auto
  case (2 w)
  show ?case using Cons.IH(2) [of "addHeaderName part w"] step(2) [of w] by auto
  case (3 w)
  show ?case using Cons.IH(3) [of "addHeaderName part w"] step(3) [of w] by auto
qed simp_all

text \<open>
  C23: The response header filter does what its configuration text says, and never stores a header
  that can carry a credential.  Of the response headers it keeps, in order and with their values
  unchanged, exactly those whose name (trimmed, in lower case) is not blank, is none of the eight
  sensitive names, and is named by a part of the comma-separated text: by \<open>*\<close>, by a prefix with a star
  behind it, or by itself.  When nothing is kept the result is the nil map.
\<close>
theorem filterHeaders_safe:
  fixes hs :: headers and raw :: string
  defines "n \<equiv> \<lambda>name :: string. go_ToLower (go_TrimSpace name)"
  shows "(case filterHeaders hs (parseHeaderWhitelist raw) of None \<Rightarrow> [] | Some out \<Rightarrow> out) =
      filter (\<lambda>(k, v). n k \<noteq> [] \<and>
        n k \<notin> {''authorization'', ''proxy-authorization'', ''cookie'', ''set-cookie'', ''x-api-key'', ''x-auth-token'',
          ''x-access-token'', ''api-key''} \<and>
        (\<exists>part\<in>set (go_Split raw '',''). n part = ''*'' \<or>
          go_HasSuffix (n part) ''*'' \<and> go_TrimSpace (go_TrimSuffix (n part) ''*'') \<noteq> [] \<and>
            go_HasPrefix (n k) (go_TrimSpace (go_TrimSuffix (n part) ''*'')) \<or>
          \<not> go_HasSuffix (n part) ''*'' \<and> n part = n k)) hs \<and>
    filterHeaders hs (parseHeaderWhitelist raw) \<noteq> Some []"
proof -
  define w where "w = parseHeaderWhitelist raw"
  define parts where "parts = go_Split raw '',''"
  have w: "hw_all w \<longleftrightarrow> (\<exists>part\<in>set parts. n part = ''*'')"
    "set (hw_exact w) = {n part | part. part \<in> set parts \<and> n part \<noteq> [] \<and> \<not> go_HasSuffix (n part) ''*''}"
    "set (hw_prefixes w) = {go_TrimSpace (go_TrimSuffix (n part) ''*'') | part. part \<in> set parts \<and> n part \<noteq> ''*'' \<and>
        go_HasSuffix (n part) ''*'' \<and> go_TrimSpace (go_TrimSuffix (n part) ''*'') \<noteq> []}"
    unfolding w_def parts_def parseHeaderWhitelist_def n_def by (simp_all add: fold_addHeaderName)
  have nn: "go_ToLower (go_TrimSpace (n k)) = n k" for k by (simp add: n_def go_TrimSpace_ToLower)
  have m: "headerMatches w k \<longleftrightarrow> n k \<noteq> [] \<and> n k \<notin> set sensitiveHeaders \<and>
      (hw_all w \<or> n k \<in> set (hw_exact w) \<or> (\<exists>p\<in>set (hw_prefixes w). go_HasPrefix (n k) p))" for k
    using nn [of k] by (auto simp: headerMatches_def isSensitiveHeader_def Let_def list_ex_iff n_def)
  have match: "headerMatches w k \<longleftrightarrow> n k \<noteq> [] \<and> n k \<notin> set sensitiveHeaders \<and>
      (\<exists>part\<in>set parts. n part = ''*'' \<or>
          go_HasSuffix (n part) ''*'' \<and> go_TrimSpace (go_TrimSuffix (n part) ''*'') \<noteq> [] \<and>
            go_HasPrefix (n k) (go_TrimSpace (go_TrimSuffix (n part) ''*'')) \<or>
          \<not> go_HasSuffix (n part) ''*'' \<and> n part = n k)" for k
    unfolding m w by fastforce
  have none: "\<not> headerMatches w k" if "\<not> hw_all w" "hw_exact w = []" "hw_prefixes w = []" for k
    using that by (simp add: headerMatches_def Let_def)
  have f: "(case filterHeaders hs w of None \<Rightarrow> [] | Some out \<Rightarrow> out) = filter (\<lambda>(k, v). headerMatches w k) hs \<and>
      filterHeaders hs w \<noteq> Some []"
    using none by (auto simp: filterHeaders_def Let_def filter_empty_conv)
  have s: "set sensitiveHeaders = {''authorization'', ''proxy-authorization'', ''cookie'', ''set-cookie'', ''x-api-key'',
      ''x-auth-token'', ''x-access-token'', ''api-key''}" by (simp add: sensitiveHeaders_def)
  have e: "(\<lambda>(k, v). headerMatches w k) = (\<lambda>(k, v :: string list). n k \<noteq> [] \<and> n k \<notin> set sensitiveHeaders \<and>
      (\<exists>part\<in>set parts. n part = ''*'' \<or>
          go_HasSuffix (n part) ''*'' \<and> go_TrimSpace (go_TrimSuffix (n part) ''*'') \<noteq> [] \<and>
            go_HasPrefix (n k) (go_TrimSpace (go_TrimSuffix (n part) ''*'')) \<or>
          \<not> go_HasSuffix (n part) ''*'' \<and> n part = n k))"
    by (rule ext) (simp add: match split: prod.split)
  show ?thesis using f unfolding e s unfolding w_def parts_def .
qed

end
