(* ===== verification/DetailKeys.thy ===== *)
theory DetailKeys
  imports Tokens SourceKeys
begin

text \<open>
  The keys under which a stored detail is counted and recognised (\<open>go/stats.go\<close>), and the repair
  of doubled Claude cache tokens (\<open>go/claude_cache_repair.go\<close>) that the canonical key of replay and
  import builds on.
\<close>

section \<open>Grouping keys\<close>

definition normalizeModelPriceKey :: "string \<Rightarrow> string" where
  "normalizeModelPriceKey model = go_ToLower (go_TrimSpace model)"

definition modelProviderStatsKey :: "string \<Rightarrow> string" where
  "modelProviderStatsKey provider = go_ToLower (go_TrimSpace provider)"

definition timeSeriesTokenKey :: "string \<Rightarrow> string \<Rightarrow> string" where
  "timeSeriesTokenKey model provider =
     normalizeModelPriceKey provider @ [CHR 0x00] @ normalizeModelPriceKey model"

text \<open>Four Chinese characters: unknown source.\<close>

definition unknownSource :: string where
  "unknownSource = [CHR 0xE6, CHR 0x9C, CHR 0xAA, CHR 0xE7, CHR 0x9F, CHR 0xA5,
     CHR 0xE6, CHR 0x9D, CHR 0xA5, CHR 0xE6, CHR 0xBA, CHR 0x90]"

definition summarySourceKey :: "RequestDetail \<Rightarrow> string" where
  "summarySourceKey detail =
     (let source = rd_Source detail
      in if source = [] \<or> looksLikeCredentialID source \<or> looksLikeSecretKey source
         then unknownSource else source)"

text \<open>A Chinese character in parentheses: empty.\<close>

definition emptyCredential :: string where
  "emptyCredential = [CHR ''('', CHR 0xE7, CHR 0xA9, CHR 0xBA, CHR '')'']"

definition summaryCredentialKey :: "RequestDetail \<Rightarrow> string" where
  "summaryCredentialKey detail = (if rd_AuthIndex detail = [] then emptyCredential else rd_AuthIndex detail)"

definition unknownAPI :: string where
  "unknownAPI = [CHR 0xE6, CHR 0x9C, CHR 0xAA, CHR 0xE7, CHR 0x9F, CHR 0xA5] @ '' API''"

definition clientAPIGroupLabel :: "RequestDetail \<Rightarrow> string" where
  "clientAPIGroupLabel detail =
     (let label = go_TrimSpace (rd_APIKey detail) in if label = [] then unknownAPI else label)"

definition clientAPIGroupKey :: "RequestDetail \<Rightarrow> string" where
  "clientAPIGroupKey detail =
     (let hash = go_TrimSpace (rd_APIKeyHash detail)
      in if hash \<noteq> [] then ''api_key_hash:'' @ hash
         else let label = go_TrimSpace (rd_APIKey detail)
              in if label \<noteq> [] then ''api_key:'' @ label else ''(unknown)'')"

record clientAPIGroupIdentity =
  ci_hash :: string
  ci_label :: string

definition clientAPIIdentity :: "RequestDetail \<Rightarrow> clientAPIGroupIdentity" where
  "clientAPIIdentity detail =
     (let hash = go_TrimSpace (rd_APIKeyHash detail)
      in if hash \<noteq> [] then \<lparr> ci_hash = hash, ci_label = [] \<rparr>
         else \<lparr> ci_hash = [], ci_label = go_TrimSpace (rd_APIKey detail) \<rparr>)"

definition dashboardHealthStep :: duration where
  "dashboardHealthStep = 15 * time_Minute"

definition healthBucketKey :: "gotime \<Rightarrow> int option" where
  "healthBucketKey t =
     (if time_IsZero t then None
      else Some (time_Unix (time_Truncate (time_UTC t) dashboardHealthStep)))"

text \<open>
  C24: The two ways the program groups by client agree: two details fall into the same string
  group exactly when they have the same client identity.
\<close>
theorem client_group_iff_identity:
  "clientAPIGroupKey d = clientAPIGroupKey e \<longleftrightarrow> clientAPIIdentity d = clientAPIIdentity e"
  by (auto simp: clientAPIGroupKey_def clientAPIIdentity_def Let_def)

section \<open>Fallback records\<close>

definition responseInterceptorFallbackExecutor :: string where
  "responseInterceptorFallbackExecutor = ''ResponseInterceptorFallback''"

definition trimRightSlash :: "string \<Rightarrow> string" where
  "trimRightSlash s = rev (dropWhile (\<lambda>c. c = CHR ''/'') (rev s))"

definition isOpenAIProtocolFallbackEndpoint :: "string \<Rightarrow> bool" where
  "isOpenAIProtocolFallbackEndpoint endpoint =
     (let endpoint = trimRightSlash (go_ToLower (go_TrimSpace endpoint))
      in endpoint = ''/v1/chat/completions'' \<or> endpoint = ''/v1/responses'')"

definition isAnonymousProtocolFallbackDetail :: "RequestDetail \<Rightarrow> bool" where
  "isAnonymousProtocolFallbackDetail detail =
     (if go_EqualFold (go_TrimSpace (rd_ExecutorType detail)) responseInterceptorFallbackExecutor then True
      else if go_TrimSpace (rd_AuthID detail) \<noteq> [] \<or> go_TrimSpace (rd_AuthIndex detail) \<noteq> [] \<or>
              rd_LatencyMs detail > 0 \<or> rd_TTFTMs detail > 0 then False
      else go_EqualFold (go_TrimSpace (rd_Provider detail)) ''openai-compatible'' \<and>
           isOpenAIProtocolFallbackEndpoint (rd_Endpoint detail))"

definition isNativeProtocolCorrelationDetail :: "RequestDetail \<Rightarrow> bool" where
  "isNativeProtocolCorrelationDetail detail \<longleftrightarrow>
     \<not> isAnonymousProtocolFallbackDetail detail \<and>
     (go_TrimSpace (rd_AuthID detail) \<noteq> [] \<or> go_TrimSpace (rd_AuthIndex detail) \<noteq> []) \<and>
     rd_LatencyMs detail > 0"

section \<open>The identity of a detail\<close>

record requestDedupKey =
  dk_apiName :: string
  dk_modelName :: string
  dk_timestamp :: gotime
  dk_source :: string
  dk_authIndex :: string
  dk_clientAPIHash :: string
  dk_clientAPIKey :: string
  dk_failure :: string
  dk_failed :: bool
  dk_latencyMs :: int
  dk_ttftMs :: int
  dk_statusCode :: int
  dk_inputTokens :: int
  dk_outputTokens :: int
  dk_reasoning :: int
  dk_cachedTokens :: int
  dk_cacheTokens :: int
  dk_cacheWriteTokens :: int
  dk_totalTokens :: int

definition dedupKey :: "string \<Rightarrow> string \<Rightarrow> RequestDetail \<Rightarrow> requestDedupKey" where
  "dedupKey apiName modelName detail =
     (let tokens = rd_Tokens detail;
          hash = go_TrimSpace (rd_APIKeyHash detail);
          apiKey = go_TrimSpace (rd_APIKey detail)
      in \<lparr> dk_apiName = apiName, dk_modelName = modelName,
           dk_timestamp = time_UTC (rd_Timestamp detail),
           dk_source = rd_Source detail, dk_authIndex = rd_AuthIndex detail,
           dk_clientAPIHash = (if hash \<noteq> [] then hash else []),
           dk_clientAPIKey = (if hash \<noteq> [] then [] else if apiKey \<noteq> [] then apiKey else []),
           dk_failure = rd_Failure detail, dk_failed = rd_Failed detail,
           dk_latencyMs = rd_LatencyMs detail, dk_ttftMs = rd_TTFTMs detail,
           dk_statusCode = rd_StatusCode detail,
           dk_inputTokens = tk_InputTokens tokens, dk_outputTokens = tk_OutputTokens tokens,
           dk_reasoning = tk_ReasoningTokens tokens, dk_cachedTokens = tk_CachedTokens tokens,
           dk_cacheTokens = tk_CacheTokens tokens, dk_cacheWriteTokens = tk_CacheWriteTokens tokens,
           dk_totalTokens = tk_TotalTokens tokens \<rparr>)"

section \<open>Repair of doubled cache tokens\<close>

definition isPollutedClaudeCacheFallbackDetail :: "RequestDetail \<Rightarrow> bool" where
  "isPollutedClaudeCacheFallbackDetail detail =
     (if rd_Failed detail \<or> usageProviderFamily (rd_Provider detail) \<noteq> ''claude'' then False
      else let t = rd_Tokens detail
           in if nonNegativeInt64 (tk_CacheReadTokens t) > 0 then False
              else let write = nonNegativeInt64 (tk_CacheWriteTokens t)
                   in if write = 0 \<or> nonNegativeInt64 (tk_CachedTokens t) \<noteq> write then False
                      else case checkedProtocolAdd write write of (doubledWrite, ok) \<Rightarrow>
                        if \<not> ok \<or> nonNegativeInt64 (tk_CacheTokens t) \<noteq> doubledWrite then False
                        else case checkedProtocolAdd (nonNegativeInt64 (tk_InputTokens t))
                                (nonNegativeInt64 (tk_OutputTokens t)) of (inputOutput, ok) \<Rightarrow>
                          if \<not> ok then False
                          else case checkedProtocolAdd inputOutput doubledWrite of (expected, ok) \<Rightarrow>
                            ok \<and> nonNegativeInt64 (tk_TotalTokens t) = expected)"

definition repairClaudeCacheFallbackTokens :: "RequestDetail \<Rightarrow> RequestDetail" where
  "repairClaudeCacheFallbackTokens detail =
     (let t = rd_Tokens detail; write = nonNegativeInt64 (tk_CacheWriteTokens t)
      in case checkedProtocolAdd (nonNegativeInt64 (tk_InputTokens t))
               (nonNegativeInt64 (tk_OutputTokens t)) of (inputOutput, ok) \<Rightarrow>
           if \<not> ok then detail
           else detail\<lparr> rd_Tokens := t\<lparr> tk_CachedTokens := 0, tk_CacheReadTokens := 0,
                  tk_CacheTokens := write,
                  tk_TotalTokens := fst (checkedProtocolAdd inputOutput write) \<rparr> \<rparr>)"

definition normalizeClaudeCacheFallbackDetail :: "RequestDetail \<Rightarrow> RequestDetail" where
  "normalizeClaudeCacheFallbackDetail detail =
     (if isPollutedClaudeCacheFallbackDetail detail then repairClaudeCacheFallbackTokens detail
      else detail)"

definition claudeCacheCanonicalDedupKey :: "string \<Rightarrow> string \<Rightarrow> RequestDetail \<Rightarrow> requestDedupKey" where
  "claudeCacheCanonicalDedupKey apiName modelName detail =
     dedupKey apiName modelName (normalizeClaudeCacheFallbackDetail detail)"

text \<open>What the signature of a polluted detail says.\<close>

lemma pollutedD:
  assumes "isPollutedClaudeCacheFallbackDetail d"
  shows "providerUsesExclusiveCacheInput (rd_Provider d)"
    "0 < tk_CacheWriteTokens (rd_Tokens d)" "tk_CachedTokens (rd_Tokens d) = tk_CacheWriteTokens (rd_Tokens d)"
    "tk_CacheTokens (rd_Tokens d) = 2 * tk_CacheWriteTokens (rd_Tokens d)"
    "nonNegativeInt64 (tk_TotalTokens (rd_Tokens d)) =
       nonNegativeInt64 (tk_InputTokens (rd_Tokens d)) + nonNegativeInt64 (tk_OutputTokens (rd_Tokens d)) +
       2 * tk_CacheWriteTokens (rd_Tokens d)"
    "nonNegativeInt64 (tk_TotalTokens (rd_Tokens d)) \<le> MaxInt64"
  using assms
  by (auto simp: isPollutedClaudeCacheFallbackDetail_def checkedProtocolAdd_def Let_def
      nonNegativeInt64_def providerUsesExclusiveCacheInput_def split: if_splits)

lemma repair_polluted:
  assumes "isPollutedClaudeCacheFallbackDetail d"
  defines "t \<equiv> rd_Tokens d"
  shows "repairClaudeCacheFallbackTokens d = d\<lparr> rd_Tokens := t\<lparr> tk_CachedTokens := 0,
     tk_CacheReadTokens := 0, tk_CacheTokens := tk_CacheWriteTokens t,
     tk_TotalTokens := nonNegativeInt64 (tk_InputTokens t) + nonNegativeInt64 (tk_OutputTokens t) +
       tk_CacheWriteTokens t \<rparr> \<rparr>"
  using pollutedD [OF assms(1)]
  by (auto simp: repairClaudeCacheFallbackTokens_def checkedProtocolAdd_def Let_def t_def
      nonNegativeInt64_def split: if_splits)

lemma repaired_not_polluted:
  assumes "isPollutedClaudeCacheFallbackDetail d"
  shows "\<not> isPollutedClaudeCacheFallbackDetail (repairClaudeCacheFallbackTokens d)"
  using pollutedD(3) [of "repairClaudeCacheFallbackTokens d"] pollutedD(2) [OF assms]
  by (auto simp: repair_polluted [OF assms])

lemma normalize_idem [simp]:
  "normalizeClaudeCacheFallbackDetail (normalizeClaudeCacheFallbackDetail d) =
   normalizeClaudeCacheFallbackDetail d"
  using repaired_not_polluted by (auto simp: normalizeClaudeCacheFallbackDetail_def)

text \<open>
  C25: The doubled and the repaired form of one request converge to the same canonical key, so a
  snapshot that holds one and a journal that holds the other never count the request twice.
  Normalising twice is normalising once.
\<close>
theorem canonical_key_converges:
  "claudeCacheCanonicalDedupKey a m (normalizeClaudeCacheFallbackDetail d) = claudeCacheCanonicalDedupKey a m d \<and>
   normalizeClaudeCacheFallbackDetail (normalizeClaudeCacheFallbackDetail d) = normalizeClaudeCacheFallbackDetail d"
  using normalize_idem [of d]
  by (auto simp: claudeCacheCanonicalDedupKey_def normalizeClaudeCacheFallbackDetail_def)

text \<open>
  C26: Repairing a doubled detail changes its contribution to the counters by exactly one cache
  write: the total falls by it, the cache hit disappears, and every other contribution stays.
\<close>
theorem repair_removes_one_write:
  assumes "isPollutedClaudeCacheFallbackDetail d"
  defines "old \<equiv> detailTotalsFromRequest d"
    and "new \<equiv> detailTotalsFromRequest (repairClaudeCacheFallbackTokens d)"
  shows "new = old\<lparr> dt_totalTokens := dt_totalTokens old - dt_cacheWriteTokens old,
                    dt_cachedTokens := 0 \<rparr>"
proof -
  note p = pollutedD [OF assms(1)]
  let ?t = "rd_Tokens d"
  let ?r = "repairClaudeCacheFallbackTokens d"
  let ?io = "nonNegativeInt64 (tk_InputTokens ?t) + nonNegativeInt64 (tk_OutputTokens ?t)"
  have io: "0 \<le> ?io" "?io + 2 * tk_CacheWriteTokens ?t \<le> MaxInt64"
    using p by (simp_all add: nonNegativeInt64_def)
  have sat: "saturatingProtocolAdd (nonNegativeInt64 (tk_InputTokens ?t)) (nonNegativeInt64 (tk_OutputTokens ?t)) = ?io"
    using io p(2) by (simp add: saturatingProtocolAdd_eq nonNegativeInt64_eq)
  have old: "detailTotalTokensForRequest d = ?io + 2 * tk_CacheWriteTokens ?t"
    using p io
    by (simp add: detailTotalTokensForRequest_def detailTotalTokens_def normalizedCacheTokens_def
        usesExclusiveCacheInput_def Let_def sat maxInt64_eq)
      (simp add: nonNegativeInt64_def saturatingProtocolAdd_eq)
  have new: "detailTotalTokensForRequest ?r = ?io + tk_CacheWriteTokens ?t"
    using p io
    by (simp add: repair_polluted [OF assms(1)] detailTotalTokensForRequest_def detailTotalTokens_def
        normalizedCacheTokens_def usesExclusiveCacheInput_def Let_def sat maxInt64_eq)
      (simp add: nonNegativeInt64_def saturatingProtocolAdd_eq)
  show ?thesis
    unfolding old_def new_def detailTotalsFromRequest_def Let_def old new
    using p by (simp add: repair_polluted [OF assms(1)] normalizedCacheReadTokens_def Let_def
        maxInt64_def nonNegativeInt64_def)
qed

definition polluted_detail :: RequestDetail where
  "polluted_detail = sample_detail\<lparr> rd_Tokens := \<lparr> tk_InputTokens = 10, tk_OutputTokens = 5,
     tk_ReasoningTokens = 0, tk_CachedTokens = 20, tk_CacheReadTokens = 0, tk_CacheTokens = 40,
     tk_CacheWriteTokens = 20, tk_TotalTokens = 55 \<rparr> \<rparr>"

lemma repair_removes_one_write_witness:
  "isPollutedClaudeCacheFallbackDetail polluted_detail \<and>
   dt_totalTokens (detailTotalsFromRequest (repairClaudeCacheFallbackTokens polluted_detail)) = 35"
proof -
  have p: "isPollutedClaudeCacheFallbackDetail polluted_detail" by code_simp
  moreover have "dt_totalTokens (detailTotalsFromRequest polluted_detail) = 55" by code_simp
  moreover have
    "dt_cacheWriteTokens (detailTotalsFromRequest polluted_detail) = 20" by code_simp
  ultimately show ?thesis using repair_removes_one_write [OF p] by simp
qed

end
