(* ===== verification/Pricing.thy ===== *)
theory Pricing
  imports DetailKeys
begin

unbundle bit_operations_syntax

text \<open>
  Prices (\<open>go/stats.go\<close>): time rules and their validation, the price in force at an instant, the
  case-insensitive price tables and their lookup, and the cost of a request.
\<close>

section \<open>Time rules\<close>

definition digit :: "char \<Rightarrow> bool" where
  "digit c \<longleftrightarrow> 48 \<le> byte_of c \<and> byte_of c \<le> 57"

definition digit_val :: "char \<Rightarrow> int" where
  "digit_val c = int (byte_of c) - 48"

definition parsePricingMinute :: "string \<Rightarrow> int option" where
  "parsePricingMinute value =
     (if length value \<noteq> 5 \<or> value ! 2 \<noteq> CHR '':'' \<or> \<not> digit (value ! 0) \<or> \<not> digit (value ! 1) \<or>
         \<not> digit (value ! 3) \<or> \<not> digit (value ! 4) then None
      else let hour = digit_val (value ! 0) * 10 + digit_val (value ! 1);
               minute = digit_val (value ! 3) * 10 + digit_val (value ! 4)
           in if hour > 23 \<or> minute > 59 then None else Some (hour * 60 + minute))"

definition allWeekdaysMask :: "8 word" where
  "allWeekdaysMask = 0x7F"

definition modelPriceRuleDayMask :: "ModelPriceRule \<Rightarrow> 8 word" where
  "modelPriceRuleDayMask rule =
     (if mr_Days rule = [] then allWeekdaysMask
      else let mask = fold (\<lambda>day mask. if 0 \<le> day \<and> day \<le> 6 then mask OR push_bit (nat day) 1 else mask)
                        (mr_Days rule) 0
           in if mask = 0 then allWeekdaysMask else mask)"

definition validPriceNumber :: "float64 \<Rightarrow> bool" where
  "validPriceNumber value \<longleftrightarrow> f_le (Fin 0) value \<and> value \<noteq> NaN \<and> value \<noteq> PInf \<and> value \<noteq> NInf"

text \<open>The errors of the validation, with the index of the rule that its message names.\<close>

datatype rule_error =
    TooManyRules
  | NameRequired nat
  | IDNotUnique nat
  | TooManyDays nat
  | DayOutOfRange nat
  | DayRepeated nat
  | StartFormat nat
  | EndFormat nat
  | StartEqualsEnd nat
  | PromptInvalid nat
  | CompletionInvalid nat
  | CacheInvalid nat
  | CacheWriteInvalid nat
  | NoOverride nat
  | RulesOverlap string string

record modelPriceRuleInterval =
  pi_start :: int
  pi_end :: int
  pi_rule :: nat
  pi_days :: "8 word"

definition modelPriceRuleLabel :: "ModelPriceRule \<Rightarrow> string" where
  "modelPriceRuleLabel rule =
     (let i = go_TrimSpace (mr_ID rule)
      in if i \<noteq> [] then i
         else let name = go_TrimSpace (mr_Name rule) in if name \<noteq> [] then name else ''?'')"

text \<open>The loop over \<open>rule.Days\<close>: the first day out of range or repeated decides the error.\<close>

fun check_days :: "nat \<Rightarrow> int list \<Rightarrow> int list \<Rightarrow> rule_error option" where
  "check_days i seen [] = None"
| "check_days i seen (day # days) =
     (if day < 0 \<or> day > 6 then Some (DayOutOfRange i)
      else if day \<in> set seen then Some (DayRepeated i)
      else check_days i (day # seen) days)"

definition opt_price_ok :: "float64 option \<Rightarrow> bool" where
  "opt_price_ok p \<longleftrightarrow> (case p of None \<Rightarrow> True | Some v \<Rightarrow> validPriceNumber v)"

text \<open>The intervals of a rule: one that crosses midnight has two, with the same day mask.\<close>

definition rule_intervals :: "nat \<Rightarrow> int \<Rightarrow> int \<Rightarrow> 8 word \<Rightarrow> modelPriceRuleInterval list" where
  "rule_intervals i start end' days =
     (if start < end' then [\<lparr> pi_start = start, pi_end = end', pi_rule = i, pi_days = days \<rparr>]
      else [\<lparr> pi_start = start, pi_end = 1440, pi_rule = i, pi_days = days \<rparr>,
            \<lparr> pi_start = 0, pi_end = end', pi_rule = i, pi_days = days \<rparr>])"

text \<open>One round of the first loop: the checks in the order of the source.\<close>

definition check_rule ::
  "nat \<Rightarrow> ModelPriceRule \<Rightarrow> string list \<Rightarrow> rule_error + (string list \<times> modelPriceRuleInterval list)" where
  "check_rule i rule seenIDs =
     (if go_TrimSpace (mr_Name rule) = [] then Inl (NameRequired i)
      else let rid = go_TrimSpace (mr_ID rule)
      in if rid \<noteq> [] \<and> rid \<in> set seenIDs then Inl (IDNotUnique i)
      else let seenIDs = (if rid \<noteq> [] then rid # seenIDs else seenIDs)
      in if length (mr_Days rule) > 7 then Inl (TooManyDays i)
      else case check_days i [] (mr_Days rule) of Some e \<Rightarrow> Inl e | None \<Rightarrow>
         (case parsePricingMinute (mr_Start rule) of None \<Rightarrow> Inl (StartFormat i) | Some start \<Rightarrow>
         (case parsePricingMinute (mr_End rule) of None \<Rightarrow> Inl (EndFormat i) | Some end' \<Rightarrow>
            if start = end' then Inl (StartEqualsEnd i)
            else if \<not> opt_price_ok (mr_Prompt rule) then Inl (PromptInvalid i)
            else if \<not> opt_price_ok (mr_Completion rule) then Inl (CompletionInvalid i)
            else if \<not> opt_price_ok (mr_Cache rule) then Inl (CacheInvalid i)
            else if \<not> opt_price_ok (mr_CacheWrite rule) then Inl (CacheWriteInvalid i)
            else if mr_Prompt rule = None \<and> mr_Completion rule = None \<and> mr_Cache rule = None \<and>
                    mr_CacheWrite rule = None then Inl (NoOverride i)
            else Inr (seenIDs, rule_intervals i start end' (modelPriceRuleDayMask rule)))))"

fun check_rules ::
  "nat \<Rightarrow> ModelPriceRule list \<Rightarrow> string list \<Rightarrow> rule_error + modelPriceRuleInterval list" where
  "check_rules i [] seenIDs = Inr []"
| "check_rules i (rule # rules) seenIDs =
     (case check_rule i rule seenIDs of
        Inl e \<Rightarrow> Inl e
      | Inr (seenIDs', ivs) \<Rightarrow>
          (case check_rules (Suc i) rules seenIDs' of Inl e \<Rightarrow> Inl e | Inr ivs' \<Rightarrow> Inr (ivs @ ivs')))"

definition intervals_clash :: "modelPriceRuleInterval \<Rightarrow> modelPriceRuleInterval \<Rightarrow> bool" where
  "intervals_clash a b \<longleftrightarrow>
     pi_days a AND pi_days b \<noteq> 0 \<and> pi_start a < pi_end b \<and> pi_start b < pi_end a"

fun find_clash :: "modelPriceRuleInterval list \<Rightarrow> (nat \<times> nat) option" where
  "find_clash [] = None"
| "find_clash (iv # ivs) =
     (case List.find (intervals_clash iv) ivs of
        Some iv' \<Rightarrow> Some (pi_rule iv, pi_rule iv')
      | None \<Rightarrow> find_clash ivs)"

definition validateModelPriceRules :: "ModelPriceRule list \<Rightarrow> rule_error option" where
  "validateModelPriceRules rules =
     (if length rules > 16 then Some TooManyRules
      else case check_rules 0 rules [] of
             Inl e \<Rightarrow> Some e
           | Inr ivs \<Rightarrow>
               (case find_clash ivs of
                  None \<Rightarrow> None
                | Some (i, j) \<Rightarrow> Some (RulesOverlap (modelPriceRuleLabel (rules ! i))
                                        (modelPriceRuleLabel (rules ! j)))))"

definition validModelPrice :: "ModelPrice \<Rightarrow> bool" where
  "validModelPrice price =
     (if \<not> validPriceNumber (mp_Prompt price) \<or> \<not> validPriceNumber (mp_Completion price) \<or>
         \<not> validPriceNumber (mp_Cache price) \<or> \<not> validPriceNumber (mp_CacheWrite price) then False
      else validateModelPriceRules (mp_TimeRules price) = None)"

section \<open>Normalisation\<close>

fun normalize_days :: "int list \<Rightarrow> int list \<Rightarrow> int list" where
  "normalize_days acc [] = acc"
| "normalize_days acc (day # days) =
     (if day < 0 \<or> day > 6 then normalize_days acc days
      else if day \<in> set acc then normalize_days acc days
      else normalize_days (acc @ [day]) days)"

definition normalizedRuleDays :: "int list \<Rightarrow> int list" where
  "normalizedRuleDays days =
     (if days = [] then []
      else let normalized = normalize_days [] days
           in if normalized = [] \<or> length normalized = 7 then [] else sort normalized)"

text \<open>\<open>newID i\<close> is the identifier that \<open>newModelPriceRuleID\<close> draws for rule \<open>i\<close>.\<close>

definition normalizeModelPriceRule :: "(nat \<Rightarrow> string) \<Rightarrow> nat \<Rightarrow> ModelPriceRule \<Rightarrow> ModelPriceRule" where
  "normalizeModelPriceRule newID i rule =
     rule\<lparr> mr_Days := normalizedRuleDays (mr_Days rule),
           mr_ID := (if go_TrimSpace (mr_ID rule) = [] then newID i else mr_ID rule) \<rparr>"

definition normalizeModelPriceRules :: "(nat \<Rightarrow> string) \<Rightarrow> ModelPrice \<Rightarrow> ModelPrice" where
  "normalizeModelPriceRules newID price =
     price\<lparr> mp_TimeRules := map (\<lambda>(i, rule). normalizeModelPriceRule newID i rule)
              (zip [0..<length (mp_TimeRules price)] (mp_TimeRules price)) \<rparr>"

section \<open>The price in force\<close>

definition ruleContainsMinute :: "ModelPriceRule \<Rightarrow> int \<Rightarrow> bool" where
  "ruleContainsMinute rule minute =
     (case (parsePricingMinute (mr_Start rule), parsePricingMinute (mr_End rule)) of
        (Some start, Some end') \<Rightarrow>
          if start = end' then False
          else if start < end' then minute \<ge> start \<and> minute < end'
          else minute \<ge> start \<or> minute < end'
      | _ \<Rightarrow> False)"

definition ruleMatchesInstant :: "ModelPriceRule \<Rightarrow> int \<Rightarrow> int \<Rightarrow> bool" where
  "ruleMatchesInstant rule weekday minute =
     (if modelPriceRuleDayMask rule AND push_bit (nat weekday) 1 = 0 then False
      else ruleContainsMinute rule minute)"

definition apply_rule :: "ModelPriceRule \<Rightarrow> ModelPrice \<Rightarrow> ModelPrice" where
  "apply_rule rule base =
     base\<lparr> mp_Prompt := (case mr_Prompt rule of None \<Rightarrow> mp_Prompt base | Some v \<Rightarrow> v),
           mp_Completion := (case mr_Completion rule of None \<Rightarrow> mp_Completion base | Some v \<Rightarrow> v),
           mp_Cache := (case mr_Cache rule of None \<Rightarrow> mp_Cache base | Some v \<Rightarrow> v),
           mp_CacheWrite := (case mr_CacheWrite rule of None \<Rightarrow> mp_CacheWrite base | Some v \<Rightarrow> v) \<rparr>"

text \<open>A nil location is UTC.\<close>

definition effectivePrice :: "ModelPrice \<Rightarrow> gotime \<Rightarrow> location option \<Rightarrow> ModelPrice" where
  "effectivePrice base instant loc =
     (if time_IsZero instant \<or> mp_TimeRules base = [] then base
      else let local = (case loc of None \<Rightarrow> time_UTC instant | Some l \<Rightarrow> time_In l instant);
               minute = time_Hour_of local * 60 + time_Minute_of local;
               weekday = time_Weekday local
           in case List.find (\<lambda>rule. ruleMatchesInstant rule weekday minute) (mp_TimeRules base) of
                None \<Rightarrow> base
              | Some rule \<Rightarrow> apply_rule rule base)"

definition effectiveDetailPrice :: "ModelPrice \<Rightarrow> RequestDetail \<Rightarrow> location option \<Rightarrow> ModelPrice" where
  "effectiveDetailPrice base detail loc =
     (if rd_TimestampSynthetic detail then base else effectivePrice base (rd_Timestamp detail) loc)"

section \<open>Minutes\<close>

definition digit_char :: "int \<Rightarrow> char" where
  "digit_char n = char_of (nat (48 + n))"

text \<open>The rendering of a minute of the day as HH:mm.\<close>

definition formatMinute :: "int \<Rightarrow> string" where
  "formatMinute m = [digit_char (m div 60 div 10), digit_char (m div 60 mod 10), CHR '':'',
     digit_char (m mod 60 div 10), digit_char (m mod 60 mod 10)]"

lemma digit_char_val [simp]: "0 \<le> n \<Longrightarrow> n \<le> 9 \<Longrightarrow> digit_val (digit_char n) = n"
  by (simp add: digit_val_def digit_char_def byte_of_def of_char_of)

lemma digit_digit_char [simp]: "0 \<le> n \<Longrightarrow> n \<le> 9 \<Longrightarrow> digit (digit_char n)"
  by (auto simp: digit_def digit_char_def byte_of_def of_char_of)

lemma digit_char_digit_val: "digit c \<Longrightarrow> digit_char (digit_val c) = c"
  by (simp add: digit_char_def digit_val_def digit_def byte_of_def)

lemma digit_val_range: "digit c \<Longrightarrow> 0 \<le> digit_val c \<and> digit_val c \<le> 9"
  by (simp add: digit_def digit_val_def)

lemma length5E:
  assumes "length xs = 5"
  obtains a b c d e where "xs = [a, b, c, d, e]"
  using assms by (auto simp: numeral_eq_Suc length_Suc_conv)

lemma parse_formatMinute:
  assumes "0 \<le> m" "m < 1440"
  shows "parsePricingMinute (formatMinute m) = Some m"
proof -
  define h mi where "h = m div 60" and "mi = m mod 60"
  define a b c d where "a = h div 10" and "b = h mod 10" and "c = mi div 10" and "d = mi mod 10"
  have h: "0 \<le> h" "h \<le> 23" "0 \<le> mi" "mi \<le> 59" and m: "h * 60 + mi = m"
    using assms by (simp_all add: h_def mi_def)
  have r: "0 \<le> a" "a \<le> 9" "0 \<le> b" "b \<le> 9" "0 \<le> c" "c \<le> 9" "0 \<le> d" "d \<le> 9"
    and e: "a * 10 + b = h" "c * 10 + d = mi"
    using h by (simp_all add: a_def b_def c_def d_def)
  have "formatMinute m = [digit_char a, digit_char b, CHR '':'', digit_char c, digit_char d]"
    by (simp add: formatMinute_def a_def b_def c_def d_def h_def mi_def)
  then show ?thesis
    using r h m e by (simp add: parsePricingMinute_def Let_def)
qed

lemma minute_split:
  fixes h mi :: int
  assumes "0 \<le> mi" "mi \<le> 59"
  shows "(h * 60 + mi) div 60 = h \<and> (h * 60 + mi) mod 60 = mi"
  using assms div_pos_pos_trivial [of mi 60] mod_pos_pos_trivial [of mi 60] by simp

lemma parsePricingMinuteD:
  assumes "parsePricingMinute v = Some m"
  shows "0 \<le> m" "m < 1440" "v = formatMinute m"
proof -
  have l: "length v = 5" using assms by (simp add: parsePricingMinute_def split: if_splits)
  obtain a b c d e where v: "v = [a, b, c, d, e]" using length5E [OF l] .
  have dg: "digit a" "digit b" "digit d" "digit e" and c: "c = CHR '':''"
    and h: "digit_val a * 10 + digit_val b \<le> 23" and mi: "digit_val d * 10 + digit_val e \<le> 59"
    and m: "m = (digit_val a * 10 + digit_val b) * 60 + (digit_val d * 10 + digit_val e)"
    using assms unfolding v by (auto simp: parsePricingMinute_def Let_def split: if_splits)
  note r = dg [THEN digit_val_range]
  show "0 \<le> m" using m r by auto
  show "m < 1440" using m r h mi by auto
  have mi0: "0 \<le> digit_val d * 10 + digit_val e" using r by simp
  have 1: "m div 60 = digit_val a * 10 + digit_val b" "m mod 60 = digit_val d * 10 + digit_val e"
    unfolding m using minute_split [OF mi0 mi] by blast+
  show "v = formatMinute m"
    using r dg c unfolding formatMinute_def v 1 by (simp add: digit_char_digit_val)
qed

text \<open>
  C27: The HH:mm parser accepts exactly the renderings of the 1440 minutes of a day and returns
  the minute rendered: it is the inverse of the formatting, and rejects everything else.
\<close>
theorem parsePricingMinute_iff:
  "parsePricingMinute v = Some m \<longleftrightarrow> 0 \<le> m \<and> m < 1440 \<and> v = formatMinute m"
  using parsePricingMinuteD parse_formatMinute by blast

section \<open>At most one rule applies\<close>

lemma mask_bit: "n < 8 \<Longrightarrow> (w :: 8 word) AND push_bit n 1 = 0 \<longleftrightarrow> \<not> bit w n"
  by (simp add: push_bit_eq_mult and_exp_eq_0_iff_not_bit)

definition covers :: "int \<Rightarrow> int \<Rightarrow> modelPriceRuleInterval \<Rightarrow> bool" where
  "covers weekday minute iv \<longleftrightarrow> bit (pi_days iv) (nat weekday) \<and> pi_start iv \<le> minute \<and> minute < pi_end iv"

lemma covers_clash: "covers wd m a \<Longrightarrow> covers wd m b \<Longrightarrow> intervals_clash a b"
proof -
  assume c: "covers wd m a" "covers wd m b"
  then have "bit (pi_days a AND pi_days b) (nat wd)" by (simp add: covers_def bit_and_iff)
  then have "pi_days a AND pi_days b \<noteq> 0" by auto
  then show ?thesis using c by (simp add: covers_def intervals_clash_def)
qed

lemma find_clash_None: "find_clash ivs = None \<Longrightarrow> sorted_wrt (\<lambda>a b. \<not> intervals_clash a b) ivs"
  by (induction ivs) (auto split: option.splits simp: find_None_iff)

lemma check_rule_covers:
  assumes "check_rule i rule seen = Inr (seen', ivs)" "ruleMatchesInstant rule wd m"
    and "0 \<le> wd" "wd < 7" "0 \<le> m" "m < 1440"
  shows "\<exists>iv \<in> set ivs. covers wd m iv"
proof -
  obtain s e where se: "parsePricingMinute (mr_Start rule) = Some s"
    "parsePricingMinute (mr_End rule) = Some e" "s \<noteq> e"
    "ivs = rule_intervals i s e (modelPriceRuleDayMask rule)"
    using assms(1) by (auto simp: check_rule_def Let_def split: if_splits option.splits)
  have "bit (modelPriceRuleDayMask rule) (nat wd)" "ruleContainsMinute rule m"
    using assms(2,3,4) by (auto simp: ruleMatchesInstant_def and_exp_eq_0_iff_not_bit split: if_splits)
  then show ?thesis
    using se assms(5,6)
    by (auto simp: ruleContainsMinute_def rule_intervals_def covers_def split: if_splits)
qed

lemma check_rules_exclusive:
  assumes "check_rules i rules seen = Inr ivs" "sorted_wrt (\<lambda>a b. \<not> intervals_clash a b) ivs"
    and wd: "0 \<le> wd" "wd < 7" and m: "0 \<le> m" "m < 1440"
  shows "sorted_wrt (\<lambda>r r'. \<not> (ruleMatchesInstant r wd m \<and> ruleMatchesInstant r' wd m)) rules \<and>
    (\<forall>r \<in> set rules. ruleMatchesInstant r wd m \<longrightarrow> (\<exists>iv \<in> set ivs. covers wd m iv))"
  using assms(1,2)
proof (induction rules arbitrary: i seen ivs)
  case Nil
  then show ?case by simp
next
  case (Cons r rs)
  obtain seen' a b where step: "check_rule i r seen = Inr (seen', a)"
    "check_rules (Suc i) rs seen' = Inr b" "ivs = a @ b"
    using Cons.prems(1) by (auto split: sum.splits prod.splits)
  have ab: "sorted_wrt (\<lambda>a b. \<not> intervals_clash a b) b"
    "\<And>x y. x \<in> set a \<Longrightarrow> y \<in> set b \<Longrightarrow> \<not> intervals_clash x y"
    using Cons.prems(2) unfolding step(3) by (auto simp: sorted_wrt_append)
  note IH = Cons.IH [OF step(2) ab(1)]
  note first = check_rule_covers [OF step(1) _ wd m]
  have "\<not> ruleMatchesInstant r' wd m" if r: "ruleMatchesInstant r wd m" "r' \<in> set rs" for r'
  proof
    assume "ruleMatchesInstant r' wd m"
    then obtain y where "y \<in> set b" "covers wd m y" using IH r(2) by blast
    moreover obtain x where "x \<in> set a" "covers wd m x" using first r(1) by blast
    ultimately show False using ab(2) covers_clash by blast
  qed
  then show ?case using IH first step(3) by auto
qed

lemma validated_rules_exclusive:
  assumes "validateModelPriceRules rules = None" "0 \<le> wd" "wd < 7" "0 \<le> m" "m < 1440"
  shows "sorted_wrt (\<lambda>r r'. \<not> (ruleMatchesInstant r wd m \<and> ruleMatchesInstant r' wd m)) rules"
proof -
  obtain ivs where "check_rules 0 rules [] = Inr ivs" "find_clash ivs = None"
    using assms(1) by (auto simp: validateModelPriceRules_def split: if_splits sum.splits option.splits prod.splits)
  then show ?thesis using check_rules_exclusive find_clash_None assms(2-5) by blast
qed

lemma exclusive_filter:
  "sorted_wrt (\<lambda>r r'. \<not> (Q r \<and> Q r')) rules \<Longrightarrow> length (filter Q rules) \<le> 1"
  by (induction rules) (auto simp: filter_empty_conv)

lemma find_filter: "List.find Q xs = (case filter Q xs of [] \<Rightarrow> None | x # _ \<Rightarrow> Some x)"
  by (induction xs) auto

lemma find_permuted:
  assumes "mset xs = mset ys" "length (filter Q xs) \<le> 1"
  shows "List.find Q xs = List.find Q ys"
proof -
  have eq: "mset (filter Q xs) = mset (filter Q ys)" using assms(1) by simp
  have "filter Q xs = filter Q ys"
  proof (cases "filter Q xs")
    case Nil
    then show ?thesis using eq by simp
  next
    case (Cons x r)
    then have "filter Q xs = [x]" using assms(2) by (cases r) auto
    then have "mset (filter Q ys) = {#x#}" using eq [symmetric] by (simp only: mset.simps)
    then show ?thesis using \<open>filter Q xs = [x]\<close> by (simp only: mset_single_iff)
  qed
  then show ?thesis by (simp add: find_filter)
qed

text \<open>
  C28: When the validation accepts a list of time rules, no instant matches two of them: a rule
  list that is stored never prices one request in two ways.
\<close>
theorem validated_rules_never_overlap:
  assumes "validateModelPriceRules rules = None"
    and "i < j" "j < length rules"
  shows "\<not> (ruleMatchesInstant (rules ! i) (time_Weekday t) (time_Hour_of t * 60 + time_Minute_of t) \<and>
            ruleMatchesInstant (rules ! j) (time_Weekday t) (time_Hour_of t * 60 + time_Minute_of t))"
proof -
  let ?m = "time_Hour_of t * 60 + time_Minute_of t"
  have "0 \<le> ?m" "?m < 1440" using time_Hour_of_range [of t] time_Minute_of_range [of t] by linarith+
  then show ?thesis
    using validated_rules_exclusive [OF assms(1)] time_Weekday_range [of t] assms(2,3)
    by (auto simp: sorted_wrt_iff_nth_less)
qed

text \<open>
  C29: The price in force does not depend on the order in which the rules of a validated price
  are listed.
\<close>
theorem effectivePrice_order_independent:
  assumes "validateModelPriceRules (mp_TimeRules p) = None"
    and "mset rules = mset (mp_TimeRules p)"
  shows "effectivePrice (p\<lparr> mp_TimeRules := rules \<rparr>) t loc =
    (effectivePrice p t loc)\<lparr> mp_TimeRules := rules \<rparr>"
proof -
  define l where "l = (case loc of None \<Rightarrow> time_UTC t | Some l \<Rightarrow> time_In l t)"
  let ?m = "time_Hour_of l * 60 + time_Minute_of l"
  let ?Q = "\<lambda>rule. ruleMatchesInstant rule (time_Weekday l) ?m"
  have "0 \<le> ?m" "?m < 1440" using time_Hour_of_range [of l] time_Minute_of_range [of l] by linarith+
  then have "length (filter ?Q (mp_TimeRules p)) \<le> 1"
    using validated_rules_exclusive [OF assms(1)] time_Weekday_range [of l] by (intro exclusive_filter) auto
  then have f: "List.find ?Q rules = List.find ?Q (mp_TimeRules p)"
    using find_permuted [OF assms(2) [symmetric]] by metis
  have "rules = [] \<longleftrightarrow> mp_TimeRules p = []" using assms(2) by (metis mset_zero_iff)
  then show ?thesis
    using f by (auto simp: effectivePrice_def Let_def apply_rule_def l_def split: option.split)
qed

section \<open>Normalising a price changes no cost\<close>

lemma fold_mask_bit:
  assumes "n < 8"
  shows "bit (fold (\<lambda>day mask. if 0 \<le> day \<and> day \<le> 6 then mask OR push_bit (nat day) 1 else mask) days (w :: 8 word)) n
    \<longleftrightarrow> bit w n \<or> (\<exists>d \<in> set days. 0 \<le> d \<and> d \<le> 6 \<and> nat d = n)"
  using assms
  by (induction days arbitrary: w) (auto simp: bit_or_iff push_bit_of_1 bit_exp_iff)

text \<open>Which weekdays a day list stands for.\<close>

definition days_of :: "int list \<Rightarrow> int set" where
  "days_of days = {d \<in> set days. 0 \<le> d \<and> d \<le> 6}"

lemma all_mask_bit:
  assumes "n < 8"
  shows "bit allWeekdaysMask n \<longleftrightarrow> n < 7"
proof -
  have e: "allWeekdaysMask = mask 7" by (simp add: allWeekdaysMask_def mask_eq_exp_minus_1)
  show ?thesis unfolding e bit_mask_iff possible_bit_word using assms by simp
qed

lemma dayMask_bit:
  assumes "n < 8"
  shows "bit (modelPriceRuleDayMask rule) n \<longleftrightarrow>
    (if days_of (mr_Days rule) = {} then n < 7 else int n \<in> days_of (mr_Days rule))"
proof -
  let ?f = "\<lambda>day mask. if 0 \<le> day \<and> day \<le> 6 then mask OR push_bit (nat day) 1 else (mask :: 8 word)"
  let ?m = "fold ?f (mr_Days rule) 0"
  have b: "bit ?m k \<longleftrightarrow> int k \<in> days_of (mr_Days rule)" if "k < 8" for k
    using fold_mask_bit [OF that, of "mr_Days rule" 0]
    by (auto simp: days_of_def intro!: bexI [of _ "int k"])
  have z: "?m = 0 \<longleftrightarrow> days_of (mr_Days rule) = {}"
  proof
    assume "?m = 0"
    then have "int k \<notin> days_of (mr_Days rule)" if "k < 8" for k using b that by simp
    moreover have "\<exists>k < 8. d = int k" if "d \<in> days_of (mr_Days rule)" for d
      using that by (intro exI [of _ "nat d"]) (auto simp: days_of_def)
    ultimately show "days_of (mr_Days rule) = {}" by blast
  next
    assume "days_of (mr_Days rule) = {}"
    then show "?m = 0" using b by (intro bit_eqI) (simp add: bit_simps)
  qed
  show ?thesis
    using assms all_mask_bit b z
    by (auto simp: modelPriceRuleDayMask_def Let_def days_of_def)
qed

lemma set_normalize_days:
  "set (normalize_days acc days) = set acc \<union> days_of days"
  by (induction days arbitrary: acc) (auto simp: days_of_def)

lemma distinct_normalize_days: "distinct acc \<Longrightarrow> distinct (normalize_days acc days)"
  by (induction days arbitrary: acc) auto

lemma days_of_sub: "days_of days \<subseteq> {0..6}"
  by (auto simp: days_of_def)

lemma normalizedRuleDays_set:
  "days_of (normalizedRuleDays days) = (if days_of days = {0..6} then {} else days_of days)"
proof (cases "days = []")
  case True
  then show ?thesis by (simp add: normalizedRuleDays_def days_of_def)
next
  case False
  let ?n = "normalize_days [] days"
  have s: "set ?n = days_of days" and d: "distinct ?n"
    by (simp_all add: set_normalize_days distinct_normalize_days)
  have seven: "length ?n = 7 \<longleftrightarrow> days_of days = {0..6}"
  proof
    assume "length ?n = 7"
    then have "card (days_of days) = 7" unfolding s [symmetric] distinct_card [OF d] .
    then show "days_of days = {0..6}" by (intro card_subset_eq days_of_sub) simp_all
  next
    assume e: "days_of days = {0..6}"
    show "length ?n = 7" unfolding distinct_card [OF d, symmetric] s e by simp
  qed
  have idem: "days_of xs = days_of days" if "set xs = days_of days" for xs
    using that unfolding days_of_def by blast
  have "days_of (sort ?n) = days_of days" by (rule idem) (simp add: s)
  moreover have "?n = [] \<Longrightarrow> days_of days = {}" using s by simp
  moreover have "days_of [] = {}" by (simp add: days_of_def)
  ultimately show ?thesis
    using False seven unfolding normalizedRuleDays_def Let_def by presburger
qed

lemma dayMask_normalized:
  "modelPriceRuleDayMask (normalizeModelPriceRule g i rule) = modelPriceRuleDayMask rule"
proof (rule bit_eqI)
  fix n
  assume "possible_bit TYPE(8 word) n"
  then have n: "n < 8" by (simp add: possible_bit_word)
  then show "bit (modelPriceRuleDayMask (normalizeModelPriceRule g i rule)) n =
      bit (modelPriceRuleDayMask rule) n"
    by (auto simp: dayMask_bit [OF n] normalizeModelPriceRule_def normalizedRuleDays_set)
qed

lemma ruleMatchesInstant_normalized [simp]:
  "ruleMatchesInstant (normalizeModelPriceRule g i rule) = ruleMatchesInstant rule"
  by (simp add: fun_eq_iff ruleMatchesInstant_def dayMask_normalized)
    (simp add: ruleContainsMinute_def normalizeModelPriceRule_def)

lemma apply_rule_normalized [simp]: "apply_rule (normalizeModelPriceRule g i rule) = apply_rule rule"
  by (simp add: fun_eq_iff apply_rule_def normalizeModelPriceRule_def)

lemma find_normalized:
  "length is = length rules \<Longrightarrow>
   map_option apply_rule (List.find (\<lambda>r. ruleMatchesInstant r wd m)
      (map (\<lambda>(i, rule). normalizeModelPriceRule g i rule) (zip is rules))) =
   map_option apply_rule (List.find (\<lambda>r. ruleMatchesInstant r wd m) rules)"
  by (induction "is" rules rule: list_induct2) auto

lemma normalizedRuleDays_idem: "normalizedRuleDays (normalizedRuleDays days) = normalizedRuleDays days"
proof -
  let ?n = "normalize_days [] days"
  have s: "set ?n = days_of days" and d: "distinct ?n"
    by (simp_all add: set_normalize_days distinct_normalize_days)
  have id: "normalize_days acc xs = acc @ xs"
    if "distinct (acc @ xs)" "set xs \<subseteq> {0..6}" for acc xs :: "int list"
    using that by (induction xs arbitrary: acc) auto
  have "normalize_days [] (sort ?n) = sort ?n"
    using id [of "[]" "sort ?n"] s d days_of_sub [of days] by simp
  then show ?thesis by (simp add: normalizedRuleDays_def Let_def sorted_sort_id)
qed

lemma normalizeModelPriceRule_idem:
  "go_TrimSpace (newID i) \<noteq> [] \<Longrightarrow>
   normalizeModelPriceRule newID' i' (normalizeModelPriceRule newID i rule) = normalizeModelPriceRule newID i rule"
  by (simp add: normalizeModelPriceRule_def normalizedRuleDays_idem)

lemma map_zip_map:
  "length is = length xs \<Longrightarrow> (\<And>i j x. f' j (f i x) = f i x) \<Longrightarrow> length js = length xs \<Longrightarrow>
   map (\<lambda>(i, x). f' i x) (zip js (map (\<lambda>(i, x). f i x) (zip is xs))) = map (\<lambda>(i, x). f i x) (zip is xs)"
  by (rule nth_equalityI) auto

lemma normalizeModelPriceRules_idem:
  assumes "\<And>i. go_TrimSpace (newID i) \<noteq> []"
  shows "normalizeModelPriceRules newID' (normalizeModelPriceRules newID p) = normalizeModelPriceRules newID p"
  by (simp add: normalizeModelPriceRules_def) (intro arg_cong [where f = "\<lambda>r. p\<lparr> mp_TimeRules := r \<rparr>"]
      map_zip_map, simp_all add: normalizeModelPriceRule_idem assms)

lemma effectivePrice_normalized:
  "effectivePrice (normalizeModelPriceRules newID p) t loc =
   (effectivePrice p t loc)\<lparr> mp_TimeRules := mp_TimeRules (normalizeModelPriceRules newID p) \<rparr>"
proof -
  define l where "l = (case loc of None \<Rightarrow> time_UTC t | Some l \<Rightarrow> time_In l t)"
  let ?find = "List.find (\<lambda>r. ruleMatchesInstant r (time_Weekday l) (time_Hour_of l * 60 + time_Minute_of l))"
  have "map_option apply_rule (?find (mp_TimeRules (normalizeModelPriceRules newID p))) =
      map_option apply_rule (?find (mp_TimeRules p))"
    by (simp add: normalizeModelPriceRules_def find_normalized)
  then have f: "(case ?find (mp_TimeRules (normalizeModelPriceRules newID p)) of
        None \<Rightarrow> b | Some rule \<Rightarrow> apply_rule rule b) =
      (case ?find (mp_TimeRules p) of None \<Rightarrow> b | Some rule \<Rightarrow> apply_rule rule b)" for b
    by (cases "?find (mp_TimeRules (normalizeModelPriceRules newID p))";
        cases "?find (mp_TimeRules p)") simp_all
  have "mp_TimeRules (normalizeModelPriceRules newID p) = [] \<longleftrightarrow> mp_TimeRules p = []"
    by (simp add: normalizeModelPriceRules_def)
  then show ?thesis
    unfolding effectivePrice_def Let_def l_def [symmetric] f
    by (simp add: normalizeModelPriceRules_def apply_rule_def split: option.split)
qed

text \<open>
  C30: The normalisation before a price is stored (a fresh ID for a rule without one, the sorted
  weekdays, and the whole week as the empty list) changes the price of no request, and it is
  the identity on a price that was stored, as soon as the fresh IDs are not blank.
\<close>
theorem normalize_keeps_effectivePrice:
  assumes "\<And>i. go_TrimSpace (newID i) \<noteq> []"
  shows "effectivePrice (normalizeModelPriceRules newID p) t loc =
      (effectivePrice p t loc)\<lparr> mp_TimeRules := mp_TimeRules (normalizeModelPriceRules newID p) \<rparr> \<and>
    normalizeModelPriceRules newID' (normalizeModelPriceRules newID p) = normalizeModelPriceRules newID p"
  using effectivePrice_normalized normalizeModelPriceRules_idem [where newID = newID, OF assms] by blast

definition workday_rule :: "string \<Rightarrow> string \<Rightarrow> ModelPriceRule" where
  "workday_rule opens closes = \<lparr> mr_ID = opens, mr_Name = ''rule'', mr_Days = [1, 2, 3, 4, 5], mr_Start = opens, mr_End = closes,
     mr_Prompt = Some (Fin 1), mr_Completion = None, mr_Cache = None, mr_CacheWrite = None \<rparr>"

definition sample_rules :: "ModelPriceRule list" where
  "sample_rules = [workday_rule ''08:00'' ''18:00'', workday_rule ''22:00'' ''06:00'']"

lemma sample_rules_valid: "validateModelPriceRules sample_rules = None"
  by code_simp

lemma validated_rules_never_overlap_witness:
  "\<not> (ruleMatchesInstant (sample_rules ! 0) (time_Weekday zero_time) (time_Hour_of zero_time * 60 + time_Minute_of zero_time) \<and>
      ruleMatchesInstant (sample_rules ! 1) (time_Weekday zero_time) (time_Hour_of zero_time * 60 + time_Minute_of zero_time))"
  by (rule validated_rules_never_overlap [OF sample_rules_valid]) (simp_all add: sample_rules_def)

lemma effectivePrice_order_independent_witness:
  "effectivePrice \<lparr> mp_Prompt = Fin 3, mp_Completion = Fin 4, mp_Cache = Fin 1, mp_CacheWrite = Fin 2,
     mp_TimeRules = rev sample_rules \<rparr> zero_time None =
   (effectivePrice \<lparr> mp_Prompt = Fin 3, mp_Completion = Fin 4, mp_Cache = Fin 1, mp_CacheWrite = Fin 2,
     mp_TimeRules = sample_rules \<rparr> zero_time None)\<lparr> mp_TimeRules := rev sample_rules \<rparr>"
  using effectivePrice_order_independent [of "\<lparr> mp_Prompt = Fin 3, mp_Completion = Fin 4, mp_Cache = Fin 1,
     mp_CacheWrite = Fin 2, mp_TimeRules = sample_rules \<rparr>" "rev sample_rules" zero_time None] sample_rules_valid
  by simp

definition sample_rule_price :: ModelPrice where
  "sample_rule_price = \<lparr> mp_Prompt = Fin 3, mp_Completion = Fin 4, mp_Cache = Fin 1, mp_CacheWrite = Fin 2,
     mp_TimeRules = map (\<lambda>r. r\<lparr> mr_ID := [] \<rparr>) sample_rules \<rparr>"

lemma normalize_keeps_effectivePrice_witness:
  "map mr_ID (mp_TimeRules (normalizeModelPriceRules (\<lambda>_. ''a'') sample_rule_price)) = [''a'', ''a''] \<and>
   normalizeModelPriceRules (\<lambda>_. ''b'') (normalizeModelPriceRules (\<lambda>_. ''a'') sample_rule_price) =
   normalizeModelPriceRules (\<lambda>_. ''a'') sample_rule_price"
proof
  show "map mr_ID (mp_TimeRules (normalizeModelPriceRules (\<lambda>_. ''a'') sample_rule_price)) = [''a'', ''a'']"
    by code_simp
  have "go_TrimSpace ''a'' \<noteq> []" by code_simp
  then show "normalizeModelPriceRules (\<lambda>_. ''b'') (normalizeModelPriceRules (\<lambda>_. ''a'') sample_rule_price) =
      normalizeModelPriceRules (\<lambda>_. ''a'') sample_rule_price"
    using normalize_keeps_effectivePrice [of "\<lambda>_. ''a''"] by blast
qed

end
