(* ===== verification/Costs.thy ===== *)
theory Costs
  imports Pricing
begin

text \<open>
  Price tables and costs (\<open>go/stats.go\<close>): the case-insensitive tables of manual and fetched
  prices, the lookup of a request's price, and the cost arithmetic on \<open>float64\<close> that keeps every
  aggregate finite and non-negative.
\<close>

section \<open>Price tables\<close>

type_synonym price_table = "(string, ModelPrice) gomap"

text \<open>\<open>newID model i\<close> is the identifier drawn for the \<open>i\<close>-th rule of a model's price.\<close>

definition copyModelPrices :: "(string \<Rightarrow> nat \<Rightarrow> string) \<Rightarrow> price_table \<Rightarrow> price_table" where
  "copyModelPrices newID source =
     map (\<lambda>(model, price). (model, normalizeModelPriceRules (newID model) price)) source"

definition index_step :: "string \<times> ModelPrice \<Rightarrow> price_table \<Rightarrow> price_table" where
  "index_step entry index =
     (let key = normalizeModelPriceKey (fst entry)
      in if key \<noteq> [] then go_put key (snd entry) index else index)"

definition normalizedModelPriceIndex :: "price_table \<Rightarrow> price_table" where
  "normalizedModelPriceIndex source = fold index_step source []"

definition deleteModelPriceCaseInsensitive :: "price_table \<Rightarrow> string \<Rightarrow> price_table" where
  "deleteModelPriceCaseInsensitive prices model =
     (let norm = normalizeModelPriceKey model
      in if norm = [] then prices
         else filter (\<lambda>(existing, _). normalizeModelPriceKey existing \<noteq> norm) prices)"

definition setModelPriceCaseInsensitive :: "price_table \<Rightarrow> string \<Rightarrow> ModelPrice \<Rightarrow> price_table" where
  "setModelPriceCaseInsensitive prices model price =
     (let model = go_TrimSpace model
      in if model = [] then prices
         else go_put model price (deleteModelPriceCaseInsensitive prices model))"

definition effectiveModelPrices ::
  "(string \<Rightarrow> nat \<Rightarrow> string) \<Rightarrow> price_table \<Rightarrow> price_table \<Rightarrow> price_table" where
  "effectiveModelPrices newID modelsDevPrices manualPrices =
     fold (\<lambda>(model, price) result.
             setModelPriceCaseInsensitive result model (normalizeModelPriceRules (newID model) price))
       manualPrices (copyModelPrices newID modelsDevPrices)"

definition priceForDetailFromIndex :: "price_table \<Rightarrow> string \<Rightarrow> string \<Rightarrow> ModelPrice option" where
  "priceForDetailFromIndex prices modelName provider =
     (let modelName = normalizeModelPriceKey modelName; provider = normalizeModelPriceKey provider
      in if modelName = [] \<or> prices = [] then None
         else case (if provider \<noteq> [] then go_get prices (provider @ ''/'' @ modelName) else None) of
                Some price \<Rightarrow> Some price
              | None \<Rightarrow>
                  (case go_get prices modelName of
                     Some price \<Rightarrow> Some price
                   | None \<Rightarrow>
                       (case go_IndexByte modelName CHR ''/'' of
                          Some idx \<Rightarrow>
                            if 0 < idx \<and> idx < length modelName - 1
                            then go_get prices (drop (idx + 1) modelName) else None
                        | None \<Rightarrow> None)))"

definition priceForDetailFromMap :: "price_table \<Rightarrow> string \<Rightarrow> string \<Rightarrow> ModelPrice option" where
  "priceForDetailFromMap prices modelName provider =
     priceForDetailFromIndex (normalizedModelPriceIndex prices) modelName provider"

text \<open>The closure \<open>add\<close> of \<open>modelPriceLookupKeys\<close>, on the keys kept so far.\<close>

definition add_lookup_key :: "string \<Rightarrow> string list \<Rightarrow> string list" where
  "add_lookup_key key keys =
     (let key = go_TrimSpace key; norm = normalizeModelPriceKey key
      in if norm = [] then keys
         else if norm \<in> set (map normalizeModelPriceKey keys) then keys else keys @ [key])"

definition modelPriceLookupKeys :: "string \<Rightarrow> string \<Rightarrow> string list" where
  "modelPriceLookupKeys modelName provider =
     (let modelName = go_TrimSpace modelName; provider = go_TrimSpace provider;
          keys = (if provider \<noteq> [] \<and> modelName \<noteq> []
                  then add_lookup_key (provider @ ''/'' @ modelName) [] else []);
          keys = add_lookup_key modelName keys
      in case go_IndexByte modelName CHR ''/'' of
           Some idx \<Rightarrow>
             if 0 < idx \<and> idx < length modelName - 1
             then add_lookup_key (drop (idx + 1) modelName) keys else keys
         | None \<Rightarrow> keys)"

text \<open>The pricing fields of \<open>RequestStatistics\<close>.\<close>

record pricingTables =
  pt_modelPrices :: price_table
  pt_modelPriceIndex :: price_table
  pt_modelsDevPrices :: price_table
  pt_modelsDevPriceIndex :: price_table
  pt_location :: "location option"

text \<open>The lazy refresh of the two indexes at the head of \<open>priceForDetailLocked\<close>.\<close>

definition refreshPriceIndexes :: "pricingTables \<Rightarrow> pricingTables" where
  "refreshPriceIndexes s =
     (let s = (if length (pt_modelPriceIndex s) \<noteq> length (pt_modelPrices s)
               then s\<lparr> pt_modelPriceIndex := normalizedModelPriceIndex (pt_modelPrices s) \<rparr> else s)
      in if length (pt_modelsDevPriceIndex s) \<noteq> length (pt_modelsDevPrices s)
         then s\<lparr> pt_modelsDevPriceIndex := normalizedModelPriceIndex (pt_modelsDevPrices s) \<rparr> else s)"

definition priceForDetailLocked :: "pricingTables \<Rightarrow> string \<Rightarrow> string \<Rightarrow> ModelPrice option" where
  "priceForDetailLocked s modelName provider =
     (let provider = go_TrimSpace provider; modelName = go_TrimSpace modelName;
          s = refreshPriceIndexes s
      in case priceForDetailFromIndex (pt_modelPriceIndex s) modelName provider of
           Some price \<Rightarrow> Some price
         | None \<Rightarrow> priceForDetailFromIndex (pt_modelsDevPriceIndex s) modelName provider)"

section \<open>Cost arithmetic\<close>

definition normalizedNonNegativeCost :: "float64 \<Rightarrow> float64" where
  "normalizedNonNegativeCost value =
     (if value = NaN \<or> f_lt value (Fin 0) \<or> value = NInf then Fin 0
      else if value = PInf then MaxFloat64 else value)"

definition addNonNegativeCost :: "float64 \<Rightarrow> float64 \<Rightarrow> float64" where
  "addNonNegativeCost left right =
     (let l = normalizedNonNegativeCost left; r = normalizedNonNegativeCost right
      in if f_eq l MaxFloat64 \<or> f_eq r MaxFloat64 then MaxFloat64
         else let s = f_add l r in if s = PInf \<or> s = NaN then MaxFloat64 else s)"

definition addCostDelta :: "float64 \<Rightarrow> float64 \<Rightarrow> float64" where
  "addCostDelta left delta =
     (let l = normalizedNonNegativeCost left
      in if delta = NaN \<or> delta = NInf then Fin 0
         else if delta = PInf then MaxFloat64
         else let value = f_add l delta
              in if value = NaN \<or> f_le value (Fin 0) then Fin 0
                 else if value = PInf then MaxFloat64 else value)"

definition subtractNonNegativeCost :: "float64 \<Rightarrow> float64 \<Rightarrow> float64" where
  "subtractNonNegativeCost left right =
     (let l = normalizedNonNegativeCost left; r = normalizedNonNegativeCost right
      in if f_le l r then Fin 0 else normalizedNonNegativeCost (f_sub l r))"

definition scaledTokenCost :: "int \<Rightarrow> float64 \<Rightarrow> float64" where
  "scaledTokenCost tokens price =
     (if tokens \<le> 0 \<or> f_le price (Fin 0) \<or> price = NaN \<or> price = NInf then Fin 0
      else if price = PInf then MaxFloat64
      else let cost = f_mul (f_div_const (f_of_int tokens) 1000000) price
           in if cost = PInf \<or> cost = NaN then MaxFloat64 else cost)"

definition tokenCostForPrice :: "TimeSeriesTokenStat \<Rightarrow> ModelPrice \<Rightarrow> float64" where
  "tokenCostForPrice stat price =
     (let inputTokens = nonNegativeInt64 (ts_InputTokens stat);
          outputTokens = nonNegativeInt64 (ts_OutputTokens stat);
          totalTokens = nonNegativeInt64 (ts_TotalTokens stat);
          cacheReadTokens = nonNegativeInt64 (ts_CachedTokens stat);
          cacheWriteTokens = nonNegativeInt64 (ts_CacheWriteTokens stat);
          cacheTotal = saturatingProtocolAdd cacheReadTokens cacheWriteTokens;
          uncachedInputTokens =
            (if usesExclusiveCacheInput (ts_Provider stat) inputTokens outputTokens cacheTotal totalTokens
             then inputTokens else maxInt64 (inputTokens - cacheTotal) 0);
          cost = Fin 0;
          cost = addNonNegativeCost cost (scaledTokenCost uncachedInputTokens (mp_Prompt price));
          cost = addNonNegativeCost cost (scaledTokenCost outputTokens (mp_Completion price));
          cost = addNonNegativeCost cost (scaledTokenCost cacheReadTokens (mp_Cache price));
          cost = addNonNegativeCost cost (scaledTokenCost cacheWriteTokens (mp_CacheWrite price))
      in cost)"

definition detailTimeSeriesTokenStat :: "string \<Rightarrow> RequestDetail \<Rightarrow> detailTotals \<Rightarrow> TimeSeriesTokenStat" where
  "detailTimeSeriesTokenStat modelName detail totals =
     \<lparr> ts_Model = detailModel modelName detail, ts_Provider = rd_Provider detail,
       ts_TotalTokens = dt_totalTokens totals, ts_InputTokens = dt_inputTokens totals,
       ts_OutputTokens = dt_outputTokens totals, ts_CachedTokens = dt_cachedTokens totals,
       ts_CacheWriteTokens = dt_cacheWriteTokens totals, ts_ReasoningTokens = 0 \<rparr>"

definition basePriceForDetailLocked :: "pricingTables \<Rightarrow> string \<Rightarrow> RequestDetail \<Rightarrow> ModelPrice option" where
  "basePriceForDetailLocked s modelName detail =
     priceForDetailLocked s (detailModel modelName detail) (rd_Provider detail)"

definition detailCostLocked :: "pricingTables \<Rightarrow> string \<Rightarrow> RequestDetail \<Rightarrow> detailTotals \<Rightarrow> float64" where
  "detailCostLocked s modelName detail totals =
     (case basePriceForDetailLocked s modelName detail of
        None \<Rightarrow> Fin 0
      | Some price \<Rightarrow>
          tokenCostForPrice (detailTimeSeriesTokenStat modelName detail totals)
            (effectiveDetailPrice price detail (pt_location s)))"

definition detailBaseCostLocked :: "pricingTables \<Rightarrow> string \<Rightarrow> RequestDetail \<Rightarrow> detailTotals \<Rightarrow> float64" where
  "detailBaseCostLocked s modelName detail totals =
     (case basePriceForDetailLocked s modelName detail of
        None \<Rightarrow> Fin 0
      | Some price \<Rightarrow> tokenCostForPrice (detailTimeSeriesTokenStat modelName detail totals) price)"

definition detailTimePriceDeltaLocked :: "pricingTables \<Rightarrow> string \<Rightarrow> RequestDetail \<Rightarrow> detailTotals \<Rightarrow> float64" where
  "detailTimePriceDeltaLocked s modelName detail totals =
     f_sub (detailCostLocked s modelName detail totals) (detailBaseCostLocked s modelName detail totals)"

definition timeSeriesTokenCostLocked :: "pricingTables \<Rightarrow> TimeSeriesTokenStat \<Rightarrow> float64" where
  "timeSeriesTokenCostLocked s stat =
     (case priceForDetailLocked s (ts_Model stat) (ts_Provider stat) of
        None \<Rightarrow> Fin 0 | Some price \<Rightarrow> tokenCostForPrice stat price)"

text \<open>The prices and the time zone frozen for a background export.\<close>

record pricingSnapshot =
  sn_manualIndex :: price_table
  sn_devIndex :: price_table
  sn_location :: location

definition pricingSnapshotLocked :: "(string \<Rightarrow> nat \<Rightarrow> string) \<Rightarrow> pricingTables \<Rightarrow> pricingSnapshot" where
  "pricingSnapshotLocked newID s =
     (let s = refreshPriceIndexes s
      in \<lparr> sn_manualIndex = copyModelPrices newID (pt_modelPriceIndex s),
           sn_devIndex = copyModelPrices newID (pt_modelsDevPriceIndex s),
           sn_location = (case pt_location s of None \<Rightarrow> (\<lambda>_. 0) | Some l \<Rightarrow> l) \<rparr>)"

definition snapshotDetailCost :: "pricingSnapshot \<Rightarrow> string \<Rightarrow> RequestDetail \<Rightarrow> detailTotals \<Rightarrow> float64" where
  "snapshotDetailCost p modelName detail totals =
     (let model = detailModel modelName detail
      in case (case priceForDetailFromIndex (sn_manualIndex p) model (rd_Provider detail) of
                 Some price \<Rightarrow> Some price
               | None \<Rightarrow> priceForDetailFromIndex (sn_devIndex p) model (rd_Provider detail)) of
           None \<Rightarrow> Fin 0
         | Some price \<Rightarrow>
             tokenCostForPrice (detailTimeSeriesTokenStat modelName detail totals)
               (effectiveDetailPrice price detail (Some (sn_location p))))"

section \<open>Costs stay finite and non-negative\<close>

text \<open>A \<open>float64\<close> of the program: a special value, or a rational that binary64 represents.\<close>

definition is_float :: "float64 \<Rightarrow> bool" where
  "is_float x \<longleftrightarrow> (case x of Fin r \<Rightarrow> valid_cost (Fin \<bar>r\<bar>) | _ \<Rightarrow> True)"

lemma normalized_valid: "is_float x \<Longrightarrow> valid_cost (normalizedNonNegativeCost x)"
  by (cases x) (auto simp: normalizedNonNegativeCost_def is_float_def f_lt_def)

lemma normalized_id: "valid_cost x \<Longrightarrow> normalizedNonNegativeCost x = x"
  by (cases x) (auto simp: normalizedNonNegativeCost_def f_lt_def valid_cost_def)

lemma valid_is_float: "valid_cost x \<Longrightarrow> is_float x"
  by (cases x) (auto simp: is_float_def valid_cost_def)

lemma valid_costE:
  assumes "valid_cost x"
  obtains r where "x = Fin r" "0 \<le> r" "r \<le> max_rat" "representable r"
  using assms valid_cost_le_Max by (cases x) (auto simp: valid_cost_def simp del: power_numeral)

lemma roundf_nonneg_valid: "0 \<le> r \<Longrightarrow> roundf r = PInf \<or> valid_cost (roundf r)"
  using roundf_nonneg_cases [of r] valid_cost_roundf [of r] by metis

lemma addNonNegativeCost_valid:
  assumes "is_float l" "is_float r"
  shows "valid_cost (addNonNegativeCost l r)"
proof -
  obtain a b where ab: "normalizedNonNegativeCost l = Fin a" "normalizedNonNegativeCost r = Fin b"
    "0 \<le> a" "0 \<le> b"
    using normalized_valid [OF assms(1)] normalized_valid [OF assms(2)] by (metis valid_costE)
  then show ?thesis
    using roundf_nonneg_valid [of "a + b"]
    by (auto simp: addNonNegativeCost_def Let_def f_add_def)
qed

lemma addNonNegativeCost_ge:
  assumes "valid_cost l" "is_float r"
  shows "f_le l (addNonNegativeCost l r)"
proof -
  obtain a where a: "l = Fin a" "0 \<le> a" "a \<le> max_rat" "representable a"
    using assms(1) by (rule valid_costE)
  obtain b where b: "normalizedNonNegativeCost r = Fin b" "0 \<le> b"
    using normalized_valid [OF assms(2)] by (metis valid_costE)
  have max: "f_le l MaxFloat64" using a by (simp add: f_le_def MaxFloat64_eq f_lt_def not_less)
  show ?thesis
  proof (cases "a + b = 0")
    case True
    then show ?thesis using a b max normalized_id [OF assms(1)]
      by (auto simp: addNonNegativeCost_def Let_def f_add_def roundf_def f_le_def f_lt_def)
  next
    case False
    then have z: "0 < a + b" using a b by simp
    have ge: "f_le (Fin a) (Fin v)" if "round_pos (a + b) = Fin v" for v
      using round_pos_ge [OF a(4,2) _ z] b(2) that
      by (auto simp: round_pos_def Let_def f_le_def f_lt_def simp del: power_numeral split: if_splits)
    have r: "roundf (a + b) = round_pos (a + b)" using z by (simp add: roundf_def)
    have nl: "normalizedNonNegativeCost l = Fin a" using normalized_id [OF assms(1)] a(1) by simp
    show ?thesis
    proof (cases "f_eq (Fin a) MaxFloat64 \<or> f_eq (Fin b) MaxFloat64 \<or> round_pos (a + b) = PInf")
      case True
      then show ?thesis using max by (auto simp: addNonNegativeCost_def Let_def nl b(1) f_add_def r)
    next
      case False
      then have "\<exists>v. round_pos (a + b) = Fin v"
        by - (rule round_pos_cases [OF z], auto)
      then obtain v where v: "round_pos (a + b) = Fin v" ..
      have "addNonNegativeCost l r = Fin v"
        unfolding addNonNegativeCost_def Let_def nl b(1) using False v by (simp add: f_add_def r)
      then show ?thesis using ge [OF v] a(1) by simp
    qed
  qed
qed

lemma f_neg_valid: "is_float (Fin r) \<Longrightarrow> is_float (Fin (- r))"
  by (simp add: is_float_def)

lemma is_float_roundf: "is_float (roundf r)"
proof (cases "0 \<le> r")
  case True
  then show ?thesis using roundf_nonneg_valid [OF True] valid_is_float by (auto simp: is_float_def)
next
  case False
  then have "roundf r = f_neg (roundf (- r))" by (simp add: roundf_def)
  moreover have "f_neg x = NInf \<or> (\<exists>v. f_neg x = Fin v \<and> valid_cost (Fin (- v)))"
    if "x = PInf \<or> valid_cost x" for x
    using that by (cases x) (auto simp: f_neg_def valid_cost_def)
  ultimately have "roundf r = NInf \<or> (\<exists>v. roundf r = Fin v \<and> valid_cost (Fin (- v)))"
    using roundf_nonneg_valid [of "- r"] False by simp
  then show ?thesis
  proof
    assume "\<exists>v. roundf r = Fin v \<and> valid_cost (Fin (- v))"
    then obtain v where v: "roundf r = Fin v" "valid_cost (Fin (- v))" by blast
    then have "\<bar>v\<bar> = - v" using valid_cost_fin [OF v(2)] by simp
    then show ?thesis using v by (simp add: is_float_def)
  qed (simp add: is_float_def)
qed

lemma is_float_f_sub: "is_float (f_sub l r)"
  by (cases l; cases r) (simp_all add: f_sub_def f_neg_def f_add_def is_float_roundf, simp_all add: is_float_def)

lemma subtractNonNegativeCost_valid: "valid_cost (subtractNonNegativeCost l r)"
  by (auto simp: subtractNonNegativeCost_def Let_def intro: normalized_valid is_float_f_sub)

lemma addCostDelta_valid: "valid_cost (addCostDelta l d)"
proof -
  have f: "is_float (f_add x y)" for x y
    using is_float_f_sub [of x "f_neg y"] by (cases y) (auto simp: f_sub_def f_neg_def)
  have "valid_cost x" if "is_float x" "x \<noteq> NaN" "\<not> f_le x (Fin 0)" "x \<noteq> PInf" for x
    using that by (cases x) (auto simp: is_float_def f_le_def f_lt_def)
  then show ?thesis using f by (auto simp: addCostDelta_def Let_def)
qed

lemma scaledTokenCost_valid: "valid_cost (scaledTokenCost tokens price)"
proof (cases "tokens \<le> 0 \<or> f_le price (Fin 0) \<or> price = NaN \<or> price = NInf \<or> price = PInf")
  case True
  then show ?thesis by (auto simp: scaledTokenCost_def)
next
  case False
  then obtain p where p: "price = Fin p" "0 < p" "0 < tokens"
    by (cases price) (auto simp: f_le_def f_lt_def)
  have nn: "roundf a = PInf \<or> (\<exists>v. roundf a = Fin v \<and> 0 \<le> v)" if "0 \<le> a" for a
    using that by (rule roundf_nonneg_cases) auto
  have "f_of_int tokens = PInf \<or> (\<exists>a. f_of_int tokens = Fin a \<and> 0 \<le> a)"
    using nn [of "of_int tokens"] p(3) by (simp add: f_of_int_def)
  then have "f_div_const (f_of_int tokens) 1000000 = PInf \<or>
      (\<exists>a. f_div_const (f_of_int tokens) 1000000 = Fin a \<and> 0 \<le> a)"
  proof
    assume "f_of_int tokens = PInf"
    then show ?thesis by (simp add: f_div_const_def f_inf_of_sign_def)
  next
    assume "\<exists>a. f_of_int tokens = Fin a \<and> 0 \<le> a"
    then obtain a where "f_of_int tokens = Fin a" "0 \<le> a" by blast
    then show ?thesis using nn [of "a / 1000000"] by (simp add: f_div_const_def)
  qed
  then have "f_mul (f_div_const (f_of_int tokens) 1000000) price = PInf \<or>
      valid_cost (f_mul (f_div_const (f_of_int tokens) 1000000) price)"
  proof
    assume "f_div_const (f_of_int tokens) 1000000 = PInf"
    then show ?thesis using p by (simp add: f_mul_def f_inf_of_sign_def)
  next
    assume "\<exists>a. f_div_const (f_of_int tokens) 1000000 = Fin a \<and> 0 \<le> a"
    then obtain a where "f_div_const (f_of_int tokens) 1000000 = Fin a" "0 \<le> a" by blast
    then show ?thesis using p roundf_nonneg_valid [of "a * p"] by (simp add: f_mul_def)
  qed
  then show ?thesis
    using False unfolding scaledTokenCost_def Let_def by auto
qed

lemma tokenCostForPrice_valid: "valid_cost (tokenCostForPrice stat price)"
  by (auto simp: tokenCostForPrice_def Let_def intro!: addNonNegativeCost_valid valid_is_float scaledTokenCost_valid)

lemma detailCostLocked_valid: "valid_cost (detailCostLocked s m d totals)"
  by (auto simp: detailCostLocked_def tokenCostForPrice_valid split: option.split)

text \<open>
  C31: The cost of a request is a finite, non-negative \<open>float64\<close> under any price table, even one
  with NaN, infinite or negative prices, and no operation on a cost aggregate leaves that range:
  not adding a cost, not taking one away, not applying a repricing delta.
\<close>
theorem costs_stay_valid:
  assumes "is_float l" "is_float r"
  shows "valid_cost (detailCostLocked s m d totals) \<and> valid_cost (addNonNegativeCost l r) \<and>
    valid_cost (subtractNonNegativeCost l r) \<and> valid_cost (addCostDelta l r)"
  using assms by (simp add: detailCostLocked_valid addNonNegativeCost_valid subtractNonNegativeCost_valid
      addCostDelta_valid)

definition sample_price :: ModelPrice where
  "sample_price = \<lparr> mp_Prompt = Fin 3, mp_Completion = Fin 15, mp_Cache = Fin 1, mp_CacheWrite = PInf,
     mp_TimeRules = [] \<rparr>"

definition sample_tables :: pricingTables where
  "sample_tables = \<lparr> pt_modelPrices = [(''m'', sample_price)], pt_modelPriceIndex = [],
     pt_modelsDevPrices = [], pt_modelsDevPriceIndex = [], pt_location = None \<rparr>"

lemma costs_stay_valid_witness:
  "valid_cost (detailCostLocked sample_tables ''m'' sample_detail (detailTotalsFromRequest sample_detail)) \<and>
   valid_cost (addNonNegativeCost NaN PInf)"
  using costs_stay_valid [of NaN PInf sample_tables "''m''" sample_detail "detailTotalsFromRequest sample_detail"]
  by (simp add: is_float_def)

text \<open>
  C32: Adding the cost of a request never lowers a cost aggregate, with the rounding of every
  addition to \<open>float64\<close> taken into account.
\<close>
theorem adding_cost_never_lowers:
  assumes "valid_cost acc"
  shows "f_le acc (addNonNegativeCost acc (detailCostLocked s m d totals))"
  using assms detailCostLocked_valid by (intro addNonNegativeCost_ge valid_is_float)

lemma adding_cost_never_lowers_witness:
  "f_le MaxFloat64 (addNonNegativeCost MaxFloat64
     (detailCostLocked sample_tables ''m'' sample_detail (detailTotalsFromRequest sample_detail)))"
  by (rule adding_cost_never_lowers [OF valid_cost_Max])

section \<open>Case-insensitive tables\<close>

text \<open>The tables' invariant: keys that differ only in case or surrounding blanks do not coexist.\<close>

definition ci_wf :: "price_table \<Rightarrow> bool" where
  "ci_wf prices \<longleftrightarrow> distinct (map (\<lambda>(m, _). normalizeModelPriceKey m) prices) \<and>
     list_all (\<lambda>(m, _). normalizeModelPriceKey m \<noteq> []) prices"

lemma normalizeModelPriceKey_trim [simp]:
  "normalizeModelPriceKey (go_TrimSpace m) = normalizeModelPriceKey m"
  by (simp add: normalizeModelPriceKey_def)

lemma normalizeModelPriceKey_idem [simp]:
  "normalizeModelPriceKey (normalizeModelPriceKey m) = normalizeModelPriceKey m"
  by (simp add: normalizeModelPriceKey_def go_TrimSpace_ToLower)

lemma normalizeModelPriceKey_Nil: "normalizeModelPriceKey m = [] \<longleftrightarrow> go_TrimSpace m = []"
  by (simp add: normalizeModelPriceKey_def)

abbreviation norm_table :: "price_table \<Rightarrow> price_table" where
  "norm_table \<equiv> map (\<lambda>(m, p). (normalizeModelPriceKey m, p))"

lemma fold_index_step:
  assumes "ci_wf prices"
  shows "go_get (fold index_step prices idx) k =
    (case go_get (norm_table prices) k of Some p \<Rightarrow> Some p | None \<Rightarrow> go_get idx k)"
  using assms
proof (induction prices arbitrary: idx)
  case Nil
  then show ?case by simp
next
  case (Cons e prices)
  obtain m p where e: "e = (m, p)" by (cases e)
  have wf: "ci_wf prices" and ne: "normalizeModelPriceKey m \<noteq> []"
    and nin: "normalizeModelPriceKey m \<notin> fst ` set (norm_table prices)"
    using Cons.prems e by (auto simp: ci_wf_def)
  have "go_get (norm_table prices) (normalizeModelPriceKey m) = None"
    using nin by (simp add: map_of_eq_None_iff)
  then show ?case
    using Cons.IH [OF wf, of "index_step e idx"] ne e
    by (auto simp: index_step_def split: option.split)
qed

lemma index_lookup:
  "ci_wf prices \<Longrightarrow> go_get (normalizedModelPriceIndex prices) k = go_get (norm_table prices) k"
  by (simp add: normalizedModelPriceIndex_def fold_index_step split: option.split)

lemma delete_ci_wf: "ci_wf prices \<Longrightarrow> ci_wf (deleteModelPriceCaseInsensitive prices m)"
  by (auto simp: ci_wf_def deleteModelPriceCaseInsensitive_def Let_def distinct_map list_all_iff
      intro: inj_on_subset)

lemma delete_lookup:
  assumes "normalizeModelPriceKey m \<noteq> []"
  shows "go_get (norm_table (deleteModelPriceCaseInsensitive prices m)) k =
    (if k = normalizeModelPriceKey m then None else go_get (norm_table prices) k)"
  using assms
  by (induction prices) (auto simp: deleteModelPriceCaseInsensitive_def Let_def)

lemma update_absent: "k \<notin> fst ` set m \<Longrightarrow> AList.update k v m = m @ [(k, v)]"
  by (induction m) auto

lemma set_as_append:
  assumes "go_TrimSpace m \<noteq> []"
  shows "setModelPriceCaseInsensitive prices m price =
    deleteModelPriceCaseInsensitive prices m @ [(go_TrimSpace m, price)]"
proof -
  have "go_TrimSpace m \<notin> fst ` set (deleteModelPriceCaseInsensitive prices m)"
    using assms by (auto simp: deleteModelPriceCaseInsensitive_def normalizeModelPriceKey_Nil)
  moreover have "deleteModelPriceCaseInsensitive prices (go_TrimSpace m) = deleteModelPriceCaseInsensitive prices m"
    by (simp add: deleteModelPriceCaseInsensitive_def)
  ultimately show ?thesis
    using assms by (simp add: setModelPriceCaseInsensitive_def Let_def update_absent)
qed

lemma set_ci_wf:
  assumes "ci_wf prices"
  shows "ci_wf (setModelPriceCaseInsensitive prices m price)"
proof (cases "go_TrimSpace m = []")
  case True
  then show ?thesis using assms by (simp add: setModelPriceCaseInsensitive_def)
next
  case False
  have "normalizeModelPriceKey m \<notin> (\<lambda>(m, _). normalizeModelPriceKey m) ` set (deleteModelPriceCaseInsensitive prices m)"
    using False by (auto simp: deleteModelPriceCaseInsensitive_def normalizeModelPriceKey_Nil)
  then show ?thesis
    using delete_ci_wf [OF assms, of m] False
    by (auto simp: set_as_append ci_wf_def normalizeModelPriceKey_Nil)
qed

lemma set_lookup:
  assumes "go_TrimSpace m \<noteq> []"
  shows "go_get (norm_table (setModelPriceCaseInsensitive prices m price)) k =
    (if k = normalizeModelPriceKey m then Some price else go_get (norm_table prices) k)"
proof -
  have n: "normalizeModelPriceKey m \<noteq> []" using assms by (simp add: normalizeModelPriceKey_Nil)
  show ?thesis
    using delete_lookup [OF n, of prices k]
    by (simp add: set_as_append [OF assms] map_add_def split: option.split)
qed

text \<open>
  C33: The price table is a map on names up to case and surrounding blanks.  Saving a price under
  a non-blank name replaces every spelling of it and no other entry, deleting removes every
  spelling and no other entry, and both keep the invariant that no two spellings coexist.
\<close>
theorem price_table_case_insensitive:
  assumes "ci_wf prices" "go_TrimSpace m \<noteq> []"
  shows "go_get (normalizedModelPriceIndex (setModelPriceCaseInsensitive prices m price)) (normalizeModelPriceKey q) =
      (if normalizeModelPriceKey q = normalizeModelPriceKey m then Some price
       else go_get (normalizedModelPriceIndex prices) (normalizeModelPriceKey q)) \<and>
    go_get (normalizedModelPriceIndex (deleteModelPriceCaseInsensitive prices m)) (normalizeModelPriceKey q) =
      (if normalizeModelPriceKey q = normalizeModelPriceKey m then None
       else go_get (normalizedModelPriceIndex prices) (normalizeModelPriceKey q)) \<and>
    ci_wf (setModelPriceCaseInsensitive prices m price) \<and>
    ci_wf (deleteModelPriceCaseInsensitive prices m)"
proof -
  have n: "normalizeModelPriceKey m \<noteq> []" using assms(2) by (simp add: normalizeModelPriceKey_Nil)
  note wf = assms(1) set_ci_wf [OF assms(1)] delete_ci_wf [OF assms(1)]
  show ?thesis
    using delete_lookup [OF n, of prices] set_lookup [OF assms(2), of prices] wf
    by (simp add: index_lookup)
qed

lemma price_table_case_insensitive_witness:
  "go_get (normalizedModelPriceIndex
     (setModelPriceCaseInsensitive [(''GPT'', sample_price)] '' gpt'' (sample_price\<lparr> mp_Cache := Fin 0 \<rparr>)))
     (normalizeModelPriceKey ''Gpt'') = Some (sample_price\<lparr> mp_Cache := Fin 0 \<rparr>)"
proof -
  have c: "ci_wf [(''GPT'', sample_price)]" "go_TrimSpace '' gpt'' \<noteq> []"
    "normalizeModelPriceKey ''Gpt'' = normalizeModelPriceKey '' gpt''"
    by code_simp+
  show ?thesis
    using price_table_case_insensitive [OF c(1,2), of "sample_price\<lparr> mp_Cache := Fin 0 \<rparr>" "''Gpt''"] c(3)
    by simp
qed

section \<open>Frozen prices\<close>

lemma priceForDetailFromIndex_copy:
  "priceForDetailFromIndex (copyModelPrices newID t) m p = None \<longleftrightarrow> priceForDetailFromIndex t m p = None"
  "priceForDetailFromIndex t m p = Some price \<Longrightarrow>
     \<exists>g. priceForDetailFromIndex (copyModelPrices newID t) m p = Some (normalizeModelPriceRules g price)"
proof -
  have get: "go_get (copyModelPrices newID t) k =
      map_option (normalizeModelPriceRules (newID k)) (go_get t k)" for k
    by (induction t) (auto simp: copyModelPrices_def)
  have nil: "copyModelPrices newID t = [] \<longleftrightarrow> t = []" by (simp add: copyModelPrices_def)
  show "priceForDetailFromIndex (copyModelPrices newID t) m p = None \<longleftrightarrow> priceForDetailFromIndex t m p = None"
    by (simp add: priceForDetailFromIndex_def Let_def get nil split: option.split)
  show "priceForDetailFromIndex t m p = Some price \<Longrightarrow>
     \<exists>g. priceForDetailFromIndex (copyModelPrices newID t) m p = Some (normalizeModelPriceRules g price)"
    by (auto simp: priceForDetailFromIndex_def Let_def get nil split: option.splits if_splits)
qed

lemma tokenCostForPrice_cong:
  "mp_Prompt p = mp_Prompt q \<Longrightarrow> mp_Completion p = mp_Completion q \<Longrightarrow> mp_Cache p = mp_Cache q \<Longrightarrow>
   mp_CacheWrite p = mp_CacheWrite q \<Longrightarrow> tokenCostForPrice stat p = tokenCostForPrice stat q"
  by (simp add: tokenCostForPrice_def)

lemma normalized_rules_price [simp]:
  "mp_Prompt (normalizeModelPriceRules g p) = mp_Prompt p"
  "mp_Completion (normalizeModelPriceRules g p) = mp_Completion p"
  "mp_Cache (normalizeModelPriceRules g p) = mp_Cache p"
  "mp_CacheWrite (normalizeModelPriceRules g p) = mp_CacheWrite p"
  by (simp_all add: normalizeModelPriceRules_def)

lemma effectivePrice_UTC: "effectivePrice p t (Some (\<lambda>_. 0)) = effectivePrice p t None"
  by (simp add: effectivePrice_def time_In_def time_UTC_def)

lemma effectiveDetailPrice_normalized:
  "tokenCostForPrice stat (effectiveDetailPrice (normalizeModelPriceRules g p) d loc) =
   tokenCostForPrice stat (effectiveDetailPrice p d loc)"
  by (rule tokenCostForPrice_cong)
    (simp_all add: effectiveDetailPrice_def effectivePrice_normalized)

lemma priceForDetailFromIndex_trim [simp]:
  "priceForDetailFromIndex t (go_TrimSpace m) (go_TrimSpace p) = priceForDetailFromIndex t m p"
  by (simp add: priceForDetailFromIndex_def)

text \<open>
  C34: The prices frozen at the start of a background export price every detail exactly as the
  live tables did at that moment: the deep copy, its new rule IDs and the explicit UTC location
  make no difference to any cost.
\<close>
theorem snapshot_prices_as_live:
  "snapshotDetailCost (pricingSnapshotLocked newID s) m d totals = detailCostLocked s m d totals"
proof -
  let ?s = "refreshPriceIndexes s" and ?model = "detailModel m d" and ?p = "rd_Provider d"
  let ?find = "\<lambda>a b. (case priceForDetailFromIndex a ?model ?p of Some price \<Rightarrow> Some price
      | None \<Rightarrow> priceForDetailFromIndex b ?model ?p)"
  let ?live = "?find (pt_modelPriceIndex ?s) (pt_modelsDevPriceIndex ?s)"
  let ?frozen = "?find (copyModelPrices newID (pt_modelPriceIndex ?s)) (copyModelPrices newID (pt_modelsDevPriceIndex ?s))"
  have loc: "pt_location ?s = pt_location s" by (simp add: refreshPriceIndexes_def Let_def)
  have eff: "effectiveDetailPrice p d (Some (case pt_location s of None \<Rightarrow> (\<lambda>_. 0) | Some l \<Rightarrow> l)) =
      effectiveDetailPrice p d (pt_location s)" for p
    by (simp add: effectiveDetailPrice_def effectivePrice_UTC split: option.split)
  have live: "basePriceForDetailLocked s m d = ?live"
    by (simp add: basePriceForDetailLocked_def priceForDetailLocked_def Let_def cong: option.case_cong)
  show ?thesis
  proof (cases ?live)
    case None
    then have "?frozen = None"
      using priceForDetailFromIndex_copy(1) by (auto split: option.splits)
    then show ?thesis
      using None live by (simp add: snapshotDetailCost_def pricingSnapshotLocked_def detailCostLocked_def Let_def cong: option.case_cong)
  next
    case (Some price)
    have "\<exists>g. ?frozen = Some (normalizeModelPriceRules g price)"
    proof (cases "priceForDetailFromIndex (pt_modelPriceIndex ?s) ?model ?p")
      case None
      then have "priceForDetailFromIndex (pt_modelsDevPriceIndex ?s) ?model ?p = Some price"
        using Some by simp
      from priceForDetailFromIndex_copy(2) [OF this, of newID] show ?thesis
        using None priceForDetailFromIndex_copy(1) [of newID "pt_modelPriceIndex ?s" ?model ?p] by auto
    next
      case (Some price')
      then have "price' = price" using \<open>?live = Some price\<close> by simp
      then show ?thesis
        using priceForDetailFromIndex_copy(2) [OF Some, of newID] by auto
    qed
    then obtain g where "?frozen = Some (normalizeModelPriceRules g price)" ..
    then show ?thesis
      using Some live
      by (simp add: snapshotDetailCost_def pricingSnapshotLocked_def detailCostLocked_def Let_def loc
          eff effectiveDetailPrice_normalized cong: option.case_cong)
  qed
qed

end
