(* ===== verification/Accounting.thy ===== *)
theory Accounting
  imports Costs
begin

text \<open>
  The retained details of a model (\<open>go/accounting.go\<close>): the visible window \<open>Details\<close>, ordered by
  timestamp, and behind it the archived accounting records that keep only the fields statistics,
  pricing, identity and expiry need.  The archive is a list here; theory \<open>AccountingBlocks\<close> shows
  that the block structure of the source implements this list.  Slice capacities, the range
  caches and the pointers into the event index are not part of this state.
\<close>

section \<open>Archived records\<close>

record accountingIdentity =
  ai_Model :: string
  ai_Provider :: string
  ai_Source :: string
  ai_AuthIndex :: string
  ai_AuthID :: string
  ai_AuthType :: string
  ai_APIKey :: string
  ai_APIKeyHash :: string
  ai_BaseURL :: string
  ai_RequestedModel :: string
  ai_ExecutorType :: string
  ai_Endpoint :: string

record accountingRecord =
  ar_RecordID :: string
  ar_Correlation :: "ProtocolCorrelationMeta option"
  ar_Timestamp :: gotime
  ar_Identity :: accountingIdentity
  ar_Tokens :: TokenStats
  ar_LatencyMs :: int
  ar_TTFTMs :: int
  ar_Failure :: string
  ar_StatusCode :: int
  ar_Failed :: bool
  ar_Synthetic :: bool

definition identity_of_detail :: "RequestDetail \<Rightarrow> accountingIdentity" where
  "identity_of_detail d = \<lparr> ai_Model = rd_Model d, ai_Provider = rd_Provider d, ai_Source = rd_Source d,
     ai_AuthIndex = rd_AuthIndex d, ai_AuthID = rd_AuthID d, ai_AuthType = rd_AuthType d,
     ai_APIKey = rd_APIKey d, ai_APIKeyHash = rd_APIKeyHash d, ai_BaseURL = rd_BaseURL d,
     ai_RequestedModel = rd_RequestedModel d, ai_ExecutorType = rd_ExecutorType d,
     ai_Endpoint = rd_Endpoint d \<rparr>"

text \<open>The method \<open>accountingRecord\<close>, with the interned identity as its value.\<close>

definition accountingRecord_of :: "RequestDetail \<Rightarrow> accountingRecord" where
  "accountingRecord_of d = \<lparr> ar_RecordID = rd_RecordID d, ar_Correlation = rd_Correlation d,
     ar_Timestamp = rd_Timestamp d, ar_Identity = identity_of_detail d, ar_Tokens = rd_Tokens d,
     ar_LatencyMs = rd_LatencyMs d, ar_TTFTMs = rd_TTFTMs d, ar_Failure = rd_Failure d,
     ar_StatusCode = rd_StatusCode d, ar_Failed = rd_Failed d,
     ar_Synthetic = rd_TimestampSynthetic d \<rparr>"

definition zeroThinking :: UsageThinking where
  "zeroThinking = \<lparr> th_Intensity = [], th_Mode = [], th_Level = [], th_Budget = 0 \<rparr>"

definition detail_of :: "accountingRecord \<Rightarrow> RequestDetail" where
  "detail_of r = (let i = ar_Identity r in
     \<lparr> rd_RecordID = ar_RecordID r, rd_eventSequence = 0, rd_UpstreamAPI = [],
       rd_Model = ai_Model i, rd_RequestedModel = ai_RequestedModel i,
       rd_Timestamp = ar_Timestamp r, rd_LatencyMs = ar_LatencyMs r, rd_TTFTMs = ar_TTFTMs r,
       rd_APIKey = ai_APIKey i, rd_APIKeyHash = ai_APIKeyHash i, rd_Source = ai_Source i,
       rd_Provider = ai_Provider i, rd_ExecutorType = ai_ExecutorType i,
       rd_Correlation = ar_Correlation r, rd_AuthID = ai_AuthID i, rd_AuthIndex = ai_AuthIndex i,
       rd_AuthType = ai_AuthType i, rd_Endpoint = ai_Endpoint i, rd_BaseURL = ai_BaseURL i,
       rd_Stream = False, rd_Thinking = zeroThinking, rd_ServiceTier = [],
       rd_Tokens = ar_Tokens r, rd_Failed = ar_Failed r, rd_StatusCode = ar_StatusCode r,
       rd_Failure = ar_Failure r, rd_Headers = [],
       rd_TimestampSynthetic = ar_Synthetic r, rd_CostUSD = None \<rparr>)"

text \<open>What archiving a detail and reading it back leaves of it.\<close>

definition archived :: "RequestDetail \<Rightarrow> RequestDetail" where
  "archived d = detail_of (accountingRecord_of d)"

lemma archived_fields [simp]:
  "rd_RecordID (archived d) = rd_RecordID d" "rd_Model (archived d) = rd_Model d"
  "rd_RequestedModel (archived d) = rd_RequestedModel d"
  "rd_Timestamp (archived d) = rd_Timestamp d" "rd_LatencyMs (archived d) = rd_LatencyMs d"
  "rd_TTFTMs (archived d) = rd_TTFTMs d" "rd_APIKey (archived d) = rd_APIKey d"
  "rd_APIKeyHash (archived d) = rd_APIKeyHash d" "rd_Source (archived d) = rd_Source d"
  "rd_Provider (archived d) = rd_Provider d" "rd_ExecutorType (archived d) = rd_ExecutorType d"
  "rd_Correlation (archived d) = rd_Correlation d" "rd_AuthID (archived d) = rd_AuthID d"
  "rd_AuthIndex (archived d) = rd_AuthIndex d" "rd_AuthType (archived d) = rd_AuthType d"
  "rd_Endpoint (archived d) = rd_Endpoint d" "rd_BaseURL (archived d) = rd_BaseURL d"
  "rd_Tokens (archived d) = rd_Tokens d" "rd_Failed (archived d) = rd_Failed d"
  "rd_StatusCode (archived d) = rd_StatusCode d" "rd_Failure (archived d) = rd_Failure d"
  "rd_TimestampSynthetic (archived d) = rd_TimestampSynthetic d"
  by (simp_all add: archived_def detail_of_def accountingRecord_of_def identity_of_detail_def Let_def)

lemma totals_archived [simp]: "detailTotalsFromRequest (archived d) = detailTotalsFromRequest d"
  by (simp add: detailTotalsFromRequest_def detailTotalTokensForRequest_def Let_def)

lemma cost_archived [simp]: "detailCostLocked s m (archived d) = detailCostLocked s m d"
  by (simp add: fun_eq_iff detailCostLocked_def basePriceForDetailLocked_def detailModel_def
      detailTimeSeriesTokenStat_def effectiveDetailPrice_def split: option.split)

lemma keys_archived [simp]:
  "summarySourceKey (archived d) = summarySourceKey d"
  "summaryCredentialKey (archived d) = summaryCredentialKey d"
  "clientAPIGroupKey (archived d) = clientAPIGroupKey d"
  "clientAPIGroupLabel (archived d) = clientAPIGroupLabel d"
  "detailModel m (archived d) = detailModel m d"
  "dedupKey a m (archived d) = dedupKey a m d"
  by (simp_all add: summarySourceKey_def summaryCredentialKey_def clientAPIGroupKey_def
      clientAPIGroupLabel_def detailModel_def dedupKey_def Let_def)

lemma accountingRecord_of_detail_of [simp]: "accountingRecord_of (detail_of r) = r"
  by (simp add: accountingRecord_of_def detail_of_def identity_of_detail_def Let_def)

text \<open>
  C35: Moving a detail out of the visible window into the archive loses nothing that is counted.  Read
  back, it is the same detail except for the seven fields that only the list of events shows: the
  internal sequence number, the upstream name, stream, thinking, service tier, headers and the cost
  of an answered query.  So its time with its zone (which decides its day and hour), its totals, its
  cost under every price table, its model, source, credential and client groups and its dedup identity
  are unchanged, the tests for fallback, native and polluted details decide the same way, and
  archiving again is exact.
\<close>
theorem archive_keeps_accounting:
  "archived d = d\<lparr> rd_eventSequence := 0, rd_UpstreamAPI := [], rd_Stream := False, rd_Thinking := zeroThinking,
     rd_ServiceTier := [], rd_Headers := [], rd_CostUSD := None \<rparr> \<and>
   detailTotalsFromRequest (archived d) = detailTotalsFromRequest d \<and>
   detailCostLocked s m (archived d) = detailCostLocked s m d \<and>
   dedupKey a m (archived d) = dedupKey a m d \<and>
   detailModel m (archived d) = detailModel m d \<and>
   summarySourceKey (archived d) = summarySourceKey d \<and>
   summaryCredentialKey (archived d) = summaryCredentialKey d \<and>
   clientAPIGroupKey (archived d) = clientAPIGroupKey d \<and>
   clientAPIIdentity (archived d) = clientAPIIdentity d \<and>
   isAnonymousProtocolFallbackDetail (archived d) = isAnonymousProtocolFallbackDetail d \<and>
   isPollutedClaudeCacheFallbackDetail (archived d) = isPollutedClaudeCacheFallbackDetail d \<and>
   isNativeProtocolCorrelationDetail (archived d) = isNativeProtocolCorrelationDetail d \<and>
   accountingRecord_of (archived d) = accountingRecord_of d"
proof -
  let ?a = "archived d"
  have e: "?a = d\<lparr> rd_eventSequence := 0, rd_UpstreamAPI := [], rd_Stream := False, rd_Thinking := zeroThinking,
     rd_ServiceTier := [], rd_Headers := [], rd_CostUSD := None \<rparr>"
    by (simp add: archived_def detail_of_def accountingRecord_of_def identity_of_detail_def)
  have "accountingRecord_of ?a = accountingRecord_of d" by (simp add: archived_def)
  moreover have "detailCostLocked s m ?a = detailCostLocked s m d"
    by (rule cost_archived)
  moreover have "dedupKey a m ?a = dedupKey a m d" "detailModel m ?a = detailModel m d"
      "summarySourceKey ?a = summarySourceKey d" "summaryCredentialKey ?a = summaryCredentialKey d"
      "clientAPIGroupKey ?a = clientAPIGroupKey d"
    by (rule keys_archived)+
  moreover have "detailTotalsFromRequest ?a = detailTotalsFromRequest d" by (rule totals_archived)
  moreover have "clientAPIIdentity ?a = clientAPIIdentity d"
    unfolding e by (simp add: clientAPIIdentity_def Let_def)
  moreover have "isAnonymousProtocolFallbackDetail ?a = isAnonymousProtocolFallbackDetail d"
      "isPollutedClaudeCacheFallbackDetail ?a = isPollutedClaudeCacheFallbackDetail d"
      "isNativeProtocolCorrelationDetail ?a = isNativeProtocolCorrelationDetail d"
    unfolding e by (simp_all add: isAnonymousProtocolFallbackDetail_def isPollutedClaudeCacheFallbackDetail_def
        isNativeProtocolCorrelationDetail_def Let_def)
  ultimately show ?thesis using e by blast
qed

section \<open>A model's retained details\<close>

record modelStats =
  mo_nextEventSequence :: int
  mo_accounting :: "accountingRecord list"
  mo_tally :: tally
  mo_estimatedCost :: float64
  mo_latencySum :: int
  mo_latencyN :: int
  mo_Details :: "RequestDetail list"
  mo_providerStats :: "(string, ModelProviderStat) gomap"

definition accountingCount :: "modelStats \<Rightarrow> nat" where
  "accountingCount m = length (mo_Details m) + length (mo_accounting m)"

definition accountingDetailAt :: "modelStats \<Rightarrow> nat \<Rightarrow> RequestDetail" where
  "accountingDetailAt m i =
     (if i < length (mo_Details m) then mo_Details m ! i
      else detail_of (mo_accounting m ! (i - length (mo_Details m))))"

text \<open>All retained details, in the order of \<open>accountingDetailAt\<close>.\<close>

definition accountingDetails :: "modelStats \<Rightarrow> RequestDetail list" where
  "accountingDetails m = mo_Details m @ map detail_of (mo_accounting m)"

lemma accountingDetails_nth:
  "i < accountingCount m \<Longrightarrow> accountingDetails m ! i = accountingDetailAt m i"
  by (auto simp: accountingDetails_def accountingDetailAt_def accountingCount_def nth_append)

lemma length_accountingDetails [simp]: "length (accountingDetails m) = accountingCount m"
  by (simp add: accountingDetails_def accountingCount_def)

definition archiveDetail :: "RequestDetail \<Rightarrow> modelStats \<Rightarrow> modelStats" where
  "archiveDetail d m = m\<lparr> mo_accounting := mo_accounting m @ [accountingRecord_of d] \<rparr>"

definition setAccountingDetailAt :: "nat \<Rightarrow> RequestDetail \<Rightarrow> modelStats \<Rightarrow> modelStats" where
  "setAccountingDetailAt i d m =
     (if i < length (mo_Details m)
      then m\<lparr> mo_Details := (mo_Details m)
               [i := d\<lparr> rd_eventSequence := rd_eventSequence (mo_Details m ! i) \<rparr>] \<rparr>
      else m\<lparr> mo_accounting := (mo_accounting m)[i - length (mo_Details m) := accountingRecord_of d] \<rparr>)"

definition remove_nth :: "nat \<Rightarrow> 'a list \<Rightarrow> 'a list" where
  "remove_nth i xs = take i xs @ drop (Suc i) xs"

definition removeAccountingDetailAt :: "nat \<Rightarrow> modelStats \<Rightarrow> modelStats" where
  "removeAccountingDetailAt i m =
     (if i < length (mo_Details m) then m\<lparr> mo_Details := remove_nth i (mo_Details m) \<rparr>
      else m\<lparr> mo_accounting := remove_nth (i - length (mo_Details m)) (mo_accounting m) \<rparr>)"

definition initializeEventSequences :: "modelStats \<Rightarrow> modelStats" where
  "initializeEventSequences m =
     (if mo_nextEventSequence m \<noteq> 0 then m
      else m\<lparr> mo_Details := map (\<lambda>(i, d). d\<lparr> rd_eventSequence := int (i + 1) \<rparr>)
                 (zip [0..<length (mo_Details m)] (mo_Details m)),
              mo_nextEventSequence := int (length (mo_Details m)) \<rparr>)"

text \<open>\<open>sort.Search\<close>: the binary search for the first index in \<open>[i, j)\<close> where \<open>f\<close> holds.\<close>

function go_search :: "(nat \<Rightarrow> bool) \<Rightarrow> nat \<Rightarrow> nat \<Rightarrow> nat" where
  "go_search f i j =
     (if i < j then let h = (i + j) div 2 in if \<not> f h then go_search f (h + 1) j else go_search f i h
      else i)"
  by pat_completeness auto
termination
  by (relation "measure (\<lambda>(f, i, j). j - i)") auto

declare go_search.simps [simp del]

definition appendDetail :: "RequestDetail \<Rightarrow> bool \<Rightarrow> modelStats \<Rightarrow> modelStats" where
  "appendDetail d arch m =
     (if arch then archiveDetail d m
      else let m = initializeEventSequences m;
               sq = mo_nextEventSequence m + 1;
               d = d\<lparr> rd_eventSequence := sq \<rparr>;
               ds = mo_Details m;
               n = length ds;
               pos = (if 0 < n \<and> time_After (rd_Timestamp (ds ! (n - 1))) (rd_Timestamp d)
                      then go_search (\<lambda>i. time_After (rd_Timestamp (ds ! i)) (rd_Timestamp d)) 0 n
                      else n)
           in m\<lparr> mo_nextEventSequence := sq, mo_Details := take pos ds @ [d] @ drop pos ds \<rparr>)"

text \<open>\<open>trimModelDetailsLocked\<close>, returning the number of details moved into the archive.\<close>

definition trimModelDetailsLocked :: "int \<Rightarrow> modelStats \<Rightarrow> modelStats \<times> nat" where
  "trimModelDetailsLocked maxDetails m =
     (if maxDetails < 0 \<or> int (length (mo_Details m)) \<le> maxDetails then (m, 0)
      else let removed = length (mo_Details m) - nat maxDetails;
               m = fold archiveDetail (take removed (mo_Details m)) m
           in (m\<lparr> mo_Details := drop removed (mo_Details m) \<rparr>, removed))"

section \<open>Nothing retained is lost\<close>

text \<open>
  The details a model accounts for, as a multiset, each in the form the archive keeps: the
  counters depend on no other field.
\<close>

definition retained :: "modelStats \<Rightarrow> RequestDetail multiset" where
  "retained m = image_mset archived (mset (accountingDetails m))"

lemma archived_seq [simp]: "archived (d\<lparr> rd_eventSequence := n \<rparr>) = archived d"
  by (simp add: archived_def accountingRecord_of_def identity_of_detail_def)

lemma archived_detail_of [simp]: "archived (detail_of r) = detail_of r"
  by (simp add: archived_def)

lemma archived_idem [simp]: "archived (archived d) = archived d"
  by (simp add: archived_def)

lemma archiveDetail_fields [simp]:
  "mo_Details (archiveDetail d m) = mo_Details m"
  "mo_accounting (archiveDetail d m) = mo_accounting m @ [accountingRecord_of d]"
  "mo_tally (archiveDetail d m) = mo_tally m" "mo_estimatedCost (archiveDetail d m) = mo_estimatedCost m"
  "mo_latencySum (archiveDetail d m) = mo_latencySum m" "mo_latencyN (archiveDetail d m) = mo_latencyN m"
  "mo_providerStats (archiveDetail d m) = mo_providerStats m"
  "mo_nextEventSequence (archiveDetail d m) = mo_nextEventSequence m"
  by (simp_all add: archiveDetail_def)

lemma retained_alt: "retained m = image_mset archived (mset (mo_Details m)) + mset (map detail_of (mo_accounting m))"
  by (simp add: retained_def accountingDetails_def multiset.map_comp comp_def flip: mset_map)

lemma detail_of_accountingRecord_of: "detail_of (accountingRecord_of d) = archived d"
  by (simp add: archived_def)

lemma retained_archiveDetail [simp]: "retained (archiveDetail d m) = add_mset (archived d) (retained m)"
  by (simp add: retained_alt detail_of_accountingRecord_of)

lemma map_archived_sequences:
  "map archived (map (\<lambda>(i, d). d\<lparr> rd_eventSequence := g i \<rparr>) (zip is ds)) = map archived ds"
  if "length is = length ds"
  using that by (induction "is" ds rule: list_induct2) auto

lemma initialize_fields [simp]:
  "mo_accounting (initializeEventSequences m) = mo_accounting m"
  "mo_tally (initializeEventSequences m) = mo_tally m"
  "mo_estimatedCost (initializeEventSequences m) = mo_estimatedCost m"
  "mo_latencySum (initializeEventSequences m) = mo_latencySum m"
  "mo_latencyN (initializeEventSequences m) = mo_latencyN m"
  "mo_providerStats (initializeEventSequences m) = mo_providerStats m"
  "map archived (mo_Details (initializeEventSequences m)) = map archived (mo_Details m)"
  "length (mo_Details (initializeEventSequences m)) = length (mo_Details m)"
  using map_archived_sequences [of "[0..<length (mo_Details m)]" "mo_Details m" "\<lambda>i. int (i + 1)"]
  by (simp_all add: initializeEventSequences_def)

lemma retained_initialize [simp]: "retained (initializeEventSequences m) = retained m"
  by (simp add: retained_alt flip: mset_map)

lemma mset_insert_at: "mset (take n xs @ [x] @ drop n xs) = add_mset x (mset xs)"
  by (metis (no_types, lifting) add_mset_add_single append_take_drop_id mset.simps(2) mset_append
      union_mset_add_mset_left union_mset_add_mset_right append_Cons append_Nil)

lemma image_take_drop:
  "image_mset f (mset (take n xs)) + image_mset f (mset (drop n xs)) = image_mset f (mset xs)"
  by (metis append_take_drop_id image_mset_union mset_append)

lemma retained_appendDetail [simp]:
  "retained (appendDetail d arch m) = add_mset (archived d) (retained m)"
proof (cases arch)
  case True
  then show ?thesis by (simp add: appendDetail_def)
next
  case False
  let ?m = "initializeEventSequences m"
  obtain pos sq where "appendDetail d arch m = ?m\<lparr> mo_nextEventSequence := sq,
      mo_Details := take pos (mo_Details ?m) @ [d\<lparr> rd_eventSequence := sq \<rparr>] @ drop pos (mo_Details ?m) \<rparr>"
    using False by (simp add: appendDetail_def Let_def)
  then have "retained (appendDetail d arch m) = add_mset (archived d) (retained ?m)"
    by (simp add: retained_alt image_take_drop)
  then show ?thesis by simp
qed

lemma fold_archiveDetail:
  "mo_Details (fold archiveDetail ds m) = mo_Details m \<and>
   mo_accounting (fold archiveDetail ds m) = mo_accounting m @ map accountingRecord_of ds \<and>
   mo_tally (fold archiveDetail ds m) = mo_tally m \<and>
   mo_estimatedCost (fold archiveDetail ds m) = mo_estimatedCost m \<and>
   mo_latencySum (fold archiveDetail ds m) = mo_latencySum m \<and>
   mo_latencyN (fold archiveDetail ds m) = mo_latencyN m \<and>
   mo_providerStats (fold archiveDetail ds m) = mo_providerStats m"
  by (induction ds arbitrary: m) simp_all

lemma trim_result:
  assumes "trimModelDetailsLocked k m = (m', n)"
  shows "mo_Details m' = drop n (mo_Details m)"
    "mo_accounting m' = mo_accounting m @ map accountingRecord_of (take n (mo_Details m))"
    "mo_tally m' = mo_tally m" "mo_estimatedCost m' = mo_estimatedCost m"
    "mo_latencySum m' = mo_latencySum m" "mo_latencyN m' = mo_latencyN m"
    "mo_providerStats m' = mo_providerStats m"
  using assms fold_archiveDetail [of "take n (mo_Details m)" m]
  by (auto simp: trimModelDetailsLocked_def Let_def split: if_splits)

lemma retained_trim:
  assumes "trimModelDetailsLocked k m = (m', n)"
  shows "retained m' = retained m"
proof -
  have "mset (mo_Details m) = mset (take n (mo_Details m)) + mset (drop n (mo_Details m))"
    by (metis append_take_drop_id mset_append)
  moreover have "map detail_of (map accountingRecord_of ds) = map archived ds" for ds
    by (simp add: detail_of_accountingRecord_of)
  ultimately show ?thesis
    by (simp add: retained_alt trim_result [OF assms] comp_def detail_of_accountingRecord_of)
qed

section \<open>The visible window stays sorted\<close>

definition sorted_window :: "RequestDetail list \<Rightarrow> bool" where
  "sorted_window ds \<longleftrightarrow> sorted (map (\<lambda>d. t_ns (rd_Timestamp d)) ds)"

lemma go_search_spec:
  assumes "\<And>a b. i \<le> a \<Longrightarrow> a \<le> b \<Longrightarrow> b < j \<Longrightarrow> f a \<Longrightarrow> f b" "i \<le> j"
  shows "i \<le> go_search f i j \<and> go_search f i j \<le> j \<and>
    (\<forall>a. i \<le> a \<and> a < go_search f i j \<longrightarrow> \<not> f a) \<and> (\<forall>a. go_search f i j \<le> a \<and> a < j \<longrightarrow> f a)"
  using assms
proof (induction f i j rule: go_search.induct)
  case (1 f i j)
  show ?case
  proof (cases "i < j")
    case False
    then have "go_search f i j = i" by (subst go_search.simps) simp
    then show ?thesis using "1.prems" False by auto
  next
    case True
    define h where "h = (i + j) div 2"
    have h: "i \<le> h" "h < j" using True by (auto simp: h_def)
    show ?thesis
    proof (cases "f h")
      case True
      then have r: "go_search f i j = go_search f i h"
        using \<open>i < j\<close> by (subst go_search.simps) (simp add: h_def Let_def)
      have ih: "i \<le> go_search f i h \<and> go_search f i h \<le> h \<and>
          (\<forall>a. i \<le> a \<and> a < go_search f i h \<longrightarrow> \<not> f a) \<and> (\<forall>a. go_search f i h \<le> a \<and> a < h \<longrightarrow> f a)"
      proof (rule "1.IH"(2) [OF \<open>i < j\<close> h_def])
        show "\<not> \<not> f h" using True by simp
        show "f b" if "i \<le> a" "a \<le> b" "b < h" "f a" for a b
          using "1.prems"(1) [OF that(1,2) _ that(4)] that(3) h(2) by simp
      qed (rule h(1))
      moreover have "f a" if "h \<le> a" "a < j" for a
        using "1.prems"(1) [OF h(1) that True] .
      ultimately show ?thesis unfolding r using h by (auto simp: not_less [symmetric])
    next
      case False
      then have r: "go_search f i j = go_search f (h + 1) j"
        using \<open>i < j\<close> by (subst go_search.simps) (simp add: h_def Let_def)
      have ih: "h + 1 \<le> go_search f (h + 1) j \<and> go_search f (h + 1) j \<le> j \<and>
          (\<forall>a. h + 1 \<le> a \<and> a < go_search f (h + 1) j \<longrightarrow> \<not> f a) \<and>
          (\<forall>a. go_search f (h + 1) j \<le> a \<and> a < j \<longrightarrow> f a)"
      proof (rule "1.IH"(1) [OF \<open>i < j\<close> h_def False])
        show "f b" if "h + 1 \<le> a" "a \<le> b" "b < j" "f a" for a b
          using "1.prems"(1) [OF _ that(2-4)] that(1) h(1) by simp
      qed (use h in simp)
      have low: "\<not> f a" if "i \<le> a" "a \<le> h" for a
        using that False h "1.prems"(1) by blast
      have "\<not> f a" if "i \<le> a" "a < go_search f (h + 1) j" for a
        using low [OF that(1)] ih that by (cases "a \<le> h") auto
      then show ?thesis unfolding r using h ih by auto
    qed
  qed
qed

lemma sorted_window_nth:
  "sorted_window ds \<Longrightarrow> i \<le> j \<Longrightarrow> j < length ds \<Longrightarrow>
   t_ns (rd_Timestamp (ds ! i)) \<le> t_ns (rd_Timestamp (ds ! j))"
  by (simp add: sorted_window_def sorted_iff_nth_mono)

lemma sorted_window_initialize [simp]:
  "sorted_window (mo_Details (initializeEventSequences m)) = sorted_window (mo_Details m)"
proof -
  have "map (\<lambda>d. t_ns (rd_Timestamp d)) ds = map (\<lambda>d. t_ns (rd_Timestamp d)) (map archived ds)" for ds
    by simp
  then show ?thesis unfolding sorted_window_def by (metis initialize_fields(7))
qed

text \<open>Where \<open>appendDetail\<close> puts the new detail: before exactly the details that are later.\<close>

definition insert_pos :: "gotime \<Rightarrow> RequestDetail list \<Rightarrow> nat" where
  "insert_pos t ds =
     (if ds \<noteq> [] \<and> time_After (rd_Timestamp (last ds)) t
      then go_search (\<lambda>i. time_After (rd_Timestamp (ds ! i)) t) 0 (length ds) else length ds)"

lemma insert_pos_spec:
  assumes "sorted_window ds"
  shows "insert_pos t ds \<le> length ds"
    and "\<And>i. i < insert_pos t ds \<Longrightarrow> \<not> time_After (rd_Timestamp (ds ! i)) t"
    and "\<And>i. insert_pos t ds \<le> i \<Longrightarrow> i < length ds \<Longrightarrow> time_After (rd_Timestamp (ds ! i)) t"
proof -
  let ?f = "\<lambda>i. time_After (rd_Timestamp (ds ! i)) t"
  have mono: "?f b" if "0 \<le> a" "a \<le> b" "b < length ds" "?f a" for a b
    using that sorted_window_nth [OF assms, of a b] by (simp add: time_After_def)
  define r where "r = go_search ?f 0 (length ds)"
  have s: "r \<le> length ds" "\<And>a. a < r \<Longrightarrow> \<not> ?f a" "\<And>a. r \<le> a \<Longrightarrow> a < length ds \<Longrightarrow> ?f a"
    using go_search_spec [of 0 "length ds" ?f] mono unfolding r_def by blast+
  have c: "\<not> ?f i" if "\<not> (ds \<noteq> [] \<and> time_After (rd_Timestamp (last ds)) t)" "i < length ds" for i
  proof -
    have "ds \<noteq> []" "i \<le> length ds - 1" "length ds - 1 < length ds" using that(2) by auto
    then show ?thesis
      using that sorted_window_nth [OF assms, of i "length ds - 1"]
      by (simp add: time_After_def last_conv_nth)
  qed
  have p: "insert_pos t ds = (if ds \<noteq> [] \<and> time_After (rd_Timestamp (last ds)) t then r else length ds)"
    unfolding insert_pos_def r_def ..
  show "insert_pos t ds \<le> length ds" using s(1) unfolding p by simp
  show "\<not> ?f i" if "i < insert_pos t ds" for i
    using that s(2) [of i] c [of i] unfolding p by (simp split: if_splits)
  show "?f i" if "insert_pos t ds \<le> i" "i < length ds" for i
    using that s(3) [of i] unfolding p by (simp split: if_splits)
qed

lemma insert_pos_alt:
  "insert_pos t ds =
    (if 0 < length ds \<and> time_After (rd_Timestamp (ds ! (length ds - 1))) t
     then go_search (\<lambda>i. time_After (rd_Timestamp (ds ! i)) t) 0 (length ds) else length ds)"
  by (auto simp: insert_pos_def last_conv_nth)

lemma appendDetail_Details:
  "mo_Details (appendDetail d False m) =
    (let ds = mo_Details (initializeEventSequences m);
         pos = insert_pos (rd_Timestamp d) ds
     in take pos ds @ [d\<lparr> rd_eventSequence := mo_nextEventSequence (initializeEventSequences m) + 1 \<rparr>] @ drop pos ds)"
  unfolding appendDetail_def Let_def insert_pos_alt [symmetric] by simp

lemma sorted_insert_at:
  assumes "sorted_window ds" "t_ns (rd_Timestamp d) = t_ns t"
  shows "sorted_window (take (insert_pos t ds) ds @ [d] @ drop (insert_pos t ds) ds)"
proof -
  note p = insert_pos_spec [OF assms(1), where t = t]
  let ?p = "insert_pos t ds"
  have "sorted_window (take ?p ds)" "sorted_window (drop ?p ds)"
    using assms(1) by (simp_all add: sorted_window_def sorted_wrt_take sorted_wrt_drop flip: take_map drop_map)
  moreover have "t_ns (rd_Timestamp x) \<le> t_ns t" if "x \<in> set (take ?p ds)" for x
    using that p(2) by (auto simp: in_set_conv_nth time_After_def not_less)
  moreover have "t_ns t \<le> t_ns (rd_Timestamp x)" if xin: "x \<in> set (drop ?p ds)" for x
  proof -
    obtain j where "?p + j < length ds" "x = ds ! (?p + j)"
      using xin p(1) by (auto simp: in_set_conv_nth less_diff_conv add.commute)
    then show ?thesis using p(3) [of "?p + j"] by (simp add: time_After_def)
  qed
  ultimately show ?thesis
    using assms(2) by (fastforce simp: sorted_window_def sorted_append)
qed

lemma append_splits:
  assumes "sorted_window (mo_Details m)"
  shows "\<exists>earlier later. mo_Details (initializeEventSequences m) = earlier @ later \<and>
    mo_Details (appendDetail d False m) =
      earlier @ [d\<lparr> rd_eventSequence := mo_nextEventSequence (initializeEventSequences m) + 1 \<rparr>] @ later \<and>
    (\<forall>x\<in>set earlier. t_ns (rd_Timestamp x) \<le> t_ns (rd_Timestamp d)) \<and>
    (\<forall>x\<in>set later. t_ns (rd_Timestamp d) < t_ns (rd_Timestamp x))"
proof -
  let ?ds = "mo_Details (initializeEventSequences m)" and ?t = "rd_Timestamp d"
  have "sorted_window ?ds" using assms by simp
  note p = insert_pos_spec [OF this, where t = ?t]
  let ?p = "insert_pos ?t ?ds"
  have "t_ns (rd_Timestamp x) \<le> t_ns ?t" if "x \<in> set (take ?p ?ds)" for x
    using that p(2) by (auto simp: in_set_conv_nth time_After_def not_less)
  moreover have "t_ns ?t < t_ns (rd_Timestamp x)" if xin: "x \<in> set (drop ?p ?ds)" for x
  proof -
    obtain j where "?p + j < length ?ds" "x = ?ds ! (?p + j)"
      using xin p(1) by (auto simp: in_set_conv_nth less_diff_conv add.commute)
    then show ?thesis using p(3) [of "?p + j"] by (simp add: time_After_def)
  qed
  ultimately show ?thesis
    by (intro exI [of _ "take ?p ?ds"] exI [of _ "drop ?p ?ds"]) (simp add: appendDetail_Details Let_def)
qed

text \<open>
  C36: Recording a detail puts it where it belongs.  A detail for the archive is appended to the
  archive, and the visible window stays as it is.  Any other detail becomes visible, with the next
  sequence number: the window is cut in two, every detail before the new one is at most as late and
  every detail behind it is later, so it comes after the details of the same time, and the archive
  stays as it is.  In both cases the window stays in timestamp order and the model accounts for
  exactly one detail more.
\<close>
theorem appendDetail_sorted:
  assumes "sorted_window (mo_Details m)"
  shows "mo_Details (appendDetail d True m) = mo_Details m \<and>
    mo_accounting (appendDetail d True m) = mo_accounting m @ [accountingRecord_of d] \<and>
    (\<exists>earlier later. mo_Details (initializeEventSequences m) = earlier @ later \<and>
      mo_Details (appendDetail d False m) =
        earlier @ [d\<lparr> rd_eventSequence := mo_nextEventSequence (initializeEventSequences m) + 1 \<rparr>] @ later \<and>
      (\<forall>x\<in>set earlier. t_ns (rd_Timestamp x) \<le> t_ns (rd_Timestamp d)) \<and>
      (\<forall>x\<in>set later. t_ns (rd_Timestamp d) < t_ns (rd_Timestamp x))) \<and>
    mo_nextEventSequence (appendDetail d False m) = mo_nextEventSequence (initializeEventSequences m) + 1 \<and>
    mo_accounting (appendDetail d False m) = mo_accounting m \<and>
    sorted_window (mo_Details (appendDetail d arch m)) \<and>
    retained (appendDetail d arch m) = add_mset (archived d) (retained m)"
proof (intro conjI)
  show "\<exists>earlier later. mo_Details (initializeEventSequences m) = earlier @ later \<and>
      mo_Details (appendDetail d False m) =
        earlier @ [d\<lparr> rd_eventSequence := mo_nextEventSequence (initializeEventSequences m) + 1 \<rparr>] @ later \<and>
      (\<forall>x\<in>set earlier. t_ns (rd_Timestamp x) \<le> t_ns (rd_Timestamp d)) \<and>
      (\<forall>x\<in>set later. t_ns (rd_Timestamp d) < t_ns (rd_Timestamp x))"
    by (rule append_splits [OF assms])
  have "sorted_window (mo_Details (initializeEventSequences m))" using assms by simp
  from sorted_insert_at [OF this] show "sorted_window (mo_Details (appendDetail d arch m))"
    using assms by (cases arch) (simp_all add: appendDetail_def [of d True] appendDetail_Details Let_def)
  show "retained (appendDetail d arch m) = add_mset (archived d) (retained m)" by (rule retained_appendDetail)
qed (simp_all add: appendDetail_def Let_def)

text \<open>
  C37: Trimming to the visible limit leaves at most that many details visible, the latest of
  the sorted window, and changes nothing that is accounted for: every detail it takes out of
  the window is in the archive, and the totals of the model are untouched.
\<close>
theorem trim_keeps_accounting:
  assumes "trimModelDetailsLocked k m = (m', n)" "0 \<le> k"
  shows "int (length (mo_Details m')) \<le> k \<and> mo_Details m' = drop n (mo_Details m) \<and>
    retained m' = retained m \<and> accountingCount m' = accountingCount m \<and> mo_tally m' = mo_tally m"
proof -
  have "n \<le> length (mo_Details m)" "int (length (mo_Details m) - n) \<le> k"
    using assms by (auto simp: trimModelDetailsLocked_def Let_def split: if_splits)
  then show ?thesis
    using trim_result [OF assms(1)] retained_trim [OF assms(1)] by (simp add: accountingCount_def)
qed

definition zero_model :: modelStats where
  "zero_model = \<lparr> mo_nextEventSequence = 0, mo_accounting = [],
     mo_tally = \<lparr> ta_TotalRequests = 0, ta_SuccessCount = 0, ta_FailureCount = 0, ta_TotalTokens = 0,
       ta_InputTokens = 0, ta_OutputTokens = 0, ta_CachedTokens = 0, ta_CacheWriteTokens = 0,
       ta_ReasoningTokens = 0 \<rparr>,
     mo_estimatedCost = Fin 0, mo_latencySum = 0, mo_latencyN = 0, mo_Details = [], mo_providerStats = [] \<rparr>"

definition sample_model :: modelStats where
  "sample_model = appendDetail sample_detail False
     (appendDetail (sample_detail\<lparr> rd_Timestamp := \<lparr> t_ns = 70000000000, t_off = 0 \<rparr> \<rparr>) False zero_model)"

lemma sample_model_sorted: "sorted_window (mo_Details sample_model)"
  by code_simp

lemma appendDetail_sorted_witness:
  "sorted_window (mo_Details (appendDetail sample_detail False sample_model)) \<and>
   size (retained (appendDetail sample_detail False sample_model)) = 3 \<and>
   mo_nextEventSequence (appendDetail sample_detail False sample_model) = 3"
proof -
  have "retained zero_model = {#}" by (simp add: retained_alt zero_model_def)
  then have r: "size (retained sample_model) = 2" by (simp add: sample_model_def)
  have n: "mo_nextEventSequence (initializeEventSequences sample_model) = 2" by code_simp
  show ?thesis
    using appendDetail_sorted [OF sample_model_sorted, of sample_detail False] r n by simp
qed

lemma trim_keeps_accounting_witness:
  "length (mo_Details (fst (trimModelDetailsLocked 1 sample_model))) = 1 \<and>
   retained (fst (trimModelDetailsLocked 1 sample_model)) = retained sample_model"
proof -
  obtain m n where t: "trimModelDetailsLocked 1 sample_model = (m, n)" by fastforce
  have "length (mo_Details (fst (trimModelDetailsLocked 1 sample_model))) = 1" by code_simp
  then show ?thesis using trim_keeps_accounting [OF t] t by simp
qed

end
