(* ===== verification/Counters.thy ===== *)
theory Counters
  imports Accounting
begin

text \<open>
  The incremental counters (\<open>go/stats.go\<close>): every aggregate the dashboard shows is kept up to date
  by adding a request's totals when it is recorded and subtracting them when it is removed.  The
  locales below state what all of them share, over an abstract store of counters; each group of
  maps is an interpretation.  \<open>counts m D\<close> says that the store \<open>m\<close> holds exactly the sums over the
  multiset \<open>D\<close> of counted details.
\<close>

section \<open>Stores of counters\<close>

text \<open>
  A detail counts under at most one key of the store; \<open>wt c d\<close> is what it adds to counter \<open>c\<close> there.
\<close>

locale counter_store =
  fixes key :: "'d \<Rightarrow> 'k option"
    and wt :: "'c \<Rightarrow> 'd \<Rightarrow> int"
    and look :: "'c \<Rightarrow> 'm \<Rightarrow> 'k \<Rightarrow> int"
    and inc :: "'d \<Rightarrow> 'm \<Rightarrow> 'm"
    and dec :: "'d \<Rightarrow> 'm \<Rightarrow> 'm"
  assumes wt_nonneg: "0 \<le> wt c d"
    and inc_hit: "key d = Some k \<Longrightarrow> (\<And>c. 0 \<le> look c m k) \<Longrightarrow> (\<And>c. look c m k + wt c d \<le> MaxInt64) \<Longrightarrow>
          look c (inc d m) k = look c m k + wt c d"
    and inc_other: "key d \<noteq> Some k \<Longrightarrow> look c (inc d m) k = look c m k"
    and dec_other: "key d \<noteq> Some k \<Longrightarrow> look c (dec d m) k = look c m k"
begin

definition share :: "'d multiset \<Rightarrow> 'c \<Rightarrow> 'k \<Rightarrow> int" where
  "share D c k = (\<Sum>d \<in># filter_mset (\<lambda>d. key d = Some k) D. wt c d)"

definition counts :: "'m \<Rightarrow> 'd multiset \<Rightarrow> bool" where
  "counts m D \<longleftrightarrow> (\<forall>c k. look c m k = share D c k)"

definition fits :: "'d multiset \<Rightarrow> bool" where
  "fits D \<longleftrightarrow> (\<forall>c k. share D c k \<le> MaxInt64)"

lemma share_empty [simp]: "share {#} c k = 0"
  by (simp add: share_def)

lemma share_add: "share (add_mset d D) c k = share D c k + (if key d = Some k then wt c d else 0)"
  by (simp add: share_def)

lemma share_nonneg: "0 \<le> share D c k"
  unfolding share_def by (rule sum_mset_nonneg_int) (simp add: wt_nonneg)

lemma fits_sub: "fits D \<Longrightarrow> E \<subseteq># D \<Longrightarrow> fits E"
  unfolding fits_def share_def
  by (meson multiset_filter_mono order_trans sum_mset_nonneg_sub wt_nonneg)

lemma counts_inc:
  assumes "counts m D" "fits (add_mset d D)"
  shows "counts (inc d m) (add_mset d D)"
proof -
  have "look c (inc d m) k = share (add_mset d D) c k" for c k
  proof (cases "key d = Some k")
    case True
    have "0 \<le> look c m k" "look c m k + wt c d \<le> MaxInt64" for c
      using assms True share_nonneg share_add [of d D c k] by (simp_all add: counts_def fits_def)
        (metis)
    then show ?thesis
      using inc_hit [OF True, of m] assms(1) True by (simp add: counts_def share_add)
  next
    case False
    then show ?thesis using assms(1) by (simp add: counts_def share_add inc_other)
  qed
  then show ?thesis by (simp add: counts_def)
qed

text \<open>Recording a list of details into a store, in any order, gives the same counters.\<close>

lemma counts_fold:
  assumes "counts m D" "fits (D + mset ds)"
  shows "counts (fold inc ds m) (D + mset ds)"
  using assms
proof (induction ds arbitrary: m D)
  case Nil
  then show ?case by simp
next
  case (Cons d ds)
  have "fits (add_mset d D)" using Cons.prems(2) by (rule fits_sub) simp
  with Cons.prems(1) have "counts (inc d m) (add_mset d D)" by (rule counts_inc)
  from Cons.IH [OF this] Cons.prems(2) show ?case by simp
qed

lemma counts_unique: "counts m D \<Longrightarrow> counts m' D \<Longrightarrow> look c m k = look c m' k"
  by (simp add: counts_def)

end

text \<open>Stores whose decrement subtracts exactly.\<close>

locale exact_store = counter_store +
  assumes dec_hit: "key d = Some k \<Longrightarrow> (\<And>c. 0 \<le> look c m k) \<Longrightarrow> (\<And>c. wt c d \<le> look c m k) \<Longrightarrow>
    look c (dec d m) k = look c m k - wt c d"

text \<open>
  Stores that drop a key when its number of requests, the counter \<open>pop\<close>, reaches zero: the
  decrement then leaves nothing of the key, whatever its other counters say.
\<close>

locale dropping_store = counter_store +
  fixes pop :: "'c"
  assumes pop_wt: "wt pop d = 1"
    and dec_hit: "key d = Some k \<Longrightarrow> (\<And>c. 0 \<le> look c m k) \<Longrightarrow> (\<And>c. wt c d \<le> look c m k) \<Longrightarrow>
      look c (dec d m) k = (if look pop m k \<le> 1 then 0 else look c m k - wt c d)"

context counter_store begin

lemma share_sub: "d \<in># D \<Longrightarrow> share (D - {#d#}) c k = share D c k - (if key d = Some k then wt c d else 0)"
  using share_add [of d "D - {#d#}" c k] by simp

lemma wt_le_share: "d \<in># D \<Longrightarrow> key d = Some k \<Longrightarrow> wt c d \<le> share D c k"
  using share_sub [of d D c k] share_nonneg [of "D - {#d#}" c k] by simp

end

context exact_store begin

lemma counts_dec:
  assumes "counts m D" "d \<in># D"
  shows "counts (dec d m) (D - {#d#})"
proof -
  have "look c (dec d m) k = share (D - {#d#}) c k" for c k
  proof (cases "key d = Some k")
    case True
    have "0 \<le> look c m k" "wt c d \<le> look c m k" for c
      using assms True wt_le_share share_nonneg by (simp_all add: counts_def)
    then show ?thesis
      using dec_hit [OF True, of m] assms True by (simp add: counts_def share_sub)
  next
    case False
    then show ?thesis using assms by (simp add: counts_def share_sub dec_other)
  qed
  then show ?thesis by (simp add: counts_def)
qed

end

context dropping_store begin

lemma share_pop: "share D pop k = int (size (filter_mset (\<lambda>d. key d = Some k) D))"
  by (simp add: share_def pop_wt)

lemma counts_dec:
  assumes "counts m D" "d \<in># D"
  shows "counts (dec d m) (D - {#d#})"
proof -
  have "look c (dec d m) k = share (D - {#d#}) c k" for c k
  proof (cases "key d = Some k")
    case True
    have ok: "0 \<le> look c m k" "wt c d \<le> look c m k" for c
      using assms True wt_le_share share_nonneg by (simp_all add: counts_def)
    show ?thesis
    proof (cases "look pop m k \<le> 1")
      case True
      define E where "E = D - {#d#}"
      have "share E pop k = share D pop k - 1"
        using share_sub [OF assms(2), of pop k] \<open>key d = Some k\<close> by (simp add: E_def pop_wt)
      then have "int (size (filter_mset (\<lambda>d. key d = Some k) E)) \<le> 0"
        using True assms(1) by (simp add: share_pop counts_def)
      then have "filter_mset (\<lambda>d. key d = Some k) E = {#}" by simp
      then have "share (D - {#d#}) c k = 0" by (simp add: share_def E_def)
      then show ?thesis using dec_hit [OF \<open>key d = Some k\<close> ok, of c] True by simp
    next
      case False
      then show ?thesis
        using dec_hit [OF True ok, of c] assms True by (simp add: counts_def share_sub)
    qed
  next
    case False
    then show ?thesis using assms by (simp add: counts_def share_sub dec_other)
  qed
  then show ?thesis by (simp add: counts_def)
qed

end

section \<open>The nine counters\<close>

datatype counter = Requests | Success | Failure | TotalTok | InputTok | OutputTok | CachedTok
  | CacheWriteTok | ReasoningTok

fun tally_get :: "counter \<Rightarrow> tally \<Rightarrow> int" where
  "tally_get Requests t = ta_TotalRequests t"
| "tally_get Success t = ta_SuccessCount t"
| "tally_get Failure t = ta_FailureCount t"
| "tally_get TotalTok t = ta_TotalTokens t"
| "tally_get InputTok t = ta_InputTokens t"
| "tally_get OutputTok t = ta_OutputTokens t"
| "tally_get CachedTok t = ta_CachedTokens t"
| "tally_get CacheWriteTok t = ta_CacheWriteTokens t"
| "tally_get ReasoningTok t = ta_ReasoningTokens t"

text \<open>What a detail adds to each counter.\<close>

fun weight :: "counter \<Rightarrow> RequestDetail \<Rightarrow> int" where
  "weight Requests d = 1"
| "weight Success d = (if rd_Failed d then 0 else 1)"
| "weight Failure d = (if rd_Failed d then 1 else 0)"
| "weight TotalTok d = dt_totalTokens (detailTotalsFromRequest d)"
| "weight InputTok d = dt_inputTokens (detailTotalsFromRequest d)"
| "weight OutputTok d = dt_outputTokens (detailTotalsFromRequest d)"
| "weight CachedTok d = dt_cachedTokens (detailTotalsFromRequest d)"
| "weight CacheWriteTok d = dt_cacheWriteTokens (detailTotalsFromRequest d)"
| "weight ReasoningTok d = dt_reasoningTokens (detailTotalsFromRequest d)"

definition zero_tally :: tally where
  "zero_tally = \<lparr> ta_TotalRequests = 0, ta_SuccessCount = 0, ta_FailureCount = 0, ta_TotalTokens = 0,
     ta_InputTokens = 0, ta_OutputTokens = 0, ta_CachedTokens = 0, ta_CacheWriteTokens = 0,
     ta_ReasoningTokens = 0 \<rparr>"

text \<open>The block of nine updates that the source repeats for every struct with these counters.\<close>

definition inc_tally :: "bool \<Rightarrow> detailTotals \<Rightarrow> tally \<Rightarrow> tally" where
  "inc_tally failed totals t =
     \<lparr> ta_TotalRequests = addNonNegativeInt64 (ta_TotalRequests t) 1,
       ta_SuccessCount = (if failed then ta_SuccessCount t else addNonNegativeInt64 (ta_SuccessCount t) 1),
       ta_FailureCount = (if failed then addNonNegativeInt64 (ta_FailureCount t) 1 else ta_FailureCount t),
       ta_TotalTokens = addNonNegativeInt64 (ta_TotalTokens t) (dt_totalTokens totals),
       ta_InputTokens = addNonNegativeInt64 (ta_InputTokens t) (dt_inputTokens totals),
       ta_OutputTokens = addNonNegativeInt64 (ta_OutputTokens t) (dt_outputTokens totals),
       ta_CachedTokens = addNonNegativeInt64 (ta_CachedTokens t) (dt_cachedTokens totals),
       ta_CacheWriteTokens = addNonNegativeInt64 (ta_CacheWriteTokens t) (dt_cacheWriteTokens totals),
       ta_ReasoningTokens = addNonNegativeInt64 (ta_ReasoningTokens t) (dt_reasoningTokens totals) \<rparr>"

definition dec_tally :: "bool \<Rightarrow> detailTotals \<Rightarrow> tally \<Rightarrow> tally" where
  "dec_tally failed totals t =
     \<lparr> ta_TotalRequests = subtractNonNegativeInt64 (ta_TotalRequests t) 1,
       ta_SuccessCount = (if failed then ta_SuccessCount t else subtractNonNegativeInt64 (ta_SuccessCount t) 1),
       ta_FailureCount = (if failed then subtractNonNegativeInt64 (ta_FailureCount t) 1 else ta_FailureCount t),
       ta_TotalTokens = subtractNonNegativeInt64 (ta_TotalTokens t) (dt_totalTokens totals),
       ta_InputTokens = subtractNonNegativeInt64 (ta_InputTokens t) (dt_inputTokens totals),
       ta_OutputTokens = subtractNonNegativeInt64 (ta_OutputTokens t) (dt_outputTokens totals),
       ta_CachedTokens = subtractNonNegativeInt64 (ta_CachedTokens t) (dt_cachedTokens totals),
       ta_CacheWriteTokens = subtractNonNegativeInt64 (ta_CacheWriteTokens t) (dt_cacheWriteTokens totals),
       ta_ReasoningTokens = subtractNonNegativeInt64 (ta_ReasoningTokens t) (dt_reasoningTokens totals) \<rparr>"

lemma totals_nonneg:
  "0 \<le> dt_totalTokens (detailTotalsFromRequest d)" "0 \<le> dt_inputTokens (detailTotalsFromRequest d)"
  "0 \<le> dt_outputTokens (detailTotalsFromRequest d)" "0 \<le> dt_cachedTokens (detailTotalsFromRequest d)"
  "0 \<le> dt_cacheWriteTokens (detailTotalsFromRequest d)" "0 \<le> dt_reasoningTokens (detailTotalsFromRequest d)"
  "0 \<le> dt_latencySum (detailTotalsFromRequest d)" "0 \<le> dt_latencyN (detailTotalsFromRequest d)"
  by (simp_all add: detailTotalsFromRequest_def Let_def nonNegativeInt64_eq maxInt64_eq
      normalizedCacheReadTokens_def detailTotalTokensForRequest_def detailTotalTokens_def saturatingProtocolAdd_eq
      max_def)

lemma weight_nonneg [simp]: "0 \<le> weight c d"
  using totals_nonneg by (cases c) simp_all

lemma tally_inc:
  assumes "\<And>c. 0 \<le> tally_get c t" "\<And>c. tally_get c t + weight c d \<le> MaxInt64"
  shows "tally_get c (inc_tally (rd_Failed d) (detailTotalsFromRequest d) t) = tally_get c t + weight c d"
proof -
  have "addNonNegativeInt64 (tally_get c t) (weight c d) = tally_get c t + weight c d" for c
    using assms by (intro add_exact) simp_all
  note e = this [of Requests] this [of Success] this [of Failure] this [of TotalTok] this [of InputTok]
    this [of OutputTok] this [of CachedTok] this [of CacheWriteTok] this [of ReasoningTok]
  show ?thesis using e by (cases c) (simp_all add: inc_tally_def split: if_splits)
qed

lemma tally_dec:
  assumes "\<And>c. weight c d \<le> tally_get c t"
  shows "tally_get c (dec_tally (rd_Failed d) (detailTotalsFromRequest d) t) = tally_get c t - weight c d"
proof -
  have "subtractNonNegativeInt64 (tally_get c t) (weight c d) = tally_get c t - weight c d" for c
    using assms by (intro sub_exact) simp_all
  note e = this [of Requests] this [of Success] this [of Failure] this [of TotalTok] this [of InputTok]
    this [of OutputTok] this [of CachedTok] this [of CacheWriteTok] this [of ReasoningTok]
  show ?thesis using e by (cases c) (simp_all add: dec_tally_def split: if_splits)
qed

lemma tally_get_zero [simp]: "tally_get c zero_tally = 0"
  by (cases c) (simp_all add: zero_tally_def)

lemma Requests_dec [simp]: "ta_TotalRequests (dec_tally f t y) = subtractNonNegativeInt64 (ta_TotalRequests y) 1"
  by (simp add: dec_tally_def)

lemma requests_gone: "subtractNonNegativeInt64 x 1 \<le> 0 \<longleftrightarrow> x \<le> 1"
  by (simp add: subtractNonNegativeInt64_eq)

section \<open>Statistics per provider\<close>

definition incrementModelProviderStat :: "ModelProviderStat \<Rightarrow> bool \<Rightarrow> detailTotals \<Rightarrow> ModelProviderStat" where
  "incrementModelProviderStat stat failed totals = stat\<lparr> ps_tally := inc_tally failed totals (ps_tally stat) \<rparr>"

definition incrementModelProviderStats ::
  "(string, ModelProviderStat) gomap \<Rightarrow> string \<Rightarrow> bool \<Rightarrow> detailTotals \<Rightarrow> (string, ModelProviderStat) gomap" where
  "incrementModelProviderStats stats provider failed totals =
     (let key = modelProviderStatsKey provider;
          stat = (case go_get stats key of Some stat \<Rightarrow> stat
                  | None \<Rightarrow> \<lparr> ps_Provider = go_TrimSpace provider, ps_tally = zero_tally \<rparr>)
      in go_put key (incrementModelProviderStat stat failed totals) stats)"

definition decrementModelProviderStats ::
  "(string, ModelProviderStat) gomap \<Rightarrow> string \<Rightarrow> bool \<Rightarrow> detailTotals \<Rightarrow> (string, ModelProviderStat) gomap" where
  "decrementModelProviderStats stats provider failed totals =
     (let key = modelProviderStatsKey provider
      in case go_get stats key of
           None \<Rightarrow> stats
         | Some stat \<Rightarrow>
             let stat = stat\<lparr> ps_tally := dec_tally failed totals (ps_tally stat) \<rparr>
             in if ta_TotalRequests (ps_tally stat) \<le> 0 then go_del key stats else go_put key stat stats)"

definition provider_look :: "counter \<Rightarrow> (string, ModelProviderStat) gomap \<Rightarrow> string \<Rightarrow> int" where
  "provider_look c m k = (case go_get m k of None \<Rightarrow> 0 | Some stat \<Rightarrow> tally_get c (ps_tally stat))"

interpretation provider_counts: dropping_store
  "\<lambda>d. Some (modelProviderStatsKey (rd_Provider d))" weight provider_look
  "\<lambda>d m. incrementModelProviderStats m (rd_Provider d) (rd_Failed d) (detailTotalsFromRequest d)"
  "\<lambda>d m. decrementModelProviderStats m (rd_Provider d) (rd_Failed d) (detailTotalsFromRequest d)"
  Requests
proof (unfold_locales, goal_cases)
  case (2 d k m c)
  then show ?case
    using tally_inc [of "case go_get m k of None \<Rightarrow> zero_tally | Some st \<Rightarrow> ps_tally st" d c]
    by (auto simp: provider_look_def incrementModelProviderStats_def incrementModelProviderStat_def Let_def
        split: option.splits)
next
  case (6 d k m c)
  then show ?case
    using tally_dec [of d "case go_get m k of None \<Rightarrow> zero_tally | Some st \<Rightarrow> ps_tally st" c]
    by (cases "go_get m k")
      (auto simp: provider_look_def decrementModelProviderStats_def Let_def requests_gone)
qed (auto simp: provider_look_def incrementModelProviderStats_def decrementModelProviderStats_def Let_def
    split: option.splits)

section \<open>Statistics per source and per credential\<close>

datatype small_counter = SRequests | SSuccess | SFailure | STokens

fun small_weight :: "small_counter \<Rightarrow> RequestDetail \<Rightarrow> int" where
  "small_weight SRequests d = 1"
| "small_weight SSuccess d = (if rd_Failed d then 0 else 1)"
| "small_weight SFailure d = (if rd_Failed d then 1 else 0)"
| "small_weight STokens d = dt_totalTokens (detailTotalsFromRequest d)"

lemma small_weight_nonneg [simp]: "0 \<le> small_weight c d"
  using totals_nonneg by (cases c) simp_all

type_synonym source_map = "(string, sourceStatAccumulator) gomap"

text \<open>
  The same code keeps the sources of an API (\<open>incrementAPISourceStats\<close>) and, inlined in
  \<open>incrementSummaryDimensionStatsWithCostLocked\<close>, those of the whole ledger.
\<close>

definition incrementAPISourceStats :: "source_map \<Rightarrow> RequestDetail \<Rightarrow> detailTotals \<Rightarrow> source_map" where
  "incrementAPISourceStats m detail totals =
     (let source = summarySourceKey detail; provider = rd_Provider detail;
          agg = (case go_get m source of Some agg \<Rightarrow> agg
                 | None \<Rightarrow> \<lparr> sa_stat = \<lparr> ss_Source = source, ss_Provider = provider, ss_TotalRequests = 0,
                              ss_SuccessCount = 0, ss_FailureCount = 0, ss_TotalTokens = 0 \<rparr>,
                            sa_providers = [] \<rparr>);
          stat = sa_stat agg;
          stat = (if ss_Provider stat = [] then stat\<lparr> ss_Provider := provider \<rparr> else stat);
          providers = go_put provider (addNonNegativeInt64 (go_getd 0 (sa_providers agg) provider) 1)
                        (sa_providers agg);
          stat = stat\<lparr> ss_TotalRequests := addNonNegativeInt64 (ss_TotalRequests stat) 1,
                   ss_SuccessCount := (if rd_Failed detail then ss_SuccessCount stat
                                       else addNonNegativeInt64 (ss_SuccessCount stat) 1),
                   ss_FailureCount := (if rd_Failed detail then addNonNegativeInt64 (ss_FailureCount stat) 1
                                       else ss_FailureCount stat),
                   ss_TotalTokens := addNonNegativeInt64 (ss_TotalTokens stat) (dt_totalTokens totals) \<rparr>
      in go_put source \<lparr> sa_stat = stat, sa_providers = providers \<rparr> m)"

definition decrementAPISourceStats :: "source_map \<Rightarrow> RequestDetail \<Rightarrow> detailTotals \<Rightarrow> source_map" where
  "decrementAPISourceStats m detail totals =
     (let source = summarySourceKey detail; provider = rd_Provider detail
      in case go_get m source of
           None \<Rightarrow> m
         | Some agg \<Rightarrow>
             let stat = sa_stat agg;
                 stat = stat\<lparr> ss_TotalRequests := subtractNonNegativeInt64 (ss_TotalRequests stat) 1,
                   ss_SuccessCount := (if rd_Failed detail then ss_SuccessCount stat
                                       else subtractNonNegativeInt64 (ss_SuccessCount stat) 1),
                   ss_FailureCount := (if rd_Failed detail then subtractNonNegativeInt64 (ss_FailureCount stat) 1
                                       else ss_FailureCount stat),
                   ss_TotalTokens := subtractNonNegativeInt64 (ss_TotalTokens stat) (dt_totalTokens totals) \<rparr>;
                 left = subtractNonNegativeInt64 (go_getd 0 (sa_providers agg) provider) 1;
                 providers = (if left \<le> 0 then go_del provider (sa_providers agg)
                              else go_put provider left (sa_providers agg));
                 stat = (if ss_Provider stat = provider
                         then stat\<lparr> ss_Provider := (case providers of [] \<Rightarrow> [] | (p, _) # _ \<Rightarrow> p) \<rparr>
                         else stat)
             in if ss_TotalRequests stat \<le> 0 then go_del source m
                else go_put source \<lparr> sa_stat = stat, sa_providers = providers \<rparr> m)"

fun source_get :: "small_counter \<Rightarrow> SourceStat \<Rightarrow> int" where
  "source_get SRequests s = ss_TotalRequests s"
| "source_get SSuccess s = ss_SuccessCount s"
| "source_get SFailure s = ss_FailureCount s"
| "source_get STokens s = ss_TotalTokens s"

definition source_look :: "small_counter \<Rightarrow> source_map \<Rightarrow> string \<Rightarrow> int" where
  "source_look c m k = (case go_get m k of None \<Rightarrow> 0 | Some agg \<Rightarrow> source_get c (sa_stat agg))"

lemma small_addE:
  assumes "0 \<le> x" "x + small_weight c d \<le> MaxInt64"
  shows "addNonNegativeInt64 x (small_weight c d) = x + small_weight c d"
  using assms by (intro add_exact) simp_all

lemma small_subE:
  assumes "small_weight c d \<le> x"
  shows "subtractNonNegativeInt64 x (small_weight c d) = x - small_weight c d"
  using assms by (intro sub_exact) simp_all

interpretation source_counts: dropping_store
  "\<lambda>d. Some (summarySourceKey d)" small_weight source_look
  "\<lambda>d m. incrementAPISourceStats m d (detailTotalsFromRequest d)"
  "\<lambda>d m. decrementAPISourceStats m d (detailTotalsFromRequest d)"
  SRequests
proof (unfold_locales, goal_cases)
  case (2 d k m c)
  have "addNonNegativeInt64 (source_look c m k) (small_weight c d) = source_look c m k + small_weight c d" for c
    using 2 by (intro small_addE) simp_all
  note e = this [of SRequests] this [of SSuccess] this [of SFailure] this [of STokens]
  show ?case using e 2(1)
    by (cases c; cases "go_get m k")
      (auto simp: source_look_def incrementAPISourceStats_def Let_def split: if_splits)
next
  case (6 d k m c)
  have "subtractNonNegativeInt64 (source_look c m k) (small_weight c d) = source_look c m k - small_weight c d" for c
    using 6 by (intro small_subE) simp_all
  note e = this [of SRequests] this [of SSuccess] this [of SFailure] this [of STokens]
  show ?case using e 6(1)
    by (cases c; cases "go_get m k")
      (auto simp: source_look_def decrementAPISourceStats_def Let_def requests_gone split: if_splits)
qed (auto simp: source_look_def incrementAPISourceStats_def decrementAPISourceStats_def Let_def
    split: option.splits)

type_synonym credential_map = "(string, CredentialStat) gomap"

text \<open>The credential part of \<open>incrementSummaryDimensionStatsWithCostLocked\<close> and its counterpart.\<close>

definition incrementCredentialStats :: "credential_map \<Rightarrow> RequestDetail \<Rightarrow> detailTotals \<Rightarrow> credential_map" where
  "incrementCredentialStats m detail totals =
     (let credential = summaryCredentialKey detail;
          stat = (case go_get m credential of Some stat \<Rightarrow> stat
                  | None \<Rightarrow> \<lparr> cs_AuthIndex = credential, cs_TotalRequests = 0, cs_SuccessCount = 0,
                             cs_FailureCount = 0, cs_TotalTokens = 0 \<rparr>)
      in go_put credential
           (stat\<lparr> cs_TotalRequests := addNonNegativeInt64 (cs_TotalRequests stat) 1,
                  cs_SuccessCount := (if rd_Failed detail then cs_SuccessCount stat
                                      else addNonNegativeInt64 (cs_SuccessCount stat) 1),
                  cs_FailureCount := (if rd_Failed detail then addNonNegativeInt64 (cs_FailureCount stat) 1
                                      else cs_FailureCount stat),
                  cs_TotalTokens := addNonNegativeInt64 (cs_TotalTokens stat) (dt_totalTokens totals) \<rparr>) m)"

definition decrementCredentialStats :: "credential_map \<Rightarrow> RequestDetail \<Rightarrow> detailTotals \<Rightarrow> credential_map" where
  "decrementCredentialStats m detail totals =
     (let credential = summaryCredentialKey detail
      in case go_get m credential of
           None \<Rightarrow> m
         | Some stat \<Rightarrow>
             let stat = stat\<lparr> cs_TotalRequests := subtractNonNegativeInt64 (cs_TotalRequests stat) 1,
                  cs_SuccessCount := (if rd_Failed detail then cs_SuccessCount stat
                                      else subtractNonNegativeInt64 (cs_SuccessCount stat) 1),
                  cs_FailureCount := (if rd_Failed detail then subtractNonNegativeInt64 (cs_FailureCount stat) 1
                                      else cs_FailureCount stat),
                  cs_TotalTokens := subtractNonNegativeInt64 (cs_TotalTokens stat) (dt_totalTokens totals) \<rparr>
             in if cs_TotalRequests stat \<le> 0 then go_del credential m else go_put credential stat m)"

fun credential_get :: "small_counter \<Rightarrow> CredentialStat \<Rightarrow> int" where
  "credential_get SRequests s = cs_TotalRequests s"
| "credential_get SSuccess s = cs_SuccessCount s"
| "credential_get SFailure s = cs_FailureCount s"
| "credential_get STokens s = cs_TotalTokens s"

definition credential_look :: "small_counter \<Rightarrow> credential_map \<Rightarrow> string \<Rightarrow> int" where
  "credential_look c m k = (case go_get m k of None \<Rightarrow> 0 | Some stat \<Rightarrow> credential_get c stat)"

interpretation credential_counts: dropping_store
  "\<lambda>d. Some (summaryCredentialKey d)" small_weight credential_look
  "\<lambda>d m. incrementCredentialStats m d (detailTotalsFromRequest d)"
  "\<lambda>d m. decrementCredentialStats m d (detailTotalsFromRequest d)"
  SRequests
proof (unfold_locales, goal_cases)
  case (2 d k m c)
  have "addNonNegativeInt64 (credential_look c m k) (small_weight c d) = credential_look c m k + small_weight c d" for c
    using 2 by (intro small_addE) simp_all
  note e = this [of SRequests] this [of SSuccess] this [of SFailure] this [of STokens]
  show ?case using e 2(1)
    by (cases c; cases "go_get m k")
      (auto simp: credential_look_def incrementCredentialStats_def Let_def split: if_splits)
next
  case (6 d k m c)
  have "subtractNonNegativeInt64 (credential_look c m k) (small_weight c d) = credential_look c m k - small_weight c d" for c
    using 6 by (intro small_subE) simp_all
  note e = this [of SRequests] this [of SSuccess] this [of SFailure] this [of STokens]
  show ?case using e 6(1)
    by (cases c; cases "go_get m k")
      (auto simp: credential_look_def decrementCredentialStats_def Let_def requests_gone split: if_splits)
qed (auto simp: credential_look_def incrementCredentialStats_def decrementCredentialStats_def Let_def
    split: option.splits)

end
