(* ===== verification/Dimensions.thy ===== *)
theory Dimensions
  imports Counters
begin

text \<open>
  The other dimensions of the ledger (\<open>go/stats.go\<close>): client keys and their models, the summary per
  model, the health buckets, and the series per day and per hour.  Each is a counter store.
\<close>

section \<open>Series per day and per hour\<close>

text \<open>The statements \<open>m[k] = addNonNegativeInt64(m[k], v)\<close> and \<open>m[k] = subtractNonNegativeInt64(m[k], v)\<close>.\<close>

definition series_add :: "'k \<Rightarrow> int \<Rightarrow> ('k, int) gomap \<Rightarrow> ('k, int) gomap" where
  "series_add k v m = go_put k (addNonNegativeInt64 (go_getd 0 m k) v) m"

definition series_sub :: "'k \<Rightarrow> int \<Rightarrow> ('k, int) gomap \<Rightarrow> ('k, int) gomap" where
  "series_sub k v m = go_put k (subtractNonNegativeInt64 (go_getd 0 m k) v) m"

definition cost_add :: "'k \<Rightarrow> float64 \<Rightarrow> ('k, float64) gomap \<Rightarrow> ('k, float64) gomap" where
  "cost_add k v m = go_put k (addNonNegativeCost (go_getd (Fin 0) m k) v) m"

definition cost_sub :: "'k \<Rightarrow> float64 \<Rightarrow> ('k, float64) gomap \<Rightarrow> ('k, float64) gomap" where
  "cost_sub k v m = go_put k (subtractNonNegativeCost (go_getd (Fin 0) m k) v) m"

abbreviation total_of :: "RequestDetail \<Rightarrow> int" where
  "total_of d \<equiv> dt_totalTokens (detailTotalsFromRequest d)"

interpretation series_requests: exact_store
  "\<lambda>d. Some (f d)" "\<lambda>(c :: unit) d. 1" "\<lambda>(c :: unit) m k. go_getd 0 m k"
  "\<lambda>d m. series_add (f d) 1 m" "\<lambda>d m. series_sub (f d) 1 m" for f :: "'d \<Rightarrow> 'k"
  by unfold_locales (auto simp: series_add_def series_sub_def add_exact sub_exact)

interpretation series_tokens: exact_store
  "\<lambda>d. Some (f d)" "\<lambda>(c :: unit) d. total_of d" "\<lambda>(c :: unit) m k. go_getd 0 m k"
  "\<lambda>d m. series_add (f d) (total_of d) m" "\<lambda>d m. series_sub (f d) (total_of d) m"
  for f :: "RequestDetail \<Rightarrow> 'k"
  by unfold_locales (auto simp: series_add_def series_sub_def add_exact sub_exact totals_nonneg)

section \<open>Health buckets\<close>

definition incrementHealthBucketLocked :: "RequestDetail \<Rightarrow> (int, healthBucket) gomap \<Rightarrow> (int, healthBucket) gomap" where
  "incrementHealthBucketLocked detail m =
     (case healthBucketKey (rd_Timestamp detail) of
        None \<Rightarrow> m
      | Some key \<Rightarrow>
          let bucket = go_getd \<lparr> hb_success = 0, hb_failure = 0 \<rparr> m key;
              bucket = (if rd_Failed detail
                        then bucket\<lparr> hb_failure := addNonNegativeInt64 (hb_failure bucket) 1 \<rparr>
                        else bucket\<lparr> hb_success := addNonNegativeInt64 (hb_success bucket) 1 \<rparr>)
          in go_put key bucket m)"

definition decrementHealthBucketLocked :: "RequestDetail \<Rightarrow> (int, healthBucket) gomap \<Rightarrow> (int, healthBucket) gomap" where
  "decrementHealthBucketLocked detail m =
     (case healthBucketKey (rd_Timestamp detail) of
        None \<Rightarrow> m
      | Some key \<Rightarrow>
          (case go_get m key of
             None \<Rightarrow> m
           | Some bucket \<Rightarrow>
               let bucket = (if rd_Failed detail
                             then bucket\<lparr> hb_failure := subtractNonNegativeInt64 (hb_failure bucket) 1 \<rparr>
                             else bucket\<lparr> hb_success := subtractNonNegativeInt64 (hb_success bucket) 1 \<rparr>)
               in if hb_success bucket \<le> 0 \<and> hb_failure bucket \<le> 0 then go_del key m
                  else go_put key bucket m))"

datatype health_counter = HSuccess | HFailure

fun health_weight :: "health_counter \<Rightarrow> RequestDetail \<Rightarrow> int" where
  "health_weight HSuccess d = (if rd_Failed d then 0 else 1)"
| "health_weight HFailure d = (if rd_Failed d then 1 else 0)"

fun health_get :: "health_counter \<Rightarrow> healthBucket \<Rightarrow> int" where
  "health_get HSuccess b = hb_success b"
| "health_get HFailure b = hb_failure b"

definition health_look :: "health_counter \<Rightarrow> (int, healthBucket) gomap \<Rightarrow> int \<Rightarrow> int" where
  "health_look c m k = (case go_get m k of None \<Rightarrow> 0 | Some b \<Rightarrow> health_get c b)"

lemma health_weight_nonneg [simp]: "0 \<le> health_weight c d"
  by (cases c) simp_all

interpretation health_counts: exact_store
  "\<lambda>d. healthBucketKey (rd_Timestamp d)" health_weight health_look
  incrementHealthBucketLocked decrementHealthBucketLocked
proof (unfold_locales, goal_cases)
  case (1 c d)
  then show ?case by (cases c) auto
next
  case (2 d k m c)
  have "addNonNegativeInt64 (health_look c m k) (health_weight c d) = health_look c m k + health_weight c d" for c
    using 2 by (intro add_exact) simp_all
  note e = this [of HSuccess] this [of HFailure]
  show ?case using e 2(1)
    by (cases c; cases "go_get m k")
      (auto simp: health_look_def incrementHealthBucketLocked_def go_getd_def Let_def split: if_splits)
next
  case (5 d k m c)
  have "subtractNonNegativeInt64 (health_look c m k) (health_weight c d) = health_look c m k - health_weight c d" for c
    using 5 by (intro sub_exact) simp_all
  note e = this [of HSuccess] this [of HFailure]
  note le = 5(3) [of HSuccess] 5(3) [of HFailure] and nn = 5(2) [of HSuccess] 5(2) [of HFailure]
  show ?case using e le nn 5(1)
    by (cases c; cases "go_get m k")
      (auto simp: health_look_def decrementHealthBucketLocked_def Let_def split: if_splits)
qed (auto simp: health_look_def incrementHealthBucketLocked_def decrementHealthBucketLocked_def Let_def
    split: option.splits)

section \<open>Tokens per model and provider, per day and per hour\<close>

type_synonym ts_map = "(string, TimeSeriesTokenStat) gomap"

definition incrementTimeSeriesTokenStats :: "ts_map \<Rightarrow> string \<Rightarrow> string \<Rightarrow> detailTotals \<Rightarrow> ts_map" where
  "incrementTimeSeriesTokenStats stats model provider totals =
     (let model = go_TrimSpace model; provider = go_TrimSpace provider;
          key = timeSeriesTokenKey model provider;
          stat = (case go_get stats key of Some stat \<Rightarrow> stat
                  | None \<Rightarrow> \<lparr> ts_Model = model, ts_Provider = provider, ts_TotalTokens = 0, ts_InputTokens = 0,
                      ts_OutputTokens = 0, ts_CachedTokens = 0, ts_CacheWriteTokens = 0, ts_ReasoningTokens = 0 \<rparr>)
      in go_put key
           (stat\<lparr> ts_TotalTokens := addNonNegativeInt64 (ts_TotalTokens stat) (dt_totalTokens totals),
                  ts_InputTokens := addNonNegativeInt64 (ts_InputTokens stat) (dt_inputTokens totals),
                  ts_OutputTokens := addNonNegativeInt64 (ts_OutputTokens stat) (dt_outputTokens totals),
                  ts_CachedTokens := addNonNegativeInt64 (ts_CachedTokens stat) (dt_cachedTokens totals),
                  ts_CacheWriteTokens := addNonNegativeInt64 (ts_CacheWriteTokens stat) (dt_cacheWriteTokens totals),
                  ts_ReasoningTokens := addNonNegativeInt64 (ts_ReasoningTokens stat) (dt_reasoningTokens totals) \<rparr>)
           stats)"

definition decrementTimeSeriesTokenStats :: "ts_map \<Rightarrow> string \<Rightarrow> string \<Rightarrow> detailTotals \<Rightarrow> ts_map \<times> bool" where
  "decrementTimeSeriesTokenStats stats model provider totals =
     (let key = timeSeriesTokenKey model provider
      in case go_get stats key of
           None \<Rightarrow> (stats, False)
         | Some stat \<Rightarrow>
             let stat = stat\<lparr>
                  ts_TotalTokens := subtractNonNegativeInt64 (ts_TotalTokens stat) (dt_totalTokens totals),
                  ts_InputTokens := subtractNonNegativeInt64 (ts_InputTokens stat) (dt_inputTokens totals),
                  ts_OutputTokens := subtractNonNegativeInt64 (ts_OutputTokens stat) (dt_outputTokens totals),
                  ts_CachedTokens := subtractNonNegativeInt64 (ts_CachedTokens stat) (dt_cachedTokens totals),
                  ts_CacheWriteTokens := subtractNonNegativeInt64 (ts_CacheWriteTokens stat) (dt_cacheWriteTokens totals),
                  ts_ReasoningTokens := subtractNonNegativeInt64 (ts_ReasoningTokens stat) (dt_reasoningTokens totals) \<rparr>
             in (if ts_TotalTokens stat \<le> 0 \<and> ts_InputTokens stat \<le> 0 \<and> ts_OutputTokens stat \<le> 0 \<and>
                    ts_CachedTokens stat \<le> 0 \<and> ts_CacheWriteTokens stat \<le> 0 \<and> ts_ReasoningTokens stat \<le> 0
                 then go_del key stats else go_put key stat stats, True))"

text \<open>The series keyed by day (or by hour) over these maps.\<close>

definition ts_series_add :: "'k \<Rightarrow> string \<Rightarrow> string \<Rightarrow> detailTotals \<Rightarrow> ('k, ts_map) gomap \<Rightarrow> ('k, ts_map) gomap" where
  "ts_series_add k model provider totals m =
     go_put k (incrementTimeSeriesTokenStats (go_getd [] m k) model provider totals) m"

text \<open>The result tells whether a statistic was found, and so whether the cost series follows.\<close>

definition ts_series_sub :: "'k \<Rightarrow> string \<Rightarrow> string \<Rightarrow> detailTotals \<Rightarrow> ('k, ts_map) gomap \<Rightarrow> ('k, ts_map) gomap \<times> bool" where
  "ts_series_sub k model provider totals m =
     (case go_get m k of
        None \<Rightarrow> (m, False)
      | Some stats \<Rightarrow>
          (case decrementTimeSeriesTokenStats stats model provider totals of
             (stats', found) \<Rightarrow> (if stats' = [] then go_del k m else go_put k stats' m, found)))"

datatype ts_counter = TTotal | TInput | TOutput | TCached | TCacheWrite | TReasoning

fun ts_weight :: "ts_counter \<Rightarrow> RequestDetail \<Rightarrow> int" where
  "ts_weight TTotal d = dt_totalTokens (detailTotalsFromRequest d)"
| "ts_weight TInput d = dt_inputTokens (detailTotalsFromRequest d)"
| "ts_weight TOutput d = dt_outputTokens (detailTotalsFromRequest d)"
| "ts_weight TCached d = dt_cachedTokens (detailTotalsFromRequest d)"
| "ts_weight TCacheWrite d = dt_cacheWriteTokens (detailTotalsFromRequest d)"
| "ts_weight TReasoning d = dt_reasoningTokens (detailTotalsFromRequest d)"

fun ts_get :: "ts_counter \<Rightarrow> TimeSeriesTokenStat \<Rightarrow> int" where
  "ts_get TTotal s = ts_TotalTokens s"
| "ts_get TInput s = ts_InputTokens s"
| "ts_get TOutput s = ts_OutputTokens s"
| "ts_get TCached s = ts_CachedTokens s"
| "ts_get TCacheWrite s = ts_CacheWriteTokens s"
| "ts_get TReasoning s = ts_ReasoningTokens s"

definition ts_look :: "ts_counter \<Rightarrow> ts_map \<Rightarrow> string \<Rightarrow> int" where
  "ts_look c m k = (case go_get m k of None \<Rightarrow> 0 | Some s \<Rightarrow> ts_get c s)"

text \<open>The key of a counted pair of a model name and a detail.\<close>

definition ts_key :: "string \<times> RequestDetail \<Rightarrow> string" where
  "ts_key e = timeSeriesTokenKey (detailModel (fst e) (snd e)) (rd_Provider (snd e))"

lemma timeSeriesTokenKey_trim [simp]:
  "timeSeriesTokenKey (go_TrimSpace m) (go_TrimSpace p) = timeSeriesTokenKey m p"
  by (simp add: timeSeriesTokenKey_def)

lemma ts_weight_nonneg [simp]: "0 \<le> ts_weight c d"
  using totals_nonneg by (cases c) simp_all

interpretation ts_counts: exact_store
  "\<lambda>e. Some (ts_key e)" "\<lambda>c e. ts_weight c (snd e)" ts_look
  "\<lambda>e m. incrementTimeSeriesTokenStats m (detailModel (fst e) (snd e)) (rd_Provider (snd e)) (detailTotalsFromRequest (snd e))"
  "\<lambda>e m. fst (decrementTimeSeriesTokenStats m (detailModel (fst e) (snd e)) (rd_Provider (snd e)) (detailTotalsFromRequest (snd e)))"
proof (unfold_locales, goal_cases)
  case (1 c e)
  then show ?case by simp
next
  case (2 e k m c)
  have "addNonNegativeInt64 (ts_look c m k) (ts_weight c (snd e)) = ts_look c m k + ts_weight c (snd e)" for c
    using 2 by (intro add_exact) simp_all
  note s = this [of TTotal] this [of TInput] this [of TOutput] this [of TCached] this [of TCacheWrite]
    this [of TReasoning]
  show ?case using s 2(1)
    by (cases c; cases "go_get m k")
      (auto simp: ts_look_def ts_key_def incrementTimeSeriesTokenStats_def Let_def)
next
  case (5 e k m c)
  have "subtractNonNegativeInt64 (ts_look c m k) (ts_weight c (snd e)) = ts_look c m k - ts_weight c (snd e)" for c
    using 5 by (intro sub_exact) simp_all
  note s = this [of TTotal] this [of TInput] this [of TOutput] this [of TCached] this [of TCacheWrite]
    this [of TReasoning]
  note le = 5(3) [of TTotal] 5(3) [of TInput] 5(3) [of TOutput] 5(3) [of TCached] 5(3) [of TCacheWrite]
    5(3) [of TReasoning]
  note nn = totals_nonneg [of "snd e"]
  show ?case
  proof (cases "go_get m k")
    case None
    then show ?thesis using le nn 5(1)
      by (cases c) (auto simp: ts_look_def ts_key_def decrementTimeSeriesTokenStats_def Let_def)
  next
    case (Some st)
    then show ?thesis using s le 5(1)
      by (cases c) (auto simp: ts_look_def ts_key_def decrementTimeSeriesTokenStats_def Let_def)
  qed
qed (auto simp: ts_look_def ts_key_def incrementTimeSeriesTokenStats_def decrementTimeSeriesTokenStats_def Let_def
    split: option.splits)

end
