(* ===== verification/GroupStats.thy ===== *)
theory GroupStats
  imports Dimensions
begin

text \<open>
  The grouped statistics of the ledger (\<open>go/stats.go\<close>): the summary per model and the summary per
  client key with its models and their providers.  Groups nest, and a group disappears with its
  last request.  The locale \<open>keyed_store\<close> lifts an invariant of one group's statistics to the map
  of groups; it is used at both levels of the client statistics.
\<close>

section \<open>Counters with latency\<close>

datatype wide = Count counter | LatencySum | LatencyN

fun wide_weight :: "wide \<Rightarrow> RequestDetail \<Rightarrow> int" where
  "wide_weight (Count c) d = weight c d"
| "wide_weight LatencySum d = dt_latencySum (detailTotalsFromRequest d)"
| "wide_weight LatencyN d = dt_latencyN (detailTotalsFromRequest d)"

lemma wide_weight_nonneg [simp]: "0 \<le> wide_weight c d"
  using totals_nonneg by (cases c) simp_all

definition wsum :: "wide \<Rightarrow> RequestDetail multiset \<Rightarrow> int" where
  "wsum c D = (\<Sum>d \<in># D. wide_weight c d)"

text \<open>The range in which the counters do not saturate.\<close>

definition sums_fit :: "RequestDetail multiset \<Rightarrow> bool" where
  "sums_fit D \<longleftrightarrow> (\<forall>c. wsum c D \<le> MaxInt64)"

lemma wsum_simps [simp]: "wsum c {#} = 0" "wsum c (add_mset d D) = wide_weight c d + wsum c D"
  "wsum c (D + E) = wsum c D + wsum c E"
  by (simp_all add: wsum_def)

lemma wsum_nonneg [simp]: "0 \<le> wsum c D"
  unfolding wsum_def by (rule sum_mset_nonneg_int) simp

lemma wsum_mono: "D \<subseteq># E \<Longrightarrow> wsum c D \<le> wsum c E"
  unfolding wsum_def by (rule sum_mset_nonneg_sub) simp_all

lemma wsum_remove: "d \<in># D \<Longrightarrow> wsum c (D - {#d#}) = wsum c D - wide_weight c d"
  by (metis add_diff_cancel_left' insert_DiffM wsum_simps(2))

lemma wide_le_wsum: "d \<in># D \<Longrightarrow> wide_weight c d \<le> wsum c D"
  using wsum_remove [of d D c] wsum_nonneg [of c "D - {#d#}"] by linarith

lemma sums_fit_sub: "sums_fit D \<Longrightarrow> E \<subseteq># D \<Longrightarrow> sums_fit E"
  unfolding sums_fit_def by (meson order_trans wsum_mono)

lemma wsum_Requests: "wsum (Count Requests) D = int (size D)"
  by (induction D) simp_all

definition wide_get :: "tally \<Rightarrow> int \<Rightarrow> int \<Rightarrow> wide \<Rightarrow> int" where
  "wide_get t lat lc c = (case c of Count c \<Rightarrow> tally_get c t | LatencySum \<Rightarrow> lat | LatencyN \<Rightarrow> lc)"

lemma wide_get_simps [simp]: "wide_get t lat lc (Count c) = tally_get c t"
  "wide_get t lat lc LatencySum = lat" "wide_get t lat lc LatencyN = lc"
  by (simp_all add: wide_get_def)

text \<open>The counters are the sums over \<open>D\<close>.\<close>

definition wide_ok :: "tally \<Rightarrow> int \<Rightarrow> int \<Rightarrow> RequestDetail multiset \<Rightarrow> bool" where
  "wide_ok t lat lc D \<longleftrightarrow> (\<forall>c. wide_get t lat lc c = wsum c D)"

definition tally_ok :: "tally \<Rightarrow> RequestDetail multiset \<Rightarrow> bool" where
  "tally_ok t D \<longleftrightarrow> (\<forall>c. tally_get c t = wsum (Count c) D)"

lemma wide_ok_alt: "wide_ok t lat lc D \<longleftrightarrow> tally_ok t D \<and> lat = wsum LatencySum D \<and> lc = wsum LatencyN D"
proof
  assume "wide_ok t lat lc D"
  then have "wide_get t lat lc c = wsum c D" for c by (simp add: wide_ok_def)
  from this [of "Count c" for c] this [of LatencySum] this [of LatencyN]
  show "tally_ok t D \<and> lat = wsum LatencySum D \<and> lc = wsum LatencyN D" by (simp add: tally_ok_def)
next
  assume a: "tally_ok t D \<and> lat = wsum LatencySum D \<and> lc = wsum LatencyN D"
  have "wide_get t lat lc c = wsum c D" for c using a by (cases c) (simp_all add: tally_ok_def)
  then show "wide_ok t lat lc D" by (simp add: wide_ok_def)
qed

lemma tally_ok_zero [simp]: "tally_ok zero_tally {#}"
  by (simp add: tally_ok_def)

lemma wide_ok_zero [simp]: "wide_ok zero_tally 0 0 {#}"
  by (simp add: wide_ok_alt)

lemma tally_ok_inc:
  assumes "tally_ok t D" "sums_fit (add_mset d D)"
  shows "tally_ok (inc_tally (rd_Failed d) (detailTotalsFromRequest d) t) (add_mset d D)"
proof -
  have "tally_get c (inc_tally (rd_Failed d) (detailTotalsFromRequest d) t) = tally_get c t + weight c d" for c
  proof (rule tally_inc)
    show "0 \<le> tally_get c t" for c using assms(1) by (simp add: tally_ok_def)
    fix c
    have "wsum (Count c) (add_mset d D) \<le> MaxInt64" using assms(2) unfolding sums_fit_def ..
    then show "tally_get c t + weight c d \<le> MaxInt64" using assms(1) by (simp add: tally_ok_def)
  qed
  then show ?thesis using assms(1) by (simp add: tally_ok_def)
qed

lemma tally_ok_dec:
  assumes "tally_ok t D" "d \<in># D"
  shows "tally_ok (dec_tally (rd_Failed d) (detailTotalsFromRequest d) t) (D - {#d#})"
proof -
  have "tally_get c (dec_tally (rd_Failed d) (detailTotalsFromRequest d) t) = tally_get c t - weight c d" for c
  proof (rule tally_dec)
    show "weight c d \<le> tally_get c t" for c
      using assms(1) wide_le_wsum [OF assms(2), of "Count c"] by (simp add: tally_ok_def)
  qed
  then show ?thesis using assms by (simp add: tally_ok_def wsum_remove)
qed

lemma wide_ok_inc:
  assumes "wide_ok t lat lc D" "sums_fit (add_mset d D)"
  shows "wide_ok (inc_tally (rd_Failed d) (detailTotalsFromRequest d) t)
    (addNonNegativeInt64 lat (dt_latencySum (detailTotalsFromRequest d)))
    (addNonNegativeInt64 lc (dt_latencyN (detailTotalsFromRequest d))) (add_mset d D)"
proof -
  have "wsum LatencySum (add_mset d D) \<le> MaxInt64" "wsum LatencyN (add_mset d D) \<le> MaxInt64"
    using assms(2) unfolding sums_fit_def by blast+
  then show ?thesis
    using assms tally_ok_inc [of t D d] wsum_nonneg [of LatencySum D] wsum_nonneg [of LatencyN D] totals_nonneg
    by (simp add: wide_ok_alt add_exact)
qed

lemma wide_ok_dec:
  assumes "wide_ok t lat lc D" "d \<in># D"
  shows "wide_ok (dec_tally (rd_Failed d) (detailTotalsFromRequest d) t)
    (subtractNonNegativeInt64 lat (dt_latencySum (detailTotalsFromRequest d)))
    (subtractNonNegativeInt64 lc (dt_latencyN (detailTotalsFromRequest d))) (D - {#d#})"
  using assms tally_ok_dec [of t D d] wide_le_wsum [OF assms(2), of LatencySum]
    wide_le_wsum [OF assms(2), of LatencyN] totals_nonneg
  by (simp add: wide_ok_alt wsum_remove sub_exact)

lemma tally_gone: "tally_ok t D \<Longrightarrow> ta_TotalRequests t \<le> 0 \<Longrightarrow> D = {#}"
proof -
  assume t: "tally_ok t D" and g: "ta_TotalRequests t \<le> 0"
  have "tally_get Requests t = wsum (Count Requests) D" using t unfolding tally_ok_def ..
  then show "D = {#}" using g by (simp add: wsum_Requests)
qed

section \<open>Fitting the other stores\<close>

context counter_store begin

lemma fits_total:
  assumes "\<And>c. (\<Sum>d \<in># D. wt c d) \<le> MaxInt64"
  shows "fits D"
  unfolding fits_def share_def
  by (meson assms multiset_filter_subset order_trans sum_mset_nonneg_sub wt_nonneg)

end

lemma sums_fitD: "sums_fit D \<Longrightarrow> (\<Sum>d \<in># D. wide_weight c d) \<le> MaxInt64"
  by (simp add: sums_fit_def wsum_def)

fun small_wide :: "small_counter \<Rightarrow> wide" where
  "small_wide SRequests = Count Requests" | "small_wide SSuccess = Count Success"
| "small_wide SFailure = Count Failure" | "small_wide STokens = Count TotalTok"

fun ts_wide :: "ts_counter \<Rightarrow> wide" where
  "ts_wide TTotal = Count TotalTok" | "ts_wide TInput = Count InputTok" | "ts_wide TOutput = Count OutputTok"
| "ts_wide TCached = Count CachedTok" | "ts_wide TCacheWrite = Count CacheWriteTok"
| "ts_wide TReasoning = Count ReasoningTok"

fun health_wide :: "health_counter \<Rightarrow> wide" where
  "health_wide HSuccess = Count Success" | "health_wide HFailure = Count Failure"

lemma other_weights:
  "small_weight c d = wide_weight (small_wide c) d"
  "ts_weight ct d = wide_weight (ts_wide ct) d"
  "health_weight ch d = wide_weight (health_wide ch) d"
  "weight cw d = wide_weight (Count cw) d"
  by ((cases c; simp), (cases ct; simp), (cases ch; simp), simp)

lemma fits_stores:
  fixes f :: "RequestDetail \<Rightarrow> 'k"
  assumes "sums_fit D"
  shows "provider_counts.fits D" "source_counts.fits D" "credential_counts.fits D" "health_counts.fits D"
    "series_requests.fits TYPE('k) f D" "series_tokens.fits TYPE('k) f D"
proof -
  note s = sums_fitD [OF assms]
  show "provider_counts.fits D"
    by (rule provider_counts.fits_total) (unfold other_weights, rule s)
  show "source_counts.fits D"
    by (rule source_counts.fits_total) (unfold other_weights, rule s)
  show "credential_counts.fits D"
    by (rule credential_counts.fits_total) (unfold other_weights, rule s)
  show "health_counts.fits D"
    by (rule health_counts.fits_total) (unfold other_weights, rule s)
  show "series_requests.fits TYPE('k) f D"
    by (rule series_requests.fits_total) (use s [of "Count Requests"] in simp)
  show "series_tokens.fits TYPE('k) f D"
    by (rule series_tokens.fits_total) (use s [of "Count TotalTok"] in simp)
qed

lemma fits_ts:
  assumes "sums_fit (image_mset snd D)"
  shows "ts_counts.fits D"
  by (rule ts_counts.fits_total)
    (use sums_fitD [OF assms] in \<open>simp add: other_weights multiset.map_comp comp_def\<close>)

section \<open>Maps of groups\<close>

locale keyed_store =
  fixes key :: "'d \<Rightarrow> 'k"
    and ok :: "'d multiset \<Rightarrow> bool"
    and inv :: "'m \<Rightarrow> 'd multiset \<Rightarrow> bool"
    and blank :: "'d multiset \<Rightarrow> bool"
    and zero :: "'d \<Rightarrow> 'm"
    and inc :: "'d \<Rightarrow> 'm \<Rightarrow> 'm"
    and dec :: "'d \<Rightarrow> 'm \<Rightarrow> 'm"
    and gone :: "'m \<Rightarrow> bool"
  assumes ok_sub: "ok D \<Longrightarrow> E \<subseteq># D \<Longrightarrow> ok E"
    and blank_empty: "blank {#}"
    and blank_dec: "blank D \<Longrightarrow> d \<in># D \<Longrightarrow> blank (D - {#d#})"
    and inv_zero: "blank D \<Longrightarrow> ok (add_mset d D) \<Longrightarrow> inv (inc d (zero d)) (add_mset d D)"
    and inv_inc: "inv m D \<Longrightarrow> ok (add_mset d D) \<Longrightarrow> inv (inc d m) (add_mset d D)"
    and inv_dec: "inv m D \<Longrightarrow> d \<in># D \<Longrightarrow> inv (dec d m) (D - {#d#})"
    and inv_gone: "inv m D \<Longrightarrow> gone m \<Longrightarrow> blank D"
begin

definition keyed_inc :: "'d \<Rightarrow> ('k, 'm) gomap \<Rightarrow> ('k, 'm) gomap" where
  "keyed_inc d M = go_put (key d) (inc d (case go_get M (key d) of None \<Rightarrow> zero d | Some m \<Rightarrow> m)) M"

definition keyed_dec :: "'d \<Rightarrow> ('k, 'm) gomap \<Rightarrow> ('k, 'm) gomap" where
  "keyed_dec d M = (case go_get M (key d) of None \<Rightarrow> M
     | Some m \<Rightarrow> if gone (dec d m) then go_del (key d) M else go_put (key d) (dec d m) M)"

definition keyed :: "('k, 'm) gomap \<Rightarrow> 'd multiset \<Rightarrow> bool" where
  "keyed M D \<longleftrightarrow> (\<forall>k. case go_get M k of None \<Rightarrow> blank (filter_mset (\<lambda>d. key d = k) D)
     | Some m \<Rightarrow> inv m (filter_mset (\<lambda>d. key d = k) D))"

lemma keyedD:
  assumes "keyed M D"
  shows "case go_get M k of None \<Rightarrow> blank (filter_mset (\<lambda>d. key d = k) D)
    | Some m \<Rightarrow> inv m (filter_mset (\<lambda>d. key d = k) D)"
  using assms unfolding keyed_def ..

lemma keyed_empty [simp]: "keyed [] {#}"
  by (simp add: keyed_def blank_empty)

lemma keyed_incI:
  assumes "keyed M D" "ok (add_mset d D)"
  shows "keyed (keyed_inc d M) (add_mset d D)"
  unfolding keyed_def
proof
  fix k
  let ?D = "filter_mset (\<lambda>d. key d = k) D"
  note D = keyedD [OF assms(1), of k]
  show "case go_get (keyed_inc d M) k of None \<Rightarrow> blank (filter_mset (\<lambda>d. key d = k) (add_mset d D))
    | Some m \<Rightarrow> inv m (filter_mset (\<lambda>d. key d = k) (add_mset d D))"
  proof (cases "key d = k")
    case False
    then show ?thesis using D by (simp add: keyed_inc_def cong: option.case_cong)
  next
    case True
    have f: "ok (add_mset d ?D)" using assms(2) by (rule ok_sub) (simp add: multiset_filter_subset)
    show ?thesis
    proof (cases "go_get M k")
      case None
      then show ?thesis using inv_zero [OF _ f] D True by (simp add: keyed_inc_def)
    next
      case (Some m)
      then show ?thesis using inv_inc [OF _ f] D True by (simp add: keyed_inc_def)
    qed
  qed
qed

lemma keyed_decI:
  assumes "keyed M D" "d \<in># D"
  shows "keyed (keyed_dec d M) (D - {#d#})"
  unfolding keyed_def
proof
  fix k
  let ?D = "filter_mset (\<lambda>d. key d = k) D"
  note D = keyedD [OF assms(1), of k]
  show "case go_get (keyed_dec d M) k of None \<Rightarrow> blank (filter_mset (\<lambda>d. key d = k) (D - {#d#}))
    | Some m \<Rightarrow> inv m (filter_mset (\<lambda>d. key d = k) (D - {#d#}))"
  proof (cases "key d = k")
    case False
    then show ?thesis using D by (auto simp: keyed_dec_def split: option.splits)
  next
    case True
    then have i: "d \<in># ?D" using assms(2) by simp
    show ?thesis
    proof (cases "go_get M k")
      case None
      then show ?thesis using blank_dec [OF _ i] D True by (simp add: keyed_dec_def)
    next
      case (Some m)
      then have "inv (dec d m) (?D - {#d#})" using inv_dec [OF _ i] D by simp
      then show ?thesis using inv_gone [of "dec d m"] D True Some by (simp add: keyed_dec_def)
    qed
  qed
qed

end

section \<open>The series of tokens per day and per hour\<close>

text \<open>A day whose map becomes empty is deleted; only details without tokens can be left in it.\<close>

interpretation ts_keyed: keyed_store f "\<lambda>D. sums_fit (image_mset snd D)" ts_counts.counts
  "\<lambda>D. ts_counts.counts [] D" "\<lambda>_. []"
  "\<lambda>e m. incrementTimeSeriesTokenStats m (detailModel (fst e) (snd e)) (rd_Provider (snd e)) (detailTotalsFromRequest (snd e))"
  "\<lambda>e m. fst (decrementTimeSeriesTokenStats m (detailModel (fst e) (snd e)) (rd_Provider (snd e)) (detailTotalsFromRequest (snd e)))"
  "\<lambda>m. m = []" for f :: "string \<times> RequestDetail \<Rightarrow> 'k"
proof (unfold_locales, goal_cases)
  case (1 D E)
  then show ?case by (meson sums_fit_sub image_mset_subseteq_mono)
next
  case 2
  then show ?case by (simp add: ts_counts.counts_def ts_look_def)
next
  case (3 D d)
  have "fst (decrementTimeSeriesTokenStats [] (detailModel (fst d) (snd d)) (rd_Provider (snd d)) (detailTotalsFromRequest (snd d))) = []"
    by (simp add: decrementTimeSeriesTokenStats_def Let_def)
  then show ?case using ts_counts.counts_dec [OF 3] by simp
next
  case (4 D d)
  then show ?case by (intro ts_counts.counts_inc fits_ts)
next
  case (5 m D d)
  then show ?case by (intro ts_counts.counts_inc fits_ts)
next
  case (6 m D d)
  then show ?case by (rule ts_counts.counts_dec)
qed simp

lemma ts_series_add_keyed:
  "ts_series_add (f (n, d)) (detailModel n d) (rd_Provider d) (detailTotalsFromRequest d) m =
   ts_keyed.keyed_inc f (n, d) m"
  by (simp add: ts_series_add_def ts_keyed.keyed_inc_def go_getd_def)

lemma ts_series_sub_keyed:
  "fst (ts_series_sub (f (n, d)) (detailModel n d) (rd_Provider d) (detailTotalsFromRequest d) m) =
   ts_keyed.keyed_dec f (n, d) m"
  by (simp add: ts_series_sub_def ts_keyed.keyed_dec_def split: option.split prod.split)

section \<open>Summary per model\<close>

type_synonym model_summary_map = "(string, ModelStat) gomap"

definition new_model_stat :: "string \<Rightarrow> ModelStat" where
  "new_model_stat modelName = \<lparr> ms_Model = modelName, ms_tally = zero_tally, ms_AvgLatencyMs = Fin 0,
     ms_EstimatedCost = Fin 0, ms_Providers = [], ms_latencySum = 0, ms_latencyN = 0, ms_providerStats = [] \<rparr>"

definition inc_model_stat :: "RequestDetail \<Rightarrow> detailTotals \<Rightarrow> float64 \<Rightarrow> ModelStat \<Rightarrow> ModelStat" where
  "inc_model_stat detail totals cost stat =
     stat\<lparr> ms_tally := inc_tally (rd_Failed detail) totals (ms_tally stat),
           ms_latencySum := addNonNegativeInt64 (ms_latencySum stat) (dt_latencySum totals),
           ms_latencyN := addNonNegativeInt64 (ms_latencyN stat) (dt_latencyN totals),
           ms_providerStats := incrementModelProviderStats (ms_providerStats stat) (rd_Provider detail)
             (rd_Failed detail) totals,
           ms_EstimatedCost := addNonNegativeCost (ms_EstimatedCost stat) cost \<rparr>"

definition dec_model_stat :: "RequestDetail \<Rightarrow> detailTotals \<Rightarrow> float64 \<Rightarrow> ModelStat \<Rightarrow> ModelStat" where
  "dec_model_stat detail totals cost stat =
     stat\<lparr> ms_tally := dec_tally (rd_Failed detail) totals (ms_tally stat),
           ms_latencySum := subtractNonNegativeInt64 (ms_latencySum stat) (dt_latencySum totals),
           ms_latencyN := subtractNonNegativeInt64 (ms_latencyN stat) (dt_latencyN totals),
           ms_providerStats := decrementModelProviderStats (ms_providerStats stat) (rd_Provider detail)
             (rd_Failed detail) totals,
           ms_EstimatedCost := subtractNonNegativeCost (ms_EstimatedCost stat) cost \<rparr>"

definition incrementModelSummaryStatsWithCostLocked ::
  "string \<Rightarrow> RequestDetail \<Rightarrow> detailTotals \<Rightarrow> float64 \<Rightarrow> model_summary_map \<Rightarrow> model_summary_map" where
  "incrementModelSummaryStatsWithCostLocked modelName detail totals cost m =
     (let stat = (case go_get m modelName of None \<Rightarrow> new_model_stat modelName | Some stat \<Rightarrow> stat)
      in go_put modelName (inc_model_stat detail totals cost stat) m)"

definition decrementModelSummaryStatsLocked ::
  "string \<Rightarrow> RequestDetail \<Rightarrow> detailTotals \<Rightarrow> float64 \<Rightarrow> model_summary_map \<Rightarrow> model_summary_map" where
  "decrementModelSummaryStatsLocked modelName detail totals cost m =
     (case go_get m modelName of
        None \<Rightarrow> m
      | Some stat \<Rightarrow>
          let stat = dec_model_stat detail totals cost stat
          in if ta_TotalRequests (ms_tally stat) \<le> 0 then go_del modelName m else go_put modelName stat m)"

definition model_stat_ok :: "ModelStat \<Rightarrow> (string \<times> RequestDetail) multiset \<Rightarrow> bool" where
  "model_stat_ok stat D \<longleftrightarrow>
     wide_ok (ms_tally stat) (ms_latencySum stat) (ms_latencyN stat) (image_mset snd D) \<and>
     provider_counts.counts (ms_providerStats stat) (image_mset snd D)"

lemma provider_counts_Nil [simp]: "provider_counts.counts [] {#}"
  by (simp add: provider_counts.counts_def provider_look_def)

lemma image_snd_remove: "e \<in># D \<Longrightarrow> image_mset snd (D - {#e#}) = image_mset snd D - {#snd e#}"
  by (simp add: image_mset_Diff)

lemma snd_mem: "e \<in># D \<Longrightarrow> snd e \<in># image_mset snd D"
  by auto

lemma model_stat_ok_inc:
  assumes "model_stat_ok m D" "sums_fit (image_mset snd (add_mset e D))"
  shows "model_stat_ok (inc_model_stat (snd e) (detailTotalsFromRequest (snd e)) cost m) (add_mset e D)"
  using assms wide_ok_inc provider_counts.counts_inc fits_stores(1)
  by (simp add: model_stat_ok_def inc_model_stat_def)

lemma model_stat_ok_dec:
  assumes "model_stat_ok m D" "e \<in># D"
  shows "model_stat_ok (dec_model_stat (snd e) (detailTotalsFromRequest (snd e)) cost m) (D - {#e#})"
  using assms wide_ok_dec [OF _ snd_mem [OF assms(2)]] provider_counts.counts_dec [OF _ snd_mem [OF assms(2)]]
  by (simp add: model_stat_ok_def dec_model_stat_def image_snd_remove)

interpretation model_summary: keyed_store fst "\<lambda>D. sums_fit (image_mset snd D)" model_stat_ok
  "\<lambda>D. D = {#}" "\<lambda>e. new_model_stat (fst e)"
  "\<lambda>e. inc_model_stat (snd e) (detailTotalsFromRequest (snd e)) (cost e)"
  "\<lambda>e. dec_model_stat (snd e) (detailTotalsFromRequest (snd e)) (cost e)"
  "\<lambda>m. ta_TotalRequests (ms_tally m) \<le> 0" for cost :: "string \<times> RequestDetail \<Rightarrow> float64"
proof (unfold_locales, goal_cases)
  case (1 D E)
  then show ?case by (meson sums_fit_sub image_mset_subseteq_mono)
next
  case (4 D d)
  moreover have "model_stat_ok (new_model_stat (fst d)) {#}"
    by (simp add: model_stat_ok_def new_model_stat_def)
  ultimately show ?case by (simp only:) (rule model_stat_ok_inc)
next
  case (5 m D d)
  then show ?case by (rule model_stat_ok_inc)
next
  case (6 m D d)
  then show ?case by (rule model_stat_ok_dec)
next
  case (7 m D)
  then show ?case using tally_gone [of "ms_tally m" "image_mset snd D"] by (simp add: model_stat_ok_def wide_ok_alt)
qed simp_all

lemma model_summary_inc:
  "incrementModelSummaryStatsWithCostLocked n d (detailTotalsFromRequest d) (cost (n, d)) m =
   model_summary.keyed_inc cost (n, d) m"
  by (simp add: incrementModelSummaryStatsWithCostLocked_def model_summary.keyed_inc_def cong: option.case_cong)

lemma model_summary_dec:
  "decrementModelSummaryStatsLocked n d (detailTotalsFromRequest d) (cost (n, d)) m =
   model_summary.keyed_dec cost (n, d) m"
  by (simp add: decrementModelSummaryStatsLocked_def model_summary.keyed_dec_def Let_def split: option.split)

section \<open>Summary per client key\<close>

type_synonym client_map = "(string, clientAPIStatAccumulator) gomap"

definition new_client_model :: "string \<Rightarrow> ClientAPIModelStat" where
  "new_client_model modelName = \<lparr> cm_Model = modelName, cm_tally = zero_tally, cm_EstimatedCost = Fin 0,
     cm_Providers = [], cm_providerStats = [] \<rparr>"

definition inc_client_model :: "RequestDetail \<Rightarrow> detailTotals \<Rightarrow> float64 \<Rightarrow> ClientAPIModelStat \<Rightarrow> ClientAPIModelStat" where
  "inc_client_model detail totals cost cm =
     cm\<lparr> cm_tally := inc_tally (rd_Failed detail) totals (cm_tally cm),
         cm_providerStats := incrementModelProviderStats (cm_providerStats cm) (rd_Provider detail)
           (rd_Failed detail) totals,
         cm_EstimatedCost := addNonNegativeCost (cm_EstimatedCost cm) cost \<rparr>"

definition dec_client_model :: "RequestDetail \<Rightarrow> detailTotals \<Rightarrow> float64 \<Rightarrow> ClientAPIModelStat \<Rightarrow> ClientAPIModelStat" where
  "dec_client_model detail totals cost cm =
     cm\<lparr> cm_tally := dec_tally (rd_Failed detail) totals (cm_tally cm),
         cm_EstimatedCost := subtractNonNegativeCost (cm_EstimatedCost cm) cost,
         cm_providerStats := decrementModelProviderStats (cm_providerStats cm) (rd_Provider detail)
           (rd_Failed detail) totals \<rparr>"

definition new_client :: "RequestDetail \<Rightarrow> clientAPIStatAccumulator" where
  "new_client detail =
     \<lparr> cc_stat = \<lparr> ca_APIKey = clientAPIGroupLabel detail, ca_APIKeyHash = rd_APIKeyHash detail,
         ca_Selector = [], ca_tally = zero_tally, ca_EstimatedCost = Fin 0, ca_Models = [] \<rparr>,
       cc_models = [] \<rparr>"

definition inc_client :: "string \<Rightarrow> RequestDetail \<Rightarrow> detailTotals \<Rightarrow> float64 \<Rightarrow>
    clientAPIStatAccumulator \<Rightarrow> clientAPIStatAccumulator" where
  "inc_client modelName detail totals cost agg =
     (let stat = cc_stat agg;
          stat = stat\<lparr> ca_tally := inc_tally (rd_Failed detail) totals (ca_tally stat),
                       ca_EstimatedCost := addNonNegativeCost (ca_EstimatedCost stat) cost \<rparr>;
          clientModel = (case go_get (cc_models agg) modelName of
              None \<Rightarrow> new_client_model modelName | Some cm \<Rightarrow> cm)
      in \<lparr> cc_stat = stat,
           cc_models = go_put modelName (inc_client_model detail totals cost clientModel) (cc_models agg) \<rparr>)"

definition dec_client :: "string \<Rightarrow> RequestDetail \<Rightarrow> detailTotals \<Rightarrow> float64 \<Rightarrow>
    clientAPIStatAccumulator \<Rightarrow> clientAPIStatAccumulator" where
  "dec_client modelName detail totals cost agg =
     (let stat = cc_stat agg;
          stat = stat\<lparr> ca_tally := dec_tally (rd_Failed detail) totals (ca_tally stat),
                       ca_EstimatedCost := subtractNonNegativeCost (ca_EstimatedCost stat) cost \<rparr>
      in \<lparr> cc_stat = stat,
           cc_models = (case go_get (cc_models agg) modelName of
               None \<Rightarrow> cc_models agg
             | Some cm \<Rightarrow>
                 let cm = dec_client_model detail totals cost cm
                 in if ta_TotalRequests (cm_tally cm) \<le> 0 then go_del modelName (cc_models agg)
                    else go_put modelName cm (cc_models agg)) \<rparr>)"

text \<open>The client part of the two summary functions.\<close>

definition incrementClientStats :: "string \<Rightarrow> RequestDetail \<Rightarrow> detailTotals \<Rightarrow> float64 \<Rightarrow> client_map \<Rightarrow> client_map" where
  "incrementClientStats modelName detail totals cost m =
     (let clientKey = clientAPIGroupKey detail;
          agg = (case go_get m clientKey of None \<Rightarrow> new_client detail | Some agg \<Rightarrow> agg)
      in go_put clientKey (inc_client modelName detail totals cost agg) m)"

definition decrementClientStats :: "string \<Rightarrow> RequestDetail \<Rightarrow> detailTotals \<Rightarrow> float64 \<Rightarrow> client_map \<Rightarrow> client_map" where
  "decrementClientStats modelName detail totals cost m =
     (let clientKey = clientAPIGroupKey detail
      in case go_get m clientKey of
           None \<Rightarrow> m
         | Some agg \<Rightarrow>
             let agg = dec_client modelName detail totals cost agg
             in if ta_TotalRequests (ca_tally (cc_stat agg)) \<le> 0 then go_del clientKey m
                else go_put clientKey agg m)"

definition client_model_ok :: "ClientAPIModelStat \<Rightarrow> (string \<times> RequestDetail) multiset \<Rightarrow> bool" where
  "client_model_ok cm D \<longleftrightarrow> tally_ok (cm_tally cm) (image_mset snd D) \<and>
     provider_counts.counts (cm_providerStats cm) (image_mset snd D)"

lemma client_model_ok_inc:
  assumes "client_model_ok m D" "sums_fit (image_mset snd (add_mset e D))"
  shows "client_model_ok (inc_client_model (snd e) (detailTotalsFromRequest (snd e)) cost m) (add_mset e D)"
  using assms tally_ok_inc provider_counts.counts_inc fits_stores(1)
  by (simp add: client_model_ok_def inc_client_model_def)

lemma client_model_ok_dec:
  assumes "client_model_ok m D" "e \<in># D"
  shows "client_model_ok (dec_client_model (snd e) (detailTotalsFromRequest (snd e)) cost m) (D - {#e#})"
  using assms tally_ok_dec [OF _ snd_mem [OF assms(2)]] provider_counts.counts_dec [OF _ snd_mem [OF assms(2)]]
  by (simp add: client_model_ok_def dec_client_model_def image_snd_remove)

interpretation client_models: keyed_store fst "\<lambda>D. sums_fit (image_mset snd D)" client_model_ok
  "\<lambda>D. D = {#}" "\<lambda>e. new_client_model (fst e)"
  "\<lambda>e. inc_client_model (snd e) (detailTotalsFromRequest (snd e)) (cost e)"
  "\<lambda>e. dec_client_model (snd e) (detailTotalsFromRequest (snd e)) (cost e)"
  "\<lambda>m. ta_TotalRequests (cm_tally m) \<le> 0" for cost :: "string \<times> RequestDetail \<Rightarrow> float64"
proof (unfold_locales, goal_cases)
  case (1 D E)
  then show ?case by (meson sums_fit_sub image_mset_subseteq_mono)
next
  case (4 D d)
  moreover have "client_model_ok (new_client_model (fst d)) {#}"
    by (simp add: client_model_ok_def new_client_model_def)
  ultimately show ?case by (simp only:) (rule client_model_ok_inc)
next
  case (5 m D d)
  then show ?case by (rule client_model_ok_inc)
next
  case (6 m D d)
  then show ?case by (rule client_model_ok_dec)
next
  case (7 m D)
  then show ?case using tally_gone [of "cm_tally m" "image_mset snd D"] by (simp add: client_model_ok_def)
qed simp_all

lemma inc_client_keyed:
  "cc_models (inc_client (fst e) (snd e) (detailTotalsFromRequest (snd e)) (cost e) agg) =
   client_models.keyed_inc cost e (cc_models agg)"
  by (simp add: inc_client_def client_models.keyed_inc_def Let_def)

lemma dec_client_keyed:
  "cc_models (dec_client (fst e) (snd e) (detailTotalsFromRequest (snd e)) (cost e) agg) =
   client_models.keyed_dec cost e (cc_models agg)"
  by (simp add: dec_client_def client_models.keyed_dec_def Let_def split: option.split)

text \<open>The invariant of a client: its own counters and those of its models and their providers.\<close>

definition client_ok :: "clientAPIStatAccumulator \<Rightarrow> (string \<times> RequestDetail) multiset \<Rightarrow> bool" where
  "client_ok agg D \<longleftrightarrow> tally_ok (ca_tally (cc_stat agg)) (image_mset snd D) \<and>
     client_models.keyed (cc_models agg) D"

lemma client_ok_inc:
  assumes "client_ok m D" "sums_fit (image_mset snd (add_mset e D))"
  shows "client_ok (inc_client (fst e) (snd e) (detailTotalsFromRequest (snd e)) (cost e) m) (add_mset e D)"
proof -
  have "ca_tally (cc_stat (inc_client (fst e) (snd e) (detailTotalsFromRequest (snd e)) (cost e) m)) =
      inc_tally (rd_Failed (snd e)) (detailTotalsFromRequest (snd e)) (ca_tally (cc_stat m))"
    by (simp add: inc_client_def Let_def)
  then show ?thesis
    using assms tally_ok_inc [of "ca_tally (cc_stat m)" "image_mset snd D" "snd e"]
      client_models.keyed_incI [of "cc_models m" D e cost]
    by (simp add: client_ok_def inc_client_keyed)
qed

lemma client_ok_dec:
  assumes "client_ok m D" "e \<in># D"
  shows "client_ok (dec_client (fst e) (snd e) (detailTotalsFromRequest (snd e)) (cost e) m) (D - {#e#})"
proof -
  have "ca_tally (cc_stat (dec_client (fst e) (snd e) (detailTotalsFromRequest (snd e)) (cost e) m)) =
      dec_tally (rd_Failed (snd e)) (detailTotalsFromRequest (snd e)) (ca_tally (cc_stat m))"
    by (simp add: dec_client_def Let_def)
  then show ?thesis
    using assms tally_ok_dec [OF _ snd_mem [OF assms(2)], of "ca_tally (cc_stat m)"]
      client_models.keyed_decI [of "cc_models m" D e cost]
    by (simp add: client_ok_def dec_client_keyed image_snd_remove)
qed

interpretation clients: keyed_store "\<lambda>e. clientAPIGroupKey (snd e)" "\<lambda>D. sums_fit (image_mset snd D)" client_ok
  "\<lambda>D. D = {#}" "\<lambda>e. new_client (snd e)"
  "\<lambda>e. inc_client (fst e) (snd e) (detailTotalsFromRequest (snd e)) (cost e)"
  "\<lambda>e. dec_client (fst e) (snd e) (detailTotalsFromRequest (snd e)) (cost e)"
  "\<lambda>m. ta_TotalRequests (ca_tally (cc_stat m)) \<le> 0" for cost :: "string \<times> RequestDetail \<Rightarrow> float64"
proof (unfold_locales, goal_cases)
  case (1 D E)
  then show ?case by (meson sums_fit_sub image_mset_subseteq_mono)
next
  case (4 D d)
  moreover have "client_ok (new_client (snd d)) {#}"
    by (simp add: client_ok_def new_client_def)
  ultimately show ?case by (simp only:) (rule client_ok_inc)
next
  case (5 m D d)
  then show ?case by (rule client_ok_inc)
next
  case (6 m D d)
  then show ?case by (rule client_ok_dec)
next
  case (7 m D)
  then show ?case using tally_gone [of "ca_tally (cc_stat m)" "image_mset snd D"] by (simp add: client_ok_def)
qed simp_all

lemma clients_inc:
  "incrementClientStats n d (detailTotalsFromRequest d) (cost (n, d)) m = clients.keyed_inc cost (n, d) m"
  by (simp add: incrementClientStats_def clients.keyed_inc_def Let_def cong: option.case_cong)

lemma clients_dec:
  "decrementClientStats n d (detailTotalsFromRequest d) (cost (n, d)) m = clients.keyed_dec cost (n, d) m"
  by (simp add: decrementClientStats_def clients.keyed_dec_def Let_def split: option.split)

end
