(* ===== verification/QuotaPeriods.thy ===== *)
theory QuotaPeriods
  imports GoStrings GoFloat GoTime
begin

text \<open>
  The observed periods of a quota window (\<open>go/quota_cycles.go\<close>, \<open>go/quota_pricing.go\<close>,
  \<open>go/quota_signals.go\<close>, \<open>go/quota_storage.go\<close>): the samples of a period with their compaction, the
  detection of resets in them, and the archive of the part that an early reset has ended.
\<close>

section \<open>Observations\<close>

record quotaObservation =
  qo_Source :: string
  qo_CollectionStartedAt :: gotime
  qo_Provider :: string
  qo_AuthIndex :: string
  qo_AuthID :: string
  qo_Group :: string
  qo_Name :: string
  qo_Slot :: string
  qo_Seconds :: int
  qo_Reset :: gotime
  qo_ObservedAt :: gotime
  qo_Used :: float64
  qo_Model :: string
  qo_Unmapped :: bool
  qo_Revoked :: bool

record quotaPeriod =
  qp_EndedByReset :: bool
  qp_ResetTimeEstimated :: bool
  qp_Start :: gotime
  qp_End :: gotime
  qp_CollectionStartedAt :: gotime
  qp_Samples :: "quotaObservation list"

definition quotaProvider :: "string \<Rightarrow> bool" where
  "quotaProvider provider \<longleftrightarrow>
     go_ToLower (go_TrimSpace provider) \<in> {''claude'', ''codex'', ''devin'', ''antigravity''}"

abbreviation NUL :: char where
  "NUL \<equiv> CHR 0x00"

definition quotaCredentialKey :: "string \<Rightarrow> string \<Rightarrow> string \<Rightarrow> string" where
  "quotaCredentialKey provider index id' = go_ToLower (go_TrimSpace provider) @ [NUL] @ index @ [NUL] @ id'"

definition quotaWindowKey :: "quotaObservation \<Rightarrow> string" where
  "quotaWindowKey ob =
     (let key = quotaCredentialKey (qo_Provider ob) (qo_AuthIndex ob) (qo_AuthID ob) @ [NUL] @ qo_Group ob @ [NUL] @ qo_Slot ob
      in if qo_Source ob \<noteq> [] then key @ [NUL] @ qo_Source ob else key)"

definition quotaSourceValid :: "string \<Rightarrow> string \<Rightarrow> bool" where
  "quotaSourceValid provider source \<longleftrightarrow>
     source = [] \<or> provider = ''antigravity'' \<and> (source = ''hub-daily'' \<or> source = ''hub-production'')"

text \<open>\<open>time.Duration(seconds) * time.Second\<close>; at most 366 days, so it does not overflow.\<close>

definition of_seconds :: "int \<Rightarrow> duration" where
  "of_seconds seconds = seconds * time_Second"

definition max_seconds :: int where
  "max_seconds = 366 * 86400"

definition validQuotaObservation :: "quotaObservation \<Rightarrow> bool" where
  "validQuotaObservation ob \<longleftrightarrow>
     (let identityValid = quotaProvider (qo_Provider ob) \<and> (qo_AuthIndex ob \<noteq> [] \<or> qo_AuthID ob \<noteq> []) \<and>
            length (qo_AuthID ob) \<le> 512 \<and> length (qo_AuthIndex ob) \<le> 512 \<and> qo_Group ob \<noteq> [] \<and>
            length (qo_Group ob) \<le> 256 \<and> qo_Slot ob \<noteq> [] \<and> length (qo_Slot ob) \<le> 64 \<and> length (qo_Name ob) \<le> 256 \<and>
            \<not> time_IsZero (qo_ObservedAt ob) \<and> quotaSourceValid (qo_Provider ob) (qo_Source ob)
      in if \<not> identityValid \<or> qo_Revoked ob then identityValid \<and> qo_Revoked ob
         else qo_Seconds ob > 0 \<and> qo_Seconds ob \<le> max_seconds \<and> \<not> time_IsZero (qo_Reset ob) \<and>
           qo_Used ob \<noteq> NaN \<and> qo_Used ob \<noteq> PInf \<and> qo_Used ob \<noteq> NInf \<and> f_le (Fin 0) (qo_Used ob) \<and> f_le (qo_Used ob) (Fin 1) \<and>
           \<not> time_Before (qo_ObservedAt ob) (time_Add (qo_Reset ob) (- of_seconds (qo_Seconds ob))) \<and>
           \<not> time_After (qo_ObservedAt ob) (qo_Reset ob))"

definition quotaSameObservation :: "quotaObservation \<Rightarrow> quotaObservation \<Rightarrow> bool" where
  "quotaSameObservation a b \<longleftrightarrow>
     qo_Provider a = qo_Provider b \<and> qo_AuthIndex a = qo_AuthIndex b \<and> qo_AuthID a = qo_AuthID b \<and> qo_Source a = qo_Source b \<and>
     qo_Group a = qo_Group b \<and> qo_Name a = qo_Name b \<and> qo_Slot a = qo_Slot b \<and> qo_Seconds a = qo_Seconds b \<and>
     time_Equal (qo_Reset a) (qo_Reset b) \<and> time_Equal (qo_ObservedAt a) (qo_ObservedAt b) \<and> f_eq (qo_Used a) (qo_Used b) \<and>
     qo_Model a = qo_Model b \<and> qo_Unmapped a = qo_Unmapped b \<and> qo_Revoked a = qo_Revoked b"

section \<open>Resets\<close>

definition quotaResetDropTolerance :: float64 where
  "quotaResetDropTolerance = roundf (1 / 50)"

definition quotaResetCandidate :: "float64 \<Rightarrow> float64 \<Rightarrow> bool" where
  "quotaResetCandidate peak used \<longleftrightarrow> f_lt used (f_sub peak quotaResetDropTolerance) \<or> (f_eq used (Fin 0) \<and> f_lt (Fin 0) peak)"

text \<open>The indices \<open>peak\<close>, \<open>drop\<close> and \<open>current\<close> of the loop; \<open>None\<close> is the code's -1.\<close>

definition latest_reset_step ::
  "quotaObservation list \<Rightarrow> gotime \<Rightarrow> nat \<Rightarrow> (nat \<times> nat) option \<times> nat option \<Rightarrow> (nat \<times> nat) option \<times> nat option" where
  "latest_reset_step samples end' i = (\<lambda>(found, current).
     (case current of
        None \<Rightarrow> (found, Some i)
      | Some c \<Rightarrow>
          if i + 1 < length samples \<and> time_Before (qo_ObservedAt (samples ! i)) end' \<and>
             quotaResetCandidate (qo_Used (samples ! c)) (qo_Used (samples ! i)) \<and>
             f_lt (qo_Used (samples ! (i + 1))) (f_div_const (f_add (qo_Used (samples ! c)) (qo_Used (samples ! i))) 2)
          then (Some (c, i), Some i)
          else if f_lt (qo_Used (samples ! c)) (qo_Used (samples ! i)) then (found, Some i)
          else (found, Some c)))"

definition quotaLatestReset :: "quotaObservation list \<Rightarrow> gotime \<Rightarrow> (nat \<times> nat) option" where
  "quotaLatestReset samples end' = fst (fold (latest_reset_step samples end') [0..<length samples] (None, None))"

definition quotaPreResetSamples :: "quotaPeriod \<Rightarrow> nat" where
  "quotaPreResetSamples p =
     (let threshold = max (time_Sub (qp_End p) (qp_Start p) div 24) time_Minute
      in fold (\<lambda>i count'. if time_Sub (qp_End p) (qo_Reset (qp_Samples p ! i)) > threshold then i + 1 else count')
           [0..<length (qp_Samples p)] 0)"

definition quotaSamplesConsumed :: "quotaObservation list \<Rightarrow> bool" where
  "quotaSamplesConsumed samples \<longleftrightarrow> list_ex (\<lambda>sample. f_lt (Fin 0) (qo_Used sample)) samples"

definition empty_period :: quotaPeriod where
  "empty_period = \<lparr> qp_EndedByReset = False, qp_ResetTimeEstimated = False, qp_Start = zero_time, qp_End = zero_time,
     qp_CollectionStartedAt = zero_time, qp_Samples = [] \<rparr>"

text \<open>
  A reset that the moved deadline shows: \<open>before\<close> samples carry the earlier deadline, and \<open>prior\<close> is
  the effective part of the period that they form.
\<close>

definition prior_period :: "quotaPeriod \<Rightarrow> nat \<Rightarrow> quotaPeriod" where
  "prior_period p before =
     (let final = qp_Samples p ! (before - 1)
      in empty_period\<lparr> qp_Start := time_Add (qo_Reset final) (- time_Sub (qp_End p) (qp_Start p)),
           qp_End := qo_Reset final, qp_Samples := take before (qp_Samples p) \<rparr>)"

definition after_deadline :: "quotaPeriod \<Rightarrow> nat \<Rightarrow> quotaPeriod \<times> float64 option \<Rightarrow> quotaPeriod \<times> bool" where
  "after_deadline p before = (\<lambda>(prior, priorReset).
     if quotaSamplesConsumed (qp_Samples prior)
     then let final = qp_Samples p ! (before - 1);
              copy = p\<lparr> qp_Samples := drop before (qp_Samples p) \<rparr>;
              first = qp_Samples copy ! 0
          in (if time_Before (qp_Start p) (qo_ObservedAt final) \<or> time_After (qp_Start p) (qo_ObservedAt first)
              then copy\<lparr> qp_Start := qo_ObservedAt first, qp_ResetTimeEstimated := True \<rparr> else copy, True)
     else if priorReset \<noteq> None
     then (p\<lparr> qp_Start := qp_Start prior, qp_ResetTimeEstimated := qp_ResetTimeEstimated prior,
              qp_Samples := drop (before - length (qp_Samples prior)) (qp_Samples p) \<rparr>, True)
     else (p, False))"

text \<open>A reset that a decrease of the usage shows.\<close>

definition after_decrease :: "quotaPeriod \<times> bool \<Rightarrow> quotaPeriod \<times> bool" where
  "after_decrease = (\<lambda>(copy, reset).
     (case quotaLatestReset (qp_Samples copy) (qp_End copy) of
        None \<Rightarrow> (copy, reset)
      | Some (_, index) \<Rightarrow>
          (copy\<lparr> qp_Start := qo_ObservedAt (qp_Samples copy ! index), qp_Samples := drop index (qp_Samples copy),
                 qp_ResetTimeEstimated := True \<rparr>, True)))"

text \<open>
  The part of a period since its latest reset, and whether there was one; the second result is the
  code's used percentage at its start.  The calls of the code with a nil period are at the callers.
\<close>

function quotaEffectivePeriod :: "quotaPeriod \<Rightarrow> quotaPeriod \<times> float64 option" where
  "quotaEffectivePeriod p =
     (let before = quotaPreResetSamples p;
          (copy, reset) = after_decrease
            (if 0 < before \<and> before < length (qp_Samples p)
             then after_deadline p before (quotaEffectivePeriod (prior_period p before)) else (p, False))
      in if \<not> reset then (p, None) else (copy, Some (f_mul (qo_Used (qp_Samples copy ! 0)) (Fin 100))))"
  by pat_completeness auto
termination
  by (relation "measure (\<lambda>p. length (qp_Samples p))") (simp_all add: prior_period_def Let_def)

declare quotaEffectivePeriod.simps [simp del]

definition quotaEmptyResetArchive :: "quotaPeriod option \<Rightarrow> bool" where
  "quotaEmptyResetArchive q = (case q of None \<Rightarrow> False
     | Some p \<Rightarrow> qp_EndedByReset p \<and> length (qp_Samples p) > 0 \<and> \<not> quotaSamplesConsumed (qp_Samples p))"

section \<open>Samples\<close>

text \<open>The indices that compaction keeps, as a list without repetition.\<close>

definition keep_index :: "nat \<Rightarrow> nat list \<Rightarrow> nat list" where
  "keep_index i keep = (if i \<in> set keep then keep else keep @ [i])"

definition keep_sample :: "nat \<Rightarrow> int \<Rightarrow> nat list \<Rightarrow> nat list" where
  "keep_sample n i keep = (if 0 \<le> i \<and> i < int n then keep_index (nat i) keep else keep)"

definition first_index :: "(quotaObservation \<Rightarrow> bool) \<Rightarrow> quotaObservation list \<Rightarrow> nat list \<Rightarrow> nat option" where
  "first_index P samples order = List.find (\<lambda>i. P (samples ! i)) order"

definition kept_indices :: "quotaPeriod \<Rightarrow> nat list" where
  "kept_indices period =
     (let samples = qp_Samples period;
          n = length samples;
          first = (case first_index (\<lambda>s. \<not> time_Before (qo_ObservedAt s) (qp_CollectionStartedAt period)) samples [0..<n] of
                     None \<Rightarrow> -1 | Some i \<Rightarrow> int i);
          (peak, drop) = (case quotaLatestReset samples (qp_End period) of None \<Rightarrow> (-1, -1) | Some (p, d) \<Rightarrow> (int p, int d));
          deadline = int (quotaPreResetSamples period);
          keep = fold (keep_sample n) [first, peak, drop, drop + 1, deadline - 1, deadline] [0];
          keep = (case first_index (\<lambda>s. f_eq (qo_Used s) (Fin 1)) samples (rev [0..<n]) of None \<Rightarrow> keep | Some i \<Rightarrow> keep_index i keep)
      in fold (\<lambda>i keep. if length keep < 64 then keep_index i keep else keep) (rev [0..<n]) keep)"

definition quotaCompactSamples :: "quotaPeriod \<Rightarrow> quotaPeriod" where
  "quotaCompactSamples period =
     (if length (qp_Samples period) > 64
      then period\<lparr> qp_Samples := nths (qp_Samples period) (set (kept_indices period)) \<rparr> else period)"

definition sort_samples :: "quotaObservation list \<Rightarrow> quotaObservation list" where
  "sort_samples = sort_key (\<lambda>ob. t_ns (qo_ObservedAt ob))"

text \<open>The period after the sample was added, or \<open>None\<close> when it has the sample already.\<close>

definition quotaAppendSample :: "quotaPeriod \<Rightarrow> quotaObservation \<Rightarrow> gotime \<Rightarrow> quotaPeriod option" where
  "quotaAppendSample period ob started =
     (if list_ex (\<lambda>old. quotaSameObservation old ob) (qp_Samples period) then None
      else let period = period\<lparr> qp_Samples := qp_Samples period @ [ob] \<rparr>;
               period = (if time_IsZero (qp_CollectionStartedAt period) \<or>
                             (\<not> time_Before (qo_ObservedAt ob) started \<and> time_After started (qp_CollectionStartedAt period))
                         then period\<lparr> qp_CollectionStartedAt := started \<rparr> else period);
               period = period\<lparr> qp_Samples := sort_samples (qp_Samples period) \<rparr>
           in Some (quotaCompactSamples period))"

text \<open>A call whose result is ignored.\<close>

definition append_sample :: "quotaPeriod \<Rightarrow> quotaObservation \<Rightarrow> gotime \<Rightarrow> quotaPeriod" where
  "append_sample period ob started = (case quotaAppendSample period ob started of None \<Rightarrow> period | Some p \<Rightarrow> p)"

section \<open>Windows\<close>

record quotaWindow =
  qw_Source :: string
  qw_Provider :: string
  qw_AuthIndex :: string
  qw_AuthID :: string
  qw_Group :: string
  qw_Name :: string
  qw_Slot :: string
  qw_Seconds :: int
  qw_Model :: string
  qw_Unmapped :: bool
  qw_Hidden :: bool
  qw_UpdatedAt :: gotime
  qw_Current :: "quotaPeriod option"
  qw_Previous :: "quotaPeriod option"

definition quotaDropEmptyResetArchive :: "quotaWindow \<Rightarrow> quotaWindow" where
  "quotaDropEmptyResetArchive w = (if quotaEmptyResetArchive (qw_Previous w) then w\<lparr> qw_Previous := None \<rparr> else w)"

definition quotaWindowObservedAt :: "quotaWindow \<Rightarrow> gotime" where
  "quotaWindowObservedAt w =
     fold (\<lambda>q latest. case q of None \<Rightarrow> latest
         | Some p \<Rightarrow> if qp_Samples p \<noteq> [] \<and> time_After (qo_ObservedAt (last (qp_Samples p))) latest
                    then qo_ObservedAt (last (qp_Samples p)) else latest)
       [qw_Current w, qw_Previous w] zero_time"

definition quotaResetDriftIsSmall :: "gotime \<Rightarrow> gotime \<Rightarrow> int \<Rightarrow> bool" where
  "quotaResetDriftIsSmall previous next seconds \<longleftrightarrow>
     (let tolerance = min time_Minute (of_seconds seconds div 4);
          drift = time_Sub next previous
      in drift \<ge> - tolerance \<and> drift \<le> tolerance)"

definition quotaPeriodPrecedes :: "gotime \<Rightarrow> gotime \<Rightarrow> int \<Rightarrow> bool" where
  "quotaPeriodPrecedes end' start seconds \<longleftrightarrow> \<not> time_After end' start \<or> quotaResetDriftIsSmall end' start seconds"

text \<open>The copy that becomes the archive takes over the start, or the start and the samples, of the archive before it.\<close>

definition join_archive :: "gotime \<Rightarrow> quotaPeriod \<Rightarrow> quotaPeriod \<Rightarrow> quotaPeriod" where
  "join_archive seen old copy =
     (let copy = (if qp_EndedByReset old \<and> time_After (qp_End copy) (qp_End old) \<and>
                     time_Before (qp_Start copy) (qp_End old) \<and> \<not> time_Before seen (qp_End old)
                  then copy\<lparr> qp_Start := qp_End old \<rparr> else copy)
      in if qp_EndedByReset old \<and> time_Before (qp_Start old) (qp_End copy) \<and> \<not> time_After (qp_End copy) (qp_End old)
         then fold (\<lambda>sample copy. if time_Before (qo_ObservedAt sample) (qp_End copy)
                then append_sample copy sample (qp_CollectionStartedAt old) else copy)
              (qp_Samples old) (copy\<lparr> qp_Start := qp_Start old \<rparr>)
         else copy)"

text \<open>The archive of the segment that the latest early reset ended; \<open>None\<close> when there is nothing new to archive.\<close>

definition archive_of :: "quotaWindow \<Rightarrow> quotaPeriod \<Rightarrow> quotaPeriod option" where
  "archive_of w p =
     (let (effective, reset) = quotaEffectivePeriod p;
          before = length (qp_Samples p) - length (qp_Samples effective)
      in if reset = None \<or> before = 0 then None
         else let final = qp_Samples p ! (before - 1);
                  previous = fst (quotaEffectivePeriod (empty_period\<lparr>
                    qp_Start := time_Add (qo_Reset final) (- of_seconds (qw_Seconds w)), qp_End := qo_Reset final,
                    qp_CollectionStartedAt := qp_CollectionStartedAt p, qp_Samples := take before (qp_Samples p) \<rparr>));
                  copy = previous\<lparr> qp_End := qp_Start effective, qp_EndedByReset := True,
                    qp_ResetTimeEstimated := qp_ResetTimeEstimated effective \<rparr>
              in if \<not> time_Before (qp_Start copy) (qp_End copy) \<or>
                    (case qw_Previous w of None \<Rightarrow> False
                     | Some old \<Rightarrow> \<not> qp_EndedByReset old \<and> time_After (qp_End old) (qp_End copy))
                 then None
                 else Some (case qw_Previous w of None \<Rightarrow> copy | Some old \<Rightarrow> join_archive (qo_ObservedAt final) old copy))"

definition same_archive :: "quotaPeriod \<Rightarrow> quotaPeriod \<Rightarrow> bool" where
  "same_archive old copy \<longleftrightarrow> time_Equal (qp_Start old) (qp_Start copy) \<and> time_Equal (qp_End old) (qp_End copy) \<and>
     qp_EndedByReset old \<and> qp_ResetTimeEstimated old = qp_ResetTimeEstimated copy \<and>
     list_all2 quotaSameObservation (qp_Samples old) (qp_Samples copy)"

definition quotaArchiveResetPeriod :: "quotaWindow \<Rightarrow> quotaWindow \<times> bool" where
  "quotaArchiveResetPeriod w =
     (case Option.bind (qw_Current w) (archive_of w) of
        None \<Rightarrow> (w, False)
      | Some copy \<Rightarrow>
          if (case qw_Previous w of None \<Rightarrow> False | Some old \<Rightarrow> same_archive old copy) then (w, False)
          else (w\<lparr> qw_Previous := Some copy \<rparr>, True))"

section \<open>Stored forms\<close>

definition validQuotaPeriodSpan :: "quotaPeriod \<Rightarrow> int \<Rightarrow> bool" where
  "validQuotaPeriodSpan p seconds \<longleftrightarrow>
     (let d = time_Sub (qp_End p) (qp_Start p); window = of_seconds seconds
      in d > 0 \<and> d \<le> window \<and> (qp_EndedByReset p \<or> d = window))"

definition quotaSamplesSorted :: "quotaPeriod \<Rightarrow> bool" where
  "quotaSamplesSorted p \<longleftrightarrow> sorted (map (\<lambda>ob. t_ns (qo_ObservedAt ob)) (qp_Samples p))"

section \<open>The samples stay few and in order\<close>

definition samples_ok :: "(quotaObservation \<Rightarrow> bool) \<Rightarrow> quotaPeriod \<Rightarrow> bool" where
  "samples_ok P p \<longleftrightarrow> length (qp_Samples p) \<le> 64 \<and> quotaSamplesSorted p \<and> list_all P (qp_Samples p)"

text \<open>Two periods that differ in their samples only, and in the start of their collection.\<close>

definition same_span :: "quotaPeriod \<Rightarrow> quotaPeriod \<Rightarrow> bool" where
  "same_span p p' \<longleftrightarrow> qp_Start p' = qp_Start p \<and> qp_End p' = qp_End p \<and> qp_EndedByReset p' = qp_EndedByReset p"

lemma same_span_trans: "same_span p p' \<Longrightarrow> same_span p' p'' \<Longrightarrow> same_span p p''"
  by (simp add: same_span_def)

lemma keep_index_length: "length (keep_index i keep) \<le> length keep + 1"
  by (simp add: keep_index_def)

lemma keep_sample_length: "length (keep_sample n i keep) \<le> length keep + 1"
  using keep_index_length by (simp add: keep_sample_def)

lemma keep_samples_length: "length (fold (keep_sample n) is keep) \<le> length keep + length is"
proof (induction "is" arbitrary: keep)
  case (Cons i "is")
  have "length (fold (keep_sample n) is (keep_sample n i keep)) \<le> length (keep_sample n i keep) + length is" by (rule Cons.IH)
  then show ?case using keep_sample_length [of n i keep] by simp
qed simp

lemma keep_rest_length:
  "length keep \<le> 64 \<Longrightarrow> length (fold (\<lambda>i keep. if length keep < 64 then keep_index i keep else keep) is keep) \<le> 64"
proof (induction "is" arbitrary: keep)
  case (Cons i "is")
  then show ?case using keep_index_length [of i keep] by (cases "length keep < 64") simp_all
qed simp

lemma keep_found_length:
  "length keep \<le> 63 \<Longrightarrow> length (case x of None \<Rightarrow> keep | Some i \<Rightarrow> keep_index i keep) \<le> 64"
  using keep_index_length [of "the x" keep] by (cases x) simp_all

lemma kept_indices_length: "length (kept_indices p) \<le> 64"
  unfolding kept_indices_def Let_def case_prod_unfold
  by (intro keep_rest_length keep_found_length order_trans [OF keep_samples_length]) simp

lemma compact_samples:
  assumes "quotaSamplesSorted p" "list_all P (qp_Samples p)"
  shows "samples_ok P (quotaCompactSamples p)" "same_span p (quotaCompactSamples p)"
    "qp_CollectionStartedAt (quotaCompactSamples p) = qp_CollectionStartedAt p"
proof -
  have "length (nths (qp_Samples p) (set (kept_indices p))) \<le> card (set (kept_indices p))"
    unfolding length_nths by (rule card_mono) auto
  also have "\<dots> \<le> length (kept_indices p)" by (rule card_length)
  finally have "length (nths (qp_Samples p) (set (kept_indices p))) \<le> 64" using kept_indices_length le_trans by blast
  then show "samples_ok P (quotaCompactSamples p)"
    using assms by (auto simp: samples_ok_def quotaCompactSamples_def quotaSamplesSorted_def list_all_iff sorted_nths
        dest: in_set_nthsD simp flip: nths_map)
  show "same_span p (quotaCompactSamples p)" "qp_CollectionStartedAt (quotaCompactSamples p) = qp_CollectionStartedAt p"
    by (simp_all add: same_span_def quotaCompactSamples_def)
qed

lemma appended:
  assumes "quotaAppendSample p ob t = Some p'" "list_all P (qp_Samples p)" "P ob"
  shows "samples_ok P p'" "same_span p p'"
proof -
  define q where "q = (if time_IsZero (qp_CollectionStartedAt p) \<or>
      (\<not> time_Before (qo_ObservedAt ob) t \<and> time_After t (qp_CollectionStartedAt p))
    then p\<lparr> qp_CollectionStartedAt := t \<rparr> else p)\<lparr> qp_Samples := sort_samples (qp_Samples p @ [ob]) \<rparr>"
  have p': "p' = quotaCompactSamples q"
    using assms(1) by (auto simp: quotaAppendSample_def q_def Let_def split: if_splits)
  have q: "qp_Samples q = sort_samples (qp_Samples p @ [ob])" "same_span p q"
    by (simp_all add: q_def same_span_def)
  have "quotaSamplesSorted q" "list_all P (qp_Samples q)"
    using assms(2,3) by (simp_all add: quotaSamplesSorted_def q(1) sort_samples_def list_all_iff)
  then show "samples_ok P p'" "same_span p p'"
    using compact_samples q(2) same_span_trans unfolding p' by blast+
qed

lemma append_sample_ok:
  assumes "samples_ok P p" "P ob"
  shows "samples_ok P (append_sample p ob t) \<and> same_span p (append_sample p ob t)"
proof (cases "quotaAppendSample p ob t")
  case None
  then show ?thesis using assms(1) by (simp add: append_sample_def same_span_def)
next
  case (Some p')
  have "list_all P (qp_Samples p)" using assms(1) by (simp add: samples_ok_def)
  from appended [OF Some this assms(2)] Some show ?thesis by (simp add: append_sample_def)
qed

text \<open>An effective period keeps a tail of the samples and the end of its period.\<close>

lemma effective_samples:
  "\<exists>k. qp_Samples (fst (quotaEffectivePeriod p)) = drop k (qp_Samples p) \<and> qp_End (fst (quotaEffectivePeriod p)) = qp_End p \<and>
    qp_EndedByReset (fst (quotaEffectivePeriod p)) = qp_EndedByReset p"
proof -
  define tail where "tail c \<longleftrightarrow> (\<exists>k. qp_Samples c = drop k (qp_Samples p)) \<and> qp_End c = qp_End p \<and>
    qp_EndedByReset c = qp_EndedByReset p" for c :: quotaPeriod
  have p: "tail p" by (auto simp: tail_def intro: exI [of _ 0])
  have deadline: "tail (fst (after_deadline p n x))" for n x
    using p by (auto simp: after_deadline_def tail_def Let_def split: prod.splits)
  have decrease: "tail (fst (after_decrease x))" if "tail (fst x)" for x
    using that by (auto simp: after_decrease_def tail_def drop_drop split: prod.splits option.splits)
  define stage where "stage = after_decrease (if 0 < quotaPreResetSamples p \<and> quotaPreResetSamples p < length (qp_Samples p)
    then after_deadline p (quotaPreResetSamples p) (quotaEffectivePeriod (prior_period p (quotaPreResetSamples p))) else (p, False))"
  have "tail (fst stage)" unfolding stage_def by (rule decrease) (simp add: p deadline)
  moreover have "fst (quotaEffectivePeriod p) = (if snd stage then fst stage else p)"
    by (subst quotaEffectivePeriod.simps) (simp add: Let_def stage_def case_prod_unfold)
  ultimately have "tail (fst (quotaEffectivePeriod p))" using p by simp
  then show ?thesis by (auto simp: tail_def)
qed

section \<open>The archive is a period\<close>

definition span_ok :: "int \<Rightarrow> quotaPeriod \<Rightarrow> bool" where
  "span_ok seconds p \<longleftrightarrow> time_Before (qp_Start p) (qp_End p) \<and>
     (\<not> qp_EndedByReset p \<longrightarrow> t_ns (qp_End p) - t_ns (qp_Start p) = of_seconds seconds)"

definition period_ok :: "(quotaObservation \<Rightarrow> bool) \<Rightarrow> int \<Rightarrow> quotaPeriod \<Rightarrow> bool" where
  "period_ok P seconds p \<longleftrightarrow> samples_ok P p \<and> span_ok seconds p"

lemma span_ok_same: "same_span p p' \<Longrightarrow> span_ok seconds p' = span_ok seconds p"
  by (simp add: same_span_def span_ok_def)

lemma samples_ok_part:
  assumes "samples_ok P p" "qp_Samples q = drop k (take n (qp_Samples p))"
  shows "samples_ok P q"
proof -
  have "sorted (map (\<lambda>ob. t_ns (qo_ObservedAt ob)) (drop k (take n (qp_Samples p))))"
    using assms(1) by (simp add: samples_ok_def quotaSamplesSorted_def sorted_wrt_take sorted_wrt_drop flip: take_map drop_map)
  moreover have "set (drop k (take n (qp_Samples p))) \<subseteq> set (qp_Samples p)" by (meson order_trans set_drop_subset set_take_subset)
  ultimately show ?thesis
    using assms by (auto simp: samples_ok_def quotaSamplesSorted_def list_all_iff)
qed

lemma append_samples_ok:
  assumes "samples_ok P c" "list_all P xs"
  shows "samples_ok P (fold (\<lambda>x c. if Q x (qp_End c) then append_sample c x t else c) xs c) \<and>
    same_span c (fold (\<lambda>x c. if Q x (qp_End c) then append_sample c x t else c) xs c)"
  using assms
proof (induction xs arbitrary: c)
  case Nil
  then show ?case by (simp add: same_span_def)
next
  case (Cons x xs)
  let ?c = "if Q x (qp_End c) then append_sample c x t else c"
  have "samples_ok P ?c \<and> same_span c ?c" using append_sample_ok [of P c x t] Cons.prems by (simp add: same_span_def)
  moreover have "samples_ok P (fold (\<lambda>x c. if Q x (qp_End c) then append_sample c x t else c) xs ?c) \<and>
    same_span ?c (fold (\<lambda>x c. if Q x (qp_End c) then append_sample c x t else c) xs ?c)"
    by (rule Cons.IH) (use calculation Cons.prems in simp_all)
  ultimately show ?case unfolding fold.simps comp_def using same_span_trans by blast
qed

lemma join_archive_ok:
  assumes "samples_ok P c" "time_Before (qp_Start c) (qp_End c)" "qp_EndedByReset c" "samples_ok P old"
  shows "samples_ok P (join_archive seen old c) \<and> time_Before (qp_Start (join_archive seen old c)) (qp_End (join_archive seen old c)) \<and>
    qp_EndedByReset (join_archive seen old c)"
proof -
  define c' where "c' = (if qp_EndedByReset old \<and> time_After (qp_End c) (qp_End old) \<and>
      time_Before (qp_Start c) (qp_End old) \<and> \<not> time_Before seen (qp_End old)
    then c\<lparr> qp_Start := qp_End old \<rparr> else c)"
  have c': "samples_ok P c'" "time_Before (qp_Start c') (qp_End c')" "qp_EndedByReset c'" "qp_End c' = qp_End c"
    using assms by (auto simp: c'_def samples_ok_def quotaSamplesSorted_def time_Before_def time_After_def)
  let ?b = "c'\<lparr> qp_Start := qp_Start old \<rparr>"
  let ?f = "fold (\<lambda>sample copy. if time_Before (qo_ObservedAt sample) (qp_End copy)
    then append_sample copy sample (qp_CollectionStartedAt old) else copy) (qp_Samples old) ?b"
  have "samples_ok P ?b" using c'(1) by (simp add: samples_ok_def quotaSamplesSorted_def)
  moreover have "list_all P (qp_Samples old)" using assms(4) by (simp add: samples_ok_def)
  ultimately have f: "samples_ok P ?f \<and> same_span ?b ?f" by (rule append_samples_ok)
  have "join_archive seen old c = (if qp_EndedByReset old \<and> time_Before (qp_Start old) (qp_End c') \<and>
      \<not> time_After (qp_End c') (qp_End old) then ?f else c')"
    unfolding join_archive_def Let_def c'_def [symmetric] by (rule refl)
  then show ?thesis using c' f by (simp add: same_span_def)
qed

lemma archive_of_ok:
  assumes "archive_of w p = Some c" "samples_ok P p" "\<And>old. qw_Previous w = Some old \<Longrightarrow> samples_ok P old"
  shows "period_ok P seconds c \<and> qp_EndedByReset c"
proof -
  obtain e r where er: "quotaEffectivePeriod p = (e, r)" by (metis surj_pair)
  define before where "before = length (qp_Samples p) - length (qp_Samples e)"
  define final where "final = qp_Samples p ! (before - 1)"
  define prior where "prior = empty_period\<lparr> qp_Start := time_Add (qo_Reset final) (- of_seconds (qw_Seconds w)), qp_End := qo_Reset final,
    qp_CollectionStartedAt := qp_CollectionStartedAt p, qp_Samples := take before (qp_Samples p) \<rparr>"
  define copy where "copy = (fst (quotaEffectivePeriod prior))\<lparr> qp_End := qp_Start e, qp_EndedByReset := True,
    qp_ResetTimeEstimated := qp_ResetTimeEstimated e \<rparr>"
  have c: "time_Before (qp_Start copy) (qp_End copy)"
    "c = (case qw_Previous w of None \<Rightarrow> copy | Some old \<Rightarrow> join_archive (qo_ObservedAt final) old copy)"
    using assms(1) unfolding archive_of_def Let_def er prod.case before_def [symmetric] final_def [symmetric]
      prior_def [symmetric] copy_def [symmetric]
    by (auto split: if_splits)
  obtain k where "qp_Samples (fst (quotaEffectivePeriod prior)) = drop k (qp_Samples prior)" using effective_samples by blast
  then have "qp_Samples copy = drop k (take before (qp_Samples p))" by (simp add: copy_def prior_def)
  then have "samples_ok P copy" by (rule samples_ok_part [OF assms(2)])
  moreover have "qp_EndedByReset copy" by (simp add: copy_def)
  ultimately have "samples_ok P c \<and> time_Before (qp_Start c) (qp_End c) \<and> qp_EndedByReset c"
    using c assms(3) join_archive_ok by (cases "qw_Previous w") auto
  then show ?thesis by (simp add: period_ok_def span_ok_def)
qed

end
