(* ===== verification/Quota.thy ===== *)
theory Quota
  imports Accounting QuotaPeriods
begin

text \<open>
  The quota ledger's facts (\<open>go/quota_cycles.go\<close>, \<open>go/quota_storage.go\<close>): one fact per counted
  request of a subscription credential, kept beside the main ledger, and the tombstones of the
  facts that were deleted.  The windows are part of the state; their operations are in theory
  \<open>QuotaWindows\<close>.
\<close>

record quotaFact =
  qf_ID :: string
  qf_API :: string
  qf_Provider :: string
  qf_AuthIndex :: string
  qf_AuthID :: string
  qf_Model :: string
  qf_Timestamp :: gotime
  qf_TimestampSynthetic :: bool
  qf_CompletedAt :: gotime
  qf_Failed :: bool
  qf_Tokens :: TokenStats

record quotaState =
  qs_StartedAt :: gotime
  qs_Facts :: "(string, quotaFact) gomap"
  qs_Windows :: "(string, quotaWindow) gomap"
  qs_Deleted :: "(string, gotime) gomap"
  qs_VersionCounter :: "64 word"
  qs_NextPrune :: gotime

definition quotaEligible :: "RequestDetail \<Rightarrow> bool" where
  "quotaEligible d \<longleftrightarrow>
     (let kind = go_ToLower (go_TrimSpace (rd_AuthType d))
      in quotaProvider (rd_Provider d) \<and> (rd_AuthIndex d \<noteq> [] \<or> rd_AuthID d \<noteq> []) \<and>
         kind \<noteq> ''api_key'' \<and> kind \<noteq> ''apikey'' \<and> kind \<noteq> ''api-key'')"

text \<open>
  The identity of a record that has no execution ID: a hash of its canonical dedup key.  \<open>digest\<close>
  stands for the hexadecimal SHA-256 of the key's JSON form.
\<close>

definition quotaLegacyRecordID :: "(requestDedupKey \<Rightarrow> string) \<Rightarrow> string \<Rightarrow> string \<Rightarrow> RequestDetail \<Rightarrow> string" where
  "quotaLegacyRecordID digest api model d = ''legacy:'' @ digest (claudeCacheCanonicalDedupKey api model d)"

definition ensureQuotaLocked :: "gotime \<Rightarrow> quotaState option \<Rightarrow> quotaState" where
  "ensureQuotaLocked startedAt quota = (case quota of Some q \<Rightarrow> q
     | None \<Rightarrow> \<lparr> qs_StartedAt = startedAt, qs_Facts = [], qs_Windows = [], qs_Deleted = [],
         qs_VersionCounter = 0, qs_NextPrune = zero_time \<rparr>)"

text \<open>A latency of at most 366 days, in milliseconds.\<close>

definition maxQuotaLatencyMs :: int where
  "maxQuotaLatencyMs = 366 * 24 * time_Hour div time_Millisecond"

definition quotaFactFromDetail :: "string \<Rightarrow> RequestDetail \<Rightarrow> quotaFact" where
  "quotaFactFromDetail api d =
     \<lparr> qf_ID = rd_RecordID d, qf_API = api, qf_Provider = go_ToLower (go_TrimSpace (rd_Provider d)),
       qf_AuthIndex = rd_AuthIndex d, qf_AuthID = rd_AuthID d, qf_Model = rd_Model d,
       qf_Timestamp = rd_Timestamp d, qf_TimestampSynthetic = rd_TimestampSynthetic d,
       qf_CompletedAt = (if 0 \<le> rd_LatencyMs d \<and> rd_LatencyMs d \<le> maxQuotaLatencyMs
                         then time_Add (rd_Timestamp d) (rd_LatencyMs d * time_Millisecond) else zero_time),
       qf_Failed = rd_Failed d, qf_Tokens = rd_Tokens d \<rparr>"

definition validQuotaFact :: "quotaFact \<Rightarrow> bool" where
  "validQuotaFact f \<longleftrightarrow>
     (let t = qf_Tokens f
      in qf_ID f \<noteq> [] \<and> length (qf_ID f) \<le> 256 \<and> quotaProvider (qf_Provider f) \<and>
         (qf_AuthIndex f \<noteq> [] \<or> qf_AuthID f \<noteq> []) \<and> length (qf_AuthID f) \<le> 512 \<and>
         length (qf_AuthIndex f) \<le> 512 \<and> length (qf_API f) \<le> 4096 \<and> length (qf_Model f) \<le> 1024 \<and>
         \<not> time_IsZero (qf_Timestamp f) \<and> tk_InputTokens t \<ge> 0 \<and> tk_OutputTokens t \<ge> 0 \<and>
         tk_ReasoningTokens t \<ge> 0 \<and> tk_CachedTokens t \<ge> 0 \<and> tk_CacheReadTokens t \<ge> 0 \<and>
         tk_CacheWriteTokens t \<ge> 0 \<and> tk_CacheTokens t \<ge> 0 \<and> tk_TotalTokens t \<ge> 0)"

definition quotaFactsEqual :: "quotaFact \<Rightarrow> quotaFact \<Rightarrow> bool" where
  "quotaFactsEqual a b \<longleftrightarrow>
     time_Equal (qf_Timestamp a) (qf_Timestamp b) \<and> time_Equal (qf_CompletedAt a) (qf_CompletedAt b) \<and>
     a\<lparr> qf_Timestamp := zero_time, qf_CompletedAt := zero_time \<rparr> =
     b\<lparr> qf_Timestamp := zero_time, qf_CompletedAt := zero_time \<rparr>"

definition addQuotaFactLocked ::
  "(requestDedupKey \<Rightarrow> string) \<Rightarrow> gotime \<Rightarrow> string \<Rightarrow> RequestDetail \<Rightarrow> quotaState option \<Rightarrow> quotaState option" where
  "addQuotaFactLocked digest startedAt api d quota =
     (if \<not> quotaEligible d then quota
      else let q = ensureQuotaLocked startedAt quota;
               id = (if rd_RecordID d = [] then quotaLegacyRecordID digest api (rd_Model d) d else rd_RecordID d)
           in if go_get (qs_Deleted q) id \<noteq> None then Some q
              else let f = (quotaFactFromDetail api d)\<lparr> qf_ID := id \<rparr>
                   in if \<not> validQuotaFact f then Some q
                      else if (case go_get (qs_Facts q) id of None \<Rightarrow> False | Some old \<Rightarrow> quotaFactsEqual old f)
                      then Some q
                      else Some (q\<lparr> qs_Facts := go_put id f (qs_Facts q),
                                    qs_VersionCounter := qs_VersionCounter q + 1 \<rparr>))"

text \<open>The deletion of a fact; the flag tells whether the cached responses are invalidated.\<close>

definition removeQuotaFactLocked :: "RequestDetail \<Rightarrow> quotaState option \<Rightarrow> quotaState option \<times> bool" where
  "removeQuotaFactLocked d quota =
     (case quota of
        None \<Rightarrow> (None, False)
      | Some q \<Rightarrow>
          if rd_RecordID d = [] then (Some q, False)
          else let q = q\<lparr> qs_Facts := go_del (rd_RecordID d) (qs_Facts q),
                          qs_VersionCounter := qs_VersionCounter q + 1 \<rparr>
               in if length (rd_RecordID d) > 256 \<or> time_IsZero (rd_Timestamp d) then (Some q, True)
                  else (Some (q\<lparr> qs_Deleted := go_put (rd_RecordID d) (rd_Timestamp d) (qs_Deleted q) \<rparr>), True))"

text \<open>
  The part of \<open>validateQuotaSnapshot\<close> about facts and tombstones, against the state they are
  imported into.
\<close>

definition validQuotaFacts :: "quotaState \<Rightarrow> quotaState option \<Rightarrow> bool" where
  "validQuotaFacts q current \<longleftrightarrow>
     list_all (\<lambda>(key, f). key = qf_ID f \<and> validQuotaFact f \<and>
        (case current of None \<Rightarrow> True
         | Some c \<Rightarrow> (case go_get (qs_Facts c) key of None \<Rightarrow> True | Some old \<Rightarrow> quotaFactsEqual old f)))
       (qs_Facts q) \<and>
     list_all (\<lambda>(key, del). key \<noteq> [] \<and> length key \<le> 256 \<and> \<not> time_IsZero del) (qs_Deleted q)"

section \<open>The stored facts can always be loaded again\<close>

text \<open>The invariant of the live state.\<close>

definition quota_wf :: "quotaState \<Rightarrow> bool" where
  "quota_wf q \<longleftrightarrow> validQuotaFacts q None \<and> go_wf (qs_Facts q) \<and> go_wf (qs_Deleted q) \<and>
     (\<forall>id. go_get (qs_Facts q) id = None \<or> go_get (qs_Deleted q) id = None)"

lemma list_all_put: "list_all P m \<Longrightarrow> P (k, v) \<Longrightarrow> list_all P (go_put k v m)"
  by (induction m) auto

lemma list_all_del: "list_all P m \<Longrightarrow> list_all P (go_del k m)"
  by (induction m) (auto simp: AList.delete_eq)

lemma quotaFactsEqual_refl [simp]: "quotaFactsEqual f f"
  by (simp add: quotaFactsEqual_def time_Equal_def)

lemma ensure_wf: "pred_option quota_wf quota \<Longrightarrow> quota_wf (ensureQuotaLocked t quota)"
  by (cases quota) (simp_all add: ensureQuotaLocked_def quota_wf_def validQuotaFacts_def)

lemma put_fact_wf:
  assumes "quota_wf q" "validQuotaFact f" "qf_ID f = fid" "go_get (qs_Deleted q) fid = None"
  shows "quota_wf (q\<lparr> qs_Facts := go_put fid f (qs_Facts q), qs_VersionCounter := v \<rparr>)"
  using assms by (auto simp: quota_wf_def validQuotaFacts_def intro!: list_all_put)

lemma add_wf:
  assumes "pred_option quota_wf quota"
  shows "pred_option quota_wf (addQuotaFactLocked digest t api d quota)"
proof -
  note e = ensure_wf [OF assms, where t = t]
  show ?thesis
    using assms e by (simp add: addQuotaFactLocked_def Let_def put_fact_wf)
qed

lemma remove_wf:
  assumes "quota_wf q" "removeQuotaFactLocked d (Some q) = (Some q', b)"
  shows "quota_wf q'"
  using assms
  by (auto simp: removeQuotaFactLocked_def Let_def quota_wf_def validQuotaFacts_def split: if_splits
      intro!: list_all_put list_all_del)

lemma remove_some: "\<exists>q' b. removeQuotaFactLocked d (Some q) = (Some q', b)"
  by (auto simp: removeQuotaFactLocked_def Let_def)

lemma wf_valid:
  assumes "quota_wf q"
  shows "validQuotaFacts q (Some q)"
proof -
  have "case go_get (qs_Facts q) key of None \<Rightarrow> True | Some old \<Rightarrow> quotaFactsEqual old f"
    if "(key, f) \<in> set (qs_Facts q)" for key f
    using that assms by (simp add: quota_wf_def)
  then show ?thesis using assms by (auto simp: quota_wf_def validQuotaFacts_def list_all_iff)
qed

lemma add_deleted:
  assumes "quota_wf q" "go_get (qs_Deleted q) (rd_RecordID d) \<noteq> None"
  shows "addQuotaFactLocked digest t api d (Some q) = Some q"
proof -
  have "rd_RecordID d \<noteq> []"
    using assms by (auto simp: quota_wf_def validQuotaFacts_def list_all_iff dest: map_of_SomeD)
  then show ?thesis using assms(2) by (simp add: addQuotaFactLocked_def ensureQuotaLocked_def Let_def)
qed

text \<open>
  C6: Whatever is recorded or deleted, the live quota state is one that the loader of a stored
  snapshot accepts, both into an empty state and back into itself; a fact is never both present
  and deleted; and recording a deleted request again, from a journal or a backup, does nothing.
\<close>
theorem quota_state_reloadable:
  assumes "quota_wf q"
  shows "(\<forall>q'. addQuotaFactLocked digest t api d (Some q) = Some q' \<longrightarrow>
      quota_wf q' \<and> validQuotaFacts q' None \<and> validQuotaFacts q' (Some q')) \<and>
    (\<forall>q' b. removeQuotaFactLocked d (Some q) = (Some q', b) \<longrightarrow>
      quota_wf q' \<and> validQuotaFacts q' None \<and>
      go_get (qs_Facts q') (rd_RecordID d) = (if rd_RecordID d = [] then go_get (qs_Facts q) [] else None) \<and>
      (rd_RecordID d \<noteq> [] \<and> length (rd_RecordID d) \<le> 256 \<and> \<not> time_IsZero (rd_Timestamp d) \<longrightarrow>
         addQuotaFactLocked digest t api d (Some q') = Some q'))"
proof -
  have added: "pred_option quota_wf (addQuotaFactLocked digest t api d (Some q))"
    using add_wf [of "Some q" digest t api d] assms by simp
  show ?thesis
proof (intro conjI allI impI, goal_cases)
  case (1 q')
  then show ?case using added by simp
next
  case (2 q')
  then show ?case using added by (simp add: quota_wf_def)
next
  case (3 q')
  then show ?case using added wf_valid by simp
next
  case (4 q' b)
  then show ?case using remove_wf assms by blast
next
  case (5 q' b)
  then show ?case using remove_wf assms quota_wf_def by blast
next
  case (6 q' b)
  then show ?case by (auto simp: removeQuotaFactLocked_def Let_def split: if_splits)
next
  case (7 q' b)
  then have "go_get (qs_Deleted q') (rd_RecordID d) \<noteq> None"
    by (auto simp: removeQuotaFactLocked_def Let_def split: if_splits)
  then show ?case using 7 add_deleted remove_wf assms by blast
qed
qed

definition sample_quota_detail :: RequestDetail where
  "sample_quota_detail = sample_detail\<lparr> rd_RecordID := ''local:1'', rd_Provider := '' Claude'',
     rd_AuthIndex := ''7'' \<rparr>"

definition sample_quota :: quotaState where
  "sample_quota = the (addQuotaFactLocked (\<lambda>_. ''h'') zero_time ''api'' sample_quota_detail
     (Some \<lparr> qs_StartedAt = zero_time, qs_Facts = [], qs_Windows = [], qs_Deleted = [],
         qs_VersionCounter = 0, qs_NextPrune = zero_time \<rparr>))"

lemma quota_state_reloadable_witness:
  "map fst (qs_Facts sample_quota) = [''local:1''] \<and> quota_wf sample_quota \<and>
   quota_wf (the (fst (removeQuotaFactLocked sample_quota_detail (Some sample_quota))))"
proof -
  let ?q = "\<lparr> qs_StartedAt = zero_time, qs_Facts = [], qs_Windows = [], qs_Deleted = [],
         qs_VersionCounter = 0, qs_NextPrune = zero_time \<rparr>"
  have q: "quota_wf ?q" by (simp add: quota_wf_def validQuotaFacts_def)
  have f: "map fst (qs_Facts sample_quota) = [''local:1'']" by code_simp
  have "addQuotaFactLocked (\<lambda>_. ''h'') zero_time ''api'' sample_quota_detail (Some ?q) = Some sample_quota"
    unfolding sample_quota_def
    by (simp add: addQuotaFactLocked_def ensureQuotaLocked_def Let_def)
  then have s: "quota_wf sample_quota"
    using quota_state_reloadable [OF q] by blast
  obtain q' b where r: "removeQuotaFactLocked sample_quota_detail (Some sample_quota) = (Some q', b)"
    using remove_some by blast
  then have "quota_wf q'" using quota_state_reloadable [OF s] by blast
  with f s r show ?thesis by simp
qed

end
