(* ===== verification/Ledger.thy ===== *)
theory Ledger
  imports GroupStats Quota
begin

text \<open>
  The ledger (\<open>go/stats.go\<close>): the aggregates of the whole plugin, the statistics per API and model,
  and the operations that keep them: recording with deduplication, removal of expired details
  and the rebuild from the retained details.  The statistics of the source are one flat struct
  \<open>RequestStatistics\<close>; its counters are the record \<open>aggregates\<close> here.  Not part of this state are
  the response caches and indexes (\<open>summaryVersion\<close> counts their invalidations), the storage
  worker and the price refresh.
\<close>

section \<open>State\<close>

type_synonym civil_day = "int \<times> int \<times> int"

record aggregates =
  ag_tally :: tally
  ag_latencySum :: int
  ag_latencyN :: int
  ag_requestsByDay :: "(civil_day, int) gomap"
  ag_requestsByHour :: "(int, int) gomap"
  ag_tokensByDay :: "(civil_day, int) gomap"
  ag_tokensByHour :: "(int, int) gomap"
  ag_costByDay :: "(civil_day, float64) gomap"
  ag_costByHour :: "(int, float64) gomap"
  ag_costTokensByDay :: "(civil_day, ts_map) gomap"
  ag_costTokensByHour :: "(int, ts_map) gomap"
  ag_healthBuckets :: "(int, healthBucket) gomap"
  ag_modelSummaryStats :: model_summary_map
  ag_sourceStats :: source_map
  ag_credentialStats :: credential_map
  ag_clientAPIStats :: client_map

record apiStats =
  as_tally :: tally
  as_estimatedCost :: float64
  as_latencySum :: int
  as_latencyN :: int
  as_Models :: "(string, modelStats) gomap"
  as_Sources :: source_map

record RequestStatistics =
  rs_quota :: "quotaState option"
  rs_maxDetailsPerModel :: int
  rs_retention :: duration
  rs_nextDetailExpiry :: gotime
  rs_dedupWindow :: duration
  rs_seen :: "(requestDedupKey, gotime) gomap"
  rs_nextSeenExpiry :: gotime
  rs_protocolFallbackReconcileDirty :: bool
  rs_agg :: aggregates
  rs_startedAt :: gotime
  rs_lastRecordedAt :: gotime
  rs_apis :: "(string, apiStats) gomap"
  rs_prices :: pricingTables
  rs_summaryVersion :: "64 word"
  rs_evictedTotal :: int

definition zero_aggregates :: aggregates where
  "zero_aggregates = \<lparr> ag_tally = zero_tally, ag_latencySum = 0, ag_latencyN = 0, ag_requestsByDay = [],
     ag_requestsByHour = [], ag_tokensByDay = [], ag_tokensByHour = [], ag_costByDay = [], ag_costByHour = [],
     ag_costTokensByDay = [], ag_costTokensByHour = [], ag_healthBuckets = [], ag_modelSummaryStats = [],
     ag_sourceStats = [], ag_credentialStats = [], ag_clientAPIStats = [] \<rparr>"

definition new_modelStats :: modelStats where
  "new_modelStats = \<lparr> mo_nextEventSequence = 0, mo_accounting = [], mo_tally = zero_tally, mo_estimatedCost = Fin 0,
     mo_latencySum = 0, mo_latencyN = 0, mo_Details = [], mo_providerStats = [] \<rparr>"

definition new_apiStats :: apiStats where
  "new_apiStats = \<lparr> as_tally = zero_tally, as_estimatedCost = Fin 0, as_latencySum = 0, as_latencyN = 0,
     as_Models = [], as_Sources = [] \<rparr>"

text \<open>
  A new ledger: 5000 visible details per model, 30 days of retention and a deduplication window of
  24 hours.  \<open>loc\<close> is the default pricing time zone (a parameter, as all of the time-zone data).
\<close>

definition NewRequestStatistics :: "gotime \<Rightarrow> location \<Rightarrow> RequestStatistics" where
  "NewRequestStatistics now loc = \<lparr> rs_quota = None, rs_maxDetailsPerModel = 5000,
     rs_retention = 30 * 24 * time_Hour, rs_nextDetailExpiry = zero_time,
     rs_dedupWindow = 24 * 60 * time_Minute, rs_seen = [], rs_nextSeenExpiry = zero_time,
     rs_protocolFallbackReconcileDirty = False, rs_agg = zero_aggregates, rs_startedAt = now,
     rs_lastRecordedAt = zero_time, rs_apis = [],
     rs_prices = \<lparr> pt_modelPrices = [], pt_modelPriceIndex = [], pt_modelsDevPrices = [],
       pt_modelsDevPriceIndex = [], pt_location = Some loc \<rparr>,
     rs_summaryVersion = 0, rs_evictedTotal = 0 \<rparr>"

abbreviation totals_of :: "RequestDetail \<Rightarrow> detailTotals" where
  "totals_of \<equiv> detailTotalsFromRequest"

abbreviation day_of :: "RequestDetail \<Rightarrow> civil_day" where
  "day_of d \<equiv> time_Date (rd_Timestamp d)"

abbreviation hour_of :: "RequestDetail \<Rightarrow> int" where
  "hour_of d \<equiv> time_Hour_of (rd_Timestamp d)"

section \<open>Adding and removing one detail\<close>

text \<open>The whole-plugin part of \<open>recordDetailWithAccountingLocked\<close>.\<close>

definition incrementSummaryDimensionStatsWithCostLocked ::
  "string \<Rightarrow> RequestDetail \<Rightarrow> detailTotals \<Rightarrow> float64 \<Rightarrow> aggregates \<Rightarrow> aggregates" where
  "incrementSummaryDimensionStatsWithCostLocked modelName detail totals cost g =
     g\<lparr> ag_sourceStats := incrementAPISourceStats (ag_sourceStats g) detail totals,
        ag_credentialStats := incrementCredentialStats (ag_credentialStats g) detail totals,
        ag_clientAPIStats := incrementClientStats modelName detail totals cost (ag_clientAPIStats g) \<rparr>"

definition decrementSummaryDimensionStatsLocked ::
  "string \<Rightarrow> RequestDetail \<Rightarrow> detailTotals \<Rightarrow> float64 \<Rightarrow> aggregates \<Rightarrow> aggregates" where
  "decrementSummaryDimensionStatsLocked modelName detail totals cost g =
     g\<lparr> ag_sourceStats := decrementAPISourceStats (ag_sourceStats g) detail totals,
        ag_credentialStats := decrementCredentialStats (ag_credentialStats g) detail totals,
        ag_clientAPIStats := decrementClientStats modelName detail totals cost (ag_clientAPIStats g) \<rparr>"

definition inc_aggregates :: "string \<Rightarrow> RequestDetail \<Rightarrow> detailTotals \<Rightarrow> float64 \<Rightarrow> aggregates \<Rightarrow> aggregates" where
  "inc_aggregates modelName detail totals cost g =
     (let g = g\<lparr> ag_tally := inc_tally (rd_Failed detail) totals (ag_tally g),
                 ag_latencySum := addNonNegativeInt64 (ag_latencySum g) (dt_latencySum totals),
                 ag_latencyN := addNonNegativeInt64 (ag_latencyN g) (dt_latencyN totals) \<rparr>;
          dayKey = day_of detail;
          hourKey = hour_of detail;
          g = g\<lparr> ag_requestsByDay := series_add dayKey 1 (ag_requestsByDay g),
                 ag_requestsByHour := series_add hourKey 1 (ag_requestsByHour g),
                 ag_tokensByDay := series_add dayKey (dt_totalTokens totals) (ag_tokensByDay g),
                 ag_tokensByHour := series_add hourKey (dt_totalTokens totals) (ag_tokensByHour g),
                 ag_costByDay := cost_add dayKey cost (ag_costByDay g),
                 ag_costByHour := cost_add hourKey cost (ag_costByHour g),
                 ag_costTokensByDay := ts_series_add dayKey (detailModel modelName detail) (rd_Provider detail)
                   totals (ag_costTokensByDay g),
                 ag_costTokensByHour := ts_series_add hourKey (detailModel modelName detail) (rd_Provider detail)
                   totals (ag_costTokensByHour g),
                 ag_modelSummaryStats := incrementModelSummaryStatsWithCostLocked modelName detail totals cost
                   (ag_modelSummaryStats g) \<rparr>;
          g = incrementSummaryDimensionStatsWithCostLocked modelName detail totals cost g
      in g\<lparr> ag_healthBuckets := incrementHealthBucketLocked detail (ag_healthBuckets g) \<rparr>)"

definition dec_aggregates :: "string \<Rightarrow> RequestDetail \<Rightarrow> detailTotals \<Rightarrow> float64 \<Rightarrow> aggregates \<Rightarrow> aggregates" where
  "dec_aggregates modelName detail totals cost g =
     (let g = g\<lparr> ag_tally := dec_tally (rd_Failed detail) totals (ag_tally g),
                 ag_latencySum := subtractNonNegativeInt64 (ag_latencySum g) (dt_latencySum totals),
                 ag_latencyN := subtractNonNegativeInt64 (ag_latencyN g) (dt_latencyN totals) \<rparr>;
          dayKey = day_of detail;
          hourKey = hour_of detail;
          (days, foundDay) = ts_series_sub dayKey (detailModel modelName detail) (rd_Provider detail)
            totals (ag_costTokensByDay g);
          (hours, foundHour) = ts_series_sub hourKey (detailModel modelName detail) (rd_Provider detail)
            totals (ag_costTokensByHour g);
          g = g\<lparr> ag_requestsByDay := series_sub dayKey 1 (ag_requestsByDay g),
                 ag_requestsByHour := series_sub hourKey 1 (ag_requestsByHour g),
                 ag_tokensByDay := series_sub dayKey (dt_totalTokens totals) (ag_tokensByDay g),
                 ag_tokensByHour := series_sub hourKey (dt_totalTokens totals) (ag_tokensByHour g),
                 ag_costTokensByDay := days,
                 ag_costByDay := (if foundDay then cost_sub dayKey cost (ag_costByDay g) else ag_costByDay g),
                 ag_costTokensByHour := hours,
                 ag_costByHour := (if foundHour then cost_sub hourKey cost (ag_costByHour g) else ag_costByHour g),
                 ag_modelSummaryStats := decrementModelSummaryStatsLocked modelName detail totals cost
                   (ag_modelSummaryStats g) \<rparr>;
          g = decrementSummaryDimensionStatsLocked modelName detail totals cost g
      in g\<lparr> ag_healthBuckets := decrementHealthBucketLocked detail (ag_healthBuckets g) \<rparr>)"

text \<open>The counters of an API, without its models, and of a model.\<close>

definition inc_api :: "RequestDetail \<Rightarrow> detailTotals \<Rightarrow> float64 \<Rightarrow> apiStats \<Rightarrow> apiStats" where
  "inc_api detail totals cost a =
     a\<lparr> as_tally := inc_tally (rd_Failed detail) totals (as_tally a),
        as_latencySum := addNonNegativeInt64 (as_latencySum a) (dt_latencySum totals),
        as_latencyN := addNonNegativeInt64 (as_latencyN a) (dt_latencyN totals),
        as_estimatedCost := addNonNegativeCost (as_estimatedCost a) cost \<rparr>"

definition inc_api_sources :: "RequestDetail \<Rightarrow> detailTotals \<Rightarrow> apiStats \<Rightarrow> apiStats" where
  "inc_api_sources detail totals a =
     a\<lparr> as_Sources := incrementAPISourceStats (as_Sources a) detail totals \<rparr>"

definition dec_api :: "RequestDetail \<Rightarrow> detailTotals \<Rightarrow> float64 \<Rightarrow> apiStats \<Rightarrow> apiStats" where
  "dec_api detail totals cost a =
     a\<lparr> as_tally := dec_tally (rd_Failed detail) totals (as_tally a),
        as_latencySum := subtractNonNegativeInt64 (as_latencySum a) (dt_latencySum totals),
        as_latencyN := subtractNonNegativeInt64 (as_latencyN a) (dt_latencyN totals),
        as_Sources := decrementAPISourceStats (as_Sources a) detail totals,
        as_estimatedCost := subtractNonNegativeCost (as_estimatedCost a) cost \<rparr>"

definition inc_model :: "RequestDetail \<Rightarrow> detailTotals \<Rightarrow> float64 \<Rightarrow> modelStats \<Rightarrow> modelStats" where
  "inc_model detail totals cost m =
     m\<lparr> mo_tally := inc_tally (rd_Failed detail) totals (mo_tally m),
        mo_latencySum := addNonNegativeInt64 (mo_latencySum m) (dt_latencySum totals),
        mo_latencyN := addNonNegativeInt64 (mo_latencyN m) (dt_latencyN totals),
        mo_estimatedCost := addNonNegativeCost (mo_estimatedCost m) cost,
        mo_providerStats := incrementModelProviderStats (mo_providerStats m) (rd_Provider detail)
          (rd_Failed detail) totals \<rparr>"

definition dec_model :: "RequestDetail \<Rightarrow> detailTotals \<Rightarrow> float64 \<Rightarrow> modelStats \<Rightarrow> modelStats" where
  "dec_model detail totals cost m =
     m\<lparr> mo_tally := dec_tally (rd_Failed detail) totals (mo_tally m),
        mo_latencySum := subtractNonNegativeInt64 (mo_latencySum m) (dt_latencySum totals),
        mo_latencyN := subtractNonNegativeInt64 (mo_latencyN m) (dt_latencyN totals),
        mo_providerStats := decrementModelProviderStats (mo_providerStats m) (rd_Provider detail)
          (rd_Failed detail) totals,
        mo_estimatedCost := subtractNonNegativeCost (mo_estimatedCost m) cost \<rparr>"

definition applyAPIStatsWithAccounting ::
  "string \<Rightarrow> RequestDetail \<Rightarrow> detailTotals \<Rightarrow> float64 \<Rightarrow> bool \<Rightarrow> apiStats \<Rightarrow> apiStats" where
  "applyAPIStatsWithAccounting model detail totals cost arch apiSt =
     (let apiSt = inc_api detail totals cost apiSt;
          modelSt = (case go_get (as_Models apiSt) model of None \<Rightarrow> new_modelStats | Some m \<Rightarrow> m);
          modelSt = appendDetail detail arch (inc_model detail totals cost modelSt)
      in apiSt\<lparr> as_Models := go_put model modelSt (as_Models apiSt) \<rparr>)"

text \<open>
  \<open>decrementCounters\<close> works on the statistics, the API and the model at the same time; the model is
  the one stored in the API, which this operation does not touch otherwise.
\<close>

type_synonym ledger_focus = "RequestStatistics \<times> apiStats \<times> modelStats"

definition decrementCounters :: "string \<Rightarrow> RequestDetail \<Rightarrow> ledger_focus \<Rightarrow> ledger_focus" where
  "decrementCounters modelName d = (\<lambda>(s, apiSt, modelSt).
     let totals = totals_of d;
         cost = detailCostLocked (rs_prices s) modelName d totals
     in (s\<lparr> rs_agg := dec_aggregates modelName d totals cost (rs_agg s) \<rparr>,
         dec_api d totals cost apiSt, dec_model d totals cost modelSt))"

definition incrementCounters :: "string \<Rightarrow> RequestDetail \<Rightarrow> ledger_focus \<Rightarrow> ledger_focus" where
  "incrementCounters modelName d = (\<lambda>(s, apiSt, modelSt).
     let totals = totals_of d;
         cost = detailCostLocked (rs_prices s) modelName d totals
     in (s\<lparr> rs_agg := inc_aggregates modelName d totals cost (rs_agg s) \<rparr>,
         inc_api_sources d totals (inc_api d totals cost apiSt), inc_model d totals cost modelSt))"

section \<open>Deduplication\<close>

text \<open>Keeping the earliest of a known expiry (the zero time: none) and a new one.\<close>

definition earlier_expiry :: "gotime \<Rightarrow> gotime \<Rightarrow> gotime" where
  "earlier_expiry expiry expires =
     (if time_IsZero expiry \<or> time_Before expires expiry then expires else expiry)"

definition pruneSeenLocked :: "gotime \<Rightarrow> RequestStatistics \<Rightarrow> RequestStatistics" where
  "pruneSeenLocked now s =
     (if rs_dedupWindow s \<le> 0 then s
      else if \<not> time_IsZero (rs_nextSeenExpiry s) \<and> time_Before now (rs_nextSeenExpiry s) then s
      else let cutoff = time_Add now (- rs_dedupWindow s);
               kept = filter (\<lambda>(key, seenAt). \<not> time_Before seenAt cutoff) (rs_seen s)
           in s\<lparr> rs_seen := kept,
                 rs_nextSeenExpiry :=
                   fold (\<lambda>(key, seenAt) expiry. earlier_expiry expiry (time_Add seenAt (rs_dedupWindow s)))
                     kept zero_time \<rparr>)"

text \<open>The retained details of the whole ledger, in the order the nested loops visit them.\<close>

definition api_details :: "apiStats \<Rightarrow> (string \<times> RequestDetail) list" where
  "api_details a = concat (map (\<lambda>(modelName, m). map (Pair modelName) (accountingDetails m)) (as_Models a))"

definition ledger_details :: "(string, apiStats) gomap \<Rightarrow> (string \<times> string \<times> RequestDetail) list" where
  "ledger_details apis = concat (map (\<lambda>(apiName, a). map (Pair apiName) (api_details a)) apis)"

definition rebuildSeenLocked :: "gotime \<Rightarrow> RequestStatistics \<Rightarrow> RequestStatistics" where
  "rebuildSeenLocked now s =
     (let s = s\<lparr> rs_nextSeenExpiry := zero_time, rs_seen := [] \<rparr>
      in if rs_dedupWindow s \<le> 0 then s
         else let cutoff = time_Add now (- rs_dedupWindow s)
              in s\<lparr> rs_seen := fold (\<lambda>(apiName, modelName, detail) seen.
                   let seenAt = (if time_IsZero (rd_Timestamp detail) then now else rd_Timestamp detail)
                   in if time_Before seenAt cutoff then seen
                      else go_put (dedupKey apiName modelName detail) seenAt seen)
                  (ledger_details (rs_apis s)) [] \<rparr>)"

definition zeroDedupKey :: requestDedupKey where
  "zeroDedupKey = \<lparr> dk_apiName = [], dk_modelName = [], dk_timestamp = zero_time, dk_source = [], dk_authIndex = [],
     dk_clientAPIHash = [], dk_clientAPIKey = [], dk_failure = [], dk_failed = False, dk_latencyMs = 0,
     dk_ttftMs = 0, dk_statusCode = 0, dk_inputTokens = 0, dk_outputTokens = 0, dk_reasoning = 0,
     dk_cachedTokens = 0, dk_cacheTokens = 0, dk_cacheWriteTokens = 0, dk_totalTokens = 0 \<rparr>"

section \<open>Recording\<close>

definition invalidateCachedResponsesLocked :: "RequestStatistics \<Rightarrow> RequestStatistics" where
  "invalidateCachedResponsesLocked s = s\<lparr> rs_summaryVersion := rs_summaryVersion s + 1 \<rparr>"

text \<open>
  What is stored: an API with a name, and the detail without a cost and, when it belongs to a
  quota credential, with a record ID.  \<open>digest\<close> is the hash of the legacy record IDs (theory \<open>Quota\<close>).
\<close>

definition recorded_api :: "string \<Rightarrow> string" where
  "recorded_api apiName = (if go_TrimSpace apiName = [] then unknownInterface else apiName)"

definition recorded_detail :: "(requestDedupKey \<Rightarrow> string) \<Rightarrow> string \<Rightarrow> string \<Rightarrow> RequestDetail \<Rightarrow> RequestDetail" where
  "recorded_detail digest apiName modelName detail =
     (let detail = detail\<lparr> rd_CostUSD := None \<rparr>
      in if rd_RecordID detail = [] \<and> quotaEligible detail
         then detail\<lparr> rd_RecordID := quotaLegacyRecordID digest apiName modelName detail \<rparr>
         else detail)"

definition noteDetailExpiry :: "RequestDetail \<Rightarrow> RequestStatistics \<Rightarrow> RequestStatistics" where
  "noteDetailExpiry d s =
     (if time_IsZero (rd_Timestamp d) then s
      else s\<lparr> rs_nextDetailExpiry := earlier_expiry (rs_nextDetailExpiry s)
                (time_Add (rd_Timestamp d) (rs_retention s)) \<rparr>)"

text \<open>
  The body of \<open>recordDetailWithAccountingLocked\<close> in three parts: the window of recent requests, the
  accounting, and the function that runs them.
\<close>

definition seenRecently :: "string \<Rightarrow> string \<Rightarrow> RequestDetail \<Rightarrow> requestDedupKey \<Rightarrow> gotime \<Rightarrow> bool \<Rightarrow>
    RequestStatistics \<Rightarrow> RequestStatistics \<times> bool" where
  "seenRecently apiName modelName detail dedup now useDedupWindow s =
     (if useDedupWindow \<and> rs_dedupWindow s > 0
      then let dedup = (if dedup = zeroDedupKey then dedupKey apiName modelName detail else dedup)
           in if go_get (rs_seen s) dedup \<noteq> None then (s, True)
              else (s\<lparr> rs_seen := go_put dedup now (rs_seen s),
                       rs_nextSeenExpiry := earlier_expiry (rs_nextSeenExpiry s) (time_Add now (rs_dedupWindow s)) \<rparr>,
                    False)
      else (s, False))"

definition accountDetail :: "(requestDedupKey \<Rightarrow> string) \<Rightarrow> string \<Rightarrow> string \<Rightarrow> RequestDetail \<Rightarrow> bool \<Rightarrow>
    RequestStatistics \<Rightarrow> RequestStatistics" where
  "accountDetail digest apiName modelName detail arch s =
     (let apiSt = (case go_get (rs_apis s) apiName of None \<Rightarrow> new_apiStats | Some a \<Rightarrow> a);
          totals = totals_of detail;
          cost = detailCostLocked (rs_prices s) modelName detail totals;
          apiSt = applyAPIStatsWithAccounting modelName detail totals cost arch apiSt;
          apiSt = inc_api_sources detail totals apiSt;
          s = s\<lparr> rs_apis := go_put apiName apiSt (rs_apis s),
                 rs_agg := inc_aggregates modelName detail totals cost (rs_agg s) \<rparr>;
          s = (if time_After (rd_Timestamp detail) (rs_lastRecordedAt s)
               then s\<lparr> rs_lastRecordedAt := rd_Timestamp detail \<rparr> else s);
          s = (if isAnonymousProtocolFallbackDetail detail \<or> isNativeProtocolCorrelationDetail detail
               then s\<lparr> rs_protocolFallbackReconcileDirty := True \<rparr> else s);
          s = invalidateCachedResponsesLocked s
      in s\<lparr> rs_quota := addQuotaFactLocked digest (rs_startedAt s) apiName detail (rs_quota s) \<rparr>)"

definition recordDetailWithAccountingLocked ::
  "(requestDedupKey \<Rightarrow> string) \<Rightarrow> string \<Rightarrow> string \<Rightarrow> RequestDetail \<Rightarrow> requestDedupKey \<Rightarrow> gotime \<Rightarrow> bool \<Rightarrow> bool \<Rightarrow>
   RequestStatistics \<Rightarrow> RequestStatistics \<times> bool" where
  "recordDetailWithAccountingLocked digest apiName modelName detail dedup now useDedupWindow arch s =
     (let apiName = recorded_api apiName;
          detail = recorded_detail digest apiName modelName detail
      in if (case rs_quota s of None \<Rightarrow> False | Some q \<Rightarrow> go_get (qs_Deleted q) (rd_RecordID detail) \<noteq> None)
         then (s, False)
         else let s = (if rs_retention s > 0 then noteDetailExpiry detail s else s);
                  s = pruneSeenLocked now s
              in case seenRecently apiName modelName detail dedup now useDedupWindow s of (s, duplicate) \<Rightarrow>
                if duplicate then (s, False) else (accountDetail digest apiName modelName detail arch s, True))"

section \<open>Removal of expired details\<close>

definition expired :: "gotime \<Rightarrow> RequestDetail \<Rightarrow> bool" where
  "expired cutoff d \<longleftrightarrow> \<not> time_IsZero (rd_Timestamp d) \<and> time_Before (rd_Timestamp d) cutoff"

definition pruneAccounting :: "gotime \<Rightarrow> string \<Rightarrow> ledger_focus \<Rightarrow> ledger_focus \<times> bool" where
  "pruneAccounting cutoff model f =
     (case f of (s, api, m) \<Rightarrow>
        if time_IsZero cutoff \<or> mo_accounting m = [] then (f, False)
        else let records = map detail_of (mo_accounting m);
                 kept = filter (\<lambda>d. \<not> expired cutoff d) records
             in case fold (decrementCounters model) (filter (expired cutoff) records) f of
                  (s, api, m) \<Rightarrow>
                    ((fold noteDetailExpiry kept s, api, m\<lparr> mo_accounting := map accountingRecord_of kept \<rparr>),
                     length kept \<noteq> length records))"

text \<open>The loop over the visible details; each removed one counts as evicted.\<close>

fun pruneDetails :: "gotime \<Rightarrow> string \<Rightarrow> RequestDetail list \<Rightarrow> ledger_focus \<Rightarrow> ledger_focus \<times> RequestDetail list" where
  "pruneDetails cutoff model [] f = (f, [])"
| "pruneDetails cutoff model (d # ds) f =
     (if \<not> expired cutoff d
      then (case pruneDetails cutoff model ds (case f of (s, am) \<Rightarrow> (noteDetailExpiry d s, am)) of
              (f, kept) \<Rightarrow> (f, d # kept))
      else pruneDetails cutoff model ds
             (case decrementCounters model d f of (s, am) \<Rightarrow> (s\<lparr> rs_evictedTotal := rs_evictedTotal s + 1 \<rparr>, am)))"

text \<open>One model of \<open>pruneLocked\<close>; \<open>sort.SliceStable\<close> is the stable \<open>sort_key\<close>.\<close>

definition pruneModel :: "gotime \<Rightarrow> bool \<Rightarrow> string \<Rightarrow> ledger_focus \<Rightarrow> ledger_focus \<times> bool" where
  "pruneModel cutoff sortNeeded modelName f =
     (case pruneAccounting cutoff modelName f of (f, changed) \<Rightarrow>
      case (if time_IsZero cutoff then (f, mo_Details (snd (snd f)))
            else pruneDetails cutoff modelName (mo_Details (snd (snd f))) f) of ((s, api, m), details) \<Rightarrow>
        let changed = (changed \<or> length details \<noteq> length (mo_Details m));
            sorted = sort_key (\<lambda>d. t_ns (rd_Timestamp d)) details;
            changed = (changed \<or> sortNeeded \<and> sorted \<noteq> details);
            m = m\<lparr> mo_Details := (if sortNeeded then sorted else details) \<rparr>
        in case trimModelDetailsLocked (rs_maxDetailsPerModel s) m of (m, removed) \<Rightarrow>
             ((s\<lparr> rs_evictedTotal := rs_evictedTotal s + int removed \<rparr>, api, m), changed \<or> removed > 0))"

fun pruneModels :: "gotime \<Rightarrow> bool \<Rightarrow> (string, modelStats) gomap \<Rightarrow> RequestStatistics \<Rightarrow> apiStats \<Rightarrow>
    (RequestStatistics \<times> apiStats \<times> (string, modelStats) gomap) \<times> bool" where
  "pruneModels cutoff sortNeeded [] s api = ((s, api, []), False)"
| "pruneModels cutoff sortNeeded ((modelName, m) # ms) s api =
     (case pruneModel cutoff sortNeeded modelName (s, api, m) of ((s, api, m), c) \<Rightarrow>
      case pruneModels cutoff sortNeeded ms s api of ((s, api, ms), c') \<Rightarrow>
        ((s, api, if mo_Details m = [] \<and> ta_TotalRequests (mo_tally m) \<le> 0 then ms else (modelName, m) # ms), c \<or> c'))"

fun pruneAPIs :: "gotime \<Rightarrow> bool \<Rightarrow> (string, apiStats) gomap \<Rightarrow> RequestStatistics \<Rightarrow>
    (RequestStatistics \<times> (string, apiStats) gomap) \<times> bool" where
  "pruneAPIs cutoff sortNeeded [] s = ((s, []), False)"
| "pruneAPIs cutoff sortNeeded ((apiName, a) # apis) s =
     (case pruneModels cutoff sortNeeded (as_Models a) s a of ((s, a, ms), c) \<Rightarrow>
      let a = a\<lparr> as_Models := ms \<rparr>
      in case pruneAPIs cutoff sortNeeded apis s of ((s, apis), c') \<Rightarrow>
        ((s, if ms = [] \<and> ta_TotalRequests (as_tally a) \<le> 0 then apis else (apiName, a) # apis), c \<or> c'))"

definition prune_cutoff :: "gotime \<Rightarrow> RequestStatistics \<Rightarrow> gotime" where
  "prune_cutoff now s = (if rs_retention s > 0 then time_Add now (- rs_retention s) else zero_time)"

definition pruneLocked :: "gotime \<Rightarrow> bool \<Rightarrow> RequestStatistics \<Rightarrow> RequestStatistics" where
  "pruneLocked now sortNeeded s =
     (case pruneAPIs (prune_cutoff now s) sortNeeded (rs_apis s) (s\<lparr> rs_nextDetailExpiry := zero_time \<rparr>) of
        ((s, apis), changed) \<Rightarrow>
          let s = s\<lparr> rs_apis := apis \<rparr>
          in if changed then invalidateCachedResponsesLocked s else s)"

definition pruneExpiredLocked :: "gotime \<Rightarrow> RequestStatistics \<Rightarrow> RequestStatistics" where
  "pruneExpiredLocked now s =
     (if rs_retention s > 0 \<and> \<not> time_IsZero (rs_nextDetailExpiry s) \<and> time_After now (rs_nextDetailExpiry s)
      then pruneLocked now False s else s)"

section \<open>Rebuild\<close>

definition zero_model_counters :: "modelStats \<Rightarrow> modelStats" where
  "zero_model_counters m = m\<lparr> mo_tally := zero_tally, mo_latencySum := 0, mo_latencyN := 0,
     mo_estimatedCost := Fin 0, mo_providerStats := [] \<rparr>"

definition zero_api_counters :: "apiStats \<Rightarrow> apiStats" where
  "zero_api_counters a = a\<lparr> as_tally := zero_tally, as_latencySum := 0, as_latencyN := 0,
     as_estimatedCost := Fin 0, as_Sources := [] \<rparr>"

fun rebuildModels :: "(string, modelStats) gomap \<Rightarrow> RequestStatistics \<Rightarrow> apiStats \<Rightarrow>
    RequestStatistics \<times> apiStats \<times> (string, modelStats) gomap" where
  "rebuildModels [] s api = (s, api, [])"
| "rebuildModels ((modelName, m) # ms) s api =
     (case fold (incrementCounters modelName) (accountingDetails m) (s, api, zero_model_counters m) of (s, api, m) \<Rightarrow>
      case rebuildModels ms s api of (s, api, ms) \<Rightarrow> (s, api, (modelName, m) # ms))"

fun rebuildAPIs :: "(string, apiStats) gomap \<Rightarrow> RequestStatistics \<Rightarrow> RequestStatistics \<times> (string, apiStats) gomap" where
  "rebuildAPIs [] s = (s, [])"
| "rebuildAPIs ((apiName, a) # apis) s =
     (case rebuildModels (as_Models a) s (zero_api_counters a) of (s, a, ms) \<Rightarrow>
      case rebuildAPIs apis s of (s, apis) \<Rightarrow> (s, (apiName, a\<lparr> as_Models := ms \<rparr>) # apis))"

definition rebuildAggregatesLocked :: "RequestStatistics \<Rightarrow> RequestStatistics" where
  "rebuildAggregatesLocked s =
     (case rebuildAPIs (rs_apis s) (s\<lparr> rs_agg := zero_aggregates \<rparr>) of (s, apis) \<Rightarrow> s\<lparr> rs_apis := apis \<rparr>)"

end
