(* ===== verification/LedgerInvariant.thy ===== *)
theory LedgerInvariant
  imports Ledger
begin

text \<open>
  The invariant of the ledger: every counter is the sum of what the retained details contribute
  to it, globally, per API and per model.  Recording, removal and the rebuild preserve it.
\<close>

section \<open>The counters of the whole plugin\<close>

abbreviation details_of :: "(string \<times> RequestDetail) multiset \<Rightarrow> RequestDetail multiset" where
  "details_of E \<equiv> image_mset snd E"

definition agg_ok :: "aggregates \<Rightarrow> (string \<times> RequestDetail) multiset \<Rightarrow> bool" where
  "agg_ok g E \<longleftrightarrow>
     wide_ok (ag_tally g) (ag_latencySum g) (ag_latencyN g) (details_of E) \<and>
     series_requests.counts day_of (ag_requestsByDay g) (details_of E) \<and>
     series_requests.counts hour_of (ag_requestsByHour g) (details_of E) \<and>
     series_tokens.counts day_of (ag_tokensByDay g) (details_of E) \<and>
     series_tokens.counts hour_of (ag_tokensByHour g) (details_of E) \<and>
     ts_keyed.keyed (\<lambda>e. day_of (snd e)) (ag_costTokensByDay g) E \<and>
     ts_keyed.keyed (\<lambda>e. hour_of (snd e)) (ag_costTokensByHour g) E \<and>
     health_counts.counts (ag_healthBuckets g) (details_of E) \<and>
     model_summary.keyed (ag_modelSummaryStats g) E \<and>
     source_counts.counts (ag_sourceStats g) (details_of E) \<and>
     credential_counts.counts (ag_credentialStats g) (details_of E) \<and>
     clients.keyed (ag_clientAPIStats g) E"

lemma agg_ok_zero: "agg_ok zero_aggregates {#}"
  by (simp add: agg_ok_def zero_aggregates_def series_requests.counts_def series_tokens.counts_def
      health_counts.counts_def source_counts.counts_def credential_counts.counts_def
      health_look_def source_look_def credential_look_def)

text \<open>The fields after one operation.\<close>

lemma inc_aggregates_fields:
  "ag_tally (inc_aggregates n d t c g) = inc_tally (rd_Failed d) t (ag_tally g)"
  "ag_latencySum (inc_aggregates n d t c g) = addNonNegativeInt64 (ag_latencySum g) (dt_latencySum t)"
  "ag_latencyN (inc_aggregates n d t c g) = addNonNegativeInt64 (ag_latencyN g) (dt_latencyN t)"
  "ag_requestsByDay (inc_aggregates n d t c g) = series_add (day_of d) 1 (ag_requestsByDay g)"
  "ag_requestsByHour (inc_aggregates n d t c g) = series_add (hour_of d) 1 (ag_requestsByHour g)"
  "ag_tokensByDay (inc_aggregates n d t c g) = series_add (day_of d) (dt_totalTokens t) (ag_tokensByDay g)"
  "ag_tokensByHour (inc_aggregates n d t c g) = series_add (hour_of d) (dt_totalTokens t) (ag_tokensByHour g)"
  "ag_costTokensByDay (inc_aggregates n d t c g) =
     ts_series_add (day_of d) (detailModel n d) (rd_Provider d) t (ag_costTokensByDay g)"
  "ag_costTokensByHour (inc_aggregates n d t c g) =
     ts_series_add (hour_of d) (detailModel n d) (rd_Provider d) t (ag_costTokensByHour g)"
  "ag_healthBuckets (inc_aggregates n d t c g) = incrementHealthBucketLocked d (ag_healthBuckets g)"
  "ag_modelSummaryStats (inc_aggregates n d t c g) =
     incrementModelSummaryStatsWithCostLocked n d t c (ag_modelSummaryStats g)"
  "ag_sourceStats (inc_aggregates n d t c g) = incrementAPISourceStats (ag_sourceStats g) d t"
  "ag_credentialStats (inc_aggregates n d t c g) = incrementCredentialStats (ag_credentialStats g) d t"
  "ag_clientAPIStats (inc_aggregates n d t c g) = incrementClientStats n d t c (ag_clientAPIStats g)"
  by (simp_all add: inc_aggregates_def incrementSummaryDimensionStatsWithCostLocked_def Let_def)

lemma dec_aggregates_fields:
  "ag_tally (dec_aggregates n d t c g) = dec_tally (rd_Failed d) t (ag_tally g)"
  "ag_latencySum (dec_aggregates n d t c g) = subtractNonNegativeInt64 (ag_latencySum g) (dt_latencySum t)"
  "ag_latencyN (dec_aggregates n d t c g) = subtractNonNegativeInt64 (ag_latencyN g) (dt_latencyN t)"
  "ag_requestsByDay (dec_aggregates n d t c g) = series_sub (day_of d) 1 (ag_requestsByDay g)"
  "ag_requestsByHour (dec_aggregates n d t c g) = series_sub (hour_of d) 1 (ag_requestsByHour g)"
  "ag_tokensByDay (dec_aggregates n d t c g) = series_sub (day_of d) (dt_totalTokens t) (ag_tokensByDay g)"
  "ag_tokensByHour (dec_aggregates n d t c g) = series_sub (hour_of d) (dt_totalTokens t) (ag_tokensByHour g)"
  "ag_costTokensByDay (dec_aggregates n d t c g) =
     fst (ts_series_sub (day_of d) (detailModel n d) (rd_Provider d) t (ag_costTokensByDay g))"
  "ag_costTokensByHour (dec_aggregates n d t c g) =
     fst (ts_series_sub (hour_of d) (detailModel n d) (rd_Provider d) t (ag_costTokensByHour g))"
  "ag_healthBuckets (dec_aggregates n d t c g) = decrementHealthBucketLocked d (ag_healthBuckets g)"
  "ag_modelSummaryStats (dec_aggregates n d t c g) =
     decrementModelSummaryStatsLocked n d t c (ag_modelSummaryStats g)"
  "ag_sourceStats (dec_aggregates n d t c g) = decrementAPISourceStats (ag_sourceStats g) d t"
  "ag_credentialStats (dec_aggregates n d t c g) = decrementCredentialStats (ag_credentialStats g) d t"
  "ag_clientAPIStats (dec_aggregates n d t c g) = decrementClientStats n d t c (ag_clientAPIStats g)"
  by (simp_all add: dec_aggregates_def decrementSummaryDimensionStatsLocked_def Let_def split: prod.split)

lemma agg_okD:
  assumes "agg_ok g E"
  shows "wide_ok (ag_tally g) (ag_latencySum g) (ag_latencyN g) (details_of E)"
    "series_requests.counts day_of (ag_requestsByDay g) (details_of E)"
    "series_requests.counts hour_of (ag_requestsByHour g) (details_of E)"
    "series_tokens.counts day_of (ag_tokensByDay g) (details_of E)"
    "series_tokens.counts hour_of (ag_tokensByHour g) (details_of E)"
    "ts_keyed.keyed (\<lambda>e. day_of (snd e)) (ag_costTokensByDay g) E"
    "ts_keyed.keyed (\<lambda>e. hour_of (snd e)) (ag_costTokensByHour g) E"
    "health_counts.counts (ag_healthBuckets g) (details_of E)"
    "model_summary.keyed (ag_modelSummaryStats g) E"
    "source_counts.counts (ag_sourceStats g) (details_of E)"
    "credential_counts.counts (ag_credentialStats g) (details_of E)"
    "clients.keyed (ag_clientAPIStats g) E"
  using assms unfolding agg_ok_def by blast+

text \<open>The grouped stores, in the form of the locale \<open>keyed_store\<close>.\<close>

lemma keyed_forms:
  "ts_series_add (day_of d) (detailModel n d) (rd_Provider d) (totals_of d) m =
     ts_keyed.keyed_inc (\<lambda>e. day_of (snd e)) (n, d) m"
  "ts_series_add (hour_of d) (detailModel n d) (rd_Provider d) (totals_of d) m' =
     ts_keyed.keyed_inc (\<lambda>e. hour_of (snd e)) (n, d) m'"
  "fst (ts_series_sub (day_of d) (detailModel n d) (rd_Provider d) (totals_of d) m) =
     ts_keyed.keyed_dec (\<lambda>e. day_of (snd e)) (n, d) m"
  "fst (ts_series_sub (hour_of d) (detailModel n d) (rd_Provider d) (totals_of d) m') =
     ts_keyed.keyed_dec (\<lambda>e. hour_of (snd e)) (n, d) m'"
  "incrementModelSummaryStatsWithCostLocked n d (totals_of d) c ms = model_summary.keyed_inc (\<lambda>_. c) (n, d) ms"
  "decrementModelSummaryStatsLocked n d (totals_of d) c ms = model_summary.keyed_dec (\<lambda>_. c) (n, d) ms"
  "incrementClientStats n d (totals_of d) c cs = clients.keyed_inc (\<lambda>_. c) (n, d) cs"
  "decrementClientStats n d (totals_of d) c cs = clients.keyed_dec (\<lambda>_. c) (n, d) cs"
  by (simp_all add: ts_series_add_keyed [symmetric] ts_series_sub_keyed [symmetric]
      model_summary_inc [symmetric] model_summary_dec [symmetric] clients_inc [symmetric] clients_dec [symmetric])

lemma agg_ok_inc:
  assumes "agg_ok g E" "sums_fit (details_of (add_mset (n, d) E))"
  shows "agg_ok (inc_aggregates n d (totals_of d) c g) (add_mset (n, d) E)"
proof -
  have f: "sums_fit (add_mset d (details_of E))" using assms(2) by simp
  note fits = fits_stores [OF f] and h = agg_okD [OF assms(1)]
  have e: "details_of (add_mset (n, d) E) = add_mset d (details_of E)" by simp
  show ?thesis
    unfolding agg_ok_def inc_aggregates_fields keyed_forms e
    by (intro conjI wide_ok_inc [OF h(1) f] series_requests.counts_inc [OF h(2) fits(5)]
        series_requests.counts_inc [OF h(3) fits(5)] series_tokens.counts_inc [OF h(4) fits(6)]
        series_tokens.counts_inc [OF h(5) fits(6)] ts_keyed.keyed_incI [OF h(6) assms(2)]
        ts_keyed.keyed_incI [OF h(7) assms(2)] health_counts.counts_inc [OF h(8) fits(4)]
        model_summary.keyed_incI [OF h(9) assms(2)] source_counts.counts_inc [OF h(10) fits(2)]
        credential_counts.counts_inc [OF h(11) fits(3)] clients.keyed_incI [OF h(12) assms(2)])
qed

lemma agg_ok_dec:
  assumes "agg_ok g E" "(n, d) \<in># E"
  shows "agg_ok (dec_aggregates n d (totals_of d) c g) (E - {#(n, d)#})"
proof -
  note h = agg_okD [OF assms(1)]
  have e: "details_of (E - {#(n, d)#}) = details_of E - {#d#}"
    using image_snd_remove [OF assms(2)] by simp
  have m: "d \<in># details_of E" using snd_mem [OF assms(2)] by simp
  show ?thesis
    unfolding agg_ok_def dec_aggregates_fields keyed_forms e
    by (intro conjI wide_ok_dec [OF h(1) m] series_requests.counts_dec [OF h(2) m]
        series_requests.counts_dec [OF h(3) m] series_tokens.counts_dec [OF h(4) m]
        series_tokens.counts_dec [OF h(5) m] ts_keyed.keyed_decI [OF h(6) assms(2)]
        ts_keyed.keyed_decI [OF h(7) assms(2)] health_counts.counts_dec [OF h(8) m]
        model_summary.keyed_decI [OF h(9) assms(2)] source_counts.counts_dec [OF h(10) m]
        credential_counts.counts_dec [OF h(11) m] clients.keyed_decI [OF h(12) assms(2)])
qed

text \<open>What is counted does not depend on the fields that the archive drops.\<close>

lemma counted_fields_archived [simp]:
  "healthBucketKey (rd_Timestamp (archived d)) = healthBucketKey (rd_Timestamp d)"
  "incrementAPISourceStats ss (archived d) t = incrementAPISourceStats ss d t"
  "decrementAPISourceStats ss (archived d) t = decrementAPISourceStats ss d t"
  "incrementCredentialStats cr (archived d) t = incrementCredentialStats cr d t"
  "decrementCredentialStats cr (archived d) t = decrementCredentialStats cr d t"
  "incrementModelSummaryStatsWithCostLocked n (archived d) t c ms = incrementModelSummaryStatsWithCostLocked n d t c ms"
  "decrementModelSummaryStatsLocked n (archived d) t c ms = decrementModelSummaryStatsLocked n d t c ms"
  "incrementClientStats n (archived d) t c cs = incrementClientStats n d t c cs"
  "decrementClientStats n (archived d) t c cs = decrementClientStats n d t c cs"
  "incrementHealthBucketLocked (archived d) hb = incrementHealthBucketLocked d hb"
  "decrementHealthBucketLocked (archived d) hb = decrementHealthBucketLocked d hb"
  by (simp_all add: incrementAPISourceStats_def decrementAPISourceStats_def incrementCredentialStats_def
      decrementCredentialStats_def incrementModelSummaryStatsWithCostLocked_def decrementModelSummaryStatsLocked_def
      inc_model_stat_def dec_model_stat_def incrementClientStats_def decrementClientStats_def inc_client_def
      dec_client_def inc_client_model_def dec_client_model_def new_client_def incrementHealthBucketLocked_def
      decrementHealthBucketLocked_def Let_def cong: option.case_cong)

lemma ops_archived [simp]:
  "inc_aggregates n (archived d) t c g = inc_aggregates n d t c g"
  "dec_aggregates n (archived d) t c g = dec_aggregates n d t c g"
  "inc_api (archived d) t c a = inc_api d t c a"
  "inc_api_sources (archived d) t a = inc_api_sources d t a"
  "dec_api (archived d) t c a = dec_api d t c a"
  "inc_model (archived d) t c m = inc_model d t c m"
  "dec_model (archived d) t c m = dec_model d t c m"
  by (simp_all add: inc_aggregates_def dec_aggregates_def inc_api_def inc_api_sources_def dec_api_def
      inc_model_def dec_model_def incrementSummaryDimensionStatsWithCostLocked_def
      decrementSummaryDimensionStatsLocked_def)

section \<open>The counters of an API and of a model\<close>

definition api_ok :: "apiStats \<Rightarrow> RequestDetail multiset \<Rightarrow> bool" where
  "api_ok a D \<longleftrightarrow> wide_ok (as_tally a) (as_latencySum a) (as_latencyN a) D \<and> source_counts.counts (as_Sources a) D"

definition model_ok :: "modelStats \<Rightarrow> RequestDetail multiset \<Rightarrow> bool" where
  "model_ok m D \<longleftrightarrow> wide_ok (mo_tally m) (mo_latencySum m) (mo_latencyN m) D \<and>
     provider_counts.counts (mo_providerStats m) D"

text \<open>The counters of one focus: the whole plugin, one API and one of its models.\<close>

definition focus_ok :: "(string \<times> RequestDetail) multiset \<Rightarrow> RequestDetail multiset \<Rightarrow> RequestDetail multiset \<Rightarrow>
    ledger_focus \<Rightarrow> bool" where
  "focus_ok E D M f \<longleftrightarrow> (case f of (s, a, m) \<Rightarrow> agg_ok (rs_agg s) E \<and> api_ok a D \<and> model_ok m M)"

lemma api_ok_inc:
  assumes "api_ok a D" "sums_fit (add_mset d D)"
  shows "api_ok (inc_api_sources d (totals_of d) (inc_api d (totals_of d) c a)) (add_mset d D)"
  using assms wide_ok_inc source_counts.counts_inc [OF _ fits_stores(2)]
  by (simp add: api_ok_def inc_api_def inc_api_sources_def)

lemma api_ok_dec:
  assumes "api_ok a D" "d \<in># D"
  shows "api_ok (dec_api d (totals_of d) c a) (D - {#d#})"
  using assms wide_ok_dec source_counts.counts_dec by (simp add: api_ok_def dec_api_def)

lemma model_ok_inc:
  assumes "model_ok m D" "sums_fit (add_mset d D)"
  shows "model_ok (inc_model d (totals_of d) c m) (add_mset d D)"
  using assms wide_ok_inc provider_counts.counts_inc [OF _ fits_stores(1)]
  by (simp add: model_ok_def inc_model_def)

lemma model_ok_dec:
  assumes "model_ok m D" "d \<in># D"
  shows "model_ok (dec_model d (totals_of d) c m) (D - {#d#})"
  using assms wide_ok_dec provider_counts.counts_dec by (simp add: model_ok_def dec_model_def)

lemma focus_ok_dec:
  assumes "focus_ok E D M f" "(n, archived d) \<in># E" "archived d \<in># D" "archived d \<in># M"
  shows "focus_ok (E - {#(n, archived d)#}) (D - {#archived d#}) (M - {#archived d#}) (decrementCounters n d f)"
  using assms agg_ok_dec [of "rs_agg (fst f)" E n "archived d"] api_ok_dec [of "fst (snd f)" D "archived d"]
    model_ok_dec [of "snd (snd f)" M "archived d"]
  by (cases f) (simp add: focus_ok_def decrementCounters_def Let_def)

lemma focus_ok_inc:
  assumes "focus_ok E D M f" "sums_fit (details_of (add_mset (n, archived d) E))"
    "sums_fit (add_mset (archived d) D)" "sums_fit (add_mset (archived d) M)"
  shows "focus_ok (add_mset (n, archived d) E) (add_mset (archived d) D) (add_mset (archived d) M) (incrementCounters n d f)"
  using assms agg_ok_inc [of "rs_agg (fst f)" E n "archived d"] api_ok_inc [of "fst (snd f)" D "archived d"]
    model_ok_inc [of "snd (snd f)" M "archived d"]
  by (cases f) (simp add: focus_ok_def incrementCounters_def Let_def)

section \<open>What the removal leaves alone\<close>

text \<open>The removal changes the counters, the next expiry and the evicted total only.\<close>

definition core :: "RequestStatistics \<Rightarrow> RequestStatistics" where
  "core s = s\<lparr> rs_agg := zero_aggregates, rs_nextDetailExpiry := zero_time, rs_evictedTotal := 0 \<rparr>"

lemma core_fields:
  "rs_quota (core s) = rs_quota s" "rs_maxDetailsPerModel (core s) = rs_maxDetailsPerModel s"
  "rs_retention (core s) = rs_retention s" "rs_dedupWindow (core s) = rs_dedupWindow s"
  "rs_seen (core s) = rs_seen s" "rs_nextSeenExpiry (core s) = rs_nextSeenExpiry s"
  "rs_apis (core s) = rs_apis s" "rs_prices (core s) = rs_prices s" "rs_lastRecordedAt (core s) = rs_lastRecordedAt s"
  "rs_startedAt (core s) = rs_startedAt s"
  by (simp_all add: core_def)

lemma coreD:
  assumes "core s = core s'"
  shows "rs_quota s = rs_quota s'" "rs_maxDetailsPerModel s = rs_maxDetailsPerModel s'"
    "rs_retention s = rs_retention s'" "rs_dedupWindow s = rs_dedupWindow s'" "rs_seen s = rs_seen s'"
    "rs_nextSeenExpiry s = rs_nextSeenExpiry s'" "rs_prices s = rs_prices s'"
    "rs_lastRecordedAt s = rs_lastRecordedAt s'"
  using assms core_fields by metis+

lemma core_updates [simp]:
  "core (s\<lparr> rs_agg := g \<rparr>) = core s" "core (s\<lparr> rs_nextDetailExpiry := t \<rparr>) = core s"
  "core (s\<lparr> rs_evictedTotal := n \<rparr>) = core s" "core (noteDetailExpiry d s) = core s"
  by (simp_all add: core_def noteDetailExpiry_def)

lemma core_fold_note [simp]: "core (fold noteDetailExpiry ds s) = core s"
  by (induction ds arbitrary: s) simp_all

lemma agg_note [simp]: "rs_agg (noteDetailExpiry d s) = rs_agg s"
  by (simp add: noteDetailExpiry_def)

lemma agg_fold_note [simp]: "rs_agg (fold noteDetailExpiry ds s) = rs_agg s"
  by (induction ds arbitrary: s) simp_all

text \<open>The parts of a focus that the counters do not touch.\<close>

definition frame :: "ledger_focus \<Rightarrow> RequestStatistics \<times> (string, modelStats) gomap \<times> RequestDetail list \<times> accountingRecord list" where
  "frame f = (case f of (s, a, m) \<Rightarrow> (core s, as_Models a, mo_Details m, mo_accounting m))"

lemma frame_dec [simp]: "frame (decrementCounters n d f) = frame f"
  by (cases f) (simp add: frame_def decrementCounters_def dec_api_def dec_model_def Let_def)

lemma frame_inc [simp]: "frame (incrementCounters n d f) = frame f"
  by (cases f) (simp add: frame_def incrementCounters_def inc_api_def inc_api_sources_def inc_model_def Let_def)

lemma frame_fold_dec [simp]: "frame (fold (decrementCounters n) ds f) = frame f"
  by (induction ds arbitrary: f) simp_all

lemma frame_fold_inc [simp]: "frame (fold (incrementCounters n) ds f) = frame f"
  by (induction ds arbitrary: f) simp_all

section \<open>Removal\<close>

abbreviation tagged :: "string \<Rightarrow> RequestDetail list \<Rightarrow> (string \<times> RequestDetail) multiset" where
  "tagged n ds \<equiv> image_mset (\<lambda>d. (n, archived d)) (mset ds)"

abbreviation counted :: "RequestDetail list \<Rightarrow> RequestDetail multiset" where
  "counted ds \<equiv> image_mset archived (mset ds)"

lemma focus_ok_dec_add:
  assumes "focus_ok (add_mset (n, archived d) E) (add_mset (archived d) D) (add_mset (archived d) M) f"
  shows "focus_ok E D M (decrementCounters n d f)"
  using focus_ok_dec [OF assms, of n d] by simp

lemma focus_ok_fold_dec:
  "focus_ok (tagged n ds + E) (counted ds + D) (counted ds + M) f \<Longrightarrow>
   focus_ok E D M (fold (decrementCounters n) ds f)"
proof (induction ds arbitrary: f)
  case Nil
  then show ?case by simp
next
  case (Cons d ds)
  have "focus_ok (tagged n ds + E) (counted ds + D) (counted ds + M) (decrementCounters n d f)"
    by (rule focus_ok_dec_add) (use Cons.prems in simp)
  then show ?case using Cons.IH by simp
qed

lemma focus_ok_note [simp]:
  "focus_ok E D M (noteDetailExpiry d s, am) = focus_ok E D M (s, am)"
  "focus_ok E D M (s\<lparr> rs_evictedTotal := k \<rparr>, am) = focus_ok E D M (s, am)"
  "focus_ok E D M (fold noteDetailExpiry ds s, am) = focus_ok E D M (s, am)"
  by (simp_all add: focus_ok_def split: prod.split)

lemma frame_note [simp]:
  "frame (noteDetailExpiry d s, am) = frame (s, am)" "frame (s\<lparr> rs_evictedTotal := k \<rparr>, am) = frame (s, am)"
  "frame (fold noteDetailExpiry ds s, am) = frame (s, am)"
  by (simp_all add: frame_def split: prod.split)

lemma expired_archived [simp]: "expired cutoff (archived d) = expired cutoff d"
  by (simp add: expired_def)

lemma pruneDetails_ok:
  assumes "pruneDetails cutoff n ds f = (f', kept)"
    "focus_ok (tagged n (filter (expired cutoff) ds) + E) (counted (filter (expired cutoff) ds) + D)
       (counted (filter (expired cutoff) ds) + M) f"
  shows "kept = filter (\<lambda>d. \<not> expired cutoff d) ds \<and> focus_ok E D M f' \<and> frame f' = frame f"
  using assms
proof (induction ds arbitrary: f f' kept)
  case Nil
  then show ?case by simp
next
  case (Cons d ds)
  obtain s am where f: "f = (s, am)" by (cases f)
  show ?case
  proof (cases "expired cutoff d")
    case False
    obtain k where k: "pruneDetails cutoff n ds (noteDetailExpiry d s, am) = (f', k)" "kept = d # k"
      using Cons.prems(1) False f by (auto split: prod.splits)
    have "k = filter (\<lambda>d. \<not> expired cutoff d) ds \<and> focus_ok E D M f' \<and> frame f' = frame (noteDetailExpiry d s, am)"
      by (rule Cons.IH [OF k(1)]) (use Cons.prems(2) False f in simp)
    then show ?thesis using False k f by simp
  next
    case True
    obtain s' am' where d: "decrementCounters n d f = (s', am')" by (cases "decrementCounters n d f")
    have p: "pruneDetails cutoff n ds (s'\<lparr> rs_evictedTotal := rs_evictedTotal s' + 1 \<rparr>, am') = (f', kept)"
      using Cons.prems(1) True d by simp
    have "focus_ok (tagged n (filter (expired cutoff) ds) + E) (counted (filter (expired cutoff) ds) + D)
       (counted (filter (expired cutoff) ds) + M) (s', am')"
      unfolding d [symmetric] by (rule focus_ok_dec_add) (use Cons.prems(2) True in simp)
    then have "kept = filter (\<lambda>d. \<not> expired cutoff d) ds \<and> focus_ok E D M f' \<and>
        frame f' = frame (s'\<lparr> rs_evictedTotal := rs_evictedTotal s' + 1 \<rparr>, am')"
      by (intro Cons.IH [OF p]) simp
    then show ?thesis using True frame_dec [of n d f] d by simp
  qed
qed

definition drops :: "gotime \<Rightarrow> RequestDetail \<Rightarrow> bool" where
  "drops cutoff d \<longleftrightarrow> \<not> time_IsZero cutoff \<and> expired cutoff d"

lemma drops_archived [simp]: "drops cutoff (archived d) = drops cutoff d"
  by (simp add: drops_def)

lemma map_detail_of_filter:
  "map (detail_of \<circ> accountingRecord_of) (filter P (map detail_of rs)) = filter P (map detail_of rs)"
  by (induction rs) (simp_all add: detail_of_accountingRecord_of)

lemma counted_split: "counted ds = counted (filter P ds) + counted (filter (\<lambda>d. \<not> P d) ds)"
  by (induction ds) simp_all

lemma tagged_counted: "tagged n ds = image_mset (Pair n) (counted ds)"
  by (simp add: multiset.map_comp comp_def)

lemma retained_counted: "retained m = counted (mo_Details m) + counted (map detail_of (mo_accounting m))"
proof -
  have "counted (map detail_of rs) = mset (map detail_of rs)" for rs
    by (induction rs) simp_all
  then show ?thesis by (simp add: retained_alt)
qed

lemma filter_counted: "filter_mset (\<lambda>d. \<not> P d) (counted ds) = counted (filter (\<lambda>d. \<not> P d) ds)"
  if "\<And>d. P (archived d) = P d"
  using that by (induction ds) simp_all

lemma pruneAccounting_ok:
  assumes "pruneAccounting cutoff n (s, a, m) = ((s', a', m'), c)"
    "focus_ok (tagged n (filter (drops cutoff) (map detail_of (mo_accounting m))) + E)
       (counted (filter (drops cutoff) (map detail_of (mo_accounting m))) + D)
       (counted (filter (drops cutoff) (map detail_of (mo_accounting m))) + M) (s, a, m)"
  shows "focus_ok E D M (s', a', m') \<and> mo_Details m' = mo_Details m \<and> core s' = core s \<and>
    as_Models a' = as_Models a \<and>
    map detail_of (mo_accounting m') = filter (\<lambda>d. \<not> drops cutoff d) (map detail_of (mo_accounting m))"
proof (cases "time_IsZero cutoff \<or> mo_accounting m = []")
  case True
  then have "(s', a', m') = (s, a, m)" "filter (drops cutoff) (map detail_of (mo_accounting m)) = []"
    "filter (\<lambda>d. \<not> drops cutoff d) (map detail_of (mo_accounting m)) = map detail_of (mo_accounting m)"
    using assms(1) by (auto simp: pruneAccounting_def drops_def filter_empty_conv)
  then show ?thesis using assms(2) by simp
next
  case False
  then have e: "drops cutoff = expired cutoff" by (simp add: drops_def fun_eq_iff)
  let ?rs = "map detail_of (mo_accounting m)"
  let ?f = "fold (decrementCounters n) (filter (expired cutoff) ?rs) (s, a, m)"
  obtain s1 a1 m1 where f: "?f = (s1, a1, m1)" by (cases ?f)
  have ok: "focus_ok E D M (s1, a1, m1)"
    unfolding f [symmetric] by (rule focus_ok_fold_dec) (use assms(2) e in simp)
  have fr: "core s1 = core s" "as_Models a1 = as_Models a" "mo_Details m1 = mo_Details m"
    using frame_fold_dec [of n "filter (expired cutoff) ?rs" "(s, a, m)"] by (simp_all add: f frame_def)
  have r: "s' = fold noteDetailExpiry (filter (\<lambda>d. \<not> expired cutoff d) ?rs) s1" "a' = a1"
    "m' = m1\<lparr> mo_accounting := map accountingRecord_of (filter (\<lambda>d. \<not> expired cutoff d) ?rs) \<rparr>"
    using assms(1) False by (simp_all add: pruneAccounting_def Let_def f)
  have "focus_ok E D M (s1, a1, m')" using ok by (simp add: focus_ok_def model_ok_def r(3))
  then show ?thesis
    unfolding r(1,2) using fr by (simp add: r(3) e map_detail_of_filter)
qed

text \<open>Sorting moves details only, and trimming moves them into the archive.\<close>

lemma counted_sort [simp]: "counted (sort_key k ds) = counted ds"
  by simp

lemma retained_Details: "retained (m\<lparr> mo_Details := ds \<rparr>) = counted ds + counted (map detail_of (mo_accounting m))"
  by (simp add: retained_counted)

lemma model_ok_trim:
  assumes "trimModelDetailsLocked k m = (m', r)" "model_ok m M"
  shows "model_ok m' M"
  using trim_result [OF assms(1)] assms(2) by (simp add: model_ok_def)

lemma pruneModel_ok:
  assumes "pruneModel cutoff b n (s, a, m) = ((s', a', m'), c)"
    "focus_ok (image_mset (Pair n) (retained m) + E) (retained m + D) (retained m) (s, a, m)"
  defines "K \<equiv> filter_mset (\<lambda>d. \<not> drops cutoff d) (retained m)"
  shows "retained m' = K \<and> focus_ok (image_mset (Pair n) K + E) (K + D) K (s', a', m') \<and>
    core s' = core s \<and> as_Models a' = as_Models a"
proof -
  let ?ds = "mo_Details m" and ?rs = "map detail_of (mo_accounting m)"
  let ?x = "filter (drops cutoff)" and ?k = "filter (\<lambda>d. \<not> drops cutoff d)"
  have K: "K = counted (?k ?ds) + counted (?k ?rs)"
    unfolding K_def retained_counted by (simp only: filter_union_mset filter_counted [of "drops cutoff", OF drops_archived])
  have R: "retained m = counted (?x ?rs) + (counted (?x ?ds) + K)"
    unfolding K retained_counted
    using counted_split [of ?ds "drops cutoff"] counted_split [of ?rs "drops cutoff"] by (simp add: ac_simps)
  obtain s1 a1 m1 c1 where p1: "pruneAccounting cutoff n (s, a, m) = ((s1, a1, m1), c1)"
    by (metis surj_pair)
  have ok1: "focus_ok (tagged n (?x ?ds) + (image_mset (Pair n) K + E)) (counted (?x ?ds) + (K + D))
      (counted (?x ?ds) + K) (s1, a1, m1)"
    and fr1: "mo_Details m1 = ?ds" "core s1 = core s" "as_Models a1 = as_Models a"
    and rs1: "map detail_of (mo_accounting m1) = ?k ?rs"
    using pruneAccounting_ok [OF p1, of "tagged n (?x ?ds) + (image_mset (Pair n) K + E)"
        "counted (?x ?ds) + (K + D)" "counted (?x ?ds) + K"] assms(2)
    unfolding R by (simp_all only: image_mset_union tagged_counted ac_simps)
  define g where "g = (if time_IsZero cutoff then ((s1, a1, m1), mo_Details m1)
      else pruneDetails cutoff n (mo_Details m1) (s1, a1, m1))"
  obtain s2 a2 m2 ds where g: "g = ((s2, a2, m2), ds)" by (metis surj_pair)
  have ok2: "ds = ?k ?ds \<and> focus_ok (image_mset (Pair n) K + E) (K + D) K (s2, a2, m2) \<and>
      frame (s2, a2, m2) = frame (s1, a1, m1)"
  proof (cases "time_IsZero cutoff")
    case True
    then have x: "?x ?ds = []" "?k ?ds = ?ds" by (auto simp: drops_def filter_empty_conv)
    have "focus_ok (image_mset (Pair n) K + E) (K + D) K (s1, a1, m1)" using ok1 unfolding x by simp
    then show ?thesis using g True fr1 x by (simp add: g_def)
  next
    case False
    then have e: "drops cutoff = expired cutoff" by (simp add: drops_def fun_eq_iff)
    show ?thesis
      using pruneDetails_ok [of cutoff n "mo_Details m1" "(s1, a1, m1)" "(s2, a2, m2)" ds] g False ok1 fr1
      by (simp add: g_def e)
  qed
  then have fr2: "core s2 = core s" "as_Models a2 = as_Models a" "mo_accounting m2 = mo_accounting m1"
    using fr1 by (simp_all add: frame_def)
  have g': "(if time_IsZero cutoff then ((s1, a1, m1), mo_Details (snd (snd (s1, a1, m1))))
      else pruneDetails cutoff n (mo_Details (snd (snd (s1, a1, m1)))) (s1, a1, m1)) = ((s2, a2, m2), ds)"
    using g unfolding g_def snd_conv .
  let ?m = "m2\<lparr> mo_Details := (if b then sort_key (\<lambda>d. t_ns (rd_Timestamp d)) ds else ds) \<rparr>"
  obtain m3 r where t: "trimModelDetailsLocked (rs_maxDetailsPerModel s2) ?m = (m3, r)" by (metis surj_pair)
  have res: "s' = s2\<lparr> rs_evictedTotal := rs_evictedTotal s2 + int r \<rparr>" "a' = a2" "m' = m3"
    using assms(1) unfolding pruneModel_def p1 prod.case g' by (simp_all add: t Let_def)
  have "retained m' = retained ?m" using retained_trim [OF t] res by simp
  also have "\<dots> = K" by (simp add: retained_Details fr2 rs1 ok2 K)
  finally have ret: "retained m' = K" .
  have "model_ok ?m K" using ok2 by (simp add: focus_ok_def model_ok_def)
  then have "model_ok m' K" using model_ok_trim [OF t] res by simp
  then show ?thesis using ret ok2 fr2 res by (simp add: focus_ok_def)
qed

section \<open>The whole ledger\<close>

text \<open>The retained details, with their model and their API, as the archive keeps them.\<close>

definition models_entries :: "(string, modelStats) gomap \<Rightarrow> (string \<times> RequestDetail) multiset" where
  "models_entries ms = sum_list (map (\<lambda>(n, m). image_mset (Pair n) (retained m)) ms)"

definition ledger_entries :: "(string, apiStats) gomap \<Rightarrow> (string \<times> string \<times> RequestDetail) multiset" where
  "ledger_entries apis = sum_list (map (\<lambda>(k, a). image_mset (Pair k) (models_entries (as_Models a))) apis)"

definition models_ok :: "(string, modelStats) gomap \<Rightarrow> bool" where
  "models_ok ms \<longleftrightarrow> list_all (\<lambda>(n, m). model_ok m (retained m)) ms"

definition apiStats_ok :: "apiStats \<Rightarrow> bool" where
  "apiStats_ok a \<longleftrightarrow> models_ok (as_Models a) \<and> api_ok a (details_of (models_entries (as_Models a)))"

definition ledger_ok :: "RequestStatistics \<Rightarrow> bool" where
  "ledger_ok s \<longleftrightarrow> agg_ok (rs_agg s) (image_mset snd (ledger_entries (rs_apis s))) \<and>
     list_all (\<lambda>(k, a). apiStats_ok a) (rs_apis s)"

lemma models_entries_simps [simp]:
  "models_entries [] = {#}"
  "models_entries ((n, m) # ms) = image_mset (Pair n) (retained m) + models_entries ms"
  by (simp_all add: models_entries_def)

lemma ledger_entries_simps [simp]:
  "ledger_entries [] = {#}"
  "ledger_entries ((k, a) # apis) = image_mset (Pair k) (models_entries (as_Models a)) + ledger_entries apis"
  by (simp_all add: ledger_entries_def)

lemma models_ok_simps [simp]:
  "models_ok []" "models_ok ((n, m) # ms) \<longleftrightarrow> model_ok m (retained m) \<and> models_ok ms"
  by (simp_all add: models_ok_def)

lemma details_of_Pair [simp]: "image_mset snd (image_mset (Pair n) D) = D"
  by (simp add: multiset.map_comp comp_def)

lemma api_ok_update [simp]: "api_ok (a\<lparr> as_Models := ms \<rparr>) D = api_ok a D"
  by (simp add: api_ok_def)

lemma model_gone:
  assumes "model_ok m M" "ta_TotalRequests (mo_tally m) \<le> 0"
  shows "M = {#}"
  using assms tally_gone by (auto simp: model_ok_def wide_ok_alt)

lemma pruneModels_ok:
  assumes "pruneModels cutoff b ms s a = ((s', a', ms'), c)"
    "agg_ok (rs_agg s) (models_entries ms + E)" "api_ok a (details_of (models_entries ms) + D)" "models_ok ms"
  shows "models_ok ms' \<and> models_entries ms' = filter_mset (\<lambda>e. \<not> drops cutoff (snd e)) (models_entries ms) \<and>
    agg_ok (rs_agg s') (models_entries ms' + E) \<and> api_ok a' (details_of (models_entries ms') + D) \<and> core s' = core s"
  using assms
proof (induction ms arbitrary: s a s' a' ms' c E D)
  case Nil
  then show ?case by simp
next
  case (Cons x ms)
  obtain n m where x: "x = (n, m)" by (cases x)
  obtain s1 a1 m1 c1 where p1: "pruneModel cutoff b n (s, a, m) = ((s1, a1, m1), c1)" by (metis surj_pair)
  obtain s2 a2 ms2 c2 where p2: "pruneModels cutoff b ms s1 a1 = ((s2, a2, ms2), c2)" by (metis surj_pair)
  let ?K = "filter_mset (\<lambda>d. \<not> drops cutoff d) (retained m)"
  let ?gone = "mo_Details m1 = [] \<and> ta_TotalRequests (mo_tally m1) \<le> 0"
  have r: "s' = s2" "a' = a2" "ms' = (if ?gone then ms2 else (n, m1) # ms2)"
    using Cons.prems(1) by (simp_all add: x p1 p2)
  have "focus_ok (image_mset (Pair n) (retained m) + (models_entries ms + E))
      (retained m + (details_of (models_entries ms) + D)) (retained m) (s, a, m)"
    using Cons.prems(2-4) by (simp add: x focus_ok_def ac_simps)
  note m1 = pruneModel_ok [OF p1 this]
  have "agg_ok (rs_agg s1) (models_entries ms + (image_mset (Pair n) ?K + E))"
    "api_ok a1 (details_of (models_entries ms) + (?K + D))" and mok: "model_ok m1 ?K" "retained m1 = ?K"
    using m1 by (simp_all add: focus_ok_def ac_simps)
  note m2 = Cons.IH [OF p2 this(1,2)]
  have e: "models_entries ms' = image_mset (Pair n) ?K + models_entries ms2"
    using mok model_gone [OF mok(1)] by (simp add: r)
  have f: "filter_mset (\<lambda>e. \<not> drops cutoff (snd e)) (image_mset (Pair n) (retained m)) = image_mset (Pair n) ?K"
    by (simp add: filter_mset_image_mset)
  have "models_ok ms" using Cons.prems(4) by (simp add: x)
  note m2 = m2 [OF this]
  from m2 have q: "agg_ok (rs_agg s2) (models_entries ms2 + (image_mset (Pair n) ?K + E))"
    "api_ok a2 (details_of (models_entries ms2) + (?K + D))" by blast+
  have "models_entries ms' = filter_mset (\<lambda>e. \<not> drops cutoff (snd e)) (models_entries (x # ms))"
    using m2 by (simp only: e x models_entries_simps filter_union_mset f)
  moreover have "agg_ok (rs_agg s') (models_entries ms' + E)" "api_ok a' (details_of (models_entries ms') + D)"
    using q unfolding e r(1,2) by (simp_all add: ac_simps)
  ultimately show ?case using m1 m2 mok by (simp add: r)
qed

lemma pruneAPIs_ok:
  assumes "pruneAPIs cutoff b apis s = ((s', apis'), c)"
    "agg_ok (rs_agg s) (image_mset snd (ledger_entries apis) + E)" "list_all (\<lambda>(k, a). apiStats_ok a) apis"
  shows "list_all (\<lambda>(k, a). apiStats_ok a) apis' \<and>
    ledger_entries apis' = filter_mset (\<lambda>e. \<not> drops cutoff (snd (snd e))) (ledger_entries apis) \<and>
    agg_ok (rs_agg s') (image_mset snd (ledger_entries apis') + E) \<and> core s' = core s"
  using assms
proof (induction apis arbitrary: s s' apis' c E)
  case Nil
  then show ?case by simp
next
  case (Cons x apis)
  obtain k a where x: "x = (k, a)" by (cases x)
  obtain s1 a1 ms c1 where p1: "pruneModels cutoff b (as_Models a) s a = ((s1, a1, ms), c1)" by (metis surj_pair)
  obtain s2 apis2 c2 where p2: "pruneAPIs cutoff b apis s1 = ((s2, apis2), c2)" by (metis surj_pair)
  let ?a = "a1\<lparr> as_Models := ms \<rparr>"
  let ?gone = "ms = [] \<and> ta_TotalRequests (as_tally a1) \<le> 0"
  have r: "s' = s2" "apis' = (if ?gone then apis2 else (k, ?a) # apis2)"
    using Cons.prems(1) by (simp_all add: x p1 p2 Let_def)
  have "agg_ok (rs_agg s) (models_entries (as_Models a) + (image_mset snd (ledger_entries apis) + E))"
    "api_ok a (details_of (models_entries (as_Models a)) + {#})" "models_ok (as_Models a)"
    using Cons.prems(2,3) by (simp_all add: x apiStats_ok_def ac_simps)
  note m1 = pruneModels_ok [OF p1 this]
  then have "agg_ok (rs_agg s1) (models_entries ms + (image_mset snd (ledger_entries apis) + E))"
    by blast
  then have "agg_ok (rs_agg s1) (image_mset snd (ledger_entries apis) + (models_entries ms + E))"
    by (simp add: ac_simps)
  note m2 = Cons.IH [OF p2 this]
  have "list_all (\<lambda>(k, a). apiStats_ok a) apis" using Cons.prems(3) by (simp add: x)
  note m2 = m2 [OF this]
  from m2 have q: "agg_ok (rs_agg s2) (image_mset snd (ledger_entries apis2) + (models_entries ms + E))" by blast
  have e: "ledger_entries apis' = image_mset (Pair k) (models_entries ms) + ledger_entries apis2"
    by (auto simp: r)
  have "ledger_entries apis' = filter_mset (\<lambda>e. \<not> drops cutoff (snd (snd e))) (ledger_entries (x # apis))"
    using m1 m2 unfolding e x by (simp add: filter_mset_image_mset)
  moreover have "agg_ok (rs_agg s') (image_mset snd (ledger_entries apis') + E)"
    using q unfolding e r(1) by (simp add: ac_simps)
  moreover from m1 have "models_ok ms" "api_ok a1 (details_of (models_entries ms) + {#})" by blast+
  then have "apiStats_ok ?a" by (simp add: apiStats_ok_def)
  ultimately show ?case using m1 m2 by (simp add: r)
qed

end
