(* ===== verification/LedgerProperties.thy ===== *)
theory LedgerProperties
  imports LedgerInvariant
begin

text \<open>
  What the ledger promises: recording adds exactly one request, removal takes exactly the expired
  requests, a rebuild and the incremental counters agree, and the deduplication window works.
\<close>

section \<open>Rebuild\<close>

lemma focus_ok_fold_inc:
  "focus_ok E D M f \<Longrightarrow> sums_fit (details_of (tagged n ds + E)) \<Longrightarrow> sums_fit (counted ds + D) \<Longrightarrow>
   sums_fit (counted ds + M) \<Longrightarrow>
   focus_ok (tagged n ds + E) (counted ds + D) (counted ds + M) (fold (incrementCounters n) ds f)"
proof (induction ds arbitrary: f E D M)
  case Nil
  then show ?case by simp
next
  case (Cons d ds)
  have fits: "sums_fit (details_of (add_mset (n, archived d) E))" "sums_fit (add_mset (archived d) D)"
    "sums_fit (add_mset (archived d) M)"
    by (rule sums_fit_sub [OF Cons.prems(2)], simp) (rule sums_fit_sub [OF Cons.prems(3)], simp,
      rule sums_fit_sub [OF Cons.prems(4)], simp)
  have "focus_ok (tagged n ds + add_mset (n, archived d) E) (counted ds + add_mset (archived d) D)
      (counted ds + add_mset (archived d) M) (fold (incrementCounters n) ds (incrementCounters n d f))"
    using Cons.prems focus_ok_inc [OF Cons.prems(1) fits] by (intro Cons.IH) simp_all
  then show ?case by simp
qed

text \<open>The details of the models, in order.\<close>

definition stored :: "modelStats \<Rightarrow> RequestDetail list \<times> accountingRecord list" where
  "stored m = (mo_Details m, mo_accounting m)"

lemma retained_stored: "stored m = stored m' \<Longrightarrow> retained m = retained m'"
  by (simp add: stored_def retained_alt)

lemma counted_accountingDetails: "counted (accountingDetails m) = retained m"
  by (simp add: retained_def)

lemma zero_counters_ok [simp]:
  "model_ok (zero_model_counters m) {#}" "api_ok (zero_api_counters a) {#}"
  "stored (zero_model_counters m) = stored m" "as_Models (zero_api_counters a) = as_Models a"
  by (simp_all add: model_ok_def zero_model_counters_def api_ok_def zero_api_counters_def stored_def
      source_counts.counts_def source_look_def)

lemma rebuildModels_ok:
  assumes "rebuildModels ms s a = (s', a', ms')" "agg_ok (rs_agg s) E" "api_ok a D" "D \<subseteq># details_of E"
    "sums_fit (details_of (models_entries ms + E))"
  shows "models_ok ms' \<and> models_entries ms' = models_entries ms \<and> agg_ok (rs_agg s') (models_entries ms + E) \<and>
    api_ok a' (details_of (models_entries ms) + D) \<and> core s' = core s \<and>
    map (\<lambda>(n, m). (n, stored m)) ms' = map (\<lambda>(n, m). (n, stored m)) ms"
  using assms
proof (induction ms arbitrary: s a s' a' ms' E D)
  case Nil
  then show ?case by simp
next
  case (Cons x ms)
  obtain n m where x: "x = (n, m)" by (cases x)
  let ?ds = "accountingDetails m"
  let ?f = "fold (incrementCounters n) ?ds (s, a, zero_model_counters m)"
  obtain s1 a1 m1 where f: "?f = (s1, a1, m1)" by (cases ?f)
  obtain s2 a2 ms2 where p2: "rebuildModels ms s1 a1 = (s2, a2, ms2)" by (metis surj_pair)
  have r: "s' = s2" "a' = a2" "ms' = (n, m1) # ms2"
    using Cons.prems(1) by (simp_all add: x f p2)
  have fr: "core s1 = core s" "stored m1 = stored m"
    using frame_fold_inc [of n ?ds "(s, a, zero_model_counters m)"] zero_counters_ok(3) [of m]
    by (simp_all add: f frame_def stored_def)
  have all: "sums_fit (details_of (models_entries ms) + (retained m + details_of E))"
    using Cons.prems(5) by (simp add: x ac_simps)
  have fit: "sums_fit (retained m + details_of E)"
    by (rule sums_fit_sub [OF all]) simp
  have fitD: "sums_fit (retained m + D)"
    by (rule sums_fit_sub [OF fit]) (use Cons.prems(4) in simp)
  have fitM: "sums_fit (retained m + {#})"
    by (rule sums_fit_sub [OF fit]) simp
  have "focus_ok (tagged n ?ds + E) (counted ?ds + D) (counted ?ds + {#}) ?f"
  proof (rule focus_ok_fold_inc)
    show "focus_ok E D {#} (s, a, zero_model_counters m)" using Cons.prems(2,3) by (simp add: focus_ok_def)
    show "sums_fit (details_of (tagged n ?ds + E))"
      using fit by (simp add: tagged_counted counted_accountingDetails)
  qed (use fitD fitM in \<open>simp_all add: counted_accountingDetails\<close>)
  then have m1: "agg_ok (rs_agg s1) (image_mset (Pair n) (retained m) + E)" "api_ok a1 (retained m + D)"
    "model_ok m1 (retained m)"
    unfolding f tagged_counted counted_accountingDetails by (simp_all add: focus_ok_def)
  have "sums_fit (details_of (models_entries ms + (image_mset (Pair n) (retained m) + E)))"
    using all by simp
  moreover have "retained m + D \<subseteq># details_of (image_mset (Pair n) (retained m) + E)"
    using Cons.prems(4) by simp
  ultimately have m2: "models_ok ms2 \<and> models_entries ms2 = models_entries ms \<and>
      agg_ok (rs_agg s2) (models_entries ms + (image_mset (Pair n) (retained m) + E)) \<and>
      api_ok a2 (details_of (models_entries ms) + (retained m + D)) \<and> core s2 = core s1 \<and>
      map (\<lambda>(n, m). (n, stored m)) ms2 = map (\<lambda>(n, m). (n, stored m)) ms"
    by (intro Cons.IH [OF p2 m1(1,2)])
  have ret: "retained m1 = retained m" by (rule retained_stored [OF fr(2)])
  show ?case using m2 m1(3) fr ret by (simp add: r x ac_simps)
qed

lemma rebuildAPIs_ok:
  assumes "rebuildAPIs apis s = (s', apis')" "agg_ok (rs_agg s) E"
    "sums_fit (details_of (image_mset snd (ledger_entries apis) + E))"
  shows "list_all (\<lambda>(k, a). apiStats_ok a) apis' \<and> ledger_entries apis' = ledger_entries apis \<and>
    agg_ok (rs_agg s') (image_mset snd (ledger_entries apis) + E) \<and> core s' = core s \<and>
    map (\<lambda>(k, a). (k, map (\<lambda>(n, m). (n, stored m)) (as_Models a))) apis' =
    map (\<lambda>(k, a). (k, map (\<lambda>(n, m). (n, stored m)) (as_Models a))) apis"
  using assms
proof (induction apis arbitrary: s s' apis' E)
  case Nil
  then show ?case by simp
next
  case (Cons x apis)
  obtain k a where x: "x = (k, a)" by (cases x)
  obtain s1 a1 ms where p1: "rebuildModels (as_Models a) s (zero_api_counters a) = (s1, a1, ms)" by (metis surj_pair)
  obtain s2 apis2 where p2: "rebuildAPIs apis s1 = (s2, apis2)" by (metis surj_pair)
  let ?a = "a1\<lparr> as_Models := ms \<rparr>"
  have r: "s' = s2" "apis' = (k, ?a) # apis2" using Cons.prems(1) by (simp_all add: x p1 p2)
  have all: "sums_fit (details_of (image_mset snd (ledger_entries apis) + (models_entries (as_Models a) + E)))"
    using Cons.prems(3) by (simp add: x ac_simps)
  have fit: "sums_fit (details_of (models_entries (as_Models a) + E))"
    by (rule sums_fit_sub [OF all]) simp
  have m1: "models_ok ms \<and> models_entries ms = models_entries (as_Models a) \<and>
      agg_ok (rs_agg s1) (models_entries (as_Models a) + E) \<and>
      api_ok a1 (details_of (models_entries (as_Models a)) + {#}) \<and> core s1 = core s \<and>
      map (\<lambda>(n, m). (n, stored m)) ms = map (\<lambda>(n, m). (n, stored m)) (as_Models a)"
    by (rule rebuildModels_ok [OF p1 Cons.prems(2) _ _ fit]) simp_all
  then have g1: "agg_ok (rs_agg s1) (models_entries (as_Models a) + E)" by blast
  note m2 = Cons.IH [OF p2 g1 all]
  show ?case using m1 m2 by (simp add: r x ac_simps apiStats_ok_def)
qed

section \<open>Recording\<close>

lemma sum_put:
  "sum_list (map f (go_put k v m)) + (case go_get m k of None \<Rightarrow> {#} | Some v' \<Rightarrow> f (k, v')) =
   sum_list (map f m) + f (k, v)"
  by (induction m) (auto simp: ac_simps split: option.splits)

lemma sum_get: "go_get m k = Some v \<Longrightarrow> f (k, v) \<subseteq># sum_list (map f m)"
  by (induction m) (auto split: if_splits intro: subset_mset.add_increasing)

lemma seen_frame [simp]:
  "rs_apis (pruneSeenLocked now s) = rs_apis s" "rs_agg (pruneSeenLocked now s) = rs_agg s"
  "rs_prices (pruneSeenLocked now s) = rs_prices s" "rs_quota (pruneSeenLocked now s) = rs_quota s"
  "rs_dedupWindow (pruneSeenLocked now s) = rs_dedupWindow s"
  "rs_retention (pruneSeenLocked now s) = rs_retention s"
  "rs_startedAt (pruneSeenLocked now s) = rs_startedAt s"
  "rs_lastRecordedAt (pruneSeenLocked now s) = rs_lastRecordedAt s"
  "rs_maxDetailsPerModel (pruneSeenLocked now s) = rs_maxDetailsPerModel s"
  by (simp_all add: pruneSeenLocked_def Let_def)

lemma note_frame [simp]:
  "rs_apis (noteDetailExpiry e s) = rs_apis s" "rs_agg (noteDetailExpiry e s) = rs_agg s"
  "rs_prices (noteDetailExpiry e s) = rs_prices s" "rs_quota (noteDetailExpiry e s) = rs_quota s"
  "rs_startedAt (noteDetailExpiry e s) = rs_startedAt s" "rs_seen (noteDetailExpiry e s) = rs_seen s"
  "rs_dedupWindow (noteDetailExpiry e s) = rs_dedupWindow s"
  "rs_nextSeenExpiry (noteDetailExpiry e s) = rs_nextSeenExpiry s"
  by (simp_all add: noteDetailExpiry_def)

lemma seenRecently_frame:
  assumes "seenRecently k n e dedup now w s = (s', b)"
  shows "rs_apis s' = rs_apis s" "rs_agg s' = rs_agg s" "rs_prices s' = rs_prices s" "rs_quota s' = rs_quota s"
    "rs_startedAt s' = rs_startedAt s" "rs_dedupWindow s' = rs_dedupWindow s"
  using assms by (auto simp: seenRecently_def Let_def split: if_splits)

lemma accountDetail_fields:
  fixes n :: string and e :: RequestDetail
  defines "c s \<equiv> detailCostLocked (rs_prices s) n e (totals_of e)"
  shows "rs_agg (accountDetail digest k n e arch s) = inc_aggregates n e (totals_of e) (c s) (rs_agg s)"
    "rs_apis (accountDetail digest k n e arch s) =
       go_put k (inc_api_sources e (totals_of e) (applyAPIStatsWithAccounting n e (totals_of e) (c s) arch
         (case go_get (rs_apis s) k of None \<Rightarrow> new_apiStats | Some a \<Rightarrow> a))) (rs_apis s)"
    "rs_quota (accountDetail digest k n e arch s) = addQuotaFactLocked digest (rs_startedAt s) k e (rs_quota s)"
    "rs_seen (accountDetail digest k n e arch s) = rs_seen s"
    "rs_dedupWindow (accountDetail digest k n e arch s) = rs_dedupWindow s"
    "rs_nextSeenExpiry (accountDetail digest k n e arch s) = rs_nextSeenExpiry s"
  unfolding c_def by (simp_all add: accountDetail_def invalidateCachedResponsesLocked_def Let_def)

lemma record_rejected:
  assumes "recordDetailWithAccountingLocked digest api n d dedup now w arch s = (s', False)"
  shows "rs_apis s' = rs_apis s \<and> rs_agg s' = rs_agg s \<and> rs_quota s' = rs_quota s"
  using assms seenRecently_frame
  by (auto simp: recordDetailWithAccountingLocked_def Let_def split: if_splits prod.splits)

text \<open>An accepted record is the accounting step on a state with the same ledger.\<close>

lemma record_accepted:
  assumes "recordDetailWithAccountingLocked digest api n d dedup now w arch s = (s', True)"
  shows "\<exists>s0. s' = accountDetail digest (recorded_api api) n (recorded_detail digest (recorded_api api) n d) arch s0 \<and>
    rs_apis s0 = rs_apis s \<and> rs_agg s0 = rs_agg s \<and> rs_quota s0 = rs_quota s \<and> rs_startedAt s0 = rs_startedAt s \<and>
    (case rs_quota s of None \<Rightarrow> True
     | Some q \<Rightarrow> go_get (qs_Deleted q) (rd_RecordID (recorded_detail digest (recorded_api api) n d)) = None)"
proof -
  let ?k = "recorded_api api"
  let ?e = "recorded_detail digest ?k n d"
  let ?s1 = "pruneSeenLocked now (if rs_retention s > 0 then noteDetailExpiry ?e s else s)"
  obtain s0 b where b: "seenRecently ?k n ?e dedup now w ?s1 = (s0, b)" by (metis surj_pair)
  have nd: "\<not> (case rs_quota s of None \<Rightarrow> False | Some q \<Rightarrow> go_get (qs_Deleted q) (rd_RecordID ?e) \<noteq> None)"
    using assms by (auto simp: recordDetailWithAccountingLocked_def Let_def)
  then have r: "(if b then (s0, False) else (accountDetail digest ?k n ?e arch s0, True)) = (s', True)"
    using assms unfolding recordDetailWithAccountingLocked_def Let_def by (simp add: b)
  have fr: "rs_apis s0 = rs_apis s" "rs_agg s0 = rs_agg s" "rs_quota s0 = rs_quota s" "rs_startedAt s0 = rs_startedAt s"
    using seenRecently_frame [OF b] by simp_all
  show ?thesis
    using r fr nd by (intro exI [of _ s0]) (auto split: if_splits option.splits)
qed

lemma apiStats_ok_new [simp]: "apiStats_ok new_apiStats"
  by (simp add: apiStats_ok_def new_apiStats_def api_ok_def source_counts.counts_def source_look_def)

lemma model_ok_new: "model_ok new_modelStats {#}"
  by (simp add: model_ok_def new_modelStats_def retained_alt)

lemma retained_new [simp]: "retained new_modelStats = {#}"
  by (simp add: new_modelStats_def retained_alt)

lemma model_ok_append: "model_ok (appendDetail d arch m) M = model_ok m M"
  by (simp add: model_ok_def appendDetail_def Let_def)

lemma inc_model_retained [simp]: "retained (inc_model d t c m) = retained m"
  by (simp add: retained_alt inc_model_def)

text \<open>One model gains one detail.\<close>

lemma models_put:
  fixes n :: string and c :: float64 and arch :: bool
  assumes "models_ok ms" "sums_fit (add_mset (archived d) (details_of (models_entries ms)))"
  defines "m \<equiv> (case go_get ms n of None \<Rightarrow> new_modelStats | Some m \<Rightarrow> m)"
  defines "m' \<equiv> appendDetail d arch (inc_model d (totals_of d) c m)"
  shows "models_ok (go_put n m' ms) \<and> models_entries (go_put n m' ms) = add_mset (n, archived d) (models_entries ms)"
proof -
  have ok: "model_ok m (retained m)"
  proof (cases "go_get ms n")
    case None
    then show ?thesis by (simp add: m_def model_ok_new)
  next
    case (Some m0)
    then have "(n, m0) \<in> set ms" by (rule map_of_SomeD)
    then show ?thesis using assms(1) Some by (auto simp: m_def models_ok_def list_all_iff)
  qed
  note sum = sum_put [of "\<lambda>(n, m). image_mset (Pair n) (retained m)" n m' ms]
  have old: "(case go_get ms n of None \<Rightarrow> {#} | Some v' \<Rightarrow> image_mset (Pair n) (retained v')) = image_mset (Pair n) (retained m)"
    by (simp add: m_def split: option.split)
  have e: "models_entries (go_put n m' ms) + image_mset (Pair n) (retained m) =
      models_entries ms + image_mset (Pair n) (retained m')"
    using sum unfolding models_entries_def prod.case old .
  have ret: "retained m' = add_mset (archived d) (retained m)" by (simp add: m'_def)
  have entries: "models_entries (go_put n m' ms) = add_mset (n, archived d) (models_entries ms)"
    using e unfolding ret by simp
  have "image_mset (Pair n) (retained m') \<subseteq># models_entries (go_put n m' ms)"
    using sum_get [of "go_put n m' ms" n m' "\<lambda>(n, m). image_mset (Pair n) (retained m)"]
    by (simp add: models_entries_def)
  then have "retained m' \<subseteq># details_of (models_entries (go_put n m' ms))"
    using image_mset_subseteq_mono [of "image_mset (Pair n) (retained m')" _ snd] by simp
  then have "sums_fit (add_mset (archived d) (retained m))"
    using sums_fit_sub [OF assms(2)] unfolding entries ret by simp
  from model_ok_inc [OF ok this] have "model_ok m' (retained m')"
    unfolding ret by (simp add: m'_def model_ok_append)
  then have "models_ok (go_put n m' ms)"
    using assms(1) unfolding models_ok_def by (intro list_all_put) simp_all
  with entries show ?thesis by blast
qed

lemma api_put:
  fixes n :: string and c :: float64 and arch :: bool
  assumes "apiStats_ok a" "sums_fit (add_mset (archived d) (details_of (models_entries (as_Models a))))"
  defines "a' \<equiv> inc_api_sources d (totals_of d) (applyAPIStatsWithAccounting n d (totals_of d) c arch a)"
  shows "apiStats_ok a' \<and> models_entries (as_Models a') = add_mset (n, archived d) (models_entries (as_Models a))"
proof -
  let ?m = "case go_get (as_Models a) n of None \<Rightarrow> new_modelStats | Some m \<Rightarrow> m"
  let ?ms = "go_put n (appendDetail d arch (inc_model d (totals_of d) c ?m)) (as_Models a)"
  have ms: "as_Models a' = ?ms"
    by (simp add: a'_def inc_api_sources_def applyAPIStatsWithAccounting_def inc_api_def Let_def)
  have same: "api_ok a' D = api_ok (inc_api_sources d (totals_of d) (inc_api d (totals_of d) c a)) D" for D
    by (simp add: a'_def api_ok_def inc_api_sources_def applyAPIStatsWithAccounting_def inc_api_def Let_def)
  have "models_ok (as_Models a)" "api_ok a (details_of (models_entries (as_Models a)))"
    using assms(1) by (simp_all add: apiStats_ok_def)
  note m = models_put [OF this(1) assms(2), of n arch c]
  have "api_ok (inc_api_sources (archived d) (totals_of (archived d)) (inc_api (archived d) (totals_of (archived d)) c a))
      (add_mset (archived d) (details_of (models_entries (as_Models a))))"
    using \<open>api_ok a _\<close> assms(2) by (rule api_ok_inc)
  then have "api_ok a' (details_of (models_entries ?ms))" using m by (simp add: same)
  then show ?thesis using m by (simp add: apiStats_ok_def ms)
qed

lemma accountDetail_ok:
  fixes n :: string and k :: string and digest :: "requestDedupKey \<Rightarrow> string" and arch :: bool
  assumes "ledger_ok s" "sums_fit (add_mset (archived e) (details_of (image_mset snd (ledger_entries (rs_apis s)))))"
  defines "s' \<equiv> accountDetail digest k n e arch s"
  shows "ledger_ok s' \<and> ledger_entries (rs_apis s') = add_mset (k, n, archived e) (ledger_entries (rs_apis s))"
proof -
  let ?c = "detailCostLocked (rs_prices s) n e (totals_of e)"
  let ?apis = "rs_apis s"
  define a where "a = (case go_get ?apis k of None \<Rightarrow> new_apiStats | Some a \<Rightarrow> a)"
  define a' where "a' = inc_api_sources e (totals_of e) (applyAPIStatsWithAccounting n e (totals_of e) ?c arch a)"
  have apis': "rs_apis s' = go_put k a' ?apis" by (simp add: s'_def accountDetail_fields a_def a'_def)
  have agg': "rs_agg s' = inc_aggregates n e (totals_of e) ?c (rs_agg s)" by (simp add: s'_def accountDetail_fields)
  have ok: "apiStats_ok a"
  proof (cases "go_get ?apis k")
    case None
    then show ?thesis by (simp add: a_def)
  next
    case (Some a0)
    then have "(k, a0) \<in> set ?apis" by (rule map_of_SomeD)
    then show ?thesis using assms(1) Some by (auto simp: a_def ledger_ok_def list_all_iff)
  qed
  let ?f = "\<lambda>(k, a). image_mset (Pair k) (models_entries (as_Models a))"
  have old: "(case go_get ?apis k of None \<Rightarrow> {#} | Some v \<Rightarrow> ?f (k, v)) = image_mset (Pair k) (models_entries (as_Models a))"
    by (simp add: a_def new_apiStats_def split: option.split)
  have sum: "ledger_entries (go_put k v ?apis) + image_mset (Pair k) (models_entries (as_Models a)) =
      ledger_entries ?apis + image_mset (Pair k) (models_entries (as_Models v))" for v
    using sum_put [of ?f k v ?apis] unfolding ledger_entries_def prod.case old [unfolded prod.case] .
  have "image_mset (Pair k) (models_entries (as_Models a)) \<subseteq># ledger_entries ?apis"
  proof (cases "go_get ?apis k")
    case None
    then show ?thesis by (simp add: a_def new_apiStats_def)
  next
    case (Some a0)
    then show ?thesis
      using sum_get [OF Some, of ?f] by (simp add: a_def ledger_entries_def)
  qed
  then have "models_entries (as_Models a) \<subseteq># image_mset snd (ledger_entries ?apis)"
    using image_mset_subseteq_mono [of "image_mset (Pair k) (models_entries (as_Models a))" _ snd] by simp
  then have "details_of (models_entries (as_Models a)) \<subseteq># details_of (image_mset snd (ledger_entries ?apis))"
    by (rule image_mset_subseteq_mono)
  then have "sums_fit (add_mset (archived e) (details_of (models_entries (as_Models a))))"
    by (intro sums_fit_sub [OF assms(2)]) simp
  note api = api_put [OF ok this, of n ?c arch, folded a'_def]
  have entries: "ledger_entries (rs_apis s') = add_mset (k, n, archived e) (ledger_entries ?apis)"
    using sum [of a'] api unfolding apis' by simp
  have "agg_ok (inc_aggregates n (archived e) (totals_of (archived e)) ?c (rs_agg s))
      (add_mset (n, archived e) (image_mset snd (ledger_entries ?apis)))"
    using assms(1,2) by (intro agg_ok_inc) (simp_all add: ledger_ok_def)
  then have "agg_ok (rs_agg s') (image_mset snd (ledger_entries (rs_apis s')))"
    unfolding entries agg' by simp
  moreover have "list_all (\<lambda>(k, a). apiStats_ok a) (rs_apis s')"
    unfolding apis' using assms(1) api by (intro list_all_put) (simp_all add: ledger_ok_def)
  ultimately show ?thesis using entries by (simp add: ledger_ok_def)
qed

section \<open>What is recorded, removed and rebuilt\<close>

text \<open>All retained details, and the range in which their sums fit the counters.\<close>

definition all_details :: "RequestStatistics \<Rightarrow> RequestDetail multiset" where
  "all_details s = image_mset (\<lambda>(api, model, d). d) (ledger_entries (rs_apis s))"

lemma all_details_alt: "all_details s = details_of (image_mset snd (ledger_entries (rs_apis s)))"
  by (simp add: all_details_def multiset.map_comp comp_def case_prod_unfold)

lemma record_step:
  assumes "ledger_ok s"
    and "recordDetailWithAccountingLocked digest api n d dedup now w arch s = (s', accepted)"
    and "sums_fit (add_mset (archived (recorded_detail digest (recorded_api api) n d)) (all_details s))"
  shows "ledger_ok s' \<and>
    (if accepted
     then ledger_entries (rs_apis s') =
       add_mset (recorded_api api, n, archived (recorded_detail digest (recorded_api api) n d)) (ledger_entries (rs_apis s))
     else rs_apis s' = rs_apis s \<and> rs_agg s' = rs_agg s \<and> rs_quota s' = rs_quota s)"
proof (cases accepted)
  case False
  then show ?thesis using record_rejected assms(1,2) by (simp add: ledger_ok_def)
next
  case True
  then have "recordDetailWithAccountingLocked digest api n d dedup now w arch s = (s', True)" using assms(2) by simp
  from record_accepted [OF this] obtain s0
    where "s' = accountDetail digest (recorded_api api) n (recorded_detail digest (recorded_api api) n d) arch s0"
      and s0: "rs_apis s0 = rs_apis s" "rs_agg s0 = rs_agg s"
    by blast
  moreover have "ledger_ok s0" using assms(1) s0 by (simp add: ledger_ok_def)
  ultimately show ?thesis
    using accountDetail_ok [of s0] assms(3) True unfolding all_details_alt by simp
qed

text \<open>
  C1: Recording keeps the ledger consistent: after an accepted record every counter (globally,
  per day, hour, model, source, credential, client, API and provider) is the sum over the
  retained details, which are the old ones and exactly the new one; a rejected record changes
  no counter, no retained detail and no quota fact.
\<close>
theorem record_adds_one:
  assumes "ledger_ok s"
    and "recordDetailWithAccountingLocked digest api n d dedup now w arch s = (s', accepted)"
    and "sums_fit (add_mset (archived (recorded_detail digest (recorded_api api) n d)) (all_details s))"
  shows "ledger_ok s' \<and>
    (if accepted
     then ledger_entries (rs_apis s') =
       add_mset (recorded_api api, n, archived (recorded_detail digest (recorded_api api) n d)) (ledger_entries (rs_apis s))
     else rs_apis s' = rs_apis s \<and> rs_agg s' = rs_agg s \<and> rs_quota s' = rs_quota s)"
  using record_step [OF assms] .

lemma pruneLocked_ok:
  assumes "ledger_ok s"
  shows "ledger_ok (pruneLocked now sortNeeded s) \<and>
    ledger_entries (rs_apis (pruneLocked now sortNeeded s)) =
      filter_mset (\<lambda>(api, model, d). \<not> drops (prune_cutoff now s) d) (ledger_entries (rs_apis s)) \<and>
    rs_quota (pruneLocked now sortNeeded s) = rs_quota s \<and> rs_seen (pruneLocked now sortNeeded s) = rs_seen s"
proof -
  let ?s = "s\<lparr> rs_nextDetailExpiry := zero_time \<rparr>"
  obtain s1 apis c where p: "pruneAPIs (prune_cutoff now s) sortNeeded (rs_apis s) ?s = ((s1, apis), c)"
    by (metis surj_pair)
  have "agg_ok (rs_agg ?s) (image_mset snd (ledger_entries (rs_apis s)) + {#})"
    "list_all (\<lambda>(k, a). apiStats_ok a) (rs_apis s)"
    using assms by (simp_all add: ledger_ok_def)
  note r = pruneAPIs_ok [OF p this]
  have f: "(\<lambda>(api :: string, model :: string, d). \<not> drops (prune_cutoff now s) d) =
      (\<lambda>e. \<not> drops (prune_cutoff now s) (snd (snd e)))"
    by (simp add: fun_eq_iff)
  from r have ok: "agg_ok (rs_agg s1) (image_mset snd (ledger_entries apis) + {#})" by blast
  have e: "rs_apis (pruneLocked now sortNeeded s) = apis" "rs_agg (pruneLocked now sortNeeded s) = rs_agg s1"
    "rs_quota (pruneLocked now sortNeeded s) = rs_quota s1" "rs_seen (pruneLocked now sortNeeded s) = rs_seen s1"
    by (simp_all add: pruneLocked_def p invalidateCachedResponsesLocked_def Let_def)
  have "core s1 = core s" using r by simp
  from coreD(1,5) [OF this] show ?thesis using r ok e f by (simp add: ledger_ok_def)
qed

text \<open>
  C3: Removal takes exactly the expired details: those with a timestamp before the cutoff.
  Details without a timestamp stay, nothing goes when there is no retention, and afterwards
  every counter is again the sum over what is left.
\<close>
theorem prune_removes_expired:
  assumes "ledger_ok s"
  shows "ledger_ok (pruneLocked now sortNeeded s) \<and>
    ledger_entries (rs_apis (pruneLocked now sortNeeded s)) =
      filter_mset (\<lambda>(api, model, d). \<not> drops (prune_cutoff now s) d) (ledger_entries (rs_apis s)) \<and>
    rs_quota (pruneLocked now sortNeeded s) = rs_quota s \<and> rs_seen (pruneLocked now sortNeeded s) = rs_seen s"
  using pruneLocked_ok [OF assms] .


lemma rebuild_ok:
  assumes "sums_fit (all_details s)"
  shows "ledger_ok (rebuildAggregatesLocked s) \<and>
    map (\<lambda>(k, a). (k, map (\<lambda>(n, m). (n, stored m)) (as_Models a))) (rs_apis (rebuildAggregatesLocked s)) =
    map (\<lambda>(k, a). (k, map (\<lambda>(n, m). (n, stored m)) (as_Models a))) (rs_apis s) \<and>
    ledger_entries (rs_apis (rebuildAggregatesLocked s)) = ledger_entries (rs_apis s)"
proof -
  obtain s1 apis where p: "rebuildAPIs (rs_apis s) (s\<lparr> rs_agg := zero_aggregates \<rparr>) = (s1, apis)"
    by (metis surj_pair)
  have "agg_ok (rs_agg (s\<lparr> rs_agg := zero_aggregates \<rparr>)) {#}" by (simp add: agg_ok_zero)
  moreover have "sums_fit (details_of (image_mset snd (ledger_entries (rs_apis s)) + {#}))"
    using assms by (simp add: all_details_alt)
  ultimately have r: "list_all (\<lambda>(k, a). apiStats_ok a) apis \<and> ledger_entries apis = ledger_entries (rs_apis s) \<and>
      agg_ok (rs_agg s1) (image_mset snd (ledger_entries (rs_apis s)) + {#}) \<and> core s1 = core (s\<lparr> rs_agg := zero_aggregates \<rparr>) \<and>
      map (\<lambda>(k, a). (k, map (\<lambda>(n, m). (n, stored m)) (as_Models a))) apis =
      map (\<lambda>(k, a). (k, map (\<lambda>(n, m). (n, stored m)) (as_Models a))) (rs_apis s)"
    by (rule rebuildAPIs_ok [OF p])
  have e: "rs_apis (rebuildAggregatesLocked s) = apis" "rs_agg (rebuildAggregatesLocked s) = rs_agg s1"
    by (simp_all add: rebuildAggregatesLocked_def p)
  show ?thesis using r by (simp add: ledger_ok_def e)
qed

text \<open>
  C4: The rebuild needs no trust in the old counters: whatever they were, afterwards every
  counter is the sum over the retained details, and no detail has been added, lost, moved or
  reordered.
\<close>
theorem rebuild_restores_counters:
  assumes "sums_fit (all_details s)"
  shows "ledger_ok (rebuildAggregatesLocked s) \<and>
    map (\<lambda>(k, a). (k, map (\<lambda>(n, m). (n, stored m)) (as_Models a))) (rs_apis (rebuildAggregatesLocked s)) =
    map (\<lambda>(k, a). (k, map (\<lambda>(n, m). (n, stored m)) (as_Models a))) (rs_apis s) \<and>
    ledger_entries (rs_apis (rebuildAggregatesLocked s)) = ledger_entries (rs_apis s)"
  using rebuild_ok [OF assms] .

section \<open>The window of recent requests\<close>

text \<open>
  The known expiry is never later than any entry's, so nothing expires before it.  No entry may
  expire at the zero time, which stands for ``none known''.
\<close>

definition seen_gate :: "RequestStatistics \<Rightarrow> bool" where
  "seen_gate s \<longleftrightarrow> go_wf (rs_seen s) \<and>
     (\<forall>(key, t)\<in>set (rs_seen s). t_ns t + rs_dedupWindow s \<noteq> zero_instant \<and>
        (time_IsZero (rs_nextSeenExpiry s) \<or> t_ns (rs_nextSeenExpiry s) \<le> t_ns t + rs_dedupWindow s))"

text \<open>After a pruning, an unknown expiry means that nothing is remembered.\<close>

definition seen_known :: "RequestStatistics \<Rightarrow> bool" where
  "seen_known s \<longleftrightarrow> (time_IsZero (rs_nextSeenExpiry s) \<longrightarrow> rs_seen s = [])"

lemma fold_earlier:
  fixes x :: gotime and w :: int
  assumes "\<forall>(key, t)\<in>set seen. t_ns t + w \<noteq> zero_instant"
  defines "e \<equiv> fold (\<lambda>(key, t) x. earlier_expiry x (time_Add t w)) seen x"
  shows "(time_IsZero e \<longrightarrow> seen = [] \<and> time_IsZero x) \<and> (\<not> time_IsZero x \<longrightarrow> t_ns e \<le> t_ns x) \<and>
    (\<forall>(key, t)\<in>set seen. t_ns e \<le> t_ns t + w)"
  using assms(1) unfolding e_def
proof (induction seen arbitrary: x)
  case Nil
  then show ?case by simp
next
  case (Cons p seen)
  obtain key t where p: "p = (key, t)" by (cases p)
  let ?x = "earlier_expiry x (time_Add t w)"
  have x: "\<not> time_IsZero ?x" "t_ns ?x \<le> t_ns t + w" "\<not> time_IsZero x \<longrightarrow> t_ns ?x \<le> t_ns x"
    using Cons.prems by (auto simp: p earlier_expiry_def time_defs)
  show ?case using Cons.IH [of ?x] Cons.prems x by (force simp: p)
qed

lemma pruneSeen_exact:
  assumes "seen_gate s" "rs_dedupWindow s > 0"
  shows "rs_seen (pruneSeenLocked now s) =
      filter (\<lambda>(key, t). \<not> time_Before t (time_Add now (- rs_dedupWindow s))) (rs_seen s) \<and>
    seen_gate (pruneSeenLocked now s) \<and> seen_known (pruneSeenLocked now s)"
proof (cases "\<not> time_IsZero (rs_nextSeenExpiry s) \<and> time_Before now (rs_nextSeenExpiry s)")
  case True
  then have "filter (\<lambda>(key, t). \<not> time_Before t (time_Add now (- rs_dedupWindow s))) (rs_seen s) = rs_seen s"
    using assms(1) by (force simp: seen_gate_def time_defs intro!: filter_True)
  then show ?thesis using True assms by (simp add: pruneSeenLocked_def seen_known_def)
next
  case False
  let ?kept = "filter (\<lambda>(key, t). \<not> time_Before t (time_Add now (- rs_dedupWindow s))) (rs_seen s)"
  have k: "\<forall>(key, t)\<in>set ?kept. t_ns t + rs_dedupWindow s \<noteq> zero_instant" "go_wf ?kept"
    using assms(1) by (auto simp: seen_gate_def distinct_map_filter)
  have "pruneSeenLocked now s = s\<lparr> rs_seen := ?kept, rs_nextSeenExpiry :=
      fold (\<lambda>(key, t) x. earlier_expiry x (time_Add t (rs_dedupWindow s))) ?kept zero_time \<rparr>"
    using False assms(2) by (auto simp: pruneSeenLocked_def Let_def)
  then show ?thesis
    using fold_earlier [OF k(1), of zero_time] k by (auto simp: seen_gate_def seen_known_def)
qed

lemma gomap_all: "go_wf m \<Longrightarrow> (\<forall>(k, v)\<in>set m. P k v) \<longleftrightarrow> (\<forall>k v. go_get m k = Some v \<longrightarrow> P k v)"
  by fastforce

lemma go_get_filter:
  "go_wf m \<Longrightarrow> go_get (filter (\<lambda>(k, v). P v) m) k = (case go_get m k of None \<Rightarrow> None | Some v \<Rightarrow> if P v then Some v else None)"
  by (induction m) (auto simp: map_of_eq_None_iff split: option.splits if_splits)

lemma seen_gate_put:
  assumes "seen_gate s" "seen_known s" "t_ns now + rs_dedupWindow s \<noteq> zero_instant"
  shows "seen_gate (s\<lparr> rs_seen := go_put k now (rs_seen s),
    rs_nextSeenExpiry := earlier_expiry (rs_nextSeenExpiry s) (time_Add now (rs_dedupWindow s)) \<rparr>)"
  using assms unfolding seen_gate_def seen_known_def
  by (auto simp: gomap_all earlier_expiry_def time_defs split: if_splits)

text \<open>
  C5: The deduplication window is exact: a request is accepted if and only if its record has not
  been deleted and the same request was not accepted within the window before it.  An accepted
  request is remembered with its time, whatever else was forgotten.
\<close>
theorem record_dedup_window:
  fixes d :: RequestDetail and api :: string
  assumes "seen_gate s" "rs_dedupWindow s > 0" "t_ns now + rs_dedupWindow s \<noteq> zero_instant"
    and r: "recordDetailWithAccountingLocked digest api n d dedup now True arch s = (s', accepted)"
  defines "d' \<equiv> recorded_detail digest (recorded_api api) n d"
  defines "k \<equiv> (if dedup = zeroDedupKey then dedupKey (recorded_api api) n d' else dedup)"
  defines "deleted \<equiv> (case rs_quota s of None \<Rightarrow> False | Some q \<Rightarrow> go_get (qs_Deleted q) (rd_RecordID d') \<noteq> None)"
  shows "(accepted \<longleftrightarrow> \<not> deleted \<and> (\<forall>t. go_get (rs_seen s) k = Some t \<longrightarrow> t_ns t < t_ns now - rs_dedupWindow s)) \<and>
    (accepted \<longrightarrow> go_get (rs_seen s') k = Some now) \<and>
    seen_gate s' \<and> rs_dedupWindow s' = rs_dedupWindow s"
proof (cases deleted)
  case True
  then have "(s', accepted) = (s, False)"
    using r unfolding deleted_def d'_def recordDetailWithAccountingLocked_def Let_def by simp
  then show ?thesis using True assms(1) by simp
next
  case False
  let ?s0 = "if rs_retention s > 0 then noteDetailExpiry d' s else s"
  let ?s1 = "pruneSeenLocked now ?s0"
  have s0: "seen_gate ?s0" "rs_dedupWindow ?s0 > 0" "rs_dedupWindow ?s0 = rs_dedupWindow s" "rs_seen ?s0 = rs_seen s"
    using assms(1,2) by (auto simp: noteDetailExpiry_def seen_gate_def)
  from pruneSeen_exact [OF s0(1,2), of now] have p: "rs_seen ?s1 = filter (\<lambda>(key, t). \<not> time_Before t (time_Add now (- rs_dedupWindow s))) (rs_seen s)"
    "seen_gate ?s1" "seen_known ?s1" unfolding s0(3,4) by blast+
  have w: "rs_dedupWindow ?s1 = rs_dedupWindow s" by (simp add: pruneSeenLocked_def Let_def s0)
  have look: "go_get (rs_seen ?s1) k \<noteq> None \<longleftrightarrow> \<not> (\<forall>t. go_get (rs_seen s) k = Some t \<longrightarrow> t_ns t < t_ns now - rs_dedupWindow s)"
    using assms(1) unfolding p(1) seen_gate_def
    by (cases "go_get (rs_seen s) k") (simp_all add: go_get_filter time_defs)
  have r': "(s', accepted) = (case seenRecently (recorded_api api) n d' dedup now True ?s1 of (s, duplicate) \<Rightarrow>
      if duplicate then (s, False) else (accountDetail digest (recorded_api api) n d' arch s, True))"
    using r [symmetric] False unfolding deleted_def d'_def recordDetailWithAccountingLocked_def Let_def by simp
  have acc: "rs_seen (accountDetail digest a n d' arch t) = rs_seen t"
    "rs_nextSeenExpiry (accountDetail digest a n d' arch t) = rs_nextSeenExpiry t"
    "rs_dedupWindow (accountDetail digest a n d' arch t) = rs_dedupWindow t" for a t
    by (simp_all add: accountDetail_def Let_def invalidateCachedResponsesLocked_def)
  show ?thesis
  proof (cases "go_get (rs_seen ?s1) k")
    case None
    let ?s2 = "?s1\<lparr> rs_seen := go_put k now (rs_seen ?s1),
      rs_nextSeenExpiry := earlier_expiry (rs_nextSeenExpiry ?s1) (time_Add now (rs_dedupWindow ?s1)) \<rparr>"
    have "seenRecently (recorded_api api) n d' dedup now True ?s1 = (?s2, False)"
      using None assms(2) w by (simp add: seenRecently_def Let_def k_def)
    then have e: "accepted" "s' = accountDetail digest (recorded_api api) n d' arch ?s2" using r' by simp_all
    have "seen_gate ?s2" using seen_gate_put [OF p(2,3)] assms(3) w by simp
    then have "seen_gate s'" by (simp add: e(2) seen_gate_def acc)
    then show ?thesis using False None look w by (simp add: e acc)
  next
    case (Some t)
    then have "seenRecently (recorded_api api) n d' dedup now True ?s1 = (?s1, True)"
      using assms(2) w by (simp add: seenRecently_def Let_def k_def)
    then have "\<not> accepted" "s' = ?s1" using r' by simp_all
    then show ?thesis using False Some look w p by simp
  qed
qed

section \<open>Sample ledgers\<close>

definition sample_now :: gotime where
  "sample_now = \<lparr> t_ns = 70000000000, t_off = 0 \<rparr>"

definition sample_ledger :: RequestStatistics where
  "sample_ledger = NewRequestStatistics zero_time (\<lambda>_. 0)"

definition sample_record :: "gotime \<Rightarrow> RequestStatistics \<Rightarrow> RequestStatistics \<times> bool" where
  "sample_record now s = recordDetailWithAccountingLocked (\<lambda>_. ''h'') ''api'' ''m'' sample_detail zeroDedupKey now True False s"

definition sample_stored :: RequestDetail where
  "sample_stored = recorded_detail (\<lambda>_. ''h'') ''api'' ''m'' sample_detail"

lemma sample_ledger_ok: "ledger_ok sample_ledger" "all_details sample_ledger = {#}"
  by (simp_all add: sample_ledger_def NewRequestStatistics_def ledger_ok_def all_details_def agg_ok_zero)

lemma wide_all: "(\<forall>c :: wide. P c) \<longleftrightarrow> (\<forall>c. P (Count c)) \<and> P LatencySum \<and> P LatencyN"
  by (metis wide.exhaust)

lemma counter_all: "(\<forall>c :: counter. P c) \<longleftrightarrow> P Requests \<and> P Success \<and> P Failure \<and> P TotalTok \<and> P InputTok \<and>
    P OutputTok \<and> P CachedTok \<and> P CacheWriteTok \<and> P ReasoningTok"
  by (metis counter.exhaust)

lemma sample_fits: "sums_fit {#archived sample_stored#}"
  unfolding sums_fit_def wide_all counter_all wsum_simps by code_simp

lemma first_accepted:
  assumes "rs_seen s = []" "rs_quota s = None"
  shows "snd (recordDetailWithAccountingLocked digest api n d dedup now w arch s)"
proof -
  have "rs_seen (pruneSeenLocked now (if rs_retention s > 0 then noteDetailExpiry d' s else s)) = []" for d'
    using assms by (simp add: pruneSeenLocked_def noteDetailExpiry_def Let_def)
  then show ?thesis
    using assms by (simp add: recordDetailWithAccountingLocked_def Let_def seenRecently_def)
qed

definition sample_recorded :: RequestStatistics where
  "sample_recorded = fst (sample_record sample_now sample_ledger)"

lemma sample_recorded_eq:
  "recordDetailWithAccountingLocked (\<lambda>_. ''h'') ''api'' ''m'' sample_detail zeroDedupKey sample_now True False sample_ledger =
     (sample_recorded, True)"
  using first_accepted [of sample_ledger]
  by (simp add: sample_recorded_def sample_record_def prod_eq_iff sample_ledger_def NewRequestStatistics_def)

lemma sample_fits': "sums_fit (add_mset (archived (recorded_detail (\<lambda>_. ''h'') (recorded_api ''api'') ''m'' sample_detail))
    (all_details sample_ledger))"
proof -
  have "recorded_api ''api'' = ''api''" by code_simp
  then show ?thesis using sample_fits by (simp add: sample_ledger_ok sample_stored_def)
qed

lemma record_adds_one_witness:
  "ledger_ok sample_recorded \<and> ledger_entries (rs_apis sample_recorded) = {# (''api'', ''m'', archived sample_stored) #}"
proof -
  have "recorded_api ''api'' = ''api''" by code_simp
  then show ?thesis
    using record_adds_one [OF sample_ledger_ok(1) sample_recorded_eq sample_fits']
    by (simp add: sample_stored_def sample_ledger_def NewRequestStatistics_def)
qed

lemma sample_recorded_ok:
  "ledger_ok sample_recorded" "ledger_entries (rs_apis sample_recorded) = {# (''api'', ''m'', archived sample_stored) #}"
proof -
  have "recorded_api ''api'' = ''api''" by code_simp
  then show "ledger_ok sample_recorded"
    "ledger_entries (rs_apis sample_recorded) = {# (''api'', ''m'', archived sample_stored) #}"
    using record_step [OF sample_ledger_ok(1) sample_recorded_eq sample_fits']
    by (simp_all add: sample_stored_def sample_ledger_def NewRequestStatistics_def)
qed

lemma sample_recorded_fits: "sums_fit (all_details sample_recorded)"
  using sample_fits by (simp add: all_details_def sample_recorded_ok)

text \<open>Forty days later the recorded detail is past the retention of 30 days.\<close>

definition sample_later :: gotime where
  "sample_later = \<lparr> t_ns = 40 * 24 * 3600 * 1000000000, t_off = 0 \<rparr>"

lemma record_settings:
  "rs_retention (fst (recordDetailWithAccountingLocked digest api n d dedup now w arch s)) = rs_retention s"
  "rs_dedupWindow (fst (recordDetailWithAccountingLocked digest api n d dedup now w arch s)) = rs_dedupWindow s"
  by (auto simp: recordDetailWithAccountingLocked_def Let_def seenRecently_def accountDetail_def
      invalidateCachedResponsesLocked_def noteDetailExpiry_def split: prod.splits if_splits)

lemma sample_drops: "drops (prune_cutoff sample_later sample_recorded) sample_stored"
proof -
  have "rs_retention sample_recorded = 30 * 24 * time_Hour"
    unfolding sample_recorded_def sample_record_def record_settings by (simp add: sample_ledger_def NewRequestStatistics_def)
  then have c: "prune_cutoff sample_later sample_recorded = \<lparr> t_ns = 10 * 24 * 3600 * 1000000000, t_off = 0 \<rparr>"
    by (simp add: prune_cutoff_def sample_later_def time_units time_Add_def)
  show ?thesis unfolding c by code_simp
qed

lemma prune_removes_expired_witness:
  "ledger_ok (pruneLocked sample_later True sample_recorded) \<and>
   ledger_entries (rs_apis sample_recorded) = {# (''api'', ''m'', archived sample_stored) #} \<and>
   ledger_entries (rs_apis (pruneLocked sample_later True sample_recorded)) = {#}"
  using prune_removes_expired [OF sample_recorded_ok(1), of sample_later True] sample_drops
  by (simp add: sample_recorded_ok(2))

lemma rebuild_restores_counters_witness:
  "ledger_ok (rebuildAggregatesLocked (sample_recorded\<lparr> rs_agg := zero_aggregates \<rparr>))"
  using rebuild_restores_counters [of "sample_recorded\<lparr> rs_agg := zero_aggregates \<rparr>"] sample_recorded_fits
  by (simp add: all_details_def)

text \<open>The same request a second later is a duplicate; two days later it is accepted again.\<close>

lemma record_dedup_window_witness:
  "snd (sample_record (time_Add sample_now time_Second) sample_recorded) = False \<and>
   snd (sample_record (time_Add sample_now (48 * time_Hour)) sample_recorded) = True"
proof -
  let ?d = "recorded_detail (\<lambda>_. ''h'') (recorded_api ''api'') ''m'' sample_detail"
  let ?k = "dedupKey (recorded_api ''api'') ''m'' ?d"
  have w: "rs_dedupWindow sample_ledger = 24 * time_Hour" "seen_gate sample_ledger" "rs_quota sample_ledger = None"
    by (simp_all add: sample_ledger_def NewRequestStatistics_def time_units seen_gate_def)
  have 1: "go_get (rs_seen sample_recorded) ?k = Some sample_now" "seen_gate sample_recorded"
    "rs_dedupWindow sample_recorded = 24 * time_Hour"
    using record_dedup_window [OF w(2) _ _ sample_recorded_eq]
    by (simp_all add: w time_units sample_now_def zero_instant_def)
  have e: "\<not> quotaEligible ?d" by code_simp
  obtain s0 where s0: "sample_recorded = accountDetail (\<lambda>_. ''h'') (recorded_api ''api'') ''m'' ?d False s0"
    "rs_quota s0 = None"
    using record_accepted [OF sample_recorded_eq] w(3) by auto
  have q: "rs_quota sample_recorded = None"
    unfolding s0(1) accountDetail_fields(3) addQuotaFactLocked_def using e s0(2) by simp
  have 2: "snd (sample_record t sample_recorded) = (t_ns sample_now < t_ns t - 24 * time_Hour)"
    if "t_ns t > 0" for t
  proof -
    obtain s' b where r: "sample_record t sample_recorded = (s', b)" by (metis surj_pair)
    show ?thesis
      using record_dedup_window [OF 1(2) _ _ r [unfolded sample_record_def]] that
      by (simp add: 1 q r time_units zero_instant_def)
  qed
  show ?thesis by (simp add: 2 sample_now_def time_Add_def time_units)
qed

end
