(* ===== verification/Metadata.thy ===== *)
theory Metadata
  imports LedgerProperties
begin

text \<open>
  The metadata of a detail that may be filled in after it was recorded
  (\<open>enrichRequestDetailMetadata\<close> in \<open>go/stats.go\<close>): endpoint, requested model, thinking, service
  tier and stream.  No counter depends on these fields, so the invariant of the ledger only sees a
  detail up to them (\<open>plain\<close>).
\<close>

section \<open>Enrichment\<close>

type_synonym enriched = "RequestDetail \<times> bool"

text \<open>One step of the function: if \<open>missing\<close> and there is something to fill in, set it.\<close>

definition fill_in :: "(RequestDetail \<Rightarrow> bool) \<Rightarrow> bool \<Rightarrow> (RequestDetail \<Rightarrow> RequestDetail) \<Rightarrow> enriched \<Rightarrow> enriched" where
  "fill_in missing available set' = (\<lambda>(detail, changed).
     if missing detail \<and> available then (set' detail, True) else (detail, changed))"

definition enrichRequestDetailMetadata :: "RequestDetail \<Rightarrow> RequestDetail \<Rightarrow> enriched" where
  "enrichRequestDetailMetadata detail update =
     (let e = (detail, False);
          e = fill_in (\<lambda>d. rd_Endpoint d = []) (go_TrimSpace (rd_Endpoint update) \<noteq> [])
                (\<lambda>d. d\<lparr> rd_Endpoint := go_TrimSpace (rd_Endpoint update) \<rparr>) e;
          e = fill_in (\<lambda>d. go_TrimSpace (rd_RequestedModel d) = []) (go_TrimSpace (rd_RequestedModel update) \<noteq> [])
                (\<lambda>d. d\<lparr> rd_RequestedModel := go_TrimSpace (rd_RequestedModel update) \<rparr>) e;
          e = fill_in (\<lambda>d. rd_Thinking d = zeroThinking) (rd_Thinking update \<noteq> zeroThinking)
                (\<lambda>d. d\<lparr> rd_Thinking := rd_Thinking update \<rparr>) e;
          e = fill_in (\<lambda>d. rd_ServiceTier d = []) (go_TrimSpace (rd_ServiceTier update) \<noteq> [])
                (\<lambda>d. d\<lparr> rd_ServiceTier := go_TrimSpace (rd_ServiceTier update) \<rparr>) e
      in fill_in (\<lambda>d. \<not> rd_Stream d) (rd_Stream update) (\<lambda>d. d\<lparr> rd_Stream := True \<rparr>) e)"

abbreviation enriched_by :: "RequestDetail \<Rightarrow> RequestDetail \<Rightarrow> RequestDetail" where
  "enriched_by update detail \<equiv> fst (enrichRequestDetailMetadata detail update)"

section \<open>What is counted\<close>

text \<open>A detail without the fields that no counter depends on.\<close>

definition plain :: "RequestDetail \<Rightarrow> RequestDetail" where
  "plain d = (archived d)\<lparr> rd_Endpoint := [], rd_RequestedModel := [] \<rparr>"

lemma plain_archived [simp]: "plain (archived d) = plain d"
  by (simp add: plain_def)

lemma plain_fields [simp]:
  "rd_Model (plain d) = rd_Model d" "rd_Timestamp (plain d) = rd_Timestamp d"
  "rd_LatencyMs (plain d) = rd_LatencyMs d" "rd_TTFTMs (plain d) = rd_TTFTMs d"
  "rd_APIKey (plain d) = rd_APIKey d" "rd_APIKeyHash (plain d) = rd_APIKeyHash d"
  "rd_Source (plain d) = rd_Source d" "rd_Provider (plain d) = rd_Provider d"
  "rd_AuthIndex (plain d) = rd_AuthIndex d" "rd_Tokens (plain d) = rd_Tokens d"
  "rd_Failed (plain d) = rd_Failed d" "rd_ExecutorType (plain d) = rd_ExecutorType d"
  by (simp_all add: plain_def)

lemma totals_plain [simp]: "detailTotalsFromRequest (plain d) = detailTotalsFromRequest d"
  by (simp add: detailTotalsFromRequest_def detailTotalTokensForRequest_def Let_def)

lemma keys_plain [simp]:
  "summarySourceKey (plain d) = summarySourceKey d" "summaryCredentialKey (plain d) = summaryCredentialKey d"
  "clientAPIGroupKey (plain d) = clientAPIGroupKey d" "detailModel m (plain d) = detailModel m d"
  by (simp_all add: summarySourceKey_def summaryCredentialKey_def clientAPIGroupKey_def detailModel_def Let_def)

lemma weights_plain [simp]:
  "weight c (plain d) = weight c d" "small_weight sc (plain d) = small_weight sc d"
  "health_weight hc (plain d) = health_weight hc d" "ts_weight tc (plain d) = ts_weight tc d"
proof -
  show "weight c (plain d) = weight c d" by (cases c) simp_all
  show "small_weight sc (plain d) = small_weight sc d" by (cases sc) simp_all
  show "health_weight hc (plain d) = health_weight hc d" by (cases hc) simp_all
  show "ts_weight tc (plain d) = ts_weight tc d" by (cases tc) simp_all
qed

lemma wide_weight_plain [simp]: "wide_weight c (plain d) = wide_weight c d"
  by (cases c) simp_all

section \<open>The stores do not see the other fields\<close>

context counter_store begin

text \<open>A map of the details that keeps their key and their weights keeps the counts.\<close>

lemma counts_image:
  assumes "\<And>d. key (h d) = key d" "\<And>c d. wt c (h d) = wt c d"
  shows "counts m (image_mset h D) = counts m D"
proof -
  have "filter_mset (\<lambda>d. key d = Some k) (image_mset h D) = image_mset h (filter_mset (\<lambda>d. key d = Some k) D)" for k
    by (simp add: filter_mset_image_mset assms(1))
  then have "share (image_mset h D) c k = share D c k" for c k
    by (simp add: share_def multiset.map_comp comp_def assms(2))
  then show ?thesis by (simp add: counts_def)
qed

end

context keyed_store begin

lemma keyed_image:
  assumes "\<And>d. key (h d) = key d" "\<And>m D. inv m (image_mset h D) = inv m D" "\<And>D. blank (image_mset h D) = blank D"
  shows "keyed M (image_mset h D) = keyed M D"
proof -
  have "filter_mset (\<lambda>d. key d = k) (image_mset h D) = image_mset h (filter_mset (\<lambda>d. key d = k) D)" for k
    by (simp add: filter_mset_image_mset assms(1))
  then show ?thesis by (simp add: keyed_def assms(2,3) cong: option.case_cong)
qed

end

abbreviation plains :: "(string \<times> RequestDetail) multiset \<Rightarrow> (string \<times> RequestDetail) multiset" where
  "plains E \<equiv> image_mset (map_prod id plain) E"

lemma details_of_plains [simp]: "details_of (plains E) = image_mset plain (details_of E)"
  by (simp add: multiset.map_comp comp_def)

lemma wsum_plain [simp]: "wsum c (image_mset plain D) = wsum c D"
  by (simp add: wsum_def multiset.map_comp comp_def)

lemma wide_ok_plain [simp]: "wide_ok t lat lc (image_mset plain D) = wide_ok t lat lc D"
  by (simp add: wide_ok_def)

lemma tally_ok_plain [simp]: "tally_ok t (image_mset plain D) = tally_ok t D"
  by (simp add: tally_ok_def)

lemma stores_plain [simp]:
  "series_requests.counts day_of m (image_mset plain D) = series_requests.counts day_of m D"
  "series_requests.counts hour_of m' (image_mset plain D) = series_requests.counts hour_of m' D"
  "series_tokens.counts day_of m (image_mset plain D) = series_tokens.counts day_of m D"
  "series_tokens.counts hour_of m' (image_mset plain D) = series_tokens.counts hour_of m' D"
  "health_counts.counts hb (image_mset plain D) = health_counts.counts hb D"
  "source_counts.counts ss (image_mset plain D) = source_counts.counts ss D"
  "credential_counts.counts cr (image_mset plain D) = credential_counts.counts cr D"
  "provider_counts.counts ps (image_mset plain D) = provider_counts.counts ps D"
  by (rule series_requests.counts_image series_tokens.counts_image health_counts.counts_image
      source_counts.counts_image credential_counts.counts_image provider_counts.counts_image; simp)+

lemma ts_counts_plain [simp]: "ts_counts.counts m (plains E) = ts_counts.counts m E"
  by (rule ts_counts.counts_image) (simp_all add: ts_key_def)

lemma keyed_plain [simp]:
  "ts_keyed.keyed (\<lambda>e. day_of (snd e)) M (plains E) = ts_keyed.keyed (\<lambda>e. day_of (snd e)) M E"
  "ts_keyed.keyed (\<lambda>e. hour_of (snd e)) M' (plains E) = ts_keyed.keyed (\<lambda>e. hour_of (snd e)) M' E"
  "model_summary.keyed ms (plains E) = model_summary.keyed ms E"
  "client_models.keyed cms (plains E) = client_models.keyed cms E"
  by (rule ts_keyed.keyed_image model_summary.keyed_image client_models.keyed_image;
      simp add: model_stat_ok_def client_model_ok_def)+

lemma clients_plain [simp]: "clients.keyed cs (plains E) = clients.keyed cs E"
  by (rule clients.keyed_image) (simp_all add: client_ok_def)

lemma agg_ok_plain: "agg_ok g (plains E) = agg_ok g E"
  by (simp add: agg_ok_def)

lemma agg_ok_alike: "plains E = plains E' \<Longrightarrow> agg_ok g E = agg_ok g E'"
  by (metis agg_ok_plain)

lemma api_ok_alike: "image_mset plain D = image_mset plain D' \<Longrightarrow> api_ok a D = api_ok a D'"
  unfolding api_ok_def by (metis wide_ok_plain stores_plain(6))

lemma model_ok_alike: "image_mset plain D = image_mset plain D' \<Longrightarrow> model_ok m D = model_ok m D'"
  unfolding model_ok_def by (metis wide_ok_plain stores_plain(8))

section \<open>Enrichment keeps what is counted\<close>

text \<open>The function in one step: each field on its own.\<close>

definition with_metadata :: "string \<Rightarrow> string \<Rightarrow> UsageThinking \<Rightarrow> string \<Rightarrow> bool \<Rightarrow> RequestDetail \<Rightarrow> RequestDetail" where
  "with_metadata endpoint requested thinking tier stream d =
     d\<lparr> rd_Endpoint := endpoint, rd_RequestedModel := requested, rd_Thinking := thinking, rd_ServiceTier := tier,
        rd_Stream := stream \<rparr>"

lemma with_own_metadata:
  "d = with_metadata (rd_Endpoint d) (rd_RequestedModel d) (rd_Thinking d) (rd_ServiceTier d) (rd_Stream d) d"
  by (simp add: with_metadata_def)

definition gap_text :: "string \<Rightarrow> string \<Rightarrow> string \<Rightarrow> string" where
  "gap_text shown old new = (if shown = [] \<and> go_TrimSpace new \<noteq> [] then go_TrimSpace new else old)"

lemma fill_in_fields:
  "fill_in (\<lambda>d. rd_Endpoint d = []) (go_TrimSpace v \<noteq> []) (\<lambda>d. d\<lparr> rd_Endpoint := go_TrimSpace v \<rparr>)
     (with_metadata e r t s st d, c) = (with_metadata (gap_text e e v) r t s st d, e = [] \<and> go_TrimSpace v \<noteq> [] \<or> c)"
  "fill_in (\<lambda>d. go_TrimSpace (rd_RequestedModel d) = []) (go_TrimSpace v \<noteq> []) (\<lambda>d. d\<lparr> rd_RequestedModel := go_TrimSpace v \<rparr>)
     (with_metadata e r t s st d, c) =
     (with_metadata e (gap_text (go_TrimSpace r) r v) t s st d, go_TrimSpace r = [] \<and> go_TrimSpace v \<noteq> [] \<or> c)"
  "fill_in (\<lambda>d. rd_Thinking d = zeroThinking) (w \<noteq> zeroThinking) (\<lambda>d. d\<lparr> rd_Thinking := w \<rparr>)
     (with_metadata e r t s st d, c) =
     (with_metadata e r (if t = zeroThinking then w else t) s st d, t = zeroThinking \<and> w \<noteq> zeroThinking \<or> c)"
  "fill_in (\<lambda>d. rd_ServiceTier d = []) (go_TrimSpace v \<noteq> []) (\<lambda>d. d\<lparr> rd_ServiceTier := go_TrimSpace v \<rparr>)
     (with_metadata e r t s st d, c) = (with_metadata e r t (gap_text s s v) st d, s = [] \<and> go_TrimSpace v \<noteq> [] \<or> c)"
  "fill_in (\<lambda>d. \<not> rd_Stream d) b (\<lambda>d. d\<lparr> rd_Stream := True \<rparr>)
     (with_metadata e r t s st d, c) = (with_metadata e r t s (st \<or> b) d, \<not> st \<and> b \<or> c)"
  by (cases d; auto simp: fill_in_def with_metadata_def gap_text_def)+

lemma enrich_fields:
  "enrichRequestDetailMetadata d u =
     (with_metadata (gap_text (rd_Endpoint d) (rd_Endpoint d) (rd_Endpoint u))
        (gap_text (go_TrimSpace (rd_RequestedModel d)) (rd_RequestedModel d) (rd_RequestedModel u))
        (if rd_Thinking d = zeroThinking then rd_Thinking u else rd_Thinking d)
        (gap_text (rd_ServiceTier d) (rd_ServiceTier d) (rd_ServiceTier u)) (rd_Stream d \<or> rd_Stream u) d,
      \<not> rd_Stream d \<and> rd_Stream u \<or> rd_ServiceTier d = [] \<and> go_TrimSpace (rd_ServiceTier u) \<noteq> [] \<or>
      rd_Thinking d = zeroThinking \<and> rd_Thinking u \<noteq> zeroThinking \<or>
      go_TrimSpace (rd_RequestedModel d) = [] \<and> go_TrimSpace (rd_RequestedModel u) \<noteq> [] \<or>
      rd_Endpoint d = [] \<and> go_TrimSpace (rd_Endpoint u) \<noteq> [])"
proof -
  have "(d, False) = (with_metadata (rd_Endpoint d) (rd_RequestedModel d) (rd_Thinking d) (rd_ServiceTier d) (rd_Stream d) d, False)"
    using with_own_metadata by simp
  then show ?thesis
    unfolding enrichRequestDetailMetadata_def Let_def by (simp only: fill_in_fields simp_thms)
qed

lemma with_metadata_fields [simp]:
  "rd_Endpoint (with_metadata e r t s st d) = e" "rd_RequestedModel (with_metadata e r t s st d) = r"
  "rd_Thinking (with_metadata e r t s st d) = t" "rd_ServiceTier (with_metadata e r t s st d) = s"
  "rd_Stream (with_metadata e r t s st d) = st" "dedupKey a m (with_metadata e r t s st d) = dedupKey a m d"
  "plain (with_metadata e r t s st d) = plain d"
  "with_metadata e' r' t' s' st' (with_metadata e r t s st d) = with_metadata e' r' t' s' st' d"
  by (simp_all add: with_metadata_def dedupKey_def Let_def plain_def archived_def detail_of_def accountingRecord_of_def
      identity_of_detail_def)

lemma with_metadata_same:
  "with_metadata e r t s st d = d \<longleftrightarrow>
     e = rd_Endpoint d \<and> r = rd_RequestedModel d \<and> t = rd_Thinking d \<and> s = rd_ServiceTier d \<and> st = rd_Stream d"
proof
  assume "with_metadata e r t s st d = d"
  from arg_cong [OF this, of rd_Endpoint] arg_cong [OF this, of rd_RequestedModel] arg_cong [OF this, of rd_Thinking]
    arg_cong [OF this, of rd_ServiceTier] arg_cong [OF this, of rd_Stream]
  show "e = rd_Endpoint d \<and> r = rd_RequestedModel d \<and> t = rd_Thinking d \<and> s = rd_ServiceTier d \<and> st = rd_Stream d"
    by simp
qed (simp flip: with_own_metadata)

lemma plain_enriched [simp]: "plain (enriched_by update d) = plain d"
  by (simp add: enrich_fields)

lemma gap_text_simps [simp]:
  "shown \<noteq> [] \<Longrightarrow> gap_text shown old new = old"
  "gap_text (gap_text old old new) (gap_text old old new) new = gap_text old old new"
  "gap_text (go_TrimSpace (gap_text (go_TrimSpace old) old new)) (gap_text (go_TrimSpace old) old new) new =
     gap_text (go_TrimSpace old) old new"
  by (simp_all add: gap_text_def)

lemma gap_text_or: "gap_text old old new = (if old = [] then go_TrimSpace new else old)"
  by (simp add: gap_text_def)

lemma cost_with_metadata: "detailCostLocked tables m (with_metadata e r t s st d) = detailCostLocked tables m d"
  by (simp add: fun_eq_iff with_metadata_def detailCostLocked_def basePriceForDetailLocked_def detailModel_def
      detailTimeSeriesTokenStat_def effectiveDetailPrice_def split: option.split)

lemma gap_text_changed:
  "gap_text old old new = old \<longleftrightarrow> \<not> (old = [] \<and> go_TrimSpace new \<noteq> [])"
  "gap_text (go_TrimSpace old) old new = old \<longleftrightarrow> \<not> (go_TrimSpace old = [] \<and> go_TrimSpace new \<noteq> [])"
  by (auto simp: gap_text_def)

lemma gap_text_done:
  "gap_text old old new = [] \<Longrightarrow> go_TrimSpace new = []"
  "go_TrimSpace (gap_text (go_TrimSpace old) old new) = [] \<Longrightarrow> go_TrimSpace new = []"
  by (auto simp: gap_text_def split: if_splits)

text \<open>
  C14: Enrichment sets exactly five fields, each from the same field of the update and only if it was
  empty: endpoint, requested model, thinking, service tier and stream; every other field is left as it
  is.  A second enrichment from the same update changes nothing, a change is reported exactly when
  there is one, and the dedup identity, the counted totals, the keys of the groups by model, source,
  credential and client, and the cost under every price table are those of the detail before.
\<close>
theorem enrichment_fills_gaps:
  "enriched_by update d = d\<lparr>
     rd_Endpoint := (if rd_Endpoint d = [] then go_TrimSpace (rd_Endpoint update) else rd_Endpoint d),
     rd_RequestedModel := (if go_TrimSpace (rd_RequestedModel d) = [] \<and> go_TrimSpace (rd_RequestedModel update) \<noteq> []
       then go_TrimSpace (rd_RequestedModel update) else rd_RequestedModel d),
     rd_Thinking := (if rd_Thinking d = zeroThinking then rd_Thinking update else rd_Thinking d),
     rd_ServiceTier := (if rd_ServiceTier d = [] then go_TrimSpace (rd_ServiceTier update) else rd_ServiceTier d),
     rd_Stream := (rd_Stream d \<or> rd_Stream update) \<rparr> \<and>
   enrichRequestDetailMetadata (enriched_by update d) update = (enriched_by update d, False) \<and>
   (snd (enrichRequestDetailMetadata d update) \<longleftrightarrow> enriched_by update d \<noteq> d) \<and>
   dedupKey a m (enriched_by update d) = dedupKey a m d \<and>
   detailTotalsFromRequest (enriched_by update d) = detailTotalsFromRequest d \<and>
   detailModel m (enriched_by update d) = detailModel m d \<and>
   summarySourceKey (enriched_by update d) = summarySourceKey d \<and>
   summaryCredentialKey (enriched_by update d) = summaryCredentialKey d \<and>
   clientAPIGroupKey (enriched_by update d) = clientAPIGroupKey d \<and>
   detailCostLocked tables m (enriched_by update d) = detailCostLocked tables m d"
proof (intro conjI)
  show "enrichRequestDetailMetadata (enriched_by update d) update = (enriched_by update d, False)"
    unfolding enrich_fields by (auto dest: gap_text_done)
  show "snd (enrichRequestDetailMetadata d update) \<longleftrightarrow> enriched_by update d \<noteq> d"
    unfolding enrich_fields fst_conv snd_conv with_metadata_same gap_text_changed by auto
  show "dedupKey a m (enriched_by update d) = dedupKey a m d" unfolding enrich_fields fst_conv with_metadata_fields(6) ..
  show "detailTotalsFromRequest (enriched_by update d) = detailTotalsFromRequest d"
    by (metis plain_enriched totals_plain)
  show "detailModel m (enriched_by update d) = detailModel m d" "summarySourceKey (enriched_by update d) = summarySourceKey d"
    "summaryCredentialKey (enriched_by update d) = summaryCredentialKey d"
    "clientAPIGroupKey (enriched_by update d) = clientAPIGroupKey d"
    by (metis plain_enriched keys_plain)+
  show "detailCostLocked tables m (enriched_by update d) = detailCostLocked tables m d"
    unfolding enrich_fields fst_conv by (rule cost_with_metadata)
  show "enriched_by update d = d\<lparr>
     rd_Endpoint := (if rd_Endpoint d = [] then go_TrimSpace (rd_Endpoint update) else rd_Endpoint d),
     rd_RequestedModel := (if go_TrimSpace (rd_RequestedModel d) = [] \<and> go_TrimSpace (rd_RequestedModel update) \<noteq> []
       then go_TrimSpace (rd_RequestedModel update) else rd_RequestedModel d),
     rd_Thinking := (if rd_Thinking d = zeroThinking then rd_Thinking update else rd_Thinking d),
     rd_ServiceTier := (if rd_ServiceTier d = [] then go_TrimSpace (rd_ServiceTier update) else rd_ServiceTier d),
     rd_Stream := (rd_Stream d \<or> rd_Stream update) \<rparr>"
    unfolding enrich_fields fst_conv with_metadata_def gap_text_or by (simp add: gap_text_def)
qed

definition sample_described :: RequestDetail where
  "sample_described = with_metadata ''/v1/messages'' ''m'' \<lparr> th_Intensity = [], th_Mode = ''on'', th_Level = [], th_Budget = 0 \<rparr>
     ''tier'' True sample_detail"

lemma enrichment_fills_gaps_witness:
  "rd_Endpoint (enriched_by sample_detail sample_described) = ''/v1/messages'' \<and>
   rd_RequestedModel (enriched_by sample_detail sample_described) = ''m'' \<and>
   th_Mode (rd_Thinking (enriched_by sample_detail sample_described)) = ''on'' \<and>
   rd_ServiceTier (enriched_by sample_detail sample_described) = ''tier'' \<and>
   rd_Stream (enriched_by sample_detail sample_described)"
proof -
  have "go_TrimSpace ''m'' \<noteq> []" by code_simp
  then show ?thesis
    using enrichment_fills_gaps [of sample_described sample_detail]
    by (simp add: sample_described_def zeroThinking_def)
qed

end
