(* ===== verification/Correlation.thy ===== *)
theory Correlation
  imports DetailKeys "HOL-Library.Product_Lexorder"
begin

text \<open>
  The token evidence of protocol correlation (\<open>go/protocol_fallback.go\<close>).  A response
  interceptor reports a request once more, from the body it sees (a fallback record), with
  the token buckets of the client's protocol; the native record has those of the upstream
  protocol.  A \<open>shape\<close> is one complete reading of a record's buckets: the full input, the full
  output and their total.  Two records are compared by the shapes they have in common.
\<close>

unbundle bit_operations_syntax

section \<open>Constants\<close>

definition protocolFallbackCompletionTolerance :: duration where
  "protocolFallbackCompletionTolerance = time_Second"

definition protocolFallbackCompletionToleranceMax :: duration where
  "protocolFallbackCompletionToleranceMax = 5 * time_Second"

definition protocolFallbackCompletionToleranceRatio :: int where
  "protocolFallbackCompletionToleranceRatio = 200"

definition protocolCorrelationSchemaVersion :: int where
  "protocolCorrelationSchemaVersion = 1"

text \<open>The bits start at \<open>1 << 4\<close>: \<open>iota\<close> has counted the four constants before.\<close>

definition protocolCorrelationKnownInput :: "16 word" where "protocolCorrelationKnownInput = 16"
definition protocolCorrelationKnownOutput :: "16 word" where "protocolCorrelationKnownOutput = 32"
definition protocolCorrelationKnownReasoning :: "16 word" where "protocolCorrelationKnownReasoning = 64"
definition protocolCorrelationKnownCacheRead :: "16 word" where "protocolCorrelationKnownCacheRead = 128"
definition protocolCorrelationKnownCacheWrite :: "16 word" where "protocolCorrelationKnownCacheWrite = 256"
definition protocolCorrelationKnownCacheCombined :: "16 word" where "protocolCorrelationKnownCacheCombined = 512"
definition protocolCorrelationKnownTotal :: "16 word" where "protocolCorrelationKnownTotal = 1024"

lemmas known_bits = protocolCorrelationKnownInput_def protocolCorrelationKnownOutput_def
  protocolCorrelationKnownReasoning_def protocolCorrelationKnownCacheRead_def
  protocolCorrelationKnownCacheWrite_def protocolCorrelationKnownCacheCombined_def
  protocolCorrelationKnownTotal_def

definition protocolCorrelationKnownAll :: "16 word" where
  "protocolCorrelationKnownAll = protocolCorrelationKnownInput OR protocolCorrelationKnownOutput OR
     protocolCorrelationKnownReasoning OR protocolCorrelationKnownCacheRead OR
     protocolCorrelationKnownCacheWrite OR protocolCorrelationKnownCacheCombined OR
     protocolCorrelationKnownTotal"

definition protocolInputModeCacheSubset :: string where
  "protocolInputModeCacheSubset = ''cache_subset''"
definition protocolInputModeCacheSubsetNormalized :: string where
  "protocolInputModeCacheSubsetNormalized = ''cache_subset_normalized''"
definition protocolInputModeCacheIndependent :: string where
  "protocolInputModeCacheIndependent = ''cache_independent''"
definition protocolInputModeAmbiguous :: string where
  "protocolInputModeAmbiguous = ''ambiguous''"
definition protocolOutputModeReasoningSubset :: string where
  "protocolOutputModeReasoningSubset = ''reasoning_subset''"
definition protocolOutputModeReasoningIndependent :: string where
  "protocolOutputModeReasoningIndependent = ''reasoning_independent''"
definition protocolOutputModeAmbiguous :: string where
  "protocolOutputModeAmbiguous = ''ambiguous''"
definition protocolCacheModeSplit :: string where
  "protocolCacheModeSplit = ''split''"
definition protocolCacheModeCombined :: string where
  "protocolCacheModeCombined = ''combined''"
definition protocolCacheModeAmbiguous :: string where
  "protocolCacheModeAmbiguous = ''ambiguous''"

lemmas protocol_modes = protocolInputModeCacheSubset_def protocolInputModeCacheSubsetNormalized_def
  protocolInputModeCacheIndependent_def protocolInputModeAmbiguous_def protocolOutputModeReasoningSubset_def
  protocolOutputModeReasoningIndependent_def protocolOutputModeAmbiguous_def protocolCacheModeSplit_def
  protocolCacheModeCombined_def protocolCacheModeAmbiguous_def

section \<open>Data\<close>

datatype protocolCorrelationRole = RoleUnknown | RoleFallback | RoleNative

record protocolTokenShape =
  sh_FullInput :: int
  sh_FullOutput :: int
  sh_Total :: int
  sh_Strength :: int

record protocolTokenEvidence =
  te_Input :: int
  te_Output :: int
  te_Reasoning :: int
  te_CacheRead :: int
  te_CacheWrite :: int
  te_CacheCombined :: int
  te_Total :: int
  te_KnownFields :: "16 word"
  te_InputMode :: string
  te_OutputMode :: string
  te_CacheMode :: string
  te_Shapes :: "protocolTokenShape list"
  te_Invalid :: bool

section \<open>Time\<close>

text \<open>\<open>/\<close> on a positive \<open>Duration\<close> rounds down, as \<open>div\<close>.\<close>

definition protocolFallbackTolerance :: "duration \<Rightarrow> duration" where
  "protocolFallbackTolerance latency =
     (if latency \<le> 0 then protocolFallbackCompletionTolerance
      else let extra = latency div protocolFallbackCompletionToleranceRatio
           in if extra \<ge> protocolFallbackCompletionToleranceMax - protocolFallbackCompletionTolerance
              then protocolFallbackCompletionToleranceMax
              else protocolFallbackCompletionTolerance + extra)"

definition durationFromMilliseconds :: "int \<Rightarrow> duration \<times> bool" where
  "durationFromMilliseconds value =
     (if value < 0 then (0, False)
      else let maxMilliseconds = MaxInt64 div time_Millisecond
           in if value > maxMilliseconds then (0, False) else (value * time_Millisecond, True))"

definition absoluteProtocolDuration :: "duration \<Rightarrow> duration" where
  "absoluteProtocolDuration value =
     (if value \<ge> 0 then value else if value = MinInt64 then MaxInt64 else - value)"

section \<open>The sidecar of a record\<close>

definition validProtocolCorrelationMeta :: "ProtocolCorrelationMeta option \<Rightarrow> bool" where
  "validProtocolCorrelationMeta meta =
     (case meta of None \<Rightarrow> False
      | Some meta \<Rightarrow>
          pc_SchemaVersion meta = protocolCorrelationSchemaVersion \<and>
          pc_KnownFields meta AND NOT protocolCorrelationKnownAll = 0 \<and>
          pc_InputMode meta \<in> {protocolInputModeCacheSubset, protocolInputModeCacheSubsetNormalized,
            protocolInputModeCacheIndependent, protocolInputModeAmbiguous} \<and>
          pc_OutputMode meta \<in> {protocolOutputModeReasoningSubset, protocolOutputModeReasoningIndependent,
            protocolOutputModeAmbiguous} \<and>
          pc_CacheMode meta \<in> {protocolCacheModeSplit, protocolCacheModeCombined, protocolCacheModeAmbiguous})"

definition empty_meta :: ProtocolCorrelationMeta where
  "empty_meta = \<lparr> pc_SchemaVersion = protocolCorrelationSchemaVersion, pc_KnownFields = 0,
     pc_InputMode = [], pc_OutputMode = [], pc_CacheMode = [] \<rparr>"

definition default_modes :: "string \<Rightarrow> string \<Rightarrow> string \<Rightarrow> ProtocolCorrelationMeta \<Rightarrow> ProtocolCorrelationMeta" where
  "default_modes inputMode outputMode cacheMode meta =
     meta\<lparr> pc_InputMode := (if pc_InputMode meta = [] then inputMode else pc_InputMode meta),
           pc_OutputMode := (if pc_OutputMode meta = [] then outputMode else pc_OutputMode meta),
           pc_CacheMode := (if pc_CacheMode meta = [] then cacheMode else pc_CacheMode meta) \<rparr>"

definition correlationMetaForFamily :: "string \<Rightarrow> ProtocolCorrelationMeta option \<Rightarrow> ProtocolCorrelationMeta" where
  "correlationMetaForFamily family meta =
     (let meta = (case meta of None \<Rightarrow> empty_meta | Some m \<Rightarrow> m);
          meta = (if pc_SchemaVersion meta = 0
                  then meta\<lparr> pc_SchemaVersion := protocolCorrelationSchemaVersion \<rparr> else meta);
          f = usageProviderFamily family
      in if f = ''claude''
         then default_modes protocolInputModeCacheIndependent protocolOutputModeReasoningSubset
                protocolCacheModeSplit meta
         else if f \<in> {''gemini'', ''vertex'', ''aistudio''}
         then default_modes protocolInputModeCacheSubset protocolOutputModeReasoningIndependent
                protocolCacheModeCombined meta
         else default_modes protocolInputModeCacheSubset protocolOutputModeReasoningSubset
                protocolCacheModeSplit meta)"

definition isKnownProtocolFamily :: "string \<Rightarrow> bool" where
  "isKnownProtocolFamily family \<longleftrightarrow> usageProviderFamily family \<in>
     {''claude'', ''gemini'', ''vertex'', ''aistudio'', ''codex'', ''openai-compatible'', ''openai''}"

definition legacyProtocolCorrelationMeta ::
  "string \<Rightarrow> int \<Rightarrow> int \<Rightarrow> int \<Rightarrow> int \<Rightarrow> int \<Rightarrow> int \<Rightarrow> int \<Rightarrow> ProtocolCorrelationMeta" where
  "legacyProtocolCorrelationMeta family input output reasoning cacheRead cacheWrite cacheCombined total' =
     (let known = (if input \<noteq> 0 \<or> output \<noteq> 0
                   then protocolCorrelationKnownInput OR protocolCorrelationKnownOutput else 0);
          known = (if reasoning > 0 then known OR protocolCorrelationKnownReasoning else known);
          known = (if cacheRead > 0 then known OR protocolCorrelationKnownCacheRead else known);
          known = (if cacheWrite > 0 then known OR protocolCorrelationKnownCacheWrite else known);
          known = (if cacheCombined > 0 then known OR protocolCorrelationKnownCacheCombined else known);
          known = (if total' > 0 then known OR protocolCorrelationKnownTotal else known);
          meta = correlationMetaForFamily family (Some (empty_meta\<lparr> pc_KnownFields := known \<rparr>));
          meta = (if usageProviderFamily family = ''gemini'' \<and> cacheCombined > 0
                  then meta\<lparr> pc_KnownFields := pc_KnownFields meta AND NOT protocolCorrelationKnownCacheRead
                               OR protocolCorrelationKnownCacheCombined \<rparr>
                  else meta)
      in if \<not> isKnownProtocolFamily family then meta\<lparr> pc_KnownFields := 0 \<rparr> else meta)"

section \<open>Families\<close>

definition openaiFamilies :: "string list" where
  "openaiFamilies = [''codex'', ''openai-compatible'', ''openai'', ''kimi'', ''xai'', ''deepseek'', ''openrouter'',
     ''groq'', ''mistral'', ''cohere'', ''perplexity'', ''cerebras'', ''alibaba'', ''moonshotai'']"

definition correlationFamilyForProvider :: "string \<Rightarrow> string" where
  "correlationFamilyForProvider provider =
     (let f = usageProviderFamily provider
      in if f = ''claude'' then ''claude''
         else if f \<in> {''gemini'', ''vertex'', ''aistudio'', ''antigravity''} then ''gemini''
         else if f \<in> set openaiFamilies then ''openai'' else [])"

text \<open>The common part of the two functions below: the endpoint of a fallback, then provider and executor.\<close>

definition endpointFamily :: "string \<Rightarrow> string" where
  "endpointFamily ep =
     (let endpoint = go_ToLower (go_TrimSpace ep)
      in if go_Contains endpoint ''messages'' then ''claude''
         else if go_Contains endpoint ''generatecontent'' \<or> go_Contains endpoint ''v1beta'' then ''gemini''
         else if isOpenAIProtocolFallbackEndpoint endpoint then ''openai'' else [])"

definition providerOrExecutorFamily :: "string \<Rightarrow> string \<Rightarrow> string" where
  "providerOrExecutorFamily provider executor =
     (let f = usageProviderFamily provider; x = go_ToLower (go_TrimSpace executor)
      in if f = ''claude'' then ''claude''
         else if f \<in> {''gemini'', ''vertex'', ''aistudio'', ''antigravity''} then ''gemini''
         else if f \<in> set openaiFamilies then ''openai''
         else if x \<in> {''openaicompatexecutor'', ''codexexecutor'', ''xaiexecutor''} then ''openai''
         else if x \<in> {''claudeexecutor'', ''anthropicexecutor''} then ''claude''
         else if x \<in> {''geminiexecutor'', ''vertexexecutor'', ''aistudioexecutor''} then ''gemini''
         else f)"

definition correlationFamilyForDetail :: "RequestDetail \<Rightarrow> string" where
  "correlationFamilyForDetail detail =
     (let f = endpointFamily (rd_Endpoint detail)
      in if isAnonymousProtocolFallbackDetail detail \<and> f \<noteq> [] then f
         else providerOrExecutorFamily (rd_Provider detail) (rd_ExecutorType detail))"

definition isAnonymousProtocolFallback :: "UsageRecord \<Rightarrow> bool" where
  "isAnonymousProtocolFallback record' =
     (if go_EqualFold (go_TrimSpace (ur_ExecutorType record')) responseInterceptorFallbackExecutor then True
      else if go_TrimSpace (ur_AuthID record') \<noteq> [] \<or> go_TrimSpace (ur_AuthIndex record') \<noteq> [] \<or>
              ur_Latency record' > 0 \<or> ur_TTFT record' > 0 then False
      else go_EqualFold (go_TrimSpace (ur_Provider record')) ''openai-compatible'' \<and>
           isOpenAIProtocolFallbackEndpoint (ur_Endpoint record'))"

definition isNativeProtocolCorrelationRecord :: "UsageRecord \<Rightarrow> bool" where
  "isNativeProtocolCorrelationRecord record' \<longleftrightarrow>
     \<not> isAnonymousProtocolFallback record' \<and>
     (go_TrimSpace (ur_AuthID record') \<noteq> [] \<or> go_TrimSpace (ur_AuthIndex record') \<noteq> []) \<and>
     ur_Latency record' > 0"

definition correlationFamilyForUsageRecord :: "UsageRecord \<Rightarrow> string" where
  "correlationFamilyForUsageRecord record' =
     (let f = endpointFamily (ur_Endpoint record')
      in if isAnonymousProtocolFallback record' \<and> f \<noteq> [] then f
         else providerOrExecutorFamily (ur_Provider record') (ur_ExecutorType record'))"

section \<open>The sidecar of a stored detail or a usage record\<close>

definition protocolCorrelationMetaForDetail :: "RequestDetail \<Rightarrow> ProtocolCorrelationMeta option" where
  "protocolCorrelationMetaForDetail detail =
     (if rd_Correlation detail \<noteq> None then rd_Correlation detail
      else if \<not> isAnonymousProtocolFallbackDetail detail \<and> \<not> isNativeProtocolCorrelationDetail detail then None
      else let tokens = rd_Tokens detail;
               family = correlationFamilyForDetail detail;
               cacheRead = protocolCorrelationCacheRead family (tk_CacheReadTokens tokens)
                 (tk_CachedTokens tokens) (tk_CacheWriteTokens tokens);
               combined =
                 (if family = ''gemini''
                  then if tk_CacheTokens tokens = 0 \<and> tk_CachedTokens tokens > 0 \<and> tk_CacheWriteTokens tokens > 0
                       then case checkedProtocolAdd (tk_CachedTokens tokens) (tk_CacheWriteTokens tokens) of
                              (value, ok) \<Rightarrow> if ok then value else 0
                       else tk_CacheTokens tokens
                  else 0);
               cacheRead = (if family = ''gemini'' then 0 else cacheRead)
           in Some (legacyProtocolCorrelationMeta family (tk_InputTokens tokens) (tk_OutputTokens tokens)
                (tk_ReasoningTokens tokens) cacheRead (tk_CacheWriteTokens tokens) combined (tk_TotalTokens tokens)))"

definition protocolCorrelationMetaForUsageRecord :: "UsageRecord \<Rightarrow> ProtocolCorrelationMeta option" where
  "protocolCorrelationMetaForUsageRecord record' =
     (if ur_protocolCorrelation record' \<noteq> None then ur_protocolCorrelation record'
      else if \<not> isAnonymousProtocolFallback record' \<and> \<not> isNativeProtocolCorrelationRecord record' then None
      else let detail = ur_Detail record';
               family = correlationFamilyForUsageRecord record';
               cacheRead = protocolCorrelationCacheRead family (ud_CacheReadTokens detail)
                 (ud_CachedTokens detail) (ud_CacheCreationTokens detail);
               combined = (if family = ''gemini'' then ud_CachedTokens detail else 0);
               cacheRead = (if family = ''gemini'' then 0 else cacheRead)
           in Some (legacyProtocolCorrelationMeta family (ud_InputTokens detail) (ud_OutputTokens detail)
                (ud_ReasoningTokens detail) cacheRead (ud_CacheCreationTokens detail) combined (ud_TotalTokens detail)))"

section \<open>Shapes\<close>

definition known :: "16 word \<Rightarrow> protocolTokenEvidence \<Rightarrow> bool" where
  "known field e \<longleftrightarrow> te_KnownFields e AND field \<noteq> 0"

text \<open>
  A variant is a value with its strength.  \<open>addVariant\<close> is the closure \<open>addInputVariant\<close> (and
  \<open>addOutputVariant\<close>, which has the same body).
\<close>

type_synonym protocolTokenVariant = "int \<times> int"

fun raiseVariant :: "int \<Rightarrow> int \<Rightarrow> protocolTokenVariant list \<Rightarrow> protocolTokenVariant list" where
  "raiseVariant value strength [] = [(value, strength)]"
| "raiseVariant value strength ((v, s) # vs) =
     (if v = value then (v, if strength > s then strength else s) # vs
      else (v, s) # raiseVariant value strength vs)"

definition addVariant :: "int \<Rightarrow> int \<Rightarrow> protocolTokenVariant list \<Rightarrow> protocolTokenVariant list" where
  "addVariant value strength vs = (if value < 0 then vs else raiseVariant value strength vs)"

definition addExpandedInput :: "protocolTokenEvidence \<Rightarrow> int \<Rightarrow> int \<Rightarrow> protocolTokenVariant list \<Rightarrow> protocolTokenVariant list" where
  "addExpandedInput e cache strength vs =
     (case checkedProtocolAdd (te_Input e) cache of (value, ok) \<Rightarrow> if ok then addVariant value strength vs else vs)"

definition addSplitCacheInput :: "protocolTokenEvidence \<Rightarrow> int \<Rightarrow> protocolTokenVariant list \<Rightarrow> protocolTokenVariant list" where
  "addSplitCacheInput e strength vs =
     (if \<not> known protocolCorrelationKnownCacheRead e \<or> \<not> known protocolCorrelationKnownCacheWrite e then vs
      else case checkedProtocolAdd (te_CacheRead e) (te_CacheWrite e) of
             (cache, ok) \<Rightarrow> if ok then addExpandedInput e cache strength vs else vs)"

definition addCombinedInput :: "protocolTokenEvidence \<Rightarrow> int \<Rightarrow> protocolTokenVariant list \<Rightarrow> protocolTokenVariant list" where
  "addCombinedInput e strength vs =
     (if known protocolCorrelationKnownCacheCombined e then addExpandedInput e (te_CacheCombined e) strength vs else vs)"

definition baseStrength :: "protocolTokenEvidence \<Rightarrow> int" where
  "baseStrength e = (if known protocolCorrelationKnownTotal e then 95 else 90)"

text \<open>The readings of the input; \<open>None\<close> is the early return without shapes.\<close>

definition inputVariants :: "protocolTokenEvidence \<Rightarrow> protocolCorrelationRole \<Rightarrow> protocolTokenVariant list option" where
  "inputVariants e role =
     (let vs = addVariant (te_Input e) (baseStrength e) [];
          combined = known protocolCorrelationKnownCacheCombined e
      in if te_InputMode e = protocolInputModeCacheIndependent
         then let vs = (if te_CacheMode e = protocolCacheModeCombined \<and> combined
                        then addExpandedInput e (te_CacheCombined e) 105 []
                        else if te_CacheMode e = protocolCacheModeAmbiguous
                        then addCombinedInput e 100 (addSplitCacheInput e 105 [])
                        else let vs = addSplitCacheInput e 115 []
                             in if vs = [] \<and> combined then addExpandedInput e (te_CacheCombined e) 105 vs else vs)
              in if vs = [] \<and> \<not> known protocolCorrelationKnownTotal e
                 then if role = RoleFallback \<and> \<not> known protocolCorrelationKnownCacheRead e \<and>
                         \<not> known protocolCorrelationKnownCacheWrite e \<and> \<not> combined
                      then Some (addVariant (te_Input e) 70 vs)
                      else None
                 else Some vs
         else if te_InputMode e = protocolInputModeAmbiguous
         then Some (if te_CacheMode e = protocolCacheModeCombined \<and> combined
                    then addExpandedInput e (te_CacheCombined e) 100 vs
                    else if te_CacheMode e = protocolCacheModeAmbiguous
                    then addCombinedInput e 100 (addSplitCacheInput e 105 vs)
                    else let vs = addSplitCacheInput e 105 vs
                         in if length vs = 1 \<and> combined then addExpandedInput e (te_CacheCombined e) 100 vs else vs)
         else if te_InputMode e = protocolInputModeCacheSubset
         then Some (if role = RoleFallback \<and> combined then addExpandedInput e (te_CacheCombined e) 95 vs else vs)
         else if te_InputMode e = protocolInputModeCacheSubsetNormalized then Some vs
         else None)"

definition addReasoningOutput :: "protocolTokenEvidence \<Rightarrow> int \<Rightarrow> protocolTokenVariant list \<Rightarrow> protocolTokenVariant list" where
  "addReasoningOutput e strength vs =
     (if \<not> known protocolCorrelationKnownReasoning e then vs
      else case checkedProtocolAdd (te_Output e) (te_Reasoning e) of
             (value, ok) \<Rightarrow> if ok then addVariant value strength vs else vs)"

definition outputVariants :: "protocolTokenEvidence \<Rightarrow> protocolTokenVariant list option" where
  "outputVariants e =
     (let vs = addVariant (te_Output e) (baseStrength e) []
      in if te_OutputMode e = protocolOutputModeReasoningIndependent
         then let vs = addReasoningOutput e 115 []
              in if vs = [] \<and> \<not> known protocolCorrelationKnownTotal e then None else Some vs
         else if te_OutputMode e = protocolOutputModeAmbiguous then Some (addReasoningOutput e 105 vs)
         else if te_OutputMode e = protocolOutputModeReasoningSubset then Some vs
         else None)"

fun raiseShape :: "protocolTokenShape \<Rightarrow> protocolTokenShape list \<Rightarrow> protocolTokenShape list" where
  "raiseShape s [] = [s]"
| "raiseShape s (t # ts) =
     (if sh_FullInput t = sh_FullInput s \<and> sh_FullOutput t = sh_FullOutput s
      then (if sh_Strength s > sh_Strength t then t\<lparr> sh_Strength := sh_Strength s \<rparr> else t) # ts
      else t # raiseShape s ts)"

definition addShape :: "int \<Rightarrow> int \<Rightarrow> int \<Rightarrow> protocolTokenShape list \<Rightarrow> protocolTokenShape list" where
  "addShape input output strength shapes =
     (if input < 0 \<or> output < 0 then shapes
      else case checkedProtocolAdd input output of
             (total', ok) \<Rightarrow>
               if ok then raiseShape \<lparr> sh_FullInput = input, sh_FullOutput = output, sh_Total = total',
                                      sh_Strength = strength \<rparr> shapes
               else shapes)"

text \<open>The pairs, with what a reported total adds for a bucket that is missing.\<close>

definition shapePairs :: "protocolTokenEvidence \<Rightarrow> protocolTokenVariant list \<Rightarrow> protocolTokenVariant list \<Rightarrow>
    protocolTokenShape list" where
  "shapePairs e ins outs =
     (let total' = known protocolCorrelationKnownTotal e;
          shapes = (if te_InputMode e = protocolInputModeCacheIndependent \<and> ins = [] \<and> total'
                    then fold (\<lambda>(v, _) shapes. if te_Total e < v then shapes
                                 else addShape (te_Total e - v) v 70 shapes) outs [] else []);
          shapes = (if te_OutputMode e = protocolOutputModeReasoningIndependent \<and> outs = [] \<and> total'
                    then fold (\<lambda>(v, _) shapes. if te_Total e < v then shapes
                                 else addShape v (te_Total e - v) 70 shapes) ins shapes else shapes)
      in fold (\<lambda>(i, s). fold (\<lambda>(o', s'). addShape i o' (if s' < s then s' else s)) outs) ins shapes)"

text \<open>The stable sort by falling strength, then input, then output.\<close>

definition sortShapes :: "protocolTokenShape list \<Rightarrow> protocolTokenShape list" where
  "sortShapes = sort_key (\<lambda>s. (- sh_Strength s, sh_FullInput s, sh_FullOutput s))"

definition buildProtocolTokenShapes :: "protocolTokenEvidence \<Rightarrow> protocolCorrelationRole \<Rightarrow> protocolTokenShape list" where
  "buildProtocolTokenShapes e role =
     (if te_Invalid e \<or> \<not> known protocolCorrelationKnownInput e \<or> \<not> known protocolCorrelationKnownOutput e then []
      else case inputVariants e role of
        None \<Rightarrow> []
      | Some ins \<Rightarrow> (case outputVariants e of
          None \<Rightarrow> []
        | Some outs \<Rightarrow>
            if known protocolCorrelationKnownTotal e \<and>
               (case checkedProtocolAdd (te_Input e) (te_Output e) of (base, ok) \<Rightarrow> \<not> ok \<or> te_Total e < base)
            then []
            else let shapes = shapePairs e ins outs;
                     shapes = (if role = RoleNative \<and> known protocolCorrelationKnownTotal e
                               then filter (\<lambda>s. sh_Total s = te_Total e) shapes else shapes)
                 in sortShapes shapes))"

definition token_evidence :: "int \<Rightarrow> int \<Rightarrow> int \<Rightarrow> int \<Rightarrow> int \<Rightarrow> int \<Rightarrow> int \<Rightarrow> protocolTokenEvidence" where
  "token_evidence input output reasoning cacheRead cacheWrite cacheCombined total' =
     \<lparr> te_Input = input, te_Output = output, te_Reasoning = reasoning, te_CacheRead = cacheRead,
       te_CacheWrite = cacheWrite, te_CacheCombined = cacheCombined, te_Total = total', te_KnownFields = 0,
       te_InputMode = [], te_OutputMode = [], te_CacheMode = [], te_Shapes = [], te_Invalid = False \<rparr>"

text \<open>
  The recursive call for a sidecar without a version has a sidecar of version 1, so it does not
  recurse again: \<open>evidence_of_meta\<close> is the rest of the function.
\<close>

definition evidence_of_meta :: "ProtocolCorrelationMeta \<Rightarrow> protocolCorrelationRole \<Rightarrow> protocolTokenEvidence \<Rightarrow>
    protocolTokenEvidence" where
  "evidence_of_meta meta role e =
     (if pc_SchemaVersion meta \<noteq> protocolCorrelationSchemaVersion then e\<lparr> te_Invalid := True \<rparr>
      else if \<not> validProtocolCorrelationMeta (Some meta) then e\<lparr> te_Invalid := True \<rparr>
      else let e = e\<lparr> te_KnownFields := pc_KnownFields meta, te_InputMode := pc_InputMode meta,
                      te_OutputMode := pc_OutputMode meta, te_CacheMode := pc_CacheMode meta \<rparr>
           in if \<not> known protocolCorrelationKnownInput e \<or> \<not> known protocolCorrelationKnownOutput e then e
              else e\<lparr> te_Shapes := buildProtocolTokenShapes e role \<rparr>)"

definition buildProtocolTokenEvidence ::
  "int \<Rightarrow> int \<Rightarrow> int \<Rightarrow> int \<Rightarrow> int \<Rightarrow> int \<Rightarrow> int \<Rightarrow> ProtocolCorrelationMeta option \<Rightarrow> string \<Rightarrow> protocolCorrelationRole \<Rightarrow>
   protocolTokenEvidence" where
  "buildProtocolTokenEvidence input output reasoning cacheRead cacheWrite cacheCombined total' meta family role =
     (let e = token_evidence input output reasoning cacheRead cacheWrite cacheCombined total'
      in if input < 0 \<or> output < 0 \<or> reasoning < 0 \<or> cacheRead < 0 \<or> cacheWrite < 0 \<or> cacheCombined < 0 \<or> total' < 0
         then e\<lparr> te_Invalid := True \<rparr>
         else case meta of
           None \<Rightarrow> e
         | Some meta \<Rightarrow>
             evidence_of_meta
               (if pc_SchemaVersion meta = 0
                then legacyProtocolCorrelationMeta family input output reasoning cacheRead cacheWrite cacheCombined total'
                else meta) role e)"

definition protocolTokenEvidenceFromTokenStats ::
  "TokenStats \<Rightarrow> ProtocolCorrelationMeta option \<Rightarrow> string \<Rightarrow> protocolCorrelationRole \<Rightarrow> protocolTokenEvidence" where
  "protocolTokenEvidenceFromTokenStats tokens meta family role =
     (let cacheRead = tk_CacheReadTokens tokens;
          cacheRead = (case meta of
              None \<Rightarrow> cacheRead
            | Some m \<Rightarrow> if pc_KnownFields m AND protocolCorrelationKnownCacheRead \<noteq> 0 \<and> cacheRead = 0
                        then protocolCorrelationCacheRead family cacheRead (tk_CachedTokens tokens)
                               (tk_CacheWriteTokens tokens)
                        else cacheRead);
          combined = tk_CacheTokens tokens;
          meta = (case meta of
              None \<Rightarrow> legacyProtocolCorrelationMeta family (tk_InputTokens tokens) (tk_OutputTokens tokens)
                (tk_ReasoningTokens tokens) cacheRead (tk_CacheWriteTokens tokens) combined (tk_TotalTokens tokens)
            | Some m \<Rightarrow> m)
      in buildProtocolTokenEvidence (tk_InputTokens tokens) (tk_OutputTokens tokens) (tk_ReasoningTokens tokens)
           cacheRead (tk_CacheWriteTokens tokens) combined (tk_TotalTokens tokens) (Some meta) family role)"

definition protocolTokenEvidenceFromUsageDetail ::
  "UsageDetail \<Rightarrow> ProtocolCorrelationMeta option \<Rightarrow> string \<Rightarrow> protocolCorrelationRole \<Rightarrow> protocolTokenEvidence" where
  "protocolTokenEvidenceFromUsageDetail detail meta family role =
     (let has = (\<lambda>field. case meta of None \<Rightarrow> False | Some m \<Rightarrow> pc_KnownFields m AND field \<noteq> 0);
          cacheRead = ud_CacheReadTokens detail;
          cacheRead = (if has protocolCorrelationKnownCacheRead \<and> cacheRead = 0
                       then protocolCorrelationCacheRead family cacheRead (ud_CachedTokens detail)
                              (ud_CacheCreationTokens detail)
                       else cacheRead);
          combined = (if has protocolCorrelationKnownCacheCombined then ud_CachedTokens detail else 0);
          meta = (case meta of
              None \<Rightarrow> legacyProtocolCorrelationMeta family (ud_InputTokens detail) (ud_OutputTokens detail)
                (ud_ReasoningTokens detail) cacheRead (ud_CacheCreationTokens detail) combined (ud_TotalTokens detail)
            | Some m \<Rightarrow> m)
      in buildProtocolTokenEvidence (ud_InputTokens detail) (ud_OutputTokens detail) (ud_ReasoningTokens detail)
           cacheRead (ud_CacheCreationTokens detail) combined (ud_TotalTokens detail) (Some meta) family role)"

section \<open>Every shape is a complete reading\<close>

definition shape_key :: "protocolTokenShape \<Rightarrow> int \<times> int" where
  "shape_key s = (sh_FullInput s, sh_FullOutput s)"

definition shape_ok :: "protocolTokenShape \<Rightarrow> bool" where
  "shape_ok s \<longleftrightarrow> 0 \<le> sh_FullInput s \<and> 0 \<le> sh_FullOutput s \<and>
     sh_Total s = sh_FullInput s + sh_FullOutput s \<and> sh_Total s \<le> MaxInt64"

definition shapes_ok :: "protocolTokenShape list \<Rightarrow> bool" where
  "shapes_ok ss \<longleftrightarrow> list_all shape_ok ss \<and> distinct (map shape_key ss)"

lemma checked_some:
  "checkedProtocolAdd a b = (v, ok) \<Longrightarrow> ok = (0 \<le> a \<and> 0 \<le> b \<and> a + b \<le> MaxInt64) \<and> (ok \<longrightarrow> v = a + b)"
  by (auto simp: checkedProtocolAdd_def split: if_splits)

lemma checked_ok: "0 \<le> a \<Longrightarrow> 0 \<le> b \<Longrightarrow> a + b \<le> MaxInt64 \<Longrightarrow> checkedProtocolAdd a b = (a + b, True)"
  by (auto simp: checkedProtocolAdd_def)

lemma raiseShape_keys: "set (map shape_key (raiseShape s ts)) = insert (shape_key s) (set (map shape_key ts))"
  by (induction ts) (auto simp: shape_key_def)

lemma raiseShape_ok: "shape_ok s \<Longrightarrow> list_all shape_ok ts \<Longrightarrow> list_all shape_ok (raiseShape s ts)"
  by (induction ts) (auto simp: shape_ok_def)

lemma raiseShape_distinct: "distinct (map shape_key ts) \<Longrightarrow> distinct (map shape_key (raiseShape s ts))"
proof (induction ts)
  case (Cons t ts)
  then show ?case using raiseShape_keys [of s ts] by (auto simp: shape_key_def)
qed simp

lemma addShape_ok [intro]: "shapes_ok ss \<Longrightarrow> shapes_ok (addShape i o' s ss)"
  unfolding addShape_def shapes_ok_def
  by (auto split: prod.splits dest!: checked_some intro!: raiseShape_ok raiseShape_distinct simp: shape_ok_def)

lemma addShape_keys:
  "0 \<le> i \<Longrightarrow> 0 \<le> o' \<Longrightarrow> i + o' \<le> MaxInt64 \<Longrightarrow>
   shape_key ` set (addShape i o' s ss) = insert (i, o') (shape_key ` set ss)"
  using raiseShape_keys [of "\<lparr> sh_FullInput = i, sh_FullOutput = o', sh_Total = i + o', sh_Strength = s \<rparr>" ss]
  by (simp add: addShape_def checked_ok shape_key_def)

lemma addShape_mono: "shape_key ` set ss \<subseteq> shape_key ` set (addShape i o' s ss)"
proof -
  have "shape_key ` set ss \<subseteq> shape_key ` set (raiseShape x ss)" for x
    using raiseShape_keys [of x ss] by auto
  then show ?thesis
    by (cases "checkedProtocolAdd i o'"; cases "snd (checkedProtocolAdd i o')") (simp_all add: addShape_def)
qed

text \<open>A loop keeps what every round keeps.\<close>

lemma fold_keeps: "P a \<Longrightarrow> (\<And>x a. x \<in> set xs \<Longrightarrow> P a \<Longrightarrow> P (f x a)) \<Longrightarrow> P (fold f xs a)"
  by (induction xs arbitrary: a) auto

lemma shapePairs_ok: "shapes_ok (shapePairs e ins outs)"
proof -
  have nil: "shapes_ok []" by (simp add: shapes_ok_def)
  show ?thesis
    unfolding shapePairs_def Let_def
    by (intro fold_keeps [where P = shapes_ok])
      (auto intro!: nil fold_keeps [where P = shapes_ok] split: if_splits)
qed

lemma sortShapes_ok: "shapes_ok ss \<Longrightarrow> shapes_ok (sortShapes ss)"
proof -
  assume a: "shapes_ok ss"
  have "mset (sortShapes ss) = mset ss" by (simp add: sortShapes_def)
  then have "mset (map shape_key (sortShapes ss)) = mset (map shape_key ss)" by simp
  then show ?thesis
    using a mset_eq_imp_distinct_iff [of "map shape_key (sortShapes ss)" "map shape_key ss"]
    by (simp add: shapes_ok_def list_all_iff sortShapes_def)
qed

lemma buildShapes_ok: "shapes_ok (buildProtocolTokenShapes e role)"
proof -
  have f: "shapes_ok (filter P ss)" if "shapes_ok ss" for P ss
    using that by (auto simp: shapes_ok_def list_all_iff distinct_map_filter)
  have n: "shapes_ok []" by (simp add: shapes_ok_def)
  show ?thesis
    unfolding buildProtocolTokenShapes_def Let_def
    by (auto split: option.split intro!: n sortShapes_ok f shapePairs_ok)
qed

lemma buildShapes_sorted:
  "sorted (map (\<lambda>s. (- sh_Strength s, sh_FullInput s, sh_FullOutput s)) (buildProtocolTokenShapes e role))"
  unfolding buildProtocolTokenShapes_def Let_def by (auto simp: sortShapes_def split: option.split)

lemma buildShapes_native:
  "known protocolCorrelationKnownTotal e \<Longrightarrow> s \<in> set (buildProtocolTokenShapes e RoleNative) \<Longrightarrow> sh_Total s = te_Total e"
  by (auto simp: buildProtocolTokenShapes_def Let_def sortShapes_def split: option.splits if_splits)

text \<open>What an evidence carries: nothing, or the shapes of its own buckets.\<close>

definition own_shapes :: "protocolCorrelationRole \<Rightarrow> protocolTokenEvidence \<Rightarrow> bool" where
  "own_shapes role ev \<longleftrightarrow> te_Shapes ev = [] \<or>
     (\<exists>e. te_Shapes ev = buildProtocolTokenShapes e role \<and> te_KnownFields e = te_KnownFields ev \<and> te_Total e = te_Total ev)"

lemma own_shapes_meta: "te_Shapes e = [] \<Longrightarrow> own_shapes role (evidence_of_meta m role e)"
  unfolding evidence_of_meta_def Let_def own_shapes_def
  by (auto intro: exI [of _ "e\<lparr> te_KnownFields := pc_KnownFields m, te_InputMode := pc_InputMode m,
    te_OutputMode := pc_OutputMode m, te_CacheMode := pc_CacheMode m \<rparr>"])

lemma own_shapes_nil: "te_Shapes e = [] \<Longrightarrow> own_shapes role e"
  by (simp add: own_shapes_def)

lemma own_shapes_evidence: "own_shapes role (buildProtocolTokenEvidence i o' g r w c t meta family role)"
proof -
  have n: "te_Shapes (token_evidence i o' g r w c t) = []" by (simp add: token_evidence_def)
  then have "te_Shapes ((token_evidence i o' g r w c t)\<lparr> te_Invalid := True \<rparr>) = []" by simp
  note n = own_shapes_nil [OF n] own_shapes_nil [OF this] own_shapes_meta [OF n]
  show ?thesis
    unfolding buildProtocolTokenEvidence_def Let_def by (cases meta) (simp_all only: n if_split option.case simp_thms)
qed

text \<open>
  C18: Every shape of a record is a complete and possible reading: no bucket is negative, the
  total is the sum of input and output without overflow, no two shapes read the same buckets,
  the shapes come in the order of falling strength, and those of a native record with a reported
  total add up to it.
\<close>
theorem shapes_are_complete_readings:
  fixes i o' g r w c t :: int and family :: string and role :: protocolCorrelationRole
    and meta :: "ProtocolCorrelationMeta option"
  defines "e \<equiv> buildProtocolTokenEvidence i o' g r w c t meta family role"
  shows "list_all shape_ok (te_Shapes e) \<and> distinct (map shape_key (te_Shapes e)) \<and>
    sorted (map (\<lambda>s. (- sh_Strength s, sh_FullInput s, sh_FullOutput s)) (te_Shapes e)) \<and>
    (role = RoleNative \<and> known protocolCorrelationKnownTotal e \<longrightarrow> list_all (\<lambda>s. sh_Total s = te_Total e) (te_Shapes e))"
proof (cases "te_Shapes e = []")
  case True
  then show ?thesis by simp
next
  case False
  then obtain e' where e': "te_Shapes e = buildProtocolTokenShapes e' role" "te_KnownFields e' = te_KnownFields e"
    "te_Total e' = te_Total e"
    using own_shapes_evidence unfolding e_def own_shapes_def by blast
  have "list_all (\<lambda>s. sh_Total s = te_Total e) (te_Shapes e)" if "role = RoleNative" "known protocolCorrelationKnownTotal e"
    using buildShapes_native [of e'] that e' by (simp add: known_def list_all_iff)
  moreover have "shapes_ok (te_Shapes e)" unfolding e' by (rule buildShapes_ok)
  moreover have "sorted (map (\<lambda>s. (- sh_Strength s, sh_FullInput s, sh_FullOutput s)) (te_Shapes e))"
    unfolding e' by (rule buildShapes_sorted)
  ultimately show ?thesis unfolding shapes_ok_def by blast
qed

lemma shapes_are_complete_readings_witness:
  "length (te_Shapes (buildProtocolTokenEvidence 10 5 1 2 3 0 20
      (Some (empty_meta\<lparr> pc_KnownFields := 2032, pc_InputMode := ''cache_independent'', pc_OutputMode := ''ambiguous'',
        pc_CacheMode := ''split'' \<rparr>)) ''claude'' RoleNative)) = 1 \<and>
   list_all (\<lambda>s. sh_Total s = 20) (te_Shapes (buildProtocolTokenEvidence 10 5 1 2 3 0 20
      (Some (empty_meta\<lparr> pc_KnownFields := 2032, pc_InputMode := ''cache_independent'', pc_OutputMode := ''ambiguous'',
        pc_CacheMode := ''split'' \<rparr>)) ''claude'' RoleNative))"
proof -
  let ?m = "Some (empty_meta\<lparr> pc_KnownFields := 2032, pc_InputMode := ''cache_independent'', pc_OutputMode := ''ambiguous'',
    pc_CacheMode := ''split'' \<rparr>)"
  let ?e = "buildProtocolTokenEvidence 10 5 1 2 3 0 20 ?m ''claude'' RoleNative"
  have "known protocolCorrelationKnownTotal ?e \<and> te_Total ?e = 20 \<and> length (te_Shapes ?e) = 1" by code_simp
  then show ?thesis
    using shapes_are_complete_readings [where role = RoleNative and i = 10 and o' = 5 and g = 1 and r = 2 and w = 3
        and c = 0 and t = 20 and meta = ?m and family = "''claude''"] by simp
qed

section \<open>The same response under two protocols\<close>

lemma shapePairs_complete:
  assumes "(i, s) \<in> set ins" "(o', s') \<in> set outs" "0 \<le> i" "0 \<le> o'" "i + o' \<le> MaxInt64"
  shows "(i, o') \<in> shape_key ` set (shapePairs e ins outs)"
proof -
  let ?P = "\<lambda>ss. (i, o') \<in> shape_key ` set ss"
  let ?f = "\<lambda>i s (o', s'). addShape i o' (if s' < s then s' else s)"
  let ?F = "\<lambda>(i, s). fold (?f i s) outs"
  have fk: "?P (?f i s p a)" if "?P a" for i s p a
    using addShape_mono [of a] that by (cases p) (simp, blast)
  have Fk: "?P (?F x a)" if "?P a" for x a
  proof -
    obtain j q where x: "x = (j, q)" by (cases x)
    have "?P (fold (?f j q) outs a)" by (rule fold_keeps [where P = ?P]) (rule that, rule fk)
    then show ?thesis by (simp add: x)
  qed
  obtain outs1 outs2 where o: "outs = outs1 @ (o', s') # outs2" using assms(2) by (meson split_list)
  have here: "?P (?F (i, s) a)" for a
  proof -
    have "?P (?f i s (o', s') b)" for b using addShape_keys [OF assms(3-5)] by simp
    then show ?thesis using fold_keeps [where P = ?P and f = "?f i s" and xs = outs2] fk by (simp add: o)
  qed
  obtain ins1 ins2 where i: "ins = ins1 @ (i, s) # ins2" using assms(1) by (meson split_list)
  have "?P (fold ?F ins a)" for a
    using here fold_keeps [where P = ?P and f = ?F and xs = ins2] Fk by (simp add: i)
  then show ?thesis by (simp add: shapePairs_def Let_def case_prod_unfold)
qed

text \<open>The sidecar of a record that was stored without one: which fields count as present.\<close>

lemma three_families: "usageProviderFamily ''openai'' = ''openai''" "usageProviderFamily ''claude'' = ''claude''"
  "usageProviderFamily ''gemini'' = ''gemini''"
  by code_simp+

lemma if_or: "(if b then x OR y else x) = x OR (if b then y else (0 :: 16 word))"
  by simp

lemma legacy_known:
  fixes i o' g r w c t :: int
  assumes "family \<in> {''openai'', ''claude'', ''gemini''}"
  shows "pc_KnownFields (legacyProtocolCorrelationMeta family i o' g r w c t) =
    (if i \<noteq> 0 \<or> o' \<noteq> 0 then 48 else 0) OR (if 0 < g then 64 else 0) OR
    (if 0 < r \<and> \<not> (family = ''gemini'' \<and> 0 < c) then 128 else 0) OR (if 0 < w then 256 else 0) OR
    (if 0 < c then 512 else 0) OR (if 0 < t then 1024 else 0)"
proof -
  define k where "k = ((((((if i \<noteq> 0 \<or> o' \<noteq> 0 then protocolCorrelationKnownInput OR protocolCorrelationKnownOutput else 0) OR
    (if 0 < g then protocolCorrelationKnownReasoning else 0)) OR (if 0 < r then protocolCorrelationKnownCacheRead else 0)) OR
    (if 0 < w then protocolCorrelationKnownCacheWrite else 0)) OR (if 0 < c then protocolCorrelationKnownCacheCombined else 0)) OR
    (if 0 < t then protocolCorrelationKnownTotal else 0))"
  have m: "pc_KnownFields (correlationMetaForFamily f (Some (empty_meta\<lparr> pc_KnownFields := k \<rparr>))) = k" for f
    by (simp add: correlationMetaForFamily_def default_modes_def empty_meta_def Let_def protocolCorrelationSchemaVersion_def)
  have f: "isKnownProtocolFamily family" "usageProviderFamily family = family"
    using assms three_families by (auto simp: isKnownProtocolFamily_def)
  have l: "pc_KnownFields (legacyProtocolCorrelationMeta family i o' g r w c t) =
      (if family = ''gemini'' \<and> 0 < c then k AND NOT protocolCorrelationKnownCacheRead OR protocolCorrelationKnownCacheCombined else k)"
    unfolding legacyProtocolCorrelationMeta_def
    unfolding if_or
    unfolding Let_def
    unfolding k_def [symmetric] f(2)
    using f(1) m by simp
  show ?thesis
  proof (cases "family = ''gemini'' \<and> 0 < c")
    case True
    then show ?thesis
      unfolding l k_def
      by (cases "0 < g"; cases "0 < r"; cases "0 < w"; cases "0 < t"; cases "i \<noteq> 0 \<or> o' \<noteq> 0"; simp add: known_bits)
  next
    case False
    then show ?thesis unfolding l k_def by (auto simp: known_bits or.assoc)
  qed
qed

lemma if_and: "(if b then x else 0) AND m = (if b then x AND m else (0 :: 16 word))"
  by simp

lemma legacy_bits:
  fixes i o' g r w c t :: int
  assumes "family \<in> {''openai'', ''claude'', ''gemini''}"
  defines "k \<equiv> pc_KnownFields (legacyProtocolCorrelationMeta family i o' g r w c t)"
  shows "k AND NOT protocolCorrelationKnownAll = 0"
    "k AND protocolCorrelationKnownInput \<noteq> 0 \<longleftrightarrow> i \<noteq> 0 \<or> o' \<noteq> 0"
    "k AND protocolCorrelationKnownOutput \<noteq> 0 \<longleftrightarrow> i \<noteq> 0 \<or> o' \<noteq> 0"
    "k AND protocolCorrelationKnownReasoning \<noteq> 0 \<longleftrightarrow> 0 < g"
    "k AND protocolCorrelationKnownCacheRead \<noteq> 0 \<longleftrightarrow> 0 < r \<and> \<not> (family = ''gemini'' \<and> 0 < c)"
    "k AND protocolCorrelationKnownCacheWrite \<noteq> 0 \<longleftrightarrow> 0 < w"
    "k AND protocolCorrelationKnownTotal \<noteq> 0 \<longleftrightarrow> 0 < t"
    "k AND protocolCorrelationKnownCacheCombined \<noteq> 0 \<longleftrightarrow> 0 < c"
  unfolding k_def legacy_known [OF assms(1)] bit.conj_disj_distrib2 if_and known_bits protocolCorrelationKnownAll_def
  by simp_all

lemma legacy_modes:
  fixes i o' g r w c t :: int
  assumes "family \<in> {''openai'', ''claude'', ''gemini''}"
  defines "m \<equiv> legacyProtocolCorrelationMeta family i o' g r w c t"
  shows "pc_SchemaVersion m = 1"
    "pc_InputMode m = (if family = ''claude'' then protocolInputModeCacheIndependent else protocolInputModeCacheSubset)"
    "pc_OutputMode m = (if family = ''gemini'' then protocolOutputModeReasoningIndependent else protocolOutputModeReasoningSubset)"
    "pc_CacheMode m = (if family = ''gemini'' then protocolCacheModeCombined else protocolCacheModeSplit)"
  using assms(1) unfolding m_def
  by (auto simp: legacyProtocolCorrelationMeta_def correlationMetaForFamily_def default_modes_def empty_meta_def Let_def
      three_families isKnownProtocolFamily_def protocolCorrelationSchemaVersion_def)

text \<open>The shapes of an evidence with a valid sidecar, by the variants of its buckets.\<close>

lemma build_with_meta:
  fixes m :: ProtocolCorrelationMeta and i o' g r w c t :: int
  assumes "0 \<le> i" "0 \<le> o'" "0 \<le> g" "0 \<le> r" "0 \<le> w" "0 \<le> c" "0 \<le> t"
    and "validProtocolCorrelationMeta (Some m)"
    and "pc_KnownFields m AND protocolCorrelationKnownInput \<noteq> 0" "pc_KnownFields m AND protocolCorrelationKnownOutput \<noteq> 0"
  defines "e \<equiv> (token_evidence i o' g r w c t)\<lparr> te_KnownFields := pc_KnownFields m, te_InputMode := pc_InputMode m,
      te_OutputMode := pc_OutputMode m, te_CacheMode := pc_CacheMode m \<rparr>"
  assumes i: "inputVariants e role = Some ins" and o: "outputVariants e = Some outs"
    and pair: "(x, y) \<in> shape_key ` set (shapePairs e ins outs)"
    and xy: "0 \<le> x" "0 \<le> y" "x + y \<le> MaxInt64"
    and total': "pc_KnownFields m AND protocolCorrelationKnownTotal \<noteq> 0 \<Longrightarrow> t = x + y \<and> i + o' \<le> t"
  shows "(x, y) \<in> shape_key ` set (te_Shapes (buildProtocolTokenEvidence i o' g r w c t (Some m) family role))"
proof -
  have v: "pc_SchemaVersion m = 1"
    using assms(8) by (simp add: validProtocolCorrelationMeta_def protocolCorrelationSchemaVersion_def)
  have "buildProtocolTokenEvidence i o' g r w c t (Some m) family role = e\<lparr> te_Shapes := buildProtocolTokenShapes e role \<rparr>"
    using assms(1-10) v
    by (simp add: buildProtocolTokenEvidence_def evidence_of_meta_def Let_def e_def known_def
        protocolCorrelationSchemaVersion_def)
  moreover have "(x, y) \<in> shape_key ` set (buildProtocolTokenShapes e role)"
  proof -
    let ?ss = "shapePairs e ins outs"
    obtain sh where sh: "sh \<in> set ?ss" "shape_key sh = (x, y)" using pair by auto
    then have tot: "sh_Total sh = x + y"
      using shapePairs_ok [of e ins outs] by (auto simp: shapes_ok_def list_all_iff shape_ok_def shape_key_def)
    have kt: "known protocolCorrelationKnownTotal e = (pc_KnownFields m AND protocolCorrelationKnownTotal \<noteq> 0)"
      "te_Total e = t" "te_Input e = i" "te_Output e = o'" "known protocolCorrelationKnownInput e"
      "known protocolCorrelationKnownOutput e" "\<not> te_Invalid e"
      using assms(9,10) by (simp_all add: e_def known_def token_evidence_def)
    have "sh \<in> set (buildProtocolTokenShapes e role)"
      using sh tot kt total' assms(1,2) i o xy
      by (auto simp: buildProtocolTokenShapes_def Let_def sortShapes_def checked_ok)
    then show ?thesis using sh(2) by force
  qed
  ultimately show ?thesis by simp
qed

text \<open>A bucket that is missing follows from the reported total.\<close>

lemma pairs_input_missing:
  assumes "te_InputMode e = protocolInputModeCacheIndependent" "known protocolCorrelationKnownTotal e"
    and "te_Total e = x + y" "0 \<le> x" "0 \<le> y" "x + y \<le> MaxInt64"
  shows "(x, y) \<in> shape_key ` set (shapePairs e [] [(y, s)])"
  using assms addShape_keys [of x y 70 "[]"] by (simp add: shapePairs_def Let_def)

lemma pairs_output_missing:
  assumes "te_OutputMode e = protocolOutputModeReasoningIndependent" "known protocolCorrelationKnownTotal e"
    and "te_InputMode e \<noteq> protocolInputModeCacheIndependent"
    and "te_Total e = x + y" "0 \<le> x" "0 \<le> y" "x + y \<le> MaxInt64" "(x, s) \<in> set ins"
  shows "(x, y) \<in> shape_key ` set (shapePairs e ins [])"
proof -
  let ?f = "\<lambda>(v :: int, _ :: int) shapes. if te_Total e < v then shapes else addShape v (te_Total e - v) 70 shapes"
  let ?P = "\<lambda>ss. (x, y) \<in> shape_key ` set ss"
  have keep: "?P (?f p a)" if "?P a" for p a
    using that addShape_mono [of a "fst p" "te_Total e - fst p" 70] by (cases p) auto
  have here: "?P (?f (x, s) a)" for a using assms(4-7) addShape_keys [of x y 70 a] by simp
  obtain ins1 ins2 where i: "ins = ins1 @ (x, s) # ins2" using assms(8) by (meson split_list)
  have "?P (fold ?f ins [])"
    unfolding i fold_append fold_simps comp_apply by (rule fold_keeps [where P = ?P]) (rule here, rule keep)
  moreover have "fold (\<lambda>(i, s). fold (\<lambda>(o', s'). addShape i o' (if s' < s then s' else s)) []) ins a = a" for a
    by (induction ins) auto
  ultimately show ?thesis using assms(1-3) by (simp add: shapePairs_def Let_def)
qed

lemma raiseVariant_fst: "fst ` set (raiseVariant v s vs) = insert v (fst ` set vs)"
  by (induction vs) force+

lemma addVariant_fst: "fst ` set (addVariant v s vs) = (if v < 0 then fst ` set vs else insert v (fst ` set vs))"
  by (simp add: addVariant_def raiseVariant_fst)

lemma addExpanded_fst: "fst ` set vs \<subseteq> fst ` set (addExpandedInput e c s vs)"
  "0 \<le> te_Input e \<Longrightarrow> 0 \<le> c \<Longrightarrow> te_Input e + c \<le> MaxInt64 \<Longrightarrow>
   te_Input e + c \<in> fst ` set (addExpandedInput e c s vs)"
  by (cases "checkedProtocolAdd (te_Input e) c") (auto simp: addExpandedInput_def addVariant_fst checked_ok)

lemma input_subset:
  assumes "te_InputMode e = protocolInputModeCacheSubset" "0 \<le> te_Input e" "x = te_Input e"
  shows "\<exists>ins. inputVariants e role = Some ins \<and> x \<in> fst ` set ins"
  using assms addExpanded_fst(1) [of "addVariant (te_Input e) (baseStrength e) []" e "te_CacheCombined e" 95]
  by (auto simp: inputVariants_def protocol_modes Let_def addVariant_fst)

lemma input_independent:
  assumes "te_InputMode e = protocolInputModeCacheIndependent" "te_CacheMode e = protocolCacheModeSplit"
    and "known protocolCorrelationKnownCacheRead e" "known protocolCorrelationKnownCacheWrite e"
    and "0 \<le> te_Input e" "0 \<le> te_CacheRead e" "0 \<le> te_CacheWrite e"
    and "x \<le> MaxInt64" "x = te_Input e + te_CacheRead e + te_CacheWrite e"
  shows "\<exists>ins. inputVariants e role = Some ins \<and> x \<in> fst ` set ins"
proof -
  let ?vs = "addSplitCacheInput e 115 []"
  have "x \<in> fst ` set ?vs"
    using assms addExpanded_fst(2) [of e "te_CacheRead e + te_CacheWrite e" 115 "[]"]
    by (simp add: addSplitCacheInput_def checked_ok add.assoc)
  moreover from this have "?vs \<noteq> []" by auto
  ultimately show ?thesis using assms(1,2) by (simp add: inputVariants_def protocol_modes Let_def)
qed

lemma output_subset:
  assumes "te_OutputMode e = protocolOutputModeReasoningSubset" "0 \<le> te_Output e" "y = te_Output e"
  shows "\<exists>outs. outputVariants e = Some outs \<and> y \<in> fst ` set outs"
  using assms by (simp add: outputVariants_def protocol_modes Let_def addVariant_fst)

lemma output_independent:
  assumes "te_OutputMode e = protocolOutputModeReasoningIndependent" "known protocolCorrelationKnownReasoning e"
    and "0 \<le> te_Output e" "0 \<le> te_Reasoning e" "y \<le> MaxInt64" "y = te_Output e + te_Reasoning e"
  shows "\<exists>outs. outputVariants e = Some outs \<and> y \<in> fst ` set outs"
proof -
  have "y \<in> fst ` set (addReasoningOutput e 115 [])"
    using assms by (simp add: addReasoningOutput_def checked_ok addVariant_fst)
  moreover from this have "addReasoningOutput e 115 [] \<noteq> []" by auto
  ultimately show ?thesis using assms(1) by (simp add: outputVariants_def protocol_modes Let_def)
qed

text \<open>
  The buckets in which the three protocol families store a response with \<open>u\<close> input tokens outside
  the cache, \<open>r\<close> read from and \<open>w\<close> written to it, and \<open>o'\<close> output tokens, \<open>g\<close> of them reasoning.
  OpenAI counts the cached tokens into its input, Claude beside it (its parser may repeat the written
  tokens as cached ones), and Gemini counts reasoning beside its output.
\<close>

definition family_buckets :: "string \<Rightarrow> TokenStats \<Rightarrow> int \<Rightarrow> int \<Rightarrow> int \<Rightarrow> int \<Rightarrow> int \<Rightarrow> bool" where
  "family_buckets family t u r w o' g \<longleftrightarrow>
     family = ''openai'' \<and> tk_InputTokens t = u + r + w \<and> tk_OutputTokens t = o' \<or>
     family = ''claude'' \<and> tk_InputTokens t = u \<and> tk_OutputTokens t = o' \<and> tk_CacheReadTokens t = r \<and>
       tk_CacheWriteTokens t = w \<and> (r = 0 \<longrightarrow> tk_CachedTokens t \<in> {0, w}) \<or>
     family = ''gemini'' \<and> tk_InputTokens t = u + r + w \<and> tk_OutputTokens t = o' - g \<and> tk_ReasoningTokens t = g"

definition buckets_nonneg :: "TokenStats \<Rightarrow> bool" where
  "buckets_nonneg t \<longleftrightarrow> 0 \<le> tk_InputTokens t \<and> 0 \<le> tk_OutputTokens t \<and> 0 \<le> tk_ReasoningTokens t \<and>
     0 \<le> tk_CachedTokens t \<and> 0 \<le> tk_CacheReadTokens t \<and> 0 \<le> tk_CacheTokens t \<and> 0 \<le> tk_CacheWriteTokens t \<and>
     0 \<le> tk_TotalTokens t"

text \<open>Without a reported total, the family must say how many tokens it counts beside the others.\<close>

definition buckets_complete :: "string \<Rightarrow> TokenStats \<Rightarrow> int \<Rightarrow> int \<Rightarrow> int \<Rightarrow> int \<Rightarrow> int \<Rightarrow> bool" where
  "buckets_complete family t u r w o' g \<longleftrightarrow> tk_TotalTokens t = u + r + w + o' \<or>
     tk_TotalTokens t = 0 \<and> (family = ''claude'' \<longrightarrow> 0 < r \<and> 0 < w) \<and> (family = ''gemini'' \<longrightarrow> 0 < g)"

lemma input_missing:
  assumes "te_InputMode e = protocolInputModeCacheIndependent" "te_CacheMode e = protocolCacheModeSplit"
    and "\<not> (known protocolCorrelationKnownCacheRead e \<and> known protocolCorrelationKnownCacheWrite e)"
    and "\<not> known protocolCorrelationKnownCacheCombined e" "known protocolCorrelationKnownTotal e"
  shows "inputVariants e role = Some []"
  using assms by (auto simp: inputVariants_def protocol_modes Let_def addSplitCacheInput_def)

lemma output_only:
  assumes "te_OutputMode e = protocolOutputModeReasoningSubset" "0 \<le> te_Output e"
  shows "outputVariants e = Some [(te_Output e, baseStrength e)]"
  using assms by (simp add: outputVariants_def protocol_modes Let_def addVariant_def)

lemma output_missing:
  assumes "te_OutputMode e = protocolOutputModeReasoningIndependent" "\<not> known protocolCorrelationKnownReasoning e"
    and "known protocolCorrelationKnownTotal e"
  shows "outputVariants e = Some []"
  using assms by (simp add: outputVariants_def protocol_modes Let_def addReasoningOutput_def)

text \<open>A record with the sidecar that is made for it: \<open>rk\<close> and \<open>ck\<close> are the cache counts that decide its bits.\<close>

lemma legacy_reads:
  fixes i o' g r w c t rk ck :: int
  assumes fam: "family \<in> {''openai'', ''claude'', ''gemini''}"
    and nn: "0 \<le> i" "0 \<le> o'" "0 \<le> g" "0 \<le> r" "0 \<le> w" "0 \<le> c" "0 \<le> t" and some: "i \<noteq> 0 \<or> o' \<noteq> 0"
  defines "m \<equiv> legacyProtocolCorrelationMeta family i o' g rk w ck t"
  defines "e \<equiv> (token_evidence i o' g r w c t)\<lparr> te_KnownFields := pc_KnownFields m, te_InputMode := pc_InputMode m,
      te_OutputMode := pc_OutputMode m, te_CacheMode := pc_CacheMode m \<rparr>"
  assumes ins: "inputVariants e role = Some ins" and outs: "outputVariants e = Some outs"
    and pair: "(x, y) \<in> shape_key ` set (shapePairs e ins outs)"
    and xy: "0 \<le> x" "0 \<le> y" "x + y \<le> MaxInt64" and total': "0 < t \<Longrightarrow> t = x + y \<and> i + o' \<le> t"
  shows "(x, y) \<in> shape_key ` set (te_Shapes (buildProtocolTokenEvidence i o' g r w c t (Some m) family role))"
proof -
  note b = legacy_bits [OF fam, of i o' g rk w ck t, folded m_def]
  have v: "validProtocolCorrelationMeta (Some m)"
    using b(1) legacy_modes [OF fam, of i o' g rk w ck t, folded m_def]
    by (simp add: validProtocolCorrelationMeta_def protocolCorrelationSchemaVersion_def)
  show ?thesis
    by (rule build_with_meta [OF nn v _ _ ins [unfolded e_def] outs [unfolded e_def] pair [unfolded e_def] xy])
      (use b(2,3,7) some total' in auto)
qed

lemma pairs_of_members:
  assumes "\<exists>ins. inputVariants e role = Some ins \<and> x \<in> fst ` set ins" "\<exists>outs. outputVariants e = Some outs \<and> y \<in> fst ` set outs"
    and "0 \<le> x" "0 \<le> y" "x + y \<le> MaxInt64"
  obtains ins outs where "inputVariants e role = Some ins" "outputVariants e = Some outs"
    "(x, y) \<in> shape_key ` set (shapePairs e ins outs)"
proof -
  obtain ins s where i: "inputVariants e role = Some ins" "(x, s) \<in> set ins" using assms(1) by force
  obtain outs s' where o: "outputVariants e = Some outs" "(y, s') \<in> set outs" using assms(2) by force
  show thesis using that [OF i(1) o(1)] shapePairs_complete [OF i(2) o(2) assms(3-5)] by blast
qed

lemma openai_reads:
  fixes i o' g r w c t rk ck :: int
  assumes "0 < i" "0 \<le> o'" "0 \<le> g" "0 \<le> r" "0 \<le> w" "0 \<le> c" "i + o' \<le> MaxInt64" "t = i + o' \<or> t = 0"
  shows "(i, o') \<in> shape_key ` set (te_Shapes (buildProtocolTokenEvidence i o' g r w c t
    (Some (legacyProtocolCorrelationMeta ''openai'' i o' g rk w ck t)) ''openai'' role))"
proof -
  let ?m = "legacyProtocolCorrelationMeta ''openai'' i o' g rk w ck t"
  let ?e = "(token_evidence i o' g r w c t)\<lparr> te_KnownFields := pc_KnownFields ?m, te_InputMode := pc_InputMode ?m,
      te_OutputMode := pc_OutputMode ?m, te_CacheMode := pc_CacheMode ?m \<rparr>"
  have f: "te_InputMode ?e = protocolInputModeCacheSubset" "te_OutputMode ?e = protocolOutputModeReasoningSubset"
    "te_Input ?e = i" "te_Output ?e = o'"
    by (simp_all add: legacy_modes token_evidence_def)
  have "\<exists>ins. inputVariants ?e role = Some ins \<and> i \<in> fst ` set ins"
    by (rule input_subset) (use f assms in auto)
  moreover have "\<exists>outs. outputVariants ?e = Some outs \<and> o' \<in> fst ` set outs"
    by (rule output_subset) (use f assms in auto)
  moreover have "0 \<le> i" using assms(1) by simp
  ultimately obtain ins outs where p: "inputVariants ?e role = Some ins" "outputVariants ?e = Some outs"
      "(i, o') \<in> shape_key ` set (shapePairs ?e ins outs)"
    using assms(2,7) by (rule pairs_of_members)
  show ?thesis by (rule legacy_reads [OF _ _ _ _ _ _ _ _ _ p]) (use assms in auto)
qed

lemma claude_reads:
  fixes u o' g r w c t :: int
  assumes "0 < u" "0 \<le> o'" "0 \<le> g" "0 \<le> r" "0 \<le> w" "0 \<le> c" "u + r + w + o' \<le> MaxInt64"
    and total': "t = u + r + w + o' \<or> t = 0 \<and> 0 < r \<and> 0 < w"
  shows "(u + r + w, o') \<in> shape_key ` set (te_Shapes (buildProtocolTokenEvidence u o' g r w c t
    (Some (legacyProtocolCorrelationMeta ''claude'' u o' g r w 0 t)) ''claude'' role))"
proof -
  let ?m = "legacyProtocolCorrelationMeta ''claude'' u o' g r w 0 t"
  let ?e = "(token_evidence u o' g r w c t)\<lparr> te_KnownFields := pc_KnownFields ?m, te_InputMode := pc_InputMode ?m,
      te_OutputMode := pc_OutputMode ?m, te_CacheMode := pc_CacheMode ?m \<rparr>"
  note b = legacy_bits [of "''claude''" u o' g r w 0 t, simplified]
  have f: "te_InputMode ?e = protocolInputModeCacheIndependent" "te_OutputMode ?e = protocolOutputModeReasoningSubset"
    "te_CacheMode ?e = protocolCacheModeSplit" "te_Input ?e = u" "te_Output ?e = o'" "te_CacheRead ?e = r" "te_CacheWrite ?e = w"
    "te_Total ?e = t"
    by (simp_all add: legacy_modes token_evidence_def)
  have k: "known protocolCorrelationKnownCacheRead ?e \<longleftrightarrow> 0 < r" "known protocolCorrelationKnownCacheWrite ?e \<longleftrightarrow> 0 < w"
    "known protocolCorrelationKnownTotal ?e \<longleftrightarrow> 0 < t" "\<not> known protocolCorrelationKnownCacheCombined ?e"
    using b by (simp_all add: known_def)
  obtain ins outs where p: "inputVariants ?e role = Some ins" "outputVariants ?e = Some outs"
      "(u + r + w, o') \<in> shape_key ` set (shapePairs ?e ins outs)"
  proof (cases "0 < r \<and> 0 < w")
    case True
    have "\<exists>ins. inputVariants ?e role = Some ins \<and> u + r + w \<in> fst ` set ins"
      by (rule input_independent) (use f k assms True in auto)
    moreover have "\<exists>outs. outputVariants ?e = Some outs \<and> o' \<in> fst ` set outs"
      by (rule output_subset) (use f assms in auto)
    moreover have "0 \<le> u + r + w" using assms by simp
    ultimately show thesis using assms(2,7) that by (rule pairs_of_members)
  next
    case False
    then have t: "t = u + r + w + o'" using total' by blast
    then have pos: "0 < t" using assms by simp
    have i: "inputVariants ?e role = Some []" by (rule input_missing) (use f k False pos in auto)
    have o: "outputVariants ?e = Some [(o', baseStrength ?e)]" using output_only [of ?e] f assms(2) by simp
    have "(u + r + w, o') \<in> shape_key ` set (shapePairs ?e [] [(o', baseStrength ?e)])"
      by (rule pairs_input_missing) (use f k pos t assms in auto)
    with i o show thesis by (rule that)
  qed
  show ?thesis by (rule legacy_reads [OF _ _ _ _ _ _ _ _ _ p]) (use assms in auto)
qed

lemma gemini_reads:
  fixes i v g r w c t ck :: int
  assumes "0 < i" "0 \<le> v" "0 \<le> g" "0 \<le> r" "0 \<le> w" "0 \<le> c" "i + (v + g) \<le> MaxInt64"
    and total': "t = i + (v + g) \<or> t = 0 \<and> 0 < g"
  shows "(i, v + g) \<in> shape_key ` set (te_Shapes (buildProtocolTokenEvidence i v g r w c t
    (Some (legacyProtocolCorrelationMeta ''gemini'' i v g rk w ck t)) ''gemini'' role))"
proof -
  let ?m = "legacyProtocolCorrelationMeta ''gemini'' i v g rk w ck t"
  let ?e = "(token_evidence i v g r w c t)\<lparr> te_KnownFields := pc_KnownFields ?m, te_InputMode := pc_InputMode ?m,
      te_OutputMode := pc_OutputMode ?m, te_CacheMode := pc_CacheMode ?m \<rparr>"
  note b = legacy_bits [of "''gemini''" i v g rk w ck t, simplified]
  have f: "te_InputMode ?e = protocolInputModeCacheSubset" "te_OutputMode ?e = protocolOutputModeReasoningIndependent"
    "te_Input ?e = i" "te_Output ?e = v" "te_Reasoning ?e = g" "te_Total ?e = t"
    by (simp_all add: legacy_modes token_evidence_def)
  have k: "known protocolCorrelationKnownReasoning ?e \<longleftrightarrow> 0 < g" "known protocolCorrelationKnownTotal ?e \<longleftrightarrow> 0 < t"
    using b by (simp_all add: known_def)
  have "\<exists>ins. inputVariants ?e role = Some ins \<and> i \<in> fst ` set ins"
    by (rule input_subset) (use f assms in auto)
  note ins = this
  have xy: "0 \<le> i" "0 \<le> v + g" using assms by simp_all
  obtain ins outs where p: "inputVariants ?e role = Some ins" "outputVariants ?e = Some outs"
      "(i, v + g) \<in> shape_key ` set (shapePairs ?e ins outs)"
  proof (cases "0 < g")
    case True
    have "\<exists>outs. outputVariants ?e = Some outs \<and> v + g \<in> fst ` set outs"
      by (rule output_independent) (use f k assms True in auto)
    with ins show thesis using xy assms(7) that by (rule pairs_of_members)
  next
    case False
    then have t: "t = i + (v + g)" using total' by blast
    then have pos: "0 < t" using assms by simp
    obtain vs s where i: "inputVariants ?e role = Some vs" "(i, s) \<in> set vs" using ins by force
    have o: "outputVariants ?e = Some []" by (rule output_missing) (use f k False pos in auto)
    have "(i, v + g) \<in> shape_key ` set (shapePairs ?e vs [])"
      by (rule pairs_output_missing [OF _ _ _ _ xy assms(7) i(2)]) (use f k pos t in \<open>auto simp: protocol_modes\<close>)
    with i(1) o show thesis by (rule that)
  qed
  show ?thesis by (rule legacy_reads [OF _ _ _ _ _ _ _ _ _ p]) (use assms in auto)
qed


text \<open>A Claude response that was read through the OpenAI and the Gemini protocol, too; nothing was read from the cache.\<close>

definition response_in :: "string \<Rightarrow> int \<Rightarrow> int \<Rightarrow> int \<Rightarrow> RequestDetail" where
  "response_in family i v g = sample_detail\<lparr> rd_AuthID := ''a'', rd_Provider := family, rd_LatencyMs := 2000,
     rd_Tokens := \<lparr> tk_InputTokens = i, tk_OutputTokens = v, tk_ReasoningTokens = g, tk_CachedTokens = 0,
       tk_CacheReadTokens = 0, tk_CacheTokens = 0, tk_CacheWriteTokens = (if family = ''claude'' then 3 else 0),
       tk_TotalTokens = 18 \<rparr> \<rparr>"

abbreviation response_shapes :: "RequestDetail \<Rightarrow> (int \<times> int) set" where
  "response_shapes d \<equiv> shape_key ` set (te_Shapes (protocolTokenEvidenceFromTokenStats (rd_Tokens d)
     (protocolCorrelationMetaForDetail d) (correlationFamilyForDetail d) RoleNative))"

end
