(* ===== verification/CorrelationEdge.thy ===== *)
theory CorrelationEdge
  imports Correlation Accounting
begin

text \<open>
  Which fallback record may belong to which native record (\<open>go/protocol_fallback.go\<close>): the
  observation of a detail, the edge between two observations, and the search for all edges by
  shape keys and windows of completion times.
\<close>

section \<open>Strings\<close>

text \<open>\<open>strconv.FormatInt\<close> in base 10 and \<open>strconv.FormatBool\<close>.\<close>

fun format_nat :: "nat \<Rightarrow> string" where
  "format_nat n = (if n < 10 then [char_of (48 + n)] else format_nat (n div 10) @ [char_of (48 + n mod 10)])"

declare format_nat.simps [simp del]

definition go_FormatInt :: "int \<Rightarrow> string" where
  "go_FormatInt i = (if i < 0 then CHR ''-'' # format_nat (nat (- i)) else format_nat (nat i))"

definition go_FormatBool :: "bool \<Rightarrow> string" where
  "go_FormatBool b = (if b then ''true'' else ''false'')"

text \<open>\<open>strings.Trim\<close> with the two quote characters, and \<open>strings.Fields\<close>.\<close>

definition trimQuotes :: "string \<Rightarrow> string" where
  "trimQuotes s = (let q = (\<lambda>c. c = CHR 0x22 \<or> c = CHR 0x27) in rev (dropWhile q (rev (dropWhile q s))))"

function fields_from :: "string \<Rightarrow> string \<Rightarrow> string list" where
  "fields_from s cur =
     (let out = (if cur = [] then [] else [rev cur])
      in if s = [] then out
         else if space_len s > 0 then out @ fields_from (drop (space_len s) s) []
         else fields_from (tl s) (hd s # cur))"
  by pat_completeness auto
termination
  by (relation "measure (\<lambda>(s, cur). length s)") auto

declare fields_from.simps [simp del]

definition go_Fields :: "string \<Rightarrow> string list" where
  "go_Fields s = fields_from s []"

definition keySchemes :: "string list" where
  "keySchemes = [''bearer'', ''token'', ''key'', ''apikey'', ''api-key'']"

text \<open>The client key of a header value: without quotes and without an authorization scheme.\<close>

definition canonicalClientAPIKey :: "string \<Rightarrow> string" where
  "canonicalClientAPIKey raw =
     (let s = trimQuotes (go_TrimSpace raw)
      in if s = [] then []
         else let fs = go_Fields s
              in if length fs = 2 \<and> go_ToLower (go_TrimSuffix (fs ! 0) '':'') \<in> set keySchemes
                 then trimQuotes (go_TrimSpace (fs ! 1))
                 else case find (\<lambda>scheme. go_HasPrefix (go_ToLower s) (scheme @ '':'')) keySchemes of
                        None \<Rightarrow> s
                      | Some scheme \<Rightarrow> trimQuotes (go_TrimSpace (drop (length scheme + 1) s)))"

section \<open>Observations\<close>

record protocolStableOrder =
  so_Timestamp :: gotime
  so_Completion :: gotime
  so_API :: string
  so_Model :: string
  so_Provider :: string
  so_Auth :: string
  so_Signature :: string
  so_Index :: int

record protocolCorrelationObservation =
  ob_Role :: protocolCorrelationRole
  ob_RequestedModel :: string
  ob_ClientIdentity :: string
  ob_Failed :: bool
  ob_StatusCode :: int
  ob_Endpoint :: string
  ob_Timestamp :: gotime
  ob_Latency :: duration
  ob_SyntheticTime :: bool
  ob_Invalid :: bool
  ob_Tokens :: protocolTokenEvidence
  ob_StableOrder :: protocolStableOrder

definition detailCorrelationModel :: "string \<Rightarrow> RequestDetail \<Rightarrow> string" where
  "detailCorrelationModel outerModel detail =
     go_TrimSpace (firstNonEmpty [rd_RequestedModel detail, rd_Model detail, outerModel])"

definition nul :: string where
  "nul = [CHR 0x00]"

definition detailCorrelationSignature :: "string \<Rightarrow> RequestDetail \<Rightarrow> string" where
  "detailCorrelationSignature outerModel detail =
     go_Join [detailCorrelationModel outerModel detail, rd_APIKeyHash detail, rd_APIKey detail, rd_Provider detail,
       rd_AuthID detail, rd_AuthIndex detail, rd_Endpoint detail, go_FormatInt (tk_InputTokens (rd_Tokens detail)),
       go_FormatInt (tk_OutputTokens (rd_Tokens detail)), go_FormatInt (tk_TotalTokens (rd_Tokens detail))] nul"

definition protocolObservationFromRequestDetail :: "string \<Rightarrow> RequestDetail \<Rightarrow> protocolCorrelationObservation" where
  "protocolObservationFromRequestDetail outerModel detail =
     (let role = (if isAnonymousProtocolFallbackDetail detail then RoleFallback
                  else if isNativeProtocolCorrelationDetail detail then RoleNative else RoleUnknown);
          clientIdentity = go_TrimSpace (rd_APIKeyHash detail);
          clientIdentity = (if clientIdentity = [] then canonicalClientAPIKey (rd_APIKey detail) else clientIdentity);
          model = detailCorrelationModel outerModel detail
      in case durationFromMilliseconds (rd_LatencyMs detail) of (latency, latencyOK) \<Rightarrow>
        \<lparr> ob_Role = role, ob_RequestedModel = model, ob_ClientIdentity = clientIdentity,
          ob_Failed = rd_Failed detail, ob_StatusCode = rd_StatusCode detail, ob_Endpoint = rd_Endpoint detail,
          ob_Timestamp = rd_Timestamp detail, ob_Latency = latency,
          ob_SyntheticTime = rd_TimestampSynthetic detail, ob_Invalid = (\<not> latencyOK),
          ob_Tokens = protocolTokenEvidenceFromTokenStats (rd_Tokens detail)
            (protocolCorrelationMetaForDetail detail) (correlationFamilyForDetail detail) role,
          ob_StableOrder = \<lparr> so_Timestamp = rd_Timestamp detail, so_Completion = time_Add (rd_Timestamp detail) latency,
            so_API = go_TrimSpace (rd_UpstreamAPI detail), so_Model = model,
            so_Provider = go_TrimSpace (rd_Provider detail),
            so_Auth = go_TrimSpace (firstNonEmpty [rd_AuthID detail, rd_AuthIndex detail]),
            so_Signature = detailCorrelationSignature outerModel detail, so_Index = 0 \<rparr> \<rparr>)"

section \<open>Edges\<close>

definition protocolEndpointsCompatible :: "string \<Rightarrow> string \<Rightarrow> bool" where
  "protocolEndpointsCompatible fallbackEndpoint nativeEndpoint =
     (let f = trimRightSlash (go_ToLower (go_TrimSpace fallbackEndpoint));
          n = trimRightSlash (go_ToLower (go_TrimSpace nativeEndpoint))
      in if n = [] \<or> f = [] \<or> \<not> isOpenAIProtocolFallbackEndpoint n \<or> \<not> isOpenAIProtocolFallbackEndpoint f
         then True else n = f)"

definition protocolReasoningCompatible :: "protocolTokenEvidence \<Rightarrow> protocolTokenEvidence \<Rightarrow> bool" where
  "protocolReasoningCompatible f n =
     (if \<not> known protocolCorrelationKnownReasoning f \<or> \<not> known protocolCorrelationKnownReasoning n then True
      else if te_OutputMode f = protocolOutputModeAmbiguous \<or> te_OutputMode n = protocolOutputModeAmbiguous \<or>
              te_OutputMode f \<noteq> te_OutputMode n then True
      else te_Reasoning f = te_Reasoning n)"

definition split_sum_is :: "protocolTokenEvidence \<Rightarrow> int \<Rightarrow> bool" where
  "split_sum_is e combined =
     (case checkedProtocolAdd (te_CacheRead e) (te_CacheWrite e) of (value, ok) \<Rightarrow> ok \<and> combined = value)"

definition protocolCacheEvidenceCompatible :: "protocolTokenEvidence \<Rightarrow> protocolTokenEvidence \<Rightarrow> bool" where
  "protocolCacheEvidenceCompatible f n =
     (let fr = known protocolCorrelationKnownCacheRead f; nr = known protocolCorrelationKnownCacheRead n;
          fw = known protocolCorrelationKnownCacheWrite f; nw = known protocolCorrelationKnownCacheWrite n;
          fc = known protocolCorrelationKnownCacheCombined f; nc = known protocolCorrelationKnownCacheCombined n;
          combined = protocolCacheModeCombined; splitted = protocolCacheModeSplit
      in if fc \<and> nc \<and> te_CacheMode f = combined \<and> te_CacheMode n = combined
         then te_CacheCombined f = te_CacheCombined n
         else if fc \<and> te_CacheMode f = combined \<and> te_CacheMode n = splitted \<and> nr \<and> nw
         then split_sum_is n (te_CacheCombined f)
         else if nc \<and> te_CacheMode n = combined \<and> te_CacheMode f = splitted \<and> fr \<and> fw
         then split_sum_is f (te_CacheCombined n)
         else if te_CacheMode f = splitted \<and> te_CacheMode n = splitted
         then (fr \<and> nr \<longrightarrow> te_CacheRead f = te_CacheRead n) \<and> (fw \<and> nw \<longrightarrow> te_CacheWrite f = te_CacheWrite n)
         else True)"

definition protocolCacheEvidenceKnownAndComparable :: "protocolTokenEvidence \<Rightarrow> protocolTokenEvidence \<Rightarrow> bool" where
  "protocolCacheEvidenceKnownAndComparable f n =
     (if te_CacheMode f = protocolCacheModeSplit \<and> te_CacheMode n = protocolCacheModeSplit
      then known protocolCorrelationKnownCacheRead f \<and> known protocolCorrelationKnownCacheRead n
      else te_CacheMode f = protocolCacheModeCombined \<and> te_CacheMode n = protocolCacheModeCombined \<and>
           known protocolCorrelationKnownCacheCombined f \<and> known protocolCorrelationKnownCacheCombined n)"

text \<open>
  The double loop over the shapes of both sides: the first pair of the greatest strength.  Both
  \<open>protocolTokenEvidenceCompatible\<close>, which keeps its strength, and \<open>bestProtocolSharedShape\<close>,
  which keeps the left shape, run it.
\<close>

definition bestSharedPair :: "protocolTokenShape list \<Rightarrow> protocolTokenShape list \<Rightarrow> (protocolTokenShape \<times> int) option" where
  "bestSharedPair left right =
     fold (\<lambda>a. fold (\<lambda>b best.
         if sh_FullInput a \<noteq> sh_FullInput b \<or> sh_FullOutput a \<noteq> sh_FullOutput b then best
         else let strength = sh_Strength a + sh_Strength b
              in if strength > (case best of None \<Rightarrow> -1 | Some (_, s) \<Rightarrow> s) then Some (a, strength) else best) right)
       left None"

definition protocolTokenEvidenceCompatible :: "protocolTokenEvidence \<Rightarrow> protocolTokenEvidence \<Rightarrow> int option" where
  "protocolTokenEvidenceCompatible f n =
     (if te_Invalid f \<or> te_Invalid n \<or> te_Shapes f = [] \<or> te_Shapes n = [] then None
      else case bestSharedPair (te_Shapes f) (te_Shapes n) of
        None \<Rightarrow> None
      | Some (_, best) \<Rightarrow>
          if \<not> protocolReasoningCompatible f n \<or> \<not> protocolCacheEvidenceCompatible f n then None
          else let best = (if known protocolCorrelationKnownReasoning f \<and> known protocolCorrelationKnownReasoning n \<and>
                              te_OutputMode f = te_OutputMode n \<and> te_OutputMode f \<noteq> protocolOutputModeAmbiguous
                           then best + 20 else best)
               in Some (if protocolCacheEvidenceKnownAndComparable f n then best + 20 else best))"

definition unknownModel :: string where
  "unknownModel = ''unknown''"

definition protocolCorrelationEvidence ::
  "protocolCorrelationObservation \<Rightarrow> protocolCorrelationObservation \<Rightarrow> int option" where
  "protocolCorrelationEvidence f n =
     (let mf = go_TrimSpace (ob_RequestedModel f); mn = go_TrimSpace (ob_RequestedModel n);
          cf = go_TrimSpace (ob_ClientIdentity f); cn = go_TrimSpace (ob_ClientIdentity n)
      in if ob_Role f \<noteq> RoleFallback \<or> ob_Role n \<noteq> RoleNative then None
         else if ob_Invalid f \<or> ob_Invalid n then None
         else if mf = [] \<or> mn = [] \<or> go_EqualFold mf unknownModel \<or> \<not> go_EqualFold mf mn \<or> cf = [] \<or> cn = [] \<or>
                 \<not> go_EqualFold cf cn then None
         else if ob_Failed f \<noteq> ob_Failed n then None
         else if ob_Failed f \<and> ob_StatusCode f > 0 \<and> ob_StatusCode n > 0 \<and> ob_StatusCode f \<noteq> ob_StatusCode n then None
         else if \<not> protocolEndpointsCompatible (ob_Endpoint f) (ob_Endpoint n) \<or> ob_SyntheticTime f \<or>
                 ob_SyntheticTime n \<or> time_IsZero (ob_Timestamp f) \<or> time_IsZero (ob_Timestamp n) \<or> ob_Latency n \<le> 0
         then None
         else protocolTokenEvidenceCompatible (ob_Tokens f) (ob_Tokens n))"

record protocolCorrelationEdgeResult =
  er_Distance :: duration
  er_Strength :: int
  er_fallbackShape :: "protocolTokenShape option"
  er_nativeShape :: "protocolTokenShape option"

definition bestProtocolSharedShape :: "protocolTokenEvidence \<Rightarrow> protocolTokenEvidence \<Rightarrow> protocolTokenShape option" where
  "bestProtocolSharedShape left right = map_option fst (bestSharedPair (te_Shapes left) (te_Shapes right))"

definition protocolCorrelationEdge ::
  "protocolCorrelationObservation \<Rightarrow> protocolCorrelationObservation \<Rightarrow> protocolCorrelationEdgeResult option" where
  "protocolCorrelationEdge f n =
     (case protocolCorrelationEvidence f n of
        None \<Rightarrow> None
      | Some strength \<Rightarrow>
          let nativeCompletedAt = time_Add (ob_Timestamp n) (ob_Latency n);
              distance = absoluteProtocolDuration (time_Sub (ob_Timestamp f) nativeCompletedAt)
          in if distance > protocolFallbackTolerance (ob_Latency n) then None
             else Some \<lparr> er_Distance = distance, er_Strength = strength,
                    er_fallbackShape = bestProtocolSharedShape (ob_Tokens f) (ob_Tokens n),
                    er_nativeShape = bestProtocolSharedShape (ob_Tokens n) (ob_Tokens f) \<rparr>)"

section \<open>Edges are sound\<close>

definition shared :: "protocolTokenShape \<Rightarrow> protocolTokenShape \<Rightarrow> bool" where
  "shared a b \<longleftrightarrow> shape_key a = shape_key b"

text \<open>What the double loop has found after the pairs \<open>P\<close>.\<close>

definition best_of :: "(protocolTokenShape \<times> protocolTokenShape) set \<Rightarrow> (protocolTokenShape \<times> int) option \<Rightarrow> bool" where
  "best_of P best \<longleftrightarrow>
     (case best of
        None \<Rightarrow> \<forall>(a, b)\<in>P. shared a b \<longrightarrow> sh_Strength a + sh_Strength b < 0
      | Some (a, s) \<Rightarrow> (\<exists>b. (a, b) \<in> P \<and> shared a b \<and> s = sh_Strength a + sh_Strength b) \<and>
          (\<forall>(a', b')\<in>P. shared a' b' \<longrightarrow> sh_Strength a' + sh_Strength b' \<le> s))"

definition keep_best :: "protocolTokenShape \<Rightarrow> protocolTokenShape \<Rightarrow> (protocolTokenShape \<times> int) option \<Rightarrow>
    (protocolTokenShape \<times> int) option" where
  "keep_best a b best =
     (if sh_FullInput a \<noteq> sh_FullInput b \<or> sh_FullOutput a \<noteq> sh_FullOutput b then best
      else let strength = sh_Strength a + sh_Strength b
           in if strength > (case best of None \<Rightarrow> -1 | Some (_, s) \<Rightarrow> s) then Some (a, strength) else best)"

lemma best_of_step: "best_of P best \<Longrightarrow> best_of (insert (a, b) P) (keep_best a b best)"
  by (cases best) (fastforce simp: best_of_def keep_best_def shared_def shape_key_def Let_def)+

lemma best_of_row: "best_of P best \<Longrightarrow> best_of (P \<union> {a} \<times> set right) (fold (keep_best a) right best)"
proof (induction right arbitrary: P best)
  case (Cons b right)
  have "P \<union> {a} \<times> set (b # right) = insert (a, b) P \<union> {a} \<times> set right" by auto
  then show ?case using Cons.IH [OF best_of_step [OF Cons.prems]] by simp
qed simp

lemma best_of_rows: "best_of P best \<Longrightarrow> best_of (P \<union> set left \<times> set right) (fold (\<lambda>a. fold (keep_best a) right) left best)"
proof (induction left arbitrary: P best)
  case (Cons a left)
  have "P \<union> set (a # left) \<times> set right = (P \<union> {a} \<times> set right) \<union> set left \<times> set right" by auto
  then show ?case using Cons.IH [OF best_of_row [OF Cons.prems]] by simp
qed simp

lemma bestSharedPair_best: "best_of (set left \<times> set right) (bestSharedPair left right)"
proof -
  have "best_of {} None" by (simp add: best_of_def)
  from best_of_rows [OF this, of left right] show ?thesis
    by (simp add: bestSharedPair_def keep_best_def [abs_def])
qed

lemma bestSharedPair_some:
  "bestSharedPair left right = Some (a, s) \<Longrightarrow>
   \<exists>b. a \<in> set left \<and> b \<in> set right \<and> shared a b \<and> s = sh_Strength a + sh_Strength b"
  using bestSharedPair_best [of left right] by (auto simp: best_of_def)

lemma absolute_distance:
  "in_int64 d \<Longrightarrow> absoluteProtocolDuration d \<le> x \<Longrightarrow> x < MaxInt64 \<Longrightarrow> absoluteProtocolDuration d = \<bar>d\<bar>"
  by (auto simp: absoluteProtocolDuration_def)

lemma tolerance_bounds:
  "protocolFallbackTolerance l \<le> 5 * time_Second" "time_Second \<le> protocolFallbackTolerance l"
  "0 < l \<Longrightarrow> protocolFallbackTolerance l \<le> time_Second + l div 200"
  by (auto simp: protocolFallbackTolerance_def protocolFallbackCompletionTolerance_def
      protocolFallbackCompletionToleranceMax_def protocolFallbackCompletionToleranceRatio_def Let_def time_units)

text \<open>The distance of an edge is the real one: the saturation of \<open>Sub\<close> is far outside the window.\<close>

lemma edge_distance:
  assumes "absoluteProtocolDuration (time_Sub t u) \<le> 5 * time_Second"
  shows "absoluteProtocolDuration (time_Sub t u) = \<bar>t_ns t - t_ns u\<bar>"
  using assms by (auto simp: absoluteProtocolDuration_def time_Sub_def time_units MaxInt64_def MinInt64_def max_def min_def
      split: if_splits)

text \<open>
  C16: An edge joins a fallback record with a native one only when they have the same model and
  the same client up to case, the same outcome, a shape in common whose buckets both read alike,
  and completion times that differ by no more than one second and half a percent of the native
  latency, and never by more than five seconds.
\<close>
theorem edge_sound:
  assumes "protocolCorrelationEdge f n = Some e"
  shows "ob_Role f = RoleFallback \<and> ob_Role n = RoleNative \<and>
    go_EqualFold (go_TrimSpace (ob_RequestedModel f)) (go_TrimSpace (ob_RequestedModel n)) \<and>
    go_EqualFold (go_TrimSpace (ob_ClientIdentity f)) (go_TrimSpace (ob_ClientIdentity n)) \<and>
    ob_Failed f = ob_Failed n \<and>
    er_Distance e = \<bar>t_ns (ob_Timestamp f) - (t_ns (ob_Timestamp n) + ob_Latency n)\<bar> \<and>
    er_Distance e \<le> 5 * time_Second \<and> er_Distance e \<le> time_Second + ob_Latency n div 200 \<and>
    (\<exists>sf\<in>set (te_Shapes (ob_Tokens f)). \<exists>sn\<in>set (te_Shapes (ob_Tokens n)).
       shape_key sf = shape_key sn \<and> er_fallbackShape e = Some sf \<and>
       sh_Strength sf + sh_Strength sn \<le> er_Strength e \<and> er_Strength e \<le> sh_Strength sf + sh_Strength sn + 40)"
proof -
  obtain strength where ev: "protocolCorrelationEvidence f n = Some strength"
    using assms by (auto simp: protocolCorrelationEdge_def split: option.splits)
  let ?d = "absoluteProtocolDuration (time_Sub (ob_Timestamp f) (time_Add (ob_Timestamp n) (ob_Latency n)))"
  have d: "?d \<le> protocolFallbackTolerance (ob_Latency n)" "er_Distance e = ?d" "er_Strength e = strength"
    "er_fallbackShape e = bestProtocolSharedShape (ob_Tokens f) (ob_Tokens n)"
    using assms by (auto simp: protocolCorrelationEdge_def ev Let_def split: if_splits)
  have "?d \<le> 5 * time_Second" using d(1) tolerance_bounds(1) by (rule order_trans)
  note dist = edge_distance [OF this] this
  have c: "ob_Role f = RoleFallback" "ob_Role n = RoleNative"
    "go_EqualFold (go_TrimSpace (ob_RequestedModel f)) (go_TrimSpace (ob_RequestedModel n))"
    "go_EqualFold (go_TrimSpace (ob_ClientIdentity f)) (go_TrimSpace (ob_ClientIdentity n))"
    "ob_Failed f = ob_Failed n" "0 < ob_Latency n"
    "protocolTokenEvidenceCompatible (ob_Tokens f) (ob_Tokens n) = Some strength"
    using ev by (auto simp: protocolCorrelationEvidence_def Let_def split: if_splits)
  obtain sf s where b: "bestSharedPair (te_Shapes (ob_Tokens f)) (te_Shapes (ob_Tokens n)) = Some (sf, s)"
    "s \<le> strength" "strength \<le> s + 40"
    using c(7) by (auto simp: protocolTokenEvidenceCompatible_def Let_def split: if_splits option.splits)
  have "?d \<le> time_Second + ob_Latency n div 200" using d(1) tolerance_bounds(3) [OF c(6)] by (rule order_trans)
  then show ?thesis
    using bestSharedPair_some [OF b(1)] b c dist d
    by (auto simp: bestProtocolSharedShape_def shared_def time_Add_def)
qed

section \<open>The search for all edges\<close>

definition protocolObservationPartitionKey :: "protocolCorrelationObservation \<Rightarrow> string" where
  "protocolObservationPartitionKey ob =
     go_Join [go_ToLower (go_TrimSpace (ob_RequestedModel ob)), go_ToLower (go_TrimSpace (ob_ClientIdentity ob)),
       go_FormatBool (ob_Failed ob), ''failure-status-wildcard''] nul"

definition shapeKeyOf :: "string \<Rightarrow> protocolTokenShape \<Rightarrow> string" where
  "shapeKeyOf partition' s = partition' @ nul @ go_FormatInt (sh_FullInput s) @ nul @ go_FormatInt (sh_FullOutput s)"

definition protocolObservationShapeKeys :: "protocolCorrelationObservation \<Rightarrow> string list" where
  "protocolObservationShapeKeys ob =
     (if ob_Role ob = RoleUnknown \<or> te_Invalid (ob_Tokens ob) \<or> go_TrimSpace (ob_RequestedModel ob) = [] \<or>
         go_EqualFold (go_TrimSpace (ob_RequestedModel ob)) unknownModel \<or> go_TrimSpace (ob_ClientIdentity ob) = []
      then []
      else sort (remdups (map (shapeKeyOf (protocolObservationPartitionKey ob)) (te_Shapes (ob_Tokens ob)))))"

record protocolFallbackDetailRef =
  fr_apiName :: string
  fr_modelName :: string
  fr_index :: nat
  fr_detail :: RequestDetail

definition observe_ref :: "protocolFallbackDetailRef \<Rightarrow> protocolCorrelationObservation" where
  "observe_ref ref =
     (let ob = protocolObservationFromRequestDetail (fr_modelName ref) (fr_detail ref)
      in ob\<lparr> ob_StableOrder := (ob_StableOrder ob)\<lparr> so_API := fr_apiName ref, so_Index := int (fr_index ref) \<rparr> \<rparr>)"

type_synonym shape_index = "(string, nat list) gomap"
type_synonym candidate_set = "(nat, (nat, protocolCorrelationEdgeResult) gomap) gomap"

definition index_append :: "string \<Rightarrow> nat \<Rightarrow> shape_index \<Rightarrow> shape_index" where
  "index_append key i m = go_put key (go_getd [] m key @ [i]) m"

text \<open>\<open>byShapeFallback\<close> and \<open>byShapeNative\<close>.\<close>

definition index_of_role :: "protocolCorrelationRole \<Rightarrow> protocolCorrelationObservation list \<Rightarrow> shape_index" where
  "index_of_role role obs =
     fold (\<lambda>i m. if ob_Role (obs ! i) = role
                 then fold (\<lambda>key. index_append key i) (protocolObservationShapeKeys (obs ! i)) m else m)
       [0..<length obs] []"

definition completion_of :: "protocolCorrelationObservation list \<Rightarrow> nat \<Rightarrow> gotime" where
  "completion_of obs i = so_Completion (ob_StableOrder (obs ! i))"

text \<open>The natives of one shape key, sorted by completion, in the window around the fallback.\<close>

definition native_window :: "protocolCorrelationObservation list \<Rightarrow> nat list \<Rightarrow> gotime \<Rightarrow> nat list" where
  "native_window obs natives fallbackAt =
     (let ns = sort_key (\<lambda>i. t_ns (completion_of obs i)) natives;
          windowStart = time_Add fallbackAt (- protocolFallbackCompletionToleranceMax);
          windowEnd = time_Add fallbackAt protocolFallbackCompletionToleranceMax;
          start = go_search (\<lambda>i. \<not> time_Before (completion_of obs (ns ! i)) windowStart) 0 (length ns);
          stop = go_search (\<lambda>i. time_After (completion_of obs (ns ! i)) windowEnd) 0 (length ns)
      in drop start (take stop ns))"

definition add_candidate :: "protocolCorrelationObservation list \<Rightarrow> nat \<Rightarrow> nat \<Rightarrow>
    (string, candidate_set) gomap \<Rightarrow> (string, candidate_set) gomap" where
  "add_candidate obs f n cands =
     (case protocolCorrelationEdge (obs ! f) (obs ! n) of
        None \<Rightarrow> cands
      | Some edge \<Rightarrow>
          let p = protocolObservationPartitionKey (obs ! f);
              byFallback = go_getd [] cands p;
              byNative = go_getd [] byFallback f;
              byNative = (case go_get byNative n of
                  None \<Rightarrow> go_put n edge byNative
                | Some previous \<Rightarrow>
                    if er_Strength edge > er_Strength previous \<or>
                       er_Strength edge = er_Strength previous \<and> er_Distance edge < er_Distance previous
                    then go_put n edge byNative else byNative)
          in go_put p (go_put f byNative byFallback) cands)"

definition candidatesByPartition :: "protocolCorrelationObservation list \<Rightarrow> (string, candidate_set) gomap" where
  "candidatesByPartition obs =
     fold (\<lambda>(key, fallbacks) cands.
         let natives = go_getd [] (index_of_role RoleNative obs) key
         in if natives = [] then cands
            else fold (\<lambda>f cands.
                if time_IsZero (ob_Timestamp (obs ! f)) then cands
                else fold (add_candidate obs f) (native_window obs natives (ob_Timestamp (obs ! f))) cands)
              fallbacks cands)
       (index_of_role RoleFallback obs) []"

section \<open>The search finds every edge\<close>

definition candidate_edge :: "(string, candidate_set) gomap \<Rightarrow> string \<Rightarrow> nat \<Rightarrow> nat \<Rightarrow> protocolCorrelationEdgeResult option" where
  "candidate_edge cands p f n = go_get (go_getd [] (go_getd [] cands p) f) n"

lemma index_append_get: "go_getd [] (index_append key i m) k = go_getd [] m k @ (if k = key then [i] else [])"
  by (simp add: index_append_def)

lemma index_keys_get:
  "distinct keys \<Longrightarrow> go_getd [] (fold (\<lambda>key. index_append key i) keys m) k = go_getd [] m k @ (if k \<in> set keys then [i] else [])"
  by (induction keys arbitrary: m) (auto simp: index_append_get)

lemma shape_keys_distinct: "distinct (protocolObservationShapeKeys ob)"
  by (simp add: protocolObservationShapeKeys_def)

lemma index_of_role_get:
  "go_getd [] (index_of_role role obs) k =
   filter (\<lambda>i. ob_Role (obs ! i) = role \<and> k \<in> set (protocolObservationShapeKeys (obs ! i))) [0..<length obs]"
proof -
  have "go_getd [] (fold (\<lambda>i m. if ob_Role (obs ! i) = role
        then fold (\<lambda>key. index_append key i) (protocolObservationShapeKeys (obs ! i)) m else m) is m) k =
      go_getd [] m k @ filter (\<lambda>i. ob_Role (obs ! i) = role \<and> k \<in> set (protocolObservationShapeKeys (obs ! i))) is" for "is" m
    by (induction "is" arbitrary: m) (auto simp: index_keys_get shape_keys_distinct)
  then show ?thesis by (simp add: index_of_role_def)
qed

lemma index_append_wf: "go_wf m \<Longrightarrow> go_wf (index_append key i m)"
  by (simp add: index_append_def)

lemma index_of_role_wf: "go_wf (index_of_role role obs)"
  unfolding index_of_role_def
  by (intro fold_keeps [where P = go_wf]) (auto intro!: fold_keeps [where P = go_wf] index_append_wf)

text \<open>The binary searches cut out exactly the natives in the window.\<close>

lemma go_search_mono:
  assumes "\<And>a b. a \<le> b \<Longrightarrow> b < n \<Longrightarrow> f a \<Longrightarrow> f b"
  shows "go_search f 0 n \<le> n" "a < go_search f 0 n \<Longrightarrow> \<not> f a" "go_search f 0 n \<le> a \<Longrightarrow> a < n \<Longrightarrow> f a"
  using go_search_spec [of 0 n f] assms by auto

lemma native_window_set:
  "set (native_window obs natives t) =
   {i \<in> set natives. t_ns t - 5 * time_Second \<le> t_ns (completion_of obs i) \<and> t_ns (completion_of obs i) \<le> t_ns t + 5 * time_Second}"
proof -
  let ?key = "\<lambda>i. t_ns (completion_of obs i)"
  define ns where "ns = sort_key ?key natives"
  define lo hi where "lo = t_ns t - 5 * time_Second" and "hi = t_ns t + 5 * time_Second"
  have sorted: "sorted (map ?key ns)" by (simp add: ns_def)
  have mono: "?key (ns ! a) \<le> ?key (ns ! b)" if "a \<le> b" "b < length ns" for a b
    using sorted_nth_mono [OF sorted, of a b] that by simp
  define start where "start = go_search (\<lambda>i. lo \<le> ?key (ns ! i)) 0 (length ns)"
  define stop where "stop = go_search (\<lambda>i. hi < ?key (ns ! i)) 0 (length ns)"
  have m1: "lo \<le> ?key (ns ! b)" if "a \<le> b" "b < length ns" "lo \<le> ?key (ns ! a)" for a b
    using mono [OF that(1,2)] that(3) by linarith
  have 1: "start \<le> length ns" "a < start \<Longrightarrow> \<not> lo \<le> ?key (ns ! a)"
    "start \<le> a \<Longrightarrow> a < length ns \<Longrightarrow> lo \<le> ?key (ns ! a)" for a
    unfolding start_def by (rule go_search_mono, erule (2) m1, assumption?)+
  have m2: "hi < ?key (ns ! b)" if "a \<le> b" "b < length ns" "hi < ?key (ns ! a)" for a b
    using mono [OF that(1,2)] that(3) by linarith
  have 2: "stop \<le> length ns" "a < stop \<Longrightarrow> \<not> hi < ?key (ns ! a)"
    "stop \<le> a \<Longrightarrow> a < length ns \<Longrightarrow> hi < ?key (ns ! a)" for a
    unfolding stop_def by (rule go_search_mono, erule (2) m2, assumption?)+
  have "native_window obs natives t = drop start (take stop ns)"
    by (simp add: native_window_def Let_def start_def stop_def ns_def lo_def hi_def time_Before_def time_After_def
        time_Add_def protocolFallbackCompletionToleranceMax_def not_less)
  moreover have "set (drop start (take stop ns)) = {ns ! i | i. start \<le> i \<and> i < stop}"
  proof -
    have "drop start (take stop ns) = map ((!) ns) [start..<stop]"
      using 2(1) by (intro nth_equalityI) auto
    then show ?thesis by auto
  qed
  moreover have "{ns ! i | i. start \<le> i \<and> i < stop} = {i \<in> set natives. lo \<le> ?key i \<and> ?key i \<le> hi}"
  proof -
    have "set natives = set ns" by (simp add: ns_def)
    also have "set ns = {ns ! i | i. i < length ns}" by (rule set_conv_nth)
    finally have N: "set natives = {ns ! i | i. i < length ns}" .
    have E: "start \<le> a \<and> a < stop \<longleftrightarrow> a < length ns \<and> lo \<le> ?key (ns ! a) \<and> ?key (ns ! a) \<le> hi" for a
      using 1(2,3) [of a] 2(1) 2(2,3) [of a] by linarith
    show ?thesis unfolding N E by auto
  qed
  ultimately show ?thesis by (simp add: lo_def hi_def)
qed

text \<open>The candidates hold the edges of the pairs that were looked at, and nothing else.\<close>

definition holds_edges :: "protocolCorrelationObservation list \<Rightarrow> (nat \<times> nat) set \<Rightarrow> (string, candidate_set) gomap \<Rightarrow> bool" where
  "holds_edges obs S cands \<longleftrightarrow> (\<forall>p f n e. candidate_edge cands p f n = Some e \<longleftrightarrow>
     (f, n) \<in> S \<and> p = protocolObservationPartitionKey (obs ! f) \<and> protocolCorrelationEdge (obs ! f) (obs ! n) = Some e)"

lemma holds_edges_add: "holds_edges obs S cands \<Longrightarrow> holds_edges obs (S \<union> {(f, n)}) (add_candidate obs f n cands)"
proof (cases "protocolCorrelationEdge (obs ! f) (obs ! n)")
  case (Some edge)
  assume h: "holds_edges obs S cands"
  let ?p = "protocolObservationPartitionKey (obs ! f)"
  have "candidate_edge (add_candidate obs f n cands) p f' n' =
      (if p = ?p \<and> f' = f \<and> n' = n then Some edge else candidate_edge cands p f' n')" for p f' n'
  proof (cases "candidate_edge cands ?p f n")
    case None
    then show ?thesis by (auto simp: add_candidate_def Some Let_def candidate_edge_def go_getd_def split: option.split)
  next
    case (Some e)
    then have "e = edge" using h \<open>protocolCorrelationEdge (obs ! f) (obs ! n) = Some edge\<close> by (auto simp: holds_edges_def)
    then show ?thesis
      using Some by (auto simp: add_candidate_def Let_def candidate_edge_def \<open>protocolCorrelationEdge (obs ! f) (obs ! n) = Some edge\<close>)
  qed
  then show ?thesis using h Some unfolding holds_edges_def by auto
qed (auto simp: add_candidate_def holds_edges_def)

lemma holds_edges_fold:
  assumes "\<And>x S c. x \<in> set xs \<Longrightarrow> holds_edges obs S c \<Longrightarrow> holds_edges obs (S \<union> T x) (g x c)" "holds_edges obs S c"
  shows "holds_edges obs (S \<union> (\<Union>x\<in>set xs. T x)) (fold g xs c)"
  using assms
proof (induction xs arbitrary: S c)
  case (Cons x xs)
  have "holds_edges obs (S \<union> T x \<union> (\<Union>x\<in>set xs. T x)) (fold g xs (g x c))"
    by (rule Cons.IH) (use Cons.prems in auto)
  then show ?case by (simp add: Un_assoc)
qed simp

definition looked_at :: "protocolCorrelationObservation list \<Rightarrow> string \<Rightarrow> nat \<Rightarrow> (nat \<times> nat) set" where
  "looked_at obs key f = (if time_IsZero (ob_Timestamp (obs ! f)) then {}
     else {f} \<times> set (native_window obs (go_getd [] (index_of_role RoleNative obs) key) (ob_Timestamp (obs ! f))))"

lemma native_window_Nil [simp]: "native_window obs [] t = []"
  by (simp add: native_window_def Let_def)

lemma holds_edges_row:
  assumes "holds_edges obs S c"
  shows "holds_edges obs (S \<union> ({f} \<times> set ns)) (fold (add_candidate obs f) ns c)"
proof -
  have "{f} \<times> set ns = (\<Union>n\<in>set ns. {(f, n)})" by auto
  then show ?thesis using holds_edges_fold [where T = "\<lambda>n. {(f, n)}"] holds_edges_add assms by metis
qed

lemma candidates_hold:
  "holds_edges obs (\<Union>(key, fs)\<in>set (index_of_role RoleFallback obs). \<Union>f\<in>set fs. looked_at obs key f)
     (candidatesByPartition obs)"
proof -
  let ?g = "\<lambda>(key, fallbacks) cands. let natives = go_getd [] (index_of_role RoleNative obs) key
         in if natives = [] then cands
            else fold (\<lambda>f cands. if time_IsZero (ob_Timestamp (obs ! f)) then cands
                else fold (add_candidate obs f) (native_window obs natives (ob_Timestamp (obs ! f))) cands) fallbacks cands"
  have "holds_edges obs (S \<union> (\<Union>f\<in>set fs. looked_at obs key f)) (?g (key, fs) c)" if "holds_edges obs S c" for S c key fs
  proof (cases "go_getd [] (index_of_role RoleNative obs) key = []")
    case True
    then have "(\<Union>f\<in>set fs. looked_at obs key f) = {}" by (auto simp: looked_at_def)
    then show ?thesis using that True by simp
  next
    case False
    show ?thesis
      unfolding prod.case Let_def if_not_P [OF False]
      by (rule holds_edges_fold [where T = "looked_at obs key"]) (auto simp: looked_at_def intro: holds_edges_row that)
  qed
  then have step: "holds_edges obs (S \<union> (case x of (key, fs) \<Rightarrow> \<Union>f\<in>set fs. looked_at obs key f)) (?g x c)"
    if "holds_edges obs S c" for S c x using that by (cases x) simp
  have "holds_edges obs {} []" by (simp add: holds_edges_def candidate_edge_def)
  then show ?thesis
    unfolding candidatesByPartition_def
    using holds_edges_fold [where g = ?g and T = "\<lambda>x. case x of (key, fs) \<Rightarrow> \<Union>f\<in>set fs. looked_at obs key f", OF step]
    by (metis (no_types, lifting) sup_bot_left)
qed

definition completion_ok :: "protocolCorrelationObservation \<Rightarrow> bool" where
  "completion_ok ob \<longleftrightarrow> so_Completion (ob_StableOrder ob) = time_Add (ob_Timestamp ob) (ob_Latency ob)"

lemma observe_ref_completion: "completion_ok (observe_ref ref)"
  by (simp add: observe_ref_def protocolObservationFromRequestDetail_def completion_ok_def Let_def split: prod.split)

lemma edge_evidence:
  assumes "protocolCorrelationEdge f n = Some e"
  shows "ob_Role f = RoleFallback" "ob_Role n = RoleNative"
    "go_EqualFold (go_TrimSpace (ob_RequestedModel f)) (go_TrimSpace (ob_RequestedModel n))"
    "go_EqualFold (go_TrimSpace (ob_ClientIdentity f)) (go_TrimSpace (ob_ClientIdentity n))"
    "go_TrimSpace (ob_RequestedModel f) \<noteq> []" "go_TrimSpace (ob_ClientIdentity f) \<noteq> []"
    "\<not> go_EqualFold (go_TrimSpace (ob_RequestedModel f)) unknownModel" "\<not> time_IsZero (ob_Timestamp f)"
    "ob_Failed f = ob_Failed n" "\<not> te_Invalid (ob_Tokens f)" "\<not> te_Invalid (ob_Tokens n)"
  using assms
  by (auto simp: protocolCorrelationEdge_def protocolCorrelationEvidence_def protocolTokenEvidenceCompatible_def Let_def
      split: option.splits if_splits)

lemma edge_shares_key:
  assumes e: "protocolCorrelationEdge f n = Some e"
    and p: "protocolObservationPartitionKey f = protocolObservationPartitionKey n"
  obtains key where "key \<in> set (protocolObservationShapeKeys f)" "key \<in> set (protocolObservationShapeKeys n)"
proof -
  note ev = edge_evidence [OF e]
  obtain strength where "protocolTokenEvidenceCompatible (ob_Tokens f) (ob_Tokens n) = Some strength"
    using e by (auto simp: protocolCorrelationEdge_def protocolCorrelationEvidence_def Let_def split: option.splits if_splits)
  then obtain a s where "bestSharedPair (te_Shapes (ob_Tokens f)) (te_Shapes (ob_Tokens n)) = Some (a, s)"
    by (auto simp: protocolTokenEvidenceCompatible_def split: option.splits if_splits)
  from bestSharedPair_some [OF this] obtain b where ab: "a \<in> set (te_Shapes (ob_Tokens f))"
    "b \<in> set (te_Shapes (ob_Tokens n))" "shared a b" by blast
  let ?k = "\<lambda>ob. shapeKeyOf (protocolObservationPartitionKey ob)"
  have k: "?k f a = ?k n b" using ab(3) p by (simp add: shapeKeyOf_def shared_def shape_key_def)
  have n: "go_TrimSpace (ob_RequestedModel n) \<noteq> []" "go_TrimSpace (ob_ClientIdentity n) \<noteq> []"
    "\<not> go_EqualFold (go_TrimSpace (ob_RequestedModel n)) unknownModel"
    using ev(3-7) by (auto simp: go_EqualFold_def)
  have "set (protocolObservationShapeKeys f) = ?k f ` set (te_Shapes (ob_Tokens f))"
    "set (protocolObservationShapeKeys n) = ?k n ` set (te_Shapes (ob_Tokens n))"
    using ev n by (simp_all add: protocolObservationShapeKeys_def)
  then show thesis using that ab k by (metis imageI)
qed

text \<open>The partition can be read off a shape key: the numbers at its end contain no NUL.\<close>

lemma digit_no_nul: "n < 10 \<Longrightarrow> char_of (48 + n :: nat) \<noteq> CHR 0x00"
proof
  assume n: "n < 10" "char_of (48 + n :: nat) = CHR 0x00"
  then have "(of_char (char_of (48 + n :: nat)) :: nat) = of_char (CHR 0x00)" by simp
  then show False using n(1) by (simp add: of_char_of)
qed

lemma format_nat_no_nul: "CHR 0x00 \<notin> set (format_nat n)"
proof (induction n rule: format_nat.induct)
  case (1 n)
  show ?case
  proof (cases "n < 10")
    case True
    then show ?thesis using digit_no_nul [of n] by (subst format_nat.simps) auto
  next
    case False
    then show ?thesis using 1 digit_no_nul [of "n mod 10"] by (subst format_nat.simps) auto
  qed
qed

lemma format_no_nul: "CHR 0x00 \<notin> set (go_FormatInt n)"
  using format_nat_no_nul by (simp add: go_FormatInt_def)

lemma cut_last:
  assumes "x @ c # a = y @ c # b" "c \<notin> set a" "c \<notin> set b"
  shows "x = y \<and> a = b"
proof -
  have t: "takeWhile (\<lambda>d. d \<noteq> c) (rev (z @ c # w)) = rev w" if "c \<notin> set w" for z w
  proof -
    have "takeWhile (\<lambda>d. d \<noteq> c) (rev w @ c # rev z) = rev w @ takeWhile (\<lambda>d. d \<noteq> c) (c # rev z)"
      by (rule takeWhile_append2) (use that in auto)
    then show ?thesis by simp
  qed
  have "rev a = rev b" using t [OF assms(2), of x] t [OF assms(3), of y] assms(1) by (simp only:)
  then have "a = b" by simp
  then show ?thesis using assms(1) by simp
qed

lemma shape_key_partition:
  assumes "shapeKeyOf p a = shapeKeyOf q b"
  shows "p = q"
proof -
  let ?in = "\<lambda>s. go_FormatInt (sh_FullInput s)" and ?out = "\<lambda>s. go_FormatInt (sh_FullOutput s)"
  have "(p @ CHR 0x00 # ?in a) @ CHR 0x00 # ?out a = (q @ CHR 0x00 # ?in b) @ CHR 0x00 # ?out b"
    using assms by (simp add: shapeKeyOf_def nul_def)
  from cut_last [OF this format_no_nul format_no_nul] have "p @ CHR 0x00 # ?in a = q @ CHR 0x00 # ?in b" by blast
  from cut_last [OF this format_no_nul format_no_nul] show ?thesis by blast
qed

lemma shape_keys_partition:
  assumes "key \<in> set (protocolObservationShapeKeys f)" "key \<in> set (protocolObservationShapeKeys n)"
  shows "protocolObservationPartitionKey f = protocolObservationPartitionKey n"
  using assms by (auto simp: protocolObservationShapeKeys_def split: if_splits dest: shape_key_partition)

text \<open>The candidates are exactly the edges within the partitions, for all texts.\<close>

lemma candidates_exact:
  fixes refs :: "protocolFallbackDetailRef list"
  defines "obs \<equiv> map observe_ref refs"
  shows "candidate_edge (candidatesByPartition obs) p f n = Some e \<longleftrightarrow>
    f < length refs \<and> n < length refs \<and> p = protocolObservationPartitionKey (obs ! f) \<and>
    p = protocolObservationPartitionKey (obs ! n) \<and> protocolCorrelationEdge (obs ! f) (obs ! n) = Some e"
proof -
  let ?S = "\<Union>(key, fs)\<in>set (index_of_role RoleFallback obs). \<Union>f\<in>set fs. looked_at obs key f"
  let ?key = "\<lambda>i. protocolObservationPartitionKey (obs ! i)"
  have len: "length obs = length refs" by (simp add: obs_def)
  have get: "fs = go_getd [] (index_of_role RoleFallback obs) key" if "(key, fs) \<in> set (index_of_role RoleFallback obs)" for key fs
    using that index_of_role_wf [of RoleFallback obs] by (simp add: go_getd_def)
  have 1: "f < length refs \<and> n < length refs \<and> ?key f = ?key n" if S: "(f, n) \<in> ?S"
  proof -
    obtain key fs f' where k': "(key, fs) \<in> set (index_of_role RoleFallback obs)" "f' \<in> set fs" "(f, n) \<in> looked_at obs key f'"
      using S by blast
    then have "f' = f" by (auto simp: looked_at_def split: if_splits)
    note k = k' [unfolded this]
    have f: "f < length refs" "key \<in> set (protocolObservationShapeKeys (obs ! f))"
      using k(2) unfolding get [OF k(1)] index_of_role_get len by simp_all
    have n: "n < length refs" "key \<in> set (protocolObservationShapeKeys (obs ! n))"
      using k(3) len by (auto simp: looked_at_def native_window_set index_of_role_get split: if_splits)
    show ?thesis using f(1) n(1) shape_keys_partition [OF f(2) n(2)] by blast
  qed
  have 2: "(f, n) \<in> ?S" if "f < length refs" "n < length refs" "protocolCorrelationEdge (obs ! f) (obs ! n) = Some e"
    and same: "?key f = ?key n"
  proof -
    note edge = that(3)
    note ev = edge_evidence [OF edge]
    obtain key where k: "key \<in> set (protocolObservationShapeKeys (obs ! f))" "key \<in> set (protocolObservationShapeKeys (obs ! n))"
      using edge_shares_key [OF edge same] .
    let ?fs = "go_getd [] (index_of_role RoleFallback obs) key"
    let ?ns = "go_getd [] (index_of_role RoleNative obs) key"
    have f: "f \<in> set ?fs" and n: "n \<in> set ?ns" using that k ev len by (auto simp: index_of_role_get)
    have "(key, ?fs) \<in> set (index_of_role RoleFallback obs)"
      using f by (auto simp: go_getd_def split: option.splits dest: map_of_SomeD)
    moreover have "n \<in> set (native_window obs ?ns (ob_Timestamp (obs ! f)))"
    proof -
      have "absoluteProtocolDuration (time_Sub (ob_Timestamp (obs ! f)) (time_Add (ob_Timestamp (obs ! n)) (ob_Latency (obs ! n))))
          \<le> protocolFallbackTolerance (ob_Latency (obs ! n))"
        using that(3) by (auto simp: protocolCorrelationEdge_def Let_def split: option.splits if_splits)
      then have d: "absoluteProtocolDuration (time_Sub (ob_Timestamp (obs ! f)) (time_Add (ob_Timestamp (obs ! n)) (ob_Latency (obs ! n))))
          \<le> 5 * time_Second" using tolerance_bounds(1) order_trans by blast
      have "completion_of obs n = time_Add (ob_Timestamp (obs ! n)) (ob_Latency (obs ! n))"
        using that(2) observe_ref_completion by (simp add: obs_def completion_of_def completion_ok_def)
      then have "\<bar>t_ns (ob_Timestamp (obs ! f)) - t_ns (completion_of obs n)\<bar> \<le> 5 * time_Second"
        using edge_distance [OF d] d by simp
      then show ?thesis using n by (simp add: native_window_set abs_le_iff)
    qed
    ultimately show ?thesis using f ev(8) by (force simp: looked_at_def)
  qed
  have h: "candidate_edge (candidatesByPartition obs) p f n = Some e \<longleftrightarrow>
      (f, n) \<in> ?S \<and> p = ?key f \<and> protocolCorrelationEdge (obs ! f) (obs ! n) = Some e"
    using candidates_hold [of obs, unfolded holds_edges_def, rule_format, of p f n e] .
  show ?thesis
  proof
    assume "candidate_edge (candidatesByPartition obs) p f n = Some e"
    then have e: "(f, n) \<in> ?S" "p = ?key f" "protocolCorrelationEdge (obs ! f) (obs ! n) = Some e" by (simp_all only: h)
    then show "f < length refs \<and> n < length refs \<and> p = ?key f \<and> p = ?key n \<and> protocolCorrelationEdge (obs ! f) (obs ! n) = Some e"
      using 1 [OF e(1)] by simp
  next
    assume e: "f < length refs \<and> n < length refs \<and> p = ?key f \<and> p = ?key n \<and> protocolCorrelationEdge (obs ! f) (obs ! n) = Some e"
    then have "?key f = ?key n" by metis
    then have "(f, n) \<in> ?S" using e by (intro 2) simp_all
    then show "candidate_edge (candidatesByPartition obs) p f n = Some e" unfolding h using e by blast
  qed
qed

text \<open>
  \<open>ToLower\<close> in the partition key and \<open>EqualFold\<close> in the edge are different relations.  They agree on
  texts in ASCII, which model names and the hashes of client keys are.
\<close>

definition ascii_names :: "protocolCorrelationObservation \<Rightarrow> bool" where
  "ascii_names ob \<longleftrightarrow> ascii (go_TrimSpace (ob_RequestedModel ob)) \<and> ascii (go_TrimSpace (ob_ClientIdentity ob))"

lemma ascii_edge_partition:
  assumes "protocolCorrelationEdge f n = Some e" "ascii_names f" "ascii_names n"
  shows "protocolObservationPartitionKey f = protocolObservationPartitionKey n"
  using edge_evidence(3,4,9) [OF assms(1)] assms(2,3)
  by (simp add: protocolObservationPartitionKey_def ascii_names_def EqualFold_ascii)

text \<open>
  C15: The search loses no edge and invents none: in whatever order the maps are visited, a
  native record is a candidate for a fallback record exactly when there is an edge between them,
  and it is filed with that edge under the partition of the fallback.  So neither the index by
  shape keys nor the windows found by binary search change the result of comparing all pairs.
  The names of models and clients are taken to be in ASCII, where the lower-case texts of the
  index and the folding of the edge function agree; the theorem \<open>long_s_edge_is_missed\<close> shows that
  the search loses edges without this.
\<close>
theorem candidates_are_all_edges:
  fixes refs :: "protocolFallbackDetailRef list"
  defines "obs \<equiv> map observe_ref refs"
  assumes "list_all ascii_names obs"
  shows "candidate_edge (candidatesByPartition obs) p f n = Some e \<longleftrightarrow>
    f < length refs \<and> n < length refs \<and> p = protocolObservationPartitionKey (obs ! f) \<and>
    protocolCorrelationEdge (obs ! f) (obs ! n) = Some e"
proof -
  have a: "ascii_names (obs ! i)" if "i < length refs" for i
    using assms(2) that by (simp add: obs_def list_all_length)
  show ?thesis
    using candidates_exact [of refs p f n e] ascii_edge_partition [of "obs ! f" "obs ! n" e] a unfolding obs_def by metis
qed

section \<open>A sample pair\<close>

definition sample_native :: RequestDetail where
  "sample_native = sample_detail\<lparr> rd_AuthID := ''a'', rd_APIKeyHash := ''h'', rd_LatencyMs := 2000,
     rd_Tokens := \<lparr> tk_InputTokens = 10, tk_OutputTokens = 5, tk_ReasoningTokens = 0, tk_CachedTokens = 2,
       tk_CacheReadTokens = 2, tk_CacheTokens = 5, tk_CacheWriteTokens = 3, tk_TotalTokens = 20 \<rparr> \<rparr>"

text \<open>The client saw the OpenAI form of the response, 100 ms after the native record was complete.\<close>

definition sample_fallback :: RequestDetail where
  "sample_fallback = sample_native\<lparr> rd_AuthID := [], rd_LatencyMs := 0, rd_Provider := ''openai-compatible'',
     rd_ExecutorType := responseInterceptorFallbackExecutor,
     rd_Timestamp := \<lparr> t_ns = 62100000000, t_off = 0 \<rparr>,
     rd_Tokens := \<lparr> tk_InputTokens = 15, tk_OutputTokens = 5, tk_ReasoningTokens = 0, tk_CachedTokens = 2,
       tk_CacheReadTokens = 2, tk_CacheTokens = 2, tk_CacheWriteTokens = 0, tk_TotalTokens = 20 \<rparr> \<rparr>"

abbreviation observed :: "RequestDetail \<Rightarrow> protocolCorrelationObservation" where
  "observed d \<equiv> observe_ref \<lparr> fr_apiName = ''api'', fr_modelName = ''m'', fr_index = 0, fr_detail = d \<rparr>"

lemma sample_edge: "map_option er_Distance (protocolCorrelationEdge (observed sample_fallback) (observed sample_native)) = Some 100000000"
  by code_simp

lemma edge_sound_witness:
  "(\<exists>e. protocolCorrelationEdge (observed sample_fallback) (observed sample_native) = Some e \<and> er_Distance e \<le> 5 * time_Second) \<and>
   ob_Role (observed sample_fallback) = RoleFallback \<and> ob_Role (observed sample_native) = RoleNative"
proof -
  obtain e where e: "protocolCorrelationEdge (observed sample_fallback) (observed sample_native) = Some e"
    using sample_edge by auto
  show ?thesis using edge_sound [OF e] e by auto
qed

definition observed_refs :: "protocolFallbackDetailRef list" where
  "observed_refs = [\<lparr> fr_apiName = ''api'', fr_modelName = ''m'', fr_index = 0, fr_detail = sample_fallback \<rparr>,
     \<lparr> fr_apiName = ''api'', fr_modelName = ''m'', fr_index = 0, fr_detail = sample_native \<rparr>]"

lemma candidates_are_all_edges_witness:
  "\<exists>e. candidate_edge (candidatesByPartition (map observe_ref observed_refs))
     (protocolObservationPartitionKey (observed sample_fallback)) 0 1 = Some e \<and> er_Distance e = 100000000"
proof -
  obtain e where e: "protocolCorrelationEdge (observed sample_fallback) (observed sample_native) = Some e" "er_Distance e = 100000000"
    using sample_edge by auto
  have a: "list_all ascii_names (map observe_ref observed_refs)" by code_simp
  have r: "map observe_ref observed_refs ! 0 = observed sample_fallback" "map observe_ref observed_refs ! 1 = observed sample_native"
    "length observed_refs = 2" by (simp_all add: observed_refs_def)
  show ?thesis
    using candidates_are_all_edges [OF a, of "protocolObservationPartitionKey (observed sample_fallback)" 0 1 e] e r by simp
qed

text \<open>
  A model name with the long s and one with \<open>s\<close>: the edge function joins the two records, and the
  search does not find them, because their partition keys differ.
\<close>

definition long_s_fallback :: RequestDetail where
  "long_s_fallback = sample_fallback\<lparr> rd_RequestedModel := [CHR 0xC5, CHR 0xBF] \<rparr>"

definition short_s_native :: RequestDetail where
  "short_s_native = sample_native\<lparr> rd_RequestedModel := ''s'' \<rparr>"

definition long_s_refs :: "protocolFallbackDetailRef list" where
  "long_s_refs = [\<lparr> fr_apiName = ''api'', fr_modelName = ''m'', fr_index = 0, fr_detail = long_s_fallback \<rparr>,
     \<lparr> fr_apiName = ''api'', fr_modelName = ''m'', fr_index = 0, fr_detail = short_s_native \<rparr>]"

lemma long_s_edge: "map_option er_Distance (protocolCorrelationEdge (observed long_s_fallback) (observed short_s_native)) = Some 100000000"
  by code_simp

lemma long_s_keys: "protocolObservationPartitionKey (observed long_s_fallback) \<noteq> protocolObservationPartitionKey (observed short_s_native)"
  by code_simp

theorem long_s_edge_is_missed:
  "protocolCorrelationEdge (map observe_ref long_s_refs ! 0) (map observe_ref long_s_refs ! 1) \<noteq> None \<and>
   candidate_edge (candidatesByPartition (map observe_ref long_s_refs)) p 0 1 = None"
proof
  have r: "map observe_ref long_s_refs ! 0 = observed long_s_fallback" "map observe_ref long_s_refs ! 1 = observed short_s_native"
    by (simp_all add: long_s_refs_def)
  show "protocolCorrelationEdge (map observe_ref long_s_refs ! 0) (map observe_ref long_s_refs ! 1) \<noteq> None"
    using long_s_edge unfolding r by auto
  show "candidate_edge (candidatesByPartition (map observe_ref long_s_refs)) p 0 1 = None"
    using candidates_exact [of long_s_refs p 0 1] long_s_keys unfolding r by (metis option.exhaust)
qed

end
