(* ===== verification/Matching.thy ===== *)
theory Matching
  imports CorrelationEdge "HOL-Library.While_Combinator"
begin

text \<open>
  The assignment of fallback records to native records (\<open>protocolMinimumCostMatching\<close> in
  \<open>go/protocol_fallback.go\<close>): a minimum-cost flow by successive shortest paths, where each path
  is found with a queue.  The slices that are indexed by a node are functions; the slice of edges of
  a node is a list.  Costs are triples in lexicographic order; their \<open>int64\<close> components stay far
  from the bounds (a strength is at most 270, a distance at most five seconds, and there is one
  of each per record).
\<close>

section \<open>Costs\<close>

datatype protocolFlowCost = FlowCost (fc_strength: int) (fc_distance: int) (fc_tie: int)

text \<open>
  \<open>add\<close> and \<open>neg\<close> are the group operations and \<open>protocolFlowCostLess\<close> is the strict order of
  an ordered group, so the library's lemmas apply to costs.
\<close>

definition protocolFlowCostLess :: "protocolFlowCost \<Rightarrow> protocolFlowCost \<Rightarrow> bool" where
  "protocolFlowCostLess left right =
     (if fc_strength left \<noteq> fc_strength right then fc_strength left < fc_strength right
      else if fc_distance left \<noteq> fc_distance right then fc_distance left < fc_distance right
      else fc_tie left < fc_tie right)"

instantiation protocolFlowCost :: linordered_ab_group_add
begin

definition zero_cost: "0 = FlowCost 0 0 0"
definition plus_cost: "a + b = FlowCost (fc_strength a + fc_strength b) (fc_distance a + fc_distance b) (fc_tie a + fc_tie b)"
definition uminus_cost: "- a = FlowCost (- fc_strength a) (- fc_distance a) (- fc_tie a)"
definition minus_cost: "(a :: protocolFlowCost) - b = a + - b"
definition less_cost: "a < b \<longleftrightarrow> protocolFlowCostLess a b"
definition less_eq_cost: "a \<le> b \<longleftrightarrow> a = b \<or> protocolFlowCostLess a b"

instance
proof
  fix a b c :: protocolFlowCost
  show "a + b + c = a + (b + c)" "a + b = b + a" "0 + a = a" "- a + a = 0" "a - b = a + - b"
    by (simp_all add: zero_cost plus_cost uminus_cost minus_cost)
  show "(a < b) = (a \<le> b \<and> \<not> b \<le> a)" "a \<le> a" "a \<le> b \<Longrightarrow> b \<le> c \<Longrightarrow> a \<le> c" "a \<le> b \<Longrightarrow> b \<le> a \<Longrightarrow> a = b"
    "a \<le> b \<or> b \<le> a" "a \<le> b \<Longrightarrow> c + a \<le> c + b"
    by (cases a; cases b; cases c; auto simp: less_cost less_eq_cost protocolFlowCostLess_def plus_cost split: if_splits)+
qed

end

section \<open>The graph\<close>

record protocolFlowEdge =
  fe_to :: nat
  fe_rev :: nat
  fe_capacity :: int
  fe_cost :: protocolFlowCost
  fe_nativePos :: int

type_synonym flow_graph = "protocolFlowEdge list list"

text \<open>Both edges are made from the graph before either is appended.\<close>

definition addProtocolFlowEdge :: "nat \<Rightarrow> nat \<Rightarrow> protocolFlowCost \<Rightarrow> int \<Rightarrow> flow_graph \<Rightarrow> flow_graph" where
  "addProtocolFlowEdge from' to cost nativePos graph =
     (let forward = \<lparr> fe_to = to, fe_rev = length (graph ! to), fe_capacity = 1, fe_cost = cost,
            fe_nativePos = nativePos \<rparr>;
          backward = \<lparr> fe_to = from', fe_rev = length (graph ! from'), fe_capacity = 0, fe_cost = - cost,
            fe_nativePos = -1 \<rparr>;
          graph = graph[from' := graph ! from' @ [forward]]
      in graph[to := graph ! to @ [backward]])"

text \<open>The order of \<open>protocolStableOrderLess\<close> as a sort key.\<close>

type_synonym order_key = "int \<times> int \<times> string \<times> string \<times> string \<times> string \<times> string \<times> int"

definition stable_order :: "protocolCorrelationObservation \<Rightarrow> order_key" where
  "stable_order ob = (let o' = ob_StableOrder ob in
     (t_ns (so_Timestamp o'), t_ns (so_Completion o'), so_API o', so_Model o', so_Provider o', so_Auth o',
      so_Signature o', so_Index o'))"

definition edge_cost :: "protocolCorrelationEdgeResult \<Rightarrow> nat \<Rightarrow> protocolFlowCost" where
  "edge_cost e rank = FlowCost (- er_Strength e) (er_Distance e) (int rank)"

text \<open>The positions of the candidates of a fallback in \<open>natives\<close>, in stable order.\<close>

fun position_in :: "nat list \<Rightarrow> nat \<Rightarrow> nat option" where
  "position_in [] x = None"
| "position_in (y # ys) x = (if y = x then Some 0 else map_option Suc (position_in ys x))"

definition nativePositions :: "nat list \<Rightarrow> candidate_set \<Rightarrow> protocolCorrelationObservation list \<Rightarrow> nat \<Rightarrow> nat list" where
  "nativePositions natives candidates obs fallbackIdx =
     sort_key (\<lambda>pos. stable_order (obs ! (natives ! pos)))
       (List.map_filter (position_in natives) (go_keys (go_getd [] candidates fallbackIdx)))"

definition fallback_edges :: "nat list \<Rightarrow> nat list \<Rightarrow> candidate_set \<Rightarrow> protocolCorrelationObservation list \<Rightarrow>
    nat \<Rightarrow> flow_graph \<Rightarrow> flow_graph" where
  "fallback_edges fallbacks natives candidates obs fallbackPos graph =
     (let fallbackIdx = fallbacks ! fallbackPos;
          nativeStart = 1 + length fallbacks
      in fold (\<lambda>(rank, nativePos) graph.
           case go_get (go_getd [] candidates fallbackIdx) (natives ! nativePos) of
             None \<Rightarrow> graph
           | Some edge \<Rightarrow> addProtocolFlowEdge (1 + fallbackPos) (nativeStart + nativePos) (edge_cost edge rank)
               (int nativePos) graph)
         (enumerate 0 (nativePositions natives candidates obs fallbackIdx)) graph)"

definition initial_graph :: "nat list \<Rightarrow> nat list \<Rightarrow> candidate_set \<Rightarrow> protocolCorrelationObservation list \<Rightarrow> flow_graph" where
  "initial_graph fallbacks natives candidates obs =
     (let source = 0;
          fallbackStart = 1;
          nativeStart = fallbackStart + length fallbacks;
          sink = nativeStart + length natives;
          graph = replicate (sink + 1) [];
          graph = fold (\<lambda>pos. addProtocolFlowEdge source (fallbackStart + pos) 0 (-1)) [0..<length fallbacks] graph;
          graph = fold (\<lambda>pos. addProtocolFlowEdge (nativeStart + pos) sink 0 (-1)) [0..<length natives] graph
      in fold (fallback_edges fallbacks natives candidates obs) [0..<length fallbacks] graph)"

section \<open>Shortest paths\<close>

record search =
  se_dist :: "nat \<Rightarrow> protocolFlowCost"
  se_previousNode :: "nat \<Rightarrow> nat option"
  se_previousEdge :: "nat \<Rightarrow> nat"
  se_haveDistance :: "nat \<Rightarrow> bool"
  se_queue :: "nat list"
  se_inQueue :: "nat \<Rightarrow> bool"

definition start_search :: "nat \<Rightarrow> search" where
  "start_search source = \<lparr> se_dist = \<lambda>_. 0, se_previousNode = \<lambda>_. None, se_previousEdge = \<lambda>_. 0,
     se_haveDistance = (\<lambda>_. False)(source := True), se_queue = [source], se_inQueue = (\<lambda>_. False)(source := True) \<rparr>"

text \<open>One edge of the loop over the edges of a node.\<close>

definition relax :: "nat \<Rightarrow> nat \<times> protocolFlowEdge \<Rightarrow> search \<Rightarrow> search" where
  "relax node = (\<lambda>(edgeIndex, edge) st.
     if fe_capacity edge \<le> 0 then st
     else let candidate = se_dist st node + fe_cost edge;
              to = fe_to edge
          in if \<not> se_haveDistance st to \<or> protocolFlowCostLess candidate (se_dist st to)
             then let st = st\<lparr> se_dist := (se_dist st)(to := candidate),
                               se_haveDistance := (se_haveDistance st)(to := True),
                               se_previousNode := (se_previousNode st)(to := Some node),
                               se_previousEdge := (se_previousEdge st)(to := edgeIndex) \<rparr>
                  in if se_inQueue st to then st
                     else st\<lparr> se_queue := se_queue st @ [to], se_inQueue := (se_inQueue st)(to := True) \<rparr>
             else st)"

definition visit :: "flow_graph \<Rightarrow> search \<Rightarrow> search" where
  "visit graph st =
     (let node = hd (se_queue st);
          st = st\<lparr> se_queue := tl (se_queue st), se_inQueue := (se_inQueue st)(node := False) \<rparr>
      in fold (relax node) (enumerate 0 (graph ! node)) st)"

definition shortest_paths :: "nat \<Rightarrow> flow_graph \<Rightarrow> search option" where
  "shortest_paths source graph = while_option (\<lambda>st. se_queue st \<noteq> []) (visit graph) (start_search source)"

section \<open>Augmentation\<close>

definition set_capacity :: "nat \<Rightarrow> nat \<Rightarrow> int \<Rightarrow> flow_graph \<Rightarrow> flow_graph" where
  "set_capacity node i delta graph =
     graph[node := (graph ! node)[i := (graph ! node ! i)\<lparr> fe_capacity := fe_capacity (graph ! node ! i) + delta \<rparr>]]"

definition push_edge :: "nat \<Rightarrow> nat \<Rightarrow> nat \<Rightarrow> flow_graph \<Rightarrow> flow_graph" where
  "push_edge from' i node graph =
     (let edge = graph ! from' ! i in set_capacity node (fe_rev edge) 1 (set_capacity from' i (-1) graph))"

text \<open>The walk from the sink to the source along the previous nodes.\<close>

partial_function (option) augment :: "search \<Rightarrow> nat \<Rightarrow> nat \<Rightarrow> flow_graph \<Rightarrow> flow_graph option" where
  "augment st source node graph =
     (if node = source then Some graph
      else case se_previousNode st node of
        None \<Rightarrow> Some graph
      | Some from' \<Rightarrow> augment st source from' (push_edge from' (se_previousEdge st node) node graph))"

partial_function (option) augment_all :: "nat \<Rightarrow> nat \<Rightarrow> flow_graph \<Rightarrow> flow_graph option" where
  "augment_all source sink graph =
     (case shortest_paths source graph of
        None \<Rightarrow> None
      | Some st \<Rightarrow>
          if \<not> se_haveDistance st sink then Some graph
          else case augment st source sink graph of
            None \<Rightarrow> None
          | Some graph \<Rightarrow> augment_all source sink graph)"

section \<open>The matching\<close>

definition matched_of :: "nat list \<Rightarrow> nat list \<Rightarrow> flow_graph \<Rightarrow> (nat, nat) gomap" where
  "matched_of fallbacks natives graph =
     fold (\<lambda>pos matched.
         case find (\<lambda>e. fe_nativePos e \<ge> 0 \<and> fe_capacity e = 0) (graph ! (1 + pos)) of
           None \<Rightarrow> matched
         | Some e \<Rightarrow> go_put (fallbacks ! pos) (natives ! nat (fe_nativePos e)) matched)
       [0..<length fallbacks] []"

definition protocolMinimumCostMatching ::
  "nat list \<Rightarrow> nat list \<Rightarrow> candidate_set \<Rightarrow> protocolCorrelationObservation list \<Rightarrow> (nat, nat) gomap option" where
  "protocolMinimumCostMatching fallbacks natives candidates obs =
     (if fallbacks = [] \<or> natives = [] then Some []
      else let sink = 1 + length fallbacks + length natives
           in map_option (matched_of fallbacks natives)
                (augment_all 0 sink (initial_graph fallbacks natives candidates obs)))"

end
