(* ===== verification/ShortestPaths.thy ===== *)
theory ShortestPaths
  imports Matching
begin

text \<open>
  The search for a shortest path in a graph without a negative cycle: it ends, the distances it
  finds are consistent, and the previous nodes form paths from the source.  That there is no
  negative cycle is given by potentials: a number for each node that is reachable, such that no
  edge with capacity left is cheaper than the difference of its ends.
\<close>

definition residual :: "flow_graph \<Rightarrow> nat \<Rightarrow> nat \<Rightarrow> bool" where
  "residual g u i \<longleftrightarrow> u < length g \<and> i < length (g ! u) \<and> 0 < fe_capacity (g ! u ! i)"

abbreviation target :: "flow_graph \<Rightarrow> nat \<Rightarrow> nat \<Rightarrow> nat" where
  "target g u i \<equiv> fe_to (g ! u ! i)"

abbreviation cost :: "flow_graph \<Rightarrow> nat \<Rightarrow> nat \<Rightarrow> protocolFlowCost" where
  "cost g u i \<equiv> fe_cost (g ! u ! i)"

definition feasible :: "flow_graph \<Rightarrow> nat \<Rightarrow> nat set \<Rightarrow> (nat \<Rightarrow> protocolFlowCost) \<Rightarrow> bool" where
  "feasible g s R pot \<longleftrightarrow> s \<in> R \<and> R \<subseteq> {..<length g} \<and>
     (\<forall>u i. u \<in> R \<and> residual g u i \<longrightarrow> target g u i \<in> R \<and> pot (target g u i) \<le> pot u + cost g u i)"

lemma feasibleD:
  "feasible g s R pot \<Longrightarrow> u \<in> R \<Longrightarrow> residual g u i \<Longrightarrow> target g u i \<in> R \<and> pot (target g u i) \<le> pot u + cost g u i"
  by (simp add: feasible_def)

section \<open>How a node was reached\<close>

text \<open>A list of edges, the last one first, that leads from the source to a node.\<close>

fun leads_to :: "flow_graph \<Rightarrow> nat \<Rightarrow> (nat \<times> nat) list \<Rightarrow> nat \<Rightarrow> bool" where
  "leads_to g s [] v \<longleftrightarrow> v = s"
| "leads_to g s ((u, i) # es) v \<longleftrightarrow> residual g u i \<and> target g u i = v \<and> leads_to g s es u"

fun path_cost :: "flow_graph \<Rightarrow> (nat \<times> nat) list \<Rightarrow> protocolFlowCost" where
  "path_cost g [] = 0"
| "path_cost g ((u, i) # es) = path_cost g es + cost g u i"

text \<open>No distance on the way is larger than the way so far.\<close>

fun slack :: "flow_graph \<Rightarrow> search \<Rightarrow> (nat \<times> nat) list \<Rightarrow> nat \<Rightarrow> bool" where
  "slack g st [] v \<longleftrightarrow> se_haveDistance st v \<and> se_dist st v \<le> 0"
| "slack g st ((u, i) # es) v \<longleftrightarrow> se_haveDistance st v \<and> se_dist st v \<le> path_cost g ((u, i) # es) \<and> slack g st es u"

definition reached :: "flow_graph \<Rightarrow> nat \<Rightarrow> search \<Rightarrow> nat \<Rightarrow> (nat \<times> nat) list \<Rightarrow> bool" where
  "reached g s st v es \<longleftrightarrow> leads_to g s es v \<and> distinct (v # map fst es) \<and> se_dist st v = path_cost g es \<and> slack g st es v"

text \<open>The previous nodes, from a node to the source.\<close>

fun branch :: "nat \<Rightarrow> search \<Rightarrow> nat list \<Rightarrow> bool" where
  "branch s st [] \<longleftrightarrow> False"
| "branch s st [v] \<longleftrightarrow> v = s"
| "branch s st (v # u # us) \<longleftrightarrow> v \<noteq> s \<and> se_previousNode st v = Some u \<and> branch s st (u # us)"

definition previous_ok :: "flow_graph \<Rightarrow> nat \<Rightarrow> search \<Rightarrow> nat \<Rightarrow> bool" where
  "previous_ok g s st v \<longleftrightarrow> v = s \<or> (\<exists>u. se_previousNode st v = Some u \<and> se_haveDistance st u \<and>
     residual g u (se_previousEdge st v) \<and> target g u (se_previousEdge st v) = v \<and>
     se_dist st u + cost g u (se_previousEdge st v) \<le> se_dist st v)"

definition search_ok :: "flow_graph \<Rightarrow> nat \<Rightarrow> nat set \<Rightarrow> search \<Rightarrow> bool" where
  "search_ok g s R st \<longleftrightarrow>
     se_haveDistance st s \<and> se_dist st s = 0 \<and> se_previousNode st s = None \<and>
     (\<forall>v. se_haveDistance st v \<longrightarrow> v \<in> R \<and> previous_ok g s st v \<and> (\<exists>us. branch s st (v # us)) \<and>
        (\<exists>es. reached g s st v es)) \<and>
     (\<forall>v. se_inQueue st v \<longleftrightarrow> v \<in> set (se_queue st)) \<and> (\<forall>v\<in>set (se_queue st). se_haveDistance st v) \<and>
     distinct (se_queue st)"

lemma slack_have: "slack g st es v \<Longrightarrow> se_haveDistance st v"
  by (cases "(g, st, es, v)" rule: slack.cases) auto

lemma slack_dist: "slack g st es v \<Longrightarrow> se_dist st v \<le> path_cost g es"
  by (cases "(g, st, es, v)" rule: slack.cases) auto

text \<open>Reduced distances never fall along a way: there is no negative cycle.\<close>

lemma slack_reduced:
  assumes f: "feasible g s R pot" and h: "\<And>v. se_haveDistance st v \<Longrightarrow> v \<in> R"
  shows "leads_to g s es u \<Longrightarrow> slack g st es u \<Longrightarrow> w \<in> set (u # map fst es) \<Longrightarrow>
    se_haveDistance st w \<and> se_dist st w - pot w \<le> path_cost g es - pot u"
proof (induction es arbitrary: u)
  case Nil
  then show ?case by simp
next
  case (Cons e es)
  obtain x i where e: "e = (x, i)" by (cases e)
  show ?case
  proof (cases "w = u")
    case True
    then show ?thesis using Cons.prems slack_dist [of g st "e # es" u] slack_have [of g st "e # es" u] by simp
  next
    case False
    have r: "residual g x i" "target g x i = u" "leads_to g s es x" "slack g st es x"
      using Cons.prems by (simp_all add: e)
    have "w \<in> set (x # map fst es)" using Cons.prems False by (simp add: e)
    from Cons.IH [OF r(3,4) this] have w: "se_haveDistance st w" "se_dist st w - pot w \<le> path_cost g es - pot x" by simp_all
    have "pot u \<le> pot x + cost g x i" using feasibleD [OF f h [OF slack_have [OF r(4)]] r(1)] r(2) by simp
    then have "path_cost g es - pot x \<le> path_cost g (e # es) - pot u" by (simp add: e algebra_simps)
    then show ?thesis using w by (meson order_trans)
  qed
qed

lemma branch_reduced:
  assumes f: "feasible g s R pot" and ok: "search_ok g s R st"
  shows "branch s st (v # us) \<Longrightarrow> se_haveDistance st v \<Longrightarrow> w \<in> set (v # us) \<Longrightarrow>
    se_haveDistance st w \<and> se_dist st w - pot w \<le> se_dist st v - pot v"
proof (induction us arbitrary: v)
  case Nil
  then show ?case by simp
next
  case (Cons u us)
  show ?case
  proof (cases "w = v")
    case True
    then show ?thesis using Cons.prems by simp
  next
    case False
    have p: "v \<noteq> s" "se_previousNode st v = Some u" "branch s st (u # us)" using Cons.prems by simp_all
    have "previous_ok g s st v" using ok Cons.prems(2) by (simp add: search_ok_def)
    then have u: "se_haveDistance st u" "residual g u (se_previousEdge st v)" "target g u (se_previousEdge st v) = v"
      "se_dist st u + cost g u (se_previousEdge st v) \<le> se_dist st v" using p by (auto simp: previous_ok_def)
    have "w \<in> set (u # us)" using Cons.prems False by simp
    from Cons.IH [OF p(3) u(1) this] have w: "se_haveDistance st w" "se_dist st w - pot w \<le> se_dist st u - pot u"
      by simp_all
    have "u \<in> R" using ok u(1) by (simp add: search_ok_def)
    then have "pot v \<le> pot u + cost g u (se_previousEdge st v)" using feasibleD [OF f _ u(2)] u(3) by metis
    then have "se_dist st u + pot v \<le> se_dist st u + (pot u + cost g u (se_previousEdge st v))" by (rule add_left_mono)
    also have "\<dots> = pot u + (se_dist st u + cost g u (se_previousEdge st v))" by (simp add: ac_simps)
    also have "\<dots> \<le> pot u + se_dist st v" using u(4) by (rule add_left_mono)
    finally have "se_dist st u - pot u \<le> se_dist st v - pot v" by (simp add: algebra_simps)
    then show ?thesis using w by (meson order_trans)
  qed
qed

section \<open>One improvement\<close>

definition improved :: "nat \<Rightarrow> nat \<Rightarrow> nat \<Rightarrow> protocolFlowCost \<Rightarrow> search \<Rightarrow> search" where
  "improved node i t c st =
     (let st = st\<lparr> se_dist := (se_dist st)(t := c), se_haveDistance := (se_haveDistance st)(t := True),
                   se_previousNode := (se_previousNode st)(t := Some node), se_previousEdge := (se_previousEdge st)(t := i) \<rparr>
      in if se_inQueue st t then st else st\<lparr> se_queue := se_queue st @ [t], se_inQueue := (se_inQueue st)(t := True) \<rparr>)"

definition improves :: "protocolFlowCost \<Rightarrow> nat \<Rightarrow> search \<Rightarrow> bool" where
  "improves c t st \<longleftrightarrow> \<not> se_haveDistance st t \<or> c < se_dist st t"

lemma relax_cases:
  "relax node (i, e) st =
     (if 0 < fe_capacity e \<and> improves (se_dist st node + fe_cost e) (fe_to e) st
      then improved node i (fe_to e) (se_dist st node + fe_cost e) st else st)"
  by (auto simp: relax_def improved_def improves_def Let_def less_cost)

lemma improved_simps [simp]:
  "se_dist (improved node i t c st) = (se_dist st)(t := c)"
  "se_haveDistance (improved node i t c st) = (se_haveDistance st)(t := True)"
  "se_previousNode (improved node i t c st) = (se_previousNode st)(t := Some node)"
  "se_previousEdge (improved node i t c st) = (se_previousEdge st)(t := i)"
  by (simp_all add: improved_def Let_def)

lemma improved_queue:
  assumes "\<And>v. se_inQueue st v \<longleftrightarrow> v \<in> set (se_queue st)"
  shows "set (se_queue (improved node i t c st)) = insert t (set (se_queue st))"
    "distinct (se_queue st) \<Longrightarrow> distinct (se_queue (improved node i t c st))"
    "se_inQueue (improved node i t c st) v \<longleftrightarrow> v \<in> insert t (set (se_queue st))"
  using assms by (auto simp: improved_def Let_def)

lemma branch_source: "branch s st us \<Longrightarrow> s \<in> set us"
  by (induction s st us rule: branch.induct) auto

lemma branch_cong:
  "branch s st us \<Longrightarrow> (\<And>v. v \<in> set us \<Longrightarrow> se_previousNode st' v = se_previousNode st v) \<Longrightarrow> branch s st' us"
  by (induction s st us rule: branch.induct) auto

lemma slack_mono:
  assumes "\<And>v. se_haveDistance st v \<Longrightarrow> se_haveDistance st' v \<and> se_dist st' v \<le> se_dist st v"
  shows "slack g st es v \<Longrightarrow> slack g st' es v"
  using assms by (induction es arbitrary: v) (auto, (meson order_trans)+)

text \<open>A branch through a node with a new previous node goes on along the new branch.\<close>

lemma branch_redirect:
  assumes "branch s st' (t # ts)" and "\<And>v. v \<noteq> t \<Longrightarrow> se_previousNode st' v = se_previousNode st v"
  shows "branch s st (v # us) \<Longrightarrow> \<exists>us'. branch s st' (v # us')"
proof (induction us arbitrary: v)
  case Nil
  then show ?case by (metis branch.simps(2))
next
  case (Cons u us)
  show ?case
  proof (cases "v = t")
    case True
    then show ?thesis using assms(1) by blast
  next
    case False
    obtain us' where "branch s st' (u # us')" using Cons by auto
    then have "branch s st' (v # u # us')" using Cons.prems False assms(2) by simp
    then show ?thesis by blast
  qed
qed

lemma search_okD:
  assumes "search_ok g s R st"
  shows "se_haveDistance st s" "se_dist st s = 0" "se_previousNode st s = None"
    "se_haveDistance st v \<Longrightarrow> v \<in> R" "se_haveDistance st v \<Longrightarrow> previous_ok g s st v"
    "se_haveDistance st v \<Longrightarrow> \<exists>us. branch s st (v # us)" "se_haveDistance st v \<Longrightarrow> \<exists>es. reached g s st v es"
    "se_inQueue st v \<longleftrightarrow> v \<in> set (se_queue st)" "v \<in> set (se_queue st) \<Longrightarrow> se_haveDistance st v"
    "distinct (se_queue st)"
  using assms by (auto simp: search_ok_def)

text \<open>An improvement never goes back to a node on the way: that would be a negative cycle.\<close>

lemma improves_fresh:
  assumes f: "feasible g s R pot" and ok: "search_ok g s R st" and r: "residual g node i"
    and h: "se_haveDistance st node" and imp: "improves (se_dist st node + cost g node i) (target g node i) st"
  shows "branch s st (node # us) \<Longrightarrow> target g node i \<notin> set (node # us)"
    "reached g s st node es \<Longrightarrow> target g node i \<notin> set (node # map fst es)"
proof -
  let ?t = "target g node i"
  have n: "node \<in> R" using search_okD(4) [OF ok h] .
  have step: "pot ?t \<le> pot node + cost g node i" using feasibleD [OF f n r] by simp
  have no: False if "se_haveDistance st ?t" "se_dist st ?t - pot ?t \<le> se_dist st node - pot node"
  proof -
    have "se_dist st ?t \<le> se_dist st node - pot node + pot ?t" using that(2) by (simp add: algebra_simps)
    also have "\<dots> \<le> se_dist st node - pot node + (pot node + cost g node i)" using step by (rule add_left_mono)
    also have "\<dots> = se_dist st node + cost g node i" by (simp add: algebra_simps)
    finally show False using imp that(1) by (simp add: improves_def)
  qed
  show "?t \<notin> set (node # us)" if "branch s st (node # us)"
    using branch_reduced [OF f ok that h] no by blast
  show "?t \<notin> set (node # map fst es)" if "reached g s st node es"
    using slack_reduced [OF f search_okD(4) [OF ok]] that no unfolding reached_def by metis
qed

lemma improved_ok:
  assumes f: "feasible g s R pot" and ok: "search_ok g s R st" and r: "residual g node i"
    and h: "se_haveDistance st node" and imp: "improves (se_dist st node + cost g node i) (target g node i) st"
  defines "st' \<equiv> improved node i (target g node i) (se_dist st node + cost g node i) st"
  shows "search_ok g s R st' \<and> target g node i \<noteq> node \<and> target g node i \<in> R"
proof -
  let ?t = "target g node i"
  let ?c = "se_dist st node + cost g node i"
  obtain us where us: "branch s st (node # us)" using search_okD(6) [OF ok h] ..
  obtain es where es: "reached g s st node es" using search_okD(7) [OF ok h] ..
  note fresh = improves_fresh(1) [OF f ok r h imp us] improves_fresh(2) [OF f ok r h imp es]
  have ts: "?t \<noteq> s" "?t \<noteq> node" using branch_source [OF us] fresh by auto
  have tR: "?t \<in> R" using feasibleD [OF f search_okD(4) [OF ok h] r] by simp
  have mono: "se_haveDistance st' v \<and> se_dist st' v \<le> se_dist st v" if "se_haveDistance st v" for v
    using that imp by (auto simp: st'_def improves_def)
  have b: "branch s st' (node # us)" by (rule branch_cong [OF us]) (use fresh(1) in \<open>auto simp: st'_def\<close>)
  then have bt: "branch s st' (?t # node # us)" using ts by (simp add: st'_def)
  have "v \<in> R \<and> previous_ok g s st' v \<and> (\<exists>us. branch s st' (v # us)) \<and> (\<exists>es. reached g s st' v es)"
    if v: "se_haveDistance st' v" for v
  proof (cases "v = ?t")
    case True
    have "previous_ok g s st' ?t" using r h ts by (simp add: previous_ok_def st'_def)
    moreover have "reached g s st' ?t ((node, i) # es)"
      using es fresh(2) r slack_mono [OF mono, of g es node] by (auto simp: reached_def st'_def)
    ultimately show ?thesis using True tR bt by blast
  next
    case False
    then have v: "se_haveDistance st v" using v by (simp add: st'_def)
    have "previous_ok g s st' v"
    proof (cases "v = s")
      case True
      then show ?thesis by (simp add: previous_ok_def)
    next
      case vs: False
      then obtain u where u: "se_previousNode st v = Some u" "se_haveDistance st u" "residual g u (se_previousEdge st v)"
        "target g u (se_previousEdge st v) = v" "se_dist st u + cost g u (se_previousEdge st v) \<le> se_dist st v"
        using search_okD(5) [OF ok v] by (auto simp: previous_ok_def)
      have "se_dist st' u + cost g u (se_previousEdge st v) \<le> se_dist st u + cost g u (se_previousEdge st v)"
        using mono [OF u(2)] by (intro add_right_mono) simp
      then have "se_dist st' u + cost g u (se_previousEdge st v) \<le> se_dist st v" using u(5) by (rule order_trans)
      moreover have "se_previousNode st' v = Some u" "se_previousEdge st' v = se_previousEdge st v" "se_dist st' v = se_dist st v"
        using u(1) False by (simp_all add: st'_def)
      ultimately show ?thesis using u mono [OF u(2)] unfolding previous_ok_def by metis
    qed
    moreover have "\<exists>us. branch s st' (v # us)"
      using search_okD(6) [OF ok v] branch_redirect [OF bt, of st v] by (auto simp: st'_def)
    moreover have "\<exists>es. reached g s st' v es"
      using search_okD(7) [OF ok v] slack_mono [OF mono] False unfolding reached_def by (auto simp: st'_def)
    ultimately show ?thesis using search_okD(4) [OF ok v] by blast
  qed
  moreover have "\<forall>v. se_inQueue st' v \<longleftrightarrow> v \<in> set (se_queue st')" "\<forall>v\<in>set (se_queue st'). se_haveDistance st' v"
    "distinct (se_queue st')"
    using improved_queue [OF search_okD(8) [OF ok]] search_okD(9,10) [OF ok] by (auto simp: st'_def)
  ultimately show ?thesis
    using search_okD(1-3) [OF ok] ts tR by (simp add: search_ok_def st'_def)
qed

section \<open>The search ends\<close>

text \<open>A distance is always the cost of one of the finitely many paths without a repeated edge.\<close>

definition all_edges :: "flow_graph \<Rightarrow> (nat \<times> nat) set" where
  "all_edges g = (SIGMA u:{..<length g}. {..<length (g ! u)})"

definition path_costs :: "flow_graph \<Rightarrow> protocolFlowCost set" where
  "path_costs g = path_cost g ` {es. set es \<subseteq> all_edges g \<and> distinct es}"

lemma finite_path_costs: "finite (path_costs g)"
proof -
  have "finite (all_edges g)" by (simp add: all_edges_def)
  then have "finite {es. set es \<subseteq> all_edges g \<and> distinct es}" by (rule finite_subset_distinct)
  then show ?thesis by (simp add: path_costs_def)
qed

lemma leads_to_edges: "leads_to g s es v \<Longrightarrow> set es \<subseteq> all_edges g"
proof (induction es arbitrary: v)
  case (Cons e es)
  obtain u i where e: "e = (u, i)" by (cases e)
  then have "set es \<subseteq> all_edges g" using Cons.IH [of u] Cons.prems by simp
  then show ?case using Cons.prems by (simp add: e residual_def all_edges_def)
qed simp

lemma reached_cost: "reached g s st v es \<Longrightarrow> se_dist st v \<in> path_costs g"
  using leads_to_edges distinct_map [of fst es] by (auto simp: reached_def path_costs_def)

definition rank :: "flow_graph \<Rightarrow> search \<Rightarrow> nat \<Rightarrow> nat" where
  "rank g st v = (if se_haveDistance st v then card {c \<in> path_costs g. c < se_dist st v} else Suc (card (path_costs g)))"

definition ranks :: "flow_graph \<Rightarrow> search \<Rightarrow> nat" where
  "ranks g st = (\<Sum>v<length g. rank g st v)"

lemma rank_improved:
  assumes "improves c t st" "c \<in> path_costs g"
  shows "rank g (improved node i t c st) t < rank g st t"
proof (cases "se_haveDistance st t")
  case True
  then have "c < se_dist st t" using assms(1) by (simp add: improves_def)
  then have "{x \<in> path_costs g. x < c} \<subset> {x \<in> path_costs g. x < se_dist st t}" using assms(2) by auto
  then show ?thesis using True by (simp add: rank_def psubset_card_mono finite_path_costs)
next
  case False
  have "card {x \<in> path_costs g. x < c} \<le> card (path_costs g)" by (rule card_mono) (auto simp: finite_path_costs)
  then show ?thesis using False by (simp add: rank_def)
qed

lemma ranks_improved:
  assumes "improves c t st" "c \<in> path_costs g" "t < length g"
  shows "ranks g (improved node i t c st) < ranks g st"
  unfolding ranks_def
proof (rule sum_strict_mono_ex1)
  show "\<forall>v\<in>{..<length g}. rank g (improved node i t c st) v \<le> rank g st v"
    using rank_improved [OF assms(1,2), of node i] by (auto simp: rank_def)
  show "\<exists>v\<in>{..<length g}. rank g (improved node i t c st) v < rank g st v"
    using rank_improved [OF assms(1,2)] assms(3) by auto
qed simp

definition relaxed :: "flow_graph \<Rightarrow> search \<Rightarrow> nat \<Rightarrow> nat \<Rightarrow> bool" where
  "relaxed g st u k \<longleftrightarrow> (\<forall>i<k. residual g u i \<longrightarrow>
     se_haveDistance st (target g u i) \<and> se_dist st (target g u i) \<le> se_dist st u + cost g u i)"

definition visiting :: "flow_graph \<Rightarrow> nat \<Rightarrow> nat set \<Rightarrow> nat \<Rightarrow> nat \<Rightarrow> search \<Rightarrow> bool" where
  "visiting g s R node k st \<longleftrightarrow> search_ok g s R st \<and> se_haveDistance st node \<and> relaxed g st node k \<and>
     (\<forall>u. se_haveDistance st u \<and> u \<notin> set (se_queue st) \<and> u \<noteq> node \<longrightarrow> relaxed g st u (length (g ! u)))"

lemma visiting_step:
  assumes f: "feasible g s R pot" and v: "visiting g s R node k st" and k: "k < length (g ! node)"
  defines "st' \<equiv> relax node (k, g ! node ! k) st"
  shows "visiting g s R node (Suc k) st' \<and> (st' = st \<or> ranks g st' < ranks g st)"
proof -
  have ok: "search_ok g s R st" and h: "se_haveDistance st node" and rel: "relaxed g st node k"
    and others: "\<And>u. se_haveDistance st u \<Longrightarrow> u \<notin> set (se_queue st) \<Longrightarrow> u \<noteq> node \<Longrightarrow> relaxed g st u (length (g ! u))"
    using v by (auto simp: visiting_def)
  have n: "node < length g" using search_okD(4) [OF ok h] f by (auto simp: feasible_def)
  let ?t = "target g node k"
  let ?c = "se_dist st node + cost g node k"
  show ?thesis
  proof (cases "0 < fe_capacity (g ! node ! k) \<and> improves ?c ?t st")
    case False
    then have "st' = st" unfolding st'_def relax_cases by (rule if_not_P)
    moreover have "relaxed g st node (Suc k)"
      using rel False by (auto simp: relaxed_def residual_def improves_def less_Suc_eq not_less)
    ultimately show ?thesis using v by (simp add: visiting_def)
  next
    case True
    then have st': "st' = improved node k ?t ?c st" unfolding st'_def relax_cases by (rule if_P)
    have r: "residual g node k" using True n k by (simp add: residual_def)
    from improved_ok [OF f ok r h conjunct2 [OF True]] have ok': "search_ok g s R st'" and tn: "?t \<noteq> node" and tR: "?t \<in> R"
      by (simp_all add: st')
    have mono: "se_haveDistance st' x \<and> se_dist st' x \<le> se_dist st x" if "se_haveDistance st x" for x
      using that True by (auto simp: st' improves_def)
    have keep: "relaxed g st' u j" if "relaxed g st u j" "u \<noteq> ?t" for u j
    proof -
      have same: "se_dist st' u = se_dist st u" using that(2) by (simp add: st')
      show ?thesis unfolding relaxed_def
      proof (intro allI impI)
        fix i
        assume "i < j" "residual g u i"
        then have t: "se_haveDistance st (target g u i)" "se_dist st (target g u i) \<le> se_dist st u + cost g u i"
          using that(1) by (simp_all add: relaxed_def)
        then show "se_haveDistance st' (target g u i) \<and> se_dist st' (target g u i) \<le> se_dist st' u + cost g u i"
          using mono [OF t(1)] order_trans [OF _ t(2)] by (simp add: same)
      qed
    qed
    have "relaxed g st' node (Suc k)"
      using keep [OF rel] tn by (auto simp: relaxed_def less_Suc_eq st')
    moreover have "relaxed g st' u (length (g ! u))"
      if "se_haveDistance st' u" "u \<notin> set (se_queue st')" "u \<noteq> node" for u
    proof -
      have "u \<noteq> ?t" "u \<notin> set (se_queue st)" using that(2) improved_queue(1) [OF search_okD(8) [OF ok]] by (auto simp: st')
      moreover from this have "se_haveDistance st u" using that(1) by (simp add: st')
      ultimately show ?thesis using keep others that(3) by blast
    qed
    moreover have "ranks g st' < ranks g st"
    proof -
      obtain es where "reached g s st' ?t es" using search_okD(7) [OF ok', of ?t] by (auto simp: st')
      then have "?c \<in> path_costs g" using reached_cost by (fastforce simp: st')
      then show ?thesis using ranks_improved True tR f unfolding st' feasible_def by blast
    qed
    ultimately show ?thesis using ok' h by (simp add: visiting_def st')
  qed
qed

lemma visiting_fold:
  assumes f: "feasible g s R pot"
  shows "visiting g s R node k st \<Longrightarrow> xs = drop k (g ! node) \<Longrightarrow>
    visiting g s R node (k + length xs) (fold (relax node) (enumerate k xs) st) \<and>
    (fold (relax node) (enumerate k xs) st = st \<or> ranks g (fold (relax node) (enumerate k xs) st) < ranks g st)"
proof (induction xs arbitrary: k st)
  case Nil
  then show ?case by simp
next
  case (Cons x xs)
  have k: "k < length (g ! node)" using Cons.prems(2) by (metis drop_all list.discI not_less)
  then have x: "x = g ! node ! k" "xs = drop (Suc k) (g ! node)"
    using Cons.prems(2) by (metis Cons_nth_drop_Suc list.inject)+
  let ?st = "relax node (k, x) st"
  have s: "visiting g s R node (Suc k) ?st \<and> (?st = st \<or> ranks g ?st < ranks g st)"
    using visiting_step [OF f Cons.prems(1) k] x by simp
  with Cons.IH [of "Suc k" ?st] x show ?case by (auto intro: less_trans)
qed

definition loop_ok :: "flow_graph \<Rightarrow> nat \<Rightarrow> nat set \<Rightarrow> search \<Rightarrow> bool" where
  "loop_ok g s R st \<longleftrightarrow> search_ok g s R st \<and>
     (\<forall>u. se_haveDistance st u \<and> u \<notin> set (se_queue st) \<longrightarrow> relaxed g st u (length (g ! u)))"

lemma visit_step:
  assumes f: "feasible g s R pot" and l: "loop_ok g s R st" and q: "se_queue st \<noteq> []"
  shows "loop_ok g s R (visit g st) \<and>
    (ranks g (visit g st) < ranks g st \<or>
     ranks g (visit g st) = ranks g st \<and> length (se_queue (visit g st)) < length (se_queue st))"
proof -
  obtain node rest where n: "se_queue st = node # rest" using q by (cases "se_queue st") auto
  let ?st = "st\<lparr> se_queue := rest, se_inQueue := (se_inQueue st)(node := False) \<rparr>"
  have ok: "search_ok g s R st" using l by (simp add: loop_ok_def)
  have same: "branch s ?st us = branch s st us" "slack g ?st es v = slack g st es v" for us es v
    by (auto intro: branch_cong slack_mono [where st = st] slack_mono [where st = ?st])
  have "search_ok g s R ?st"
    using ok n by (auto simp: search_ok_def previous_ok_def reached_def same)
  moreover have h: "se_haveDistance st node" using search_okD(9) [OF ok] n by simp
  moreover have "relaxed g ?st u k = relaxed g st u k" for u k by (simp add: relaxed_def)
  ultimately have v: "visiting g s R node 0 ?st"
    using l n by (auto simp: visiting_def loop_ok_def relaxed_def [of _ _ _ 0])
  let ?after = "fold (relax node) (enumerate 0 (g ! node)) ?st"
  have e: "visit g st = ?after" by (simp add: visit_def n Let_def)
  have f: "visiting g s R node (length (g ! node)) ?after \<and> (?after = ?st \<or> ranks g ?after < ranks g ?st)"
    using visiting_fold [OF f v, of "g ! node"] by simp
  have "rank g ?st v = rank g st v" for v by (simp add: rank_def)
  then have "ranks g ?st = ranks g st" by (simp add: ranks_def)
  moreover have "loop_ok g s R ?after" using f by (auto simp: visiting_def loop_ok_def)
  ultimately show ?thesis using f n e by auto
qed

lemma start_ok: "feasible g s R pot \<Longrightarrow> loop_ok g s R (start_search s)"
proof -
  assume f: "feasible g s R pot"
  have "reached g s (start_search s) s []" by (simp add: reached_def start_search_def)
  moreover have "\<exists>us. branch s (start_search s) (s # us)" by (rule exI [of _ "[]"]) simp
  moreover have "previous_ok g s (start_search s) s" by (simp add: previous_ok_def)
  ultimately have "search_ok g s R (start_search s)"
    using f unfolding search_ok_def by (auto simp: start_search_def feasible_def)
  then show ?thesis by (simp add: loop_ok_def start_search_def)
qed

text \<open>
  Without a negative cycle the search ends.  Then every node it reached is in the reachable set,
  has a branch to the source, and all edges with capacity from reached nodes are relaxed.
\<close>

lemma shortest_paths_ends:
  assumes f: "feasible g s R pot"
  shows "\<exists>st. shortest_paths s g = Some st \<and> search_ok g s R st \<and>
    (\<forall>u. se_haveDistance st u \<longrightarrow> relaxed g st u (length (g ! u)))"
proof -
  let ?r = "inv_image (less_than <*lex*> less_than) (\<lambda>st. (ranks g st, length (se_queue st)))"
  have "wf ?r" by (intro wf_inv_image wf_lex_prod wf_less_than)
  then obtain st where st: "shortest_paths s g = Some st"
    unfolding shortest_paths_def
    using wf_rel_while_option_Some [where R = ?r and P = "loop_ok g s R" and s = "start_search s"
        and b = "\<lambda>st. se_queue st \<noteq> []" and c = "visit g"]
      visit_step [OF f] start_ok [OF f]
    by auto
  have "loop_ok g s R st"
    by (rule while_option_rule [OF _ st [unfolded shortest_paths_def]]) (use visit_step [OF f] start_ok [OF f] in auto)
  moreover have "se_queue st = []" using while_option_stop [OF st [unfolded shortest_paths_def]] by simp
  ultimately show ?thesis using st by (auto simp: loop_ok_def)
qed

end
