(* ===== verification/AssignmentFlow.thy ===== *)
theory AssignmentFlow
  imports ShortestPaths
begin

text \<open>
  Augmentation along a shortest path: every edge keeps its partner, a push moves one unit of
  capacity from the start of an edge to its end, and there are again potentials afterwards.  So
  the rounds of the matching end, with potentials for every node and a set of reached nodes
  without the sink.
\<close>

section \<open>Edges and their partners\<close>

definition is_edge :: "flow_graph \<Rightarrow> nat \<Rightarrow> nat \<Rightarrow> bool" where
  "is_edge g u i \<longleftrightarrow> u < length g \<and> i < length (g ! u)"

abbreviation partner :: "flow_graph \<Rightarrow> nat \<Rightarrow> nat \<Rightarrow> nat" where
  "partner g u i \<equiv> fe_rev (g ! u ! i)"

abbreviation capacity :: "flow_graph \<Rightarrow> nat \<Rightarrow> nat \<Rightarrow> int" where
  "capacity g u i \<equiv> fe_capacity (g ! u ! i)"

definition paired_edge :: "flow_graph \<Rightarrow> nat \<Rightarrow> nat \<Rightarrow> nat \<Rightarrow> nat \<Rightarrow> bool" where
  "paired_edge g u i v j \<longleftrightarrow> is_edge g v j \<and> v \<noteq> u \<and> target g v j = u \<and> partner g v j = i \<and>
     cost g v j = - cost g u i \<and> capacity g u i \<in> {0, 1} \<and> capacity g v j = 1 - capacity g u i"

definition paired :: "flow_graph \<Rightarrow> bool" where
  "paired g \<longleftrightarrow> (\<forall>u i. is_edge g u i \<longrightarrow> paired_edge g u i (target g u i) (partner g u i))"

definition degree :: "flow_graph \<Rightarrow> nat \<Rightarrow> int" where
  "degree g u = (\<Sum>i<length (g ! u). capacity g u i)"

definition same_edge :: "protocolFlowEdge \<Rightarrow> protocolFlowEdge \<Rightarrow> bool" where
  "same_edge e e' \<longleftrightarrow> fe_to e' = fe_to e \<and> fe_rev e' = fe_rev e \<and> fe_cost e' = fe_cost e \<and> fe_nativePos e' = fe_nativePos e"

definition same_edges :: "flow_graph \<Rightarrow> flow_graph \<Rightarrow> bool" where
  "same_edges g g' \<longleftrightarrow> length g' = length g \<and> (\<forall>u<length g. list_all2 same_edge (g ! u) (g' ! u))"

lemma same_edges_refl [simp]: "same_edges g g"
  by (simp add: same_edges_def same_edge_def list_all2_refl)

lemma same_edges_trans: "same_edges a b \<Longrightarrow> same_edges b c \<Longrightarrow> same_edges a c"
  unfolding same_edges_def
  by (auto intro: list_all2_trans [of same_edge same_edge same_edge, rotated] simp: same_edge_def)

lemma same_edgesD:
  assumes "same_edges g g'"
  shows "length g' = length g" "u < length g \<Longrightarrow> length (g' ! u) = length (g ! u)"
    "is_edge g' u i = is_edge g u i"
    "is_edge g u i \<Longrightarrow> target g' u i = target g u i" "is_edge g u i \<Longrightarrow> partner g' u i = partner g u i"
    "is_edge g u i \<Longrightarrow> cost g' u i = cost g u i" "is_edge g u i \<Longrightarrow> fe_nativePos (g' ! u ! i) = fe_nativePos (g ! u ! i)"
proof -
  show l: "length g' = length g" using assms by (simp add: same_edges_def)
  have k: "u < length g \<Longrightarrow> length (g' ! u) = length (g ! u)" for u
    using assms list_all2_lengthD [of same_edge "g ! u" "g' ! u"] by (auto simp: same_edges_def)
  then show "u < length g \<Longrightarrow> length (g' ! u) = length (g ! u)" .
  show "is_edge g' u i = is_edge g u i" using l k by (auto simp: is_edge_def)
  have "same_edge (g ! u ! i) (g' ! u ! i)" if "is_edge g u i"
    using assms that list_all2_nthD [of same_edge "g ! u" "g' ! u" i] by (auto simp: same_edges_def is_edge_def)
  then show "is_edge g u i \<Longrightarrow> target g' u i = target g u i" "is_edge g u i \<Longrightarrow> partner g' u i = partner g u i"
    "is_edge g u i \<Longrightarrow> cost g' u i = cost g u i" "is_edge g u i \<Longrightarrow> fe_nativePos (g' ! u ! i) = fe_nativePos (g ! u ! i)"
    by (auto simp: same_edge_def)
qed

lemma pairedD:
  assumes "paired g" "is_edge g u i"
  shows "is_edge g (target g u i) (partner g u i)" "target g u i \<noteq> u" "target g (target g u i) (partner g u i) = u"
    "partner g (target g u i) (partner g u i) = i" "cost g (target g u i) (partner g u i) = - cost g u i"
    "capacity g u i = 0 \<or> capacity g u i = 1" "capacity g (target g u i) (partner g u i) = 1 - capacity g u i"
  using assms by (simp_all add: paired_def paired_edge_def)

lemma residual_edge: "residual g u i \<longleftrightarrow> is_edge g u i \<and> 0 < capacity g u i"
  by (auto simp: residual_def is_edge_def)

section \<open>One push\<close>

lemma set_capacity_nth:
  assumes "is_edge g u i"
  shows "length (set_capacity u i d g) = length g" "length (set_capacity u i d g ! x) = length (g ! x)"
    "set_capacity u i d g ! x ! k = (if x = u \<and> k = i then (g ! u ! i)\<lparr> fe_capacity := capacity g u i + d \<rparr> else g ! x ! k)"
  using assms by (auto simp: set_capacity_def is_edge_def nth_list_update)

lemma push_nth:
  assumes p: "paired g" and e: "is_edge g u i"
  defines "v \<equiv> target g u i" and "j \<equiv> partner g u i"
  shows "length (push_edge u i v g) = length g" "length (push_edge u i v g ! x) = length (g ! x)"
    "push_edge u i v g ! x ! k =
       (if x = u \<and> k = i then (g ! u ! i)\<lparr> fe_capacity := capacity g u i - 1 \<rparr>
        else if x = v \<and> k = j then (g ! v ! j)\<lparr> fe_capacity := capacity g v j + 1 \<rparr> else g ! x ! k)"
proof -
  have vj: "is_edge g v j" "v \<noteq> u" using pairedD [OF p e] by (simp_all add: v_def j_def)
  have e': "is_edge (set_capacity u i (- 1) g) v j"
    using vj set_capacity_nth [OF e] by (simp add: is_edge_def)
  have s: "push_edge u i v g = set_capacity v j 1 (set_capacity u i (- 1) g)"
    by (simp add: push_edge_def j_def Let_def)
  show "length (push_edge u i v g) = length g" "length (push_edge u i v g ! x) = length (g ! x)"
    unfolding s by (simp_all add: set_capacity_nth [OF e'] set_capacity_nth [OF e])
  show "push_edge u i v g ! x ! k =
       (if x = u \<and> k = i then (g ! u ! i)\<lparr> fe_capacity := capacity g u i - 1 \<rparr>
        else if x = v \<and> k = j then (g ! v ! j)\<lparr> fe_capacity := capacity g v j + 1 \<rparr> else g ! x ! k)"
    unfolding s using vj by (simp add: set_capacity_nth [OF e'] set_capacity_nth [OF e])
qed

lemma push_same:
  assumes p: "paired g" and e: "is_edge g u i"
  shows "same_edges g (push_edge u i (target g u i) g)"
  using push_nth [OF p e] by (auto simp: same_edges_def same_edge_def list_all2_conv_all_nth)

lemma push_capacity:
  assumes p: "paired g" and e: "is_edge g u i"
  shows "capacity (push_edge u i (target g u i) g) x k = capacity g x k +
    (if x = u \<and> k = i then - 1 else if x = target g u i \<and> k = partner g u i then 1 else 0)"
  using push_nth(3) [OF p e] by simp

lemma push_paired:
  assumes p: "paired g" and r: "residual g u i"
  shows "paired (push_edge u i (target g u i) g)"
proof -
  let ?v = "target g u i" and ?j = "partner g u i"
  let ?g = "push_edge u i ?v g"
  have e: "is_edge g u i" and c: "capacity g u i = 1" using r pairedD(6) [OF p, of u i] by (auto simp: residual_edge)
  note vj = pairedD [OF p e]
  note same = same_edgesD [OF push_same [OF p e]]
  show ?thesis
    unfolding paired_def
  proof (intro allI impI)
    fix x k
    assume "is_edge ?g x k"
    then have x: "is_edge g x k" by (simp add: same)
    note yl = pairedD [OF p x]
    let ?y = "target g x k" and ?l = "partner g x k"
    have eq: "target ?g x k = ?y" "partner ?g x k = ?l" using x by (simp_all add: same)
    have "x = u \<and> k = i \<longleftrightarrow> ?y = ?v \<and> ?l = ?j" using vj yl by metis
    moreover have "x = ?v \<and> k = ?j \<longleftrightarrow> ?y = u \<and> ?l = i" using vj yl by metis
    ultimately show "paired_edge ?g x k (target ?g x k) (partner ?g x k)"
      unfolding eq paired_edge_def
      using x yl vj c by (auto simp: same push_capacity [OF p e])
  qed
qed

lemma push_degree:
  assumes p: "paired g" and e: "is_edge g u i" and x: "x < length g"
  shows "degree (push_edge u i (target g u i) g) x =
    degree g x + (if x = target g u i then 1 else 0) - (if x = u then 1 else 0)"
proof -
  let ?v = "target g u i" and ?j = "partner g u i"
  note vj = pairedD [OF p e]
  have "degree (push_edge u i ?v g) x = (\<Sum>k<length (g ! x). capacity g x k +
      (if k = (if x = u then i else ?j) then (if x = u then - 1 else if x = ?v then 1 else 0) else 0))"
    unfolding degree_def push_nth(2) [OF p e] push_capacity [OF p e] using vj(2) by (intro sum.cong) auto
  also have "\<dots> = degree g x + (\<Sum>k<length (g ! x). if k = (if x = u then i else ?j)
      then (if x = u then - 1 else if x = ?v then 1 else 0) else 0)"
    by (simp add: sum.distrib degree_def)
  also have "\<dots> = degree g x + (if x = ?v then 1 else 0) - (if x = u then 1 else 0)"
  proof (cases "x = u")
    case True
    then have "x \<noteq> ?v" using vj(2) by simp
    then show ?thesis using True e by (simp add: is_edge_def)
  next
    case False
    then show ?thesis using vj(1) by (simp add: is_edge_def)
  qed
  finally show ?thesis .
qed

section \<open>Augmentation\<close>

lemma branch_unique: "branch s st (v # us) \<Longrightarrow> branch s st (v # us') \<Longrightarrow> us = us'"
proof (induction us arbitrary: v us')
  case Nil
  then show ?case by (cases us') auto
next
  case (Cons u us)
  then show ?case by (cases us') auto
qed

lemma branch_part: "branch s st (us @ v # vs) \<Longrightarrow> branch s st (v # vs)"
proof (induction us)
  case (Cons u us)
  then show ?case by (cases "us @ v # vs") auto
qed simp

lemma branch_distinct: "branch s st us \<Longrightarrow> distinct us"
proof (induction us)
  case (Cons v us)
  have "v \<notin> set us"
  proof
    assume "v \<in> set us"
    then obtain xs ys where us: "us = xs @ v # ys" by (meson split_list)
    then have "branch s st (v # ys)" using branch_part [of s st "v # xs" v ys] Cons.prems by simp
    then have "us = ys" using branch_unique Cons.prems by blast
    then show False using us by simp
  qed
  moreover have "distinct us" using Cons by (cases us) auto
  ultimately show ?case by simp
qed simp

text \<open>The edges into the nodes of a branch have capacity left.\<close>

definition open_branch :: "nat \<Rightarrow> search \<Rightarrow> flow_graph \<Rightarrow> nat list \<Rightarrow> bool" where
  "open_branch s st g us \<longleftrightarrow> (\<forall>w u. w \<in> set us \<and> w \<noteq> s \<and> se_previousNode st w = Some u \<longrightarrow>
     residual g u (se_previousEdge st w) \<and> target g u (se_previousEdge st w) = w)"

text \<open>An edge that has capacity only after the pushes is the partner of an edge of the branch.\<close>

definition opened :: "search \<Rightarrow> flow_graph \<Rightarrow> nat list \<Rightarrow> nat \<Rightarrow> nat \<Rightarrow> bool" where
  "opened st g us x k \<longleftrightarrow> (\<exists>u. x \<in> set us \<and> se_previousNode st x = Some u \<and> residual g u (se_previousEdge st x) \<and>
     target g u (se_previousEdge st x) = x \<and> k = partner g u (se_previousEdge st x))"

lemma augment_branch:
  "branch s st (v # us) \<Longrightarrow> paired g \<Longrightarrow> open_branch s st g (v # us) \<Longrightarrow>
   \<exists>g'. augment st s v g = Some g' \<and> paired g' \<and> same_edges g g' \<and>
     (\<forall>x<length g. degree g' x = degree g x + (if x = v then 1 else 0) - (if x = s then 1 else 0)) \<and>
     (\<forall>x k. residual g' x k \<longrightarrow> residual g x k \<or> opened st g (v # us) x k \<and> x \<noteq> s)"
proof (induction us arbitrary: v g)
  case Nil
  then show ?case by (auto simp: augment.simps)
next
  case (Cons u us)
  let ?i = "se_previousEdge st v"
  let ?g = "push_edge u ?i v g"
  have b: "v \<noteq> s" "se_previousNode st v = Some u" "branch s st (u # us)" using Cons.prems(1) by simp_all
  have r: "residual g u ?i" "target g u ?i = v" using Cons.prems(3) b by (auto simp: open_branch_def)
  then have e: "is_edge g u ?i" by (simp add: residual_edge)
  note vj = pairedD [OF Cons.prems(2) e, unfolded r(2)]
  have p: "paired ?g" using push_paired [OF Cons.prems(2) r(1)] r(2) by simp
  have s: "same_edges g ?g" using push_same [OF Cons.prems(2) e] r(2) by simp
  note same = same_edgesD [OF s]
  have c: "capacity ?g x k = capacity g x k + (if x = u \<and> k = ?i then - 1 else if x = v \<and> k = partner g u ?i then 1 else 0)"
    for x k by (rule push_capacity [OF Cons.prems(2) e, unfolded r(2)])
  have d: "distinct (v # u # us)" using branch_distinct [OF Cons.prems(1)] .
  have "open_branch s st ?g (u # us)"
    unfolding open_branch_def
  proof (intro allI impI)
    fix w x
    assume w: "w \<in> set (u # us) \<and> w \<noteq> s \<and> se_previousNode st w = Some x"
    then have x: "residual g x (se_previousEdge st w)" "target g x (se_previousEdge st w) = w"
      using Cons.prems(3) by (auto simp: open_branch_def)
    have "w \<noteq> v" using w d by auto
    then have "\<not> (x = u \<and> se_previousEdge st w = ?i)" using x(2) r(2) by auto
    then show "residual ?g x (se_previousEdge st w) \<and> target ?g x (se_previousEdge st w) = w"
      using x by (auto simp: residual_edge same c)
  qed
  from Cons.IH [OF b(3) p this] obtain g' where g': "augment st s u ?g = Some g'" "paired g'" "same_edges ?g g'"
    "\<And>x. x < length ?g \<Longrightarrow> degree g' x = degree ?g x + (if x = u then 1 else 0) - (if x = s then 1 else 0)"
    "\<And>x k. residual g' x k \<Longrightarrow> residual ?g x k \<or> opened st ?g (u # us) x k \<and> x \<noteq> s" by blast
  have "augment st s v g = Some g'" using b g'(1) by (simp add: augment.simps [of st s v g])
  moreover have "degree g' x = degree g x + (if x = v then 1 else 0) - (if x = s then 1 else 0)" if "x < length g" for x
    using g'(4) [of x] push_degree [OF Cons.prems(2) e that] that d unfolding r(2) by (simp add: same)
  moreover have "residual g x k \<or> opened st g (v # u # us) x k \<and> x \<noteq> s" if "residual g' x k" for x k
  proof -
    from g'(5) [OF that] show ?thesis
    proof
      assume k: "residual ?g x k"
      show ?thesis
      proof (cases "x = v \<and> k = partner g u ?i")
        case True
        then show ?thesis using b r by (auto simp: opened_def)
      next
        case False
        then have "residual g x k" using k by (auto simp: residual_edge same c split: if_splits)
        then show ?thesis ..
      qed
    next
      assume o: "opened st ?g (u # us) x k \<and> x \<noteq> s"
      then obtain w where w: "x \<in> set (u # us)" "se_previousNode st x = Some w" "residual ?g w (se_previousEdge st x)"
        "target ?g w (se_previousEdge st x) = x" "k = partner ?g w (se_previousEdge st x)" by (auto simp: opened_def)
      have "is_edge g w (se_previousEdge st x)" using w(3) by (simp add: residual_edge same)
      moreover have "residual g w (se_previousEdge st x)"
        using Cons.prems(3) w(1,2) o by (auto simp: open_branch_def)
      ultimately show ?thesis using w o by (auto simp: opened_def same)
    qed
  qed
  ultimately show ?case using g'(2) same_edges_trans [OF s g'(3)] by blast
qed

section \<open>One round\<close>

text \<open>
  The distances are potentials for the nodes that were reached.  The other nodes keep theirs,
  raised by so much that no edge from them to a reached node is too cheap.
\<close>

definition raise_by :: "flow_graph \<Rightarrow> (nat \<Rightarrow> protocolFlowCost) \<Rightarrow> search \<Rightarrow> protocolFlowCost" where
  "raise_by g pot st = Max (insert 0 ((\<lambda>(u, i). se_dist st (target g u i) - pot u - cost g u i) ` all_edges g))"

definition next_potential :: "flow_graph \<Rightarrow> (nat \<Rightarrow> protocolFlowCost) \<Rightarrow> search \<Rightarrow> nat \<Rightarrow> protocolFlowCost" where
  "next_potential g pot st v = (if se_haveDistance st v then se_dist st v else pot v + raise_by g pot st)"

lemma raise_by_bound:
  assumes "is_edge g u i"
  shows "se_dist st (target g u i) \<le> pot u + raise_by g pot st + cost g u i"
proof -
  have "finite (all_edges g)" by (simp add: all_edges_def)
  moreover have "(u, i) \<in> all_edges g" using assms by (simp add: all_edges_def is_edge_def)
  ultimately have "se_dist st (target g u i) - pot u - cost g u i \<le> raise_by g pot st"
    unfolding raise_by_def by (intro Max_ge) force+
  then show ?thesis by (simp add: algebra_simps)
qed

text \<open>Potentials for every node.\<close>

abbreviation balanced :: "flow_graph \<Rightarrow> nat \<Rightarrow> (nat \<Rightarrow> protocolFlowCost) \<Rightarrow> bool" where
  "balanced g s pot \<equiv> feasible g s {..<length g} pot"

lemma round_ok:
  assumes p: "paired g" and f: "balanced g s pot"
    and ok: "search_ok g s {..<length g} st" and rel: "\<And>u. se_haveDistance st u \<Longrightarrow> relaxed g st u (length (g ! u))"
    and t: "se_haveDistance st t"
  shows "\<exists>g'. augment st s t g = Some g' \<and> paired g' \<and> same_edges g g' \<and>
    (\<forall>x<length g. degree g' x = degree g x + (if x = t then 1 else 0) - (if x = s then 1 else 0)) \<and>
    balanced g' s (next_potential g pot st)"
proof -
  obtain us where us: "branch s st (t # us)" using search_okD(6) [OF ok t] ..
  have have_all: "se_haveDistance st w" if "w \<in> set (t # us)" for w
    using branch_reduced [OF f ok us t that] by simp
  have prev: "residual g u (se_previousEdge st w) \<and> target g u (se_previousEdge st w) = w \<and> se_haveDistance st u \<and>
      se_dist st u + cost g u (se_previousEdge st w) \<le> se_dist st w"
    if "w \<in> set (t # us)" "w \<noteq> s" "se_previousNode st w = Some u" for w u
    using search_okD(5) [OF ok have_all [OF that(1)]] that(2,3) by (auto simp: previous_ok_def)
  then have "open_branch s st g (t # us)" by (auto simp: open_branch_def)
  from augment_branch [OF us p this] obtain g' where g': "augment st s t g = Some g'" "paired g'" "same_edges g g'"
    "\<forall>x<length g. degree g' x = degree g x + (if x = t then 1 else 0) - (if x = s then 1 else 0)"
    "\<And>x k. residual g' x k \<Longrightarrow> residual g x k \<or> opened st g (t # us) x k \<and> x \<noteq> s" by blast
  note same = same_edgesD [OF g'(3)]
  let ?pot = "next_potential g pot st"
  have old: "?pot (target g x k) \<le> ?pot x + cost g x k" if r: "residual g x k" for x k
  proof (cases "se_haveDistance st x")
    case True
    then show ?thesis using rel [OF True] r by (auto simp: relaxed_def residual_def next_potential_def)
  next
    case False
    have "x < length g" using r by (simp add: residual_def)
    then have "pot (target g x k) \<le> pot x + cost g x k" using feasibleD [OF f _ r] by simp
    then show ?thesis
      using False raise_by_bound [of g x k st pot] r by (auto simp: next_potential_def residual_edge algebra_simps)
  qed
  have "?pot (target g x k) \<le> ?pot x + cost g x k" if r: "residual g' x k" for x k
  proof (cases "residual g x k")
    case True
    then show ?thesis by (rule old)
  next
    case False
    then obtain u where u: "x \<in> set (t # us)" "x \<noteq> s" "se_previousNode st x = Some u" "k = partner g u (se_previousEdge st x)"
      using g'(5) [OF r] by (auto simp: opened_def)
    note pu = prev [OF u(1-3)]
    then have e: "is_edge g u (se_previousEdge st x)" by (simp add: residual_edge)
    have "target g x k = u" "cost g x k = - cost g u (se_previousEdge st x)"
      using pairedD [OF p e] pu u(4) by auto
    then show ?thesis using pu have_all [OF u(1)] by (simp add: next_potential_def algebra_simps)
  qed
  moreover have "is_edge g x k" if "residual g' x k" for x k using that by (simp add: residual_edge same)
  moreover have "target g x k < length g" if "is_edge g x k" for x k using pairedD(1) [OF p that] by (simp add: is_edge_def)
  ultimately have "balanced g' s ?pot" using f by (auto simp: feasible_def same)
  then show ?thesis using g' by blast
qed

section \<open>All rounds\<close>

text \<open>What holds when the sink is no longer reached: the set of reached nodes is closed.\<close>

definition closed_cut :: "flow_graph \<Rightarrow> nat \<Rightarrow> nat \<Rightarrow> nat set \<Rightarrow> bool" where
  "closed_cut g s t S \<longleftrightarrow> s \<in> S \<and> t \<notin> S \<and> (\<forall>u i. u \<in> S \<and> residual g u i \<longrightarrow> target g u i \<in> S) \<and>
     (\<forall>v\<in>S. v \<noteq> s \<longrightarrow> (\<exists>u\<in>S. \<exists>i. residual g u i \<and> target g u i = v))"

lemma degree_nonneg: "paired g \<Longrightarrow> u < length g \<Longrightarrow> 0 \<le> degree g u"
  unfolding degree_def by (rule sum_nonneg) (use pairedD(6) [of g u] in \<open>force simp: is_edge_def\<close>)

lemma augment_all_ends:
  "paired g \<Longrightarrow> balanced g s pot \<Longrightarrow> s \<noteq> t \<Longrightarrow> t < length g \<Longrightarrow>
   \<exists>g' pot' S. augment_all s t g = Some g' \<and> paired g' \<and> same_edges g g' \<and> balanced g' s pot' \<and> closed_cut g' s t S \<and>
     (\<forall>x<length g. x \<noteq> s \<and> x \<noteq> t \<longrightarrow> degree g' x = degree g x)"
proof (induction "nat (degree g s)" arbitrary: g pot rule: less_induct)
  case less
  obtain st where st: "shortest_paths s g = Some st" "search_ok g s {..<length g} st"
    "\<And>u. se_haveDistance st u \<Longrightarrow> relaxed g st u (length (g ! u))"
    using shortest_paths_ends [OF less.prems(2)] by blast
  show ?case
  proof (cases "se_haveDistance st t")
    case False
    have "augment_all s t g = Some g" using st False by (simp add: augment_all.simps)
    moreover have "closed_cut g s t {v. se_haveDistance st v}"
      unfolding closed_cut_def
    proof (intro conjI allI impI ballI)
      fix u i
      assume "u \<in> {v. se_haveDistance st v} \<and> residual g u i"
      then show "target g u i \<in> {v. se_haveDistance st v}"
        using st(3) [of u] by (auto simp: relaxed_def residual_def)
    next
      fix v
      assume "v \<in> {v. se_haveDistance st v}" "v \<noteq> s"
      then show "\<exists>u\<in>{v. se_haveDistance st v}. \<exists>i. residual g u i \<and> target g u i = v"
        using search_okD(5) [OF st(2), of v] by (auto simp: previous_ok_def)
    qed (use False search_okD(1) [OF st(2)] in auto)
    ultimately show ?thesis using less.prems same_edges_refl [of g] by blast
  next
    case True
    obtain g' where g': "augment st s t g = Some g'" "paired g'" "same_edges g g'"
      "\<And>x. x < length g \<Longrightarrow> degree g' x = degree g x + (if x = t then 1 else 0) - (if x = s then 1 else 0)"
      "balanced g' s (next_potential g pot st)"
      using round_ok [OF less.prems(1,2) st(2,3) True] by blast
    note same = same_edgesD [OF g'(3)]
    have s: "s < length g" using less.prems(2) by (auto simp: feasible_def)
    have "degree g' s = degree g s - 1" using g'(4) [OF s] less.prems(3) by simp
    moreover have "0 \<le> degree g' s" using degree_nonneg [OF g'(2)] s same(1) by simp
    ultimately have "nat (degree g' s) < nat (degree g s)" by simp
    moreover have "t < length g'" using less.prems(4) same(1) by simp
    ultimately obtain h pot' S where h: "augment_all s t g' = Some h" "paired h" "same_edges g' h" "balanced h s pot'"
      "closed_cut h s t S" "\<And>x. x < length g' \<Longrightarrow> x \<noteq> s \<and> x \<noteq> t \<Longrightarrow> degree h x = degree g' x"
      using less.hyps [OF _ g'(2,5) less.prems(3)] by blast
    have "augment_all s t g = Some h" using st(1) True g'(1) h(1) by (simp add: augment_all.simps [of s t g])
    moreover have "degree h x = degree g x" if "x < length g" "x \<noteq> s \<and> x \<noteq> t" for x
      using h(6) [of x] g'(4) [of x] that same(1) by simp
    ultimately show ?thesis using h same_edges_trans [OF g'(3) h(3)] by blast
  qed
qed

end
