(* ===== verification/OptimalMatching.thy ===== *)
theory OptimalMatching
  imports AssignmentFlow
begin

text \<open>
  The matching is the best one: no matching of the candidates has more pairs, and among those
  with as many pairs none has a greater strength, or the same strength and a smaller distance.
  The number of pairs is bounded by the set of nodes that the last search reached (a vertex
  cover), the cost by the last potentials (duality).
\<close>

section \<open>The graph of a matching problem\<close>

text \<open>
  \<open>F\<close> fallbacks, \<open>N\<close> natives and the edge between two positions.  Node 0 is the source, the
  nodes from 1 are the fallbacks, those from \<open>1 + F\<close> the natives, \<open>1 + F + N\<close> is the sink.
  Apart from capacities: a fallback has the edge back to the source first, then those to its
  natives; a native has the edge to the sink first, then those back to its fallbacks.
\<close>

type_synonym problem = "nat \<Rightarrow> nat \<Rightarrow> protocolCorrelationEdgeResult option"

definition pair_edge :: "nat \<Rightarrow> nat \<Rightarrow> problem \<Rightarrow> nat \<Rightarrow> protocolFlowEdge \<Rightarrow> bool" where
  "pair_edge F N E p e \<longleftrightarrow> (\<exists>n<N. \<exists>er r. fe_nativePos e = int n \<and> fe_to e = 1 + F + n \<and> E p n = Some er \<and>
     fe_cost e = edge_cost er r)"

definition fallback_node :: "nat \<Rightarrow> nat \<Rightarrow> problem \<Rightarrow> nat \<Rightarrow> protocolFlowEdge list \<Rightarrow> bool" where
  "fallback_node F N E p es \<longleftrightarrow>
     (\<exists>b fs. es = b # fs \<and> fe_to b = 0 \<and> fe_nativePos b = -1 \<and> list_all (pair_edge F N E p) fs)"

definition native_node :: "nat \<Rightarrow> nat \<Rightarrow> protocolFlowEdge list \<Rightarrow> bool" where
  "native_node F N es \<longleftrightarrow>
     (\<exists>s bs. es = s # bs \<and> fe_to s = 1 + F + N \<and> fe_cost s = 0 \<and> list_all (\<lambda>b. \<exists>p<F. fe_to b = 1 + p) bs)"

definition layered :: "nat \<Rightarrow> nat \<Rightarrow> problem \<Rightarrow> flow_graph \<Rightarrow> bool" where
  "layered F N E g \<longleftrightarrow> length g = F + N + 2 \<and> list_all (\<lambda>e. fe_cost e = 0) (g ! 0) \<and>
     (\<forall>p<F. fallback_node F N E p (g ! (1 + p))) \<and> (\<forall>n<N. native_node F N (g ! (1 + F + n))) \<and>
     (\<forall>p<F. \<forall>n<N. E p n \<noteq> None \<longrightarrow> (\<exists>e\<in>set (g ! (1 + p)). fe_nativePos e = int n))"

lemma same_list_all:
  assumes "list_all2 same_edge es es'" "\<And>e e'. same_edge e e' \<Longrightarrow> P e \<Longrightarrow> P e'"
  shows "list_all P es \<Longrightarrow> list_all P es'"
  using assms by (induction rule: list_all2_induct) auto

lemma same_fallback_node:
  assumes s: "list_all2 same_edge es es'" and n: "fallback_node F N E p es"
  shows "fallback_node F N E p es'"
proof -
  obtain b fs where es: "es = b # fs" "fe_to b = 0" "fe_nativePos b = -1" "list_all (pair_edge F N E p) fs"
    using n by (auto simp: fallback_node_def)
  obtain b' fs' where es': "es' = b' # fs'" "same_edge b b'" "list_all2 same_edge fs fs'"
    using s unfolding es(1) by (auto simp: list_all2_Cons1)
  have "list_all (pair_edge F N E p) fs'"
    by (rule same_list_all [OF es'(3) _ es(4)]) (simp add: same_edge_def pair_edge_def)
  then show ?thesis using es es' by (simp add: fallback_node_def same_edge_def)
qed

lemma same_native_node:
  assumes s: "list_all2 same_edge es es'" and n: "native_node F N es"
  shows "native_node F N es'"
proof -
  obtain t bs where es: "es = t # bs" "fe_to t = 1 + F + N" "fe_cost t = 0" "list_all (\<lambda>b. \<exists>p<F. fe_to b = 1 + p) bs"
    using n by (auto simp: native_node_def)
  obtain t' bs' where es': "es' = t' # bs'" "same_edge t t'" "list_all2 same_edge bs bs'"
    using s unfolding es(1) by (auto simp: list_all2_Cons1)
  have "list_all (\<lambda>b. \<exists>p<F. fe_to b = 1 + p) bs'"
    by (rule same_list_all [OF es'(3) _ es(4)]) (simp add: same_edge_def)
  then show ?thesis using es es' by (simp add: native_node_def same_edge_def)
qed

lemma layered_same:
  assumes s: "same_edges g g'" and l: "layered F N E g"
  shows "layered F N E g'"
proof -
  have e: "list_all2 same_edge (g ! u) (g' ! u)" if "u < F + N + 2" for u
    using s l that by (simp add: same_edges_def layered_def)
  have "list_all (\<lambda>e. fe_cost e = 0) (g ! 0)" using l by (simp add: layered_def)
  then have "list_all (\<lambda>e. fe_cost e = 0) (g' ! 0)"
    by (rule same_list_all [OF e, rotated 2]) (simp_all add: same_edge_def)
  moreover have "fallback_node F N E p (g' ! (1 + p))" if "p < F" for p
    by (rule same_fallback_node [OF e]) (use l that in \<open>simp_all add: layered_def\<close>)
  moreover have "native_node F N (g' ! (1 + F + n))" if "n < N" for n
    by (rule same_native_node [OF e]) (use l that in \<open>simp_all add: layered_def\<close>)
  moreover have "\<exists>e\<in>set (g' ! (1 + p)). fe_nativePos e = int n" if pn: "p < F" "n < N" "E p n \<noteq> None" for p n
  proof -
    obtain x where "x \<in> set (g ! (1 + p))" "fe_nativePos x = int n" using l pn unfolding layered_def by blast
    then obtain i where i: "i < length (g ! (1 + p))" "fe_nativePos (g ! (1 + p) ! i) = int n"
      by (auto simp: in_set_conv_nth)
    have "same_edge (g ! (1 + p) ! i) (g' ! (1 + p) ! i)" "i < length (g' ! (1 + p))"
      using list_all2_nthD [OF e i(1)] list_all2_lengthD [OF e] pn(1) i(1) by simp_all
    then show ?thesis using i(2) by (metis nth_mem same_edge_def)
  qed
  ultimately show ?thesis using s l by (simp add: layered_def same_edges_def)
qed

text \<open>The same, by indices.\<close>

lemma layeredD:
  assumes l: "layered F N E g"
  shows "is_edge g 0 i \<Longrightarrow> cost g 0 i = 0"
    "p < F \<Longrightarrow> is_edge g (1 + p) 0 \<and> target g (1 + p) 0 = 0 \<and> fe_nativePos (g ! (1 + p) ! 0) = -1"
    "p < F \<Longrightarrow> 0 < i \<Longrightarrow> is_edge g (1 + p) i \<Longrightarrow> pair_edge F N E p (g ! (1 + p) ! i)"
    "n < N \<Longrightarrow> is_edge g (1 + F + n) 0 \<and> target g (1 + F + n) 0 = 1 + F + N \<and> cost g (1 + F + n) 0 = 0"
    "n < N \<Longrightarrow> 0 < i \<Longrightarrow> is_edge g (1 + F + n) i \<Longrightarrow> \<exists>p<F. target g (1 + F + n) i = 1 + p"
    "p < F \<Longrightarrow> n < N \<Longrightarrow> E p n \<noteq> None \<Longrightarrow> \<exists>i>0. is_edge g (1 + p) i \<and> fe_nativePos (g ! (1 + p) ! i) = int n"
proof -
  show "is_edge g 0 i \<Longrightarrow> cost g 0 i = 0" using l by (simp add: layered_def is_edge_def list_all_length)
  have f: "fallback_node F N E p (g ! (1 + p))" if "p < F" for p using l that by (simp add: layered_def)
  have n: "native_node F N (g ! (1 + F + n))" if "n < N" for n using l that by (simp add: layered_def)
  have len: "length g = F + N + 2" using l by (simp add: layered_def)
  show "p < F \<Longrightarrow> is_edge g (1 + p) 0 \<and> target g (1 + p) 0 = 0 \<and> fe_nativePos (g ! (1 + p) ! 0) = -1"
    using f [of p] len by (auto simp: fallback_node_def is_edge_def)
  show "p < F \<Longrightarrow> 0 < i \<Longrightarrow> is_edge g (1 + p) i \<Longrightarrow> pair_edge F N E p (g ! (1 + p) ! i)"
    using f [of p] by (cases i) (auto simp: fallback_node_def is_edge_def list_all_length)
  show "n < N \<Longrightarrow> is_edge g (1 + F + n) 0 \<and> target g (1 + F + n) 0 = 1 + F + N \<and> cost g (1 + F + n) 0 = 0"
    using n [of n] len by (auto simp: native_node_def is_edge_def)
  show "n < N \<Longrightarrow> 0 < i \<Longrightarrow> is_edge g (1 + F + n) i \<Longrightarrow> \<exists>p<F. target g (1 + F + n) i = 1 + p"
    using n [of n] by (cases i) (auto simp: native_node_def is_edge_def list_all_length)
  show "\<exists>i>0. is_edge g (1 + p) i \<and> fe_nativePos (g ! (1 + p) ! i) = int n" if pn: "p < F" "n < N" "E p n \<noteq> None"
  proof -
    obtain x where "x \<in> set (g ! (1 + p))" "fe_nativePos x = int n" using l pn unfolding layered_def by blast
    then obtain i where i: "i < length (g ! (1 + p))" "fe_nativePos (g ! (1 + p) ! i) = int n"
      by (auto simp: in_set_conv_nth)
    have "i \<noteq> 0"
    proof
      assume "i = 0"
      then show False using i f [OF pn(1)] by (auto simp: fallback_node_def)
    qed
    then show ?thesis using i pn(1) len by (auto simp: is_edge_def)
  qed
qed

section \<open>What the rounds end with\<close>

definition settled :: "nat \<Rightarrow> nat \<Rightarrow> problem \<Rightarrow> flow_graph \<Rightarrow> (nat \<Rightarrow> protocolFlowCost) \<Rightarrow> nat set \<Rightarrow> bool" where
  "settled F N E g pot S \<longleftrightarrow> layered F N E g \<and> paired g \<and> balanced g 0 pot \<and> closed_cut g 0 (1 + F + N) S \<and>
     (\<forall>p<F. \<exists>!i. is_edge g (1 + p) i \<and> capacity g (1 + p) i = 0) \<and>
     (\<forall>n<N. \<exists>!i. is_edge g (1 + F + n) i \<and> capacity g (1 + F + n) i = 1)"

definition forward_edges :: "nat \<Rightarrow> flow_graph \<Rightarrow> (nat \<times> nat) set" where
  "forward_edges F g = {(p, i). p < F \<and> 0 < i \<and> is_edge g (1 + p) i}"

definition matched_edges :: "nat \<Rightarrow> flow_graph \<Rightarrow> (nat \<times> nat) set" where
  "matched_edges F g = {(p, i) \<in> forward_edges F g. capacity g (1 + p) i = 0}"

definition native_of :: "flow_graph \<Rightarrow> nat \<times> nat \<Rightarrow> nat" where
  "native_of g x = target g (1 + fst x) (snd x)"

definition edge_matching :: "nat \<Rightarrow> flow_graph \<Rightarrow> (nat \<times> nat) set \<Rightarrow> bool" where
  "edge_matching F g A \<longleftrightarrow> A \<subseteq> forward_edges F g \<and> inj_on fst A \<and> inj_on (native_of g) A"

lemma finite_forward: "finite (forward_edges F g)"
proof -
  have "forward_edges F g \<subseteq> (SIGMA p:{..<F}. {..<length (g ! (1 + p))})" by (auto simp: forward_edges_def is_edge_def)
  then show ?thesis by (rule finite_subset) auto
qed

lemma finite_matching: "edge_matching F g A \<Longrightarrow> finite A"
  using finite_subset finite_forward by (auto simp: edge_matching_def)

lemma matched_forward: "matched_edges F g \<subseteq> forward_edges F g"
  by (auto simp: matched_edges_def)

lemma settledD:
  assumes "settled F N E g pot S"
  shows "layered F N E g" "paired g" "balanced g 0 pot" "closed_cut g 0 (1 + F + N) S"
    "p < F \<Longrightarrow> is_edge g (1 + p) i \<Longrightarrow> is_edge g (1 + p) j \<Longrightarrow> capacity g (1 + p) i = 0 \<Longrightarrow> capacity g (1 + p) j = 0 \<Longrightarrow> i = j"
    "p < F \<Longrightarrow> \<exists>i. is_edge g (1 + p) i \<and> capacity g (1 + p) i = 0"
    "n < N \<Longrightarrow> is_edge g (1 + F + n) i \<Longrightarrow> is_edge g (1 + F + n) j \<Longrightarrow> capacity g (1 + F + n) i = 1 \<Longrightarrow>
       capacity g (1 + F + n) j = 1 \<Longrightarrow> i = j"
    "n < N \<Longrightarrow> \<exists>i. is_edge g (1 + F + n) i \<and> capacity g (1 + F + n) i = 1"
  using assms unfolding settled_def by (blast+)

lemma forwardD:
  assumes l: "layered F N E g" and x: "(p, i) \<in> forward_edges F g"
  shows "p < F" "is_edge g (1 + p) i" "0 < i" "\<exists>n<N. native_of g (p, i) = 1 + F + n \<and> fe_nativePos (g ! (1 + p) ! i) = int n"
    "pair_edge F N E p (g ! (1 + p) ! i)"
proof -
  show "p < F" "is_edge g (1 + p) i" "0 < i" using x by (simp_all add: forward_edges_def)
  then show "pair_edge F N E p (g ! (1 + p) ! i)" using layeredD(3) [OF l] by blast
  then show "\<exists>n<N. native_of g (p, i) = 1 + F + n \<and> fe_nativePos (g ! (1 + p) ! i) = int n"
    by (auto simp: pair_edge_def native_of_def)
qed

lemma forward_native: "layered F N E g \<Longrightarrow> x \<in> forward_edges F g \<Longrightarrow> \<exists>n<N. native_of g x = 1 + F + n"
  using forwardD(4) [of F N E g "fst x" "snd x"] by auto

text \<open>A used edge makes capacity back from its native.\<close>

lemma used_edge:
  assumes s: "settled F N E g pot S" and x: "(p, i) \<in> matched_edges F g"
  shows "is_edge g (native_of g (p, i)) (partner g (1 + p) i) \<and> capacity g (native_of g (p, i)) (partner g (1 + p) i) = 1 \<and>
    target g (native_of g (p, i)) (partner g (1 + p) i) = 1 + p \<and>
    cost g (native_of g (p, i)) (partner g (1 + p) i) = - cost g (1 + p) i"
proof -
  have "is_edge g (1 + p) i" "capacity g (1 + p) i = 0" using x by (auto simp: matched_edges_def forward_edges_def)
  then show ?thesis using pairedD [OF settledD(2) [OF s], of "1 + p" i] by (simp add: native_of_def)
qed

lemma matched_is_matching:
  assumes s: "settled F N E g pot S"
  shows "edge_matching F g (matched_edges F g)"
proof -
  have "inj_on fst (matched_edges F g)"
  proof (rule inj_onI)
    fix x y
    assume xy: "x \<in> matched_edges F g" "y \<in> matched_edges F g" "fst x = fst y"
    then obtain p i j where "x = (p, i)" "y = (p, j)" by (cases x; cases y) auto
    then show "x = y" using xy settledD(5) [OF s, of p i j] by (auto simp: matched_edges_def forward_edges_def)
  qed
  moreover have "inj_on (native_of g) (matched_edges F g)"
  proof (rule inj_onI)
    fix x y
    assume xy: "x \<in> matched_edges F g" "y \<in> matched_edges F g" "native_of g x = native_of g y"
    obtain p i q j where d: "x = (p, i)" "y = (q, j)" by (cases x; cases y)
    obtain n where n: "n < N" "native_of g x = 1 + F + n"
      using forwardD(4) [OF settledD(1) [OF s]] matched_forward xy(1) d(1) by blast
    note ux = used_edge [OF s xy(1) [unfolded d]] and uy = used_edge [OF s xy(2) [unfolded d]]
    have eq: "native_of g (p, i) = 1 + F + n" "native_of g (q, j) = 1 + F + n" using n(2) xy(3) d by simp_all
    have "partner g (1 + p) i = partner g (1 + q) j"
      using settledD(7) [OF s n(1)] ux uy unfolding eq by blast
    moreover from this have "p = q" using ux uy unfolding eq by simp
    moreover have "is_edge g (1 + p) i" "is_edge g (1 + q) j"
      using xy d by (auto simp: matched_edges_def forward_edges_def)
    ultimately show "x = y" using d pairedD(4) [OF settledD(2) [OF s]] eq unfolding native_of_def by (metis fst_conv snd_conv)
  qed
  ultimately show ?thesis using matched_forward by (simp add: edge_matching_def)
qed

text \<open>An unmatched fallback has capacity from the source, an unmatched native has it to the sink.\<close>

lemma fallback_cases:
  assumes s: "settled F N E g pot S" and p: "p < F"
  obtains (used) i where "(p, i) \<in> matched_edges F g" "\<exists>j. residual g (1 + p) 0 \<and> target g (1 + p) 0 = 0 \<and> cost g (1 + p) 0 = 0"
  | (unused) j where "p \<notin> fst ` matched_edges F g" "residual g 0 j" "target g 0 j = 1 + p" "cost g 0 j = 0"
proof -
  note l = settledD(1) [OF s] and pr = settledD(2) [OF s]
  have b: "is_edge g (1 + p) 0" "target g (1 + p) 0 = 0" using layeredD(2) [OF l p] by simp_all
  note q = pairedD [OF pr b(1), unfolded b(2)]
  have c: "cost g (1 + p) 0 = 0" using layeredD(1) [OF l q(1)] q(5) by simp
  obtain i where i: "is_edge g (1 + p) i" "capacity g (1 + p) i = 0" using settledD(6) [OF s p] by blast
  show ?thesis
  proof (cases "i = 0")
    case True
    have "p \<notin> fst ` matched_edges F g"
    proof
      assume "p \<in> fst ` matched_edges F g"
      then obtain k where "0 < k" "is_edge g (1 + p) k" "capacity g (1 + p) k = 0" by (auto simp: matched_edges_def forward_edges_def)
      then show False using settledD(5) [OF s p _ i(1) _ i(2)] True by blast
    qed
    moreover have "residual g 0 (partner g (1 + p) 0)" using q i True by (simp add: residual_edge)
    ultimately show ?thesis using unused q(3,5) c by simp
  next
    case False
    then have "(p, i) \<in> matched_edges F g" using i p by (simp add: matched_edges_def forward_edges_def)
    moreover have "residual g (1 + p) 0" using q(6) settledD(5) [OF s p b(1) i(1) _ i(2)] False b(1) by (auto simp: residual_edge)
    ultimately show ?thesis using used b(2) c by blast
  qed
qed

lemma native_cases:
  assumes s: "settled F N E g pot S" and n: "n < N"
  obtains (used) j where "1 + F + n \<in> native_of g ` matched_edges F g" "residual g (1 + F + N) j"
      "target g (1 + F + N) j = 1 + F + n" "cost g (1 + F + N) j = 0"
  | (unused) "1 + F + n \<notin> native_of g ` matched_edges F g" "residual g (1 + F + n) 0" "target g (1 + F + n) 0 = 1 + F + N"
      "cost g (1 + F + n) 0 = 0"
proof -
  note l = settledD(1) [OF s] and pr = settledD(2) [OF s]
  have b: "is_edge g (1 + F + n) 0" "target g (1 + F + n) 0 = 1 + F + N" "cost g (1 + F + n) 0 = 0"
    using layeredD(4) [OF l n] by simp_all
  note q = pairedD [OF pr b(1), unfolded b(2)]
  obtain i where i: "is_edge g (1 + F + n) i" "capacity g (1 + F + n) i = 1" using settledD(8) [OF s n] by blast
  show ?thesis
  proof (cases "i = 0")
    case True
    have "1 + F + n \<notin> native_of g ` matched_edges F g"
    proof
      assume "1 + F + n \<in> native_of g ` matched_edges F g"
      then obtain p k where x: "(p, k) \<in> matched_edges F g" "native_of g (p, k) = 1 + F + n" by force
      note u = used_edge [OF s x(1), unfolded x(2)]
      then have "partner g (1 + p) k = 0" using settledD(7) [OF s n _ i(1) _ i(2)] True by blast
      then have "target g (1 + F + n) 0 = 1 + p" using u by simp
      moreover have "p < F" using x(1) by (simp add: matched_edges_def forward_edges_def)
      ultimately show False using b(2) by simp
    qed
    then show ?thesis using unused b i True by (simp add: residual_edge)
  next
    case False
    then obtain p where p: "p < F" "target g (1 + F + n) i = 1 + p" using layeredD(5) [OF l n _ i(1)] by blast
    note r = pairedD [OF pr i(1), unfolded p(2)]
    have "partner g (1 + F + n) i \<noteq> 0"
    proof
      assume "partner g (1 + F + n) i = 0"
      then show False using r(3) layeredD(2) [OF l p(1)] by simp
    qed
    then have "(p, partner g (1 + F + n) i) \<in> matched_edges F g" using p r i by (simp add: matched_edges_def forward_edges_def)
    moreover have "native_of g (p, partner g (1 + F + n) i) = 1 + F + n" using r(3) by (simp add: native_of_def)
    ultimately have "1 + F + n \<in> native_of g ` matched_edges F g" by (metis image_eqI)
    moreover have "capacity g (1 + F + n) 0 = 0"
      using q(6) settledD(7) [OF s n b(1) i(1) _ i(2)] False by blast
    then have "residual g (1 + F + N) (partner g (1 + F + n) 0)" using q by (simp add: residual_edge)
    ultimately show ?thesis using used q(3,5) b(3) by simp
  qed
qed

text \<open>The same as inequalities on the last potentials, and for the set of reached nodes.\<close>

lemma residual_potential:
  "settled F N E g pot S \<Longrightarrow> residual g u i \<Longrightarrow> pot (target g u i) \<le> pot u + cost g u i"
  using feasibleD [OF settledD(3)] by (auto simp: residual_def)

lemma reached_closed:
  "settled F N E g pot S \<Longrightarrow> residual g u i \<Longrightarrow> u \<in> S \<Longrightarrow> target g u i \<in> S"
  using settledD(4) unfolding closed_cut_def by blast

lemma source_and_sink: "settled F N E g pot S \<Longrightarrow> 0 \<in> S \<and> 1 + F + N \<notin> S"
  using settledD(4) unfolding closed_cut_def by blast

lemma fallback_matched:
  assumes s: "settled F N E g pot S" and p: "p < F" and m: "p \<in> fst ` matched_edges F g"
  shows "pot 0 \<le> pot (1 + p)"
proof (rule fallback_cases [OF s p])
  fix i
  assume "\<exists>j. residual g (1 + p) 0 \<and> target g (1 + p) 0 = 0 \<and> cost g (1 + p) 0 = 0"
  then show ?thesis using residual_potential [OF s, of "1 + p" 0] by simp
qed (use m in blast)

lemma fallback_unmatched:
  assumes s: "settled F N E g pot S" and p: "p < F" and m: "p \<notin> fst ` matched_edges F g"
  shows "pot (1 + p) \<le> pot 0 \<and> 1 + p \<in> S"
proof (rule fallback_cases [OF s p])
  fix j
  assume j: "residual g 0 j" "target g 0 j = 1 + p" "cost g 0 j = 0"
  then show ?thesis using residual_potential [OF s j(1)] reached_closed [OF s j(1)] source_and_sink [OF s] by simp
qed (use m in force)

lemma native_matched:
  assumes s: "settled F N E g pot S" and n: "n < N" and m: "1 + F + n \<in> native_of g ` matched_edges F g"
  shows "pot (1 + F + n) \<le> pot (1 + F + N)"
proof (rule native_cases [OF s n])
  fix j
  assume j: "residual g (1 + F + N) j" "target g (1 + F + N) j = 1 + F + n" "cost g (1 + F + N) j = 0"
  then show ?thesis using residual_potential [OF s j(1)] by simp
qed (use m in blast)

lemma native_unmatched:
  assumes s: "settled F N E g pot S" and n: "n < N" and m: "1 + F + n \<notin> native_of g ` matched_edges F g"
  shows "pot (1 + F + N) \<le> pot (1 + F + n) \<and> 1 + F + n \<notin> S"
proof (rule native_cases [OF s n])
  assume j: "residual g (1 + F + n) 0" "target g (1 + F + n) 0 = 1 + F + N" "cost g (1 + F + n) 0 = 0"
  then show ?thesis using residual_potential [OF s j(1)] reached_closed [OF s j(1)] source_and_sink [OF s] by auto
qed (use m in blast)

section \<open>No matching has more pairs\<close>

lemma covered_edge:
  assumes s: "settled F N E g pot S" and x: "(p, i) \<in> forward_edges F g" and p: "1 + p \<in> S"
  shows "native_of g (p, i) \<in> S"
proof (cases "capacity g (1 + p) i = 0")
  case False
  have e: "is_edge g (1 + p) i" using x by (simp add: forward_edges_def)
  then have "residual g (1 + p) i" using False pairedD(6) [OF settledD(2) [OF s] e] by (auto simp: residual_edge)
  then show ?thesis using settledD(4) [OF s] p by (simp add: closed_cut_def native_of_def)
next
  case True
  have e: "is_edge g (1 + p) i" and pF: "p < F" using x by (simp_all add: forward_edges_def)
  obtain u j where u: "u \<in> S" "residual g u j" "target g u j = 1 + p"
    using settledD(4) [OF s] p unfolding closed_cut_def by force
  then have uj: "is_edge g u j" "0 < capacity g u j" by (simp_all add: residual_edge)
  note k = pairedD [OF settledD(2) [OF s] uj(1), unfolded u(3)]
  have "capacity g (1 + p) (partner g u j) = 0" using k(6,7) uj(2) by auto
  then have "partner g u j = i" using settledD(5) [OF s pF k(1) e] True by blast
  then show ?thesis using k(3) u(1) by (simp add: native_of_def)
qed

text \<open>The fallbacks that were not reached and the natives that were touch every edge, and each is matched.\<close>

lemma matching_cardinality:
  assumes s: "settled F N E g pot S" and a: "edge_matching F g A"
  shows "card A \<le> card (matched_edges F g)"
proof -
  let ?M = "matched_edges F g"
  let ?A1 = "{x \<in> A. 1 + fst x \<notin> S}" and ?A2 = "{x \<in> A. 1 + fst x \<in> S}"
  let ?M1 = "{x \<in> ?M. 1 + fst x \<notin> S}" and ?M2 = "{x \<in> ?M. native_of g x \<in> S}"
  have fin: "finite A" "finite ?M" using finite_matching a matched_is_matching [OF s] by blast+
  have sub: "A \<subseteq> forward_edges F g" "inj_on fst A" "inj_on (native_of g) A" using a by (simp_all add: edge_matching_def)
  have "p \<in> fst ` ?M1" if x: "(p, i) \<in> A" "1 + p \<notin> S" for p i
  proof -
    have "p < F" using x(1) sub(1) by (auto simp: forward_edges_def)
    then have "p \<in> fst ` ?M" using fallback_unmatched [OF s] x(2) by blast
    then show ?thesis using x(2) by force
  qed
  then have "fst ` ?A1 \<subseteq> fst ` ?M1" by auto
  moreover have "native_of g (p, i) \<in> native_of g ` ?M2" if x: "(p, i) \<in> A" "1 + p \<in> S" for p i
  proof -
    have f: "(p, i) \<in> forward_edges F g" using x sub by blast
    have v: "native_of g (p, i) \<in> S" by (rule covered_edge [OF s f x(2)])
    obtain n where n: "n < N" "native_of g (p, i) = 1 + F + n" using forwardD(4) [OF settledD(1) [OF s] f] by auto
    then have "native_of g (p, i) \<in> native_of g ` ?M" using native_unmatched [OF s n(1)] v by auto
    then show ?thesis using v by force
  qed
  then have "native_of g ` ?A2 \<subseteq> native_of g ` ?M2" by auto
  ultimately have c: "card (fst ` ?A1) \<le> card ?M1" "card (native_of g ` ?A2) \<le> card ?M2"
    using surj_card_le [of ?M1 "fst ` ?A1" fst] surj_card_le [of ?M2 "native_of g ` ?A2" "native_of g"] fin by simp_all
  have i: "card (fst ` ?A1) = card ?A1" "card (native_of g ` ?A2) = card ?A2"
    by (rule card_image, rule inj_on_subset [OF sub(2)], blast) (rule card_image, rule inj_on_subset [OF sub(3)], blast)
  have False if x: "(p, i) \<in> ?M" "1 + p \<notin> S" "native_of g (p, i) \<in> S" for p i
  proof -
    note u = used_edge [OF s x(1)]
    then have "residual g (native_of g (p, i)) (partner g (1 + p) i)" by (simp add: residual_edge)
    from reached_closed [OF s this x(3)] show False using u x(2) by simp
  qed
  then have "?M1 \<inter> ?M2 = {}" by auto
  then have "card ?M1 + card ?M2 = card (?M1 \<union> ?M2)" using fin by (simp add: card_Un_disjoint)
  also have "\<dots> \<le> card ?M" by (rule card_mono) (use fin in auto)
  finally have "card ?M1 + card ?M2 \<le> card ?M" .
  moreover have "card A = card (?A1 \<union> ?A2)" by (rule arg_cong [of _ _ card]) blast
  then have "card A = card ?A1 + card ?A2" using fin by (simp add: card_Un_disjoint disjoint_iff)
  ultimately show ?thesis using c i by linarith
qed

section \<open>No matching with as many pairs is cheaper\<close>

lemma sum_compare:
  fixes h :: "'a \<Rightarrow> protocolFlowCost"
  assumes "finite A" "finite B" "\<And>x. x \<in> A - B \<Longrightarrow> 0 \<le> h x" "\<And>x. x \<in> B \<Longrightarrow> h x \<le> 0"
  shows "sum h B \<le> sum h A"
proof -
  have "sum h B = sum h (B - A) + sum h (A \<inter> B)"
    using assms(2) by (subst sum.union_disjoint [symmetric]) (auto intro: sum.cong)
  also have "\<dots> \<le> 0 + sum h (A \<inter> B)" by (intro add_right_mono sum_nonpos) (use assms(4) in auto)
  also have "\<dots> \<le> sum h (A - B) + sum h (A \<inter> B)" by (intro add_right_mono sum_nonneg) (use assms(3) in auto)
  also have "\<dots> = sum h A" using assms(1) by (subst sum.union_disjoint [symmetric]) (auto intro: sum.cong)
  finally show ?thesis .
qed

lemma sum_const_eq:
  assumes "finite A" "finite B" "card A = card B"
  shows "(\<Sum>x\<in>A. k) = (\<Sum>x\<in>B. k :: protocolFlowCost)"
proof -
  obtain f where "bij_betw f A B" using finite_same_card_bij [OF assms] by blast
  then show ?thesis using sum.reindex_bij_betw [of f A B "\<lambda>_. k"] by simp
qed

definition edge_cost_of :: "flow_graph \<Rightarrow> nat \<times> nat \<Rightarrow> protocolFlowCost" where
  "edge_cost_of g x = cost g (1 + fst x) (snd x)"

lemma matching_cost:
  assumes s: "settled F N E g pot S" and a: "edge_matching F g A" and c: "card A = card (matched_edges F g)"
  shows "sum (edge_cost_of g) (matched_edges F g) \<le> sum (edge_cost_of g) A"
proof -
  let ?M = "matched_edges F g" and ?t = "1 + F + N"
  let ?rc = "\<lambda>x. edge_cost_of g x + pot (1 + fst x) - pot (native_of g x)"
  let ?q = "\<lambda>p. pot 0 - pot (1 + p)" and ?r = "\<lambda>v. pot v - pot ?t"
  have m: "edge_matching F g ?M" by (rule matched_is_matching [OF s])
  note fin = finite_matching [OF a] finite_matching [OF m]
  note step = residual_potential [OF s]
  have split: "sum (edge_cost_of g) B = sum ?rc B + sum ?q (fst ` B) + sum ?r (native_of g ` B) + (\<Sum>x\<in>B. pot ?t - pot 0)"
    if b: "edge_matching F g B" for B
  proof -
    have "sum ?q (fst ` B) = (\<Sum>x\<in>B. ?q (fst x))" "sum ?r (native_of g ` B) = (\<Sum>x\<in>B. ?r (native_of g x))"
      using b by (simp_all add: edge_matching_def sum.reindex)
    then show ?thesis by (simp add: sum.distrib [symmetric] algebra_simps)
  qed
  have rc: "sum ?rc ?M \<le> sum ?rc A"
  proof (rule sum_compare [OF fin])
    fix x
    assume x: "x \<in> A - ?M"
    obtain p i where d: "x = (p, i)" by (cases x)
    have f: "(p, i) \<in> forward_edges F g" "capacity g (1 + p) i \<noteq> 0"
      using x a d by (auto simp: edge_matching_def matched_edges_def)
    then have e: "is_edge g (1 + p) i" by (simp add: forward_edges_def)
    have "residual g (1 + p) i" using f(2) e pairedD(6) [OF settledD(2) [OF s] e] by (auto simp: residual_edge)
    from step [OF this] show "0 \<le> ?rc x" by (simp add: d edge_cost_of_def native_of_def algebra_simps)
  next
    fix x
    assume x: "x \<in> ?M"
    obtain p i where d: "x = (p, i)" by (cases x)
    note u = used_edge [OF s x [unfolded d]]
    then have "residual g (native_of g (p, i)) (partner g (1 + p) i)" by (simp add: residual_edge)
    from step [OF this] show "?rc x \<le> 0" using u by (simp add: d edge_cost_of_def algebra_simps)
  qed
  have q: "sum ?q (fst ` ?M) \<le> sum ?q (fst ` A)"
  proof (rule sum_compare)
    fix p
    assume x: "p \<in> fst ` A - fst ` ?M"
    then have p: "p < F" using a by (auto simp: edge_matching_def forward_edges_def)
    show "0 \<le> ?q p" using fallback_unmatched [OF s p] x by simp
  next
    fix p
    assume x: "p \<in> fst ` ?M"
    then have p: "p < F" by (auto simp: matched_edges_def forward_edges_def)
    show "?q p \<le> 0" using fallback_matched [OF s p x] by simp
  qed (use fin in auto)
  have r: "sum ?r (native_of g ` ?M) \<le> sum ?r (native_of g ` A)"
  proof (rule sum_compare)
    fix v
    assume v: "v \<in> native_of g ` A - native_of g ` ?M"
    then obtain x where x: "x \<in> forward_edges F g" "v = native_of g x" using a by (auto simp: edge_matching_def)
    then obtain n where n: "n < N" "v = 1 + F + n" using forward_native [OF settledD(1) [OF s] x(1)] by auto
    show "0 \<le> ?r v" using native_unmatched [OF s n(1)] v n(2) by simp
  next
    fix v
    assume v: "v \<in> native_of g ` ?M"
    then obtain x where x: "x \<in> forward_edges F g" "v = native_of g x" using matched_forward by blast
    then obtain n where n: "n < N" "v = 1 + F + n" using forward_native [OF settledD(1) [OF s] x(1)] by auto
    show "?r v \<le> 0" using native_matched [OF s n(1)] v n(2) by simp
  qed (use fin in auto)
  show ?thesis
    unfolding split [OF a] split [OF m] sum_const_eq [OF fin c]
    by (intro add_mono rc q r order_refl)
qed

end
