(* ===== verification/AssignmentGraph.thy ===== *)
theory AssignmentGraph
  imports OptimalMatching
begin

text \<open>
  The graph the matching starts with, the state the rounds end with, and the theorem of the
  matching.
\<close>

section \<open>Adding an edge\<close>

lemma add_edge:
  fixes c :: protocolFlowCost and np :: int
  assumes "u < length g" "v < length g" "u \<noteq> v"
  defines "g' \<equiv> addProtocolFlowEdge u v c np g"
  shows "length g' = length g"
    "g' ! x = g ! x @ (if x = u then [\<lparr> fe_to = v, fe_rev = length (g ! v), fe_capacity = 1, fe_cost = c, fe_nativePos = np \<rparr>]
       else if x = v then [\<lparr> fe_to = u, fe_rev = length (g ! u), fe_capacity = 0, fe_cost = - c, fe_nativePos = -1 \<rparr>] else [])"
  using assms by (auto simp: addProtocolFlowEdge_def Let_def nth_list_update)

lemma add_edge_paired:
  assumes uv: "u < length g" "v < length g" "u \<noteq> v" and p: "paired g"
  shows "paired (addProtocolFlowEdge u v c np g)"
  unfolding paired_def
proof (intro allI impI)
  fix x k
  let ?g = "addProtocolFlowEdge u v c np g"
  note add = add_edge [OF uv, of c np]
  assume x: "is_edge ?g x k"
  show "paired_edge ?g x k (target ?g x k) (partner ?g x k)"
  proof (cases "is_edge g x k")
    case True
    then have eq: "?g ! x ! k = g ! x ! k" by (simp add: is_edge_def add nth_append)
    note q = pairedD [OF p True]
    then have "?g ! target g x k ! partner g x k = g ! target g x k ! partner g x k"
      "is_edge ?g (target g x k) (partner g x k)" by (simp_all add: is_edge_def add nth_append)
    then show ?thesis using q unfolding eq paired_edge_def by auto
  next
    case False
    then have "x = u \<and> k = length (g ! u) \<or> x = v \<and> k = length (g ! v)"
      using x by (auto simp: is_edge_def add split: if_splits)
    then show ?thesis using uv by (auto simp: paired_edge_def is_edge_def add)
  qed
qed

section \<open>The first graph\<close>

definition fallback_start :: "protocolFlowEdge list \<Rightarrow> bool" where
  "fallback_start es \<longleftrightarrow> (\<exists>b fs. es = b # fs \<and> fe_capacity b = 0 \<and> list_all (\<lambda>e. fe_capacity e = 1) fs)"

definition native_start :: "protocolFlowEdge list \<Rightarrow> bool" where
  "native_start es \<longleftrightarrow> (\<exists>s bs. es = s # bs \<and> fe_capacity s = 1 \<and> list_all (\<lambda>e. fe_capacity e = 0) bs)"

definition built :: "nat \<Rightarrow> nat \<Rightarrow> problem \<Rightarrow> nat \<Rightarrow> nat \<Rightarrow> flow_graph \<Rightarrow> bool" where
  "built F N E a b g \<longleftrightarrow> length g = F + N + 2 \<and> paired g \<and> list_all (\<lambda>e. fe_cost e = 0 \<and> (\<exists>p<F. fe_to e = 1 + p)) (g ! 0) \<and>
     (\<forall>p<F. (p < a \<longrightarrow> fallback_node F N E p (g ! (1 + p)) \<and> fallback_start (g ! (1 + p))) \<and>
        (a \<le> p \<longrightarrow> g ! (1 + p) = [])) \<and>
     (\<forall>n<N. (n < b \<longrightarrow> native_node F N (g ! (1 + F + n)) \<and> native_start (g ! (1 + F + n))) \<and>
        (b \<le> n \<longrightarrow> g ! (1 + F + n) = [])) \<and>
     list_all (\<lambda>e. fe_capacity e = 0) (g ! (1 + F + N))"

lemma built_empty: "built F N E 0 0 (replicate (1 + F + N + 1) [])"
proof -
  have "\<not> is_edge (replicate n []) u i" for n u i by (auto simp: is_edge_def)
  moreover have "replicate (1 + F + N + 1) [] ! u = []" if "u < F + N + 2" for u using that by (simp del: replicate.simps)
  ultimately show ?thesis unfolding built_def paired_def by (simp del: replicate.simps)
qed

lemma built_source:
  assumes b: "built F N E a 0 g" and a: "a < F"
  shows "built F N E (Suc a) 0 (addProtocolFlowEdge 0 (1 + a) 0 (-1) g)"
proof -
  have uv: "0 < length g" "1 + a < length g" "0 \<noteq> 1 + a" using b a by (simp_all add: built_def)
  note add = add_edge [OF uv, of 0 "-1", unfolded plus_1_eq_Suc add_Suc]
  let ?g = "addProtocolFlowEdge 0 (1 + a) 0 (-1) g"
  have "paired ?g" using b by (intro add_edge_paired uv) (simp add: built_def)
  moreover have "list_all (\<lambda>e. fe_cost e = 0 \<and> (\<exists>p<F. fe_to e = 1 + p)) (?g ! 0)" using b a by (simp add: built_def add)
  moreover have "(p < Suc a \<longrightarrow> fallback_node F N E p (?g ! (1 + p)) \<and> fallback_start (?g ! (1 + p))) \<and> (Suc a \<le> p \<longrightarrow> ?g ! (1 + p) = [])"
    if p: "p < F" for p
  proof -
    have old: "(p < a \<longrightarrow> fallback_node F N E p (g ! (1 + p)) \<and> fallback_start (g ! (1 + p))) \<and> (a \<le> p \<longrightarrow> g ! (1 + p) = [])"
      using b p by (simp add: built_def)
    show ?thesis
    proof (cases "p = a")
      case True
      then show ?thesis using old by (simp add: add fallback_node_def fallback_start_def)
    qed (use old in \<open>auto simp: add less_Suc_eq\<close>)
  qed
  moreover have "?g ! (1 + F + n) = g ! (1 + F + n)" for n using a by (simp add: add)
  ultimately show ?thesis using b add(1) by (simp add: built_def)
qed

lemma built_sink:
  assumes b: "built F N E F b g" and b': "b < N"
  shows "built F N E F (Suc b) (addProtocolFlowEdge (1 + F + b) (1 + F + N) 0 (-1) g)"
proof -
  have uv: "1 + F + b < length g" "1 + F + N < length g" "1 + F + b \<noteq> 1 + F + N" using b b' by (simp_all add: built_def)
  note add = add_edge [OF uv, of 0 "-1", unfolded plus_1_eq_Suc add_Suc]
  let ?g = "addProtocolFlowEdge (1 + F + b) (1 + F + N) 0 (-1) g"
  have "paired ?g" using b by (intro add_edge_paired uv) (simp add: built_def)
  moreover have "list_all (\<lambda>e. fe_capacity e = 0) (?g ! (1 + F + N))" using b b' by (simp add: built_def add)
  moreover have "(n < Suc b \<longrightarrow> native_node F N (?g ! (1 + F + n)) \<and> native_start (?g ! (1 + F + n))) \<and> (Suc b \<le> n \<longrightarrow> ?g ! (1 + F + n) = [])"
    if n: "n < N" for n
  proof -
    have old: "(n < b \<longrightarrow> native_node F N (g ! (1 + F + n)) \<and> native_start (g ! (1 + F + n))) \<and> (b \<le> n \<longrightarrow> g ! (1 + F + n) = [])"
      using b n by (simp add: built_def)
    show ?thesis
    proof (cases "n = b")
      case True
      then show ?thesis using old b' by (simp add: add native_node_def native_start_def)
    qed (use old n in \<open>auto simp: add less_Suc_eq\<close>)
  qed
  moreover have "?g ! 0 = g ! 0" "p < F \<Longrightarrow> ?g ! (1 + p) = g ! (1 + p)" for p by (simp_all add: add)
  ultimately show ?thesis using b add(1) by (simp add: built_def)
qed

lemma built_pair:
  assumes b: "built F N E F N g" and pn: "p < F" "n < N" "E p n = Some er"
  shows "built F N E F N (addProtocolFlowEdge (1 + p) (1 + F + n) (edge_cost er r) (int n) g)"
proof -
  have uv: "1 + p < length g" "1 + F + n < length g" "1 + p \<noteq> 1 + F + n" using b pn by (simp_all add: built_def)
  note add = add_edge [OF uv, of "edge_cost er r" "int n", unfolded plus_1_eq_Suc add_Suc]
  let ?g = "addProtocolFlowEdge (1 + p) (1 + F + n) (edge_cost er r) (int n) g"
  have "paired ?g" using b by (intro add_edge_paired uv) (simp add: built_def)
  moreover have "fallback_node F N E q (?g ! (1 + q)) \<and> fallback_start (?g ! (1 + q))" if q: "q < F" for q
  proof -
    have f: "fallback_node F N E q (g ! (1 + q))" "fallback_start (g ! (1 + q))" using b q by (simp_all add: built_def)
    show ?thesis
    proof (cases "q = p")
      case True
      then have x: "?g ! (1 + q) = g ! (1 + q) @ [\<lparr> fe_to = 1 + F + n, fe_rev = length (g ! (1 + F + n)), fe_capacity = 1,
          fe_cost = edge_cost er r, fe_nativePos = int n \<rparr>]" by (simp add: add)
      show ?thesis using f pn True unfolding x fallback_node_def fallback_start_def by (auto simp: pair_edge_def)
    qed (use f q in \<open>simp add: add\<close>)
  qed
  moreover have "native_node F N (?g ! (1 + F + m)) \<and> native_start (?g ! (1 + F + m))" if m: "m < N" for m
  proof -
    have f: "native_node F N (g ! (1 + F + m))" "native_start (g ! (1 + F + m))" using b m by (simp_all add: built_def)
    show ?thesis
    proof (cases "m = n")
      case True
      then have x: "?g ! (1 + F + m) = g ! (1 + F + m) @ [\<lparr> fe_to = 1 + p, fe_rev = length (g ! (1 + p)), fe_capacity = 0,
          fe_cost = - edge_cost er r, fe_nativePos = -1 \<rparr>]" using pn by (simp add: add)
      show ?thesis using f pn unfolding x native_node_def native_start_def by auto
    qed (use f pn in \<open>simp add: add\<close>)
  qed
  moreover have "?g ! 0 = g ! 0" "?g ! (1 + F + N) = g ! (1 + F + N)" using pn by (simp_all add: add)
  ultimately show ?thesis using b add(1) by (simp add: built_def)
qed

lemma fold_upt: "P 0 s \<Longrightarrow> (\<And>k s. k < n \<Longrightarrow> P k s \<Longrightarrow> P (Suc k) (f k s)) \<Longrightarrow> P n (fold f [0..<n] s)"
  by (induction n) auto

section \<open>The edges of the first graph\<close>

lemma position_in_some: "position_in xs x = Some i \<Longrightarrow> i < length xs \<and> xs ! i = x"
  by (induction xs arbitrary: i) (auto split: if_splits)

lemma position_in_nth: "distinct xs \<Longrightarrow> i < length xs \<Longrightarrow> position_in xs (xs ! i) = Some i"
proof (induction xs arbitrary: i)
  case (Cons x xs)
  then show ?case by (cases i) auto
qed simp

definition edge_between :: "candidate_set \<Rightarrow> nat \<Rightarrow> nat \<Rightarrow> protocolCorrelationEdgeResult option" where
  "edge_between candidates f n = go_get (go_getd [] candidates f) n"

definition problem_of :: "nat list \<Rightarrow> nat list \<Rightarrow> candidate_set \<Rightarrow> problem" where
  "problem_of fallbacks natives candidates p n = edge_between candidates (fallbacks ! p) (natives ! n)"

lemma set_nativePositions:
  assumes "distinct natives"
  shows "n \<in> set (nativePositions natives candidates obs (fallbacks ! p)) \<longleftrightarrow>
    n < length natives \<and> problem_of fallbacks natives candidates p n \<noteq> None"
proof -
  have "n \<in> set (nativePositions natives candidates obs (fallbacks ! p)) \<longleftrightarrow>
      (\<exists>x\<in>set (go_keys (go_getd [] candidates (fallbacks ! p))). position_in natives x = Some n)"
    by (force simp: nativePositions_def List.map_filter_def)
  also have "\<dots> \<longleftrightarrow> n < length natives \<and> natives ! n \<in> set (go_keys (go_getd [] candidates (fallbacks ! p)))"
    using position_in_some position_in_nth [OF assms] by metis
  finally show ?thesis by (simp add: problem_of_def edge_between_def map_of_eq_None_iff)
qed

definition has_edge :: "flow_graph \<Rightarrow> nat \<Rightarrow> nat \<Rightarrow> bool" where
  "has_edge g p n \<longleftrightarrow> (\<exists>e\<in>set (g ! (1 + p)). fe_nativePos e = int n)"

lemma has_edge_add:
  assumes "u < length g" "v < length g" "u \<noteq> v"
  shows "has_edge g p n \<Longrightarrow> has_edge (addProtocolFlowEdge u v c np g) p n"
    "u = 1 + p \<Longrightarrow> np = int n \<Longrightarrow> has_edge (addProtocolFlowEdge u v c np g) p n"
  unfolding has_edge_def add_edge(2) [OF assms] by auto

text \<open>All pairs of the fallbacks before \<open>k\<close> have their edge.\<close>

definition complete_to :: "nat \<Rightarrow> nat \<Rightarrow> problem \<Rightarrow> nat \<Rightarrow> flow_graph \<Rightarrow> bool" where
  "complete_to F N E k g \<longleftrightarrow> built F N E F N g \<and> (\<forall>p<k. \<forall>n<N. E p n \<noteq> None \<longrightarrow> has_edge g p n)"

lemma fallback_edges_ok:
  assumes d: "distinct natives" and p: "p < length fallbacks"
    and g: "complete_to (length fallbacks) (length natives) (problem_of fallbacks natives candidates) p g"
  shows "complete_to (length fallbacks) (length natives) (problem_of fallbacks natives candidates) (Suc p)
    (fallback_edges fallbacks natives candidates obs p g)"
proof -
  let ?F = "length fallbacks" and ?N = "length natives" and ?E = "problem_of fallbacks natives candidates"
  let ?ns = "nativePositions natives candidates obs (fallbacks ! p)"
  let ?step = "\<lambda>(rank, nativePos) graph. case go_get (go_getd [] candidates (fallbacks ! p)) (natives ! nativePos) of
      None \<Rightarrow> graph
    | Some edge \<Rightarrow> addProtocolFlowEdge (1 + p) (1 + ?F + nativePos) (edge_cost edge rank) (int nativePos) graph"
  have steps: "complete_to ?F ?N ?E p (fold ?step (enumerate r xs) g) \<and> (\<forall>n\<in>set xs. has_edge (fold ?step (enumerate r xs) g) p n)"
    if "set xs \<subseteq> set ?ns" "complete_to ?F ?N ?E p g" for r xs g
    using that
  proof (induction xs arbitrary: r rule: rev_induct)
    case (snoc x xs)
    let ?g = "fold ?step (enumerate r xs) g"
    have g: "complete_to ?F ?N ?E p ?g" "\<forall>n\<in>set xs. has_edge ?g p n" using snoc by simp_all
    have x: "x < ?N" "?E p x \<noteq> None" using snoc.prems(1) set_nativePositions [OF d] by auto
    then obtain er where er: "?E p x = Some er" by auto
    have b: "built ?F ?N ?E ?F ?N ?g" using g(1) by (simp add: complete_to_def)
    have uv: "1 + p < length ?g" "1 + ?F + x < length ?g" "1 + p \<noteq> 1 + ?F + x" using b p x by (simp_all add: built_def)
    let ?h = "addProtocolFlowEdge (1 + p) (1 + ?F + x) (edge_cost er (r + length xs)) (int x) ?g"
    have h: "fold ?step (enumerate r (xs @ [x])) g = ?h"
      using er by (simp add: enumerate_append_eq problem_of_def edge_between_def)
    have "built ?F ?N ?E ?F ?N ?h" by (rule built_pair [OF b p x(1) er])
    moreover have "has_edge ?h q n" if "has_edge ?g q n" for q n using has_edge_add(1) [OF uv that] .
    moreover have "has_edge ?h p x" using has_edge_add(2) [OF uv] by simp
    ultimately show ?case using g unfolding h complete_to_def by auto
  qed simp
  have "complete_to ?F ?N ?E p (fold ?step (enumerate 0 ?ns) g) \<and> (\<forall>n\<in>set ?ns. has_edge (fold ?step (enumerate 0 ?ns) g) p n)"
    by (rule steps [OF subset_refl g])
  then show ?thesis
    unfolding complete_to_def fallback_edges_def Let_def less_Suc_eq
    using set_nativePositions [OF d, of _ candidates obs fallbacks p] by auto
qed

lemma initial_graph_complete:
  assumes d: "distinct natives"
  shows "complete_to (length fallbacks) (length natives) (problem_of fallbacks natives candidates) (length fallbacks)
    (initial_graph fallbacks natives candidates obs)"
proof -
  let ?F = "length fallbacks" and ?N = "length natives" and ?E = "problem_of fallbacks natives candidates"
  let ?g0 = "replicate (1 + ?F + ?N + 1) []"
  let ?g1 = "fold (\<lambda>pos. addProtocolFlowEdge 0 (1 + pos) 0 (-1)) [0..<?F] ?g0"
  let ?g2 = "fold (\<lambda>pos. addProtocolFlowEdge (1 + ?F + pos) (1 + ?F + ?N) 0 (-1)) [0..<?N] ?g1"
  have "built ?F ?N ?E ?F 0 ?g1"
    by (rule fold_upt [where P = "\<lambda>k. built ?F ?N ?E k 0", OF built_empty]) (rule built_source)
  then have "built ?F ?N ?E ?F ?N ?g2"
    by (rule fold_upt [where P = "\<lambda>k. built ?F ?N ?E ?F k"]) (rule built_sink)
  then have "complete_to ?F ?N ?E 0 ?g2" by (simp add: complete_to_def)
  then have "complete_to ?F ?N ?E ?F (fold (fallback_edges fallbacks natives candidates obs) [0..<?F] ?g2)"
    by (rule fold_upt [where P = "complete_to ?F ?N ?E"]) (rule fallback_edges_ok [OF d])
  then show ?thesis by (simp add: initial_graph_def Let_def)
qed

section \<open>The rounds settle the graph\<close>

lemma degree_sum_list: "degree g u = sum_list (map fe_capacity (g ! u))"
  by (simp add: degree_def sum_list_sum_nth atLeast0LessThan)

lemma sum_list_const: "list_all (\<lambda>e. fe_capacity e = k) es \<Longrightarrow> sum_list (map fe_capacity es) = int (length es) * k"
  by (induction es) (auto simp: algebra_simps)

lemma start_degree:
  "fallback_start (g ! u) \<Longrightarrow> degree g u = int (length (g ! u)) - 1"
  "native_start (g ! u) \<Longrightarrow> degree g u = 1"
  by (auto simp: fallback_start_def native_start_def degree_sum_list sum_list_const)

lemma unique_index:
  assumes "finite A" "\<And>i. i \<in> A \<Longrightarrow> c i \<in> {0, 1 :: int}" "sum c A = 1"
  shows "\<exists>!i. i \<in> A \<and> c i = 1"
proof -
  have "sum c A = (\<Sum>i\<in>A. if c i = 1 then 1 else 0)" using assms(2) by (intro sum.cong) auto
  also have "\<dots> = int (card {i \<in> A. c i = 1})" using assms(1) by (simp add: sum.If_cases Int_def)
  finally have "card {i \<in> A. c i = 1} = 1" using assms(3) by simp
  then obtain i where i: "{i \<in> A. c i = 1} = {i}" by (rule card_1_singletonE)
  show ?thesis by (rule ex1I [of _ i]) (use i in auto)
qed

lemma one_full:
  assumes p: "paired g" and u: "u < length g" and d: "degree g u = 1"
  shows "\<exists>!i. is_edge g u i \<and> capacity g u i = 1"
  using unique_index [of "{..<length (g ! u)}" "capacity g u"] pairedD(6) [OF p, of u] u d
  by (auto simp: is_edge_def degree_def)

lemma one_empty:
  assumes p: "paired g" and u: "u < length g" and d: "degree g u = int (length (g ! u)) - 1"
  shows "\<exists>!i. is_edge g u i \<and> capacity g u i = 0"
  using unique_index [of "{..<length (g ! u)}" "\<lambda>i. 1 - capacity g u i"] pairedD(6) [OF p, of u] u d
  by (auto simp: is_edge_def degree_def sum_subtractf)

text \<open>The first potentials: zero for the source and the fallbacks, the least cost for the others.\<close>

lemma start_balanced:
  assumes b: "built F N E F N g"
  shows "\<exists>pot. balanced g 0 pot"
proof -
  let ?C = "insert 0 ((\<lambda>(u, i). cost g u i) ` all_edges g)"
  let ?m = "Min ?C"
  let ?pot = "\<lambda>v. if v \<le> F then 0 else ?m"
  have fin: "finite ?C" by (simp add: all_edges_def)
  have m: "?m \<le> 0" "is_edge g u i \<Longrightarrow> ?m \<le> cost g u i" for u i
    by (rule Min_le [OF fin], simp) (rule Min_le [OF fin], force simp: all_edges_def is_edge_def)
  have len: "length g = F + N + 2" and p: "paired g" using b by (simp_all add: built_def)
  have "?pot (target g u i) \<le> ?pot u + cost g u i" if r: "residual g u i" for u i
  proof -
    have e: "is_edge g u i" "0 < capacity g u i" using r by (simp_all add: residual_edge)
    then have i: "u < F + N + 2" "i < length (g ! u)" using len by (simp_all add: is_edge_def)
    consider "u = 0" | p where "u = 1 + p" "p < F" | n where "u = 1 + F + n" "n < N" | "u = 1 + F + N"
    proof (cases "u = 0 \<or> u = 1 + F + N")
      case False
      then show ?thesis using that(2) [of "u - 1"] that(3) [of "u - 1 - F"] i(1) by (cases "u \<le> F") auto
    qed (use that in blast)
    then show ?thesis
    proof cases
      case 1
      then have "cost g u i = 0 \<and> target g u i \<le> F" using b i by (auto simp: built_def list_all_length)
      then show ?thesis using 1 by simp
    next
      case (2 p)
      obtain a fs where n: "g ! u = a # fs" "fe_capacity a = 0" using b 2 by (auto simp: built_def fallback_start_def)
      have f: "fallback_node F N E p (g ! u)" using b 2 by (simp add: built_def)
      obtain j where j: "i = Suc j" using n e(2) by (cases i) auto
      have "pair_edge F N E p (g ! u ! i)" using f i(2) j by (auto simp: fallback_node_def list_all_length)
      then have "\<not> target g u i \<le> F" by (auto simp: pair_edge_def)
      then show ?thesis using 2 m(2) [OF e(1)] by simp
    next
      case (3 n)
      obtain a bs where n: "g ! u = a # bs" "list_all (\<lambda>e. fe_capacity e = 0) bs"
        using b 3 by (auto simp: built_def native_start_def)
      have f: "native_node F N (g ! u)" using b 3 by (simp add: built_def)
      have "i = 0" using n e(2) i(2) by (cases i) (auto simp: list_all_length)
      then have "target g u i = 1 + F + N \<and> cost g u i = 0" using f by (auto simp: native_node_def)
      then show ?thesis using 3 by simp
    next
      case 4
      then show ?thesis using b e(2) i(2) by (auto simp: built_def list_all_length)
    qed
  qed
  moreover have "target g u i < length g" if "residual g u i" for u i
    using pairedD(1) [OF p, of u i] that by (simp add: residual_edge is_edge_def)
  ultimately have "balanced g 0 ?pot" using len by (simp add: feasible_def)
  then show ?thesis by (rule exI [of _ ?pot])
qed

lemma rounds_settle:
  assumes c: "complete_to F N E F g"
  shows "\<exists>g' pot S. augment_all 0 (1 + F + N) g = Some g' \<and> settled F N E g' pot S"
proof -
  have b: "built F N E F N g" using c by (simp add: complete_to_def)
  have len: "length g = F + N + 2" and p: "paired g" using b by (simp_all add: built_def)
  have l: "layered F N E g"
    using c by (auto simp: layered_def complete_to_def built_def has_edge_def list_all_iff)
  obtain pot where "balanced g 0 pot" using start_balanced [OF b] ..
  then obtain g' pot' S where g': "augment_all 0 (1 + F + N) g = Some g'" "paired g'" "same_edges g g'"
    "balanced g' 0 pot'" "closed_cut g' 0 (1 + F + N) S"
    and deg: "\<forall>x<length g. x \<noteq> 0 \<and> x \<noteq> 1 + F + N \<longrightarrow> degree g' x = degree g x"
    using augment_all_ends [OF p, of 0 pot "1 + F + N"] len by auto
  note same = same_edgesD [OF g'(3)]
  have "\<exists>!i. is_edge g' (1 + q) i \<and> capacity g' (1 + q) i = 0" if q: "q < F" for q
  proof (rule one_empty [OF g'(2)])
    show "1 + q < length g'" using q len same(1) by simp
    have "fallback_start (g ! (1 + q))" using b q by (simp add: built_def)
    then show "degree g' (1 + q) = int (length (g' ! (1 + q))) - 1" using start_degree(1) [of g "1 + q"] deg q len same(2) by simp
  qed
  moreover have "\<exists>!i. is_edge g' (1 + F + n) i \<and> capacity g' (1 + F + n) i = 1" if n: "n < N" for n
  proof (rule one_full [OF g'(2)])
    show "1 + F + n < length g'" using n len same(1) by simp
    have "native_start (g ! (1 + F + n))" using b n by (simp add: built_def)
    then show "degree g' (1 + F + n) = 1" using start_degree(2) [of g "1 + F + n"] deg n len by simp
  qed
  ultimately have "settled F N E g' pot' S" using g' layered_same [OF g'(3) l] by (simp add: settled_def)
  then show ?thesis using g'(1) by blast
qed

end
