(* ===== verification/MatchingProperties.thy ===== *)
theory MatchingProperties
  imports AssignmentGraph
begin

text \<open>The theorem of the matching, over pairs of a fallback and a native record.\<close>

section \<open>From edges to pairs\<close>

definition assignment :: "nat list \<Rightarrow> nat list \<Rightarrow> candidate_set \<Rightarrow> (nat \<times> nat) set \<Rightarrow> bool" where
  "assignment fallbacks natives candidates P \<longleftrightarrow> P \<subseteq> set fallbacks \<times> set natives \<and>
     (\<forall>(f, n)\<in>P. edge_between candidates f n \<noteq> None) \<and> inj_on fst P \<and> inj_on snd P"

definition total_strength :: "candidate_set \<Rightarrow> (nat \<times> nat) set \<Rightarrow> int" where
  "total_strength candidates P = (\<Sum>(f, n)\<in>P. er_Strength (the (edge_between candidates f n)))"

definition total_distance :: "candidate_set \<Rightarrow> (nat \<times> nat) set \<Rightarrow> int" where
  "total_distance candidates P = (\<Sum>(f, n)\<in>P. er_Distance (the (edge_between candidates f n)))"

text \<open>The pair of an edge of the graph.\<close>

definition pair_of :: "nat list \<Rightarrow> nat list \<Rightarrow> flow_graph \<Rightarrow> nat \<times> nat \<Rightarrow> nat \<times> nat" where
  "pair_of fallbacks natives g x = (fallbacks ! fst x, natives ! (native_of g x - (1 + length fallbacks)))"

lemma sum_components:
  "fc_strength (sum h A) = (\<Sum>x\<in>A. fc_strength (h x))" "fc_distance (sum h A) = (\<Sum>x\<in>A. fc_distance (h x))"
  by (induction A rule: infinite_finite_induct) (simp_all add: zero_cost plus_cost)

lemma less_eq_components:
  "a \<le> b \<Longrightarrow> fc_strength a < fc_strength b \<or> fc_strength a = fc_strength b \<and> fc_distance a \<le> fc_distance b"
  by (auto simp: less_eq_cost protocolFlowCostLess_def split: if_splits)


lemma inj_on_image: "(\<And>u v. u \<in> P \<Longrightarrow> v \<in> P \<Longrightarrow> f (h u) = f (h v) \<Longrightarrow> h u = h v) \<Longrightarrow> inj_on f (h ` P)"
  unfolding inj_on_def by blast

lemma pair_of_edge:
  fixes fallbacks natives :: "nat list" and candidates :: candidate_set
  defines "F \<equiv> length fallbacks" and "N \<equiv> length natives" and "E \<equiv> problem_of fallbacks natives candidates"
  assumes l: "layered F N E g" and x: "x \<in> forward_edges F g"
  shows "fst (pair_of fallbacks natives g x) \<in> set fallbacks" "snd (pair_of fallbacks natives g x) \<in> set natives"
    "\<exists>er r. edge_between candidates (fst (pair_of fallbacks natives g x)) (snd (pair_of fallbacks natives g x)) = Some er \<and>
       edge_cost_of g x = edge_cost er r"
proof -
  obtain p i where d: "x = (p, i)" by (cases x)
  note f = forwardD [OF l x [unfolded d]]
  obtain n er r where n: "n < N" "target g (1 + p) i = 1 + F + n" "E p n = Some er" "cost g (1 + p) i = edge_cost er r"
    using f(5) by (auto simp: pair_edge_def)
  have q: "pair_of fallbacks natives g x = (fallbacks ! p, natives ! n)" using n(2) by (simp add: pair_of_def native_of_def d F_def)
  show "fst (pair_of fallbacks natives g x) \<in> set fallbacks" "snd (pair_of fallbacks natives g x) \<in> set natives"
    using f(1) n(1) by (simp_all add: q F_def N_def)
  show "\<exists>er r. edge_between candidates (fst (pair_of fallbacks natives g x)) (snd (pair_of fallbacks natives g x)) = Some er \<and>
       edge_cost_of g x = edge_cost er r"
    unfolding q using n(3,4) by (auto simp: d edge_cost_of_def E_def problem_of_def)
qed

lemma edges_to_pairs:
  fixes fallbacks natives :: "nat list" and candidates :: candidate_set
  defines "F \<equiv> length fallbacks" and "N \<equiv> length natives" and "E \<equiv> problem_of fallbacks natives candidates"
  assumes d: "distinct fallbacks" "distinct natives" and l: "layered F N E g" and a: "edge_matching F g A"
  shows "assignment fallbacks natives candidates (pair_of fallbacks natives g ` A)" "inj_on (pair_of fallbacks natives g) A"
    "total_strength candidates (pair_of fallbacks natives g ` A) = - fc_strength (sum (edge_cost_of g) A)"
    "total_distance candidates (pair_of fallbacks natives g ` A) = fc_distance (sum (edge_cost_of g) A)"
proof -
  let ?pair = "pair_of fallbacks natives g"
  have sub: "A \<subseteq> forward_edges F g" "inj_on fst A" "inj_on (native_of g) A" using a by (simp_all add: edge_matching_def)
  note pe = pair_of_edge [of fallbacks natives candidates g, folded F_def N_def E_def, OF l subsetD [OF sub(1)]]
  have f: "x = y" if "x \<in> A" "y \<in> A" "fst (?pair x) = fst (?pair y)" for x y
  proof -
    have "fst x < length fallbacks" "fst y < length fallbacks" using that sub(1) by (auto simp: forward_edges_def F_def)
    then have "fst x = fst y" using that(3) nth_eq_iff_index_eq [OF d(1)] by (simp add: pair_of_def)
    then show ?thesis using sub(2) that(1,2) by (auto dest: inj_onD)
  qed
  have s: "x = y" if xy: "x \<in> A" "y \<in> A" "snd (?pair x) = snd (?pair y)" for x y
  proof -
    obtain m where m: "m < N" "native_of g x = 1 + F + m" using forward_native [OF l] xy(1) sub(1) by blast
    obtain n where n: "n < N" "native_of g y = 1 + F + n" using forward_native [OF l] xy(2) sub(1) by blast
    have "native_of g x = native_of g y"
      using m n xy(3) nth_eq_iff_index_eq [OF d(2)] by (simp add: pair_of_def F_def N_def)
    then show ?thesis using sub(3) xy(1,2) by (auto dest: inj_onD)
  qed
  show inj: "inj_on ?pair A" using f by (auto intro: inj_onI)
  have "edge_between candidates (fst (?pair x)) (snd (?pair x)) \<noteq> None" if "x \<in> A" for x
    using pe(3) [OF that] by auto
  moreover have "?pair ` A \<subseteq> set fallbacks \<times> set natives" by (rule image_subsetI) (use pe(1,2) in \<open>simp add: mem_Times_iff\<close>)
  moreover have "inj_on fst (?pair ` A)" by (rule inj_on_image, rule arg_cong [of _ _ ?pair], rule f)
  moreover have "inj_on snd (?pair ` A)" by (rule inj_on_image, rule arg_cong [of _ _ ?pair], rule s)
  ultimately show "assignment fallbacks natives candidates (?pair ` A)" by (simp add: assignment_def case_prod_unfold)
  have "er_Strength (the (edge_between candidates (fst (?pair x)) (snd (?pair x)))) = - fc_strength (edge_cost_of g x)"
    "er_Distance (the (edge_between candidates (fst (?pair x)) (snd (?pair x)))) = fc_distance (edge_cost_of g x)"
    if "x \<in> A" for x
    using pe(3) [OF that] by (auto simp: edge_cost_def)
  then show "total_strength candidates (?pair ` A) = - fc_strength (sum (edge_cost_of g) A)"
    "total_distance candidates (?pair ` A) = fc_distance (sum (edge_cost_of g) A)"
    by (simp_all add: total_strength_def total_distance_def sum_components sum.reindex [OF inj] case_prod_unfold sum_negf)
qed

text \<open>Every assignment comes from edges of the graph.\<close>

lemma pairs_to_edges:
  fixes fallbacks natives :: "nat list" and candidates :: candidate_set
  defines "F \<equiv> length fallbacks" and "N \<equiv> length natives" and "E \<equiv> problem_of fallbacks natives candidates"
  assumes l: "layered F N E g" and a: "assignment fallbacks natives candidates P"
  shows "\<exists>A. edge_matching F g A \<and> pair_of fallbacks natives g ` A = P"
proof -
  let ?pair = "pair_of fallbacks natives g"
  have "\<exists>x\<in>forward_edges F g. ?pair x = y" if y: "y \<in> P" for y
  proof -
    obtain f n where fn: "y = (f, n)" by (cases y)
    have m: "f \<in> set fallbacks" "n \<in> set natives" "edge_between candidates f n \<noteq> None"
      using a y fn by (auto simp: assignment_def)
    then obtain p q where pq: "p < F" "fallbacks ! p = f" "q < N" "natives ! q = n"
      by (auto simp: in_set_conv_nth F_def N_def)
    then have "E p q \<noteq> None" using m by (simp add: E_def problem_of_def)
    then obtain i where i: "0 < i" "is_edge g (1 + p) i" "fe_nativePos (g ! (1 + p) ! i) = int q"
      using layeredD(6) [OF l pq(1,3)] by blast
    then have x: "(p, i) \<in> forward_edges F g" using pq(1) by (simp add: forward_edges_def)
    then have "native_of g (p, i) = 1 + F + q" using forwardD(4) [OF l x] i(3) by auto
    then have "?pair (p, i) = y" using pq fn by (simp add: pair_of_def F_def)
    then show ?thesis using x by blast
  qed
  then have "\<forall>y\<in>P. \<exists>x. x \<in> forward_edges F g \<and> ?pair x = y" by blast
  from bchoice [OF this] obtain h where h: "\<And>y. y \<in> P \<Longrightarrow> h y \<in> forward_edges F g \<and> ?pair (h y) = y" by blast
  let ?A = "h ` P"
  have "h u = h v" if uv: "u \<in> P" "v \<in> P" "fst (h u) = fst (h v)" for u v
  proof -
    have "fst u = fallbacks ! fst (h u)" "fst v = fallbacks ! fst (h v)" 
      using h [OF uv(1)] h [OF uv(2)] unfolding pair_of_def by (metis fst_conv)+
    then show ?thesis using inj_onD [of fst P u v] a uv by (simp add: assignment_def)
  qed
  then have "inj_on fst ?A" by (rule inj_on_image)
  moreover have "h u = h v" if uv: "u \<in> P" "v \<in> P" "native_of g (h u) = native_of g (h v)" for u v
  proof -
    have "snd u = natives ! (native_of g (h u) - (1 + F))" "snd v = natives ! (native_of g (h v) - (1 + F))"
      using h [OF uv(1)] h [OF uv(2)] unfolding F_def pair_of_def by (metis snd_conv)+
    then show ?thesis using inj_onD [of snd P u v] a uv by (simp add: assignment_def)
  qed
  then have "inj_on (native_of g) ?A" by (rule inj_on_image)
  moreover have "?pair ` ?A = P" using h by force
  moreover have "?A \<subseteq> forward_edges F g" using h by blast
  ultimately show ?thesis by (intro exI [of _ ?A]) (simp add: edge_matching_def)
qed

section \<open>The result\<close>

lemma matched_of_get:
  assumes d: "distinct fallbacks"
  defines "used \<equiv> \<lambda>e. fe_nativePos e \<ge> 0 \<and> fe_capacity e = 0"
  shows "go_wf (matched_of fallbacks natives g)"
    "go_get (matched_of fallbacks natives g) f = Some n \<longleftrightarrow>
       (\<exists>p<length fallbacks. \<exists>e. fallbacks ! p = f \<and> find used (g ! (1 + p)) = Some e \<and> n = natives ! nat (fe_nativePos e))"
proof -
  let ?step = "\<lambda>pos matched. case find used (g ! (1 + pos)) of None \<Rightarrow> matched
    | Some e \<Rightarrow> go_put (fallbacks ! pos) (natives ! nat (fe_nativePos e)) matched"
  have m: "matched_of fallbacks natives g = fold ?step [0..<length fallbacks] []" by (simp add: matched_of_def used_def)
  show "go_wf (matched_of fallbacks natives g)"
    unfolding m by (rule fold_upt [where P = "\<lambda>_. go_wf"]) (auto split: option.split)
  have "k \<le> length fallbacks \<longrightarrow> (go_get (fold ?step [0..<k] []) f = Some n \<longleftrightarrow>
      (\<exists>p<k. \<exists>e. fallbacks ! p = f \<and> find used (g ! (1 + p)) = Some e \<and> n = natives ! nat (fe_nativePos e)))" for k
  proof (induction k)
    case (Suc k)
    have "fallbacks ! p \<noteq> fallbacks ! k" if "p < k" "Suc k \<le> length fallbacks" for p
      using nth_eq_iff_index_eq [OF d, of p k] that by simp
    then show ?case using Suc by (auto simp: less_Suc_eq split: option.split)
  qed simp
  then show "go_get (matched_of fallbacks natives g) f = Some n \<longleftrightarrow>
       (\<exists>p<length fallbacks. \<exists>e. fallbacks ! p = f \<and> find used (g ! (1 + p)) = Some e \<and> n = natives ! nat (fe_nativePos e))"
    unfolding m by blast
qed

lemma matched_of_edges:
  fixes fallbacks natives :: "nat list" and candidates :: candidate_set
  defines "F \<equiv> length fallbacks" and "N \<equiv> length natives" and "E \<equiv> problem_of fallbacks natives candidates"
  assumes d: "distinct fallbacks" and s: "settled F N E g pot S"
  shows "set (matched_of fallbacks natives g) = pair_of fallbacks natives g ` matched_edges F g"
proof -
  let ?used = "\<lambda>e. fe_nativePos e \<ge> 0 \<and> fe_capacity e = 0"
  note l = settledD(1) [OF s]
  have found: "find ?used (g ! (1 + p)) = Some e \<longleftrightarrow> (\<exists>i. (p, i) \<in> matched_edges F g \<and> e = g ! (1 + p) ! i)" if p: "p < F" for p e
  proof
    assume "find ?used (g ! (1 + p)) = Some e"
    then obtain i where i: "i < length (g ! (1 + p))" "?used (g ! (1 + p) ! i)" "e = g ! (1 + p) ! i" by (auto simp: find_Some_iff)
    then have "i \<noteq> 0" using layeredD(2) [OF l p] by (cases i) auto
    moreover have "is_edge g (1 + p) i" using i(1) layeredD(2) [OF l p] by (simp add: is_edge_def)
    ultimately have "(p, i) \<in> matched_edges F g" using p i(2) by (simp add: matched_edges_def forward_edges_def)
    then show "\<exists>i. (p, i) \<in> matched_edges F g \<and> e = g ! (1 + p) ! i" using i(3) by blast
  next
    assume "\<exists>i. (p, i) \<in> matched_edges F g \<and> e = g ! (1 + p) ! i"
    then obtain i where i: "(p, i) \<in> matched_edges F g" "e = g ! (1 + p) ! i" by blast
    then have f: "(p, i) \<in> forward_edges F g" "capacity g (1 + p) i = 0" by (auto simp: matched_edges_def)
    then have e: "is_edge g (1 + p) i" "?used e" using forwardD(2,4) [OF l f(1)] i(2) by auto
    have "\<not> ?used (g ! (1 + p) ! j)" if j: "j < i" for j
    proof
      assume u: "?used (g ! (1 + p) ! j)"
      have "is_edge g (1 + p) j" using e(1) j by (simp add: is_edge_def)
      then have "j = i" using settledD(5) [OF s p _ e(1) _ f(2)] u by blast
      then show False using j by simp
    qed
    then show "find ?used (g ! (1 + p)) = Some e"
      unfolding find_Some_iff using e i(2) by (intro exI [of _ i]) (simp add: is_edge_def)
  qed
  have "(f, n) \<in> set (matched_of fallbacks natives g) \<longleftrightarrow> (f, n) \<in> pair_of fallbacks natives g ` matched_edges F g" for f n
  proof -
    have "(f, n) \<in> set (matched_of fallbacks natives g) \<longleftrightarrow> go_get (matched_of fallbacks natives g) f = Some n"
      using matched_of_get(1) [OF d, of natives g] by simp
    also have "\<dots> \<longleftrightarrow> (\<exists>p<F. \<exists>i. (p, i) \<in> matched_edges F g \<and> fallbacks ! p = f \<and> n = natives ! nat (fe_nativePos (g ! (1 + p) ! i)))"
      unfolding matched_of_get(2) [OF d] F_def [symmetric]
    proof (intro ex_cong1 conj_cong refl)
      fix p
      assume p: "p < F"
      show "(\<exists>e. fallbacks ! p = f \<and> find ?used (g ! (1 + p)) = Some e \<and> n = natives ! nat (fe_nativePos e)) \<longleftrightarrow>
          (\<exists>i. (p, i) \<in> matched_edges F g \<and> fallbacks ! p = f \<and> n = natives ! nat (fe_nativePos (g ! (1 + p) ! i)))"
        unfolding found [OF p] by blast
    qed
    also have "\<dots> \<longleftrightarrow> (f, n) \<in> pair_of fallbacks natives g ` matched_edges F g"
    proof -
      have "nat (fe_nativePos (g ! (1 + p) ! i)) = native_of g (p, i) - (1 + F) \<and> p < F" if "(p, i) \<in> matched_edges F g" for p i
        using forwardD(1,4) [OF l, of p i] that by (auto simp: matched_edges_def)
      then show ?thesis by (force simp: pair_of_def F_def)
    qed
    finally show ?thesis .
  qed
  then show ?thesis by auto
qed

definition better :: "candidate_set \<Rightarrow> (nat \<times> nat) set \<Rightarrow> (nat \<times> nat) set \<Rightarrow> bool" where
  "better candidates P Q \<longleftrightarrow> card Q < card P \<or> card P = card Q \<and> (total_strength candidates Q < total_strength candidates P \<or>
     total_strength candidates P = total_strength candidates Q \<and> total_distance candidates P < total_distance candidates Q)"

lemma matching_of_graph:
  assumes d: "distinct fallbacks" "distinct natives"
    and s: "settled (length fallbacks) (length natives) (problem_of fallbacks natives candidates) g pot S"
  shows "assignment fallbacks natives candidates (set (matched_of fallbacks natives g))"
    "assignment fallbacks natives candidates P \<Longrightarrow> \<not> better candidates P (set (matched_of fallbacks natives g))"
proof -
  let ?F = "length fallbacks"
  let ?M = "matched_edges ?F g"
  note l = settledD(1) [OF s] and m = matched_is_matching [OF s]
  note me = edges_to_pairs [OF d l m, folded matched_of_edges [OF d(1) s]]
  show "assignment fallbacks natives candidates (set (matched_of fallbacks natives g))" by (rule me(1))
  assume "assignment fallbacks natives candidates P"
  then obtain A where a: "edge_matching ?F g A" "pair_of fallbacks natives g ` A = P" using pairs_to_edges [OF l] by blast
  note ae = edges_to_pairs [OF d l a(1), unfolded a(2)]
  have c: "card P = card A" "card (set (matched_of fallbacks natives g)) = card ?M"
    using card_image [OF ae(2)] card_image [OF me(2)] a(2) matched_of_edges [OF d(1) s] by simp_all
  have le: "card A \<le> card ?M" by (rule matching_cardinality [OF s a(1)])
  show "\<not> better candidates P (set (matched_of fallbacks natives g))"
  proof (cases "card A = card ?M")
    case True
    from less_eq_components [OF matching_cost [OF s a(1) True]] show ?thesis
      unfolding better_def c ae(3,4) me(3,4) True by (elim disjE conjE) simp_all
  qed (use le in \<open>simp add: better_def c\<close>)
qed

lemma matching_found:
  assumes "distinct fallbacks" "distinct natives"
  shows "\<exists>m. protocolMinimumCostMatching fallbacks natives candidates obs = Some m \<and> go_wf m \<and>
    assignment fallbacks natives candidates (set m) \<and>
    (\<forall>P. assignment fallbacks natives candidates P \<longrightarrow> \<not> better candidates P (set m))"
proof (cases "fallbacks = [] \<or> natives = []")
  case True
  then have none: "P = {}" if "assignment fallbacks natives candidates P" for P using that by (auto simp: assignment_def)
  have "\<not> better candidates P {}" if "assignment fallbacks natives candidates P" for P
    unfolding none [OF that] by (simp add: better_def)
  moreover have "protocolMinimumCostMatching fallbacks natives candidates obs = Some []"
    using True by (simp add: protocolMinimumCostMatching_def)
  ultimately show ?thesis by (intro exI [of _ "[]"]) (simp add: assignment_def)
next
  case False
  obtain g pot S where g: "augment_all 0 (1 + length fallbacks + length natives) (initial_graph fallbacks natives candidates obs) = Some g"
    "settled (length fallbacks) (length natives) (problem_of fallbacks natives candidates) g pot S"
    using rounds_settle [OF initial_graph_complete [OF assms(2)]] by blast
  then have "protocolMinimumCostMatching fallbacks natives candidates obs = Some (matched_of fallbacks natives g)"
    using False by (simp add: protocolMinimumCostMatching_def)
  moreover have "go_wf (matched_of fallbacks natives g)" by (rule matched_of_get(1) [OF assms(1)])
  ultimately show ?thesis using matching_of_graph [OF assms g(2)] by (intro exI [of _ "matched_of fallbacks natives g"]) blast
qed

text \<open>
  C2: The assignment of fallback records to native records is found, is one to one, uses only
  candidate edges, and is the best: no other assignment has more pairs, or as many with a greater
  total strength, or as many of the same strength with a smaller total distance in time.  In
  particular all loops end: the search for a shortest path, the walk back along it, and the rounds.
\<close>
theorem matching_is_optimal:
  assumes "distinct fallbacks" "distinct natives"
  shows "\<exists>m. protocolMinimumCostMatching fallbacks natives candidates obs = Some m \<and> go_wf m \<and>
    assignment fallbacks natives candidates (set m) \<and>
    (\<forall>P. assignment fallbacks natives candidates P \<longrightarrow> \<not> better candidates P (set m))"
  using matching_found [OF assms] .

text \<open>
  Two fallbacks and two natives: the first fallback fits both natives, best the first, the second
  fallback fits only that one.  Both are assigned all the same.
\<close>

definition sample_candidates :: candidate_set where
  "sample_candidates =
     (let e = (\<lambda>s. \<lparr> er_Distance = 1, er_Strength = s, er_fallbackShape = None, er_nativeShape = None \<rparr>)
      in [(0, [(2, e 230), (3, e 180)]), (1, [(2, e 230)])])"

lemma matching_is_optimal_witness:
  "\<exists>m. protocolMinimumCostMatching [0, 1] [2, 3] sample_candidates [] = Some m \<and> 2 \<le> length m"
proof -
  let ?P = "{(0, 3), (1, 2)} :: (nat \<times> nat) set"
  have "assignment [0, 1] [2, 3] sample_candidates ?P"
    by (simp add: assignment_def edge_between_def go_getd_def sample_candidates_def inj_on_def)
  moreover obtain m where m: "protocolMinimumCostMatching [0, 1] [2, 3] sample_candidates [] = Some m" "go_wf m"
    "\<forall>P. assignment [0, 1] [2, 3] sample_candidates P \<longrightarrow> \<not> better sample_candidates P (set m)"
    using matching_is_optimal [of "[0, 1]" "[2, 3]" sample_candidates "[]"] by auto
  ultimately have "\<not> better sample_candidates ?P (set m)" by blast
  then have "card ?P \<le> card (set m)" by (simp add: better_def)
  also have "\<dots> \<le> length m" by (rule card_length)
  finally show ?thesis using m(1) by auto
qed

end
