(* ===== verification/Pairing.thy ===== *)
theory Pairing
  imports MatchingProperties
begin

text \<open>
  The pairing of fallback and native records (\<open>pairProtocolFallbackDetails\<close> in
  \<open>go/protocol_fallback.go\<close>): the candidate edges, partition by partition, and the assignment
  within each.  The theorem joins the theories \<open>CorrelationEdge\<close> and \<open>Matching\<close>: over all
  partitions together, no one-to-one choice of edges is larger.
\<close>

section \<open>The pairs\<close>

record protocolFallbackDetailPair =
  fp_fallback :: protocolFallbackDetailRef
  fp_native :: protocolFallbackDetailRef
  fp_distance :: duration

text \<open>The two sorted slices of a partition.\<close>

definition by_stable_order :: "protocolCorrelationObservation list \<Rightarrow> nat list \<Rightarrow> nat list" where
  "by_stable_order obs = sort_key (\<lambda>i. stable_order (obs ! i))"

definition fallbacks_of :: "protocolCorrelationObservation list \<Rightarrow> candidate_set \<Rightarrow> nat list" where
  "fallbacks_of obs candidateSet = by_stable_order obs (go_keys candidateSet)"

definition natives_of :: "protocolCorrelationObservation list \<Rightarrow> candidate_set \<Rightarrow> nat list" where
  "natives_of obs candidateSet =
     by_stable_order obs (remdups (concat (map (\<lambda>(f, nativeCandidates). go_keys nativeCandidates) candidateSet)))"

text \<open>The matched indices of a partition, in the order of its fallbacks.\<close>

definition partitionMatches :: "protocolCorrelationObservation list \<Rightarrow> candidate_set \<Rightarrow> (nat \<times> nat) list option" where
  "partitionMatches obs candidateSet =
     (let fallbacks = fallbacks_of obs candidateSet
      in map_option (\<lambda>matched. List.map_filter (\<lambda>f. map_option (Pair f) (go_get matched f)) fallbacks)
           (protocolMinimumCostMatching fallbacks (natives_of obs candidateSet) candidateSet obs))"

definition allMatches :: "protocolCorrelationObservation list \<Rightarrow> (string, candidate_set) gomap \<Rightarrow> (nat \<times> nat) list option" where
  "allMatches obs cands =
     map_option concat (those (map (\<lambda>p. partitionMatches obs (go_getd [] cands p)) (sort (go_keys cands))))"

definition pair_of_match :: "protocolFallbackDetailRef list \<Rightarrow> (string, candidate_set) gomap \<Rightarrow> nat \<times> nat \<Rightarrow>
    protocolFallbackDetailPair" where
  "pair_of_match refs cands = (\<lambda>(f, n).
     let p = protocolObservationPartitionKey (observe_ref (refs ! f))
     in \<lparr> fp_fallback = refs ! f, fp_native = refs ! n,
          fp_distance = (case candidate_edge cands p f n of None \<Rightarrow> 0 | Some edge \<Rightarrow> er_Distance edge) \<rparr>)"

definition pairProtocolFallbackDetails :: "protocolFallbackDetailRef list \<Rightarrow> protocolFallbackDetailPair list option" where
  "pairProtocolFallbackDetails refs =
     (if \<not> list_ex (\<lambda>ref. isAnonymousProtocolFallbackDetail (fr_detail ref)) refs then Some []
      else let obs = map observe_ref refs;
               cands = candidatesByPartition obs
           in map_option (map (pair_of_match refs cands)) (allMatches obs cands))"

section \<open>The candidates are maps\<close>

definition candidates_wf :: "(string, candidate_set) gomap \<Rightarrow> bool" where
  "candidates_wf cands \<longleftrightarrow> go_wf cands \<and> (\<forall>(p, byFallback)\<in>set cands. go_wf byFallback)"

lemma wf_getd: "candidates_wf cands \<Longrightarrow> go_wf (go_getd [] cands p)"
  by (auto simp: candidates_wf_def go_getd_def split: option.splits dest!: map_of_SomeD)

lemma set_put: "set (go_put k v m) \<subseteq> insert (k, v) (set m)"
  by (induction m) auto

lemma wf_put: "candidates_wf cands \<Longrightarrow> go_wf byFallback \<Longrightarrow> candidates_wf (go_put p byFallback cands)"
  using set_put [of p byFallback cands] unfolding candidates_wf_def by (auto dest!: subsetD)

lemma wf_add_candidate: "candidates_wf cands \<Longrightarrow> candidates_wf (add_candidate obs f n cands)"
  by (auto simp: add_candidate_def Let_def intro!: wf_put wf_getd split: option.split)

lemma wf_candidates: "candidates_wf (candidatesByPartition obs)"
  unfolding candidatesByPartition_def
  by (rule fold_keeps)
    (auto simp: candidates_wf_def [of "[]"] Let_def intro!: fold_keeps [where P = candidates_wf] wf_add_candidate)

section \<open>The matches of a partition\<close>

lemma by_stable_order_simps [simp]:
  "set (by_stable_order obs is) = set is" "distinct (by_stable_order obs is) = distinct is"
  by (simp_all add: by_stable_order_def)

lemma set_fallbacks_of [simp]: "set (fallbacks_of obs cs) = fst ` set cs"
  by (simp add: fallbacks_of_def)

lemma set_natives_of: "go_wf cs \<Longrightarrow> set (natives_of obs cs) = {n. \<exists>f. edge_between cs f n \<noteq> None}"
  by (auto simp: natives_of_def edge_between_def go_getd_def map_of_eq_None_iff split: option.splits
      dest: map_of_SomeD intro: rev_bexI)

lemma edge_is_fallback: "edge_between cs f n = Some e \<Longrightarrow> f \<in> fst ` set cs"
  by (auto simp: edge_between_def go_getd_def split: option.splits dest!: map_of_SomeD intro: rev_image_eqI)

lemma set_map_filter: "set (List.map_filter h xs) = {y. \<exists>x\<in>set xs. h x = Some y}"
  by (induction xs) (auto simp: map_filter_simps split: option.split)

lemma distinct_fst_map_filter:
  "distinct xs \<Longrightarrow> distinct (map fst (List.map_filter (\<lambda>f. map_option (Pair f) (g f)) xs))"
proof (induction xs)
  case (Cons x xs)
  then show ?case by (auto simp: map_filter_simps set_map_filter split: option.split)
qed (simp add: map_filter_simps)

lemma partitionMatches_best:
  assumes "go_wf cs"
  shows "\<exists>L. partitionMatches obs cs = Some L \<and> distinct (map fst L) \<and> distinct (map snd L) \<and>
    (\<forall>(f, n)\<in>set L. edge_between cs f n \<noteq> None) \<and>
    (\<forall>P. (\<forall>(f, n)\<in>P. edge_between cs f n \<noteq> None) \<and> inj_on fst P \<and> inj_on snd P \<longrightarrow> card P \<le> length L)"
proof -
  let ?F = "fallbacks_of obs cs" and ?N = "natives_of obs cs"
  have d: "distinct ?F" "distinct ?N" using assms by (simp_all add: fallbacks_of_def natives_of_def)
  obtain m where m: "protocolMinimumCostMatching ?F ?N cs obs = Some m" "go_wf m" "assignment ?F ?N cs (set m)"
    "\<And>P. assignment ?F ?N cs P \<Longrightarrow> \<not> better cs P (set m)"
    using matching_found [OF d] by blast
  let ?L = "List.map_filter (\<lambda>f. map_option (Pair f) (go_get m f)) ?F"
  have "set m \<subseteq> set ?F \<times> set ?N" using m(3) by (simp add: assignment_def)
  then have "set ?L = set m" using m(2) by (auto simp: set_map_filter) (force dest: subsetD)
  moreover have f: "distinct (map fst ?L)" using d(1) by (rule distinct_fst_map_filter)
  ultimately have L: "set ?L = set m" "length ?L = card (set m)" "distinct ?L"
    using distinct_card distinct_map by metis+
  have "distinct (map snd ?L)" using m(3) L by (simp add: distinct_map assignment_def)
  moreover have "card P \<le> length ?L"
    if "\<forall>(f, n)\<in>P. edge_between cs f n \<noteq> None" "inj_on fst P" "inj_on snd P" for P
  proof -
    have "assignment ?F ?N cs P"
      using that edge_is_fallback set_natives_of [OF assms] by (fastforce simp: assignment_def)
    from m(4) [OF this] show ?thesis using L by (simp add: better_def)
  qed
  moreover have "\<forall>(f, n)\<in>set ?L. edge_between cs f n \<noteq> None" using m(3) L(1) by (simp add: assignment_def)
  ultimately show ?thesis using f m(1) by (intro exI [of _ ?L]) (simp add: partitionMatches_def)
qed

section \<open>All partitions\<close>

abbreviation edge_of :: "protocolFallbackDetailRef list \<Rightarrow> nat \<Rightarrow> nat \<Rightarrow> protocolCorrelationEdgeResult option" where
  "edge_of refs f n \<equiv> protocolCorrelationEdge (observe_ref (refs ! f)) (observe_ref (refs ! n))"

abbreviation partition_of :: "protocolFallbackDetailRef list \<Rightarrow> nat \<Rightarrow> string" where
  "partition_of refs i \<equiv> protocolObservationPartitionKey (observe_ref (refs ! i))"

text \<open>A one-to-one choice of edges between the records.\<close>

definition chosen_edges :: "protocolFallbackDetailRef list \<Rightarrow> (nat \<times> nat) set \<Rightarrow> bool" where
  "chosen_edges refs P \<longleftrightarrow> inj_on fst P \<and> inj_on snd P \<and>
     (\<forall>(f, n)\<in>P. f < length refs \<and> n < length refs \<and> edge_of refs f n \<noteq> None)"

lemma candidate_edge_iff:
  "candidate_edge (candidatesByPartition (map observe_ref refs)) p f n = Some e \<longleftrightarrow>
    f < length refs \<and> n < length refs \<and> p = partition_of refs f \<and> p = partition_of refs n \<and> edge_of refs f n = Some e"
  using candidates_exact [of refs p f n e] by auto

lemma edge_between_iff:
  "edge_between (go_getd [] (candidatesByPartition (map observe_ref refs)) p) f n \<noteq> None \<longleftrightarrow>
    f < length refs \<and> n < length refs \<and> p = partition_of refs f \<and> p = partition_of refs n \<and> edge_of refs f n \<noteq> None"
  using candidate_edge_iff [of refs p f n] unfolding candidate_edge_def edge_between_def by (metis not_None_eq)

text \<open>A choice of edges within the partitions; for names in ASCII that is every choice of edges.\<close>

definition filed_edges :: "protocolFallbackDetailRef list \<Rightarrow> (nat \<times> nat) set \<Rightarrow> bool" where
  "filed_edges refs P \<longleftrightarrow> chosen_edges refs P \<and> (\<forall>(f, n)\<in>P. partition_of refs f = partition_of refs n)"

lemma ascii_filed:
  assumes "list_all ascii_names (map observe_ref refs)" "chosen_edges refs P"
  shows "filed_edges refs P"
proof -
  have "partition_of refs f = partition_of refs n" if "(f, n) \<in> P" for f n
  proof -
    have b: "f < length refs" "n < length refs" "edge_of refs f n \<noteq> None" using that assms(2) by (auto simp: chosen_edges_def)
    then obtain e where "edge_of refs f n = Some e" by blast
    then show ?thesis by (rule ascii_edge_partition) (use assms(1) b in \<open>simp_all add: list_all_length\<close>)
  qed
  then show ?thesis using assms(2) by (auto simp: filed_edges_def)
qed

lemma edge_in_candidates:
  assumes "f < length refs" "n < length refs" "edge_of refs f n \<noteq> None" "partition_of refs f = partition_of refs n"
  shows "partition_of refs f \<in> set (go_keys (candidatesByPartition (map observe_ref refs)))"
proof (rule ccontr)
  let ?c = "candidatesByPartition (map observe_ref refs)"
  assume "\<not> ?thesis"
  then have "go_get ?c (partition_of refs f) = None" by (simp add: map_of_eq_None_iff)
  then have "go_getd [] ?c (partition_of refs f) = []" by (simp add: go_getd_def)
  then show False using assms edge_between_iff [of refs "partition_of refs f" f n] by (simp add: edge_between_def)
qed

lemma those_map: "(\<And>x. x \<in> set xs \<Longrightarrow> h x = Some (g x)) \<Longrightarrow> those (map h xs) = Some (map g xs)"
  by (induction xs) simp_all

text \<open>The matches of the partitions of a list, which are disjoint.\<close>

lemma matches_of_partitions:
  assumes "distinct ps"
    and "\<And>p. p \<in> set ps \<Longrightarrow> distinct (map fst (L p)) \<and> distinct (map snd (L p)) \<and>
      (\<forall>(f, n)\<in>set (L p). p = partition_of refs f \<and> p = partition_of refs n)"
  shows "distinct (map fst (concat (map L ps))) \<and> distinct (map snd (concat (map L ps))) \<and>
    (\<forall>(f, n)\<in>set (concat (map L ps)). partition_of refs f \<in> set ps \<and> partition_of refs n \<in> set ps)"
  using assms
proof (induction ps)
  case (Cons p ps)
  have IH: "distinct (map fst (concat (map L ps))) \<and> distinct (map snd (concat (map L ps))) \<and>
    (\<forall>(f, n)\<in>set (concat (map L ps)). partition_of refs f \<in> set ps \<and> partition_of refs n \<in> set ps)"
    by (rule Cons.IH) (use Cons.prems in auto)
  have p: "distinct (map fst (L p))" "distinct (map snd (L p))" "p \<notin> set ps"
    "\<forall>(f, n)\<in>set (L p). p = partition_of refs f \<and> p = partition_of refs n"
    using Cons.prems by auto
  have "fst ` set (L p) \<inter> fst ` set (concat (map L ps)) = {}"
    "snd ` set (L p) \<inter> snd ` set (concat (map L ps)) = {}"
    using p(3,4) IH by fastforce+
  then show ?case using IH p by (auto simp: case_prod_unfold)
qed simp

lemma card_partitions:
  assumes "finite P" "distinct ps" "\<And>x. x \<in> P \<Longrightarrow> h x \<in> set ps"
  shows "card P = (\<Sum>p\<leftarrow>ps. card {x \<in> P. h x = p})"
proof -
  have "P = (\<Union>p\<in>set ps. {x \<in> P. h x = p})" using assms(3) by auto
  then have "card P = card (\<Union>p\<in>set ps. {x \<in> P. h x = p})" by simp
  also have "\<dots> = (\<Sum>p\<in>set ps. card {x \<in> P. h x = p})"
    by (rule card_UN_disjoint) (use assms(1) in auto)
  finally show ?thesis using assms(2) by (simp add: sum_list_distinct_conv_sum_set)
qed

lemma chosen_finite:
  assumes "chosen_edges refs P"
  shows "finite P"
proof (rule finite_subset)
  show "P \<subseteq> {..<length refs} \<times> {..<length refs}" using assms by (auto simp: chosen_edges_def)
qed simp

lemma allMatches_best:
  fixes refs :: "protocolFallbackDetailRef list"
  defines "obs \<equiv> map observe_ref refs"
  shows "\<exists>L. allMatches obs (candidatesByPartition obs) = Some L \<and> distinct (map fst L) \<and> distinct (map snd L) \<and>
    filed_edges refs (set L) \<and> (\<forall>P. filed_edges refs P \<longrightarrow> card P \<le> length L)"
proof -
  let ?c = "candidatesByPartition obs"
  let ?cs = "\<lambda>p. go_getd [] ?c p"
  let ?ps = "sort (go_keys ?c)"
  have "\<exists>L. partitionMatches obs (?cs p) = Some L \<and> distinct (map fst L) \<and> distinct (map snd L) \<and>
    (\<forall>(f, n)\<in>set L. edge_between (?cs p) f n \<noteq> None) \<and>
    (\<forall>P. (\<forall>(f, n)\<in>P. edge_between (?cs p) f n \<noteq> None) \<and> inj_on fst P \<and> inj_on snd P \<longrightarrow> card P \<le> length L)" for p
    by (rule partitionMatches_best [OF wf_getd [OF wf_candidates]])
  then obtain L where L: "\<And>p. partitionMatches obs (?cs p) = Some (L p)" "\<And>p. distinct (map fst (L p))"
    "\<And>p. distinct (map snd (L p))" "\<And>p. \<forall>(f, n)\<in>set (L p). edge_between (?cs p) f n \<noteq> None"
    "\<And>p P. \<forall>(f, n)\<in>P. edge_between (?cs p) f n \<noteq> None \<Longrightarrow> inj_on fst P \<Longrightarrow> inj_on snd P \<Longrightarrow> card P \<le> length (L p)"
    by metis
  let ?L = "concat (map L ?ps)"
  have e: "f < length refs \<and> n < length refs \<and> p = partition_of refs f \<and> edge_of refs f n \<noteq> None \<and> p = partition_of refs n"
    if "(f, n) \<in> set (L p)" for p f n
  proof -
    have "edge_between (?cs p) f n \<noteq> None" using bspec [OF L(4) that] by simp
    then show ?thesis unfolding obs_def edge_between_iff by blast
  qed
  have ps: "distinct ?ps" using wf_candidates [of obs] by (simp add: candidates_wf_def)
  have "distinct (map fst ?L) \<and> distinct (map snd ?L) \<and>
      (\<forall>(f, n)\<in>set ?L. partition_of refs f \<in> set ?ps \<and> partition_of refs n \<in> set ?ps)"
    by (rule matches_of_partitions [OF ps]) (use L(2,3) e in blast)
  then have d: "distinct (map fst ?L)" "distinct (map snd ?L)" by blast+
  then have "filed_edges refs (set ?L)"
    using e by (auto simp: filed_edges_def chosen_edges_def distinct_map)
  moreover have "card P \<le> length ?L" if P: "filed_edges refs P" for P
  proof -
    let ?h = "\<lambda>x. partition_of refs (fst x)"
    have "card P = (\<Sum>p\<leftarrow>?ps. card {x \<in> P. ?h x = p})"
    proof (rule card_partitions [OF _ ps])
      show "finite P" using P chosen_finite by (auto simp: filed_edges_def)
      fix x assume "x \<in> P"
      then obtain f n where x: "x = (f, n)" "(f, n) \<in> P" by (cases x) auto
      then have "f < length refs" "n < length refs" "edge_of refs f n \<noteq> None" "partition_of refs f = partition_of refs n"
        using P unfolding filed_edges_def chosen_edges_def by blast+
      from edge_in_candidates [OF this] show "?h x \<in> set ?ps" by (simp add: x(1) obs_def)
    qed
    also have "\<dots> \<le> (\<Sum>p\<leftarrow>?ps. length (L p))"
    proof (rule sum_list_mono, rule L(5))
      fix p
      show "\<forall>(f, n)\<in>{x \<in> P. ?h x = p}. edge_between (?cs p) f n \<noteq> None"
        using P edge_between_iff [of refs p] by (auto simp: filed_edges_def chosen_edges_def obs_def)
      show "inj_on fst {x \<in> P. ?h x = p}" "inj_on snd {x \<in> P. ?h x = p}"
        using P by (auto simp: filed_edges_def chosen_edges_def elim!: inj_on_subset)
    qed
    finally show ?thesis by (simp add: length_concat comp_def)
  qed
  moreover have "allMatches obs ?c = Some ?L" using those_map [of ?ps _ L] L(1) by (simp add: allMatches_def)
  ultimately show ?thesis using d by blast
qed

text \<open>Only an anonymous fallback record has an edge to a native record.\<close>

lemma fallback_role:
  assumes "edge_of refs f n \<noteq> None"
  shows "isAnonymousProtocolFallbackDetail (fr_detail (refs ! f))"
proof -
  obtain e where "edge_of refs f n = Some e" using assms by blast
  from edge_evidence(1) [OF this] show ?thesis
    by (auto simp: observe_ref_def protocolObservationFromRequestDetail_def Let_def split: if_splits prod.splits)
qed

lemma pair_of_match_edge:
  assumes "f < length refs" "n < length refs" "edge_of refs f n \<noteq> None" "partition_of refs f = partition_of refs n"
  shows "pair_of_match refs (candidatesByPartition (map observe_ref refs)) (f, n) =
    \<lparr> fp_fallback = refs ! f, fp_native = refs ! n, fp_distance = er_Distance (the (edge_of refs f n)) \<rparr>"
proof -
  obtain e where e: "edge_of refs f n = Some e" using assms(3) by blast
  then have "candidate_edge (candidatesByPartition (map observe_ref refs)) (partition_of refs f) f n = Some e"
    using assms candidate_edge_iff by blast
  then show ?thesis using e by (simp add: pair_of_match_def)
qed

lemma pairs_found:
  "\<exists>L. pairProtocolFallbackDetails refs =
      Some (map (pair_of_match refs (candidatesByPartition (map observe_ref refs))) L) \<and>
    distinct (map fst L) \<and> distinct (map snd L) \<and> filed_edges refs (set L) \<and>
    (\<forall>P. filed_edges refs P \<longrightarrow> card P \<le> length L)"
proof (cases "list_ex (\<lambda>ref. isAnonymousProtocolFallbackDetail (fr_detail ref)) refs")
  case True
  then show ?thesis using allMatches_best [of refs] by (auto simp: pairProtocolFallbackDetails_def Let_def)
next
  case False
  then have none: "P = {}" if "filed_edges refs P" for P
    using that fallback_role by (fastforce simp: filed_edges_def chosen_edges_def list_ex_iff)
  have "filed_edges refs {}" by (simp add: filed_edges_def chosen_edges_def)
  moreover have "card P \<le> 0" if "filed_edges refs P" for P using none [OF that] by simp
  ultimately show ?thesis
    by (intro exI [of _ "[]"]) (use False in \<open>simp add: pairProtocolFallbackDetails_def\<close>)
qed


definition sample_refs :: "protocolFallbackDetailRef list" where
  "sample_refs = [\<lparr> fr_apiName = ''api'', fr_modelName = ''m'', fr_index = 0, fr_detail = sample_fallback \<rparr>,
     \<lparr> fr_apiName = ''api'', fr_modelName = ''m'', fr_index = 1, fr_detail = sample_native \<rparr>]"

lemma evidence_ignores_order:
  "protocolCorrelationEvidence (f\<lparr> ob_StableOrder := x \<rparr>) (n\<lparr> ob_StableOrder := y \<rparr>) = protocolCorrelationEvidence f n"
  by (cases f; cases n) (simp only: protocolCorrelationEvidence_def protocolCorrelationObservation.simps)

lemma edge_ignores_order:
  "protocolCorrelationEdge (f\<lparr> ob_StableOrder := x \<rparr>) (n\<lparr> ob_StableOrder := y \<rparr>) = protocolCorrelationEdge f n"
  unfolding protocolCorrelationEdge_def evidence_ignores_order
  by (cases f; cases n) (simp only: protocolCorrelationObservation.simps)

lemma edge_of_details:
  "protocolCorrelationEdge (observe_ref r) (observe_ref r') =
     protocolCorrelationEdge (protocolObservationFromRequestDetail (fr_modelName r) (fr_detail r))
       (protocolObservationFromRequestDetail (fr_modelName r') (fr_detail r'))"
  by (simp add: observe_ref_def Let_def edge_ignores_order)

lemma sample_refs_edge: "edge_of sample_refs 0 1 \<noteq> None"
  using sample_edge by (auto simp: sample_refs_def edge_of_details)


end
