(* ===== verification/Reconcile.thy ===== *)
theory Reconcile
  imports Metadata Pairing "HOL-Library.Monad_Syntax"
begin

text \<open>
  Repairing the ledger after the fact (\<open>go/protocol_fallback.go\<close>): fallback records whose native
  record has arrived are removed, with everything they were counted for, and their metadata goes
  to the native record.  \<open>None\<close> is a run that does not return (a nil dereference).
\<close>

section \<open>One detail of the ledger\<close>

definition ledger_model :: "(string, apiStats) gomap \<Rightarrow> string \<Rightarrow> string \<Rightarrow> modelStats option" where
  "ledger_model apis api model = do { a \<leftarrow> go_get apis api; go_get (as_Models a) model }"

text \<open>The source works through pointers to an API and one of its models; storing both back is the same.\<close>

definition put_back :: "string \<Rightarrow> string \<Rightarrow> apiStats \<Rightarrow> modelStats \<Rightarrow> (string, apiStats) gomap \<Rightarrow> (string, apiStats) gomap" where
  "put_back api model a m apis = go_put api (a\<lparr> as_Models := go_put model m (as_Models a) \<rparr>) apis"

text \<open>The native detail of a pair takes over the metadata of the fallback detail.\<close>

definition enrichNative :: "protocolFallbackDetailPair \<Rightarrow> (string, apiStats) gomap \<Rightarrow> (string, apiStats) gomap option" where
  "enrichNative pair apis =
     (let native = fp_native pair
      in do { apiSt \<leftarrow> go_get apis (fr_apiName native);
              modelSt \<leftarrow> go_get (as_Models apiSt) (fr_modelName native);
              let detail = accountingDetailAt modelSt (fr_index native);
              let detail = enriched_by (fr_detail (fp_fallback pair)) detail;
              Some (put_back (fr_apiName native) (fr_modelName native) apiSt
                     (setAccountingDetailAt (fr_index native) detail modelSt) apis) })"

definition removeQuotaFactOf :: "RequestDetail \<Rightarrow> RequestStatistics \<Rightarrow> RequestStatistics" where
  "removeQuotaFactOf d s =
     (case removeQuotaFactLocked d (rs_quota s) of (quota, changed) \<Rightarrow>
        let s = s\<lparr> rs_quota := quota \<rparr> in if changed then invalidateCachedResponsesLocked s else s)"

text \<open>The body of the removal loops: the quota fact, the counters and the detail itself.\<close>

definition removeDetailAt :: "string \<Rightarrow> string \<Rightarrow> nat \<Rightarrow> RequestStatistics \<Rightarrow> RequestStatistics option" where
  "removeDetailAt api model i s =
     do { apiSt \<leftarrow> go_get (rs_apis s) api;
          modelSt \<leftarrow> go_get (as_Models apiSt) model;
          let detail = accountingDetailAt modelSt i;
          let s = removeQuotaFactOf detail s;
          let (s, apiSt, modelSt) = decrementCounters model detail (s, apiSt, modelSt);
          let modelSt = removeAccountingDetailAt i modelSt;
          Some (s\<lparr> rs_apis := put_back api model apiSt modelSt (rs_apis s) \<rparr>) }"

fun fold_option :: "('a \<Rightarrow> 's \<Rightarrow> 's option) \<Rightarrow> 'a list \<Rightarrow> 's \<Rightarrow> 's option" where
  "fold_option h [] s = Some s"
| "fold_option h (x # xs) s = do { s' \<leftarrow> h x s; fold_option h xs s' }"

section \<open>Reconciliation\<close>

definition hasRecordedProtocolFallbackLocked :: "RequestStatistics \<Rightarrow> bool" where
  "hasRecordedProtocolFallbackLocked s \<longleftrightarrow>
     list_ex (\<lambda>(api, a). list_ex (\<lambda>(model, m). list_ex isAnonymousProtocolFallbackDetail (accountingDetails m)) (as_Models a))
       (rs_apis s)"

definition model_refs :: "string \<Rightarrow> string \<Rightarrow> modelStats \<Rightarrow> protocolFallbackDetailRef list" where
  "model_refs api model m =
     map (\<lambda>i. \<lparr> fr_apiName = api, fr_modelName = model, fr_index = i, fr_detail = accountingDetailAt m i \<rparr>)
       [0..<accountingCount m]"

definition ledger_refs :: "(string, apiStats) gomap \<Rightarrow> protocolFallbackDetailRef list" where
  "ledger_refs apis = concat (map (\<lambda>(api, a). concat (map (\<lambda>(model, m). model_refs api model m) (as_Models a))) apis)"

text \<open>
  \<open>removeByModel\<close>, whose keys join the names with a NUL.  The names are read back by splitting at
  the first NUL, \<open>strings.SplitN(compound, "\x00", 2)\<close>.
\<close>

definition split_compound :: "string \<Rightarrow> string \<times> string" where
  "split_compound compound =
     (takeWhile (\<lambda>c. [c] \<noteq> nul) compound, drop 1 (dropWhile (\<lambda>c. [c] \<noteq> nul) compound))"

definition group_removals :: "protocolFallbackDetailPair list \<Rightarrow> (string, nat list) gomap" where
  "group_removals pairs =
     fold (\<lambda>pair m. let f = fp_fallback pair; key = fr_apiName f @ nul @ fr_modelName f
                     in go_put key (go_getd [] m key @ [fr_index f]) m) pairs []"

definition removeGroup :: "string \<times> nat list \<Rightarrow> RequestStatistics \<Rightarrow> RequestStatistics option" where
  "removeGroup = (\<lambda>(compound, removals) s.
     case split_compound compound of (api, model) \<Rightarrow>
       fold_option (removeDetailAt api model) (rev (sort removals)) s)"

text \<open>Models and APIs without details are dropped.\<close>

definition dropEmpty :: "(string, apiStats) gomap \<Rightarrow> (string, apiStats) gomap" where
  "dropEmpty apis =
     filter (\<lambda>(api, a). \<not> (as_Models a = [] \<and> ta_TotalRequests (as_tally a) \<le> 0))
       (map (\<lambda>(api, a). (api, a\<lparr> as_Models :=
          filter (\<lambda>(model, m). \<not> (mo_Details m = [] \<and> ta_TotalRequests (mo_tally m) \<le> 0)) (as_Models a) \<rparr>)) apis)"

definition reconcileRecordedProtocolFallbacksLocked :: "gotime \<Rightarrow> RequestStatistics \<Rightarrow> (RequestStatistics \<times> nat) option" where
  "reconcileRecordedProtocolFallbacksLocked now s =
     (let s = s\<lparr> rs_protocolFallbackReconcileDirty := False \<rparr>
      in if \<not> hasRecordedProtocolFallbackLocked s then Some (s, 0)
         else do {
           pairs \<leftarrow> pairProtocolFallbackDetails (ledger_refs (rs_apis s));
           if pairs = [] then Some (s, 0)
           else do {
             apis \<leftarrow> fold_option enrichNative pairs (rs_apis s);
             s \<leftarrow> fold_option removeGroup (group_removals pairs) (s\<lparr> rs_apis := apis \<rparr>);
             let s = s\<lparr> rs_apis := dropEmpty (rs_apis s) \<rparr>;
             let s = rebuildSeenLocked now (pruneLocked now True s);
             Some (invalidateCachedResponsesLocked s, length pairs) } })"

section \<open>Positions of the ledger\<close>

text \<open>The retained details of a model as the archive keeps them, in order.\<close>

definition shown :: "modelStats \<Rightarrow> RequestDetail list" where
  "shown m = map archived (accountingDetails m)"

lemma retained_shown: "retained m = mset (shown m)"
  by (simp add: retained_def shown_def)

lemma length_shown [simp]: "length (shown m) = accountingCount m"
  by (simp add: shown_def)

lemma shown_nth: "i < accountingCount m \<Longrightarrow> shown m ! i = archived (accountingDetailAt m i)"
  by (simp add: shown_def accountingDetails_nth)

lemma shown_append: "shown m = map archived (mo_Details m) @ map detail_of (mo_accounting m)"
  by (simp add: shown_def accountingDetails_def comp_def)

lemma shown_set: "i < accountingCount m \<Longrightarrow> shown (setAccountingDetailAt i d m) = (shown m)[i := archived d]"
  by (auto simp: shown_append setAccountingDetailAt_def list_update_append map_update detail_of_accountingRecord_of
      accountingCount_def)

lemma shown_remove: "i < accountingCount m \<Longrightarrow> shown (removeAccountingDetailAt i m) = remove_nth i (shown m)"
  by (auto simp: shown_append removeAccountingDetailAt_def remove_nth_def accountingCount_def take_map drop_map
      Suc_diff_le)

lemma count_set [simp]: "accountingCount (setAccountingDetailAt i d m) = accountingCount m"
  by (simp add: setAccountingDetailAt_def accountingCount_def)

lemma mset_remove_nth: "i < length xs \<Longrightarrow> add_mset (xs ! i) (mset (remove_nth i xs)) = mset xs"
  by (subst (3) id_take_nth_drop [of i xs]) (simp_all add: remove_nth_def)

type_synonym position = "(string \<times> string) \<times> nat"

definition entry_of :: "(string, apiStats) gomap \<Rightarrow> position \<Rightarrow> RequestDetail option" where
  "entry_of apis = (\<lambda>((k, n), i). case ledger_model apis k n of None \<Rightarrow> None
     | Some m \<Rightarrow> if i < accountingCount m then Some (shown m ! i) else None)"

definition ledger_wf :: "(string, apiStats) gomap \<Rightarrow> bool" where
  "ledger_wf apis \<longleftrightarrow> go_wf apis \<and> list_all (\<lambda>(k, a). go_wf (as_Models a)) apis"

lemma entry_ofD:
  assumes "entry_of apis ((k, n), i) = Some x"
  obtains a m where "go_get apis k = Some a" "go_get (as_Models a) n = Some m" "i < accountingCount m" "x = shown m ! i"
  using assms by (auto simp: entry_of_def ledger_model_def split: option.splits bind_splits if_splits)

lemma put_back_model:
  assumes "go_get apis k = Some a" "as_Models a' = as_Models a"
  shows "ledger_model (put_back k n a' m apis) k' n' = (if (k', n') = (k, n) then Some m else ledger_model apis k' n')"
  using assms by (auto simp: ledger_model_def put_back_def)

lemma exchange_add:
  fixes A B :: "'a multiset"
  assumes "A + M = B + M'" "M' + X = M + Y"
  shows "A + X = B + Y"
proof -
  have "(A + X) + M = B + (M' + X)" using assms(1) by (simp add: ac_simps)
  then have "(A + X) + M = (B + Y) + M" using assms(2) by (simp add: ac_simps)
  then show ?thesis by simp
qed

lemma add_equations:
  fixes A B :: "'a multiset"
  assumes "A + M = B + M'" "B + N = C + N'"
  shows "A + (M + N) = C + (M' + N')"
proof -
  have "A + (M + N) = (A + M) + N" by (simp only: add.assoc)
  also have "\<dots> = (B + N) + M'" unfolding assms(1) by (simp only: ac_simps)
  also have "\<dots> = C + (M' + N')" unfolding assms(2) by (simp only: ac_simps)
  finally show ?thesis .
qed

lemma put_back_entries:
  assumes "go_get apis k = Some a" "go_get (as_Models a) n = Some m" "as_Models a' = as_Models a"
  shows "ledger_entries (put_back k n a' m' apis) + image_mset (\<lambda>x. (k, n, x)) (retained m) =
    ledger_entries apis + image_mset (\<lambda>x. (k, n, x)) (retained m')"
proof -
  let ?b = "a'\<lparr> as_Models := go_put n m' (as_Models a') \<rparr>"
  have 1: "models_entries (as_Models ?b) + image_mset (Pair n) (retained m) =
      models_entries (as_Models a) + image_mset (Pair n) (retained m')"
    using sum_put [of "\<lambda>(n, m). image_mset (Pair n) (retained m)" n m' "as_Models a"] assms(2,3)
    by (simp add: models_entries_def)
  have "ledger_entries (put_back k n a' m' apis) + image_mset (Pair k) (models_entries (as_Models a)) =
      ledger_entries apis + image_mset (Pair k) (models_entries (as_Models ?b))"
    using sum_put [of "\<lambda>(k, a). image_mset (Pair k) (models_entries (as_Models a))" k ?b apis] assms(1)
    by (simp add: ledger_entries_def put_back_def)
  moreover have "image_mset (Pair k) (models_entries (as_Models ?b)) + image_mset (\<lambda>x. (k, n, x)) (retained m) =
      image_mset (Pair k) (models_entries (as_Models a)) + image_mset (\<lambda>x. (k, n, x)) (retained m')"
    using arg_cong [OF 1, of "image_mset (Pair k)"] by (simp add: multiset.map_comp comp_def)
  ultimately show ?thesis by (rule exchange_add)
qed

lemma put_back_ok:
  assumes "list_all (\<lambda>(k, a). apiStats_ok a) apis" "go_get apis k = Some a" "as_Models a' = as_Models a"
    and "model_ok m' (retained m')" "api_ok a' (details_of (models_entries (go_put n m' (as_Models a))))"
  shows "list_all (\<lambda>(k, a). apiStats_ok a) (put_back k n a' m' apis)"
proof -
  have "apiStats_ok a" using assms(1,2) by (auto simp: list_all_iff dest: map_of_SomeD)
  then have "models_ok (go_put n m' (as_Models a))"
    using assms(4) unfolding models_ok_def apiStats_ok_def by (auto intro: list_all_put)
  then show ?thesis
    unfolding put_back_def using assms by (intro list_all_put) (simp_all add: apiStats_ok_def)
qed

lemma put_back_wf:
  assumes "ledger_wf apis" "go_get apis k = Some a" "as_Models a' = as_Models a"
  shows "ledger_wf (put_back k n a' m apis)"
proof -
  have "go_wf (as_Models a)" using assms(1,2) by (auto simp: ledger_wf_def list_all_iff dest: map_of_SomeD)
  then show ?thesis
    using assms(1,3) unfolding ledger_wf_def put_back_def by (intro conjI list_all_put) simp_all
qed

section \<open>Removal of one detail\<close>

lemma removeQuotaFactOf_fields [simp]:
  "rs_apis (removeQuotaFactOf d s) = rs_apis s" "rs_agg (removeQuotaFactOf d s) = rs_agg s"
  "rs_retention (removeQuotaFactOf d s) = rs_retention s" "rs_prices (removeQuotaFactOf d s) = rs_prices s"
  by (auto simp: removeQuotaFactOf_def invalidateCachedResponsesLocked_def Let_def split: prod.split)

lemma model_ok_details [simp]:
  "model_ok (removeAccountingDetailAt i m) M = model_ok m M" "model_ok (setAccountingDetailAt i d m) M = model_ok m M"
  by (simp_all add: model_ok_def removeAccountingDetailAt_def setAccountingDetailAt_def)

lemma removeDetailAt_ok:
  assumes "ledger_ok s" "ledger_wf (rs_apis s)" "entry_of (rs_apis s) ((k, n), i) = Some x"
  shows "\<exists>s'. removeDetailAt k n i s = Some s' \<and> ledger_ok s' \<and> ledger_wf (rs_apis s') \<and>
    ledger_entries (rs_apis s) = add_mset (k, n, x) (ledger_entries (rs_apis s')) \<and>
    (\<forall>q. fst q \<noteq> (k, n) \<or> snd q < i \<longrightarrow> entry_of (rs_apis s') q = entry_of (rs_apis s) q) \<and>
    rs_retention s' = rs_retention s"
proof -
  obtain a m where g: "go_get (rs_apis s) k = Some a" "go_get (as_Models a) n = Some m" "i < accountingCount m"
    "x = shown m ! i" using entry_ofD [OF assms(3)] .
  define d where "d = accountingDetailAt m i"
  define s1 where "s1 = removeQuotaFactOf d s"
  obtain s2 a' m1 where f: "decrementCounters n d (s1, a, m) = (s2, a', m1)" by (metis surj_pair)
  define m' where "m' = removeAccountingDetailAt i m1"
  define s' where "s' = s2\<lparr> rs_apis := put_back k n a' m' (rs_apis s2) \<rparr>"
  have x: "x = archived d" using g by (simp add: shown_nth d_def)
  have fr: "as_Models a' = as_Models a" "rs_apis s2 = rs_apis s" "rs_retention s2 = rs_retention s"
    "mo_Details m1 = mo_Details m" "mo_accounting m1 = mo_accounting m"
    using f by (auto simp: decrementCounters_def dec_api_def dec_model_def Let_def s1_def)
  have same: "accountingCount m1 = accountingCount m" "shown m1 = shown m"
    using fr(4,5) by (simp_all add: accountingCount_def shown_append)
  have sh: "shown m' = remove_nth i (shown m)" using g(3) same by (simp add: m'_def shown_remove)
  have ret: "retained m = add_mset x (retained m')"
    using mset_remove_nth [of i "shown m"] g(3,4) by (simp add: retained_shown sh)
  have step: "removeDetailAt k n i s = Some s'"
    by (simp add: removeDetailAt_def g f s'_def m'_def Let_def flip: d_def s1_def)
  have ent: "ledger_entries (rs_apis s) = add_mset (k, n, x) (ledger_entries (rs_apis s'))"
    using put_back_entries [OF g(1,2) fr(1), of m'] by (simp add: s'_def fr(2) ret)
  have mods: "models_entries (as_Models a) = add_mset (n, x) (models_entries (go_put n m' (as_Models a)))"
    using sum_put [of "\<lambda>(n, m). image_mset (Pair n) (retained m)" n m' "as_Models a"] g(2)
    by (simp add: models_entries_def ret)
  have lo: "agg_ok (rs_agg s) (image_mset snd (ledger_entries (rs_apis s)))"
    "list_all (\<lambda>(k, a). apiStats_ok a) (rs_apis s)" using assms(1) by (simp_all add: ledger_ok_def)
  then have ao: "apiStats_ok a" using g(1) by (auto simp: list_all_iff dest: map_of_SomeD)
  then have mo: "model_ok m (retained m)" using g(2) by (auto simp: apiStats_ok_def models_ok_def list_all_iff dest: map_of_SomeD)
  have "focus_ok (image_mset snd (ledger_entries (rs_apis s))) (details_of (models_entries (as_Models a))) (retained m) (s1, a, m)"
    using lo(1) ao mo by (simp add: focus_ok_def apiStats_ok_def s1_def)
  from focus_ok_dec [OF this, of n d]
  have ok: "focus_ok (image_mset snd (ledger_entries (rs_apis s'))) (details_of (models_entries (go_put n m' (as_Models a))))
      (retained m') (s2, a', m1)"
    by (simp add: f ent mods ret flip: x)
  then have "model_ok m' (retained m')" "api_ok a' (details_of (models_entries (go_put n m' (as_Models a))))"
    "agg_ok (rs_agg s') (image_mset snd (ledger_entries (rs_apis s')))"
    by (simp_all add: focus_ok_def s'_def) (simp add: m'_def)
  moreover from this have "list_all (\<lambda>(k, a). apiStats_ok a) (rs_apis s')"
    using put_back_ok [OF lo(2) g(1) fr(1)] by (simp add: s'_def fr(2))
  ultimately have "ledger_ok s'" by (simp add: ledger_ok_def)
  moreover have "ledger_wf (rs_apis s')" using put_back_wf [OF assms(2) g(1) fr(1)] by (simp add: s'_def fr(2))
  moreover have "entry_of (rs_apis s') q = entry_of (rs_apis s) q" if "fst q \<noteq> (k, n) \<or> snd q < i" for q
  proof -
    obtain k' n' j where q: "q = ((k', n'), j)" by (metis surj_pair)
    have c: "accountingCount m' = accountingCount m - 1" using length_shown [of m'] g(3) by (simp add: sh remove_nth_def flip: length_shown)
    have "remove_nth i (shown m) ! j = shown m ! j" if "j < i" using that g(3) by (simp add: remove_nth_def nth_append)
    then show ?thesis
      using that put_back_model [OF g(1) fr(1)] g
      by (auto simp: q entry_of_def s'_def fr(2) sh c ledger_model_def)
  qed
  ultimately show ?thesis using step ent fr(3) by (intro exI [of _ s']) (simp add: s'_def)
qed

section \<open>Enrichment of one detail\<close>

abbreviation ref_pos :: "protocolFallbackDetailRef \<Rightarrow> position" where
  "ref_pos r \<equiv> ((fr_apiName r, fr_modelName r), fr_index r)"

text \<open>The entry of a detail in the ledger, and that of a native detail after its enrichment.\<close>

definition ref_entry :: "protocolFallbackDetailRef \<Rightarrow> string \<times> string \<times> RequestDetail" where
  "ref_entry r = (fr_apiName r, fr_modelName r, archived (fr_detail r))"

definition enriched_entry :: "protocolFallbackDetailPair \<Rightarrow> string \<times> string \<times> RequestDetail" where
  "enriched_entry p = (fr_apiName (fp_native p), fr_modelName (fp_native p),
     archived (enriched_by (fr_detail (fp_fallback p)) (fr_detail (fp_native p))))"

lemma archived_enriched: "archived (enriched_by u (archived d)) = archived (enriched_by u d)"
  by (simp add: enrich_fields with_metadata_def archived_def detail_of_def accountingRecord_of_def identity_of_detail_def)

lemma enriched_entry_plain:
  "map_prod id plain (snd (enriched_entry p)) = map_prod id plain (snd (ref_entry (fp_native p)))"
  by (simp add: enriched_entry_def ref_entry_def)

lemma enrichNative_ok:
  assumes "list_all (\<lambda>(k, a). apiStats_ok a) apis" "ledger_wf apis"
    and "entry_of apis (ref_pos (fp_native p)) = Some (archived (fr_detail (fp_native p)))"
  shows "\<exists>apis'. enrichNative p apis = Some apis' \<and> list_all (\<lambda>(k, a). apiStats_ok a) apis' \<and> ledger_wf apis' \<and>
    ledger_entries apis' + {#ref_entry (fp_native p)#} = ledger_entries apis + {#enriched_entry p#} \<and>
    (\<forall>q. q \<noteq> ref_pos (fp_native p) \<longrightarrow> entry_of apis' q = entry_of apis q)"
proof -
  define k n i u where v: "k = fr_apiName (fp_native p)" "n = fr_modelName (fp_native p)" "i = fr_index (fp_native p)"
    "u = fr_detail (fp_fallback p)"
  obtain a m where g: "go_get apis k = Some a" "go_get (as_Models a) n = Some m" "i < accountingCount m"
    "archived (fr_detail (fp_native p)) = shown m ! i" using entry_ofD [OF assms(3)] unfolding v .
  define d where "d = accountingDetailAt m i"
  define m' where "m' = setAccountingDetailAt i (enriched_by u d) m"
  define apis' where "apis' = put_back k n a m' apis"
  have x: "archived (fr_detail (fp_native p)) = archived d" using g by (simp add: shown_nth d_def)
  have y: "archived (enriched_by u (fr_detail (fp_native p))) = archived (enriched_by u d)"
    by (metis x archived_enriched)
  have sh: "shown m' = (shown m)[i := archived (enriched_by u d)]" using g(3) by (simp add: m'_def shown_set)
  have ret: "add_mset (archived d) (retained m') = add_mset (archived (enriched_by u d)) (retained m)"
  proof -
    have "archived d = shown m ! i" using g(4) x by simp
    moreover have "shown m ! i \<in># mset (shown m)" using g(3) by simp
    ultimately show ?thesis using g(3) by (simp add: retained_shown sh mset_update)
  qed
  have step: "enrichNative p apis = Some apis'"
    by (simp add: enrichNative_def Let_def g apis'_def m'_def flip: v d_def)
  have "(ledger_entries apis' + {#(k, n, archived d)#}) + image_mset (\<lambda>x. (k, n, x)) (retained m) =
      (ledger_entries apis + {#(k, n, archived (enriched_by u d))#}) + image_mset (\<lambda>x. (k, n, x)) (retained m)"
    using put_back_entries [OF g(1,2) refl, of m', folded apis'_def] arg_cong [OF ret, of "image_mset (\<lambda>x. (k, n, x))"]
    by simp
  then have ent: "ledger_entries apis' + {#ref_entry (fp_native p)#} = ledger_entries apis + {#enriched_entry p#}"
    by (simp add: ref_entry_def enriched_entry_def x y flip: v)
  have alike: "image_mset plain (retained m') = image_mset plain (retained m)"
    using arg_cong [OF ret, of "image_mset plain"] by simp
  have mods: "models_entries (go_put n m' (as_Models a)) + image_mset (Pair n) (retained m) =
      models_entries (as_Models a) + image_mset (Pair n) (retained m')"
    using sum_put [of "\<lambda>(n, m). image_mset (Pair n) (retained m)" n m' "as_Models a"] g(2) by (simp add: models_entries_def)
  have "image_mset plain (details_of (models_entries (go_put n m' (as_Models a)))) =
      image_mset plain (details_of (models_entries (as_Models a)))"
    using arg_cong [OF mods, of "\<lambda>E. image_mset plain (details_of E)"] by (simp add: alike)
  note api_alike = api_ok_alike [OF this]
  have ao: "apiStats_ok a" using assms(1) g(1) by (auto simp: list_all_iff dest: map_of_SomeD)
  then have "model_ok m (retained m)" using g(2) by (auto simp: apiStats_ok_def models_ok_def list_all_iff dest: map_of_SomeD)
  then have "model_ok m' (retained m')" using model_ok_alike [OF alike] by (simp add: m'_def)
  moreover have "api_ok a (details_of (models_entries (go_put n m' (as_Models a))))"
    using ao api_alike by (simp add: apiStats_ok_def)
  ultimately have "list_all (\<lambda>(k, a). apiStats_ok a) apis'"
    unfolding apis'_def by (rule put_back_ok [OF assms(1) g(1) refl])
  moreover have "ledger_wf apis'" using put_back_wf [OF assms(2) g(1) refl] by (simp add: apis'_def)
  moreover have "entry_of apis' q = entry_of apis q" if "q \<noteq> ref_pos (fp_native p)" for q
  proof -
    obtain k' n' j where q: "q = ((k', n'), j)" by (metis surj_pair)
    have "accountingCount m' = accountingCount m" by (simp add: m'_def)
    moreover have "shown m' ! j = shown m ! j" if "j \<noteq> i" using that by (simp add: sh)
    ultimately show ?thesis
      using that put_back_model [OF g(1) refl, of n m'] g
      by (auto simp: q entry_of_def apis'_def ledger_model_def simp flip: v)
  qed
  ultimately show ?thesis using step ent by (intro exI [of _ apis']) simp
qed

text \<open>All native details of the pairs, at different positions.\<close>

lemma enrichAll_ok:
  assumes "list_all (\<lambda>(k, a). apiStats_ok a) apis" "ledger_wf apis" "distinct (map (\<lambda>p. ref_pos (fp_native p)) ps)"
    and "\<And>p. p \<in> set ps \<Longrightarrow> entry_of apis (ref_pos (fp_native p)) = Some (archived (fr_detail (fp_native p)))"
  shows "\<exists>apis'. fold_option enrichNative ps apis = Some apis' \<and> list_all (\<lambda>(k, a). apiStats_ok a) apis' \<and> ledger_wf apis' \<and>
    ledger_entries apis' + mset (map (\<lambda>p. ref_entry (fp_native p)) ps) = ledger_entries apis + mset (map enriched_entry ps) \<and>
    (\<forall>q. q \<notin> (\<lambda>p. ref_pos (fp_native p)) ` set ps \<longrightarrow> entry_of apis' q = entry_of apis q)"
  using assms
proof (induction ps arbitrary: apis)
  case (Cons p ps)
  obtain apis1 where 1: "enrichNative p apis = Some apis1" "list_all (\<lambda>(k, a). apiStats_ok a) apis1" "ledger_wf apis1"
    "ledger_entries apis1 + {#ref_entry (fp_native p)#} = ledger_entries apis + {#enriched_entry p#}"
    "\<And>q. q \<noteq> ref_pos (fp_native p) \<Longrightarrow> entry_of apis1 q = entry_of apis q"
    using enrichNative_ok [OF Cons.prems(1,2) Cons.prems(4), of p] by auto
  have "entry_of apis1 (ref_pos (fp_native p')) = Some (archived (fr_detail (fp_native p')))" if "p' \<in> set ps" for p'
  proof -
    have "ref_pos (fp_native p') \<noteq> ref_pos (fp_native p)" using that Cons.prems(3) by (auto simp: image_iff)
    then show ?thesis using 1(5) Cons.prems(4) that by simp
  qed
  then obtain apis2 where 2: "fold_option enrichNative ps apis1 = Some apis2" "list_all (\<lambda>(k, a). apiStats_ok a) apis2"
    "ledger_wf apis2"
    "ledger_entries apis2 + mset (map (\<lambda>p. ref_entry (fp_native p)) ps) = ledger_entries apis1 + mset (map enriched_entry ps)"
    "\<And>q. q \<notin> (\<lambda>p. ref_pos (fp_native p)) ` set ps \<Longrightarrow> entry_of apis2 q = entry_of apis1 q"
    using Cons.IH [OF 1(2,3)] Cons.prems(3) by (auto simp: distinct_map)
  have "ledger_entries apis2 + mset (map (\<lambda>p. ref_entry (fp_native p)) (p # ps)) =
      ledger_entries apis + mset (map enriched_entry (p # ps))"
    using add_equations [OF 2(4) 1(4)] by (simp add: ac_simps)
  then show ?case using 1 2 by (intro exI [of _ apis2]) simp
qed simp

section \<open>Removal of the fallbacks\<close>

text \<open>An order of positions in which each removal leaves the positions of the later ones alone.\<close>

abbreviation removal_order :: "position list \<Rightarrow> bool" where
  "removal_order \<equiv> sorted_wrt (\<lambda>p q. fst p \<noteq> fst q \<or> snd q < snd p)"

abbreviation remove_position :: "position \<Rightarrow> RequestStatistics \<Rightarrow> RequestStatistics option" where
  "remove_position p \<equiv> removeDetailAt (fst (fst p)) (snd (fst p)) (snd p)"

definition position_entry :: "(position \<Rightarrow> RequestDetail) \<Rightarrow> position \<Rightarrow> string \<times> string \<times> RequestDetail" where
  "position_entry x p = (fst (fst p), snd (fst p), x p)"

lemma removeAll_ok:
  assumes "ledger_ok s" "ledger_wf (rs_apis s)" "removal_order ps"
    and "\<And>p. p \<in> set ps \<Longrightarrow> entry_of (rs_apis s) p = Some (x p)"
  shows "\<exists>s'. fold_option remove_position ps s = Some s' \<and> ledger_ok s' \<and> ledger_wf (rs_apis s') \<and>
    ledger_entries (rs_apis s) = mset (map (position_entry x) ps) + ledger_entries (rs_apis s') \<and>
    rs_retention s' = rs_retention s"
  using assms
proof (induction ps arbitrary: s)
  case (Cons p ps)
  obtain k n i where p: "p = ((k, n), i)" by (metis surj_pair)
  obtain s1 where 1: "removeDetailAt k n i s = Some s1" "ledger_ok s1" "ledger_wf (rs_apis s1)"
    "ledger_entries (rs_apis s) = add_mset (k, n, x p) (ledger_entries (rs_apis s1))"
    "\<And>q. fst q \<noteq> (k, n) \<or> snd q < i \<Longrightarrow> entry_of (rs_apis s1) q = entry_of (rs_apis s) q"
    "rs_retention s1 = rs_retention s"
    using removeDetailAt_ok [OF Cons.prems(1,2), of k n i "x p"] Cons.prems(4) [of p] unfolding p by auto
  have "entry_of (rs_apis s1) q = Some (x q)" if "q \<in> set ps" for q
  proof -
    have "fst q \<noteq> (k, n) \<or> snd q < i" using that Cons.prems(3) by (auto simp: p)
    then show ?thesis using 1(5) Cons.prems(4) that by simp
  qed
  moreover have "removal_order ps" using Cons.prems(3) by simp
  ultimately obtain s2 where 2: "fold_option remove_position ps s1 = Some s2" "ledger_ok s2" "ledger_wf (rs_apis s2)"
    "ledger_entries (rs_apis s1) = mset (map (position_entry x) ps) + ledger_entries (rs_apis s2)"
    "rs_retention s2 = rs_retention s1"
    using Cons.IH [OF 1(2,3)] by blast
  then show ?case using 1 by (intro exI [of _ s2]) (simp add: p position_entry_def [abs_def])
qed simp

text \<open>The groups, as one list of positions.\<close>

lemma fold_option_append: "fold_option h (xs @ ys) s = do { s' \<leftarrow> fold_option h xs s; fold_option h ys s' }"
proof (induction xs arbitrary: s)
  case (Cons x xs)
  then show ?case by (cases "h x s") simp_all
qed simp

definition group_positions :: "string \<times> nat list \<Rightarrow> position list" where
  "group_positions = (\<lambda>(compound, removals). map (Pair (split_compound compound)) (rev (sort removals)))"

lemma removeGroup_positions: "removeGroup g s = fold_option remove_position (group_positions g) s"
proof -
  have "fold_option (removeDetailAt api model) xs s = fold_option remove_position (map (Pair (api, model)) xs) s"
    for api model xs s
  proof (induction xs arbitrary: s)
    case (Cons i xs)
    then show ?case by (cases "removeDetailAt api model i s") simp_all
  qed simp
  then show ?thesis by (simp add: removeGroup_def group_positions_def split: prod.split)
qed

lemma removeGroups_positions: "fold_option removeGroup gs s = fold_option remove_position (concat (map group_positions gs)) s"
proof (induction gs arbitrary: s)
  case (Cons g gs)
  then show ?case by (cases "fold_option remove_position (group_positions g) s") (simp_all add: fold_option_append removeGroup_positions)
qed simp

text \<open>Each group holds the removals of one model.\<close>

definition compound_of :: "protocolFallbackDetailRef \<Rightarrow> string" where
  "compound_of r = fr_apiName r @ nul @ fr_modelName r"

lemma split_compound_of: "CHR 0x00 \<notin> set (fr_apiName r) \<Longrightarrow> split_compound (compound_of r) = (fr_apiName r, fr_modelName r)"
  by (induction "fr_apiName r") (auto simp: split_compound_def compound_of_def nul_def takeWhile_append dropWhile_append)

lemma group_removals_get:
  "go_getd [] (group_removals pairs) key =
     map (\<lambda>p. fr_index (fp_fallback p)) (filter (\<lambda>p. compound_of (fp_fallback p) = key) pairs)"
  "go_wf (group_removals pairs)" "go_get (group_removals pairs) key \<noteq> Some []"
proof -
  let ?step = "\<lambda>pair m. let f = fp_fallback pair; key = fr_apiName f @ nul @ fr_modelName f
      in go_put key (go_getd [] m key @ [fr_index f]) m"
  have "go_getd [] (fold ?step pairs m) key = go_getd [] m key @
      map (\<lambda>p. fr_index (fp_fallback p)) (filter (\<lambda>p. compound_of (fp_fallback p) = key) pairs)" for m
    by (induction pairs arbitrary: m) (auto simp: Let_def compound_of_def)
  then show "go_getd [] (group_removals pairs) key =
     map (\<lambda>p. fr_index (fp_fallback p)) (filter (\<lambda>p. compound_of (fp_fallback p) = key) pairs)"
    by (simp add: group_removals_def)
  have "go_wf m \<Longrightarrow> go_wf (fold ?step pairs m)" for m
    by (induction pairs arbitrary: m) (simp_all add: Let_def go_wf_put)
  then show "go_wf (group_removals pairs)" by (simp add: group_removals_def)
  have "go_get m key \<noteq> Some [] \<Longrightarrow> go_get (fold ?step pairs m) key \<noteq> Some []" for m
    by (induction pairs arbitrary: m) (simp_all add: Let_def)
  then show "go_get (group_removals pairs) key \<noteq> Some []" by (simp add: group_removals_def)
qed

lemma sorted_wrt_concat:
  assumes "\<And>g. g \<in> set gs \<Longrightarrow> sorted_wrt R (h g)"
    and "distinct (map fst gs)"
    and "\<And>g g' p q. g \<in> set gs \<Longrightarrow> g' \<in> set gs \<Longrightarrow> fst g \<noteq> fst g' \<Longrightarrow> p \<in> set (h g) \<Longrightarrow> q \<in> set (h g') \<Longrightarrow> R p q"
  shows "sorted_wrt R (concat (map h gs))"
  using assms
proof (induction gs)
  case (Cons g gs)
  have "sorted_wrt R (concat (map h gs))"
  proof (rule Cons.IH)
    show "R p q" if "g \<in> set gs" "g' \<in> set gs" "fst g \<noteq> fst g'" "p \<in> set (h g)" "q \<in> set (h g')" for g g' p q
      by (rule Cons.prems(3) [OF _ _ that(3-5)]) (use that in simp_all)
  qed (use Cons.prems(1,2) in simp_all)
  moreover have "R p q" if "p \<in> set (h g)" "g' \<in> set gs" "q \<in> set (h g')" for p q g'
  proof -
    have "fst g \<noteq> fst g'" using Cons.prems(2) that(2) by (auto simp: image_iff)
    then show ?thesis using Cons.prems(3) [of g g' p q] that by simp
  qed
  ultimately show ?case using Cons.prems(1) by (auto simp: sorted_wrt_append)
qed simp

definition removal_positions :: "protocolFallbackDetailPair list \<Rightarrow> position list" where
  "removal_positions pairs = concat (map group_positions (group_removals pairs))"

lemma removal_positions_ok:
  assumes "distinct (map (\<lambda>p. ref_pos (fp_fallback p)) pairs)"
    and "\<And>p. p \<in> set pairs \<Longrightarrow> CHR 0x00 \<notin> set (fr_apiName (fp_fallback p))"
  shows "removal_order (removal_positions pairs)"
    "mset (removal_positions pairs) = mset (map (\<lambda>p. ref_pos (fp_fallback p)) pairs)"
proof -
  let ?gs = "group_removals pairs"
  have key: "\<exists>p\<in>set pairs. compound_of (fp_fallback p) = c" and ixs: "ixs = map (\<lambda>p. fr_index (fp_fallback p)) (filter (\<lambda>p. compound_of (fp_fallback p) = c) pairs)"
    if "(c, ixs) \<in> set ?gs" for c ixs
  proof -
    have g: "go_get ?gs c = Some ixs" using that group_removals_get(2) by simp
    then show ixs: "ixs = map (\<lambda>p. fr_index (fp_fallback p)) (filter (\<lambda>p. compound_of (fp_fallback p) = c) pairs)"
      using group_removals_get(1) [of pairs c] by (simp add: go_getd_def)
    have "ixs \<noteq> []" using g group_removals_get(3) [of pairs c] by auto
    then show "\<exists>p\<in>set pairs. compound_of (fp_fallback p) = c" unfolding ixs by (auto simp: filter_empty_conv)
  qed
  have split: "split_compound (compound_of (fp_fallback p)) = fst (ref_pos (fp_fallback p))" if "p \<in> set pairs" for p
    using split_compound_of assms(2) that by simp
  have same: "compound_of (fp_fallback p) = compound_of (fp_fallback q) \<longleftrightarrow> fst (ref_pos (fp_fallback p)) = fst (ref_pos (fp_fallback q))"
    if "p \<in> set pairs" "q \<in> set pairs" for p q
    using split [OF that(1)] split [OF that(2)] by (metis compound_of_def fst_conv prod.inject)
  have pos: "set (group_positions (c, ixs)) = {ref_pos (fp_fallback p) |p. p \<in> set pairs \<and> compound_of (fp_fallback p) = c}"
    if "(c, ixs) \<in> set ?gs" for c ixs
    using ixs [OF that] split by (auto simp: group_positions_def)
  show order: "removal_order (removal_positions pairs)"
    unfolding removal_positions_def
  proof (rule sorted_wrt_concat)
    fix g assume g: "g \<in> set ?gs"
    obtain c ixs where c: "g = (c, ixs)" by (cases g)
    have "distinct ixs"
    proof -
      have "inj_on (\<lambda>p. fr_index (fp_fallback p)) {p \<in> set pairs. compound_of (fp_fallback p) = c}"
        using assms(1) same by (auto simp: inj_on_def distinct_map)
      then show ?thesis
        using assms(1) unfolding ixs [OF g [unfolded c]] by (simp add: distinct_map distinct_filter)
    qed
    then have "sorted_wrt (>) (rev (sort ixs))"
      by (simp add: sorted_wrt_rev strict_sorted_iff)
    then show "removal_order (group_positions g)"
      by (simp add: c group_positions_def sorted_wrt_map)
  next
    show "distinct (map fst ?gs)" by (rule group_removals_get(2))
    fix g g' p q assume a: "g \<in> set ?gs" "g' \<in> set ?gs" "fst g \<noteq> fst g'" "p \<in> set (group_positions g)" "q \<in> set (group_positions g')"
    obtain c ixs c' ixs' where c: "g = (c, ixs)" "g' = (c', ixs')" by (metis surj_pair)
    show "fst p \<noteq> fst q \<or> snd q < snd p"
      using a pos same unfolding c by auto
  qed
  have "set (removal_positions pairs) = (\<lambda>p. ref_pos (fp_fallback p)) ` set pairs"
  proof -
    have "\<exists>ixs. (compound_of (fp_fallback p), ixs) \<in> set ?gs" if "p \<in> set pairs" for p
    proof -
      have "go_getd [] ?gs (compound_of (fp_fallback p)) \<noteq> []"
        using that unfolding group_removals_get(1) by (auto simp: filter_empty_conv)
      then show ?thesis by (auto simp: go_getd_def split: option.splits dest: map_of_SomeD)
    qed
    then show ?thesis unfolding removal_positions_def using pos by (fastforce simp: image_iff)
  qed
  then have eq: "set (removal_positions pairs) = set (map (\<lambda>p. ref_pos (fp_fallback p)) pairs)" by simp
  have "distinct (removal_positions pairs)"
  proof -
    have "distinct ps" if "removal_order ps" for ps :: "position list" using that by (induction ps) auto
    then show ?thesis using order .
  qed
  from iffD1 [OF set_eq_iff_mset_eq_distinct [OF this assms(1)] eq]
  show "mset (removal_positions pairs) = mset (map (\<lambda>p. ref_pos (fp_fallback p)) pairs)" .
qed

section \<open>The whole repair\<close>

lemma model_refs_entries: "map ref_entry (model_refs k n m) = map (\<lambda>x. (k, n, x)) (shown m)"
  by (rule nth_equalityI) (simp_all add: model_refs_def ref_entry_def shown_nth)

lemma ledger_refs_entries: "mset (map ref_entry (ledger_refs apis)) = ledger_entries apis"
proof -
  have m: "mset (map ref_entry (concat (map (\<lambda>(n, m). model_refs k n m) ms))) = image_mset (Pair k) (models_entries ms)"
    for k and ms :: "(string, modelStats) gomap"
    by (induction ms)
      (auto simp: model_refs_entries retained_shown multiset.map_comp comp_def simp del: mset_map simp flip: mset_map)
  show ?thesis
    by (induction apis) (auto simp: ledger_refs_def m simp del: mset_map)
qed

lemma ledger_refs_model:
  assumes "ledger_wf apis" "r \<in> set (ledger_refs apis)"
  shows "\<exists>m. ledger_model apis (fr_apiName r) (fr_modelName r) = Some m \<and> r \<in> set (model_refs (fr_apiName r) (fr_modelName r) m)"
proof -
  obtain k a n m where r: "(k, a) \<in> set apis" "(n, m) \<in> set (as_Models a)" "r \<in> set (model_refs k n m)"
    using assms(2) by (auto simp: ledger_refs_def)
  have "go_get apis k = Some a" "go_get (as_Models a) n = Some m"
    using assms(1) r(1,2) by (auto simp: ledger_wf_def list_all_iff)
  moreover have "fr_apiName r = k" "fr_modelName r = n" using r(3) by (auto simp: model_refs_def)
  ultimately show ?thesis using r(3) by (simp add: ledger_model_def)
qed

lemma ledger_refs_entry:
  assumes "ledger_wf apis" "r \<in> set (ledger_refs apis)"
  shows "entry_of apis (ref_pos r) = Some (archived (fr_detail r))" "fr_apiName r \<in> set (go_keys apis)"
proof -
  obtain m where m: "ledger_model apis (fr_apiName r) (fr_modelName r) = Some m" "r \<in> set (model_refs (fr_apiName r) (fr_modelName r) m)"
    using ledger_refs_model [OF assms] by blast
  have "fr_index r' < accountingCount m \<and> fr_detail r' = accountingDetailAt m (fr_index r')" if "r' \<in> set (model_refs k n m)" for k n r'
    using that by (auto simp: model_refs_def)
  from this [OF m(2)] show "entry_of apis (ref_pos r) = Some (archived (fr_detail r))" using m(1) by (simp add: entry_of_def shown_nth)
  show "fr_apiName r \<in> set (go_keys apis)"
    using assms(2) by (force simp: ledger_refs_def model_refs_def)
qed

lemma distinct_concat_key:
  assumes "distinct (map fst xs)" "\<And>x. x \<in> set xs \<Longrightarrow> distinct (map f (h x))"
    and "\<And>x y. x \<in> set xs \<Longrightarrow> y \<in> set (h x) \<Longrightarrow> g (f y) = fst x"
  shows "distinct (map f (concat (map h xs)))"
  using assms
proof (induction xs)
  case (Cons x xs)
  have "distinct (map f (concat (map h xs)))" by (rule Cons.IH) (use Cons.prems in simp_all)
  moreover have "f y \<noteq> f z" if "y \<in> set (h x)" "x' \<in> set xs" "z \<in> set (h x')" for y z x'
  proof -
    have "fst x \<noteq> fst x'" using Cons.prems(1) that(2) by (auto simp: image_iff)
    then show ?thesis using Cons.prems(3) [of x y] Cons.prems(3) [of x' z] that by auto
  qed
  ultimately show ?case using Cons.prems(2) [of x] by auto
qed simp

lemma ledger_refs_distinct: "ledger_wf apis \<Longrightarrow> distinct (map ref_pos (ledger_refs apis))"
proof -
  assume wf: "ledger_wf apis"
  have m: "distinct (map ref_pos (concat (map (\<lambda>(n, m). model_refs k n m) ms)))" if "go_wf ms" for k and ms :: "(string, modelStats) gomap"
  proof (rule distinct_concat_key [where g = "\<lambda>p. snd (fst p)", OF that])
    show "distinct (map ref_pos (case x of (n, m) \<Rightarrow> model_refs k n m))" for x
      by (cases x) (simp add: model_refs_def comp_def distinct_map inj_on_def)
    show "snd (fst (ref_pos y)) = fst x" if "y \<in> set (case x of (n, m) \<Rightarrow> model_refs k n m)" for x y
      using that by (auto simp: model_refs_def split: prod.splits)
  qed
  show ?thesis
    unfolding ledger_refs_def
  proof (rule distinct_concat_key [where g = "\<lambda>p. fst (fst p)"])
    show "distinct (map fst apis)" using wf by (simp add: ledger_wf_def)
    show "distinct (map ref_pos (case x of (k, a) \<Rightarrow> concat (map (\<lambda>(n, m). model_refs k n m) (as_Models a))))" if "x \<in> set apis" for x
      using that wf m by (auto simp: ledger_wf_def list_all_iff split: prod.split)
    show "fst (fst (ref_pos y)) = fst x"
      if "y \<in> set (case x of (k, a) \<Rightarrow> concat (map (\<lambda>(n, m). model_refs k n m) (as_Models a)))" for x y
      using that by (auto simp: model_refs_def split: prod.splits)
  qed
qed

lemma has_fallback_refs:
  "hasRecordedProtocolFallbackLocked s \<longleftrightarrow> list_ex (\<lambda>r. isAnonymousProtocolFallbackDetail (fr_detail r)) (ledger_refs (rs_apis s))"
proof -
  have details: "map fr_detail (model_refs k n m) = accountingDetails m" for k n m
    by (rule nth_equalityI) (simp_all add: model_refs_def accountingDetails_nth)
  have m: "list_ex (\<lambda>r. P (fr_detail r)) (model_refs k n m) \<longleftrightarrow> list_ex P (accountingDetails m)" for P k n m
    unfolding details [of k n m, symmetric] by (simp add: list_ex_iff)
  have c: "list_ex P (concat xss) \<longleftrightarrow> list_ex (list_ex P) xss" for P :: "protocolFallbackDetailRef \<Rightarrow> bool" and xss
    by (induction xss) simp_all
  have l: "list_ex P (map h xs) \<longleftrightarrow> list_ex (\<lambda>x. P (h x)) xs" for P h and xs :: "'x list" by (induction xs) simp_all
  show ?thesis
    unfolding hasRecordedProtocolFallbackLocked_def ledger_refs_def c l by (simp add: case_prod_unfold c l m)
qed

lemma dropEmpty_ok:
  assumes "ledger_ok s"
  shows "ledger_ok (s\<lparr> rs_apis := dropEmpty (rs_apis s) \<rparr>)" "ledger_entries (dropEmpty (rs_apis s)) = ledger_entries (rs_apis s)"
proof -
  let ?keep = "filter (\<lambda>(model, m). \<not> (mo_Details m = [] \<and> ta_TotalRequests (mo_tally m) \<le> 0)) :: (string, modelStats) gomap \<Rightarrow> _"
  have models: "models_entries (?keep ms) = models_entries ms \<and> models_ok (?keep ms)" if "models_ok ms" for ms
    using that
  proof (induction ms)
    case (Cons x ms)
    obtain n m where x: "x = (n, m)" by (cases x)
    then show ?case using Cons model_gone [of m "retained m"] by auto
  qed simp
  have apis: "list_all (\<lambda>(k, a). apiStats_ok a) (dropEmpty apis) \<and> ledger_entries (dropEmpty apis) = ledger_entries apis"
    if "list_all (\<lambda>(k, a). apiStats_ok a) apis" for apis
    using that
  proof (induction apis)
    case (Cons x apis)
    obtain k a where x: "x = (k, a)" by (cases x)
    have a: "models_entries (?keep (as_Models a)) = models_entries (as_Models a)" "models_ok (?keep (as_Models a))"
      "api_ok a (details_of (models_entries (as_Models a)))"
      using models [of "as_Models a"] Cons.prems by (auto simp: x apiStats_ok_def)
    then show ?case using Cons by (auto simp: x dropEmpty_def apiStats_ok_def)
  qed (simp add: dropEmpty_def)
  show "ledger_ok (s\<lparr> rs_apis := dropEmpty (rs_apis s) \<rparr>)" "ledger_entries (dropEmpty (rs_apis s)) = ledger_entries (rs_apis s)"
    using assms apis [of "rs_apis s"] by (simp_all add: ledger_ok_def)
qed

lemma rebuildSeen_frame [simp]:
  "rs_apis (rebuildSeenLocked now s) = rs_apis s" "rs_agg (rebuildSeenLocked now s) = rs_agg s"
  by (simp_all add: rebuildSeenLocked_def Let_def)

lemma invalidate_frame [simp]:
  "rs_apis (invalidateCachedResponsesLocked s) = rs_apis s" "rs_agg (invalidateCachedResponsesLocked s) = rs_agg s"
  by (simp_all add: invalidateCachedResponsesLocked_def)

lemma ledger_ok_frame: "rs_apis s' = rs_apis s \<Longrightarrow> rs_agg s' = rs_agg s \<Longrightarrow> ledger_ok s' = ledger_ok s"
  by (simp add: ledger_ok_def)

text \<open>The references of the pairs: fallbacks and natives at different positions.\<close>

lemma split_refs:
  fixes xs :: "'a list"
  assumes "distinct ixs" "set ixs \<subseteq> {..<length xs}"
  shows "\<exists>R. mset (map f xs) = mset (map (\<lambda>i. f (xs ! i)) ixs) + R"
proof -
  have "mset ixs \<subseteq># mset [0..<length xs]"
    using assms by (simp add: mset_set_set [symmetric] mset_set_upto_eq_mset_upto [symmetric] atLeast0LessThan)
  then have "mset (map (\<lambda>i. f (xs ! i)) ixs) \<subseteq># mset (map (\<lambda>i. f (xs ! i)) [0..<length xs])"
    unfolding mset_map by (rule image_mset_subseteq_mono)
  also have "map (\<lambda>i. f (xs ! i)) [0..<length xs] = map f xs" by (rule nth_equalityI) simp_all
  finally show ?thesis by (metis subset_mset.le_iff_add)
qed

lemma pairs_of_ledger:
  assumes "ledger_wf apis" "pairProtocolFallbackDetails (ledger_refs apis) = Some pairs"
  shows "\<exists>R. ledger_entries apis = mset (map (\<lambda>p. ref_entry (fp_fallback p)) pairs) +
      mset (map (\<lambda>p. ref_entry (fp_native p)) pairs) + R"
    "distinct (map (\<lambda>p. ref_pos (fp_fallback p)) pairs)" "distinct (map (\<lambda>p. ref_pos (fp_native p)) pairs)"
    "p \<in> set pairs \<Longrightarrow> fp_fallback p \<in> set (ledger_refs apis) \<and> fp_native p \<in> set (ledger_refs apis)"
    "ref_pos ` fp_fallback ` set pairs \<inter> ref_pos ` fp_native ` set pairs = {}"
proof -
  let ?refs = "ledger_refs apis"
  obtain L where L: "pairs = map (pair_of_match ?refs (candidatesByPartition (map observe_ref ?refs))) L"
    "distinct (map fst L)" "distinct (map snd L)" "chosen_edges ?refs (set L)"
    using pairs_found [of ?refs] assms(2) by (auto simp: filed_edges_def)
  have fn: "map (\<lambda>p. h (fp_fallback p)) pairs = map (\<lambda>i. h (?refs ! i)) (map fst L)"
    "map (\<lambda>p. h (fp_native p)) pairs = map (\<lambda>i. h (?refs ! i)) (map snd L)" for h :: "_ \<Rightarrow> 'z"
    by (simp_all add: L(1) pair_of_match_def comp_def case_prod_unfold)
  have bound: "set (map fst L) \<subseteq> {..<length ?refs}" "set (map snd L) \<subseteq> {..<length ?refs}"
    using L(4) by (auto simp: chosen_edges_def)
  have disj: "set (map fst L) \<inter> set (map snd L) = {}"
  proof -
    have "f \<noteq> n'" if "(f, n) \<in> set L" "(f', n') \<in> set L" for f n f' n'
    proof -
      have "edge_of ?refs f n \<noteq> None" "edge_of ?refs f' n' \<noteq> None"
        using L(4) that unfolding chosen_edges_def by blast+
      then obtain e e' where "edge_of ?refs f n = Some e" "edge_of ?refs f' n' = Some e'" by blast
      from edge_evidence(1) [OF this(1)] edge_evidence(2) [OF this(2)] show ?thesis by auto
    qed
    then show ?thesis by fastforce
  qed
  have inj: "inj_on (\<lambda>i. ref_pos (?refs ! i)) {..<length ?refs}"
    using ledger_refs_distinct [OF assms(1)] by (auto simp: distinct_conv_nth inj_on_def nth_eq_iff_index_eq)
  have "distinct (map fst L @ map snd L)" "set (map fst L @ map snd L) \<subseteq> {..<length ?refs}" using L(2,3) disj bound by auto
  from split_refs [OF this, of ref_entry] show "\<exists>R. ledger_entries apis = mset (map (\<lambda>p. ref_entry (fp_fallback p)) pairs) +
      mset (map (\<lambda>p. ref_entry (fp_native p)) pairs) + R"
    unfolding fn ledger_refs_entries by (simp add: comp_def)
  show "distinct (map (\<lambda>p. ref_pos (fp_fallback p)) pairs)" "distinct (map (\<lambda>p. ref_pos (fp_native p)) pairs)"
    unfolding fn(1) [of "\<lambda>r. ref_pos r"] fn(2) [of "\<lambda>r. ref_pos r"]
    by (rule distinct_map [THEN iffD2]; use L(2,3) inj_on_subset [OF inj bound(1)] inj_on_subset [OF inj bound(2)] in simp)+
  show "p \<in> set pairs \<Longrightarrow> fp_fallback p \<in> set ?refs \<and> fp_native p \<in> set ?refs"
    using L(4) by (auto simp: L(1) pair_of_match_def chosen_edges_def)
  have img: "ref_pos ` fp_fallback ` set pairs = (\<lambda>i. ref_pos (?refs ! i)) ` set (map fst L)"
    "ref_pos ` fp_native ` set pairs = (\<lambda>i. ref_pos (?refs ! i)) ` set (map snd L)"
    using arg_cong [OF fn(1) [of ref_pos], of set] arg_cong [OF fn(2) [of ref_pos], of set] by (simp_all add: image_image)
  show "ref_pos ` fp_fallback ` set pairs \<inter> ref_pos ` fp_native ` set pairs = {}"
    unfolding img using disj bound inj_on_image_Int [OF inj, of "set (map fst L)" "set (map snd L)"] by auto
qed

abbreviation fallback_entries :: "protocolFallbackDetailPair list \<Rightarrow> (string \<times> string \<times> RequestDetail) multiset" where
  "fallback_entries pairs \<equiv> mset (map (\<lambda>p. ref_entry (fp_fallback p)) pairs)"

abbreviation native_entries :: "protocolFallbackDetailPair list \<Rightarrow> (string \<times> string \<times> RequestDetail) multiset" where
  "native_entries pairs \<equiv> mset (map (\<lambda>p. ref_entry (fp_native p)) pairs)"

text \<open>The first loop: the natives are enriched, the fallbacks are still where they were.\<close>

lemma reconcile_enrich:
  assumes "ledger_ok s" "ledger_wf (rs_apis s)" "pairProtocolFallbackDetails (ledger_refs (rs_apis s)) = Some pairs"
    and R: "ledger_entries (rs_apis s) = fallback_entries pairs + native_entries pairs + R"
  shows "\<exists>apis. fold_option enrichNative pairs (rs_apis s) = Some apis \<and> ledger_ok (s\<lparr> rs_apis := apis \<rparr>) \<and> ledger_wf apis \<and>
    ledger_entries apis = fallback_entries pairs + mset (map enriched_entry pairs) + R \<and>
    (\<forall>p\<in>set pairs. entry_of apis (ref_pos (fp_fallback p)) = Some (archived (fr_detail (fp_fallback p))))"
proof -
  note P = pairs_of_ledger [OF assms(2,3)]
  have ok: "agg_ok (rs_agg s) (image_mset snd (ledger_entries (rs_apis s)))" "list_all (\<lambda>(k, a). apiStats_ok a) (rs_apis s)"
    using assms(1) by (simp_all add: ledger_ok_def)
  have at': "entry_of (rs_apis s) (ref_pos (fp_native p)) = Some (archived (fr_detail (fp_native p)))"
    "entry_of (rs_apis s) (ref_pos (fp_fallback p)) = Some (archived (fr_detail (fp_fallback p)))" if "p \<in> set pairs" for p
    using ledger_refs_entry(1) [OF assms(2)] P(4) [OF that] by blast+
  from enrichAll_ok [OF ok(2) assms(2) P(3) at'(1)] obtain apis where e: "fold_option enrichNative pairs (rs_apis s) = Some apis"
    "list_all (\<lambda>(k, a). apiStats_ok a) apis" "ledger_wf apis"
    "ledger_entries apis + native_entries pairs = ledger_entries (rs_apis s) + mset (map enriched_entry pairs)"
    "\<And>q. q \<notin> (\<lambda>p. ref_pos (fp_native p)) ` set pairs \<Longrightarrow> entry_of apis q = entry_of (rs_apis s) q" by blast
  have e1: "ledger_entries apis = fallback_entries pairs + mset (map enriched_entry pairs) + R"
    using e(4) unfolding R by (simp add: ac_simps)
  have "plains (image_mset snd (ledger_entries apis)) = plains (image_mset snd (ledger_entries (rs_apis s)))"
    unfolding e1 R image_mset_union mset_map multiset.map_comp by (simp add: comp_def enriched_entry_plain)
  from agg_ok_alike [OF this, of "rs_agg s"] have "agg_ok (rs_agg s) (image_mset snd (ledger_entries apis))"
    using ok(1) by (simp only:)
  then have "ledger_ok (s\<lparr> rs_apis := apis \<rparr>)" using e(2) by (simp add: ledger_ok_def)
  moreover have "entry_of apis (ref_pos (fp_fallback p)) = Some (archived (fr_detail (fp_fallback p)))" if "p \<in> set pairs" for p
  proof -
    have "ref_pos (fp_fallback p) \<notin> (\<lambda>p. ref_pos (fp_native p)) ` set pairs" using P(5) that by (auto simp: image_image)
    from e(5) [OF this] show ?thesis using at'(2) [OF that] by simp
  qed
  ultimately show ?thesis using e(1,3) e1 by (intro exI [of _ apis]) blast
qed

text \<open>The second loop: the fallbacks go.\<close>

lemma reconcile_remove:
  assumes "ledger_ok s" "ledger_wf (rs_apis s)" "distinct (map (\<lambda>p. ref_pos (fp_fallback p)) pairs)"
    and nul: "\<And>p. p \<in> set pairs \<Longrightarrow> CHR 0x00 \<notin> set (fr_apiName (fp_fallback p))"
    and at': "\<And>p. p \<in> set pairs \<Longrightarrow>
      entry_of (rs_apis s) (ref_pos (fp_fallback p)) = Some (archived (fr_detail (fp_fallback p)))"
  shows "\<exists>s'. fold_option removeGroup (group_removals pairs) s = Some s' \<and> ledger_ok s' \<and>
    ledger_entries (rs_apis s) = fallback_entries pairs + ledger_entries (rs_apis s') \<and> rs_retention s' = rs_retention s"
proof -
  define x where "x = (\<lambda>q. the (entry_of (rs_apis s) q))"
  note rp = removal_positions_ok [OF assms(3) nul]
  have rset: "set (removal_positions pairs) = ref_pos ` fp_fallback ` set pairs"
    using arg_cong [OF rp(2), of set_mset] by (simp add: image_image)
  have "entry_of (rs_apis s) q = Some (x q)" if q: "q \<in> set (removal_positions pairs)" for q
  proof -
    obtain p where p: "p \<in> set pairs" "q = ref_pos (fp_fallback p)" using q unfolding rset by blast
    show ?thesis using at' [OF p(1)] p(2) by (simp add: x_def)
  qed
  from removeAll_ok [OF assms(1,2) rp(1) this] obtain s' where
    r: "fold_option remove_position (removal_positions pairs) s = Some s'" "ledger_ok s'"
    "ledger_entries (rs_apis s) = mset (map (position_entry x) (removal_positions pairs)) + ledger_entries (rs_apis s')"
    "rs_retention s' = rs_retention s" by blast
  have "mset (map (position_entry x) (removal_positions pairs)) =
      image_mset (position_entry x) (mset (map (\<lambda>p. ref_pos (fp_fallback p)) pairs))" by (simp only: mset_map rp(2))
  also have "\<dots> = mset (map (\<lambda>p. position_entry x (ref_pos (fp_fallback p))) pairs)"
    by (simp add: multiset.map_comp comp_def)
  also have "map (\<lambda>p. position_entry x (ref_pos (fp_fallback p))) pairs = map (\<lambda>p. ref_entry (fp_fallback p)) pairs"
    using at' by (simp add: position_entry_def ref_entry_def x_def)
  finally show ?thesis using r unfolding removeGroups_positions removal_positions_def [symmetric]
    by (intro exI [of _ s']) simp
qed

text \<open>
  C10: Reconciliation always returns, and removes exactly the fallback records that it pairs with a
  native record, one for one: what the ledger retains afterwards are the native records, with the
  metadata of their fallbacks, and the records it did not touch, less the expired ones.  Every
  counter of the plugin, of each API and of each model is then again the sum over what is left, so
  nothing stays counted twice and nothing is lost.  The names of the APIs must not contain a NUL.
\<close>
theorem reconcile_moves_fallbacks:
  assumes "ledger_ok s" "ledger_wf (rs_apis s)" "\<And>k. k \<in> set (go_keys (rs_apis s)) \<Longrightarrow> CHR 0x00 \<notin> set k"
  shows "\<exists>s' pairs R. reconcileRecordedProtocolFallbacksLocked now s = Some (s', length pairs) \<and>
    pairProtocolFallbackDetails (ledger_refs (rs_apis s)) = Some pairs \<and> ledger_ok s' \<and>
    ledger_entries (rs_apis s) = mset (map (\<lambda>p. ref_entry (fp_fallback p)) pairs) +
      mset (map (\<lambda>p. ref_entry (fp_native p)) pairs) + R \<and>
    ledger_entries (rs_apis s') = (if pairs = [] then R
      else filter_mset (\<lambda>(api, model, d). \<not> drops (prune_cutoff now s) d) (mset (map enriched_entry pairs) + R))"
proof -
  let ?s = "s\<lparr> rs_protocolFallbackReconcileDirty := False \<rparr>"
  obtain pairs where pairs: "pairProtocolFallbackDetails (ledger_refs (rs_apis s)) = Some pairs" using pairs_found by blast
  note P = pairs_of_ledger [OF assms(2) pairs]
  from P(1) obtain R where R: "ledger_entries (rs_apis s) = fallback_entries pairs + native_entries pairs + R" by blast
  show ?thesis
  proof (cases "pairs = []")
    case True
    have "reconcileRecordedProtocolFallbacksLocked now s = Some (?s, 0)"
      using pairs True by (simp add: reconcileRecordedProtocolFallbacksLocked_def Let_def)
    then show ?thesis using True pairs assms(1) by (intro exI [of _ ?s] exI [of _ pairs] exI [of _ R]) (simp add: R ledger_ok_def)
  next
    case False
    then have some: "hasRecordedProtocolFallbackLocked s"
      using pairs by (auto simp: has_fallback_refs pairProtocolFallbackDetails_def split: if_splits)
    from reconcile_enrich [OF assms(1,2) pairs R] obtain apis where
      e: "fold_option enrichNative pairs (rs_apis s) = Some apis" "ledger_ok (s\<lparr> rs_apis := apis \<rparr>)" "ledger_wf apis"
      "ledger_entries apis = fallback_entries pairs + mset (map enriched_entry pairs) + R"
      "\<And>p. p \<in> set pairs \<Longrightarrow> entry_of apis (ref_pos (fp_fallback p)) = Some (archived (fr_detail (fp_fallback p)))"
      by blast
    have nul: "CHR 0x00 \<notin> set (fr_apiName (fp_fallback p))" if "p \<in> set pairs" for p
      using assms(3) ledger_refs_entry(2) [OF assms(2)] P(4) [OF that] by blast
    have "ledger_ok (?s\<lparr> rs_apis := apis \<rparr>)" using e(2) by (simp add: ledger_ok_def)
    from reconcile_remove [OF this _ P(2) nul] e(3,5) obtain s2 where
      r: "fold_option removeGroup (group_removals pairs) (?s\<lparr> rs_apis := apis \<rparr>) = Some s2" "ledger_ok s2"
      "ledger_entries apis = fallback_entries pairs + ledger_entries (rs_apis s2)" "rs_retention s2 = rs_retention s"
      by auto
    define s3 where "s3 = s2\<lparr> rs_apis := dropEmpty (rs_apis s2) \<rparr>"
    have s3: "ledger_ok s3" "ledger_entries (rs_apis s3) = mset (map enriched_entry pairs) + R"
      "prune_cutoff now s3 = prune_cutoff now s"
      using dropEmpty_ok [OF r(2)] r(3,4) e(4) by (simp_all add: s3_def prune_cutoff_def)
    define s4 where "s4 = invalidateCachedResponsesLocked (rebuildSeenLocked now (pruneLocked now True s3))"
    have "reconcileRecordedProtocolFallbacksLocked now s = Some (s4, length pairs)"
      using False some e(1) r(1) pairs
      by (simp add: reconcileRecordedProtocolFallbacksLocked_def Let_def hasRecordedProtocolFallbackLocked_def s4_def s3_def)
    moreover have "rs_apis s4 = rs_apis (pruneLocked now True s3)" "rs_agg s4 = rs_agg (pruneLocked now True s3)"
      by (simp_all add: s4_def)
    moreover from this have "ledger_ok s4" using pruneLocked_ok [OF s3(1)] ledger_ok_frame by blast
    ultimately show ?thesis
      using pruneLocked_ok [OF s3(1), of now True] s3(2,3) pairs R False
      by (intro exI [of _ s4] exI [of _ pairs] exI [of _ R]) simp
  qed
qed

section \<open>A ledger with one pair\<close>

definition sample_pair_ledger :: RequestStatistics where
  "sample_pair_ledger = rebuildAggregatesLocked (sample_ledger\<lparr> rs_apis :=
     [(''api'', new_apiStats\<lparr> as_Models := [(''m'', new_modelStats\<lparr> mo_Details := [sample_fallback, sample_native] \<rparr>)] \<rparr>)] \<rparr>)"

lemma sample_pair_fits: "sums_fit {#archived sample_fallback, archived sample_native#}"
proof -
  have f: "totals_of sample_fallback = \<lparr> dt_totalTokens = 20, dt_inputTokens = 15, dt_outputTokens = 5, dt_cachedTokens = 2,
      dt_cacheWriteTokens = 0, dt_reasoningTokens = 0, dt_latencySum = 0, dt_latencyN = 0 \<rparr>" by code_simp
  have n: "totals_of sample_native = \<lparr> dt_totalTokens = 20, dt_inputTokens = 10, dt_outputTokens = 5, dt_cachedTokens = 2,
      dt_cacheWriteTokens = 3, dt_reasoningTokens = 0, dt_latencySum = 2000, dt_latencyN = 1 \<rparr>" by code_simp
  show ?thesis by (simp add: sums_fit_def wide_all counter_all f n MaxInt64_def)
qed

lemma sample_pair_facts:
  "ledger_ok sample_pair_ledger" "ledger_wf (rs_apis sample_pair_ledger)" "go_keys (rs_apis sample_pair_ledger) = [''api'']"
  "ledger_refs (rs_apis sample_pair_ledger) = sample_refs"
  "size (ledger_entries (rs_apis sample_pair_ledger)) = 2"
proof -
  let ?s = "sample_ledger\<lparr> rs_apis :=
     [(''api'', new_apiStats\<lparr> as_Models := [(''m'', new_modelStats\<lparr> mo_Details := [sample_fallback, sample_native] \<rparr>)] \<rparr>)] \<rparr>"
  have "sums_fit (all_details ?s)"
    using sample_pair_fits by (simp add: all_details_def retained_alt new_modelStats_def)
  note r = rebuild_ok [OF this, folded sample_pair_ledger_def]
  then show "ledger_ok sample_pair_ledger" by blast
  from r have st: "map (\<lambda>(k, a). (k, map (\<lambda>(n, m). (n, stored m)) (as_Models a))) (rs_apis sample_pair_ledger) =
      [(''api'', [(''m'', [sample_fallback, sample_native], [])])]"
    by (simp add: stored_def new_modelStats_def)
  then obtain a m where a: "rs_apis sample_pair_ledger = [(''api'', a)]" "as_Models a = [(''m'', m)]"
    "mo_Details m = [sample_fallback, sample_native]" "mo_accounting m = []"
    by (auto simp: stored_def map_eq_Cons_conv split: prod.splits)
  show "ledger_wf (rs_apis sample_pair_ledger)" "go_keys (rs_apis sample_pair_ledger) = [''api'']"
    by (simp_all add: a ledger_wf_def)
  show "ledger_refs (rs_apis sample_pair_ledger) = sample_refs"
    by (simp add: a ledger_refs_def model_refs_def accountingCount_def accountingDetailAt_def sample_refs_def upt_rec numeral_2_eq_2)
  show "size (ledger_entries (rs_apis sample_pair_ledger)) = 2" by (simp add: a retained_alt)
qed

lemma reconcile_moves_fallbacks_witness:
  "\<exists>s'. reconcileRecordedProtocolFallbacksLocked sample_now sample_pair_ledger = Some (s', 1) \<and> ledger_ok s' \<and>
    size (ledger_entries (rs_apis sample_pair_ledger)) = 2 \<and> size (ledger_entries (rs_apis s')) \<le> 1"
proof -
  note f = sample_pair_facts
  obtain s' pairs R where r: "reconcileRecordedProtocolFallbacksLocked sample_now sample_pair_ledger = Some (s', length pairs)"
    "pairProtocolFallbackDetails sample_refs = Some pairs" "ledger_ok s'"
    "ledger_entries (rs_apis sample_pair_ledger) = fallback_entries pairs + native_entries pairs + R"
    "ledger_entries (rs_apis s') = (if pairs = [] then R else filter_mset
      (\<lambda>(api, model, d). \<not> drops (prune_cutoff sample_now sample_pair_ledger) d) (mset (map enriched_entry pairs) + R))"
    using reconcile_moves_fallbacks [OF f(1,2), of sample_now] f(3,4) by auto
  have "chosen_edges sample_refs {(0, 1)}" using sample_refs_edge by (simp add: chosen_edges_def sample_refs_def)
  moreover have "list_all ascii_names (map observe_ref sample_refs)" by code_simp
  ultimately have "filed_edges sample_refs {(0, 1)}" using ascii_filed by blast
  then have "1 \<le> length pairs" using pairs_found [of sample_refs] r(2) by fastforce
  moreover have "2 * length pairs + size R = 2" using arg_cong [OF r(4), of size] f(5) by simp
  ultimately have one: "length pairs = 1" "size R = 0" by linarith+
  then have ne: "pairs \<noteq> []" by auto
  have "size (ledger_entries (rs_apis s')) \<le> size (mset (map enriched_entry pairs) + R)"
    unfolding r(5) if_not_P [OF ne] by (rule size_filter_mset_lesseq)
  then show ?thesis using r(1,3) one f(5) by (intro exI [of _ s']) simp
qed

end
