(* ===== verification/AccountingBlocks.thy ===== *)
theory AccountingBlocks
  imports Accounting
begin

text \<open>
  How the archive of a model is stored (\<open>go/accounting_blocks.go\<close>, \<open>go/accounting_identity.go\<close>):
  blocks of 256 records in growing arrays, which a frozen snapshot shares until a write copies the
  block.  The arrays are an explicit heap, since the point of the code is what may be overwritten:
  the theory shows that the blocks behave as the list of theory \<open>Accounting\<close>, and that no later
  operation changes a frozen snapshot.  The range caches that the operations invalidate are not
  part of this state.
\<close>

section \<open>Blocks in a heap\<close>

definition accountingBlockRecords :: nat where
  "accountingBlockRecords = 256"

definition zeroRecord :: accountingRecord where
  "zeroRecord = \<lparr> ar_RecordID = [], ar_Correlation = None, ar_Timestamp = zero_time,
     ar_Identity = \<lparr> ai_Model = [], ai_Provider = [], ai_Source = [], ai_AuthIndex = [], ai_AuthID = [], ai_AuthType = [],
       ai_APIKey = [], ai_APIKeyHash = [], ai_BaseURL = [], ai_RequestedModel = [], ai_ExecutorType = [], ai_Endpoint = [] \<rparr>,
     ar_Tokens = \<lparr> tk_InputTokens = 0, tk_OutputTokens = 0, tk_ReasoningTokens = 0, tk_CachedTokens = 0,
       tk_CacheReadTokens = 0, tk_CacheTokens = 0, tk_CacheWriteTokens = 0, tk_TotalTokens = 0 \<rparr>,
     ar_LatencyMs = 0, ar_TTFTMs = 0, ar_Failure = [], ar_StatusCode = 0, ar_Failed = False, ar_Synthetic = False \<rparr>"

text \<open>
  A slice that starts at the beginning of its array; the capacity is the length of the array.  An
  address is a position in the heap, and allocation appends to it.
\<close>

record slice =
  sl_array :: nat
  sl_len :: nat

record accountingBlocks =
  ab_blocks :: "slice list"
  ab_shared :: "bool list"
  ab_count :: nat

type_synonym heap = "accountingRecord list list"
type_synonym archive = "heap \<times> accountingBlocks"

definition slice_records :: "heap \<Rightarrow> slice \<Rightarrow> accountingRecord list" where
  "slice_records h s = take (sl_len s) (h ! sl_array s)"

definition cap :: "heap \<Rightarrow> slice \<Rightarrow> nat" where
  "cap h s = length (h ! sl_array s)"

text \<open>\<open>make\<close> with a capacity, then \<open>copy\<close>.\<close>

definition new_array :: "accountingRecord list \<Rightarrow> nat \<Rightarrow> heap \<Rightarrow> heap \<times> slice" where
  "new_array xs capacity h =
     (h @ [xs @ replicate (capacity - length xs) zeroRecord], \<lparr> sl_array = length h, sl_len = length xs \<rparr>)"

definition write_at :: "nat \<Rightarrow> nat \<Rightarrow> accountingRecord \<Rightarrow> heap \<Rightarrow> heap" where
  "write_at addr k r h = h[addr := (h ! addr)[k := r]]"

section \<open>Operations\<close>

definition empty_blocks :: accountingBlocks where
  "empty_blocks = \<lparr> ab_blocks = [], ab_shared = [], ab_count = 0 \<rparr>"

definition block_at :: "archive \<Rightarrow> nat \<Rightarrow> accountingRecord" where
  "block_at = (\<lambda>(h, b) i. h ! sl_array (ab_blocks b ! (i div accountingBlockRecords)) ! (i mod accountingBlockRecords))"

definition writableBlock :: "nat \<Rightarrow> archive \<Rightarrow> archive" where
  "writableBlock index = (\<lambda>(h, b).
     if index < length (ab_shared b) \<and> ab_shared b ! index
     then let block = ab_blocks b ! index;
              (h, copyOfBlock) = new_array (slice_records h block) (cap h block) h
          in (h, b\<lparr> ab_blocks := (ab_blocks b)[index := copyOfBlock], ab_shared := (ab_shared b)[index := False] \<rparr>)
     else (h, b))"

text \<open>The assignment \<open>*b.mutableAt(i) = r\<close>.\<close>

definition mutable_set :: "nat \<Rightarrow> accountingRecord \<Rightarrow> archive \<Rightarrow> archive" where
  "mutable_set i r a =
     (case writableBlock (i div accountingBlockRecords) a of (h, b) \<Rightarrow>
        (write_at (sl_array (ab_blocks b ! (i div accountingBlockRecords))) (i mod accountingBlockRecords) r h, b))"

definition freeze :: "archive \<Rightarrow> archive \<times> slice list" where
  "freeze = (\<lambda>(h, b).
     if ab_count b = 0 then ((h, b), [])
     else let shared = ab_shared b @ replicate (length (ab_blocks b) - length (ab_shared b)) False;
              shared = replicate (length (ab_blocks b)) True @ drop (length (ab_blocks b)) shared
          in ((h, b\<lparr> ab_shared := shared \<rparr>), ab_blocks b))"

text \<open>The first half of \<open>append\<close>: the last block, its index, and room in it for one record.\<close>

definition appendable :: "archive \<Rightarrow> archive \<times> nat \<times> slice" where
  "appendable = (\<lambda>(h, b).
     let (h, b) = (if ab_blocks b = []
            then (case new_array [] 1 h of (h, s) \<Rightarrow> (h, b\<lparr> ab_blocks := [s] \<rparr>)) else (h, b));
         last' = length (ab_blocks b) - 1;
         block = ab_blocks b ! last'
     in if sl_len block = accountingBlockRecords
        then (case new_array [] accountingBlockRecords h of (h, s) \<Rightarrow>
                ((h, b\<lparr> ab_blocks := ab_blocks b @ [s] \<rparr>), last' + 1, s))
        else if sl_len block = cap h block
        then (case new_array (slice_records h block) (min accountingBlockRecords (max 1 (cap h block * 2))) h of (h, grown) \<Rightarrow>
                ((h, b\<lparr> ab_shared := (ab_shared b)[last' := False] \<rparr>), last', grown))
        else ((h, b), last', block))"

definition append_record :: "accountingRecord \<Rightarrow> archive \<Rightarrow> archive" where
  "append_record r a =
     (case appendable a of ((h, b), last', block) \<Rightarrow>
        (write_at (sl_array block) (sl_len block) r h,
         b\<lparr> ab_blocks := (ab_blocks b)[last' := block\<lparr> sl_len := sl_len block + 1 \<rparr>], ab_count := ab_count b + 1 \<rparr>))"

definition truncate :: "nat \<Rightarrow> archive \<Rightarrow> archive" where
  "truncate count' a =
     (if count' = 0 then (fst a, empty_blocks)
      else let blocks = (count' + accountingBlockRecords - 1) div accountingBlockRecords;
               (h, b) = writableBlock (blocks - 1) a;
               last' = ab_blocks b ! (blocks - 1);
               end' = count' - (blocks - 1) * accountingBlockRecords;
               cleared = take end' (h ! sl_array last') @ replicate (sl_len last' - end') zeroRecord @ drop (sl_len last') (h ! sl_array last')
           in (h[sl_array last' := cleared],
               b\<lparr> ab_blocks := take blocks ((ab_blocks b)[blocks - 1 := last'\<lparr> sl_len := end' \<rparr>]),
                  ab_shared := take blocks (ab_shared b), ab_count := count' \<rparr>))"

definition remove_record :: "nat \<Rightarrow> archive \<Rightarrow> archive" where
  "remove_record i a =
     (let count' = ab_count (snd a);
          a = fold (\<lambda>next a. mutable_set (next - 1) (block_at a next) a) [i + 1..<count'] a
      in truncate (count' - 1) a)"

definition blocks_records :: "archive \<Rightarrow> accountingRecord list" where
  "blocks_records = (\<lambda>(h, b). concat (map (slice_records h) (ab_blocks b)))"

section \<open>Stored lists\<close>

text \<open>What a representation of a list promises, and the removal that is built from it.\<close>

locale stored_list =
  fixes inv :: "'a \<Rightarrow> bool"
    and contents :: "'a \<Rightarrow> 'e list"
    and get :: "'a \<Rightarrow> nat \<Rightarrow> 'e"
    and put :: "nat \<Rightarrow> 'e \<Rightarrow> 'a \<Rightarrow> 'a"
    and shorten :: "nat \<Rightarrow> 'a \<Rightarrow> 'a"
  assumes get: "inv a \<Longrightarrow> i < length (contents a) \<Longrightarrow> get a i = contents a ! i"
    and put: "inv a \<Longrightarrow> i < length (contents a) \<Longrightarrow> inv (put i x a) \<and> contents (put i x a) = (contents a)[i := x]"
    and shorten: "inv a \<Longrightarrow> n \<le> length (contents a) \<Longrightarrow> inv (shorten n a) \<and> contents (shorten n a) = take n (contents a)"
begin

definition shift :: "nat \<Rightarrow> nat \<Rightarrow> 'a \<Rightarrow> 'a" where
  "shift i m a = fold (\<lambda>next a. put (next - 1) (get a next) a) [i + 1..<m] a"

lemma shift_contents:
  assumes "inv a" "m \<le> length (contents a)" "i < m"
  shows "inv (shift i m a) \<and> contents (shift i m a) =
    take i (contents a) @ drop (i + 1) (take m (contents a)) @ drop (m - 1) (contents a)"
  using assms(2,3)
proof (induction m)
  case (Suc m)
  let ?xs = "contents a"
  show ?case
  proof (cases "i < m")
    case False
    then have "i = m" using Suc.prems by simp
    then show ?thesis using assms(1) by (simp add: shift_def)
  next
    case True
    have IH: "inv (shift i m a)" "contents (shift i m a) = take i ?xs @ drop (i + 1) (take m ?xs) @ drop (m - 1) ?xs"
      using Suc.IH Suc.prems True by simp_all
    have m: "m < length (contents (shift i m a))" using Suc.prems True by (simp add: IH(2))
    have at': "get (shift i m a) m = ?xs ! m"
    proof -
      have q: "\<not> m - i < m - Suc i" "m - i - (m - Suc i) = 1" using True by simp_all
      have "contents (shift i m a) ! m = ?xs ! m"
      proof (cases "m = 1")
        case True
        then show ?thesis unfolding IH(2) using \<open>i < m\<close> Suc.prems by (simp add: nth_append)
      next
        case False
        then have "1 < m" using \<open>i < m\<close> by linarith
        then show ?thesis unfolding IH(2) using \<open>i < m\<close> Suc.prems q by (simp add: nth_append)
      qed
      then show ?thesis using get [OF IH(1) m] by simp
    qed
    have step: "shift i (Suc m) a = put (m - 1) (?xs ! m) (shift i m a)"
      using True at' by (simp add: shift_def)
    have "m - 1 < length (contents (shift i m a))" using m by simp
    note p = put [OF IH(1) this, of "?xs ! m"]
    have "(take i ?xs @ drop (i + 1) (take m ?xs) @ drop (m - 1) ?xs)[m - 1 := ?xs ! m] =
        take i ?xs @ drop (i + 1) (take (Suc m) ?xs) @ drop m ?xs"
    proof (rule nth_equalityI)
      have hm: "m \<le> Suc 0 \<Longrightarrow> m = Suc 0" using True by simp
      show "(take i ?xs @ drop (i + 1) (take m ?xs) @ drop (m - 1) ?xs)[m - 1 := ?xs ! m] ! j =
          (take i ?xs @ drop (i + 1) (take (Suc m) ?xs) @ drop m ?xs) ! j"
        if "j < length ((take i ?xs @ drop (i + 1) (take m ?xs) @ drop (m - 1) ?xs)[m - 1 := ?xs ! m])" for j
        using that Suc.prems True by (auto simp: nth_append nth_list_update min_def not_less dest!: hm)
    qed (use Suc.prems True in simp)
    then show ?thesis using p by (simp add: step IH(2))
  qed
qed simp

text \<open>Shifting the later elements down and dropping the last one removes an element.\<close>

lemma remove_contents:
  assumes "inv a" "i < length (contents a)"
  shows "inv (shorten (length (contents a) - 1) (shift i (length (contents a)) a)) \<and>
    contents (shorten (length (contents a) - 1) (shift i (length (contents a)) a)) = remove_nth i (contents a)"
proof -
  note s = shift_contents [OF assms(1) order_refl assms(2)]
  have "length (contents a) - 1 \<le> length (contents (shift i (length (contents a)) a))" using s by simp
  from shorten [OF _ this] s assms(2) show ?thesis by (simp add: remove_nth_def min_absorb2)
qed

end

section \<open>Lists in blocks\<close>

text \<open>All blocks are full but the last, which is not empty.\<close>

fun chunks :: "'a list list \<Rightarrow> bool" where
  "chunks [] \<longleftrightarrow> True"
| "chunks [xs] \<longleftrightarrow> xs \<noteq> [] \<and> length xs \<le> accountingBlockRecords"
| "chunks (xs # ys # yss) \<longleftrightarrow> length xs = accountingBlockRecords \<and> chunks (ys # yss)"

lemma block_size [simp]: "accountingBlockRecords > 0" "accountingBlockRecords \<noteq> 0"
  by (simp_all add: accountingBlockRecords_def)

lemma chunks_cons:
  "chunks (xs # xss) \<longleftrightarrow> (if xss = [] then xs \<noteq> [] \<and> length xs \<le> accountingBlockRecords
     else length xs = accountingBlockRecords \<and> chunks xss)"
  by (cases xss) simp_all

lemma chunks_nth:
  assumes "chunks xss" "i < length (concat xss)"
  shows "i div accountingBlockRecords < length xss \<and>
    i mod accountingBlockRecords < length (xss ! (i div accountingBlockRecords)) \<and>
    concat xss ! i = xss ! (i div accountingBlockRecords) ! (i mod accountingBlockRecords)"
  using assms
proof (induction xss arbitrary: i)
  case (Cons xs xss)
  show ?case
  proof (cases "i < accountingBlockRecords \<or> xss = []")
    case True
    then have "i < length xs" "i < accountingBlockRecords" using Cons.prems by (auto simp: chunks_cons split: if_splits)
    then show ?thesis by (simp add: nth_append)
  next
    case False
    let ?j = "i - accountingBlockRecords"
    have p: "length xs = accountingBlockRecords" "chunks xss" using Cons.prems False by (simp_all add: chunks_cons)
    have "\<not> i < accountingBlockRecords" using False by blast
    then have "?j < length (concat xss)" using Cons.prems(2) p(1) by simp
    from Cons.IH [OF p(2) this] show ?thesis
      using False p by (simp add: nth_append le_div_geq le_mod_geq)
  qed
qed simp

lemma chunks_update:
  assumes "chunks xss" "i < length (concat xss)"
  shows "chunks (xss[i div accountingBlockRecords := (xss ! (i div accountingBlockRecords))[i mod accountingBlockRecords := x]]) \<and>
    concat (xss[i div accountingBlockRecords := (xss ! (i div accountingBlockRecords))[i mod accountingBlockRecords := x]]) =
      (concat xss)[i := x]"
  using assms
proof (induction xss arbitrary: i)
  case (Cons xs xss)
  show ?case
  proof (cases "i < accountingBlockRecords \<or> xss = []")
    case True
    then have "i < length xs" "i < accountingBlockRecords" using Cons.prems by (auto simp: chunks_cons split: if_splits)
    then show ?thesis using Cons.prems by (auto simp: list_update_append chunks_cons)
  next
    case False
    let ?j = "i - accountingBlockRecords"
    have p: "length xs = accountingBlockRecords" "chunks xss" using Cons.prems False by (simp_all add: chunks_cons)
    have "\<not> i < accountingBlockRecords" using False by blast
    then have "?j < length (concat xss)" using Cons.prems(2) p(1) by simp
    from Cons.IH [OF p(2) this] show ?thesis
      using False p by (simp add: list_update_append le_div_geq le_mod_geq chunks_cons)
  qed
qed simp

text \<open>The last block, its growth and a new block.\<close>

lemma chunks_snoc:
  "chunks (xss @ [xs]) \<longleftrightarrow> (\<forall>ys\<in>set xss. length ys = accountingBlockRecords) \<and> xs \<noteq> [] \<and> length xs \<le> accountingBlockRecords"
  by (induction xss) (auto simp: chunks_cons)

lemma chunks_full: "chunks xss \<Longrightarrow> i < length xss - 1 \<Longrightarrow> length (xss ! i) = accountingBlockRecords"
  by (cases xss rule: rev_cases) (auto simp: chunks_snoc nth_append)

lemma chunks_take:
  assumes "chunks xss" "0 < n" "n \<le> length (concat xss)"
  defines "m \<equiv> (n + accountingBlockRecords - 1) div accountingBlockRecords"
  shows "m - 1 < length xss \<and> n - (m - 1) * accountingBlockRecords \<le> length (xss ! (m - 1)) \<and>
    chunks (take m (xss[m - 1 := take (n - (m - 1) * accountingBlockRecords) (xss ! (m - 1))])) \<and>
    concat (take m (xss[m - 1 := take (n - (m - 1) * accountingBlockRecords) (xss ! (m - 1))])) = take n (concat xss) \<and> 0 < m"
  using assms(1-3) unfolding m_def
proof (induction xss arbitrary: n)
  case (Cons xs xss)
  let ?B = "accountingBlockRecords"
  show ?case
  proof (cases "n \<le> ?B")
    case True
    then have "(n + ?B - 1) div ?B = 1" using Cons.prems(2) by (simp add: accountingBlockRecords_def)
    moreover have "n \<le> length xs" using True Cons.prems by (auto simp: chunks_cons split: if_splits)
    ultimately show ?thesis using Cons.prems(2) True by auto
  next
    case False
    let ?m = "(n - ?B + ?B - 1) div ?B"
    have p: "length xs = ?B" "chunks xss" "xss \<noteq> []"
      using Cons.prems False by (auto simp: chunks_cons split: if_splits)
    have m: "(n + ?B - 1) div ?B = Suc ?m" using False by (simp add: accountingBlockRecords_def)
    have IH: "?m - 1 < length xss \<and> n - ?B - (?m - 1) * ?B \<le> length (xss ! (?m - 1)) \<and>
      chunks (take ?m (xss[?m - 1 := take (n - ?B - (?m - 1) * ?B) (xss ! (?m - 1))])) \<and>
      concat (take ?m (xss[?m - 1 := take (n - ?B - (?m - 1) * ?B) (xss ! (?m - 1))])) = take (n - ?B) (concat xss) \<and> 0 < ?m"
      by (rule Cons.IH) (use p False Cons.prems in auto)
    then obtain k where k: "?m = Suc k" by (cases ?m) auto
    have a: "n - Suc k * ?B = n - ?B - k * ?B" by simp
    show ?thesis
      using IH p False unfolding m k by (auto simp: a chunks_cons take_Cons' split: if_splits)
  qed
qed simp

section \<open>The invariant\<close>

abbreviation block_values :: "archive \<Rightarrow> accountingRecord list list" where
  "block_values a \<equiv> map (slice_records (fst a)) (ab_blocks (snd a))"

abbreviation blocks_of :: "archive \<Rightarrow> slice list" where
  "blocks_of a \<equiv> ab_blocks (snd a)"

lemma blocks_records_alt: "blocks_records a = concat (block_values a)"
  by (cases a) (simp add: blocks_records_def)

definition slice_ok :: "heap \<Rightarrow> slice \<Rightarrow> bool" where
  "slice_ok h s \<longleftrightarrow> sl_array s < length h \<and> sl_len s \<le> cap h s"

definition blocks_shape :: "archive \<Rightarrow> bool" where
  "blocks_shape a \<longleftrightarrow> list_all (\<lambda>s. slice_ok (fst a) s \<and> cap (fst a) s \<le> accountingBlockRecords) (blocks_of a) \<and>
     distinct (map sl_array (blocks_of a)) \<and> ab_count (snd a) = length (blocks_records a) \<and>
     length (ab_shared (snd a)) \<le> length (blocks_of a)"

definition blocks_ok :: "archive \<Rightarrow> bool" where
  "blocks_ok a \<longleftrightarrow> blocks_shape a \<and> chunks (block_values a)"

text \<open>All blocks but the last are full; during an append the last one may be empty.\<close>

abbreviation full_but_last :: "archive \<Rightarrow> bool" where
  "full_but_last a \<equiv> \<forall>xs\<in>set (butlast (block_values a)). length xs = accountingBlockRecords"

lemma chunks_full_but_last: "chunks xss \<Longrightarrow> \<forall>xs\<in>set (butlast xss). length xs = accountingBlockRecords"
  by (cases xss rule: rev_cases) (auto simp: chunks_snoc)

definition is_shared :: "accountingBlocks \<Rightarrow> nat \<Rightarrow> bool" where
  "is_shared b i \<longleftrightarrow> i < length (ab_shared b) \<and> ab_shared b ! i"

text \<open>
  The slices \<open>F\<close> of the frozen snapshots: whenever a block uses the array of one of them, it is
  marked as shared and is at least as long.
\<close>

definition frozen_ok :: "archive \<Rightarrow> slice set \<Rightarrow> bool" where
  "frozen_ok a F \<longleftrightarrow> (\<forall>s\<in>F. slice_ok (fst a) s \<and> (\<forall>i < length (blocks_of a). sl_array (blocks_of a ! i) = sl_array s \<longrightarrow>
     is_shared (snd a) i \<and> sl_len s \<le> sl_len (blocks_of a ! i)))"

definition archive_ok :: "slice set \<Rightarrow> archive \<Rightarrow> bool" where
  "archive_ok F a \<longleftrightarrow> blocks_ok a \<and> frozen_ok a F"

text \<open>A step that leaves the frozen slices alone.\<close>

definition keeps_frozen :: "slice set \<Rightarrow> archive \<Rightarrow> archive \<Rightarrow> bool" where
  "keeps_frozen F a a' \<longleftrightarrow> (\<forall>s\<in>F. slice_records (fst a') s = slice_records (fst a) s)"

lemma keeps_frozen_refl [simp]: "keeps_frozen F a a"
  by (simp add: keeps_frozen_def)

lemma keeps_frozen_trans: "keeps_frozen F a b \<Longrightarrow> keeps_frozen F b c \<Longrightarrow> keeps_frozen F a c"
  by (simp add: keeps_frozen_def)

lemma length_slice_records: "slice_ok h s \<Longrightarrow> length (slice_records h s) = sl_len s"
  by (simp add: slice_ok_def slice_records_def cap_def)

text \<open>Allocation changes nothing that exists.\<close>

lemma heap_append [simp]:
  "slice_ok h s \<Longrightarrow> slice_ok (h @ [xs]) s" "slice_ok h s \<Longrightarrow> slice_records (h @ [xs]) s = slice_records h s"
  "slice_ok h s \<Longrightarrow> cap (h @ [xs]) s = cap h s"
  by (simp_all add: slice_ok_def slice_records_def cap_def nth_append)

text \<open>Writing an array changes only the slices of that array.\<close>

lemma heap_other [simp]:
  "sl_array s \<noteq> x \<Longrightarrow> slice_records (h[x := xs]) s = slice_records h s" "sl_array s \<noteq> x \<Longrightarrow> cap (h[x := xs]) s = cap h s"
  by (simp_all add: slice_records_def cap_def)

lemma slice_ok_update:
  "x < length h \<Longrightarrow> length xs = length (h ! x) \<Longrightarrow> slice_ok (h[x := xs]) s = slice_ok h s"
  "x < length h \<Longrightarrow> length xs = length (h ! x) \<Longrightarrow> cap (h[x := xs]) s = cap h s"
  by (cases "x = sl_array s"; simp add: slice_ok_def cap_def)+

text \<open>A block that no frozen slice shares.\<close>

definition unaliased :: "slice set \<Rightarrow> archive \<Rightarrow> nat \<Rightarrow> bool" where
  "unaliased F a i \<longleftrightarrow> i < length (blocks_of a) \<and> (\<forall>s\<in>F. sl_array s \<noteq> sl_array (blocks_of a ! i))"

lemma unshared_unaliased: "archive_ok F a \<Longrightarrow> i < length (blocks_of a) \<Longrightarrow> \<not> is_shared (snd a) i \<Longrightarrow> unaliased F a i"
  by (force simp: archive_ok_def frozen_ok_def unaliased_def)

lemma block_facts:
  assumes "blocks_ok a" "i < length (blocks_of a)"
  shows "slice_ok (fst a) (blocks_of a ! i)" "cap (fst a) (blocks_of a ! i) \<le> accountingBlockRecords"
    "\<And>j. j < length (blocks_of a) \<Longrightarrow> sl_array (blocks_of a ! j) = sl_array (blocks_of a ! i) \<longleftrightarrow> j = i"
  using assms by (auto simp: blocks_ok_def blocks_shape_def list_all_length distinct_conv_nth)

text \<open>Replacing a block by a copy of itself in a new array.\<close>

lemma replace_block:
  assumes ok: "archive_ok F (h, b)" and i: "i < length (ab_blocks b)"
    and n: "new_array (slice_records h (ab_blocks b ! i)) capacity h = (h', s)"
    and c: "sl_len (ab_blocks b ! i) \<le> capacity" "capacity \<le> accountingBlockRecords"
  defines "b' \<equiv> b\<lparr> ab_blocks := (ab_blocks b)[i := s], ab_shared := (ab_shared b)[i := False] \<rparr>"
  shows "archive_ok F (h', b')" "keeps_frozen F (h, b) (h', b')" "block_values (h', b') = block_values (h, b)"
    "unaliased F (h', b') i" "cap h' s = capacity" "sl_len s = sl_len (ab_blocks b ! i)"
proof -
  have bo: "blocks_ok (h, b)" and fo: "frozen_ok (h, b) F" using ok by (simp_all add: archive_ok_def)
  note bf = block_facts [OF bo, simplified]
  have len: "length (slice_records h (ab_blocks b ! i)) = sl_len (ab_blocks b ! i)" using bf(1) [OF i] by (rule length_slice_records)
  have h': "h' = h @ [slice_records h (ab_blocks b ! i) @ replicate (capacity - sl_len (ab_blocks b ! i)) zeroRecord]"
    and s: "s = \<lparr> sl_array = length h, sl_len = sl_len (ab_blocks b ! i) \<rparr>"
    using n by (auto simp: new_array_def len)
  have "h' ! sl_array s = slice_records h (ab_blocks b ! i) @ replicate (capacity - sl_len (ab_blocks b ! i)) zeroRecord"
    "sl_len s = length (slice_records h (ab_blocks b ! i))" by (simp_all add: h' s len)
  then have sr: "slice_records h' s = slice_records h (ab_blocks b ! i)" unfolding slice_records_def [of h' s] by simp
  show cs: "cap h' s = capacity" "sl_len s = sl_len (ab_blocks b ! i)" using c(1) by (simp_all add: cap_def h' s len)
  have so: "slice_ok h' s" using c(1) by (simp add: slice_ok_def cs) (simp add: h' s)
  have keep: "slice_records h' (ab_blocks b ! j) = slice_records h (ab_blocks b ! j)" "slice_ok h' (ab_blocks b ! j)"
    "cap h' (ab_blocks b ! j) \<le> accountingBlockRecords" if "j < length (ab_blocks b)" for j
    using bf(1,2) [OF that] by (simp_all add: h')
  show vals: "block_values (h', b') = block_values (h, b)"
    by (rule nth_equalityI) (use keep(1) sr i in \<open>auto simp: b'_def nth_list_update\<close>)
  have "sl_array x \<noteq> length h" if "x \<in> set (ab_blocks b)" for x
    using bo that by (auto simp: blocks_ok_def blocks_shape_def list_all_iff slice_ok_def)
  then have "length h \<notin> sl_array ` set (ab_blocks b)" by (metis imageE)
  then have "distinct (map sl_array ((ab_blocks b)[i := s]))"
    using bo by (auto simp: blocks_ok_def blocks_shape_def map_update s intro!: distinct_list_update dest: in_set_takeD)
  moreover have "list_all (\<lambda>s. slice_ok h' s \<and> cap h' s \<le> accountingBlockRecords) ((ab_blocks b)[i := s])"
    using keep(2,3) so cs c(2) i by (simp add: list_all_length nth_list_update)
  ultimately have "blocks_ok (h', b')"
    using bo vals by (simp add: blocks_ok_def blocks_shape_def blocks_records_alt) (simp add: b'_def)
  moreover have fr: "slice_ok h f" "sl_array f < length h" if "f \<in> F" for f using fo that by (simp_all add: frozen_ok_def slice_ok_def)
  have "frozen_ok (h', b') F"
    unfolding frozen_ok_def
  proof (intro ballI conjI allI impI)
    fix f j assume f: "f \<in> F"
    show "slice_ok (fst (h', b')) f" using fr(1) [OF f] by (simp add: h')
    assume j: "j < length (blocks_of (h', b'))" "sl_array (blocks_of (h', b') ! j) = sl_array f"
    then have ji: "j \<noteq> i" using fr(2) [OF f] i by (auto simp: b'_def s)
    then show "is_shared (snd (h', b')) j" "sl_len f \<le> sl_len (blocks_of (h', b') ! j)"
      using fo f j by (auto simp: frozen_ok_def b'_def is_shared_def)
  qed
  ultimately show "archive_ok F (h', b')" by (simp add: archive_ok_def)
  show "keeps_frozen F (h, b) (h', b')" using fr(1) by (simp add: keeps_frozen_def h')
  show "unaliased F (h', b') i" using i by (simp add: unaliased_def b'_def s) (metis fr(2) less_irrefl)
qed

section \<open>The operations\<close>

lemma writableBlock_all:
  assumes "archive_ok F a" "i < length (blocks_of a)"
  shows "archive_ok F (writableBlock i a) \<and> keeps_frozen F a (writableBlock i a) \<and>
    block_values (writableBlock i a) = block_values a \<and> unaliased F (writableBlock i a) i \<and>
    length (blocks_of (writableBlock i a)) = length (blocks_of a) \<and> ab_count (snd (writableBlock i a)) = ab_count (snd a)"
proof -
  obtain h b where a: "a = (h, b)" by (cases a)
  let ?s = "ab_blocks b ! i"
  show ?thesis
  proof (cases "is_shared b i")
    case True
    obtain h' s where n: "new_array (slice_records h ?s) (cap h ?s) h = (h', s)" by (metis surj_pair)
    have bo: "blocks_ok (h, b)" using assms(1) by (simp add: a archive_ok_def)
    have i: "i < length (ab_blocks b)" using assms(2) by (simp add: a)
    have c: "sl_len ?s \<le> cap h ?s" "cap h ?s \<le> accountingBlockRecords"
      using block_facts(1,2) [OF bo] i by (simp_all add: slice_ok_def)
    note r = replace_block [OF assms(1) [unfolded a] i n c]
    have "writableBlock i a = (h', b\<lparr> ab_blocks := (ab_blocks b)[i := s], ab_shared := (ab_shared b)[i := False] \<rparr>)"
      using True by (simp add: a writableBlock_def is_shared_def n Let_def)
    then show ?thesis using r(1-4) by (simp add: a)
  next
    case False
    then have "writableBlock i a = a" by (auto simp: a writableBlock_def is_shared_def)
    then show ?thesis using unshared_unaliased [OF assms] False assms(1) by (simp add: a)
  qed
qed

lemma writableBlock_ok:
  assumes "archive_ok F a" "i < length (blocks_of a)"
  shows "archive_ok F (writableBlock i a)" "keeps_frozen F a (writableBlock i a)"
    "block_values (writableBlock i a) = block_values a" "unaliased F (writableBlock i a) i"
    "length (blocks_of (writableBlock i a)) = length (blocks_of a)" "ab_count (snd (writableBlock i a)) = ab_count (snd a)"
  using writableBlock_all [OF assms] by blast+

text \<open>Overwriting the array of a block that is not shared, without changing its size.\<close>

lemma overwrite_block:
  assumes ok: "archive_ok F (h, b)" and u: "unaliased F (h, b) i" and xs: "length xs = cap h (ab_blocks b ! i)"
  defines "h' \<equiv> h[sl_array (ab_blocks b ! i) := xs]"
  shows "frozen_ok (h', b) F" "keeps_frozen F (h, b) (h', b)"
    "block_values (h', b) = (block_values (h, b))[i := take (sl_len (ab_blocks b ! i)) xs]"
    "list_all (\<lambda>s. slice_ok h' s \<and> cap h' s \<le> accountingBlockRecords) (ab_blocks b)"
proof -
  have bo: "blocks_ok (h, b)" and fo: "frozen_ok (h, b) F" using ok by (simp_all add: archive_ok_def)
  have i: "i < length (ab_blocks b)" and f: "\<And>s. s \<in> F \<Longrightarrow> sl_array s \<noteq> sl_array (ab_blocks b ! i)"
    using u by (auto simp: unaliased_def)
  note bf = block_facts [OF bo, simplified]
  have x: "sl_array (ab_blocks b ! i) < length h" using bf(1) [OF i] by (simp add: slice_ok_def)
  note up = slice_ok_update [OF x, of xs, OF xs [unfolded cap_def], folded h'_def]
  show "list_all (\<lambda>s. slice_ok h' s \<and> cap h' s \<le> accountingBlockRecords) (ab_blocks b)"
    using bo by (simp add: blocks_ok_def blocks_shape_def up)
  show "frozen_ok (h', b) F" using fo by (simp add: frozen_ok_def up)
  show "keeps_frozen F (h, b) (h', b)" using f by (simp add: keeps_frozen_def h'_def)
  show "block_values (h', b) = (block_values (h, b))[i := take (sl_len (ab_blocks b ! i)) xs]"
  proof (rule nth_equalityI)
    fix j assume "j < length (block_values (h', b))"
    then have j: "j < length (ab_blocks b)" by simp
    show "block_values (h', b) ! j = (block_values (h, b))[i := take (sl_len (ab_blocks b ! i)) xs] ! j"
    proof (cases "j = i")
      case True
      then show ?thesis using j x by (simp add: slice_records_def h'_def)
    next
      case False
      then show ?thesis using j bf(3) [OF i j] by (simp add: h'_def)
    qed
  qed simp
qed

lemma mutable_set_ok:
  assumes ok: "archive_ok F a" and i: "i < length (blocks_records a)"
  shows "archive_ok F (mutable_set i r a)" "keeps_frozen F a (mutable_set i r a)"
    "blocks_records (mutable_set i r a) = (blocks_records a)[i := r]"
proof -
  let ?i = "i div accountingBlockRecords" and ?k = "i mod accountingBlockRecords"
  have ch: "chunks (block_values a)" using ok by (simp add: archive_ok_def blocks_ok_def blocks_shape_def)
  note pos = chunks_nth [OF ch i [unfolded blocks_records_alt]]
  then have ib: "?i < length (blocks_of a)" by simp
  obtain h b where w: "writableBlock ?i a = (h, b)" by (metis surj_pair)
  note wr = writableBlock_ok [OF ok ib, unfolded w]
  let ?s = "ab_blocks b ! ?i"
  let ?xs = "(h ! sl_array ?s)[?k := r]"
  have bo: "blocks_ok (h, b)" using wr(1) by (simp add: archive_ok_def)
  have ib': "?i < length (ab_blocks b)" using ib wr(5) by simp
  have k: "?k < sl_len ?s"
    using pos wr(3) ib ib' length_slice_records [OF block_facts(1) [OF bo]] by (metis fst_conv length_map nth_map snd_conv)
  note ow = overwrite_block [OF wr(1,4), of ?xs]
  have m: "mutable_set i r a = (h[sl_array ?s := ?xs], b)" by (simp add: mutable_set_def w write_at_def)
  have vals: "block_values (mutable_set i r a) = (block_values a)[?i := (block_values a ! ?i)[?k := r]]"
  proof -
    have "block_values a ! ?i = take (sl_len ?s) (h ! sl_array ?s)" using wr(3) ib' by (metis fst_conv nth_map slice_records_def snd_conv)
    then show ?thesis using ow(3) wr(3) k by (simp add: m cap_def take_update_swap)
  qed
  note up = chunks_update [OF ch i [unfolded blocks_records_alt], of r]
  show rec: "blocks_records (mutable_set i r a) = (blocks_records a)[i := r]"
    unfolding blocks_records_alt vals using up by blast
  have "blocks_ok (mutable_set i r a)"
    using ow(4) bo up wr(6) ok unfolding blocks_ok_def blocks_shape_def rec vals
    by (simp add: m cap_def archive_ok_def blocks_ok_def blocks_shape_def)
  then show "archive_ok F (mutable_set i r a)" using ow(1) by (simp add: archive_ok_def m cap_def)
  show "keeps_frozen F a (mutable_set i r a)" using keeps_frozen_trans [OF wr(2)] ow(2) by (simp add: m cap_def)
qed

text \<open>Appending.  A new block starts with its first record, so the empty block is never seen.\<close>

lemma append_in_block:
  fixes r :: accountingRecord
  assumes bo: "blocks_shape (h, b)" and fo: "frozen_ok (h, b) F" and ne: "ab_blocks b \<noteq> []"
    and full: "full_but_last (h, b)"
  defines "s \<equiv> last (ab_blocks b)" and "n \<equiv> length (ab_blocks b) - 1"
  assumes room: "sl_len s < cap h s"
  defines "a' \<equiv> (write_at (sl_array s) (sl_len s) r h,
      b\<lparr> ab_blocks := (ab_blocks b)[n := s\<lparr> sl_len := sl_len s + 1 \<rparr>], ab_count := ab_count b + 1 \<rparr>)"
  shows "archive_ok F a'" "keeps_frozen F (h, b) a'" "blocks_records a' = blocks_records (h, b) @ [r]"
proof -
  obtain bs where bs: "ab_blocks b = bs @ [s]" using ne by (metis s_def append_butlast_last_id)
  then have n: "n = length bs" by (simp add: n_def)
  have so: "slice_ok h s" "cap h s \<le> accountingBlockRecords" 
    using bo by (simp_all add: blocks_shape_def bs)
  have others: "sl_array x \<noteq> sl_array s" if "x \<in> set bs" for x
    using bo that by (simp add: blocks_shape_def bs) (metis image_eqI)
  let ?h = "write_at (sl_array s) (sl_len s) r h" and ?s = "s\<lparr> sl_len := Suc (sl_len s) \<rparr>"
  have a': "a' = (?h, b\<lparr> ab_blocks := bs @ [?s], ab_count := ab_count b + 1 \<rparr>)" by (simp add: a'_def bs n)
  have x: "sl_array s < length h" using so(1) by (simp add: slice_ok_def)
  note up = slice_ok_update [OF x, of "(h ! sl_array s)[sl_len s := r]", simplified, folded write_at_def]
  have last': "slice_records ?h ?s = slice_records h s @ [r]"
    using room x by (simp add: slice_records_def write_at_def cap_def take_Suc_conv_app_nth)
  have rest: "map (slice_records ?h) bs = map (slice_records h) bs" using others by (simp add: write_at_def)
  show rec: "blocks_records a' = blocks_records (h, b) @ [r]" by (simp add: a' blocks_records_def bs rest last')
  have sl: "slice_ok ?h ?s" "cap ?h ?s \<le> accountingBlockRecords"
    using room so x up(1) [of s] up(2) [of s] by (simp_all add: slice_ok_def cap_def)
  have "blocks_ok a'"
    using bo full sl room so(2) unfolding blocks_ok_def blocks_shape_def rec
    by (simp add: a' bs rest last' up chunks_snoc length_slice_records [OF so(1)])
  have last_f: "sl_len f \<le> sl_len s" if "f \<in> F" "sl_array f = sl_array s" for f
  proof -
    have "length bs < length (ab_blocks b)" "sl_array (ab_blocks b ! length bs) = sl_array f" using that by (simp_all add: bs)
    then have "sl_len f \<le> sl_len (ab_blocks b ! length bs)" using fo that(1) unfolding frozen_ok_def snd_conv by blast
    then show ?thesis by (simp add: bs)
  qed
  have "frozen_ok a' F"
    unfolding frozen_ok_def
  proof (intro ballI conjI allI impI)
    fix f i assume f: "f \<in> F"
    show "slice_ok (fst a') f" using fo f by (simp add: frozen_ok_def a' up)
    assume i: "i < length (blocks_of a')" "sl_array (blocks_of a' ! i) = sl_array f"
    then have i': "i < length (ab_blocks b)" "sl_array (ab_blocks b ! i) = sl_array f"
      by (auto simp: a' bs nth_append less_Suc_eq split: if_splits)
    then have "is_shared b i" "sl_len f \<le> sl_len (ab_blocks b ! i)" using fo f by (auto simp: frozen_ok_def)
    then show "is_shared (snd a') i" "sl_len f \<le> sl_len (blocks_of a' ! i)"
      using i(1) by (auto simp: a' bs is_shared_def nth_append less_Suc_eq split: if_splits)
  qed
  then show "archive_ok F a'" using \<open>blocks_ok a'\<close> by (simp add: archive_ok_def)
  show "keeps_frozen F (h, b) a'"
    unfolding keeps_frozen_def
  proof
    fix f assume f: "f \<in> F"
    show "slice_records (fst a') f = slice_records (fst (h, b)) f"
    proof (cases "sl_array f = sl_array s")
      case True
      with last_f [OF f] show ?thesis using True x by (simp add: a' slice_records_def write_at_def)
    next
      case False
      then show ?thesis by (simp add: a' write_at_def)
    qed
  qed
qed

lemma new_block:
  assumes bo: "blocks_shape (h, b)" and fo: "frozen_ok (h, b) F" and full: "\<forall>xs\<in>set (block_values (h, b)). length xs = accountingBlockRecords"
    and n: "new_array [] c h = (h', s)" and c: "c \<le> accountingBlockRecords"
  defines "b' \<equiv> b\<lparr> ab_blocks := ab_blocks b @ [s] \<rparr>"
  shows "blocks_shape (h', b')" "frozen_ok (h', b') F" "full_but_last (h', b')" "keeps_frozen F (h, b) (h', b')"
    "blocks_records (h', b') = blocks_records (h, b)" "sl_len s = 0" "cap h' s = c"
proof -
  have h': "h' = h @ [replicate c zeroRecord]" and s: "s = \<lparr> sl_array = length h, sl_len = 0 \<rparr>"
    using n by (auto simp: new_array_def)
  show "sl_len s = 0" "cap h' s = c" by (simp_all add: s h' cap_def)
  have old: "slice_ok h x" "cap h x \<le> accountingBlockRecords" "sl_array x \<noteq> length h" if "x \<in> set (ab_blocks b)" for x
    using bo that by (auto simp: blocks_shape_def list_all_iff slice_ok_def)
  have vals: "block_values (h', b') = block_values (h, b) @ [[]]"
    using old(1) by (simp add: b'_def h') (simp add: slice_records_def s)
  show rec: "blocks_records (h', b') = blocks_records (h, b)" unfolding blocks_records_alt vals by simp
  have fr: "slice_ok h f" "sl_array f \<noteq> length h" if "f \<in> F" for f using fo that by (auto simp: frozen_ok_def slice_ok_def)
  show "keeps_frozen F (h, b) (h', b')" using fr(1) by (simp add: keeps_frozen_def h')
  show "full_but_last (h', b')" unfolding vals using full by simp
  have "slice_ok h' s" "cap h' s \<le> accountingBlockRecords" using c by (simp_all add: s h' slice_ok_def cap_def)
  moreover have "length h \<notin> sl_array ` set (ab_blocks b)" using old(3) by (metis imageE)
  ultimately show "blocks_shape (h', b')"
    using bo old unfolding blocks_shape_def rec by (simp add: b'_def list_all_iff h') (simp add: s)
  show "frozen_ok (h', b') F"
    unfolding frozen_ok_def
  proof (intro ballI conjI allI impI)
    fix f i assume f: "f \<in> F"
    show "slice_ok (fst (h', b')) f" using fr(1) [OF f] by (simp add: h')
    assume i: "i < length (blocks_of (h', b'))" "sl_array (blocks_of (h', b') ! i) = sl_array f"
    then have i': "i < length (ab_blocks b)" "sl_array (ab_blocks b ! i) = sl_array f"
      using fr(2) [OF f] by (auto simp: b'_def s nth_append less_Suc_eq split: if_splits)
    then have "is_shared b i" "sl_len f \<le> sl_len (ab_blocks b ! i)" using fo f by (auto simp: frozen_ok_def)
    then show "is_shared (snd (h', b')) i" "sl_len f \<le> sl_len (blocks_of (h', b') ! i)"
      using i'(1) by (simp_all add: b'_def is_shared_def nth_append)
  qed
qed

text \<open>After the first half, with the block put in its place, one record can be written.\<close>

definition ready :: "slice set \<Rightarrow> archive \<Rightarrow> archive \<times> nat \<times> slice \<Rightarrow> bool" where
  "ready F a = (\<lambda>((h, b), n, s). let b' = b\<lparr> ab_blocks := (ab_blocks b)[n := s] \<rparr>
     in blocks_shape (h, b') \<and> frozen_ok (h, b') F \<and> full_but_last (h, b') \<and> keeps_frozen F a (h, b') \<and>
        blocks_records (h, b') = blocks_records a \<and> ab_blocks b \<noteq> [] \<and> n = length (ab_blocks b) - 1 \<and> sl_len s < cap h s)"

lemma write_ready:
  assumes "appendable a = ((h, b), n, s)" "ready F a ((h, b), n, s)"
  shows "archive_ok F (append_record r a) \<and> keeps_frozen F a (append_record r a) \<and>
    blocks_records (append_record r a) = blocks_records a @ [r]"
proof -
  let ?b = "b\<lparr> ab_blocks := (ab_blocks b)[n := s] \<rparr>"
  have n: "n = length (ab_blocks b) - 1" "ab_blocks b \<noteq> []" using assms(2) by (simp_all add: ready_def Let_def)
  have l: "last (ab_blocks ?b) = s" using n by (simp add: last_conv_nth)
  note ap = append_in_block [of h ?b F r, unfolded l]
  have "append_record r a = (write_at (sl_array s) (sl_len s) r h,
      ?b\<lparr> ab_blocks := (ab_blocks ?b)[length (ab_blocks ?b) - 1 := s\<lparr> sl_len := sl_len s + 1 \<rparr>], ab_count := ab_count ?b + 1 \<rparr>)"
    by (simp add: append_record_def assms(1) n(1))
  then have "archive_ok F (append_record r a)" "keeps_frozen F (h, ?b) (append_record r a)"
    "blocks_records (append_record r a) = blocks_records (h, ?b) @ [r]"
    using ap assms(2) n by (simp_all add: ready_def Let_def)
  moreover have "keeps_frozen F a (h, ?b)" "blocks_records (h, ?b) = blocks_records a"
    using assms(2) unfolding ready_def Let_def prod.case by blast+
  ultimately show ?thesis using keeps_frozen_trans by metis
qed

lemma new_block_ready:
  assumes "blocks_shape (h, b)" "frozen_ok (h, b) F" "\<forall>xs\<in>set (block_values (h, b)). length xs = accountingBlockRecords"
    and "new_array [] c h = (h', s)" "0 < c" "c \<le> accountingBlockRecords"
  shows "ready F (h, b) ((h', b\<lparr> ab_blocks := ab_blocks b @ [s] \<rparr>), length (ab_blocks b), s)"
  using new_block [OF assms(1-4,6)] assms(5) by (simp add: ready_def Let_def)

lemma appendable_ready:
  assumes "archive_ok F a"
  shows "ready F a (appendable a)"
proof -
  obtain h b where a: "a = (h, b)" by (cases a)
  have bo: "blocks_ok (h, b)" "blocks_shape (h, b)" and fo: "frozen_ok (h, b) F" and ch: "chunks (block_values (h, b))"
    using assms by (simp_all add: a archive_ok_def blocks_ok_def)
  let ?B = accountingBlockRecords
  show ?thesis
  proof (cases "ab_blocks b = []")
    case True
    obtain h' s where n: "new_array [] 1 h = (h', s)" by (metis surj_pair)
    have B: "(1 :: nat) \<le> ?B" "(1 :: nat) < ?B" by (simp_all add: accountingBlockRecords_def)
    have s: "sl_len s = 0" "cap h' s = 1" using n by (auto simp: new_array_def cap_def)
    have "appendable a = ((h', b\<lparr> ab_blocks := [s] \<rparr>), 0, s)" using True s n by (simp add: a appendable_def)
    then show ?thesis using new_block_ready [OF bo(2) fo _ n _ B(1)] True by (simp add: a)
  next
    case False
    define i where "i = length (ab_blocks b) - 1"
    let ?s = "ab_blocks b ! i"
    have i: "i < length (ab_blocks b)" and il: "length (ab_blocks b) - Suc 0 = i" "Suc i = length (ab_blocks b)"
      using False by (simp_all add: i_def)
    have c: "sl_len ?s \<le> cap h ?s" "cap h ?s \<le> ?B"
      using block_facts(1,2) [OF bo(1)] i by (simp_all add: slice_ok_def)
    note full = chunks_full_but_last [OF ch]
    consider "sl_len ?s = ?B" | "sl_len ?s \<noteq> ?B" "sl_len ?s = cap h ?s" | "sl_len ?s \<noteq> ?B" "sl_len ?s \<noteq> cap h ?s" by blast
    then show ?thesis
    proof cases
      case 1
      obtain h' s where n: "new_array [] ?B h = (h', s)" by (metis surj_pair)
      have "\<forall>xs\<in>set (block_values (h, b)). length xs = ?B"
      proof
        fix xs assume "xs \<in> set (block_values (h, b))"
        then obtain j where j: "j < length (ab_blocks b)" "xs = slice_records h (ab_blocks b ! j)" by (auto simp: in_set_conv_nth)
        show "length xs = ?B"
        proof (cases "j = i")
          case True
          then show ?thesis using j 1 length_slice_records [OF block_facts(1) [OF bo(1)]] by simp
        next
          case False
          then show ?thesis using chunks_full [OF ch, of j] j by (simp add: i_def)
        qed
      qed
      then have "ready F (h, b) ((h', b\<lparr> ab_blocks := ab_blocks b @ [s] \<rparr>), length (ab_blocks b), s)"
        using new_block_ready [OF bo(2) fo _ n] by simp
      moreover have "appendable a = ((h', b\<lparr> ab_blocks := ab_blocks b @ [s] \<rparr>), length (ab_blocks b), s)"
        using False 1 n by (simp add: a appendable_def Let_def il)
      ultimately show ?thesis by (simp add: a)
    next
      case 2
      let ?c = "min ?B (max 1 (cap h ?s * 2))"
      obtain h' s where n: "new_array (slice_records h ?s) ?c h = (h', s)" by (metis surj_pair)
      have "sl_len ?s < ?c" "?c \<le> ?B" using 2 c by (simp_all add: accountingBlockRecords_def)
      note r = replace_block [OF assms [unfolded a] i n less_imp_le [OF this(1)] this(2)]
      have swap: "b\<lparr> ab_blocks := (ab_blocks b)[i := s], ab_shared := (ab_shared b)[i := False] \<rparr> =
        b\<lparr> ab_shared := (ab_shared b)[i := False], ab_blocks := (ab_blocks b)[i := s] \<rparr>" by simp
      have "appendable a = ((h', b\<lparr> ab_shared := (ab_shared b)[i := False] \<rparr>), i, s)"
        using False 2 n by (simp add: a appendable_def Let_def il)
      moreover have "full_but_last (h', b\<lparr> ab_shared := (ab_shared b)[i := False], ab_blocks := (ab_blocks b)[i := s] \<rparr>)"
        using full by (simp only: r(3) [unfolded swap])
      ultimately show ?thesis
        using r(1,2,3,5,6) \<open>sl_len ?s < ?c\<close> False unfolding swap
        by (simp add: ready_def Let_def a archive_ok_def blocks_ok_def blocks_records_alt il)
    next
      case 3
      have "appendable a = ((h, b), i, ?s)" using False 3 by (simp add: a appendable_def Let_def il)
      moreover have "(ab_blocks b)[i := ?s] = ab_blocks b" by simp
      ultimately show ?thesis using bo fo full c(1) 3 False by (simp add: ready_def a il)
    qed
  qed
qed

lemma append_record_ok:
  assumes "archive_ok F a"
  shows "archive_ok F (append_record r a) \<and> keeps_frozen F a (append_record r a) \<and>
    blocks_records (append_record r a) = blocks_records a @ [r]"
proof -
  obtain h b n s where e: "appendable a = ((h, b), n, s)" by (metis surj_pair)
  show ?thesis by (rule write_ready [OF e]) (use appendable_ready [OF assms] e in simp)
qed

lemma freeze_ok:
  assumes "archive_ok F a" "freeze a = (a', hs)"
  shows "archive_ok (F \<union> set hs) a'" "keeps_frozen F a a'" "blocks_records a' = blocks_records a"
    "concat (map (slice_records (fst a')) hs) = blocks_records a"
proof -
  obtain h b where a: "a = (h, b)" by (cases a)
  have bo: "blocks_ok (h, b)" and fo: "frozen_ok (h, b) F" using assms(1) by (simp_all add: a archive_ok_def)
  have e: "archive_ok (F \<union> set hs) a' \<and> keeps_frozen F a a' \<and> blocks_records a' = blocks_records a \<and>
      concat (map (slice_records (fst a')) hs) = blocks_records a"
  proof (cases "ab_count b = 0")
    case True
    then have "a' = a" "hs = []" using assms(2) by (simp_all add: a freeze_def)
    moreover have "blocks_records a = []" using bo True by (simp add: a blocks_ok_def blocks_shape_def)
    ultimately show ?thesis using assms(1) by simp
  next
    case False
    let ?n = "length (ab_blocks b)"
    let ?b = "b\<lparr> ab_shared := replicate ?n True \<rparr>"
    have len: "length (ab_shared b) \<le> ?n" using bo by (simp add: blocks_ok_def blocks_shape_def)
    have a': "a' = (h, ?b)" "hs = ab_blocks b" using assms(2) False len by (auto simp: a freeze_def Let_def)
    have rec: "blocks_records (h, ?b) = blocks_records (h, b)" by (simp add: blocks_records_def)
    have "blocks_ok (h, ?b)" using bo by (simp add: blocks_ok_def blocks_shape_def rec)
    moreover have "frozen_ok (h, ?b) F" using fo by (auto simp: frozen_ok_def is_shared_def)
    moreover have "frozen_ok (h, ?b) (set (ab_blocks b))"
      unfolding frozen_ok_def
    proof (intro ballI conjI allI impI)
      fix x i assume x: "x \<in> set (ab_blocks b)"
      then obtain j where j: "j < ?n" "x = ab_blocks b ! j" by (auto simp: in_set_conv_nth)
      show "slice_ok (fst (h, ?b)) x" using block_facts(1) [OF bo] j by simp
      assume i: "i < length (blocks_of (h, ?b))" "sl_array (blocks_of (h, ?b) ! i) = sl_array x"
      then have "i = j" using block_facts(3) [OF bo, of j i] j by simp
      then show "is_shared (snd (h, ?b)) i" "sl_len x \<le> sl_len (blocks_of (h, ?b) ! i)" using j by (simp_all add: is_shared_def)
    qed
    ultimately have "archive_ok (F \<union> set hs) a'" unfolding a' archive_ok_def by (auto simp: frozen_ok_def)
    then show ?thesis using rec by (simp add: a a' keeps_frozen_def) (simp add: blocks_records_def)
  qed
  then show "archive_ok (F \<union> set hs) a'" "keeps_frozen F a a'" "blocks_records a' = blocks_records a"
    "concat (map (slice_records (fst a')) hs) = blocks_records a" by blast+
qed

lemma frozen_ok_blocks:
  assumes "frozen_ok (h, b) F" "n \<le> length (ab_blocks b)"
    and "\<And>i. i < n \<Longrightarrow> sl_array (bs ! i) = sl_array (ab_blocks b ! i)"
    and "\<And>i f. i < n \<Longrightarrow> f \<in> F \<Longrightarrow> sl_array (ab_blocks b ! i) = sl_array f \<Longrightarrow> sl_len (bs ! i) = sl_len (ab_blocks b ! i)"
    and "length bs = n" "\<And>i. i < n \<Longrightarrow> is_shared b i \<Longrightarrow> is_shared b' i" "ab_blocks b' = bs"
  shows "frozen_ok (h, b') F"
  using assms unfolding frozen_ok_def by (simp add: Ball_def)

lemma shorten_slice:
  "slice_ok h s \<Longrightarrow> e \<le> sl_len s \<Longrightarrow> slice_ok h (s\<lparr> sl_len := e \<rparr>) \<and> cap h (s\<lparr> sl_len := e \<rparr>) = cap h s"
  by (simp add: slice_ok_def cap_def)

lemma truncate_ok:
  assumes ok: "archive_ok F a" and n: "n \<le> length (blocks_records a)"
  shows "archive_ok F (truncate n a) \<and> keeps_frozen F a (truncate n a) \<and> blocks_records (truncate n a) = take n (blocks_records a)"
proof (cases "n = 0")
  case True
  then show ?thesis
    using ok by (simp add: truncate_def archive_ok_def blocks_ok_def blocks_shape_def frozen_ok_def empty_blocks_def
        blocks_records_def keeps_frozen_def)
next
  case False
  let ?B = accountingBlockRecords
  define m where "m = (n + ?B - 1) div ?B"
  define e where "e = n - (m - 1) * ?B"
  have ch: "chunks (block_values a)" using ok by (simp add: archive_ok_def blocks_ok_def)
  have n': "0 < n" "n \<le> length (concat (block_values a))" using n False by (simp_all add: blocks_records_alt)
  note t = chunks_take [OF ch n', folded m_def, folded e_def]
  have i: "m - 1 < length (blocks_of a)" using t by simp
  obtain h b where w: "writableBlock (m - 1) a = (h, b)" by (metis surj_pair)
  note wr = writableBlock_ok [OF ok i, unfolded w]
  let ?s = "ab_blocks b ! (m - 1)"
  let ?xs = "take e (h ! sl_array ?s) @ replicate (sl_len ?s - e) zeroRecord @ drop (sl_len ?s) (h ! sl_array ?s)"
  have bo: "blocks_ok (h, b)" and fo: "frozen_ok (h, b) F" using wr(1) by (simp_all add: archive_ok_def)
  have i': "m - 1 < length (ab_blocks b)" using i wr(5) by simp
  have so: "sl_len ?s \<le> cap h ?s" using block_facts(1) [OF bo] i' by (simp add: slice_ok_def)
  have vs: "block_values a ! (m - 1) = slice_records h ?s" using wr(3) i' by (metis fst_conv nth_map snd_conv)
  have "length (block_values a ! (m - 1)) = sl_len ?s"
    unfolding vs using length_slice_records [OF block_facts(1) [OF bo]] i' by simp
  moreover from t have "e \<le> length (block_values a ! (m - 1))" by blast
  ultimately have el: "e \<le> sl_len ?s" by (simp only:)
  then have xl: "length ?xs = cap h ?s" using so by (simp add: cap_def)
  note ow = overwrite_block [OF wr(1,4) xl]
  let ?h = "h[sl_array ?s := ?xs]"
  let ?bs = "take m ((ab_blocks b)[m - 1 := ?s\<lparr> sl_len := e \<rparr>])"
  let ?b = "b\<lparr> ab_blocks := ?bs, ab_shared := take m (ab_shared b), ab_count := n \<rparr>"
  have tr: "truncate n a = (?h, ?b)" 
    unfolding truncate_def Let_def m_def [symmetric] w e_def [symmetric] by (simp add: False)
  have cells: "map (slice_records ?h) ?bs = take m ((block_values a)[m - 1 := take e (block_values a ! (m - 1))])"
  proof (rule nth_equalityI)
    fix j assume "j < length (map (slice_records ?h) ?bs)"
    then have j: "j < length (ab_blocks b)" "j < m" by simp_all
    have hv: "slice_records ?h (ab_blocks b ! j) = (block_values a)[m - 1 := take (sl_len ?s) ?xs] ! j"
      using arg_cong [OF ow(3), of "\<lambda>v. v ! j"] wr(3) j by simp
    show "map (slice_records ?h) ?bs ! j = take m ((block_values a)[m - 1 := take e (block_values a ! (m - 1))]) ! j"
    proof (cases "j = m - 1")
      case True
      have "slice_records ?h (?s\<lparr> sl_len := e \<rparr>) = take e ?xs"
        using block_facts(1) [OF bo] i' by (simp add: slice_records_def slice_ok_def)
      also have "\<dots> = take e (slice_records h ?s)"
        using el so by (simp add: slice_records_def cap_def min_absorb1)
      finally show ?thesis using True j i i' vs by simp
    next
      case False
      then show ?thesis using hv j by simp
    qed
  qed (use i' wr(5) in simp)
  have parts: "blocks_of (truncate n a) = ?bs" "fst (truncate n a) = ?h" by (simp_all add: tr)
  have vals: "block_values (truncate n a) = take m ((block_values a)[m - 1 := take e (block_values a ! (m - 1))])"
    using cells by (simp only: parts)
  have rec: "blocks_records (truncate n a) = take n (blocks_records a)"
    unfolding blocks_records_alt vals using t by blast
  have arr: "map sl_array ?bs = take m (map sl_array (ab_blocks b))"
  proof (rule nth_equalityI)
    fix j assume "j < length (map sl_array ?bs)"
    then show "map sl_array ?bs ! j = take m (map sl_array (ab_blocks b)) ! j" by (cases "j = m - 1") simp_all
  qed simp
  have slices: "list_all (\<lambda>s. slice_ok ?h s \<and> cap ?h s \<le> ?B) ?bs"
    unfolding list_all_length
  proof (intro allI impI)
    fix j assume "j < length ?bs"
    then have j: "j < length (ab_blocks b)" "j < m" by simp_all
    have s: "slice_ok ?h (ab_blocks b ! j)" "cap ?h (ab_blocks b ! j) \<le> ?B" using ow(4) j(1) unfolding list_all_length by blast+
    show "slice_ok ?h (?bs ! j) \<and> cap ?h (?bs ! j) \<le> ?B"
    proof (cases "j = m - 1")
      case True
      then have "?bs ! j = ?s\<lparr> sl_len := e \<rparr>" using j by simp
      moreover have "slice_ok ?h (?s\<lparr> sl_len := e \<rparr>) \<and> cap ?h (?s\<lparr> sl_len := e \<rparr>) \<le> ?B"
        using shorten_slice [OF s(1) [unfolded True] el] s(2) [unfolded True] by (simp only:)
      ultimately show ?thesis by (simp only:)
    next
      case False
      then have "?bs ! j = ab_blocks b ! j" using j by simp
      then show ?thesis using s by (simp only:)
    qed
  qed
  have "blocks_shape (truncate n a)"
    unfolding blocks_shape_def rec
  proof (intro conjI)
    show "list_all (\<lambda>s. slice_ok (fst (truncate n a)) s \<and> cap (fst (truncate n a)) s \<le> ?B) (blocks_of (truncate n a))"
      unfolding parts by (rule slices)
    have "distinct (map sl_array ?bs)" unfolding arr using bo by (simp add: blocks_ok_def blocks_shape_def distinct_take)
    then show "distinct (map sl_array (blocks_of (truncate n a)))" unfolding parts .
    show "ab_count (snd (truncate n a)) = length (take n (blocks_records a))" using n by (simp add: tr)
    show "length (ab_shared (snd (truncate n a))) \<le> length (blocks_of (truncate n a))"
      using bo by (simp add: tr blocks_ok_def blocks_shape_def min_le_iff_disj)
  qed
  moreover have "chunks (block_values (truncate n a))" unfolding vals using t by blast
  moreover have "frozen_ok (truncate n a) F"
    unfolding tr
  proof (rule frozen_ok_blocks [OF ow(1)])
    show "m \<le> length (ab_blocks b)" using i' t by simp
    fix j assume j: "j < m"
    show "sl_array (?bs ! j) = sl_array (ab_blocks b ! j)" using j i' t by (simp add: nth_list_update)
    show "sl_len (?bs ! j) = sl_len (ab_blocks b ! j)" if "f \<in> F" "sl_array (ab_blocks b ! j) = sl_array f" for f
      using wr(4) that j i' t by (auto simp: unaliased_def nth_list_update)
    show "is_shared ?b j" if "is_shared b j" using that j by (simp add: is_shared_def)
  qed (use i' t in simp_all)
  moreover have "keeps_frozen F a (truncate n a)"
    using keeps_frozen_trans [OF wr(2) ow(2)] by (simp add: tr keeps_frozen_def)
  ultimately show ?thesis using rec by (simp add: archive_ok_def blocks_ok_def)
qed

text \<open>Relative to the archive \<open>a\<^sub>0\<close> at the start, the blocks are a stored list.\<close>

interpretation blocks: stored_list "\<lambda>a. archive_ok F a \<and> keeps_frozen F a0 a" blocks_records block_at mutable_set truncate
  for F a0
proof unfold_locales
  fix a :: archive and i
  assume ok: "archive_ok F a \<and> keeps_frozen F a0 a"
  show "block_at a i = blocks_records a ! i" if i: "i < length (blocks_records a)"
  proof -
    have ch: "chunks (block_values a)" using ok by (simp add: archive_ok_def blocks_ok_def)
    obtain h b where a: "a = (h, b)" by (cases a)
    let ?q = "i div accountingBlockRecords" and ?r = "i mod accountingBlockRecords"
    note pos = chunks_nth [OF ch i [unfolded blocks_records_alt]]
    have q: "?q < length (ab_blocks b)" using pos by (simp add: a)
    have r: "?r < length (slice_records h (ab_blocks b ! ?q))" using pos q by (simp add: a)
    have "block_values a ! ?q ! ?r = slice_records h (ab_blocks b ! ?q) ! ?r" using q by (simp add: a)
    also have "\<dots> = block_at a i" using r by (simp add: a block_at_def slice_records_def)
    finally show ?thesis using pos by (simp add: blocks_records_alt)
  qed
  show "(archive_ok F (mutable_set i x a) \<and> keeps_frozen F a0 (mutable_set i x a)) \<and>
      blocks_records (mutable_set i x a) = (blocks_records a)[i := x]" if "i < length (blocks_records a)" for x
    using mutable_set_ok [of F a i x] ok that keeps_frozen_trans by blast
  show "(archive_ok F (truncate i a) \<and> keeps_frozen F a0 (truncate i a)) \<and>
      blocks_records (truncate i a) = take i (blocks_records a)" if "i \<le> length (blocks_records a)"
    using truncate_ok [of F a i] ok that keeps_frozen_trans by blast
qed

lemma ab_count_records: "archive_ok F a \<Longrightarrow> ab_count (snd a) = length (blocks_records a)"
  by (simp add: archive_ok_def blocks_ok_def blocks_shape_def)

lemma remove_record_ok:
  assumes ok: "archive_ok F a" and i: "i < length (blocks_records a)"
  shows "archive_ok F (remove_record i a) \<and> keeps_frozen F a (remove_record i a) \<and>
    blocks_records (remove_record i a) = remove_nth i (blocks_records a)"
proof -
  have "archive_ok F a \<and> keeps_frozen F a a" using ok by simp
  note r = blocks.remove_contents [OF this i]
  have "remove_record i a = truncate (length (blocks_records a) - 1) (blocks.shift i (length (blocks_records a)) a)"
    by (simp add: remove_record_def blocks.shift_def ab_count_records [OF ok] Let_def)
  then show ?thesis using r by simp
qed

section \<open>Runs\<close>

text \<open>
  The operations of an archive, on the blocks with the frozen headers handed out so far, and on a
  list with the snapshots as values.
\<close>

datatype archive_op = OAppend accountingRecord | OSet nat accountingRecord | OTruncate nat | ORemove nat | OFreeze

fun blocks_step :: "archive_op \<Rightarrow> archive \<times> slice list list \<Rightarrow> archive \<times> slice list list" where
  "blocks_step (OAppend r) (a, fs) = (append_record r a, fs)"
| "blocks_step (OSet i r) (a, fs) = (mutable_set i r a, fs)"
| "blocks_step (OTruncate n) (a, fs) = (truncate n a, fs)"
| "blocks_step (ORemove i) (a, fs) = (remove_record i a, fs)"
| "blocks_step OFreeze (a, fs) = (case freeze a of (a, f) \<Rightarrow> (a, fs @ [f]))"

fun list_step :: "archive_op \<Rightarrow> accountingRecord list \<times> accountingRecord list list
    \<Rightarrow> accountingRecord list \<times> accountingRecord list list" where
  "list_step (OAppend r) (xs, fs) = (xs @ [r], fs)"
| "list_step (OSet i r) (xs, fs) = (xs[i := r], fs)"
| "list_step (OTruncate n) (xs, fs) = (take n xs, fs)"
| "list_step (ORemove i) (xs, fs) = (remove_nth i xs, fs)"
| "list_step OFreeze (xs, fs) = (xs, fs @ [xs])"

text \<open>The indices are in range, which is what the callers of the blocks ensure.\<close>

fun in_range :: "archive_op \<Rightarrow> accountingRecord list \<Rightarrow> bool" where
  "in_range (OSet i r) xs \<longleftrightarrow> i < length xs"
| "in_range (OTruncate n) xs \<longleftrightarrow> n \<le> length xs"
| "in_range (ORemove i) xs \<longleftrightarrow> i < length xs"
| "in_range _ xs \<longleftrightarrow> True"

fun all_in_range :: "archive_op list \<Rightarrow> accountingRecord list \<times> accountingRecord list list \<Rightarrow> bool" where
  "all_in_range [] s \<longleftrightarrow> True"
| "all_in_range (op # ops) s \<longleftrightarrow> in_range op (fst s) \<and> all_in_range ops (list_step op s)"

definition read_archive :: "archive \<times> slice list list \<Rightarrow> accountingRecord list \<times> accountingRecord list list" where
  "read_archive = (\<lambda>(a, fs). (blocks_records a, map (\<lambda>f. concat (map (slice_records (fst a)) f)) fs))"

definition archive_inv :: "archive \<times> slice list list \<Rightarrow> bool" where
  "archive_inv = (\<lambda>(a, fs). archive_ok (\<Union> (set ` set fs)) a)"

lemma read_frozen:
  assumes "keeps_frozen (\<Union> (set ` set fs)) a a'"
  shows "map (\<lambda>f. concat (map (slice_records (fst a')) f)) fs = map (\<lambda>f. concat (map (slice_records (fst a)) f)) fs"
  using assms by (auto simp: keeps_frozen_def intro!: arg_cong [of _ _ concat])

lemma blocks_step_ok:
  assumes "archive_inv s" "in_range op (fst (read_archive s))"
  shows "archive_inv (blocks_step op s) \<and> read_archive (blocks_step op s) = list_step op (read_archive s)"
proof -
  obtain a fs where s: "s = (a, fs)" by (cases s)
  let ?F = "\<Union> (set ` set fs)"
  have ok: "archive_ok ?F a" using assms(1) by (simp add: s archive_inv_def)
  show ?thesis
  proof (cases op)
    case (OAppend r)
    then show ?thesis using append_record_ok [OF ok, of r] read_frozen [of fs a "append_record r a"]
      by (simp add: s archive_inv_def read_archive_def)
  next
    case (OSet i r)
    then have "i < length (blocks_records a)" using assms(2) by (simp add: s read_archive_def)
    note r = mutable_set_ok [OF ok this, of r]
    then show ?thesis using OSet read_frozen [OF r(2)] by (simp add: s archive_inv_def read_archive_def)
  next
    case (OTruncate n)
    then have "n \<le> length (blocks_records a)" using assms(2) by (simp add: s read_archive_def)
    note r = truncate_ok [OF ok this]
    then show ?thesis using OTruncate read_frozen [of fs a "truncate n a"] by (simp add: s archive_inv_def read_archive_def)
  next
    case (ORemove i)
    then have "i < length (blocks_records a)" using assms(2) by (simp add: s read_archive_def)
    note r = remove_record_ok [OF ok this]
    then show ?thesis using ORemove read_frozen [of fs a "remove_record i a"] by (simp add: s archive_inv_def read_archive_def)
  next
    case OFreeze
    obtain a' f where f: "freeze a = (a', f)" by (metis surj_pair)
    note r = freeze_ok [OF ok f]
    then show ?thesis using OFreeze read_frozen [OF r(2)]
      by (simp add: s f archive_inv_def read_archive_def Un_commute)
  qed
qed

definition start_blocks :: "archive \<times> slice list list" where
  "start_blocks = (([], empty_blocks), [])"

lemma start_blocks_ok: "archive_inv start_blocks" "read_archive start_blocks = ([], [])"
  by (simp_all add: start_blocks_def archive_inv_def read_archive_def archive_ok_def blocks_ok_def blocks_shape_def
      frozen_ok_def empty_blocks_def blocks_records_def)

lemma run_ok:
  assumes "archive_inv s" "all_in_range ops (read_archive s)"
  shows "archive_inv (fold blocks_step ops s) \<and> read_archive (fold blocks_step ops s) = fold list_step ops (read_archive s)"
  using assms
proof (induction ops arbitrary: s)
  case (Cons op ops)
  then have "in_range op (fst (read_archive s))" by simp
  note st = blocks_step_ok [OF Cons.prems(1) this]
  show ?case using Cons.IH [of "blocks_step op s"] st Cons.prems(2) by simp
qed simp

text \<open>
  C7: after any sequence of appends, updates, truncations, removals and freezes, the records in the
  blocks are those of the same operations on a list, and every frozen snapshot still reads as the
  list was when it was taken, whatever was written afterwards to the blocks it shares.
\<close>
theorem blocks_refine_list:
  assumes "all_in_range ops ([], [])"
  shows "read_archive (fold blocks_step ops start_blocks) = fold list_step ops ([], [])"
  using run_ok [OF start_blocks_ok(1), of ops] assms by (simp add: start_blocks_ok(2))

lemma blocks_refine_list_witness:
  "read_archive (fold blocks_step [OAppend zeroRecord, OAppend (zeroRecord\<lparr> ar_LatencyMs := 1 \<rparr>), OFreeze,
       OSet 0 (zeroRecord\<lparr> ar_LatencyMs := 2 \<rparr>), OAppend (zeroRecord\<lparr> ar_LatencyMs := 3 \<rparr>), OFreeze, ORemove 1, OTruncate 1] start_blocks) =
     ([zeroRecord\<lparr> ar_LatencyMs := 2 \<rparr>],
      [[zeroRecord, zeroRecord\<lparr> ar_LatencyMs := 1 \<rparr>],
       [zeroRecord\<lparr> ar_LatencyMs := 2 \<rparr>, zeroRecord\<lparr> ar_LatencyMs := 1 \<rparr>, zeroRecord\<lparr> ar_LatencyMs := 3 \<rparr>]])"
  by (subst blocks_refine_list) (simp_all add: remove_nth_def)

section \<open>Shared identities\<close>

text \<open>
  The entries of \<open>accountingIdentityIndex\<close>, whose positions are the pointers, and for each hash the
  chain of its entries, newest first.  The hash function is a parameter, so collisions are allowed.
\<close>

record identityIndex =
  ii_entries :: "accountingIdentity list"
  ii_chains :: "64 word \<Rightarrow> nat list"

definition empty_index :: identityIndex where
  "empty_index = \<lparr> ii_entries = [], ii_chains = (\<lambda>_. []) \<rparr>"

definition intern :: "accountingIdentity \<Rightarrow> 64 word \<Rightarrow> identityIndex \<Rightarrow> nat \<times> identityIndex" where
  "intern key hash x =
     (case List.find (\<lambda>p. ii_entries x ! p = key) (ii_chains x hash) of
        Some p \<Rightarrow> (p, x)
      | None \<Rightarrow> (length (ii_entries x),
          x\<lparr> ii_entries := ii_entries x @ [key], ii_chains := (ii_chains x)(hash := length (ii_entries x) # ii_chains x hash) \<rparr>))"

definition internAccountingIdentity :: "(accountingIdentity \<Rightarrow> 64 word) \<Rightarrow> accountingIdentity \<Rightarrow> identityIndex \<Rightarrow> nat \<times> identityIndex" where
  "internAccountingIdentity maphash key x = intern key (maphash key) x"

text \<open>Every entry is in the chain of its hash, and no value has two entries.\<close>

definition index_ok :: "(accountingIdentity \<Rightarrow> 64 word) \<Rightarrow> identityIndex \<Rightarrow> bool" where
  "index_ok maphash x \<longleftrightarrow> distinct (ii_entries x) \<and>
     (\<forall>h p. p \<in> set (ii_chains x h) \<longrightarrow> p < length (ii_entries x)) \<and>
     (\<forall>p < length (ii_entries x). p \<in> set (ii_chains x (maphash (ii_entries x ! p))))"

lemma empty_index_ok [simp]: "index_ok maphash empty_index"
  by (simp add: index_ok_def empty_index_def)

lemma intern_found:
  assumes "index_ok maphash x" "key \<in> set (ii_entries x)"
  shows "\<exists>p < length (ii_entries x). internAccountingIdentity maphash key x = (p, x) \<and> ii_entries x ! p = key"
proof -
  obtain p where p: "p < length (ii_entries x)" "ii_entries x ! p = key" using assms(2) by (auto simp: in_set_conv_nth)
  then have "p \<in> set (ii_chains x (maphash key))" using assms(1) by (auto simp: index_ok_def)
  then obtain q where q: "List.find (\<lambda>p. ii_entries x ! p = key) (ii_chains x (maphash key)) = Some q"
    using p(2) by (cases "List.find (\<lambda>p. ii_entries x ! p = key) (ii_chains x (maphash key))") (auto simp: find_None_iff)
  then have "q \<in> set (ii_chains x (maphash key)) \<and> ii_entries x ! q = key" by (auto simp: find_Some_iff in_set_conv_nth)
  then show ?thesis using assms(1) q by (auto simp: internAccountingIdentity_def intern_def index_ok_def)
qed

lemma intern_new:
  assumes "index_ok maphash x" "key \<notin> set (ii_entries x)"
  shows "internAccountingIdentity maphash key x = (length (ii_entries x),
    x\<lparr> ii_entries := ii_entries x @ [key],
       ii_chains := (ii_chains x)(maphash key := length (ii_entries x) # ii_chains x (maphash key)) \<rparr>)"
proof -
  have "List.find (\<lambda>p. ii_entries x ! p = key) (ii_chains x (maphash key)) = None"
    using assms by (auto simp: find_None_iff index_ok_def)
  then show ?thesis by (simp add: internAccountingIdentity_def intern_def)
qed

text \<open>
  The pointer reads as the key, the index stays well formed, pointers handed out before keep their
  value, and interning the key again gives the same pointer and adds no entry.
\<close>

lemma intern_ok:
  assumes ok: "index_ok maphash x" and r: "internAccountingIdentity maphash key x = (p, x')"
  shows "index_ok maphash x'" "p < length (ii_entries x')" "ii_entries x' ! p = key"
    "q < length (ii_entries x) \<Longrightarrow> ii_entries x' ! q = ii_entries x ! q"
    "internAccountingIdentity maphash key x' = (p, x')"
proof -
  have e: "index_ok maphash x' \<and> p < length (ii_entries x') \<and> ii_entries x' ! p = key \<and>
    (q < length (ii_entries x) \<longrightarrow> ii_entries x' ! q = ii_entries x ! q)"
  proof (cases "key \<in> set (ii_entries x)")
    case True
    from intern_found [OF ok this] show ?thesis using r ok by auto
  next
    case False
    note n = intern_new [OF ok False]
    then show ?thesis using ok False r by (auto simp: index_ok_def nth_append less_Suc_eq dest: less_imp_le)
  qed
  then show "index_ok maphash x'" "p < length (ii_entries x')" "ii_entries x' ! p = key"
    "q < length (ii_entries x) \<Longrightarrow> ii_entries x' ! q = ii_entries x ! q" by blast+
  have "key \<in> set (ii_entries x')" using e by (metis nth_mem)
  then obtain p' where "internAccountingIdentity maphash key x' = (p', x')" "ii_entries x' ! p' = key" "p' < length (ii_entries x')"
    using intern_found e by blast
  moreover have "p' = p" using calculation e by (auto simp: index_ok_def nth_eq_iff_index_eq)
  ultimately show "internAccountingIdentity maphash key x' = (p, x')" by simp
qed

end
