(* ===== verification/QuotaWindows.thy ===== *)
theory QuotaWindows
  imports Quota
begin

text \<open>
  The windows of the quota ledger (\<open>go/quota_cycles.go\<close>, \<open>go/quota_storage.go\<close>): what an observation
  does to its window, the advance at the end of a period, expiry, the merge of a stored snapshot, and
  the validation and repair of snapshots.
\<close>

section \<open>Observations\<close>

definition revoked_window :: "quotaObservation \<Rightarrow> quotaWindow" where
  "revoked_window ob = \<lparr> qw_Source = qo_Source ob, qw_Provider = qo_Provider ob, qw_AuthIndex = qo_AuthIndex ob,
     qw_AuthID = qo_AuthID ob, qw_Group = qo_Group ob, qw_Name = [], qw_Slot = qo_Slot ob, qw_Seconds = 0, qw_Model = [],
     qw_Unmapped = False, qw_Hidden = False, qw_UpdatedAt = zero_time, qw_Current = None, qw_Previous = None \<rparr>"

definition new_window :: "quotaObservation \<Rightarrow> quotaWindow" where
  "new_window ob = (revoked_window ob)\<lparr> qw_Name := qo_Name ob, qw_Seconds := qo_Seconds ob, qw_Model := qo_Model ob,
     qw_Unmapped := qo_Unmapped ob \<rparr>"

text \<open>The result \<open>None\<close> of the following steps is the code's \<open>return false\<close>: the window stays as it is.\<close>

definition revoke_window :: "quotaObservation \<Rightarrow> quotaWindow option \<Rightarrow> quotaWindow option" where
  "revoke_window ob old =
     (if (case old of None \<Rightarrow> False
          | Some w \<Rightarrow> time_Before (qo_ObservedAt ob) (qw_UpdatedAt w) \<or>
                     (qw_Hidden w \<and> time_Equal (qo_ObservedAt ob) (qw_UpdatedAt w)))
      then None
      else Some ((case old of None \<Rightarrow> revoked_window ob | Some w \<Rightarrow> w)\<lparr> qw_Hidden := True, qw_UpdatedAt := qo_ObservedAt ob \<rparr>))"

text \<open>An observation that is older than the window.\<close>

definition in_reset_archive :: "quotaObservation \<Rightarrow> quotaWindow \<Rightarrow> quotaPeriod \<Rightarrow> bool" where
  "in_reset_archive ob w p \<longleftrightarrow> qp_EndedByReset p \<and> qw_Seconds w = qo_Seconds ob \<and>
     \<not> time_Before (qo_ObservedAt ob) (qp_Start p) \<and> time_Before (qo_ObservedAt ob) (qp_End p) \<and> qp_Samples p \<noteq> [] \<and>
     quotaResetDriftIsSmall (qo_Reset (last (qp_Samples p))) (qo_Reset ob) (qo_Seconds ob)"

definition append_late :: "quotaObservation \<Rightarrow> quotaWindow \<Rightarrow> quotaPeriod \<Rightarrow> quotaPeriod option" where
  "append_late ob w p =
     (if qw_Seconds w = qo_Seconds ob \<and> quotaResetDriftIsSmall (qp_End p) (qo_Reset ob) (qo_Seconds ob)
      then quotaAppendSample p ob (qo_CollectionStartedAt ob) else None)"

definition predecessor :: "quotaObservation \<Rightarrow> quotaWindow \<Rightarrow> quotaWindow option" where
  "predecessor ob w =
     (case qw_Current w of
        Some c \<Rightarrow>
          if qw_Seconds w = qo_Seconds ob \<and>
             (case qw_Previous w of None \<Rightarrow> True | Some p \<Rightarrow> time_After (qo_Reset ob) (qp_End p)) \<and>
             quotaPeriodPrecedes (qo_Reset ob) (qp_Start c) (qo_Seconds ob)
          then let end' = (if quotaResetDriftIsSmall (qo_Reset ob) (qp_Start c) (qo_Seconds ob) then qp_Start c else qo_Reset ob)
               in Some (w\<lparr> qw_Previous := Some (empty_period\<lparr> qp_Start := time_Add end' (- of_seconds (qo_Seconds ob)),
                    qp_End := end', qp_CollectionStartedAt := qo_CollectionStartedAt ob, qp_Samples := [ob] \<rparr>) \<rparr>)
          else None
      | None \<Rightarrow> None)"

definition late_observation :: "quotaObservation \<Rightarrow> quotaWindow \<Rightarrow> quotaWindow option" where
  "late_observation ob w =
     (case qw_Previous w of
        Some p \<Rightarrow> if in_reset_archive ob w p
          then map_option (\<lambda>p. let w = w\<lparr> qw_Previous := Some p \<rparr>
             in case qw_Current w of
                  Some c \<Rightarrow> if \<not> time_After (qp_Start c) (qp_End p)
                     then w\<lparr> qw_Current := Some (append_sample c ob (qo_CollectionStartedAt ob)) \<rparr> else w
                | None \<Rightarrow> w)
             (quotaAppendSample p ob (qo_CollectionStartedAt ob))
          else (case Option.bind (qw_Current w) (append_late ob w) of
                  Some c \<Rightarrow> Some (w\<lparr> qw_Current := Some c \<rparr>)
                | None \<Rightarrow> (case append_late ob w p of
                    Some p \<Rightarrow> Some (w\<lparr> qw_Previous := Some p \<rparr>) | None \<Rightarrow> predecessor ob w))
      | None \<Rightarrow> (case Option.bind (qw_Current w) (append_late ob w) of
                  Some c \<Rightarrow> Some (w\<lparr> qw_Current := Some c \<rparr>) | None \<Rightarrow> predecessor ob w))"

text \<open>
  An observation that is not older than the window: the period that has ended, the period that the
  observation belongs to, and the boundary between the two.
\<close>

definition leave_period :: "quotaObservation \<Rightarrow> bool \<Rightarrow> gotime \<Rightarrow> quotaWindow \<Rightarrow> quotaWindow" where
  "leave_period ob exists start w =
     (let w = (if exists \<and> qw_Seconds w \<noteq> qo_Seconds ob then w\<lparr> qw_Current := None, qw_Previous := None \<rparr> else w)
      in case qw_Current w of
           Some c \<Rightarrow> if \<not> time_After (qp_End c) start \<or> quotaResetDriftIsSmall (qp_End c) start (qo_Seconds ob)
             then w\<lparr> qw_Previous := Some c, qw_Current := None \<rparr> else w
         | None \<Rightarrow> w)"

definition new_period :: "quotaObservation \<Rightarrow> gotime \<Rightarrow> quotaPeriod" where
  "new_period ob start = empty_period\<lparr> qp_Start := start, qp_End := qo_Reset ob,
     qp_CollectionStartedAt := qo_CollectionStartedAt ob, qp_Samples := [ob] \<rparr>"

definition enter_period :: "quotaObservation \<Rightarrow> gotime \<Rightarrow> quotaWindow \<Rightarrow> quotaWindow option" where
  "enter_period ob start w =
     (case qw_Current w of
        None \<Rightarrow>
          (case qw_Previous w of
             Some p \<Rightarrow> if quotaResetDriftIsSmall (qp_End p) (qo_Reset ob) (qo_Seconds ob) \<and> qw_Seconds w = qo_Seconds ob
               then map_option (\<lambda>p. w\<lparr> qw_Previous := Some p \<rparr>) (quotaAppendSample p ob (qo_CollectionStartedAt ob))
               else Some (w\<lparr> qw_Current := Some (new_period ob start) \<rparr>)
           | None \<Rightarrow> Some (w\<lparr> qw_Current := Some (new_period ob start) \<rparr>))
      | Some c \<Rightarrow>
          if time_Equal (qp_End c) (qo_Reset ob) \<and> qw_Seconds w = qo_Seconds ob
          then map_option (\<lambda>c. w\<lparr> qw_Current := Some c \<rparr>) (quotaAppendSample c ob (qo_CollectionStartedAt ob))
          else if qw_Seconds w = qo_Seconds ob \<and> time_Before (qo_ObservedAt ob) (qp_End c) \<and> time_Before start (qp_End c) \<and>
                  qp_Samples c \<noteq> []
          then Some (w\<lparr> qw_Current := Some (append_sample (c\<lparr> qp_Start := start, qp_End := qo_Reset ob \<rparr>) ob (qo_CollectionStartedAt ob)) \<rparr>)
          else if \<not> time_After (qp_End c) start
          then Some (w\<lparr> qw_Previous := Some c, qw_Current := Some (new_period ob start) \<rparr>)
          else None)"

definition end_at :: "gotime \<Rightarrow> int \<Rightarrow> quotaPeriod \<Rightarrow> quotaPeriod" where
  "end_at t seconds p = p\<lparr> qp_End := t, qp_Start := time_Add t (- of_seconds seconds) \<rparr>"

definition align_previous :: "quotaObservation \<Rightarrow> quotaWindow \<Rightarrow> quotaWindow" where
  "align_previous ob w =
     (case (qw_Current w, qw_Previous w) of
        (Some c, Some p) \<Rightarrow>
          if qp_EndedByReset p then w
          else if quotaResetDriftIsSmall (qp_End p) (qp_Start c) (qo_Seconds ob)
          then w\<lparr> qw_Previous := Some (end_at (qp_Start c) (qo_Seconds ob) p) \<rparr>
          else if time_After (qp_End p) (qp_Start c) \<and> time_Before (qp_Start p) (qp_Start c) \<and>
                  time_Sub (qp_End p) (qp_Start c) \<le> of_seconds (qo_Seconds ob) div 4
          then w\<lparr> qw_Previous := Some (end_at (qp_Start c) (qo_Seconds ob) p) \<rparr>
          else if \<not> quotaPeriodPrecedes (qp_End p) (qp_Start c) (qo_Seconds ob)
          then w\<lparr> qw_Previous := None \<rparr>
          else w
      | _ \<Rightarrow> w)"

definition current_observation :: "quotaObservation \<Rightarrow> bool \<Rightarrow> gotime \<Rightarrow> quotaWindow \<Rightarrow> quotaWindow option" where
  "current_observation ob exists start w =
     map_option (\<lambda>w. (align_previous ob w)\<lparr> qw_Seconds := qo_Seconds ob, qw_Name := qo_Name ob, qw_Model := qo_Model ob,
         qw_Unmapped := qo_Unmapped ob, qw_UpdatedAt := qo_ObservedAt ob, qw_Hidden := False \<rparr>)
       (enter_period ob start (leave_period ob exists start w))"

text \<open>The common end of an accepted observation; a zero \<open>revokedAt\<close> means that none is remembered.\<close>

definition commit_window :: "gotime \<Rightarrow> quotaWindow \<Rightarrow> quotaWindow" where
  "commit_window revokedAt w =
     (let w = quotaDropEmptyResetArchive (fst (quotaArchiveResetPeriod w))
      in if \<not> time_IsZero revokedAt then w\<lparr> qw_Hidden := True, qw_UpdatedAt := revokedAt \<rparr> else w)"

definition observe_window :: "quotaObservation \<Rightarrow> quotaWindow option \<Rightarrow> quotaWindow option" where
  "observe_window ob old =
     (let start = time_Add (qo_Reset ob) (- of_seconds (qo_Seconds ob));
          w = (case old of None \<Rightarrow> new_window ob | Some w \<Rightarrow> w);
          (revokedAt, w) = (if qw_Hidden w \<and> \<not> time_After (qo_ObservedAt ob) (qw_UpdatedAt w)
             then (qw_UpdatedAt w, w\<lparr> qw_UpdatedAt := quotaWindowObservedAt w \<rparr>) else (zero_time, w))
      in map_option (commit_window revokedAt)
           (if time_Before (qo_ObservedAt ob) (qw_UpdatedAt w) \<or>
               (qw_Hidden w \<and> time_Equal (qo_ObservedAt ob) (qw_UpdatedAt w))
            then late_observation ob w else current_observation ob (old \<noteq> None) start w))"

definition applyQuotaObservationLocked :: "gotime \<Rightarrow> quotaObservation \<Rightarrow> quotaState option \<Rightarrow> quotaState option \<times> bool" where
  "applyQuotaObservationLocked startedAt ob quota =
     (if \<not> validQuotaObservation ob then (quota, False)
      else let q = ensureQuotaLocked startedAt quota;
               key = quotaWindowKey ob;
               ob = (if time_IsZero (qo_CollectionStartedAt ob) then ob\<lparr> qo_CollectionStartedAt := qs_StartedAt q \<rparr> else ob);
               old = go_get (qs_Windows q) key
           in case (if qo_Revoked ob then revoke_window ob old else observe_window ob old) of
                None \<Rightarrow> (Some q, False)
              | Some w \<Rightarrow> (Some (q\<lparr> qs_Windows := go_put key w (qs_Windows q), qs_VersionCounter := qs_VersionCounter q + 1 \<rparr>), True))"

section \<open>Time passes\<close>

text \<open>The flag of an operation tells whether the cached responses are invalidated.\<close>

definition advance_window :: "gotime \<Rightarrow> string \<times> quotaWindow \<Rightarrow> (string, quotaWindow) gomap \<times> bool \<Rightarrow> (string, quotaWindow) gomap \<times> bool" where
  "advance_window now = (\<lambda>(key, w) (ws, changed).
     let (w, archived) = quotaArchiveResetPeriod w;
         (ws, changed) = (if archived then (go_put key w ws, True) else (ws, changed))
     in case qw_Current w of
          Some c \<Rightarrow> if \<not> time_Before now (qp_End c)
            then (go_put key (w\<lparr> qw_Previous := Some c, qw_Current := None \<rparr>) ws, True) else (ws, changed)
        | None \<Rightarrow> (ws, changed))"

definition advanceQuotaCyclesLocked :: "gotime \<Rightarrow> quotaState option \<Rightarrow> quotaState option \<times> bool" where
  "advanceQuotaCyclesLocked now quota =
     (case quota of None \<Rightarrow> (None, False)
      | Some q \<Rightarrow>
          (case fold (advance_window now) (qs_Windows q) (qs_Windows q, False) of (ws, changed) \<Rightarrow>
             if changed then (Some (q\<lparr> qs_Windows := ws, qs_VersionCounter := qs_VersionCounter q + 1 \<rparr>), True)
             else (Some (q\<lparr> qs_Windows := ws \<rparr>), False)))"

definition revocationRetention :: duration where
  "revocationRetention = 2 * 366 * 24 * time_Hour"

text \<open>What the loop over the windows collects: the earliest start and the periods of each credential.\<close>

record pruneAcc =
  pa_quota :: quotaState
  pa_changed :: bool
  pa_starts :: "(string, gotime) gomap"
  pa_periods :: "(string, quotaPeriod list) gomap"

definition bump :: "quotaState \<Rightarrow> quotaState" where
  "bump q = q\<lparr> qs_VersionCounter := qs_VersionCounter q + 1 \<rparr>"

definition with_windows :: "(string, quotaWindow) gomap \<Rightarrow> quotaState \<Rightarrow> quotaState" where
  "with_windows ws q = q\<lparr> qs_Windows := ws \<rparr>"

definition prune_window :: "gotime \<Rightarrow> string \<times> quotaWindow \<Rightarrow> pruneAcc \<Rightarrow> pruneAcc" where
  "prune_window now = (\<lambda>(key, w) acc.
     let q = pa_quota acc;
         stale = time_After now (time_Add (qw_UpdatedAt w) revocationRetention)
     in case (case qw_Current w of None \<Rightarrow> qw_Previous w | Some c \<Rightarrow> Some c) of
          None \<Rightarrow>
            if qw_Hidden w \<and> stale
            then acc\<lparr> pa_quota := bump (with_windows (go_del key (qs_Windows q)) q), pa_changed := True \<rparr> else acc
        | Some p \<Rightarrow>
            if qw_Hidden w \<and> time_After now (time_Add (qp_End p) (of_seconds (qw_Seconds w)))
            then acc\<lparr> pa_quota := bump (with_windows
                     (if \<not> stale then go_put key (w\<lparr> qw_Current := None, qw_Previous := None, qw_Seconds := 0 \<rparr>) (qs_Windows q)
                      else go_del key (qs_Windows q)) q), pa_changed := True \<rparr>
            else let start = (case qw_Previous w of
                       Some pr \<Rightarrow> if time_Before (qp_Start pr) (qp_Start p) then qp_Start pr else qp_Start p
                     | None \<Rightarrow> qp_Start p);
                     credential = quotaCredentialKey (qw_Provider w) (qw_AuthIndex w) (qw_AuthID w);
                     periods = List.map_filter (\<lambda>q. q) [qw_Current w, qw_Previous w]
                 in acc\<lparr> pa_periods := go_put credential (go_getd [] (pa_periods acc) credential @ periods) (pa_periods acc),
                      pa_starts := (if (case go_get (pa_starts acc) credential of None \<Rightarrow> True | Some old \<Rightarrow> time_Before start old)
                                    then go_put credential start (pa_starts acc) else pa_starts acc) \<rparr>)"

definition fact_retained :: "(string, quotaPeriod list) gomap \<Rightarrow> quotaFact \<Rightarrow> bool" where
  "fact_retained periods f \<longleftrightarrow>
     list_ex (\<lambda>p. \<not> time_Before (qf_Timestamp f) (qp_Start p) \<and> time_Before (qf_Timestamp f) (qp_End p))
       (go_getd [] periods (quotaCredentialKey (qf_Provider f) (qf_AuthIndex f) (qf_AuthID f)))"

definition prune_facts :: "duration \<Rightarrow> gotime \<Rightarrow> (string, quotaPeriod list) gomap \<Rightarrow> (string, quotaFact) gomap \<Rightarrow> (string, quotaFact) gomap" where
  "prune_facts retention now periods facts =
     fold (\<lambda>(id, f) facts.
        if retention \<le> 0 \<or> fact_retained periods f then facts
        else if time_Before (qf_Timestamp f) (time_Add now (- retention)) then go_del id facts else facts) facts facts"

definition prune_deleted :: "duration \<Rightarrow> gotime \<Rightarrow> (string, gotime) gomap \<Rightarrow> (string, gotime) gomap \<Rightarrow> (string, gotime) gomap" where
  "prune_deleted retention now starts deleted =
     fold (\<lambda>(id, stamp) deleted.
        if retention \<le> 0 then deleted
        else let keepAfter = fold (\<lambda>(_, start) keepAfter. if time_Before start keepAfter then start else keepAfter)
                    starts (time_Add now (- retention))
             in if time_Before stamp keepAfter then go_del id deleted else deleted) deleted deleted"

definition pruneQuotaLocked :: "duration \<Rightarrow> gotime \<Rightarrow> quotaState option \<Rightarrow> quotaState option \<times> bool" where
  "pruneQuotaLocked retention now quota =
     (case advanceQuotaCyclesLocked now quota of
        (None, _) \<Rightarrow> (None, False)
      | (Some q, invalidated) \<Rightarrow>
          if time_Before now (qs_NextPrune q) then (Some q, invalidated)
          else let acc = fold (prune_window now) (qs_Windows q)
                 \<lparr> pa_quota = q\<lparr> qs_NextPrune := time_Add now time_Minute \<rparr>, pa_changed = invalidated, pa_starts = [], pa_periods = [] \<rparr>;
                   q = pa_quota acc;
                   facts = prune_facts retention now (pa_periods acc) (qs_Facts q);
                   changed = length facts < length (qs_Facts q);
                   q = q\<lparr> qs_Facts := facts, qs_Deleted := prune_deleted retention now (pa_starts acc) (qs_Deleted q) \<rparr>
               in (Some (if changed then bump q else q), pa_changed acc \<or> changed))"

section \<open>Snapshots\<close>

record quotaSnapshot =
  sn_Version :: int
  sn_StartedAt :: gotime
  sn_Facts :: "(string, quotaFact) gomap"
  sn_Windows :: "(string, quotaWindow) gomap"
  sn_Deleted :: "(string, gotime) gomap"

text \<open>The embedded snapshot of the live state; the version of a live state is always 1.\<close>

definition live_snapshot :: "quotaState \<Rightarrow> quotaSnapshot" where
  "live_snapshot q = \<lparr> sn_Version = 1, sn_StartedAt = qs_StartedAt q, sn_Facts = qs_Facts q,
     sn_Windows = qs_Windows q, sn_Deleted = qs_Deleted q \<rparr>"

definition clonePeriod :: "gotime \<Rightarrow> quotaPeriod \<Rightarrow> quotaPeriod" where
  "clonePeriod startedAt p = (if time_IsZero (qp_CollectionStartedAt p) then p\<lparr> qp_CollectionStartedAt := startedAt \<rparr> else p)"

definition cloneQuotaSnapshot :: "quotaSnapshot \<Rightarrow> quotaSnapshot" where
  "cloneQuotaSnapshot in' = in'\<lparr> sn_Windows := map (\<lambda>(key, w). (key, w\<lparr>
     qw_Current := map_option (clonePeriod (sn_StartedAt in')) (qw_Current w),
     qw_Previous := map_option (clonePeriod (sn_StartedAt in')) (qw_Previous w) \<rparr>)) (sn_Windows in') \<rparr>"

text \<open>
  The model pool of an Antigravity window, from the hashes in its identity; \<open>sha\<close> stands for the
  hexadecimal form of the first 16 bytes of the SHA-256.
\<close>

definition quotaAntigravityFamily :: "(string \<Rightarrow> string) \<Rightarrow> quotaWindow \<Rightarrow> string" where
  "quotaAntigravityFamily sha w =
     (if qw_Provider w \<noteq> ''antigravity'' \<or> (qw_Seconds w \<noteq> 18000 \<and> qw_Seconds w \<noteq> 604800) then []
      else let (period, seconds) = (if qw_Seconds w = 604800 then (''weekly'', ''604800'') else (''5h'', ''18000''));
               pool = (\<lambda>(name, family). qw_Group w = ''antigravity-'' @ sha name \<and>
                 qw_Slot w = sha (family @ ''-'' @ period @ [NUL] @ seconds))
           in case List.find pool [(''Gemini Models'', ''gemini''), (''Claude and GPT models'', ''3p'')] of
                None \<Rightarrow> [] | Some (name, family) \<Rightarrow> family)"

definition revocationOnly :: "quotaWindow \<Rightarrow> bool" where
  "revocationOnly w \<longleftrightarrow> qw_Hidden w \<and> qw_Seconds w = 0 \<and> qw_Current w = None \<and> qw_Previous w = None \<and> \<not> time_IsZero (qw_UpdatedAt w)"

definition window_identity :: "quotaWindow \<Rightarrow> quotaObservation" where
  "window_identity w = \<lparr> qo_Source = qw_Source w, qo_CollectionStartedAt = zero_time, qo_Provider = qw_Provider w,
     qo_AuthIndex = qw_AuthIndex w, qo_AuthID = qw_AuthID w, qo_Group = qw_Group w, qo_Name = [], qo_Slot = qw_Slot w,
     qo_Seconds = 0, qo_Reset = zero_time, qo_ObservedAt = zero_time, qo_Used = Fin 0, qo_Model = [],
     qo_Unmapped = False, qo_Revoked = False \<rparr>"

text \<open>The errors of the validation, in the order of its checks.\<close>

datatype quota_error = UnsupportedSnapshot | InvalidFact | ConflictingFact | InvalidDeletion | InvalidWindow | InvalidGroup
  | InvalidPeriod | InvalidSample | UnorderedSamples

fun first_error :: "('a \<Rightarrow> quota_error option) \<Rightarrow> 'a list \<Rightarrow> quota_error option" where
  "first_error check [] = None"
| "first_error check (x # xs) = (case check x of None \<Rightarrow> first_error check xs | Some e \<Rightarrow> Some e)"

definition check_fact :: "quotaState option \<Rightarrow> string \<times> quotaFact \<Rightarrow> quota_error option" where
  "check_fact current = (\<lambda>(key, f).
     if key \<noteq> qf_ID f \<or> \<not> validQuotaFact f then Some InvalidFact
     else case Option.bind current (\<lambda>c. go_get (qs_Facts c) key) of
            Some old \<Rightarrow> if \<not> quotaFactsEqual old f then Some ConflictingFact else None
          | None \<Rightarrow> None)"

definition check_deletion :: "string \<times> gotime \<Rightarrow> quota_error option" where
  "check_deletion = (\<lambda>(key, stamp). if key = [] \<or> length key > 256 \<or> time_IsZero stamp then Some InvalidDeletion else None)"

definition sample_belongs :: "string \<Rightarrow> int \<Rightarrow> quotaObservation \<Rightarrow> bool" where
  "sample_belongs key seconds sample \<longleftrightarrow>
     validQuotaObservation sample \<and> \<not> qo_Revoked sample \<and> quotaWindowKey sample = key \<and> qo_Seconds sample = seconds"

definition check_period :: "string \<Rightarrow> int \<Rightarrow> quotaPeriod \<Rightarrow> quota_error option" where
  "check_period key seconds p =
     (if length (qp_Samples p) > 64 \<or> \<not> validQuotaPeriodSpan p seconds then Some InvalidPeriod
      else if \<not> list_all (sample_belongs key seconds) (qp_Samples p) then Some InvalidSample
      else if \<not> quotaSamplesSorted p then Some UnorderedSamples else None)"

definition window_fields_ok :: "quotaWindow \<Rightarrow> bool" where
  "window_fields_ok w \<longleftrightarrow> quotaProvider (qw_Provider w) \<and> (revocationOnly w \<or> qw_Seconds w > 0) \<and> qw_Seconds w \<le> max_seconds \<and>
     (qw_AuthID w \<noteq> [] \<or> qw_AuthIndex w \<noteq> []) \<and> length (qw_AuthID w) \<le> 512 \<and> length (qw_AuthIndex w) \<le> 512 \<and>
     qw_Group w \<noteq> [] \<and> length (qw_Group w) \<le> 256 \<and> qw_Slot w \<noteq> [] \<and> length (qw_Slot w) \<le> 64 \<and> length (qw_Name w) \<le> 256 \<and>
     length (qw_Model w) \<le> 1024 \<and> quotaSourceValid (qw_Provider w) (qw_Source w)"

definition check_window :: "(string \<Rightarrow> string) \<Rightarrow> string \<times> quotaWindow \<Rightarrow> quota_error option" where
  "check_window sha = (\<lambda>(key, w).
     if \<not> window_fields_ok w then Some InvalidWindow
     else if key \<noteq> quotaWindowKey (window_identity w) \<or>
             (\<not> revocationOnly w \<and> qw_Group w \<noteq> ''shared'' \<and> \<not> qw_Unmapped w \<and> qw_Model w = [] \<and> quotaAntigravityFamily sha w = [])
     then Some InvalidGroup
     else first_error (check_period key (qw_Seconds w)) (List.map_filter (\<lambda>p. p) [qw_Current w, qw_Previous w]))"

definition validateQuotaSnapshot :: "(string \<Rightarrow> string) \<Rightarrow> quotaSnapshot option \<Rightarrow> quotaState option \<Rightarrow> quota_error option" where
  "validateQuotaSnapshot sha snapshot current =
     (case snapshot of None \<Rightarrow> None
      | Some in' \<Rightarrow>
          if sn_Version in' \<noteq> 1 then Some UnsupportedSnapshot
          else case first_error (check_fact current) (sn_Facts in') of Some e \<Rightarrow> Some e
          | None \<Rightarrow> (case first_error check_deletion (sn_Deleted in') of Some e \<Rightarrow> Some e
          | None \<Rightarrow> first_error (check_window sha) (sn_Windows in')))"

definition broken_period :: "int \<Rightarrow> quotaPeriod option \<Rightarrow> bool" where
  "broken_period seconds = (\<lambda>p. case p of None \<Rightarrow> False
     | Some p \<Rightarrow> length (qp_Samples p) > 64 \<or> \<not> validQuotaPeriodSpan p seconds \<or> \<not> quotaSamplesSorted p)"

definition repair_period :: "int \<Rightarrow> quotaPeriod option \<Rightarrow> quotaPeriod option" where
  "repair_period seconds = (\<lambda>p. case p of None \<Rightarrow> None
     | Some p \<Rightarrow> if \<not> validQuotaPeriodSpan p seconds then None
                 else Some (quotaCompactSamples (p\<lparr> qp_Samples := sort_samples (qp_Samples p) \<rparr>)))"

definition needs_repair :: "quotaWindow \<Rightarrow> bool" where
  "needs_repair w \<longleftrightarrow> broken_period (qw_Seconds w) (qw_Current w) \<or> broken_period (qw_Seconds w) (qw_Previous w) \<or>
     quotaEmptyResetArchive (qw_Previous w)"

definition repair_window :: "quotaWindow \<Rightarrow> quotaWindow" where
  "repair_window w = quotaDropEmptyResetArchive (w\<lparr> qw_Current := repair_period (qw_Seconds w) (qw_Current w),
     qw_Previous := repair_period (qw_Seconds w) (qw_Previous w) \<rparr>)"

text \<open>The copy is made before the first repaired window, so its other windows are clones too.\<close>

definition repairQuotaPeriods :: "quotaSnapshot option \<Rightarrow> quotaSnapshot option" where
  "repairQuotaPeriods = map_option (\<lambda>in'.
     if \<not> list_ex (\<lambda>(_, w). needs_repair w) (sn_Windows in') then in'
     else let out = cloneQuotaSnapshot in'
          in fold (\<lambda>(key, w) out. if needs_repair w
                 then out\<lparr> sn_Windows := go_put key (repair_window (the (go_get (sn_Windows out) key))) (sn_Windows out) \<rparr> else out)
               (sn_Windows in') out)"

definition captureQuotaSnapshotLocked :: "duration \<Rightarrow> gotime \<Rightarrow> quotaState option \<Rightarrow> quotaState option \<times> quotaSnapshot option" where
  "captureQuotaSnapshotLocked retention now quota =
     (let quota = fst (pruneQuotaLocked retention now quota)
      in (quota, map_option (\<lambda>q. cloneQuotaSnapshot (live_snapshot q)) quota))"

section \<open>Merging\<close>

datatype slot = CurrentSlot | PreviousSlot

fun slot_period :: "quotaWindow \<Rightarrow> slot \<Rightarrow> quotaPeriod option" where
  "slot_period w CurrentSlot = qw_Current w"
| "slot_period w PreviousSlot = qw_Previous w"

fun set_slot :: "slot \<Rightarrow> quotaPeriod \<Rightarrow> quotaWindow \<Rightarrow> quotaWindow" where
  "set_slot CurrentSlot p w = w\<lparr> qw_Current := Some p \<rparr>"
| "set_slot PreviousSlot p w = w\<lparr> qw_Previous := Some p \<rparr>"

definition quotaPeriodsShareObservedWindow :: "quotaPeriod option \<Rightarrow> quotaPeriod \<Rightarrow> bool" where
  "quotaPeriodsShareObservedWindow x b = (case x of None \<Rightarrow> False
     | Some a \<Rightarrow> qp_Samples a \<noteq> [] \<and> qp_Samples b \<noteq> [] \<and> time_Before (qp_Start a) (qp_End b) \<and> time_Before (qp_Start b) (qp_End a) \<and>
         time_Before (qo_ObservedAt (hd (qp_Samples a))) (qp_End b) \<and> time_Before (qo_ObservedAt (hd (qp_Samples b))) (qp_End a))"

definition merge_target :: "quotaWindow \<Rightarrow> quotaPeriod \<Rightarrow> slot option" where
  "merge_target w p =
     (case List.find (\<lambda>s. case slot_period w s of None \<Rightarrow> False
              | Some x \<Rightarrow> quotaResetDriftIsSmall (qp_End x) (qp_End p) (qw_Seconds w)) [PreviousSlot, CurrentSlot] of
        Some s \<Rightarrow> Some s
      | None \<Rightarrow> (case filter (\<lambda>s. quotaPeriodsShareObservedWindow (slot_period w s) p) [PreviousSlot, CurrentSlot] of
            [s] \<Rightarrow> Some s | _ \<Rightarrow> None))"

definition install_previous :: "quotaPeriod \<Rightarrow> quotaWindow \<Rightarrow> quotaWindow" where
  "install_previous p w =
     (case qw_Current w of
        Some c \<Rightarrow>
          if (case qw_Previous w of None \<Rightarrow> True
              | Some pr \<Rightarrow> time_After (qp_End p) (qp_End pr) \<and> \<not> quotaResetDriftIsSmall (qp_End p) (qp_End pr) (qw_Seconds w)) \<and>
             quotaPeriodPrecedes (qp_End p) (qp_Start c) (qw_Seconds w)
          then let end' = (if quotaResetDriftIsSmall (qp_End p) (qp_Start c) (qw_Seconds w) then qp_Start c else qp_End p);
                   copy = p\<lparr> qp_End := end', qp_Samples := [] \<rparr>;
                   copy = (if \<not> qp_EndedByReset p then copy\<lparr> qp_Start := time_Add end' (- of_seconds (qw_Seconds w)) \<rparr> else copy)
               in if time_Before (qp_Start copy) (qp_End copy) then w\<lparr> qw_Previous := Some copy \<rparr> else w
          else w
      | None \<Rightarrow> w)"

definition merge_period :: "quotaPeriod option \<Rightarrow> quotaWindow \<Rightarrow> quotaWindow" where
  "merge_period x w =
     (case x of None \<Rightarrow> w
      | Some p \<Rightarrow>
          let w = install_previous p w
          in case merge_target w p of None \<Rightarrow> w
             | Some s \<Rightarrow> set_slot s (fold (\<lambda>sample t. append_sample t sample (qp_CollectionStartedAt p)) (qp_Samples p)
                            (the (slot_period w s))) w)"

definition mergeQuotaWindowHistory :: "quotaWindow \<Rightarrow> quotaWindow \<Rightarrow> quotaWindow" where
  "mergeQuotaWindowHistory w incoming =
     (let (w, incoming) =
        (if qw_Hidden w \<and> qw_Seconds incoming > 0 \<and>
            (qw_Seconds w = 0 \<or> time_After (quotaWindowObservedAt incoming) (quotaWindowObservedAt w))
         then (incoming\<lparr> qw_UpdatedAt := qw_UpdatedAt w, qw_Hidden := True \<rparr>, w) else (w, incoming))
      in if qw_Seconds w \<noteq> qw_Seconds incoming then w
         else fold merge_period [qw_Previous incoming, qw_Current incoming] w)"

definition merge_window :: "string \<times> quotaWindow \<Rightarrow> (string, quotaWindow) gomap \<Rightarrow> (string, quotaWindow) gomap" where
  "merge_window = (\<lambda>(key, w) ws.
     let w = (case go_get ws key of
          None \<Rightarrow> w
        | Some old \<Rightarrow>
            let (w, old) = (if time_Before (qw_UpdatedAt w) (qw_UpdatedAt old) \<or>
                  (time_Equal (qw_UpdatedAt w) (qw_UpdatedAt old) \<and> (\<not> qw_Hidden w \<or> qw_Hidden old)) then (old, w) else (w, old))
            in mergeQuotaWindowHistory w old)
     in go_put key (fst (quotaArchiveResetPeriod w)) ws)"

text \<open>
  The merge of a snapshot into the live state.  The second result is the map of deletions whose
  details \<open>removeQuotaDeletedDetailsLocked\<close> takes out of the main ledger; it is \<open>None\<close> when the snapshot is rejected.
\<close>

definition mergeQuotaSnapshotLocked ::
  "(string \<Rightarrow> string) \<Rightarrow> gotime \<Rightarrow> quotaSnapshot option \<Rightarrow> quotaState option \<Rightarrow> quotaState option \<times> (string, gotime) gomap option" where
  "mergeQuotaSnapshotLocked sha startedAt snapshot quota =
     (case repairQuotaPeriods snapshot of
        None \<Rightarrow> (quota, None)
      | Some in' \<Rightarrow>
          if validateQuotaSnapshot sha (Some in') quota \<noteq> None then (quota, None)
          else let copy = cloneQuotaSnapshot in';
                   q = ensureQuotaLocked startedAt quota;
                   q = (if time_Before (qs_StartedAt q) (sn_StartedAt copy) then q\<lparr> qs_StartedAt := sn_StartedAt copy \<rparr> else q);
                   (deleted, facts) = fold (\<lambda>(key, stamp) (deleted, facts).
                        (if time_After stamp (go_getd zero_time deleted key) then go_put key stamp deleted else deleted, go_del key facts))
                      (sn_Deleted copy) (qs_Deleted q, qs_Facts q);
                   facts = fold (\<lambda>(key, f) facts. if go_get deleted key = None then go_put key f facts else facts) (sn_Facts copy) facts
               in (Some (q\<lparr> qs_Deleted := deleted, qs_Facts := facts, qs_Windows := fold merge_window (sn_Windows copy) (qs_Windows q),
                     qs_VersionCounter := qs_VersionCounter q + 1 \<rparr>), Some (sn_Deleted copy)))"

end
