(* ===== verification/QuotaWindowsInvariant.thy ===== *)
theory QuotaWindowsInvariant
  imports QuotaWindows
begin

text \<open>
  The invariant of the quota windows and its preservation by every operation of theory
  \<open>QuotaWindows\<close>.
\<close>

section \<open>Both periods of a window\<close>

definition slots_ok :: "(quotaObservation \<Rightarrow> bool) \<Rightarrow> int \<Rightarrow> quotaWindow \<Rightarrow> bool" where
  "slots_ok P s w \<longleftrightarrow> pred_option (period_ok P s) (qw_Current w) \<and> pred_option (period_ok P s) (qw_Previous w)"

text \<open>A completed previous period ends before the current one starts; an archive is cut at a reset instead.\<close>

definition disjoint_periods :: "quotaWindow \<Rightarrow> bool" where
  "disjoint_periods w \<longleftrightarrow> (\<forall>c p. qw_Current w = Some c \<and> qw_Previous w = Some p \<and> \<not> qp_EndedByReset p \<longrightarrow>
     \<not> time_After (qp_End p) (qp_Start c))"

lemma disjoint_periods_code [code]:
  "disjoint_periods w \<longleftrightarrow> (case qw_Current w of None \<Rightarrow> True
     | Some c \<Rightarrow> (case qw_Previous w of None \<Rightarrow> True | Some p \<Rightarrow> qp_EndedByReset p \<or> \<not> time_After (qp_End p) (qp_Start c)))"
  by (auto simp: disjoint_periods_def split: option.split)

text \<open>Two windows that differ in their periods only.\<close>

definition same_window :: "quotaWindow \<Rightarrow> quotaWindow \<Rightarrow> bool" where
  "same_window w w' \<longleftrightarrow> w'\<lparr> qw_Current := qw_Current w, qw_Previous := qw_Previous w \<rparr> = w"

lemma same_window_refl [simp]: "same_window w w"
  by (simp add: same_window_def)

lemma same_window_fields:
  assumes "same_window w w'"
  shows "qw_Source w' = qw_Source w" "qw_Provider w' = qw_Provider w" "qw_AuthIndex w' = qw_AuthIndex w"
    "qw_AuthID w' = qw_AuthID w" "qw_Group w' = qw_Group w" "qw_Name w' = qw_Name w" "qw_Slot w' = qw_Slot w"
    "qw_Seconds w' = qw_Seconds w" "qw_Model w' = qw_Model w" "qw_Unmapped w' = qw_Unmapped w"
    "qw_Hidden w' = qw_Hidden w" "qw_UpdatedAt w' = qw_UpdatedAt w"
  using assms by (cases w; cases w'; simp add: same_window_def)+

lemma same_window_set [simp]:
  "same_window w (w\<lparr> qw_Current := c \<rparr>)" "same_window w (w\<lparr> qw_Previous := p \<rparr>)"
  by (simp_all add: same_window_def)

lemma same_window_trans: "same_window w w' \<Longrightarrow> same_window w' w'' \<Longrightarrow> same_window w w''"
  by (cases w; cases w'; cases w''; simp add: same_window_def)

lemma period_ok_same:
  assumes "same_span p p'" "samples_ok P p'" "period_ok Q s p"
  shows "period_ok P s p'"
  using assms span_ok_same by (simp add: period_ok_def)

lemma appended_ok:
  assumes "quotaAppendSample p ob t = Some p'" "period_ok P s p" "P ob"
  shows "period_ok P s p' \<and> same_span p p'"
proof -
  have "list_all P (qp_Samples p)" using assms(2) by (simp add: period_ok_def samples_ok_def)
  from appended [where P = P, OF assms(1) this assms(3)] show ?thesis
    using assms(2) span_ok_same [of p p' s] by (simp add: period_ok_def)
qed

lemma append_period_ok:
  assumes "period_ok P s p" "P ob"
  shows "period_ok P s (append_sample p ob t) \<and> same_span p (append_sample p ob t)"
  using append_sample_ok [of P p ob t] assms span_ok_same [of p "append_sample p ob t" s] by (simp add: period_ok_def)

section \<open>Archives and expiry\<close>

lemma archive_window:
  assumes "slots_ok P s w" "disjoint_periods w"
  shows "slots_ok P s (fst (quotaArchiveResetPeriod w)) \<and> disjoint_periods (fst (quotaArchiveResetPeriod w)) \<and>
    same_window w (fst (quotaArchiveResetPeriod w)) \<and> qw_Current (fst (quotaArchiveResetPeriod w)) = qw_Current w"
proof (cases "Option.bind (qw_Current w) (archive_of w)")
  case None
  then show ?thesis using assms by (simp add: quotaArchiveResetPeriod_def)
next
  case (Some c)
  then obtain p where p: "qw_Current w = Some p" "archive_of w p = Some c" by (auto simp: bind_eq_Some_conv)
  have "period_ok P s c \<and> qp_EndedByReset c"
    by (rule archive_of_ok [OF p(2)]) (use assms(1) p(1) in \<open>auto simp: slots_ok_def period_ok_def\<close>)
  then show ?thesis using assms Some by (auto simp: quotaArchiveResetPeriod_def slots_ok_def disjoint_periods_def)
qed

lemma drop_archive_window:
  assumes "slots_ok P s w" "disjoint_periods w"
  shows "slots_ok P s (quotaDropEmptyResetArchive w) \<and> disjoint_periods (quotaDropEmptyResetArchive w) \<and>
    same_window w (quotaDropEmptyResetArchive w)"
  using assms by (auto simp: quotaDropEmptyResetArchive_def slots_ok_def disjoint_periods_def)

section \<open>Late observations\<close>

lemma span_ok_end:
  assumes "0 < s"
  shows "span_ok s (p\<lparr> qp_Start := time_Add t (- of_seconds s), qp_End := t \<rparr>)"
  using assms by (simp add: span_ok_def time_Before_def time_Add_def of_seconds_def time_Second_def)

lemma single_sample: "P ob \<Longrightarrow> qp_Samples p = [ob] \<Longrightarrow> samples_ok P p"
  by (simp add: samples_ok_def quotaSamplesSorted_def)

lemma predecessor_ok:
  assumes "predecessor ob w = Some w'" "slots_ok P s w" "qo_Seconds ob = s" "0 < s" "P ob"
  shows "slots_ok P s w' \<and> disjoint_periods w' \<and> same_window w w' \<and> qw_Seconds w = s"
proof -
  obtain c where c: "qw_Current w = Some c" using assms(1) by (auto simp: predecessor_def split: option.splits)
  define t where "t = (if quotaResetDriftIsSmall (qo_Reset ob) (qp_Start c) s then qp_Start c else qo_Reset ob)"
  define p where "p = empty_period\<lparr> qp_Start := time_Add t (- of_seconds s), qp_End := t,
    qp_CollectionStartedAt := qo_CollectionStartedAt ob, qp_Samples := [ob] \<rparr>"
  have w': "w' = w\<lparr> qw_Previous := Some p \<rparr>" "qw_Seconds w = s" "quotaPeriodPrecedes (qo_Reset ob) (qp_Start c) s"
    using assms(1,3) c by (auto simp: predecessor_def t_def p_def Let_def split: if_splits)
  have "span_ok s p" using span_ok_end [OF assms(4), where p = p and t = t] by (simp add: p_def span_ok_def)
  then have "period_ok P s p" using single_sample [where P = P and p = p and ob = ob] assms(5) by (simp add: period_ok_def p_def)
  moreover have "\<not> time_After (qp_End p) (qp_Start c)"
    using w'(3) by (auto simp: p_def t_def quotaPeriodPrecedes_def time_After_def)
  ultimately show ?thesis using assms(2) c w' by (auto simp: slots_ok_def disjoint_periods_def)
qed

lemma append_late_ok:
  assumes "append_late ob w p = Some p'" "period_ok P s p" "P ob"
  shows "period_ok P s p' \<and> same_span p p' \<and> qw_Seconds w = qo_Seconds ob"
  using assms appended_ok by (auto simp: append_late_def split: if_splits)

text \<open>A period with the same span takes the place of another.\<close>

lemma slots_replace:
  assumes "slots_ok P s w" "disjoint_periods w"
  shows "qw_Current w = Some c \<Longrightarrow> same_span c c' \<Longrightarrow> period_ok P s c' \<Longrightarrow>
      slots_ok P s (w\<lparr> qw_Current := Some c' \<rparr>) \<and> disjoint_periods (w\<lparr> qw_Current := Some c' \<rparr>)"
    "qw_Previous w = Some p \<Longrightarrow> same_span p p' \<Longrightarrow> period_ok P s p' \<Longrightarrow>
      slots_ok P s (w\<lparr> qw_Previous := Some p' \<rparr>) \<and> disjoint_periods (w\<lparr> qw_Previous := Some p' \<rparr>)"
  using assms by (auto simp: slots_ok_def disjoint_periods_def same_span_def)

lemma late_cases:
  assumes "late_observation ob w = Some w'"
  obtains
    (archive) p p' where "qw_Previous w = Some p" "in_reset_archive ob w p"
      "quotaAppendSample p ob (qo_CollectionStartedAt ob) = Some p'" "w' = w\<lparr> qw_Previous := Some p' \<rparr>"
  | (both) p p' c where "qw_Previous w = Some p" "in_reset_archive ob w p"
      "quotaAppendSample p ob (qo_CollectionStartedAt ob) = Some p'" "qw_Current w = Some c"
      "w' = (w\<lparr> qw_Previous := Some p' \<rparr>)\<lparr> qw_Current := Some (append_sample c ob (qo_CollectionStartedAt ob)) \<rparr>"
  | (current) c c' where "qw_Current w = Some c" "append_late ob w c = Some c'" "w' = w\<lparr> qw_Current := Some c' \<rparr>"
  | (previous) p p' where "qw_Previous w = Some p" "append_late ob w p = Some p'" "w' = w\<lparr> qw_Previous := Some p' \<rparr>"
  | (new) "predecessor ob w = Some w'"
proof (cases "qw_Previous w")
  case None
  show ?thesis
  proof (cases "Option.bind (qw_Current w) (append_late ob w)")
    case 1: None
    then show ?thesis using assms None new by (simp add: late_observation_def)
  next
    case (Some c')
    then show ?thesis using assms None current by (auto simp: late_observation_def bind_eq_Some_conv)
  qed
next
  case (Some p)
  show ?thesis
  proof (cases "in_reset_archive ob w p")
    case True
    then obtain p' where p': "quotaAppendSample p ob (qo_CollectionStartedAt ob) = Some p'"
      using assms Some by (auto simp: late_observation_def)
    show ?thesis
    proof (cases "qw_Current w")
      case None
      then show ?thesis using assms Some True p' archive by (simp add: late_observation_def)
    next
      case c: (Some c)
      then show ?thesis using assms Some True p' archive both by (simp add: late_observation_def Let_def split: if_splits)
    qed
  next
    case False
    show ?thesis
    proof (cases "Option.bind (qw_Current w) (append_late ob w)")
      case None
      show ?thesis
      proof (cases "append_late ob w p")
        case 2: None
        then show ?thesis using assms Some False None new by (simp add: late_observation_def)
      next
        case p': (Some p')
        then show ?thesis using assms Some False None previous by (simp add: late_observation_def)
      qed
    next
      case c': (Some c')
      then have "w' = w\<lparr> qw_Current := Some c' \<rparr>" using assms Some False by (simp add: late_observation_def)
      then show ?thesis using c' current by (auto simp: bind_eq_Some_conv)
    qed
  qed
qed

lemma late_ok:
  assumes "late_observation ob w = Some w'" "slots_ok P s w" "disjoint_periods w" "qo_Seconds ob = s" "0 < s" "P ob"
  shows "slots_ok P s w' \<and> disjoint_periods w' \<and> same_window w w' \<and> qw_Seconds w = s"
proof -
  note rc = slots_replace(1) [OF assms(2,3)] and rp = slots_replace(2) [OF assms(2,3)]
  have per: "qw_Previous w = Some p \<Longrightarrow> period_ok P s p" "qw_Current w = Some p \<Longrightarrow> period_ok P s p" for p
    using assms(2) by (simp_all add: slots_ok_def)
  from assms(1) show ?thesis
  proof (cases rule: late_cases)
    case (archive p p')
    then show ?thesis using rp [OF archive(1)] appended_ok [where P = P, OF archive(3) per(1) assms(6)] assms(4)
      by (simp add: in_reset_archive_def)
  next
    case (both p p' c)
    let ?w = "w\<lparr> qw_Previous := Some p' \<rparr>"
    have w: "slots_ok P s ?w" "disjoint_periods ?w"
      using rp [OF both(1)] appended_ok [where P = P, OF both(3) per(1) [OF both(1)] assms(6)] by simp_all
    have c: "qw_Current ?w = Some c" using both(4) by simp
    have "same_window w (?w\<lparr> qw_Current := Some (append_sample c ob (qo_CollectionStartedAt ob)) \<rparr>)"
      by (rule same_window_trans [of _ ?w]) simp_all
    then show ?thesis
      using slots_replace(1) [OF w c] append_period_ok [where P = P, OF per(2) [OF both(4)] assms(6)] both(2,5) assms(4)
      by (simp add: in_reset_archive_def)
  next
    case (current c c')
    then show ?thesis using rc [OF current(1)] append_late_ok [where P = P, OF current(2) per(2) assms(6)] assms(4) by simp
  next
    case (previous p p')
    then show ?thesis using rp [OF previous(1)] append_late_ok [where P = P, OF previous(2) per(1) assms(6)] assms(4) by simp
  next
    case new
    then show ?thesis by (rule predecessor_ok [OF _ assms(2,4-6)])
  qed
qed

section \<open>Current observations\<close>

lemma leave_ok:
  assumes "qw_Seconds w = qo_Seconds ob \<Longrightarrow> slots_ok P s w" "\<not> ex \<Longrightarrow> qw_Seconds w = qo_Seconds ob"
  shows "slots_ok P s (leave_period ob ex start w) \<and> same_window w (leave_period ob ex start w)"
proof -
  define v where "v = (if ex \<and> qw_Seconds w \<noteq> qo_Seconds ob then w\<lparr> qw_Current := None, qw_Previous := None \<rparr> else w)"
  have v: "slots_ok P s v" "same_window w v"
    using assms by (auto simp: v_def slots_ok_def intro: same_window_trans [of _ "w\<lparr> qw_Current := None \<rparr>"])
  have "leave_period ob ex start w = v \<or>
      (\<exists>c. qw_Current v = Some c \<and> leave_period ob ex start w = (v\<lparr> qw_Previous := Some c \<rparr>)\<lparr> qw_Current := None \<rparr>)"
    unfolding leave_period_def Let_def v_def [symmetric] by (simp split: option.split)
  moreover have "same_window v ((v\<lparr> qw_Previous := c \<rparr>)\<lparr> qw_Current := None \<rparr>)" for c
    by (rule same_window_trans [of _ "v\<lparr> qw_Previous := c \<rparr>"]) simp_all
  ultimately show ?thesis using v same_window_trans [OF v(2)] by (auto simp: slots_ok_def)
qed

lemma new_period_ok:
  assumes "P ob" "0 < qo_Seconds ob"
  shows "period_ok P (qo_Seconds ob) (new_period ob (time_Add (qo_Reset ob) (- of_seconds (qo_Seconds ob))))"
  using assms by (simp add: period_ok_def new_period_def samples_ok_def quotaSamplesSorted_def span_ok_def time_Before_def
      time_Add_def of_seconds_def time_Second_def)

lemma enter_ok:
  assumes e: "enter_period ob start w = Some w'" and w: "slots_ok P s w" and ob: "P ob" "qo_Seconds ob = s" "0 < s"
    and start: "start = time_Add (qo_Reset ob) (- of_seconds s)"
  shows "slots_ok P s w' \<and> same_window w w'"
proof -
  have n: "period_ok P s (new_period ob start)" using new_period_ok [of P ob] ob start by simp
  have per: "qw_Previous w = Some p \<Longrightarrow> period_ok P s p" "qw_Current w = Some p \<Longrightarrow> period_ok P s p" for p
    using w by (simp_all add: slots_ok_def)
  show ?thesis
  proof (cases "qw_Current w")
    case None
    show ?thesis
    proof (cases "qw_Previous w")
      case 1: None
      then show ?thesis using e None w n by (auto simp: enter_period_def slots_ok_def)
    next
      case (Some p)
      show ?thesis
      proof (cases "quotaResetDriftIsSmall (qp_End p) (qo_Reset ob) (qo_Seconds ob) \<and> qw_Seconds w = qo_Seconds ob")
        case True
        then obtain p' where p': "quotaAppendSample p ob (qo_CollectionStartedAt ob) = Some p'" "w' = w\<lparr> qw_Previous := Some p' \<rparr>"
          using e None Some by (auto simp: enter_period_def)
        show ?thesis using appended_ok [where P = P, OF p'(1) per(1) [OF Some] ob(1)] w by (simp add: p'(2) slots_ok_def)
      next
        case False
        then have "w' = w\<lparr> qw_Current := Some (new_period ob start) \<rparr>" using e None Some by (auto simp: enter_period_def)
        then show ?thesis using w n by (simp add: slots_ok_def)
      qed
    qed
  next
    case (Some c)
    note c = per(2) [OF Some]
    let ?c = "c\<lparr> qp_Start := start, qp_End := qo_Reset ob \<rparr>"
    have "span_ok s ?c" using span_ok_end [OF ob(3), where p = c and t = "qo_Reset ob"] start by simp
    then have m: "period_ok P s ?c" using c by (simp add: period_ok_def samples_ok_def quotaSamplesSorted_def)
    define A where "A \<longleftrightarrow> time_Equal (qp_End c) (qo_Reset ob) \<and> qw_Seconds w = qo_Seconds ob"
    define B where "B \<longleftrightarrow> qw_Seconds w = qo_Seconds ob \<and> time_Before (qo_ObservedAt ob) (qp_End c) \<and> time_Before start (qp_End c) \<and>
      qp_Samples c \<noteq> []"
    have eq: "enter_period ob start w = (if A then map_option (\<lambda>c. w\<lparr> qw_Current := Some c \<rparr>) (quotaAppendSample c ob (qo_CollectionStartedAt ob))
      else if B then Some (w\<lparr> qw_Current := Some (append_sample ?c ob (qo_CollectionStartedAt ob)) \<rparr>)
      else if \<not> time_After (qp_End c) start then Some (w\<lparr> qw_Previous := Some c, qw_Current := Some (new_period ob start) \<rparr>) else None)"
      unfolding enter_period_def Some option.case A_def B_def by (rule refl)
    consider (append) A | (move) "\<not> A" B | (new) "\<not> A" "\<not> B" "\<not> time_After (qp_End c) start"
      using e unfolding eq by (cases A; cases B; cases "time_After (qp_End c) start") simp_all
    then show ?thesis
    proof cases
      case append
      then have "map_option (\<lambda>c. w\<lparr> qw_Current := Some c \<rparr>) (quotaAppendSample c ob (qo_CollectionStartedAt ob)) = Some w'"
        using e eq by (simp only: if_True)
      then obtain c' where c': "quotaAppendSample c ob (qo_CollectionStartedAt ob) = Some c'" "w' = w\<lparr> qw_Current := Some c' \<rparr>"
        by (cases "quotaAppendSample c ob (qo_CollectionStartedAt ob)") simp_all
      show ?thesis using appended_ok [where P = P, OF c'(1) c ob(1)] w by (simp add: c'(2) slots_ok_def)
    next
      case move
      then have w': "w' = w\<lparr> qw_Current := Some (append_sample ?c ob (qo_CollectionStartedAt ob)) \<rparr>"
        using e eq by (simp only: if_True if_False option.inject)
      show ?thesis using append_period_ok [where P = P, OF m ob(1)] w unfolding w' by (simp add: slots_ok_def)
    next
      case new
      then have w': "w' = (w\<lparr> qw_Previous := Some c \<rparr>)\<lparr> qw_Current := Some (new_period ob start) \<rparr>"
        using e eq by (simp only: if_True if_False option.inject not_True_eq_False not_False_eq_True)
      have "same_window w w'" unfolding w' by (rule same_window_trans [of _ "w\<lparr> qw_Previous := Some c \<rparr>"]) simp_all
      then show ?thesis using c n by (simp add: w' slots_ok_def)
    qed
  qed
qed

lemma end_at_ok:
  assumes "period_ok P s p" "0 < s"
  shows "period_ok P s (end_at t s p)"
proof -
  have "end_at t s p = p\<lparr> qp_Start := time_Add t (- of_seconds s), qp_End := t \<rparr>" by (simp add: end_at_def)
  then have "span_ok s (end_at t s p)" by (simp only:) (rule span_ok_end [OF assms(2)])
  then show ?thesis using assms(1) by (simp add: period_ok_def samples_ok_def quotaSamplesSorted_def end_at_def)
qed

lemma end_at_simps [simp]: "qp_End (end_at t s p) = t"
  by (simp add: end_at_def)

lemma align_ok:
  assumes w: "slots_ok P s w" and ob: "qo_Seconds ob = s" "0 < s"
  shows "slots_ok P s (align_previous ob w) \<and> disjoint_periods (align_previous ob w) \<and> same_window w (align_previous ob w)"
proof (cases "qw_Current w")
  case None
  then show ?thesis using w by (simp add: align_previous_def disjoint_periods_def)
next
  case (Some c)
  show ?thesis
  proof (cases "qw_Previous w")
    case None
    then show ?thesis using w Some by (simp add: align_previous_def disjoint_periods_def)
  next
    case p: (Some p)
    have e: "period_ok P s (end_at (qp_Start c) s p)" by (rule end_at_ok) (use w p ob in \<open>simp_all add: slots_ok_def\<close>)
    define A where "A \<longleftrightarrow> quotaResetDriftIsSmall (qp_End p) (qp_Start c) s"
    define B where "B \<longleftrightarrow> time_After (qp_End p) (qp_Start c) \<and> time_Before (qp_Start p) (qp_Start c) \<and>
      time_Sub (qp_End p) (qp_Start c) \<le> of_seconds s div 4"
    define G where "G \<longleftrightarrow> quotaPeriodPrecedes (qp_End p) (qp_Start c) s"
    have eq: "align_previous ob w = (if qp_EndedByReset p then w
      else if A then w\<lparr> qw_Previous := Some (end_at (qp_Start c) s p) \<rparr>
      else if B then w\<lparr> qw_Previous := Some (end_at (qp_Start c) s p) \<rparr>
      else if \<not> G then w\<lparr> qw_Previous := None \<rparr> else w)"
      unfolding align_previous_def Some p prod.case option.case A_def B_def G_def ob(1) by (rule refl)
    have G: "\<not> A \<Longrightarrow> G \<Longrightarrow> \<not> time_After (qp_End p) (qp_Start c)" by (simp add: A_def G_def quotaPeriodPrecedes_def)
    consider (same) "qp_EndedByReset p \<or> (\<not> A \<and> \<not> B \<and> G)" | (aligned) "\<not> qp_EndedByReset p" "A \<or> B"
      | (gone) "\<not> qp_EndedByReset p" "\<not> A" "\<not> B" "\<not> G" by blast
    then show ?thesis
    proof cases
      case same
      then have "align_previous ob w = w" unfolding eq by auto
      then show ?thesis using w Some p same G by (auto simp: disjoint_periods_def)
    next
      case aligned
      then have "align_previous ob w = w\<lparr> qw_Previous := Some (end_at (qp_Start c) s p) \<rparr>" unfolding eq by auto
      then show ?thesis using w e Some by (simp add: slots_ok_def disjoint_periods_def time_After_def)
    next
      case gone
      then have "align_previous ob w = w\<lparr> qw_Previous := None \<rparr>" unfolding eq by auto
      then show ?thesis using w by (simp add: slots_ok_def disjoint_periods_def)
    qed
  qed
qed

text \<open>What an observation that is not late leaves in the window.\<close>

definition labelled :: "quotaObservation \<Rightarrow> quotaWindow \<Rightarrow> quotaWindow" where
  "labelled ob w = w\<lparr> qw_Seconds := qo_Seconds ob, qw_Name := qo_Name ob, qw_Model := qo_Model ob,
     qw_Unmapped := qo_Unmapped ob, qw_UpdatedAt := qo_ObservedAt ob, qw_Hidden := False \<rparr>"

lemma labelled_same: "same_window a b \<Longrightarrow> same_window (labelled ob a) (labelled ob b)"
  by (cases a; cases b; simp add: same_window_def labelled_def)

lemma labelled_periods: "slots_ok P s (labelled ob w) = slots_ok P s w" "disjoint_periods (labelled ob w) = disjoint_periods w"
  by (simp_all add: slots_ok_def disjoint_periods_def labelled_def)

lemma current_ok:
  assumes e: "current_observation ob ex (time_Add (qo_Reset ob) (- of_seconds (qo_Seconds ob))) w = Some w'"
    and w: "qw_Seconds w = qo_Seconds ob \<Longrightarrow> slots_ok P s w" "\<not> ex \<Longrightarrow> qw_Seconds w = qo_Seconds ob"
    and ob: "P ob" "qo_Seconds ob = s" "0 < s"
  shows "slots_ok P s w' \<and> disjoint_periods w' \<and> same_window (labelled ob w) w'"
proof -
  let ?start = "time_Add (qo_Reset ob) (- of_seconds (qo_Seconds ob))"
  let ?l = "leave_period ob ex ?start w"
  obtain v where v: "enter_period ob ?start ?l = Some v" "w' = labelled ob (align_previous ob v)"
    using e by (auto simp: current_observation_def labelled_def)
  note l = leave_ok [where P = P and s = s, OF w]
  have n: "slots_ok P s v \<and> same_window ?l v" by (rule enter_ok [OF v(1)]) (use l ob in simp_all)
  note a = align_ok [where P = P and w = v and ob = ob, OF conjunct1 [OF n] ob(2,3)]
  have "same_window w (align_previous ob v)"
    by (rule same_window_trans [OF conjunct2 [OF l] same_window_trans [OF conjunct2 [OF n] conjunct2 [OF conjunct2 [OF a]]]])
  then have "same_window (labelled ob w) w'" unfolding v(2) by (rule labelled_same)
  then show ?thesis using a unfolding v(2) labelled_periods by blast
qed

section \<open>Identities\<close>

text \<open>
  The keys of the program join the parts of an identity with NUL bytes.  They are unique for
  identities whose parts contain none, and whose provider is written as \<open>parseQuotaSignals\<close> writes it.
\<close>

definition plain_key :: "quotaObservation \<Rightarrow> bool" where
  "plain_key ob \<longleftrightarrow> qo_Provider ob \<in> {''claude'', ''codex'', ''devin'', ''antigravity''} \<and> NUL \<notin> set (qo_AuthIndex ob) \<and>
     NUL \<notin> set (qo_AuthID ob) \<and> NUL \<notin> set (qo_Group ob) \<and> NUL \<notin> set (qo_Slot ob)"

lemma split_at:
  "x \<notin> set as \<Longrightarrow> x \<notin> set cs \<Longrightarrow> as @ x # bs = cs @ x # ds \<longleftrightarrow> as = cs \<and> bs = ds"
proof (induction as arbitrary: cs)
  case Nil
  then show ?case by (cases cs) auto
next
  case (Cons a as)
  then show ?case by (cases cs) auto
qed

lemma provider_normal:
  assumes "p \<in> {''claude'', ''codex'', ''devin'', ''antigravity''}"
  shows "go_ToLower (go_TrimSpace p) = p \<and> NUL \<notin> set p"
  using assms by (elim insertE emptyE) (simp_all, code_simp+)

lemma key_unique:
  assumes "quotaWindowKey a = quotaWindowKey b" "plain_key a" "plain_key b"
  shows "qo_Provider a = qo_Provider b \<and> qo_AuthIndex a = qo_AuthIndex b \<and> qo_AuthID a = qo_AuthID b \<and>
    qo_Group a = qo_Group b \<and> qo_Slot a = qo_Slot b"
proof -
  have key: "quotaWindowKey x = qo_Provider x @ NUL # qo_AuthIndex x @ NUL # qo_AuthID x @ NUL # qo_Group x @ NUL #
      qo_Slot x @ (if qo_Source x = [] then [] else NUL # qo_Source x)" if "plain_key x" for x
    using provider_normal that by (simp add: quotaWindowKey_def quotaCredentialKey_def plain_key_def Let_def)
  have slot: "s = s'" if "s @ (if u = [] then [] else NUL # u) = s' @ (if u' = [] then [] else NUL # u')"
    "NUL \<notin> set s" "NUL \<notin> set s'" for s s' u u' :: string
    using that by (cases "u = []"; cases "u' = []") (auto simp: split_at)
  have "NUL \<notin> set (qo_Provider a)" "NUL \<notin> set (qo_Provider b)" using provider_normal assms(2,3) by (auto simp: plain_key_def)
  then show ?thesis
    using assms(1) assms(2,3) unfolding key [OF assms(2)] key [OF assms(3)] by (auto simp: plain_key_def split_at dest: slot)
qed

section \<open>The invariant\<close>

definition group_known :: "(string \<Rightarrow> string) \<Rightarrow> quotaWindow \<Rightarrow> bool" where
  "group_known sha w \<longleftrightarrow> qw_Group w = ''shared'' \<or> qw_Unmapped w \<or> qw_Model w \<noteq> [] \<or> quotaAntigravityFamily sha w \<noteq> []"

text \<open>What the validation of a snapshot does not check, but every window of a running process has.\<close>

definition plain_window :: "quotaWindow \<Rightarrow> bool" where
  "plain_window w \<longleftrightarrow> plain_key (window_identity w) \<and> disjoint_periods w \<and> (qw_Hidden w \<longrightarrow> \<not> time_IsZero (qw_UpdatedAt w))"

definition window_ok :: "(string \<Rightarrow> string) \<Rightarrow> string \<Rightarrow> quotaWindow \<Rightarrow> bool" where
  "window_ok sha key w \<longleftrightarrow> window_fields_ok w \<and> key = quotaWindowKey (window_identity w) \<and>
     (revocationOnly w \<or> group_known sha w) \<and> slots_ok (sample_belongs key (qw_Seconds w)) (qw_Seconds w) w \<and> plain_window w"

text \<open>What \<open>parseQuotaSignals\<close> ensures of its observations beyond \<open>validQuotaObservation\<close>.\<close>

definition plain_observation :: "(string \<Rightarrow> string) \<Rightarrow> quotaObservation \<Rightarrow> bool" where
  "plain_observation sha ob \<longleftrightarrow> plain_key ob \<and> length (qo_Model ob) \<le> 1024 \<and> (qo_Revoked ob \<or> group_known sha (new_window ob))"

lemma revocationOnly_seconds: "revocationOnly w \<Longrightarrow> qw_Seconds w = 0"
  by (simp add: revocationOnly_def)

lemma window_identity_same:
  assumes "qw_Source w' = qw_Source w" "qw_Provider w' = qw_Provider w" "qw_AuthIndex w' = qw_AuthIndex w"
    "qw_AuthID w' = qw_AuthID w" "qw_Group w' = qw_Group w" "qw_Slot w' = qw_Slot w"
  shows "window_identity w' = window_identity w"
  using assms by (simp add: window_identity_def)

lemma family_same:
  assumes "qw_Provider w' = qw_Provider w" "qw_Seconds w' = qw_Seconds w" "qw_Group w' = qw_Group w" "qw_Slot w' = qw_Slot w"
  shows "quotaAntigravityFamily sha w' = quotaAntigravityFamily sha w"
  using assms by (simp add: quotaAntigravityFamily_def)

lemma group_known_same:
  assumes "qw_Provider w' = qw_Provider w" "qw_Seconds w' = qw_Seconds w" "qw_Group w' = qw_Group w" "qw_Slot w' = qw_Slot w"
    "qw_Unmapped w' = qw_Unmapped w" "qw_Model w' = qw_Model w"
  shows "group_known sha w' = group_known sha w"
  using family_same [OF assms(1-4)] assms by (simp add: group_known_def)

text \<open>A window keeps the invariant when its periods change, within their rules.\<close>

lemma window_ok_same:
  assumes ok: "window_ok sha key w" and same: "same_window w w'" and pos: "0 < qw_Seconds w \<or> w' = w"
    and per: "slots_ok (sample_belongs key (qw_Seconds w)) (qw_Seconds w) w'" "disjoint_periods w'"
  shows "window_ok sha key w'"
proof -
  note f = same_window_fields [OF same]
  have "revocationOnly w' \<or> qw_Seconds w' > 0" "revocationOnly w' \<or> group_known sha w'"
    using ok pos group_known_same [of w' w sha] f revocationOnly_seconds [of w] by (auto simp: window_ok_def window_fields_ok_def)
  then show ?thesis
    using ok per window_identity_same [of w' w] by (simp add: window_ok_def window_fields_ok_def plain_window_def f)
qed

lemma no_periods:
  assumes "window_ok sha key w" "qw_Seconds w \<le> 0"
  shows "qw_Current w = None \<and> qw_Previous w = None"
  using assms by (auto simp: window_ok_def window_fields_ok_def revocationOnly_def)

lemma archive_window_ok:
  assumes "window_ok sha key w"
  shows "window_ok sha key (fst (quotaArchiveResetPeriod w))"
proof (cases "0 < qw_Seconds w")
  case True
  have "slots_ok (sample_belongs key (qw_Seconds w)) (qw_Seconds w) w" "disjoint_periods w"
    using assms unfolding window_ok_def plain_window_def by blast+
  note a = archive_window [OF this]
  show ?thesis by (rule window_ok_same [OF assms]) (use a True in simp_all)
next
  case False
  then have "fst (quotaArchiveResetPeriod w) = w" using no_periods [OF assms] by (simp add: quotaArchiveResetPeriod_def)
  then show ?thesis using assms by simp
qed

lemma window_okD:
  assumes "window_ok sha key w"
  shows "window_fields_ok w" "quotaWindowKey (window_identity w) = key" "revocationOnly w \<or> group_known sha w"
    "slots_ok (sample_belongs key (qw_Seconds w)) (qw_Seconds w) w" "disjoint_periods w" "plain_key (window_identity w)"
    "qw_Hidden w \<Longrightarrow> \<not> time_IsZero (qw_UpdatedAt w)"
  using assms unfolding window_ok_def plain_window_def by blast+

lemma window_ok_build:
  assumes "window_identity w' = window_identity w" "window_fields_ok w" "quotaWindowKey (window_identity w) = key"
    "plain_key (window_identity w)" "length (qw_Name w') \<le> 256" "length (qw_Model w') \<le> 1024" "0 < qw_Seconds w'"
    "qw_Seconds w' \<le> max_seconds" "group_known sha w'" "slots_ok (sample_belongs key (qw_Seconds w')) (qw_Seconds w') w'"
    "disjoint_periods w'" "qw_Hidden w' \<Longrightarrow> \<not> time_IsZero (qw_UpdatedAt w')"
  shows "window_ok sha key w'"
proof -
  have "qw_Provider w' = qw_Provider w" "qw_AuthID w' = qw_AuthID w" "qw_AuthIndex w' = qw_AuthIndex w" "qw_Group w' = qw_Group w"
    "qw_Slot w' = qw_Slot w" "qw_Source w' = qw_Source w"
    using assms(1) by (simp_all add: window_identity_def)
  then show ?thesis using assms by (simp add: window_ok_def window_fields_ok_def plain_window_def)
qed

definition remembered :: "gotime \<Rightarrow> quotaWindow \<Rightarrow> quotaWindow" where
  "remembered r w = (if \<not> time_IsZero r then w\<lparr> qw_Hidden := True, qw_UpdatedAt := r \<rparr> else w)"

lemma remembered_same: "same_window a b \<Longrightarrow> same_window (remembered r a) (remembered r b)"
  by (cases a; cases b; simp add: same_window_def remembered_def)

lemma commit_parts:
  assumes "slots_ok P s w" "disjoint_periods w"
  shows "slots_ok P s (commit_window r w) \<and> disjoint_periods (commit_window r w) \<and> same_window (remembered r w) (commit_window r w)"
proof -
  define v where "v = fst (quotaArchiveResetPeriod w)"
  define u where "u = quotaDropEmptyResetArchive v"
  have v: "slots_ok P s v" "disjoint_periods v" "same_window w v" unfolding v_def using archive_window [OF assms] by blast+
  have u: "slots_ok P s u" "disjoint_periods u" "same_window w u"
    unfolding u_def using drop_archive_window [OF v(1,2)] same_window_trans [OF v(3)] by blast+
  have c: "commit_window r w = remembered r u" by (simp add: commit_window_def remembered_def Let_def flip: v_def u_def)
  have "same_window (remembered r w) (remembered r u)" using u(3) by (rule remembered_same)
  then show ?thesis using u(1,2) unfolding c by (simp add: remembered_def slots_ok_def disjoint_periods_def)
qed

text \<open>An accepted observation of a window, and the windows that it starts from.\<close>

lemma valid_observation_fields:
  assumes "validQuotaObservation ob"
  shows "quotaProvider (qo_Provider ob)" "qo_AuthIndex ob \<noteq> [] \<or> qo_AuthID ob \<noteq> []" "length (qo_AuthID ob) \<le> 512"
    "length (qo_AuthIndex ob) \<le> 512" "qo_Group ob \<noteq> []" "length (qo_Group ob) \<le> 256" "qo_Slot ob \<noteq> []" "length (qo_Slot ob) \<le> 64"
    "length (qo_Name ob) \<le> 256" "\<not> time_IsZero (qo_ObservedAt ob)" "quotaSourceValid (qo_Provider ob) (qo_Source ob)"
  using assms by (auto simp: validQuotaObservation_def Let_def split: if_splits)

lemma valid_observation_seconds:
  assumes "validQuotaObservation ob" "\<not> qo_Revoked ob"
  shows "0 < qo_Seconds ob" "qo_Seconds ob \<le> max_seconds"
  using assms by (auto simp: validQuotaObservation_def Let_def split: if_splits)

lemma identity_of_observation:
  "quotaWindowKey (window_identity (revoked_window ob)) = quotaWindowKey ob" "plain_key (window_identity (revoked_window ob)) = plain_key ob"
  by (simp_all add: window_identity_def revoked_window_def quotaWindowKey_def plain_key_def Let_def)

lemma revoke_ok:
  assumes v: "validQuotaObservation ob" and p: "plain_observation sha ob"
    and old: "pred_option (window_ok sha (quotaWindowKey ob)) old" and r: "revoke_window ob old = Some w"
  shows "window_ok sha (quotaWindowKey ob) w"
proof -
  note f = valid_observation_fields [OF v]
  show ?thesis
  proof (cases old)
    case None
    then have w: "w = (revoked_window ob)\<lparr> qw_Hidden := True, qw_UpdatedAt := qo_ObservedAt ob \<rparr>"
      using r by (simp add: revoke_window_def)
    have "window_identity w = window_identity (revoked_window ob)" unfolding w by (rule window_identity_same) simp_all
    moreover have "plain_key ob" using p by (simp add: plain_observation_def)
    moreover have "revocationOnly w" using f by (simp add: w revocationOnly_def revoked_window_def)
    moreover have "window_fields_ok w" using f \<open>revocationOnly w\<close> by (simp add: window_fields_ok_def) (auto simp add: w revoked_window_def max_seconds_def)
    moreover have "slots_ok P s w" "disjoint_periods w" for P s by (simp_all add: w revoked_window_def slots_ok_def disjoint_periods_def)
    moreover have "\<not> time_IsZero (qw_UpdatedAt w)" using f by (simp add: w)
    ultimately show ?thesis by (simp add: window_ok_def plain_window_def identity_of_observation)
  next
    case (Some w0)
    then have w: "w = w0\<lparr> qw_Hidden := True, qw_UpdatedAt := qo_ObservedAt ob \<rparr>" using r by (simp add: revoke_window_def split: if_splits)
    have ok: "window_ok sha (quotaWindowKey ob) w0" using old Some by simp
    note o = window_okD [OF ok]
    have rv: "revocationOnly w0 \<Longrightarrow> revocationOnly w" using f by (simp add: w revocationOnly_def)
    have "window_identity w = window_identity w0" unfolding w by (rule window_identity_same) simp_all
    moreover have "group_known sha w = group_known sha w0" unfolding w by (rule group_known_same) simp_all
    moreover have "window_fields_ok w" using o(1) rv by (auto simp: window_fields_ok_def) (simp_all add: w)
    moreover have "slots_ok P s w = slots_ok P s w0" "disjoint_periods w = disjoint_periods w0" "qw_Seconds w = qw_Seconds w0" for P s
      by (simp_all add: w slots_ok_def disjoint_periods_def)
    moreover have "\<not> time_IsZero (qw_UpdatedAt w)" using f by (simp add: w)
    ultimately show ?thesis using o rv unfolding window_ok_def plain_window_def by metis
  qed
qed

lemma observe_ok:
  assumes v: "validQuotaObservation ob" "\<not> qo_Revoked ob" and p: "plain_observation sha ob"
    and old: "pred_option (window_ok sha (quotaWindowKey ob)) old" and r: "observe_window ob old = Some w'"
  shows "window_ok sha (quotaWindowKey ob) w'"
proof -
  let ?key = "quotaWindowKey ob" and ?s = "qo_Seconds ob"
  note f = valid_observation_fields [OF v(1)] and sec = valid_observation_seconds [OF v]
  have P: "sample_belongs ?key ?s ob" using v by (simp add: sample_belongs_def)
  define w where "w = (case old of None \<Rightarrow> new_window ob | Some w \<Rightarrow> w)"
  define hid where "hid \<longleftrightarrow> qw_Hidden w \<and> \<not> time_After (qo_ObservedAt ob) (qw_UpdatedAt w)"
  define rv where "rv = (if hid then qw_UpdatedAt w else zero_time)"
  define u where "u = (if hid then w\<lparr> qw_UpdatedAt := quotaWindowObservedAt w \<rparr> else w)"
  define late where "late \<longleftrightarrow> time_Before (qo_ObservedAt ob) (qw_UpdatedAt u) \<or> (qw_Hidden u \<and> time_Equal (qo_ObservedAt ob) (qw_UpdatedAt u))"
  obtain x where x: "(if late then late_observation ob u
      else current_observation ob (old \<noteq> None) (time_Add (qo_Reset ob) (- of_seconds ?s)) u) = Some x" "w' = commit_window rv x"
    using r unfolding observe_window_def Let_def w_def [symmetric] late_def u_def rv_def hid_def by (auto split: if_splits)
  have fresh: "window_identity (new_window ob) = window_identity (revoked_window ob)" by (rule window_identity_same) (simp_all add: new_window_def)
  have ok: "window_ok sha ?key w"
  proof (cases old)
    case None
    then have w: "w = new_window ob" by (simp add: w_def)
    have "\<not> revocationOnly w" by (simp add: w new_window_def revoked_window_def revocationOnly_def)
    then have "window_fields_ok w" using f sec p
      by (simp add: window_fields_ok_def) (auto simp: w new_window_def revoked_window_def plain_observation_def)
    moreover have "slots_ok Q t w" "disjoint_periods w" "\<not> qw_Hidden w" for Q t
      by (simp_all add: w new_window_def revoked_window_def slots_ok_def disjoint_periods_def)
    moreover have "group_known sha w" "plain_key ob" using p v(2) by (simp_all add: w plain_observation_def)
    ultimately show ?thesis using fresh identity_of_observation by (simp add: window_ok_def plain_window_def w)
  qed (use old in \<open>simp add: w_def\<close>)
  note id = window_okD [OF ok]
  have known: "qo_Provider (window_identity w) = qo_Provider ob" "qo_Group (window_identity w) = qo_Group ob" "qo_Slot (window_identity w) = qo_Slot ob"
    using key_unique [of "window_identity w" ob] id(2,6) p by (simp_all add: plain_observation_def)
  have us: "slots_ok (sample_belongs ?key ?s) ?s u" if "qw_Seconds u = ?s"
    using id(4) that by (simp add: u_def slots_ok_def split: if_splits)
  have ud: "disjoint_periods u" using id(5) by (simp add: u_def disjoint_periods_def)
  have u: "window_identity u = window_identity w" "qw_Seconds u = qw_Seconds w" "qw_Hidden u = qw_Hidden w" "qw_Name u = qw_Name w"
    "qw_Model u = qw_Model w" "qw_Unmapped u = qw_Unmapped w"
    by (simp_all add: u_def window_identity_def)
  have new: "\<not> old \<noteq> None \<Longrightarrow> qw_Seconds u = ?s"
    by (simp add: u(2)) (simp add: w_def new_window_def)
  have gw: "group_known sha w" if "0 < qw_Seconds w" using id(3) that revocationOnly_seconds by auto
  have "slots_ok (sample_belongs ?key ?s) ?s x \<and> disjoint_periods x \<and> same_window (if late then u else labelled ob u) x \<and> (late \<longrightarrow> qw_Seconds u = ?s)"
  proof (cases late)
    case True
    then have l: "late_observation ob u = Some x" using x(1) by simp
    have "qw_Seconds u = ?s"
      using l by (cases rule: late_cases) (auto simp: in_reset_archive_def append_late_def predecessor_def split: if_splits option.splits)
    then show ?thesis using late_ok [where P = "sample_belongs ?key ?s", OF l us ud refl sec(1) P] True by simp
  next
    case False
    then have e: "current_observation ob (old \<noteq> None) (time_Add (qo_Reset ob) (- of_seconds ?s)) u = Some x" using x(1) by (simp only: if_False)
    show ?thesis using current_ok [where P = "sample_belongs ?key ?s", OF e us new P refl sec(1)] False by simp
  qed
  then have xs: "slots_ok (sample_belongs ?key ?s) ?s x" "disjoint_periods x" "same_window (if late then u else labelled ob u) x"
    "late \<Longrightarrow> qw_Seconds u = ?s" by blast+
  note c = commit_parts [OF xs(1,2), of rv, folded x(2)]
  let ?b = "remembered rv (if late then u else labelled ob u)"
  have "same_window ?b (remembered rv x)" using xs(3) by (rule remembered_same)
  then have wb: "same_window ?b w'" using c same_window_trans by blast
  note g = same_window_fields [OF wb]
  have bs: "qw_Seconds ?b = ?s" using xs(4) by (simp add: remembered_def labelled_def)
  have bi: "window_identity ?b = window_identity w" using u(1) by (simp add: remembered_def labelled_def window_identity_def)
  show ?thesis
  proof (rule window_ok_build [OF _ id(1,2,6)])
    show "window_identity w' = window_identity w" using window_identity_same [OF g(1-5,7)] bi by simp
    show "length (qw_Name w') \<le> 256" "length (qw_Model w') \<le> 1024"
      unfolding g using f(9) p u id(1) by (simp_all add: remembered_def labelled_def plain_observation_def window_fields_ok_def)
    show "0 < qw_Seconds w'" "qw_Seconds w' \<le> max_seconds" unfolding g(8) bs using sec by simp_all
    show "group_known sha w'"
    proof (cases late)
      case True
      then show ?thesis
        using group_known_same [of w' w sha] gw bs g u xs(4) sec(1) by (simp add: remembered_def window_identity_def split: if_splits)
    next
      case False
      have "group_known sha (new_window ob)" using p v(2) by (simp add: plain_observation_def)
      moreover have "qw_Provider w' = qo_Provider ob" "qw_Group w' = qo_Group ob" "qw_Slot w' = qo_Slot ob" "qw_Seconds w' = ?s"
        "qw_Unmapped w' = qo_Unmapped ob" "qw_Model w' = qo_Model ob"
        unfolding g using known u(1) False by (simp_all add: remembered_def labelled_def window_identity_def)
      ultimately show ?thesis using group_known_same [of w' "new_window ob" sha] by (simp add: new_window_def revoked_window_def)
    qed
    show "slots_ok (sample_belongs ?key (qw_Seconds w')) (qw_Seconds w') w'" "disjoint_periods w'" unfolding g(8) bs using c by simp_all
    show "qw_Hidden w' \<Longrightarrow> \<not> time_IsZero (qw_UpdatedAt w')"
    proof (cases "time_IsZero rv")
      case True
      then have "\<not> hid" using id(7) by (auto simp: rv_def hid_def split: if_splits)
      then show "qw_Hidden w' \<Longrightarrow> \<not> time_IsZero (qw_UpdatedAt w')"
        unfolding g using True id(7) by (simp add: remembered_def labelled_def u_def split: if_splits)
    next
      case False
      then show "qw_Hidden w' \<Longrightarrow> \<not> time_IsZero (qw_UpdatedAt w')" unfolding g by (simp add: remembered_def)
    qed
  qed
qed

section \<open>The state\<close>

definition windows_ok :: "(string \<Rightarrow> string) \<Rightarrow> (string, quotaWindow) gomap \<Rightarrow> bool" where
  "windows_ok sha ws \<longleftrightarrow> list_all (\<lambda>(key, w). window_ok sha key w) ws \<and> go_wf ws"

definition quota_ok :: "(string \<Rightarrow> string) \<Rightarrow> quotaState \<Rightarrow> bool" where
  "quota_ok sha q \<longleftrightarrow> quota_wf q \<and> windows_ok sha (qs_Windows q)"

lemma windows_ok_put: "windows_ok sha ws \<Longrightarrow> window_ok sha key w \<Longrightarrow> windows_ok sha (go_put key w ws)"
  by (simp add: windows_ok_def list_all_put)

lemma windows_ok_del: "windows_ok sha ws \<Longrightarrow> windows_ok sha (go_del key ws)"
  by (simp add: windows_ok_def list_all_del)

lemma windows_ok_get: "windows_ok sha ws \<Longrightarrow> go_get ws key = Some w \<Longrightarrow> window_ok sha key w"
  by (auto simp: windows_ok_def list_all_iff dest: map_of_SomeD)

lemma windows_ok_elem: "windows_ok sha ws \<Longrightarrow> x \<in> set ws \<Longrightarrow> window_ok sha (fst x) (snd x)"
  by (auto simp: windows_ok_def list_all_iff)

lemma quota_wf_fields:
  "quota_wf (q\<lparr> qs_Windows := ws \<rparr>) = quota_wf q" "quota_wf (q\<lparr> qs_VersionCounter := v \<rparr>) = quota_wf q"
  "quota_wf (q\<lparr> qs_NextPrune := t \<rparr>) = quota_wf q" "quota_wf (q\<lparr> qs_StartedAt := t \<rparr>) = quota_wf q"
  by (simp_all add: quota_wf_def validQuotaFacts_def)

lemma quota_ok_windows: "quota_wf q \<Longrightarrow> windows_ok sha ws \<Longrightarrow> quota_ok sha (q\<lparr> qs_Windows := ws \<rparr>)"
  by (simp add: quota_ok_def quota_wf_fields)

lemma quota_ok_bump: "quota_ok sha q \<Longrightarrow> quota_ok sha (q\<lparr> qs_VersionCounter := v \<rparr>)"
  by (simp add: quota_ok_def quota_wf_fields)

lemma ensure_ok: "pred_option (quota_ok sha) quota \<Longrightarrow> quota_ok sha (ensureQuotaLocked t quota)"
  using ensure_wf [of None t] by (cases quota) (simp_all add: ensureQuotaLocked_def quota_ok_def windows_ok_def)

lemma started_fields:
  "validQuotaObservation (ob\<lparr> qo_CollectionStartedAt := t \<rparr>) = validQuotaObservation ob"
  "quotaWindowKey (ob\<lparr> qo_CollectionStartedAt := t \<rparr>) = quotaWindowKey ob"
  "plain_observation sha (ob\<lparr> qo_CollectionStartedAt := t \<rparr>) = plain_observation sha ob"
  by (simp_all add: validQuotaObservation_def quotaWindowKey_def plain_observation_def plain_key_def new_window_def revoked_window_def Let_def)

lemma apply_ok:
  assumes "pred_option (quota_ok sha) quota" "plain_observation sha ob"
  shows "pred_option (quota_ok sha) (fst (applyQuotaObservationLocked t ob quota))"
proof (cases "validQuotaObservation ob")
  case False
  then show ?thesis using assms by (simp add: applyQuotaObservationLocked_def)
next
  case True
  define q where "q = ensureQuotaLocked t quota"
  define b where "b = (if time_IsZero (qo_CollectionStartedAt ob) then ob\<lparr> qo_CollectionStartedAt := qs_StartedAt q \<rparr> else ob)"
  define old where "old = go_get (qs_Windows q) (quotaWindowKey ob)"
  define r where "r = (if qo_Revoked b then revoke_window b old else observe_window b old)"
  have q: "quota_ok sha q" unfolding q_def by (rule ensure_ok [OF assms(1)])
  have b: "validQuotaObservation b" "quotaWindowKey b = quotaWindowKey ob" "plain_observation sha b"
    using True assms(2) by (simp_all add: b_def started_fields)
  have old: "pred_option (window_ok sha (quotaWindowKey b)) old"
    using q windows_ok_get by (auto simp: old_def b(2) quota_ok_def option.pred_set)
  have res: "applyQuotaObservationLocked t ob quota = (case r of None \<Rightarrow> (Some q, False)
    | Some w \<Rightarrow> (Some (q\<lparr> qs_Windows := go_put (quotaWindowKey ob) w (qs_Windows q), qs_VersionCounter := qs_VersionCounter q + 1 \<rparr>), True))"
    using True by (simp add: applyQuotaObservationLocked_def Let_def flip: q_def) (simp add: r_def b_def old_def)
  show ?thesis
  proof (cases r)
    case None
    then show ?thesis using q by (simp add: res)
  next
    case (Some w)
    have "window_ok sha (quotaWindowKey b) w"
    proof (cases "qo_Revoked b")
      case True
      then show ?thesis using revoke_ok [OF b(1,3) old] Some by (simp add: r_def)
    next
      case False
      then show ?thesis using observe_ok [OF b(1) _ b(3) old] Some by (simp add: r_def)
    qed
    then have "quota_ok sha (q\<lparr> qs_Windows := go_put (quotaWindowKey ob) w (qs_Windows q) \<rparr>)"
      using q b(2) windows_ok_put by (simp add: quota_ok_def quota_wf_fields)
    from quota_ok_bump [OF this] show ?thesis using Some by (simp add: res)
  qed
qed

section \<open>Advance and expiry\<close>

text \<open>A loop over a map that changes the entry it visits.\<close>

lemma fold_inv:
  assumes "I s" "\<And>x s. x \<in> set xs \<Longrightarrow> I s \<Longrightarrow> I (f x s)"
  shows "I (fold f xs s)"
  using assms by (induction xs arbitrary: s) auto

lemma end_current_ok:
  assumes "window_ok sha key w" "qw_Current w = Some c"
  shows "window_ok sha key (w\<lparr> qw_Previous := Some c, qw_Current := None \<rparr>)"
proof (rule window_ok_same [OF assms(1)])
  note o = window_okD [OF assms(1)]
  show "same_window w (w\<lparr> qw_Previous := Some c, qw_Current := None \<rparr>)"
    by (rule same_window_trans [of _ "w\<lparr> qw_Previous := Some c \<rparr>"]) simp_all
  show "0 < qw_Seconds w \<or> w\<lparr> qw_Previous := Some c, qw_Current := None \<rparr> = w"
    using no_periods [OF assms(1)] assms(2) by (metis leI option.distinct(1))
  show "slots_ok (sample_belongs key (qw_Seconds w)) (qw_Seconds w) (w\<lparr> qw_Previous := Some c, qw_Current := None \<rparr>)"
    using o(4) assms(2) by (simp add: slots_ok_def)
  show "disjoint_periods (w\<lparr> qw_Previous := Some c, qw_Current := None \<rparr>)" by (simp add: disjoint_periods_def)
qed

lemma advance_window_ok:
  assumes "window_ok sha (fst x) (snd x)" "windows_ok sha (fst s)"
  shows "windows_ok sha (fst (advance_window now x s))"
proof -
  obtain key w where x: "x = (key, w)" by (cases x)
  obtain ws ch where s: "s = (ws, ch)" by (cases s)
  obtain v a where v: "quotaArchiveResetPeriod w = (v, a)" by (metis surj_pair)
  have vk: "window_ok sha key v" using archive_window_ok [of sha key w] assms(1) by (simp add: x v)
  define us where "us = (if a then go_put key v ws else ws)"
  have us: "windows_ok sha us" using assms(2) vk windows_ok_put by (simp add: us_def s)
  have "fst (advance_window now x s) = us \<or>
      (\<exists>c. qw_Current v = Some c \<and> fst (advance_window now x s) = go_put key (v\<lparr> qw_Previous := Some c, qw_Current := None \<rparr>) us)"
    by (simp add: advance_window_def x s v us_def split: option.split)
  then show ?thesis using us windows_ok_put [OF us end_current_ok [OF vk]] by auto
qed

lemma advance_ok:
  assumes "pred_option (quota_ok sha) quota"
  shows "pred_option (quota_ok sha) (fst (advanceQuotaCyclesLocked now quota))"
proof (cases quota)
  case None
  then show ?thesis by (simp add: advanceQuotaCyclesLocked_def)
next
  case (Some q)
  have q: "quota_wf q" "windows_ok sha (qs_Windows q)" using assms Some by (simp_all add: quota_ok_def)
  define r where "r = fold (advance_window now) (qs_Windows q) (qs_Windows q, False)"
  have "windows_ok sha (fst r)" unfolding r_def
  proof (rule fold_inv [where I = "\<lambda>s. windows_ok sha (fst s)"])
    show "windows_ok sha (fst (advance_window now x s))" if "x \<in> set (qs_Windows q)" "windows_ok sha (fst s)" for x s
      by (rule advance_window_ok [OF windows_ok_elem [OF q(2) that(1)] that(2)])
  qed (simp add: q)
  from quota_ok_windows [OF q(1) this] quota_ok_bump [OF quota_ok_windows [OF q(1) this]]
  show ?thesis by (simp add: advanceQuotaCyclesLocked_def Some case_prod_unfold flip: r_def)
qed

text \<open>Only the marker of a revocation is left.\<close>

lemma marker_ok:
  assumes "window_ok sha key w" "qw_Hidden w"
  shows "window_ok sha key (w\<lparr> qw_Current := None, qw_Previous := None, qw_Seconds := 0 \<rparr>)"
proof -
  let ?w = "w\<lparr> qw_Current := None, qw_Previous := None, qw_Seconds := 0 \<rparr>"
  note o = window_okD [OF assms(1)]
  have "revocationOnly ?w" using o(7) assms(2) by (simp add: revocationOnly_def)
  moreover have "window_fields_ok ?w" using o(1) calculation by (simp add: window_fields_ok_def max_seconds_def)
  moreover have "window_identity ?w = window_identity w" by (simp add: window_identity_def)
  moreover have "slots_ok P s ?w" "disjoint_periods ?w" for P s by (simp_all add: slots_ok_def disjoint_periods_def)
  ultimately show ?thesis using o(2,6,7) assms(2) by (simp add: window_ok_def plain_window_def)
qed

lemma prune_window_ok:
  assumes "window_ok sha (fst x) (snd x)" "quota_ok sha (pa_quota acc)"
  shows "quota_ok sha (pa_quota (prune_window now x acc))"
proof -
  obtain key w where x: "x = (key, w)" by (cases x)
  let ?q = "pa_quota acc"
  have b: "quota_ok sha (bump (with_windows ws ?q))" if "windows_ok sha ws" for ws
    unfolding bump_def with_windows_def by (rule quota_ok_bump, rule quota_ok_windows) (use assms(2) that in \<open>simp_all add: quota_ok_def\<close>)
  have ws: "windows_ok sha (qs_Windows ?q)" using assms(2) by (simp add: quota_ok_def)
  have "pa_quota (prune_window now x acc) = ?q \<or> pa_quota (prune_window now x acc) = bump (with_windows (go_del key (qs_Windows ?q)) ?q) \<or>
      (qw_Hidden w \<and> pa_quota (prune_window now x acc) =
        bump (with_windows (go_put key (w\<lparr> qw_Current := None, qw_Previous := None, qw_Seconds := 0 \<rparr>) (qs_Windows ?q)) ?q))"
    unfolding prune_window_def x prod.case Let_def by (simp split: option.split)
  then show ?thesis
    using assms b [OF windows_ok_del [OF ws]] b [OF windows_ok_put [OF ws marker_ok]] by (auto simp: x)
qed

lemma fold_del:
  assumes "\<And>x m. f x m = m \<or> f x m = go_del (fst x) m" "list_all P m" "go_wf m"
  shows "list_all P (fold f xs m) \<and> go_wf (fold f xs m) \<and> (\<forall>k. go_get m k = None \<longrightarrow> go_get (fold f xs m) k = None)"
proof (rule fold_inv [where I = "\<lambda>s. list_all P s \<and> go_wf s \<and> (\<forall>k. go_get m k = None \<longrightarrow> go_get s k = None)"])
  fix x s assume "list_all P s \<and> go_wf s \<and> (\<forall>k. go_get m k = None \<longrightarrow> go_get s k = None)"
  then show "list_all P (f x s) \<and> go_wf (f x s) \<and> (\<forall>k. go_get m k = None \<longrightarrow> go_get (f x s) k = None)"
    using assms(1) [of x s] by (auto simp: list_all_del)
qed (use assms in simp_all)

lemma prune_maps_ok:
  assumes "quota_wf q"
  shows "quota_wf (q\<lparr> qs_Facts := prune_facts r now periods (qs_Facts q), qs_Deleted := prune_deleted r now starts (qs_Deleted q) \<rparr>)"
proof -
  have f: "list_all P (prune_facts r now periods m) \<and> go_wf (prune_facts r now periods m) \<and>
      (\<forall>k. go_get m k = None \<longrightarrow> go_get (prune_facts r now periods m) k = None)" if "list_all P m" "go_wf m" for P m
    unfolding prune_facts_def by (rule fold_del [OF _ that]) (auto simp: Let_def)
  have d: "list_all P (prune_deleted r now starts m) \<and> go_wf (prune_deleted r now starts m) \<and>
      (\<forall>k. go_get m k = None \<longrightarrow> go_get (prune_deleted r now starts m) k = None)" if "list_all P m" "go_wf m" for P m
    unfolding prune_deleted_def by (rule fold_del [OF _ that]) (auto simp: Let_def)
  have w: "list_all (\<lambda>(key, f). key = qf_ID f \<and> validQuotaFact f) (qs_Facts q)" "go_wf (qs_Facts q)"
    "list_all (\<lambda>(key, del). key \<noteq> [] \<and> length key \<le> 256 \<and> \<not> time_IsZero del) (qs_Deleted q)" "go_wf (qs_Deleted q)"
    "\<And>id. go_get (qs_Facts q) id = None \<or> go_get (qs_Deleted q) id = None"
    using assms by (simp_all add: quota_wf_def validQuotaFacts_def)
  have "go_get (prune_facts r now periods (qs_Facts q)) id = None \<or> go_get (prune_deleted r now starts (qs_Deleted q)) id = None" for id
    using w(5) [of id] f [OF w(1,2)] d [OF w(3,4)] by auto
  then show ?thesis using f [OF w(1,2)] d [OF w(3,4)] by (simp add: quota_wf_def validQuotaFacts_def)
qed

lemma prune_ok:
  assumes "pred_option (quota_ok sha) quota"
  shows "pred_option (quota_ok sha) (fst (pruneQuotaLocked r now quota))"
proof -
  obtain quota' i where a: "advanceQuotaCyclesLocked now quota = (quota', i)" by (metis surj_pair)
  have ok: "pred_option (quota_ok sha) quota'" using advance_ok [OF assms, of now] by (simp add: a)
  show ?thesis
  proof (cases quota')
    case None
    then show ?thesis by (simp add: pruneQuotaLocked_def a)
  next
    case (Some q)
    define acc where "acc = fold (prune_window now) (qs_Windows q)
      \<lparr> pa_quota = q\<lparr> qs_NextPrune := time_Add now time_Minute \<rparr>, pa_changed = i, pa_starts = [], pa_periods = [] \<rparr>"
    have q: "quota_ok sha q" using ok Some by simp
    have acc: "quota_ok sha (pa_quota acc)" unfolding acc_def
    proof (rule fold_inv [where I = "\<lambda>s. quota_ok sha (pa_quota s)"])
      show "quota_ok sha (pa_quota (prune_window now x s))" if "x \<in> set (qs_Windows q)" "quota_ok sha (pa_quota s)" for x s
        by (rule prune_window_ok [OF windows_ok_elem [OF _ that(1)] that(2)]) (use q in \<open>simp add: quota_ok_def\<close>)
    qed (use q in \<open>simp add: quota_ok_def quota_wf_fields\<close>)
    define q' where "q' = (pa_quota acc)\<lparr> qs_Facts := prune_facts r now (pa_periods acc) (qs_Facts (pa_quota acc)),
      qs_Deleted := prune_deleted r now (pa_starts acc) (qs_Deleted (pa_quota acc)) \<rparr>"
    have q': "quota_ok sha q'" using acc prune_maps_ok [of "pa_quota acc"] by (simp add: q'_def quota_ok_def)
    have "fst (pruneQuotaLocked r now quota) = Some q \<or> fst (pruneQuotaLocked r now quota) = Some q' \<or>
        fst (pruneQuotaLocked r now quota) = Some (bump q')"
      unfolding pruneQuotaLocked_def a Some prod.case option.case Let_def acc_def [symmetric] q'_def [symmetric] by simp
    then show ?thesis using q q' quota_ok_bump [OF q'] by (auto simp: bump_def)
  qed
qed

end
