(* ===== verification/QuotaSnapshots.thy ===== *)
theory QuotaSnapshots
  imports QuotaWindowsInvariant
begin

text \<open>
  Snapshots of the quota ledger: what a running process stores is accepted when it is loaded, and
  merging a snapshot keeps the invariant.  The theorems are about every run of the operations.
\<close>

section \<open>Validation and the invariant\<close>

lemma first_error_None: "first_error check xs = None \<longleftrightarrow> (\<forall>x\<in>set xs. check x = None)"
  by (induction xs) (auto split: option.splits)

lemma check_deletion_None: "check_deletion x = None \<longleftrightarrow> fst x \<noteq> [] \<and> length (fst x) \<le> 256 \<and> \<not> time_IsZero (snd x)"
  by (cases x) (simp add: check_deletion_def not_less)

lemma span_valid:
  assumes "validQuotaPeriodSpan p s" "s \<le> max_seconds"
  shows "span_ok s p"
  using assms by (auto simp: validQuotaPeriodSpan_def span_ok_def Let_def time_Sub_def time_Before_def of_seconds_def
      time_Second_def max_seconds_def MaxInt64_def MinInt64_def)

lemma check_period_ok:
  assumes "s \<le> max_seconds"
  shows "check_period key s p = None \<longleftrightarrow> validQuotaPeriodSpan p s \<and> period_ok (sample_belongs key s) s p"
  using span_valid [OF _ assms] by (auto simp: check_period_def period_ok_def samples_ok_def)

definition spans_valid :: "quotaWindow \<Rightarrow> bool" where
  "spans_valid w \<longleftrightarrow> pred_option (\<lambda>p. validQuotaPeriodSpan p (qw_Seconds w)) (qw_Current w) \<and>
     pred_option (\<lambda>p. validQuotaPeriodSpan p (qw_Seconds w)) (qw_Previous w)"

lemma set_present: "set (List.map_filter (\<lambda>p. p) [a, b]) = {p. a = Some p \<or> b = Some p}"
  by (cases a; cases b) (auto simp: List.map_filter_def)

lemma check_window_ok:
  assumes "plain_window w"
  shows "check_window sha (key, w) = None \<longleftrightarrow> window_ok sha key w \<and> spans_valid w"
proof -
  have "(first_error (check_period key (qw_Seconds w)) (List.map_filter (\<lambda>p. p) [qw_Current w, qw_Previous w]) = None) =
      (slots_ok (sample_belongs key (qw_Seconds w)) (qw_Seconds w) w \<and> spans_valid w)" if "qw_Seconds w \<le> max_seconds"
    unfolding first_error_None set_present using check_period_ok [OF that]
    by (auto simp: slots_ok_def spans_valid_def option.pred_set)
  then show ?thesis
    using assms by (auto simp: check_window_def window_ok_def group_known_def window_fields_ok_def split: if_splits)
qed

lemma window_ok_plain: "window_ok sha key w \<Longrightarrow> plain_window w"
  unfolding window_ok_def by blast

section \<open>Clones and repairs\<close>

definition cloneWindow :: "gotime \<Rightarrow> quotaWindow \<Rightarrow> quotaWindow" where
  "cloneWindow t w = w\<lparr> qw_Current := map_option (clonePeriod t) (qw_Current w), qw_Previous := map_option (clonePeriod t) (qw_Previous w) \<rparr>"

lemma clone_alt: "cloneQuotaSnapshot s = s\<lparr> sn_Windows := map (\<lambda>(key, w). (key, cloneWindow (sn_StartedAt s) w)) (sn_Windows s) \<rparr>"
  by (simp add: cloneQuotaSnapshot_def cloneWindow_def)

lemma clonePeriod_fields [simp]:
  "qp_Samples (clonePeriod t p) = qp_Samples p" "qp_Start (clonePeriod t p) = qp_Start p" "qp_End (clonePeriod t p) = qp_End p"
  "qp_EndedByReset (clonePeriod t p) = qp_EndedByReset p"
  by (simp_all add: clonePeriod_def)

lemma clonePeriod_ok [simp]:
  "period_ok P s (clonePeriod t p) = period_ok P s p" "validQuotaPeriodSpan (clonePeriod t p) s = validQuotaPeriodSpan p s"
  by (simp_all add: period_ok_def samples_ok_def quotaSamplesSorted_def span_ok_def validQuotaPeriodSpan_def)

lemma cloneWindow_same: "same_window w (cloneWindow t w)"
  by (simp add: cloneWindow_def same_window_def)

lemma cloneWindow_periods:
  "slots_ok P s (cloneWindow t w) = slots_ok P s w" "disjoint_periods (cloneWindow t w) = disjoint_periods w"
  "spans_valid (cloneWindow t w) = spans_valid w" "needs_repair (cloneWindow t w) = needs_repair w"
  by (auto simp: cloneWindow_def slots_ok_def disjoint_periods_def spans_valid_def needs_repair_def broken_period_def
      quotaEmptyResetArchive_def quotaSamplesSorted_def option.pred_set split: option.splits)

lemma plain_window_same:
  assumes "plain_window w" "same_window w w'" "disjoint_periods w'"
  shows "plain_window w'"
  using assms window_identity_same [of w' w] by (simp add: plain_window_def same_window_fields [OF assms(2)])

lemma cloneWindow_plain: "plain_window w \<Longrightarrow> plain_window (cloneWindow t w)"
  by (rule plain_window_same [OF _ cloneWindow_same]) (simp_all add: cloneWindow_periods plain_window_def)

lemma cloneWindow_ok:
  assumes "window_ok sha key w"
  shows "window_ok sha key (cloneWindow t w)"
proof (rule window_ok_same [OF assms cloneWindow_same])
  show "0 < qw_Seconds w \<or> cloneWindow t w = w"
  proof (cases "0 < qw_Seconds w")
    case False
    then have "qw_Current w = None" "qw_Previous w = None" using no_periods [OF assms] by simp_all
    then show ?thesis by (cases w) (simp add: cloneWindow_def)
  qed simp
  show "slots_ok (sample_belongs key (qw_Seconds w)) (qw_Seconds w) (cloneWindow t w)" "disjoint_periods (cloneWindow t w)"
    using window_okD(4,5) [OF assms] by (simp_all add: cloneWindow_periods)
qed

lemma repair_same_end:
  assumes "repair_period s x = Some p'"
  obtains p where "x = Some p" "same_span p p'" "validQuotaPeriodSpan p s"
    "list_all P (qp_Samples p) \<Longrightarrow> samples_ok P p'"
proof -
  obtain p where p: "x = Some p" "validQuotaPeriodSpan p s"
      "p' = quotaCompactSamples (p\<lparr> qp_Samples := sort_samples (qp_Samples p) \<rparr>)"
    using assms by (auto simp: repair_period_def split: option.splits if_splits)
  let ?p = "p\<lparr> qp_Samples := sort_samples (qp_Samples p) \<rparr>"
  have "quotaSamplesSorted ?p" by (simp add: quotaSamplesSorted_def sort_samples_def)
  moreover have "list_all Q (qp_Samples ?p) = list_all Q (qp_Samples p)" for Q by (simp add: sort_samples_def list_all_iff)
  moreover have "same_span p ?p" by (simp add: same_span_def)
  ultimately have "same_span p p'" "list_all P (qp_Samples p) \<Longrightarrow> samples_ok P p'"
    using compact_samples(1) [of ?p P] compact_samples(2) [of ?p "\<lambda>_. True"] same_span_trans p(3) by (simp_all add: list_all_iff)
  then show thesis using that p by blast
qed

lemma validSpan_same: "same_span p p' \<Longrightarrow> validQuotaPeriodSpan p' s = validQuotaPeriodSpan p s"
  by (simp add: same_span_def validQuotaPeriodSpan_def)

lemma repair_window_same: "same_window w (repair_window w)"
proof -
  let ?w = "w\<lparr> qw_Current := repair_period (qw_Seconds w) (qw_Current w), qw_Previous := repair_period (qw_Seconds w) (qw_Previous w) \<rparr>"
  have "same_window w ?w" by (rule same_window_trans [of _ "w\<lparr> qw_Current := repair_period (qw_Seconds w) (qw_Current w) \<rparr>"]) simp_all
  moreover have "same_window ?w (repair_window w)" by (simp add: repair_window_def quotaDropEmptyResetArchive_def same_window_def)
  ultimately show ?thesis by (rule same_window_trans)
qed

lemma repair_window_slots:
  "qw_Current (repair_window w) = repair_period (qw_Seconds w) (qw_Current w)"
  "qw_Previous (repair_window w) = repair_period (qw_Seconds w) (qw_Previous w) \<or> qw_Previous (repair_window w) = None"
  by (simp_all add: repair_window_def quotaDropEmptyResetArchive_def)

lemma repair_window_periods:
  shows "spans_valid (repair_window w)" "disjoint_periods w \<Longrightarrow> disjoint_periods (repair_window w)"
    "slots_ok P (qw_Seconds w) w \<Longrightarrow> slots_ok P (qw_Seconds w) (repair_window w)"
proof -
  note sl = repair_window_slots [of w]
  have v: "validQuotaPeriodSpan p' (qw_Seconds w)" if "repair_period (qw_Seconds w) x = Some p'" for x p'
    using that by (rule repair_same_end) (simp add: validSpan_same)
  show "spans_valid (repair_window w)"
    using sl v by (auto simp: spans_valid_def option.pred_set same_window_fields [OF repair_window_same [of w]])
  show "disjoint_periods (repair_window w)" if d: "disjoint_periods w"
    unfolding disjoint_periods_def
  proof (intro allI impI, elim conjE)
    fix c p assume c: "qw_Current (repair_window w) = Some c" and p: "qw_Previous (repair_window w) = Some p" "\<not> qp_EndedByReset p"
    obtain c0 where c0: "qw_Current w = Some c0" "same_span c0 c" using c sl(1) repair_same_end by metis
    obtain p0 where p0: "qw_Previous w = Some p0" "same_span p0 p" using p sl(2) repair_same_end by (metis option.distinct(1))
    show "\<not> time_After (qp_End p) (qp_Start c)" using d c0 p0 p(2) by (auto simp: disjoint_periods_def same_span_def)
  qed
  have per: "period_ok P (qw_Seconds w) p'" if "repair_period (qw_Seconds w) x = Some p'" "pred_option (period_ok P (qw_Seconds w)) x" for x p'
    using that(1)
  proof (rule repair_same_end [where P = P])
    fix p assume p: "x = Some p" "same_span p p'" "list_all P (qp_Samples p) \<Longrightarrow> samples_ok P p'"
    have "period_ok P (qw_Seconds w) p" using that(2) p(1) by simp
    then show ?thesis using p(2,3) span_ok_same [OF p(2)] by (simp add: period_ok_def samples_ok_def)
  qed
  show "slots_ok P (qw_Seconds w) (repair_window w)" if "slots_ok P (qw_Seconds w) w"
    using that sl per by (auto simp: slots_ok_def option.pred_set)
qed

text \<open>The repair of a snapshot, entry by entry.\<close>

definition repaired :: "(quotaWindow \<Rightarrow> quotaWindow) \<Rightarrow> string \<times> quotaWindow \<Rightarrow> string \<times> quotaWindow" where
  "repaired C = (\<lambda>(key, w). (key, if needs_repair w then repair_window (C w) else C w))"

definition repair_entry :: "string \<times> quotaWindow \<Rightarrow> (string, quotaWindow) gomap \<Rightarrow> (string, quotaWindow) gomap" where
  "repair_entry = (\<lambda>(key, w) ws. if needs_repair w then go_put key (repair_window (the (go_get ws key))) ws else ws)"

lemma put_in_middle: "k \<notin> fst ` set ys \<Longrightarrow> go_put k v (ys @ (k, u) # zs) = ys @ (k, v) # zs"
  by (induction ys) auto

lemma repair_entries:
  assumes "go_wf (ys @ xs)"
  shows "fold repair_entry xs (map (repaired C) ys @ map (\<lambda>(k, w). (k, C w)) xs) = map (repaired C) (ys @ xs)"
  using assms
proof (induction xs arbitrary: ys)
  case (Cons x xs)
  obtain k w where x: "x = (k, w)" by (cases x)
  let ?zs = "map (\<lambda>(k, w). (k, C w)) xs"
  have k: "k \<notin> fst ` set (map (repaired C) ys)" using Cons.prems by (auto simp: x repaired_def image_iff)
  then have g: "go_get (map (repaired C) ys @ (k, C w) # ?zs) k = Some (C w)"
    by (simp add: map_add_def map_of_eq_None_iff [THEN iffD2])
  have "repair_entry x (map (repaired C) ys @ (k, C w) # ?zs) = map (repaired C) (ys @ [x]) @ ?zs"
    using g put_in_middle [OF k] by (simp add: repair_entry_def x) (simp add: repaired_def)
  then show ?case using Cons.IH [of "ys @ [x]"] Cons.prems by (simp add: x)
qed simp

lemma repair_alt:
  assumes "go_wf (sn_Windows s)"
  shows "repairQuotaPeriods (Some s) = Some (if list_ex (\<lambda>(_, w). needs_repair w) (sn_Windows s)
    then s\<lparr> sn_Windows := map (repaired (cloneWindow (sn_StartedAt s))) (sn_Windows s) \<rparr> else s)"
proof -
  have f: "fold (\<lambda>(key, w) out. if needs_repair w
      then out\<lparr> sn_Windows := go_put key (repair_window (the (go_get (sn_Windows out) key))) (sn_Windows out) \<rparr> else out) xs t =
    t\<lparr> sn_Windows := fold repair_entry xs (sn_Windows t) \<rparr>" for xs and t :: quotaSnapshot
    by (induction xs arbitrary: t) (auto simp: repair_entry_def)
  show ?thesis
    using repair_entries [of "[]" "sn_Windows s" "cloneWindow (sn_StartedAt s)"] assms
    by (simp add: repairQuotaPeriods_def Let_def f clone_alt)
qed

definition plain_snapshot :: "quotaSnapshot \<Rightarrow> bool" where
  "plain_snapshot s \<longleftrightarrow> list_all (\<lambda>(_, w). plain_window w) (sn_Windows s) \<and> go_wf (sn_Windows s)"

lemma repaired_keys [simp]: "map fst (map (repaired C) ws) = map fst ws" "fst (repaired C x) = fst x"
  by (auto simp: repaired_def split: prod.splits)

lemma repaired_plain:
  assumes "plain_window w"
  shows "plain_window (snd (repaired (cloneWindow t) (key, w)))"
proof -
  have c: "plain_window (cloneWindow t w)" by (rule cloneWindow_plain [OF assms])
  then have "plain_window (repair_window (cloneWindow t w))"
    by (rule plain_window_same [OF _ repair_window_same]) (use c in \<open>simp add: repair_window_periods plain_window_def\<close>)
  then show ?thesis using c by (simp add: repaired_def)
qed

lemma repair_plain:
  assumes "plain_snapshot s" "repairQuotaPeriods (Some s) = Some s'"
  shows "plain_snapshot s'" "sn_Version s' = sn_Version s" "sn_Facts s' = sn_Facts s" "sn_Deleted s' = sn_Deleted s"
proof -
  have wf: "go_wf (sn_Windows s)" using assms(1) by (simp add: plain_snapshot_def)
  let ?r = "s\<lparr> sn_Windows := map (repaired (cloneWindow (sn_StartedAt s))) (sn_Windows s) \<rparr>"
  have s': "s' = s \<or> s' = ?r" using assms(2) repair_alt [OF wf] by (simp split: if_splits)
  have "plain_window (snd (repaired (cloneWindow (sn_StartedAt s)) x))" if "x \<in> set (sn_Windows s)" for x
    using that assms(1) repaired_plain [of "snd x" _ "fst x"] by (auto simp: plain_snapshot_def list_all_iff)
  then have "list_all (\<lambda>(_, w). plain_window w) (sn_Windows ?r)" by (simp add: list_all_iff case_prod_unfold)
  moreover have "go_wf (sn_Windows ?r)" using wf by (simp add: comp_def)
  ultimately have "plain_snapshot ?r" unfolding plain_snapshot_def by blast
  then show "plain_snapshot s'" using s' assms(1) by metis
  have "sn_Version ?r = sn_Version s" "sn_Facts ?r = sn_Facts s" "sn_Deleted ?r = sn_Deleted s" by simp_all
  then show "sn_Version s' = sn_Version s" "sn_Facts s' = sn_Facts s" "sn_Deleted s' = sn_Deleted s" using s' by metis+
qed

lemma repair_window_ok:
  assumes "window_ok sha key w"
  shows "window_ok sha key (repair_window w)"
proof (cases "0 < qw_Seconds w")
  case True
  show ?thesis
    by (rule window_ok_same [OF assms repair_window_same])
      (use True window_okD(4,5) [OF assms] in \<open>simp_all add: repair_window_periods\<close>)
next
  case False
  then have "qw_Current w = None" "qw_Previous w = None" using no_periods [OF assms] by simp_all
  then have "repair_window w = w"
    by (cases w) (simp add: repair_window_def repair_period_def quotaDropEmptyResetArchive_def quotaEmptyResetArchive_def)
  then show ?thesis using assms by simp
qed

lemma repaired_valid:
  assumes "window_ok sha key w"
  shows "check_window sha (repaired (cloneWindow t) (key, w)) = None"
proof -
  let ?c = "cloneWindow t w"
  have c: "window_ok sha key ?c" by (rule cloneWindow_ok [OF assms])
  have valid: "check_window sha (key, v) = None" if "window_ok sha key v" "spans_valid v" for v
    using check_window_ok [OF window_ok_plain [OF that(1)]] that by simp
  have "spans_valid w" if "\<not> needs_repair w"
    using that by (auto simp: needs_repair_def broken_period_def spans_valid_def option.pred_set split: option.splits)
  then show ?thesis
    using valid [OF c] valid [OF repair_window_ok [OF c]] by (simp add: repaired_def cloneWindow_periods repair_window_periods)
qed

section \<open>What is stored can be loaded\<close>

lemma live_snapshot_loads:
  assumes ok: "quota_ok sha q" and cur: "current = None \<or> current = Some q"
  defines "stored \<equiv> cloneQuotaSnapshot (live_snapshot q)"
  shows "validateQuotaSnapshot sha (repairQuotaPeriods (Some stored)) current = None" "plain_snapshot stored"
proof -
  let ?t = "qs_StartedAt q"
  have wf: "quota_wf q" and ws: "windows_ok sha (qs_Windows q)" using ok by (simp_all add: quota_ok_def)
  have st: "sn_Windows stored = map (\<lambda>(key, w). (key, cloneWindow ?t w)) (qs_Windows q)" "sn_StartedAt stored = ?t"
    "sn_Version stored = 1" "sn_Facts stored = qs_Facts q" "sn_Deleted stored = qs_Deleted q"
    by (simp_all add: stored_def clone_alt live_snapshot_def)
  have keys: "go_wf (sn_Windows stored)" using ws by (simp add: st windows_ok_def comp_def case_prod_unfold)
  have el: "window_ok sha key (cloneWindow ?t w)" if "(key, w) \<in> set (qs_Windows q)" for key w
    using windows_ok_elem [OF ws that] cloneWindow_ok by simp
  show "plain_snapshot stored"
    using keys window_ok_plain [OF el] by (auto simp: plain_snapshot_def st list_all_iff)
  obtain s' where s': "repairQuotaPeriods (Some stored) = Some s'" using repair_alt [OF keys] by simp
  note r = repair_plain [OF \<open>plain_snapshot stored\<close> s']
  have re: "check_window sha (repaired (cloneWindow ?t) x) = None" if "x \<in> set (sn_Windows stored)" for x
    using that el repaired_valid by (auto simp: st)
  have ne: "check_window sha x = None" if x: "x \<in> set (sn_Windows stored)" "\<not> needs_repair (snd x)" for x
  proof -
    obtain key w where w: "(key, w) \<in> set (qs_Windows q)" "x = (key, cloneWindow ?t w)" using x(1) by (auto simp: st)
    have "spans_valid (cloneWindow ?t w)"
      using x(2) by (auto simp: w(2) needs_repair_def broken_period_def spans_valid_def option.pred_set split: option.splits)
    then show ?thesis using check_window_ok [OF window_ok_plain [OF el [OF w(1)]]] el [OF w(1)] by (simp add: w(2))
  qed
  have fw: "first_error (check_window sha) (sn_Windows s') = None"
  proof (cases "list_ex (\<lambda>(_, w). needs_repair w) (sn_Windows stored)")
    case True
    then have "s' = stored\<lparr> sn_Windows := map (repaired (cloneWindow (sn_StartedAt stored))) (sn_Windows stored) \<rparr>"
      using s' repair_alt [OF keys] by (simp only: if_True option.inject)
    then have "sn_Windows s' = map (repaired (cloneWindow ?t)) (sn_Windows stored)" by (simp add: st(2))
    then show ?thesis using re by (auto simp: first_error_None)
  next
    case False
    then have "s' = stored" using s' repair_alt [OF keys] by (simp only: if_False option.inject)
    then show ?thesis using ne False by (auto simp: first_error_None list_ex_iff)
  qed
  have fd: "first_error check_deletion (qs_Deleted q) = None"
    using wf by (auto simp: first_error_None check_deletion_None quota_wf_def validQuotaFacts_def list_all_iff)
  have fact: "check_fact current x = None" if "x \<in> set (qs_Facts q)" for x
  proof -
    obtain key f where x: "x = (key, f)" by (cases x)
    have "validQuotaFacts q current"
      using wf_valid [OF wf] wf cur by (auto simp: quota_wf_def)
    from this [unfolded validQuotaFacts_def] have "key = qf_ID f \<and> validQuotaFact f \<and> (case current of None \<Rightarrow> True
        | Some c \<Rightarrow> (case go_get (qs_Facts c) key of None \<Rightarrow> True | Some old \<Rightarrow> quotaFactsEqual old f))"
      using that x by (auto simp: list_all_iff)
    then show ?thesis by (auto simp: check_fact_def x split: option.splits)
  qed
  have "first_error (check_fact current) (qs_Facts q) = None" using fact by (simp add: first_error_None)
  then show "validateQuotaSnapshot sha (repairQuotaPeriods (Some stored)) current = None"
    using r(2-4) st fw fd by (simp add: validateQuotaSnapshot_def s')
qed

section \<open>Merging keeps the invariant\<close>

lemma install_ok:
  assumes "slots_ok P (qw_Seconds w) w" "disjoint_periods w" "0 < qw_Seconds w" "span_ok (qw_Seconds w) p"
  shows "slots_ok P (qw_Seconds w) (install_previous p w) \<and> disjoint_periods (install_previous p w) \<and> same_window w (install_previous p w)"
proof (cases "qw_Current w")
  case None
  then show ?thesis using assms by (simp add: install_previous_def)
next
  case (Some c)
  define e where "e = (if quotaResetDriftIsSmall (qp_End p) (qp_Start c) (qw_Seconds w) then qp_Start c else qp_End p)"
  define copy where "copy = (if \<not> qp_EndedByReset p then p\<lparr> qp_End := e, qp_Samples := [], qp_Start := time_Add e (- of_seconds (qw_Seconds w)) \<rparr>
    else p\<lparr> qp_End := e, qp_Samples := [] \<rparr>)"
  define A where "A \<longleftrightarrow> (case qw_Previous w of None \<Rightarrow> True
    | Some pr \<Rightarrow> time_After (qp_End p) (qp_End pr) \<and> \<not> quotaResetDriftIsSmall (qp_End p) (qp_End pr) (qw_Seconds w)) \<and>
    quotaPeriodPrecedes (qp_End p) (qp_Start c) (qw_Seconds w)"
  have eq: "install_previous p w = (if A \<and> time_Before (qp_Start copy) (qp_End copy) then w\<lparr> qw_Previous := Some copy \<rparr> else w)"
    unfolding install_previous_def Some option.case Let_def A_def copy_def e_def by simp
  show ?thesis
  proof (cases "A \<and> time_Before (qp_Start copy) (qp_End copy)")
    case True
    then have "span_ok (qw_Seconds w) copy" by (simp add: span_ok_def copy_def time_Add_def)
    moreover have "samples_ok P copy" by (simp add: copy_def samples_ok_def quotaSamplesSorted_def)
    moreover have "\<not> time_After (qp_End copy) (qp_Start c)"
      using True by (auto simp: A_def copy_def e_def quotaPeriodPrecedes_def time_After_def)
    ultimately show ?thesis using True assms(1) Some by (simp add: eq slots_ok_def disjoint_periods_def period_ok_def)
  next
    case False
    then have "install_previous p w = w" unfolding eq by (rule if_not_P)
    then show ?thesis using assms by simp
  qed
qed

lemma append_all_ok:
  assumes "period_ok P s t" "list_all P xs"
  shows "period_ok P s (fold (\<lambda>sample t. append_sample t sample c) xs t) \<and> same_span t (fold (\<lambda>sample t. append_sample t sample c) xs t)"
proof -
  let ?t = "fold (\<lambda>sample t. append_sample t sample c) xs t"
  have "samples_ok P ?t \<and> same_span t ?t"
    using append_samples_ok [of P t xs "\<lambda>_ _. True" c] assms by (simp add: period_ok_def)
  then show ?thesis using assms span_ok_same [of t ?t s] by (simp add: period_ok_def)
qed

lemma merge_target_some:
  assumes "merge_target w p = Some s"
  obtains x where "slot_period w s = Some x"
proof -
  define D where "D = (\<lambda>s. case slot_period w s of None \<Rightarrow> False | Some x \<Rightarrow> quotaResetDriftIsSmall (qp_End x) (qp_End p) (qw_Seconds w))"
  define S where "S = (\<lambda>s. quotaPeriodsShareObservedWindow (slot_period w s) p)"
  define xs where "xs = [PreviousSlot, CurrentSlot]"
  have m: "merge_target w p = (case List.find D xs of Some s \<Rightarrow> Some s | None \<Rightarrow> (case filter S xs of [s] \<Rightarrow> Some s | _ \<Rightarrow> None))"
    unfolding merge_target_def D_def S_def xs_def by (rule refl)
  have "D s \<or> S s"
  proof (cases "List.find D xs")
    case None
    then have "filter S xs = [s]" using assms unfolding m by (simp split: list.splits)
    then have "s \<in> set (filter S xs)" by simp
    then show ?thesis by simp
  next
    case (Some s')
    then have "s' = s" using assms unfolding m by simp
    then show ?thesis using Some by (auto simp: find_Some_iff)
  qed
  then show thesis using that by (auto simp: D_def S_def quotaPeriodsShareObservedWindow_def split: option.splits)
qed

lemma merge_period_ok:
  assumes "slots_ok P (qw_Seconds w) w" "disjoint_periods w" "0 < qw_Seconds w" "pred_option (period_ok P (qw_Seconds w)) x"
  shows "slots_ok P (qw_Seconds w) (merge_period x w) \<and> disjoint_periods (merge_period x w) \<and> same_window w (merge_period x w)"
proof (cases x)
  case None
  then show ?thesis using assms by (simp add: merge_period_def)
next
  case (Some p)
  define v where "v = install_previous p w"
  have p: "span_ok (qw_Seconds w) p" "list_all P (qp_Samples p)" using assms(4) Some by (simp_all add: period_ok_def samples_ok_def)
  have v: "slots_ok P (qw_Seconds w) v" "disjoint_periods v" "same_window w v" unfolding v_def using install_ok [OF assms(1-3) p(1)] by blast+
  show ?thesis
  proof (cases "merge_target v p")
    case None
    then show ?thesis using v by (simp add: merge_period_def Some Let_def flip: v_def)
  next
    case s: (Some s)
    obtain y where y: "slot_period v s = Some y" using merge_target_some [OF s] by blast
    define y' where "y' = fold (\<lambda>sample t. append_sample t sample (qp_CollectionStartedAt p)) (qp_Samples p) y"
    have m: "merge_period x w = set_slot s y' v" by (simp add: merge_period_def Some Let_def s y y'_def flip: v_def)
    have "period_ok P (qw_Seconds w) y" using y v(1) by (cases s) (simp_all add: slots_ok_def)
    note a = append_all_ok [where P = P, OF this p(2), of "qp_CollectionStartedAt p", folded y'_def]
    have "slots_ok P (qw_Seconds w) (set_slot s y' v) \<and> disjoint_periods (set_slot s y' v)"
    proof (cases s)
      case CurrentSlot
      then show ?thesis using slots_replace(1) [OF v(1,2), of y y'] y a by simp
    next
      case PreviousSlot
      then show ?thesis using slots_replace(2) [OF v(1,2), of y y'] y a by simp
    qed
    moreover have "same_window w (set_slot s y' v)" by (rule same_window_trans [OF v(3)]) (cases s; simp)
    ultimately show ?thesis unfolding m by blast
  qed
qed

text \<open>The newer revocation on the longer history.\<close>

lemma hide_ok:
  assumes "window_ok sha key w" "0 < qw_Seconds w" "\<not> time_IsZero t"
  shows "window_ok sha key (w\<lparr> qw_UpdatedAt := t, qw_Hidden := True \<rparr>)"
proof -
  let ?w = "w\<lparr> qw_UpdatedAt := t, qw_Hidden := True \<rparr>"
  note o = window_okD [OF assms(1)]
  have "group_known sha w" using o(3) assms(2) revocationOnly_seconds by auto
  then have g: "group_known sha ?w" using group_known_same [of ?w w sha] by simp
  have i: "window_identity ?w = window_identity w" by (simp add: window_identity_def)
  have p: "slots_ok P s ?w = slots_ok P s w" "disjoint_periods ?w = disjoint_periods w" for P s
    by (simp_all add: slots_ok_def disjoint_periods_def)
  show ?thesis
    by (rule window_ok_build [OF i o(1,2,6)]) (use o g p assms(2,3) in \<open>simp_all add: window_fields_ok_def\<close>)
qed

lemma merge_history_ok:
  assumes w: "window_ok sha key w" and inc: "window_ok sha key incoming"
  shows "window_ok sha key (mergeQuotaWindowHistory w incoming)"
proof -
  define sw where "sw \<longleftrightarrow> qw_Hidden w \<and> qw_Seconds incoming > 0 \<and>
    (qw_Seconds w = 0 \<or> time_After (quotaWindowObservedAt incoming) (quotaWindowObservedAt w))"
  define a where "a = (if sw then incoming\<lparr> qw_UpdatedAt := qw_UpdatedAt w, qw_Hidden := True \<rparr> else w)"
  define b where "b = (if sw then w else incoming)"
  have a: "window_ok sha key a"
    using hide_ok [OF inc, of "qw_UpdatedAt w"] window_okD(7) [OF w] w by (simp add: a_def sw_def)
  have b: "window_ok sha key b" using w inc by (simp add: b_def)
  have m: "mergeQuotaWindowHistory w incoming = (if qw_Seconds a \<noteq> qw_Seconds b then a
      else merge_period (qw_Current b) (merge_period (qw_Previous b) a))"
  proof -
    have pair: "(if sw then (incoming\<lparr> qw_UpdatedAt := qw_UpdatedAt w, qw_Hidden := True \<rparr>, w) else (w, incoming)) = (a, b)"
      unfolding a_def b_def by (rule if_split [THEN iffD2]) simp
    show ?thesis unfolding mergeQuotaWindowHistory_def Let_def sw_def [symmetric] pair prod.case by simp
  qed
  show ?thesis
  proof (cases "qw_Seconds a = qw_Seconds b \<and> 0 < qw_Seconds a")
    case True
    let ?s = "qw_Seconds a"
    let ?P = "sample_belongs key ?s"
    note pa = window_okD(4,5) [OF a] and pb = window_okD(4) [OF b]
    have bp: "pred_option (period_ok ?P ?s) (qw_Previous b)" "pred_option (period_ok ?P ?s) (qw_Current b)"
      using pb True by (simp_all add: slots_ok_def)
    let ?v = "merge_period (qw_Previous b) a"
    note v = merge_period_ok [where P = ?P and w = a, OF pa conjunct2 [OF True] bp(1)]
    have sv: "qw_Seconds ?v = ?s" using v same_window_fields(8) by blast
    have "slots_ok ?P ?s (merge_period (qw_Current b) ?v) \<and> disjoint_periods (merge_period (qw_Current b) ?v) \<and>
        same_window ?v (merge_period (qw_Current b) ?v)"
      using merge_period_ok [where P = ?P and w = ?v and x = "qw_Current b"] v bp(2) True by (simp add: sv)
    moreover have "mergeQuotaWindowHistory w incoming = merge_period (qw_Current b) ?v" using True unfolding m by simp
    ultimately show ?thesis using window_ok_same [OF a same_window_trans [OF conjunct2 [OF conjunct2 [OF v]]]] True by simp
  next
    case False
    have "qw_Current b = None \<and> qw_Previous b = None" if "qw_Seconds a = qw_Seconds b"
      using no_periods [OF b] that False by simp
    then have "mergeQuotaWindowHistory w incoming = a" unfolding m by (auto simp: merge_period_def)
    then show ?thesis using a by simp
  qed
qed

lemma merge_window_ok:
  assumes "window_ok sha (fst x) (snd x)" "windows_ok sha ws"
  shows "windows_ok sha (merge_window x ws)"
proof -
  obtain key w where x: "x = (key, w)" by (cases x)
  have w: "window_ok sha key w" using assms(1) by (simp add: x)
  have "window_ok sha key (mergeQuotaWindowHistory w old)" "window_ok sha key (mergeQuotaWindowHistory old w)"
    if "go_get ws key = Some old" for old
    using merge_history_ok w windows_ok_get [OF assms(2) that] by blast+
  then have "\<exists>v. window_ok sha key v \<and> merge_window x ws = go_put key (fst (quotaArchiveResetPeriod v)) ws"
    using w by (auto simp: merge_window_def x Let_def split: option.split)
  then show ?thesis using windows_ok_put [OF assms(2)] archive_window_ok by metis
qed

text \<open>Facts and deletions of the snapshot.\<close>

definition merge_deletion :: "string \<times> gotime \<Rightarrow> (string, gotime) gomap \<times> (string, quotaFact) gomap \<Rightarrow> (string, gotime) gomap \<times> (string, quotaFact) gomap" where
  "merge_deletion = (\<lambda>(key, stamp) (deleted, facts).
     (if time_After stamp (go_getd zero_time deleted key) then go_put key stamp deleted else deleted, go_del key facts))"

definition merge_fact :: "(string, gotime) gomap \<Rightarrow> string \<times> quotaFact \<Rightarrow> (string, quotaFact) gomap \<Rightarrow> (string, quotaFact) gomap" where
  "merge_fact deleted = (\<lambda>(key, f) facts. if go_get deleted key = None then go_put key f facts else facts)"

definition maps_ok :: "(string, gotime) gomap \<Rightarrow> (string, quotaFact) gomap \<Rightarrow> bool" where
  "maps_ok deleted facts \<longleftrightarrow> list_all (\<lambda>(key, f). key = qf_ID f \<and> validQuotaFact f) facts \<and> go_wf facts \<and>
     list_all (\<lambda>x. check_deletion x = None) deleted \<and> go_wf deleted \<and> (\<forall>id. go_get facts id = None \<or> go_get deleted id = None)"

lemma maps_ok_wf: "quota_wf q = maps_ok (qs_Deleted q) (qs_Facts q)"
  by (auto simp: quota_wf_def validQuotaFacts_def maps_ok_def check_deletion_None case_prod_unfold)

lemma merge_deletion_ok:
  assumes "maps_ok (fst s) (snd s)" "check_deletion x = None"
  shows "maps_ok (fst (merge_deletion x s)) (snd (merge_deletion x s))"
proof -
  obtain key stamp d f where x: "x = (key, stamp)" "s = (d, f)" by (metis surj_pair)
  show ?thesis using assms by (auto simp: x merge_deletion_def maps_ok_def list_all_put list_all_del)
qed

lemma merge_fact_ok:
  assumes "maps_ok d fs" "fst x = qf_ID (snd x) \<and> validQuotaFact (snd x)"
  shows "maps_ok d (merge_fact d x fs)"
  using assms by (cases x) (auto simp: merge_fact_def maps_ok_def list_all_put)

lemma check_fact_valid: "check_fact c x = None \<Longrightarrow> fst x = qf_ID (snd x) \<and> validQuotaFact (snd x)"
  by (cases x) (auto simp: check_fact_def split: if_splits)

lemma validated:
  assumes "validateQuotaSnapshot sha (Some s) current = None"
  shows "x \<in> set (sn_Facts s) \<Longrightarrow> check_fact current x = None" "y \<in> set (sn_Deleted s) \<Longrightarrow> check_deletion y = None"
    "z \<in> set (sn_Windows s) \<Longrightarrow> check_window sha z = None"
  using assms by (auto simp: validateQuotaSnapshot_def first_error_None split: if_splits option.splits)

lemma merge_ok:
  assumes ok: "pred_option (quota_ok sha) quota" and plain: "pred_option plain_snapshot snapshot"
  shows "pred_option (quota_ok sha) (fst (mergeQuotaSnapshotLocked sha t snapshot quota))"
proof (cases "repairQuotaPeriods snapshot")
  case None
  then show ?thesis using ok by (simp add: mergeQuotaSnapshotLocked_def)
next
  case (Some s)
  show ?thesis
  proof (cases "validateQuotaSnapshot sha (Some s) quota = None")
    case False
    then show ?thesis using ok by (simp add: mergeQuotaSnapshotLocked_def Some)
  next
    case True
    note val = validated [OF True]
    obtain s0 where s0: "snapshot = Some s0" using Some by (cases snapshot) (simp_all add: repairQuotaPeriods_def)
    have ps: "plain_snapshot s" using repair_plain(1) [of s0 s] plain Some by (simp add: s0)
    define copy where "copy = cloneQuotaSnapshot s"
    have cp: "sn_Facts copy = sn_Facts s" "sn_Deleted copy = sn_Deleted s"
      "sn_Windows copy = map (\<lambda>(key, w). (key, cloneWindow (sn_StartedAt s) w)) (sn_Windows s)"
      by (simp_all add: copy_def clone_alt)
    define q0 where "q0 = ensureQuotaLocked t quota"
    define q where "q = (if time_Before (qs_StartedAt q0) (sn_StartedAt copy) then q0\<lparr> qs_StartedAt := sn_StartedAt copy \<rparr> else q0)"
    have q0: "quota_ok sha q0" unfolding q0_def by (rule ensure_ok [OF ok])
    have q: "quota_wf q" "windows_ok sha (qs_Windows q)" using q0 by (simp_all add: q_def quota_ok_def quota_wf_fields)
    define df where "df = fold merge_deletion (sn_Deleted copy) (qs_Deleted q, qs_Facts q)"
    have df: "maps_ok (fst df) (snd df)" unfolding df_def
      by (rule fold_inv [where I = "\<lambda>s. maps_ok (fst s) (snd s)"])
        (use q(1) val(2) merge_deletion_ok in \<open>simp_all add: maps_ok_wf cp\<close>)
    define fs where "fs = fold (merge_fact (fst df)) (sn_Facts copy) (snd df)"
    have fs: "maps_ok (fst df) fs" unfolding fs_def cp
      by (rule fold_inv [where I = "maps_ok (fst df)", OF df]) (rule merge_fact_ok, assumption, rule check_fact_valid [OF val(1)])
    define ws where "ws = fold merge_window (sn_Windows copy) (qs_Windows q)"
    have "window_ok sha (fst x) (snd x)" if "x \<in> set (sn_Windows copy)" for x
    proof -
      obtain key w where w: "x = (key, cloneWindow (sn_StartedAt s) w)" "(key, w) \<in> set (sn_Windows s)" using \<open>x \<in> _\<close> by (auto simp: cp)
      have "plain_window w" using ps w(2) by (auto simp: plain_snapshot_def list_all_iff)
      then have "window_ok sha key w" using check_window_ok val(3) [OF w(2)] by blast
      then show ?thesis using cloneWindow_ok by (simp add: w(1))
    qed
    then have ws: "windows_ok sha ws" unfolding ws_def
      by (intro fold_inv [where I = "windows_ok sha"] merge_window_ok) (use q(2) in simp_all)
    have "fst (mergeQuotaSnapshotLocked sha t snapshot quota) = Some (q\<lparr> qs_Deleted := fst df, qs_Facts := fs, qs_Windows := ws,
        qs_VersionCounter := qs_VersionCounter q + 1 \<rparr>)"
      unfolding mergeQuotaSnapshotLocked_def Some option.case True Let_def copy_def [symmetric] q0_def [symmetric] q_def [symmetric]
        merge_deletion_def [symmetric] df_def [symmetric]
      by (cases df) (simp add: fs_def merge_fact_def ws_def)
    then show ?thesis using fs ws by (simp add: quota_ok_def maps_ok_wf)
  qed
qed

section \<open>Every run\<close>

datatype quota_op =
    AddFact string RequestDetail
  | RemoveFact RequestDetail
  | Observe quotaObservation
  | Advance gotime
  | Prune gotime
  | MergeSnapshot "quotaSnapshot option"

record quotaContext =
  qc_digest :: "requestDedupKey \<Rightarrow> string"
  qc_sha :: "string \<Rightarrow> string"
  qc_startedAt :: gotime
  qc_retention :: duration

fun quota_step :: "quotaContext \<Rightarrow> quota_op \<Rightarrow> quotaState option \<Rightarrow> quotaState option" where
  "quota_step c (AddFact api d) q = addQuotaFactLocked (qc_digest c) (qc_startedAt c) api d q"
| "quota_step c (RemoveFact d) q = fst (removeQuotaFactLocked d q)"
| "quota_step c (Observe ob) q = fst (applyQuotaObservationLocked (qc_startedAt c) ob q)"
| "quota_step c (Advance now) q = fst (advanceQuotaCyclesLocked now q)"
| "quota_step c (Prune now) q = fst (pruneQuotaLocked (qc_retention c) now q)"
| "quota_step c (MergeSnapshot s) q = fst (mergeQuotaSnapshotLocked (qc_sha c) (qc_startedAt c) s q)"

fun plain_op :: "(string \<Rightarrow> string) \<Rightarrow> quota_op \<Rightarrow> bool" where
  "plain_op sha (Observe ob) \<longleftrightarrow> plain_observation sha ob"
| "plain_op sha (MergeSnapshot s) \<longleftrightarrow> pred_option plain_snapshot s"
| "plain_op sha _ \<longleftrightarrow> True"

definition quota_run :: "quotaContext \<Rightarrow> quota_op list \<Rightarrow> quotaState option" where
  "quota_run c ops = fold (quota_step c) ops None"

lemma quota_step_ok:
  assumes "plain_op (qc_sha c) op" "pred_option (quota_ok (qc_sha c)) q"
  shows "pred_option (quota_ok (qc_sha c)) (quota_step c op q)"
proof (cases op)
  case (AddFact api d)
  have "pred_option quota_wf q" using assms(2) by (cases q) (simp_all add: quota_ok_def)
  then have "pred_option quota_wf (quota_step c op q)" unfolding AddFact quota_step.simps by (rule add_wf)
  moreover have "windows_ok (qc_sha c) (qs_Windows q')" if "quota_step c op q = Some q'" for q'
    using that assms(2) ensure_ok [of "qc_sha c" q "qc_startedAt c"]
    by (auto simp: AddFact addQuotaFactLocked_def Let_def quota_ok_def split: if_splits)
  ultimately show ?thesis by (cases "quota_step c op q") (simp_all add: quota_ok_def)
next
  case (RemoveFact d)
  show ?thesis
  proof (cases q)
    case None
    then show ?thesis by (simp add: RemoveFact removeQuotaFactLocked_def)
  next
    case (Some x)
    obtain q' b where r: "removeQuotaFactLocked d (Some x) = (Some q', b)" using remove_some by blast
    have "quota_wf q'" using remove_wf r assms(2) Some by (auto simp: quota_ok_def)
    moreover have "qs_Windows q' = qs_Windows x"
      using r by (auto simp: removeQuotaFactLocked_def Let_def split: if_splits)
    ultimately show ?thesis using assms(2) Some by (simp add: RemoveFact r quota_ok_def)
  qed
qed (use assms apply_ok advance_ok prune_ok merge_ok in simp_all)

lemma quota_run_ok:
  assumes "list_all (plain_op (qc_sha c)) ops"
  shows "pred_option (quota_ok (qc_sha c)) (quota_run c ops)"
proof -
  have "pred_option (quota_ok (qc_sha c)) (fold (quota_step c) ops q)" if "pred_option (quota_ok (qc_sha c)) q" for q
    using assms that by (induction ops arbitrary: q) (simp_all add: quota_step_ok)
  then show ?thesis by (simp add: quota_run_def)
qed

definition holds :: "quotaPeriod \<Rightarrow> gotime \<Rightarrow> bool" where
  "holds p t \<longleftrightarrow> \<not> time_Before t (qp_Start p) \<and> time_Before t (qp_End p)"



section \<open>An example run\<close>

lemma prune_some: "\<exists>q'. fst (pruneQuotaLocked r now (Some q)) = Some q'"
proof -
  have "fst (advanceQuotaCyclesLocked now (Some q)) \<noteq> None" by (simp add: advanceQuotaCyclesLocked_def case_prod_unfold)
  then obtain q' i where "advanceQuotaCyclesLocked now (Some q) = (Some q', i)"
    by (cases "advanceQuotaCyclesLocked now (Some q)") auto
  then show ?thesis by (simp add: pruneQuotaLocked_def Let_def)
qed

definition second_at :: "int \<Rightarrow> gotime" where
  "second_at n = \<lparr> t_ns = n * 1000000000, t_off = 0 \<rparr>"

definition sample_observation :: "int \<Rightarrow> int \<Rightarrow> rat \<Rightarrow> quotaObservation" where
  "sample_observation n reset used = \<lparr> qo_Source = [], qo_CollectionStartedAt = zero_time, qo_Provider = ''claude'', qo_AuthIndex = ''7'',
     qo_AuthID = [], qo_Group = ''shared'', qo_Name = [], qo_Slot = ''5h'', qo_Seconds = 18000, qo_Reset = second_at reset,
     qo_ObservedAt = second_at n, qo_Used = Fin used, qo_Model = [], qo_Unmapped = False, qo_Revoked = False \<rparr>"

definition sample_context :: quotaContext where
  "sample_context = \<lparr> qc_digest = (\<lambda>_. ''h''), qc_sha = (\<lambda>_. ''s''), qc_startedAt = second_at 0, qc_retention = 0 \<rparr>"

text \<open>The second observation belongs to the next five hours, so the first period becomes the previous one.\<close>

definition sample_ops :: "quota_op list" where
  "sample_ops = [Observe (sample_observation 100 18000 (4 / 5)), Observe (sample_observation 18100 36000 (1 / 10)), Prune (second_at 18200)]"

definition sample_key :: string where
  "sample_key = quotaWindowKey (sample_observation 0 0 0)"

lemma sample_ops_plain: "list_all (plain_op (qc_sha sample_context)) sample_ops"
  by code_simp

lemma sample_run:
  "(case quota_run sample_context sample_ops of None \<Rightarrow> False | Some q \<Rightarrow>
     (case go_get (qs_Windows q) sample_key of None \<Rightarrow> False | Some w \<Rightarrow>
       (case qw_Previous w of None \<Rightarrow> False | Some p \<Rightarrow> qp_End p = second_at 18000)))"
  by code_simp



end
