(* ===== verification/StorageFiles.thy ===== *)
theory StorageFiles
  imports GoTime "HOL-Library.Sublist"
begin

text \<open>
  What the storage worker of \<open>stats.go\<close> uses of the operating system and of Go's
  \<open>bufio\<close>: the clock, the journal directory with its daily shards and its snapshot,
  and a buffered writer on the open shard.

  The environment decides what the clock reads and which calls fail: \<open>os_clock\<close> lists
  the readings to come (the last one is repeated when the list is exhausted), \<open>os_faults\<close>
  the outcomes of the calls to come, in the order the code makes them.  An entry \<open>None\<close>
  is a call that succeeds, \<open>Some n\<close> one that fails, a write after \<open>n\<close> bytes; calls
  after the end of the list succeed.  A theorem that holds for every such pair of lists holds
  for every behaviour of the machine.

  A shard \<open>usage-YYYY-MM-DD.jsonl\<close> is named by its day, counted from 1 January 1970; the
  name determines the day and the names sort as the days do.  The directory is listed in that
  order, as \<open>os.ReadDir\<close> does.  Of a shard the model keeps its bytes and how many of them
  the last successful \<open>Sync\<close> covered.  The snapshot on disk stands for the statistics it
  was captured from: the rows that had been recorded by then.
\<close>

section \<open>Clock and calls\<close>

record shard =
  sh_data :: string
  sh_synced :: nat

record 'd disk_snapshot =
  sn_at :: gotime
  sn_rows :: "'d list"

datatype storage_error =
  ErrMkdir | ErrOpen | ErrEncode | ErrFlush | ErrSync | ErrClose | ErrSnapshot | ErrCompact

text \<open>The fields of \<open>RequestStatistics\<close> that the worker writes.\<close>

record storage_status =
  storageWorkerRunning :: bool
  storageWriteQueueLength :: int
  storageLastError :: "storage_error option"
  storageLoadedPath :: "int option"
  storageLastFlush :: gotime
  storageLastSnapshot :: gotime
  storageLastSync :: gotime
  storageBuffered :: int
  storageSnapshotRecords :: int
  storageUnsyncedRecords :: int
  storageLastCompaction :: gotime
  storageLastCompactedShards :: int
  storageCompactedShardsTotal :: int
  storageLastWriteBatchRecords :: int
  storageLastWriteBatchDuration :: duration
  storageLastWriteQueueWait :: duration
  storageWriteBatchesTotal :: int
  storageWriteRecordsTotal :: int
  storageWriteBatchDurationAvg :: duration
  storageWriteQueueWaitAvg :: duration
  storageWriteBatchDurations :: "duration list"
  storageWriteQueueWaits :: "duration list"
  storageWriteQueueWaitMax :: duration

record 'd world =
  os_now :: gotime
  os_clock :: "gotime list"
  os_faults :: "nat option list"
  disk_shards :: "(int, shard) gomap"
  disk_snapshot :: "'d disk_snapshot option"
  rows_recorded :: "'d list"
  w_status :: storage_status

definition time_Now :: "'d world \<Rightarrow> gotime \<times> 'd world" where
  "time_Now s = (case os_clock s of
      [] \<Rightarrow> (os_now s, s)
    | t # ts \<Rightarrow> (t, s\<lparr>os_now := t, os_clock := ts\<rparr>))"

definition os_call :: "'d world \<Rightarrow> nat option \<times> 'd world" where
  "os_call s = (case os_faults s of
      [] \<Rightarrow> (None, s)
    | f # fs \<Rightarrow> (f, s\<lparr>os_faults := fs\<rparr>))"

definition setStorageLastError :: "storage_error \<Rightarrow> 'd world \<Rightarrow> 'd world" where
  "setStorageLastError err s = s\<lparr>w_status := (w_status s)\<lparr>storageLastError := Some err\<rparr>\<rparr>"

section \<open>Days and shards\<close>

text \<open>\<open>storageDate\<close>: the UTC day of a time, of the present one for the zero time.\<close>

definition utc_day :: "gotime \<Rightarrow> int" where
  "utc_day t = local_day (time_UTC t)"

definition storageDate :: "gotime \<Rightarrow> 'd world \<Rightarrow> int \<times> 'd world" where
  "storageDate t s = (if time_IsZero t then (case time_Now s of (n, s1) \<Rightarrow> (utc_day n, s1))
                      else (utc_day t, s))"

text \<open>The time a shard's name is parsed to: midnight of its day.\<close>

definition parseStorageFileDate :: "int \<Rightarrow> gotime" where
  "parseStorageFileDate d = \<lparr>t_ns = d * 86400 * 1000000000, t_off = 0\<rparr>"

definition empty_shard :: shard where
  "empty_shard = \<lparr>sh_data = [], sh_synced = 0\<rparr>"

text \<open>\<open>OpenFile\<close> with \<open>O_CREATE | O_APPEND\<close>: an existing shard is kept as it is.\<close>

fun create_shard :: "int \<Rightarrow> (int, shard) gomap \<Rightarrow> (int, shard) gomap" where
  "create_shard d [] = [(d, empty_shard)]"
| "create_shard d ((d', f) # fs) =
     (if d = d' then (d', f) # fs
      else if d < d' then (d, empty_shard) # (d', f) # fs
      else (d', f) # create_shard d fs)"

definition on_shard :: "int \<Rightarrow> (shard \<Rightarrow> shard) \<Rightarrow> 'd world \<Rightarrow> 'd world" where
  "on_shard d f s = (case go_get (disk_shards s) d of
      None \<Rightarrow> s
    | Some x \<Rightarrow> s\<lparr>disk_shards := go_put d (f x) (disk_shards s)\<rparr>)"

definition append_bytes :: "string \<Rightarrow> shard \<Rightarrow> shard" where
  "append_bytes p f = f\<lparr>sh_data := sh_data f @ p\<rparr>"

definition mark_synced :: "shard \<Rightarrow> shard" where
  "mark_synced f = f\<lparr>sh_synced := length (sh_data f)\<rparr>"

text \<open>\<open>Write\<close> on the file returns the bytes written and whether all of them were.\<close>

definition file_Write :: "int \<Rightarrow> string \<Rightarrow> 'd world \<Rightarrow> bool \<times> nat \<times> 'd world" where
  "file_Write d p s = (case os_call s of
      (None, s1) \<Rightarrow> (True, length p, on_shard d (append_bytes p) s1)
    | (Some n, s1) \<Rightarrow>
        (False, min n (length p), on_shard d (append_bytes (take n p)) s1))"

definition file_Sync :: "int \<Rightarrow> 'd world \<Rightarrow> bool \<times> 'd world" where
  "file_Sync d s = (case os_call s of
      (None, s1) \<Rightarrow> (True, on_shard d mark_synced s1)
    | (Some n, s1) \<Rightarrow> (False, s1))"

definition os_ok :: "'d world \<Rightarrow> bool \<times> 'd world" where
  "os_ok s = (case os_call s of (r, s1) \<Rightarrow> (r = None, s1))"

section \<open>The buffered writer\<close>

text \<open>
  \<open>bufio.Writer\<close> with its default buffer.  An error of the file underneath stays: every
  later \<open>Write\<close> and \<open>Flush\<close> returns it without trying again.
\<close>

record bufio_Writer =
  bw_buf :: string
  bw_err :: bool

definition bufSize :: nat where "bufSize = 4096"

definition NewWriter :: bufio_Writer where
  "NewWriter = \<lparr>bw_buf = [], bw_err = False\<rparr>"

definition bw_Flush :: "int \<Rightarrow> bufio_Writer \<Rightarrow> 'd world \<Rightarrow> bool \<times> bufio_Writer \<times> 'd world" where
  "bw_Flush d b s =
     (if bw_err b then (False, b, s)
      else if bw_buf b = [] then (True, b, s)
      else case file_Write d (bw_buf b) s of (ok, n, s1) \<Rightarrow>
        (ok, b\<lparr>bw_buf := drop n (bw_buf b), bw_err := \<not> ok\<rparr>, s1))"

text \<open>
  \<open>Write\<close>: while the bytes do not fit, they are written to the file directly when the
  buffer is empty, and fill the buffer and flush it otherwise.
\<close>

function bw_Write :: "int \<Rightarrow> string \<Rightarrow> bufio_Writer \<Rightarrow> 'd world \<Rightarrow> bool \<times> bufio_Writer \<times> 'd world"
where
  "bw_Write d p b s =
     (if bufSize - length (bw_buf b) < length p \<and> \<not> bw_err b then
        (if bw_buf b = [] then
           (case file_Write d p s of (ok, n, s1) \<Rightarrow>
              bw_Write d (drop n p) (b\<lparr>bw_err := \<not> ok\<rparr>) s1)
         else let n = bufSize - length (bw_buf b) in
           (case bw_Flush d (b\<lparr>bw_buf := bw_buf b @ take n p\<rparr>) s of (ok, b1, s1) \<Rightarrow>
              bw_Write d (drop n p) b1 s1))
      else if bw_err b then (False, b, s)
      else (True, b\<lparr>bw_buf := bw_buf b @ p\<rparr>, s))"
  by pat_completeness auto

lemma file_Write_result:
  "file_Write d p s = (ok, n, s1) \<Longrightarrow> n \<le> length p \<and> (ok \<longrightarrow> n = length p)"
  by (auto simp: file_Write_def split: prod.splits option.splits)

lemma bw_Flush_result:
  "bw_Flush d b s = (ok, b1, s1) \<Longrightarrow> bw_err b1 = (\<not> ok) \<and> (ok \<longrightarrow> bw_buf b1 = [])"
  by (auto simp: bw_Flush_def dest!: file_Write_result split: if_splits prod.splits)

termination bw_Write
proof (relation "measure (\<lambda>(d, p, b, s). if bw_err b then 0
    else Suc (length p + (if bw_buf b = [] then 0 else 1)))", goal_cases)
  case 1
  show ?case by simp
next
  case 2
  then show ?case by (auto dest!: file_Write_result [OF sym])
next
  case 3
  then show ?case by (auto dest!: bw_Flush_result [OF sym])
qed

declare bw_Write.simps [simp del]

end
