(* ===== verification/StorageWorker.thy ===== *)
theory StorageWorker
  imports StorageFiles GoStrings GoFloat
begin

text \<open>
  The storage worker of \<open>stats.go\<close>: one goroutine owns the open shard, appends the rows
  it receives, flushes and syncs them, and writes the snapshot.  The operations take and
  return the worker's state and the world of \<open>StorageFiles\<close>; the file handle is the day
  of the shard it has open.  Paths inside the storage directory are named by that day too, so
  \<open>activeDate\<close> and \<open>loadedPath\<close> are one field.  \<open>enc\<close> is \<open>json.Marshal\<close>
  followed by a newline, with \<open>None\<close> for a value it cannot encode; \<open>sw_encodeErr\<close> is
  the error a \<open>json.Encoder\<close> keeps once its writer has failed.
\<close>

section \<open>State\<close>

record storageWorkerConfig =
  cfg_dir :: string
  flushInterval :: duration
  snapshotInterval :: duration
  snapshotRecordInterval :: int
  syncInterval :: duration
  syncRecordInterval :: int
  cfg_lastSnapshot :: gotime

record storageWorkerState =
  sw_cfg :: storageWorkerConfig
  sw_file :: "int option"
  sw_writer :: "bufio_Writer option"
  sw_encodeErr :: bool
  loadedPath :: "int option"
  lastFlush :: gotime
  lastSnapshot :: gotime
  lastSync :: gotime
  firstSnapshotRecord :: gotime
  firstUnsyncedRecord :: gotime
  buffered :: int
  snapshotRecords :: int
  unsyncedRecords :: int
  flushRetryAt :: gotime
  syncRetryAt :: gotime
  snapshotRetryAt :: gotime

definition new_worker :: "storageWorkerConfig \<Rightarrow> storageWorkerState" where
  "new_worker cfg = \<lparr>sw_cfg = cfg, sw_file = None, sw_writer = None, sw_encodeErr = False,
     loadedPath = None, lastFlush = zero_time, lastSnapshot = cfg_lastSnapshot cfg,
     lastSync = zero_time, firstSnapshotRecord = zero_time, firstUnsyncedRecord = zero_time,
     buffered = 0, snapshotRecords = 0, unsyncedRecords = 0, flushRetryAt = zero_time,
     syncRetryAt = zero_time, snapshotRetryAt = zero_time\<rparr>"

definition storageRetryDelay :: duration where
  "storageRetryDelay = 100 * time_Millisecond"

definition defaultStorageWriteBatchSize :: nat where
  "defaultStorageWriteBatchSize = 128"

definition report :: "storageWorkerState \<Rightarrow> 'd world \<Rightarrow> 'd world" where
  "report w s = s\<lparr>w_status := (w_status s)\<lparr>storageLoadedPath := loadedPath w,
     storageLastFlush := lastFlush w, storageLastSnapshot := lastSnapshot w,
     storageLastSync := lastSync w, storageBuffered := buffered w,
     storageSnapshotRecords := snapshotRecords w,
     storageUnsyncedRecords := unsyncedRecords w\<rparr>\<rparr>"

section \<open>What is due, and when\<close>

definition flushDue :: "storageWorkerState \<Rightarrow> gotime \<Rightarrow> bool" where
  "flushDue w now \<longleftrightarrow>
     \<not> (sw_writer w = None \<or> buffered w \<le> 0 \<or> time_Before now (flushRetryAt w)) \<and>
     (flushInterval (sw_cfg w) \<le> 0 \<or> time_IsZero (lastFlush w) \<or>
      flushInterval (sw_cfg w) \<le> time_Sub now (lastFlush w))"

definition syncDue :: "storageWorkerState \<Rightarrow> gotime \<Rightarrow> bool" where
  "syncDue w now =
     (if sw_file w = None \<or> unsyncedRecords w \<le> 0 \<or> time_Before now (syncRetryAt w) then False
      else if 0 < syncRecordInterval (sw_cfg w) \<and>
              syncRecordInterval (sw_cfg w) \<le> unsyncedRecords w then True
      else if syncInterval (sw_cfg w) \<le> 0 then False
      else let start = (if time_IsZero (lastSync w) then firstUnsyncedRecord w else lastSync w) in
        \<not> time_IsZero start \<and> syncInterval (sw_cfg w) \<le> time_Sub now start)"

definition snapshotDue :: "storageWorkerState \<Rightarrow> gotime \<Rightarrow> bool" where
  "snapshotDue w now =
     (if snapshotRecords w \<le> 0 \<or> time_Before now (snapshotRetryAt w) then False
      else if 0 < snapshotRecordInterval (sw_cfg w) \<and>
              snapshotRecordInterval (sw_cfg w) \<le> snapshotRecords w then True
      else if snapshotInterval (sw_cfg w) \<le> 0 then False
      else let start = (if time_IsZero (lastSnapshot w) then firstSnapshotRecord w
                        else lastSnapshot w) in
        \<not> time_IsZero start \<and> snapshotInterval (sw_cfg w) \<le> time_Sub now start)"

text \<open>The closure \<open>add\<close> of \<open>nextDeadline\<close>: the earlier of the deadlines so far.\<close>

definition add_deadline :: "gotime \<Rightarrow> gotime \<Rightarrow> gotime \<Rightarrow> gotime \<Rightarrow> gotime" where
  "add_deadline now due retry next_due =
     (if time_IsZero due then next_due
      else let due1 = (if time_Before due now then now else due);
               due2 = (if time_After retry due1 then retry else due1)
           in if time_IsZero next_due \<or> time_Before due2 next_due then due2 else next_due)"

definition flush_deadline :: "storageWorkerState \<Rightarrow> gotime \<Rightarrow> gotime \<Rightarrow> gotime" where
  "flush_deadline w now next_due =
     (if sw_writer w \<noteq> None \<and> 0 < buffered w then
        let due = (if 0 < flushInterval (sw_cfg w) \<and> \<not> time_IsZero (lastFlush w)
                   then time_Add (lastFlush w) (flushInterval (sw_cfg w)) else now)
        in add_deadline now due (flushRetryAt w) next_due
      else next_due)"

definition sync_deadline :: "storageWorkerState \<Rightarrow> gotime \<Rightarrow> gotime \<Rightarrow> gotime" where
  "sync_deadline w now next_due =
     (if sw_file w \<noteq> None \<and> 0 < unsyncedRecords w then
        if 0 < syncRecordInterval (sw_cfg w) \<and>
           syncRecordInterval (sw_cfg w) \<le> unsyncedRecords w
        then add_deadline now now (syncRetryAt w) next_due
        else if 0 < syncInterval (sw_cfg w) then
          let start = (if time_IsZero (lastSync w) then firstUnsyncedRecord w else lastSync w) in
          if time_IsZero start then next_due
          else add_deadline now (time_Add start (syncInterval (sw_cfg w))) (syncRetryAt w) next_due
        else next_due
      else next_due)"

definition snapshot_deadline :: "storageWorkerState \<Rightarrow> gotime \<Rightarrow> gotime \<Rightarrow> gotime" where
  "snapshot_deadline w now next_due =
     (if 0 < snapshotRecords w then
        if 0 < snapshotRecordInterval (sw_cfg w) \<and>
           snapshotRecordInterval (sw_cfg w) \<le> snapshotRecords w
        then add_deadline now now (snapshotRetryAt w) next_due
        else if 0 < snapshotInterval (sw_cfg w) then
          let start = (if time_IsZero (lastSnapshot w) then firstSnapshotRecord w
                       else lastSnapshot w) in
          if time_IsZero start then next_due
          else add_deadline now (time_Add start (snapshotInterval (sw_cfg w)))
                 (snapshotRetryAt w) next_due
        else next_due
      else next_due)"

definition nextDeadline :: "storageWorkerState \<Rightarrow> gotime \<Rightarrow> gotime" where
  "nextDeadline w now =
     snapshot_deadline w now (sync_deadline w now (flush_deadline w now zero_time))"

section \<open>Flush, sync and snapshot\<close>

definition sw_flush :: "gotime \<Rightarrow> storageWorkerState \<Rightarrow> 'd world \<Rightarrow>
    bool \<times> storageWorkerState \<times> 'd world" where
  "sw_flush now w s = (case (sw_writer w, sw_file w) of
      (Some b, Some d) \<Rightarrow>
        (if buffered w \<le> 0 then (True, w, s)
         else case bw_Flush d b s of (ok, b1, s1) \<Rightarrow>
           if \<not> ok then
             (case time_Now s1 of (t, s2) \<Rightarrow>
               (False, w\<lparr>sw_writer := Some b1, flushRetryAt := time_Add t storageRetryDelay\<rparr>,
                setStorageLastError ErrFlush s2))
           else
             let w1 = w\<lparr>sw_writer := Some b1, buffered := 0, flushRetryAt := zero_time,
                         lastFlush := now\<rparr>
             in (True, w1, report w1 s1))
    | _ \<Rightarrow> (True, w, s))"

definition sw_sync :: "gotime \<Rightarrow> storageWorkerState \<Rightarrow> 'd world \<Rightarrow>
    bool \<times> storageWorkerState \<times> 'd world" where
  "sw_sync now w s = (case sw_file w of
      None \<Rightarrow> (True, w, s)
    | Some d \<Rightarrow>
        if unsyncedRecords w \<le> 0 then (True, w, s)
        else case sw_flush now w s of (ok, w1, s1) \<Rightarrow>
          if \<not> ok then
            (case time_Now s1 of (t, s2) \<Rightarrow>
              (False, w1\<lparr>syncRetryAt := time_Add t storageRetryDelay\<rparr>, s2))
          else case file_Sync d s1 of (ok2, s2) \<Rightarrow>
            if \<not> ok2 then
              (case time_Now s2 of (t, s3) \<Rightarrow>
                (False, w1\<lparr>syncRetryAt := time_Add t storageRetryDelay\<rparr>,
                 setStorageLastError ErrSync s3))
            else
              let w2 = w1\<lparr>unsyncedRecords := 0, syncRetryAt := zero_time, lastSync := now\<rparr>
              in (True, w2, report w2 s2))"

text \<open>
  \<open>writeStorageSnapshotAtomically\<close>: the temporary file takes the place of
  \<open>snapshot.json\<close> only when it was created, written, synced and closed without error.
\<close>

definition writeStorageSnapshot :: "string \<Rightarrow> 'd disk_snapshot \<Rightarrow> 'd world \<Rightarrow> bool \<times> 'd world" where
  "writeStorageSnapshot dir view s =
     (if go_TrimSpace dir = [] then (True, s)
      else case os_ok s of (made, s1) \<Rightarrow>
        if \<not> made then (False, s1)
        else case os_ok s1 of (created, s2) \<Rightarrow>
          if \<not> created then (False, s2)
          else case os_ok s2 of (written, s3) \<Rightarrow>
            case (if written then os_ok s3 else (False, s3)) of (synced, s4) \<Rightarrow>
              case os_ok s4 of (shut, s5) \<Rightarrow>
                if \<not> (synced \<and> shut) then (False, s5)
                else case os_ok s5 of (renamed, s6) \<Rightarrow>
                  if \<not> renamed then (False, s6)
                  else (True, s6\<lparr>disk_snapshot := Some view\<rparr>))"

text \<open>
  \<open>compactStorageShardsBeforeSnapshot\<close> removes the shards of the days before the
  snapshot's, except the one that is open, and stops at the first that it cannot remove.
\<close>

fun compact_shards :: "int list \<Rightarrow> gotime \<Rightarrow> int option \<Rightarrow> int \<Rightarrow> 'd world \<Rightarrow>
    int \<times> bool \<times> 'd world" where
  "compact_shards [] day keep n s = (n, True, s)"
| "compact_shards (d # ds) day keep n s =
     (if \<not> time_Before (parseStorageFileDate d) day \<or> keep = Some d
      then compact_shards ds day keep n s
      else case os_ok s of (ok, s1) \<Rightarrow>
        if \<not> ok then (n, False, s1)
        else compact_shards ds day keep (n + 1)
               (s1\<lparr>disk_shards := go_del d (disk_shards s1)\<rparr>))"

definition compactStorageShardsBeforeSnapshot :: "string \<Rightarrow> gotime \<Rightarrow> int option \<Rightarrow> 'd world \<Rightarrow>
    int \<times> bool \<times> 'd world" where
  "compactStorageShardsBeforeSnapshot dir snapshotAt keep s =
     (if go_TrimSpace dir = [] \<or> time_IsZero snapshotAt then (0, True, s)
      else case os_ok s of (ok, s1) \<Rightarrow>
        if \<not> ok then (0, False, s1)
        else compact_shards (go_keys (disk_shards s1))
               (time_Truncate (time_UTC snapshotAt) (24 * time_Hour)) keep 0 s1)"

definition updateStorageCompaction :: "int \<Rightarrow> gotime \<Rightarrow> 'd world \<Rightarrow> 'd world" where
  "updateStorageCompaction n t s =
     (if n \<le> 0 then s
      else case (if time_IsZero t then time_Now s else (t, s)) of (t1, s1) \<Rightarrow>
        s1\<lparr>w_status := (w_status s1)\<lparr>storageLastCompaction := t1,
          storageLastCompactedShards := n,
          storageCompactedShardsTotal := storageCompactedShardsTotal (w_status s1) + n\<rparr>\<rparr>)"

definition sw_writeSnapshot :: "gotime \<Rightarrow> storageWorkerState \<Rightarrow> 'd world \<Rightarrow>
    bool \<times> storageWorkerState \<times> 'd world" where
  "sw_writeSnapshot now w s =
     (if go_TrimSpace (cfg_dir (sw_cfg w)) = [] then (True, w, s)
      else case (if time_IsZero now then time_Now s else (now, s)) of (now1, s1) \<Rightarrow>
        let (pruned_at, s2) = time_Now s1;
            view = \<lparr>sn_at = now1, sn_rows = rows_recorded s2\<rparr>
        in case writeStorageSnapshot (cfg_dir (sw_cfg w)) view s2 of (ok, s3) \<Rightarrow>
          if \<not> ok then
            (case time_Now s3 of (t, s4) \<Rightarrow>
              (False, w\<lparr>snapshotRetryAt := time_Add t storageRetryDelay\<rparr>,
               setStorageLastError ErrSnapshot s4))
          else case compactStorageShardsBeforeSnapshot (cfg_dir (sw_cfg w)) now1 (loadedPath w) s3
            of (n, ok2, s4) \<Rightarrow>
              let s5 = (if \<not> ok2 then setStorageLastError ErrCompact s4
                        else updateStorageCompaction n now1 s4);
                  w1 = w\<lparr>lastSnapshot := now1, snapshotRetryAt := zero_time, snapshotRecords := 0\<rparr>
              in (True, w1, report w1 s5))"

section \<open>Opening and closing the shard\<close>

definition close_writer :: "gotime \<Rightarrow> storageWorkerState \<Rightarrow> 'd world \<Rightarrow>
    storageWorkerState \<times> 'd world" where
  "close_writer now w s = (case (sw_writer w, sw_file w) of
      (Some b, Some d) \<Rightarrow>
        (case bw_Flush d b s of (ok, b1, s1) \<Rightarrow>
          if \<not> ok then (w\<lparr>sw_writer := None\<rparr>, setStorageLastError ErrFlush s1)
          else (w\<lparr>sw_writer := None, buffered := 0, lastFlush := now\<rparr>, s1))
    | _ \<Rightarrow> (w, s))"

definition close_handle :: "gotime \<Rightarrow> bool \<Rightarrow> storageWorkerState \<Rightarrow> 'd world \<Rightarrow>
    storageWorkerState \<times> 'd world" where
  "close_handle now syncFile w s = (case sw_file w of
      None \<Rightarrow> (w, s)
    | Some d \<Rightarrow>
        (case (if syncFile then
                 (case file_Sync d s of (ok, s1) \<Rightarrow>
                   if \<not> ok then (w, setStorageLastError ErrSync s1)
                   else (w\<lparr>unsyncedRecords := 0, lastSync := now\<rparr>, s1))
               else (w, s)) of (w1, s1) \<Rightarrow>
          case os_ok s1 of (ok, s2) \<Rightarrow>
            (w1\<lparr>sw_file := None\<rparr>, if ok then s2 else setStorageLastError ErrClose s2)))"

definition sw_closeFile :: "gotime \<Rightarrow> bool \<Rightarrow> storageWorkerState \<Rightarrow> 'd world \<Rightarrow>
    storageWorkerState \<times> 'd world" where
  "sw_closeFile now syncFile w s =
     (case close_writer now w s of (w1, s1) \<Rightarrow>
       case close_handle now syncFile w1 s1 of (w2, s2) \<Rightarrow>
         let w3 = w2\<lparr>loadedPath := None\<rparr> in (w3, report w3 s2))"

definition open_shard :: "int \<Rightarrow> storageWorkerState \<Rightarrow> 'd world \<Rightarrow>
    storage_error option \<times> storageWorkerState \<times> 'd world" where
  "open_shard d w s =
     (case os_ok s of (made, s1) \<Rightarrow>
       if \<not> made then (Some ErrMkdir, w, s1)
       else case os_ok s1 of (opened, s2) \<Rightarrow>
         if \<not> opened then (Some ErrOpen, w, s2)
         else
           let w1 = w\<lparr>sw_file := Some d, sw_writer := Some NewWriter, sw_encodeErr := False,
                      loadedPath := Some d\<rparr>
           in (None, w1, report w1 (s2\<lparr>disk_shards := create_shard d (disk_shards s2)\<rparr>)))"

definition sw_open :: "gotime \<Rightarrow> storageWorkerState \<Rightarrow> 'd world \<Rightarrow>
    storage_error option \<times> storageWorkerState \<times> 'd world" where
  "sw_open now w s =
     (case storageDate now s of (d, s1) \<Rightarrow>
       if sw_file w \<noteq> None \<and> loadedPath w = Some d then (None, w, s1)
       else if sw_file w \<noteq> None then
         (case sw_closeFile now True w s1 of (w1, s2) \<Rightarrow>
           if 0 < snapshotRecords w1 then
             (case sw_writeSnapshot now w1 s2 of (ok, w2, s3) \<Rightarrow> open_shard d w2 s3)
           else open_shard d w1 s2)
       else open_shard d w s1)"

definition sw_close :: "storageWorkerState \<Rightarrow> 'd world \<Rightarrow> storageWorkerState \<times> 'd world" where
  "sw_close w s =
     (case time_Now s of (now, s1) \<Rightarrow>
       case sw_closeFile now True w s1 of (w1, s2) \<Rightarrow>
         if go_TrimSpace (cfg_dir (sw_cfg w1)) \<noteq> [] then
           (case sw_writeSnapshot now w1 s2 of (ok, w2, s3) \<Rightarrow> (w2, s3))
         else (w1, s2))"

section \<open>Metrics of the writes\<close>

text \<open>A row in the queue, with the time at which its producer handed it over.\<close>

record 'd queued =
  qr_row :: 'd
  enqueuedAt :: gotime

fun storageBatchQueueWait :: "gotime \<Rightarrow> 'd queued list \<Rightarrow> duration" where
  "storageBatchQueueWait started [] = 0"
| "storageBatchQueueWait started (x # xs) =
     (let rest = storageBatchQueueWait started xs in
      if time_IsZero (enqueuedAt x) then rest else max (time_Sub started (enqueuedAt x)) rest)"

text \<open>The conversion of a finite \<open>float64\<close> to an integer drops the fraction.\<close>

definition duration_of_float :: "float64 \<Rightarrow> duration" where
  "duration_of_float x = (case x of
      Fin r \<Rightarrow> (if 0 \<le> r then \<lfloor>r\<rfloor> else \<lceil>r\<rceil>)
    | _ \<Rightarrow> MinInt64)"

definition storageDurationEWMA :: "duration \<Rightarrow> duration \<Rightarrow> duration" where
  "storageDurationEWMA previous current =
     (let cur = (if current < 0 then 0 else current) in
      if previous \<le> 0 then cur
      else duration_of_float (f_add (f_mul (f_of_int previous) (roundf (4 / 5)))
             (f_mul (f_of_int cur) (roundf (1 / 5)))))"

definition storageWriteSampleMax :: nat where
  "storageWriteSampleMax = 256"

definition appendStorageDurationSample :: "duration list \<Rightarrow> duration \<Rightarrow> duration list" where
  "appendStorageDurationSample samples x =
     (let y = (if x < 0 then 0 else x) in
      if length samples < storageWriteSampleMax then samples @ [y] else drop 1 samples @ [y])"

definition updateStorageWriteBatchMetrics :: "int \<Rightarrow> duration \<Rightarrow> duration \<Rightarrow> 'd world \<Rightarrow> 'd world" where
  "updateStorageWriteBatchMetrics records dur wait s =
     (if records \<le> 0 then s
      else let st = w_status s in s\<lparr>w_status := st\<lparr>
        storageLastWriteBatchRecords := records,
        storageLastWriteBatchDuration := dur,
        storageLastWriteQueueWait := wait,
        storageWriteBatchesTotal := storageWriteBatchesTotal st + 1,
        storageWriteRecordsTotal := storageWriteRecordsTotal st + records,
        storageWriteBatchDurationAvg := storageDurationEWMA (storageWriteBatchDurationAvg st) dur,
        storageWriteQueueWaitAvg := storageDurationEWMA (storageWriteQueueWaitAvg st) wait,
        storageWriteBatchDurations := appendStorageDurationSample (storageWriteBatchDurations st) dur,
        storageWriteQueueWaits := appendStorageDurationSample (storageWriteQueueWaits st) wait,
        storageWriteQueueWaitMax := max (storageWriteQueueWaitMax st) wait\<rparr>\<rparr>)"

definition updateStorageQueueLength :: "nat \<Rightarrow> 'd world \<Rightarrow> 'd world" where
  "updateStorageQueueLength n s =
     s\<lparr>w_status := (w_status s)\<lparr>storageWriteQueueLength := int n\<rparr>\<rparr>"

section \<open>Appending a batch\<close>

definition enc_Encode :: "('d \<Rightarrow> string option) \<Rightarrow> 'd \<Rightarrow> storageWorkerState \<Rightarrow> 'd world \<Rightarrow>
    bool \<times> storageWorkerState \<times> 'd world" where
  "enc_Encode enc x w s = (case (sw_writer w, sw_file w) of
      (Some b, Some d) \<Rightarrow>
        (if sw_encodeErr w then (False, w, s)
         else case enc x of
           None \<Rightarrow> (False, w, s)
         | Some p \<Rightarrow>
             (case bw_Write d p b s of (ok, b1, s1) \<Rightarrow>
               (ok, w\<lparr>sw_writer := Some b1, sw_encodeErr := \<not> ok\<rparr>, s1)))
    | _ \<Rightarrow> (False, w, s))"

fun encode_rows :: "('d \<Rightarrow> string option) \<Rightarrow> 'd list \<Rightarrow> storageWorkerState \<Rightarrow> 'd world \<Rightarrow>
    int \<times> storageWorkerState \<times> 'd world" where
  "encode_rows enc [] w s = (0, w, s)"
| "encode_rows enc (x # xs) w s =
     (case enc_Encode enc x w s of (ok, w1, s1) \<Rightarrow>
       if \<not> ok then encode_rows enc xs w1 (setStorageLastError ErrEncode s1)
       else case encode_rows enc xs w1 s1 of (n, w2, s2) \<Rightarrow> (n + 1, w2, s2))"

definition run_due :: "gotime \<Rightarrow> storageWorkerState \<Rightarrow> 'd world \<Rightarrow> storageWorkerState \<times> 'd world" where
  "run_due now w s =
     (case (if flushDue w now then sw_flush now w s else (True, w, s)) of (ok1, w1, s1) \<Rightarrow>
       case (if syncDue w1 now then sw_sync now w1 s1 else (True, w1, s1)) of (ok2, w2, s2) \<Rightarrow>
         case (if snapshotDue w2 now then sw_writeSnapshot now w2 s2 else (True, w2, s2)) of
           (ok3, w3, s3) \<Rightarrow> (w3, s3))"

definition count_records :: "gotime \<Rightarrow> int \<Rightarrow> storageWorkerState \<Rightarrow> storageWorkerState" where
  "count_records started n w =
     w\<lparr>buffered := buffered w + n,
       firstSnapshotRecord := (if snapshotRecords w = 0 then started else firstSnapshotRecord w),
       firstUnsyncedRecord := (if unsyncedRecords w = 0 then started else firstUnsyncedRecord w),
       snapshotRecords := snapshotRecords w + n,
       unsyncedRecords := unsyncedRecords w + n\<rparr>"

definition sw_appendBatch :: "('d \<Rightarrow> string option) \<Rightarrow> 'd queued list \<Rightarrow> storageWorkerState \<Rightarrow> 'd world \<Rightarrow>
    storageWorkerState \<times> 'd world" where
  "sw_appendBatch enc batch w s =
     (if batch = [] then (w, s)
      else case time_Now s of (started, s1) \<Rightarrow>
        case sw_open started w s1 of
          (Some err, w1, s2) \<Rightarrow> (w1, setStorageLastError err s2)
        | (None, w1, s2) \<Rightarrow>
            (case encode_rows enc (map qr_row batch) w1 s2 of (records, w2, s3) \<Rightarrow>
              if records = 0 then (w2, s3)
              else
                let w3 = count_records started records w2;
                    (finished, s4) = time_Now s3
                in run_due finished w3
                     (updateStorageWriteBatchMetrics records (time_Sub finished started)
                        (storageBatchQueueWait started batch) (report w3 s4))))"

section \<open>The loop\<close>

text \<open>
  The state of the loop: the worker, the world, the queue of the channel, and the producers
  that have recorded a row and wait to send it.  A step is the choice the scheduler makes:
  \<open>Offer\<close> records a row in the statistics and reaches \<open>enqueueStorageDetail\<close>,
  \<open>Send k\<close> lets the \<open>k\<close>-th waiting producer send (the channel must have room),
  \<open>Receive\<close> is the branch that takes a batch from the queue, \<open>Wake\<close> the branch of
  the timer.  A step that cannot happen yields \<open>None\<close>.  The stop signal drains the queue
  and closes; a send that races with it is ordered before it or does not happen.
\<close>

datatype 'd loop_event = Offer 'd | Send nat | Receive | Wake

record 'd loop_state =
  lp_worker :: storageWorkerState
  lp_world :: "'d world"
  lp_senders :: "'d queued list"
  lp_queue :: "'d queued list"

definition collectStorageBatchInto :: "'d queued list \<Rightarrow> 'd queued list \<times> 'd queued list" where
  "collectStorageBatchInto q =
     (take defaultStorageWriteBatchSize q, drop defaultStorageWriteBatchSize q)"

definition appendQueued :: "('d \<Rightarrow> string option) \<Rightarrow> 'd loop_state \<Rightarrow> 'd loop_state" where
  "appendQueued enc l =
     (case collectStorageBatchInto (lp_queue l) of (batch, rest) \<Rightarrow>
       case sw_appendBatch enc batch (lp_worker l)
              (updateStorageQueueLength (length rest) (lp_world l)) of (w, s) \<Rightarrow>
         l\<lparr>lp_worker := w, lp_world := s, lp_queue := rest\<rparr>)"

text \<open>
  \<open>enqueueStorageDetail\<close> up to its \<open>select\<close>, and the branch of the \<open>select\<close> that
  sends.  The row has been recorded in the statistics before.
\<close>

definition enqueueStorageDetail :: "'d \<Rightarrow> 'd loop_state \<Rightarrow> 'd loop_state" where
  "enqueueStorageDetail x l =
     (case time_Now (lp_world l) of (t, s1) \<Rightarrow>
       l\<lparr>lp_world := s1\<lparr>rows_recorded := rows_recorded s1 @ [x]\<rparr>,
         lp_senders := lp_senders l @ [\<lparr>qr_row = x, enqueuedAt = t\<rparr>]\<rparr>)"

definition send_detail :: "nat \<Rightarrow> 'd loop_state \<Rightarrow> 'd loop_state" where
  "send_detail k l = l\<lparr>lp_senders := take k (lp_senders l) @ drop (Suc k) (lp_senders l),
     lp_queue := lp_queue l @ [lp_senders l ! k],
     lp_world := updateStorageQueueLength (Suc (length (lp_queue l))) (lp_world l)\<rparr>"

fun loop_step :: "('d \<Rightarrow> string option) \<Rightarrow> nat \<Rightarrow> 'd loop_event \<Rightarrow> 'd loop_state \<Rightarrow>
    'd loop_state option" where
  "loop_step enc capacity (Offer x) l =
     Some (enqueueStorageDetail x l)"
| "loop_step enc capacity (Send k) l =
     (if k < length (lp_senders l) \<and> length (lp_queue l) < capacity
      then Some (send_detail k l)
      else None)"
| "loop_step enc capacity Receive l =
     (if lp_queue l = [] then None else Some (appendQueued enc l))"
| "loop_step enc capacity Wake l =
     (case time_Now (lp_world l) of (armed, s1) \<Rightarrow>
       case time_Now s1 of (now, s2) \<Rightarrow>
         let deadline = nextDeadline (lp_worker l) armed in
         if time_IsZero deadline \<or> time_Before now deadline then None
         else case run_due now (lp_worker l) s2 of (w, s3) \<Rightarrow>
           Some (l\<lparr>lp_worker := w, lp_world := s3\<rparr>))"

fun loop_run :: "('d \<Rightarrow> string option) \<Rightarrow> nat \<Rightarrow> 'd loop_event list \<Rightarrow> 'd loop_state \<Rightarrow>
    'd loop_state option" where
  "loop_run enc capacity [] l = Some l"
| "loop_run enc capacity (ev # evs) l =
     (case loop_step enc capacity ev l of
        None \<Rightarrow> None
      | Some l1 \<Rightarrow> loop_run enc capacity evs l1)"

function drain_queue :: "('d \<Rightarrow> string option) \<Rightarrow> 'd loop_state \<Rightarrow> 'd loop_state" where
  "drain_queue enc l =
     (if lp_queue l = [] then l else drain_queue enc (appendQueued enc l))"
  by pat_completeness auto

lemma appendQueued_queue:
  "lp_queue (appendQueued enc l) = drop defaultStorageWriteBatchSize (lp_queue l)"
  by (simp add: appendQueued_def collectStorageBatchInto_def split: prod.splits)

termination drain_queue
  by (relation "measure (\<lambda>(enc, l). length (lp_queue l))")
     (auto simp: appendQueued_queue defaultStorageWriteBatchSize_def)

declare drain_queue.simps [simp del]

definition stop_loop :: "('d \<Rightarrow> string option) \<Rightarrow> 'd loop_state \<Rightarrow> 'd loop_state" where
  "stop_loop enc l =
     (let l1 = drain_queue enc l;
          (w, s) = sw_close (lp_worker l1) (lp_world l1)
      in l1\<lparr>lp_worker := w, lp_world := s\<lparr>w_status := (w_status s)\<lparr>
           storageWorkerRunning := False, storageWriteQueueLength := 0, storageBuffered := 0,
           storageUnsyncedRecords := 0, storageLoadedPath := None\<rparr>\<rparr>\<rparr>)"

definition start_loop :: "storageWorkerConfig \<Rightarrow> 'd world \<Rightarrow> 'd loop_state" where
  "start_loop cfg s = \<lparr>lp_worker = new_worker cfg, lp_world = s, lp_senders = [], lp_queue = []\<rparr>"

end
