(* ===== verification/StorageSchedule.thy ===== *)
theory StorageSchedule
  imports StorageWorker
begin

text \<open>
  The timer of the storage worker.  The loop sleeps until \<open>nextDeadline\<close>; the theorem says
  that this is exactly the first moment at which one of \<open>flushDue\<close>, \<open>syncDue\<close>
  and \<open>snapshotDue\<close> holds, so that no pending work waits for a timer that is not set and
  no timer fires with nothing to do.
\<close>

definition work_due :: "storageWorkerState \<Rightarrow> gotime \<Rightarrow> bool" where
  "work_due w t \<longleftrightarrow> flushDue w t \<or> syncDue w t \<or> snapshotDue w t"

text \<open>Times kept by the worker are clock readings: after the zero time, or the zero time itself.\<close>

definition readings_ok :: "storageWorkerState \<Rightarrow> bool" where
  "readings_ok w \<longleftrightarrow>
     (\<forall>t \<in> {lastFlush w, lastSync w, lastSnapshot w, firstUnsyncedRecord w, firstSnapshotRecord w}.
        zero_instant \<le> t_ns t) \<and>
     (\<forall>i \<in> {flushInterval (sw_cfg w), syncInterval (sw_cfg w), snapshotInterval (sw_cfg w)}.
        i \<le> MaxInt64)"

text \<open>\<open>from_deadline next P\<close>: the condition \<open>P\<close> holds from the deadline on and not before.\<close>

definition from_deadline :: "gotime \<Rightarrow> gotime \<Rightarrow> (gotime \<Rightarrow> bool) \<Rightarrow> bool" where
  "from_deadline now d P \<longleftrightarrow>
     (\<forall>t. t_ns now \<le> t_ns t \<longrightarrow> (P t \<longleftrightarrow> \<not> time_IsZero d \<and> \<not> time_Before t d)) \<and>
     (time_IsZero d \<or> t_ns now \<le> t_ns d)"

lemma add_deadline_ok:
  assumes "zero_instant < t_ns now" "from_deadline now next_due P" "\<not> time_IsZero due"
  shows "from_deadline now (add_deadline now due retry next_due)
    (\<lambda>t. P t \<or> (\<not> time_Before t retry \<and> \<not> time_Before t due))"
  using assms unfolding from_deadline_def add_deadline_def time_defs Let_def
  by (auto split: if_splits)

lemma from_deadline_cong:
  assumes "from_deadline now d P" "\<And>t. t_ns now \<le> t_ns t \<Longrightarrow> P t = Q t"
  shows "from_deadline now d Q"
  using assms unfolding from_deadline_def by simp

lemma due_after:
  assumes "0 < i" "i \<le> MaxInt64" "zero_instant \<le> t_ns start" "\<not> time_IsZero start"
  shows "i \<le> time_Sub t start \<longleftrightarrow> \<not> time_Before t (time_Add start i)"
    "\<not> time_IsZero (time_Add start i)"
  using assms unfolding time_Sub_def time_defs by (auto simp: MinInt64_def MaxInt64_def)

lemma flush_deadline_ok:
  assumes "zero_instant < t_ns now" "readings_ok w" "from_deadline now next_due P"
  shows "from_deadline now (flush_deadline w now next_due) (\<lambda>t. P t \<or> flushDue w t)"
proof (cases "sw_writer w \<noteq> None \<and> 0 < buffered w")
  case True
  define due where "due = (if 0 < flushInterval (sw_cfg w) \<and> \<not> time_IsZero (lastFlush w)
    then time_Add (lastFlush w) (flushInterval (sw_cfg w)) else now)"
  have range: "flushInterval (sw_cfg w) \<le> MaxInt64" "zero_instant \<le> t_ns (lastFlush w)"
    using assms(2) by (simp_all add: readings_ok_def)
  have nonzero: "\<not> time_IsZero due"
    using due_after(2) [of "flushInterval (sw_cfg w)" "lastFlush w"] range assms(1)
    by (auto simp: due_def time_IsZero_def)
  have "flushDue w t \<longleftrightarrow> \<not> time_Before t (flushRetryAt w) \<and> \<not> time_Before t due"
    if "t_ns now \<le> t_ns t" for t
    using True that due_after(1) [of "flushInterval (sw_cfg w)" "lastFlush w" t] range
    unfolding flushDue_def due_def by (auto simp: time_Before_def)
  then show ?thesis
    using from_deadline_cong [OF add_deadline_ok [OF assms(1,3) nonzero, of "flushRetryAt w"]] True
    by (simp add: flush_deadline_def due_def [symmetric] Let_def)
next
  case False
  then have "\<not> flushDue w t" for t by (auto simp: flushDue_def)
  then show ?thesis using False assms(3) by (auto simp: flush_deadline_def)
qed

text \<open>Sync and snapshot follow one pattern: a count that reaches a limit, or an interval.\<close>

definition paced_due :: "bool \<Rightarrow> int \<Rightarrow> int \<Rightarrow> duration \<Rightarrow> gotime \<Rightarrow> gotime \<Rightarrow> gotime \<Rightarrow> bool" where
  "paced_due pending n limit i start retry t \<longleftrightarrow> pending \<and> 0 < n \<and> \<not> time_Before t retry \<and>
     (0 < limit \<and> limit \<le> n \<or> 0 < i \<and> \<not> time_IsZero start \<and> i \<le> time_Sub t start)"

definition paced_deadline :: "gotime \<Rightarrow> bool \<Rightarrow> int \<Rightarrow> int \<Rightarrow> duration \<Rightarrow> gotime \<Rightarrow> gotime \<Rightarrow> gotime \<Rightarrow>
    gotime" where
  "paced_deadline now pending n limit i start retry next_due =
     (if pending \<and> 0 < n then
        if 0 < limit \<and> limit \<le> n then add_deadline now now retry next_due
        else if 0 < i then
          if time_IsZero start then next_due
          else add_deadline now (time_Add start i) retry next_due
        else next_due
      else next_due)"

lemma paced_deadline_ok:
  assumes "zero_instant < t_ns now" "i \<le> MaxInt64" "zero_instant \<le> t_ns start"
    "from_deadline now next_due P"
  shows "from_deadline now (paced_deadline now pending n limit i start retry next_due)
    (\<lambda>t. P t \<or> paced_due pending n limit i start retry t)"
proof -
  have now: "\<not> time_IsZero now" "\<And>t. t_ns now \<le> t_ns t \<Longrightarrow> \<not> time_Before t now"
    using assms(1) by (auto simp: time_defs)
  consider (limit) "pending" "0 < n" "0 < limit" "limit \<le> n"
    | (interval) "pending" "0 < n" "\<not> (0 < limit \<and> limit \<le> n)" "0 < i" "\<not> time_IsZero start"
    | (idle) "\<not> (pending \<and> 0 < n) \<or>
        (\<not> (0 < limit \<and> limit \<le> n) \<and> \<not> (0 < i \<and> \<not> time_IsZero start))"
    by blast
  then show ?thesis
  proof cases
    case limit
    have due: "(P t \<or> (\<not> time_Before t retry \<and> \<not> time_Before t now)) =
        (P t \<or> paced_due pending n limit i start retry t)" if "t_ns now \<le> t_ns t" for t
      using limit now(2) [OF that] unfolding paced_due_def by blast
    have deadline: "paced_deadline now pending n limit i start retry next_due =
        add_deadline now now retry next_due"
      unfolding paced_deadline_def using limit by simp
    show ?thesis
      unfolding deadline
      by (rule from_deadline_cong [OF add_deadline_ok [OF assms(1,4) now(1)] due])
  next
    case interval
    have deadline: "paced_deadline now pending n limit i start retry next_due =
        add_deadline now (time_Add start i) retry next_due"
      unfolding paced_deadline_def if_not_P [OF interval(3)] using interval by simp
    have due: "(P t \<or> (\<not> time_Before t retry \<and> \<not> time_Before t (time_Add start i))) =
        (P t \<or> paced_due pending n limit i start retry t)" for t
      unfolding paced_due_def due_after(1) [OF interval(4) assms(2,3) interval(5), symmetric]
      using interval by blast
    show ?thesis
      unfolding deadline
      by (rule from_deadline_cong [OF add_deadline_ok [OF assms(1,4)
            due_after(2) [OF interval(4) assms(2,3) interval(5)]] due])
  next
    case idle
    have due: "P t = (P t \<or> paced_due pending n limit i start retry t)" for t
      using idle unfolding paced_due_def by blast
    have deadline: "paced_deadline now pending n limit i start retry next_due = next_due"
      unfolding paced_deadline_def using idle by (auto split: if_splits)
    show ?thesis
      unfolding deadline by (rule from_deadline_cong [OF assms(4) due])
  qed
qed

lemma syncDue_paced:
  "syncDue w t = paced_due (sw_file w \<noteq> None) (unsyncedRecords w) (syncRecordInterval (sw_cfg w))
     (syncInterval (sw_cfg w)) (if time_IsZero (lastSync w) then firstUnsyncedRecord w else lastSync w)
     (syncRetryAt w) t"
  unfolding syncDue_def paced_due_def Let_def by auto

lemma snapshotDue_paced:
  "snapshotDue w t = paced_due True (snapshotRecords w) (snapshotRecordInterval (sw_cfg w))
     (snapshotInterval (sw_cfg w))
     (if time_IsZero (lastSnapshot w) then firstSnapshotRecord w else lastSnapshot w)
     (snapshotRetryAt w) t"
  unfolding snapshotDue_def paced_due_def Let_def by auto

lemma sync_deadline_paced:
  "sync_deadline w now = paced_deadline now (sw_file w \<noteq> None) (unsyncedRecords w)
     (syncRecordInterval (sw_cfg w)) (syncInterval (sw_cfg w))
     (if time_IsZero (lastSync w) then firstUnsyncedRecord w else lastSync w) (syncRetryAt w)"
  by (rule ext) (simp add: sync_deadline_def paced_deadline_def Let_def)

lemma snapshot_deadline_paced:
  "snapshot_deadline w now = paced_deadline now True (snapshotRecords w)
     (snapshotRecordInterval (sw_cfg w)) (snapshotInterval (sw_cfg w))
     (if time_IsZero (lastSnapshot w) then firstSnapshotRecord w else lastSnapshot w)
     (snapshotRetryAt w)"
  by (rule ext) (simp add: snapshot_deadline_def paced_deadline_def Let_def)

lemma nextDeadline_ok:
  assumes "zero_instant < t_ns now" "readings_ok w"
  shows "from_deadline now (nextDeadline w now) (work_due w)"
proof -
  have start: "from_deadline now zero_time (\<lambda>t. False)"
    by (simp add: from_deadline_def)
  note flushed = flush_deadline_ok [OF assms start]
  have "from_deadline now (sync_deadline w now (flush_deadline w now zero_time))
      (\<lambda>t. (False \<or> flushDue w t) \<or> syncDue w t)"
    unfolding sync_deadline_paced syncDue_paced
    by (rule paced_deadline_ok [OF assms(1) _ _ flushed]) (use assms(2) in \<open>auto simp: readings_ok_def\<close>)
  then have "from_deadline now (nextDeadline w now)
      (\<lambda>t. ((False \<or> flushDue w t) \<or> syncDue w t) \<or> snapshotDue w t)"
    unfolding nextDeadline_def snapshot_deadline_paced snapshotDue_paced
    by (rule paced_deadline_ok [OF assms(1), rotated 2])
       (use assms(2) in \<open>auto simp: readings_ok_def\<close>)
  then show ?thesis by (rule from_deadline_cong) (simp add: work_due_def)
qed

text \<open>Work that waits for nothing but time: buffered rows, and counts with an interval set.\<close>

definition work_pending :: "storageWorkerState \<Rightarrow> bool" where
  "work_pending w \<longleftrightarrow>
     (sw_writer w \<noteq> None \<and> 0 < buffered w) \<or>
     (sw_file w \<noteq> None \<and> 0 < unsyncedRecords w \<and> 0 < syncInterval (sw_cfg w) \<and>
       \<not> time_IsZero (if time_IsZero (lastSync w) then firstUnsyncedRecord w else lastSync w)) \<or>
     (0 < snapshotRecords w \<and> 0 < snapshotInterval (sw_cfg w) \<and>
       \<not> time_IsZero (if time_IsZero (lastSnapshot w) then firstSnapshotRecord w else lastSnapshot w))"

lemma paced_eventually:
  fixes now :: gotime
  assumes "pending" "0 < n" "0 < i" "\<not> time_IsZero start" "i \<le> MaxInt64" "zero_instant \<le> t_ns start"
  shows "\<exists>t. t_ns now \<le> t_ns t \<and> paced_due pending n limit i start retry t"
  using assms due_after(1) [of i start]
  by (intro exI [of _ "now\<lparr>t_ns := max (t_ns now) (max (t_ns retry) (t_ns (time_Add start i)))\<rparr>"])
     (auto simp: paced_due_def time_Before_def)

lemma pending_eventually:
  fixes now :: gotime
  assumes "readings_ok w" "work_pending w"
  shows "\<exists>t. t_ns now \<le> t_ns t \<and> work_due w t"
proof -
  consider (flush) "sw_writer w \<noteq> None" "0 < buffered w"
    | (sync) "sw_file w \<noteq> None" "0 < unsyncedRecords w" "0 < syncInterval (sw_cfg w)"
        "\<not> time_IsZero (if time_IsZero (lastSync w) then firstUnsyncedRecord w else lastSync w)"
    | (snapshot) "0 < snapshotRecords w" "0 < snapshotInterval (sw_cfg w)"
        "\<not> time_IsZero (if time_IsZero (lastSnapshot w) then firstSnapshotRecord w else lastSnapshot w)"
    using assms(2) unfolding work_pending_def by argo
  then show ?thesis
  proof cases
    case flush
    have due: "flushInterval (sw_cfg w) \<le> time_Sub t (lastFlush w)"
      if "0 < flushInterval (sw_cfg w)" "\<not> time_IsZero (lastFlush w)"
        "t_ns (time_Add (lastFlush w) (flushInterval (sw_cfg w))) \<le> t_ns t" for t
      using due_after(1) [of "flushInterval (sw_cfg w)" "lastFlush w" t] that assms(1)
      by (auto simp: readings_ok_def time_Before_def)
    show ?thesis
      using flush due unfolding work_due_def flushDue_def
      by (intro exI [of _ "now\<lparr>t_ns := max (t_ns now) (max (t_ns (flushRetryAt w))
            (t_ns (time_Add (lastFlush w) (flushInterval (sw_cfg w)))))\<rparr>"])
         (auto simp: time_Before_def not_less)
  next
    case sync
    then show ?thesis
      unfolding work_due_def syncDue_paced
      using paced_eventually [OF sync, of now] assms(1) by (auto simp: readings_ok_def split: if_splits)
  next
    case snapshot
    then show ?thesis
      unfolding work_due_def snapshotDue_paced
      using paced_eventually [OF _ snapshot, of True now] assms(1)
      by (auto simp: readings_ok_def split: if_splits)
  qed
qed

text \<open>
  What no timer can repair: a writer that has failed once refuses every later flush without
  trying, so that the retries after \<open>storageRetryDelay\<close> write nothing until the shard
  is closed.
\<close>

lemma failed_flush_stays_failed:
  assumes "sw_writer w = Some b" "bw_err b" "sw_file w = Some d" "0 < buffered w"
  shows "\<exists>w1 s1. sw_flush now w s = (False, w1, s1) \<and> sw_writer w1 = Some b \<and>
    disk_shards s1 = disk_shards s"
  using assms by (auto simp: sw_flush_def bw_Flush_def time_Now_def setStorageLastError_def split: list.splits)

text \<open>
  C39: the storage worker sleeps exactly as long as there is nothing to do.  At every moment
  from now on, a flush, a sync or a snapshot is due if and only if a timer is set and its
  deadline has been reached; the deadline is not in the past; and rows that wait in the
  buffer, or that wait for the end of a sync or snapshot interval, always have a timer, so
  they are written without another row having to arrive.
\<close>

theorem worker_wakes_when_work_is_due:
  assumes "zero_instant < t_ns now" "readings_ok w"
  shows "(\<forall>t. t_ns now \<le> t_ns t \<longrightarrow>
        (work_due w t \<longleftrightarrow>
         \<not> time_IsZero (nextDeadline w now) \<and> t_ns (nextDeadline w now) \<le> t_ns t)) \<and>
      (time_IsZero (nextDeadline w now) \<or> t_ns now \<le> t_ns (nextDeadline w now)) \<and>
      (work_pending w \<longrightarrow> \<not> time_IsZero (nextDeadline w now))"
proof -
  note ok = nextDeadline_ok [OF assms, unfolded from_deadline_def time_Before_def not_less]
  then show ?thesis using pending_eventually [OF assms(2), of now] by blast
qed

definition sample_worker :: storageWorkerState where
  "sample_worker = (new_worker \<lparr>cfg_dir = ''data'', flushInterval = 2000000000,
      snapshotInterval = 0, snapshotRecordInterval = 3, syncInterval = 5000000000,
      syncRecordInterval = 0, cfg_lastSnapshot = zero_time\<rparr>)
     \<lparr>sw_file := Some 0, sw_writer := Some NewWriter, loadedPath := Some 0,
      lastFlush := \<lparr>t_ns = 1000000000, t_off = 0\<rparr>, buffered := 1, unsyncedRecords := 2,
      firstUnsyncedRecord := \<lparr>t_ns = 1000000000, t_off = 0\<rparr>, snapshotRecords := 2\<rparr>"

lemma sample_worker_ok: "readings_ok sample_worker"
  by (simp add: sample_worker_def new_worker_def readings_ok_def zero_time_def zero_instant_def
      MaxInt64_def)

theorem worker_wakes_when_work_is_due_witness:
  "work_due sample_worker \<lparr>t_ns = 3000000000, t_off = 0\<rparr> \<and>
   \<not> work_due sample_worker \<lparr>t_ns = 2999999999, t_off = 0\<rparr>"
proof -
  have now: "zero_instant < t_ns \<lparr>t_ns = 1500000000, t_off = 0\<rparr>" by (simp add: zero_instant_def)
  have "nextDeadline sample_worker \<lparr>t_ns = 1500000000, t_off = 0\<rparr> = \<lparr>t_ns = 3000000000, t_off = 0\<rparr>"
    by code_simp
  then show ?thesis
    using worker_wakes_when_work_is_due [OF now sample_worker_ok]
    by (simp add: time_IsZero_def zero_instant_def)
qed

end
