(* ===== verification/StorageJournal.thy ===== *)
theory StorageJournal
  imports StorageWorker
begin

text \<open>
  What the storage worker guarantees of the journal on disk, whatever the clock reads and
  whichever calls fail: the invariant of the worker and its proof for every operation.
\<close>

section \<open>The clock and the parts of the world\<close>

definition clock_ok :: "'d world \<Rightarrow> bool" where
  "clock_ok s \<longleftrightarrow> sorted (map t_ns (os_now s # os_clock s)) \<and>
     (\<forall>t \<in> set (os_now s # os_clock s). zero_instant < t_ns t)"

text \<open>\<open>later s s1\<close>: time has passed and calls were made, no row has been recorded.\<close>

definition later :: "'d world \<Rightarrow> 'd world \<Rightarrow> bool" where
  "later s s1 \<longleftrightarrow> rows_recorded s1 = rows_recorded s \<and>
     (os_faults s = [] \<longrightarrow> os_faults s1 = []) \<and>
     (clock_ok s \<longrightarrow> clock_ok s1 \<and> t_ns (os_now s) \<le> t_ns (os_now s1))"

definition quiet :: "'d world \<Rightarrow> 'd world \<Rightarrow> bool" where
  "quiet s s1 \<longleftrightarrow> later s s1 \<and> disk_shards s1 = disk_shards s \<and> disk_snapshot s1 = disk_snapshot s"

lemma later_refl [simp]: "later s s" by (simp add: later_def)

lemma later_trans: "later s s1 \<Longrightarrow> later s1 s2 \<Longrightarrow> later s s2"
  by (auto simp: later_def)

lemma quiet_refl [simp]: "quiet s s" by (simp add: quiet_def)

lemma quiet_trans [trans]: "quiet s s1 \<Longrightarrow> quiet s1 s2 \<Longrightarrow> quiet s s2"
  by (auto simp: quiet_def intro: later_trans)

lemma later_disk [simp]:
  "later s (s1\<lparr>disk_shards := x\<rparr>) = later s s1" "later s (s1\<lparr>disk_snapshot := v\<rparr>) = later s s1"
  "later s (report w s1) = later s s1" "later s (setStorageLastError err s1) = later s s1"
  by (simp_all add: later_def clock_ok_def report_def setStorageLastError_def)

lemma report_disk [simp]:
  "disk_shards (report w s) = disk_shards s" "disk_snapshot (report w s) = disk_snapshot s"
  "os_now (report w s) = os_now s" "rows_recorded (report w s) = rows_recorded s"
  "os_now (setStorageLastError err s) = os_now s"
  by (simp_all add: report_def setStorageLastError_def)

lemma quiet_status [simp]: "quiet s (s1\<lparr>w_status := x\<rparr>) = quiet s s1"
  by (simp add: quiet_def later_def clock_ok_def)

lemma quiet_error [simp]: "quiet s (setStorageLastError err s1) = quiet s s1"
  by (simp add: setStorageLastError_def)

lemma quiet_report [simp]: "quiet s (report w s1) = quiet s s1"
  by (simp add: report_def)

lemma time_Now_ok:
  assumes "time_Now s = (t, s1)"
  shows "quiet s s1" "os_now s1 = t" "clock_ok s \<Longrightarrow> t_ns (os_now s) \<le> t_ns t"
    "clock_ok s \<Longrightarrow> \<not> time_IsZero t"
  using assms unfolding time_Now_def quiet_def later_def clock_ok_def
  by (auto simp: time_IsZero_def split: list.splits)

lemma os_call_ok:
  assumes "os_call s = (r, s1)"
  shows "quiet s s1" "os_faults s = [] \<Longrightarrow> r = None"
  using assms unfolding os_call_def quiet_def later_def clock_ok_def by (auto split: list.splits)

lemma os_ok_ok:
  assumes "os_ok s = (ok, s1)"
  shows "quiet s s1" "os_faults s = [] \<Longrightarrow> ok"
proof -
  obtain r s0 where call: "os_call s = (r, s0)" by fastforce
  show "quiet s s1" "os_faults s = [] \<Longrightarrow> ok"
    using assms os_call_ok [OF call] by (auto simp: os_ok_def call)
qed

lemma utc_day_eq: "utc_day t = t_ns t div 86400000000000"
  by (simp add: utc_day_def local_day_def local_seconds_def time_UTC_def zdiv_zmult2_eq [symmetric])

lemma utc_day_mono: "t_ns t \<le> t_ns u \<Longrightarrow> utc_day t \<le> utc_day u"
  unfolding utc_day_eq by (rule zdiv_mono1) simp_all

lemma parsed_before:
  "time_Before (parseStorageFileDate d) (time_Truncate (time_UTC t) (24 * time_Hour)) \<longleftrightarrow>
    d < utc_day t"
proof -
  define D :: int where "D = 86400000000000"
  have "t_ns t - zero_instant = t_ns t + 719162 * D"
    by (simp add: zero_instant_def D_def)
  then have "(t_ns t - zero_instant) mod D = t_ns t mod D"
    by (simp only: mod_mult_self1)
  then have trunc: "t_ns (time_Truncate (time_UTC t) (24 * time_Hour)) = D * (t_ns t div D)"
    using minus_mod_eq_mult_div [of "t_ns t" D]
    by (simp add: time_Truncate_def time_UTC_def time_Hour_def D_def)
  show ?thesis
    unfolding time_Before_def trunc utc_day_eq D_def [symmetric] parseStorageFileDate_def
    by (simp add: D_def)
qed

section \<open>The open shard\<close>

text \<open>The shard the worker has open is the last of the directory.\<close>

definition open_at :: "int \<Rightarrow> shard \<Rightarrow> (int, shard) gomap \<Rightarrow> 'd world \<Rightarrow> bool" where
  "open_at d f sh s \<longleftrightarrow> disk_shards s = sh @ [(d, f)] \<and> d \<notin> set (map fst sh)"

lemma put_last: "d \<notin> set (map fst sh) \<Longrightarrow> go_put d g (sh @ [(d, f)]) = sh @ [(d, g)]"
  by (induction sh) auto

lemma get_last: "d \<notin> set (map fst sh) \<Longrightarrow> go_get (sh @ [(d, f)]) d = Some f"
  by (induction sh) auto

lemma on_shard_open:
  assumes "open_at d f sh s"
  shows "on_shard d g s = s\<lparr>disk_shards := sh @ [(d, g f)]\<rparr>"
  using assms put_last [of d sh] get_last [of d sh] by (simp add: on_shard_def open_at_def)

text \<open>\<open>shard_only d sh f f1 s s1\<close>: of the disk, only the open shard may have changed.\<close>

definition shard_only :: "int \<Rightarrow> (int, shard) gomap \<Rightarrow> shard \<Rightarrow> shard \<Rightarrow> 'd world \<Rightarrow> 'd world \<Rightarrow> bool" where
  "shard_only d sh f f1 s s1 \<longleftrightarrow> open_at d f sh s \<and> open_at d f1 sh s1 \<and> later s s1 \<and>
     disk_snapshot s1 = disk_snapshot s"

lemma shard_only_quiet: "open_at d f sh s \<Longrightarrow> quiet s s1 \<Longrightarrow> shard_only d sh f f s s1"
  by (simp add: shard_only_def quiet_def open_at_def)

lemma shard_only_trans: "shard_only d sh f f1 s s1 \<Longrightarrow> shard_only d sh f1 f2 s1 s2 \<Longrightarrow> shard_only d sh f f2 s s2"
  by (auto simp: shard_only_def intro: later_trans)

lemma shard_only_open: "shard_only d sh f f1 s s1 \<Longrightarrow> open_at d f1 sh s1"
  by (simp add: shard_only_def)

lemma shard_only_faults: "shard_only d sh f f1 s s1 \<Longrightarrow> os_faults s = [] \<Longrightarrow> os_faults s1 = []"
  by (simp add: shard_only_def later_def)

lemma shard_only_status [simp]:
  "shard_only d sh f f1 s (setStorageLastError err s1) = shard_only d sh f f1 s s1"
  "shard_only d sh f f1 s (report w s1) = shard_only d sh f f1 s s1"
  by (simp_all add: shard_only_def open_at_def later_def clock_ok_def setStorageLastError_def report_def)

lemma shard_only_shard:
  assumes "open_at d f sh s" "quiet s s1"
  shows "shard_only d sh f (g f) s (on_shard d g s1)"
proof -
  have opened: "open_at d f sh s1" using assms by (simp add: quiet_def open_at_def)
  have "later s (s1\<lparr>disk_shards := x\<rparr>) = later s s1" for x
    by (simp add: later_def clock_ok_def)
  then show ?thesis
    unfolding on_shard_open [OF opened] using assms
    by (simp add: shard_only_def open_at_def quiet_def)
qed

lemma file_Write_ok:
  assumes "open_at d f sh s" "file_Write d p s = (ok, n, s1)"
  shows "shard_only d sh f (append_bytes (take n p) f) s s1" "os_faults s = [] \<Longrightarrow> ok"
proof -
  obtain r s0 where call: "os_call s = (r, s0)" by fastforce
  show "shard_only d sh f (append_bytes (take n p) f) s s1" "os_faults s = [] \<Longrightarrow> ok"
    using assms(2) shard_only_shard [OF assms(1) os_call_ok(1) [OF call]] os_call_ok(2) [OF call]
    by (auto simp: file_Write_def call min_def split: option.splits)
qed

lemma file_Sync_ok:
  assumes "open_at d f sh s" "file_Sync d s = (ok, s1)"
  shows "shard_only d sh f (if ok then mark_synced f else f) s s1" "os_faults s = [] \<Longrightarrow> ok"
proof -
  obtain r s0 where call: "os_call s = (r, s0)" by fastforce
  show "shard_only d sh f (if ok then mark_synced f else f) s s1" "os_faults s = [] \<Longrightarrow> ok"
    using assms(2) shard_only_shard [OF assms(1) os_call_ok(1) [OF call], of mark_synced]
      shard_only_quiet [OF assms(1) os_call_ok(1) [OF call]] os_call_ok(2) [OF call]
    by (auto simp: file_Sync_def call split: option.splits)
qed

lemma bw_Flush_ok:
  assumes "open_at d f sh s" "bw_Flush d b s = (ok, b1, s1)"
  shows "\<exists>f1. shard_only d sh f f1 s s1 \<and> sh_data f1 @ bw_buf b1 = sh_data f @ bw_buf b \<and>
    (ok \<longrightarrow> bw_buf b1 = []) \<and> bw_err b1 = (\<not> ok) \<and> (os_faults s = [] \<longrightarrow> \<not> bw_err b \<longrightarrow> ok)"
proof (cases "bw_err b \<or> bw_buf b = []")
  case True
  then show ?thesis
    using shard_only_quiet [OF assms(1) quiet_refl] assms(2)
    by (auto simp: bw_Flush_def split: if_splits)
next
  case False
  obtain ok0 n s0 where wrote: "file_Write d (bw_buf b) s = (ok0, n, s0)" by (metis prod_cases3)
  then have res: "ok = ok0" "b1 = b\<lparr>bw_buf := drop n (bw_buf b), bw_err := \<not> ok\<rparr>" "s1 = s0"
    using assms(2) False by (auto simp: bw_Flush_def)
  show ?thesis
    using file_Write_ok [OF assms(1) wrote] file_Write_result [OF wrote] False unfolding res
    by (intro exI [of _ "append_bytes (take n (bw_buf b)) f"]) (auto simp: append_bytes_def)
qed

lemma bw_Write_ok:
  assumes "open_at d f sh s" "bw_Write d p b s = (ok, b1, s1)"
  shows "\<exists>f1 q. shard_only d sh f f1 s s1 \<and> prefix q p \<and>
    sh_data f1 @ bw_buf b1 = sh_data f @ bw_buf b @ q \<and> (ok \<longrightarrow> q = p) \<and>
    (ok \<longrightarrow> \<not> bw_err b1) \<and> (os_faults s = [] \<longrightarrow> \<not> bw_err b \<longrightarrow> ok)"
  using assms
proof (induction d p b s arbitrary: f rule: bw_Write.induct)
  case (1 d p b s)
  show ?case
  proof (cases "bufSize - length (bw_buf b) < length p \<and> \<not> bw_err b")
    case False
    have res: "(ok, b1, s1) = (if bw_err b then (False, b, s) else (True, b\<lparr>bw_buf := bw_buf b @ p\<rparr>, s))"
      using 1(4) unfolding bw_Write.simps [of d p b s] if_not_P [OF False] by (rule sym)
    have kept: "shard_only d sh f f s s" by (rule shard_only_quiet [OF 1(3) quiet_refl])
    show ?thesis
      by (rule exI [of _ f], rule exI [of _ "if bw_err b then [] else p"])
         (use res kept in \<open>auto split: if_splits\<close>)
  next
    case long: True
    show ?thesis
    proof (cases "bw_buf b = []")
      case True
      obtain ok0 n s0 where wrote: "file_Write d p s = (ok0, n, s0)" by (metis prod_cases3)
      have rest: "bw_Write d (drop n p) (b\<lparr>bw_err := \<not> ok0\<rparr>) s0 = (ok, b1, s1)"
        using 1(4) long True wrote by (subst (asm) bw_Write.simps) simp
      note step = file_Write_ok [OF 1(3) wrote]
      from 1(1) [OF long True wrote [symmetric] refl shard_only_open [OF step(1)] rest]
      obtain f1 q where q: "shard_only d sh (append_bytes (take n p) f) f1 s0 s1" "prefix q (drop n p)"
        "sh_data f1 @ bw_buf b1 = sh_data (append_bytes (take n p) f) @ bw_buf b @ q"
        "ok \<longrightarrow> q = drop n p" "ok \<longrightarrow> \<not> bw_err b1" "os_faults s0 = [] \<longrightarrow> ok0 \<longrightarrow> ok"
        by auto
      show ?thesis
        using shard_only_trans [OF step(1) q(1)] q(2-) step(2) shard_only_faults [OF step(1)] True
        by (intro exI [of _ f1] exI [of _ "take n p @ q"])
           (auto simp: append_bytes_def same_prefix_prefix [of "take n p" q "drop n p", simplified])
    next
      case False
      define n where "n = bufSize - length (bw_buf b)"
      obtain ok0 b0 s0 where flush: "bw_Flush d (b\<lparr>bw_buf := bw_buf b @ take n p\<rparr>) s = (ok0, b0, s0)"
        by (metis prod_cases3)
      have rest: "bw_Write d (drop n p) b0 s0 = (ok, b1, s1)"
        using 1(4) long False flush by (subst (asm) bw_Write.simps) (simp add: n_def [symmetric])
      obtain f0 where step: "shard_only d sh f f0 s s0"
        "sh_data f0 @ bw_buf b0 = sh_data f @ bw_buf b @ take n p"
        "bw_err b0 = (\<not> ok0)" "os_faults s = [] \<Longrightarrow> ok0"
        using bw_Flush_ok [OF 1(3) flush] long by auto
      from 1(2) [OF long False n_def flush [symmetric] refl shard_only_open [OF step(1)] rest]
      obtain f1 q where q: "shard_only d sh f0 f1 s0 s1" "prefix q (drop n p)"
        "sh_data f1 @ bw_buf b1 = sh_data f0 @ bw_buf b0 @ q"
        "ok \<longrightarrow> q = drop n p" "ok \<longrightarrow> \<not> bw_err b1" "os_faults s0 = [] \<longrightarrow> \<not> bw_err b0 \<longrightarrow> ok"
        by blast
      show ?thesis
        using shard_only_trans [OF step(1) q(1)] q(2-) step shard_only_faults [OF step(1)]
        by (intro exI [of _ f1] exI [of _ "take n p @ q"])
           (auto simp: same_prefix_prefix [of "take n p" q "drop n p", simplified])
    qed
  qed
qed

section \<open>The invariant\<close>

definition enc_all :: "('d \<Rightarrow> string option) \<Rightarrow> 'd list \<Rightarrow> string" where
  "enc_all enc xs = concat (List.map_filter enc xs)"

lemma enc_all_append: "enc_all enc (xs @ ys) = enc_all enc xs @ enc_all enc ys"
  by (simp add: enc_all_def map_filter_def)

text \<open>
  A closed shard holds the encodings of its rows, one after the other; a failed call may have
  cut off their end.  It is whole when no call has failed (\<open>c\<close>) and when its day is not
  before \<open>since\<close>.
\<close>

definition closed_shard :: "('d \<Rightarrow> string option) \<Rightarrow> bool \<Rightarrow> int \<Rightarrow> int \<times> shard \<Rightarrow> int \<times> 'd list \<Rightarrow> bool"
where
  "closed_shard enc c since x y \<longleftrightarrow> fst x = fst y \<and>
     prefix (sh_data (snd x)) (enc_all enc (snd y)) \<and>
     (c \<or> since \<le> fst x \<longrightarrow> sh_data (snd x) = enc_all enc (snd y)) \<and>
     (c \<longrightarrow> sh_synced (snd x) = length (sh_data (snd x)))"

text \<open>The open shard, with what the writer has in its buffer.\<close>

definition open_shard_ok :: "('d \<Rightarrow> string option) \<Rightarrow> bool \<Rightarrow> shard \<Rightarrow> bufio_Writer \<Rightarrow> bool \<Rightarrow> 'd list \<Rightarrow> bool"
where
  "open_shard_ok enc c f b failed xs \<longleftrightarrow>
     prefix (sh_data f @ bw_buf b) (enc_all enc xs) \<and>
     (\<not> failed \<longrightarrow> sh_data f @ bw_buf b = enc_all enc xs) \<and>
     (c \<longrightarrow> \<not> failed \<and> \<not> bw_err b)"

definition handle :: "storageWorkerState \<Rightarrow> (int \<times> bufio_Writer \<times> bool) option" where
  "handle w = (case (sw_file w, sw_writer w) of
      (Some d, Some b) \<Rightarrow> Some (d, b, sw_encodeErr w)
    | _ \<Rightarrow> None)"

definition handle_ok :: "storageWorkerState \<Rightarrow> bool" where
  "handle_ok w \<longleftrightarrow> loadedPath w = sw_file w \<and> (sw_writer w = None \<longleftrightarrow> sw_file w = None)"

definition shards_ok :: "('d \<Rightarrow> string option) \<Rightarrow> bool \<Rightarrow> int \<Rightarrow> (int \<times> 'd list) list \<Rightarrow>
    (int \<times> bufio_Writer \<times> bool) option \<Rightarrow> (int, shard) gomap \<Rightarrow> bool" where
  "shards_ok enc c since kept h shards = (case h of
      None \<Rightarrow> list_all2 (closed_shard enc c since) shards kept
    | Some (d, b, failed) \<Rightarrow> \<exists>sh f ks xs. shards = sh @ [(d, f)] \<and> kept = ks @ [(d, xs)] \<and>
        list_all2 (closed_shard enc c since) sh ks \<and> open_shard_ok enc c f b failed xs)"

definition snap_rows :: "'d world \<Rightarrow> 'd set" where
  "snap_rows s = (case disk_snapshot s of None \<Rightarrow> {} | Some v \<Rightarrow> set (sn_rows v))"

text \<open>
  \<open>done\<close> are the rows the worker has been given, with those of the journal it started
  from; \<open>gone\<close> those of the shards it has removed, \<open>kept\<close> those of the shards on disk.
\<close>

definition rows_ok :: "bool \<Rightarrow> 'd list \<Rightarrow> 'd list \<Rightarrow> (int \<times> 'd list) list \<Rightarrow> 'd world \<Rightarrow> bool" where
  "rows_ok c given gone kept s \<longleftrightarrow>
     subseq (gone @ concat (map snd kept)) given \<and>
     (c \<longrightarrow> gone @ concat (map snd kept) = given \<and> os_faults s = []) \<and>
     set gone \<subseteq> snap_rows s \<and> snap_rows s \<subseteq> set (rows_recorded s) \<and>
     set given \<subseteq> set (rows_recorded s)"

definition days_ok :: "'d world \<Rightarrow> bool" where
  "days_ok s \<longleftrightarrow> clock_ok s \<and> sorted_wrt (<) (go_keys (disk_shards s)) \<and>
     (\<forall>d \<in> set (go_keys (disk_shards s)). d \<le> utc_day (os_now s))"

definition journal_ok :: "('d \<Rightarrow> string option) \<Rightarrow> bool \<Rightarrow> int \<Rightarrow> 'd list \<Rightarrow> 'd list \<Rightarrow>
    (int \<times> 'd list) list \<Rightarrow> storageWorkerState \<Rightarrow> 'd world \<Rightarrow> bool" where
  "journal_ok enc c since given gone kept w s \<longleftrightarrow> handle_ok w \<and>
     shards_ok enc c since kept (handle w) (disk_shards s) \<and> days_ok s \<and>
     rows_ok c given gone kept s"

lemma rows_ok_cong:
  "\<lbrakk>rows_ok c given gone kept s; disk_snapshot s1 = disk_snapshot s; later s s1\<rbrakk> \<Longrightarrow>
    rows_ok c given gone kept s1"
  by (auto simp: rows_ok_def snap_rows_def later_def)

lemma days_ok_cong:
  assumes "days_ok s" "go_keys (disk_shards s1) = go_keys (disk_shards s)" "later s s1"
  shows "days_ok s1"
proof -
  have "utc_day (os_now s) \<le> utc_day (os_now s1)" "clock_ok s1"
    using assms(1,3) by (auto simp: days_ok_def later_def intro: utc_day_mono)
  then show ?thesis using assms(1,2) unfolding days_ok_def by fastforce
qed

lemma journal_quiet:
  assumes "journal_ok enc c since given gone kept w s" "quiet s s1" "handle_ok w1" "handle w1 = handle w"
  shows "journal_ok enc c since given gone kept w1 s1"
  using assms rows_ok_cong [of c given gone kept s s1] days_ok_cong [of s s1]
  by (simp add: journal_ok_def quiet_def)

lemma journal_days: "journal_ok enc c since given gone kept w s \<Longrightarrow> days_ok s"
  by (simp add: journal_ok_def)

lemma handle_None: "handle_ok w \<Longrightarrow> sw_file w = None \<Longrightarrow> handle w = None"
  by (simp add: handle_def handle_ok_def)

lemma handle_Some:
  "handle w = Some (d, b, e) \<longleftrightarrow> sw_file w = Some d \<and> sw_writer w = Some b \<and> sw_encodeErr w = e"
  by (auto simp: handle_def split: option.splits)

lemma handle_open:
  assumes "handle_ok w" "sw_file w = Some d"
  obtains b where "sw_writer w = Some b" "handle w = Some (d, b, sw_encodeErr w)"
  using assms by (auto simp: handle_def handle_ok_def)

lemma journal_open:
  assumes "journal_ok enc c since given gone kept w s" "handle w = Some (d, b, e)"
  obtains sh f ks xs where "open_at d f sh s" "kept = ks @ [(d, xs)]"
    "list_all2 (closed_shard enc c since) sh ks" "open_shard_ok enc c f b e xs"
proof -
  obtain sh f ks xs where parts: "disk_shards s = sh @ [(d, f)]" "kept = ks @ [(d, xs)]"
    "list_all2 (closed_shard enc c since) sh ks" "open_shard_ok enc c f b e xs"
    using assms unfolding journal_ok_def shards_ok_def by auto
  have "sorted_wrt (<) (go_keys (disk_shards s))" using assms(1) by (simp add: journal_ok_def days_ok_def)
  then have "d \<notin> set (map fst sh)" using parts(1) by (auto simp: sorted_wrt_append)
  then show thesis using that parts by (simp add: open_at_def)
qed

text \<open>The open shard is rewritten, with a new writer and possibly new rows.\<close>

lemma journal_rewrite:
  assumes "journal_ok enc c since given gone (ks @ [(d, xs)]) w s" "handle w = Some (d, b, e)"
    and "list_all2 (closed_shard enc c since) sh ks" "shard_only d sh f f1 s s1"
    and "open_shard_ok enc c f1 b1 e1 (xs @ ys)" "subseq ys zs" "c \<Longrightarrow> ys = zs"
    and "handle_ok w1" "handle w1 = Some (d, b1, e1)" "set zs \<subseteq> set (rows_recorded s)"
  shows "journal_ok enc c since (given @ zs) gone (ks @ [(d, xs @ ys)]) w1 s1"
proof -
  have opened: "disk_shards s = sh @ [(d, f)]" "disk_shards s1 = sh @ [(d, f1)]"
    and frame: "later s s1" "disk_snapshot s1 = disk_snapshot s"
    using assms(4) by (simp_all add: shard_only_def open_at_def)
  have rows: "rows_ok c given gone (ks @ [(d, xs)]) s" "days_ok s"
    using assms(1) by (simp_all add: journal_ok_def)
  have "rows_ok c (given @ zs) gone (ks @ [(d, xs @ ys)]) s"
    using rows(1) assms(6,7,10) list_emb_append_mono [of "(=)" "gone @ concat (map snd ks) @ xs" given ys zs]
    by (auto simp: rows_ok_def)
  then have "rows_ok c (given @ zs) gone (ks @ [(d, xs @ ys)]) s1"
    by (rule rows_ok_cong) (use frame in simp_all)
  moreover have "days_ok s1"
    by (rule days_ok_cong [OF rows(2) _ frame(1)]) (simp add: opened)
  ultimately show ?thesis
    using assms(3,5,8,9) opened(2) unfolding journal_ok_def shards_ok_def by auto
qed

section \<open>Flush and sync\<close>

lemma journal_rewrite_same:
  assumes "journal_ok enc c since given gone (ks @ [(d, xs)]) w s" "handle w = Some (d, b, e)"
    and "list_all2 (closed_shard enc c since) sh ks" "shard_only d sh f f1 s s1"
    and "open_shard_ok enc c f1 b1 e1 xs" "handle_ok w1" "handle w1 = Some (d, b1, e1)"
  shows "journal_ok enc c since given gone (ks @ [(d, xs)]) w1 s1"
  using journal_rewrite [OF assms(1-4), of b1 e1 "[]" "[]" w1] assms(5-7) by simp

lemma shard_only_later: "shard_only d sh f f1 s s1 \<Longrightarrow> later s s1"
  by (simp add: shard_only_def)

lemma quiet_later: "quiet s s1 \<Longrightarrow> later s s1"
  by (simp add: quiet_def)

lemma sw_flush_ok:
  assumes "journal_ok enc c since given gone kept w s" "sw_flush now w s = (ok, w1, s1)"
  shows "journal_ok enc c since given gone kept w1 s1 \<and> later s s1 \<and> sw_cfg w1 = sw_cfg w \<and>
    sw_file w1 = sw_file w \<and> (c \<longrightarrow> ok)"
proof (cases "(\<exists>b d. sw_writer w = Some b \<and> sw_file w = Some d) \<and> 0 < buffered w")
  case False
  then have "ok" "w1 = w" "s1 = s" using assms(2) by (auto simp: sw_flush_def split: option.splits)
  then show ?thesis using assms(1) by simp
next
  case True
  then obtain b d where handles: "sw_writer w = Some b" "sw_file w = Some d" by blast
  then have view: "handle w = Some (d, b, sw_encodeErr w)" by (simp add: handle_Some)
  obtain sh f ks xs where opened: "open_at d f sh s" "kept = ks @ [(d, xs)]"
    "list_all2 (closed_shard enc c since) sh ks" "open_shard_ok enc c f b (sw_encodeErr w) xs"
    using journal_open [OF assms(1) view] by metis
  obtain ok0 b1 s0 where flush: "bw_Flush d b s = (ok0, b1, s0)" by (metis prod_cases3)
  obtain f1 where f1: "shard_only d sh f f1 s s0" "sh_data f1 @ bw_buf b1 = sh_data f @ bw_buf b"
    "bw_err b1 = (\<not> ok0)" "os_faults s = [] \<longrightarrow> \<not> bw_err b \<longrightarrow> ok0"
    using bw_Flush_ok [OF opened(1) flush] by blast
  have faults: "c \<Longrightarrow> os_faults s = []" using assms(1) by (simp add: journal_ok_def rows_ok_def)
  have shard: "open_shard_ok enc c f1 b1 (sw_encodeErr w) xs"
    using opened(4) f1(2-4) faults unfolding open_shard_ok_def by auto
  obtain t s2 where now: "time_Now s0 = (t, s2)" by fastforce
  have "shard_only d sh f f1 s s2"
    using shard_only_trans [OF f1(1) shard_only_quiet [OF shard_only_open [OF f1(1)] time_Now_ok(1) [OF now]]] .
  then have step: "shard_only d sh f f1 s s1"
    using assms(2) f1(1) True by (auto simp: sw_flush_def handles flush now Let_def split: if_splits)
  have fields: "sw_file w1 = Some d" "sw_writer w1 = Some b1" "sw_encodeErr w1 = sw_encodeErr w"
    "loadedPath w1 = loadedPath w" "sw_cfg w1 = sw_cfg w" "ok = ok0"
    using assms(2) True by (auto simp: sw_flush_def handles flush now Let_def split: if_splits)
  have "handle_ok w1" using assms(1) handles fields by (simp add: journal_ok_def handle_ok_def)
  then show ?thesis
    using journal_rewrite_same [OF assms(1) [unfolded opened(2)] view opened(3) step shard] fields
      opened(2,4) f1(4) faults shard_only_later [OF step] handles(2)
    by (auto simp: handle_Some open_shard_ok_def)
qed

lemma mark_synced_ok: "open_shard_ok enc c (mark_synced f) b e xs = open_shard_ok enc c f b e xs"
  by (simp add: open_shard_ok_def mark_synced_def)

lemma sw_sync_ok:
  assumes "journal_ok enc c since given gone kept w s" "sw_sync now w s = (ok, w1, s1)"
  shows "journal_ok enc c since given gone kept w1 s1 \<and> later s s1 \<and> sw_cfg w1 = sw_cfg w \<and>
    sw_file w1 = sw_file w"
proof (cases "\<exists>d. sw_file w = Some d \<and> 0 < unsyncedRecords w")
  case False
  then have "w1 = w" "s1 = s" using assms(2) by (auto simp: sw_sync_def split: option.splits)
  then show ?thesis using assms(1) by simp
next
  case True
  then obtain d where open_d: "sw_file w = Some d" by blast
  obtain ok0 w0 s0 where flush: "sw_flush now w s = (ok0, w0, s0)" by (metis prod_cases3)
  note flushed = sw_flush_ok [OF assms(1) flush]
  then have open0: "handle_ok w0" "sw_file w0 = Some d" using open_d by (simp_all add: journal_ok_def)
  obtain b where b: "sw_writer w0 = Some b" "handle w0 = Some (d, b, sw_encodeErr w0)"
    using handle_open [OF open0] by metis
  obtain t s2 where now: "time_Now s0 = (t, s2)" by fastforce
  obtain ok2 s3 where sync: "file_Sync d s0 = (ok2, s3)" by fastforce
  obtain t' s4 where now': "time_Now s3 = (t', s4)" by fastforce
  obtain sh f ks xs where opened: "open_at d f sh s0" "kept = ks @ [(d, xs)]"
    "list_all2 (closed_shard enc c since) sh ks" "open_shard_ok enc c f b (sw_encodeErr w0) xs"
    using journal_open [OF conjunct1 [OF flushed] b(2)] by metis
  define f1 where "f1 = (if ok2 then mark_synced f else f)"
  have step: "shard_only d sh f f1 s0 s3" unfolding f1_def by (rule file_Sync_ok(1) [OF opened(1) sync])
  have later': "shard_only d sh f f1 s0 s4"
    using shard_only_trans [OF step shard_only_quiet [OF shard_only_open [OF step] time_Now_ok(1) [OF now']]] .
  have fields: "sw_file w1 = sw_file w0" "sw_writer w1 = sw_writer w0" "sw_encodeErr w1 = sw_encodeErr w0"
    "loadedPath w1 = loadedPath w0" "sw_cfg w1 = sw_cfg w0"
    using assms(2) True by (auto simp: sw_sync_def open_d flush now sync now' Let_def split: if_splits)
  then have view: "handle_ok w1" "handle w1 = handle w0"
    using open0 by (simp_all add: handle_ok_def handle_def split: option.splits)
  have "quiet s0 s1 \<or> shard_only d sh f f1 s0 s1"
    using assms(2) True time_Now_ok(1) [OF now] step later'
    by (auto simp: sw_sync_def open_d flush now sync now' Let_def split: if_splits)
  moreover have "open_shard_ok enc c f1 b (sw_encodeErr w0) xs"
    using opened(4) by (simp add: f1_def mark_synced_ok)
  ultimately have "journal_ok enc c since given gone kept w1 s1 \<and> later s0 s1"
    using journal_quiet [OF conjunct1 [OF flushed] _ view]
      journal_rewrite_same [OF conjunct1 [OF flushed, unfolded opened(2)] b(2) opened(3) _ _ view(1)]
      view(2) b(2) quiet_later shard_only_later opened(2) by metis
  then show ?thesis using flushed fields by (auto intro: later_trans)
qed

section \<open>Snapshot and compaction\<close>

lemma compact_skip:
  "\<forall>d \<in> set ds. \<not> time_Before (parseStorageFileDate d) day \<or> keep = Some d \<Longrightarrow>
    compact_shards ds day keep n s = (n, True, s)"
  by (induction ds) auto

lemma delete_first: "sorted_wrt (<) (map fst ((d, f) # sh)) \<Longrightarrow> go_del (d :: int) ((d, f) # sh) = sh"
  by (induction sh) (auto simp: AList.delete_eq)

text \<open>What compaction removes is an initial part of the directory, all of it of earlier days.\<close>

lemma compact_shards_ok:
  assumes "compact_shards (go_keys (disk_shards s)) (time_Truncate (time_UTC t) (24 * time_Hour)) keep n s
      = (n1, ok, s1)"
    and "sorted_wrt (<) (go_keys (disk_shards s))"
    and "\<forall>d \<in> set (go_keys (disk_shards s)). keep = Some d \<longrightarrow> (\<forall>d' \<in> set (go_keys (disk_shards s)). d' \<le> d)"
  shows "later s s1 \<and> disk_snapshot s1 = disk_snapshot s \<and>
    (\<exists>k. disk_shards s1 = drop k (disk_shards s) \<and>
      (\<forall>x \<in> set (take k (disk_shards s)). keep \<noteq> Some (fst x)))"
  using assms
proof (induction "disk_shards s" arbitrary: s n)
  case Nil
  then show ?case by auto
next
  case (Cons x sh)
  obtain d f where x: "x = (d, f)" by fastforce
  have shards: "disk_shards s = (d, f) # sh" using Cons(2) x by simp
  have rest: "d < d'" if "d' \<in> set (map fst sh)" for d' using Cons(4) that by (auto simp: shards)
  show ?case
  proof (cases "utc_day t \<le> d \<or> keep = Some d")
    case True
    have "\<forall>d' \<in> set (go_keys (disk_shards s)).
        \<not> time_Before (parseStorageFileDate d') (time_Truncate (time_UTC t) (24 * time_Hour)) \<or> keep = Some d'"
    proof (cases "keep = Some d")
      case True
      then have "sh = []" using Cons(5) rest by (cases sh) (fastforce simp: shards)+
      then show ?thesis using True by (simp add: shards)
    next
      case False
      then have "utc_day t \<le> d" using True by simp
      then have "\<not> d' < utc_day t" if "d' \<in> set (go_keys (disk_shards s))" for d'
      proof -
        have "d' = d \<or> d' \<in> set (map fst sh)" using that by (simp add: shards)
        then show ?thesis using \<open>utc_day t \<le> d\<close> rest by fastforce
      qed
      then show ?thesis unfolding parsed_before by blast
    qed
    from Cons(3) [unfolded compact_skip [OF this]] have "s1 = s" by simp
    then show ?thesis by (auto intro: exI [of _ 0])
  next
    case False
    obtain ok0 s0 where call: "os_ok s = (ok0, s0)" by fastforce
    note quiet = os_ok_ok(1) [OF call]
    define s2 where "s2 = s0\<lparr>disk_shards := sh\<rparr>"
    have del: "go_del d (disk_shards s0) = sh"
      using quiet delete_first [of d f sh] Cons(4) by (simp add: quiet_def shards)
    have before: "time_Before (parseStorageFileDate d) (time_Truncate (time_UTC t) (24 * time_Hour))"
      using False unfolding parsed_before by simp
    have step: "compact_shards (d # go_keys sh) (time_Truncate (time_UTC t) (24 * time_Hour)) keep n s =
        (if \<not> ok0 then (n, False, s0)
         else compact_shards (go_keys sh) (time_Truncate (time_UTC t) (24 * time_Hour)) keep (n + 1) s2)"
      using False before by (simp add: call s2_def del)
    show ?thesis
    proof (cases ok0)
      case True
      have "compact_shards (go_keys (disk_shards s2)) (time_Truncate (time_UTC t) (24 * time_Hour)) keep (n + 1) s2
          = (n1, ok, s1)"
        using Cons(3) step True by (simp add: shards s2_def)
      moreover have "sorted_wrt (<) (go_keys (disk_shards s2))" using Cons(4) by (simp add: shards s2_def)
      moreover have "\<forall>d \<in> set (go_keys (disk_shards s2)). keep = Some d \<longrightarrow>
          (\<forall>d' \<in> set (go_keys (disk_shards s2)). d' \<le> d)"
        using Cons(5) by (auto simp: shards s2_def)
      ultimately obtain k where k: "later s2 s1" "disk_snapshot s1 = disk_snapshot s2"
        "disk_shards s1 = drop k (disk_shards s2)"
        "\<forall>x \<in> set (take k (disk_shards s2)). keep \<noteq> Some (fst x)"
        using Cons(1) [of s2 "n + 1"] by (auto simp: s2_def)
      have "later s s2" using quiet by (simp add: quiet_def s2_def)
      then have "later s s1" by (rule later_trans [OF _ k(1)])
      moreover have "disk_snapshot s1 = disk_snapshot s" using k(2) quiet by (simp add: s2_def quiet_def)
      moreover have "disk_shards s1 = drop (Suc k) (disk_shards s)" using k(3) by (simp add: s2_def shards)
      moreover have "\<forall>x \<in> set (take (Suc k) (disk_shards s)). keep \<noteq> Some (fst x)"
        using k(4) False by (simp add: s2_def shards)
      ultimately show ?thesis by blast
    next
      case False
      then have "s1 = s0" using Cons(3) step by (simp add: shards)
      then show ?thesis using quiet by (auto simp: quiet_def intro: exI [of _ 0])
    qed
  qed
qed

lemma writeStorageSnapshot_ok:
  assumes "writeStorageSnapshot dir view s = (ok, s1)" "go_TrimSpace dir \<noteq> []"
  shows "later s s1 \<and> disk_shards s1 = disk_shards s \<and>
    disk_snapshot s1 = (if ok then Some view else disk_snapshot s) \<and> (os_faults s = [] \<longrightarrow> ok)"
proof -
  obtain r1 a1 where c1: "os_ok s = (r1, a1)" by fastforce
  obtain r2 a2 where c2: "os_ok a1 = (r2, a2)" by fastforce
  obtain r3 a3 where c3: "os_ok a2 = (r3, a3)" by fastforce
  obtain r4 a4 where c4: "(if r3 then os_ok a3 else (False, a3)) = (r4, a4)" by fastforce
  obtain r5 a5 where c5: "os_ok a4 = (r5, a5)" by fastforce
  obtain r6 a6 where c6: "os_ok a5 = (r6, a6)" by fastforce
  note q1 = os_ok_ok [OF c1] and q2 = os_ok_ok [OF c2] and q3 = os_ok_ok [OF c3]
    and q5 = os_ok_ok [OF c5] and q6 = os_ok_ok [OF c6]
  have q4: "quiet a3 a4" "r3 \<Longrightarrow> os_faults a3 = [] \<Longrightarrow> r4"
    using c4 os_ok_ok [of a3 r4 a4] by (auto split: if_splits)
  have quiets: "quiet s a1" "quiet s a2" "quiet s a5" "quiet s a6"
    using q1(1) q2(1) q3(1) q4(1) q5(1) q6(1) by (meson quiet_trans)+
  have clean: "os_faults s = [] \<Longrightarrow> os_faults a1 = [] \<and> os_faults a2 = [] \<and> os_faults a3 = [] \<and>
      os_faults a4 = [] \<and> os_faults a5 = []"
    using q1(1) q2(1) q3(1) q4(1) q5(1) by (simp add: quiet_def later_def)
  have res: "(ok, s1) = (if \<not> r1 then (False, a1) else if \<not> r2 then (False, a2)
      else if \<not> (r4 \<and> r5) then (False, a5) else if \<not> r6 then (False, a6)
      else (True, a6\<lparr>disk_snapshot := Some view\<rparr>))"
    by (simp only: assms(1) [symmetric] writeStorageSnapshot_def if_not_P [OF assms(2)]
        c1 c2 c3 c4 c5 c6 prod.case)
  have last_step: "later s (a6\<lparr>disk_snapshot := Some view\<rparr>) \<and> disk_shards a6 = disk_shards s"
    using quiets(4) by (simp add: quiet_def)
  show ?thesis
    using res quiets last_step clean q1(2) q2(2) q3(2) q4(2) q5(2) q6(2)
    by (auto simp: quiet_def split: if_splits)
qed

lemma shards_ok_drop:
  assumes "shards_ok enc c since kept h shards"
    and "\<forall>x \<in> set (take k shards). \<forall>d b e. h = Some (d, b, e) \<longrightarrow> fst x \<noteq> d"
  shows "shards_ok enc c since (drop k kept) h (drop k shards)"
proof (cases h)
  case None
  then show ?thesis using assms(1) by (simp add: shards_ok_def list_all2_dropI)
next
  case (Some y)
  obtain d b e where h: "h = Some (d, b, e)" using Some by (cases y) auto
  obtain sh f ks xs where parts: "shards = sh @ [(d, f)]" "kept = ks @ [(d, xs)]"
    "list_all2 (closed_shard enc c since) sh ks" "open_shard_ok enc c f b e xs"
    using assms(1) unfolding shards_ok_def h by auto
  have "k \<le> length sh"
  proof (rule ccontr)
    assume "\<not> k \<le> length sh"
    then have "(d, f) \<in> set (take k shards)" by (simp add: parts(1))
    then show False using assms(2) h by auto
  qed
  moreover have "length sh = length ks" using parts(3) by (rule list_all2_lengthD)
  ultimately show ?thesis
    using parts h by (auto simp: shards_ok_def intro: list_all2_dropI)
qed

lemma updateStorageCompaction_ok: "quiet s (updateStorageCompaction n t s)"
proof -
  obtain t1 s1 where "(if time_IsZero t then time_Now s else (t, s)) = (t1, s1)" by fastforce
  moreover from this have "quiet s s1" using time_Now_ok(1) [of s t1 s1] by (auto split: if_splits)
  ultimately show ?thesis by (simp add: updateStorageCompaction_def)
qed

lemma rows_ok_drop:
  assumes "rows_ok c given gone kept s" "disk_snapshot s1 = Some v" "set (sn_rows v) = set (rows_recorded s1)"
    and "later s s1"
  shows "rows_ok c given (gone @ concat (map snd (take k kept))) (drop k kept) s1"
proof -
  have "concat (map snd (take k kept)) @ concat (map snd (drop k kept)) = concat (map snd kept)"
    by (metis append_take_drop_id concat_append map_append)
  then have split: "(gone @ concat (map snd (take k kept))) @ concat (map snd (drop k kept)) =
      gone @ concat (map snd kept)"
    by simp
  have sub: "subseq (gone @ concat (map snd kept)) given" using assms(1) by (simp add: rows_ok_def)
  have "set (gone @ concat (map snd kept)) \<subseteq> set given"
    using list_emb_set [OF sub] by auto
  moreover have "set (concat (map snd (take k kept))) \<subseteq> set (concat (map snd kept))"
    using set_take_subset [of k kept] by auto
  ultimately have "set (gone @ concat (map snd (take k kept))) \<subseteq> set given" by auto
  moreover have "rows_recorded s1 = rows_recorded s" "os_faults s = [] \<Longrightarrow> os_faults s1 = []"
    using assms(4) by (simp_all add: later_def)
  ultimately show ?thesis
    using assms(1-3) unfolding rows_ok_def split by (auto simp: snap_rows_def)
qed

lemma days_ok_drop:
  assumes "days_ok s" "disk_shards s1 = drop k (disk_shards s)" "later s s1"
  shows "days_ok s1"
proof -
  have time: "utc_day (os_now s) \<le> utc_day (os_now s1)" "clock_ok s1"
    using assms(1,3) by (auto simp: days_ok_def later_def intro: utc_day_mono)
  have "go_keys (disk_shards s1) = drop k (go_keys (disk_shards s))" by (simp add: assms(2) drop_map)
  then have "sorted_wrt (<) (go_keys (disk_shards s1))"
    and sub: "set (go_keys (disk_shards s1)) \<subseteq> set (go_keys (disk_shards s))"
    using assms(1) set_drop_subset by (simp_all add: days_ok_def sorted_wrt_drop del: set_map)
  moreover have "d \<le> utc_day (os_now s1)" if "d \<in> set (go_keys (disk_shards s1))" for d
    using that sub assms(1) time(1) unfolding days_ok_def by (meson order_trans subsetD)
  ultimately show ?thesis using assms(1) time unfolding days_ok_def by simp
qed

lemma sw_writeSnapshot_ok:
  assumes "journal_ok enc c since given gone kept w s" "sw_writeSnapshot now w s = (ok, w1, s1)"
  shows "\<exists>gone1 kept1. journal_ok enc c since given gone1 kept1 w1 s1 \<and> later s s1 \<and>
    sw_cfg w1 = sw_cfg w \<and> sw_file w1 = sw_file w \<and>
    set (go_keys (disk_shards s1)) \<subseteq> set (go_keys (disk_shards s)) \<and>
    (c \<and> go_TrimSpace (cfg_dir (sw_cfg w)) \<noteq> [] \<longrightarrow>
      (\<exists>v. disk_snapshot s1 = Some v \<and> sn_rows v = rows_recorded s1))"
proof (cases "go_TrimSpace (cfg_dir (sw_cfg w)) = []")
  case True
  then show ?thesis using assms by (auto simp: sw_writeSnapshot_def)
next
  case False
  obtain now1 a1 where n1: "(if time_IsZero now then time_Now s else (now, s)) = (now1, a1)" by fastforce
  obtain pr a2 where n2: "time_Now a1 = (pr, a2)" by fastforce
  define view where "view = \<lparr>sn_at = now1, sn_rows = rows_recorded a2\<rparr>"
  obtain done_ok a3 where n3: "writeStorageSnapshot (cfg_dir (sw_cfg w)) view a2 = (done_ok, a3)" by fastforce
  obtain t a4 where n4: "time_Now a3 = (t, a4)" by fastforce
  have q2: "quiet s a2"
    using n1 time_Now_ok(1) [OF n2] time_Now_ok(1) [of s now1 a1] by (auto split: if_splits intro: quiet_trans)
  note q3 = writeStorageSnapshot_ok [OF n3 False]
  have faults: "c \<Longrightarrow> os_faults s = []" using assms(1) by (simp add: journal_ok_def rows_ok_def)
  show ?thesis
  proof (cases done_ok)
    case failed: False
    have res: "w1 = w\<lparr>snapshotRetryAt := time_Add t storageRetryDelay\<rparr>" "s1 = setStorageLastError ErrSnapshot a4"
      using assms(2) False failed unfolding sw_writeSnapshot_def
      by (simp_all add: n1 n2 view_def [symmetric] n3 n4)
    have "quiet a2 a4" using q3 failed time_Now_ok(1) [OF n4] by (simp add: quiet_def) (metis later_trans)
    then have q: "quiet s s1" using q2 res(2) by (auto intro: quiet_trans)
    have "handle_ok w1" "handle w1 = handle w" "\<not> c"
      using assms(1) res(1) q3 failed faults q2
      by (auto simp: journal_ok_def handle_ok_def handle_def quiet_def later_def split: option.splits)
    then show ?thesis
      using journal_quiet [OF assms(1) q] q res(1) by (auto simp: quiet_def)
  next
    case True
    obtain n ok2 a4 where n4: "compactStorageShardsBeforeSnapshot (cfg_dir (sw_cfg w)) now1 (loadedPath w) a3
        = (n, ok2, a4)" by (metis prod_cases3)
    define a5 where "a5 = (if \<not> ok2 then setStorageLastError ErrCompact a4
      else updateStorageCompaction n now1 a4)"
    define w' where "w' = w\<lparr>lastSnapshot := now1, snapshotRetryAt := zero_time, snapshotRecords := 0\<rparr>"
    have "(ok, w1, s1) = (True, w', report w' a5)"
      by (simp only: assms(2) [symmetric] sw_writeSnapshot_def if_not_P [OF False] n1 prod.case n2 Let_def
          view_def [symmetric] n3 True not_True_eq_False if_False n4 a5_def w'_def)
    then have res: "w1 = w\<lparr>lastSnapshot := now1, snapshotRetryAt := zero_time, snapshotRecords := 0\<rparr>"
      "s1 = report w1 a5"
      by (simp_all add: w'_def)
    have view: "handle_ok w1" "handle w1 = handle w" "loadedPath w = sw_file w"
      using assms(1) res(1) by (auto simp: journal_ok_def handle_ok_def handle_def split: option.splits)
    have parts: "days_ok s" "shards_ok enc c since kept (handle w) (disk_shards s)"
        "rows_ok c given gone kept s"
      using assms(1) by (simp_all add: journal_ok_def)
    have a3: "later s a3" "disk_shards a3 = disk_shards s" "disk_snapshot a3 = Some view"
      using q2 q3 True by (auto simp: quiet_def intro: later_trans)
    have last: "\<forall>d \<in> set (go_keys (disk_shards s)). loadedPath w = Some d \<longrightarrow>
        (\<forall>d' \<in> set (go_keys (disk_shards s)). d' \<le> d)"
    proof (intro ballI impI)
      fix d d' assume "loadedPath w = Some d" and d': "d' \<in> set (go_keys (disk_shards s))"
      then obtain b e where "handle w = Some (d, b, e)"
        using assms(1) handle_open [of w d] view(3) by (metis journal_ok_def)
      then obtain sh f where "disk_shards s = sh @ [(d, f)]" using parts(2) by (auto simp: shards_ok_def)
      then show "d' \<le> d" using parts(1) d' by (auto simp: days_ok_def sorted_wrt_append)
    qed
    have "later a3 a4 \<and> disk_snapshot a4 = disk_snapshot a3 \<and>
      (\<exists>k. disk_shards a4 = drop k (disk_shards a3) \<and>
        (\<forall>x \<in> set (take k (disk_shards a3)). loadedPath w \<noteq> Some (fst x)))"
    proof -
      obtain rd a where call: "os_ok a3 = (rd, a)" by fastforce
      note q = os_ok_ok(1) [OF call]
      show ?thesis
      proof (cases "time_IsZero now1 \<or> \<not> rd")
        case True
        then have "quiet a3 a4"
          using n4 q unfolding compactStorageShardsBeforeSnapshot_def by (auto simp: call split: if_splits)
        then show ?thesis by (auto simp: quiet_def intro!: exI [of _ 0])
      next
        case zero: False
        have loop: "compact_shards (go_keys (disk_shards a))
            (time_Truncate (time_UTC now1) (24 * time_Hour)) (loadedPath w) 0 a = (n, ok2, a4)"
          using n4 zero False unfolding compactStorageShardsBeforeSnapshot_def by (simp add: call)
        have same: "disk_shards a = disk_shards s" "disk_shards a = disk_shards a3"
            "disk_snapshot a = disk_snapshot a3" "later a3 a"
          using q a3 by (simp_all add: quiet_def)
        show ?thesis
          using compact_shards_ok [OF loop] last parts(1) later_trans [OF same(4)]
          unfolding same(1) days_ok_def a3(2) same(3) by blast
      qed
    qed
    moreover have "quiet a4 s1"
      unfolding res(2) quiet_report a5_def using updateStorageCompaction_ok by auto
    ultimately obtain k where k: "later a3 s1" "disk_snapshot s1 = Some view"
        "disk_shards s1 = drop k (disk_shards s)"
        "\<forall>x \<in> set (take k (disk_shards s)). loadedPath w \<noteq> Some (fst x)"
      unfolding a3 by (auto simp: quiet_def intro: later_trans)
    have lat: "later s s1" using later_trans [OF a3(1) k(1)] .
    have seen: "sn_rows view = rows_recorded s1"
      using q2 lat by (simp add: view_def quiet_def later_def)
    have rows: "rows_ok c given (gone @ concat (map snd (take k kept))) (drop k kept) s1"
      by (rule rows_ok_drop [OF parts(3) k(2) _ lat]) (simp add: seen)
    have days: "days_ok s1" by (rule days_ok_drop [OF parts(1) k(3) lat])
    have "shards_ok enc c since (drop k kept) (handle w1) (disk_shards s1)"
      unfolding k(3) view(2)
      by (rule shards_ok_drop [OF parts(2)]) (use k(4) view(3) in \<open>auto simp: handle_Some\<close>)
    then have "journal_ok enc c since given (gone @ concat (map snd (take k kept))) (drop k kept) w1 s1"
      using view(1) days rows by (simp add: journal_ok_def)
    moreover have "set (go_keys (disk_shards s1)) \<subseteq> set (go_keys (disk_shards s))"
      using set_drop_subset [of k "disk_shards s"] unfolding k(3) by auto
    ultimately show ?thesis using lat k(2) seen res(1) by auto
  qed
qed

section \<open>Closing and opening a shard\<close>

lemma closed_shard_mono: "closed_shard enc c since x y \<Longrightarrow> since \<le> since' \<Longrightarrow> closed_shard enc c since' x y"
  by (auto simp: closed_shard_def)

lemma shard_only_keys: "shard_only d sh f f1 s s1 \<Longrightarrow> go_keys (disk_shards s1) = go_keys (disk_shards s)"
  by (simp add: shard_only_def open_at_def)

lemma close_writer_ok:
  assumes "open_at d f sh s" "open_shard_ok enc c f b e xs" "c \<Longrightarrow> os_faults s = []"
    and "close_writer now w s = (w1, s1)" "sw_file w = Some d" "sw_writer w = Some b"
  shows "\<exists>f1. shard_only d sh f f1 s s1 \<and> prefix (sh_data f1) (enc_all enc xs) \<and>
    (c \<longrightarrow> sh_data f1 = enc_all enc xs) \<and> sw_file w1 = Some d \<and> sw_writer w1 = None \<and> sw_cfg w1 = sw_cfg w"
proof -
  obtain ok b1 s0 where flush: "bw_Flush d b s = (ok, b1, s0)" by (metis prod_cases3)
  obtain f1 where f1: "shard_only d sh f f1 s s0" "sh_data f1 @ bw_buf b1 = sh_data f @ bw_buf b"
    "ok \<longrightarrow> bw_buf b1 = []" "os_faults s = [] \<longrightarrow> \<not> bw_err b \<longrightarrow> ok"
    using bw_Flush_ok [OF assms(1) flush] by blast
  have "shard_only d sh f f1 s s1" "sw_file w1 = Some d" "sw_writer w1 = None" "sw_cfg w1 = sw_cfg w"
    using assms(4-6) f1(1) by (auto simp: close_writer_def flush split: if_splits)
  moreover have "prefix (sh_data f1) (enc_all enc xs)"
    using assms(2) f1(2) unfolding open_shard_ok_def by (metis append_prefixD)
  moreover have "c \<longrightarrow> sh_data f1 = enc_all enc xs"
    using assms(2,3) f1(2-4) by (auto simp: open_shard_ok_def)
  ultimately show ?thesis by blast
qed

lemma close_handle_ok:
  assumes "open_at d f sh s" "close_handle now True w s = (w1, s1)" "sw_file w = Some d"
  shows "\<exists>f1. shard_only d sh f f1 s s1 \<and> sh_data f1 = sh_data f \<and>
    (os_faults s = [] \<longrightarrow> sh_synced f1 = length (sh_data f1)) \<and>
    sw_file w1 = None \<and> sw_writer w1 = sw_writer w \<and> sw_cfg w1 = sw_cfg w"
proof -
  obtain ok s0 where sync: "file_Sync d s = (ok, s0)" by fastforce
  define s0' where "s0' = (if ok then s0 else setStorageLastError ErrSync s0)"
  obtain ok2 s2 where close: "os_ok s0' = (ok2, s2)" by fastforce
  define f1 where "f1 = (if ok then mark_synced f else f)"
  have step: "shard_only d sh f f1 s s0'"
    using file_Sync_ok(1) [OF assms(1) sync] by (cases ok) (simp_all add: f1_def s0'_def)
  have "shard_only d sh f f1 s s2"
    using shard_only_trans [OF step shard_only_quiet [OF shard_only_open [OF step] os_ok_ok(1) [OF close]]] .
  moreover have "w1 = (if ok then w\<lparr>unsyncedRecords := 0, lastSync := now\<rparr> else w)\<lparr>sw_file := None\<rparr> \<and>
      s1 = (if ok2 then s2 else setStorageLastError ErrClose s2)"
    using assms(2,3) close by (cases ok) (simp_all add: close_handle_def sync s0'_def)
  ultimately show ?thesis
    using file_Sync_ok(2) [OF assms(1) sync]
    by (auto simp: f1_def mark_synced_def intro!: exI [of _ f1])
qed

lemma sw_closeFile_ok:
  assumes "journal_ok enc c since given gone kept w s" "sw_closeFile now True w s = (w1, s1)"
    and "since \<le> since'" "\<And>d. sw_file w = Some d \<Longrightarrow> d < since'"
  shows "journal_ok enc c since' given gone kept w1 s1 \<and> later s s1 \<and> sw_cfg w1 = sw_cfg w \<and>
    sw_file w1 = None \<and> go_keys (disk_shards s1) = go_keys (disk_shards s)"
proof -
  have inv: "handle_ok w" "days_ok s" "rows_ok c given gone kept s"
    using assms(1) by (simp_all add: journal_ok_def)
  obtain w0 s0 where close: "close_writer now w s = (w0, s0)" by fastforce
  obtain w2 s2 where handle: "close_handle now True w0 s0 = (w2, s2)" by fastforce
  have res: "w1 = w2\<lparr>loadedPath := None\<rparr>" "s1 = report w1 s2"
    using assms(2) by (auto simp: sw_closeFile_def close handle Let_def)
  show ?thesis
  proof (cases "sw_file w")
    case None
    then have "w0 = w" "s0 = s" "w2 = w" "s2 = s" "sw_writer w = None"
      using close handle inv(1) by (auto simp: close_writer_def close_handle_def handle_ok_def split: option.splits)
    then have w1: "handle_ok w1" "handle w1 = None" "handle w = None" "sw_cfg w1 = sw_cfg w" "sw_file w1 = None"
      and quiet: "quiet s s1"
      using None res by (simp_all add: handle_ok_def handle_def)
    have "shards_ok enc c since' kept None (disk_shards s)"
      using assms(1,3) w1(3) closed_shard_mono unfolding journal_ok_def shards_ok_def
      by (auto elim!: list_all2_mono)
    moreover have "days_ok s1" "rows_ok c given gone kept s1"
      using days_ok_cong [OF inv(2)] rows_ok_cong [OF inv(3)] quiet by (simp_all add: quiet_def)
    ultimately show ?thesis using w1 quiet by (simp add: journal_ok_def quiet_def)
  next
    case (Some d)
    obtain b where b: "sw_writer w = Some b" "handle w = Some (d, b, sw_encodeErr w)"
      using handle_open [OF inv(1) Some] by metis
    obtain sh f ks xs where opened: "open_at d f sh s" "kept = ks @ [(d, xs)]"
      "list_all2 (closed_shard enc c since) sh ks" "open_shard_ok enc c f b (sw_encodeErr w) xs"
      using journal_open [OF assms(1) b(2)] by metis
    have faults: "c \<Longrightarrow> os_faults s = []" using inv(3) by (simp add: rows_ok_def)
    obtain f1 where f1: "shard_only d sh f f1 s s0" "prefix (sh_data f1) (enc_all enc xs)"
      "c \<longrightarrow> sh_data f1 = enc_all enc xs" "sw_file w0 = Some d" "sw_writer w0 = None" "sw_cfg w0 = sw_cfg w"
      using close_writer_ok [OF opened(1,4) faults close Some b(1)] by blast
    obtain f2 where f2: "shard_only d sh f1 f2 s0 s2" "sh_data f2 = sh_data f1"
      "os_faults s0 = [] \<longrightarrow> sh_synced f2 = length (sh_data f2)"
      "sw_file w2 = None" "sw_writer w2 = sw_writer w0" "sw_cfg w2 = sw_cfg w0"
      using close_handle_ok [OF shard_only_open [OF f1(1)] handle f1(4)] by blast
    have step: "shard_only d sh f f2 s s1"
      using shard_only_trans [OF f1(1) f2(1)] res by simp
    have w1: "handle_ok w1" "handle w1 = None" "sw_cfg w1 = sw_cfg w" "sw_file w1 = None"
      using res f1 f2 by (simp_all add: handle_ok_def handle_def)
    have "closed_shard enc c since' (d, f2) (d, xs)"
      using f1(2,3) f2(2,3) assms(4) [OF Some] faults shard_only_faults [OF f1(1)]
      by (auto simp: closed_shard_def)
    moreover have "list_all2 (closed_shard enc c since') sh ks"
      using opened(3) closed_shard_mono [OF _ assms(3)] by (auto elim!: list_all2_mono)
    ultimately have "shards_ok enc c since' kept None (disk_shards s1)"
      using step by (simp add: shards_ok_def opened(2) shard_only_def open_at_def list_all2_appendI)
    moreover have "days_ok s1" "rows_ok c given gone kept s1"
      using days_ok_cong [OF inv(2) shard_only_keys [OF step]] rows_ok_cong [OF inv(3)] step
      by (simp_all add: shard_only_def)
    ultimately show ?thesis using w1 shard_only_keys [OF step] shard_only_later [OF step]
      by (simp add: journal_ok_def)
  qed
qed

lemma create_last:
  assumes "sorted_wrt (<) (go_keys sh)" "\<forall>d' \<in> set (go_keys sh). d' \<le> d"
  shows "create_shard d sh = (if d \<in> set (go_keys sh) then sh else sh @ [(d, empty_shard)])"
  using assms by (induction d sh rule: create_shard.induct) auto

lemma sorted_last:
  assumes "sorted_wrt (<) (go_keys sh)" "\<forall>d' \<in> set (go_keys sh). d' \<le> (d :: int)" "d \<in> set (go_keys sh)"
  obtains sh' f where "sh = sh' @ [(d, f)]"
proof (cases sh rule: rev_exhaust)
  case Nil
  then show thesis using assms(3) by simp
next
  case (snoc sh' x)
  then have "fst x = d" using assms by (fastforce simp: sorted_wrt_append)
  then show thesis using that [of sh' "snd x"] snoc by (cases x) simp
qed

lemma open_shard_ok_new: "open_shard_ok enc c f NewWriter False xs = (sh_data f = enc_all enc xs)"
  by (auto simp: open_shard_ok_def NewWriter_def)

lemma days_ok_snoc:
  assumes "disk_shards s1 = sh @ [(d, f)]" "sorted_wrt (<) (go_keys sh)" "\<forall>d' \<in> set (go_keys sh). d' \<le> d"
    and "d \<notin> set (go_keys sh)" "d \<le> utc_day (os_now s1)" "clock_ok s1"
  shows "days_ok s1"
proof -
  have "d' < d" if "d' \<in> set (go_keys sh)" for d' using assms(3,4) that by (metis le_less)
  then have "sorted_wrt (<) (go_keys sh @ [d])"
    using assms(2) unfolding sorted_wrt_append by simp
  moreover have "d' \<le> utc_day (os_now s1)" if "d' \<in> set (go_keys sh @ [d])" for d'
    using that assms(3,5) order_trans by auto
  ultimately show ?thesis using assms(6) unfolding days_ok_def assms(1) by auto
qed

lemma open_shard_step:
  assumes "journal_ok enc c since given gone kept w s" "open_shard d w s = (err, w1, s1)"
    and "sw_file w = None" "since \<le> d" "\<forall>d' \<in> set (go_keys (disk_shards s)). d' \<le> d" "d \<le> utc_day (os_now s)"
  shows "\<exists>kept1. journal_ok enc c since given gone kept1 w1 s1 \<and> later s s1 \<and> sw_cfg w1 = sw_cfg w \<and>
    (err = None \<longrightarrow> sw_file w1 \<noteq> None) \<and> (c \<longrightarrow> err = None)"
proof -
  obtain ok1 a1 where c1: "os_ok s = (ok1, a1)" by fastforce
  obtain ok2 a2 where c2: "os_ok a1 = (ok2, a2)" by fastforce
  note q1 = os_ok_ok [OF c1] and q2 = os_ok_ok [OF c2]
  have q: "quiet s a2" by (rule quiet_trans [OF q1(1) q2(1)])
  have inv: "handle_ok w" "handle w = None" "days_ok s" "rows_ok c given gone kept s"
    "list_all2 (closed_shard enc c since) (disk_shards s) kept"
    using assms(1,3) handle_None [of w] by (auto simp: journal_ok_def shards_ok_def)
  have clean: "c \<Longrightarrow> ok1 \<and> ok2"
    using inv(4) q1 q2(2) by (auto simp: rows_ok_def quiet_def later_def)
  show ?thesis
  proof (cases "ok1 \<and> ok2")
    case False
    then have "w1 = w" "quiet s s1" "err \<noteq> None"
      using assms(2) q q1(1) by (auto simp: open_shard_def c1 c2 split: if_splits)
    then show ?thesis
      using journal_quiet [OF assms(1) _ inv(1) refl] False clean by (auto simp: quiet_def)
  next
    case True
    define w2 where "w2 = w\<lparr>sw_file := Some d, sw_writer := Some NewWriter, sw_encodeErr := False,
      loadedPath := Some d\<rparr>"
    have res: "err = None" "w1 = w2" "s1 = report w2 (a2\<lparr>disk_shards := create_shard d (disk_shards a2)\<rparr>)"
      using assms(2) True by (auto simp: open_shard_def c1 c2 w2_def Let_def)
    have shards1: "disk_shards s1 = create_shard d (disk_shards s)" "later s s1"
      "disk_snapshot s1 = disk_snapshot s"
      using q res(3) by (simp_all add: quiet_def)
    have w1: "handle_ok w1" "handle w1 = Some (d, NewWriter, False)" "sw_cfg w1 = sw_cfg w" "sw_file w1 = Some d"
      using res(2) by (simp_all add: w2_def handle_ok_def handle_def)
    note created = create_last [of "disk_shards s" d]
    have sorted: "sorted_wrt (<) (go_keys (disk_shards s))" using inv(3) by (simp add: days_ok_def)
    have now: "d \<le> utc_day (os_now s1)" "clock_ok s1" "utc_day (os_now s) \<le> utc_day (os_now s1)"
      using assms(6) shards1(2) inv(3) utc_day_mono [of "os_now s" "os_now s1"]
      by (auto simp: later_def days_ok_def)
    show ?thesis
    proof (cases "d \<in> set (go_keys (disk_shards s))")
      case True
      have same: "disk_shards s1 = disk_shards s" unfolding shards1(1) created [OF sorted assms(5)] using True by simp
      obtain sh f where sh: "disk_shards s = sh @ [(d, f)]" using sorted_last [OF sorted assms(5) True] by metis
      obtain ks xs where kept: "kept = ks @ [(d, xs)]" "list_all2 (closed_shard enc c since) sh ks"
        "closed_shard enc c since (d, f) (d, xs)"
        using inv(5) unfolding sh by (auto simp: list_all2_append1 list_all2_Cons1 closed_shard_def)
      then have "shards_ok enc c since kept (handle w1) (disk_shards s1)"
        using assms(4) by (auto simp: same sh w1(2) shards_ok_def open_shard_ok_new closed_shard_def)
      moreover have "days_ok s1" by (rule days_ok_cong [OF inv(3)]) (simp_all add: same shards1(2))
      ultimately show ?thesis
        using w1 rows_ok_cong [OF inv(4) shards1(3,2)] shards1(2) res(1) by (auto simp: journal_ok_def)
    next
      case False
      have new: "disk_shards s1 = disk_shards s @ [(d, empty_shard)]"
        unfolding shards1(1) created [OF sorted assms(5)] using False by simp
      then have "shards_ok enc c since (kept @ [(d, [])]) (handle w1) (disk_shards s1)"
        using inv(5) by (auto simp: w1(2) shards_ok_def open_shard_ok_new empty_shard_def enc_all_def map_filter_def)
      moreover have "days_ok s1"
        by (rule days_ok_snoc [OF new sorted assms(5) False now(1,2)])
      moreover have "rows_ok c given gone (kept @ [(d, [])]) s1"
        using rows_ok_cong [OF inv(4) shards1(3,2)] by (simp add: rows_ok_def)
      ultimately show ?thesis using w1 shards1(2) res(1) by (auto simp: journal_ok_def)
    qed
  qed
qed

end
