(* ===== verification/StorageDurability.thy ===== *)
theory StorageDurability
  imports StorageJournal
begin

text \<open>
  The invariant of \<open>StorageJournal\<close> through a whole run of the storage worker, and what
  it says of the journal once the worker has stopped.
\<close>

section \<open>Opening and appending\<close>

lemma sw_open_ok:
  assumes "journal_ok enc c since given gone kept w s" "since \<le> utc_day (os_now s)"
    and "sw_open now w s = (err, w1, s1)" "now = os_now s" "\<not> time_IsZero now"
  shows "\<exists>since1 gone1 kept1. journal_ok enc c since1 given gone1 kept1 w1 s1 \<and> since1 \<le> utc_day (os_now s1) \<and>
    later s s1 \<and> sw_cfg w1 = sw_cfg w \<and> (err = None \<longrightarrow> sw_file w1 \<noteq> None) \<and> (c \<longrightarrow> err = None)"
proof -
  define d where "d = utc_day now"
  have date: "storageDate now s = (d, s)" using assms(5) by (simp add: storageDate_def d_def)
  have inv: "handle_ok w" "days_ok s" using assms(1) by (simp_all add: journal_ok_def)
  have keys: "\<forall>d' \<in> set (go_keys (disk_shards s)). d' \<le> d"
    using inv(2) by (simp add: days_ok_def d_def assms(4))
  have now: "d \<le> utc_day (os_now s1)" if "later s s1" for s1 :: "'a world"
    using that inv(2) utc_day_mono[of "os_now s" "os_now s1"]
    by (simp add: later_def days_ok_def d_def assms(4))
  show ?thesis
  proof (cases "sw_file w = Some d")
    case True
    then have "loadedPath w = Some d" using inv(1) by (simp add: handle_ok_def)
    then have "err = None" "w1 = w" "s1 = s" using assms(3) True by (simp_all add: sw_open_def date)
    then show ?thesis using assms(1,2) True by auto
  next
    case other: False
    have not_open: "\<not> (sw_file w \<noteq> None \<and> loadedPath w = Some d)"
      using inv(1) other by (simp add: handle_ok_def)
    obtain w2 a2 where close: "sw_closeFile now True w s = (w2, a2)" by fastforce
    have before: "d' < d" if file_d': "sw_file w = Some d'" for d'
    proof -
      obtain b e where "handle w = Some (d', b, e)" using handle_open [OF inv(1) file_d'] by metis
      then obtain sh f where "disk_shards s = sh @ [(d', f)]"
        using assms(1) by (auto simp: journal_ok_def shards_ok_def)
      then show ?thesis using keys other file_d' by force
    qed
    have since: "since \<le> d" using assms(2) by (simp add: d_def assms(4))
    note closed = sw_closeFile_ok [OF assms(1) close since before]
    show ?thesis
    proof (cases "sw_file w = None")
      case True
      have "open_shard d w s = (err, w1, s1)"
        using assms(3) not_open True by (simp add: sw_open_def date)
      from open_shard_step [OF assms(1) this True since keys]
      obtain kept1 where "journal_ok enc c since given gone kept1 w1 s1" "later s s1"
        "sw_cfg w1 = sw_cfg w" "err = None \<longrightarrow> sw_file w1 \<noteq> None" "c \<longrightarrow> err = None"
        by (auto simp: d_def assms(4))
      moreover from this have "since \<le> utc_day (os_now s1)" using since now order_trans by blast
      ultimately show ?thesis by blast
    next
      case False
      obtain ok w3 a3 where snap: "(if 0 < snapshotRecords w2 then sw_writeSnapshot now w2 a2 else (True, w2, a2))
          = (ok, w3, a3)" by (metis prod_cases3)
      have opened: "open_shard d w3 a3 = (err, w1, s1)"
        using assms(3) not_open False snap by (auto simp: sw_open_def date close split: if_splits)
      have "\<exists>gone1 kept1. journal_ok enc c d given gone1 kept1 w3 a3 \<and> later a2 a3 \<and>
          sw_cfg w3 = sw_cfg w2 \<and> sw_file w3 = sw_file w2 \<and>
          set (go_keys (disk_shards a3)) \<subseteq> set (go_keys (disk_shards a2))"
        using sw_writeSnapshot_ok [OF conjunct1 [OF closed], of now ok w3 a3] closed snap
        by (cases "0 < snapshotRecords w2") auto
      then obtain gone1 kept1 where w3: "journal_ok enc c d given gone1 kept1 w3 a3" "later a2 a3"
        "sw_cfg w3 = sw_cfg w2" "sw_file w3 = sw_file w2"
        "set (go_keys (disk_shards a3)) \<subseteq> set (go_keys (disk_shards a2))" by blast
      have lat: "later s a3" using closed w3(2) later_trans by blast
      have keys3: "\<forall>d' \<in> set (go_keys (disk_shards a3)). d' \<le> d"
        using w3(5) closed keys by fastforce
      have "sw_file w3 = None" using w3(4) closed by simp
      from open_shard_step [OF w3(1) opened this order_refl keys3 now [OF lat]]
      obtain kept2 where "journal_ok enc c d given gone1 kept2 w1 s1" "later a3 s1" "sw_cfg w1 = sw_cfg w3"
        "err = None \<longrightarrow> sw_file w1 \<noteq> None" "c \<longrightarrow> err = None" by blast
      moreover have "later s s1" using lat \<open>later a3 s1\<close> by (rule later_trans)
      ultimately show ?thesis using now w3(3) closed by metis
    qed
  qed
qed

lemma journal_recorded: "journal_ok enc c since given gone kept w s \<Longrightarrow> sw_file w = Some d \<Longrightarrow>
    \<exists>b. handle w = Some (d, b, sw_encodeErr w)"
  using handle_open [of w d] by (metis journal_ok_def)

lemma enc_Encode_ok:
  assumes "journal_ok enc c since given gone kept w s" "enc_Encode enc x w s = (ok, w1, s1)"
    and "sw_file w = Some d" "x \<in> set (rows_recorded s)"
  shows "\<exists>kept1. journal_ok enc c since (given @ [x]) gone kept1 w1 s1 \<and> later s s1 \<and>
    sw_cfg w1 = sw_cfg w \<and> sw_file w1 = Some d"
proof -
  have inv: "handle_ok w" using assms(1) by (simp add: journal_ok_def)
  obtain b where b: "sw_writer w = Some b" "handle w = Some (d, b, sw_encodeErr w)"
    using handle_open [OF inv assms(3)] by metis
  obtain sh f ks xs where opened: "open_at d f sh s" "kept = ks @ [(d, xs)]"
    "list_all2 (closed_shard enc c since) sh ks" "open_shard_ok enc c f b (sw_encodeErr w) xs"
    using journal_open [OF assms(1) b(2)] by metis
  note rewrite = journal_rewrite [OF assms(1) [unfolded opened(2)] b(2) opened(3)]
  have seen: "set [x] \<subseteq> set (rows_recorded s)" using assms(4) by simp
  have faults: "c \<Longrightarrow> os_faults s = []" using assms(1) by (simp add: journal_ok_def rows_ok_def)
  note same = shard_only_quiet [OF opened(1) quiet_refl]
  consider (stuck) "sw_encodeErr w" | (unknown) "\<not> sw_encodeErr w" "enc x = None"
    | (bytes) p where "\<not> sw_encodeErr w" "enc x = Some p" by fastforce
  then show ?thesis
  proof cases
    case stuck
    then have "w1 = w" "s1 = s" "\<not> c" using assms(2,3) b(1) opened(4)
      by (auto simp: enc_Encode_def open_shard_ok_def)
    then show ?thesis
      using rewrite [OF same, of b "sw_encodeErr w" "[]" "[x]" w] opened(4) inv b(2) seen assms(3) by auto
  next
    case unknown
    then have "w1 = w" "s1 = s" using assms(2,3) b(1) by (simp_all add: enc_Encode_def)
    moreover have "open_shard_ok enc c f b (sw_encodeErr w) (xs @ [x])"
      using opened(4) unknown by (simp add: open_shard_ok_def enc_all_def map_filter_def)
    ultimately show ?thesis
      using rewrite [OF same, of b "sw_encodeErr w" "[x]" "[x]" w] inv b(2) seen assms(3) by auto
  next
    case bytes
    obtain b1 s0 ok0 where put: "bw_Write d p b s = (ok0, b1, s0)" by (metis prod_cases3)
    then have res: "w1 = w\<lparr>sw_writer := Some b1, sw_encodeErr := \<not> ok0\<rparr>" "s1 = s0"
      using assms(2,3) b(1) bytes by (auto simp: enc_Encode_def)
    obtain f1 q where f1: "shard_only d sh f f1 s s0" "prefix q p"
      "sh_data f1 @ bw_buf b1 = sh_data f @ bw_buf b @ q" "ok0 \<longrightarrow> q = p" "ok0 \<longrightarrow> \<not> bw_err b1"
      "os_faults s = [] \<longrightarrow> \<not> bw_err b \<longrightarrow> ok0"
      using bw_Write_ok [OF opened(1) put] by blast
    have "sh_data f1 @ bw_buf b1 = enc_all enc xs @ q"
      using f1(3) opened(4) bytes by (simp add: open_shard_ok_def)
    then have "open_shard_ok enc c f1 b1 (\<not> ok0) (xs @ [x])"
      using f1(2,4-6) bytes opened(4) faults
      by (auto simp: open_shard_ok_def enc_all_append) (simp_all add: enc_all_def map_filter_def)
    moreover have "handle_ok w1" "handle w1 = Some (d, b1, \<not> ok0)" "sw_cfg w1 = sw_cfg w" "sw_file w1 = Some d"
      using res inv assms(3) by (simp_all add: handle_ok_def handle_def)
    ultimately show ?thesis
      using rewrite [OF f1(1) _ _ _ _ _ seen, of b1 "\<not> ok0" "[x]" w1] res(2) shard_only_later [OF f1(1)]
      by auto
  qed
qed

lemma quiet_error_journal:
  assumes "journal_ok enc c since given gone kept w s"
  shows "journal_ok enc c since given gone kept w (setStorageLastError err s)"
  using journal_quiet [OF assms _ _ refl, of "setStorageLastError err s"] assms by (simp add: journal_ok_def)

lemma encode_rows_ok:
  assumes "journal_ok enc c since given gone kept w s" "encode_rows enc xs w s = (n, w1, s1)"
    and "sw_file w = Some d" "set xs \<subseteq> set (rows_recorded s)"
  shows "\<exists>kept1. journal_ok enc c since (given @ xs) gone kept1 w1 s1 \<and> later s s1 \<and>
    sw_cfg w1 = sw_cfg w \<and> sw_file w1 = Some d"
  using assms
proof (induction xs arbitrary: given kept w s n)
  case Nil
  then show ?case by auto
next
  case (Cons x xs)
  obtain ok w2 s2 where step: "enc_Encode enc x w s = (ok, w2, s2)" by (metis prod_cases3)
  define s3 where "s3 = (if ok then s2 else setStorageLastError ErrEncode s2)"
  obtain n2 where rest: "encode_rows enc xs w2 s3 = (n2, w1, s1)"
    using Cons(3) step by (cases ok) (auto simp: s3_def split: prod.splits)
  obtain kept1 where k: "journal_ok enc c since (given @ [x]) gone kept1 w2 s2" "later s s2"
    "sw_cfg w2 = sw_cfg w" "sw_file w2 = Some d"
    using enc_Encode_ok [OF Cons(2) step Cons(4)] Cons(5) by auto
  have s3: "journal_ok enc c since (given @ [x]) gone kept1 w2 s3" "later s s3"
    using k(1,2) quiet_error_journal [OF k(1)] by (simp_all add: s3_def)
  have "set xs \<subseteq> set (rows_recorded s3)" using Cons(5) s3(2) by (simp add: later_def)
  from Cons(1) [OF s3(1) rest k(4) this] show ?case using k(3) s3(2) by (auto intro: later_trans)
qed

section \<open>Due work, batches and the loop\<close>

lemma run_due_ok:
  assumes "journal_ok enc c since given gone kept w s" "run_due now w s = (w1, s1)"
  shows "\<exists>gone1 kept1. journal_ok enc c since given gone1 kept1 w1 s1 \<and> later s s1 \<and> sw_cfg w1 = sw_cfg w"
proof -
  obtain ok1 w2 s2 where f: "(if flushDue w now then sw_flush now w s else (True, w, s)) = (ok1, w2, s2)"
    by (metis prod_cases3)
  obtain ok2 w3 s3 where y: "(if syncDue w2 now then sw_sync now w2 s2 else (True, w2, s2)) = (ok2, w3, s3)"
    by (metis prod_cases3)
  obtain ok3 w4 s4 where n: "(if snapshotDue w3 now then sw_writeSnapshot now w3 s3 else (True, w3, s3)) = (ok3, w4, s4)"
    by (metis prod_cases3)
  have res: "w1 = w4" "s1 = s4" using assms(2) by (auto simp: run_due_def f y n)
  have 1: "journal_ok enc c since given gone kept w2 s2 \<and> later s s2 \<and> sw_cfg w2 = sw_cfg w"
    using sw_flush_ok [OF assms(1), of now ok1 w2 s2] f assms(1) by (cases "flushDue w now") auto
  have 2: "journal_ok enc c since given gone kept w3 s3 \<and> later s2 s3 \<and> sw_cfg w3 = sw_cfg w2"
    using sw_sync_ok [OF conjunct1 [OF 1], of now ok2 w3 s3] y 1 by (cases "syncDue w2 now") auto
  have "\<exists>gone1 kept1. journal_ok enc c since given gone1 kept1 w4 s4 \<and> later s3 s4 \<and> sw_cfg w4 = sw_cfg w3"
    using sw_writeSnapshot_ok [OF conjunct1 [OF 2], of now ok3 w4 s4] n 2 by (cases "snapshotDue w3 now") auto
  then show ?thesis using 1 2 res later_trans by metis
qed

lemma journal_dropped:
  assumes "journal_ok enc c since given gone kept w s" "\<not> c" "set xs \<subseteq> set (rows_recorded s)"
  shows "journal_ok enc c since (given @ xs) gone kept w s"
  using assms list_emb_append_mono [of "(=)" "gone @ concat (map snd kept)" given "[]" xs]
  by (auto simp: journal_ok_def rows_ok_def)

lemma count_records_ok:
  assumes "journal_ok enc c since given gone kept w s"
  shows "journal_ok enc c since given gone kept (count_records t n w) s" "sw_cfg (count_records t n w) = sw_cfg w"
  using journal_quiet [OF assms quiet_refl, of "count_records t n w"] assms
  by (simp_all add: count_records_def journal_ok_def handle_ok_def handle_def split: option.splits)

lemma later_day: "later s s1 \<Longrightarrow> clock_ok s \<Longrightarrow> since \<le> utc_day (os_now s) \<Longrightarrow> since \<le> utc_day (os_now s1)"
  using utc_day_mono [of "os_now s" "os_now s1"] by (auto simp: later_def)

lemma journal_clock: "journal_ok enc c since given gone kept w s \<Longrightarrow> clock_ok s"
  by (simp add: journal_ok_def days_ok_def)

lemma journal_quiet_same:
  assumes "journal_ok enc c since given gone kept w s" "quiet s s1"
  shows "journal_ok enc c since given gone kept w s1"
  using journal_quiet [OF assms _ refl] assms(1) by (simp add: journal_ok_def)

lemma sw_appendBatch_ok:
  assumes "journal_ok enc c since given gone kept w s" "since \<le> utc_day (os_now s)"
    and "sw_appendBatch enc items w s = (w1, s1)" "set (map qr_row items) \<subseteq> set (rows_recorded s)"
  shows "\<exists>since1 gone1 kept1. journal_ok enc c since1 (given @ map qr_row items) gone1 kept1 w1 s1 \<and>
    since1 \<le> utc_day (os_now s1) \<and> later s s1 \<and> sw_cfg w1 = sw_cfg w"
proof (cases "items = []")
  case True
  then show ?thesis using assms by (auto simp: sw_appendBatch_def)
next
  case False
  define batch where "batch = map qr_row items"
  obtain started a1 where n1: "time_Now s = (started, a1)" by fastforce
  obtain err w2 a2 where n2: "sw_open started w a1 = (err, w2, a2)" by (metis prod_cases3)
  note now = time_Now_ok [OF n1]
  have a1: "journal_ok enc c since given gone kept w a1" by (rule journal_quiet_same [OF assms(1) now(1)])
  have since1: "since \<le> utc_day (os_now a1)"
    by (rule later_day [OF quiet_later [OF now(1)] journal_clock [OF assms(1)] assms(2)])
  obtain since2 gone2 kept2 where o2: "journal_ok enc c since2 given gone2 kept2 w2 a2"
    "since2 \<le> utc_day (os_now a2)" "later a1 a2" "sw_cfg w2 = sw_cfg w"
    "err = None \<longrightarrow> sw_file w2 \<noteq> None" "c \<longrightarrow> err = None"
    using sw_open_ok [OF a1 since1 n2 now(2) [symmetric] now(4) [OF journal_clock [OF assms(1)]]] by blast
  have lat2: "later s a2" by (rule later_trans [OF quiet_later [OF now(1)] o2(3)])
  have seen: "set batch \<subseteq> set (rows_recorded a2)" using assms(4) lat2 by (simp add: later_def batch_def)
  show ?thesis
  proof (cases err)
    case (Some e)
    have res: "w1 = w2" "s1 = setStorageLastError e a2"
      using assms(3) False Some by (simp_all add: sw_appendBatch_def n1 n2)
    have "journal_ok enc c since2 (given @ batch) gone2 kept2 w1 s1"
      unfolding res using journal_dropped [OF o2(1) _ seen] o2(6) Some quiet_error_journal by blast
    moreover have "since2 \<le> utc_day (os_now s1)" "later s s1" "sw_cfg w1 = sw_cfg w"
      using o2(2,4) lat2 res by simp_all
    ultimately show ?thesis unfolding batch_def by blast
  next
    case None
    then obtain d where d: "sw_file w2 = Some d" using o2(5) by blast
    obtain n w3 a3 where n3: "encode_rows enc batch w2 a2 = (n, w3, a3)" by (metis prod_cases3)
    obtain kept3 where o3: "journal_ok enc c since2 (given @ batch) gone2 kept3 w3 a3" "later a2 a3"
      "sw_cfg w3 = sw_cfg w2"
      using encode_rows_ok [OF o2(1) n3 d seen] by blast
    have lat3: "later s a3" by (rule later_trans [OF lat2 o3(2)])
    have since3: "since2 \<le> utc_day (os_now a3)"
      by (rule later_day [OF o3(2) journal_clock [OF o2(1)] o2(2)])
    show ?thesis
    proof (cases "n = 0")
      case True
      have "w1 = w3" "s1 = a3" using assms(3) False None True
        by (simp_all add: sw_appendBatch_def n1 n2 n3 [unfolded batch_def])
      then show ?thesis using o3 since3 lat3 o2(4) unfolding batch_def by auto
    next
      case nonzero: False
      define w4 where "w4 = count_records started n w3"
      obtain finished a4 where n4: "time_Now a3 = (finished, a4)" by fastforce
      define a5 where "a5 = updateStorageWriteBatchMetrics n (time_Sub finished started)
        (storageBatchQueueWait started items) (report w4 a4)"
      have due: "run_due finished w4 a5 = (w1, s1)"
        using assms(3) False None nonzero
        by (simp add: sw_appendBatch_def n1 n2 n3 [unfolded batch_def] n4 Let_def w4_def a5_def)
      have q4: "quiet a3 a5"
        using time_Now_ok(1) [OF n4] by (simp add: a5_def updateStorageWriteBatchMetrics_def Let_def)
      have o4: "journal_ok enc c since2 (given @ batch) gone2 kept3 w4 a5"
        unfolding w4_def by (rule count_records_ok(1) [OF journal_quiet_same [OF o3(1) q4]])
      obtain gone5 kept5 where o5: "journal_ok enc c since2 (given @ batch) gone5 kept5 w1 s1"
        "later a5 s1" "sw_cfg w1 = sw_cfg w4"
        using run_due_ok [OF o4 due] by blast
      have lat5: "later a3 s1" by (rule later_trans [OF quiet_later [OF q4] o5(2)])
      have "later s s1" by (rule later_trans [OF lat3 lat5])
      moreover have "since2 \<le> utc_day (os_now s1)"
        by (rule later_day [OF lat5 journal_clock [OF o3(1)] since3])
      moreover have "sw_cfg w1 = sw_cfg w"
        using o5(3) o3(3) o2(4) by (simp add: w4_def count_records_def)
      ultimately show ?thesis using o5(1) unfolding batch_def by blast
    qed
  qed
qed

text \<open>The rows that reach the queue, in order; \<open>ws\<close> are the producers that wait.\<close>

fun sent_rows :: "'d loop_event list \<Rightarrow> 'd list \<Rightarrow> 'd list" where
  "sent_rows [] ws = []"
| "sent_rows (Offer x # evs) ws = sent_rows evs (ws @ [x])"
| "sent_rows (Send k # evs) ws = ws ! k # sent_rows evs (take k ws @ drop (Suc k) ws)"
| "sent_rows (Receive # evs) ws = sent_rows evs ws"
| "sent_rows (Wake # evs) ws = sent_rows evs ws"

definition loop_ok :: "('d \<Rightarrow> string option) \<Rightarrow> bool \<Rightarrow> storageWorkerConfig \<Rightarrow> 'd list \<Rightarrow> 'd loop_state \<Rightarrow> bool"
where
  "loop_ok enc c cfg given l \<longleftrightarrow>
     (\<exists>since gone kept. journal_ok enc c since given gone kept (lp_worker l) (lp_world l) \<and>
        since \<le> utc_day (os_now (lp_world l))) \<and>
     sw_cfg (lp_worker l) = cfg \<and>
     qr_row ` (set (lp_senders l) \<union> set (lp_queue l)) \<subseteq> set (rows_recorded (lp_world l))"

lemma loop_okI:
  assumes "journal_ok enc c since given gone kept (lp_worker l) (lp_world l)"
    and "since \<le> utc_day (os_now (lp_world l))" "sw_cfg (lp_worker l) = cfg"
    and "qr_row ` (set (lp_senders l) \<union> set (lp_queue l)) \<subseteq> set (rows_recorded (lp_world l))"
  shows "loop_ok enc c cfg given l"
  using assms unfolding loop_ok_def by blast

lemma quiet_queue_length [simp]: "quiet s (updateStorageQueueLength n s1) = quiet s s1"
  by (simp add: updateStorageQueueLength_def)

lemma queue_length_fields [simp]:
  "rows_recorded (updateStorageQueueLength n s) = rows_recorded s"
  "os_now (updateStorageQueueLength n s) = os_now s"
  by (simp_all add: updateStorageQueueLength_def)

abbreviation rows_of :: "'d queued list \<Rightarrow> 'd list" where
  "rows_of \<equiv> map qr_row"

lemma appendQueued_ok:
  assumes "loop_ok enc c cfg given l"
  shows "\<exists>batch. rows_of (lp_queue l) = batch @ rows_of (lp_queue (appendQueued enc l)) \<and>
    loop_ok enc c cfg (given @ batch) (appendQueued enc l) \<and>
    lp_senders (appendQueued enc l) = lp_senders l"
proof -
  define batch rest where "batch = take defaultStorageWriteBatchSize (lp_queue l)"
    and "rest = drop defaultStorageWriteBatchSize (lp_queue l)"
  define s0 where "s0 = updateStorageQueueLength (length rest) (lp_world l)"
  obtain w s where step: "sw_appendBatch enc batch (lp_worker l) s0 = (w, s)" by fastforce
  have res: "appendQueued enc l = l\<lparr>lp_worker := w, lp_world := s, lp_queue := rest\<rparr>"
    using step by (simp add: appendQueued_def collectStorageBatchInto_def batch_def rest_def s0_def)
  obtain since gone kept where inv: "journal_ok enc c since given gone kept (lp_worker l) (lp_world l)"
    "since \<le> utc_day (os_now (lp_world l))" "sw_cfg (lp_worker l) = cfg"
    "qr_row ` (set (lp_senders l) \<union> set (lp_queue l)) \<subseteq> set (rows_recorded (lp_world l))"
    using assms unfolding loop_ok_def by blast
  have q0: "quiet (lp_world l) s0" by (simp add: s0_def)
  have queue: "lp_queue l = batch @ rest" by (simp add: batch_def rest_def)
  then have "set (rows_of batch) \<subseteq> set (rows_recorded s0)" using inv(4) by (auto simp: s0_def)
  moreover have "since \<le> utc_day (os_now s0)" using inv(2) by (simp add: s0_def)
  ultimately obtain since1 gone1 kept1 where step_ok: "journal_ok enc c since1 (given @ rows_of batch) gone1 kept1 w s"
    "since1 \<le> utc_day (os_now s)" "later s0 s" "sw_cfg w = sw_cfg (lp_worker l)"
    using sw_appendBatch_ok [OF journal_quiet_same [OF inv(1) q0] _ step] by blast
  have "rows_recorded s = rows_recorded (lp_world l)" using step_ok(3) by (simp add: later_def s0_def)
  then have "qr_row ` (set (lp_senders l) \<union> set rest) \<subseteq> set (rows_recorded s)"
    using inv(4) by (auto simp: queue)
  then have "loop_ok enc c cfg (given @ rows_of batch) (appendQueued enc l)"
    using step_ok inv(3) by (intro loop_okI [of enc c since1 _ gone1 kept1]) (simp_all add: res)
  then show ?thesis using queue by (intro exI [of _ "rows_of batch"]) (simp add: res)
qed

lemma record_row_ok:
  assumes "journal_ok enc c since given gone kept w s"
  shows "journal_ok enc c since given gone kept w (s\<lparr>rows_recorded := rows_recorded s @ [x]\<rparr>)"
  using assms unfolding journal_ok_def days_ok_def clock_ok_def rows_ok_def snap_rows_def by auto

lemma loop_step_ok:
  assumes "loop_ok enc c cfg given l" "loop_step enc capacity ev l = Some l1"
  shows "\<exists>batch. loop_ok enc c cfg (given @ batch) l1 \<and>
    rows_of (lp_queue l) @ sent_rows (ev # evs) (rows_of (lp_senders l)) =
      batch @ rows_of (lp_queue l1) @ sent_rows evs (rows_of (lp_senders l1))"
proof -
  obtain since gone kept where inv: "journal_ok enc c since given gone kept (lp_worker l) (lp_world l)"
    "since \<le> utc_day (os_now (lp_world l))" "sw_cfg (lp_worker l) = cfg"
    "qr_row ` (set (lp_senders l) \<union> set (lp_queue l)) \<subseteq> set (rows_recorded (lp_world l))"
    using assms(1) unfolding loop_ok_def by blast
  show ?thesis
  proof (cases ev)
    case (Offer x)
    obtain t s1 where now: "time_Now (lp_world l) = (t, s1)" by fastforce
    define s2 where "s2 = s1\<lparr>rows_recorded := rows_recorded s1 @ [x]\<rparr>"
    have l1: "l1 = l\<lparr>lp_world := s2, lp_senders := lp_senders l @ [\<lparr>qr_row = x, enqueuedAt = t\<rparr>]\<rparr>"
      using assms(2) Offer by (simp add: enqueueStorageDetail_def now s2_def)
    note q = time_Now_ok(1) [OF now]
    have "since \<le> utc_day (os_now s1)"
      by (rule later_day [OF quiet_later [OF q] journal_clock [OF inv(1)] inv(2)])
    moreover have "rows_recorded s1 = rows_recorded (lp_world l)" using q by (simp add: quiet_def later_def)
    ultimately have "loop_ok enc c cfg given l1"
      using record_row_ok [OF journal_quiet_same [OF inv(1) q], of x] inv(3,4)
      by (intro loop_okI [of enc c since _ gone kept]) (auto simp: l1 s2_def)
    then show ?thesis using Offer by (intro exI [of _ "[]"]) (simp add: l1)
  next
    case (Send k)
    define s1 where "s1 = updateStorageQueueLength (Suc (length (lp_queue l))) (lp_world l)"
    have l1: "l1 = l\<lparr>lp_senders := take k (lp_senders l) @ drop (Suc k) (lp_senders l),
          lp_queue := lp_queue l @ [lp_senders l ! k], lp_world := s1\<rparr>" "k < length (lp_senders l)"
      using assms(2) Send by (auto simp: send_detail_def s1_def split: if_splits)
    have "journal_ok enc c since given gone kept (lp_worker l) s1"
      by (rule journal_quiet_same [OF inv(1)]) (simp add: s1_def)
    then have "loop_ok enc c cfg given l1"
      using inv(2-4) l1(2) by (intro loop_okI [of enc c since _ gone kept])
        (auto simp: l1(1) s1_def dest: in_set_takeD in_set_dropD)
    then show ?thesis using Send l1(2) by (intro exI [of _ "[]"]) (simp add: l1(1) take_map drop_map)
  next
    case Receive
    then have l1: "l1 = appendQueued enc l" using assms(2) by (simp split: if_splits)
    show ?thesis using appendQueued_ok [OF assms(1)] Receive unfolding l1
      by (metis append.assoc sent_rows.simps(4))
  next
    case Wake
    obtain armed s1 where n1: "time_Now (lp_world l) = (armed, s1)" by fastforce
    obtain now s2 where n2: "time_Now s1 = (now, s2)" by fastforce
    obtain w s3 where due: "run_due now (lp_worker l) s2 = (w, s3)" by fastforce
    have l1: "l1 = l\<lparr>lp_worker := w, lp_world := s3\<rparr>"
      using assms(2) Wake by (simp add: n1 n2 due Let_def split: if_splits)
    have q: "quiet (lp_world l) s2" using time_Now_ok(1) [OF n1] time_Now_ok(1) [OF n2] by (rule quiet_trans)
    obtain gone1 kept1 where step: "journal_ok enc c since given gone1 kept1 w s3" "later s2 s3"
      "sw_cfg w = sw_cfg (lp_worker l)"
      using run_due_ok [OF journal_quiet_same [OF inv(1) q] due] by blast
    have lat: "later (lp_world l) s3" by (rule later_trans [OF quiet_later [OF q] step(2)])
    have "since \<le> utc_day (os_now s3)" by (rule later_day [OF lat journal_clock [OF inv(1)] inv(2)])
    then have "loop_ok enc c cfg given l1"
      using step inv(3,4) lat by (intro loop_okI [of enc c since _ gone1 kept1]) (simp_all add: l1 later_def)
    then show ?thesis using Wake by (intro exI [of _ "[]"]) (simp add: l1)
  qed
qed

lemma loop_run_ok:
  assumes "loop_ok enc c cfg given l" "loop_run enc capacity evs l = Some l1"
  shows "\<exists>batch. loop_ok enc c cfg (given @ batch) l1 \<and>
    rows_of (lp_queue l) @ sent_rows evs (rows_of (lp_senders l)) = batch @ rows_of (lp_queue l1)"
  using assms
proof (induction evs arbitrary: given l)
  case Nil
  then show ?case by (intro exI [of _ "[]"]) simp
next
  case (Cons ev evs)
  obtain l2 where l2: "loop_step enc capacity ev l = Some l2" "loop_run enc capacity evs l2 = Some l1"
    using Cons(3) by (auto split: option.splits)
  obtain b where b: "loop_ok enc c cfg (given @ b) l2"
    "rows_of (lp_queue l) @ sent_rows (ev # evs) (rows_of (lp_senders l)) =
       b @ rows_of (lp_queue l2) @ sent_rows evs (rows_of (lp_senders l2))"
    using loop_step_ok [OF Cons(2) l2(1)] by blast
  obtain b' where "loop_ok enc c cfg ((given @ b) @ b') l1"
    "rows_of (lp_queue l2) @ sent_rows evs (rows_of (lp_senders l2)) = b' @ rows_of (lp_queue l1)"
    using Cons(1) [OF b(1) l2(2)] by blast
  then show ?case using b(2) by (intro exI [of _ "b @ b'"]) simp
qed

lemma drain_queue_ok:
  assumes "loop_ok enc c cfg given l"
  shows "loop_ok enc c cfg (given @ rows_of (lp_queue l)) (drain_queue enc l)"
  using assms
proof (induction enc l arbitrary: given rule: drain_queue.induct)
  case (1 enc l)
  show ?case
  proof (cases "lp_queue l = []")
    case True
    then show ?thesis using 1(2) by (subst drain_queue.simps) simp
  next
    case False
    obtain batch where b: "rows_of (lp_queue l) = batch @ rows_of (lp_queue (appendQueued enc l))"
      "loop_ok enc c cfg (given @ batch) (appendQueued enc l)"
      using appendQueued_ok [OF 1(2)] by blast
    have "loop_ok enc c cfg ((given @ batch) @ rows_of (lp_queue (appendQueued enc l)))
        (drain_queue enc (appendQueued enc l))"
      by (rule 1(1) [OF False b(2)])
    moreover have "drain_queue enc l = drain_queue enc (appendQueued enc l)"
      by (subst drain_queue.simps) (simp add: False)
    ultimately show ?thesis by (simp add: b(1))
  qed
qed

section \<open>After the worker has stopped\<close>

text \<open>
  What the directory holds: of each shard a part of the encodings of its rows, cut off at
  most at the end, and all of it, on stable storage, when \<open>whole\<close> is set.
\<close>

definition journal_holds :: "('d \<Rightarrow> string option) \<Rightarrow> bool \<Rightarrow> (int, shard) gomap \<Rightarrow> (int \<times> 'd list) list \<Rightarrow> bool"
where
  "journal_holds enc whole shards kept \<longleftrightarrow>
     list_all2 (\<lambda>(d, f) (d', xs). d = d' \<and> prefix (sh_data f) (enc_all enc xs) \<and>
       (whole \<longrightarrow> sh_data f = enc_all enc xs \<and> sh_synced f = length (sh_data f))) shards kept"

text \<open>
  The world the worker is started in: the clock never runs backwards, the shards are whole
  and of days up to the present one, and the rows of the journal and of the snapshot have been
  loaded into the statistics.
\<close>

definition start_ok :: "('d \<Rightarrow> string option) \<Rightarrow> (int \<times> 'd list) list \<Rightarrow> 'd world \<Rightarrow> bool" where
  "start_ok enc kept s \<longleftrightarrow> days_ok s \<and> journal_holds enc True (disk_shards s) kept \<and>
     set (concat (map snd kept)) \<union> snap_rows s \<subseteq> set (rows_recorded s)"

lemma closed_shards_hold:
  "list_all2 (closed_shard enc c since) shards kept \<Longrightarrow> journal_holds enc c shards kept"
  unfolding journal_holds_def by (auto simp: closed_shard_def elim!: list_all2_mono)

lemma start_loop_ok:
  assumes "start_ok enc kept s" "c \<Longrightarrow> os_faults s = []"
  shows "loop_ok enc c cfg (concat (map snd kept)) (start_loop cfg s)"
proof (rule loop_okI)
  have "list_all2 (closed_shard enc c (utc_day (os_now s))) (disk_shards s) kept"
    using assms(1) unfolding start_ok_def journal_holds_def
    by (auto simp: closed_shard_def elim!: list_all2_mono)
  then show "journal_ok enc c (utc_day (os_now s)) (concat (map snd kept)) [] kept
      (lp_worker (start_loop cfg s)) (lp_world (start_loop cfg s))"
    using assms by (simp add: start_loop_def new_worker_def journal_ok_def handle_ok_def handle_def
        shards_ok_def rows_ok_def start_ok_def)
qed (simp_all add: start_loop_def new_worker_def)

lemma sw_close_ok:
  assumes "journal_ok enc c since given gone kept w s" "sw_close w s = (w1, s1)"
    and "go_TrimSpace (cfg_dir (sw_cfg w)) \<noteq> []"
  shows "\<exists>gone1 kept1. journal_holds enc c (disk_shards s1) kept1 \<and> rows_ok c given gone1 kept1 s1 \<and>
    (c \<longrightarrow> (\<exists>v. disk_snapshot s1 = Some v \<and> sn_rows v = rows_recorded s1))"
proof -
  obtain now a1 where n1: "time_Now s = (now, a1)" by fastforce
  obtain w2 a2 where n2: "sw_closeFile now True w a1 = (w2, a2)" by fastforce
  define since' where "since' = (case sw_file w of None \<Rightarrow> since | Some d \<Rightarrow> max since (d + 1))"
  have since': "since \<le> since'" "\<And>d. sw_file w = Some d \<Longrightarrow> d < since'"
    by (auto simp: since'_def split: option.splits)
  note closed = sw_closeFile_ok [OF journal_quiet_same [OF assms(1) time_Now_ok(1) [OF n1]] n2 since']
  have dir: "go_TrimSpace (cfg_dir (sw_cfg w2)) \<noteq> []" using closed assms(3) by simp
  obtain ok where n3: "sw_writeSnapshot now w2 a2 = (ok, w1, s1)"
    using assms(2) dir by (auto simp: sw_close_def n1 n2 split: prod.splits)
  obtain gone1 kept1 where o: "journal_ok enc c since' given gone1 kept1 w1 s1" "sw_file w1 = None"
    "c \<longrightarrow> (\<exists>v. disk_snapshot s1 = Some v \<and> sn_rows v = rows_recorded s1)"
    using sw_writeSnapshot_ok [OF conjunct1 [OF closed] n3] closed dir by auto
  have "handle w1 = None" using o(1,2) by (simp add: handle_None journal_ok_def)
  then have "journal_holds enc c (disk_shards s1) kept1" "rows_ok c given gone1 kept1 s1"
    using o(1) closed_shards_hold by (auto simp: journal_ok_def shards_ok_def)
  then show ?thesis using o(3) by blast
qed


definition sample_time :: "int \<Rightarrow> gotime" where
  "sample_time n = \<lparr>t_ns = n * 1000000000, t_off = 0\<rparr>"

definition sample_world :: "nat world" where
  "sample_world = \<lparr>os_now = sample_time 100,
     os_clock = [sample_time 101, sample_time 101, sample_time 101, sample_time 101,
       sample_time 101, sample_time 86401, sample_time 86402],
     os_faults = [], disk_shards = [(0, \<lparr>sh_data = ''7;'', sh_synced = 2\<rparr>)], disk_snapshot = None,
     rows_recorded = [7],
     w_status = \<lparr>storageWorkerRunning = True, storageWriteQueueLength = 0, storageLastError = None,
       storageLoadedPath = None, storageLastFlush = zero_time, storageLastSnapshot = zero_time,
       storageLastSync = zero_time, storageBuffered = 0, storageSnapshotRecords = 0,
       storageUnsyncedRecords = 0, storageLastCompaction = zero_time,
       storageLastCompactedShards = 0, storageCompactedShardsTotal = 0,
       storageLastWriteBatchRecords = 0, storageLastWriteBatchDuration = 0,
       storageLastWriteQueueWait = 0, storageWriteBatchesTotal = 0, storageWriteRecordsTotal = 0,
       storageWriteBatchDurationAvg = 0, storageWriteQueueWaitAvg = 0,
       storageWriteBatchDurations = [], storageWriteQueueWaits = [],
       storageWriteQueueWaitMax = 0\<rparr>\<rparr>"

definition sample_enc :: "nat \<Rightarrow> string option" where
  "sample_enc n = Some [char_of (48 + n), CHR '';'']"

definition sample_cfg :: storageWorkerConfig where
  "sample_cfg = \<lparr>cfg_dir = ''data'', flushInterval = 2000000000, snapshotInterval = 0,
     snapshotRecordInterval = 3, syncInterval = 5000000000, syncRecordInterval = 0,
     cfg_lastSnapshot = zero_time\<rparr>"

definition sample_events :: "nat loop_event list" where
  "sample_events = [Offer 1, Offer 2, Send 1, Receive, Offer 3, Send 0, Send 0]"

definition sample_end :: "nat loop_state" where
  "sample_end = the (loop_run sample_enc 4 sample_events (start_loop sample_cfg sample_world))"

lemma sample_run_ends:
  "loop_run sample_enc 4 sample_events (start_loop sample_cfg sample_world) = Some sample_end"
proof -
  have "loop_run sample_enc 4 sample_events (start_loop sample_cfg sample_world) \<noteq> None" by code_simp
  then show ?thesis unfolding sample_end_def by simp
qed

lemma sample_world_ok: "start_ok sample_enc [(0, [7])] sample_world"
  by (simp add: start_ok_def sample_world_def days_ok_def clock_ok_def journal_holds_def sample_time_def
      zero_instant_def utc_day_eq enc_all_def map_filter_def sample_enc_def snap_rows_def) code_simp

lemma sample_end_shards:
  "disk_shards (lp_world (stop_loop sample_enc sample_end)) = [(1, \<lparr>sh_data = ''1;3;'', sh_synced = 4\<rparr>)]"
  by code_simp


end
