(* ===== verification/ExportJobs.thy ===== *)
theory ExportJobs
  imports GoTime
begin

text \<open>
  The table of export jobs of \<open>dashboard_export_jobs.go\<close> and the goroutines that run
  them.  A goroutine goes through the sections of \<open>run\<close> that hold the manager's mutex and
  the work between them; each section is one step, and between two steps anything else may
  happen.  The files in the temporary directory are a set: a job's final file and its
  \<open>.tmp\<close> file, both named by \<open>FilePath\<close>.  The encoders are not modelled here: a step
  says whether the file was opened and whether the encoding and its checksum succeeded, and
  with which result; a cancelled context is one more reason to fail.  Removing a file always succeeds, as the code ignores the error, and the
  summary that a successful export adds to the statistics is left out.
\<close>

section \<open>State\<close>

datatype job_status = JobQueued | JobRunning | JobSucceeded | JobFailed

definition dashboardExportKindEvents :: string where "dashboardExportKindEvents = ''events''"
definition dashboardExportKindUsage :: string where "dashboardExportKindUsage = ''usage''"

definition dashboardExportJobTTL :: duration where "dashboardExportJobTTL = 15 * time_Minute"
definition dashboardExportJobMaxActive :: int where "dashboardExportJobMaxActive = 2"
definition dashboardExportJobMaxStored :: nat where "dashboardExportJobMaxStored = 16"

record dashboardExportFileResult =
  er_Total :: int
  er_Exported :: int
  er_Truncated :: bool
  er_RawBytes :: int
  er_BodyBytes :: int
  er_ContentType :: string

text \<open>\<open>'p\<close> is the type of the query and the options that the encoder is given.\<close>

record 'p dashboardExportJob =
  ej_ID :: string
  ej_Kind :: string
  ej_Status :: job_status
  ej_Params :: 'p
  ej_CreatedAt :: gotime
  ej_SnapshotAt :: gotime
  ej_StartedAt :: gotime
  ej_FinishedAt :: gotime
  ej_ExpiresAt :: gotime
  ej_Error :: string
  ej_Total :: int
  ej_Exported :: int
  ej_Truncated :: bool
  ej_RawBytes :: int
  ej_BodyBytes :: int
  ej_ContentType :: string
  ej_ETag :: string
  ej_FilePath :: string

datatype export_file = TmpFile string | FinalFile string

text \<open>Where a goroutine of \<open>run\<close> stands.\<close>

datatype run_phase =
    Spawned
  | Encoding
  | Encoded dashboardExportFileResult string
  | CleaningUp
  | Exiting

record export_worker =
  xw_id :: string
  xw_path :: string
  xw_phase :: run_phase

record 'p export_manager =
  em_jobs :: "(string, 'p dashboardExportJob) gomap"
  em_closed :: bool
  em_workers :: int
  em_threads :: "export_worker list"
  em_files :: "export_file set"

definition newDashboardExportJobManager :: "'p export_manager" where
  "newDashboardExportJobManager = \<lparr>em_jobs = [], em_closed = False, em_workers = 0,
     em_threads = [], em_files = {}\<rparr>"

section \<open>Operations of the table\<close>

definition is_active :: "'p dashboardExportJob \<Rightarrow> bool" where
  "is_active job \<longleftrightarrow> ej_Status job = JobQueued \<or> ej_Status job = JobRunning"

definition dashboardExportJobKind :: "'p dashboardExportJob \<Rightarrow> string" where
  "dashboardExportJobKind job = (if ej_Kind job = [] then dashboardExportKindEvents else ej_Kind job)"

definition activeLocked :: "'p export_manager \<Rightarrow> int" where
  "activeLocked m =
     (let active = int (length (filter (\<lambda>(k, job). is_active job) (em_jobs m)))
      in if active < em_workers m then em_workers m else active)"

definition remove_files :: "string \<Rightarrow> export_file set \<Rightarrow> export_file set" where
  "remove_files p fs = fs - {TmpFile p, FinalFile p}"

definition drop_job :: "string \<Rightarrow> 'p dashboardExportJob \<Rightarrow> 'p export_manager \<Rightarrow> 'p export_manager" where
  "drop_job k job m = m\<lparr>em_jobs := go_del k (em_jobs m),
     em_files := remove_files (ej_FilePath job) (em_files m)\<rparr>"

definition job_expired :: "gotime \<Rightarrow> 'p dashboardExportJob \<Rightarrow> bool" where
  "job_expired now job \<longleftrightarrow> \<not> is_active job \<and>
     (let expires = (if time_IsZero (ej_ExpiresAt job)
                     then time_Add (ej_CreatedAt job) dashboardExportJobTTL else ej_ExpiresAt job)
      in \<not> time_Before now expires)"

definition cleanupLocked :: "gotime \<Rightarrow> 'p export_manager \<Rightarrow> 'p export_manager" where
  "cleanupLocked now m =
     fold (\<lambda>(k, job) m. if job_expired now job then drop_job k job m else m) (em_jobs m) m"

datatype create_error = ShuttingDown | TooManyActive | TooManyRetained

definition export_path :: "string \<Rightarrow> string \<Rightarrow> string \<Rightarrow> string" where
  "export_path tempDir kind k = tempDir @ ''/cpa-usage-'' @ kind @ ''-export-'' @ k"

definition new_job :: "string \<Rightarrow> string \<Rightarrow> string \<Rightarrow> 'p \<Rightarrow> gotime \<Rightarrow> 'p dashboardExportJob" where
  "new_job k kind p params now = \<lparr>ej_ID = k, ej_Kind = kind,
     ej_Status = JobQueued, ej_Params = params, ej_CreatedAt = now, ej_SnapshotAt = now,
     ej_StartedAt = zero_time, ej_FinishedAt = zero_time,
     ej_ExpiresAt = time_Add now dashboardExportJobTTL, ej_Error = [], ej_Total = 0,
     ej_Exported = 0, ej_Truncated = False, ej_RawBytes = 0, ej_BodyBytes = 0,
     ej_ContentType = [], ej_ETag = [], ej_FilePath = p\<rparr>"

text \<open>
  \<open>createKind\<close>; \<open>k\<close> is the identifier drawn by \<open>newDashboardExportJobID\<close>.  The
  goroutine is started after the mutex is released.
\<close>

definition createKind :: "string \<Rightarrow> string \<Rightarrow> string \<Rightarrow> 'p \<Rightarrow> gotime \<Rightarrow> 'p export_manager \<Rightarrow>
    (create_error + 'p dashboardExportJob) \<times> 'p export_manager" where
  "createKind tempDir kind k params now m0 =
     (let m = cleanupLocked now m0 in
      if em_closed m then (Inl ShuttingDown, m)
      else if dashboardExportJobMaxActive \<le> activeLocked m then (Inl TooManyActive, m)
      else if dashboardExportJobMaxStored \<le> length (em_jobs m) then (Inl TooManyRetained, m)
      else let p = export_path tempDir kind k; job = new_job k kind p params now in
        (Inr job,
         m\<lparr>em_jobs := go_put k job (em_jobs m), em_workers := em_workers m + 1,
           em_threads := em_threads m @ [\<lparr>xw_id = k, xw_path = p, xw_phase = Spawned\<rparr>]\<rparr>))"

definition update :: "string \<Rightarrow> ('p dashboardExportJob \<Rightarrow> 'p dashboardExportJob) \<Rightarrow>
    'p export_manager \<Rightarrow> 'p export_manager" where
  "update k f m =
     (if em_closed m then m
      else case go_get (em_jobs m) k of
        None \<Rightarrow> m
      | Some job \<Rightarrow> m\<lparr>em_jobs := go_put k (f job) (em_jobs m)\<rparr>)"

definition failed_job :: "gotime \<Rightarrow> string \<Rightarrow> 'p dashboardExportJob \<Rightarrow> 'p dashboardExportJob" where
  "failed_job now err job = job\<lparr>ej_Status := JobFailed, ej_FinishedAt := now,
     ej_ExpiresAt := time_Add now dashboardExportJobTTL, ej_Error := err\<rparr>"

definition fail :: "string \<Rightarrow> string \<Rightarrow> gotime \<Rightarrow> 'p export_manager \<Rightarrow> 'p export_manager" where
  "fail k err now m =
     (let m1 = update k (failed_job now err) m in
      if em_closed m then m1
      else case go_get (em_jobs m) k of
        None \<Rightarrow> m1
      | Some job \<Rightarrow> m1\<lparr>em_files := remove_files (ej_FilePath job) (em_files m1)\<rparr>)"

definition get_job :: "string \<Rightarrow> gotime \<Rightarrow> 'p export_manager \<Rightarrow>
    'p dashboardExportJob option \<times> 'p export_manager" where
  "get_job k now m0 = (let m = cleanupLocked now m0 in (go_get (em_jobs m) k, m))"

text \<open>\<open>list\<close> sorts by creation, the newest first; Go leaves the order of equal times open.\<close>

definition list_jobs :: "string \<Rightarrow> gotime \<Rightarrow> 'p export_manager \<Rightarrow>
    'p dashboardExportJob list \<times> 'p export_manager" where
  "list_jobs kind now m0 =
     (let m = cleanupLocked now m0 in
      (rev (sort_key (\<lambda>job. t_ns (ej_CreatedAt job))
         (filter (\<lambda>job. dashboardExportJobKind job = kind) (map snd (em_jobs m)))), m))"

definition deleteKind :: "string \<Rightarrow> string \<Rightarrow> 'p export_manager \<Rightarrow> bool \<times> 'p export_manager" where
  "deleteKind k kind m =
     (case go_get (em_jobs m) k of
        None \<Rightarrow> (False, m)
      | Some job \<Rightarrow> if dashboardExportJobKind job \<noteq> kind then (False, m) else (True, drop_job k job m))"

definition close_manager :: "'p export_manager \<Rightarrow> 'p export_manager" where
  "close_manager m =
     fold (\<lambda>(k, job). drop_job k job) (em_jobs m) (m\<lparr>em_closed := True\<rparr>)"

section \<open>The goroutine\<close>

definition set_thread :: "nat \<Rightarrow> run_phase \<Rightarrow> 'p export_manager \<Rightarrow> 'p export_manager" where
  "set_thread i ph m = m\<lparr>em_threads := (em_threads m)[i := (em_threads m ! i)\<lparr>xw_phase := ph\<rparr>]\<rparr>"

text \<open>The first section of \<open>run\<close>: the job may be gone already.\<close>

definition run_begin :: "nat \<Rightarrow> gotime \<Rightarrow> 'p export_manager \<Rightarrow> 'p export_manager" where
  "run_begin i now m =
     (let k = xw_id (em_threads m ! i) in
      case go_get (em_jobs m) k of
        None \<Rightarrow> set_thread i Exiting m
      | Some job \<Rightarrow>
          if em_closed m then set_thread i Exiting m
          else set_thread i Encoding
            (m\<lparr>em_jobs := go_put k (job\<lparr>ej_Status := JobRunning, ej_StartedAt := now\<rparr>) (em_jobs m)\<rparr>))"

text \<open>The encoder opens the temporary file; a failure of it or of the checksum removes the file.\<close>

definition run_open :: "nat \<Rightarrow> 'p export_manager \<Rightarrow> 'p export_manager" where
  "run_open i m = m\<lparr>em_files := insert (TmpFile (xw_path (em_threads m ! i))) (em_files m)\<rparr>"

definition run_failed :: "nat \<Rightarrow> string \<Rightarrow> gotime \<Rightarrow> 'p export_manager \<Rightarrow> 'p export_manager" where
  "run_failed i err now m =
     (let w = em_threads m ! i;
          m1 = m\<lparr>em_files := em_files m - {TmpFile (xw_path w)}\<rparr>
      in set_thread i CleaningUp (fail (xw_id w) err now m1))"

definition export_etag :: "string \<Rightarrow> string \<Rightarrow> string" where
  "export_etag kind sum_hex = ''W/'' @ [CHR 0x22] @ kind @ ''-export-job-'' @ sum_hex @ [CHR 0x22]"

definition succeeded_job :: "gotime \<Rightarrow> string \<Rightarrow> dashboardExportFileResult \<Rightarrow> string \<Rightarrow>
    'p dashboardExportJob \<Rightarrow> 'p dashboardExportJob" where
  "succeeded_job now kind r sum_hex job = job\<lparr>ej_Status := JobSucceeded, ej_FinishedAt := now,
     ej_ExpiresAt := time_Add now dashboardExportJobTTL, ej_Total := er_Total r,
     ej_Exported := er_Exported r, ej_Truncated := er_Truncated r, ej_RawBytes := er_RawBytes r,
     ej_BodyBytes := er_BodyBytes r, ej_ContentType := er_ContentType r,
     ej_ETag := export_etag kind sum_hex\<rparr>"

text \<open>
  The last section: the rename and the job's new state are one step for everyone else.
  \<open>None\<close> is a rename that fails.
\<close>

definition run_publish :: "nat \<Rightarrow> string option \<Rightarrow> gotime \<Rightarrow> 'p export_manager \<Rightarrow> 'p export_manager" where
  "run_publish i rename_error now m =
     (let w = em_threads m ! i; k = xw_id w; p = xw_path w in
      case (xw_phase w, go_get (em_jobs m) k) of
        (Encoded r sum_hex, Some job) \<Rightarrow>
          if em_closed m then set_thread i CleaningUp m
          else (case rename_error of
            Some err \<Rightarrow> set_thread i CleaningUp
              (m\<lparr>em_files := em_files m - {TmpFile p},
                 em_jobs := go_put k (failed_job now err job) (em_jobs m)\<rparr>)
          | None \<Rightarrow> set_thread i Exiting
              (m\<lparr>em_files := insert (FinalFile p) (em_files m - {TmpFile p}),
                 em_jobs := go_put k (succeeded_job now (dashboardExportJobKind job) r sum_hex job)
                   (em_jobs m)\<rparr>))
      | _ \<Rightarrow> set_thread i CleaningUp m)"

text \<open>The deferred removal of both files, and the end of the goroutine.\<close>

definition run_cleanup :: "nat \<Rightarrow> 'p export_manager \<Rightarrow> 'p export_manager" where
  "run_cleanup i m = set_thread i Exiting
     (m\<lparr>em_files := remove_files (xw_path (em_threads m ! i)) (em_files m)\<rparr>)"

definition run_exit :: "nat \<Rightarrow> 'p export_manager \<Rightarrow> 'p export_manager" where
  "run_exit i m = m\<lparr>em_workers := em_workers m - 1,
     em_threads := take i (em_threads m) @ drop (Suc i) (em_threads m)\<rparr>"

section \<open>Steps\<close>

text \<open>
  An identifier is 16 random bytes; the model takes it to be unused, in the table and by the
  goroutines that still run, and so the path made of it.  A rename succeeds only when the
  temporary file is there.
\<close>

definition unused :: "string \<Rightarrow> string \<Rightarrow> 'p export_manager \<Rightarrow> bool" where
  "unused k p m \<longleftrightarrow> k \<notin> set (go_keys (em_jobs m)) \<and> k \<notin> set (map xw_id (em_threads m)) \<and>
     p \<notin> set (map (ej_FilePath \<circ> snd) (em_jobs m)) \<and> p \<notin> set (map xw_path (em_threads m))"

definition in_phase :: "nat \<Rightarrow> run_phase \<Rightarrow> 'p export_manager \<Rightarrow> bool" where
  "in_phase i ph m \<longleftrightarrow> i < length (em_threads m) \<and> xw_phase (em_threads m ! i) = ph"

inductive export_step :: "'p export_manager \<Rightarrow> 'p export_manager \<Rightarrow> bool" where
  Create: "unused k (export_path tempDir kind k) m \<Longrightarrow>
    export_step m (snd (createKind tempDir kind k params now m))"
| Get: "export_step m (snd (get_job k now m))"
| List: "export_step m (snd (list_jobs kind now m))"
| Delete: "export_step m (snd (deleteKind k kind m))"
| Close: "export_step m (close_manager m)"
| Begin: "in_phase i Spawned m \<Longrightarrow> export_step m (run_begin i now m)"
| Open: "in_phase i Encoding m \<Longrightarrow> export_step m (run_open i m)"
| Fail: "in_phase i Encoding m \<Longrightarrow> export_step m (run_failed i err now m)"
| Encode: "in_phase i Encoding m \<Longrightarrow> export_step m (set_thread i (Encoded r sum_hex) m)"
| Publish: "\<lbrakk>in_phase i (Encoded r sum_hex) m;
    rename_error = None \<Longrightarrow> TmpFile (xw_path (em_threads m ! i)) \<in> em_files m\<rbrakk> \<Longrightarrow>
    export_step m (run_publish i rename_error now m)"
| Cleanup: "in_phase i CleaningUp m \<Longrightarrow> export_step m (run_cleanup i m)"
| Exit: "in_phase i Exiting m \<Longrightarrow> export_step m (run_exit i m)"

abbreviation export_steps :: "'p export_manager \<Rightarrow> 'p export_manager \<Rightarrow> bool" where
  "export_steps \<equiv> export_step\<^sup>*\<^sup>*"

end
