(* ===== verification/ExportJobsInvariant.thy ===== *)
theory ExportJobsInvariant
  imports ExportJobs
begin

text \<open>
  What holds of the table of export jobs in every state that its operations and goroutines
  can reach, in whatever order their steps are taken.
\<close>

section \<open>The invariant\<close>

text \<open>The state of a job that a goroutine works on, by where the goroutine stands.\<close>

fun phase_ok :: "run_phase \<Rightarrow> job_status \<Rightarrow> bool" where
  "phase_ok Spawned st \<longleftrightarrow> st = JobQueued"
| "phase_ok Encoding st \<longleftrightarrow> st = JobRunning"
| "phase_ok (Encoded r sum_hex) st \<longleftrightarrow> st = JobRunning"
| "phase_ok CleaningUp st \<longleftrightarrow> st = JobFailed"
| "phase_ok Exiting st \<longleftrightarrow> st = JobSucceeded \<or> st = JobFailed"

definition jobs_ok :: "(string, 'p dashboardExportJob) gomap \<Rightarrow> export_worker list \<Rightarrow> bool" where
  "jobs_ok js ws \<longleftrightarrow> (\<forall>k job. go_get js k = Some job \<longrightarrow>
     (\<forall>w \<in> set ws. xw_id w = k \<longrightarrow> phase_ok (xw_phase w) (ej_Status job)) \<and>
     (is_active job \<longrightarrow> k \<in> xw_id ` set ws))"

text \<open>Identifiers and paths in use determine each other.\<close>

definition names :: "(string, 'p dashboardExportJob) gomap \<Rightarrow> export_worker list \<Rightarrow> (string \<times> string) set"
where
  "names js ws = {(k, ej_FilePath job) | k job. go_get js k = Some job} \<union>
     (\<lambda>w. (xw_id w, xw_path w)) ` set ws"

definition names_ok :: "(string \<times> string) set \<Rightarrow> bool" where
  "names_ok N \<longleftrightarrow> (\<forall>x \<in> N. \<forall>y \<in> N. fst x = fst y \<longleftrightarrow> snd x = snd y)"

definition has_tmp :: "run_phase \<Rightarrow> bool" where
  "has_tmp ph \<longleftrightarrow> ph \<noteq> Spawned \<and> ph \<noteq> Exiting"

definition files_ok :: "(string, 'p dashboardExportJob) gomap \<Rightarrow> export_worker list \<Rightarrow> export_file set \<Rightarrow> bool"
where
  "files_ok js ws fs \<longleftrightarrow>
     (\<forall>p. FinalFile p \<in> fs \<longleftrightarrow>
       (\<exists>k job. go_get js k = Some job \<and> ej_Status job = JobSucceeded \<and> ej_FilePath job = p)) \<and>
     (\<forall>p. TmpFile p \<in> fs \<longrightarrow> (\<exists>w \<in> set ws. xw_path w = p \<and> has_tmp (xw_phase w)))"

definition table_ok :: "'p export_manager \<Rightarrow> bool" where
  "table_ok m \<longleftrightarrow> go_wf (em_jobs m) \<and> distinct (map xw_id (em_threads m)) \<and>
     jobs_ok (em_jobs m) (em_threads m) \<and> names_ok (names (em_jobs m) (em_threads m)) \<and>
     files_ok (em_jobs m) (em_threads m) (em_files m)"

definition bounds_ok :: "'p export_manager \<Rightarrow> bool" where
  "bounds_ok m \<longleftrightarrow> em_workers m = int (length (em_threads m)) \<and> length (em_threads m) \<le> 2 \<and>
     length (em_jobs m) \<le> 16 \<and> (em_closed m \<longrightarrow> em_jobs m = [])"

lemma names_ok_sub: "names_ok N \<Longrightarrow> M \<subseteq> N \<Longrightarrow> names_ok M"
  unfolding names_ok_def by blast

lemma names_okD: "names_ok N \<Longrightarrow> (k, p) \<in> N \<Longrightarrow> (k', p') \<in> N \<Longrightarrow> (k = k') = (p = p')"
  unfolding names_ok_def by (metis fst_conv snd_conv)

lemma names_job: "go_get js k = Some job \<Longrightarrow> (k, ej_FilePath job) \<in> names js ws"
  by (auto simp: names_def)

lemma names_thread: "w \<in> set ws \<Longrightarrow> (xw_id w, xw_path w) \<in> names js ws"
  by (auto simp: names_def)

section \<open>Dropping jobs\<close>

lemma drop_job_fields [simp]:
  "em_jobs (drop_job k job m) = go_del k (em_jobs m)" "em_threads (drop_job k job m) = em_threads m"
  "em_workers (drop_job k job m) = em_workers m" "em_closed (drop_job k job m) = em_closed m"
  "em_files (drop_job k job m) = remove_files (ej_FilePath job) (em_files m)"
  by (simp_all add: drop_job_def)

lemma drop_job_ok:
  assumes "table_ok m" "go_get (em_jobs m) k = Some job"
  shows "table_ok (drop_job k job m)"
proof -
  have inv: "jobs_ok (em_jobs m) (em_threads m)" "names_ok (names (em_jobs m) (em_threads m))"
    "files_ok (em_jobs m) (em_threads m) (em_files m)"
    using assms(1) by (simp_all add: table_ok_def)
  have sub: "names (go_del k (em_jobs m)) (em_threads m) \<subseteq> names (em_jobs m) (em_threads m)"
    by (auto simp: names_def split: if_splits)
  have path: "k' = k" if "go_get (em_jobs m) k' = Some job'" "ej_FilePath job' = ej_FilePath job" for k' job'
    using names_okD [OF inv(2) names_job [OF that(1)] names_job [OF assms(2)]] that(2) by simp
  have del: "go_get (go_del k (em_jobs m)) k' = Some job' \<longleftrightarrow> k' \<noteq> k \<and> go_get (em_jobs m) k' = Some job'" for k' job'
    by simp
  have final: "FinalFile p \<in> em_files m \<longleftrightarrow> (\<exists>k' job'. go_get (em_jobs m) k' = Some job' \<and>
      ej_Status job' = JobSucceeded \<and> ej_FilePath job' = p)" for p
    using inv(3) unfolding files_ok_def by blast
  have "FinalFile p \<in> em_files m \<and> p \<noteq> ej_FilePath job \<longleftrightarrow> (\<exists>k' job'. (k' \<noteq> k \<and>
      go_get (em_jobs m) k' = Some job') \<and> ej_Status job' = JobSucceeded \<and> ej_FilePath job' = p)" for p
    unfolding final using path assms(2) by (metis option.inject)
  then have "files_ok (go_del k (em_jobs m)) (em_threads m) (remove_files (ej_FilePath job) (em_files m))"
    using inv(3) unfolding files_ok_def remove_files_def del by simp
  moreover have "jobs_ok (go_del k (em_jobs m)) (em_threads m)"
    using inv(1) by (auto simp: jobs_ok_def)
  ultimately show ?thesis
    using assms(1) names_ok_sub [OF inv(2) sub] by (auto simp: table_ok_def)
qed

definition drop_jobs :: "('p dashboardExportJob \<Rightarrow> bool) \<Rightarrow> (string, 'p dashboardExportJob) gomap \<Rightarrow>
    'p export_manager \<Rightarrow> 'p export_manager" where
  "drop_jobs P xs m = fold (\<lambda>(k, job) m. if P job then drop_job k job m else m) xs m"

lemma drop_jobs_ok:
  assumes "table_ok m" "go_wf xs" "\<forall>(k, job) \<in> set xs. go_get (em_jobs m) k = Some job"
  shows "table_ok (drop_jobs P xs m) \<and> em_threads (drop_jobs P xs m) = em_threads m \<and>
    em_workers (drop_jobs P xs m) = em_workers m \<and> em_closed (drop_jobs P xs m) = em_closed m \<and>
    length (em_jobs (drop_jobs P xs m)) \<le> length (em_jobs m) \<and>
    (\<forall>k. go_get (em_jobs (drop_jobs P xs m)) k =
      (case go_get xs k of None \<Rightarrow> go_get (em_jobs m) k
       | Some job \<Rightarrow> if P job then None else go_get (em_jobs m) k))"
  using assms
proof (induction xs arbitrary: m)
  case Nil
  then show ?case by (simp add: drop_jobs_def)
next
  case (Cons x xs)
  obtain k job where x: "x = (k, job)" by fastforce
  define m1 where "m1 = (if P job then drop_job k job m else m)"
  have m1: "table_ok m1" "em_threads m1 = em_threads m" "em_workers m1 = em_workers m"
    "em_closed m1 = em_closed m" "length (em_jobs m1) \<le> length (em_jobs m)"
    using Cons(2,4) drop_job_ok [of m k job] by (auto simp: m1_def x AList.length_delete_le)
  have get: "go_get (em_jobs m1) k' = (if k' = k \<and> P job then None else go_get (em_jobs m) k')" for k'
    by (simp add: m1_def)
  have new: "k \<notin> fst ` set xs" using Cons(3) by (simp add: x)
  have rest: "\<forall>(k', job') \<in> set xs. go_get (em_jobs m1) k' = Some job'"
  proof (intro ballI, clarify)
    fix k' job' assume mem: "(k', job') \<in> set xs"
    then have "k' \<noteq> k" using new by force
    then show "go_get (em_jobs m1) k' = Some job'" using mem Cons(4) by (auto simp: get)
  qed
  have "drop_jobs P (x # xs) m = drop_jobs P xs m1" by (simp add: drop_jobs_def x m1_def)
  moreover have "map_of xs k = None" using new by (simp add: map_of_eq_None_iff)
  ultimately show ?case
    using Cons(1) [OF m1(1) _ rest] Cons(3) m1 get by (auto simp: x split: option.splits)
qed

lemma jobs_listed: "go_wf js \<Longrightarrow> \<forall>(k, job) \<in> set js. go_get js k = Some job"
  by auto

lemma cleanup_ok:
  assumes "table_ok m" "bounds_ok m"
  shows "table_ok (cleanupLocked now m)" "bounds_ok (cleanupLocked now m)"
    "em_threads (cleanupLocked now m) = em_threads m" "em_closed (cleanupLocked now m) = em_closed m"
    "go_get (em_jobs (cleanupLocked now m)) k =
      (case go_get (em_jobs m) k of None \<Rightarrow> None | Some job \<Rightarrow> if job_expired now job then None else Some job)"
proof -
  have wf: "go_wf (em_jobs m)" using assms(1) by (simp add: table_ok_def)
  have eq: "cleanupLocked now m = drop_jobs (job_expired now) (em_jobs m) m"
    by (simp add: cleanupLocked_def drop_jobs_def)
  note dropped = drop_jobs_ok [OF assms(1) wf jobs_listed [OF wf], of "job_expired now"]
  show "table_ok (cleanupLocked now m)" "em_threads (cleanupLocked now m) = em_threads m"
    "em_closed (cleanupLocked now m) = em_closed m"
    using dropped by (simp_all add: eq)
  show "bounds_ok (cleanupLocked now m)"
    using dropped assms(2) unfolding eq bounds_ok_def by auto
  show "go_get (em_jobs (cleanupLocked now m)) k =
      (case go_get (em_jobs m) k of None \<Rightarrow> None | Some job \<Rightarrow> if job_expired now job then None else Some job)"
    using dropped by (simp add: eq split: option.splits)
qed

lemma close_ok:
  assumes "table_ok m" "bounds_ok m"
  shows "table_ok (close_manager m)" "bounds_ok (close_manager m)" "em_jobs (close_manager m) = []"
proof -
  have wf: "go_wf (em_jobs m)" using assms(1) by (simp add: table_ok_def)
  have eq: "close_manager m = drop_jobs (\<lambda>job. True) (em_jobs m) (m\<lparr>em_closed := True\<rparr>)"
    by (simp add: close_manager_def drop_jobs_def)
  have "table_ok (m\<lparr>em_closed := True\<rparr>)" using assms(1) by (simp add: table_ok_def)
  note dropped = drop_jobs_ok [OF this wf, of "\<lambda>job. True"]
  have all: "\<forall>(k, job) \<in> set (em_jobs m). go_get (em_jobs (m\<lparr>em_closed := True\<rparr>)) k = Some job"
    using jobs_listed [OF wf] by simp
  have "go_get (em_jobs (close_manager m)) k = None" for k
    using dropped [OF all] by (simp add: eq split: option.splits)
  then show gone: "em_jobs (close_manager m) = []"
    by (metis map_of_eq_None_iff list.set_intros(1) list.exhaust image_eqI)
  show "table_ok (close_manager m)" using dropped [OF all] by (simp add: eq)
  show "bounds_ok (close_manager m)" using dropped [OF all] assms(2) gone by (simp add: eq bounds_ok_def)
qed

section \<open>Steps of a goroutine\<close>

lemma set_update_thread:
  assumes "i < length ts" "distinct (map xw_id ts)"
  shows "set (ts[i := (ts ! i)\<lparr>xw_phase := ph\<rparr>]) =
    insert ((ts ! i)\<lparr>xw_phase := ph\<rparr>) {w \<in> set ts. xw_id w \<noteq> xw_id (ts ! i)}"
proof -
  have "distinct ts" using assms(2) by (simp add: distinct_map)
  then have "set (ts[i := (ts ! i)\<lparr>xw_phase := ph\<rparr>]) = insert ((ts ! i)\<lparr>xw_phase := ph\<rparr>) (set ts - {ts ! i})"
    using assms(1) by (rule set_update_distinct)
  moreover have "set ts - {ts ! i} = {w \<in> set ts. xw_id w \<noteq> xw_id (ts ! i)}"
    using assms by (auto simp: distinct_map dest: inj_onD)
  ultimately show ?thesis by simp
qed

lemma map_same_update:
  assumes "i < length ts" "f x = f (ts ! i)"
  shows "map f (ts[i := x]) = map f ts"
proof -
  have "map f (ts[i := x]) = (map f ts)[i := map f ts ! i]" using assms by (simp add: map_update)
  then show ?thesis by (simp only: list_update_id)
qed

text \<open>
  One goroutine moves on: its own job and its own two files may change with it, and nothing
  else does.
\<close>

lemma thread_step_ok:
  assumes "table_ok m" "i < length (em_threads m)"
    and w: "w = em_threads m ! i" "k = xw_id w" "p = xw_path w"
    and js: "js = em_jobs m \<or> (\<exists>job job'. go_get (em_jobs m) k = Some job \<and>
      js = go_put k job' (em_jobs m) \<and> ej_FilePath job' = ej_FilePath job)"
    and ph: "\<And>job. go_get js k = Some job \<Longrightarrow> phase_ok ph (ej_Status job)"
    and others: "\<And>q. q \<noteq> p \<Longrightarrow> (FinalFile q \<in> fs \<longleftrightarrow> FinalFile q \<in> em_files m) \<and>
      (TmpFile q \<in> fs \<longrightarrow> TmpFile q \<in> em_files m)"
    and final: "FinalFile p \<in> fs \<longleftrightarrow> (\<exists>job. go_get js k = Some job \<and> ej_Status job = JobSucceeded)"
    and tmp: "TmpFile p \<in> fs \<Longrightarrow> has_tmp ph"
  shows "table_ok (m\<lparr>em_jobs := js, em_files := fs, em_threads := (em_threads m)[i := w\<lparr>xw_phase := ph\<rparr>]\<rparr>)"
proof -
  let ?ts = "em_threads m" and ?ts' = "(em_threads m)[i := w\<lparr>xw_phase := ph\<rparr>]"
  have inv: "go_wf (em_jobs m)" "distinct (map xw_id ?ts)" "jobs_ok (em_jobs m) ?ts"
    "names_ok (names (em_jobs m) ?ts)" "files_ok (em_jobs m) ?ts (em_files m)"
    using assms(1) by (simp_all add: table_ok_def)
  have wi: "w \<in> set ?ts" using assms(2) w(1) by simp
  have set: "set ?ts' = insert (w\<lparr>xw_phase := ph\<rparr>) {v \<in> set ?ts. xw_id v \<noteq> k}"
    using set_update_thread [OF assms(2) inv(2), of ph] by (simp add: w)
  have ids: "map xw_id ?ts' = map xw_id ?ts"
    "map (\<lambda>v. (xw_id v, xw_path v)) ?ts' = map (\<lambda>v. (xw_id v, xw_path v)) ?ts"
    by (rule map_same_update [OF assms(2)], simp add: w(1))+
  have other: "go_get js k' = go_get (em_jobs m) k'" if "k' \<noteq> k" for k' using js that by auto
  have paths: "go_get js k = Some job \<Longrightarrow> ej_FilePath job = p" for job
  proof -
    assume job: "go_get js k = Some job"
    obtain job0 where "go_get (em_jobs m) k = Some job0" "ej_FilePath job = ej_FilePath job0"
      using js job by auto
    then show ?thesis
      using names_okD [OF inv(4) names_job names_thread [OF wi]] w by metis
  qed
  have far: "ej_FilePath job \<noteq> p" if "go_get (em_jobs m) k' = Some job" "k' \<noteq> k" for k' job
    using names_okD [OF inv(4) names_job [OF that(1)] names_thread [OF wi]] that(2) w by simp
  have far_thread: "xw_path v \<noteq> p" if "v \<in> set ?ts" "xw_id v \<noteq> k" for v
    using names_okD [OF inv(4) names_thread [OF that(1)] names_thread [OF wi]] that(2) w by simp
  have wf: "go_wf js" using js inv(1) go_wf_put by auto
  have "jobs_ok js ?ts'"
    unfolding jobs_ok_def
  proof (intro allI impI conjI ballI)
    fix k' job v assume job: "go_get js k' = Some job" and v: "v \<in> set ?ts'" "xw_id v = k'"
    show "phase_ok (xw_phase v) (ej_Status job)"
    proof (cases "k' = k")
      case True
      then show ?thesis using v ph [of job] job unfolding set by auto
    next
      case False
      then show ?thesis using v job other [OF False] inv(3) w(2) unfolding set jobs_ok_def by auto
    qed
  next
    fix k' job assume job: "go_get js k' = Some job" and act: "is_active job"
    have "xw_id ` set ?ts' = xw_id ` set ?ts" using ids(1) by (metis set_map)
    moreover have "k' \<in> xw_id ` set ?ts"
    proof (cases "k' = k")
      case True
      then show ?thesis using wi w(2) by blast
    next
      case False
      then show ?thesis using inv(3) job act other [OF False] unfolding jobs_ok_def by auto
    qed
    ultimately show "k' \<in> xw_id ` set ?ts'" by simp
  qed
  moreover have "names js ?ts' \<subseteq> names (em_jobs m) ?ts"
  proof -
    have "set (map (\<lambda>v. (xw_id v, xw_path v)) ?ts') = set (map (\<lambda>v. (xw_id v, xw_path v)) ?ts)"
      by (simp only: ids(2))
    then have "(\<lambda>v. (xw_id v, xw_path v)) ` set ?ts' = (\<lambda>v. (xw_id v, xw_path v)) ` set ?ts"
      by (simp only: set_map)
    moreover have "(k', ej_FilePath job) \<in> names (em_jobs m) ?ts" if "go_get js k' = Some job" for k' job
    proof (cases "k' = k")
      case True
      then show ?thesis using paths that names_thread [OF wi] w by auto
    next
      case False
      then show ?thesis using that other [OF False] by (simp add: names_job)
    qed
    moreover have "(\<lambda>v. (xw_id v, xw_path v)) ` set ?ts \<subseteq> names (em_jobs m) ?ts"
      by (rule image_subsetI) (rule names_thread)
    ultimately show ?thesis unfolding names_def [of js] by (simp only: Un_subset_iff) auto
  qed
  moreover have "files_ok js ?ts' fs"
    unfolding files_ok_def
  proof (intro conjI allI impI)
    fix q
    show "FinalFile q \<in> fs \<longleftrightarrow>
        (\<exists>k' job. go_get js k' = Some job \<and> ej_Status job = JobSucceeded \<and> ej_FilePath job = q)"
    proof (cases "q = p")
      case True
      have "k' = k" if "go_get js k' = Some job" "ej_FilePath job = p" for k' job
        using far [of k' job] that other [of k'] by (cases "k' = k") auto
      then show ?thesis unfolding True final using paths by metis
    next
      case False
      have "(\<exists>k' job. go_get js k' = Some job \<and> ej_Status job = JobSucceeded \<and> ej_FilePath job = q) =
          (\<exists>k' job. go_get (em_jobs m) k' = Some job \<and> ej_Status job = JobSucceeded \<and> ej_FilePath job = q)"
      proof -
        have "k' \<noteq> k" if "go_get js k' = Some job" "ej_FilePath job = q" for k' job
          using paths that False by blast
        moreover have "k' \<noteq> k" if "go_get (em_jobs m) k' = Some job" "ej_FilePath job = q" for k' job
          using names_okD [OF inv(4) names_job [OF that(1)] names_thread [OF wi]] that(2) False w by auto
        ultimately show ?thesis using other by metis
      qed
      then show ?thesis using others [OF False] inv(5) unfolding files_ok_def by blast
    qed
  next
    fix q assume q: "TmpFile q \<in> fs"
    show "\<exists>v \<in> set ?ts'. xw_path v = q \<and> has_tmp (xw_phase v)"
    proof (cases "q = p")
      case True
      then show ?thesis using tmp q w unfolding set by auto
    next
      case False
      then obtain v where v: "v \<in> set ?ts" "xw_path v = q" "has_tmp (xw_phase v)"
        using others [OF False] q inv(5) unfolding files_ok_def by blast
      then have "xw_id v \<noteq> k"
        using names_okD [OF inv(4) names_thread [OF v(1)] names_thread [OF wi]] False w by simp
      then show ?thesis using v unfolding set by blast
    qed
  qed
  ultimately show ?thesis
    using wf inv(2) names_ok_sub [OF inv(4)] ids(1) by (simp add: table_ok_def)
qed

lemma length_put: "go_get js k = Some v \<Longrightarrow> length (go_put k v' js) = length js"
  by (induction js) (auto split: if_splits)

lemma length_put_le: "length (go_put k v' js) \<le> Suc (length js)"
  by (induction js) auto

lemma set_thread_eq:
  "set_thread i ph m = m\<lparr>em_jobs := em_jobs m, em_files := em_files m,
     em_threads := (em_threads m)[i := (em_threads m ! i)\<lparr>xw_phase := ph\<rparr>]\<rparr>"
  by (simp add: set_thread_def)

lemma set_thread_bounds [simp]: "bounds_ok (set_thread i ph m) = bounds_ok m"
  by (simp add: bounds_ok_def set_thread_def)

lemma thread_job:
  assumes "table_ok m" "i < length (em_threads m)" "go_get (em_jobs m) (xw_id (em_threads m ! i)) = Some job"
  shows "phase_ok (xw_phase (em_threads m ! i)) (ej_Status job)" "ej_FilePath job = xw_path (em_threads m ! i)"
proof -
  have w: "em_threads m ! i \<in> set (em_threads m)" using assms(2) by simp
  show "phase_ok (xw_phase (em_threads m ! i)) (ej_Status job)"
    using assms w unfolding table_ok_def jobs_ok_def by blast
  show "ej_FilePath job = xw_path (em_threads m ! i)"
    using assms(1) names_okD [OF _ names_job [OF assms(3)] names_thread [OF w]] unfolding table_ok_def by blast
qed

text \<open>The final file of a goroutine's path is there exactly when its job has succeeded.\<close>

lemma thread_final:
  assumes "table_ok m" "i < length (em_threads m)"
  shows "FinalFile (xw_path (em_threads m ! i)) \<in> em_files m \<longleftrightarrow>
    (\<exists>job. go_get (em_jobs m) (xw_id (em_threads m ! i)) = Some job \<and> ej_Status job = JobSucceeded)"
proof -
  have w: "em_threads m ! i \<in> set (em_threads m)" using assms(2) by simp
  have names: "names_ok (names (em_jobs m) (em_threads m))" using assms(1) by (simp add: table_ok_def)
  have "k = xw_id (em_threads m ! i)"
    if "go_get (em_jobs m) k = Some job" "ej_FilePath job = xw_path (em_threads m ! i)" for k job
    using names_okD [OF names names_job [OF that(1)] names_thread [OF w]] that(2) by simp
  moreover have "FinalFile (xw_path (em_threads m ! i)) \<in> em_files m \<longleftrightarrow>
    (\<exists>k job. go_get (em_jobs m) k = Some job \<and> ej_Status job = JobSucceeded \<and>
      ej_FilePath job = xw_path (em_threads m ! i))"
    using assms(1) by (simp add: table_ok_def files_ok_def)
  ultimately show ?thesis using thread_job(2) [OF assms] by blast
qed

lemma thread_tmp:
  assumes "table_ok m" "i < length (em_threads m)" "TmpFile (xw_path (em_threads m ! i)) \<in> em_files m"
  shows "has_tmp (xw_phase (em_threads m ! i))"
proof -
  have w: "em_threads m ! i \<in> set (em_threads m)" using assms(2) by simp
  obtain v where v: "v \<in> set (em_threads m)" "xw_path v = xw_path (em_threads m ! i)" "has_tmp (xw_phase v)"
    using assms(1,3) unfolding table_ok_def files_ok_def by blast
  have "xw_id v = xw_id (em_threads m ! i)"
    using names_okD [OF _ names_thread [OF v(1)] names_thread [OF w]] v(2) assms(1) unfolding table_ok_def by blast
  then have "v = em_threads m ! i"
    using assms(1) v(1) w by (auto simp: table_ok_def distinct_map dest: inj_onD)
  then show ?thesis using v(3) by simp
qed

lemma run_begin_ok:
  assumes "table_ok m" "bounds_ok m" "in_phase i Spawned m"
  shows "table_ok (run_begin i now m) \<and> bounds_ok (run_begin i now m)"
proof -
  define w k where "w = em_threads m ! i" and "k = xw_id w"
  have i: "i < length (em_threads m)" "xw_phase w = Spawned" using assms(3) by (simp_all add: in_phase_def w_def)
  have no_tmp: "TmpFile (xw_path w) \<notin> em_files m"
    using thread_tmp [OF assms(1) i(1)] i(2) by (auto simp: w_def has_tmp_def)
  note final = thread_final [OF assms(1) i(1), folded w_def k_def]
  show ?thesis
  proof (cases "go_get (em_jobs m) k")
    case None
    then have "run_begin i now m = set_thread i Exiting m" by (simp add: run_begin_def w_def k_def Let_def)
    moreover have "table_ok (set_thread i Exiting m)"
      unfolding set_thread_eq w_def [symmetric]
      by (rule thread_step_ok [OF assms(1) i(1) w_def k_def refl])
         (use None no_tmp final in \<open>auto simp: w_def k_def\<close>)
    ultimately show ?thesis using assms(2) by simp
  next
    case (Some job)
    have open_table: "\<not> em_closed m" using assms(2) Some by (auto simp: bounds_ok_def)
    note old = thread_job [OF assms(1) i(1), folded w_def k_def, OF Some]
    define js where "js = go_put k (job\<lparr>ej_Status := JobRunning, ej_StartedAt := now\<rparr>) (em_jobs m)"
    have eq: "run_begin i now m = m\<lparr>em_jobs := js, em_files := em_files m,
        em_threads := (em_threads m)[i := w\<lparr>xw_phase := Encoding\<rparr>]\<rparr>"
      using Some open_table by (simp add: run_begin_def w_def k_def Let_def set_thread_def js_def)
    have "table_ok (run_begin i now m)"
      unfolding eq
      by (rule thread_step_ok [OF assms(1) i(1) w_def k_def refl])
         (use Some no_tmp final old i(2) in \<open>auto simp: js_def\<close>)
    moreover have "length js = length (em_jobs m)"
      using Some by (simp add: js_def length_put)
    ultimately show ?thesis using assms(2) open_table by (simp add: eq bounds_ok_def)
  qed
qed

lemma run_open_ok:
  assumes "table_ok m" "bounds_ok m" "in_phase i Encoding m"
  shows "table_ok (run_open i m) \<and> bounds_ok (run_open i m)"
proof -
  define w k where "w = em_threads m ! i" and "k = xw_id w"
  have i: "i < length (em_threads m)" "xw_phase w = Encoding" using assms(3) by (simp_all add: in_phase_def w_def)
  have same: "(em_threads m)[i := w\<lparr>xw_phase := Encoding\<rparr>] = em_threads m"
  proof -
    have "w\<lparr>xw_phase := Encoding\<rparr> = em_threads m ! i" using i(2) by (simp add: w_def)
    then show ?thesis by simp
  qed
  have eq: "run_open i m = m\<lparr>em_jobs := em_jobs m, em_files := insert (TmpFile (xw_path w)) (em_files m),
      em_threads := (em_threads m)[i := w\<lparr>xw_phase := Encoding\<rparr>]\<rparr>"
    by (simp add: run_open_def w_def [symmetric] same)
  have "table_ok (run_open i m)"
    unfolding eq
    by (rule thread_step_ok [OF assms(1) i(1) w_def k_def refl])
       (use thread_job(1) [OF assms(1) i(1), folded w_def k_def] i(2)
         thread_final [OF assms(1) i(1), folded w_def k_def] in \<open>auto simp: has_tmp_def\<close>)
  then show ?thesis using assms(2) by (simp add: run_open_def bounds_ok_def)
qed

lemma run_encode_ok:
  assumes "table_ok m" "bounds_ok m" "in_phase i Encoding m"
  shows "table_ok (set_thread i (Encoded r sum_hex) m) \<and> bounds_ok (set_thread i (Encoded r sum_hex) m)"
proof -
  define w k where "w = em_threads m ! i" and "k = xw_id w"
  have i: "i < length (em_threads m)" "xw_phase w = Encoding" using assms(3) by (simp_all add: in_phase_def w_def)
  have "table_ok (set_thread i (Encoded r sum_hex) m)"
    unfolding set_thread_eq w_def [symmetric]
    by (rule thread_step_ok [OF assms(1) i(1) w_def k_def refl])
       (use thread_job(1) [OF assms(1) i(1), folded w_def k_def] i(2)
         thread_final [OF assms(1) i(1), folded w_def k_def] in \<open>auto simp: has_tmp_def\<close>)
  then show ?thesis using assms(2) by simp
qed

lemma failed_job_fields [simp]:
  "ej_Status (failed_job now err job) = JobFailed" "ej_FilePath (failed_job now err job) = ej_FilePath job"
  by (simp_all add: failed_job_def)

lemma succeeded_job_fields [simp]:
  "ej_Status (succeeded_job now kind r sum_hex job) = JobSucceeded"
  "ej_FilePath (succeeded_job now kind r sum_hex job) = ej_FilePath job"
  by (simp_all add: succeeded_job_def)

lemma run_failed_ok:
  assumes "table_ok m" "bounds_ok m" "in_phase i Encoding m"
  shows "table_ok (run_failed i err now m) \<and> bounds_ok (run_failed i err now m)"
proof -
  define w k where "w = em_threads m ! i" and "k = xw_id w"
  have i: "i < length (em_threads m)" "xw_phase w = Encoding" using assms(3) by (simp_all add: in_phase_def w_def)
  note old = thread_job [OF assms(1) i(1), folded w_def k_def]
  note final = thread_final [OF assms(1) i(1), folded w_def k_def]
  have no_final: "FinalFile (xw_path w) \<notin> em_files m" unfolding final using old(1) i(2) by fastforce
  show ?thesis
  proof (cases "go_get (em_jobs m) k")
    case None
    have eq: "run_failed i err now m = m\<lparr>em_jobs := em_jobs m, em_files := em_files m - {TmpFile (xw_path w)},
        em_threads := (em_threads m)[i := w\<lparr>xw_phase := CleaningUp\<rparr>]\<rparr>"
      using None by (simp add: run_failed_def fail_def update_def w_def [symmetric] k_def [symmetric] Let_def set_thread_def)
    have "table_ok (run_failed i err now m)"
      unfolding eq
      by (rule thread_step_ok [OF assms(1) i(1) w_def k_def refl])
         (use None no_final in \<open>auto simp: has_tmp_def\<close>)
    then show ?thesis using assms(2) by (simp add: eq bounds_ok_def)
  next
    case (Some job)
    have open_table: "\<not> em_closed m" using assms(2) Some by (auto simp: bounds_ok_def)
    have minus: "fs - {TmpFile q} - {TmpFile q, FinalFile q} = fs - {TmpFile q, FinalFile q}" for fs q
      by blast
    define js where "js = go_put k (failed_job now err job) (em_jobs m)"
    have eq: "run_failed i err now m = m\<lparr>em_jobs := js, em_files := remove_files (xw_path w) (em_files m),
        em_threads := (em_threads m)[i := w\<lparr>xw_phase := CleaningUp\<rparr>]\<rparr>"
      using Some open_table old(2) [OF Some] minus
      by (simp add: run_failed_def fail_def update_def w_def [symmetric] k_def [symmetric] Let_def
          set_thread_def js_def remove_files_def)
    have "table_ok (run_failed i err now m)"
      unfolding eq
      by (rule thread_step_ok [OF assms(1) i(1) w_def k_def refl])
         (use Some in \<open>auto simp: js_def has_tmp_def remove_files_def\<close>)
    then show ?thesis using assms(2) Some open_table by (simp add: eq bounds_ok_def js_def length_put)
  qed
qed

lemma run_publish_ok:
  assumes "table_ok m" "bounds_ok m" "in_phase i (Encoded r sum_hex) m"
  shows "table_ok (run_publish i e now m) \<and> bounds_ok (run_publish i e now m)"
proof -
  define w k where "w = em_threads m ! i" and "k = xw_id w"
  have i: "i < length (em_threads m)" "xw_phase w = Encoded r sum_hex"
    using assms(3) by (simp_all add: in_phase_def w_def)
  note old = thread_job [OF assms(1) i(1), folded w_def k_def]
  note final = thread_final [OF assms(1) i(1), folded w_def k_def]
  have no_final: "FinalFile (xw_path w) \<notin> em_files m" unfolding final using old(1) i(2) by fastforce
  show ?thesis
  proof (cases "go_get (em_jobs m) k")
    case None
    have eq: "run_publish i e now m = set_thread i CleaningUp m"
      using None i(2) by (simp add: run_publish_def w_def [symmetric] k_def [symmetric] Let_def)
    have "table_ok (set_thread i CleaningUp m)"
      unfolding set_thread_eq w_def [symmetric]
      by (rule thread_step_ok [OF assms(1) i(1) w_def k_def refl])
         (use None no_final in \<open>auto simp: has_tmp_def\<close>)
    then show ?thesis using assms(2) by (simp add: eq)
  next
    case (Some job)
    have open_table: "\<not> em_closed m" using assms(2) Some by (auto simp: bounds_ok_def)
    show ?thesis
    proof (cases e)
      case e: (Some err)
      define js where "js = go_put k (failed_job now err job) (em_jobs m)"
      have eq: "run_publish i e now m = m\<lparr>em_jobs := js, em_files := em_files m - {TmpFile (xw_path w)},
          em_threads := (em_threads m)[i := w\<lparr>xw_phase := CleaningUp\<rparr>]\<rparr>"
        using Some open_table i(2) e
        by (simp add: run_publish_def w_def [symmetric] k_def [symmetric] Let_def set_thread_def js_def)
      have "table_ok (run_publish i e now m)"
        unfolding eq
        by (rule thread_step_ok [OF assms(1) i(1) w_def k_def refl])
           (use Some no_final in \<open>auto simp: js_def has_tmp_def\<close>)
      then show ?thesis using assms(2) Some open_table by (simp add: eq bounds_ok_def js_def length_put)
    next
      case None
      define js where "js = go_put k (succeeded_job now (dashboardExportJobKind job) r sum_hex job) (em_jobs m)"
      have eq: "run_publish i e now m = m\<lparr>em_jobs := js,
          em_files := insert (FinalFile (xw_path w)) (em_files m - {TmpFile (xw_path w)}),
          em_threads := (em_threads m)[i := w\<lparr>xw_phase := Exiting\<rparr>]\<rparr>"
        using Some open_table i(2) None
        by (simp add: run_publish_def w_def [symmetric] k_def [symmetric] Let_def set_thread_def js_def)
      have "table_ok (run_publish i e now m)"
        unfolding eq
        by (rule thread_step_ok [OF assms(1) i(1) w_def k_def refl])
           (use Some in \<open>auto simp: js_def has_tmp_def\<close>)
      then show ?thesis using assms(2) Some open_table by (simp add: eq bounds_ok_def js_def length_put)
    qed
  qed
qed

lemma run_cleanup_ok:
  assumes "table_ok m" "bounds_ok m" "in_phase i CleaningUp m"
  shows "table_ok (run_cleanup i m) \<and> bounds_ok (run_cleanup i m)"
proof -
  define w k where "w = em_threads m ! i" and "k = xw_id w"
  have i: "i < length (em_threads m)" "xw_phase w = CleaningUp" using assms(3) by (simp_all add: in_phase_def w_def)
  note old = thread_job [OF assms(1) i(1), folded w_def k_def]
  have failed: "ej_Status job = JobFailed" if "go_get (em_jobs m) k = Some job" for job
    using old(1) [OF that] i(2) by simp
  have eq: "run_cleanup i m = m\<lparr>em_jobs := em_jobs m, em_files := remove_files (xw_path w) (em_files m),
      em_threads := (em_threads m)[i := w\<lparr>xw_phase := Exiting\<rparr>]\<rparr>"
    by (simp add: run_cleanup_def w_def [symmetric] set_thread_def)
  have "table_ok (run_cleanup i m)"
    unfolding eq
    by (rule thread_step_ok [OF assms(1) i(1) w_def k_def refl])
       (use failed in \<open>auto simp: remove_files_def\<close>)
  then show ?thesis using assms(2) by (simp add: eq bounds_ok_def)
qed

lemma run_exit_ok:
  assumes "table_ok m" "bounds_ok m" "in_phase i Exiting m"
  shows "table_ok (run_exit i m) \<and> bounds_ok (run_exit i m)"
proof -
  define w where "w = em_threads m ! i"
  let ?ts = "em_threads m" and ?ts' = "take i (em_threads m) @ drop (Suc i) (em_threads m)"
  have i: "i < length ?ts" "xw_phase w = Exiting" using assms(3) by (simp_all add: in_phase_def w_def)
  have split: "?ts = take i ?ts @ w # drop (Suc i) ?ts" using i(1) by (simp add: id_take_nth_drop w_def)
  have inv: "distinct (map xw_id ?ts)" "jobs_ok (em_jobs m) ?ts" "names_ok (names (em_jobs m) ?ts)"
    "files_ok (em_jobs m) ?ts (em_files m)"
    using assms(1) by (simp_all add: table_ok_def)
  have sub: "set ?ts' \<subseteq> set ?ts" using set_take_subset set_drop_subset by fastforce
  have all: "set ?ts = insert w (set ?ts')" by (subst split) auto
  have "distinct (map xw_id (take i ?ts @ w # drop (Suc i) ?ts))" using inv(1) split by simp
  then have dist: "distinct (map xw_id ?ts')" by auto
  have "jobs_ok (em_jobs m) ?ts'"
    unfolding jobs_ok_def
  proof (intro allI impI conjI ballI)
    fix k job v assume "go_get (em_jobs m) k = Some job" "v \<in> set ?ts'" "xw_id v = k"
    then show "phase_ok (xw_phase v) (ej_Status job)" using inv(2) sub unfolding jobs_ok_def by blast
  next
    fix k job assume job: "go_get (em_jobs m) k = Some job" "is_active job"
    have "k \<noteq> xw_id w"
    proof
      assume "k = xw_id w"
      then have "phase_ok Exiting (ej_Status job)"
        using inv(2) job(1) all i(2) unfolding jobs_ok_def by (metis insertI1)
      then show False using job(2) by (auto simp: is_active_def)
    qed
    moreover have "k \<in> xw_id ` set ?ts" using inv(2) job unfolding jobs_ok_def by blast
    then have "k \<in> xw_id ` insert w (set ?ts')" using all by simp
    ultimately show "k \<in> xw_id ` set ?ts'" by blast
  qed
  moreover have "names (em_jobs m) ?ts' \<subseteq> names (em_jobs m) ?ts" using sub unfolding names_def by blast
  moreover have "\<exists>v \<in> set ?ts'. xw_path v = p \<and> has_tmp (xw_phase v)" if "TmpFile p \<in> em_files m" for p
    using inv(4) that all i(2) unfolding files_ok_def has_tmp_def by (metis insertE)
  then have "files_ok (em_jobs m) ?ts' (em_files m)"
    using inv(4) unfolding files_ok_def by blast
  ultimately have "table_ok (run_exit i m)"
    using assms(1) dist names_ok_sub [OF inv(3)] by (simp add: table_ok_def run_exit_def)
  moreover have "length ?ts' + 1 = length ?ts" using i(1) by simp
  then have "bounds_ok (run_exit i m)"
    using assms(2) by (auto simp: bounds_ok_def run_exit_def)
  ultimately show ?thesis by blast
qed

section \<open>Creation, and every step\<close>

lemma active_is_workers:
  assumes "table_ok m" "bounds_ok m"
  shows "activeLocked m = em_workers m"
proof -
  let ?act = "filter (\<lambda>(k, job). is_active job) (em_jobs m)"
  have wf: "go_wf (em_jobs m)" and jobs: "jobs_ok (em_jobs m) (em_threads m)"
    using assms(1) by (simp_all add: table_ok_def)
  have dist: "distinct (map fst ?act)" using wf by (rule distinct_map_filter)
  have sub: "set (map fst ?act) \<subseteq> set (map xw_id (em_threads m))"
  proof
    fix k assume "k \<in> set (map fst ?act)"
    then obtain job where "(k, job) \<in> set (em_jobs m)" "is_active job" by auto
    then show "k \<in> set (map xw_id (em_threads m))"
      using wf jobs unfolding jobs_ok_def by auto
  qed
  have "length (map fst ?act) = card (set (map fst ?act))" by (rule distinct_card [OF dist, symmetric])
  also have "\<dots> \<le> card (set (map xw_id (em_threads m)))" by (rule card_mono [OF finite_set sub])
  also have "\<dots> \<le> length (map xw_id (em_threads m))" by (rule card_length)
  finally show ?thesis using assms(2) by (simp add: activeLocked_def bounds_ok_def)
qed

lemma create_ok:
  assumes "table_ok m0" "bounds_ok m0" "unused k (export_path tempDir kind k) m0"
  shows "table_ok (snd (createKind tempDir kind k params now m0)) \<and>
    bounds_ok (snd (createKind tempDir kind k params now m0))"
proof -
  define m where "m = cleanupLocked now m0"
  have inv: "table_ok m" "bounds_ok m" "em_threads m = em_threads m0"
    using cleanup_ok [OF assms(1,2)] by (simp_all add: m_def)
  note get = cleanup_ok(5) [OF assms(1,2), of now, folded m_def]
  show ?thesis
  proof (cases "em_closed m \<or> dashboardExportJobMaxActive \<le> activeLocked m \<or>
      dashboardExportJobMaxStored \<le> length (em_jobs m)")
    case True
    then have "snd (createKind tempDir kind k params now m0) = m"
      by (auto simp: createKind_def m_def [symmetric] Let_def)
    then show ?thesis using inv by simp
  next
    case False
    define p where "p = export_path tempDir kind k"
    define job where "job = new_job k kind p params now"
    define w where "w = \<lparr>xw_id = k, xw_path = p, xw_phase = Spawned\<rparr>"
    have eq: "snd (createKind tempDir kind k params now m0) =
        m\<lparr>em_jobs := go_put k job (em_jobs m), em_workers := em_workers m + 1,
          em_threads := em_threads m @ [w]\<rparr>"
      using False by (simp add: createKind_def m_def [symmetric] Let_def p_def job_def w_def)
    have new: "go_get (em_jobs m) k = None" "k \<notin> xw_id ` set (em_threads m)"
      "\<And>k' job'. go_get (em_jobs m) k' = Some job' \<Longrightarrow> ej_FilePath job' \<noteq> p"
      "p \<notin> xw_path ` set (em_threads m)"
    proof -
      have un: "k \<notin> set (go_keys (em_jobs m0))" "k \<notin> set (map xw_id (em_threads m0))"
        "p \<notin> set (map (ej_FilePath \<circ> snd) (em_jobs m0))" "p \<notin> set (map xw_path (em_threads m0))"
        using assms(3) by (simp_all add: unused_def p_def)
      have "go_get (em_jobs m0) k = None" using un(1) by (simp add: map_of_eq_None_iff)
      then show "go_get (em_jobs m) k = None" unfolding get by simp
      show "k \<notin> xw_id ` set (em_threads m)" "p \<notin> xw_path ` set (em_threads m)"
        using un(2,4) inv(3) by simp_all
      fix k' job' assume "go_get (em_jobs m) k' = Some job'"
      then have "go_get (em_jobs m0) k' = Some job'" unfolding get by (auto split: option.splits if_splits)
      then show "ej_FilePath job' \<noteq> p" using un(3) map_of_SomeD by force
    qed
    have old: "go_wf (em_jobs m)" "distinct (map xw_id (em_threads m))" "jobs_ok (em_jobs m) (em_threads m)"
      "names_ok (names (em_jobs m) (em_threads m))" "files_ok (em_jobs m) (em_threads m) (em_files m)"
      using inv(1) by (simp_all add: table_ok_def)
    have job: "ej_Status job = JobQueued" "ej_FilePath job = p" "\<not> ej_Status job = JobSucceeded"
      by (simp_all add: job_def new_job_def)
    have "jobs_ok (go_put k job (em_jobs m)) (em_threads m @ [w])"
      using old(3) new(2) job(1) by (auto simp: jobs_ok_def w_def)
    moreover have "names_ok (names (go_put k job (em_jobs m)) (em_threads m @ [w]))"
    proof -
      have "names (go_put k job (em_jobs m)) (em_threads m @ [w]) \<subseteq> insert (k, p) (names (em_jobs m) (em_threads m))"
        using job(2) by (auto simp: names_def w_def split: if_splits)
      moreover have "k' \<noteq> k \<and> p' \<noteq> p" if "(k', p') \<in> names (em_jobs m) (em_threads m)" for k' p'
        using that new by (auto simp: names_def)
      then have "names_ok (insert (k, p) (names (em_jobs m) (em_threads m)))"
        using old(4) unfolding names_ok_def by fastforce
      ultimately show ?thesis using names_ok_sub by blast
    qed
    moreover have "files_ok (go_put k job (em_jobs m)) (em_threads m @ [w]) (em_files m)"
    proof -
      have "(go_get (go_put k job (em_jobs m)) k' = Some job' \<and> ej_Status job' = JobSucceeded) =
          (go_get (em_jobs m) k' = Some job' \<and> ej_Status job' = JobSucceeded)" for k' job'
        using job(3) new(1) by auto
      then have "(\<exists>k' job'. go_get (go_put k job (em_jobs m)) k' = Some job' \<and>
            ej_Status job' = JobSucceeded \<and> ej_FilePath job' = q) =
          (\<exists>k' job'. go_get (em_jobs m) k' = Some job' \<and>
            ej_Status job' = JobSucceeded \<and> ej_FilePath job' = q)" for q
        by metis
      then show ?thesis using old(5) unfolding files_ok_def by simp
    qed
    moreover have "length (go_put k job (em_jobs m)) \<le> Suc (length (em_jobs m))"
      by (rule length_put_le)
    moreover have "length (em_threads m) < 2" "length (em_jobs m) < 16" "\<not> em_closed m"
      using False active_is_workers [OF inv(1,2)] inv(2)
      by (simp_all add: bounds_ok_def dashboardExportJobMaxActive_def dashboardExportJobMaxStored_def)
    ultimately show ?thesis
      using old(1,2) new(2) inv(2) by (auto simp: eq table_ok_def bounds_ok_def w_def)
  qed
qed

lemma delete_ok:
  assumes "table_ok m" "bounds_ok m"
  shows "table_ok (snd (deleteKind k kind m)) \<and> bounds_ok (snd (deleteKind k kind m))"
  using assms drop_job_ok [OF assms(1)] length_delete_le [of k "em_jobs m"]
  by (auto simp: deleteKind_def bounds_ok_def split: option.splits)

lemma export_step_ok:
  assumes "export_step m m'" "table_ok m" "bounds_ok m"
  shows "table_ok m' \<and> bounds_ok m'"
  using assms
proof cases
  case (Create k tempDir kind params now)
  then show ?thesis using create_ok [OF assms(2,3)] by simp
next
  case (Get k now)
  then show ?thesis using cleanup_ok [OF assms(2,3)] by (simp add: get_job_def Let_def)
next
  case (List kind now)
  then show ?thesis using cleanup_ok [OF assms(2,3)] by (simp add: list_jobs_def Let_def)
next
  case (Delete k kind)
  then show ?thesis using delete_ok [OF assms(2,3)] by simp
next
  case Close
  then show ?thesis using close_ok [OF assms(2,3)] by simp
next
  case (Begin i now)
  then show ?thesis using run_begin_ok [OF assms(2,3)] by simp
next
  case (Open i)
  then show ?thesis using run_open_ok [OF assms(2,3)] by simp
next
  case (Fail i err now)
  then show ?thesis using run_failed_ok [OF assms(2,3)] by simp
next
  case (Encode i r sum_hex)
  then show ?thesis using run_encode_ok [OF assms(2,3)] by simp
next
  case (Publish i r sum_hex rename_error now)
  then show ?thesis using run_publish_ok [OF assms(2,3)] by simp
next
  case (Cleanup i)
  then show ?thesis using run_cleanup_ok [OF assms(2,3)] by simp
next
  case (Exit i)
  then show ?thesis using run_exit_ok [OF assms(2,3)] by simp
qed

section \<open>Finished jobs\<close>

text \<open>A job that has succeeded or failed is not changed any more, only removed.\<close>

lemma active_of_phase: "phase_ok ph st \<Longrightarrow> ph \<noteq> CleaningUp \<Longrightarrow> ph \<noteq> Exiting \<Longrightarrow>
    st = JobQueued \<or> st = JobRunning"
  by (cases ph) simp_all

lemma fail_get:
  "go_get (em_jobs (fail k err now m)) k' = go_get (em_jobs m) k' \<or>
    (k' = k \<and> go_get (em_jobs m) k \<noteq> None)"
  by (auto simp: fail_def update_def Let_def split: option.splits)

lemma thread_get:
  assumes "export_step m m'" "table_ok m" "bounds_ok m" "go_get (em_jobs m) k = Some job" "\<not> is_active job"
  shows "go_get (em_jobs m') k = None \<or> go_get (em_jobs m') k = Some job"
  using assms(1)
proof cases
  case (Create k' tempDir kind params now)
  have "k \<in> set (go_keys (em_jobs m))" using map_of_SomeD [OF assms(4)] by force
  then have "k \<noteq> k'" using Create(2) unfolding unused_def by blast
  then show ?thesis
    using cleanup_ok(5) [OF assms(2,3), of now k] assms(4)
    by (simp add: Create(1) createKind_def Let_def)
next
  case (Get k' now)
  then show ?thesis using cleanup_ok(5) [OF assms(2,3), of now k] assms(4) by (simp add: get_job_def Let_def)
next
  case (List kind now)
  then show ?thesis using cleanup_ok(5) [OF assms(2,3), of now k] assms(4) by (simp add: list_jobs_def Let_def)
next
  case (Delete k' kind)
  then show ?thesis using assms(4) by (auto simp: deleteKind_def split: option.splits)
next
  case Close
  then show ?thesis using close_ok(3) [OF assms(2,3)] by simp
next
  case (Begin i now)
  have "xw_id (em_threads m ! i) \<noteq> k"
    using thread_job(1) [OF assms(2), of i] Begin(2) assms(4,5) by (auto simp: in_phase_def is_active_def)
  then show ?thesis using assms(4) by (auto simp: Begin(1) run_begin_def set_thread_def Let_def split: option.splits)
next
  case (Open i)
  then show ?thesis using assms(4) by (simp add: run_open_def)
next
  case (Fail i err now)
  have "xw_id (em_threads m ! i) \<noteq> k"
    using thread_job(1) [OF assms(2), of i] Fail(2) assms(4,5) by (auto simp: in_phase_def is_active_def)
  then show ?thesis
    using fail_get [of "xw_id (em_threads m ! i)" err now
        "m\<lparr>em_files := em_files m - {TmpFile (xw_path (em_threads m ! i))}\<rparr>" k] assms(4)
    by (auto simp: Fail(1) run_failed_def set_thread_def Let_def)
next
  case (Encode i r sum_hex)
  then show ?thesis using assms(4) by (simp add: set_thread_def)
next
  case (Publish i r sum_hex e now)
  have "xw_id (em_threads m ! i) \<noteq> k"
    using thread_job(1) [OF assms(2), of i] Publish(2) assms(4,5) by (auto simp: in_phase_def is_active_def)
  then show ?thesis
    using assms(4) Publish(2)
    by (auto simp: Publish(1) run_publish_def set_thread_def in_phase_def Let_def split: option.splits)
next
  case (Cleanup i)
  then show ?thesis using assms(4) by (simp add: run_cleanup_def set_thread_def)
next
  case (Exit i)
  then show ?thesis using assms(4) by (simp add: run_exit_def)
qed

section \<open>Reachable states\<close>

lemma new_manager_ok: "table_ok newDashboardExportJobManager" "bounds_ok newDashboardExportJobManager"
  by (simp_all add: newDashboardExportJobManager_def table_ok_def bounds_ok_def jobs_ok_def names_ok_def
      names_def files_ok_def)

lemma reachable_ok:
  assumes "export_steps newDashboardExportJobManager m"
  shows "table_ok m \<and> bounds_ok m"
  using assms by (induction rule: rtranclp_induct) (use new_manager_ok export_step_ok in blast)+

text \<open>
  C40: the table of export jobs keeps its limits and leaks nothing.  In every state that its
  operations and goroutines reach, in any order: at most two goroutines run and at most
  sixteen jobs are kept; the number of active jobs that creation compares with its limit is
  the number of goroutines; the final files in the temporary directory are exactly those of
  the stored jobs that have succeeded, and every temporary file belongs to a goroutine that
  still runs, so that after \<open>close\<close> and the end of the goroutines no job and no file is
  left; and a job that has succeeded or failed is never changed again, only removed.
\<close>

theorem export_table_keeps_limits:
  assumes "export_steps newDashboardExportJobManager m"
  shows "em_workers m = int (length (em_threads m)) \<and> em_workers m \<le> 2 \<and> length (em_jobs m) \<le> 16 \<and>
    activeLocked m = em_workers m \<and>
    (\<forall>p. FinalFile p \<in> em_files m \<longleftrightarrow>
      (\<exists>k job. go_get (em_jobs m) k = Some job \<and> ej_Status job = JobSucceeded \<and> ej_FilePath job = p)) \<and>
    (\<forall>p. TmpFile p \<in> em_files m \<longrightarrow> (\<exists>w \<in> set (em_threads m). xw_path w = p)) \<and>
    (em_closed m \<and> em_threads m = [] \<longrightarrow> em_jobs m = [] \<and> em_files m = {}) \<and>
    (\<forall>m' k job. export_step m m' \<and> go_get (em_jobs m) k = Some job \<and> \<not> is_active job \<longrightarrow>
      go_get (em_jobs m') k \<in> {None, Some job})"
proof -
  have inv: "table_ok m" "bounds_ok m" using reachable_ok [OF assms] by simp_all
  have files: "files_ok (em_jobs m) (em_threads m) (em_files m)" using inv(1) by (simp add: table_ok_def)
  have final: "FinalFile p \<in> em_files m \<longleftrightarrow>
      (\<exists>k job. go_get (em_jobs m) k = Some job \<and> ej_Status job = JobSucceeded \<and> ej_FilePath job = p)" for p
    using files by (simp add: files_ok_def)
  have tmp: "\<exists>w \<in> set (em_threads m). xw_path w = p" if "TmpFile p \<in> em_files m" for p
    using files that unfolding files_ok_def by blast
  have empty: "em_jobs m = [] \<and> em_files m = {}" if "em_closed m" "em_threads m = []"
  proof -
    have jobs: "em_jobs m = []" using inv(2) that(1) by (simp add: bounds_ok_def)
    then have "x \<notin> em_files m" for x using final tmp that(2) by (cases x) auto
    then show ?thesis using jobs by blast
  qed
  show ?thesis
    using inv(2) active_is_workers [OF inv] final tmp empty thread_get [OF _ inv]
    unfolding bounds_ok_def by (intro conjI allI impI) auto
qed

definition sample_created :: "unit export_manager" where
  "sample_created = snd (createKind ''/tmp'' ''events'' ''ab'' () zero_time newDashboardExportJobManager)"

definition sample_opened :: "unit export_manager" where
  "sample_opened = run_open 0 (run_begin 0 zero_time sample_created)"

definition sample_result :: dashboardExportFileResult where
  "sample_result = \<lparr>er_Total = 2, er_Exported = 2, er_Truncated = False, er_RawBytes = 10,
     er_BodyBytes = 10, er_ContentType = ''text/csv''\<rparr>"

definition sample_published :: "unit export_manager" where
  "sample_published = run_publish 0 None zero_time (set_thread 0 (Encoded sample_result ''00'') sample_opened)"

lemma sample_created_eq:
  "em_threads sample_created =
     [\<lparr>xw_id = ''ab'', xw_path = ''/tmp/cpa-usage-events-export-ab'', xw_phase = Spawned\<rparr>]"
  "em_jobs sample_created =
     [(''ab'', new_job ''ab'' ''events'' ''/tmp/cpa-usage-events-export-ab'' () zero_time)]"
  "em_closed sample_created = False"
  by code_simp+

lemma sample_opened_eq:
  "em_threads sample_opened =
     [\<lparr>xw_id = ''ab'', xw_path = ''/tmp/cpa-usage-events-export-ab'', xw_phase = Encoding\<rparr>]"
  "TmpFile ''/tmp/cpa-usage-events-export-ab'' \<in> em_files sample_opened"
  by (simp_all add: sample_opened_def run_open_def run_begin_def set_thread_def sample_created_eq Let_def)

lemma sample_steps: "export_steps newDashboardExportJobManager sample_published"
proof -
  have "export_step newDashboardExportJobManager sample_created"
    unfolding sample_created_def
    by (rule export_step.Create) (simp add: unused_def newDashboardExportJobManager_def)
  moreover have "export_step sample_created (run_begin 0 zero_time sample_created)"
    by (rule export_step.Begin) (simp add: in_phase_def sample_created_eq)
  moreover have "export_step (run_begin 0 zero_time sample_created) sample_opened"
    unfolding sample_opened_def
    by (rule export_step.Open) (simp add: in_phase_def run_begin_def set_thread_def sample_created_eq Let_def)
  moreover have "export_step sample_opened (set_thread 0 (Encoded sample_result ''00'') sample_opened)"
    by (rule export_step.Encode) (simp add: in_phase_def sample_opened_eq)
  moreover have "export_step (set_thread 0 (Encoded sample_result ''00'') sample_opened) sample_published"
    unfolding sample_published_def
    by (rule export_step.Publish) (simp_all add: in_phase_def set_thread_def sample_opened_eq)
  ultimately show ?thesis
    by (meson rtranclp.rtrancl_refl rtranclp.rtrancl_into_rtrancl)
qed

lemma sample_published_file:
  "FinalFile ''/tmp/cpa-usage-events-export-ab'' \<in> em_files sample_published"
  by (simp add: sample_published_def run_publish_def set_thread_def sample_opened_eq
      sample_opened_def run_open_def run_begin_def sample_created_eq sample_result_def Let_def)

theorem export_table_keeps_limits_witness:
  "activeLocked sample_published = em_workers sample_published \<and> em_workers sample_published \<le> 2 \<and>
   (\<exists>k job. go_get (em_jobs sample_published) k = Some job \<and> ej_Status job = JobSucceeded \<and>
     ej_FilePath job = ''/tmp/cpa-usage-events-export-ab'')"
  using export_table_keeps_limits [OF sample_steps] sample_published_file by simp

end
