(* ===== verification/EventOrder.thy ===== *)
theory EventOrder
  imports Metadata "HOL-Library.Product_Lexorder"
begin

text \<open>
  The events of the dashboard (\<open>dashboardEventDetail\<close> in \<open>go/stats.go\<close>), the order in which they are
  listed and the merge that keeps a sorted index up to date (\<open>go/event_index.go\<close>).

  A \<open>dashboardEventRef\<close> is the stable identity of a visible detail: an object that a record and
  every index share.  It is named here by the API, the model and the sequence number the record
  got from its model; its pointer is the visible detail with that number, and nil once the detail
  has left the visible window.
\<close>

section \<open>Events\<close>

type_synonym ledger_apis = "(string, apiStats) gomap"

type_synonym eventRef = "string \<times> string \<times> int"

record dashboardEventDetail =
  ed_detail :: "RequestDetail option"
  ed_ref :: "eventRef option"
  ed_upstreamAPI :: string
  ed_sortKey :: string
  ed_modelName :: string
  ed_sequence :: int

definition ref_detail :: "ledger_apis \<Rightarrow> eventRef \<Rightarrow> RequestDetail option" where
  "ref_detail apis = (\<lambda>(api, model, sq).
     case go_get apis api of None \<Rightarrow> None
     | Some a \<Rightarrow> (case go_get (as_Models a) model of None \<Rightarrow> None
        | Some m \<Rightarrow> find (\<lambda>d. rd_eventSequence d = sq) (mo_Details m)))"

definition detailPointer :: "ledger_apis \<Rightarrow> dashboardEventDetail \<Rightarrow> RequestDetail option" where
  "detailPointer apis e = (case ed_ref e of Some r \<Rightarrow> ref_detail apis r | None \<Rightarrow> ed_detail e)"

definition event_timestamp :: "ledger_apis \<Rightarrow> dashboardEventDetail \<Rightarrow> gotime" where
  "event_timestamp apis e = (case detailPointer apis e of None \<Rightarrow> zero_time | Some d \<Rightarrow> rd_Timestamp d)"

definition dashboardEventBefore :: "ledger_apis \<Rightarrow> dashboardEventDetail \<Rightarrow> dashboardEventDetail \<Rightarrow> bool" where
  "dashboardEventBefore apis a b =
     (let at' = event_timestamp apis a; bt = event_timestamp apis b
      in if \<not> time_Equal at' bt then time_After at' bt
         else if ed_sortKey a \<noteq> ed_sortKey b then ed_sortKey a < ed_sortKey b
         else if ed_modelName a \<noteq> ed_modelName b then ed_modelName a < ed_modelName b
         else ed_sequence a < ed_sequence b)"

text \<open>The order as a sort key: newest first, then API, model and sequence number.\<close>

type_synonym event_key = "int \<times> string \<times> string \<times> int"

definition event_key :: "ledger_apis \<Rightarrow> dashboardEventDetail \<Rightarrow> event_key" where
  "event_key apis e = (- t_ns (event_timestamp apis e), ed_sortKey e, ed_modelName e, ed_sequence e)"

lemma before_key: "dashboardEventBefore apis a b \<longleftrightarrow> event_key apis a < event_key apis b"
  by (auto simp: dashboardEventBefore_def event_key_def time_Equal_def time_After_def Let_def less_prod_def)

text \<open>\<open>sort.Slice\<close> by the order; events with different keys leave it no choice.\<close>

definition sort_events :: "ledger_apis \<Rightarrow> dashboardEventDetail list \<Rightarrow> dashboardEventDetail list" where
  "sort_events apis = sort_key (event_key apis)"

definition in_order :: "ledger_apis \<Rightarrow> dashboardEventDetail list \<Rightarrow> bool" where
  "in_order apis es \<longleftrightarrow> sorted (map (event_key apis) es)"

lemma in_order_sort [simp]: "in_order apis (sort_events apis es)"
  by (simp add: in_order_def sort_events_def)

lemma set_sort_events [simp]: "set (sort_events apis es) = set es"
  by (simp add: sort_events_def)

lemma mset_sort_events [simp]: "mset (sort_events apis es) = mset es"
  by (simp add: sort_events_def)

lemma distinct_sort_events [simp]: "distinct (sort_events apis es) = distinct es"
  by (simp add: sort_events_def)

lemma in_order_filter: "in_order apis es \<Longrightarrow> in_order apis (filter P es)"
  by (simp add: in_order_def sorted_filter)

lemma in_order_Cons: "in_order apis (e # es) \<longleftrightarrow> (\<forall>x\<in>set es. event_key apis e \<le> event_key apis x) \<and> in_order apis es"
  by (simp add: in_order_def)

lemma in_order_append:
  "in_order apis (xs @ ys) \<longleftrightarrow>
     in_order apis xs \<and> in_order apis ys \<and> (\<forall>x\<in>set xs. \<forall>y\<in>set ys. event_key apis x \<le> event_key apis y)"
  by (auto simp: in_order_def sorted_append)

text \<open>A sorted list is known by its elements once their keys differ.\<close>

lemma in_order_unique:
  assumes "in_order apis xs" "in_order apis ys" "mset xs = mset ys" "inj_on (event_key apis) (set xs)"
  shows "xs = ys"
proof -
  have "mset (map (event_key apis) xs) = mset (map (event_key apis) ys)"
    using assms(3) by (simp only: mset_map)
  then have "sort (map (event_key apis) ys) = map (event_key apis) xs"
    using assms(1) by (intro properties_for_sort) (simp_all add: in_order_def)
  moreover have "sort (map (event_key apis) ys) = map (event_key apis) ys"
    using assms(2) by (intro properties_for_sort) (simp_all add: in_order_def)
  ultimately have "map (event_key apis) xs = map (event_key apis) ys" by simp
  moreover have "set xs = set ys" using assms(3) by (rule mset_eq_setD)
  ultimately show ?thesis using assms(4) by (metis map_inj_on sup.idem)
qed

section \<open>The merge\<close>

text \<open>
  The loop of \<open>mergeDashboardEventIndex\<close> runs from the back: \<open>i\<close> and \<open>j\<close> are the next event of the old
  part and of the added ones, \<open>pos\<close> the place that is filled.
\<close>

function merge_loop :: "('a \<Rightarrow> 'a \<Rightarrow> bool) \<Rightarrow> 'a list \<Rightarrow> 'a list \<Rightarrow> int \<Rightarrow> int \<Rightarrow> int \<Rightarrow> 'a list" where
  "merge_loop before kept added i j pos =
     (if j < 0 then kept
      else if i \<ge> 0 \<and> before (added ! nat j) (kept ! nat i)
      then merge_loop before (kept[nat pos := kept ! nat i]) added (i - 1) j (pos - 1)
      else merge_loop before (kept[nat pos := added ! nat j]) added i (j - 1) (pos - 1))"
  by pat_completeness auto
termination
  by (relation "measure (\<lambda>(before, kept, added, i, j, pos). nat (i + 1) + nat (j + 1))") auto

declare merge_loop.simps [simp del]

definition mergeDashboardEventIndex :: "ledger_apis \<Rightarrow> dashboardEventDetail list \<Rightarrow> dashboardEventDetail list \<Rightarrow>
    (dashboardEventDetail \<Rightarrow> bool) \<Rightarrow> dashboardEventDetail list" where
  "mergeDashboardEventIndex apis events pending matches =
     (let kept = filter (\<lambda>event. detailPointer apis event \<noteq> None) events;
          added = filter (\<lambda>event. detailPointer apis event \<noteq> None \<and> matches event) pending;
          oldLen = int (length kept);
          kept = kept @ added
      in merge_loop (dashboardEventBefore apis) kept added (oldLen - 1) (int (length added) - 1) (int (length kept) - 1))"

text \<open>The same merge on the reversed lists.\<close>

fun back_merge :: "('a \<Rightarrow> 'a \<Rightarrow> bool) \<Rightarrow> 'a list \<Rightarrow> 'a list \<Rightarrow> 'a list" where
  "back_merge before xs [] = xs"
| "back_merge before [] (y # ys) = y # back_merge before [] ys"
| "back_merge before (x # xs) (y # ys) =
     (if before y x then x # back_merge before xs (y # ys) else y # back_merge before (x # xs) ys)"

lemma back_merge_Nil [simp]: "back_merge before [] ys = ys"
  by (induction ys) auto

lemma mset_back_merge [simp]: "mset (back_merge before xs ys) = mset xs + mset ys"
  by (induction before xs ys rule: back_merge.induct) auto

lemma set_back_merge [simp]: "set (back_merge before xs ys) = set xs \<union> set ys"
  by (metis mset_back_merge set_mset_mset set_mset_union)

lemma take_Suc_snoc: "i < length xs \<Longrightarrow> rev (take (Suc i) xs) = xs ! i # rev (take i xs)"
  by (simp add: take_Suc_conv_app_nth)

lemma drop_update_self: "p < length xs \<Longrightarrow> drop p (xs[p := x]) = x # drop (Suc p) xs"
  by (simp add: Cons_nth_drop_Suc [symmetric])

lemma merge_loop_back:
  assumes "length kept = n" "i + j + 2 \<le> int n" "pos = i + j + 1" "- 1 \<le> i" "- 1 \<le> j" "j < int (length added)"
  shows "merge_loop before kept added i j pos =
    rev (back_merge before (rev (take (nat (i + 1)) kept)) (rev (take (nat (j + 1)) added))) @ drop (nat (pos + 1)) kept"
  using assms
proof (induction before kept added i j pos rule: merge_loop.induct)
  case (1 before kept added i j pos)
  show ?case
  proof (cases "j < 0")
    case True
    then have "j = - 1" using "1.prems"(5) by simp
    then show ?thesis using "1.prems"(3) by (subst merge_loop.simps) simp
  next
    case False
    then have j: "0 \<le> j" "nat j < length added" "nat (j + 1) = Suc (nat j)" "nat pos < n"
      "nat (pos + 1) = Suc (nat pos)"
      using "1.prems" by auto
    have tj: "rev (take (nat (j + 1)) added) = added ! nat j # rev (take (nat j) added)"
      using take_Suc_snoc [OF j(2)] j(3) by simp
    show ?thesis
    proof (cases "i \<ge> 0 \<and> before (added ! nat j) (kept ! nat i)")
      case True
      then have i: "nat i < n" "nat (i + 1) = Suc (nat i)" "nat i < nat pos" "nat pos = nat (i - 1 + j + 1) + 1"
        using "1.prems" False by auto
      have ti: "rev (take (nat (i + 1)) kept) = kept ! nat i # rev (take (nat i) kept)"
        using take_Suc_snoc [of "nat i" kept] i "1.prems"(1) by simp
      have d: "drop (nat pos) (kept[nat pos := kept ! nat i]) = kept ! nat i # drop (nat (pos + 1)) kept"
        using drop_update_self [of "nat pos" kept "kept ! nat i"] j(4,5) "1.prems"(1) by simp
      have tk: "take (nat i) (kept[nat pos := kept ! nat i]) = take (nat i) kept"
        using i(3) by (simp only: take_update_cancel less_imp_le)
      have "merge_loop before kept added i j pos = merge_loop before (kept[nat pos := kept ! nat i]) added (i - 1) j (pos - 1)"
        using True False by (subst merge_loop.simps) simp
      also have "\<dots> = rev (back_merge before (rev (take (nat (i - 1 + 1)) (kept[nat pos := kept ! nat i])))
          (rev (take (nat (j + 1)) added))) @ drop (nat (pos - 1 + 1)) (kept[nat pos := kept ! nat i])"
        using "1.IH"(1) False True "1.prems" by simp
      finally show ?thesis using True by (simp add: ti tj d tk)
    next
      case nb: False
      have d: "drop (nat pos) (kept[nat pos := added ! nat j]) = added ! nat j # drop (nat (pos + 1)) kept"
        using drop_update_self [of "nat pos" kept "added ! nat j"] j(4,5) "1.prems"(1) by simp
      have tk: "take (nat (i + 1)) (kept[nat pos := added ! nat j]) = take (nat (i + 1)) kept"
        using "1.prems"(3) False by simp
      have bm: "back_merge before (rev (take (nat (i + 1)) kept)) (rev (take (nat (j + 1)) added)) =
          added ! nat j # back_merge before (rev (take (nat (i + 1)) kept)) (rev (take (nat j) added))"
      proof (cases "i \<ge> 0")
        case True
        then have "rev (take (nat (i + 1)) kept) = kept ! nat i # rev (take (nat i) kept)"
          using take_Suc_snoc [of "nat i" kept] "1.prems"(1-3) False by (simp add: nat_add_distrib)
        then show ?thesis using nb True by (simp add: tj)
      next
        case False
        then have "i = - 1" using "1.prems"(4) by simp
        then show ?thesis by (simp add: tj)
      qed
      have "merge_loop before kept added i j pos = merge_loop before (kept[nat pos := added ! nat j]) added i (j - 1) (pos - 1)"
        using nb False by (subst merge_loop.simps) auto
      also have "\<dots> = rev (back_merge before (rev (take (nat (i + 1)) (kept[nat pos := added ! nat j])))
          (rev (take (nat (j - 1 + 1)) added))) @ drop (nat (pos - 1 + 1)) (kept[nat pos := added ! nat j])"
        using "1.IH"(2) False nb "1.prems" by simp
      finally show ?thesis by (simp add: bm d tk)
    qed
  qed
qed

lemma merge_index_back:
  "mergeDashboardEventIndex apis events pending matches =
     rev (back_merge (dashboardEventBefore apis)
       (rev (filter (\<lambda>e. detailPointer apis e \<noteq> None) events))
       (rev (filter (\<lambda>e. detailPointer apis e \<noteq> None \<and> matches e) pending)))"
  unfolding mergeDashboardEventIndex_def Let_def by (subst merge_loop_back [OF refl]) (simp_all add: nat_add_distrib flip: of_nat_add)

lemma back_merge_order:
  assumes "in_order apis (rev xs)" "in_order apis (rev ys)"
  shows "in_order apis (rev (back_merge (dashboardEventBefore apis) xs ys))"
  using assms
  by (induction "dashboardEventBefore apis" xs ys rule: back_merge.induct)
    (auto simp: in_order_append in_order_Cons before_key not_less intro: order_trans less_imp_le)

lemma mset_merge_index:
  "mset (mergeDashboardEventIndex apis events pending matches) =
     mset (filter (\<lambda>e. detailPointer apis e \<noteq> None) events) +
     mset (filter (\<lambda>e. detailPointer apis e \<noteq> None \<and> matches e) pending)"
  unfolding merge_index_back by simp

lemma set_merge_index:
  "set (mergeDashboardEventIndex apis events pending matches) =
     {e \<in> set events. detailPointer apis e \<noteq> None} \<union> {e \<in> set pending. detailPointer apis e \<noteq> None \<and> matches e}"
  unfolding merge_index_back by auto

lemma distinct_merge_index:
  "distinct (mergeDashboardEventIndex apis events pending matches) \<longleftrightarrow>
     distinct (filter (\<lambda>e. detailPointer apis e \<noteq> None) events) \<and>
     distinct (filter (\<lambda>e. detailPointer apis e \<noteq> None \<and> matches e) pending) \<and>
     (\<forall>e\<in>set events. e \<in> set pending \<longrightarrow> detailPointer apis e \<noteq> None \<longrightarrow> \<not> matches e)"
  (is "?l = ?r")
proof -
  let ?a = "filter (\<lambda>e. detailPointer apis e \<noteq> None) events"
  let ?b = "filter (\<lambda>e. detailPointer apis e \<noteq> None \<and> matches e) pending"
  have "mset (mergeDashboardEventIndex apis events pending matches) = mset (?a @ ?b)"
    by (simp only: mset_merge_index mset_append)
  from mset_eq_imp_distinct_iff [OF this] have "?l \<longleftrightarrow> distinct (?a @ ?b)" .
  then show ?thesis by auto
qed

lemma in_order_merge_index:
  assumes "in_order apis (filter (\<lambda>e. detailPointer apis e \<noteq> None) events)" "in_order apis pending"
  shows "in_order apis (mergeDashboardEventIndex apis events pending matches)"
  unfolding merge_index_back using assms(1) in_order_filter [OF assms(2)] by (intro back_merge_order) simp_all

end
