(* ===== verification/EventIndex.thy ===== *)
theory EventIndex
  imports EventOrder
begin

text \<open>
  The sorted indexes over the visible details that the event list of the dashboard reads
  (\<open>go/event_index.go\<close> and the index functions of \<open>go/stats.go\<close>): one over all events and one per API,
  model, source or credential that a query asked for.  They are built by a scan, kept up to date by
  a queue of recorded events and by the removal of events whose detail is gone, and dropped when
  they could no longer be right or would take too much memory.

  How much memory a Go slice has reserved is decided by the runtime: \<open>fits\<close> says whether the
  indexes, with one more slice, stay in the byte budget, and \<open>grew\<close> whether the queue was
  reallocated.  Every theorem holds for any answers.
\<close>

section \<open>State\<close>

record eventIndexes =
  ei_version :: "64 word"
  ei_all :: "dashboardEventDetail list option"
  ei_API :: "(string, dashboardEventDetail list) gomap"
  ei_Model :: "(string, dashboardEventDetail list) gomap"
  ei_Source :: "(string, dashboardEventDetail list) gomap"
  ei_Auth :: "(string, dashboardEventDetail list) gomap"
  ei_pending :: "dashboardEventDetail list"
  ei_dirty :: bool
  ei_refs :: "eventRef set"

text \<open>\<open>ei_refs\<close>: the details whose \<open>eventRef\<close> is set.\<close>

record eventState =
  es_stats :: RequestStatistics
  es_index :: eventIndexes

type_synonym reservation = "eventIndexes \<Rightarrow> dashboardEventDetail list \<Rightarrow> bool"

definition no_indexes :: eventIndexes where
  "no_indexes = \<lparr> ei_version = 0, ei_all = None, ei_API = [], ei_Model = [], ei_Source = [], ei_Auth = [],
     ei_pending = [], ei_dirty = False, ei_refs = {} \<rparr>"

definition dashboardEventPendingMax :: nat where
  "dashboardEventPendingMax = 4096"

definition dashboardEventIndexMaxKeys :: nat where
  "dashboardEventIndexMaxKeys = 32"

definition indexKeys :: "eventIndexes \<Rightarrow> nat" where
  "indexKeys ei = length (ei_API ei) + length (ei_Model ei) + length (ei_Source ei) + length (ei_Auth ei)"

definition hasDashboardEventIndexesLocked :: "eventIndexes \<Rightarrow> bool" where
  "hasDashboardEventIndexesLocked ei \<longleftrightarrow> ei_all ei \<noteq> None \<or> indexKeys ei > 0"

definition clearDashboardEventIndexesLocked :: "eventIndexes \<Rightarrow> eventIndexes" where
  "clearDashboardEventIndexesLocked ei = ei\<lparr> ei_version := 0, ei_all := None, ei_API := [], ei_Model := [],
     ei_Source := [], ei_Auth := [], ei_pending := [], ei_dirty := False \<rparr>"

section \<open>Keys\<close>

definition dashboardEventDetailModelKey :: "RequestDetail option \<Rightarrow> string \<Rightarrow> string" where
  "dashboardEventDetailModelKey detail modelName =
     (case detail of Some d \<Rightarrow> if rd_Model d \<noteq> [] then rd_Model d else modelName | None \<Rightarrow> modelName)"

definition dashboardEventDetailSourceKey :: "RequestDetail option \<Rightarrow> string" where
  "dashboardEventDetailSourceKey detail =
     (case detail of None \<Rightarrow> unknownSource | Some d \<Rightarrow> if rd_Source d = [] then unknownSource else rd_Source d)"

definition dashboardEventDetailAuthKey :: "RequestDetail option \<Rightarrow> string" where
  "dashboardEventDetailAuthKey detail = (case detail of None \<Rightarrow> [] | Some d \<Rightarrow> rd_AuthIndex d)"

definition dashboardEventModelKey :: "ledger_apis \<Rightarrow> dashboardEventDetail \<Rightarrow> string" where
  "dashboardEventModelKey apis event = dashboardEventDetailModelKey (detailPointer apis event) (ed_modelName event)"

definition dashboardEventSourceKey :: "ledger_apis \<Rightarrow> dashboardEventDetail \<Rightarrow> string" where
  "dashboardEventSourceKey apis event = dashboardEventDetailSourceKey (detailPointer apis event)"

definition dashboardEventAuthKey :: "ledger_apis \<Rightarrow> dashboardEventDetail \<Rightarrow> string" where
  "dashboardEventAuthKey apis event = dashboardEventDetailAuthKey (detailPointer apis event)"

datatype dashboardEventIndexFilter =
  dashboardEventIndexFilterModel | dashboardEventIndexFilterSource | dashboardEventIndexFilterAuth

definition dashboardEventIndexFilterMatches :: "RequestDetail \<Rightarrow> string \<Rightarrow> dashboardEventIndexFilter \<Rightarrow> string \<Rightarrow> bool" where
  "dashboardEventIndexFilterMatches detail modelName filt value \<longleftrightarrow>
     (case filt of
        dashboardEventIndexFilterModel \<Rightarrow> dashboardEventDetailModelKey (Some detail) modelName = value
      | dashboardEventIndexFilterSource \<Rightarrow> dashboardEventDetailSourceKey (Some detail) = value
      | dashboardEventIndexFilterAuth \<Rightarrow> dashboardEventDetailAuthKey (Some detail) = value)"

section \<open>Building an index\<close>

definition event_of :: "eventRef \<Rightarrow> dashboardEventDetail" where
  "event_of r = (case r of (api, model, sq) \<Rightarrow> \<lparr> ed_detail = None, ed_ref = Some r, ed_upstreamAPI = api,
     ed_sortKey = api, ed_modelName = model, ed_sequence = sq \<rparr>)"

text \<open>\<open>eventAt\<close> numbers the details of a restored model before it gives one of them its identity.\<close>

definition eventAt :: "string \<Rightarrow> string \<Rightarrow> nat \<Rightarrow> modelStats \<Rightarrow> modelStats \<times> dashboardEventDetail" where
  "eventAt api model i m =
     (let m = initializeEventSequences m
      in (m, event_of (api, model, rd_eventSequence (mo_Details m ! i))))"

definition append_model_events :: "(string \<Rightarrow> RequestDetail \<Rightarrow> bool) \<Rightarrow> string \<Rightarrow> string \<Rightarrow> modelStats \<Rightarrow>
    modelStats \<times> dashboardEventDetail list" where
  "append_model_events wanted api model m =
     fold (\<lambda>i (m, events). if wanted model (mo_Details m ! i)
             then (case eventAt api model i m of (m, e) \<Rightarrow> (m, events @ [e])) else (m, events))
       [0..<length (mo_Details m)] (m, [])"

fun append_api_events :: "(string \<Rightarrow> RequestDetail \<Rightarrow> bool) \<Rightarrow> string \<Rightarrow> (string, modelStats) gomap \<Rightarrow>
    (string, modelStats) gomap \<times> dashboardEventDetail list" where
  "append_api_events wanted api [] = ([], [])"
| "append_api_events wanted api ((model, m) # ms) =
     (case append_model_events wanted api model m of (m, es) \<Rightarrow>
      case append_api_events wanted api ms of (ms, es') \<Rightarrow> ((model, m) # ms, es @ es'))"

definition appendDashboardEventIndexForAPI :: "string \<Rightarrow> apiStats \<Rightarrow> apiStats \<times> dashboardEventDetail list" where
  "appendDashboardEventIndexForAPI apiName apiSt =
     (case append_api_events (\<lambda>_ _. True) apiName (as_Models apiSt) of (ms, es) \<Rightarrow> (apiSt\<lparr> as_Models := ms \<rparr>, es))"

definition appendDashboardEventIndexForFilter :: "dashboardEventIndexFilter \<Rightarrow> string \<Rightarrow> string \<Rightarrow> apiStats \<Rightarrow>
    apiStats \<times> dashboardEventDetail list" where
  "appendDashboardEventIndexForFilter filt value apiName apiSt =
     (case append_api_events (\<lambda>model d. dashboardEventIndexFilterMatches d model filt value) apiName (as_Models apiSt) of
        (ms, es) \<Rightarrow> (apiSt\<lparr> as_Models := ms \<rparr>, es))"

text \<open>The loop over the APIs, before the sort.\<close>

fun collect_events :: "(string \<Rightarrow> apiStats \<Rightarrow> apiStats \<times> dashboardEventDetail list) \<Rightarrow> ledger_apis \<Rightarrow>
    ledger_apis \<times> dashboardEventDetail list" where
  "collect_events app [] = ([], [])"
| "collect_events app ((api, a) # apis) =
     (case app api a of (a, es) \<Rightarrow> case collect_events app apis of (apis, es') \<Rightarrow> ((api, a) # apis, es @ es'))"

definition sorted_index :: "ledger_apis \<times> dashboardEventDetail list \<Rightarrow> ledger_apis \<times> dashboardEventDetail list" where
  "sorted_index r = (case r of (apis, es) \<Rightarrow> (apis, sort_events apis es))"

definition buildDashboardEventIndexForFilter :: "dashboardEventIndexFilter \<Rightarrow> string \<Rightarrow> ledger_apis \<Rightarrow>
    ledger_apis \<times> dashboardEventDetail list" where
  "buildDashboardEventIndexForFilter filt value apis =
     sorted_index (collect_events (appendDashboardEventIndexForFilter filt value) apis)"

definition buildDashboardEventIndexForAPI :: "string \<Rightarrow> ledger_apis \<Rightarrow> ledger_apis \<times> dashboardEventDetail list" where
  "buildDashboardEventIndexForAPI apiName apis = sorted_index
     (case go_get apis apiName of None \<Rightarrow> (apis, [])
      | Some a \<Rightarrow> (case appendDashboardEventIndexForAPI apiName a of (a, es) \<Rightarrow> (go_put apiName a apis, es)))"

definition buildDashboardEventIndex :: "ledger_apis \<Rightarrow> ledger_apis \<times> dashboardEventDetail list" where
  "buildDashboardEventIndex apis = sorted_index (collect_events appendDashboardEventIndexForAPI apis)"

section \<open>Keeping the indexes up to date\<close>

definition queueDashboardEventLocked :: "bool \<Rightarrow> reservation \<Rightarrow> string \<Rightarrow> string \<Rightarrow> eventRef option \<Rightarrow> eventIndexes \<Rightarrow> eventIndexes" where
  "queueDashboardEventLocked grew fits api model ref' ei =
     (case ref' of None \<Rightarrow> ei
      | Some r \<Rightarrow>
        if \<not> hasDashboardEventIndexesLocked ei then ei
        else if length (ei_pending ei) \<ge> dashboardEventPendingMax then clearDashboardEventIndexesLocked ei
        else let ei = ei\<lparr> ei_pending := ei_pending ei @
                   [\<lparr> ed_detail = None, ed_ref = Some r, ed_upstreamAPI = api, ed_sortKey = api,
                      ed_modelName = model, ed_sequence = snd (snd r) \<rparr>] \<rparr>
             in if grew \<and> \<not> fits ei [] then clearDashboardEventIndexesLocked ei else ei\<lparr> ei_dirty := True \<rparr>)"

definition merge_indexes :: "ledger_apis \<Rightarrow> dashboardEventDetail list \<Rightarrow> (dashboardEventDetail \<Rightarrow> string) \<Rightarrow>
    (string, dashboardEventDetail list) gomap \<Rightarrow> (string, dashboardEventDetail list) gomap" where
  "merge_indexes apis pending key idx =
     map (\<lambda>(k, events). (k, mergeDashboardEventIndex apis events pending (\<lambda>e. key e = k))) idx"

definition applyDashboardEventUpdatesLocked :: "reservation \<Rightarrow> RequestStatistics \<Rightarrow> eventIndexes \<Rightarrow> eventIndexes" where
  "applyDashboardEventUpdatesLocked fits s ei =
     (if \<not> ei_dirty ei then ei
      else let apis = rs_apis s;
               pending = sort_events apis (ei_pending ei);
               ei = ei\<lparr> ei_all := map_option (\<lambda>es. mergeDashboardEventIndex apis es pending (\<lambda>_. True)) (ei_all ei),
                        ei_API := merge_indexes apis pending ed_upstreamAPI (ei_API ei),
                        ei_Model := merge_indexes apis pending (dashboardEventModelKey apis) (ei_Model ei),
                        ei_Source := merge_indexes apis pending (dashboardEventSourceKey apis) (ei_Source ei),
                        ei_Auth := merge_indexes apis pending (dashboardEventAuthKey apis) (ei_Auth ei),
                        ei_pending := [], ei_dirty := False \<rparr>
           in if \<not> fits ei []
              then (clearDashboardEventIndexesLocked ei)\<lparr> ei_version := rs_summaryVersion s \<rparr> else ei)"

definition refreshDashboardEventIndexesLocked :: "reservation \<Rightarrow> RequestStatistics \<Rightarrow> eventIndexes \<Rightarrow> eventIndexes" where
  "refreshDashboardEventIndexesLocked fits s ei =
     (let ei = (if ei_version ei \<noteq> rs_summaryVersion s
                then (clearDashboardEventIndexesLocked ei)\<lparr> ei_version := rs_summaryVersion s \<rparr> else ei)
      in applyDashboardEventUpdatesLocked fits s ei)"

definition admitDashboardEventIndexLocked :: "reservation \<Rightarrow> eventIndexes \<Rightarrow> dashboardEventDetail list \<Rightarrow> bool" where
  "admitDashboardEventIndexLocked fits ei events \<longleftrightarrow> indexKeys ei < dashboardEventIndexMaxKeys \<and> fits ei events"

section \<open>Index of a query\<close>

text \<open>
  The index functions share their shape: refresh, return the index if it is there, otherwise build
  it, keep it if it is admitted and return it.
\<close>

definition build_events :: "reservation \<Rightarrow> (ledger_apis \<Rightarrow> ledger_apis \<times> dashboardEventDetail list) \<Rightarrow>
    (dashboardEventDetail list \<Rightarrow> eventIndexes \<Rightarrow> eventIndexes) \<Rightarrow> eventState \<Rightarrow> eventState \<times> dashboardEventDetail list" where
  "build_events fits build store st =
     (case build (rs_apis (es_stats st)) of (apis, events) \<Rightarrow>
        let ei = (es_index st)\<lparr> ei_refs := ei_refs (es_index st) \<union> set (List.map_filter ed_ref events) \<rparr>
        in (\<lparr> es_stats = (es_stats st)\<lparr> rs_apis := apis \<rparr>,
              es_index = (if admitDashboardEventIndexLocked fits ei events then store events ei else ei) \<rparr>, events))"

definition refresh_state :: "reservation \<Rightarrow> eventState \<Rightarrow> eventState" where
  "refresh_state fits st = st\<lparr> es_index := refreshDashboardEventIndexesLocked fits (es_stats st) (es_index st) \<rparr>"

definition dashboardEventIndexLocked :: "reservation \<Rightarrow> string \<Rightarrow> eventState \<Rightarrow> eventState \<times> dashboardEventDetail list" where
  "dashboardEventIndexLocked fits api st =
     (let st = refresh_state fits st
      in if api \<noteq> []
         then (case go_get (ei_API (es_index st)) api of Some events \<Rightarrow> (st, events)
               | None \<Rightarrow> build_events fits (buildDashboardEventIndexForAPI api)
                          (\<lambda>events ei. ei\<lparr> ei_API := go_put api events (ei_API ei) \<rparr>) st)
         else (case ei_all (es_index st) of Some events \<Rightarrow> (st, events)
               | None \<Rightarrow> build_events fits buildDashboardEventIndex (\<lambda>events ei. ei\<lparr> ei_all := Some events \<rparr>) st))"

definition dashboardEventModelIndexLocked :: "reservation \<Rightarrow> string \<Rightarrow> eventState \<Rightarrow> eventState \<times> dashboardEventDetail list" where
  "dashboardEventModelIndexLocked fits model st =
     (let st = refresh_state fits st
      in case go_get (ei_Model (es_index st)) model of Some events \<Rightarrow> (st, events)
         | None \<Rightarrow> build_events fits (buildDashboardEventIndexForFilter dashboardEventIndexFilterModel model)
                    (\<lambda>events ei. ei\<lparr> ei_Model := go_put model events (ei_Model ei) \<rparr>) st)"

definition dashboardEventSourceIndexLocked :: "reservation \<Rightarrow> string \<Rightarrow> eventState \<Rightarrow> eventState \<times> dashboardEventDetail list" where
  "dashboardEventSourceIndexLocked fits source st =
     (let st = refresh_state fits st
      in case go_get (ei_Source (es_index st)) source of Some events \<Rightarrow> (st, events)
         | None \<Rightarrow> build_events fits (buildDashboardEventIndexForFilter dashboardEventIndexFilterSource source)
                    (\<lambda>events ei. ei\<lparr> ei_Source := go_put source events (ei_Source ei) \<rparr>) st)"

definition dashboardEventAuthIndexLocked :: "reservation \<Rightarrow> string \<Rightarrow> eventState \<Rightarrow> eventState \<times> dashboardEventDetail list" where
  "dashboardEventAuthIndexLocked fits authIndex st =
     (let st = refresh_state fits st
      in case go_get (ei_Auth (es_index st)) authIndex of Some events \<Rightarrow> (st, events)
         | None \<Rightarrow> build_events fits (buildDashboardEventIndexForFilter dashboardEventIndexFilterAuth authIndex)
                    (\<lambda>events ei. ei\<lparr> ei_Auth := go_put authIndex events (ei_Auth ei) \<rparr>) st)"

record EventsQuery =
  eq_Limit :: int
  eq_Offset :: int
  eq_Range :: string
  eq_Model :: string
  eq_Source :: string
  eq_AuthIndex :: string
  eq_API :: string
  eq_ClientAPI :: string

definition dashboardEventQueryIndexLocked :: "reservation \<Rightarrow> EventsQuery \<Rightarrow> eventState \<Rightarrow> eventState \<times> dashboardEventDetail list" where
  "dashboardEventQueryIndexLocked fits params st =
     (if eq_API params \<noteq> [] then dashboardEventIndexLocked fits (eq_API params) st
      else if eq_Model params \<noteq> [] then dashboardEventModelIndexLocked fits (eq_Model params) st
      else if eq_Source params \<noteq> [] then dashboardEventSourceIndexLocked fits (eq_Source params) st
      else if eq_AuthIndex params \<noteq> [] then dashboardEventAuthIndexLocked fits (eq_AuthIndex params) st
      else dashboardEventIndexLocked fits [] st)"

section \<open>The ledger operations with their effect on the indexes\<close>

text \<open>The part of \<open>invalidateCachedResponsesLocked\<close> that concerns the indexes: their version moves along.\<close>

definition sync_version :: "RequestStatistics \<Rightarrow> eventIndexes \<Rightarrow> eventIndexes" where
  "sync_version s ei = (if hasDashboardEventIndexesLocked ei then ei\<lparr> ei_version := rs_summaryVersion s \<rparr> else ei)"

definition invalidate_responses :: "eventState \<Rightarrow> eventState" where
  "invalidate_responses st = (let s = invalidateCachedResponsesLocked (es_stats st)
     in \<lparr> es_stats = s, es_index = sync_version s (es_index st) \<rparr>)"

definition invalidateSummaryLocked :: "eventState \<Rightarrow> eventState" where
  "invalidateSummaryLocked st = (let st = invalidate_responses st
     in st\<lparr> es_index := clearDashboardEventIndexesLocked (es_index st) \<rparr>)"

definition model_at :: "ledger_apis \<Rightarrow> string \<Rightarrow> string \<Rightarrow> modelStats option" where
  "model_at apis api model = (case go_get apis api of None \<Rightarrow> None | Some a \<Rightarrow> go_get (as_Models a) model)"

text \<open>
  \<open>recordDetailWithAccountingLocked\<close>: a visible detail gets a reference when there are indexes, and
  the event is queued for them.
\<close>

definition recordDetailEvents :: "bool \<Rightarrow> reservation \<Rightarrow> (requestDedupKey \<Rightarrow> string) \<Rightarrow> string \<Rightarrow> string \<Rightarrow> RequestDetail \<Rightarrow>
    requestDedupKey \<Rightarrow> gotime \<Rightarrow> bool \<Rightarrow> bool \<Rightarrow> eventState \<Rightarrow> eventState \<times> bool" where
  "recordDetailEvents grew fits digest apiName modelName detail dedup now useDedupWindow arch st =
     (case recordDetailWithAccountingLocked digest apiName modelName detail dedup now useDedupWindow arch (es_stats st) of
        (s, accepted) \<Rightarrow>
          if \<not> accepted then (st\<lparr> es_stats := s \<rparr>, False)
          else let apiName = recorded_api apiName;
                   ei = es_index st;
                   lastEventRef = (if \<not> arch \<and> hasDashboardEventIndexesLocked ei
                     then map_option (\<lambda>m. (apiName, modelName, mo_nextEventSequence m)) (model_at (rs_apis s) apiName modelName)
                     else None);
                   ei = ei\<lparr> ei_refs := ei_refs ei \<union> set_option lastEventRef \<rparr>;
                   ei = sync_version s ei
               in (\<lparr> es_stats = s,
                     es_index = (if arch then ei else queueDashboardEventLocked grew fits apiName modelName lastEventRef ei) \<rparr>,
                   True))"

text \<open>\<open>trimModelDetailsLocked\<close> on a model of the ledger, as \<open>Record\<close> calls it.\<close>

definition trimModelEvents :: "string \<Rightarrow> string \<Rightarrow> eventState \<Rightarrow> eventState" where
  "trimModelEvents apiName modelName st =
     (let s = es_stats st; ei = es_index st
      in case go_get (rs_apis s) apiName of None \<Rightarrow> st
         | Some a \<Rightarrow> (case go_get (as_Models a) modelName of None \<Rightarrow> st
           | Some m \<Rightarrow> (case trimModelDetailsLocked (rs_maxDetailsPerModel s) m of (m', removed) \<Rightarrow>
               let gone = map (\<lambda>d. (apiName, modelName, rd_eventSequence d)) (take removed (mo_Details m))
               in \<lparr> es_stats = s\<lparr> rs_apis := go_put apiName (a\<lparr> as_Models := go_put modelName m' (as_Models a) \<rparr>) (rs_apis s),
                                 rs_evictedTotal := rs_evictedTotal s + int removed \<rparr>,
                    es_index = (if \<exists>r\<in>set gone. r \<in> ei_refs ei then ei\<lparr> ei_dirty := True \<rparr> else ei) \<rparr>)))"

text \<open>\<open>pruneLocked\<close>; a change shows as a new summary version, and drops the indexes.\<close>

definition pruneEvents :: "gotime \<Rightarrow> bool \<Rightarrow> eventState \<Rightarrow> eventState" where
  "pruneEvents now sortNeeded st =
     (let s = es_stats st; s' = pruneLocked now sortNeeded s
      in if rs_summaryVersion s' \<noteq> rs_summaryVersion s
         then \<lparr> es_stats = s', es_index = clearDashboardEventIndexesLocked (sync_version s' (es_index st)) \<rparr>
         else st\<lparr> es_stats := s' \<rparr>)"

definition pruneExpiredEvents :: "gotime \<Rightarrow> eventState \<Rightarrow> eventState" where
  "pruneExpiredEvents now st =
     (let s = es_stats st
      in if rs_retention s > 0 \<and> \<not> time_IsZero (rs_nextDetailExpiry s) \<and> time_After now (rs_nextDetailExpiry s)
         then pruneEvents now False st else st)"

text \<open>What \<open>Record\<close> does to the ledger: record, remove what has expired, trim the model.\<close>

definition recordAndTrim :: "bool \<Rightarrow> reservation \<Rightarrow> (requestDedupKey \<Rightarrow> string) \<Rightarrow> string \<Rightarrow> string \<Rightarrow> RequestDetail \<Rightarrow>
    gotime \<Rightarrow> eventState \<Rightarrow> eventState" where
  "recordAndTrim grew fits digest statsKey modelName detail now st =
     (case recordDetailEvents grew fits digest statsKey modelName detail zeroDedupKey now False False st of (st, accepted) \<Rightarrow>
        if \<not> accepted then st
        else let s = es_stats st;
                 st = (if rs_retention s > 0 \<and>
                          (time_IsZero (rs_nextDetailExpiry s) \<or> \<not> time_Before now (rs_nextDetailExpiry s))
                       then pruneEvents now False st else st)
             in trimModelEvents statsKey modelName st)"

text \<open>The change of one retained detail by \<open>EnrichRecordedUsage\<close>, at the index where it was found.\<close>

definition enrichDetailAt :: "string \<Rightarrow> string \<Rightarrow> nat \<Rightarrow> RequestDetail \<Rightarrow> eventState \<Rightarrow> eventState" where
  "enrichDetailAt apiName modelName i update st =
     (let s = es_stats st
      in case go_get (rs_apis s) apiName of None \<Rightarrow> st
         | Some a \<Rightarrow> (case go_get (as_Models a) modelName of None \<Rightarrow> st
           | Some m \<Rightarrow>
             if i \<ge> accountingCount m then st
             else case enrichRequestDetailMetadata (accountingDetailAt m i) update of (detail, changed) \<Rightarrow>
               if \<not> changed then st
               else let s = s\<lparr> rs_apis := go_put apiName
                          (a\<lparr> as_Models := go_put modelName (setAccountingDetailAt i detail m) (as_Models a) \<rparr>) (rs_apis s) \<rparr>;
                        s = (if isAnonymousProtocolFallbackDetail detail \<or> isNativeProtocolCorrelationDetail detail
                             then s\<lparr> rs_protocolFallbackReconcileDirty := True \<rparr> else s)
                    in invalidate_responses (st\<lparr> es_stats := s \<rparr>)))"

end
