(* ===== verification/EventInvariant.thy ===== *)
theory EventInvariant
  imports EventIndex
begin

text \<open>
  The invariant of the event indexes: what is left of an index after dropping the events whose
  detail is gone, together with the queued events that belong to it, is exactly the set of visible
  details that the index selects, each once and the old part in listing order.
\<close>

section \<open>The ledger as the indexes see it\<close>

text \<open>A model has not numbered its details yet, or the numbers are distinct and used up to the last one.\<close>

definition seq_ok :: "modelStats \<Rightarrow> bool" where
  "seq_ok m \<longleftrightarrow> mo_nextEventSequence m = 0 \<or>
     (0 < mo_nextEventSequence m \<and> distinct (map rd_eventSequence (mo_Details m)) \<and>
      (\<forall>d\<in>set (mo_Details m). 0 < rd_eventSequence d \<and> rd_eventSequence d \<le> mo_nextEventSequence m))"

definition apis_ok :: "ledger_apis \<Rightarrow> bool" where
  "apis_ok apis \<longleftrightarrow> go_wf apis \<and> (\<forall>(api, a)\<in>set apis. go_wf (as_Models a)) \<and>
     (\<forall>api n m. model_at apis api n = Some m \<longrightarrow> seq_ok m)"

datatype index_key = AllEvents | OfAPI string | OfModel string | OfSource string | OfAuth string

definition event_index_lookup :: "eventIndexes \<Rightarrow> index_key \<Rightarrow> dashboardEventDetail list option" where
  "event_index_lookup ei k = (case k of AllEvents \<Rightarrow> ei_all ei | OfAPI x \<Rightarrow> go_get (ei_API ei) x
     | OfModel x \<Rightarrow> go_get (ei_Model ei) x | OfSource x \<Rightarrow> go_get (ei_Source ei) x | OfAuth x \<Rightarrow> go_get (ei_Auth ei) x)"

text \<open>The details that an index is about.\<close>

definition selects :: "index_key \<Rightarrow> string \<Rightarrow> string \<Rightarrow> RequestDetail \<Rightarrow> bool" where
  "selects k api model d = (case k of AllEvents \<Rightarrow> True | OfAPI x \<Rightarrow> api = x
     | OfModel x \<Rightarrow> dashboardEventDetailModelKey (Some d) model = x
     | OfSource x \<Rightarrow> dashboardEventDetailSourceKey (Some d) = x
     | OfAuth x \<Rightarrow> dashboardEventDetailAuthKey (Some d) = x)"

definition event_matches :: "ledger_apis \<Rightarrow> index_key \<Rightarrow> dashboardEventDetail \<Rightarrow> bool" where
  "event_matches apis k e = (case k of AllEvents \<Rightarrow> True | OfAPI x \<Rightarrow> ed_upstreamAPI e = x
     | OfModel x \<Rightarrow> dashboardEventModelKey apis e = x | OfSource x \<Rightarrow> dashboardEventSourceKey apis e = x
     | OfAuth x \<Rightarrow> dashboardEventAuthKey apis e = x)"

definition selected :: "ledger_apis \<Rightarrow> index_key \<Rightarrow> eventRef set" where
  "selected apis k = {(a, n, rd_eventSequence d) | a n m d.
     model_at apis a n = Some m \<and> mo_nextEventSequence m \<noteq> 0 \<and> d \<in> set (mo_Details m) \<and> selects k a n d}"

definition numbered :: "ledger_apis \<Rightarrow> index_key \<Rightarrow> bool" where
  "numbered apis k \<longleftrightarrow> (\<forall>a n m. model_at apis a n = Some m \<longrightarrow> mo_nextEventSequence m = 0 \<longrightarrow>
     (\<forall>d\<in>set (mo_Details m). \<not> selects k a n d))"

text \<open>A reference that was given out: its model is still in use and has not forgotten its numbers.\<close>

definition issued :: "ledger_apis \<Rightarrow> eventRef \<Rightarrow> bool" where
  "issued apis r = (case r of (a, n, q) \<Rightarrow> (\<exists>m. model_at apis a n = Some m \<and> 0 < q \<and> q \<le> mo_nextEventSequence m \<and>
     0 < accountingCount m))"

abbreviation live :: "ledger_apis \<Rightarrow> dashboardEventDetail \<Rightarrow> bool" where
  "live apis e \<equiv> detailPointer apis e \<noteq> None"

lemma event_of_simps [simp]:
  "detailPointer apis (event_of r) = ref_detail apis r" "ed_upstreamAPI (event_of r) = fst r"
  "ed_sortKey (event_of r) = fst r" "ed_modelName (event_of r) = fst (snd r)" "ed_sequence (event_of r) = snd (snd r)"
  "ed_ref (event_of r) = Some r"
  by (simp_all add: event_of_def detailPointer_def split: prod.split)

lemma event_of_eq [simp]: "event_of r = event_of r' \<longleftrightarrow> r = r'"
  by (metis event_of_simps(6) option.inject)

lemma inj_event_of: "inj event_of"
  by (rule injI) simp

lemma ref_detail_at: "ref_detail apis (a, n, q) =
    (case model_at apis a n of None \<Rightarrow> None | Some m \<Rightarrow> find (\<lambda>d. rd_eventSequence d = q) (mo_Details m))"
  by (simp add: ref_detail_def model_at_def split: option.split)

lemma event_matches_of:
  "ref_detail apis (a, n, q) = Some d \<Longrightarrow> event_matches apis k (event_of (a, n, q)) = selects k a n d"
  by (auto simp: event_matches_def selects_def dashboardEventModelKey_def dashboardEventSourceKey_def
      dashboardEventAuthKey_def split: index_key.split)

lemma apis_okD: "apis_ok apis \<Longrightarrow> model_at apis a n = Some m \<Longrightarrow> seq_ok m"
  by (simp add: apis_ok_def)

lemma find_distinct:
  "distinct (map f xs) \<Longrightarrow> x \<in> set xs \<Longrightarrow> find (\<lambda>y. f y = f x) xs = Some x"
  by (induction xs) force+

lemma find_Some_set: "find P xs = Some x \<Longrightarrow> x \<in> set xs \<and> P x"
  by (induction xs) (auto split: if_splits)

lemma selected_iff:
  assumes "apis_ok apis"
  shows "(a, n, q) \<in> selected apis k \<longleftrightarrow> (\<exists>m d. model_at apis a n = Some m \<and> mo_nextEventSequence m \<noteq> 0 \<and>
    ref_detail apis (a, n, q) = Some d \<and> selects k a n d)" (is "?l \<longleftrightarrow> ?r")
proof
  assume ?l
  then obtain m d where m: "model_at apis a n = Some m" "mo_nextEventSequence m \<noteq> 0" and
    d: "d \<in> set (mo_Details m)" "q = rd_eventSequence d" "selects k a n d"
    by (auto simp: selected_def)
  have "distinct (map rd_eventSequence (mo_Details m))"
    using apis_okD [OF assms m(1)] m(2) by (simp add: seq_ok_def)
  then have "ref_detail apis (a, n, q) = Some d"
    using find_distinct [of rd_eventSequence _ d] d by (simp add: ref_detail_at m(1))
  then show ?r using m d by blast
next
  assume ?r
  then obtain m d where m: "model_at apis a n = Some m" "mo_nextEventSequence m \<noteq> 0"
    "find (\<lambda>d. rd_eventSequence d = q) (mo_Details m) = Some d" "selects k a n d"
    by (auto simp: ref_detail_at)
  then show ?l using find_Some_set [OF m(3)] by (auto simp: selected_def)
qed

lemma selected_live: "apis_ok apis \<Longrightarrow> r \<in> selected apis k \<Longrightarrow> ref_detail apis r \<noteq> None"
  by (cases r) (auto simp: selected_iff)

lemma selected_issued:
  assumes "apis_ok apis" "r \<in> selected apis k"
  shows "issued apis r"
proof -
  obtain a n m d where r: "r = (a, n, rd_eventSequence d)" and m: "model_at apis a n = Some m"
    "mo_nextEventSequence m \<noteq> 0" "d \<in> set (mo_Details m)"
    using assms(2) by (auto simp: selected_def)
  have "0 < length (mo_Details m)" using m(3) by (rule length_pos_if_in_set)
  then show ?thesis
    using apis_okD [OF assms(1) m(1)] m by (auto simp: issued_def r seq_ok_def accountingCount_def)
qed

lemma issued_selected:
  assumes "apis_ok apis" "issued apis r" "ref_detail apis r = Some d"
  shows "r \<in> selected apis k \<longleftrightarrow> selects k (fst r) (fst (snd r)) d"
  using assms by (cases r) (auto simp: selected_iff issued_def)

text \<open>What the order and the indexes read of a detail.\<close>

definition same_place :: "RequestDetail \<Rightarrow> RequestDetail \<Rightarrow> bool" where
  "same_place d d' \<longleftrightarrow> rd_Timestamp d' = rd_Timestamp d \<and> rd_Model d' = rd_Model d \<and> rd_Source d' = rd_Source d \<and>
     rd_AuthIndex d' = rd_AuthIndex d"

lemma same_place_refl [simp]: "same_place d d"
  by (simp add: same_place_def)

lemma selects_same_place: "same_place d d' \<Longrightarrow> selects k a n d' = selects k a n d"
  by (auto simp: same_place_def selects_def dashboardEventDetailModelKey_def dashboardEventDetailSourceKey_def
      dashboardEventDetailAuthKey_def split: index_key.split)

section \<open>The invariant\<close>

definition events_ok :: "ledger_apis \<Rightarrow> eventRef set \<Rightarrow> dashboardEventDetail list \<Rightarrow> bool" where
  "events_ok apis refs es \<longleftrightarrow> (\<forall>e\<in>set es. \<exists>r. e = event_of r \<and> issued apis r \<and> r \<in> refs)"

definition live_refs :: "ledger_apis \<Rightarrow> dashboardEventDetail list \<Rightarrow> eventRef set" where
  "live_refs apis es = {r. event_of r \<in> set es \<and> ref_detail apis r \<noteq> None}"

definition event_index_ok :: "ledger_apis \<Rightarrow> eventIndexes \<Rightarrow> index_key \<Rightarrow> dashboardEventDetail list \<Rightarrow> bool" where
  "event_index_ok apis ei k es \<longleftrightarrow>
     events_ok apis (ei_refs ei) es \<and> in_order apis (filter (live apis) es) \<and> distinct (filter (live apis) es) \<and>
     numbered apis k \<and>
     live_refs apis es \<union> live_refs apis (filter (event_matches apis k) (ei_pending ei)) = selected apis k \<and>
     live_refs apis es \<inter> live_refs apis (ei_pending ei) = {} \<and>
     (\<not> ei_dirty ei \<longrightarrow> (\<forall>e\<in>set es. live apis e))"

definition indexes_ok :: "ledger_apis \<Rightarrow> eventIndexes \<Rightarrow> bool" where
  "indexes_ok apis ei \<longleftrightarrow>
     (\<forall>k es. event_index_lookup ei k = Some es \<longrightarrow> event_index_ok apis ei k es) \<and>
     events_ok apis (ei_refs ei) (ei_pending ei) \<and> distinct (filter (live apis) (ei_pending ei)) \<and>
     (\<not> ei_dirty ei \<longrightarrow> ei_pending ei = [])"

definition event_state_ok :: "eventState \<Rightarrow> bool" where
  "event_state_ok st \<longleftrightarrow> apis_ok (rs_apis (es_stats st)) \<and> indexes_ok (rs_apis (es_stats st)) (es_index st)"

lemma lookup_cleared [simp]: "event_index_lookup (clearDashboardEventIndexesLocked ei) k = None"
  by (simp add: event_index_lookup_def clearDashboardEventIndexesLocked_def split: index_key.split)

lemma lookup_updates [simp]:
  "event_index_lookup (ei\<lparr> ei_version := v \<rparr>) k = event_index_lookup ei k"
  "event_index_lookup (ei\<lparr> ei_refs := R \<rparr>) k = event_index_lookup ei k"
  "event_index_lookup (ei\<lparr> ei_dirty := b \<rparr>) k = event_index_lookup ei k"
  "event_index_lookup (ei\<lparr> ei_pending := p \<rparr>) k = event_index_lookup ei k"
  by (simp_all add: event_index_lookup_def split: index_key.split)

lemma cleared_fields [simp]:
  "ei_pending (clearDashboardEventIndexesLocked ei) = []" "ei_dirty (clearDashboardEventIndexesLocked ei) = False"
  "ei_refs (clearDashboardEventIndexesLocked ei) = ei_refs ei"
  by (simp_all add: clearDashboardEventIndexesLocked_def)

lemma cleared_ok [simp]: "indexes_ok apis (clearDashboardEventIndexesLocked ei)"
  "indexes_ok apis ((clearDashboardEventIndexesLocked ei)\<lparr> ei_version := v \<rparr>)"
  by (simp_all add: indexes_ok_def events_ok_def)

lemma version_ok [simp]: "indexes_ok apis (ei\<lparr> ei_version := v \<rparr>) = indexes_ok apis ei"
  by (simp add: indexes_ok_def event_index_ok_def)

lemma sync_ok [simp]: "indexes_ok apis (sync_version s ei) = indexes_ok apis ei"
  by (simp add: sync_version_def)

lemma has_index_iff: "hasDashboardEventIndexesLocked ei \<longleftrightarrow> (\<exists>k. event_index_lookup ei k \<noteq> None)"
proof
  assume "hasDashboardEventIndexesLocked ei"
  then consider "ei_all ei \<noteq> None" | "ei_API ei \<noteq> []" | "ei_Model ei \<noteq> []" | "ei_Source ei \<noteq> []" | "ei_Auth ei \<noteq> []"
    by (auto simp: hasDashboardEventIndexesLocked_def indexKeys_def)
  then show "\<exists>k. event_index_lookup ei k \<noteq> None"
  proof cases
    case 1
    then show ?thesis by (intro exI [of _ AllEvents]) (simp add: event_index_lookup_def)
  next
    case 2
    then show ?thesis by (cases "ei_API ei") (auto simp: event_index_lookup_def intro!: exI [of _ "OfAPI (fst (hd (ei_API ei)))"])
  next
    case 3
    then show ?thesis by (cases "ei_Model ei") (auto simp: event_index_lookup_def intro!: exI [of _ "OfModel (fst (hd (ei_Model ei)))"])
  next
    case 4
    then show ?thesis by (cases "ei_Source ei") (auto simp: event_index_lookup_def intro!: exI [of _ "OfSource (fst (hd (ei_Source ei)))"])
  next
    case 5
    then show ?thesis by (cases "ei_Auth ei") (auto simp: event_index_lookup_def intro!: exI [of _ "OfAuth (fst (hd (ei_Auth ei)))"])
  qed
next
  assume "\<exists>k. event_index_lookup ei k \<noteq> None"
  then obtain k where "event_index_lookup ei k \<noteq> None" by blast
  then show "hasDashboardEventIndexesLocked ei"
    by (cases k) (auto simp: event_index_lookup_def hasDashboardEventIndexesLocked_def indexKeys_def)
qed

lemma events_okD: "events_ok apis refs es \<Longrightarrow> e \<in> set es \<Longrightarrow> \<exists>r. e = event_of r \<and> issued apis r \<and> r \<in> refs"
  by (simp add: events_ok_def)

section \<open>A change of the ledger\<close>

text \<open>
  The references that were given out keep their place or die, and the visible details that an index
  selects are the old ones that are left, and the new references \<open>news\<close>, which are queued.
\<close>

definition refs_follow :: "ledger_apis \<Rightarrow> ledger_apis \<Rightarrow> bool" where
  "refs_follow apis apis' \<longleftrightarrow> (\<forall>r. issued apis r \<longrightarrow> issued apis' r \<and>
     (ref_detail apis' r = None \<or>
      (\<exists>d d'. ref_detail apis r = Some d \<and> ref_detail apis' r = Some d' \<and> same_place d d')))"

definition selection_follows :: "ledger_apis \<Rightarrow> ledger_apis \<Rightarrow> eventRef list \<Rightarrow> bool" where
  "selection_follows apis apis' news \<longleftrightarrow> (\<forall>k. numbered apis k \<longrightarrow> numbered apis' k \<and>
     selected apis' k = {r \<in> selected apis k. ref_detail apis' r \<noteq> None} \<union> (set news \<inter> selected apis' k))"

lemma refs_follow_cases:
  assumes "refs_follow apis apis'" "issued apis r"
  obtains "issued apis' r" "ref_detail apis' r = None"
  | d d' where "issued apis' r" "ref_detail apis r = Some d" "ref_detail apis' r = Some d'" "same_place d d'"
proof -
  have "issued apis' r \<and> (ref_detail apis' r = None \<or>
      (\<exists>d d'. ref_detail apis r = Some d \<and> ref_detail apis' r = Some d' \<and> same_place d d'))"
    using assms(1) [unfolded refs_follow_def, THEN spec, THEN mp, OF assms(2)] .
  then show thesis using that by metis
qed

lemma refs_followD:
  assumes "refs_follow apis apis'" "issued apis r"
  shows "issued apis' r" "ref_detail apis' r \<noteq> None \<Longrightarrow> ref_detail apis r \<noteq> None"
  using refs_follow_cases [OF assms] by (blast, metis option.distinct(1))

lemma refs_follow_key:
  assumes "refs_follow apis apis'" "issued apis r" "ref_detail apis' r \<noteq> None"
  shows "event_key apis' (event_of r) = event_key apis (event_of r)"
    "event_matches apis' k (event_of r) = event_matches apis k (event_of r)"
proof -
  obtain a n q where r: "r = (a, n, q)" by (cases r)
  obtain d d' where d: "ref_detail apis r = Some d" "ref_detail apis' r = Some d'" "same_place d d'"
    using refs_follow_cases [OF assms(1,2)] assms(3) by metis
  show "event_key apis' (event_of r) = event_key apis (event_of r)"
    using d by (simp add: event_key_def event_timestamp_def same_place_def)
  show "event_matches apis' k (event_of r) = event_matches apis k (event_of r)"
    using d event_matches_of [of apis a n q d k] event_matches_of [of apis' a n q d' k]
      selects_same_place [OF d(3), of k a n]
    by (simp add: r)
qed

lemma live_filter_follow:
  assumes "refs_follow apis apis'" "events_ok apis refs es"
  shows "filter (live apis') es = filter (live apis') (filter (live apis) es)"
proof -
  have "live apis e" if "e \<in> set es" "live apis' e" for e
    using events_okD [OF assms(2) that(1)] refs_followD(2) [OF assms(1)] that(2) by (metis event_of_simps(1))
  then show ?thesis by (auto intro: filter_cong)
qed

lemma in_order_follow:
  assumes "refs_follow apis apis'" "events_ok apis refs es" "in_order apis (filter (live apis) es)"
  shows "in_order apis' (filter (live apis') es)"
proof -
  have "in_order apis (filter (live apis') es)"
    unfolding live_filter_follow [OF assms(1,2)] by (rule in_order_filter [OF assms(3)])
  moreover have "map (event_key apis') (filter (live apis') es) = map (event_key apis) (filter (live apis') es)"
  proof (rule map_cong [OF refl])
    fix e assume "e \<in> set (filter (live apis') es)"
    then have e: "e \<in> set es" "live apis' e" by auto
    obtain r where "e = event_of r" "issued apis r" using events_okD [OF assms(2) e(1)] by blast
    then show "event_key apis' e = event_key apis e" using refs_follow_key(1) [OF assms(1)] e(2) by simp
  qed
  ultimately show ?thesis by (simp only: in_order_def)
qed

lemma live_refs_follow:
  assumes "refs_follow apis apis'" "events_ok apis refs es"
  shows "live_refs apis' es = {r \<in> live_refs apis es. ref_detail apis' r \<noteq> None}"
proof -
  have "ref_detail apis r \<noteq> None" if "event_of r \<in> set es" "ref_detail apis' r \<noteq> None" for r
    using events_okD [OF assms(2) that(1)] refs_followD(2) [OF assms(1)] that(2) by (metis event_of_eq)
  then show ?thesis by (auto simp: live_refs_def)
qed

lemma live_refs_append [simp]: "live_refs apis (es @ es') = live_refs apis es \<union> live_refs apis es'"
  by (auto simp: live_refs_def)

lemma events_ok_mono:
  assumes "events_ok apis refs es" "\<And>r. issued apis r \<Longrightarrow> issued apis' r" "refs \<subseteq> refs'"
  shows "events_ok apis' refs' es"
  using assms unfolding events_ok_def by blast

end
