(* ===== verification/EventSteps.thy ===== *)
theory EventSteps
  imports EventInvariant
begin

text \<open>
  Every operation of the ledger keeps the invariant of the event indexes: recording, trimming,
  removal of expired details, enrichment and the queries themselves.
\<close>

section \<open>The indexes follow a change of the ledger\<close>

lemma events_ok_issued: "events_ok apis refs es \<Longrightarrow> event_of r \<in> set es \<Longrightarrow> issued apis r"
  using events_okD event_of_eq by metis

lemma live_refs_news:
  assumes "apis_ok apis'" "\<And>r. r \<in> set news \<Longrightarrow> issued apis' r \<and> ref_detail apis' r \<noteq> None"
  shows "live_refs apis' (filter (event_matches apis' k) (map event_of news)) = set news \<inter> selected apis' k"
proof -
  have "event_matches apis' k (event_of r) \<longleftrightarrow> r \<in> selected apis' k" if "r \<in> set news" for r
  proof -
    from assms(2) [OF that] obtain d where d: "issued apis' r" "ref_detail apis' r = Some d" by blast
    obtain a n q where r: "r = (a, n, q)" by (cases r)
    show ?thesis using event_matches_of [of apis' a n q d k] issued_selected [OF assms(1) d] d by (simp add: r)
  qed
  then show ?thesis using assms(2) by (auto simp: live_refs_def)
qed

lemma live_refs_matches:
  assumes "refs_follow apis apis'" "events_ok apis refs es"
  shows "live_refs apis' (filter (event_matches apis' k) es) =
    {r \<in> live_refs apis (filter (event_matches apis k) es). ref_detail apis' r \<noteq> None}"
proof -
  note i = events_ok_issued [OF assms(2)]
  show ?thesis
  proof (rule set_eqI)
    fix r
    show "r \<in> live_refs apis' (filter (event_matches apis' k) es) \<longleftrightarrow>
        r \<in> {r \<in> live_refs apis (filter (event_matches apis k) es). ref_detail apis' r \<noteq> None}"
    proof (cases "event_of r \<in> set es \<and> ref_detail apis' r \<noteq> None")
      case True
      then show ?thesis
        using refs_follow_key(2) [OF assms(1) i, of r k] refs_followD(2) [OF assms(1) i, of r] by (simp add: live_refs_def)
    next
      case False
      then show ?thesis by (auto simp: live_refs_def)
    qed
  qed
qed

lemma indexes_ok_step:
  assumes ok: "indexes_ok apis ei" and wf: "apis_ok apis'"
    and f: "refs_follow apis apis'" "hasDashboardEventIndexesLocked ei \<Longrightarrow> selection_follows apis apis' news"
    and ei: "\<And>k. event_index_lookup ei' k = event_index_lookup ei k" "ei_pending ei' = ei_pending ei @ map event_of news"
      "ei_refs ei \<subseteq> ei_refs ei'"
    and news: "\<And>r. r \<in> set news \<Longrightarrow> issued apis' r \<and> ref_detail apis' r \<noteq> None \<and> \<not> issued apis r \<and> r \<in> ei_refs ei'"
      "distinct news"
    and dirty: "ei_dirty ei' \<or> (\<not> ei_dirty ei \<and> news = [] \<and>
      (\<forall>r\<in>ei_refs ei. issued apis r \<longrightarrow> ref_detail apis r \<noteq> None \<longrightarrow> ref_detail apis' r \<noteq> None))"
  shows "indexes_ok apis' ei'"
proof -
  let ?p = "ei_pending ei" and ?n = "map event_of news"
  have evp: "events_ok apis (ei_refs ei) ?p" and dp: "distinct (filter (live apis) ?p)"
    using ok by (simp_all add: indexes_ok_def)
  have mono: "events_ok apis' (ei_refs ei') es" if "events_ok apis (ei_refs ei) es" for es
    by (rule events_ok_mono [OF that refs_followD(1) [OF f(1)] ei(3)])
  have evn: "events_ok apis' (ei_refs ei') ?n" using news(1) by (auto simp: events_ok_def)
  have fresh: "event_of r \<notin> set es" if "r \<in> set news" "events_ok apis (ei_refs ei) es" for r es
    using events_ok_issued [OF that(2)] news(1) [OF that(1)] by blast
  have nn: "live_refs apis' ?n = set news" using news(1) by (auto simp: live_refs_def)
  have idx: "event_index_ok apis' ei' k es" if "event_index_lookup ei' k = Some es" for k es
  proof -
    have i: "event_index_ok apis ei k es" using ok that ei(1) by (simp add: indexes_ok_def)
    then have ev: "events_ok apis (ei_refs ei) es" by (simp add: event_index_ok_def)
    have lf: "live_refs apis' es = {r \<in> live_refs apis es. ref_detail apis' r \<noteq> None}"
      by (rule live_refs_follow [OF f(1) ev])
    have lp: "live_refs apis' ?p = {r \<in> live_refs apis ?p. ref_detail apis' r \<noteq> None}"
      by (rule live_refs_follow [OF f(1) evp])
    have "hasDashboardEventIndexesLocked ei" using that ei(1) by (auto simp: has_index_iff)
    note f2 = f(2) [OF this]
    have sel: "numbered apis' k" "selected apis' k = {r \<in> selected apis k. ref_detail apis' r \<noteq> None} \<union> (set news \<inter> selected apis' k)"
      using i f2 unfolding event_index_ok_def selection_follows_def by blast+
    have old: "live_refs apis es \<union> live_refs apis (filter (event_matches apis k) ?p) = selected apis k"
      "live_refs apis es \<inter> live_refs apis ?p = {}"
      using i by (simp_all add: event_index_ok_def)
    have "live_refs apis' (filter (event_matches apis' k) (ei_pending ei')) =
        {r \<in> live_refs apis (filter (event_matches apis k) ?p). ref_detail apis' r \<noteq> None} \<union> (set news \<inter> selected apis' k)"
      using live_refs_matches [OF f(1) evp] live_refs_news [OF wf, of news] news(1) by (simp add: ei(2))
    then have "live_refs apis' es \<union> live_refs apis' (filter (event_matches apis' k) (ei_pending ei')) =
        {r \<in> live_refs apis es \<union> live_refs apis (filter (event_matches apis k) ?p). ref_detail apis' r \<noteq> None} \<union>
        (set news \<inter> selected apis' k)"
      unfolding lf by blast
    also have "\<dots> = selected apis' k" unfolding old(1) by (rule sel(2) [symmetric])
    finally have un: "live_refs apis' es \<union> live_refs apis' (filter (event_matches apis' k) (ei_pending ei')) = selected apis' k" .
    have "live_refs apis' es \<inter> set news = {}" using fresh [OF _ ev] by (auto simp: live_refs_def)
    then have dis: "live_refs apis' es \<inter> live_refs apis' (ei_pending ei') = {}"
      using lf lp old(2) by (simp add: ei(2) nn) blast
    have ord: "in_order apis' (filter (live apis') es)"
      using in_order_follow [OF f(1) ev] i by (simp add: event_index_ok_def)
    have dst: "distinct (filter (live apis') es)"
      unfolding live_filter_follow [OF f(1) ev] by (rule distinct_filter) (use i in \<open>simp only: event_index_ok_def\<close>)
    have lv: "live apis' e" if nd: "\<not> ei_dirty ei'" and e: "e \<in> set es" for e
    proof -
      have d: "\<not> ei_dirty ei" "\<forall>r\<in>ei_refs ei. issued apis r \<longrightarrow> ref_detail apis r \<noteq> None \<longrightarrow> ref_detail apis' r \<noteq> None"
        using dirty nd by blast+
      obtain r where r: "e = event_of r" "issued apis r" "r \<in> ei_refs ei" using events_okD [OF ev e] by blast
      have "live apis e" using i d(1) e unfolding event_index_ok_def by blast
      then have "ref_detail apis r \<noteq> None" using r(1) by simp
      then have "ref_detail apis' r \<noteq> None" using d(2) r(2,3) by blast
      then show ?thesis using r(1) by simp
    qed
    show ?thesis unfolding event_index_ok_def by (intro conjI impI ballI mono [OF ev] ord dst sel(1) un dis lv)
  qed
  have "distinct (filter (live apis') (ei_pending ei'))"
  proof -
    have "distinct (filter (live apis') ?p)" unfolding live_filter_follow [OF f(1) evp] by (rule distinct_filter [OF dp])
    moreover have "distinct ?n" using news(2) by (simp add: distinct_map inj_on_def)
    moreover have "set ?n \<inter> set ?p = {}" using fresh [OF _ evp] by auto
    ultimately show ?thesis by (auto simp: ei(2) distinct_filter)
  qed
  moreover have "events_ok apis' (ei_refs ei') (ei_pending ei')"
    using mono [OF evp] evn by (auto simp: ei(2) events_ok_def)
  moreover have "\<not> ei_dirty ei' \<longrightarrow> ei_pending ei' = []"
    using dirty ok by (auto simp: ei(2) indexes_ok_def)
  ultimately show ?thesis using idx by (simp add: indexes_ok_def)
qed

text \<open>When there is no index, nothing has to be kept up to date.\<close>

lemma indexes_ok_none:
  assumes "\<not> hasDashboardEventIndexesLocked ei" "ei_pending ei = []"
  shows "indexes_ok apis ei"
  using assms by (auto simp: has_index_iff indexes_ok_def events_ok_def)

section \<open>A change of one model\<close>

definition put_model :: "ledger_apis \<Rightarrow> ledger_apis \<Rightarrow> string \<Rightarrow> string \<Rightarrow> modelStats \<Rightarrow> bool" where
  "put_model apis apis' a n m' \<longleftrightarrow>
     (\<forall>a' n'. model_at apis' a' n' = (if a' = a \<and> n' = n then Some m' else model_at apis a' n'))"

text \<open>The old and the new form \<open>m\<close>, \<open>m'\<close> of a model, and the new numbers \<open>qs\<close>.\<close>

definition model_follows :: "modelStats \<Rightarrow> modelStats \<Rightarrow> int list \<Rightarrow> bool" where
  "model_follows m m' qs \<longleftrightarrow>
     mo_nextEventSequence m \<le> mo_nextEventSequence m' \<and> (0 < accountingCount m \<longrightarrow> 0 < accountingCount m') \<and>
     (mo_nextEventSequence m' = 0 \<longrightarrow> (\<forall>d\<in>set (mo_Details m'). \<exists>d0\<in>set (mo_Details m). same_place d0 d)) \<and>
     (\<forall>q. 0 < q \<longrightarrow> q \<le> mo_nextEventSequence m \<longrightarrow>
        find (\<lambda>d. rd_eventSequence d = q) (mo_Details m') = None \<or>
        (\<exists>d d'. find (\<lambda>d. rd_eventSequence d = q) (mo_Details m) = Some d \<and>
           find (\<lambda>d. rd_eventSequence d = q) (mo_Details m') = Some d' \<and> same_place d d')) \<and>
     (mo_nextEventSequence m' \<noteq> 0 \<longrightarrow> (\<forall>d\<in>set (mo_Details m'). rd_eventSequence d \<in> set qs \<or>
        (\<exists>d0\<in>set (mo_Details m). same_place d0 d \<and>
           (mo_nextEventSequence m \<noteq> 0 \<longrightarrow> rd_eventSequence d0 = rd_eventSequence d))))"

lemma model_followsD:
  assumes "model_follows m m' qs"
  shows "mo_nextEventSequence m \<le> mo_nextEventSequence m'" "0 < accountingCount m \<Longrightarrow> 0 < accountingCount m'"
    "mo_nextEventSequence m' = 0 \<Longrightarrow> d \<in> set (mo_Details m') \<Longrightarrow> \<exists>d0\<in>set (mo_Details m). same_place d0 d"
    "0 < q \<Longrightarrow> q \<le> mo_nextEventSequence m \<Longrightarrow>
        find (\<lambda>d. rd_eventSequence d = q) (mo_Details m') = None \<or>
        (\<exists>d d'. find (\<lambda>d. rd_eventSequence d = q) (mo_Details m) = Some d \<and>
           find (\<lambda>d. rd_eventSequence d = q) (mo_Details m') = Some d' \<and> same_place d d')"
    "mo_nextEventSequence m' \<noteq> 0 \<Longrightarrow> d \<in> set (mo_Details m') \<Longrightarrow> rd_eventSequence d \<in> set qs \<or>
        (\<exists>d0\<in>set (mo_Details m). same_place d0 d \<and>
           (mo_nextEventSequence m \<noteq> 0 \<longrightarrow> rd_eventSequence d0 = rd_eventSequence d))"
  using assms unfolding model_follows_def by blast+

text \<open>A model that is not there yet.\<close>

definition old_model :: "ledger_apis \<Rightarrow> string \<Rightarrow> string \<Rightarrow> modelStats" where
  "old_model apis a n = (case model_at apis a n of None \<Rightarrow> new_modelStats | Some m \<Rightarrow> m)"

lemma old_model_new [simp]:
  "mo_Details new_modelStats = []" "mo_nextEventSequence new_modelStats = 0" "mo_accounting new_modelStats = []"
  by (simp_all add: new_modelStats_def)

lemma put_refs_follow:
  assumes put: "put_model apis apis' a n m'" and mf: "model_follows (old_model apis a n) m' qs"
  shows "refs_follow apis apis'"
  unfolding refs_follow_def
proof (intro allI impI)
  fix r assume r: "issued apis r"
  obtain a' n' q where rr: "r = (a', n', q)" by (cases r)
  show "issued apis' r \<and> (ref_detail apis' r = None \<or>
      (\<exists>d d'. ref_detail apis r = Some d \<and> ref_detail apis' r = Some d' \<and> same_place d d'))"
  proof (cases "a' = a \<and> n' = n")
    case True
    then obtain m where m: "model_at apis a n = Some m" "0 < q" "q \<le> mo_nextEventSequence m" "0 < accountingCount m"
      using r by (auto simp: rr issued_def)
    have m': "model_at apis' a n = Some m'" using put by (simp add: put_model_def)
    have om: "old_model apis a n = m" using m(1) by (simp add: old_model_def)
    note d = model_followsD [OF mf, unfolded om]
    have "issued apis' r" using d(1,2) m m' True by (auto simp: rr issued_def)
    moreover have "ref_detail apis' r = None \<or>
        (\<exists>d d'. ref_detail apis r = Some d \<and> ref_detail apis' r = Some d' \<and> same_place d d')"
      using d(4) [OF m(2,3)] m(1) m' True by (simp add: rr ref_detail_at)
    ultimately show ?thesis ..
  next
    case False
    then have e: "model_at apis' a' n' = model_at apis a' n'" using put by (auto simp: put_model_def)
    then have "issued apis' r" "ref_detail apis' r = ref_detail apis r" using r by (simp_all add: rr issued_def ref_detail_at)
    then show ?thesis by (cases "ref_detail apis r") auto
  qed
qed

lemma put_selection_follows:
  assumes wf: "apis_ok apis" "apis_ok apis'" and put: "put_model apis apis' a n m'"
    and mf: "model_follows (old_model apis a n) m' qs"
  shows "selection_follows apis apis' (map (\<lambda>q. (a, n, q)) qs)"
  unfolding selection_follows_def
proof (intro allI impI conjI)
  fix k assume nk: "numbered apis k"
  let ?m = "old_model apis a n"
  note d = model_followsD [OF mf]
  have m': "model_at apis' a n = Some m'" using put by (simp add: put_model_def)
  have oth: "model_at apis' a' n' = model_at apis a' n'" if "\<not> (a' = a \<and> n' = n)" for a' n'
    using put that by (auto simp: put_model_def)
  have om: "\<not> selects k a n d0" if "mo_nextEventSequence ?m = 0" "d0 \<in> set (mo_Details ?m)" for d0
    using nk that unfolding numbered_def old_model_def by (cases "model_at apis a n") auto
  show "numbered apis' k"
    unfolding numbered_def
  proof (intro allI impI ballI)
    fix a' n' m0 d0 assume m0: "model_at apis' a' n' = Some m0" "mo_nextEventSequence m0 = 0" "d0 \<in> set (mo_Details m0)"
    show "\<not> selects k a' n' d0"
    proof (cases "a' = a \<and> n' = n")
      case True
      then have "m0 = m'" using m0(1) m' by simp
      moreover have "mo_nextEventSequence ?m = 0"
      proof -
        have "seq_ok ?m" using apis_okD [OF wf(1)] by (auto simp: old_model_def seq_ok_def split: option.split)
        then show ?thesis using d(1) m0(2) \<open>m0 = m'\<close> by (auto simp: seq_ok_def)
      qed
      ultimately show ?thesis
        using d(3) m0(2,3) om selects_same_place True by metis
    next
      case False
      then show ?thesis using nk m0 oth unfolding numbered_def by metis
    qed
  qed
  show "selected apis' k = {r \<in> selected apis k. ref_detail apis' r \<noteq> None} \<union>
      (set (map (\<lambda>q. (a, n, q)) qs) \<inter> selected apis' k)"
  proof (intro equalityI subsetI)
    fix r assume r: "r \<in> selected apis' k"
    obtain a' n' q where rr: "r = (a', n', q)" by (cases r)
    have al: "ref_detail apis' r \<noteq> None" by (rule selected_live [OF wf(2) r])
    show "r \<in> {r \<in> selected apis k. ref_detail apis' r \<noteq> None} \<union> (set (map (\<lambda>q. (a, n, q)) qs) \<inter> selected apis' k)"
    proof (cases "a' = a \<and> n' = n")
      case True
      then obtain d0 where d0: "d0 \<in> set (mo_Details m')" "q = rd_eventSequence d0" "mo_nextEventSequence m' \<noteq> 0" "selects k a n d0"
        using r m' by (auto simp: rr selected_def)
      show ?thesis
      proof (cases "q \<in> set qs")
        case True
        then show ?thesis using r \<open>a' = a \<and> n' = n\<close> by (auto simp: rr)
      next
        case False
        then obtain d1 where d1: "d1 \<in> set (mo_Details ?m)" "same_place d1 d0"
            "mo_nextEventSequence ?m \<noteq> 0 \<longrightarrow> rd_eventSequence d1 = rd_eventSequence d0"
          using d(5) [OF d0(3,1)] d0(2) by blast
        have s1: "selects k a n d1" using selects_same_place [OF d1(2)] d0(4) by simp
        then have nz: "mo_nextEventSequence ?m \<noteq> 0" using om d1(1) by blast
        have "model_at apis a n = Some ?m" using nz by (auto simp: old_model_def split: option.splits)
        moreover have "q = rd_eventSequence d1" using d1(3) nz d0(2) by simp
        ultimately have "(a, n, q) \<in> selected apis k" using d1(1) s1 nz by (auto simp: selected_def)
        then show ?thesis using al True by (simp add: rr)
      qed
    next
      case False
      then have "r \<in> selected apis k" using r oth [OF False] by (auto simp: rr selected_def)
      then show ?thesis using al by simp
    qed
  next
    fix r assume "r \<in> {r \<in> selected apis k. ref_detail apis' r \<noteq> None} \<union> (set (map (\<lambda>q. (a, n, q)) qs) \<inter> selected apis' k)"
    moreover have "r \<in> selected apis' k" if "r \<in> selected apis k" "ref_detail apis' r \<noteq> None"
    proof -
      have i: "issued apis r" by (rule selected_issued [OF wf(1) that(1)])
      from that(2) obtain e e' where e: "issued apis' r" "ref_detail apis r = Some e" "ref_detail apis' r = Some e'" "same_place e e'"
        using refs_follow_cases [OF put_refs_follow [OF put mf] i] by metis
      show ?thesis
        using that(1) issued_selected [OF wf(1) i e(2)] issued_selected [OF wf(2) e(1,3)] selects_same_place [OF e(4)] by simp
    qed
    ultimately show "r \<in> selected apis' k" by blast
  qed
qed


text \<open>No reference to the model dies.\<close>

lemma put_no_death:
  assumes put: "put_model apis apis' a n m'"
    and nd: "\<And>m q. model_at apis a n = Some m \<Longrightarrow> 0 < q \<Longrightarrow> q \<le> mo_nextEventSequence m \<Longrightarrow> (a, n, q) \<in> refs \<Longrightarrow>
      find (\<lambda>d. rd_eventSequence d = q) (mo_Details m) \<noteq> None \<Longrightarrow> find (\<lambda>d. rd_eventSequence d = q) (mo_Details m') \<noteq> None"
  shows "\<forall>r\<in>refs. issued apis r \<longrightarrow> ref_detail apis r \<noteq> None \<longrightarrow> ref_detail apis' r \<noteq> None"
proof (intro ballI impI)
  fix r assume r: "r \<in> refs" "issued apis r" "ref_detail apis r \<noteq> None"
  obtain a' n' q where rr: "r = (a', n', q)" by (cases r)
  have p: "model_at apis' a' n' = (if a' = a \<and> n' = n then Some m' else model_at apis a' n')"
    using put by (simp add: put_model_def)
  show "ref_detail apis' r \<noteq> None"
  proof (cases "a' = a \<and> n' = n")
    case True
    then obtain m where m: "model_at apis a n = Some m" "0 < q" "q \<le> mo_nextEventSequence m"
      using r(2) by (auto simp: rr issued_def)
    then have "find (\<lambda>d. rd_eventSequence d = q) (mo_Details m) \<noteq> None" using r(3) True by (simp add: rr ref_detail_at)
    then show ?thesis using nd [OF m] r(1) p True by (simp add: rr ref_detail_at)
  next
    case False
    then have "model_at apis' a' n' = model_at apis a' n'" using p by auto
    then show ?thesis using r(3) by (simp add: rr ref_detail_at)
  qed
qed

lemma put_model_put:
  assumes "as_Models A' = go_put n m' (case go_get apis a of None \<Rightarrow> [] | Some A \<Rightarrow> as_Models A)"
  shows "put_model apis (go_put a A' apis) a n m'"
  using assms by (simp add: put_model_def model_at_def split: option.split)

lemma apis_ok_put:
  assumes wf: "apis_ok apis" and A': "as_Models A' = go_put n m' (case go_get apis a of None \<Rightarrow> [] | Some A \<Rightarrow> as_Models A)"
    and m': "seq_ok m'"
  shows "apis_ok (go_put a A' apis)"
proof -
  have w: "go_wf apis" and ms: "\<forall>(api, a)\<in>set apis. go_wf (as_Models a)" using wf by (simp_all add: apis_ok_def)
  have g: "go_wf (as_Models A)" if "go_get apis k = Some A" for k A using ms map_of_SomeD [OF that] by auto
  have w': "go_wf (go_put a A' apis)" using w by (rule go_wf_put)
  have "go_wf (as_Models A')" unfolding A' using g by (auto split: option.split)
  then have "\<forall>(api, a)\<in>set (go_put a A' apis). go_wf (as_Models a)"
    unfolding gomap_all [OF w', of "\<lambda>_ a. go_wf (as_Models a)"] using g by simp
  moreover have "seq_ok mm" if "model_at (go_put a A' apis) k x = Some mm" for k x mm
    using that put_model_put [OF A'] m' apis_okD [OF wf] by (simp add: put_model_def split: if_splits)
  ultimately show ?thesis using w' by (simp add: apis_ok_def)
qed

section \<open>Recording, trimming and enriching a model\<close>

lemma find_append: "find P (us @ vs) = (case find P us of None \<Rightarrow> find P vs | Some x \<Rightarrow> Some x)"
  by (induction us) auto

lemma find_insert: "\<not> P y \<Longrightarrow> find P (take p xs @ y # drop p xs) = find P xs"
  using find_append [of P "take p xs" "y # drop p xs"] find_append [of P "take p xs" "drop p xs"]
  by (simp split: option.split)

lemma model_follows_same:
  assumes "mo_Details m' = mo_Details m" "mo_nextEventSequence m' = mo_nextEventSequence m"
    "0 < accountingCount m \<Longrightarrow> 0 < accountingCount m'"
  shows "model_follows m m' []"
  using assms unfolding model_follows_def
  by (auto intro: same_place_refl split: option.split)

lemma initialize_details:
  "d \<in> set (mo_Details (initializeEventSequences m)) \<Longrightarrow>
     \<exists>d0\<in>set (mo_Details m). same_place d0 d \<and> (mo_nextEventSequence m \<noteq> 0 \<longrightarrow> d0 = d)"
  by (auto simp: initializeEventSequences_def same_place_def set_zip split: if_splits)

lemma seq_ok_initialize: "seq_ok m \<Longrightarrow> seq_ok (initializeEventSequences m)"
proof (cases "mo_nextEventSequence m = 0 \<and> mo_Details m \<noteq> []")
  case True
  have "map rd_eventSequence (mo_Details (initializeEventSequences m)) = map (\<lambda>i. int (i + 1)) [0..<length (mo_Details m)]"
    using True by (auto simp: initializeEventSequences_def intro!: nth_equalityI)
  moreover have "distinct (map (\<lambda>i. int (i + 1)) [0..<length (mo_Details m)])" by (simp add: distinct_map inj_on_def)
  moreover have "0 < rd_eventSequence d \<and> rd_eventSequence d \<le> int (length (mo_Details m))"
    if "d \<in> set (mo_Details (initializeEventSequences m))" for d
    using that True by (auto simp: initializeEventSequences_def set_zip)
  ultimately show ?thesis using True by (simp add: seq_ok_def initializeEventSequences_def)
next
  case False
  then show "seq_ok m \<Longrightarrow> ?thesis" by (auto simp: initializeEventSequences_def seq_ok_def)
qed

lemma append_visible:
  "mo_Details (appendDetail d False m) =
     (let m = initializeEventSequences m; p = insert_pos (rd_Timestamp d) (mo_Details m)
      in take p (mo_Details m) @ d\<lparr> rd_eventSequence := mo_nextEventSequence m + 1 \<rparr> # drop p (mo_Details m))"
  "mo_nextEventSequence (appendDetail d False m) = mo_nextEventSequence (initializeEventSequences m) + 1"
  by (simp add: appendDetail_Details Let_def) (simp add: appendDetail_def Let_def)

lemma initialized_next: "seq_ok m \<Longrightarrow> 0 \<le> mo_nextEventSequence (initializeEventSequences m)"
  "seq_ok m \<Longrightarrow> mo_nextEventSequence m \<le> mo_nextEventSequence (initializeEventSequences m)"
  "mo_nextEventSequence m \<noteq> 0 \<Longrightarrow> initializeEventSequences m = m"
  by (auto simp: initializeEventSequences_def seq_ok_def)

lemma append_model_follows:
  assumes "seq_ok m"
  shows "model_follows m (appendDetail d arch m) (if arch then [] else [mo_nextEventSequence (appendDetail d arch m)])"
    "seq_ok (appendDetail d arch m)" "0 < accountingCount (appendDetail d arch m)"
    "\<not> arch \<Longrightarrow> find (\<lambda>x. rd_eventSequence x = mo_nextEventSequence (appendDetail d arch m)) (mo_Details (appendDetail d arch m)) \<noteq> None"
    "\<not> arch \<Longrightarrow> 0 < mo_nextEventSequence (appendDetail d arch m) \<and> mo_nextEventSequence m < mo_nextEventSequence (appendDetail d arch m)"
    "0 < q \<Longrightarrow> q \<le> mo_nextEventSequence m \<Longrightarrow>
      find (\<lambda>d. rd_eventSequence d = q) (mo_Details (appendDetail d arch m)) = find (\<lambda>d. rd_eventSequence d = q) (mo_Details m)"
proof -
  let ?m = "initializeEventSequences m" and ?m' = "appendDetail d arch m"
  let ?q = "mo_nextEventSequence ?m + 1"
  let ?p = "insert_pos (rd_Timestamp d) (mo_Details ?m)" and ?d = "d\<lparr> rd_eventSequence := ?q \<rparr>"
  have D: "mo_Details ?m' = take ?p (mo_Details ?m) @ ?d # drop ?p (mo_Details ?m)" "mo_nextEventSequence ?m' = ?q" if "\<not> arch"
    using that append_visible [of d m] by (simp_all add: Let_def)
  have A: "mo_Details ?m' = mo_Details m" "mo_nextEventSequence ?m' = mo_nextEventSequence m" "0 < accountingCount ?m'" if arch
    using that by (simp_all add: appendDetail_def accountingCount_def)
  have S: "set (mo_Details ?m') = insert ?d (set (mo_Details ?m))" if "\<not> arch"
  proof -
    have "set (take ?p (mo_Details ?m)) \<union> set (drop ?p (mo_Details ?m)) = set (mo_Details ?m)"
      by (metis append_take_drop_id set_append)
    then show ?thesis using D [OF that] by auto
  qed
  note ini = seq_ok_initialize [OF assms] initialized_next [of m]
  show c: "0 < accountingCount ?m'" using A(3) D(1) by (cases arch) (simp_all add: accountingCount_def)
  show f: "find (\<lambda>d. rd_eventSequence d = q) (mo_Details ?m') = find (\<lambda>d. rd_eventSequence d = q) (mo_Details m)"
    if q: "0 < q" "q \<le> mo_nextEventSequence m" for q
  proof (cases arch)
    case False
    have e: "?m = m" using q ini(4) by simp
    then have "\<not> rd_eventSequence ?d = q" using q by simp
    then show ?thesis using find_insert [of "\<lambda>d. rd_eventSequence d = q" ?d ?p "mo_Details ?m"] D [OF False] e by simp
  next
    case True
    then show ?thesis using A(1) [OF True] by simp
  qed
  have le: "rd_eventSequence x \<le> mo_nextEventSequence ?m" if "x \<in> set (mo_Details ?m)" for x
    using ini(1) that unfolding seq_ok_def by (auto simp: initializeEventSequences_def split: if_splits)
  show "seq_ok ?m'"
  proof (cases arch)
    case True
    then show ?thesis using assms A by (simp add: seq_ok_def)
  next
    case False
    have ds: "distinct (map rd_eventSequence (mo_Details ?m))" "\<forall>x\<in>set (mo_Details ?m). 0 < rd_eventSequence x"
      using ini(1) by (auto simp: seq_ok_def initializeEventSequences_def split: if_splits)
    have nq: "?q \<notin> rd_eventSequence ` set (mo_Details ?m)" using le by force
    have "mset (mo_Details ?m') = add_mset ?d (mset (mo_Details ?m))"
      using D(1) [OF False] mset_insert_at [of ?p "mo_Details ?m" ?d] by simp
    then have "mset (map rd_eventSequence (mo_Details ?m')) = mset (?q # map rd_eventSequence (mo_Details ?m))" by simp
    from mset_eq_imp_distinct_iff [OF this] have "distinct (map rd_eventSequence (mo_Details ?m'))"
      using ds(1) nq by simp
    moreover have "0 < ?q" using ini(2) assms by simp
    moreover have "\<forall>x\<in>set (mo_Details ?m'). 0 < rd_eventSequence x \<and> rd_eventSequence x \<le> ?q"
      using S [OF False] ds(2) le \<open>0 < ?q\<close> by fastforce
    ultimately show ?thesis using D(2) [OF False] by (simp add: seq_ok_def)
  qed
  show "0 < mo_nextEventSequence ?m' \<and> mo_nextEventSequence m < mo_nextEventSequence ?m'" if "\<not> arch"
    using D(2) [OF that] ini(2,3) assms by simp
  show "find (\<lambda>x. rd_eventSequence x = mo_nextEventSequence ?m') (mo_Details ?m') \<noteq> None" if "\<not> arch"
    using S [OF that] D(2) [OF that] by (auto simp: find_None_iff)
  show "model_follows m ?m' (if arch then [] else [mo_nextEventSequence ?m'])"
  proof (cases arch)
    case True
    then show ?thesis using A by (simp add: model_follows_same)
  next
    case False
    have "rd_eventSequence x = ?q \<or> (\<exists>d0\<in>set (mo_Details m). same_place d0 x \<and>
        (mo_nextEventSequence m \<noteq> 0 \<longrightarrow> rd_eventSequence d0 = rd_eventSequence x))" if "x \<in> set (mo_Details ?m')" for x
      using that S [OF False] initialize_details [of x m] by auto
    moreover have "find (\<lambda>d. rd_eventSequence d = q) (mo_Details ?m') = None \<or>
        (\<exists>d d'. find (\<lambda>d. rd_eventSequence d = q) (mo_Details m) = Some d \<and>
           find (\<lambda>d. rd_eventSequence d = q) (mo_Details ?m') = Some d' \<and> same_place d d')"
      if "0 < q" "q \<le> mo_nextEventSequence m" for q
      using f [OF that] by (metis not_Some_eq same_place_refl)
    moreover have "0 < mo_nextEventSequence ?m'" "mo_nextEventSequence m \<le> mo_nextEventSequence ?m'"
      using D(2) [OF False] ini(2,3) assms by simp_all
    ultimately show ?thesis using c D(2) [OF False] False unfolding model_follows_def by simp
  qed
qed


lemma trim_next: "trimModelDetailsLocked k m = (m', n) \<Longrightarrow> mo_nextEventSequence m' = mo_nextEventSequence m"
proof -
  have "mo_nextEventSequence (fold archiveDetail ds m) = mo_nextEventSequence m" for ds m
    by (induction ds arbitrary: m) simp_all
  then show "trimModelDetailsLocked k m = (m', n) \<Longrightarrow> ?thesis"
    by (auto simp: trimModelDetailsLocked_def Let_def split: if_splits)
qed

lemma find_drop:
  assumes "distinct (map rd_eventSequence ds)"
  shows "find (\<lambda>d. rd_eventSequence d = q) (drop n ds) = None \<or>
    find (\<lambda>d. rd_eventSequence d = q) (drop n ds) = find (\<lambda>d. rd_eventSequence d = q) ds"
proof -
  let ?P = "\<lambda>d. rd_eventSequence d = q"
  have "find ?P (take n ds) = None" if "find ?P (drop n ds) = Some d" for d
  proof -
    have "d \<in> set (drop n ds)" "rd_eventSequence d = q" using find_Some_set [OF that] by auto
    moreover have "distinct (map rd_eventSequence (take n ds @ drop n ds))" using assms by simp
    ultimately show ?thesis unfolding find_None_iff map_append distinct_append by (metis IntI empty_iff image_eqI list.set_map)
  qed
  then show ?thesis using find_append [of ?P "take n ds" "drop n ds"] by (cases "find ?P (drop n ds)") auto
qed

lemma trim_model_follows:
  assumes ok: "seq_ok m" and t: "trimModelDetailsLocked k m = (m', n)"
  shows "model_follows m m' []" "seq_ok m'"
proof -
  have D: "mo_Details m' = drop n (mo_Details m)" and A: "mo_accounting m' = mo_accounting m @ map accountingRecord_of (take n (mo_Details m))"
    using trim_result [OF t] by simp_all
  note nx = trim_next [OF t]
  have sub: "set (mo_Details m') \<subseteq> set (mo_Details m)" unfolding D by (rule set_drop_subset)
  have c: "accountingCount m' = accountingCount m" by (simp add: accountingCount_def D A)
  have ds: "distinct (map rd_eventSequence (mo_Details m'))" if "mo_nextEventSequence m \<noteq> 0"
    using ok that by (simp add: seq_ok_def D flip: drop_map)
  show "seq_ok m'" using ok ds sub by (auto simp: seq_ok_def nx)
  have "find (\<lambda>d. rd_eventSequence d = q) (mo_Details m') = None \<or>
        (\<exists>d d'. find (\<lambda>d. rd_eventSequence d = q) (mo_Details m) = Some d \<and>
           find (\<lambda>d. rd_eventSequence d = q) (mo_Details m') = Some d' \<and> same_place d d')"
    if q: "0 < q" "q \<le> mo_nextEventSequence m" for q
  proof -
    have "distinct (map rd_eventSequence (mo_Details m))" using ok q by (auto simp: seq_ok_def)
    from find_drop [OF this, of q n] show ?thesis unfolding D by (metis not_Some_eq same_place_refl)
  qed
  then show "model_follows m m' []" using sub unfolding model_follows_def nx c
    by (auto intro: same_place_refl)
qed

lemma find_all2:
  assumes "list_all2 (\<lambda>d d'. same_place d d' \<and> rd_eventSequence d' = rd_eventSequence d) ds ds'"
  shows "(find (\<lambda>d. rd_eventSequence d = q) ds' = None \<and> find (\<lambda>d. rd_eventSequence d = q) ds = None) \<or>
    (\<exists>d d'. find (\<lambda>d. rd_eventSequence d = q) ds = Some d \<and> find (\<lambda>d. rd_eventSequence d = q) ds' = Some d' \<and> same_place d d')"
  using assms by induction auto

lemma enriched_place: "same_place d (enriched_by u d)" "rd_eventSequence (enriched_by u d) = rd_eventSequence d"
  by (simp_all add: enrich_fields with_metadata_def same_place_def)

lemma enrich_model_follows:
  assumes ok: "seq_ok m" and i: "i < accountingCount m"
    and m'_def: "m' = setAccountingDetailAt i (enriched_by u (accountingDetailAt m i)) m"
  shows "model_follows m m' []" "seq_ok m'"
    "find (\<lambda>d. rd_eventSequence d = q) (mo_Details m) \<noteq> None \<Longrightarrow> find (\<lambda>d. rd_eventSequence d = q) (mo_Details m') \<noteq> None"
proof -
  let ?R = "\<lambda>d d'. same_place d d' \<and> rd_eventSequence d' = rd_eventSequence d"
  have nx: "mo_nextEventSequence m' = mo_nextEventSequence m" by (simp add: m'_def setAccountingDetailAt_def)
  have c: "accountingCount m' = accountingCount m" by (simp add: m'_def setAccountingDetailAt_def accountingCount_def)
  have r: "list_all2 ?R (mo_Details m) (mo_Details m')"
  proof (cases "i < length (mo_Details m)")
    case True
    let ?d = "mo_Details m ! i"
    define e where "e = (enriched_by u ?d)\<lparr> rd_eventSequence := rd_eventSequence ?d \<rparr>"
    have e: "?R ?d e" using enriched_place(1) [of ?d u] by (simp add: same_place_def e_def)
    have "mo_Details m' = (mo_Details m)[i := e]"
      using True by (simp add: m'_def setAccountingDetailAt_def accountingDetailAt_def e_def)
    then show ?thesis using e True by (auto simp: list_all2_conv_all_nth nth_list_update)
  next
    case False
    then show ?thesis by (simp add: m'_def setAccountingDetailAt_def list_all2_same)
  qed
  have sq: "map rd_eventSequence (mo_Details m') = map rd_eventSequence (mo_Details m)"
    using r by (auto simp: list_all2_conv_all_nth intro!: nth_equalityI)
  then have "rd_eventSequence ` set (mo_Details m') = rd_eventSequence ` set (mo_Details m)" by (metis list.set_map)
  then have im: "\<exists>d0\<in>set (mo_Details m). rd_eventSequence d0 = rd_eventSequence d" if "d \<in> set (mo_Details m')" for d
    using that by (metis imageE image_eqI)
  show "seq_ok m'" using ok im sq unfolding seq_ok_def nx by metis
  have ex: "\<exists>d0\<in>set (mo_Details m). ?R d0 d" if "d \<in> set (mo_Details m')" for d
  proof -
    obtain j where "j < length (mo_Details m')" "d = mo_Details m' ! j" using \<open>d \<in> set (mo_Details m')\<close> by (auto simp: in_set_conv_nth)
    then have "mo_Details m ! j \<in> set (mo_Details m)" "?R (mo_Details m ! j) d"
      using r by (auto simp: list_all2_conv_all_nth)
    then show ?thesis by blast
  qed
  have fa: "find (\<lambda>d. rd_eventSequence d = q) (mo_Details m') = None \<or>
        (\<exists>d d'. find (\<lambda>d. rd_eventSequence d = q) (mo_Details m) = Some d \<and>
           find (\<lambda>d. rd_eventSequence d = q) (mo_Details m') = Some d' \<and> same_place d d')" for q
    using find_all2 [OF r, of q] by blast
  have e1: "\<exists>d0\<in>set (mo_Details m). same_place d0 d"
    and e2: "\<exists>d0\<in>set (mo_Details m). same_place d0 d \<and> (mo_nextEventSequence m \<noteq> 0 \<longrightarrow> rd_eventSequence d0 = rd_eventSequence d)"
    if "d \<in> set (mo_Details m')" for d
    using ex [OF that] by metis+
  show "model_follows m m' []" unfolding model_follows_def nx c
    by (intro conjI allI impI ballI; (rule fa | rule e1, assumption | rule disjI2, rule e2, assumption | simp))
  show "find (\<lambda>d. rd_eventSequence d = q) (mo_Details m) \<noteq> None \<Longrightarrow> find (\<lambda>d. rd_eventSequence d = q) (mo_Details m') \<noteq> None"
    using find_all2 [OF r, of q] by auto
qed


section \<open>The operations\<close>

lemma apply_models:
  "as_Models (applyAPIStatsWithAccounting n d t c arch A) =
     go_put n (appendDetail d arch (inc_model d t c (case go_get (as_Models A) n of None \<Rightarrow> new_modelStats | Some m \<Rightarrow> m))) (as_Models A)"
  by (simp add: applyAPIStatsWithAccounting_def inc_api_def Let_def)

text \<open>What an accepted record does to the models.\<close>

lemma record_models:
  assumes "recordDetailWithAccountingLocked digest api n d dedup now w arch s = (s', True)"
  shows "\<exists>A' m' e. rs_apis s' = go_put (recorded_api api) A' (rs_apis s) \<and>
    as_Models A' = go_put n m' (case go_get (rs_apis s) (recorded_api api) of None \<Rightarrow> [] | Some A \<Rightarrow> as_Models A) \<and>
    (\<exists>m. m' = appendDetail e arch m \<and> mo_Details m = mo_Details (old_model (rs_apis s) (recorded_api api) n) \<and>
      mo_nextEventSequence m = mo_nextEventSequence (old_model (rs_apis s) (recorded_api api) n) \<and>
      accountingCount m = accountingCount (old_model (rs_apis s) (recorded_api api) n))"
proof -
  let ?k = "recorded_api api"
  let ?e = "recorded_detail digest ?k n d"
  obtain s0 where s0: "s' = accountDetail digest ?k n ?e arch s0" "rs_apis s0 = rs_apis s"
    using record_accepted [OF assms] by blast
  let ?c = "detailCostLocked (rs_prices s0) n ?e (totals_of ?e)"
  let ?A = "case go_get (rs_apis s) ?k of None \<Rightarrow> new_apiStats | Some a \<Rightarrow> a"
  let ?A' = "inc_api_sources ?e (totals_of ?e) (applyAPIStatsWithAccounting n ?e (totals_of ?e) ?c arch ?A)"
  let ?m = "inc_model ?e (totals_of ?e) ?c (case go_get (as_Models ?A) n of None \<Rightarrow> new_modelStats | Some m \<Rightarrow> m)"
  have A: "as_Models ?A = (case go_get (rs_apis s) ?k of None \<Rightarrow> [] | Some A \<Rightarrow> as_Models A)"
    by (simp add: new_apiStats_def split: option.split)
  have om: "(case go_get (as_Models ?A) n of None \<Rightarrow> new_modelStats | Some m \<Rightarrow> m) = old_model (rs_apis s) ?k n"
    unfolding A by (simp add: old_model_def model_at_def split: option.split)
  have "rs_apis s' = go_put ?k ?A' (rs_apis s)" by (simp add: s0 accountDetail_fields)
  moreover have "as_Models ?A' = go_put n (appendDetail ?e arch ?m) (as_Models ?A)"
    by (simp add: inc_api_sources_def apply_models)
  moreover have "mo_Details ?m = mo_Details (old_model (rs_apis s) ?k n)"
      "mo_nextEventSequence ?m = mo_nextEventSequence (old_model (rs_apis s) ?k n)"
      "accountingCount ?m = accountingCount (old_model (rs_apis s) ?k n)"
    unfolding om by (simp_all add: inc_model_def accountingCount_def Let_def)
  ultimately show ?thesis unfolding A by blast
qed

lemma model_follows_cong:
  assumes "model_follows m m' qs" "mo_Details m = mo_Details m0" "mo_nextEventSequence m = mo_nextEventSequence m0"
    "accountingCount m = accountingCount m0"
  shows "model_follows m0 m' qs"
  using assms by (simp add: model_follows_def)

lemma queue_cases:
  "queueDashboardEventLocked grew fits a n (Some r) ei = ei \<or>
   queueDashboardEventLocked grew fits a n (Some r) ei = clearDashboardEventIndexesLocked ei \<or>
   (\<exists>p. queueDashboardEventLocked grew fits a n (Some r) ei = clearDashboardEventIndexesLocked (ei\<lparr> ei_pending := p \<rparr>)) \<or>
   queueDashboardEventLocked grew fits a n (Some r) ei = ei\<lparr> ei_pending := ei_pending ei @
      [\<lparr> ed_detail = None, ed_ref = Some r, ed_upstreamAPI = a, ed_sortKey = a, ed_modelName = n, ed_sequence = snd (snd r) \<rparr>],
      ei_dirty := True \<rparr>"
  by (auto simp: queueDashboardEventLocked_def Let_def)

lemma has_index_updates [simp]:
  "hasDashboardEventIndexesLocked (ei\<lparr> ei_refs := R \<rparr>) = hasDashboardEventIndexesLocked ei"
  "hasDashboardEventIndexesLocked (sync_version s ei) = hasDashboardEventIndexesLocked ei"
  by (simp_all add: has_index_iff sync_version_def)

lemma sync_fields [simp]: "ei_pending (sync_version s ei) = ei_pending ei" "ei_dirty (sync_version s ei) = ei_dirty ei"
  "ei_refs (sync_version s ei) = ei_refs ei" "event_index_lookup (sync_version s ei) k = event_index_lookup ei k"
  by (simp_all add: sync_version_def)

lemma record_keeps:
  assumes ok: "event_state_ok st"
    and r: "recordDetailEvents grew fits digest api n d dedup now w arch st = (st', accepted)"
  shows "event_state_ok st'"
proof -
  let ?s = "es_stats st" and ?ei = "es_index st" and ?k = "recorded_api api"
  obtain s' acc where s': "recordDetailWithAccountingLocked digest api n d dedup now w arch ?s = (s', acc)" by (metis surj_pair)
  have wf: "apis_ok (rs_apis ?s)" and io: "indexes_ok (rs_apis ?s) ?ei" using ok by (simp_all add: event_state_ok_def)
  show ?thesis
  proof (cases acc)
    case False
    then have "st' = st\<lparr> es_stats := s' \<rparr>" using r s' by (simp add: recordDetailEvents_def)
    moreover have "recordDetailWithAccountingLocked digest api n d dedup now w arch ?s = (s', False)" using s' False by simp
    from record_rejected [OF this] have "rs_apis s' = rs_apis ?s" by simp
    ultimately show ?thesis using wf io by (simp add: event_state_ok_def)
  next
    case True
    let ?om = "old_model (rs_apis ?s) ?k n"
    obtain A' m' e m where A': "rs_apis s' = go_put ?k A' (rs_apis ?s)"
      "as_Models A' = go_put n m' (case go_get (rs_apis ?s) ?k of None \<Rightarrow> [] | Some A \<Rightarrow> as_Models A)"
      and m': "m' = appendDetail e arch m" "mo_Details m = mo_Details ?om" "mo_nextEventSequence m = mo_nextEventSequence ?om"
        "accountingCount m = accountingCount ?om"
    proof -
      have "recordDetailWithAccountingLocked digest api n d dedup now w arch ?s = (s', True)" using s' True by simp
      from record_models [OF this] show thesis using that by blast
    qed
    have "seq_ok ?om" using apis_okD [OF wf] by (auto simp: old_model_def seq_ok_def split: option.split)
    then have sm: "seq_ok m" using m' by (simp add: seq_ok_def)
    note ap = append_model_follows [OF sm, where d = e and arch = arch, folded m'(1)]
    have put: "put_model (rs_apis ?s) (rs_apis s') ?k n m'" unfolding A'(1) by (rule put_model_put [OF A'(2)])
    have wf': "apis_ok (rs_apis s')" unfolding A'(1) by (rule apis_ok_put [OF wf A'(2) ap(2)])
    let ?q = "mo_nextEventSequence m'"
    let ?qs = "if arch then [] else [?q]"
    have mf: "model_follows ?om m' ?qs" by (rule model_follows_cong [OF ap(1) m'(2-4)])
    have rf: "refs_follow (rs_apis ?s) (rs_apis s')" by (rule put_refs_follow [OF put mf])
    have sf: "selection_follows (rs_apis ?s) (rs_apis s') (map (\<lambda>q. (?k, n, q)) ?qs)"
      by (rule put_selection_follows [OF wf wf' put mf])
    have nd: "\<forall>r\<in>ei_refs ?ei. issued (rs_apis ?s) r \<longrightarrow> ref_detail (rs_apis ?s) r \<noteq> None \<longrightarrow> ref_detail (rs_apis s') r \<noteq> None"
    proof (rule put_no_death [OF put])
      fix mm q assume a: "model_at (rs_apis ?s) ?k n = Some mm" "0 < q" "q \<le> mo_nextEventSequence mm"
        "find (\<lambda>d. rd_eventSequence d = q) (mo_Details mm) \<noteq> None"
      have "?om = mm" using a(1) by (simp add: old_model_def)
      then show "find (\<lambda>d. rd_eventSequence d = q) (mo_Details m') \<noteq> None"
        using ap(6) [of q] a(2-4) m'(2,3) by simp
    qed
    have at': "model_at (rs_apis s') ?k n = Some m'" using put by (simp add: put_model_def)
    let ?fresh = "\<not> arch \<and> hasDashboardEventIndexesLocked ?ei"
    let ?ref = "if ?fresh then Some (?k, n, ?q) else None"
    let ?ei1 = "sync_version s' (?ei\<lparr> ei_refs := ei_refs ?ei \<union> set_option ?ref \<rparr>)"
    have st': "st' = \<lparr> es_stats = s', es_index = if arch then ?ei1 else queueDashboardEventLocked grew fits ?k n ?ref ?ei1 \<rparr>"
      using r s' True at' by (auto simp: recordDetailEvents_def Let_def)
    show ?thesis
    proof (cases ?fresh)
      case False
      have "indexes_ok (rs_apis s') ?ei1"
      proof (rule indexes_ok_step [OF io wf' rf, where news = "[]"])
        show "selection_follows (rs_apis ?s) (rs_apis s') []" if "hasDashboardEventIndexesLocked ?ei"
          using sf False that by simp
        show "ei_dirty ?ei1 \<or> (\<not> ei_dirty ?ei \<and> [] = [] \<and>
            (\<forall>r\<in>ei_refs ?ei. issued (rs_apis ?s) r \<longrightarrow> ref_detail (rs_apis ?s) r \<noteq> None \<longrightarrow> ref_detail (rs_apis s') r \<noteq> None))"
          using nd by simp
      qed (use False in auto)
      moreover have "es_index st' = ?ei1"
        unfolding st' using False by (auto simp: queueDashboardEventLocked_def)
      ultimately show ?thesis using wf' by (simp add: event_state_ok_def st')
    next
      case fr: True
      let ?r = "(?k, n, ?q)"
      let ?ei2 = "?ei1\<lparr> ei_pending := ei_pending ?ei @ [event_of ?r], ei_dirty := True \<rparr>"
      have q: "0 < ?q" "mo_nextEventSequence m < ?q" using ap(5) fr by simp_all
      have ni: "\<not> issued (rs_apis ?s) ?r"
        using q m'(3) by (auto simp: issued_def old_model_def)
      have "indexes_ok (rs_apis s') ?ei2"
      proof (rule indexes_ok_step [OF io wf' rf, where news = "[?r]"])
        show "selection_follows (rs_apis ?s) (rs_apis s') [?r]" using sf fr by simp
        show "issued (rs_apis s') r \<and> ref_detail (rs_apis s') r \<noteq> None \<and> \<not> issued (rs_apis ?s) r \<and> r \<in> ei_refs ?ei2"
          if "r \<in> set [?r]" for r
          using that at' q ap(3,4) fr ni by (simp add: issued_def ref_detail_at)
      qed (use fr in auto)
      moreover have "event_of ?r = \<lparr> ed_detail = None, ed_ref = Some ?r, ed_upstreamAPI = ?k, ed_sortKey = ?k,
          ed_modelName = n, ed_sequence = snd (snd ?r) \<rparr>" by (simp add: event_of_def)
      ultimately have "indexes_ok (rs_apis s') (queueDashboardEventLocked grew fits ?k n (Some ?r) ?ei1)"
        using fr by (auto simp: queueDashboardEventLocked_def Let_def)
      then show ?thesis using wf' fr by (simp add: event_state_ok_def st')
    qed
  qed
qed

lemma trim_keeps:
  assumes ok: "event_state_ok st"
  shows "event_state_ok (trimModelEvents api n st)"
proof -
  let ?s = "es_stats st" and ?ei = "es_index st"
  have wf: "apis_ok (rs_apis ?s)" and io: "indexes_ok (rs_apis ?s) ?ei" using ok by (simp_all add: event_state_ok_def)
  show ?thesis
  proof (cases "model_at (rs_apis ?s) api n")
    case None
    then show ?thesis using ok by (auto simp: trimModelEvents_def model_at_def Let_def split: option.splits)
  next
    case (Some m)
    then obtain a where a: "go_get (rs_apis ?s) api = Some a" "go_get (as_Models a) n = Some m"
      by (auto simp: model_at_def split: option.splits)
    obtain m' k where t: "trimModelDetailsLocked (rs_maxDetailsPerModel ?s) m = (m', k)" by (metis surj_pair)
    let ?A' = "a\<lparr> as_Models := go_put n m' (as_Models a) \<rparr>"
    let ?apis = "go_put api ?A' (rs_apis ?s)"
    let ?gone = "map (\<lambda>d. (api, n, rd_eventSequence d)) (take k (mo_Details m))"
    let ?ei' = "if \<exists>r\<in>set ?gone. r \<in> ei_refs ?ei then ?ei\<lparr> ei_dirty := True \<rparr> else ?ei"
    have A': "as_Models ?A' = go_put n m' (case go_get (rs_apis ?s) api of None \<Rightarrow> [] | Some A \<Rightarrow> as_Models A)" by (simp add: a)
    have sm: "seq_ok m" by (rule apis_okD [OF wf Some])
    note tf = trim_model_follows [OF sm t]
    have om: "old_model (rs_apis ?s) api n = m" using Some by (simp add: old_model_def)
    have put: "put_model (rs_apis ?s) ?apis api n m'" by (rule put_model_put [OF A'])
    have wf': "apis_ok ?apis" by (rule apis_ok_put [OF wf A' tf(2)])
    have mf: "model_follows (old_model (rs_apis ?s) api n) m' []" using tf(1) om by simp
    have "indexes_ok ?apis ?ei'"
    proof (rule indexes_ok_step [OF io wf' put_refs_follow [OF put mf], where news = "[]"])
      show "selection_follows (rs_apis ?s) ?apis []" using put_selection_follows [OF wf wf' put mf] by simp
      have "\<forall>r\<in>ei_refs ?ei. issued (rs_apis ?s) r \<longrightarrow> ref_detail (rs_apis ?s) r \<noteq> None \<longrightarrow> ref_detail ?apis r \<noteq> None"
        if ng: "\<not> (\<exists>r\<in>set ?gone. r \<in> ei_refs ?ei)"
      proof (rule put_no_death [OF put])
        fix mm q assume b: "model_at (rs_apis ?s) api n = Some mm" "(api, n, q) \<in> ei_refs ?ei"
          "find (\<lambda>d. rd_eventSequence d = q) (mo_Details mm) \<noteq> None"
        let ?P = "\<lambda>d. rd_eventSequence d = q"
        have "mm = m" using b(1) Some by simp
        have "find ?P (take k (mo_Details m)) = None"
          using ng b(2) by (auto simp: find_None_iff)
        then have "find ?P (drop k (mo_Details m)) = find ?P (mo_Details m)"
          using find_append [of ?P "take k (mo_Details m)" "drop k (mo_Details m)"] by simp
        then show "find ?P (mo_Details m') \<noteq> None" using b(3) \<open>mm = m\<close> trim_result(1) [OF t] by simp
      qed
      then show "ei_dirty ?ei' \<or> (\<not> ei_dirty ?ei \<and> [] = [] \<and>
          (\<forall>r\<in>ei_refs ?ei. issued (rs_apis ?s) r \<longrightarrow> ref_detail (rs_apis ?s) r \<noteq> None \<longrightarrow> ref_detail ?apis r \<noteq> None))"
        by simp
    qed auto
    moreover have "rs_apis (es_stats (trimModelEvents api n st)) = ?apis" "es_index (trimModelEvents api n st) = ?ei'"
      by (simp_all add: trimModelEvents_def Let_def a t)
    ultimately show ?thesis using wf' by (simp add: event_state_ok_def)
  qed
qed


lemma invalidate_responses_fields [simp]:
  "rs_apis (es_stats (invalidate_responses st)) = rs_apis (es_stats st)"
  "indexes_ok apis (es_index (invalidate_responses st)) = indexes_ok apis (es_index st)"
  by (simp_all add: invalidate_responses_def invalidateCachedResponsesLocked_def Let_def)

lemma enrich_keeps:
  assumes ok: "event_state_ok st"
  shows "event_state_ok (enrichDetailAt api n i u st)"
proof -
  let ?s = "es_stats st" and ?ei = "es_index st"
  have wf: "apis_ok (rs_apis ?s)" and io: "indexes_ok (rs_apis ?s) ?ei" using ok by (simp_all add: event_state_ok_def)
  consider (idle) "enrichDetailAt api n i u st = st"
    | (set') a m detail where "go_get (rs_apis ?s) api = Some a" "go_get (as_Models a) n = Some m" "i < accountingCount m"
      "detail = enriched_by u (accountingDetailAt m i)"
      "rs_apis (es_stats (enrichDetailAt api n i u st)) =
        go_put api (a\<lparr> as_Models := go_put n (setAccountingDetailAt i detail m) (as_Models a) \<rparr>) (rs_apis ?s)"
      "\<And>apis. indexes_ok apis (es_index (enrichDetailAt api n i u st)) = indexes_ok apis ?ei"
  proof (cases "model_at (rs_apis ?s) api n")
    case None
    then have "enrichDetailAt api n i u st = st"
      by (auto simp: model_at_def enrichDetailAt_def Let_def split: option.splits)
    then show thesis by (rule idle)
  next
    case (Some m)
    then obtain a where a: "go_get (rs_apis ?s) api = Some a" "go_get (as_Models a) n = Some m"
      by (auto simp: model_at_def split: option.splits)
    show thesis
    proof (cases "i < accountingCount m \<and> snd (enrichRequestDetailMetadata (accountingDetailAt m i) u)")
      case True
      then show thesis
        by (intro set' [OF a _ refl]) (auto simp: a enrichDetailAt_def Let_def case_prod_unfold)
    next
      case False
      then have "enrichDetailAt api n i u st = st" by (auto simp: a enrichDetailAt_def Let_def case_prod_unfold)
      then show thesis by (rule idle)
    qed
  qed
  then show ?thesis
  proof cases
    case idle
    then show ?thesis using ok by simp
  next
    case set'
    let ?m' = "setAccountingDetailAt i detail m"
    let ?A' = "a\<lparr> as_Models := go_put n ?m' (as_Models a) \<rparr>"
    let ?apis = "go_put api ?A' (rs_apis ?s)"
    have at': "model_at (rs_apis ?s) api n = Some m" using set'(1,2) by (simp add: model_at_def)
    have A': "as_Models ?A' = go_put n ?m' (case go_get (rs_apis ?s) api of None \<Rightarrow> [] | Some A \<Rightarrow> as_Models A)"
      by (simp add: set'(1))
    have sm: "seq_ok m" by (rule apis_okD [OF wf at'])
    note ef = enrich_model_follows [OF sm set'(3), of ?m' u, unfolded set'(4), OF refl, folded set'(4)]
    have put: "put_model (rs_apis ?s) ?apis api n ?m'" by (rule put_model_put [OF A'])
    have wf': "apis_ok ?apis" by (rule apis_ok_put [OF wf A' ef(2)])
    have mf: "model_follows (old_model (rs_apis ?s) api n) ?m' []" using ef(1) at' by (simp add: old_model_def)
    have "indexes_ok ?apis ?ei"
    proof (rule indexes_ok_step [OF io wf' put_refs_follow [OF put mf], where news = "[]"])
      show "selection_follows (rs_apis ?s) ?apis []" using put_selection_follows [OF wf wf' put mf] by simp
      have "\<forall>r\<in>ei_refs ?ei. issued (rs_apis ?s) r \<longrightarrow> ref_detail (rs_apis ?s) r \<noteq> None \<longrightarrow> ref_detail ?apis r \<noteq> None"
      proof (rule put_no_death [OF put])
        fix mm q assume b: "model_at (rs_apis ?s) api n = Some mm" "find (\<lambda>d. rd_eventSequence d = q) (mo_Details mm) \<noteq> None"
        then show "find (\<lambda>d. rd_eventSequence d = q) (mo_Details ?m') \<noteq> None" using ef(3) at' by simp
      qed
      then show "ei_dirty ?ei \<or> (\<not> ei_dirty ?ei \<and> [] = [] \<and>
          (\<forall>r\<in>ei_refs ?ei. issued (rs_apis ?s) r \<longrightarrow> ref_detail (rs_apis ?s) r \<noteq> None \<longrightarrow> ref_detail ?apis r \<noteq> None))"
        by simp
    qed auto
    then show ?thesis using wf' set'(5,6) by (simp add: event_state_ok_def)
  qed
qed

end
