(* ===== verification/EventRemoval.thy ===== *)
theory EventRemoval
  imports EventSteps
begin

text \<open>
  The removal of expired details and the event indexes: a removal that changes something drops
  every index, and one that changes nothing leaves every referenced detail where it is.
\<close>

section \<open>What the removal leaves alone\<close>

text \<open>How a model looks after the removal; \<open>c\<close> says whether anything was changed.\<close>

definition kin :: "bool \<Rightarrow> modelStats \<Rightarrow> modelStats \<Rightarrow> bool" where
  "kin c m m' \<longleftrightarrow> mo_nextEventSequence m' = mo_nextEventSequence m \<and> set (mo_Details m') \<subseteq> set (mo_Details m) \<and>
     (distinct (map rd_eventSequence (mo_Details m)) \<longrightarrow> distinct (map rd_eventSequence (mo_Details m'))) \<and>
     (\<not> c \<longrightarrow> mo_Details m' = mo_Details m \<and> accountingCount m' = accountingCount m \<and> mo_tally m' = mo_tally m)"

lemma kin_mono: "kin c m m' \<Longrightarrow> kin (c \<or> c') m m'"
  by (auto simp: kin_def)

lemma kin_seq_ok: "kin c m m' \<Longrightarrow> seq_ok m \<Longrightarrow> seq_ok m'"
  by (auto simp: kin_def seq_ok_def)

lemma dec_sequence [simp]: "mo_nextEventSequence (snd (snd (decrementCounters n d f))) = mo_nextEventSequence (snd (snd f))"
  by (cases f) (simp add: decrementCounters_def dec_model_def Let_def)

lemma fold_dec_sequence:
  "mo_nextEventSequence (snd (snd (fold (decrementCounters n) ds f))) = mo_nextEventSequence (snd (snd f))"
  by (induction ds arbitrary: f) simp_all

lemma pruneDetails_raw:
  assumes "pruneDetails cutoff n ds f = (f', kept)"
  shows "kept = filter (\<lambda>d. \<not> expired cutoff d) ds \<and> frame f' = frame f \<and>
    mo_nextEventSequence (snd (snd f')) = mo_nextEventSequence (snd (snd f)) \<and>
    (length kept = length ds \<longrightarrow> mo_tally (snd (snd f')) = mo_tally (snd (snd f)))"
  using assms
proof (induction ds arbitrary: f f' kept)
  case (Cons d ds)
  obtain s am where f: "f = (s, am)" by (cases f)
  show ?case
  proof (cases "expired cutoff d")
    case False
    obtain k where k: "pruneDetails cutoff n ds (noteDetailExpiry d s, am) = (f', k)" "kept = d # k"
      using Cons.prems(1) False f by (auto split: prod.splits)
    show ?thesis using Cons.IH [OF k(1)] False k(2) by (simp add: f)
  next
    case True
    obtain s' am' where d: "decrementCounters n d f = (s', am')" by (cases "decrementCounters n d f")
    have p: "pruneDetails cutoff n ds (s'\<lparr> rs_evictedTotal := rs_evictedTotal s' + 1 \<rparr>, am') = (f', kept)"
      using Cons.prems(1) True d by simp
    note ih = Cons.IH [OF p]
    have "length kept \<le> length ds" using ih by (metis length_filter_le)
    then have "length kept \<noteq> length (d # ds)" by simp
    moreover have "mo_nextEventSequence (snd am') = mo_nextEventSequence (snd am)"
      by (metis dec_sequence d f snd_conv)
    moreover have "frame (s', am') = frame f" by (metis frame_dec d)
    ultimately show ?thesis using ih True by (simp add: f)
  qed
qed simp

lemma pruneAccounting_raw:
  assumes "pruneAccounting cutoff n (s, a, m) = ((s', a', m'), c)"
  shows "mo_Details m' = mo_Details m \<and> mo_nextEventSequence m' = mo_nextEventSequence m \<and> core s' = core s \<and>
    (\<not> c \<longrightarrow> length (mo_accounting m') = length (mo_accounting m) \<and> mo_tally m' = mo_tally m)"
proof (cases "time_IsZero cutoff \<or> mo_accounting m = []")
  case True
  then show ?thesis using assms by (auto simp: pruneAccounting_def)
next
  case False
  let ?r = "map detail_of (mo_accounting m)"
  let ?k = "filter (\<lambda>d. \<not> expired cutoff d) ?r" and ?x = "filter (expired cutoff) ?r"
  obtain s1 a1 m1 where f: "fold (decrementCounters n) ?x (s, a, m) = (s1, a1, m1)" by (metis prod_cases3)
  have fr: "frame (s1, a1, m1) = frame (s, a, m)" "mo_nextEventSequence m1 = mo_nextEventSequence m"
    using frame_fold_dec [of n ?x "(s, a, m)"] fold_dec_sequence [of n ?x "(s, a, m)"] unfolding f by simp_all
  have r: "s' = fold noteDetailExpiry ?k s1" "m' = m1\<lparr> mo_accounting := map accountingRecord_of ?k \<rparr>" "c = (length ?k \<noteq> length ?r)"
    using assms unfolding pruneAccounting_def Let_def prod.case if_not_P [OF False] f by (auto simp only: prod.inject)
  have "mo_tally m1 = mo_tally m" if "\<not> c"
  proof -
    have "length ?k = length ?r" using that r(3) by simp
    then have "?x = []" using sum_length_filter_compl [of "expired cutoff" ?r] by (simp add: filter_map)
    then show ?thesis using f by simp
  qed
  then show ?thesis using fr r by (auto simp: frame_def core_fold_note)
qed

lemma pruneModel_raw:
  assumes "pruneModel cutoff b n (s, a, m) = ((s', a', m'), c)"
  shows "kin c m m' \<and> core s' = core s"
proof -
  obtain s1 a1 m1 c1 where p1: "pruneAccounting cutoff n (s, a, m) = ((s1, a1, m1), c1)" by (metis surj_pair)
  note r1 = pruneAccounting_raw [OF p1]
  define g where "g = (if time_IsZero cutoff then ((s1, a1, m1), mo_Details m1)
      else pruneDetails cutoff n (mo_Details m1) (s1, a1, m1))"
  obtain s2 a2 m2 ds where g: "g = ((s2, a2, m2), ds)" by (metis surj_pair)
  have g2: "\<exists>P. ds = filter P (mo_Details m)" "frame (s2, a2, m2) = frame (s1, a1, m1)"
      "mo_nextEventSequence m2 = mo_nextEventSequence m"
      "length ds = length (mo_Details m) \<Longrightarrow> mo_tally m2 = mo_tally m1"
  proof -
    show "\<exists>P. ds = filter P (mo_Details m)"
    proof (cases "time_IsZero cutoff")
      case True
      then have "ds = filter (\<lambda>_. True) (mo_Details m)" using g r1 by (simp add: g_def)
      then show ?thesis by blast
    next
      case False
      then show ?thesis using pruneDetails_raw [of cutoff n "mo_Details m1" "(s1, a1, m1)"] g r1 by (auto simp: g_def)
    qed
    show "frame (s2, a2, m2) = frame (s1, a1, m1)" "mo_nextEventSequence m2 = mo_nextEventSequence m"
      "length ds = length (mo_Details m) \<Longrightarrow> mo_tally m2 = mo_tally m1"
      using pruneDetails_raw [of cutoff n "mo_Details m1" "(s1, a1, m1)"] g r1 by (auto simp: g_def split: if_splits)
  qed
  have g': "(if time_IsZero cutoff then ((s1, a1, m1), mo_Details (snd (snd (s1, a1, m1))))
      else pruneDetails cutoff n (mo_Details (snd (snd (s1, a1, m1)))) (s1, a1, m1)) = ((s2, a2, m2), ds)"
    using g unfolding g_def snd_conv .
  have D2: "mo_Details m2 = mo_Details m" "mo_accounting m2 = mo_accounting m1" "core s2 = core s1"
    using g2(2) r1 by (simp_all add: frame_def)
  let ?ds = "if b then sort_key (\<lambda>d. t_ns (rd_Timestamp d)) ds else ds"
  let ?m = "m2\<lparr> mo_Details := ?ds \<rparr>"
  obtain m3 r where t: "trimModelDetailsLocked (rs_maxDetailsPerModel s2) ?m = (m3, r)" by (metis surj_pair)
  have res: "s' = s2\<lparr> rs_evictedTotal := rs_evictedTotal s2 + int r \<rparr>" "m' = m3"
    "c = (c1 \<or> length ds \<noteq> length (mo_Details m) \<or> b \<and> ?ds \<noteq> ds \<or> 0 < r)"
    using assms(1) unfolding pruneModel_def p1 prod.case g' by (auto simp: t Let_def D2 split: if_splits)
  obtain P where P: "ds = filter P (mo_Details m)" using g2(1) by blast
  have D3: "mo_Details m3 = drop r ?ds" "mo_tally m3 = mo_tally m2" "mo_nextEventSequence m3 = mo_nextEventSequence m"
    using trim_result [OF t] trim_next [OF t] g2(3) by simp_all
  have sub: "set (mo_Details m') \<subseteq> set (mo_Details m)"
    using set_drop_subset [of r ?ds] res(2) D3(1) P by (auto split: if_splits)
  have dist: "distinct (map rd_eventSequence (mo_Details m'))" if d: "distinct (map rd_eventSequence (mo_Details m))"
  proof -
    have "distinct (map rd_eventSequence ds)" unfolding P using d by (rule distinct_map_filter)
    then have "distinct (map rd_eventSequence ?ds)" by (auto simp: distinct_map)
    then show ?thesis by (simp add: res(2) D3(1) flip: drop_map)
  qed
  have same: "mo_Details m' = mo_Details m \<and> accountingCount m' = accountingCount m \<and> mo_tally m' = mo_tally m" if nc: "\<not> c"
  proof -
    have l: "\<not> c1" "length ds = length (mo_Details m)" "?ds = ds" "r = 0" using nc res(3) by auto
    have "ds = mo_Details m" using l(2) unfolding P by (metis filter_True length_filter_less less_irrefl)
    then have d': "mo_Details m' = mo_Details m" using D3(1) l res(2) by simp
    have "length (mo_accounting m3) = length (mo_accounting m2)" using trim_result(2) [OF t] l(4) by simp
    then have "length (mo_accounting m') = length (mo_accounting m)" using D2(2) r1 l(1) res(2) by simp
    moreover have "mo_tally m' = mo_tally m" using D3(2) g2(4) [OF l(2)] r1 l(1) res(2) by simp
    ultimately show ?thesis using d' by (simp add: accountingCount_def)
  qed
  have "core s' = core s" using res(1) D2(3) r1 by simp
  then show ?thesis using sub dist same D3(3) res(2) by (auto simp: kin_def)
qed

text \<open>A model that stays when nothing is removed.\<close>

definition in_use :: "modelStats \<Rightarrow> bool" where
  "in_use m \<longleftrightarrow> mo_Details m \<noteq> [] \<or> 0 < ta_TotalRequests (mo_tally m)"

definition models_kin :: "bool \<Rightarrow> (string, modelStats) gomap \<Rightarrow> (string, modelStats) gomap \<Rightarrow> bool" where
  "models_kin c ms ms' \<longleftrightarrow> set (go_keys ms') \<subseteq> set (go_keys ms) \<and> (go_wf ms \<longrightarrow> go_wf ms' \<and>
     (\<forall>n m'. go_get ms' n = Some m' \<longrightarrow> (\<exists>m. go_get ms n = Some m \<and> kin c m m')) \<and>
     (\<not> c \<longrightarrow> (\<forall>n m. go_get ms n = Some m \<longrightarrow> in_use m \<longrightarrow> go_get ms' n \<noteq> None)))"

lemma pruneModels_raw:
  assumes "pruneModels cutoff b ms s a = ((s', a', ms'), c)"
  shows "models_kin c ms ms' \<and> core s' = core s"
  using assms
proof (induction ms arbitrary: s a s' a' ms' c)
  case Nil
  then show ?case by (simp add: models_kin_def)
next
  case (Cons x ms)
  obtain n m where x: "x = (n, m)" by (cases x)
  obtain s1 a1 m1 c1 where p1: "pruneModel cutoff b n (s, a, m) = ((s1, a1, m1), c1)" by (metis surj_pair)
  obtain s2 a2 ms2 c2 where p2: "pruneModels cutoff b ms s1 a1 = ((s2, a2, ms2), c2)" by (metis surj_pair)
  let ?gone = "mo_Details m1 = [] \<and> ta_TotalRequests (mo_tally m1) \<le> 0"
  have r: "s' = s2" "ms' = (if ?gone then ms2 else (n, m1) # ms2)" "c = (c1 \<or> c2)"
    using Cons.prems(1) by (simp_all add: x p1 p2)
  have k1: "kin c m m1" "core s1 = core s" using pruneModel_raw [OF p1] kin_mono by (auto simp: r(3))
  have k2: "models_kin c2 ms ms2" "core s2 = core s1" using Cons.IH [OF p2] by auto
  have g: "\<not> c \<Longrightarrow> in_use m \<Longrightarrow> \<not> ?gone" using k1(1) by (auto simp: kin_def in_use_def)
  have kc: "kin c m0 m'" if "kin c2 m0 m'" for m0 m' using kin_mono [OF that, of c1] by (simp add: r(3) disj_commute)
  have "models_kin c (x # ms) ms'"
  proof (cases "go_wf (x # ms)")
    case False
    then show ?thesis using k2(1) by (auto simp: models_kin_def x r(2))
  next
    case True
    then have w: "go_wf ms" "n \<notin> set (go_keys ms)" by (simp_all add: x)
    have sub: "set (go_keys ms2) \<subseteq> set (go_keys ms)" and w2: "go_wf ms2"
      and k: "\<And>n m'. go_get ms2 n = Some m' \<Longrightarrow> \<exists>m. go_get ms n = Some m \<and> kin c2 m m'"
      and u: "\<And>n m. \<not> c2 \<Longrightarrow> go_get ms n = Some m \<Longrightarrow> in_use m \<Longrightarrow> go_get ms2 n \<noteq> None"
      using k2(1) w(1) unfolding models_kin_def by blast+
    have n2: "go_get ms2 n = None" using sub w(2) by (auto simp: map_of_eq_None_iff)
    have "\<exists>m0. go_get (x # ms) n' = Some m0 \<and> kin c m0 m'" if g': "go_get ms' n' = Some m'" for n' m'
    proof (cases "n' = n")
      case True
      then show ?thesis using g' k1(1) n2 by (simp add: r(2) x split: if_splits)
    next
      case False
      then have "go_get ms2 n' = Some m'" using g' by (simp add: r(2) split: if_splits)
      from k [OF this] show ?thesis using False kc by (auto simp: x)
    qed
    moreover have "go_get ms' n' \<noteq> None" if "\<not> c" "go_get (x # ms) n' = Some m0" "in_use m0" for n' m0
      using that g u by (auto simp: r(2,3) x split: if_splits)
    moreover have "go_wf ms'" "set (go_keys ms') \<subseteq> set (go_keys (x # ms))"
      using w2 w sub by (auto simp: r(2) x)
    ultimately show ?thesis unfolding models_kin_def by blast
  qed
  then show ?case using k1(2) k2(2) by (simp add: r(1))
qed

definition apis_kin :: "bool \<Rightarrow> ledger_apis \<Rightarrow> ledger_apis \<Rightarrow> bool" where
  "apis_kin c apis apis' \<longleftrightarrow> set (go_keys apis') \<subseteq> set (go_keys apis) \<and> (go_wf apis \<longrightarrow> go_wf apis' \<and>
     (\<forall>k a'. go_get apis' k = Some a' \<longrightarrow> (\<exists>a. go_get apis k = Some a \<and> models_kin c (as_Models a) (as_Models a'))) \<and>
     (\<not> c \<longrightarrow> (\<forall>k a n m. go_get apis k = Some a \<longrightarrow> go_wf (as_Models a) \<longrightarrow> go_get (as_Models a) n = Some m \<longrightarrow> in_use m \<longrightarrow>
        go_get apis' k \<noteq> None)))"

lemma models_kin_mono: "models_kin c ms ms' \<Longrightarrow> models_kin (c \<or> c') ms ms'"
  unfolding models_kin_def using kin_mono by metis

lemma pruneAPIs_raw:
  assumes "pruneAPIs cutoff b apis s = ((s', apis'), c)"
  shows "apis_kin c apis apis' \<and> core s' = core s"
  using assms
proof (induction apis arbitrary: s s' apis' c)
  case Nil
  then show ?case by (simp add: apis_kin_def)
next
  case (Cons x apis)
  obtain k a where x: "x = (k, a)" by (cases x)
  obtain s1 a1 ms c1 where p1: "pruneModels cutoff b (as_Models a) s a = ((s1, a1, ms), c1)" by (metis surj_pair)
  obtain s2 apis2 c2 where p2: "pruneAPIs cutoff b apis s1 = ((s2, apis2), c2)" by (metis surj_pair)
  let ?a = "a1\<lparr> as_Models := ms \<rparr>"
  let ?gone = "ms = [] \<and> ta_TotalRequests (as_tally a1) \<le> 0"
  have r: "s' = s2" "apis' = (if ?gone then apis2 else (k, ?a) # apis2)" "c = (c1 \<or> c2)"
    using Cons.prems(1) by (simp_all add: x p1 p2 Let_def)
  have k1: "models_kin c (as_Models a) ms" "models_kin c1 (as_Models a) ms" "core s1 = core s"
    using pruneModels_raw [OF p1] models_kin_mono by (auto simp: r(3))
  have k2: "apis_kin c2 apis apis2" "core s2 = core s1" using Cons.IH [OF p2] by auto
  have mc: "models_kin c ms0 ms'" if "models_kin c2 ms0 ms'" for ms0 ms'
    using models_kin_mono [OF that, of c1] by (simp add: r(3) disj_commute)
  have "apis_kin c (x # apis) apis'"
  proof (cases "go_wf (x # apis)")
    case False
    then show ?thesis using k2(1) by (auto simp: apis_kin_def x r(2))
  next
    case True
    then have w: "go_wf apis" "k \<notin> set (go_keys apis)" by (simp_all add: x)
    have sub: "set (go_keys apis2) \<subseteq> set (go_keys apis)" and w2: "go_wf apis2"
      and kk: "\<And>k a'. go_get apis2 k = Some a' \<Longrightarrow> \<exists>a. go_get apis k = Some a \<and> models_kin c2 (as_Models a) (as_Models a')"
      and u: "\<And>k a n m. \<not> c2 \<Longrightarrow> go_get apis k = Some a \<Longrightarrow> go_wf (as_Models a) \<Longrightarrow> go_get (as_Models a) n = Some m \<Longrightarrow>
        in_use m \<Longrightarrow> go_get apis2 k \<noteq> None"
      using k2(1) w(1) unfolding apis_kin_def by blast+
    have n2: "go_get apis2 k = None" using sub w(2) by (auto simp: map_of_eq_None_iff)
    have "\<exists>a0. go_get (x # apis) k' = Some a0 \<and> models_kin c (as_Models a0) (as_Models a')"
      if g': "go_get apis' k' = Some a'" for k' a'
    proof (cases "k' = k")
      case True
      then show ?thesis using g' k1(1) n2 by (auto simp: r(2) x split: if_splits)
    next
      case False
      then have "go_get apis2 k' = Some a'" using g' by (simp add: r(2) split: if_splits)
      from kk [OF this] show ?thesis using False mc by (auto simp: x)
    qed
    moreover have "go_get apis' k' \<noteq> None"
      if "\<not> c" "go_get (x # apis) k' = Some a0" "go_wf (as_Models a0)" "go_get (as_Models a0) n = Some m" "in_use m" for k' a0 n m
    proof (cases "k' = k")
      case True
      then have "ms \<noteq> []" using that k1(2) by (auto simp: x r(3) models_kin_def)
      then show ?thesis using True by (simp add: r(2))
    next
      case False
      then show ?thesis using that u by (auto simp: x r(2,3))
    qed
    moreover have "go_wf apis'" "set (go_keys apis') \<subseteq> set (go_keys (x # apis))"
      using w2 w sub by (auto simp: r(2) x)
    ultimately show ?thesis unfolding apis_kin_def by blast
  qed
  then show ?case using k1(3) k2(2) by (simp add: r(1))
qed

section \<open>The indexes after a removal\<close>

text \<open>The counters know of every retained detail; a consistent ledger (\<open>ledger_ok\<close>) has this.\<close>

definition counted_models :: "ledger_apis \<Rightarrow> bool" where
  "counted_models apis \<longleftrightarrow> (\<forall>a n m. model_at apis a n = Some m \<longrightarrow> 0 < accountingCount m \<longrightarrow> 0 < ta_TotalRequests (mo_tally m))"

lemma ledger_ok_counted: "ledger_ok s \<Longrightarrow> counted_models (rs_apis s)"
  unfolding counted_models_def
proof (intro allI impI)
  fix a n m assume ok: "ledger_ok s" and m: "model_at (rs_apis s) a n = Some m" "0 < accountingCount m"
  obtain A where A: "go_get (rs_apis s) a = Some A" "go_get (as_Models A) n = Some m"
    using m(1) by (auto simp: model_at_def split: option.splits)
  have "apiStats_ok A" using ok map_of_SomeD [OF A(1)] by (auto simp: ledger_ok_def list_all_iff)
  then have "model_ok m (retained m)"
    using map_of_SomeD [OF A(2)] by (auto simp: apiStats_ok_def models_ok_def list_all_iff)
  moreover have "retained m \<noteq> {#}"
  proof -
    have "size (retained m) = accountingCount m" by (simp add: retained_def)
    then show ?thesis using m(2) by auto
  qed
  ultimately show "0 < ta_TotalRequests (mo_tally m)" using model_gone by fastforce
qed

lemma apis_kin_ok:
  assumes "apis_kin c apis apis'" "apis_ok apis"
  shows "apis_ok apis'"
    "model_at apis' a n = Some m' \<Longrightarrow> \<exists>m. model_at apis a n = Some m \<and> kin c m m'"
    "\<not> c \<Longrightarrow> model_at apis a n = Some m \<Longrightarrow> in_use m \<Longrightarrow> model_at apis' a n \<noteq> None"
proof -
  have w: "go_wf apis" "\<And>k A. go_get apis k = Some A \<Longrightarrow> go_wf (as_Models A)"
    using assms(2) map_of_SomeD unfolding apis_ok_def by fast+
  have w': "go_wf apis'"
    and k: "\<And>k a'. go_get apis' k = Some a' \<Longrightarrow> \<exists>a. go_get apis k = Some a \<and> models_kin c (as_Models a) (as_Models a')"
    and u: "\<And>k a n m. \<not> c \<Longrightarrow> go_get apis k = Some a \<Longrightarrow> go_wf (as_Models a) \<Longrightarrow> go_get (as_Models a) n = Some m \<Longrightarrow>
        in_use m \<Longrightarrow> go_get apis' k \<noteq> None"
    using assms(1) w(1) unfolding apis_kin_def by blast+
  have m: "\<exists>m. model_at apis a n = Some m \<and> kin c m m'" if at': "model_at apis' a n = Some m'" for a n m'
  proof -
    obtain A' where A': "go_get apis' a = Some A'" "go_get (as_Models A') n = Some m'"
      using at' by (auto simp: model_at_def split: option.splits)
    obtain A where A: "go_get apis a = Some A" "models_kin c (as_Models A) (as_Models A')" using k [OF A'(1)] by blast
    then show ?thesis using A'(2) w(2) [OF A(1)] by (auto simp: models_kin_def model_at_def)
  qed
  show "model_at apis' a n = Some m' \<Longrightarrow> \<exists>m. model_at apis a n = Some m \<and> kin c m m'" by (rule m)
  have g: "go_wf (as_Models A')" if "go_get apis' a = Some A'" for a A'
    using k [OF that] w(2) by (auto simp: models_kin_def)
  have "\<forall>(api, a)\<in>set apis'. go_wf (as_Models a)"
    unfolding gomap_all [OF w', of "\<lambda>_ a. go_wf (as_Models a)"] using g by blast
  moreover have "seq_ok m'" if "model_at apis' a n = Some m'" for a n m'
    using m [OF that] apis_okD [OF assms(2)] kin_seq_ok by blast
  ultimately show "apis_ok apis'" using w' by (simp add: apis_ok_def)
  show "\<not> c \<Longrightarrow> model_at apis a n = Some m \<Longrightarrow> in_use m \<Longrightarrow> model_at apis' a n \<noteq> None"
  proof -
    assume a: "\<not> c" "model_at apis a n = Some m" "in_use m"
    obtain A where A: "go_get apis a = Some A" "go_get (as_Models A) n = Some m"
      using a(2) by (auto simp: model_at_def split: option.splits)
    have wA: "go_wf (as_Models A)" by (rule w(2) [OF A(1)])
    obtain A' where A': "go_get apis' a = Some A'" using u [OF a(1) A(1) wA A(2) a(3)] by blast
    obtain A0 where "go_get apis a = Some A0" "models_kin c (as_Models A0) (as_Models A')" using k [OF A'] by blast
    then have "models_kin c (as_Models A) (as_Models A')" using A(1) by simp
    then show "model_at apis' a n \<noteq> None"
      using a(1,3) A(2) A' wA unfolding models_kin_def model_at_def by auto
  qed
qed

lemma unchanged_follows:
  assumes k: "apis_kin False apis apis'" and wf: "apis_ok apis" and cm: "counted_models apis"
  shows "refs_follow apis apis'" "selection_follows apis apis' []"
    "issued apis r \<Longrightarrow> ref_detail apis' r = ref_detail apis r"
proof -
  note kk = apis_kin_ok [OF k wf]
  have st: "\<exists>m'. model_at apis' a n = Some m' \<and> mo_Details m' = mo_Details m \<and> accountingCount m' = accountingCount m \<and>
      mo_nextEventSequence m' = mo_nextEventSequence m" if at': "model_at apis a n = Some m" "0 < accountingCount m" for a n m
  proof -
    have "in_use m" using cm at' by (auto simp: counted_models_def in_use_def)
    then obtain m' where m': "model_at apis' a n = Some m'" using kk(3) [OF _ at'(1)] by blast
    then obtain m0 where "model_at apis a n = Some m0" "kin False m0 m'" using kk(2) by blast
    then show ?thesis using m' at'(1) by (auto simp: kin_def)
  qed
  have i: "issued apis' r \<and> ref_detail apis' r = ref_detail apis r" if "issued apis r" for r
  proof -
    obtain a n q where rr: "r = (a, n, q)" by (cases r)
    obtain m where m: "model_at apis a n = Some m" "0 < q" "q \<le> mo_nextEventSequence m" "0 < accountingCount m"
      using \<open>issued apis r\<close> by (auto simp: rr issued_def)
    obtain m' where "model_at apis' a n = Some m'" "mo_Details m' = mo_Details m" "accountingCount m' = accountingCount m"
      "mo_nextEventSequence m' = mo_nextEventSequence m" using st [OF m(1,4)] by blast
    then show ?thesis using m by (simp add: rr issued_def ref_detail_at)
  qed
  then show "issued apis r \<Longrightarrow> ref_detail apis' r = ref_detail apis r" by blast
  show "refs_follow apis apis'" unfolding refs_follow_def using i same_place_refl by (metis option.exhaust)
  have nb: "numbered apis' k" if "numbered apis k" for k
    using that kk(2) unfolding numbered_def kin_def by metis
  have "selected apis' k \<subseteq> selected apis k" for k
  proof
    fix r assume "r \<in> selected apis' k"
    then obtain a n m' d where r: "r = (a, n, rd_eventSequence d)" "model_at apis' a n = Some m'" "mo_nextEventSequence m' \<noteq> 0"
      "d \<in> set (mo_Details m')" "selects k a n d" by (auto simp: selected_def)
    obtain m where "model_at apis a n = Some m" "kin False m m'" using kk(2) [OF r(2)] by blast
    then show "r \<in> selected apis k" using r by (auto simp: selected_def kin_def)
  qed
  moreover have "r \<in> selected apis' k" if s: "r \<in> selected apis k" for r k
  proof -
    obtain a n m d where r: "r = (a, n, rd_eventSequence d)" "model_at apis a n = Some m" "mo_nextEventSequence m \<noteq> 0"
      "d \<in> set (mo_Details m)" "selects k a n d" using s by (auto simp: selected_def)
    have "0 < accountingCount m" using length_pos_if_in_set [OF r(4)] by (simp add: accountingCount_def)
    from st [OF r(2) this] show ?thesis using r by (auto simp: selected_def)
  qed
  ultimately have "selected apis' k = selected apis k" for k by blast
  moreover have "ref_detail apis' r \<noteq> None" if "r \<in> selected apis k" for r k
    using i [OF selected_issued [OF wf that]] selected_live [OF wf that] by simp
  ultimately show "selection_follows apis apis' []" unfolding selection_follows_def using nb by auto
qed

lemma prune_keeps:
  assumes ok: "event_state_ok st" and cm: "counted_models (rs_apis (es_stats st))"
  shows "event_state_ok (pruneEvents now b st)"
proof -
  let ?s = "es_stats st" and ?ei = "es_index st"
  have wf: "apis_ok (rs_apis ?s)" and io: "indexes_ok (rs_apis ?s) ?ei" using ok by (simp_all add: event_state_ok_def)
  obtain s1 apis c where p: "pruneAPIs (prune_cutoff now ?s) b (rs_apis ?s) (?s\<lparr> rs_nextDetailExpiry := zero_time \<rparr>) = ((s1, apis), c)"
    by (metis surj_pair)
  have k: "apis_kin c (rs_apis ?s) apis" "core s1 = core ?s" using pruneAPIs_raw [OF p] by simp_all
  have v1: "rs_summaryVersion s1 = rs_summaryVersion ?s"
  proof -
    have "rs_summaryVersion (core s1) = rs_summaryVersion (core ?s)" using k(2) by simp
    then show ?thesis by (simp add: core_def)
  qed
  let ?s' = "pruneLocked now b ?s"
  have a': "rs_apis ?s' = apis" by (simp add: pruneLocked_def p invalidateCachedResponsesLocked_def Let_def)
  have v: "rs_summaryVersion ?s' \<noteq> rs_summaryVersion ?s \<longleftrightarrow> c"
    by (simp add: pruneLocked_def p invalidateCachedResponsesLocked_def Let_def v1)
  have wf': "apis_ok apis" by (rule apis_kin_ok(1) [OF k(1) wf])
  show ?thesis
  proof (cases c)
    case True
    then show ?thesis using wf' v a' by (simp add: pruneEvents_def event_state_ok_def Let_def)
  next
    case False
    then have k': "apis_kin False (rs_apis ?s) apis" using k(1) by simp
    note uf = unchanged_follows [OF k' wf cm]
    have "indexes_ok apis ?ei"
      by (rule indexes_ok_step [OF io wf' uf(1,2)]) (use uf(3) in simp_all)
    then show ?thesis using False wf' v a' by (simp add: pruneEvents_def event_state_ok_def Let_def)
  qed
qed

lemma prune_expired_keeps:
  "event_state_ok st \<Longrightarrow> counted_models (rs_apis (es_stats st)) \<Longrightarrow> event_state_ok (pruneExpiredEvents now st)"
  by (simp add: pruneExpiredEvents_def Let_def prune_keeps)

lemma invalidate_keeps:
  assumes "event_state_ok st"
  shows "event_state_ok (invalidate_responses st)" "event_state_ok (invalidateSummaryLocked st)"
  using assms by (simp_all add: event_state_ok_def invalidateSummaryLocked_def Let_def)

end
