(* ===== verification/EventListing.thy ===== *)
theory EventListing
  imports EventRemoval
begin

text \<open>
  What a query sees: the index it gets is the scan of the visible details in listing order,
  whatever was recorded, trimmed, removed and queried before.
\<close>

section \<open>Merging the queue\<close>

lemma map_of_map_key: "go_get (map (\<lambda>(k, v). (k, f k v)) m) k = map_option (f k) (go_get m k)"
  by (induction m) auto

text \<open>The indexes after the merge loop of \<open>applyDashboardEventUpdatesLocked\<close>.\<close>

definition merged :: "RequestStatistics \<Rightarrow> eventIndexes \<Rightarrow> eventIndexes" where
  "merged s ei = (let apis = rs_apis s; pending = sort_events apis (ei_pending ei)
     in ei\<lparr> ei_all := map_option (\<lambda>es. mergeDashboardEventIndex apis es pending (\<lambda>_. True)) (ei_all ei),
            ei_API := merge_indexes apis pending ed_upstreamAPI (ei_API ei),
            ei_Model := merge_indexes apis pending (dashboardEventModelKey apis) (ei_Model ei),
            ei_Source := merge_indexes apis pending (dashboardEventSourceKey apis) (ei_Source ei),
            ei_Auth := merge_indexes apis pending (dashboardEventAuthKey apis) (ei_Auth ei),
            ei_pending := [], ei_dirty := False \<rparr>)"

lemma apply_merged:
  "applyDashboardEventUpdatesLocked fits s ei =
     (if \<not> ei_dirty ei then ei
      else if \<not> fits (merged s ei) [] then (clearDashboardEventIndexesLocked (merged s ei))\<lparr> ei_version := rs_summaryVersion s \<rparr>
      else merged s ei)"
  by (simp add: applyDashboardEventUpdatesLocked_def merged_def Let_def)

lemma event_matches_funs:
  "event_matches apis AllEvents = (\<lambda>_. True)" "event_matches apis (OfAPI x) = (\<lambda>e. ed_upstreamAPI e = x)"
  "event_matches apis (OfModel x) = (\<lambda>e. dashboardEventModelKey apis e = x)"
  "event_matches apis (OfSource x) = (\<lambda>e. dashboardEventSourceKey apis e = x)"
  "event_matches apis (OfAuth x) = (\<lambda>e. dashboardEventAuthKey apis e = x)"
  by (simp_all add: fun_eq_iff event_matches_def)

lemma merged_lookup:
  "event_index_lookup (merged s ei) k =
     map_option (\<lambda>es. mergeDashboardEventIndex (rs_apis s) es (sort_events (rs_apis s) (ei_pending ei)) (event_matches (rs_apis s) k))
       (event_index_lookup ei k)"
  by (cases k) (simp_all add: event_index_lookup_def merged_def merge_indexes_def map_of_map_key event_matches_funs Let_def)

lemma merged_fields [simp]:
  "ei_pending (merged s ei) = []" "ei_dirty (merged s ei) = False" "ei_refs (merged s ei) = ei_refs ei"
  by (simp_all add: merged_def Let_def)

lemma filter_sort_events: "filter P (sort_events apis es) = sort_events apis (filter P es)"
  by (simp add: sort_events_def filter_sort)

lemma merge_events_ok:
  assumes i: "event_index_ok apis ei k es" and ev: "events_ok apis (ei_refs ei) (ei_pending ei)"
    and d: "distinct (filter (live apis) (ei_pending ei))"
  defines "es' \<equiv> mergeDashboardEventIndex apis es (sort_events apis (ei_pending ei)) (event_matches apis k)"
  shows "events_ok apis (ei_refs ei) es'" "in_order apis es'" "distinct es'" "live_refs apis es' = selected apis k"
    "\<forall>e\<in>set es'. live apis e"
proof -
  let ?p = "ei_pending ei"
  have s: "set es' = {e \<in> set es. live apis e} \<union> {e \<in> set ?p. live apis e \<and> event_matches apis k e}"
    unfolding es'_def set_merge_index by simp
  show "\<forall>e\<in>set es'. live apis e" using s by blast
  have evs: "events_ok apis (ei_refs ei) es" and o: "in_order apis (filter (live apis) es)"
    and ds: "distinct (filter (live apis) es)"
    and u: "live_refs apis es \<union> live_refs apis (filter (event_matches apis k) ?p) = selected apis k"
    and dj: "live_refs apis es \<inter> live_refs apis ?p = {}"
    using i unfolding event_index_ok_def by blast+
  show "events_ok apis (ei_refs ei) es'" using evs ev unfolding events_ok_def s by blast
  show "in_order apis es'" unfolding es'_def by (rule in_order_merge_index [OF o in_order_sort])
  have "distinct (filter (\<lambda>e. live apis e \<and> event_matches apis k e) (sort_events apis ?p))"
  proof -
    have "distinct (filter (event_matches apis k) (filter (live apis) ?p))" by (rule distinct_filter [OF d])
    then show ?thesis by (simp add: filter_sort_events conj_commute)
  qed
  moreover have "\<not> event_matches apis k e" if e: "e \<in> set es" "e \<in> set ?p" "live apis e" for e
  proof -
    obtain r where r: "e = event_of r" using events_okD [OF evs e(1)] by blast
    then have "r \<in> live_refs apis es \<inter> live_refs apis ?p" using e by (auto simp: live_refs_def)
    then show ?thesis using dj by blast
  qed
  ultimately show "distinct es'" unfolding es'_def distinct_merge_index using ds by auto
  show "live_refs apis es' = selected apis k"
    unfolding u [symmetric] live_refs_def s by auto
qed

text \<open>After a refresh nothing is queued and no index has an event whose detail is gone.\<close>

lemma refresh_ok:
  assumes wf: "apis_ok (rs_apis s)" and ok: "indexes_ok (rs_apis s) ei"
    and ei'_def: "ei' = refreshDashboardEventIndexesLocked fits s ei"
  shows "indexes_ok (rs_apis s) ei'" "\<not> ei_dirty ei'" "ei_pending ei' = []"
proof -
  define ei1 where "ei1 = (if ei_version ei \<noteq> rs_summaryVersion s
                then (clearDashboardEventIndexesLocked ei)\<lparr> ei_version := rs_summaryVersion s \<rparr> else ei)"
  have ok1: "indexes_ok (rs_apis s) ei1" using ok by (simp add: ei1_def)
  have e: "ei' = applyDashboardEventUpdatesLocked fits s ei1"
    unfolding ei'_def refreshDashboardEventIndexesLocked_def ei1_def Let_def ..
  have m: "indexes_ok (rs_apis s) (merged s ei1)"
  proof -
    have "event_index_ok (rs_apis s) (merged s ei1) k es'" if l: "event_index_lookup (merged s ei1) k = Some es'" for k es'
    proof -
      obtain es where es: "event_index_lookup ei1 k = Some es"
        "es' = mergeDashboardEventIndex (rs_apis s) es (sort_events (rs_apis s) (ei_pending ei1)) (event_matches (rs_apis s) k)"
        using l unfolding merged_lookup by auto
      have i: "event_index_ok (rs_apis s) ei1 k es" "events_ok (rs_apis s) (ei_refs ei1) (ei_pending ei1)"
        "distinct (filter (live (rs_apis s)) (ei_pending ei1))"
        using ok1 es(1) unfolding indexes_ok_def by blast+
      note mo = merge_events_ok [OF i, folded es(2)]
      have nb: "numbered (rs_apis s) k" using i(1) by (simp add: event_index_ok_def)
      show ?thesis
        using mo nb in_order_filter [OF mo(2)] distinct_filter [OF mo(3)]
        unfolding event_index_ok_def merged_fields by (simp add: live_refs_def)
    qed
    then show ?thesis by (simp add: indexes_ok_def events_ok_def)
  qed
  have nd: "ei_pending ei1 = []" if "\<not> ei_dirty ei1" using ok1 that by (simp add: indexes_ok_def)
  show "indexes_ok (rs_apis s) ei'" "\<not> ei_dirty ei'" "ei_pending ei' = []"
    unfolding e apply_merged using ok1 m nd by simp_all
qed

section \<open>Building an index\<close>

lemma initialize_nth:
  "i < length (mo_Details m) \<Longrightarrow> \<exists>q. mo_Details (initializeEventSequences m) ! i = (mo_Details m ! i)\<lparr> rd_eventSequence := q \<rparr>"
proof (cases "mo_nextEventSequence m = 0")
  case True
  assume "i < length (mo_Details m)"
  then show ?thesis using True by (auto simp: initializeEventSequences_def)
next
  case False
  then have "mo_Details (initializeEventSequences m) ! i = (mo_Details m ! i)\<lparr> rd_eventSequence := rd_eventSequence (mo_Details m ! i) \<rparr>"
    by (simp add: initializeEventSequences_def)
  then show ?thesis by blast
qed

lemma initialize_idem [simp]: "initializeEventSequences (initializeEventSequences m) = initializeEventSequences m"
  by (cases "mo_Details m = []") (auto simp: initializeEventSequences_def)

text \<open>A predicate on details that does not look at the sequence number.\<close>

definition blind :: "(string \<Rightarrow> RequestDetail \<Rightarrow> bool) \<Rightarrow> bool" where
  "blind wanted \<longleftrightarrow> (\<forall>n d q. wanted n (d\<lparr> rd_eventSequence := q \<rparr>) = wanted n d)"

definition touched :: "(string \<Rightarrow> RequestDetail \<Rightarrow> bool) \<Rightarrow> string \<Rightarrow> modelStats \<Rightarrow> modelStats" where
  "touched wanted n m = (if \<exists>d\<in>set (mo_Details m). wanted n d then initializeEventSequences m else m)"

definition model_events :: "(string \<Rightarrow> RequestDetail \<Rightarrow> bool) \<Rightarrow> string \<Rightarrow> string \<Rightarrow> modelStats \<Rightarrow> dashboardEventDetail list" where
  "model_events wanted api n m =
     map (\<lambda>d. event_of (api, n, rd_eventSequence d)) (filter (wanted n) (mo_Details (initializeEventSequences m)))"

lemma append_model_events_result:
  assumes "blind wanted"
  shows "append_model_events wanted api n m = (touched wanted n m, model_events wanted api n m)"
proof -
  let ?ds = "mo_Details m" and ?m' = "initializeEventSequences m"
  define F where "F = (\<lambda>i (m, events). if wanted n (mo_Details m ! i)
             then (case eventAt api n i m of (m, e) \<Rightarrow> (m, events @ [e])) else (m, events))"
  have w: "wanted n (mo_Details ?m' ! i) = wanted n (?ds ! i)" if "i < length ?ds" for i
    using initialize_nth [OF that] assms by (auto simp: blind_def)
  have "fold F [0..<j] (m, []) =
      (if \<exists>i<j. wanted n (?ds ! i) then ?m' else m,
       map (\<lambda>d. event_of (api, n, rd_eventSequence d)) (filter (wanted n) (take j (mo_Details ?m'))))" if "j \<le> length ?ds" for j
    using that
  proof (induction j)
    case (Suc j)
    then have j: "j < length ?ds" by simp
    let ?c = "if \<exists>i<j. wanted n (?ds ! i) then ?m' else m"
    have t: "take (Suc j) (mo_Details ?m') = take j (mo_Details ?m') @ [mo_Details ?m' ! j]"
      using j by (simp add: take_Suc_conv_app_nth)
    have c: "wanted n (mo_Details ?c ! j) = wanted n (?ds ! j)" "initializeEventSequences ?c = ?m'" using w [OF j] by auto
    have ex: "(\<exists>i<Suc j. wanted n (?ds ! i)) \<longleftrightarrow> wanted n (?ds ! j) \<or> (\<exists>i<j. wanted n (?ds ! i))"
      by (auto simp: less_Suc_eq)
    show ?case
      using Suc.IH j c w [OF j] by (auto simp: F_def eventAt_def t ex Let_def)
  qed simp
  from this [of "length ?ds"] show ?thesis
    unfolding append_model_events_def F_def [symmetric] touched_def model_events_def
    by (simp add: in_set_conv_nth Bex_def) (auto simp: in_set_conv_nth)
qed

lemma append_api_events_result:
  assumes "blind wanted"
  shows "append_api_events wanted api ms =
    (map (\<lambda>(n, m). (n, touched wanted n m)) ms, concat (map (\<lambda>(n, m). model_events wanted api n m) ms))"
  by (induction ms) (auto simp: append_model_events_result [OF assms])

lemma selects_blind: "blind (\<lambda>n. selects k a n)"
  by (simp add: blind_def selects_def dashboardEventDetailModelKey_def dashboardEventDetailSourceKey_def
      dashboardEventDetailAuthKey_def split: index_key.split)

text \<open>The build of the index \<open>k\<close>, before the sort.\<close>

definition scan_build :: "index_key \<Rightarrow> ledger_apis \<Rightarrow> ledger_apis \<times> dashboardEventDetail list" where
  "scan_build k apis = (map (\<lambda>(a, A). (a, A\<lparr> as_Models := map (\<lambda>(n, m). (n, touched (selects k a) n m)) (as_Models A) \<rparr>)) apis,
     concat (map (\<lambda>(a, A). concat (map (\<lambda>(n, m). model_events (selects k a) a n m) (as_Models A))) apis))"

lemma collect_events_result:
  assumes "\<And>a A. app a A = (case append_api_events (selects k a) a (as_Models A) of (ms, es) \<Rightarrow> (A\<lparr> as_Models := ms \<rparr>, es))"
  shows "collect_events app apis = scan_build k apis"
  by (induction apis) (auto simp: scan_build_def assms append_api_events_result [OF selects_blind])

lemma build_all: "buildDashboardEventIndex apis = sorted_index (scan_build AllEvents apis)"
  unfolding buildDashboardEventIndex_def
proof (subst collect_events_result [of _ AllEvents])
  have "selects AllEvents a = (\<lambda>_ _. True)" for a by (simp add: fun_eq_iff selects_def)
  then show "appendDashboardEventIndexForAPI a A =
      (case append_api_events (selects AllEvents a) a (as_Models A) of (ms, es) \<Rightarrow> (A\<lparr> as_Models := ms \<rparr>, es))" for a A
    by (simp add: appendDashboardEventIndexForAPI_def)
qed simp

lemma build_filter:
  "buildDashboardEventIndexForFilter dashboardEventIndexFilterModel v apis = sorted_index (scan_build (OfModel v) apis)"
  "buildDashboardEventIndexForFilter dashboardEventIndexFilterSource v apis = sorted_index (scan_build (OfSource v) apis)"
  "buildDashboardEventIndexForFilter dashboardEventIndexFilterAuth v apis = sorted_index (scan_build (OfAuth v) apis)"
proof -
  have e: "selects (OfModel v) a = (\<lambda>model d. dashboardEventIndexFilterMatches d model dashboardEventIndexFilterModel v)"
    "selects (OfSource v) a = (\<lambda>model d. dashboardEventIndexFilterMatches d model dashboardEventIndexFilterSource v)"
    "selects (OfAuth v) a = (\<lambda>model d. dashboardEventIndexFilterMatches d model dashboardEventIndexFilterAuth v)" for a
    by (simp_all add: fun_eq_iff dashboardEventIndexFilterMatches_def selects_def)
  have c: "collect_events (appendDashboardEventIndexForFilter dashboardEventIndexFilterModel v) apis = scan_build (OfModel v) apis"
    "collect_events (appendDashboardEventIndexForFilter dashboardEventIndexFilterSource v) apis = scan_build (OfSource v) apis"
    "collect_events (appendDashboardEventIndexForFilter dashboardEventIndexFilterAuth v) apis = scan_build (OfAuth v) apis"
    by (rule collect_events_result; simp only: appendDashboardEventIndexForFilter_def e)+
  show
    "buildDashboardEventIndexForFilter dashboardEventIndexFilterModel v apis = sorted_index (scan_build (OfModel v) apis)"
    "buildDashboardEventIndexForFilter dashboardEventIndexFilterSource v apis = sorted_index (scan_build (OfSource v) apis)"
    "buildDashboardEventIndexForFilter dashboardEventIndexFilterAuth v apis = sorted_index (scan_build (OfAuth v) apis)"
    by (simp_all only: buildDashboardEventIndexForFilter_def c)
qed

text \<open>The scan of one API only touches that API.\<close>

lemma map_put_self:
  assumes "go_wf m" "go_get m k = Some v"
  shows "map (\<lambda>(x, y). (x, if x = k then f y else y)) m = go_put k (f v) m"
  using assms
proof (induction m)
  case (Cons x m)
  obtain a b where x: "x = (a, b)" by (cases x)
  show ?case
  proof (cases "a = k")
    case True
    then have "map (\<lambda>(x, y). (x, if x = k then f y else y)) m = m"
      using Cons.prems(1) by (intro map_idI) (force simp: x)
    then show ?thesis using True Cons.prems by (simp add: x)
  next
    case False
    then show ?thesis using Cons by (simp add: x)
  qed
qed simp

lemma concat_one_key:
  "go_wf m \<Longrightarrow> concat (map (\<lambda>(x, y). if x = k then g y else []) m) = (case go_get m k of None \<Rightarrow> [] | Some y \<Rightarrow> g y)"
proof (induction m)
  case (Cons x m)
  obtain a b where x: "x = (a, b)" by (cases x)
  have "go_get m k = None" if "a = k" using Cons.prems that by (auto simp: x map_of_eq_None_iff)
  then show ?case using Cons by (auto simp: x)
qed simp

lemma touched_none [simp]: "touched (\<lambda>n d. False) n m = m" "model_events (\<lambda>n d. False) a n m = []"
  by (simp_all add: touched_def model_events_def)

lemma build_api:
  assumes "go_wf apis"
  shows "buildDashboardEventIndexForAPI api apis = sorted_index (scan_build (OfAPI api) apis)"
proof -
  let ?f = "\<lambda>A. A\<lparr> as_Models := map (\<lambda>(n, m). (n, touched (\<lambda>_ _. True) n m)) (as_Models A) \<rparr>"
  let ?g = "\<lambda>A. concat (map (\<lambda>(n, m). model_events (\<lambda>_ _. True) api n m) (as_Models A))"
  have sel: "selects (OfAPI api) a = (if a = api then (\<lambda>_ _. True) else (\<lambda>_ _. False))" for a
    by (auto simp: fun_eq_iff selects_def)
  have f: "A\<lparr> as_Models := map (\<lambda>(n, m). (n, touched (selects (OfAPI api) a) n m)) (as_Models A) \<rparr> = (if a = api then ?f A else A)"
    and g: "concat (map (\<lambda>(n, m). model_events (selects (OfAPI api) a) a n m) (as_Models A)) = (if a = api then ?g A else [])" for a A
    by (simp_all add: sel case_prod_unfold)
  have sb: "scan_build (OfAPI api) apis =
      (map (\<lambda>(x, y). (x, if x = api then ?f y else y)) apis, concat (map (\<lambda>(x, y). if x = api then ?g y else []) apis))"
    unfolding scan_build_def f g ..
  have cat: "concat (map (\<lambda>(x, y). if x = api then ?g y else []) apis) = (case go_get apis api of None \<Rightarrow> [] | Some A \<Rightarrow> ?g A)"
    by (rule concat_one_key [OF assms])
  show ?thesis
  proof (cases "go_get apis api")
    case None
    then have "map (\<lambda>(x, y). (x, if x = api then ?f y else y)) apis = apis"
      by (intro map_idI) (force simp: map_of_eq_None_iff)
    then show ?thesis unfolding buildDashboardEventIndexForAPI_def sb cat None by simp
  next
    case (Some A)
    have "blind (\<lambda>_ _. True)" by (simp add: blind_def)
    note r = append_api_events_result [OF this, of api "as_Models A"]
    show ?thesis
      using Some cat map_put_self [OF assms Some, of ?f]
      by (simp add: buildDashboardEventIndexForAPI_def sb appendDashboardEventIndexForAPI_def r)
  qed
qed


section \<open>The scan\<close>

text \<open>The visible details that an index is about, with the events they become.\<close>

definition visible_events :: "index_key \<Rightarrow> ledger_apis \<Rightarrow> (dashboardEventDetail \<times> RequestDetail) list" where
  "visible_events k apis = concat (map (\<lambda>(a, A). concat (map (\<lambda>(n, m).
     map (\<lambda>d. (event_of (a, n, rd_eventSequence d), d)) (filter (selects k a n) (mo_Details m))) (as_Models A))) apis)"

lemma distinct_concat_keys:
  assumes "go_wf m" "\<And>k v. (k, v) \<in> set m \<Longrightarrow> distinct (f k v)" "\<And>k v x. x \<in> set (f k v) \<Longrightarrow> key x = k"
  shows "distinct (concat (map (\<lambda>(k, v). f k v) m))"
  using assms(1,2)
proof (induction m)
  case (Cons x m)
  obtain a b where x: "x = (a, b)" by (cases x)
  have "set (f a b) \<inter> set (concat (map (\<lambda>(k, v). f k v) m)) = {}"
  proof (rule ccontr)
    assume "\<not> ?thesis"
    then obtain y k v where "y \<in> set (f a b)" "(k, v) \<in> set m" "y \<in> set (f k v)" by auto
    then have "(a, v) \<in> set m" using assms(3) by blast
    then show False using Cons.prems(1) by (force simp: x)
  qed
  then show ?case using Cons by (simp add: x)
qed simp

lemma apis_ok_wf:
  assumes "apis_ok apis"
  shows "go_wf apis" "(a, A) \<in> set apis \<Longrightarrow> go_wf (as_Models A)"
    "(a, A) \<in> set apis \<Longrightarrow> (n, m) \<in> set (as_Models A) \<Longrightarrow> model_at apis a n = Some m"
proof -
  show w: "go_wf apis" and g: "(a, A) \<in> set apis \<Longrightarrow> go_wf (as_Models A)" for A
    using assms unfolding apis_ok_def by blast+
  show "(a, A) \<in> set apis \<Longrightarrow> (n, m) \<in> set (as_Models A) \<Longrightarrow> model_at apis a n = Some m"
    using w g by (simp add: model_at_def)
qed

lemma model_at_mem:
  "model_at apis a n = Some m \<Longrightarrow> \<exists>A. (a, A) \<in> set apis \<and> (n, m) \<in> set (as_Models A)"
  by (auto simp: model_at_def dest: map_of_SomeD split: option.splits)

lemma visible_events_numbered:
  assumes wf: "apis_ok apis" and nb: "numbered apis k"
  shows "set (map fst (visible_events k apis)) = event_of ` selected apis k"
    "distinct (map fst (visible_events k apis))"
    "(e, d) \<in> set (visible_events k apis) \<Longrightarrow> detailPointer apis e = Some d"
proof -
  have mem: "(e, d) \<in> set (visible_events k apis) \<longleftrightarrow>
      (\<exists>a n m. model_at apis a n = Some m \<and> mo_nextEventSequence m \<noteq> 0 \<and> d \<in> set (mo_Details m) \<and> selects k a n d \<and>
        e = event_of (a, n, rd_eventSequence d))" for e d
  proof
    assume "(e, d) \<in> set (visible_events k apis)"
    then obtain a A n m where "(a, A) \<in> set apis" "(n, m) \<in> set (as_Models A)" "d \<in> set (mo_Details m)" "selects k a n d"
      "e = event_of (a, n, rd_eventSequence d)"
      by (auto simp: visible_events_def)
    moreover have "model_at apis a n = Some m" by (rule apis_ok_wf(3) [OF wf calculation(1,2)])
    moreover have "mo_nextEventSequence m \<noteq> 0" using nb calculation unfolding numbered_def by blast
    ultimately show "\<exists>a n m. model_at apis a n = Some m \<and> mo_nextEventSequence m \<noteq> 0 \<and> d \<in> set (mo_Details m) \<and> selects k a n d \<and>
        e = event_of (a, n, rd_eventSequence d)" by blast
  next
    assume "\<exists>a n m. model_at apis a n = Some m \<and> mo_nextEventSequence m \<noteq> 0 \<and> d \<in> set (mo_Details m) \<and> selects k a n d \<and>
        e = event_of (a, n, rd_eventSequence d)"
    then show "(e, d) \<in> set (visible_events k apis)"
      using model_at_mem by (fastforce simp: visible_events_def)
  qed
  show "set (map fst (visible_events k apis)) = event_of ` selected apis k"
  proof (intro equalityI subsetI)
    fix e assume "e \<in> set (map fst (visible_events k apis))"
    then obtain d where "(e, d) \<in> set (visible_events k apis)" by auto
    then show "e \<in> event_of ` selected apis k" unfolding mem selected_def by blast
  next
    fix e assume "e \<in> event_of ` selected apis k"
    then obtain d where "(e, d) \<in> set (visible_events k apis)" unfolding mem selected_def by blast
    then show "e \<in> set (map fst (visible_events k apis))" by force
  qed
  show "(e, d) \<in> set (visible_events k apis) \<Longrightarrow> detailPointer apis e = Some d"
  proof -
    assume "(e, d) \<in> set (visible_events k apis)"
    then obtain a n m where m: "model_at apis a n = Some m" "mo_nextEventSequence m \<noteq> 0" "d \<in> set (mo_Details m)"
      "e = event_of (a, n, rd_eventSequence d)" unfolding mem by blast
    have "distinct (map rd_eventSequence (mo_Details m))" using apis_okD [OF wf m(1)] m(2) by (simp add: seq_ok_def)
    from find_distinct [OF this m(3)] show "detailPointer apis e = Some d" by (simp add: m(1,4) ref_detail_at)
  qed
  let ?f = "\<lambda>a n m. map (\<lambda>d. event_of (a, n, rd_eventSequence d)) (filter (selects k a n) (mo_Details m))"
  have e: "map fst (visible_events k apis) = concat (map (\<lambda>(a, A). concat (map (\<lambda>(n, m). ?f a n m) (as_Models A))) apis)"
    by (simp add: visible_events_def map_concat comp_def case_prod_unfold)
  show "distinct (map fst (visible_events k apis))"
    unfolding e
  proof (rule distinct_concat_keys [where key = ed_upstreamAPI, OF apis_ok_wf(1) [OF wf]])
    fix a A assume A: "(a, A) \<in> set apis"
    show "distinct (concat (map (\<lambda>(n, m). ?f a n m) (as_Models A)))"
    proof (rule distinct_concat_keys [where key = ed_modelName, OF apis_ok_wf(2) [OF wf A]])
      fix n m assume nm: "(n, m) \<in> set (as_Models A)"
      have at': "model_at apis a n = Some m" by (rule apis_ok_wf(3) [OF wf A nm])
      show "distinct (?f a n m)"
      proof (cases "mo_nextEventSequence m = 0")
        case True
        then have "filter (selects k a n) (mo_Details m) = []" using nb at' by (auto simp: numbered_def filter_empty_conv)
        then show ?thesis by simp
      next
        case False
        then have "distinct (map rd_eventSequence (mo_Details m))" using apis_okD [OF wf at'] by (simp add: seq_ok_def)
        then have "distinct (map rd_eventSequence (filter (selects k a n) (mo_Details m)))" by (rule distinct_map_filter)
        then show ?thesis by (auto simp: distinct_map inj_on_def)
      qed
    qed auto
  qed auto
qed

lemma inj_event_key: "inj_on (event_key apis) (event_of ` R)"
  by (auto simp: inj_on_def event_key_def)

text \<open>A sorted, distinct list of the selected events is the sorted scan.\<close>

lemma listing_unique:
  assumes "apis_ok apis" "numbered apis k" "in_order apis es" "distinct es" "set es = event_of ` selected apis k"
  shows "es = sort_events apis (map fst (visible_events k apis))"
proof (rule in_order_unique [OF assms(3) in_order_sort])
  note v = visible_events_numbered [OF assms(1,2)]
  have "mset es = mset (map fst (visible_events k apis))"
    using set_eq_iff_mset_eq_distinct [OF assms(4) v(2)] assms(5) v(1) by (simp only: simp_thms)
  then show "mset es = mset (sort_events apis (map fst (visible_events k apis)))" by (simp only: mset_sort_events)
  show "inj_on (event_key apis) (set es)" unfolding assms(5) by (rule inj_event_key)
qed

text \<open>The ledger up to the numbering of the details.\<close>

definition unnumbered :: "ledger_apis \<Rightarrow> ledger_apis" where
  "unnumbered apis = map (\<lambda>(a, A). (a, A\<lparr> as_Models := map (\<lambda>(n, m). (n, m\<lparr> mo_nextEventSequence := 0,
     mo_Details := map (\<lambda>d. d\<lparr> rd_eventSequence := 0 \<rparr>) (mo_Details m) \<rparr>)) (as_Models A) \<rparr>)) apis"

lemma initialize_unnumbered:
  "map (\<lambda>d. d\<lparr> rd_eventSequence := 0 \<rparr>) (mo_Details (initializeEventSequences m)) = map (\<lambda>d. d\<lparr> rd_eventSequence := 0 \<rparr>) (mo_Details m)"
  by (auto simp: initializeEventSequences_def intro!: nth_equalityI)

lemma touched_unnumbered:
  "(touched w n m)\<lparr> mo_nextEventSequence := 0, mo_Details := map (\<lambda>d. d\<lparr> rd_eventSequence := 0 \<rparr>) (mo_Details (touched w n m)) \<rparr> =
   m\<lparr> mo_nextEventSequence := 0, mo_Details := map (\<lambda>d. d\<lparr> rd_eventSequence := 0 \<rparr>) (mo_Details m) \<rparr>"
proof -
  have "(initializeEventSequences m)\<lparr> mo_nextEventSequence := 0, mo_Details := ds \<rparr> = m\<lparr> mo_nextEventSequence := 0, mo_Details := ds \<rparr>" for ds
    by (simp add: initializeEventSequences_def)
  then show ?thesis by (simp add: touched_def initialize_unnumbered)
qed

lemma scan_unnumbered: "unnumbered (fst (scan_build k apis)) = unnumbered apis"
  by (simp add: scan_build_def unnumbered_def case_prod_unfold comp_def touched_unnumbered)

lemma scan_model_at: "model_at (fst (scan_build k apis)) a n = map_option (touched (selects k a) n) (model_at apis a n)"
  by (simp add: scan_build_def model_at_def map_of_map_key split: option.split)

lemma scan_wf: "apis_ok apis \<Longrightarrow> apis_ok (fst (scan_build k apis))"
proof -
  assume wf: "apis_ok apis"
  have "go_keys (fst (scan_build k apis)) = go_keys apis" by (simp add: scan_build_def comp_def case_prod_unfold)
  moreover have "\<forall>(a, A)\<in>set (fst (scan_build k apis)). go_wf (as_Models A)"
    using apis_ok_wf(2) [OF wf] by (auto simp: scan_build_def comp_def case_prod_unfold)
  moreover have "seq_ok m" if "model_at (fst (scan_build k apis)) a n = Some m" for a n m
    using that apis_okD [OF wf] seq_ok_initialize by (auto simp: scan_model_at touched_def)
  ultimately show ?thesis using apis_ok_wf(1) [OF wf] by (simp add: apis_ok_def)
qed

lemma initialize_selects:
  "d \<in> set (mo_Details (initializeEventSequences m)) \<Longrightarrow> selects k a n d \<Longrightarrow> \<exists>d0\<in>set (mo_Details m). selects k a n d0"
  using initialize_details selects_same_place by metis

lemma scan_numbered: "apis_ok apis \<Longrightarrow> numbered (fst (scan_build k apis)) k"
  unfolding numbered_def
proof (intro allI impI ballI)
  fix a n m d assume wf: "apis_ok apis" and m: "model_at (fst (scan_build k apis)) a n = Some m" "mo_nextEventSequence m = 0"
    "d \<in> set (mo_Details m)"
  obtain m0 where m0: "model_at apis a n = Some m0" "m = touched (selects k a) n m0" using m(1) by (auto simp: scan_model_at)
  show "\<not> selects k a n d"
  proof (cases "\<exists>d\<in>set (mo_Details m0). selects k a n d")
    case True
    then have "mo_nextEventSequence m0 = 0" "mo_Details m0 \<noteq> []" "m = initializeEventSequences m0"
      using m(2) m0 by (auto simp: touched_def initializeEventSequences_def split: if_splits)
    then show ?thesis using m(2) by (simp add: initializeEventSequences_def)
  next
    case False
    then show ?thesis using m(3) m0(2) by (auto simp: touched_def)
  qed
qed

lemma scan_events: "snd (scan_build k apis) = map fst (visible_events k (fst (scan_build k apis)))"
proof -
  have f: "filter (selects k a n) (mo_Details (touched (selects k a) n m)) =
      filter (selects k a n) (mo_Details (initializeEventSequences m))" for a n m
  proof (cases "\<exists>d\<in>set (mo_Details m). selects k a n d")
    case False
    then have "filter (selects k a n) (mo_Details m) = []"
      "filter (selects k a n) (mo_Details (initializeEventSequences m)) = []"
      using initialize_selects unfolding filter_empty_conv by blast+
    then show ?thesis using False by (simp add: touched_def)
  qed (simp add: touched_def)
  show ?thesis
    by (simp add: scan_build_def visible_events_def map_concat comp_def case_prod_unfold model_events_def f)
qed

text \<open>Numbering the details of a model concerns no index that is there.\<close>

lemma scan_follows:
  assumes wf: "apis_ok apis"
    and apis'_def: "apis' = fst (scan_build k apis)"
  shows "refs_follow apis apis'" "selection_follows apis apis' []" "issued apis r \<Longrightarrow> ref_detail apis' r = ref_detail apis r"
proof -
  have at': "model_at apis' a n = map_option (touched (selects k a) n) (model_at apis a n)" for a n
    unfolding apis'_def by (rule scan_model_at)
  have same: "touched w n m = m" if "mo_nextEventSequence m \<noteq> 0" for w n m
    using that by (simp add: touched_def initializeEventSequences_def)
  have i: "issued apis' r \<and> ref_detail apis' r = ref_detail apis r" if "issued apis r" for r
    using that by (cases r) (auto simp: issued_def ref_detail_at at' same)
  then show "issued apis r \<Longrightarrow> ref_detail apis' r = ref_detail apis r" by blast
  show "refs_follow apis apis'" unfolding refs_follow_def using i same_place_refl by (metis option.exhaust)
  have nb: "numbered apis' j \<and> selected apis' j = selected apis j" if n: "numbered apis j" for j
  proof
    have no: "\<not> selects j a n d" if "model_at apis a n = Some m" "mo_nextEventSequence m = 0" "d \<in> set (mo_Details (touched w n m))" for a n m d w
    proof
      assume "selects j a n d"
      then have "\<exists>d0\<in>set (mo_Details m). selects j a n d0"
        using that(3) initialize_selects by (auto simp: touched_def split: if_splits)
      then show False using n that(1,2) by (auto simp: numbered_def)
    qed
    show "numbered apis' j"
      unfolding numbered_def
    proof (intro allI impI ballI)
      fix a n' m d assume m: "model_at apis' a n' = Some m" "mo_nextEventSequence m = 0" "d \<in> set (mo_Details m)"
      obtain m0 where m0: "model_at apis a n' = Some m0" "m = touched (selects k a) n' m0" using m(1) by (auto simp: at')
      show "\<not> selects j a n' d"
      proof (cases "mo_nextEventSequence m0 = 0")
        case True
        then show ?thesis using no m0 m(3) by blast
      next
        case False
        then show ?thesis using same m0(2) m(2) by simp
      qed
    qed
    have "selected apis' j \<subseteq> selected apis j"
    proof
      fix r assume "r \<in> selected apis' j"
      then obtain a n' m d where r: "r = (a, n', rd_eventSequence d)" "model_at apis' a n' = Some m" "mo_nextEventSequence m \<noteq> 0"
        "d \<in> set (mo_Details m)" "selects j a n' d" by (auto simp: selected_def)
      obtain m0 where m0: "model_at apis a n' = Some m0" "m = touched (selects k a) n' m0" using r(2) by (auto simp: at')
      have "mo_nextEventSequence m0 \<noteq> 0" using no m0 r(4,5) by blast
      then show "r \<in> selected apis j" using r m0 same by (auto simp: selected_def)
    qed
    moreover have "selected apis j \<subseteq> selected apis' j"
      unfolding selected_def at' using same by fastforce
    ultimately show "selected apis' j = selected apis j" by blast
  qed
  have "ref_detail apis' r \<noteq> None" if "r \<in> selected apis j" for r j
    using i [OF selected_issued [OF wf that]] selected_live [OF wf that] by simp
  then show "selection_follows apis apis' []" unfolding selection_follows_def using nb by auto
qed


section \<open>A query\<close>

definition query_key :: "EventsQuery \<Rightarrow> index_key" where
  "query_key params =
     (if eq_API params \<noteq> [] then OfAPI (eq_API params) else if eq_Model params \<noteq> [] then OfModel (eq_Model params)
      else if eq_Source params \<noteq> [] then OfSource (eq_Source params)
      else if eq_AuthIndex params \<noteq> [] then OfAuth (eq_AuthIndex params) else AllEvents)"

definition store_index :: "index_key \<Rightarrow> dashboardEventDetail list \<Rightarrow> eventIndexes \<Rightarrow> eventIndexes" where
  "store_index k events ei = (case k of AllEvents \<Rightarrow> ei\<lparr> ei_all := Some events \<rparr>
     | OfAPI x \<Rightarrow> ei\<lparr> ei_API := go_put x events (ei_API ei) \<rparr> | OfModel x \<Rightarrow> ei\<lparr> ei_Model := go_put x events (ei_Model ei) \<rparr>
     | OfSource x \<Rightarrow> ei\<lparr> ei_Source := go_put x events (ei_Source ei) \<rparr> | OfAuth x \<Rightarrow> ei\<lparr> ei_Auth := go_put x events (ei_Auth ei) \<rparr>)"

lemma store_lookup [simp]: "event_index_lookup (store_index k es ei) k' = (if k' = k then Some es else event_index_lookup ei k')"
  by (cases k; cases k') (simp_all add: store_index_def event_index_lookup_def)

lemma store_fields [simp]: "ei_pending (store_index k es ei) = ei_pending ei" "ei_dirty (store_index k es ei) = ei_dirty ei"
  "ei_refs (store_index k es ei) = ei_refs ei"
  by (simp_all add: store_index_def split: index_key.split)

definition query_index :: "reservation \<Rightarrow> index_key \<Rightarrow> eventState \<Rightarrow> eventState \<times> dashboardEventDetail list" where
  "query_index fits k st = (let st = refresh_state fits st
     in case event_index_lookup (es_index st) k of Some events \<Rightarrow> (st, events)
        | None \<Rightarrow> build_events fits (\<lambda>apis. sorted_index (scan_build k apis)) (store_index k) st)"

lemma refresh_stats [simp]: "es_stats (refresh_state fits st) = es_stats st"
  by (simp add: refresh_state_def)

lemma build_events_cong:
  assumes "build (rs_apis (es_stats st)) = build' (rs_apis (es_stats st))"
  shows "build_events fits build store st = build_events fits build' store st"
  by (simp add: build_events_def assms)

lemma query_index_eq:
  assumes "go_wf (rs_apis (es_stats st))"
  shows "dashboardEventQueryIndexLocked fits params st = query_index fits (query_key params) st"
proof -
  have st: "store_index AllEvents = (\<lambda>events ei. ei\<lparr> ei_all := Some events \<rparr>)"
    "store_index (OfAPI x) = (\<lambda>events ei. ei\<lparr> ei_API := go_put x events (ei_API ei) \<rparr>)"
    "store_index (OfModel x) = (\<lambda>events ei. ei\<lparr> ei_Model := go_put x events (ei_Model ei) \<rparr>)"
    "store_index (OfSource x) = (\<lambda>events ei. ei\<lparr> ei_Source := go_put x events (ei_Source ei) \<rparr>)"
    "store_index (OfAuth x) = (\<lambda>events ei. ei\<lparr> ei_Auth := go_put x events (ei_Auth ei) \<rparr>)" for x
    by (simp_all add: fun_eq_iff store_index_def)
  have b: "buildDashboardEventIndex = (\<lambda>apis. sorted_index (scan_build AllEvents apis))"
    "buildDashboardEventIndexForFilter dashboardEventIndexFilterModel v = (\<lambda>apis. sorted_index (scan_build (OfModel v) apis))"
    "buildDashboardEventIndexForFilter dashboardEventIndexFilterSource v = (\<lambda>apis. sorted_index (scan_build (OfSource v) apis))"
    "buildDashboardEventIndexForFilter dashboardEventIndexFilterAuth v = (\<lambda>apis. sorted_index (scan_build (OfAuth v) apis))" for v
    by (simp_all add: fun_eq_iff build_all build_filter)
  have a: "build_events fits (buildDashboardEventIndexForAPI x) store (refresh_state fits st) =
      build_events fits (\<lambda>apis. sorted_index (scan_build (OfAPI x) apis)) store (refresh_state fits st)" for x store
    by (rule build_events_cong) (simp add: build_api assms)
  show ?thesis
    unfolding dashboardEventQueryIndexLocked_def query_key_def query_index_def dashboardEventIndexLocked_def
      dashboardEventModelIndexLocked_def dashboardEventSourceIndexLocked_def dashboardEventAuthIndexLocked_def Let_def a b
    by (simp add: event_index_lookup_def st split: option.split)
qed

lemma map_filter_refs:
  assumes "set es \<subseteq> range event_of"
  shows "set (List.map_filter ed_ref (sort_events apis es)) = {r. event_of r \<in> set es}"
proof -
  have "set (List.map_filter ed_ref xs) = {r. \<exists>e\<in>set xs. ed_ref e = Some r}" for xs :: "dashboardEventDetail list"
    by (induction xs) (auto simp: List.map_filter_simps split: option.split)
  moreover have "(\<exists>e\<in>set es. ed_ref e = Some r) \<longleftrightarrow> event_of r \<in> set es" for r
  proof
    assume "\<exists>e\<in>set es. ed_ref e = Some r"
    then obtain e where e: "e \<in> set es" "ed_ref e = Some r" by blast
    then obtain r' where "e = event_of r'" using assms by blast
    then show "event_of r \<in> set es" using e by simp
  next
    assume "event_of r \<in> set es"
    then show "\<exists>e\<in>set es. ed_ref e = Some r" by (metis event_of_simps(6))
  qed
  ultimately show ?thesis by (simp only: set_sort_events)
qed

text \<open>The listing of a query, and the state it leaves.\<close>

lemma query_index_ok:
  assumes ok: "event_state_ok st" and q: "query_index fits k st = (st', es)"
  defines "apis \<equiv> rs_apis (es_stats st')"
  shows "event_state_ok st'" "numbered apis k" "es = sort_events apis (map fst (visible_events k apis))"
    "unnumbered apis = unnumbered (rs_apis (es_stats st))" "es_stats st' = (es_stats st)\<lparr> rs_apis := apis \<rparr>"
proof -
  let ?s = "es_stats st" and ?st1 = "refresh_state fits st"
  let ?ei1 = "es_index ?st1"
  have wf: "apis_ok (rs_apis ?s)" and io: "indexes_ok (rs_apis ?s) (es_index st)" using ok by (simp_all add: event_state_ok_def)
  have "?ei1 = refreshDashboardEventIndexesLocked fits ?s (es_index st)" by (simp add: refresh_state_def)
  note ro = refresh_ok [OF wf io this]
  have "event_state_ok st' \<and> numbered apis k \<and> es = sort_events apis (map fst (visible_events k apis)) \<and>
    unnumbered apis = unnumbered (rs_apis ?s) \<and> es_stats st' = ?s\<lparr> rs_apis := apis \<rparr>"
  proof (cases "event_index_lookup ?ei1 k")
    case (Some events)
    then have st': "st' = ?st1" "es = events" using q by (simp_all add: query_index_def Let_def)
    then have a: "apis = rs_apis ?s" by (simp add: apis_def)
    have i: "event_index_ok (rs_apis ?s) ?ei1 k es" using ro(1) Some st'(2) by (simp add: indexes_ok_def)
    have lv: "\<forall>e\<in>set es. live (rs_apis ?s) e" using i ro(2) unfolding event_index_ok_def by blast
    then have f: "filter (live (rs_apis ?s)) es = es" by (simp add: filter_id_conv)
    have ev: "events_ok (rs_apis ?s) (ei_refs ?ei1) es" and lr: "live_refs (rs_apis ?s) es = selected (rs_apis ?s) k"
      using i unfolding event_index_ok_def ro(3) by (simp_all add: live_refs_def)
    have "set es = event_of ` selected (rs_apis ?s) k"
      unfolding lr [symmetric] live_refs_def using events_okD [OF ev] lv by force
    moreover have nb: "numbered (rs_apis ?s) k" using i by (simp add: event_index_ok_def)
    moreover have "in_order (rs_apis ?s) es" "distinct es" using i unfolding event_index_ok_def f by blast+
    ultimately have "es = sort_events (rs_apis ?s) (map fst (visible_events k (rs_apis ?s)))"
      by (intro listing_unique [OF wf])
    moreover have "event_state_ok st'" using wf ro(1) by (simp add: event_state_ok_def st'(1))
    ultimately show ?thesis using nb by (simp add: a st'(1))
  next
    case None
    obtain apis1 es0 where sb: "scan_build k (rs_apis ?s) = (apis1, es0)" by (metis surj_pair)
    let ?es = "sort_events apis1 es0"
    let ?ei2 = "?ei1\<lparr> ei_refs := ei_refs ?ei1 \<union> set (List.map_filter ed_ref ?es) \<rparr>"
    let ?ei3 = "if admitDashboardEventIndexLocked fits ?ei2 ?es then store_index k ?es ?ei2 else ?ei2"
    have st': "st' = \<lparr> es_stats = ?s\<lparr> rs_apis := apis1 \<rparr>, es_index = ?ei3 \<rparr>" "es = ?es"
    proof -
      have "query_index fits k st = (\<lparr> es_stats = ?s\<lparr> rs_apis := apis1 \<rparr>, es_index = ?ei3 \<rparr>, ?es)"
        using None by (simp add: query_index_def Let_def build_events_def sb sorted_index_def)
      then show "st' = \<lparr> es_stats = ?s\<lparr> rs_apis := apis1 \<rparr>, es_index = ?ei3 \<rparr>" "es = ?es" using q by auto
    qed
    then have a: "apis = apis1" by (simp add: apis_def)
    have a1: "apis1 = fst (scan_build k (rs_apis ?s))" by (simp add: sb)
    have wf1: "apis_ok apis1" unfolding a1 by (rule scan_wf [OF wf])
    have nb: "numbered apis1 k" unfolding a1 by (rule scan_numbered [OF wf])
    have e0: "es0 = map fst (visible_events k apis1)" using scan_events [of k "rs_apis ?s"] by (simp add: sb)
    note v = visible_events_numbered [OF wf1 nb, folded e0]
    note sf = scan_follows [OF wf a1]
    have io2: "indexes_ok apis1 ?ei2"
      by (rule indexes_ok_step [OF ro(1) wf1 sf(1,2)]) (use ro(2) sf(3) in simp_all)
    have "event_index_ok apis1 ?ei3 k ?es" if "admitDashboardEventIndexLocked fits ?ei2 ?es"
    proof -
      have lv: "live apis1 e" if "e \<in> set ?es" for e
        using that v(1) selected_live [OF wf1] by auto
      then have f: "filter (live apis1) ?es = ?es" by (simp add: filter_id_conv)
      have refs: "set (List.map_filter ed_ref ?es) = {r. event_of r \<in> set es0}"
        by (rule map_filter_refs) (use v(1) in auto)
      have "events_ok apis1 (ei_refs ?ei3) ?es"
        unfolding events_ok_def using v(1) selected_issued [OF wf1] refs that by auto
      moreover have "live_refs apis1 ?es = selected apis1 k"
        using v(1) selected_live [OF wf1] by (auto simp: live_refs_def)
      ultimately show ?thesis unfolding event_index_ok_def f using nb lv v(2) ro(3) that by (simp add: live_refs_def)
    qed
    moreover have "event_index_ok apis1 ?ei3 j es'" if "event_index_lookup ?ei2 j = Some es'" for j es'
    proof -
      have "event_index_ok apis1 ?ei2 j es'" using io2 that by (simp add: indexes_ok_def)
      then show ?thesis by (simp add: event_index_ok_def)
    qed
    ultimately have "indexes_ok apis1 ?ei3" using io2 by (auto simp: indexes_ok_def)
    then show ?thesis using wf1 nb e0 scan_unnumbered [of k "rs_apis ?s"] by (simp add: st' a event_state_ok_def sb)
  qed
  then show "event_state_ok st'" "numbered apis k" "es = sort_events apis (map fst (visible_events k apis))"
    "unnumbered apis = unnumbered (rs_apis ?s)" "es_stats st' = ?s\<lparr> rs_apis := apis \<rparr>" by blast+
qed


section \<open>Every run of the dashboard\<close>

text \<open>
  The states that records, trims, removals, enrichments, price changes, queries and replacements of
  the ledger (repairs, imports and deletions, which drop the indexes) lead to.
\<close>

inductive event_reach :: "eventState \<Rightarrow> bool" where
  start: "apis_ok (rs_apis s) \<Longrightarrow> event_reach \<lparr> es_stats = s, es_index = no_indexes \<rparr>"
| record': "event_reach st \<Longrightarrow> event_reach (fst (recordDetailEvents grew fits digest api n d dedup now w arch st))"
| trim: "event_reach st \<Longrightarrow> event_reach (trimModelEvents api n st)"
| prune: "event_reach st \<Longrightarrow> counted_models (rs_apis (es_stats st)) \<Longrightarrow> event_reach (pruneEvents now b st)"
| enrich: "event_reach st \<Longrightarrow> event_reach (enrichDetailAt api n i u st)"
| prices: "event_reach st \<Longrightarrow> event_reach (invalidate_responses st)"
| replace: "event_reach st \<Longrightarrow> apis_ok (rs_apis s) \<Longrightarrow> event_reach (invalidateSummaryLocked (st\<lparr> es_stats := s \<rparr>))"
| query: "event_reach st \<Longrightarrow> event_reach (fst (dashboardEventQueryIndexLocked fits params st))"

lemma event_state_wf: "event_state_ok st \<Longrightarrow> go_wf (rs_apis (es_stats st))"
  by (simp add: event_state_ok_def apis_ok_def)

lemma query_keeps:
  assumes "event_state_ok st"
  shows "event_state_ok (fst (dashboardEventQueryIndexLocked fits params st))"
proof -
  obtain st' es where q: "query_index fits (query_key params) st = (st', es)" by (metis surj_pair)
  show ?thesis using query_index_ok(1) [OF assms q] q by (simp add: query_index_eq event_state_wf [OF assms])
qed

lemma event_reach_ok: "event_reach st \<Longrightarrow> event_state_ok st"
proof (induction rule: event_reach.induct)
  case (start s)
  have "event_index_lookup no_indexes k = None" for k by (cases k) (simp_all add: event_index_lookup_def no_indexes_def)
  then show ?case using start by (simp add: event_state_ok_def indexes_ok_def events_ok_def no_indexes_def)
next
  case (record' st grew fits digest api n d dedup now w arch)
  show ?case using record_keeps [OF record'.IH] by (metis surj_pair fst_conv)
next
  case (replace st s)
  have e: "rs_apis (es_stats (invalidateSummaryLocked (st\<lparr> es_stats := s \<rparr>))) = rs_apis s"
    "indexes_ok apis (es_index (invalidateSummaryLocked (st\<lparr> es_stats := s \<rparr>)))" for apis
    using invalidate_responses_fields(1) [of "st\<lparr> es_stats := s \<rparr>"] by (simp_all add: invalidateSummaryLocked_def Let_def)
  show ?case unfolding event_state_ok_def using replace.hyps(2) by (simp only: e simp_thms)
qed (simp_all add: trim_keeps prune_keeps enrich_keeps invalidate_keeps query_keeps)

text \<open>
  C11: The list of a dashboard query is right however the indexes came to be: after any run of
  records, trims, removals, enrichments, queries and replacements, whichever indexes the memory
  budget let survive, the index that a query gets is the scan of the visible details that the
  query's first filter selects, each exactly once, sorted from the newest to the oldest with ties
  by API, model and sequence number; every event points to its detail, and the query changes
  nothing in the ledger but the internal numbering of restored details.
\<close>
theorem event_listing_matches_scan:
  assumes "event_reach st" "dashboardEventQueryIndexLocked fits params st = (st', es)"
  shows "es = sort_events (rs_apis (es_stats st')) (map fst (visible_events (query_key params) (rs_apis (es_stats st')))) \<and>
    distinct es \<and>
    (\<forall>(e, d)\<in>set (visible_events (query_key params) (rs_apis (es_stats st'))).
       detailPointer (rs_apis (es_stats st')) e = Some d) \<and>
    unnumbered (rs_apis (es_stats st')) = unnumbered (rs_apis (es_stats st)) \<and>
    es_stats st' = (es_stats st)\<lparr> rs_apis := rs_apis (es_stats st') \<rparr>"
proof -
  have ok: "event_state_ok st" by (rule event_reach_ok [OF assms(1)])
  have q: "query_index fits (query_key params) st = (st', es)"
    using assms(2) by (simp add: query_index_eq event_state_wf [OF ok])
  note r = query_index_ok [OF ok q]
  have "apis_ok (rs_apis (es_stats st'))" using r(1) by (simp add: event_state_ok_def)
  note v = visible_events_numbered [OF this r(2)]
  have "distinct es" by (subst r(3)) (simp only: distinct_sort_events v(2))
  moreover have "\<forall>(e, d)\<in>set (visible_events (query_key params) (rs_apis (es_stats st'))).
       detailPointer (rs_apis (es_stats st')) e = Some d" using v(3) by blast
  ultimately show ?thesis using r(3-5) by blast
qed

text \<open>A ledger restored with one model whose two details have no sequence number yet.\<close>

definition listed_apis :: ledger_apis where
  "listed_apis = [(''api'', new_apiStats\<lparr> as_Models := [(''m'', new_modelStats\<lparr>
     mo_Details := [sample_detail, sample_detail\<lparr> rd_Timestamp := (rd_Timestamp sample_detail)\<lparr> t_ns := 120000000000 \<rparr> \<rparr>] \<rparr>)] \<rparr>)]"

definition listed_state :: eventState where
  "listed_state = \<lparr> es_stats = sample_ledger\<lparr> rs_apis := listed_apis, rs_maxDetailsPerModel := 1 \<rparr>, es_index = no_indexes \<rparr>"

definition any_query :: EventsQuery where
  "any_query = \<lparr> eq_Limit = 10, eq_Offset = 0, eq_Range = [], eq_Model = [], eq_Source = [], eq_AuthIndex = [],
     eq_API = [], eq_ClientAPI = [] \<rparr>"

text \<open>A query builds the index, the visible window shrinks to one detail, and the next query drops the other one.\<close>

definition trimmed_state :: eventState where
  "trimmed_state = trimModelEvents ''api'' ''m'' (fst (dashboardEventQueryIndexLocked (\<lambda>_ _. True) any_query listed_state))"

lemma event_listing_matches_scan_witness:
  "snd (dashboardEventQueryIndexLocked (\<lambda>_ _. True) any_query listed_state) =
     [event_of (''api'', ''m'', 2), event_of (''api'', ''m'', 1)] \<and>
   snd (dashboardEventQueryIndexLocked (\<lambda>_ _. True) any_query trimmed_state) = [event_of (''api'', ''m'', 2)] \<and>
   distinct (snd (dashboardEventQueryIndexLocked (\<lambda>_ _. True) any_query trimmed_state))"
proof (intro conjI)
  have "apis_ok listed_apis"
    by (simp add: listed_apis_def apis_ok_def seq_ok_def model_at_def new_modelStats_def)
  then have "event_reach listed_state" unfolding listed_state_def by (intro event_reach.start) simp
  then have "event_reach trimmed_state" unfolding trimmed_state_def by (intro event_reach.trim event_reach.query)
  from event_listing_matches_scan [OF this prod.collapse [symmetric]]
  show "distinct (snd (dashboardEventQueryIndexLocked (\<lambda>_ _. True) any_query trimmed_state))" by blast
  show "snd (dashboardEventQueryIndexLocked (\<lambda>_ _. True) any_query listed_state) =
     [event_of (''api'', ''m'', 2), event_of (''api'', ''m'', 1)]" by code_simp
  show "snd (dashboardEventQueryIndexLocked (\<lambda>_ _. True) any_query trimmed_state) = [event_of (''api'', ''m'', 2)]" by code_simp
qed

end
