(* ===== verification/ClientSelectors.thy ===== *)
theory ClientSelectors
  imports GroupStats
begin

text \<open>
  Selectors of clients (\<open>go/stats.go\<close>): the text by which the dashboard names one row of its list of
  clients, and the test whether a detail belongs to the row.  \<open>encoding/base64\<close>'s \<open>RawURLEncoding\<close>,
  which writes labels into selectors, is modelled with them.
\<close>

section \<open>Base64\<close>

definition b64_alphabet :: string where
  "b64_alphabet = ''ABCDEFGHIJKLMNOPQRSTUVWXYZabcdefghijklmnopqrstuvwxyz0123456789-_''"

definition b64_char :: "nat \<Rightarrow> char" where
  "b64_char v = b64_alphabet ! v"

fun position_of :: "char \<Rightarrow> string \<Rightarrow> nat option" where
  "position_of c [] = None"
| "position_of c (d # ds) = (if c = d then Some 0 else map_option Suc (position_of c ds))"

definition b64_value :: "char \<Rightarrow> nat option" where
  "b64_value c = position_of c b64_alphabet"

fun b64_EncodeToString :: "string \<Rightarrow> string" where
  "b64_EncodeToString (x # y # z # s) =
     (let a = byte_of x; b = byte_of y; c = byte_of z
      in b64_char (a div 4) # b64_char (a mod 4 * 16 + b div 16) # b64_char (b mod 16 * 4 + c div 64) #
         b64_char (c mod 64) # b64_EncodeToString s)"
| "b64_EncodeToString [x, y] =
     (let a = byte_of x; b = byte_of y
      in [b64_char (a div 4), b64_char (a mod 4 * 16 + b div 16), b64_char (b mod 16 * 4)])"
| "b64_EncodeToString [x] = (let a = byte_of x in [b64_char (a div 4), b64_char (a mod 4 * 16)])"
| "b64_EncodeToString [] = []"

text \<open>
  The decoder skips line breaks, refuses any other byte outside the alphabet and a single left-over
  digit, and ignores the unused low bits of the last digit.
\<close>

fun b64_quanta :: "nat list \<Rightarrow> string option" where
  "b64_quanta (p # q # r # s # vs) = map_option (\<lambda>t. char_of (p * 4 + q div 16) #
     char_of (q mod 16 * 16 + r div 4) # char_of (r mod 4 * 64 + s) # t) (b64_quanta vs)"
| "b64_quanta [p, q, r] = Some [char_of (p * 4 + q div 16), char_of (q mod 16 * 16 + r div 4)]"
| "b64_quanta [p, q] = Some [char_of (p * 4 + q div 16)]"
| "b64_quanta [p] = None"
| "b64_quanta [] = Some []"

fun b64_values :: "string \<Rightarrow> nat list option" where
  "b64_values [] = Some []"
| "b64_values (c # s) =
     (if c = CHR 0x0A \<or> c = CHR 0x0D then b64_values s
      else case b64_value c of None \<Rightarrow> None | Some v \<Rightarrow> map_option (Cons v) (b64_values s))"

definition b64_DecodeString :: "string \<Rightarrow> string option" where
  "b64_DecodeString s = Option.bind (b64_values s) b64_quanta"

lemma alphabet_digits:
  "v < 64 \<Longrightarrow> b64_value (b64_char v) = Some v \<and> b64_char v \<noteq> CHR 0x0A \<and> b64_char v \<noteq> CHR 0x0D \<and> b64_char v \<noteq> CHR ''.'' \<and>
     33 \<le> byte_of (b64_char v) \<and> byte_of (b64_char v) < 128"
proof -
  have "list_all (\<lambda>v. b64_value (b64_char v) = Some v \<and> b64_char v \<noteq> CHR 0x0A \<and> b64_char v \<noteq> CHR 0x0D \<and>
      b64_char v \<noteq> CHR ''.'' \<and> 33 \<le> byte_of (b64_char v) \<and> byte_of (b64_char v) < 128) [0..<64]"
    by code_simp
  then show "v < 64 \<Longrightarrow> ?thesis" by (simp add: list_all_iff)
qed

lemma byte_of_bound: "byte_of c < 256"
  by (simp add: byte_of_def)

lemma digit_bounds:
  fixes a b :: nat
  shows "a < 256 \<Longrightarrow> a div 4 < 64" "b < 256 \<Longrightarrow> a mod 4 * 16 + b div 16 < 64" "b < 256 \<Longrightarrow> a mod 16 * 4 + b div 64 < 64"
    "a mod 64 < 64" "a mod 4 * 16 < 64" "a mod 16 * 4 < 64"
proof -
  have m: "a mod 4 < 4" "a mod 16 < 16" "a mod 64 < 64" by simp_all
  then show "a mod 64 < 64" "a mod 4 * 16 < 64" "a mod 16 * 4 < 64" by linarith+
  show "a < 256 \<Longrightarrow> a div 4 < 64" by (simp add: less_mult_imp_div_less)
  show "b < 256 \<Longrightarrow> a mod 4 * 16 + b div 16 < 64"
    using m(1) less_mult_imp_div_less [of b 16 16] by linarith
  show "b < 256 \<Longrightarrow> a mod 16 * 4 + b div 64 < 64"
    using m(2) less_mult_imp_div_less [of b 4 64] by linarith
qed

lemma digits_back:
  fixes b :: nat
  assumes "b < 256"
  shows "b div 16 div 16 = 0" "b div 64 div 4 = 0" "b div 16 mod 16 * 16 + b mod 16 = b"
    "b div 64 mod 4 * 64 + b mod 64 = b"
proof -
  have d: "b div 16 < 16" "b div 64 < 4" using assms by (simp_all add: less_mult_imp_div_less)
  show "b div 16 div 16 = 0" "b div 64 div 4 = 0" "b div 16 mod 16 * 16 + b mod 16 = b"
    "b div 64 mod 4 * 64 + b mod 64 = b"
    using d by (simp_all add: div_mult_mod_eq)
qed

lemma b64_values_digit: "v < 64 \<Longrightarrow> b64_values (b64_char v # s) = map_option (Cons v) (b64_values s)"
  using alphabet_digits [of v] by simp

declare b64_values.simps(2) [simp del]

lemma char_of_byte [simp]: "char_of (byte_of c) = c"
  by (simp add: byte_of_def)

lemma decode_encode: "b64_DecodeString (b64_EncodeToString s) = Some s"
proof (induction s rule: b64_EncodeToString.induct)
  case (1 x y z s)
  note b = byte_of_bound [of x] byte_of_bound [of y] byte_of_bound [of z]
  obtain vs where vs: "b64_values (b64_EncodeToString s) = Some vs" "b64_quanta vs = Some s"
    using 1 [OF refl refl refl] by (auto simp: b64_DecodeString_def bind_eq_Some_conv)
  show ?case
    by (simp add: Let_def b64_DecodeString_def b64_values_digit digit_bounds b vs digits_back b)
next
  case (2 x y)
  note b = byte_of_bound [of x] byte_of_bound [of y]
  show ?case by (simp add: Let_def b64_DecodeString_def b64_values_digit digit_bounds b digits_back b)
next
  case (3 x)
  note b = byte_of_bound [of x]
  show ?case by (simp add: Let_def b64_DecodeString_def b64_values_digit digit_bounds b digits_back b)
qed (simp add: b64_DecodeString_def)

lemma encode_chars:
  "list_all (\<lambda>c. c \<noteq> CHR ''.'' \<and> 33 \<le> byte_of c \<and> byte_of c < 128) (b64_EncodeToString s)"
proof (induction s rule: b64_EncodeToString.induct)
  case (1 x y z s)
  note b = byte_of_bound [of x] byte_of_bound [of y] byte_of_bound [of z]
  show ?case using 1 [OF refl refl refl] by (simp add: Let_def alphabet_digits digit_bounds b)
next
  case (2 x y)
  note b = byte_of_bound [of x] byte_of_bound [of y]
  show ?case by (simp add: Let_def alphabet_digits digit_bounds b)
next
  case (3 x)
  show ?case by (simp add: Let_def alphabet_digits digit_bounds byte_of_bound)
qed simp

lemma encode_Nil: "b64_EncodeToString s = [] \<longleftrightarrow> s = []"
  by (cases s rule: b64_EncodeToString.cases) (simp_all add: Let_def)

section \<open>Selectors\<close>

record clientAPISelector =
  sl_kind :: char
  sl_hash :: string
  sl_label :: string

definition clientAPISelectorForStat :: "ClientAPIStat \<Rightarrow> string" where
  "clientAPISelectorForStat stat =
     (let label = go_TrimSpace (ca_APIKey stat);
          hash = go_TrimSpace (ca_APIKeyHash stat);
          encodedLabel = b64_EncodeToString label
      in if hash \<noteq> [] then ''h.'' @ hash @ ''.'' @ encodedLabel
         else if label = [] \<or> label = unknownAPI then ''u''
         else ''m.'' @ encodedLabel)"

definition parseClientAPISelector :: "string \<Rightarrow> clientAPISelector option" where
  "parseClientAPISelector value =
     (let value = go_TrimSpace value
      in if value = ''u'' then Some \<lparr> sl_kind = CHR ''u'', sl_hash = [], sl_label = [] \<rparr>
         else let parts = go_Split value ''.''
              in if length parts = 2 \<and> (parts ! 0 = ''m'' \<or> parts ! 0 = ''l'')
                 then (case b64_DecodeString (parts ! 1) of None \<Rightarrow> None
                       | Some label \<Rightarrow> if go_TrimSpace label = [] then None
                           else Some \<lparr> sl_kind = hd (parts ! 0), sl_hash = [], sl_label = go_TrimSpace label \<rparr>)
                 else if length parts = 3 \<and> (parts ! 0 = ''h'' \<or> parts ! 0 = ''x'')
                 then let hash = go_TrimSpace (parts ! 1)
                      in (case b64_DecodeString (parts ! 2) of None \<Rightarrow> None
                          | Some label \<Rightarrow> if hash = [] \<or> go_TrimSpace label = [] then None
                              else Some \<lparr> sl_kind = hd (parts ! 0), sl_hash = hash, sl_label = go_TrimSpace label \<rparr>)
                 else None)"

definition clientAPISelectorMatchesDetail :: "string \<Rightarrow> RequestDetail \<Rightarrow> bool" where
  "clientAPISelectorMatchesDetail value detail =
     (if go_TrimSpace value = [] then True
      else case parseClientAPISelector value of None \<Rightarrow> False
        | Some selector \<Rightarrow>
            let label = go_TrimSpace (rd_APIKey detail); hash = go_TrimSpace (rd_APIKeyHash detail);
                k = sl_kind selector
            in if k = CHR ''u'' then label = [] \<and> hash = []
               else if k = CHR ''m'' then label = sl_label selector
               else if k = CHR ''l'' then hash = [] \<and> label = sl_label selector
               else if k = CHR ''x'' then hash = sl_hash selector
               else if k = CHR ''h'' then hash = sl_hash selector \<or> hash = [] \<and> label = sl_label selector
               else False)"

section \<open>Reading a selector back\<close>

lemma split_last: "CHR ''.'' \<notin> set s \<Longrightarrow> go_Split s ''.'' = [s]"
proof -
  assume "CHR ''.'' \<notin> set s"
  then have "go_Index s ''.'' = None" by (induction s) (auto simp: prefix_def)
  then show ?thesis by (subst go_Split.simps) simp
qed

lemma split_first: "CHR ''.'' \<notin> set s \<Longrightarrow> go_Split (s @ ''.'' @ t) ''.'' = s # go_Split t ''.''"
proof -
  assume "CHR ''.'' \<notin> set s"
  then have "go_Index (s @ ''.'' @ t) ''.'' = Some (length s)" by (induction s) (auto simp: prefix_def)
  then show ?thesis by (subst go_Split.simps) simp
qed

text \<open>A text that starts and ends with a visible ASCII byte has no space around it.\<close>

lemma visible_no_space:
  assumes "33 \<le> byte_of c" "byte_of c < 128"
  shows "space_len (c # s) = 0" "space_len_rev (c # s) = 0"
proof -
  have n: "\<not> ascii_space c" "\<not> space2 c x" "\<not> space2 x c" "\<not> space3 c x y" "\<not> space3 x y c" for x y
    using assms by (auto simp: ascii_space_def space2_def space3_def)
  show "space_len (c # s) = 0" by (cases "c # s" rule: space_len.cases) (auto simp: n)
  show "space_len_rev (c # s) = 0" by (cases "c # s" rule: space_len_rev.cases) (auto simp: n)
qed

lemma trim_visible:
  assumes "33 \<le> byte_of c" "byte_of c < 128" "33 \<le> byte_of d" "byte_of d < 128"
  shows "go_TrimSpace (c # s @ [d]) = c # s @ [d]"
  using visible_no_space(1) [OF assms(1,2), of "s @ [d]"] visible_no_space(2) [OF assms(3,4), of "rev s @ [c]"]
  by (simp add: go_TrimSpace_def trim_left_id trim_rev_id)

lemma trim_encoded:
  assumes "label \<noteq> []" "33 \<le> byte_of c" "byte_of c < 128"
  shows "go_TrimSpace (c # s @ b64_EncodeToString label) = c # s @ b64_EncodeToString label"
proof -
  obtain t d where e: "b64_EncodeToString label = t @ [d]"
    using assms(1) by (metis encode_Nil rev_exhaust)
  then have "33 \<le> byte_of d" "byte_of d < 128" using encode_chars [of label] by simp_all
  from trim_visible [OF assms(2,3) this, of "s @ t"] show ?thesis by (simp add: e)
qed

lemma encode_no_dot: "CHR ''.'' \<notin> set (b64_EncodeToString s)"
  using encode_chars [of s] by (auto simp: list_all_iff)

lemma parse_label:
  assumes "k = CHR ''m'' \<or> k = CHR ''l''" "label \<noteq> []" "go_TrimSpace label = label"
  shows "parseClientAPISelector (k # ''.'' @ b64_EncodeToString label) = Some \<lparr> sl_kind = k, sl_hash = [], sl_label = label \<rparr>"
proof -
  let ?v = "k # ''.'' @ b64_EncodeToString label"
  have t: "go_TrimSpace ?v = ?v" using assms(1) by (intro trim_encoded [OF assms(2)]) (auto simp: byte_of_def)
  have "go_Split ?v ''.'' = [[k], b64_EncodeToString label]"
    using split_first [of "[k]" "b64_EncodeToString label"] split_last [OF encode_no_dot] assms(1) by auto
  then show ?thesis
    using assms unfolding parseClientAPISelector_def t Let_def by (auto simp: decode_encode)
qed

lemma parse_hash:
  assumes "k = CHR ''h'' \<or> k = CHR ''x''" "label \<noteq> []" "go_TrimSpace label = label"
    and "hash \<noteq> []" "go_TrimSpace hash = hash" "CHR ''.'' \<notin> set hash"
  shows "parseClientAPISelector (k # ''.'' @ hash @ ''.'' @ b64_EncodeToString label) =
    Some \<lparr> sl_kind = k, sl_hash = hash, sl_label = label \<rparr>"
proof -
  let ?v = "k # ''.'' @ hash @ ''.'' @ b64_EncodeToString label"
  have t: "go_TrimSpace ?v = ?v"
    using trim_encoded [OF assms(2), of k "''.'' @ hash @ ''.''"] assms(1) by (auto simp: byte_of_def)
  have "go_Split ?v ''.'' = [[k], hash, b64_EncodeToString label]"
    using split_first [of "[k]" "hash @ ''.'' @ b64_EncodeToString label"] split_first [OF assms(6)]
      split_last [OF encode_no_dot] assms(1) by auto
  then show ?thesis
    using assms unfolding parseClientAPISelector_def t Let_def by (auto simp: decode_encode)
qed

lemma parse_unknown: "parseClientAPISelector ''u'' = Some \<lparr> sl_kind = CHR ''u'', sl_hash = [], sl_label = [] \<rparr>"
proof -
  have "go_TrimSpace ''u'' = ''u''" by code_simp
  then show ?thesis by (simp add: parseClientAPISelector_def)
qed

end
