(* ===== verification/ClientList.thy ===== *)
theory ClientList
  imports ClientSelectors "HOL-Library.Product_Lexorder"
begin

text \<open>
  The list of clients of the dashboard (\<open>clientAPIStatsFromAccumulators\<close> in \<open>go/stats.go\<close>): one row
  per client key, rows of one masked key joined when at most one hash is known for it, and a selector
  for every row that tells its requests from those of the other rows.  \<open>visit\<close> is the order in which
  Go ranges over the map of labels.
\<close>

section \<open>Rows\<close>

definition tally_merge :: "tally \<Rightarrow> tally \<Rightarrow> tally" where
  "tally_merge dst src = \<lparr>
     ta_TotalRequests = addNonNegativeInt64 (ta_TotalRequests dst) (ta_TotalRequests src),
     ta_SuccessCount = addNonNegativeInt64 (ta_SuccessCount dst) (ta_SuccessCount src),
     ta_FailureCount = addNonNegativeInt64 (ta_FailureCount dst) (ta_FailureCount src),
     ta_TotalTokens = addNonNegativeInt64 (ta_TotalTokens dst) (ta_TotalTokens src),
     ta_InputTokens = addNonNegativeInt64 (ta_InputTokens dst) (ta_InputTokens src),
     ta_OutputTokens = addNonNegativeInt64 (ta_OutputTokens dst) (ta_OutputTokens src),
     ta_CachedTokens = addNonNegativeInt64 (ta_CachedTokens dst) (ta_CachedTokens src),
     ta_CacheWriteTokens = addNonNegativeInt64 (ta_CacheWriteTokens dst) (ta_CacheWriteTokens src),
     ta_ReasoningTokens = addNonNegativeInt64 (ta_ReasoningTokens dst) (ta_ReasoningTokens src) \<rparr>"

definition tally_rest :: "tally \<Rightarrow> tally \<Rightarrow> tally" where
  "tally_rest all part = \<lparr>
     ta_TotalRequests = maxInt64 (ta_TotalRequests all - ta_TotalRequests part) 0,
     ta_SuccessCount = maxInt64 (ta_SuccessCount all - ta_SuccessCount part) 0,
     ta_FailureCount = maxInt64 (ta_FailureCount all - ta_FailureCount part) 0,
     ta_TotalTokens = maxInt64 (ta_TotalTokens all - ta_TotalTokens part) 0,
     ta_InputTokens = maxInt64 (ta_InputTokens all - ta_InputTokens part) 0,
     ta_OutputTokens = maxInt64 (ta_OutputTokens all - ta_OutputTokens part) 0,
     ta_CachedTokens = maxInt64 (ta_CachedTokens all - ta_CachedTokens part) 0,
     ta_CacheWriteTokens = maxInt64 (ta_CacheWriteTokens all - ta_CacheWriteTokens part) 0,
     ta_ReasoningTokens = maxInt64 (ta_ReasoningTokens all - ta_ReasoningTokens part) 0 \<rparr>"

definition sort_providers :: "ModelProviderStat list \<Rightarrow> ModelProviderStat list" where
  "sort_providers = sort_key (\<lambda>p. (- ta_TotalRequests (ps_tally p), ps_Provider p))"

definition finalizedModelProviderStats :: "(string, ModelProviderStat) gomap \<Rightarrow> tally \<Rightarrow> ModelProviderStat list" where
  "finalizedModelProviderStats stats whole =
     (let providers = filter (\<lambda>p. ta_TotalRequests (ps_tally p) > 0) (map snd stats);
          remainder = tally_rest whole (fold (\<lambda>p t. tally_merge t (ps_tally p)) providers zero_tally)
      in sort_providers (if ta_TotalRequests remainder > 0 \<or> ta_TotalTokens remainder > 0 \<or> ta_InputTokens remainder > 0 \<or>
              ta_OutputTokens remainder > 0 \<or> ta_CachedTokens remainder > 0 \<or> ta_CacheWriteTokens remainder > 0 \<or>
              ta_ReasoningTokens remainder > 0
           then providers @ [\<lparr> ps_Provider = [], ps_tally = remainder \<rparr>] else providers))"

definition finalizeClientAPIModelStat :: "ClientAPIModelStat \<Rightarrow> ClientAPIModelStat" where
  "finalizeClientAPIModelStat stat =
     stat\<lparr> cm_Providers := finalizedModelProviderStats (cm_providerStats stat) (cm_tally stat), cm_providerStats := [] \<rparr>"

definition sortClientAPIModelStats :: "ClientAPIModelStat list \<Rightarrow> ClientAPIModelStat list" where
  "sortClientAPIModelStats = sort_key (\<lambda>m. (- ta_TotalRequests (cm_tally m), cm_Model m))"

definition sortClientAPIStats :: "ClientAPIStat list \<Rightarrow> ClientAPIStat list" where
  "sortClientAPIStats = sort_key (\<lambda>s. (- ta_TotalRequests (ca_tally s), ca_APIKey s, ca_APIKeyHash s))"

section \<open>Joining rows\<close>

definition mergeFinalizedProviderStats :: "ModelProviderStat list \<Rightarrow> ModelProviderStat list \<Rightarrow> ModelProviderStat list" where
  "mergeFinalizedProviderStats dst src =
     (if src = [] then dst
      else let merged = fold (\<lambda>p. go_put (modelProviderStatsKey (ps_Provider p)) p) dst [];
               merged = fold (\<lambda>p merged. let key = modelProviderStatsKey (ps_Provider p)
                 in case go_get merged key of None \<Rightarrow> go_put key p merged
                    | Some existing \<Rightarrow> go_put key (existing\<lparr> ps_tally := tally_merge (ps_tally existing) (ps_tally p) \<rparr>) merged)
                 src merged
           in sort_providers (map snd merged))"

definition mergeClientAPIModelStat :: "ClientAPIModelStat \<Rightarrow> ClientAPIModelStat \<Rightarrow> ClientAPIModelStat" where
  "mergeClientAPIModelStat dst src =
     dst\<lparr> cm_tally := tally_merge (cm_tally dst) (cm_tally src),
         cm_EstimatedCost := addNonNegativeCost (cm_EstimatedCost dst) (cm_EstimatedCost src),
         cm_Providers := mergeFinalizedProviderStats (cm_Providers dst) (cm_Providers src) \<rparr>"

definition mergeClientAPIStat :: "ClientAPIStat \<Rightarrow> ClientAPIStat \<Rightarrow> ClientAPIStat" where
  "mergeClientAPIStat dst src =
     (let models = fold (\<lambda>m. go_put (cm_Model m) m) (ca_Models dst) [];
          models = fold (\<lambda>m models. case go_get models (cm_Model m) of
              Some existing \<Rightarrow> go_put (cm_Model m) (mergeClientAPIModelStat existing m) models
            | None \<Rightarrow> go_put (cm_Model m) m models) (ca_Models src) models
      in dst\<lparr> ca_APIKey := (if go_TrimSpace (ca_APIKey dst) = [] then ca_APIKey src else ca_APIKey dst),
             ca_APIKeyHash := (if go_TrimSpace (ca_APIKeyHash dst) = [] then ca_APIKeyHash src else ca_APIKeyHash dst),
             ca_tally := tally_merge (ca_tally dst) (ca_tally src),
             ca_EstimatedCost := addNonNegativeCost (ca_EstimatedCost dst) (ca_EstimatedCost src),
             ca_Models := sortClientAPIModelStats (map snd models) \<rparr>)"

record labelGroups =
  lg_indices :: "nat list"
  lg_hashes :: "string list"

definition label_groups :: "ClientAPIStat list \<Rightarrow> (string, labelGroups) gomap" where
  "label_groups stats = fold (\<lambda>i byLabel.
     let label = go_TrimSpace (ca_APIKey (stats ! i))
     in if label = [] \<or> \<not> go_Contains label redactedMarker then byLabel
        else let grp = go_getd \<lparr> lg_indices = [], lg_hashes = [] \<rparr> byLabel label;
                 hash = go_TrimSpace (ca_APIKeyHash (stats ! i))
             in go_put label \<lparr> lg_indices = lg_indices grp @ [i],
                  lg_hashes = (if hash \<noteq> [] then List.insert hash (lg_hashes grp) else lg_hashes grp) \<rparr> byLabel)
     [0..<length stats] []"

definition clientAPIStatsMergeTarget :: "ClientAPIStat list \<Rightarrow> nat list \<Rightarrow> nat" where
  "clientAPIStatsMergeTarget stats indices = fold (\<lambda>index target.
     let ri = ta_TotalRequests (ca_tally (stats ! index)); rt = ta_TotalRequests (ca_tally (stats ! target))
     in if ri > rt then index
        else if ri = rt \<and> go_TrimSpace (ca_APIKeyHash (stats ! target)) = [] \<and>
             go_TrimSpace (ca_APIKeyHash (stats ! index)) \<noteq> [] then index
        else target) (tl indices) (hd indices)"

definition merge_group :: "labelGroups \<Rightarrow> ClientAPIStat list \<times> nat list \<Rightarrow> ClientAPIStat list \<times> nat list" where
  "merge_group grp = (\<lambda>(stats, removed).
     if length (lg_indices grp) < 2 then (stats, removed)
     else if length (lg_hashes grp) > 1 then (stats, removed)
     else let target = clientAPIStatsMergeTarget stats (lg_indices grp);
              (stats, removed) = fold (\<lambda>source (stats, removed).
                  if source = target then (stats, removed)
                  else (stats[target := mergeClientAPIStat (stats ! target) (stats ! source)], source # removed))
                (lg_indices grp) (stats, removed);
              hash = (case lg_hashes grp of [h] \<Rightarrow> h | _ \<Rightarrow> [])
          in (stats[target := (stats ! target)\<lparr> ca_APIKeyHash := hash \<rparr>], removed))"

type_synonym label_visit = "(string \<times> labelGroups) list \<Rightarrow> (string \<times> labelGroups) list"

definition coalesceMaskedClientAPIStats :: "label_visit \<Rightarrow> ClientAPIStat list \<Rightarrow> ClientAPIStat list" where
  "coalesceMaskedClientAPIStats visit stats =
     (if length stats < 2 then stats
      else case fold (\<lambda>(label, grp). merge_group grp) (visit (label_groups stats)) (stats, []) of
        (stats, removed) \<Rightarrow>
          if removed = [] then stats
          else map (\<lambda>i. stats ! i) (filter (\<lambda>i. i \<notin> set removed) [0..<length stats]))"

section \<open>The list\<close>

definition client_row :: "clientAPIStatAccumulator \<Rightarrow> ClientAPIStat" where
  "client_row agg = (cc_stat agg)\<lparr> ca_Models :=
     sortClientAPIModelStats (map (\<lambda>(n, m). finalizeClientAPIModelStat m) (cc_models agg)) \<rparr>"

definition row_selector :: "ClientAPIStat list \<Rightarrow> ClientAPIStat \<Rightarrow> string" where
  "row_selector stats stat =
     (let selector = clientAPISelectorForStat stat;
          label = go_TrimSpace (ca_APIKey stat)
      in if length (filter (\<lambda>s. go_TrimSpace (ca_APIKey s) = label) stats) > 1
         then (if hd selector = CHR ''h'' then ''x'' @ tl selector
               else if hd selector = CHR ''m'' then ''l'' @ tl selector else selector)
         else selector)"

definition clientAPIStatsFromAccumulatorValues :: "label_visit \<Rightarrow> clientAPIStatAccumulator list \<Rightarrow> ClientAPIStat list" where
  "clientAPIStatsFromAccumulatorValues visit accumulators =
     (let stats = coalesceMaskedClientAPIStats visit (map client_row accumulators)
      in sortClientAPIStats (map (\<lambda>s. s\<lparr> ca_Selector := row_selector stats s \<rparr>) stats))"

definition clientAPIStatsFromAccumulators :: "label_visit \<Rightarrow> client_map \<Rightarrow> ClientAPIStat list" where
  "clientAPIStatsFromAccumulators visit accumulators = clientAPIStatsFromAccumulatorValues visit (map snd accumulators)"

text \<open>The accumulators of a list of details, as the rebuild of the ledger fills them.\<close>

definition accumulate_clients :: "(string \<times> RequestDetail \<Rightarrow> float64) \<Rightarrow> (string \<times> RequestDetail) list \<Rightarrow> client_map" where
  "accumulate_clients cost ds =
     fold (\<lambda>(n, d). incrementClientStats n d (detailTotalsFromRequest d) (cost (n, d))) ds []"

end
