(* ===== verification/ClientRows.thy ===== *)
theory ClientRows
  imports ClientList
begin

text \<open>
  The rows of the client list partition the requests: every request belongs to exactly one row, the
  counters of a row are the sums over its requests, and its selector selects exactly them.
\<close>

section \<open>Clients\<close>

definition hash_of :: "RequestDetail \<Rightarrow> string" where
  "hash_of d = go_TrimSpace (rd_APIKeyHash d)"

definition client_id :: "RequestDetail \<Rightarrow> string \<times> string" where
  "client_id d = (clientAPIGroupLabel d, hash_of d)"

definition row_label :: "ClientAPIStat \<Rightarrow> string" where
  "row_label s = go_TrimSpace (ca_APIKey s)"

definition row_hash :: "ClientAPIStat \<Rightarrow> string" where
  "row_hash s = go_TrimSpace (ca_APIKeyHash s)"

definition row_id :: "ClientAPIStat \<Rightarrow> string \<times> string" where
  "row_id s = (row_label s, row_hash s)"

text \<open>
  What the stored details are expected to satisfy: the label of a key follows from its hash, hashes
  are free of the separator of selectors, and no client calls itself the label of the unknown ones.
\<close>

definition plain_clients :: "RequestDetail multiset \<Rightarrow> bool" where
  "plain_clients D \<longleftrightarrow>
     (\<forall>d\<in>#D. \<forall>e\<in>#D. hash_of d \<noteq> [] \<longrightarrow> hash_of e = hash_of d \<longrightarrow> clientAPIGroupLabel e = clientAPIGroupLabel d) \<and>
     (\<forall>d\<in>#D. CHR ''.'' \<notin> set (hash_of d)) \<and>
     (\<forall>d\<in>#D. hash_of d = [] \<longrightarrow> go_TrimSpace (rd_APIKey d) \<noteq> unknownAPI)"

lemma unknownAPI_facts: "unknownAPI \<noteq> []" "go_TrimSpace unknownAPI = unknownAPI" "\<not> go_Contains unknownAPI redactedMarker"
  by code_simp+

lemma group_label_trim [simp]: "go_TrimSpace (clientAPIGroupLabel d) = clientAPIGroupLabel d"
  by (simp add: clientAPIGroupLabel_def Let_def unknownAPI_facts)

lemma group_label_some [simp]: "clientAPIGroupLabel d \<noteq> []"
  by (simp add: clientAPIGroupLabel_def Let_def unknownAPI_facts)

lemma hash_trim [simp]: "go_TrimSpace (hash_of d) = hash_of d"
  by (simp add: hash_of_def)

text \<open>Clients with the same id are those with the same group key.\<close>

lemma group_key_identity: "clientAPIGroupKey d = clientAPIGroupKey e \<longleftrightarrow> clientAPIIdentity d = clientAPIIdentity e"
  by (auto simp: clientAPIGroupKey_def clientAPIIdentity_def Let_def)

lemma identity_hash: "clientAPIIdentity d = (if hash_of d \<noteq> [] then \<lparr> ci_hash = hash_of d, ci_label = [] \<rparr>
    else \<lparr> ci_hash = [], ci_label = go_TrimSpace (rd_APIKey d) \<rparr>)"
  by (simp add: clientAPIIdentity_def hash_of_def Let_def)

lemma group_key_id:
  assumes "plain_clients D" "d \<in># D" "e \<in># D"
  shows "clientAPIGroupKey d = clientAPIGroupKey e \<longleftrightarrow> client_id d = client_id e"
proof (cases "hash_of d = [] \<and> hash_of e = []")
  case True
  then have "go_TrimSpace (rd_APIKey d) \<noteq> unknownAPI" "go_TrimSpace (rd_APIKey e) \<noteq> unknownAPI"
    using assms by (simp_all add: plain_clients_def)
  then have "clientAPIGroupLabel d = clientAPIGroupLabel e \<longleftrightarrow> go_TrimSpace (rd_APIKey d) = go_TrimSpace (rd_APIKey e)"
    by (simp add: clientAPIGroupLabel_def Let_def)
  then show ?thesis using True by (simp add: group_key_identity identity_hash client_id_def)
next
  case False
  have l: "hash_of d \<noteq> [] \<Longrightarrow> hash_of e = hash_of d \<Longrightarrow> clientAPIGroupLabel e = clientAPIGroupLabel d"
    using assms unfolding plain_clients_def by blast
  have "clientAPIGroupKey d = clientAPIGroupKey e \<longleftrightarrow> hash_of d = hash_of e"
    using False by (cases "hash_of d = []"; cases "hash_of e = []") (simp_all add: group_key_identity identity_hash)
  then show ?thesis using False l unfolding client_id_def by (metis prod.inject)
qed

section \<open>One row per client\<close>

text \<open>The rows before the join: one for every client, with the counters of its requests.\<close>

definition exact_rows :: "RequestDetail multiset \<Rightarrow> ClientAPIStat list \<Rightarrow> bool" where
  "exact_rows D stats \<longleftrightarrow> distinct (map row_id stats) \<and> row_id ` set stats = client_id ` set_mset D \<and>
     (\<forall>s\<in>set stats. tally_ok (ca_tally s) (filter_mset (\<lambda>d. client_id d = row_id s) D))"

text \<open>The accumulator of a key carries the label and the hash of a detail with that key.\<close>

definition tagged :: "string \<Rightarrow> clientAPIStatAccumulator \<Rightarrow> RequestDetail multiset \<Rightarrow> bool" where
  "tagged k agg D \<longleftrightarrow> (\<exists>d\<in>#D. clientAPIGroupKey d = k \<and> ca_APIKey (cc_stat agg) = clientAPIGroupLabel d \<and>
     ca_APIKeyHash (cc_stat agg) = rd_APIKeyHash d)"

lemma inc_client_tags:
  "ca_APIKey (cc_stat (inc_client n d t c agg)) = ca_APIKey (cc_stat agg)"
  "ca_APIKeyHash (cc_stat (inc_client n d t c agg)) = ca_APIKeyHash (cc_stat agg)"
  by (simp_all add: inc_client_def Let_def)

lemma set_put_cases: "(k', v') \<in> set (go_put k v m) \<Longrightarrow> go_wf m \<Longrightarrow> k' = k \<and> v' = v \<or> k' \<noteq> k \<and> (k', v') \<in> set m"
  using go_wf_put [of m k v] by (metis go_get_put map_of_SomeD map_of_eq_Some_iff option.inject)

lemma accumulate_ok:
  assumes "sums_fit (mset (map snd ds))"
  shows "clients.keyed (accumulate_clients cost ds) (mset ds) \<and> go_wf (accumulate_clients cost ds) \<and>
    (\<forall>(k, agg)\<in>set (accumulate_clients cost ds). tagged k agg (mset (map snd ds))) \<and>
    (\<forall>e\<in>set ds. go_get (accumulate_clients cost ds) (clientAPIGroupKey (snd e)) \<noteq> None)"
  using assms
proof (induction ds rule: rev_induct)
  case Nil
  then show ?case by (simp add: accumulate_clients_def)
next
  case (snoc e ds)
  obtain n d where e: "e = (n, d)" by (cases e)
  let ?m = "accumulate_clients cost ds" and ?D = "mset (map snd ds)" and ?D' = "mset (map snd (ds @ [e]))"
  have step: "accumulate_clients cost (ds @ [e]) = clients.keyed_inc cost e ?m"
    by (simp add: accumulate_clients_def e clients_inc)
  have fit: "sums_fit ?D" by (rule sums_fit_sub [OF snoc.prems]) simp
  note ih = snoc.IH [OF fit]
  have k: "clients.keyed (clients.keyed_inc cost e ?m) (mset (ds @ [e]))"
    using clients.keyed_incI [of ?m "mset ds" e cost] ih snoc.prems by simp
  define agg where "agg = inc_client (fst e) (snd e) (detailTotalsFromRequest (snd e)) (cost e)
    (case go_get ?m (clientAPIGroupKey (snd e)) of None \<Rightarrow> new_client (snd e) | Some a \<Rightarrow> a)"
  have inc: "clients.keyed_inc cost e ?m = go_put (clientAPIGroupKey (snd e)) agg ?m"
    by (simp add: clients.keyed_inc_def agg_def)
  have "tagged (clientAPIGroupKey (snd e)) agg ?D'"
  proof (cases "go_get ?m (clientAPIGroupKey (snd e))")
    case None
    then show ?thesis by (auto simp: tagged_def agg_def inc_client_tags new_client_def)
  next
    case (Some a)
    then have "tagged (clientAPIGroupKey (snd e)) a ?D" using ih by (auto dest: map_of_SomeD)
    then show ?thesis using Some by (auto simp: tagged_def agg_def inc_client_tags)
  qed
  moreover have "tagged k a ?D'" if "(k, a) \<in> set ?m" for k a
    using ih that by (auto simp: tagged_def)
  ultimately have "\<forall>(k, a)\<in>set (clients.keyed_inc cost e ?m). tagged k a ?D'"
    using ih unfolding inc by (auto dest!: set_put_cases)
  moreover have "\<forall>e'\<in>set (ds @ [e]). go_get (clients.keyed_inc cost e ?m) (clientAPIGroupKey (snd e')) \<noteq> None"
    unfolding inc go_get_put using ih by (simp del: map_of_eq_Some_iff)
  ultimately show ?case unfolding step using k ih by (simp add: inc)
qed

lemma client_row_fields [simp]: "ca_APIKey (client_row agg) = ca_APIKey (cc_stat agg)"
  "ca_APIKeyHash (client_row agg) = ca_APIKeyHash (cc_stat agg)" "ca_tally (client_row agg) = ca_tally (cc_stat agg)"
  by (simp_all add: client_row_def)

lemma accumulated_rows:
  assumes p: "plain_clients (mset (map snd ds))" and f: "sums_fit (mset (map snd ds))"
    and m: "mset accs = mset (accumulate_clients cost ds)"
  shows "exact_rows (mset (map snd ds)) (map client_row (map snd accs))"
proof -
  let ?D = "mset (map snd ds)"
  note ok = accumulate_ok [OF f, of cost]
  have s: "set accs = set (accumulate_clients cost ds)" using m by (metis set_mset_mset)
  have wf: "go_wf accs" using ok m by (metis mset_map mset_eq_imp_distinct_iff)
  have get: "go_get (accumulate_clients cost ds) k = Some agg" if "(k, agg) \<in> set accs" for k agg
    using ok that s by (simp add: map_of_eq_Some_iff)
  have tag: "\<exists>d\<in>#?D. clientAPIGroupKey d = k \<and> row_id (client_row agg) = client_id d" if "(k, agg) \<in> set accs" for k agg
    using ok that unfolding s [symmetric]
    by (fastforce simp: tagged_def row_id_def row_label_def row_hash_def client_id_def hash_of_def)
  have same: "k = k' \<longleftrightarrow> row_id (client_row agg) = row_id (client_row agg')"
    if "(k, agg) \<in> set accs" "(k', agg') \<in> set accs" for k k' agg agg'
    using tag [OF that(1)] tag [OF that(2)] group_key_id [OF p] by metis
  have ms: "mset (map snd ds) = image_mset snd (mset ds)" by simp
  have "tally_ok (ca_tally (cc_stat agg)) (filter_mset (\<lambda>d. client_id d = row_id (client_row agg)) ?D)"
    if a: "(k, agg) \<in> set accs" for k agg
  proof -
    obtain d where d: "d \<in># ?D" "clientAPIGroupKey d = k" "row_id (client_row agg) = client_id d" using tag [OF a] by blast
    have "filter_mset (\<lambda>d. client_id d = row_id (client_row agg)) ?D = filter_mset (\<lambda>d. clientAPIGroupKey d = k) ?D"
      using group_key_id [OF p _ d(1)] d by (intro filter_mset_cong) auto
    moreover have "client_ok agg (filter_mset (\<lambda>e. clientAPIGroupKey (snd e) = k) (mset ds))"
      using clients.keyedD [of "accumulate_clients cost ds" "mset ds" k] ok get [OF a] by simp
    moreover have "image_mset snd (filter_mset (\<lambda>e. clientAPIGroupKey (snd e) = k) (mset ds)) =
        filter_mset (\<lambda>d. clientAPIGroupKey d = k) ?D"
      by (simp add: filter_mset_image_mset o_def)
    ultimately show ?thesis by (simp add: client_ok_def)
  qed
  moreover have "distinct (map row_id (map client_row (map snd accs)))"
  proof -
    have "inj_on (\<lambda>(k, agg). row_id (client_row agg)) (set accs)"
      using same wf by (auto simp: inj_on_def) (metis eq_key_imp_eq_value)
    moreover have "distinct accs" using wf distinct_map by blast
    ultimately have "distinct (map (\<lambda>(k, agg). row_id (client_row agg)) accs)" by (simp add: distinct_map)
    then show ?thesis by (simp add: o_def case_prod_unfold)
  qed
  moreover have "row_id ` set (map client_row (map snd accs)) = client_id ` set_mset ?D"
  proof
    show "row_id ` set (map client_row (map snd accs)) \<subseteq> client_id ` set_mset ?D"
    proof
      fix x assume "x \<in> row_id ` set (map client_row (map snd accs))"
      then obtain k agg where "(k, agg) \<in> set accs" "x = row_id (client_row agg)" by auto
      then show "x \<in> client_id ` set_mset ?D" using tag by blast
    qed
    show "client_id ` set_mset ?D \<subseteq> row_id ` set (map client_row (map snd accs))"
    proof
      fix x assume "x \<in> client_id ` set_mset ?D"
      then obtain n d where d: "(n, d) \<in> set ds" "x = client_id d" by auto
      have "go_get (accumulate_clients cost ds) (clientAPIGroupKey (snd (n, d))) \<noteq> None" using ok d(1) by blast
      then obtain agg where a: "(clientAPIGroupKey d, agg) \<in> set accs"
        using s by (metis map_of_SomeD not_None_eq snd_conv)
      obtain e where e: "e \<in># ?D" "clientAPIGroupKey e = clientAPIGroupKey d" "row_id (client_row agg) = client_id e"
        using tag [OF a] by blast
      have "d \<in># ?D" using d(1) by (metis in_multiset_in_set list.set_map image_eqI snd_conv)
      then have "row_id (client_row agg) = x" using group_key_id [OF p e(1)] e(2,3) d(2) by metis
      moreover have "client_row agg \<in> set (map client_row (map snd accs))"
        using a by (metis list.set_map image_eqI snd_conv)
      ultimately show "x \<in> row_id ` set (map client_row (map snd accs))" by blast
    qed
  qed
  ultimately show ?thesis by (auto simp: exact_rows_def)
qed

section \<open>Joining the rows of a masked key\<close>

definition masked :: "string \<Rightarrow> bool" where
  "masked label \<longleftrightarrow> label \<noteq> [] \<and> go_Contains label redactedMarker"

text \<open>The rows with a label, and their hashes.\<close>

definition rows_of :: "ClientAPIStat list \<Rightarrow> nat \<Rightarrow> string \<Rightarrow> nat list" where
  "rows_of stats j label = filter (\<lambda>i. row_label (stats ! i) = label) [0..<j]"

definition hashes_of :: "ClientAPIStat list \<Rightarrow> nat list \<Rightarrow> string list" where
  "hashes_of stats indices = fold (\<lambda>i hs. if row_hash (stats ! i) \<noteq> [] then List.insert (row_hash (stats ! i)) hs else hs) indices []"

lemma hashes_of_snoc: "hashes_of stats (is @ [i]) =
    (if row_hash (stats ! i) \<noteq> [] then List.insert (row_hash (stats ! i)) (hashes_of stats is) else hashes_of stats is)"
  by (simp add: hashes_of_def)

lemma hashes_of_facts:
  "set (hashes_of stats is) = (\<lambda>i. row_hash (stats ! i)) ` set is - {[]} \<and> distinct (hashes_of stats is)"
  by (induction "is" rule: rev_induct) (auto simp: hashes_of_snoc hashes_of_def [of stats "[]"])

lemma rows_of_Suc: "rows_of stats (Suc j) label =
    (if row_label (stats ! j) = label then rows_of stats j label @ [j] else rows_of stats j label)"
  by (simp add: rows_of_def)

definition label_grp :: "ClientAPIStat list \<Rightarrow> nat \<Rightarrow> string \<Rightarrow> labelGroups" where
  "label_grp stats j label = \<lparr> lg_indices = rows_of stats j label, lg_hashes = hashes_of stats (rows_of stats j label) \<rparr>"

lemma label_groups_result:
  "go_wf (label_groups stats) \<and> (\<forall>label. go_get (label_groups stats) label =
     (if masked label \<and> rows_of stats (length stats) label \<noteq> [] then Some (label_grp stats (length stats) label) else None))"
proof -
  define F where "F = (\<lambda>i byLabel. let label = go_TrimSpace (ca_APIKey (stats ! i))
     in if label = [] \<or> \<not> go_Contains label redactedMarker then byLabel
        else let grp = go_getd \<lparr> lg_indices = [], lg_hashes = [] \<rparr> byLabel label;
                 hash = go_TrimSpace (ca_APIKeyHash (stats ! i))
             in go_put label \<lparr> lg_indices = lg_indices grp @ [i],
                  lg_hashes = (if hash \<noteq> [] then List.insert hash (lg_hashes grp) else lg_hashes grp) \<rparr> byLabel)"
  have "go_wf (fold F [0..<j] []) \<and> (\<forall>label. go_get (fold F [0..<j] []) label =
     (if masked label \<and> rows_of stats j label \<noteq> [] then Some (label_grp stats j label) else None))" for j
  proof (induction j)
    case 0
    then show ?case by (simp add: rows_of_def)
  next
    case (Suc j)
    let ?m = "fold F [0..<j] []" and ?l = "row_label (stats ! j)"
    have wf: "go_wf ?m" and get: "go_get ?m label =
       (if masked label \<and> rows_of stats j label \<noteq> [] then Some (label_grp stats j label) else None)" for label
      using Suc by blast+
    have e: "fold F [0..<Suc j] [] = F j ?m" by simp
    show ?case
    proof (cases "masked ?l")
      case False
      then have "F j ?m = ?m" by (auto simp: F_def masked_def row_label_def Let_def)
      then show ?thesis unfolding e using wf get False by (auto simp: rows_of_Suc label_grp_def)
    next
      case True
      have "go_getd \<lparr> lg_indices = [], lg_hashes = [] \<rparr> ?m ?l = label_grp stats j ?l"
        using True by (auto simp: go_getd_def get label_grp_def hashes_of_def)
      then have "F j ?m = go_put ?l (label_grp stats (Suc j) ?l) ?m"
        using True by (simp add: F_def masked_def row_label_def [symmetric] row_hash_def [symmetric] Let_def label_grp_def
            rows_of_Suc hashes_of_snoc)
      then show ?thesis
        unfolding e using wf get True by (auto simp: rows_of_Suc label_grp_def)
    qed
  qed
  from this [of "length stats"] show ?thesis by (simp add: label_groups_def F_def)
qed

lemma merge_target:
  assumes "is \<noteq> []"
  shows "clientAPIStatsMergeTarget stats is \<in> set is"
proof -
  obtain i "is'" where e: "is = i # is'" using assms by (cases "is") auto
  have "fold (\<lambda>index target. let ri = ta_TotalRequests (ca_tally (stats ! index)); rt = ta_TotalRequests (ca_tally (stats ! target))
     in if ri > rt then index
        else if ri = rt \<and> go_TrimSpace (ca_APIKeyHash (stats ! target)) = [] \<and>
             go_TrimSpace (ca_APIKeyHash (stats ! index)) \<noteq> [] then index
        else target) js i \<in> insert i (set js)" for js
    by (induction js rule: rev_induct) (auto simp: Let_def)
  then show ?thesis by (simp add: e clientAPIStatsMergeTarget_def)
qed

lemma tally_merge_ok:
  assumes "tally_ok t D" "tally_ok u E" "sums_fit (D + E)"
  shows "tally_ok (tally_merge t u) (D + E)"
  unfolding tally_ok_def
proof
  fix c
  have "wsum (Count c) D + wsum (Count c) E \<le> MaxInt64" using assms(3) unfolding sums_fit_def by (metis wsum_simps(3))
  moreover have "tally_get c (tally_merge t u) = addNonNegativeInt64 (tally_get c t) (tally_get c u)"
    by (cases c) (simp_all add: tally_merge_def)
  ultimately show "tally_get c (tally_merge t u) = wsum (Count c) (D + E)"
    using assms(1,2) add_exact [of "wsum (Count c) D" "wsum (Count c) E"] by (simp add: tally_ok_def)
qed

text \<open>A row that stands for all clients with its label: those with its hash and those without one.\<close>

definition joined :: "RequestDetail multiset \<Rightarrow> ClientAPIStat \<Rightarrow> bool" where
  "joined D s \<longleftrightarrow> masked (row_label s) \<and> row_hash s \<noteq> [] \<and> row_id s \<in> client_id ` set_mset D \<and>
     (\<forall>d\<in>#D. clientAPIGroupLabel d = row_label s \<longrightarrow> hash_of d = [] \<or> hash_of d = row_hash s) \<and>
     tally_ok (ca_tally s) (filter_mset (\<lambda>d. clientAPIGroupLabel d = row_label s) D)"

definition settled :: "RequestDetail multiset \<Rightarrow> ClientAPIStat list \<Rightarrow> string \<Rightarrow> ClientAPIStat list \<Rightarrow> nat list \<Rightarrow> bool" where
  "settled D stats0 label stats removed \<longleftrightarrow>
     (\<forall>i\<in>set (rows_of stats0 (length stats0) label). stats ! i = stats0 ! i \<and> i \<notin> set removed) \<or>
     (\<exists>i j. set (rows_of stats0 (length stats0) label) = {i, j} \<and> i \<noteq> j \<and> i \<notin> set removed \<and> j \<in> set removed \<and>
        row_label (stats ! i) = label \<and> joined D (stats ! i))"

lemma rows_of_set: "set (rows_of stats j label) = {i. i < j \<and> row_label (stats ! i) = label}"
  by (auto simp: rows_of_def)

lemma exact_rows_inj:
  assumes "exact_rows D stats" "i < length stats" "j < length stats" "row_id (stats ! i) = row_id (stats ! j)"
  shows "i = j"
proof -
  have "distinct (map row_id stats)" using assms(1) by (simp add: exact_rows_def)
  then show ?thesis using assms(2-4) nth_eq_iff_index_eq [of "map row_id stats" i j] by simp
qed

text \<open>Two or more rows of one label with at most one hash are two rows, one of them without a hash.\<close>

lemma joinable_rows:
  fixes stats :: "ClientAPIStat list" and label :: string
  defines "is \<equiv> rows_of stats (length stats) label"
  assumes ex: "exact_rows D stats" and two: "2 \<le> length is" and one: "length (hashes_of stats is) \<le> 1"
  obtains i j h where "is = [i, j]" "i \<noteq> j" "h \<noteq> []" "hashes_of stats is = [h]" "go_TrimSpace h = h"
    "{row_hash (stats ! i), row_hash (stats ! j)} = {[], h}"
proof -
  let ?h = "\<lambda>i. row_hash (stats ! i)"
  have d: "distinct is" by (simp add: is_def rows_of_def)
  have inj: "inj_on ?h (set is)"
    unfolding inj_on_def is_def rows_of_set using exact_rows_inj [OF ex] by (auto simp: row_id_def)
  note hf = hashes_of_facts [of stats "is"]
  have sub: "?h ` set is \<subseteq> insert [] (set (hashes_of stats is))" using hf by auto
  have c: "card (?h ` set is) = length is" using card_image [OF inj] distinct_card [OF d] by simp
  have "card (insert [] (set (hashes_of stats is))) \<le> Suc (length (hashes_of stats is))"
    by (metis card_insert_le_m1 card_length le_SucI Suc_le_mono card_insert_if finite_set)
  then have l: "length is \<le> Suc (length (hashes_of stats is))" using card_mono [OF _ sub] c by simp
  then have l2: "length is = 2" "length (hashes_of stats is) = 1" using two one by auto
  then obtain i j where ij: "is = [i, j]" by (metis (no_types) One_nat_def Suc_1 length_0_conv length_Suc_conv)
  obtain h where h: "hashes_of stats is = [h]" using l2(2) by (auto simp: length_Suc_conv)
  have hn: "h \<noteq> []" "h \<in> ?h ` set is" using hf h by auto
  have "card {[], h} = 2" using hn(1) by simp
  then have "?h ` set is = {[], h}" using sub c l2(1) h by (intro card_subset_eq) simp_all
  moreover have "go_TrimSpace h = h" using hn(2) by (auto simp: row_hash_def)
  ultimately show ?thesis using that [OF ij _ hn(1) h] d ij by simp
qed

lemma merge_fields:
  "row_label s \<noteq> [] \<Longrightarrow> row_label (mergeClientAPIStat s s') = row_label s"
  "ca_tally (mergeClientAPIStat s s') = tally_merge (ca_tally s) (ca_tally s')"
  by (simp_all add: mergeClientAPIStat_def Let_def row_label_def)

text \<open>The join of the row \<open>s\<close> into the row \<open>t\<close>.\<close>

lemma join_ok:
  assumes ex: "exact_rows D stats" and fit: "sums_fit D" and m: "masked label"
    and ts: "set (rows_of stats (length stats) label) = {t, s}" "t \<noteq> s"
    and h: "{row_hash (stats ! t), row_hash (stats ! s)} = {[], h}" "h \<noteq> []" "go_TrimSpace h = h"
  defines "row \<equiv> (mergeClientAPIStat (stats ! t) (stats ! s))\<lparr> ca_APIKeyHash := h \<rparr>"
  shows "row_label row = label \<and> joined D row"
proof -
  have lt: "t < length stats" "s < length stats" "row_label (stats ! t) = label" "row_label (stats ! s) = label"
    using ts(1) unfolding rows_of_set by blast+
  have ln: "label \<noteq> []" using m by (simp add: masked_def)
  have upd: "row_label (x\<lparr> ca_APIKeyHash := h \<rparr>) = row_label x" for x by (simp add: row_label_def)
  have l: "row_label row = label" using merge_fields(1) [of "stats ! t"] lt(3) ln by (simp add: row_def upd)
  have rh: "row_hash row = h" using h(3) by (simp add: row_def row_hash_def)
  have ids: "client_id d \<in> {row_id (stats ! t), row_id (stats ! s)}" if d: "d \<in># D" "clientAPIGroupLabel d = label" for d
  proof -
    have "client_id d \<in> row_id ` set stats" using ex d(1) unfolding exact_rows_def by blast
    then obtain i where i: "i < length stats" "row_id (stats ! i) = client_id d" by (metis imageE in_set_conv_nth)
    then have "row_label (stats ! i) = label" using d(2) by (simp add: row_id_def client_id_def)
    then have "i \<in> {t, s}" using i(1) ts(1) unfolding rows_of_set by blast
    then show ?thesis using i(2) by auto
  qed
  have ne: "row_id (stats ! t) \<noteq> row_id (stats ! s)" using exact_rows_inj [OF ex lt(1,2)] ts(2) by blast
  have lab: "clientAPIGroupLabel d = label" if "client_id d = row_id (stats ! t) \<or> client_id d = row_id (stats ! s)" for d
    using that lt(3,4) by (auto simp: client_id_def row_id_def)
  have split: "filter_mset (\<lambda>d. clientAPIGroupLabel d = label) D =
      filter_mset (\<lambda>d. client_id d = row_id (stats ! t)) D + filter_mset (\<lambda>d. client_id d = row_id (stats ! s)) D"
  proof -
    have "filter_mset (\<lambda>d. clientAPIGroupLabel d = label) D =
        filter_mset (\<lambda>d. client_id d = row_id (stats ! t) \<or> client_id d = row_id (stats ! s)) D"
      using ids lab by (intro filter_mset_cong) auto
    also have "\<dots> = filter_mset (\<lambda>d. client_id d = row_id (stats ! t)) D + filter_mset (\<lambda>d. client_id d = row_id (stats ! s)) D"
      using ne by (induction D) auto
    finally show ?thesis .
  qed
  have "tally_ok (ca_tally (stats ! i)) (filter_mset (\<lambda>d. client_id d = row_id (stats ! i)) D)" if "i < length stats" for i
    using ex that by (simp add: exact_rows_def)
  from tally_merge_ok [OF this [OF lt(1)] this [OF lt(2)]]
  have tal: "tally_ok (ca_tally row) (filter_mset (\<lambda>d. clientAPIGroupLabel d = label) D)"
    using sums_fit_sub [OF fit] by (simp add: row_def merge_fields(2) flip: split)
  have hs: "hash_of d = [] \<or> hash_of d = h" if d: "d \<in># D" "clientAPIGroupLabel d = label" for d
    using ids [OF d] h(1) by (auto simp: client_id_def row_id_def)
  have "row_id (stats ! t) \<in> client_id ` set_mset D" "row_id (stats ! s) \<in> client_id ` set_mset D"
    using ex lt(1,2) unfolding exact_rows_def by (metis image_eqI nth_mem)+
  moreover have "row_id row = row_id (stats ! t) \<or> row_id row = row_id (stats ! s)"
    using h(1) l rh lt(3,4) by (auto simp: row_id_def)
  ultimately have "row_id row \<in> client_id ` set_mset D" by metis
  then show ?thesis unfolding joined_def l rh using m h(2) hs tal by blast
qed

lemma merge_group_two:
  assumes "lg_indices grp = [i, j]" "lg_hashes grp = [h]" "i \<noteq> j"
  obtains t s where "{t, s} = {i, j}" "t \<noteq> s"
    "merge_group grp (stats, removed) = (if t < length stats
       then stats[t := (mergeClientAPIStat (stats ! t) (stats ! s))\<lparr> ca_APIKeyHash := h \<rparr>] else stats, s # removed)"
proof -
  define t where "t = clientAPIStatsMergeTarget stats [i, j]"
  have "t = i \<or> t = j" using merge_target [of "[i, j]" stats] by (simp add: t_def)
  then show ?thesis
  proof
    assume e: "t = i"
    show ?thesis
    proof (rule that [of i j])
      show "merge_group grp (stats, removed) = (if i < length stats
         then stats[i := (mergeClientAPIStat (stats ! i) (stats ! j))\<lparr> ca_APIKeyHash := h \<rparr>] else stats, j # removed)"
        using assms e by (simp add: merge_group_def t_def [symmetric] Let_def list_update_beyond)
    qed (use assms(3) in auto)
  next
    assume e: "t = j"
    show ?thesis
    proof (rule that [of j i])
      show "merge_group grp (stats, removed) = (if j < length stats
         then stats[j := (mergeClientAPIStat (stats ! j) (stats ! i))\<lparr> ca_APIKeyHash := h \<rparr>] else stats, i # removed)"
        using assms e by (simp add: merge_group_def t_def [symmetric] Let_def list_update_beyond)
    qed (use assms(3) in auto)
  qed
qed

definition untouched :: "ClientAPIStat list \<Rightarrow> string \<Rightarrow> ClientAPIStat list \<Rightarrow> nat list \<Rightarrow> bool" where
  "untouched stats0 label stats removed \<longleftrightarrow>
     (\<forall>i\<in>set (rows_of stats0 (length stats0) label). stats ! i = stats0 ! i \<and> i \<notin> set removed)"

lemma untouched_settled: "untouched stats0 label stats removed \<Longrightarrow> settled D stats0 label stats removed"
  by (simp add: untouched_def settled_def)

lemma merge_group_step:
  assumes ex: "exact_rows D stats0" and fit: "sums_fit D" and m: "masked label"
    and len: "length stats = length stats0" and un: "untouched stats0 label stats removed"
    and st: "merge_group (label_grp stats0 (length stats0) label) (stats, removed) = (stats', removed')"
  shows "length stats' = length stats0" "settled D stats0 label stats' removed'"
    "\<And>l. l \<noteq> label \<Longrightarrow> untouched stats0 l stats' removed' = untouched stats0 l stats removed"
    "\<And>l. l \<noteq> label \<Longrightarrow> settled D stats0 l stats' removed' = settled D stats0 l stats removed"
    "set removed' \<subseteq> set removed \<union> {..<length stats0}"
proof -
  let ?is = "rows_of stats0 (length stats0) label"
  have "length stats' = length stats0 \<and> settled D stats0 label stats' removed' \<and>
    (\<forall>l. l \<noteq> label \<longrightarrow> untouched stats0 l stats' removed' = untouched stats0 l stats removed \<and>
       settled D stats0 l stats' removed' = settled D stats0 l stats removed) \<and>
    set removed' \<subseteq> set removed \<union> {..<length stats0}"
  proof (cases "length ?is < 2 \<or> length (hashes_of stats0 ?is) > 1")
    case True
    then have "(stats', removed') = (stats, removed)" using st by (auto simp: merge_group_def label_grp_def split: if_splits)
    then show ?thesis using len untouched_settled [OF un] by simp
  next
    case False
    obtain i j h where ij: "?is = [i, j]" "i \<noteq> j" "h \<noteq> []" "hashes_of stats0 ?is = [h]" "go_TrimSpace h = h"
        "{row_hash (stats0 ! i), row_hash (stats0 ! j)} = {[], h}"
      using joinable_rows [OF ex] False by (metis not_less)
    obtain t s where ts: "{t, s} = {i, j}" "t \<noteq> s"
      and r: "merge_group (label_grp stats0 (length stats0) label) (stats, removed) = (if t < length stats
       then stats[t := (mergeClientAPIStat (stats ! t) (stats ! s))\<lparr> ca_APIKeyHash := h \<rparr>] else stats, s # removed)"
      using merge_group_two [of "label_grp stats0 (length stats0) label" i j h stats removed] ij by (auto simp: label_grp_def)
    have set_is: "set ?is = {t, s}" using ij(1) ts(1) by auto
    have lt: "t < length stats0" "s < length stats0" "row_label (stats0 ! t) = label" "row_label (stats0 ! s) = label"
      using set_is unfolding rows_of_set by blast+
    have same: "stats ! t = stats0 ! t" "stats ! s = stats0 ! s" "t \<notin> set removed" "s \<notin> set removed"
      using un unfolding untouched_def set_is by blast+
    let ?row = "(mergeClientAPIStat (stats0 ! t) (stats0 ! s))\<lparr> ca_APIKeyHash := h \<rparr>"
    have e: "stats' = stats[t := ?row]" "removed' = s # removed" using r st len lt(1) same by auto
    have "{row_hash (stats0 ! t), row_hash (stats0 ! s)} = {[], h}"
      using ij(6) ts by (auto simp: doubleton_eq_iff)
    note j = join_ok [OF ex fit m set_is ts(2) this ij(3,5)]
    have "settled D stats0 label stats' removed'"
      unfolding settled_def set_is e using j ts(2) same(3) lt(1) len by (intro disjI2 exI [of _ t] exI [of _ s]) simp
    moreover have keep: "stats' ! k = stats ! k" "k \<in> set removed' \<longleftrightarrow> k \<in> set removed"
      if k: "k \<in> set (rows_of stats0 (length stats0) l)" "l \<noteq> label" for k l
    proof -
      have "k \<noteq> t" "k \<noteq> s" using k lt(3,4) unfolding rows_of_set by blast+
      then show "stats' ! k = stats ! k" "k \<in> set removed' \<longleftrightarrow> k \<in> set removed" by (simp_all add: e)
    qed
    moreover have "untouched stats0 l stats' removed' = untouched stats0 l stats removed" if "l \<noteq> label" for l
      unfolding untouched_def using keep [OF _ that] by (intro ball_cong refl) simp
    moreover have "settled D stats0 l stats' removed' = settled D stats0 l stats removed" if "l \<noteq> label" for l
      unfolding settled_def using keep [OF _ that] by (intro arg_cong2 [where f = "(\<or>)"] ball_cong ex_cong1 refl) auto
    moreover have "set removed' \<subseteq> set removed \<union> {..<length stats0}" using lt(2) by (simp add: e)
    moreover have "length stats' = length stats0" using len by (simp add: e)
    ultimately show ?thesis by blast
  qed
  then show "length stats' = length stats0" "settled D stats0 label stats' removed'"
    "\<And>l. l \<noteq> label \<Longrightarrow> untouched stats0 l stats' removed' = untouched stats0 l stats removed"
    "\<And>l. l \<noteq> label \<Longrightarrow> settled D stats0 l stats' removed' = settled D stats0 l stats removed"
    "set removed' \<subseteq> set removed \<union> {..<length stats0}" by blast+
qed

lemma merge_groups:
  assumes ex: "exact_rows D stats0" and fit: "sums_fit D"
    and gs: "go_wf gs" "\<forall>(label, grp)\<in>set gs. masked label \<and> grp = label_grp stats0 (length stats0) label"
    and len: "length stats = length stats0" and set: "\<forall>l. settled D stats0 l stats removed"
    and un: "\<forall>l\<in>fst ` set gs. untouched stats0 l stats removed"
    and st: "fold (\<lambda>(label, grp). merge_group grp) gs (stats, removed) = (stats', removed')"
  shows "length stats' = length stats0 \<and> (\<forall>l. settled D stats0 l stats' removed') \<and>
    set removed' \<subseteq> set removed \<union> {..<length stats0}"
  using gs len set un st
proof (induction gs arbitrary: stats removed)
  case (Cons x gs)
  obtain label where x: "x = (label, label_grp stats0 (length stats0) label)" and m: "masked label"
    using Cons.prems(2) by (cases x) auto
  obtain stats1 removed1 where s1: "merge_group (label_grp stats0 (length stats0) label) (stats, removed) = (stats1, removed1)"
    by (metis surj_pair)
  have un: "untouched stats0 label stats removed" using Cons.prems(5) x by simp
  note ms = merge_group_step [OF ex fit m Cons.prems(3) un s1]
  have nl: "label \<notin> fst ` set gs" using Cons.prems(1) x by simp
  have "length stats' = length stats0 \<and> (\<forall>l. settled D stats0 l stats' removed') \<and>
    set removed' \<subseteq> set removed1 \<union> {..<length stats0}"
  proof (rule Cons.IH)
    show "\<forall>l. settled D stats0 l stats1 removed1" using ms(2,4) Cons.prems(4) by metis
    show "\<forall>l\<in>fst ` set gs. untouched stats0 l stats1 removed1"
    proof
      fix l assume l: "l \<in> fst ` set gs"
      then have "l \<noteq> label" using nl by blast
      moreover have "untouched stats0 l stats removed" using Cons.prems(5) l by auto
      ultimately show "untouched stats0 l stats1 removed1" using ms(3) by blast
    qed
    show "fold (\<lambda>(label, grp). merge_group grp) gs (stats1, removed1) = (stats', removed')"
      using Cons.prems(6) s1 by (simp add: x)
  qed (use Cons.prems ms(1) in auto)
  then show ?case using ms(5) by blast
qed auto

section \<open>The rows after the join\<close>

definition exact :: "RequestDetail multiset \<Rightarrow> ClientAPIStat \<Rightarrow> bool" where
  "exact D s \<longleftrightarrow> row_id s \<in> client_id ` set_mset D \<and> tally_ok (ca_tally s) (filter_mset (\<lambda>d. client_id d = row_id s) D)"

definition split_rows :: "RequestDetail multiset \<Rightarrow> ClientAPIStat list \<Rightarrow> bool" where
  "split_rows D rows \<longleftrightarrow>
     (\<forall>s\<in>set rows. exact D s \<or> joined D s) \<and>
     (\<forall>i<length rows. \<forall>j<length rows. i \<noteq> j \<longrightarrow> row_label (rows ! i) = row_label (rows ! j) \<longrightarrow>
        exact D (rows ! i) \<and> row_id (rows ! i) \<noteq> row_id (rows ! j)) \<and>
     (\<forall>d\<in>#D. \<exists>s\<in>set rows. row_label s = clientAPIGroupLabel d \<and> (joined D s \<or> row_id s = client_id d))"

lemma exact_rows_exact: "exact_rows D stats \<Longrightarrow> s \<in> set stats \<Longrightarrow> exact D s"
  unfolding exact_rows_def exact_def by blast

lemma kept_rows:
  assumes ex: "exact_rows D stats0" and len: "length stats = length stats0"
    and set: "\<forall>l. settled D stats0 l stats removed"
  shows "split_rows D (map (\<lambda>i. stats ! i) (filter (\<lambda>i. i \<notin> set removed) [0..<length stats]))"
proof -
  let ?n = "length stats0" and ?is = "filter (\<lambda>i. i \<notin> set removed) [0..<length stats]"
  have kept: "row_label (stats ! i) = row_label (stats0 ! i) \<and> (stats ! i = stats0 ! i \<or> joined D (stats ! i))"
    if i: "i < ?n" "i \<notin> set removed" for i
  proof -
    let ?R = "set (rows_of stats0 ?n (row_label (stats0 ! i)))"
    have iR: "i \<in> ?R" using i(1) by (simp add: rows_of_set)
    from set [rule_format, of "row_label (stats0 ! i)"] show ?thesis
      unfolding settled_def
    proof (elim disjE exE conjE)
      assume "\<forall>j\<in>?R. stats ! j = stats0 ! j \<and> j \<notin> set removed"
      then have "stats ! i = stats0 ! i" using iR by blast
      then show ?thesis by simp
    next
      fix t j assume t: "?R = {t, j}" "j \<in> set removed" "row_label (stats ! t) = row_label (stats0 ! i)" "joined D (stats ! t)"
      then have "i = t" using iR i(2) by blast
      then show ?thesis using t(3,4) by simp
    qed
  qed
  have ex0: "exact D (stats0 ! i)" if "i < ?n" for i using exact_rows_exact [OF ex] that by simp
  have pair: "stats ! i = stats0 ! i \<and> stats ! j = stats0 ! j"
    if ij: "i < ?n" "i \<notin> set removed" "j < ?n" "j \<notin> set removed" "i \<noteq> j" "row_label (stats ! i) = row_label (stats ! j)" for i j
  proof -
    let ?R = "set (rows_of stats0 ?n (row_label (stats0 ! i)))"
    have R: "i \<in> ?R" "j \<in> ?R" using ij kept [OF ij(1,2)] kept [OF ij(3,4)] unfolding rows_of_set by simp_all
    from set [rule_format, of "row_label (stats0 ! i)"] show ?thesis
      unfolding settled_def
    proof (elim disjE exE conjE)
      assume "\<forall>j\<in>?R. stats ! j = stats0 ! j \<and> j \<notin> set removed"
      then show ?thesis using R by blast
    next
      fix t u assume t: "?R = {t, u}" "u \<in> set removed"
      then have "i = t" "j = t" using R ij(2,4) by blast+
      then show ?thesis using ij(5) by blast
    qed
  qed
  have nth: "?is ! p < ?n \<and> ?is ! p \<notin> set removed" if "p < length ?is" for p
    using nth_mem [OF that] len by simp
  have "exact D s \<or> joined D s" if "s \<in> set (map (\<lambda>i. stats ! i) ?is)" for s
    using that len kept ex0 by fastforce
  moreover have "exact D (stats ! (?is ! p)) \<and> row_id (stats ! (?is ! p)) \<noteq> row_id (stats ! (?is ! q))"
    if pq: "p < length ?is" "q < length ?is" "p \<noteq> q" "row_label (stats ! (?is ! p)) = row_label (stats ! (?is ! q))" for p q
  proof -
    have ne: "?is ! p \<noteq> ?is ! q" using pq(1-3) by (simp add: nth_eq_iff_index_eq)
    have e: "stats ! (?is ! p) = stats0 ! (?is ! p)" "stats ! (?is ! q) = stats0 ! (?is ! q)"
      using pair [of "?is ! p" "?is ! q"] nth [OF pq(1)] nth [OF pq(2)] ne pq(4) by blast+
    have "row_id (stats0 ! (?is ! p)) \<noteq> row_id (stats0 ! (?is ! q))"
      using exact_rows_inj [OF ex, of "?is ! p" "?is ! q"] nth [OF pq(1)] nth [OF pq(2)] ne by blast
    then show ?thesis using ex0 [of "?is ! p"] nth [OF pq(1)] unfolding e by blast
  qed
  moreover have "\<exists>s\<in>set (map (\<lambda>i. stats ! i) ?is). row_label s = clientAPIGroupLabel d \<and> (joined D s \<or> row_id s = client_id d)"
    if d: "d \<in># D" for d
  proof -
    have "client_id d \<in> row_id ` set stats0" using ex d unfolding exact_rows_def by blast
    then obtain i where i: "i < ?n" "row_id (stats0 ! i) = client_id d" by (metis imageE in_set_conv_nth)
    then have l: "row_label (stats0 ! i) = clientAPIGroupLabel d" by (simp add: row_id_def client_id_def)
    have "i \<in> set (rows_of stats0 ?n (clientAPIGroupLabel d))" using i(1) l by (simp add: rows_of_set)
    then have "(stats ! i = stats0 ! i \<and> i \<notin> set removed) \<or>
      (\<exists>t. t < ?n \<and> t \<notin> set removed \<and> row_label (stats ! t) = clientAPIGroupLabel d \<and> joined D (stats ! t))"
      using set [rule_format, of "clientAPIGroupLabel d"] unfolding settled_def rows_of_set by blast
    then show ?thesis using i l len by (auto intro: bexI [of _ i])
  qed
  ultimately show ?thesis unfolding split_rows_def by (simp)
qed

lemma coalesce_rows:
  assumes ex: "exact_rows D stats" and fit: "sums_fit D" and v: "\<And>gs. mset (visit gs) = mset gs"
  shows "split_rows D (coalesceMaskedClientAPIStats visit stats)"
proof -
  have un: "untouched stats l stats []" for l by (simp add: untouched_def)
  obtain stats' removed where f: "fold (\<lambda>(label, grp). merge_group grp) (visit (label_groups stats)) (stats, []) = (stats', removed)"
    by (metis surj_pair)
  have gs: "set (visit (label_groups stats)) = set (label_groups stats)" using v by (metis set_mset_mset)
  have wf: "go_wf (visit (label_groups stats))"
    using label_groups_result [of stats] v by (metis mset_map mset_eq_imp_distinct_iff)
  have mem: "masked label \<and> grp = label_grp stats (length stats) label" if "(label, grp) \<in> set (visit (label_groups stats))" for label grp
  proof -
    have "go_get (label_groups stats) label = Some grp"
      using that gs label_groups_result [of stats] by (intro map_of_is_SomeI) auto
    then show ?thesis using label_groups_result [of stats] by (metis option.distinct(1) option.inject)
  qed
  have mg: "length stats' = length stats \<and> (\<forall>l. settled D stats l stats' removed) \<and> set removed \<subseteq> set [] \<union> {..<length stats}"
    by (rule merge_groups [OF ex fit wf _ refl _ _ f]) (use mem un untouched_settled in blast)+
  have k: "split_rows D (map (\<lambda>i. stats' ! i) (filter (\<lambda>i. i \<notin> set removed) [0..<length stats']))"
    using kept_rows [OF ex] mg by blast
  show ?thesis
  proof (cases "length stats < 2")
    case True
    have "split_rows D (map (\<lambda>i. stats ! i) (filter (\<lambda>i. i \<notin> set []) [0..<length stats]))"
      by (rule kept_rows [OF ex refl]) (use un untouched_settled in blast)
    then show ?thesis using True by (simp add: coalesceMaskedClientAPIStats_def map_nth)
  next
    case False
    then show ?thesis using k by (auto simp: coalesceMaskedClientAPIStats_def f map_nth)
  qed
qed

section \<open>What a selector selects\<close>

lemma parse_some_trim: "parseClientAPISelector v = Some sl \<Longrightarrow> go_TrimSpace v \<noteq> []"
proof
  assume p: "parseClientAPISelector v = Some sl" and t: "go_TrimSpace v = []"
  have "go_Split [] ''.'' = [[]]" by (rule split_last) simp
  then show False using p by (simp add: parseClientAPISelector_def t Let_def)
qed

lemma matches_parsed:
  assumes "parseClientAPISelector v = Some sl"
  shows "sl_kind sl = CHR ''u'' \<Longrightarrow> clientAPISelectorMatchesDetail v d \<longleftrightarrow> go_TrimSpace (rd_APIKey d) = [] \<and> hash_of d = []"
    "sl_kind sl = CHR ''m'' \<Longrightarrow> clientAPISelectorMatchesDetail v d \<longleftrightarrow> go_TrimSpace (rd_APIKey d) = sl_label sl"
    "sl_kind sl = CHR ''l'' \<Longrightarrow> clientAPISelectorMatchesDetail v d \<longleftrightarrow> hash_of d = [] \<and> go_TrimSpace (rd_APIKey d) = sl_label sl"
    "sl_kind sl = CHR ''x'' \<Longrightarrow> clientAPISelectorMatchesDetail v d \<longleftrightarrow> hash_of d = sl_hash sl"
    "sl_kind sl = CHR ''h'' \<Longrightarrow> clientAPISelectorMatchesDetail v d \<longleftrightarrow>
       hash_of d = sl_hash sl \<or> hash_of d = [] \<and> go_TrimSpace (rd_APIKey d) = sl_label sl"
  using parse_some_trim [OF assms]
  by (simp_all add: clientAPISelectorMatchesDetail_def assms hash_of_def Let_def)

text \<open>How a row is selected: by its hash, as the unknown client, or by its label.\<close>

lemma selector_matches:
  fixes rows :: "ClientAPIStat list"
  assumes l: "row_label s \<noteq> []" and nd: "CHR ''.'' \<notin> set (row_hash s)"
  defines "many \<equiv> length (filter (\<lambda>t. row_label t = row_label s) rows) > 1"
  shows "row_hash s \<noteq> [] \<Longrightarrow> clientAPISelectorMatchesDetail (row_selector rows s) d \<longleftrightarrow>
      hash_of d = row_hash s \<or> \<not> many \<and> hash_of d = [] \<and> go_TrimSpace (rd_APIKey d) = row_label s"
    "row_hash s = [] \<Longrightarrow> row_label s = unknownAPI \<Longrightarrow> clientAPISelectorMatchesDetail (row_selector rows s) d \<longleftrightarrow>
      go_TrimSpace (rd_APIKey d) = [] \<and> hash_of d = []"
    "row_hash s = [] \<Longrightarrow> row_label s \<noteq> unknownAPI \<Longrightarrow> clientAPISelectorMatchesDetail (row_selector rows s) d \<longleftrightarrow>
      (many \<longrightarrow> hash_of d = []) \<and> go_TrimSpace (rd_APIKey d) = row_label s"
proof -
  have tl: "go_TrimSpace (row_label s) = row_label s" and th: "go_TrimSpace (row_hash s) = row_hash s"
    by (simp_all add: row_label_def row_hash_def)
  have sel: "clientAPISelectorForStat s =
     (if row_hash s \<noteq> [] then ''h.'' @ row_hash s @ ''.'' @ b64_EncodeToString (row_label s)
      else if row_label s = unknownAPI then ''u'' else ''m.'' @ b64_EncodeToString (row_label s))"
    using l by (simp add: clientAPISelectorForStat_def row_label_def row_hash_def Let_def)
  have cnt: "length (filter (\<lambda>t. go_TrimSpace (ca_APIKey t) = go_TrimSpace (ca_APIKey s)) rows) > 1 \<longleftrightarrow> many"
    by (simp add: many_def row_label_def)
  have row: "row_selector rows s =
     (if row_hash s \<noteq> [] then (if many then CHR ''x'' else CHR ''h'') # ''.'' @ row_hash s @ ''.'' @ b64_EncodeToString (row_label s)
      else if row_label s = unknownAPI then ''u''
      else (if many then CHR ''l'' else CHR ''m'') # ''.'' @ b64_EncodeToString (row_label s))"
    unfolding row_selector_def Let_def cnt sel by simp
  show "row_hash s \<noteq> [] \<Longrightarrow> clientAPISelectorMatchesDetail (row_selector rows s) d \<longleftrightarrow>
      hash_of d = row_hash s \<or> \<not> many \<and> hash_of d = [] \<and> go_TrimSpace (rd_APIKey d) = row_label s"
    using matches_parsed(4,5) [OF parse_hash [OF _ l tl _ th nd]] by (simp add: row)
  show "row_hash s = [] \<Longrightarrow> row_label s = unknownAPI \<Longrightarrow> clientAPISelectorMatchesDetail (row_selector rows s) d \<longleftrightarrow>
      go_TrimSpace (rd_APIKey d) = [] \<and> hash_of d = []"
    using matches_parsed(1) [OF parse_unknown] by (simp add: row)
  show "row_hash s = [] \<Longrightarrow> row_label s \<noteq> unknownAPI \<Longrightarrow> clientAPISelectorMatchesDetail (row_selector rows s) d \<longleftrightarrow>
      (many \<longrightarrow> hash_of d = []) \<and> go_TrimSpace (rd_APIKey d) = row_label s"
    using matches_parsed(2,3) [OF parse_label [OF _ l tl]] by (simp add: row)
qed

lemma many_iff:
  assumes "i < length rows"
  shows "length (filter (\<lambda>t. row_label t = row_label (rows ! i)) rows) > 1 \<longleftrightarrow>
    (\<exists>j<length rows. j \<noteq> i \<and> row_label (rows ! j) = row_label (rows ! i))"
proof -
  define J where "J = {j. j < length rows \<and> row_label (rows ! j) = row_label (rows ! i)}"
  have c: "length (filter (\<lambda>t. row_label t = row_label (rows ! i)) rows) = card J"
    unfolding J_def by (rule length_filter_conv_card)
  have f: "finite J" "i \<in> J" using assms by (simp_all add: J_def)
  have "card J > 1 \<longleftrightarrow> (\<exists>j\<in>J. j \<noteq> i)"
  proof
    assume "\<exists>j\<in>J. j \<noteq> i"
    then obtain j where "j \<in> J" "j \<noteq> i" by blast
    then have "card {i, j} \<le> card J" using f by (intro card_mono) auto
    then show "card J > 1" using \<open>j \<noteq> i\<close> by simp
  next
    assume a: "card J > 1"
    have "J \<noteq> {i}" using a by auto
    then show "\<exists>j\<in>J. j \<noteq> i" using f(2) by blast
  qed
  then show ?thesis unfolding c by (auto simp: J_def)
qed

text \<open>Every row is selected by its selector, and by no other.\<close>

lemma selects_row:
  assumes sr: "split_rows D rows" and p: "plain_clients D" and i: "i < length rows" and d: "d \<in># D"
  defines "s \<equiv> rows ! i"
  defines "many \<equiv> length (filter (\<lambda>t. row_label t = row_label s) rows) > 1"
  shows "clientAPISelectorMatchesDetail (row_selector rows s) d \<longleftrightarrow>
      (if many then client_id d = row_id s else clientAPIGroupLabel d = row_label s)"
    and "tally_ok (ca_tally s) (filter_mset (\<lambda>d. if many then client_id d = row_id s else clientAPIGroupLabel d = row_label s) D)"
    and "many \<Longrightarrow> exact D s"
proof -
  have mi: "many \<longleftrightarrow> (\<exists>j<length rows. j \<noteq> i \<and> row_label (rows ! j) = row_label s)"
    unfolding many_def s_def by (rule many_iff [OF i])
  have ej: "exact D s \<or> joined D s" using sr i unfolding split_rows_def s_def by simp
  have mex: "exact D s" if m: "many"
  proof -
    obtain j where "j < length rows" "i \<noteq> j" "row_label s = row_label (rows ! j)" using m mi by metis
    then show ?thesis using sr i unfolding split_rows_def s_def by blast
  qed
  show "many \<Longrightarrow> exact D s" by (rule mex)
  obtain e where e: "e \<in># D" "row_id s = client_id e" using ej unfolding exact_def joined_def by auto
  have le: "row_label s = clientAPIGroupLabel e" "row_hash s = hash_of e" using e(2) by (simp_all add: row_id_def client_id_def)
  have l: "row_label s \<noteq> []" and nd: "CHR ''.'' \<notin> set (row_hash s)"
    using le p e(1) by (simp_all add: plain_clients_def)
  have cov: "row_id s = client_id f \<or> joined D s" if nm: "\<not> many" and f: "f \<in># D" "clientAPIGroupLabel f = row_label s" for f
  proof -
    obtain t where t: "t \<in> set rows" "row_label t = clientAPIGroupLabel f" "joined D t \<or> row_id t = client_id f"
      using sr f(1) unfolding split_rows_def by blast
    obtain j where j: "j < length rows" "t = rows ! j" using t(1) by (metis in_set_conv_nth)
    have "j = i" using nm mi j t(2) f(2) by metis
    then show ?thesis using t(3) j(2) by (auto simp: s_def)
  qed
  have hl: "hash_of f = row_hash s \<longrightarrow> clientAPIGroupLabel f = row_label s" if "f \<in># D" "row_hash s \<noteq> []" for f
    using p that e(1) unfolding plain_clients_def le by metis
  have raw: "clientAPIGroupLabel f = (if go_TrimSpace (rd_APIKey f) = [] then unknownAPI else go_TrimSpace (rd_APIKey f))" for f
    by (simp add: clientAPIGroupLabel_def Let_def)
  have unk: "go_TrimSpace (rd_APIKey f) \<noteq> unknownAPI" if "f \<in># D" "hash_of f = []" for f
    using p that by (simp add: plain_clients_def)
  have idf: "client_id f = row_id s \<longleftrightarrow> clientAPIGroupLabel f = row_label s \<and> hash_of f = row_hash s" for f
    by (auto simp: client_id_def row_id_def)
  have jm: "hash_of f = [] \<or> hash_of f = row_hash s" "row_label s \<noteq> unknownAPI" "row_hash s \<noteq> []"
    if "joined D s" "f \<in># D" "clientAPIGroupLabel f = row_label s" for f
    using that unknownAPI_facts(3) unfolding joined_def masked_def by metis+
  note sm = selector_matches [OF l nd, of rows d, folded many_def]
  show "clientAPISelectorMatchesDetail (row_selector rows s) d \<longleftrightarrow>
      (if many then client_id d = row_id s else clientAPIGroupLabel d = row_label s)"
  proof (cases "row_hash s = []")
    case False
    show ?thesis
    proof (cases many)
      case True
      then show ?thesis using sm(1) [OF False] hl [OF d False] idf by auto
    next
      case nm: False
      have "hash_of d = row_hash s \<or> hash_of d = [] \<and> go_TrimSpace (rd_APIKey d) = row_label s"
        if g: "clientAPIGroupLabel d = row_label s"
      proof (cases "row_id s = client_id d")
        case True
        then show ?thesis using idf [of d] by auto
      next
        case F: False
        then have j: "joined D s" using cov [OF nm d g] by blast
        have "row_label s = go_TrimSpace (rd_APIKey d)" using jm(2) [OF j d g] g raw [of d] by (auto split: if_splits)
        then show ?thesis using jm(1) [OF j d g] by auto
      qed
      moreover have "clientAPIGroupLabel d = row_label s" if "go_TrimSpace (rd_APIKey d) = row_label s"
        using raw [of d] that l by simp
      ultimately show ?thesis using sm(1) [OF False] hl [OF d False] nm by auto
    qed
  next
    case True
    have nj: "\<not> joined D s" using True by (simp add: joined_def)
    have hd: "hash_of d = []" if "clientAPIGroupLabel d = row_label s" "\<not> many"
      using cov [OF that(2) d that(1)] nj idf [of d] True by auto
    show ?thesis
    proof (cases "row_label s = unknownAPI")
      case u: True
      have "go_TrimSpace (rd_APIKey d) = [] \<longleftrightarrow> clientAPIGroupLabel d = unknownAPI" if "hash_of d = []"
        using raw [of d] unk [OF d that] by auto
      then show ?thesis using sm(2) [OF True u] idf [of d] True u hd by auto
    next
      case nu: False
      have "go_TrimSpace (rd_APIKey d) = row_label s \<longleftrightarrow> clientAPIGroupLabel d = row_label s"
        using raw [of d] l nu by auto
      then show ?thesis using sm(3) [OF True nu] idf [of d] True by auto
    qed
  qed
  show "tally_ok (ca_tally s) (filter_mset (\<lambda>d. if many then client_id d = row_id s else clientAPIGroupLabel d = row_label s) D)"
  proof (cases many)
    case True
    then show ?thesis using mex by (simp add: exact_def)
  next
    case nm: False
    show ?thesis
    proof (cases "joined D s")
      case True
      then show ?thesis using nm by (simp add: joined_def)
    next
      case False
      then have "exact D s" using ej by blast
      moreover have "filter_mset (\<lambda>d. clientAPIGroupLabel d = row_label s) D = filter_mset (\<lambda>d. client_id d = row_id s) D"
        using cov [OF nm] False by (intro filter_mset_cong refl) (auto simp: client_id_def row_id_def)
      ultimately show ?thesis using nm by (simp add: exact_def)
    qed
  qed
qed

text \<open>Every request belongs to exactly one row.\<close>

lemma one_row:
  assumes sr: "split_rows D rows" and p: "plain_clients D" and d: "d \<in># D"
  shows "length (filter (\<lambda>s. clientAPISelectorMatchesDetail (row_selector rows s) d) rows) = 1"
proof -
  let ?m = "\<lambda>i. clientAPISelectorMatchesDetail (row_selector rows (rows ! i)) d"
  let ?many = "\<lambda>i. length (filter (\<lambda>t. row_label t = row_label (rows ! i)) rows) > 1"
  have m: "?m i \<longleftrightarrow> (if ?many i then client_id d = row_id (rows ! i) else clientAPIGroupLabel d = row_label (rows ! i))"
    if "i < length rows" for i by (rule selects_row(1) [OF sr p that d])
  obtain s where s: "s \<in> set rows" "row_label s = clientAPIGroupLabel d" "joined D s \<or> row_id s = client_id d"
    using sr d unfolding split_rows_def by blast
  obtain i where i: "i < length rows" "s = rows ! i" using s(1) by (metis in_set_conv_nth)
  have lab: "clientAPIGroupLabel d = row_label t" if "client_id d = row_id t" for t
    using that by (simp add: client_id_def row_id_def)
  have dif: "row_id (rows ! j) \<noteq> row_id (rows ! k) \<and> ?many j"
    if "j < length rows" "k < length rows" "j \<noteq> k" "row_label (rows ! j) = row_label (rows ! k)" for j k
    using sr that many_iff [OF that(1)] unfolding split_rows_def by metis
  define P where "P j \<longleftrightarrow> j < length rows \<and> row_label (rows ! j) = clientAPIGroupLabel d \<and>
      (?many j \<longrightarrow> row_id (rows ! j) = client_id d)" for j
  have mp: "j < length rows \<and> ?m j \<longleftrightarrow> P j" for j
    using m [of j] lab [of "rows ! j"] unfolding P_def by metis
  have "\<exists>j. {j. P j} = {j}"
  proof (cases "?many i")
    case False
    then have "j = i" if "P j" for j
      using many_iff [OF i(1)] that s(2) i(2) unfolding P_def by metis
    moreover have "P i" using False i s(2) by (simp add: P_def)
    ultimately show ?thesis by blast
  next
    case True
    then obtain j where j: "j < length rows" "i \<noteq> j" "row_label (rows ! i) = row_label (rows ! j)"
      using many_iff [OF i(1)] by metis
    have "\<exists>k<length rows. row_id (rows ! k) = client_id d"
    proof (cases "row_id s = client_id d")
      case True
      then show ?thesis using i by blast
    next
      case False
      then have jn: "joined D s" using s(3) by blast
      have "exact D (rows ! i)" using sr i(1) j unfolding split_rows_def by blast
      have ex2: "row_id (rows ! j) \<in> client_id ` set_mset D" "row_id (rows ! i) \<in> client_id ` set_mset D"
        using sr i(1) j unfolding split_rows_def exact_def by metis+
      have rl: "row_label (rows ! j) = row_label s" "row_label (rows ! i) = row_label s" using j(3) i(2) by simp_all
      have h: "row_hash (rows ! k) = [] \<or> row_hash (rows ! k) = row_hash s" if "k = i \<or> k = j" for k
        using that ex2 jn rl unfolding joined_def by (auto simp: client_id_def row_id_def)
      have "row_hash (rows ! j) \<noteq> row_hash (rows ! i)"
        using dif [OF i(1) j] rl by (auto simp: row_id_def)
      then have "row_hash (rows ! j) = []" using h [of j] i(2) by auto
      moreover have "hash_of d = [] \<or> hash_of d = row_hash s" using jn d s(2) unfolding joined_def by metis
      ultimately have "row_id (rows ! j) = client_id d"
        using False s(2) rl by (auto simp: client_id_def row_id_def)
      then show ?thesis using j(1) by blast
    qed
    then obtain k where k: "k < length rows" "row_id (rows ! k) = client_id d" by blast
    have kl: "row_label (rows ! k) = clientAPIGroupLabel d" using lab [OF k(2) [symmetric]] by simp
    have "x = k" if x: "P x" for x
    proof (rule ccontr)
      assume "x \<noteq> k"
      moreover have "x < length rows" "row_label (rows ! x) = row_label (rows ! k)"
        "?many x \<longrightarrow> row_id (rows ! x) = row_id (rows ! k)" using x kl k(2) unfolding P_def by metis+
      ultimately show False using dif [of x k] k(1) by blast
    qed
    moreover have "P k" using k kl by (simp add: P_def)
    ultimately show ?thesis by blast
  qed
  then obtain j where "{j. P j} = {j}" by blast
  then show ?thesis by (simp add: length_filter_conv_card mp)
qed

end
