(* ===== verification/ClientListing.thy ===== *)
theory ClientListing
  imports ClientRows LedgerProperties
begin

text \<open>
  What the client list of the dashboard promises of the requests it counts: the theorem about all its
  rows, with an example.
\<close>

section \<open>The client list\<close>

text \<open>
  C12: The client list of the dashboard partitions the requests, in whatever order Go visits its maps:
  every request is selected by the selector of exactly one row, and each counter of a row is the sum
  over the requests that its selector selects.  Rows of one masked key are joined only if that keeps
  this true, and rows with the same label get selectors that tell them apart.  Selectors are read back
  from their text with the label in base64.  (Expected of the details: a hash determines the label,
  hashes have no dot, and no client is labelled as the unknown one.)
\<close>
theorem client_rows_partition:
  assumes "plain_clients (mset (map snd ds))" "sums_fit (mset (map snd ds))"
    "mset accs = mset (accumulate_clients cost ds)" "\<And>gs. mset (visit gs) = mset gs"
  shows "(\<forall>(n, d)\<in>set ds. length (filter (\<lambda>s. clientAPISelectorMatchesDetail (ca_Selector s) d)
       (clientAPIStatsFromAccumulators visit accs)) = 1) \<and>
    (\<forall>s\<in>set (clientAPIStatsFromAccumulators visit accs).
       tally_ok (ca_tally s) (mset (filter (clientAPISelectorMatchesDetail (ca_Selector s)) (map snd ds))))"
proof -
  let ?D = "mset (map snd ds)"
  define rows where "rows = coalesceMaskedClientAPIStats visit (map client_row (map snd accs))"
  have sr: "split_rows ?D rows"
    unfolding rows_def by (rule coalesce_rows [OF accumulated_rows [OF assms(1-3)] assms(2,4)])
  define listed where "listed = map (\<lambda>s. s\<lparr> ca_Selector := row_selector rows s \<rparr>) rows"
  have l: "clientAPIStatsFromAccumulators visit accs = sortClientAPIStats listed"
    by (simp add: clientAPIStatsFromAccumulators_def clientAPIStatsFromAccumulatorValues_def Let_def rows_def listed_def)
  have len: "length (filter P (sortClientAPIStats listed)) = length (filter P listed)" for P
    by (simp add: sortClientAPIStats_def filter_sort)
  have "length (filter (\<lambda>s. clientAPISelectorMatchesDetail (ca_Selector s) d) listed) = 1" if "(n, d) \<in> set ds" for n d
  proof -
    have "d \<in># ?D" using that by force
    from one_row [OF sr assms(1) this] show ?thesis by (simp add: listed_def filter_map o_def)
  qed
  moreover have "tally_ok (ca_tally s) (mset (filter (clientAPISelectorMatchesDetail (ca_Selector s)) (map snd ds)))"
    if s: "s \<in> set listed" for s
  proof -
    obtain i where i: "i < length rows" "s = (rows ! i)\<lparr> ca_Selector := row_selector rows (rows ! i) \<rparr>"
      using s unfolding listed_def by (auto simp: in_set_conv_nth)
    have "exact ?D (rows ! i) \<or> joined ?D (rows ! i)" using sr i(1) unfolding split_rows_def by simp
    then obtain e where e: "e \<in># ?D" unfolding exact_def joined_def by auto
    note sel = selects_row(1) [OF sr assms(1) i(1)] and ok = selects_row(2) [OF sr assms(1) i(1) e]
    have "mset (filter (clientAPISelectorMatchesDetail (ca_Selector s)) (map snd ds)) =
        filter_mset (clientAPISelectorMatchesDetail (row_selector rows (rows ! i))) ?D"
      by (simp add: i(2) mset_filter del: mset_map)
    also have "\<dots> = filter_mset (\<lambda>d. if 1 < length (filter (\<lambda>t. row_label t = row_label (rows ! i)) rows)
        then client_id d = row_id (rows ! i) else clientAPIGroupLabel d = row_label (rows ! i)) ?D"
      by (rule filter_mset_cong [OF refl]) (rule sel)
    finally show ?thesis using ok by (simp only: i(2)) simp
  qed
  ultimately show ?thesis
    unfolding l len using set_sort by (fastforce simp: sortClientAPIStats_def)
qed


text \<open>A masked key with and without its hash, and a client that sent no key.\<close>

definition keyed_detail :: "string \<Rightarrow> string \<Rightarrow> RequestDetail" where
  "keyed_detail label hash = sample_detail\<lparr> rd_APIKey := label, rd_APIKeyHash := hash \<rparr>"

definition client_requests :: "(string \<times> RequestDetail) list" where
  "client_requests = [(''m'', keyed_detail ''sk******xy'' ''0af3''), (''m'', keyed_detail [] []),
     (''m'', keyed_detail ''sk******xy'' []), (''m'', keyed_detail ''sk******xy'' ''0af3'')]"

definition client_rows :: "ClientAPIStat list" where
  "client_rows = clientAPIStatsFromAccumulators (\<lambda>gs. gs) (accumulate_clients (\<lambda>_. Fin 0) client_requests)"

lemma keyed_weight: "wide_weight c (keyed_detail l h) = wide_weight c sample_detail"
proof -
  have t: "detailTotalsFromRequest (keyed_detail l h) = detailTotalsFromRequest sample_detail"
    by (simp add: keyed_detail_def detailTotalsFromRequest_def detailTotalTokensForRequest_def Let_def)
  have "weight k (keyed_detail l h) = weight k sample_detail" for k
    by (cases k) (simp_all only: weight.simps t, simp_all add: keyed_detail_def)
  then show ?thesis by (cases c) (simp_all add: t)
qed

lemma client_requests_fit: "sums_fit (mset (map snd client_requests))"
proof -
  have "\<forall>c. 4 * wide_weight c sample_detail \<le> MaxInt64"
    unfolding wide_all counter_all by code_simp
  then show ?thesis by (simp add: sums_fit_def client_requests_def keyed_weight)
qed

lemma client_requests_plain: "plain_clients (mset (map snd client_requests))"
  unfolding plain_clients_def client_requests_def list.map mset.simps snd_conv by code_simp

lemma client_rows_partition_witness:
  "list_all (\<lambda>(n, d). length (filter (\<lambda>s. clientAPISelectorMatchesDetail (ca_Selector s) d) client_rows) = 1) client_requests \<and>
   list_all (\<lambda>s. tally_ok (ca_tally s)
      (mset (filter (clientAPISelectorMatchesDetail (ca_Selector s)) (map snd client_requests)))) client_rows \<and>
   map (\<lambda>(n, d). clientAPISelectorMatchesDetail ''h.0af3.c2sqKioqKip4eQ'' d) client_requests = [True, False, True, True]"
proof (intro conjI)
  note r = client_rows_partition [OF client_requests_plain client_requests_fit refl refl, of "\<lambda>_. Fin 0", folded client_rows_def]
  show "list_all (\<lambda>(n, d). length (filter (\<lambda>s. clientAPISelectorMatchesDetail (ca_Selector s) d) client_rows) = 1) client_requests"
    unfolding list_all_iff by (rule conjunct1 [OF r])
  show "list_all (\<lambda>s. tally_ok (ca_tally s)
      (mset (filter (clientAPISelectorMatchesDetail (ca_Selector s)) (map snd client_requests)))) client_rows"
    unfolding list_all_iff by (rule conjunct2 [OF r])
  show "map (\<lambda>(n, d). clientAPISelectorMatchesDetail ''h.0af3.c2sqKioqKip4eQ'' d) client_requests = [True, False, True, True]"
    by code_simp
qed

end
