(* ===== verification/Spec2Isabelle.thy ===== *)
theory Spec2Isabelle
  imports Reconcile AccountingBlocks QuotaSnapshots StorageSchedule StorageDurability ExportJobsInvariant EventListing ClientListing
begin

text \<open>
  A verification library of the usage-statistics plugin (Go, directory \<open>src/go\<close>).

  \<^bold>\<open>The program.\<close>  The plugin receives one usage record per request that a proxy has served,
  stores it as a \<open>RequestDetail\<close> and keeps counters over the stored details: totals, and statistics
  per day, hour, health bucket, API, model, provider, source, credential and client.  Per model it
  shows the last details (a window) and keeps the older ones in a compact archive.  Details leave
  when they are older than the retention.  Requests that were seen within a window of time are
  rejected as duplicates.  Costs come from price tables with time-based rules.  Details that belong
  to a quota credential also become quota facts, with tombstones for deleted ones.

  \<^bold>\<open>The theories\<close>, in the order of the data flow:
    \<^item> \<open>Prelude\<close>: Go maps as association lists (a theorem for all lists is a theorem for every
      iteration order), 64-bit counters as bounded integers.
    \<^item> \<open>GoTime\<close>, \<open>GoStrings\<close>, \<open>GoFloat\<close>: what the source uses of the standard library: instants
      and durations, strings as bytes, float64 with its rounding, infinities and NaN.
    \<^item> \<open>Types\<close> (\<open>types.go\<close>): usage records, details, prices and statistics.
    \<^item> \<open>Tokens\<close> (\<open>stats.go\<close>, \<open>protocol_fallback.go\<close>, \<open>response_intercept.go\<close>): from the token
      fields of a record to the counted totals, per convention of the provider.
    \<^item> \<open>ModelAlias\<close> (\<open>model_alias.go\<close>): decoding of cloaked catalog names.
    \<^item> \<open>SourceKeys\<close> (\<open>source.go\<close>): names of sources, the header whitelist, redaction of keys.
    \<^item> \<open>DetailKeys\<close> (\<open>stats.go\<close>, \<open>claude_cache_repair.go\<close>): group keys, dedup keys, the repair of
      doubled cache tokens.
    \<^item> \<open>Pricing\<close>, \<open>Costs\<close> (\<open>stats.go\<close>): price rules, price tables, the cost of a request.
    \<^item> \<open>Accounting\<close> (\<open>accounting.go\<close>, \<open>event_index.go\<close>): the retained details of a model.
    \<^item> \<open>AccountingBlocks\<close> (\<open>accounting_blocks.go\<close>, \<open>accounting_identity.go\<close>): how the archive is stored:
      blocks shared with frozen snapshots, on an explicit heap, as a refinement of the list that
      \<open>Accounting\<close> uses; interned identities.
    \<^item> \<open>Counters\<close>, \<open>Dimensions\<close>, \<open>GroupStats\<close> (\<open>stats.go\<close>): the incremental statistics, with the
      locales that say what a keyed statistic promises and their interpretations.
    \<^item> \<open>Quota\<close> (\<open>quota_cycles.go\<close>, \<open>quota_storage.go\<close>): quota facts and tombstones.
    \<^item> \<open>QuotaPeriods\<close>, \<open>QuotaWindows\<close> (\<open>quota_cycles.go\<close>, \<open>quota_pricing.go\<close>, \<open>quota_storage.go\<close>):
      the observed quota windows as a state machine, with compaction, reset archives, expiry and
      merging; \<open>QuotaWindowsInvariant\<close>: its invariant; \<open>QuotaSnapshots\<close>: snapshots, their validation
      and repair, and the theorems about every run.
    \<^item> \<open>Ledger\<close> (\<open>stats.go\<close>, \<open>accounting.go\<close>): the whole state and its operations;
      \<open>LedgerInvariant\<close> and \<open>LedgerProperties\<close>: its invariant and theorems.
    \<^item> \<open>Metadata\<close> (\<open>stats.go\<close>): the fields that are filled in after a detail was recorded.
    \<^item> \<open>Correlation\<close>, \<open>CorrelationEdge\<close> (\<open>protocol_fallback.go\<close>): the possible readings of the token
      counts of a record, the test whether a fallback record and a native one are the same request
      seen through two protocols, and the indexed search for all such edges.
    \<^item> \<open>Matching\<close> (\<open>protocol_fallback.go\<close>): the assignment of fallbacks to natives by successive
      shortest paths.  \<open>ShortestPaths\<close> proves that the queue search ends with shortest distances
      when there is no negative cycle, \<open>AssignmentFlow\<close> that a round keeps the flow a matching and
      that the rounds end, \<open>AssignmentGraph\<close> that the graph is built as meant, \<open>OptimalMatching\<close>
      that no augmenting path means a largest and best matching, \<open>MatchingProperties\<close> the theorem.
    \<^item> \<open>Pairing\<close>, \<open>Reconcile\<close> (\<open>protocol_fallback.go\<close>): the pairs of all partitions, and the repair of
      the ledger that removes the paired fallbacks and keeps every counter exact.
    \<^item> \<open>EventOrder\<close>, \<open>EventIndex\<close> (\<open>event_index.go\<close>, \<open>stats.go\<close>): the events of the dashboard list, their
      order, the backward merge of sorted indexes; the indexes with their queue, builds, refresh and
      admission, and the ledger operations with their effect on them.  \<open>EventInvariant\<close>,
      \<open>EventSteps\<close>, \<open>EventRemoval\<close>: the invariant of the indexes and that every operation keeps it;
      \<open>EventListing\<close>: the index that a query gets is the sorted scan of the visible details.
    \<^item> \<open>ClientSelectors\<close>, \<open>ClientList\<close> (\<open>stats.go\<close>): the client list of the dashboard: its rows, the
      joining of masked keys with the rows of their hashes, the selectors with their parser;
      \<open>ClientRows\<close>, \<open>ClientListing\<close>: the rows partition the requests.
    \<^item> \<open>StorageFiles\<close>: what the storage worker uses of the operating system and of \<open>bufio\<close>, with the
      clock readings and the failures of calls as inputs; \<open>StorageWorker\<close> (\<open>stats.go\<close>,
      \<open>storage_schedule.go\<close>, \<open>storage_snapshot_stream.go\<close>): the goroutine that writes the journal, its
      queue and its loop; \<open>StorageSchedule\<close>: its timer is set for the first moment with work to do;
      \<open>StorageJournal\<close>, \<open>StorageDurability\<close>: the invariant of the journal on disk under every failure,
      and what the disk holds after the worker has stopped.
    \<^item> \<open>ExportJobs\<close> (\<open>dashboard_export_jobs.go\<close>): the table of export jobs and its goroutines as a step
      relation; \<open>ExportJobsInvariant\<close>: limits, files and finished jobs in every reachable state.

  \<^bold>\<open>How the proofs hang together.\<close>  The abstract value of the ledger is the multiset of its
  retained details, each with its API and model.  \<open>ledger_ok\<close> says that every counter is the sum
  over that multiset; recording, removal and rebuild keep it and change the multiset as specified.
  Reconciliation is proved over the same multiset: enriching a detail changes nothing that a counter
  depends on (\<open>plain\<close>), and removing one is the removal of expiry, at a position.
  Counters saturate at the largest int64, so the statements assume \<open>sums_fit\<close>: the sums themselves
  fit into an int64.  Costs are floating-point sums, which depend on the order of the additions; what
  holds of them for every order is that they are finite and never negative.

  \<^bold>\<open>Bounds and fuel.\<close>  No definition uses fuel.  The loops without a structural measure are the
  redaction of keys, the queue of the shortest-path search (\<open>while_option\<close>) and the rounds of the
  assignment with their walk along a path (partial functions in the option monad).  That each of them
  returns is part of a theorem (\<open>redactKeys_total_clean\<close>, \<open>matching_is_optimal\<close>), so no statement is
  restricted to runs that happen to end.

  \<^bold>\<open>Parameters.\<close>  The time-zone data (a function from instants to offsets), the hash of legacy
  record IDs, the hash of the Antigravity pools and the fresh IDs of price rules are arguments of the
  definitions that use them.  So are the JSON encoding of journal rows and the identifiers of export
  jobs; the failures of calls to the operating system are a list in the state.  How much memory Go
  reserves for a slice decides which dashboard indexes are kept: the answers are the parameters
  \<open>fits\<close> and \<open>grew\<close>, and the theorem holds for any.  A \<open>dashboardEventRef\<close> is named by API, model and
  sequence number, and its pointer is the visible detail with that number.

  \<^bold>\<open>Not modelled.\<close>  SQLite, a data base behind SQL statements; HTTP routing, JSON and the encoders of
  exports; the replay of the journal at start, which is parsing; the response caches,
  the paging of the dashboard and its summaries over ranges of time; the regular expressions of the
  redaction.  Lowering is modelled for ASCII letters only (\<open>GoStrings\<close>); \<open>strings.EqualFold\<close> also folds
  the long s and the Kelvin sign, which is where it differs from lowering, so the theorems about the
  search for edges ask for ASCII names and \<open>long_s_edge_is_missed\<close> shows what happens without.  Locks
  are not modelled as such: a section under a mutex is one operation, and the theorems about runs
  quantify over every order of the operations.
\<close>

end
